(* ===== verification/Prelude.thy ===== *)
theory Prelude
  imports Main "HOL-Library.Word"
begin

text \<open>
  What the component theories share: the names of the C types, the outcome type of code
  that can fail, the rounding macros of \<open>klib-macros.h\<close>, arrays with their
  bounds, and generic lemmas on words and lists.

  A C expression that may fail (an \<open>assert\<close>, a \<open>panic\<close>, a NULL or
  out-of-range access, undefined behaviour, a loop that spins for ever) is a value of
  \<open>'a result\<close>: \<open>Inl\<close> names the failure, \<open>Inr\<close> carries the value.
\<close>

unbundle bit_operations_syntax

section \<open>C types\<close>

type_synonym u8 = "8 word"
type_synonym u16 = "16 word"
type_synonym u32 = "32 word"
type_synonym u64 = "64 word"

text \<open>\<open>uintptr_t\<close>, \<open>size_t\<close> and pointers on x86-64; NULL is 0.\<close>

type_synonym addr = "64 word"

abbreviation NULL :: addr where
  "NULL \<equiv> 0"

section \<open>Outcomes\<close>

datatype fault =
    Assert_Fail
  | Panic
  | Null_Deref
  | Out_Of_Bounds
  | Undefined_Behaviour
  | Spin_Forever

type_synonym 'a result = "fault + 'a"

definition bindR :: "'a result \<Rightarrow> ('a \<Rightarrow> 'b result) \<Rightarrow> 'b result" where
  "bindR m k = (case m of Inl e \<Rightarrow> Inl e | Inr x \<Rightarrow> k x)"

definition guardR :: "fault \<Rightarrow> bool \<Rightarrow> unit result" where
  "guardR e b = (if b then Inr () else Inl e)"

named_theorems outcome \<open>unfolding of outcomes\<close>

lemma bindR_simps [simp, outcome]:
  "bindR (Inl e) k = Inl e"
  "bindR (Inr x) k = k x"
  by (simp_all add: bindR_def)

lemma bindR_Inr_iff [outcome]:
  "bindR m k = Inr y \<longleftrightarrow> (\<exists>x. m = Inr x \<and> k x = Inr y)"
  by (cases m) simp_all

lemma bindR_assoc: "bindR (bindR m f) g = bindR m (\<lambda>x. bindR (f x) g)"
  by (cases m) simp_all

lemma guardR_Inr [simp]: "guardR e b = Inr u \<longleftrightarrow> b"
  by (simp add: guardR_def)

lemma guardR_True [simp]: "guardR e True = Inr ()"
  by (simp add: guardR_def)

lemma guardR_False [simp]: "guardR e False = Inl e"
  by (simp add: guardR_def)

text \<open>
  A call that may never return, as an outcome: \<open>None\<close> is divergence.
\<close>

definition returns :: "'a result option \<Rightarrow> 'a result" where
  "returns r = (case r of None \<Rightarrow> Inl Spin_Forever | Some x \<Rightarrow> x)"

lemma returns_simps [simp]: "returns None = Inl Spin_Forever" "returns (Some x) = x"
  by (simp_all add: returns_def)

text \<open>Functions with fuel: \<open>None\<close> says that it is used up.\<close>

definition bindF :: "'a result option \<Rightarrow> ('a \<Rightarrow> 'b result option) \<Rightarrow> 'b result option" where
  "bindF m k = (case m of None \<Rightarrow> None | Some (Inl e) \<Rightarrow> Some (Inl e) | Some (Inr x) \<Rightarrow> k x)"

lemma bindF_simps [simp]:
  "bindF None k = None" "bindF (Some (Inl e)) k = Some (Inl e)" "bindF (Some (Inr x)) k = k x"
  by (simp_all add: bindF_def)

lemma bindF_cong [fundef_cong]:
  "m = m' \<Longrightarrow> (\<And>x. m' = Some (Inr x) \<Longrightarrow> k x = k' x) \<Longrightarrow> bindF m k = bindF m' k'"
  by (auto simp: bindF_def split: option.splits sum.splits)

section \<open>Arrays with bounds\<close>

text \<open>
  A C array of fixed length as a list; an access outside it is a failure of its own, not
  an unspecified value.
\<close>

definition arr_get :: "'a list \<Rightarrow> nat \<Rightarrow> 'a result" where
  "arr_get xs i = (if i < length xs then Inr (xs ! i) else Inl Out_Of_Bounds)"

definition arr_set :: "'a list \<Rightarrow> nat \<Rightarrow> 'a \<Rightarrow> 'a list result" where
  "arr_set xs i v = (if i < length xs then Inr (xs[i := v]) else Inl Out_Of_Bounds)"

lemma arr_get_in [simp]: "i < length xs \<Longrightarrow> arr_get xs i = Inr (xs ! i)"
  by (simp add: arr_get_def)

lemma arr_set_in [simp]: "i < length xs \<Longrightarrow> arr_set xs i v = Inr (xs[i := v])"
  by (simp add: arr_set_def)

lemma arr_get_Inr: "arr_get xs i = Inr x \<longleftrightarrow> i < length xs \<and> x = xs ! i"
  by (auto simp: arr_get_def)

lemma arr_set_Inr: "arr_set xs i v = Inr ys \<longleftrightarrow> i < length xs \<and> ys = xs[i := v]"
  by (auto simp: arr_set_def)

section \<open>Rounding macros of klib-macros.h\<close>

definition ROUNDUP :: "u64 \<Rightarrow> u64 \<Rightarrow> u64" where
  "ROUNDUP a sz = (a + sz - 1) AND NOT (sz - 1)"

definition ROUNDDOWN :: "u64 \<Rightarrow> u64 \<Rightarrow> u64" where
  "ROUNDDOWN a sz = a AND NOT (sz - 1)"

text \<open>Clearing the low \<open>k\<close> bits rounds down to a multiple of \<open>2 ^ k\<close>.\<close>

lemma and_not_low_bits:
  fixes x :: "'a::len word"
  shows "x AND NOT (2 ^ k - 1) = push_bit k (drop_bit k x)"
  by (rule bit_word_eqI) (auto simp: bit_simps simp flip: mask_eq_exp_minus_1)

lemma unat_and_not_low_bits:
  fixes x :: "'a::len word"
  shows "unat (x AND NOT (2 ^ k - 1)) = (unat x div 2 ^ k) * 2 ^ k"
proof -
  have le: "(unat x div 2 ^ k) * 2 ^ k < 2 ^ LENGTH('a)"
    by (rule le_less_trans [OF div_times_less_eq_dividend unsigned_less])
  have "unat (push_bit k (drop_bit k x)) = take_bit LENGTH('a) (push_bit k (drop_bit k (unat x)))"
    by (simp only: unsigned_push_bit_eq unat_drop_bit_eq)
  then have "unat (push_bit k (drop_bit k x)) = (unat x div 2 ^ k) * 2 ^ k mod 2 ^ LENGTH('a)"
    by (simp only: drop_bit_eq_div take_bit_eq_mod push_bit_eq_mult)
  with le show ?thesis by (simp only: and_not_low_bits mod_less)
qed

lemma ROUNDDOWN_nat: "unat (ROUNDDOWN a (2 ^ k)) = (unat a div 2 ^ k) * 2 ^ k"
  by (simp add: ROUNDDOWN_def unat_and_not_low_bits)

lemma unat_of_nat_small: "n < 2 ^ LENGTH('a) \<Longrightarrow> unat (word_of_nat n :: 'a::len word) = n"
  by (simp only: unat_of_nat mod_less)

lemma sint_small: "uint w < 2 ^ (LENGTH('a) - 1) \<Longrightarrow> sint (w :: 'a::len word) = uint w"
  unfolding sint_uint by (rule signed_take_bit_int_eq_self) (simp_all add: order_trans [OF _ uint_ge_0])

lemma unat64_of_nat: "n < 2 ^ 64 \<Longrightarrow> unat (word_of_nat n :: 64 word) = n"
  by (rule unat_of_nat_small) simp

lemma unat_pow2:
  assumes "k < LENGTH('a)"
  shows "unat (2 ^ k :: 'a::len word) = 2 ^ k"
proof -
  have "(2::nat) ^ k < 2 ^ LENGTH('a)" using assms by (simp only: power_strict_increasing_iff)
  then have "unat (word_of_nat (2 ^ k) :: 'a word) = 2 ^ k"
    by (simp only: unat_of_nat mod_less)
  then show ?thesis by simp
qed

lemma ROUNDUP_nat:
  assumes "k < 64" and "unat a + 2 ^ k \<le> 2 ^ 64"
  shows "unat (ROUNDUP a (2 ^ k)) = ((unat a + 2 ^ k - 1) div 2 ^ k) * 2 ^ k"
proof -
  have pos: "(1::nat) \<le> 2 ^ k" by simp
  have p: "unat (2 ^ k :: u64) = 2 ^ k" using assms(1) by (simp add: unat_pow2)
  then have "(2 ^ k :: u64) \<noteq> 0" using pos by (metis unat_0 not_one_le_zero)
  then have k: "unat (2 ^ k - 1 :: u64) = 2 ^ k - 1" by (simp add: unat_minus_one p)
  have "unat a + unat (2 ^ k - 1 :: u64) < 2 ^ 64" using assms(2) pos by (simp add: k)
  then have "unat (a + (2 ^ k - 1)) = unat a + (2 ^ k - 1)"
    by (subst unat_add_lem[THEN iffD1]) (simp_all add: k)
  then show ?thesis
    using pos by (simp add: ROUNDUP_def unat_and_not_low_bits add_diff_eq)
qed

end
