(* ===== verification/Lock.thy ===== *)
theory Lock
  imports Prelude
begin

text \<open>
  \<open>kernel/src/lock.c\<close>: the size-class computation \<open>ROUND_SELF\<close> and the
  spinning mutex \<open>lockinit\<close>, \<open>lock\<close>, \<open>unlock\<close> over
  \<open>atomic_xchg\<close>.  The mutex is modelled twice: as the sequential code, which one
  thread runs (spinning for ever on a lock nobody releases), and as a step relation in
  which any number of threads interleave their \<open>atomic_xchg\<close> instructions.
\<close>

section \<open>Size classes\<close>

text \<open>The loop of \<open>ROUND_SELF\<close>; \<open>None\<close> is a loop that never ends.\<close>

partial_function (option) ROUND_SELF_loop :: "u64 \<Rightarrow> u64 \<Rightarrow> int \<Rightarrow> int option" where
  "ROUND_SELF_loop x i count =
     (if i < x then ROUND_SELF_loop x (push_bit 1 i) (count + 1) else Some count)"

definition ROUND_SELF :: "u64 \<Rightarrow> int option" where
  "ROUND_SELF x = ROUND_SELF_loop x 1 0"

lemma push_bit_1_pow2: "push_bit 1 (2 ^ k :: u64) = 2 ^ Suc k"
  by (simp add: push_bit_eq_mult)

lemma ROUND_SELF_loop_returns:
  assumes "k \<le> 63" and "unat x \<le> 2 ^ 63" and "\<forall>j<k. 2 ^ j < unat x"
  shows "\<exists>m. ROUND_SELF_loop x (2 ^ k) (int k) = Some (int m) \<and> m \<le> 63 \<and>
           unat x \<le> 2 ^ m \<and> (\<forall>j<m. 2 ^ j < unat x)"
  using assms
proof (induction "63 - k" arbitrary: k)
  case 0
  then have k: "k = 63" by simp
  have "unat (2 ^ k :: u64) = 2 ^ k" using k by (simp add: unat_pow2)
  then have "\<not> (2 ^ k :: u64) < x" using 0 k by (simp add: word_less_nat_alt)
  then show ?case using 0 k
    by (intro exI [of _ k]) (subst ROUND_SELF_loop.simps, auto)
next
  case (Suc d)
  then have k: "k < 63" by simp
  then have u: "unat (2 ^ k :: u64) = 2 ^ k" by (simp add: unat_pow2)
  show ?case
  proof (cases "2 ^ k < unat x")
    case True
    have "\<forall>j<Suc k. 2 ^ j < unat x" using Suc.prems(3) True by (auto simp: less_Suc_eq)
    moreover have "d = 63 - Suc k" "Suc k \<le> 63" using Suc.hyps(2) k by auto
    ultimately have "\<exists>m. ROUND_SELF_loop x (2 ^ Suc k) (int (Suc k)) = Some (int m) \<and> m \<le> 63 \<and>
        unat x \<le> 2 ^ m \<and> (\<forall>j<m. 2 ^ j < unat x)"
      using Suc.hyps(1) [of "Suc k"] Suc.prems(2) by blast
    moreover have "(2 ^ k :: u64) < x" using True u by (simp add: word_less_nat_alt)
    ultimately show ?thesis
      by (subst ROUND_SELF_loop.simps) (simp only: push_bit_1_pow2 if_True of_nat_Suc add.commute)
  next
    case False
    then have "\<not> (2 ^ k :: u64) < x" using u by (simp add: word_less_nat_alt)
    then show ?thesis using False Suc.prems k
      by (intro exI [of _ k]) (subst ROUND_SELF_loop.simps, auto)
  qed
qed

text \<open>A returning loop started from 0 or a power of two had a size it could reach.\<close>

definition pow2_or_0 :: "u64 \<Rightarrow> bool" where
  "pow2_or_0 i \<longleftrightarrow> i = 0 \<or> (\<exists>k\<le>63. i = 2 ^ k)"

lemma pow2_or_0_shift: "pow2_or_0 i \<Longrightarrow> pow2_or_0 (push_bit 1 i)"
proof -
  assume "pow2_or_0 i"
  then consider "i = 0" | k where "k < 63" "i = 2 ^ k" | "i = 2 ^ 63"
    unfolding pow2_or_0_def by (metis le_neq_implies_less)
  then show ?thesis
  proof cases
    case (2 k)
    then show ?thesis unfolding pow2_or_0_def
      by (intro disjI2 exI [of _ "Suc k"] conjI) (simp, simp only: push_bit_1_pow2)
  qed (simp_all add: pow2_or_0_def)
qed

lemma pow2_or_0_bound: "pow2_or_0 i \<Longrightarrow> unat i \<le> 2 ^ 63"
proof -
  assume "pow2_or_0 i"
  then consider "i = 0" | k where "k \<le> 63" "i = 2 ^ k"
    unfolding pow2_or_0_def by blast
  then show ?thesis
  proof cases
    case (2 k)
    then have "unat i = 2 ^ k" by (simp add: unat_pow2)
    also have "(2::nat) ^ k \<le> 2 ^ 63" using 2(1) by (intro power_increasing) auto
    finally show ?thesis .
  qed simp
qed

lemma ROUND_SELF_loop_diverges:
  assumes "ROUND_SELF_loop x i c = Some r" and "pow2_or_0 i"
  shows "unat x \<le> 2 ^ 63"
proof -
  let ?P = "\<lambda>x i (c::int) (r::int). pow2_or_0 i \<longrightarrow> unat x \<le> 2 ^ 63"
  note rl = ROUND_SELF_loop.raw_induct
    [where P = ?P and xa = "((x, i), c)" and y = r, simplified prod.case]
  have "?P x i c r"
  proof (rule rl [OF _ assms(1)])
    fix f :: "u64 \<Rightarrow> u64 \<Rightarrow> int \<Rightarrow> int option" and x i c r
    assume IH: "\<And>x i c r. f x i c = Some r \<Longrightarrow> ?P x i c r"
      and eq: "(if i < x then f x (push_bit 1 i) (c + 1) else Some c) = Some r"
    show "?P x i c r"
    proof (cases "i < x")
      case True
      then show ?thesis using eq IH pow2_or_0_shift by auto
    next
      case False
      then have "unat x \<le> unat i" by (simp add: word_less_nat_alt)
      then show ?thesis using pow2_or_0_bound le_trans by blast
    qed
  qed
  then show ?thesis using assms(2) by blast
qed

text \<open>The least exponent of a power of two that is at least \<open>n\<close>.\<close>

definition ceil_log2 :: "nat \<Rightarrow> nat" where
  "ceil_log2 n = (LEAST k. n \<le> 2 ^ k)"

lemma ceil_log2_eqI: "n \<le> 2 ^ k \<Longrightarrow> (\<And>j. j < k \<Longrightarrow> 2 ^ j < n) \<Longrightarrow> ceil_log2 n = k"
  unfolding ceil_log2_def by (rule Least_equality) (auto simp: not_less [symmetric] not_le)

lemma ceil_log2_pow2: "ceil_log2 (2 ^ k) = k"
  by (rule ceil_log2_eqI) (auto intro: power_strict_increasing)

lemma ceil_log2_ge: "n \<le> 2 ^ ceil_log2 n"
  unfolding ceil_log2_def by (rule LeastI [of _ n]) (simp add: less_imp_le)

lemma ceil_log2_le: "n \<le> 2 ^ k \<Longrightarrow> ceil_log2 n \<le> k"
  unfolding ceil_log2_def by (rule Least_le)

lemma ROUND_SELF_eq:
  "ROUND_SELF x = (if unat x \<le> 2 ^ 63 then Some (int (ceil_log2 (unat x))) else None)"
proof (cases "unat x \<le> 2 ^ 63")
  case True
  then obtain k where "ROUND_SELF x = Some (int k)" "unat x \<le> 2 ^ k" "\<forall>j<k. 2 ^ j < unat x"
    using ROUND_SELF_loop_returns [of 0 x] by (auto simp: ROUND_SELF_def)
  then show ?thesis using True by (simp add: ceil_log2_eqI)
next
  case False
  have "pow2_or_0 1" unfolding pow2_or_0_def by (intro disjI2 exI [of _ 0]) simp
  then have "ROUND_SELF_loop x 1 0 = None"
    using False ROUND_SELF_loop_diverges [of x 1 0] by (cases "ROUND_SELF_loop x 1 0") auto
  with False show ?thesis by (simp add: ROUND_SELF_def)
qed

section \<open>The mutex, as one thread runs it\<close>

record lock_t =
  flag :: u32

text \<open>\<open>lock xchg\<close>: the old value is returned, the new one stored.\<close>

definition atomic_xchg :: "u32 \<Rightarrow> u32 \<Rightarrow> u32 \<times> u32" where
  "atomic_xchg old newval = (old, newval)"

definition lockinit :: "lock_t \<Rightarrow> lock_t" where
  "lockinit m = m\<lparr>flag := 0\<rparr>"

partial_function (option) lock :: "lock_t \<Rightarrow> lock_t option" where
  "lock m =
     (case atomic_xchg (flag m) 1 of (result, new) \<Rightarrow>
        if result \<noteq> 0 then lock (m\<lparr>flag := new\<rparr>) else Some (m\<lparr>flag := new\<rparr>))"

definition unlock :: "lock_t \<Rightarrow> lock_t" where
  "unlock m = m\<lparr>flag := snd (atomic_xchg (flag m) 0)\<rparr>"

lemma lock_free: "flag m = 0 \<Longrightarrow> lock m = Some (m\<lparr>flag := 1\<rparr>)"
  by (subst lock.simps) (simp add: atomic_xchg_def)

lemma lock_held_aux: "lock m = Some r \<Longrightarrow> flag m = 0"
proof (rule lock.raw_induct [where P = "\<lambda>m r. flag m = 0"])
  fix f m r
  assume IH: "\<And>m r. f m = Some r \<Longrightarrow> flag m = 0"
    and eq: "(case atomic_xchg (flag m) 1 of (result, new) \<Rightarrow>
      if result \<noteq> 0 then f (m\<lparr>flag := new\<rparr>) else Some (m\<lparr>flag := new\<rparr>)) = Some r"
  show "flag m = 0"
    using IH [of "m\<lparr>flag := 1\<rparr>" r] eq by (cases "flag m = 0") (simp_all add: atomic_xchg_def)
qed

lemma lock_held: "flag m \<noteq> 0 \<Longrightarrow> lock m = None"
  using lock_held_aux by (cases "lock m") auto

lemma lock_eq: "lock m = (if flag m = 0 then Some (m\<lparr>flag := 1\<rparr>) else None)"
  by (simp add: lock_free lock_held)

text \<open>Inside the kernel a call of \<open>lock\<close> that never returns stops the caller.\<close>

definition lock_wait :: "lock_t \<Rightarrow> lock_t result" where
  "lock_wait m = (case lock m of None \<Rightarrow> Inl Spin_Forever | Some m' \<Rightarrow> Inr m')"

lemma lock_wait_free [simp]: "flag m = 0 \<Longrightarrow> lock_wait m = Inr (m\<lparr>flag := 1\<rparr>)"
  by (simp add: lock_wait_def lock_eq)

lemma lock_wait_Inr: "lock_wait m = Inr m' \<longleftrightarrow> flag m = 0 \<and> m' = m\<lparr>flag := 1\<rparr>"
  by (auto simp: lock_wait_def lock_eq)

lemma flag_unlock [simp]: "flag (unlock m) = 0"
  by (simp add: unlock_def atomic_xchg_def)

lemma flag_lockinit [simp]: "flag (lockinit m) = 0"
  by (simp add: lockinit_def)

lemma unlock_lock [simp]: "flag m = 0 \<Longrightarrow> unlock (m\<lparr>flag := f\<rparr>) = m"
  by (cases m) (simp add: unlock_def atomic_xchg_def)

section \<open>The mutex under interleaving\<close>

datatype lock_pc = Outside | Spinning | Inside

record lock_sys =
  the_lock :: lock_t
  pc :: "nat \<Rightarrow> lock_pc"

definition lock_start :: lock_sys where
  "lock_start = \<lparr>the_lock = lockinit \<lparr>flag = 0\<rparr>, pc = (\<lambda>_. Outside)\<rparr>"

text \<open>
  One step is one thread calling \<open>lock\<close>, executing the \<open>atomic_xchg\<close> of its loop
  (and staying in it or leaving it), or executing the \<open>atomic_xchg\<close> of \<open>unlock\<close>.
\<close>

inductive lock_step :: "lock_sys \<Rightarrow> lock_sys \<Rightarrow> bool" where
  call: "pc s t = Outside \<Longrightarrow> lock_step s (s\<lparr>pc := (pc s)(t := Spinning)\<rparr>)"
| spin: "pc s t = Spinning \<Longrightarrow> atomic_xchg (flag (the_lock s)) 1 = (result, new) \<Longrightarrow>
    result \<noteq> 0 \<Longrightarrow> lock_step s (s\<lparr>the_lock := (the_lock s)\<lparr>flag := new\<rparr>\<rparr>)"
| enter: "pc s t = Spinning \<Longrightarrow> atomic_xchg (flag (the_lock s)) 1 = (result, new) \<Longrightarrow>
    result = 0 \<Longrightarrow>
    lock_step s (s\<lparr>the_lock := (the_lock s)\<lparr>flag := new\<rparr>, pc := (pc s)(t := Inside)\<rparr>)"
| leave: "pc s t = Inside \<Longrightarrow>
    lock_step s (s\<lparr>the_lock := unlock (the_lock s), pc := (pc s)(t := Outside)\<rparr>)"

inductive lock_reachable :: "lock_sys \<Rightarrow> bool" where
  start: "lock_reachable lock_start"
| step: "lock_reachable s \<Longrightarrow> lock_step s s' \<Longrightarrow> lock_reachable s'"

text \<open>The invariant: the flag is 0 or 1, and it is 1 exactly when one thread is inside.\<close>

definition lock_inv :: "lock_sys \<Rightarrow> bool" where
  "lock_inv s \<longleftrightarrow>
     (flag (the_lock s) = 0 \<and> (\<forall>t. pc s t \<noteq> Inside)) \<or>
     (flag (the_lock s) = 1 \<and> (\<exists>t. pc s t = Inside \<and> (\<forall>u. pc s u = Inside \<longrightarrow> u = t)))"

lemma lock_step_inv: "lock_step s s' \<Longrightarrow> lock_inv s \<Longrightarrow> lock_inv s'"
proof (induction rule: lock_step.induct)
  case (call s t)
  have "((pc s)(t := Spinning)) u = Inside \<longleftrightarrow> pc s u = Inside" for u
    using call(1) by simp
  with call(2) show ?case by (simp add: lock_inv_def)
next
  case (spin s t result new)
  then show ?case by (auto simp: lock_inv_def atomic_xchg_def)
next
  case (enter s t result new)
  then have "flag (the_lock s) = 0" and new: "new = 1" by (simp_all add: atomic_xchg_def)
  with enter(4) have "\<forall>u. pc s u \<noteq> Inside" by (simp add: lock_inv_def)
  then show ?case unfolding lock_inv_def
    by (intro disjI2 conjI exI [of _ t]) (simp_all add: new)
next
  case (leave s t)
  then have "\<forall>u. pc s u = Inside \<longrightarrow> u = t" unfolding lock_inv_def by blast
  then show ?case unfolding lock_inv_def by (intro disjI1) auto
qed

lemma lock_reachable_inv: "lock_reachable s \<Longrightarrow> lock_inv s"
proof (induction rule: lock_reachable.induct)
  case start
  show ?case by (simp add: lock_inv_def lock_start_def)
next
  case (step s s')
  then show ?case by (blast intro: lock_step_inv)
qed

section \<open>Properties\<close>

text \<open>\<open>ROUND_SELF\<close> computes the least \<open>k\<close> with \<open>x \<le> 2^k\<close> for
  every size up to \<open>2^63\<close>, and its loop never ends for a larger one: the shifted
  \<open>i\<close> becomes 0 and stays below \<open>x\<close>.\<close>

theorem ROUND_SELF_correct:
  "ROUND_SELF x =
     (if unat x \<le> 2 ^ 63 then Some (int (LEAST k. unat x \<le> 2 ^ k)) else None)"
  using ROUND_SELF_eq [of x] by (simp only: ceil_log2_def)

text \<open>C40. Mutual exclusion: in every reachable state of any number of threads
  interleaving \<open>lock\<close> and \<open>unlock\<close>, at most one thread is inside the critical
  section.\<close>

theorem lock_mutual_exclusion:
  assumes "lock_reachable s" and "pc s t = Inside" and "pc s u = Inside"
  shows "t = u"
  using lock_reachable_inv [OF assms(1)] assms(2,3) by (auto simp: lock_inv_def)

text \<open>A run in which thread 0 enters while thread 1 spins.\<close>

definition lock_example :: lock_sys where
  "lock_example = \<lparr>the_lock = \<lparr>flag = 1\<rparr>,
     pc = (\<lambda>_. Outside)(0 := Inside, 1 := Spinning)\<rparr>"

lemma lock_example_reachable: "lock_reachable lock_example"
proof -
  let ?s1 = "lock_start\<lparr>pc := (pc lock_start)(0 := Spinning)\<rparr>"
  let ?s2 = "?s1\<lparr>the_lock := (the_lock ?s1)\<lparr>flag := 1\<rparr>, pc := (pc ?s1)(0 := Inside)\<rparr>"
  let ?s3 = "?s2\<lparr>pc := (pc ?s2)(1 := Spinning)\<rparr>"
  have 1: "lock_reachable ?s1"
    by (rule lock_reachable.step [OF lock_reachable.start lock_step.call])
      (simp add: lock_start_def)
  have 2: "lock_step ?s1 ?s2"
    by (rule lock_step.enter [of _ 0]) (simp_all add: lock_start_def atomic_xchg_def)
  have 3: "lock_step ?s2 ?s3"
    by (rule lock_step.call) (simp add: lock_start_def)
  have "?s3 = lock_example"
    by (simp add: lock_start_def lock_example_def lockinit_def fun_upd_def fun_eq_iff)
  with lock_reachable.step [OF lock_reachable.step [OF 1 2] 3] show ?thesis by simp
qed

theorem lock_mutual_exclusion_witness:
  "lock_reachable lock_example \<and> pc lock_example 0 = Inside \<and>
   (pc lock_example 1 = Inside \<longleftrightarrow> 1 = (0::nat))"
proof -
  have "pc lock_example 0 = Inside" by (simp add: lock_example_def)
  with lock_mutual_exclusion [OF lock_example_reachable, of 1 0] lock_example_reachable
  show ?thesis by auto
qed

text \<open>Liveness of the mutex: whenever no thread is inside, the next
  \<open>atomic_xchg\<close> of any spinning thread takes the lock.\<close>

theorem lock_available:
  assumes "lock_reachable s" and "\<forall>u. pc s u \<noteq> Inside" and "pc s t = Spinning"
  shows "\<exists>s'. lock_step s s' \<and> pc s' t = Inside"
proof -
  have "flag (the_lock s) = 0"
    using lock_reachable_inv [OF assms(1)] assms(2) by (auto simp: lock_inv_def)
  then have "lock_step s (s\<lparr>the_lock := (the_lock s)\<lparr>flag := 1\<rparr>, pc := (pc s)(t := Inside)\<rparr>)"
    using assms(3) by (intro lock_step.enter) (simp_all add: atomic_xchg_def)
  then show ?thesis by (intro exI conjI) (assumption, simp)
qed

theorem lock_available_witness:
  "\<exists>s s'. lock_reachable s \<and> lock_step s s' \<and> pc s' 0 = Inside"
proof -
  let ?s = "lock_start\<lparr>pc := (pc lock_start)(0 := Spinning)\<rparr>"
  have r: "lock_reachable ?s"
    by (rule lock_reachable.step [OF lock_reachable.start lock_step.call])
      (simp add: lock_start_def)
  have "\<forall>u. pc ?s u \<noteq> Inside" and "pc ?s 0 = Spinning" by (simp_all add: lock_start_def)
  from lock_available [OF r this] obtain s' where "lock_step ?s s' \<and> pc s' 0 = Inside" ..
  with r have "lock_reachable ?s \<and> lock_step ?s s' \<and> pc s' 0 = Inside" ..
  then show ?thesis by (intro exI)
qed

end
