(* ===== verification/FreeList.thy ===== *)
theory FreeList
  imports Prelude
begin

text \<open>
  Intrusive linked lists in a flat memory of 64-bit words, the representation both of the
  allocator's free lists (\<open>struct list\<close> of \<open>common.h\<close>) and of every other
  NULL-terminated chain of the kernel; runs of equally sized blocks; and the interface a
  block allocator offers its clients.
\<close>

section \<open>Chains\<close>

primrec flist :: "(addr \<Rightarrow> addr) \<Rightarrow> addr \<Rightarrow> addr list \<Rightarrow> bool" where
  "flist m p [] = (p = NULL)"
| "flist m p (x # xs) = (p = x \<and> x \<noteq> NULL \<and> flist m (m x) xs)"

lemma flist_NULL [simp]: "flist m NULL xs \<longleftrightarrow> xs = []"
  by (cases xs) auto

lemma flist_unique: "flist m p xs \<Longrightarrow> flist m p ys \<Longrightarrow> xs = ys"
proof (induction xs arbitrary: p ys)
  case (Cons x xs)
  then show ?case by (cases ys) auto
next
  case Nil
  then show ?case by (cases ys) auto
qed

lemma flist_upd [simp]: "x \<notin> set xs \<Longrightarrow> flist (m(x := v)) p xs = flist m p xs"
  by (induction xs arbitrary: p) auto

lemma flist_cong: "(\<And>x. x \<in> set xs \<Longrightarrow> m x = m' x) \<Longrightarrow> flist m p xs = flist m' p xs"
  by (induction xs arbitrary: p) auto

lemma flist_push:
  "flist m h xs \<Longrightarrow> p \<notin> set xs \<Longrightarrow> p \<noteq> NULL \<Longrightarrow> flist (m(p := h)) p (p # xs)"
  by simp

lemma flist_head: "flist m p xs \<Longrightarrow> p \<noteq> NULL \<Longrightarrow> \<exists>ys. xs = p # ys \<and> flist m (m p) ys"
  by (cases xs) auto

section \<open>Runs of blocks\<close>

text \<open>The \<open>n\<close> blocks of \<open>2^k\<close> bytes that start at \<open>p\<close>.\<close>

definition blocks_from :: "addr \<Rightarrow> nat \<Rightarrow> nat \<Rightarrow> addr list" where
  "blocks_from p k n = map (\<lambda>j. word_of_nat (unat p + j * 2 ^ k)) [0..<n]"

lemma blocks_from_0 [simp]: "blocks_from p k 0 = []"
  by (simp add: blocks_from_def)

lemma blocks_from_Suc:
  assumes "unat p + 2 ^ k < 2 ^ 64" and "k < 64"
  shows "blocks_from p k (Suc n) = p # blocks_from (p + 2 ^ k) k n"
proof -
  have "unat (p + 2 ^ k) = unat p + 2 ^ k"
    using assms by (subst unat_add_lem [THEN iffD1]) (simp_all add: unat_pow2)
  then have "(word_of_nat (unat (p + 2 ^ k) + j * 2 ^ k) :: addr) =
      word_of_nat (unat p + Suc j * 2 ^ k)" for j
    by (simp only: mult_Suc add.assoc)
  then show ?thesis
    by (simp only: blocks_from_def upt_conv_Cons [OF zero_less_Suc] map_Suc_upt [symmetric]
        list.map map_map comp_def) simp
qed

lemma in_blocks_from:
  assumes "unat p + n * 2 ^ k < 2 ^ 64"
  shows "x \<in> set (blocks_from p k n) \<longleftrightarrow> (\<exists>j<n. unat x = unat p + j * 2 ^ k)"
proof
  assume "x \<in> set (blocks_from p k n)"
  then obtain j where j: "j < n" "x = word_of_nat (unat p + j * 2 ^ k)"
    by (auto simp: blocks_from_def)
  have "j * 2 ^ k \<le> n * (2::nat) ^ k" using j(1) by (intro mult_le_mono1) simp
  then have "unat p + j * 2 ^ k < 2 ^ 64" using assms by linarith
  then have "unat x = unat p + j * 2 ^ k" using j(2) by (simp only: unat64_of_nat)
  with j(1) show "\<exists>j<n. unat x = unat p + j * 2 ^ k" by blast
next
  assume "\<exists>j<n. unat x = unat p + j * 2 ^ k"
  then obtain j where "j < n" "unat x = unat p + j * 2 ^ k" by blast
  then have "x = word_of_nat (unat p + j * 2 ^ k)" by (simp flip: \<open>unat x = _\<close>)
  with \<open>j < n\<close> show "x \<in> set (blocks_from p k n)" by (auto simp: blocks_from_def)
qed

lemma distinct_blocks_from:
  assumes "unat p + n * 2 ^ k < 2 ^ 64"
  shows "distinct (blocks_from p k n)"
proof -
  have "inj_on (\<lambda>j. word_of_nat (unat p + j * 2 ^ k) :: addr) {0..<n}"
  proof (rule inj_onI)
    fix i j :: nat
    assume ij: "i \<in> {0..<n}" "j \<in> {0..<n}"
      "(word_of_nat (unat p + i * 2 ^ k) :: addr) = word_of_nat (unat p + j * 2 ^ k)"
    have b: "unat p + i * 2 ^ k < 2 ^ 64" if "i < n" for i
    proof -
      have "i * 2 ^ k \<le> n * (2::nat) ^ k" using that by (intro mult_le_mono1) simp
      then show ?thesis using assms by linarith
    qed
    have "unat p + i * 2 ^ k = unat p + j * 2 ^ k"
      using arg_cong [OF ij(3), of unat] ij(1,2) b
      by (simp only: unat64_of_nat atLeastLessThan_iff)
    then show "i = j" by simp
  qed
  then show ?thesis by (simp add: blocks_from_def distinct_map)
qed

section \<open>The allocator interface\<close>

text \<open>
  What a client of a block allocator may rely on.  A state is described by the free blocks
  of every size class, as the list in which they will be handed out; \<open>geometry\<close> says
  which blocks belong to a class and never changes, \<open>releasable\<close> which of them the
  allocator takes back.
\<close>

locale block_allocator =
  fixes alloc :: "'c \<Rightarrow> 's \<Rightarrow> ('b \<times> 's) result"
    and release :: "'b \<Rightarrow> 's \<Rightarrow> 's result"
    and abs_free :: "'s \<Rightarrow> ('c \<Rightarrow> 'b list) \<Rightarrow> bool"
    and classes :: "'c set"
    and geometry :: "'s \<Rightarrow> 'c \<Rightarrow> 'b set"
    and releasable :: "'s \<Rightarrow> 'c \<Rightarrow> 'b set"
    and null :: 'b
  assumes alloc_block: "abs_free s F \<Longrightarrow> c \<in> classes \<Longrightarrow> F c = p # ps \<Longrightarrow>
      \<exists>s'. alloc c s = Inr (p, s') \<and> abs_free s' (F(c := ps)) \<and> geometry s' = geometry s \<and>
        releasable s' = releasable s"
    and alloc_empty: "abs_free s F \<Longrightarrow> c \<in> classes \<Longrightarrow> F c = [] \<Longrightarrow> alloc c s = Inr (null, s)"
    and release_block: "abs_free s F \<Longrightarrow> c \<in> classes \<Longrightarrow> p \<in> releasable s c \<Longrightarrow>
      p \<notin> set (F c) \<Longrightarrow>
      \<exists>s'. release p s = Inr s' \<and> abs_free s' (F(c := p # F c)) \<and> geometry s' = geometry s \<and>
        releasable s' = releasable s"
    and free_in_geometry: "abs_free s F \<Longrightarrow> c \<in> classes \<Longrightarrow> set (F c) \<subseteq> geometry s c"
    and free_distinct: "abs_free s F \<Longrightarrow> c \<in> classes \<Longrightarrow> distinct (F c)"
    and null_no_block: "abs_free s F \<Longrightarrow> c \<in> classes \<Longrightarrow> null \<notin> geometry s c"

text \<open>Allocating \<open>n\<close> blocks one after the other.\<close>

fun alloc_many :: "('s \<Rightarrow> ('b \<times> 's) result) \<Rightarrow> nat \<Rightarrow> 's \<Rightarrow> ('b list \<times> 's) result" where
  "alloc_many al 0 s = Inr ([], s)"
| "alloc_many al (Suc n) s =
     bindR (al s) (\<lambda>(p, s'). bindR (alloc_many al n s') (\<lambda>(ps, s''). Inr (p # ps, s'')))"

context block_allocator
begin

text \<open>Releasing the block just allocated gives back the abstract state.\<close>

lemma alloc_release:
  assumes "abs_free s F" and "c \<in> classes" and "F c = p # ps" and "p \<in> releasable s c"
  shows "\<exists>s' s''. alloc c s = Inr (p, s') \<and> release p s' = Inr s'' \<and> abs_free s'' F"
proof -
  obtain s' where s': "alloc c s = Inr (p, s')" "abs_free s' (F(c := ps))"
    "releasable s' = releasable s"
    using alloc_block [OF assms(1-3)] by blast
  have "p \<in> releasable s' c" using assms(4) s'(3) by simp
  moreover have "p \<notin> set ((F(c := ps)) c)" using free_distinct [OF assms(1,2)] assms(3) by simp
  ultimately obtain s'' where "release p s' = Inr s''"
    "abs_free s'' ((F(c := ps))(c := p # (F(c := ps)) c))"
    using release_block [OF s'(2) assms(2)] by blast
  moreover have "(F(c := ps))(c := p # (F(c := ps)) c) = F"
    using assms(3) by (simp add: fun_upd_idem)
  ultimately show ?thesis using s'(1) by metis
qed

text \<open>The block allocated is the one released last.\<close>

lemma release_alloc:
  assumes "abs_free s F" and "c \<in> classes" and "p \<in> releasable s c" and "p \<notin> set (F c)"
  shows "\<exists>s' s''. release p s = Inr s' \<and> alloc c s' = Inr (p, s'') \<and> abs_free s'' F"
proof -
  obtain s' where s': "release p s = Inr s'" "abs_free s' (F(c := p # F c))"
    using release_block [OF assms] by blast
  from alloc_block [OF s'(2) assms(2), of p "F c"] obtain s'' where
    "alloc c s' = Inr (p, s'')" "abs_free s'' ((F(c := p # F c))(c := F c))"
    by auto
  with s'(1) show ?thesis by auto
qed

text \<open>Successive allocations hand out the free blocks in order.\<close>

lemma alloc_many_take:
  assumes "abs_free s F" and "c \<in> classes" and "n \<le> length (F c)"
  shows "\<exists>s'. alloc_many (alloc c) n s = Inr (take n (F c), s') \<and>
           abs_free s' (F(c := drop n (F c))) \<and> geometry s' = geometry s"
  using assms(1,3)
proof (induction n arbitrary: s F)
  case 0
  then show ?case by simp
next
  case (Suc n)
  then obtain p ps where F: "F c = p # ps" by (cases "F c") auto
  obtain s1 where s1: "alloc c s = Inr (p, s1)" "abs_free s1 (F(c := ps))"
    "geometry s1 = geometry s"
    using alloc_block [OF Suc.prems(1) assms(2) F] by blast
  have "n \<le> length ((F(c := ps)) c)" using Suc.prems(2) F by simp
  have "(F(c := ps))(c := drop n ps) = F(c := drop (Suc n) (F c))" using F by simp
  with Suc.IH [OF s1(2) \<open>n \<le> length ((F(c := ps)) c)\<close>] show ?case
    using s1 F by (auto simp del: fun_upd_apply simp: fun_upd_same)
qed

lemma alloc_many_distinct:
  assumes "abs_free s F" and "c \<in> classes" and "n \<le> length (F c)"
    and "alloc_many (alloc c) n s = Inr (ps, s')"
  shows "distinct ps \<and> set ps \<subseteq> geometry s c \<and> length ps = n \<and> null \<notin> set ps"
proof -
  have "ps = take n (F c)" using alloc_many_take [OF assms(1-3)] assms(4) by auto
  then show ?thesis
    using free_distinct [OF assms(1,2)] free_in_geometry [OF assms(1,2)]
      null_no_block [OF assms(1,2)] assms(3)
    by (auto dest: in_set_takeD)
qed

end

end
