(* ===== verification/Pmm.thy ===== *)
theory Pmm
  imports FreeList Lock
begin

text \<open>
  The physical memory manager, \<open>kernel/src/pmm.c\<close> with the layout macros and types of
  \<open>kernel/include/common.h\<close>: eight free lists of blocks of \<open>2^4 .. 2^11\<close> bytes,
  two of 4 KiB and 8 KiB pages, and a bump allocator for everything larger.  The memory
  itself is \<open>cells\<close>, 64-bit words by address; a free block keeps the pointer to the next
  free block in its first word.
\<close>

section \<open>State and layout\<close>

record kmem =
  kmem_m :: lock_t
  freelist :: addr

record pmm =
  heap_start :: addr
  heap_end :: addr
  cells :: "addr \<Rightarrow> u64"
  g_lock :: lock_t
  smallmem :: "kmem list"
  pagemem :: "kmem list"
  hbound :: addr

definition PAGE_SIZE :: u64 where "PAGE_SIZE = 2 ^ 12"
definition MPAGE_SIZE :: u64 where "MPAGE_SIZE = 2 ^ 13"

definition HEAPSIZE :: "pmm \<Rightarrow> u64" where
  "HEAPSIZE s = heap_end s - heap_start s"

definition STARTADDR :: "pmm \<Rightarrow> nat \<Rightarrow> addr" where
  "STARTADDR s i = heap_start s + drop_bit 4 (HEAPSIZE s) * word_of_nat i"

definition PAGESTART :: "pmm \<Rightarrow> addr" where
  "PAGESTART s = heap_start s + drop_bit 1 (HEAPSIZE s)"

definition MPAGESTART :: "pmm \<Rightarrow> addr" where
  "MPAGESTART s = PAGESTART s + drop_bit 2 (HEAPSIZE s)"

definition HUGESTART :: "pmm \<Rightarrow> addr" where
  "HUGESTART s = MPAGESTART s + drop_bit 3 (HEAPSIZE s)"

section \<open>Initialisation\<close>

text \<open>
  The loop body shared by the three loops of \<open>kinit\<close>: from \<open>p\<close>, as long as a whole
  block fits below \<open>bound\<close>, push the block on the free list.  \<open>None\<close> is a loop that
  does not end, \<open>Inl Assert_Fail\<close> one of the two assertions.
\<close>

partial_function (option) kinit_fill ::
    "u64 \<Rightarrow> addr \<Rightarrow> addr \<times> kmem \<times> (addr \<Rightarrow> u64) \<Rightarrow> (kmem \<times> (addr \<Rightarrow> u64)) result option" where
  "kinit_fill sz bound st =
     (case st of (p, mem, cs) \<Rightarrow>
        if p + sz \<le> bound then
          if p mod sz \<noteq> 0 then Some (Inl Assert_Fail)
          else if \<not> p \<le> bound then Some (Inl Assert_Fail)
          else (case lock (kmem_m mem) of
                  None \<Rightarrow> None
                | Some lk \<Rightarrow>
                    kinit_fill sz bound
                      (p + sz, mem\<lparr>kmem_m := unlock lk, freelist := p\<rparr>, cs(p := freelist mem)))
        else Some (Inr (mem, cs)))"

definition kinit_list ::
    "addr \<Rightarrow> addr \<Rightarrow> u64 \<Rightarrow> kmem \<Rightarrow> (addr \<Rightarrow> u64) \<Rightarrow> (kmem \<times> (addr \<Rightarrow> u64)) result" where
  "kinit_list lo hi sz mem cs =
     returns (kinit_fill sz hi
       (ROUNDUP lo sz, mem\<lparr>kmem_m := lockinit (kmem_m mem), freelist := NULL\<rparr>, cs))"

definition kinit_small :: "nat \<Rightarrow> pmm \<Rightarrow> pmm result" where
  "kinit_small i s =
     bindR (arr_get (smallmem s) i) (\<lambda>mem.
     bindR (kinit_list (STARTADDR s i) (STARTADDR s (i + 1)) (2 ^ (4 + i)) mem (cells s)) (\<lambda>(mem', cs).
     bindR (arr_set (smallmem s) i mem') (\<lambda>ms.
     Inr (s\<lparr>smallmem := ms, cells := cs\<rparr>))))"

definition kinit_page :: "nat \<Rightarrow> addr \<Rightarrow> addr \<Rightarrow> u64 \<Rightarrow> pmm \<Rightarrow> pmm result" where
  "kinit_page i lo hi sz s =
     bindR (arr_get (pagemem s) i) (\<lambda>mem.
     bindR (kinit_list lo hi sz mem (cells s)) (\<lambda>(mem', cs).
     bindR (arr_set (pagemem s) i mem') (\<lambda>ms.
     Inr (s\<lparr>pagemem := ms, cells := cs\<rparr>))))"

fun kinit_smalls :: "nat list \<Rightarrow> pmm \<Rightarrow> pmm result" where
  "kinit_smalls [] s = Inr s"
| "kinit_smalls (i # is) s = bindR (kinit_small i s) (kinit_smalls is)"

definition kinit :: "pmm \<Rightarrow> pmm result" where
  "kinit s =
     (let s0 = s\<lparr>hbound := HUGESTART s, g_lock := lockinit (g_lock s)\<rparr> in
      bindR (kinit_smalls [0..<8] s0) (\<lambda>s1.
      bindR (kinit_page 0 (PAGESTART s1) (MPAGESTART s1) PAGE_SIZE s1) (\<lambda>s2.
      kinit_page 1 (MPAGESTART s2) (HUGESTART s2) MPAGE_SIZE s2)))"

definition pmm_init :: "pmm \<Rightarrow> pmm result" where
  "pmm_init s = kinit s"

section \<open>Allocation\<close>

text \<open>The critical section of \<open>smallalloc\<close> and \<open>pagealloc\<close>: pop the head, if any.\<close>

definition kmem_pop :: "kmem \<Rightarrow> (addr \<Rightarrow> u64) \<Rightarrow> (addr \<times> kmem) result" where
  "kmem_pop mem cs =
     bindR (lock_wait (kmem_m mem)) (\<lambda>lk.
       let (r, fl) = (if freelist mem \<noteq> NULL then (freelist mem, cs (freelist mem))
                      else (NULL, freelist mem))
       in Inr (r, mem\<lparr>kmem_m := unlock lk, freelist := fl\<rparr>))"

definition smallalloc :: "u64 \<Rightarrow> pmm \<Rightarrow> (addr \<times> pmm) result" where
  "smallalloc sz s =
     (let i = unat (sz - 4) in
      bindR (arr_get (smallmem s) i) (\<lambda>mem.
      bindR (kmem_pop mem (cells s)) (\<lambda>(r, mem').
      bindR (arr_set (smallmem s) i mem') (\<lambda>ms.
      Inr (r, s\<lparr>smallmem := ms\<rparr>)))))"

definition pagealloc :: "u64 \<Rightarrow> pmm \<Rightarrow> (addr \<times> pmm) result" where
  "pagealloc sz s =
     (if sz = 12 \<or> sz = 13 then
        let i = (if sz = 12 then 0 else 1) in
        bindR (arr_get (pagemem s) i) (\<lambda>mem.
        bindR (kmem_pop mem (cells s)) (\<lambda>(r, mem').
        bindR (arr_set (pagemem s) i mem') (\<lambda>ms.
        Inr (r, s\<lparr>pagemem := ms\<rparr>))))
      else Inr (NULL, s))"

text \<open>
  \<open>size_t tsz = 1 << sz\<close> shifts an \<open>int\<close>, so a shift by 31 or more is undefined.
\<close>

definition huge_tsz :: "u64 \<Rightarrow> u64 result" where
  "huge_tsz sz =
     (if sz < 31 then Inr (push_bit (unat sz) 1) else Inl Undefined_Behaviour)"

definition hugealloc :: "u64 \<Rightarrow> pmm \<Rightarrow> (addr \<times> pmm) result" where
  "hugealloc sz s =
     bindR (huge_tsz sz) (\<lambda>tsz.
     bindR (lock_wait (g_lock s)) (\<lambda>lk.
       let p = ROUNDUP (hbound s) tsz;
           s' = s\<lparr>hbound := hbound s + tsz, g_lock := unlock lk\<rparr>
       in if hbound s' > heap_end s' then Inr (NULL, s') else Inr (p, s')))"

definition kalloc :: "u64 \<Rightarrow> pmm \<Rightarrow> (addr \<times> pmm) result" where
  "kalloc bytes s =
     (case ROUND_SELF bytes of
        None \<Rightarrow> Inl Spin_Forever
      | Some sz \<Rightarrow>
          if sz \<le> 4 then smallalloc 4 s
          else if sz < 12 then smallalloc (word_of_int sz) s
          else if sz = 12 \<or> sz = 13 then pagealloc (word_of_int sz) s
          else hugealloc (word_of_int sz) s)"

section \<open>Release\<close>

text \<open>The scan \<open>for(i = 0; i < 8; i++)\<close> of \<open>sfree\<close>: the last matching zone wins.\<close>

fun sfree_id :: "pmm \<Rightarrow> addr \<Rightarrow> nat list \<Rightarrow> int \<Rightarrow> int" where
  "sfree_id s ptr [] i0 = i0"
| "sfree_id s ptr (i # is) i0 =
     sfree_id s ptr is (if ptr \<ge> STARTADDR s i \<and> ptr < STARTADDR s (i + 1) then int i else i0)"

definition kmem_push :: "addr \<Rightarrow> kmem \<Rightarrow> (addr \<Rightarrow> u64) \<Rightarrow> (kmem \<times> (addr \<Rightarrow> u64)) result" where
  "kmem_push ptr mem cs =
     bindR (lock_wait (kmem_m mem)) (\<lambda>lk.
     bindR (guardR Null_Deref (ptr \<noteq> NULL)) (\<lambda>_.
       Inr (mem\<lparr>kmem_m := unlock lk, freelist := ptr\<rparr>, cs(ptr := freelist mem))))"

definition sfree :: "addr \<Rightarrow> pmm \<Rightarrow> pmm result" where
  "sfree ptr s =
     (if ptr \<le> PAGESTART s then
        let id = sfree_id s ptr [0..<8] (-1) in
        bindR (guardR Assert_Fail (id \<noteq> -1)) (\<lambda>_.
        bindR (arr_get (smallmem s) (nat id)) (\<lambda>mem.
        bindR (kmem_push ptr mem (cells s)) (\<lambda>(mem', cs).
        bindR (arr_set (smallmem s) (nat id) mem') (\<lambda>ms.
        Inr (s\<lparr>smallmem := ms, cells := cs\<rparr>)))))
      else
        let id = (if ptr \<ge> MPAGESTART s then 1 else 0) in
        bindR (arr_get (pagemem s) id) (\<lambda>mem.
        bindR (kmem_push ptr mem (cells s)) (\<lambda>(mem', cs).
        bindR (arr_set (pagemem s) id mem') (\<lambda>ms.
        Inr (s\<lparr>pagemem := ms, cells := cs\<rparr>)))))"

definition hfree :: "addr \<Rightarrow> pmm \<Rightarrow> pmm result" where
  "hfree ptr s = Inr s"

definition kfree :: "addr \<Rightarrow> pmm \<Rightarrow> pmm result" where
  "kfree ptr s = (if ptr \<ge> HUGESTART s then hfree ptr s else sfree ptr s)"

text \<open>
  The module's entry points disable interrupts around the call; the interrupt flag of the
  CPU is the first component of the state.
\<close>

definition safe_kalloc :: "u64 \<Rightarrow> bool \<times> pmm \<Rightarrow> (addr \<times> bool \<times> pmm) result" where
  "safe_kalloc bytes st =
     (let i = fst st; off = False in
      bindR (kalloc bytes (snd st)) (\<lambda>(ret, s').
      Inr (ret, (if i then True else off), s')))"

definition safe_kfree :: "addr \<Rightarrow> bool \<times> pmm \<Rightarrow> (bool \<times> pmm) result" where
  "safe_kfree ptr st =
     (let i = fst st; off = False in
      bindR (kfree ptr (snd st)) (\<lambda>s'.
      Inr ((if i then True else off), s')))"

end
