(* ===== verification/PmmProofs.thy ===== *)
theory PmmProofs
  imports Pmm
begin

text \<open>
  Correctness of the physical memory manager: the ten free lists describe disjoint sets of
  aligned blocks (\<open>pmm_abs\<close>), \<open>kinit\<close> puts every block of a zone on its list,
  \<open>kalloc\<close> and \<open>kfree\<close> refine popping and pushing an abstract list, and they
  implement the interface \<open>block_allocator\<close>.  The bump allocator for large blocks and
  the release of the first page are shown to go wrong on concrete heaps.
\<close>

section \<open>Zones\<close>

text \<open>Zone \<open>j < 8\<close> is \<open>smallmem[j]\<close>, zones 8 and 9 are \<open>pagemem[0]\<close> and
  \<open>pagemem[1]\<close>; the blocks of zone \<open>j\<close> have \<open>2 ^ (4 + j)\<close> bytes.\<close>

definition zone_lo :: "pmm \<Rightarrow> nat \<Rightarrow> addr" where
  "zone_lo s j = (if j < 8 then STARTADDR s j else if j = 8 then PAGESTART s else MPAGESTART s)"

definition zone_hi :: "pmm \<Rightarrow> nat \<Rightarrow> addr" where
  "zone_hi s j = (if j < 8 then STARTADDR s (j + 1) else if j = 8 then MPAGESTART s else HUGESTART s)"

definition kmem_at :: "pmm \<Rightarrow> nat \<Rightarrow> kmem" where
  "kmem_at s j = (if j < 8 then smallmem s ! j else pagemem s ! (j - 8))"

definition zone_blocks :: "pmm \<Rightarrow> nat \<Rightarrow> addr set" where
  "zone_blocks s j = {p. zone_lo s j \<le> p \<and> unat p + 2 ^ (4 + j) \<le> unat (zone_hi s j) \<and>
     2 ^ (4 + j) dvd unat p}"

text \<open>A heap the layout arithmetic cannot overflow on.\<close>

definition heap_ok :: "pmm \<Rightarrow> bool" where
  "heap_ok s \<longleftrightarrow> 0 < unat (heap_start s) \<and> heap_start s \<le> heap_end s \<and>
     unat (heap_end s) + 2 ^ 14 \<le> 2 ^ 64"

abbreviation heap_bytes :: "pmm \<Rightarrow> nat" where
  "heap_bytes s \<equiv> unat (heap_end s) - unat (heap_start s)"

lemma unat_HEAPSIZE: "heap_ok s \<Longrightarrow> unat (HEAPSIZE s) = heap_bytes s"
  by (simp add: heap_ok_def HEAPSIZE_def unat_sub)

lemma unat_add_small:
  fixes a b :: u64
  shows "unat a + unat b < 2 ^ 64 \<Longrightarrow> unat (a + b) = unat a + unat b"
  by (subst unat_add_lem [THEN iffD1]) simp_all

lemma unat_drop_bit64: "unat (drop_bit k (x :: u64)) = unat x div 2 ^ k"
  by (subst unat_drop_bit_eq) (simp only: drop_bit_eq_div)

lemma unat_STARTADDR:
  assumes "heap_ok s" and "i \<le> 16"
  shows "unat (STARTADDR s i) = unat (heap_start s) + (heap_bytes s div 16) * i"
proof -
  let ?q = "heap_bytes s div 16"
  have "?q * i \<le> ?q * 16" using assms(2) by (intro mult_le_mono2)
  also have "?q * 16 \<le> heap_bytes s" by simp
  finally have q: "?q * i \<le> heap_bytes s" .
  have le: "unat (heap_start s) \<le> unat (heap_end s)" and b: "unat (heap_end s) < 2 ^ 64"
    using assms(1) by (auto simp: heap_ok_def word_le_nat_alt)
  have i: "unat (word_of_nat i :: u64) = i" using assms(2) by (intro unat64_of_nat) simp
  have d: "unat (drop_bit 4 (HEAPSIZE s)) = ?q"
    using unat_HEAPSIZE [OF assms(1)] by (simp add: unat_drop_bit64)
  have "unat (drop_bit 4 (HEAPSIZE s) * word_of_nat i) = ?q * i"
    using q le b by (subst unat_mult_lem [THEN iffD1]) (simp_all add: d i)
  then show ?thesis
    using q le b unfolding STARTADDR_def by (subst unat_add_small) simp_all
qed

lemma unat_PAGESTART:
  assumes "heap_ok s"
  shows "unat (PAGESTART s) = unat (heap_start s) + heap_bytes s div 2"
proof -
  have "unat (heap_start s) \<le> unat (heap_end s)" "unat (heap_end s) < 2 ^ 64"
    using assms by (auto simp: heap_ok_def word_le_nat_alt)
  then show ?thesis unfolding PAGESTART_def
    by (subst unat_add_small) (simp_all add: unat_drop_bit64 unat_HEAPSIZE [OF assms])
qed

lemma unat_MPAGESTART:
  assumes "heap_ok s"
  shows "unat (MPAGESTART s) = unat (heap_start s) + heap_bytes s div 2 + heap_bytes s div 4"
proof -
  have "unat (heap_start s) \<le> unat (heap_end s)" "unat (heap_end s) < 2 ^ 64"
    using assms by (auto simp: heap_ok_def word_le_nat_alt)
  then show ?thesis unfolding MPAGESTART_def
    by (subst unat_add_small) (simp_all add: unat_drop_bit64 unat_HEAPSIZE [OF assms]
        unat_PAGESTART [OF assms])
qed

lemma unat_HUGESTART:
  assumes "heap_ok s"
  shows "unat (HUGESTART s) =
    unat (heap_start s) + heap_bytes s div 2 + heap_bytes s div 4 + heap_bytes s div 8"
proof -
  have "unat (heap_start s) \<le> unat (heap_end s)" "unat (heap_end s) < 2 ^ 64"
    using assms by (auto simp: heap_ok_def word_le_nat_alt)
  then show ?thesis unfolding HUGESTART_def
    by (subst unat_add_small) (simp_all add: unat_drop_bit64 unat_HEAPSIZE [OF assms]
        unat_MPAGESTART [OF assms])
qed

lemmas layout_nat = unat_STARTADDR unat_PAGESTART unat_MPAGESTART unat_HUGESTART

text \<open>The zones as intervals of naturals, in order.\<close>

definition zlo :: "pmm \<Rightarrow> nat \<Rightarrow> nat" where
  "zlo s j = unat (heap_start s) +
     (if j < 8 then (heap_bytes s div 16) * j
      else if j = 8 then heap_bytes s div 2 else heap_bytes s div 2 + heap_bytes s div 4)"

definition zhi :: "pmm \<Rightarrow> nat \<Rightarrow> nat" where
  "zhi s j = unat (heap_start s) +
     (if j < 8 then (heap_bytes s div 16) * (j + 1)
      else if j = 8 then heap_bytes s div 2 + heap_bytes s div 4
      else heap_bytes s div 2 + heap_bytes s div 4 + heap_bytes s div 8)"

lemma unat_zone_lo: "heap_ok s \<Longrightarrow> j < 10 \<Longrightarrow> unat (zone_lo s j) = zlo s j"
  by (simp add: zone_lo_def zlo_def layout_nat)

lemma unat_zone_hi: "heap_ok s \<Longrightarrow> j < 10 \<Longrightarrow> unat (zone_hi s j) = zhi s j"
  by (simp add: zone_hi_def zhi_def layout_nat)

lemma zhi_le_zlo: "j < j' \<Longrightarrow> j' < 10 \<Longrightarrow> zhi s j \<le> zlo s j'"
proof -
  assume j: "j < j'" "j' < 10"
  let ?h = "heap_bytes s"
  have m: "(?h div 16) * (j + 1) \<le> (?h div 16) * j'" using j by (intro mult_le_mono2) simp
  show ?thesis
  proof (cases "j' < 8")
    case True
    then show ?thesis using j m by (simp add: zhi_def zlo_def)
  next
    case False
    have "(?h div 16) * (j + 1) \<le> (?h div 16) * 8" if "j < 8"
      using that by (intro mult_le_mono2) simp
    also have "(?h div 16) * 8 \<le> ?h div 2" by simp
    finally have "(?h div 16) * (j + 1) \<le> ?h div 2" if "j < 8" using that .
    then show ?thesis using j False by (auto simp: zhi_def zlo_def)
  qed
qed

lemma zhi_le_end: "heap_ok s \<Longrightarrow> j < 10 \<Longrightarrow> zhi s j \<le> unat (heap_end s)"
proof -
  assume h: "heap_ok s" and j: "j < 10"
  have le: "unat (heap_start s) \<le> unat (heap_end s)"
    using h by (simp add: heap_ok_def word_le_nat_alt)
  have z9: "zhi s 9 \<le> unat (heap_end s)" using le by (simp add: zhi_def)
  show ?thesis
  proof (cases "j = 9")
    case False
    then have "zhi s j \<le> zlo s 9" using j by (intro zhi_le_zlo) auto
    also have "\<dots> \<le> zhi s 9" by (simp add: zlo_def zhi_def)
    finally show ?thesis using z9 by simp
  qed (use z9 in simp)
qed

lemma in_zone_blocks:
  assumes "heap_ok s" and "j < 10"
  shows "p \<in> zone_blocks s j \<longleftrightarrow>
    zlo s j \<le> unat p \<and> unat p + 2 ^ (4 + j) \<le> zhi s j \<and> 2 ^ (4 + j) dvd unat p"
  using assms by (simp add: zone_blocks_def word_le_nat_alt unat_zone_lo unat_zone_hi)

lemma zone_blocks_nonnull: "heap_ok s \<Longrightarrow> j < 10 \<Longrightarrow> NULL \<notin> zone_blocks s j"
  by (auto simp: in_zone_blocks zlo_def heap_ok_def)

lemma zone_blocks_range:
  assumes "heap_ok s" and "j < 10" and "p \<in> zone_blocks s j"
  shows "zlo s j \<le> unat p" and "unat p + 2 ^ (4 + j) \<le> zhi s j" and "unat p < zhi s j"
proof -
  show 1: "zlo s j \<le> unat p" and 2: "unat p + 2 ^ (4 + j) \<le> zhi s j"
    using assms by (simp_all add: in_zone_blocks)
  have "(0::nat) < 2 ^ (4 + j)" by simp
  with 2 show "unat p < zhi s j" by linarith
qed

lemma zone_blocks_disjoint:
  assumes "heap_ok s" and "j < 10" and "j' < 10" and "p \<in> zone_blocks s j" and "p \<in> zone_blocks s j'"
  shows "j = j'"
proof -
  have "\<not> j < j'" using zhi_le_zlo [of j j' s] zone_blocks_range [OF assms(1,2,4)]
      zone_blocks_range [OF assms(1,3,5)] assms(3) by linarith
  moreover have "\<not> j' < j" using zhi_le_zlo [of j' j s] zone_blocks_range [OF assms(1,2,4)]
      zone_blocks_range [OF assms(1,3,5)] assms(2) by linarith
  ultimately show ?thesis by simp
qed

text \<open>Different blocks do not overlap, whatever their zones.\<close>

lemma dvd_apart:
  fixes a b d :: nat
  assumes "d dvd a" and "d dvd b" and "a < b"
  shows "a + d \<le> b"
proof -
  obtain x y where "a = d * x" "b = d * y" using assms(1,2) by (elim dvdE)
  with assms(3) have "x + 1 \<le> y" by (cases "d = 0") auto
  then have "d * (x + 1) \<le> d * y" by (rule mult_le_mono2)
  with \<open>a = d * x\<close> \<open>b = d * y\<close> show ?thesis by (simp add: distrib_left)
qed

lemma zone_blocks_apart:
  assumes "heap_ok s" and "j < 10" and "j' < 10" and "p \<in> zone_blocks s j" and "q \<in> zone_blocks s j'"
    and "p \<noteq> q"
  shows "unat p + 2 ^ (4 + j) \<le> unat q \<or> unat q + 2 ^ (4 + j') \<le> unat p"
proof -
  note p = zone_blocks_range [OF assms(1,2,4)] and q = zone_blocks_range [OF assms(1,3,5)]
  consider "j < j'" | "j' < j" | "j = j'" by linarith
  then show ?thesis
  proof cases
    case 1
    with p q zhi_le_zlo [of j j' s] assms(3) show ?thesis by linarith
  next
    case 2
    with p q zhi_le_zlo [of j' j s] assms(2) show ?thesis by linarith
  next
    case 3
    have "unat p \<noteq> unat q" using assms(6) by (simp add: word_unat_eq_iff)
    moreover have "2 ^ (4 + j) dvd unat p" "2 ^ (4 + j) dvd unat q"
      using assms 3 by (simp_all add: in_zone_blocks)
    ultimately show ?thesis using dvd_apart 3 by (metis linorder_neqE_nat)
  qed
qed

section \<open>Abstraction\<close>

text \<open>
  \<open>pmm_abs s F\<close>: no lock is held, and zone \<open>j\<close> has exactly the free blocks \<open>F j\<close>,
  in list order.
\<close>

definition zone_free :: "pmm \<Rightarrow> nat \<Rightarrow> addr list \<Rightarrow> bool" where
  "zone_free s j xs \<longleftrightarrow> flag (kmem_m (kmem_at s j)) = 0 \<and>
     flist (cells s) (freelist (kmem_at s j)) xs \<and> distinct xs \<and> set xs \<subseteq> zone_blocks s j"

definition pmm_abs :: "pmm \<Rightarrow> (nat \<Rightarrow> addr list) \<Rightarrow> bool" where
  "pmm_abs s F \<longleftrightarrow> heap_ok s \<and> length (smallmem s) = 8 \<and> length (pagemem s) = 2 \<and>
     flag (g_lock s) = 0 \<and> (\<forall>j<10. zone_free s j (F j))"

lemma pmm_absD:
  assumes "pmm_abs s F"
  shows "heap_ok s" "length (smallmem s) = 8" "length (pagemem s) = 2" "flag (g_lock s) = 0"
    "j < 10 \<Longrightarrow> zone_free s j (F j)"
  using assms by (auto simp: pmm_abs_def)

lemma pmm_abs_unique: "pmm_abs s F \<Longrightarrow> pmm_abs s G \<Longrightarrow> j < 10 \<Longrightarrow> F j = G j"
  by (auto simp: pmm_abs_def zone_free_def intro: flist_unique)

text \<open>The layout depends on the two ends of the heap alone.\<close>

lemma layout_cong:
  assumes "heap_start s' = heap_start s" and "heap_end s' = heap_end s"
  shows "heap_ok s' = heap_ok s" "zone_blocks s' = zone_blocks s" "zlo s' = zlo s" "zhi s' = zhi s"
    "STARTADDR s' = STARTADDR s" "PAGESTART s' = PAGESTART s" "MPAGESTART s' = MPAGESTART s"
    "HUGESTART s' = HUGESTART s"
  using assms
  by (simp_all add: heap_ok_def zone_blocks_def zone_lo_def zone_hi_def STARTADDR_def
      PAGESTART_def MPAGESTART_def HUGESTART_def HEAPSIZE_def zlo_def zhi_def fun_eq_iff)

text \<open>Writing back one zone's \<open>kmem\<close>, wherever it is stored.\<close>

definition put_kmem :: "nat \<Rightarrow> kmem \<Rightarrow> pmm \<Rightarrow> pmm" where
  "put_kmem j mem s =
     (if j < 8 then s\<lparr>smallmem := (smallmem s)[j := mem]\<rparr>
      else s\<lparr>pagemem := (pagemem s)[j - 8 := mem]\<rparr>)"

lemma put_kmem_simps [simp]:
  "heap_start (put_kmem j mem s) = heap_start s" "heap_end (put_kmem j mem s) = heap_end s"
  "cells (put_kmem j mem s) = cells s" "g_lock (put_kmem j mem s) = g_lock s"
  "hbound (put_kmem j mem s) = hbound s"
  "length (smallmem (put_kmem j mem s)) = length (smallmem s)"
  "length (pagemem (put_kmem j mem s)) = length (pagemem s)"
  by (simp_all add: put_kmem_def)

lemma kmem_at_put:
  assumes "length (smallmem s) = 8" and "length (pagemem s) = 2" and "j < 10" and "j' < 10"
  shows "kmem_at (put_kmem j mem s) j' = (if j' = j then mem else kmem_at s j')"
  using assms by (auto simp: kmem_at_def put_kmem_def nth_list_update)

lemma kmem_at_cells [simp]: "kmem_at (s\<lparr>cells := cs\<rparr>) j = kmem_at s j"
  by (simp add: kmem_at_def)

text \<open>Popping and pushing one zone's list refine the list operations.\<close>

lemma pop_abs:
  assumes "pmm_abs s F" and "j < 10" and "F j = p # ps"
  shows "kmem_pop (kmem_at s j) (cells s) =
      Inr (p, kmem_at s j\<lparr>freelist := cells s p\<rparr>)"
    and "pmm_abs (put_kmem j (kmem_at s j\<lparr>freelist := cells s p\<rparr>) s) (F(j := ps))"
proof -
  note a = pmm_absD [OF assms(1)]
  have z: "zone_free s j (p # ps)" using a(5) [OF assms(2)] assms(3) by simp
  then have fl: "freelist (kmem_at s j) = p" "p \<noteq> NULL" "flag (kmem_m (kmem_at s j)) = 0"
    by (auto simp: zone_free_def)
  then show "kmem_pop (kmem_at s j) (cells s) = Inr (p, kmem_at s j\<lparr>freelist := cells s p\<rparr>)"
    by (simp add: kmem_pop_def)
  let ?s' = "put_kmem j (kmem_at s j\<lparr>freelist := cells s p\<rparr>) s"
  have l: "zone_blocks ?s' = zone_blocks s" "heap_ok ?s' = heap_ok s"
    by (rule layout_cong; simp)+
  have "zone_free ?s' i ((F(j := ps)) i)" if "i < 10" for i
    using a(5) [OF that] z that assms(2)
    by (auto simp: zone_free_def kmem_at_put [OF a(2,3) assms(2) that] l)
  then show "pmm_abs ?s' (F(j := ps))"
    using a(1-4) by (simp add: pmm_abs_def l)
qed

lemma pop_abs_empty:
  assumes "pmm_abs s F" and "j < 10" and "F j = []"
  shows "kmem_pop (kmem_at s j) (cells s) = Inr (NULL, kmem_at s j)"
    and "put_kmem j (kmem_at s j) s = s"
proof -
  note a = pmm_absD [OF assms(1)]
  have "zone_free s j []" using a(5) [OF assms(2)] assms(3) by simp
  then have "freelist (kmem_at s j) = NULL" "flag (kmem_m (kmem_at s j)) = 0"
    by (auto simp: zone_free_def)
  then show "kmem_pop (kmem_at s j) (cells s) = Inr (NULL, kmem_at s j)"
    by (simp add: kmem_pop_def Let_def)
  show "put_kmem j (kmem_at s j) s = s"
    by (cases "j < 8") (simp_all add: put_kmem_def kmem_at_def)
qed

lemma push_abs:
  assumes "pmm_abs s F" and "j < 10" and "p \<in> zone_blocks s j" and "p \<notin> set (F j)"
  shows "kmem_push p (kmem_at s j) (cells s) =
      Inr (kmem_at s j\<lparr>freelist := p\<rparr>, (cells s)(p := freelist (kmem_at s j)))"
    and "pmm_abs (put_kmem j (kmem_at s j\<lparr>freelist := p\<rparr>)
           (s\<lparr>cells := (cells s)(p := freelist (kmem_at s j))\<rparr>)) (F(j := p # F j))"
proof -
  note a = pmm_absD [OF assms(1)]
  note z = a(5) [OF assms(2)]
  have p: "p \<noteq> NULL" using zone_blocks_nonnull [OF a(1) assms(2)] assms(3) by auto
  then show "kmem_push p (kmem_at s j) (cells s) =
      Inr (kmem_at s j\<lparr>freelist := p\<rparr>, (cells s)(p := freelist (kmem_at s j)))"
    using z by (simp add: kmem_push_def zone_free_def)
  let ?c = "s\<lparr>cells := (cells s)(p := freelist (kmem_at s j))\<rparr>"
  let ?s' = "put_kmem j (kmem_at s j\<lparr>freelist := p\<rparr>) ?c"
  have l: "zone_blocks ?s' = zone_blocks s" "heap_ok ?s' = heap_ok s"
    by (rule layout_cong; simp)+
  have notin: "p \<notin> set (F i)" if "i < 10" for i
  proof (cases "i = j")
    case False
    have "set (F i) \<subseteq> zone_blocks s i" using a(5) [OF that] by (simp add: zone_free_def)
    then show ?thesis using zone_blocks_disjoint [OF a(1) assms(2) that assms(3)] False by auto
  qed (use assms(4) in simp)
  have k: "kmem_at ?s' i = (if i = j then kmem_at s j\<lparr>freelist := p\<rparr> else kmem_at s i)" if "i < 10" for i
    using kmem_at_put [of ?c j i] a(2,3) assms(2) that by simp
  have "zone_free ?s' i ((F(j := p # F j)) i)" if "i < 10" for i
    using a(5) [OF that] z notin [OF that] notin [OF assms(2)] assms(3) p
    by (auto simp: zone_free_def k [OF that] l)
  then show "pmm_abs ?s' (F(j := p # F j))"
    using a(1-4) by (simp add: pmm_abs_def l)
qed

section \<open>kalloc\<close>

text \<open>The zone that serves a request of \<open>n\<close> bytes, \<open>n \<le> 8192\<close>.\<close>

definition zone_of :: "nat \<Rightarrow> nat" where
  "zone_of n = (if ceil_log2 n \<le> 4 then 0 else ceil_log2 n - 4)"

lemma zone_of_bound: "n \<le> 2 ^ 13 \<Longrightarrow> zone_of n < 10"
  using ceil_log2_le [of n 13] by (auto simp: zone_of_def)

lemma zone_of_fits: "n \<le> 2 ^ (4 + zone_of n)"
proof -
  have "n \<le> 2 ^ ceil_log2 n" by (rule ceil_log2_ge)
  also have "(2::nat) ^ ceil_log2 n \<le> 2 ^ (4 + zone_of n)"
    by (intro power_increasing) (simp_all add: zone_of_def)
  finally show ?thesis .
qed

lemma zone_of_pow2: "c < 10 \<Longrightarrow> zone_of (2 ^ (4 + c)) = c"
  by (simp only: zone_of_def ceil_log2_pow2) simp

lemma smallalloc_zone:
  assumes "length (smallmem s) = 8" and "unat (sz - 4) = j" and "j < 8"
  shows "smallalloc sz s =
    bindR (kmem_pop (kmem_at s j) (cells s)) (\<lambda>(r, mem'). Inr (r, put_kmem j mem' s))"
  using assms by (cases "kmem_pop (kmem_at s j) (cells s)")
    (auto simp: smallalloc_def Let_def kmem_at_def put_kmem_def)

lemma pagealloc_zone:
  assumes "length (pagemem s) = 2" and "j = 8 \<and> sz = 12 \<or> j = 9 \<and> sz = 13"
  shows "pagealloc sz s =
    bindR (kmem_pop (kmem_at s j) (cells s)) (\<lambda>(r, mem'). Inr (r, put_kmem j mem' s))"
  using assms by (cases "kmem_pop (kmem_at s j) (cells s)")
    (auto simp: pagealloc_def Let_def kmem_at_def put_kmem_def)

lemma kalloc_zone:
  assumes "length (smallmem s) = 8" and "length (pagemem s) = 2" and "unat bytes \<le> 2 ^ 13"
  shows "kalloc bytes s = bindR (kmem_pop (kmem_at s (zone_of (unat bytes))) (cells s))
    (\<lambda>(r, mem'). Inr (r, put_kmem (zone_of (unat bytes)) mem' s))"
proof -
  define c where "c = ceil_log2 (unat bytes)"
  have c: "c \<le> 13" using ceil_log2_le [OF assms(3)] by (simp add: c_def)
  have r: "ROUND_SELF bytes = Some (int c)" using assms(3) by (simp add: ROUND_SELF_eq c_def)
  have z: "zone_of (unat bytes) = (if c \<le> 4 then 0 else c - 4)" by (simp add: zone_of_def c_def)
  consider "c \<le> 4" | "4 < c" "c < 12" | "c = 12" | "c = 13" using c by linarith
  then show ?thesis
  proof cases
    case 1
    then show ?thesis using smallalloc_zone [OF assms(1), of 4 0] by (simp add: kalloc_def r z)
  next
    case 2
    then have "c \<in> {5, 6, 7, 8, 9, 10, 11}" by auto
    then have "unat (word_of_int (int c) - 4 :: u64) = c - 4" by auto
    with 2 show ?thesis using smallalloc_zone [OF assms(1), of "word_of_int (int c)" "c - 4"]
      by (simp add: kalloc_def r z)
  next
    case 3
    then show ?thesis using pagealloc_zone [OF assms(2), of 8 12] by (simp add: kalloc_def r z)
  next
    case 4
    then show ?thesis using pagealloc_zone [OF assms(2), of 9 13] by (simp add: kalloc_def r z)
  qed
qed

lemma kalloc_abs:
  assumes "pmm_abs s F" and "unat bytes \<le> 2 ^ 13" and "F (zone_of (unat bytes)) = p # ps"
  shows "\<exists>s'. kalloc bytes s = Inr (p, s') \<and> pmm_abs s' (F(zone_of (unat bytes) := ps)) \<and>
           heap_start s' = heap_start s \<and> heap_end s' = heap_end s \<and> hbound s' = hbound s \<and>
           cells s' = cells s"
  using pop_abs [OF assms(1) zone_of_bound [OF assms(2)] assms(3)]
    kalloc_zone [OF pmm_absD(2,3) [OF assms(1)] assms(2)]
  by simp

lemma kalloc_abs_empty:
  assumes "pmm_abs s F" and "unat bytes \<le> 2 ^ 13" and "F (zone_of (unat bytes)) = []"
  shows "kalloc bytes s = Inr (NULL, s)"
  using pop_abs_empty [OF assms(1) zone_of_bound [OF assms(2)] assms(3)]
    kalloc_zone [OF pmm_absD(2,3) [OF assms(1)] assms(2)]
  by simp

section \<open>kfree\<close>

lemma sfree_id_last:
  assumes "\<And>i. i \<in> set is \<Longrightarrow> (ptr \<ge> STARTADDR s i \<and> ptr < STARTADDR s (i + 1)) = (i = j)"
  shows "sfree_id s ptr is i0 = (if j \<in> set is then int j else i0)"
  using assms
proof (induction "is" arbitrary: i0)
  case (Cons i "is")
  have "(ptr \<ge> STARTADDR s i \<and> ptr < STARTADDR s (i + 1)) = (i = j)" by (rule Cons.prems) simp
  then show ?case using Cons.IH [of "if i = j then int i else i0"] Cons.prems
    by (simp del: not_le)
qed simp

lemma sfree_id_zone:
  assumes "heap_ok s" and "j < 8" and "ptr \<in> zone_blocks s j"
  shows "sfree_id s ptr [0..<8] (-1) = int j"
proof -
  have "(ptr \<ge> STARTADDR s i \<and> ptr < STARTADDR s (i + 1)) = (i = j)" if i: "i \<in> set [0..<8]" for i
  proof -
    have i8: "i < 8" using i by simp
    have lo: "unat (STARTADDR s i) = zlo s i" and hi: "unat (STARTADDR s (i + 1)) = zhi s i"
      using unat_zone_lo [OF assms(1), of i] unat_zone_hi [OF assms(1), of i] i8
      by (simp_all add: zone_lo_def zone_hi_def)
    note r = zone_blocks_range [OF assms(1) _ assms(3)]
    have "j < 10" using assms(2) by simp
    note r = r [OF this]
    show ?thesis
    proof (cases i j rule: linorder_cases)
      case less
      then show ?thesis using zhi_le_zlo [of i j s] assms(2) r lo hi
        by (simp add: word_le_nat_alt word_less_nat_alt)
    next
      case equal
      then show ?thesis using r lo hi by (simp add: word_le_nat_alt word_less_nat_alt)
    next
      case greater
      then show ?thesis using zhi_le_zlo [of j i s] i8 r lo hi
        by (simp add: word_le_nat_alt word_less_nat_alt)
    qed
  qed
  then have "sfree_id s ptr [0..<8] (-1) = (if j \<in> set [0..<8] then int j else -1)"
    by (rule sfree_id_last)
  then show ?thesis using assms(2) by (simp del: upt_rec_numeral)
qed

lemma kfree_zone:
  assumes "heap_ok s" and "length (smallmem s) = 8" and "length (pagemem s) = 2" and "j < 10"
    and "p \<in> zone_blocks s j" and "p \<noteq> PAGESTART s"
  shows "kfree p s = bindR (kmem_push p (kmem_at s j) (cells s))
    (\<lambda>(mem', cs). Inr (put_kmem j mem' (s\<lparr>cells := cs\<rparr>)))"
proof -
  note r = zone_blocks_range [OF assms(1,4,5)]
  have page: "unat (PAGESTART s) = zlo s 8" "unat (MPAGESTART s) = zlo s 9"
    using unat_zone_lo [OF assms(1), of 8] unat_zone_lo [OF assms(1), of 9] by (simp_all add: zone_lo_def)
  have "zhi s j \<le> zhi s 9" using zhi_le_zlo [of j 9 s] assms(4)
    by (cases "j = 9") (auto simp: zlo_def zhi_def)
  moreover have "unat (HUGESTART s) = zhi s 9"
    using unat_zone_hi [OF assms(1), of 9] by (simp add: zone_hi_def)
  ultimately have "\<not> p \<ge> HUGESTART s" using r by (simp add: word_le_nat_alt)
  then have k: "kfree p s = sfree p s" by (simp add: kfree_def)
  show ?thesis
  proof (cases "j < 8")
    case True
    then have "p \<le> PAGESTART s" using zhi_le_zlo [of j 8 s] r page by (simp add: word_le_nat_alt)
    then show ?thesis using True assms(2) sfree_id_zone [OF assms(1) True assms(5)]
      by (cases "kmem_push p (kmem_at s j) (cells s)")
        (auto simp: k sfree_def kmem_at_def put_kmem_def)
  next
    case False
    have lo: "zlo s 8 \<le> unat p"
    proof (cases "j = 8")
      case False
      then have "j = 9" using assms(4) \<open>\<not> j < 8\<close> by simp
      then show ?thesis using r zhi_le_zlo [of 8 9 s] by (simp add: zlo_def zhi_def)
    qed (use r in simp)
    have "unat p \<noteq> unat (PAGESTART s)" using assms(6) by (simp add: word_unat_eq_iff)
    with lo page have big: "\<not> p \<le> PAGESTART s" by (simp add: word_le_nat_alt)
    have m: "(p \<ge> MPAGESTART s) = (j = 9)"
    proof (cases "j = 9")
      case False
      then have "j = 8" using assms(4) \<open>\<not> j < 8\<close> by simp
      then have "unat p < zlo s 9" using r zhi_le_zlo [of 8 9 s] by simp
      then show ?thesis using False page by (simp add: word_le_nat_alt)
    qed (use r page in \<open>simp add: word_le_nat_alt\<close>)
    have "j - 8 = (if j = 9 then 1 else 0)" using False assms(4) by auto
    then show ?thesis using big m False assms(3,4)
      by (cases "kmem_push p (kmem_at s j) (cells s)")
        (auto simp: k sfree_def Let_def kmem_at_def put_kmem_def)
  qed
qed

lemma kfree_abs:
  assumes "pmm_abs s F" and "j < 10" and "p \<in> zone_blocks s j" and "p \<notin> set (F j)"
    and "p \<noteq> PAGESTART s"
  shows "\<exists>s'. kfree p s = Inr s' \<and> pmm_abs s' (F(j := p # F j)) \<and>
           heap_start s' = heap_start s \<and> heap_end s' = heap_end s \<and> hbound s' = hbound s \<and>
           (\<forall>a. a \<noteq> p \<longrightarrow> cells s' a = cells s a)"
proof -
  note a = pmm_absD [OF assms(1)]
  from push_abs [OF assms(1-4)] kfree_zone [OF a(1-3) assms(2,3,5)]
  show ?thesis by simp
qed

section \<open>kinit\<close>

lemma mod_pow2_zero: "k < 64 \<Longrightarrow> 2 ^ k dvd unat (p :: u64) \<Longrightarrow> p mod 2 ^ k = 0"
proof -
  assume "k < 64" "2 ^ k dvd unat p"
  then have "unat (p mod 2 ^ k) = 0" by (simp add: unat_mod unat_pow2 dvd_eq_mod_eq_0)
  then show ?thesis by (simp add: word_unat_eq_iff)
qed

text \<open>
  The filling loop ends and puts the \<open>n\<close> blocks that fit below \<open>bound\<close> in front of the
  list, last block first; other memory is untouched.
\<close>

lemma kinit_fill_correct:
  assumes "k < 64" and "unat p + n * 2 ^ k \<le> unat bound \<or> n = 0"
    and "unat bound < unat p + (n + 1) * 2 ^ k"
    and "unat p + 2 ^ k < 2 ^ 64" and "unat bound + 2 ^ k < 2 ^ 64"
    and "2 ^ k dvd unat p" and "0 < unat p"
    and "flag (kmem_m mem) = 0" and "flist cs (freelist mem) xs"
    and "\<forall>x \<in> set xs. unat x < unat p"
  shows "\<exists>mem' cs'. kinit_fill (2 ^ k) bound (p, mem, cs) = Some (Inr (mem', cs')) \<and>
    flag (kmem_m mem') = 0 \<and> flist cs' (freelist mem') (rev (blocks_from p k n) @ xs) \<and>
    (\<forall>a. a \<notin> set (blocks_from p k n) \<longrightarrow> cs' a = cs a)"
  using assms(2-)
proof (induction n arbitrary: p mem cs xs)
  case 0
  have "unat (p + 2 ^ k) = unat p + 2 ^ k"
    using 0(3) assms(1) by (subst unat_add_small) (simp_all add: unat_pow2)
  then have "\<not> p + 2 ^ k \<le> bound" using 0(2) by (simp add: word_le_nat_alt)
  then show ?case using 0 by (subst kinit_fill.simps) simp
next
  case (Suc n)
  have u: "unat (p + 2 ^ k) = unat p + 2 ^ k"
    using Suc.prems(3) assms(1) by (subst unat_add_small) (simp_all add: unat_pow2)
  have step: "unat p + 2 ^ k \<le> unat bound"
    using Suc.prems(1) by simp
  then have le: "p + 2 ^ k \<le> bound" "p \<le> bound" using u by (simp_all add: word_le_nat_alt)
  let ?mem = "mem\<lparr>freelist := p\<rparr>" and ?cs = "cs(p := freelist mem)"
  have "p \<notin> set xs" using Suc.prems(9) by auto
  moreover have "p \<noteq> NULL" using Suc.prems(6) by auto
  ultimately have fl: "flist ?cs (freelist ?mem) (p # xs)" using Suc.prems(8) by simp
  have "\<exists>mem' cs'. kinit_fill (2 ^ k) bound (p + 2 ^ k, ?mem, ?cs) = Some (Inr (mem', cs')) \<and>
    flag (kmem_m mem') = 0 \<and>
    flist cs' (freelist mem') (rev (blocks_from (p + 2 ^ k) k n) @ p # xs) \<and>
    (\<forall>a. a \<notin> set (blocks_from (p + 2 ^ k) k n) \<longrightarrow> cs' a = ?cs a)"
  proof (rule Suc.IH)
    show "unat (p + 2 ^ k) + n * 2 ^ k \<le> unat bound \<or> n = 0" using Suc.prems(1) u by simp
    show "unat bound < unat (p + 2 ^ k) + (n + 1) * 2 ^ k" using Suc.prems(2) u by simp
    show "unat (p + 2 ^ k) + 2 ^ k < 2 ^ 64" using step u Suc.prems(4) by linarith
    show "\<forall>x\<in>set (p # xs). unat x < unat (p + 2 ^ k)" using Suc.prems(9) u by auto
    show "flist ?cs (freelist ?mem) (p # xs)" by (rule fl)
  qed (use Suc.prems u in simp_all)
  then show ?case
    using le Suc.prems(5,7) mod_pow2_zero [OF assms(1) Suc.prems(5)]
    by (subst kinit_fill.simps) (auto simp: lock_eq blocks_from_Suc [OF Suc.prems(3) assms(1)])
qed

text \<open>The blocks of a zone, in address order.\<close>

definition zone_list :: "pmm \<Rightarrow> nat \<Rightarrow> addr list" where
  "zone_list s j =
     (let p = ROUNDUP (zone_lo s j) (2 ^ (4 + j)) in
      blocks_from p (4 + j) ((unat (zone_hi s j) - unat p) div 2 ^ (4 + j)))"

lemma zone_list_facts:
  assumes "heap_ok s" and "j < 10"
  defines "p \<equiv> ROUNDUP (zone_lo s j) (2 ^ (4 + j))"
    and "n \<equiv> (unat (zone_hi s j) - unat (ROUNDUP (zone_lo s j) (2 ^ (4 + j)))) div 2 ^ (4 + j)"
  shows "zlo s j \<le> unat p" "unat p < zlo s j + 2 ^ (4 + j)" "2 ^ (4 + j) dvd unat p" "0 < unat p"
    "unat p + n * 2 ^ (4 + j) \<le> zhi s j \<or> n = 0" "zhi s j < unat p + (n + 1) * 2 ^ (4 + j)"
    "unat p + 2 ^ (4 + j) < 2 ^ 64" "zhi s j + 2 ^ (4 + j) < 2 ^ 64"
    "unat p + n * 2 ^ (4 + j) < 2 ^ 64"
proof -
  let ?d = "2 ^ (4 + j) :: nat"
  have "?d \<le> 2 ^ 13" using assms(2) by (intro power_increasing) auto
  then have d: "?d \<le> 8192" by simp
  have d0: "0 < ?d" by simp
  have hi: "zhi s j \<le> unat (heap_end s)" by (rule zhi_le_end [OF assms(1,2)])
  have lohi: "zlo s j \<le> zhi s j" by (auto simp: zlo_def zhi_def)
  have e: "unat (heap_end s) + 16384 \<le> 2 ^ 64" and s0: "0 < zlo s j"
    using assms(1) by (auto simp: heap_ok_def zlo_def)
  have "unat (zone_lo s j) + ?d \<le> 2 ^ 64"
    unfolding unat_zone_lo [OF assms(1,2)] using d hi lohi e by linarith
  then have up: "unat p = ((zlo s j + ?d - 1) div ?d) * ?d"
    unfolding p_def using assms(2) by (subst ROUNDUP_nat) (simp_all add: unat_zone_lo [OF assms(1,2)])
  have "((zlo s j + ?d - 1) div ?d) * ?d + (zlo s j + ?d - 1) mod ?d = zlo s j + ?d - 1"
    by (rule div_mult_mod_eq)
  moreover have "(zlo s j + ?d - 1) mod ?d < ?d" by simp
  ultimately show 1: "zlo s j \<le> unat p" and 2: "unat p < zlo s j + ?d"
    unfolding up using d0 by linarith+
  show "?d dvd unat p" by (simp only: up dvd_triv_right)
  show "0 < unat p" using 1 s0 by linarith
  show 3: "unat p + ?d < 2 ^ 64" "zhi s j + ?d < 2 ^ 64" using 2 hi lohi e d by linarith+
  have n: "n = (zhi s j - unat p) div ?d"
    by (simp only: n_def p_def [symmetric] unat_zone_hi [OF assms(1,2)])
  have q: "n * ?d + (zhi s j - unat p) mod ?d = zhi s j - unat p"
    unfolding n by (rule div_mult_mod_eq)
  have r: "(zhi s j - unat p) mod ?d < ?d" by simp
  show 4: "unat p + n * ?d \<le> zhi s j \<or> n = 0"
  proof (cases "unat p \<le> zhi s j")
    case True
    then show ?thesis using q by linarith
  next
    case False
    then show ?thesis unfolding n by simp
  qed
  show "zhi s j < unat p + (n + 1) * ?d" using q r by (simp only: distrib_right)
  show "unat p + n * ?d < 2 ^ 64" using 4 3 by fastforce
qed

text \<open>A run of aligned blocks is the set of aligned blocks between its ends.\<close>

lemma run_iff:
  fixes p d n hi lo x :: nat
  assumes "lo \<le> p" and "p < lo + d" and "d dvd p" and "p + n * d \<le> hi \<or> n = 0"
    and "hi < p + (n + 1) * d"
  shows "(\<exists>i<n. x = p + i * d) \<longleftrightarrow> lo \<le> x \<and> x + d \<le> hi \<and> d dvd x" (is "?L \<longleftrightarrow> ?R")
proof
  assume ?L
  then obtain i where i: "i < n" "x = p + i * d" by blast
  have "(i + 1) * d \<le> n * d" using i(1) by (intro mult_le_mono1) simp
  moreover have "n \<noteq> 0" using i(1) by linarith
  ultimately have "x + d \<le> hi" using assms(4) i(2) by (simp add: distrib_right)
  then show ?R using assms(1,3) i(2) by simp
next
  assume R: ?R
  have le: "p \<le> x"
  proof (rule ccontr)
    assume "\<not> p \<le> x"
    then have "x + d \<le> p" using R assms(3) by (intro dvd_apart) auto
    then show False using R assms(2) by linarith
  qed
  then have "d dvd x - p" using R assms(3) by (intro dvd_diff_nat) auto
  then obtain i where "x - p = d * i" ..
  then have i: "x = p + i * d" using le by (simp add: mult.commute)
  have "i < n"
  proof (rule ccontr)
    assume "\<not> i < n"
    then have "n * d \<le> i * d" by (intro mult_le_mono1) simp
    moreover have "(n + 1) * d = n * d + d" by simp
    ultimately show False using i R assms(5) by linarith
  qed
  with i show ?L by blast
qed

lemma set_zone_list:
  assumes "heap_ok s" and "j < 10"
  shows "set (zone_list s j) = zone_blocks s j" "distinct (zone_list s j)"
proof -
  note f = zone_list_facts [OF assms]
  show "distinct (zone_list s j)" unfolding zone_list_def Let_def by (rule distinct_blocks_from [OF f(9)])
  show "set (zone_list s j) = zone_blocks s j"
    unfolding zone_list_def Let_def set_eq_iff
    by (simp only: in_blocks_from [OF f(9)] in_zone_blocks [OF assms] run_iff [OF f(1,2,3,5,6)])
      simp
qed

lemma kinit_list_correct:
  assumes "heap_ok s" and "j < 10"
  shows "\<exists>mem' cs'. kinit_list (zone_lo s j) (zone_hi s j) (2 ^ (4 + j)) mem cs = Inr (mem', cs') \<and>
    flag (kmem_m mem') = 0 \<and> flist cs' (freelist mem') (rev (zone_list s j)) \<and>
    (\<forall>a. a \<notin> zone_blocks s j \<longrightarrow> cs' a = cs a)"
proof -
  note f = zone_list_facts [OF assms]
  let ?p = "ROUNDUP (zone_lo s j) (2 ^ (4 + j))"
  let ?n = "(unat (zone_hi s j) - unat ?p) div 2 ^ (4 + j)"
  let ?mem = "mem\<lparr>kmem_m := lockinit (kmem_m mem), freelist := NULL\<rparr>"
  have k: "4 + j < 64" using assms(2) by simp
  have "\<exists>mem' cs'. kinit_fill (2 ^ (4 + j)) (zone_hi s j) (?p, ?mem, cs) = Some (Inr (mem', cs')) \<and>
    flag (kmem_m mem') = 0 \<and> flist cs' (freelist mem') (rev (blocks_from ?p (4 + j) ?n) @ []) \<and>
    (\<forall>a. a \<notin> set (blocks_from ?p (4 + j) ?n) \<longrightarrow> cs' a = cs a)"
    by (rule kinit_fill_correct [OF k])
      (use f in \<open>simp_all only: unat_zone_hi [OF assms]\<close>, simp_all)
  moreover have "blocks_from ?p (4 + j) ?n = zone_list s j" by (simp add: zone_list_def Let_def)
  ultimately show ?thesis
    using set_zone_list(1) [OF assms] by (auto simp: kinit_list_def simp del: returns_def)
qed

text \<open>The zones initialised so far.\<close>

definition zones_done :: "pmm \<Rightarrow> nat set \<Rightarrow> bool" where
  "zones_done s J \<longleftrightarrow> heap_ok s \<and> length (smallmem s) = 8 \<and> length (pagemem s) = 2 \<and>
     flag (g_lock s) = 0 \<and> J \<subseteq> {..<10} \<and> (\<forall>j\<in>J. zone_free s j (rev (zone_list s j)))"

definition kinit_zone :: "nat \<Rightarrow> pmm \<Rightarrow> pmm result" where
  "kinit_zone j s =
     bindR (kinit_list (zone_lo s j) (zone_hi s j) (2 ^ (4 + j)) (kmem_at s j) (cells s))
       (\<lambda>(mem', cs). Inr (put_kmem j mem' (s\<lparr>cells := cs\<rparr>)))"

lemma kinit_zone_done:
  assumes "zones_done s J" and "j < 10" and "j \<notin> J"
  shows "\<exists>s'. kinit_zone j s = Inr s' \<and> zones_done s' (insert j J) \<and>
    heap_start s' = heap_start s \<and> heap_end s' = heap_end s \<and> hbound s' = hbound s"
proof -
  have h: "heap_ok s" "length (smallmem s) = 8" "length (pagemem s) = 2" "flag (g_lock s) = 0"
    "J \<subseteq> {..<10}" and z: "\<And>i. i \<in> J \<Longrightarrow> zone_free s i (rev (zone_list s i))"
    using assms(1) by (auto simp: zones_done_def)
  obtain mem' cs' where k: "kinit_list (zone_lo s j) (zone_hi s j) (2 ^ (4 + j)) (kmem_at s j)
      (cells s) = Inr (mem', cs')" "flag (kmem_m mem') = 0"
    "flist cs' (freelist mem') (rev (zone_list s j))"
    "\<And>a. a \<notin> zone_blocks s j \<Longrightarrow> cs' a = cells s a"
    using kinit_list_correct [OF h(1) assms(2)] by blast
  let ?s' = "put_kmem j mem' (s\<lparr>cells := cs'\<rparr>)"
  have l: "zone_blocks ?s' = zone_blocks s" "heap_ok ?s' = heap_ok s"
    by (rule layout_cong; simp)+
  have zl: "zone_list ?s' i = zone_list s i" for i
    by (simp add: zone_list_def zone_lo_def zone_hi_def layout_cong(5-8) [of ?s' s])
  have at: "kmem_at ?s' i = (if i = j then mem' else kmem_at s i)" if "i < 10" for i
    using kmem_at_put [of "s\<lparr>cells := cs'\<rparr>" j i mem'] h assms(2) that by simp
  have "zone_free ?s' i (rev (zone_list ?s' i))" if i: "i \<in> insert j J" for i
  proof (cases "i = j")
    case True
    then show ?thesis using k set_zone_list [OF h(1) assms(2)] assms(2)
      by (auto simp: zone_free_def zl l at)
  next
    case False
    then have iJ: "i \<in> J" "i < 10" using i h(5) by auto
    note zi = z [OF iJ(1)]
    have "cs' x = cells s x" if x: "x \<in> set (rev (zone_list s i))" for x
    proof (rule k(4))
      show "x \<notin> zone_blocks s j"
        using zone_blocks_disjoint [OF h(1) assms(2) iJ(2), of x] x False
          set_zone_list(1) [OF h(1) iJ(2)] by auto
    qed
    then have "flist cs' (freelist (kmem_at s i)) (rev (zone_list s i))"
      using zi flist_cong [of "rev (zone_list s i)" cs' "cells s"] by (simp add: zone_free_def)
    then show ?thesis using zi False by (simp add: zone_free_def zl l at [OF iJ(2)])
  qed
  then have "zones_done ?s' (insert j J)"
    using h assms(2) by (simp add: zones_done_def l)
  then show ?thesis using k(1) by (simp add: kinit_zone_def)
qed

lemma kinit_small_zone:
  assumes "length (smallmem s) = 8" and "j < 8"
  shows "kinit_small j s = kinit_zone j s"
  using assms by (cases "kinit_list (zone_lo s j) (zone_hi s j) (2 ^ (4 + j)) (kmem_at s j) (cells s)")
    (auto simp: kinit_small_def kinit_zone_def zone_lo_def zone_hi_def kmem_at_def put_kmem_def)

lemma kinit_page_zone:
  assumes "length (pagemem s) = 2"
  shows "kinit_page 0 (PAGESTART s) (MPAGESTART s) PAGE_SIZE s = kinit_zone 8 s"
    and "kinit_page 1 (MPAGESTART s) (HUGESTART s) MPAGE_SIZE s = kinit_zone 9 s"
  using assms
  by (auto simp: kinit_page_def kinit_zone_def zone_lo_def zone_hi_def kmem_at_def put_kmem_def
      PAGE_SIZE_def MPAGE_SIZE_def bindR_def split: sum.splits)

lemma kinit_smalls_done:
  assumes "zones_done s J" and "distinct js" and "set js \<subseteq> {..<8}" and "set js \<inter> J = {}"
  shows "\<exists>s'. kinit_smalls js s = Inr s' \<and> zones_done s' (set js \<union> J) \<and>
    heap_start s' = heap_start s \<and> heap_end s' = heap_end s \<and> hbound s' = hbound s"
  using assms
proof (induction js arbitrary: s J)
  case (Cons j js)
  have j: "j < 10" "j < 8" "j \<notin> J" using Cons.prems(3,4) by auto
  have "length (smallmem s) = 8" using Cons.prems(1) by (simp add: zones_done_def)
  then have e: "kinit_small j s = kinit_zone j s" using j(2) by (rule kinit_small_zone)
  obtain s1 where s1: "kinit_zone j s = Inr s1" "zones_done s1 (insert j J)"
    "heap_start s1 = heap_start s" "heap_end s1 = heap_end s" "hbound s1 = hbound s"
    using kinit_zone_done [OF Cons.prems(1) j(1,3)] by blast
  have "\<exists>s'. kinit_smalls js s1 = Inr s' \<and> zones_done s' (set js \<union> insert j J) \<and>
    heap_start s' = heap_start s1 \<and> heap_end s' = heap_end s1 \<and> hbound s' = hbound s1"
    using Cons.prems by (intro Cons.IH [OF s1(2)]) auto
  then show ?case using e s1 by auto
qed simp

lemma kinit_abs:
  assumes "heap_ok s" and "length (smallmem s) = 8" and "length (pagemem s) = 2"
  shows "\<exists>s'. kinit s = Inr s' \<and> pmm_abs s' (\<lambda>j. rev (zone_list s j)) \<and>
    heap_start s' = heap_start s \<and> heap_end s' = heap_end s \<and> hbound s' = HUGESTART s"
proof -
  let ?s0 = "s\<lparr>hbound := HUGESTART s, g_lock := lockinit (g_lock s)\<rparr>"
  have "heap_ok ?s0 = heap_ok s" by (rule layout_cong) simp_all
  then have "zones_done ?s0 {}" using assms by (simp add: zones_done_def)
  then obtain s1 where s1: "kinit_smalls [0..<8] ?s0 = Inr s1" "zones_done s1 (set [0..<8] \<union> {})"
    "heap_start s1 = heap_start s" "heap_end s1 = heap_end s" "hbound s1 = HUGESTART s"
    using kinit_smalls_done [of ?s0 "{}" "[0..<8]"]
    by (auto simp: subset_eq simp del: upt_rec_numeral)
  have "8 \<notin> set [0..<8::nat] \<union> {}" by simp
  from kinit_zone_done [OF s1(2) _ this] obtain s2 where s2: "kinit_zone 8 s1 = Inr s2"
    "zones_done s2 (insert 8 (set [0..<8] \<union> {}))" "heap_start s2 = heap_start s"
    "heap_end s2 = heap_end s" "hbound s2 = HUGESTART s"
    using s1(3-5) by auto
  have "9 \<notin> insert 8 (set [0..<8::nat] \<union> {})" by simp
  from kinit_zone_done [OF s2(2) _ this] obtain s3 where s3: "kinit_zone 9 s2 = Inr s3"
    "zones_done s3 (insert 9 (insert 8 (set [0..<8] \<union> {})))" "heap_start s3 = heap_start s"
    "heap_end s3 = heap_end s" "hbound s3 = HUGESTART s"
    using s2(3-5) by auto
  have "length (pagemem s1) = 2" "length (pagemem s2) = 2"
    using s1(2) s2(2) by (simp_all add: zones_done_def)
  then have "kinit s = Inr s3"
    using s1(1) s2(1) s3(1) by (simp add: kinit_def Let_def kinit_page_zone
        del: upt_rec_numeral One_nat_def)
  moreover have "zone_list s3 j = zone_list s j" for j
    by (simp add: zone_list_def zone_lo_def zone_hi_def layout_cong(5-8) [of s3 s] s3)
  moreover have "insert 9 (insert 8 (set [0..<8] \<union> {})) = {..<10::nat}" by auto
  ultimately show ?thesis using s3 by (auto simp: zones_done_def pmm_abs_def)
qed

section \<open>The interface\<close>

definition class_alloc :: "nat \<Rightarrow> pmm \<Rightarrow> (addr \<times> pmm) result" where
  "class_alloc c = kalloc (2 ^ (4 + c))"

definition releasable_blocks :: "pmm \<Rightarrow> nat \<Rightarrow> addr set" where
  "releasable_blocks s c = zone_blocks s c - {PAGESTART s}"

lemma unat_class: "c < 10 \<Longrightarrow> unat (2 ^ (4 + c) :: u64) = 2 ^ (4 + c)"
  by (rule unat_pow2) simp

lemma class_zone: "c < 10 \<Longrightarrow> unat (2 ^ (4 + c) :: u64) \<le> 2 ^ 13 \<and>
    zone_of (unat (2 ^ (4 + c) :: u64)) = c"
proof -
  assume c: "c < 10"
  have "(2::nat) ^ (4 + c) \<le> 2 ^ 13" using c by (intro power_increasing) auto
  then show ?thesis by (simp only: unat_class [OF c] zone_of_pow2 [OF c])
qed

interpretation pmm_alloc: block_allocator class_alloc kfree pmm_abs "{..<10}" zone_blocks
  releasable_blocks NULL
proof (unfold_locales, goal_cases)
  case (1 s F c p ps)
  then have c: "c < 10" by simp
  have "F (zone_of (unat (2 ^ (4 + c) :: u64))) = p # ps" using 1(3) class_zone [OF c] by simp
  from kalloc_abs [OF 1(1) _ this] obtain s' where s': "class_alloc c s = Inr (p, s')"
    "pmm_abs s' (F(c := ps))" "heap_start s' = heap_start s" "heap_end s' = heap_end s"
    using class_zone [OF c] by (auto simp: class_alloc_def)
  then show ?case using layout_cong [OF s'(3,4)]
    by (intro exI [of _ s']) (simp add: releasable_blocks_def fun_eq_iff)
next
  case (2 s F c)
  then have "c < 10" by simp
  with 2 show ?case using kalloc_abs_empty [OF 2(1), of "2 ^ (4 + c)"] class_zone [of c]
    by (simp add: class_alloc_def)
next
  case (3 s F c p)
  then have "p \<in> zone_blocks s c" "p \<noteq> PAGESTART s" "c < 10" by (auto simp: releasable_blocks_def)
  from kfree_abs [OF 3(1) this(3,1) 3(4) this(2)] obtain s' where s': "kfree p s = Inr s'"
    "pmm_abs s' (F(c := p # F c))" "heap_start s' = heap_start s" "heap_end s' = heap_end s"
    by blast
  then show ?case using layout_cong [OF s'(3,4)]
    by (intro exI [of _ s']) (simp add: releasable_blocks_def fun_eq_iff)
next
  case (4 s F c)
  then show ?case by (auto simp: pmm_abs_def zone_free_def)
next
  case (5 s F c)
  then show ?case by (simp add: pmm_abs_def zone_free_def)
next
  case (6 s F c)
  then show ?case using zone_blocks_nonnull [OF pmm_absD(1) [OF 6(1)]] by simp
qed

section \<open>Properties\<close>

text \<open>The heap of a 128 MiB QEMU machine, before \<open>kinit\<close>.\<close>

definition qemu_heap :: pmm where
  "qemu_heap = \<lparr>heap_start = 0x100000, heap_end = 0x8000000, cells = (\<lambda>_. 0),
     g_lock = \<lparr>flag = 0\<rparr>, smallmem = replicate 8 \<lparr>kmem_m = \<lparr>flag = 0\<rparr>, freelist = NULL\<rparr>,
     pagemem = replicate 2 \<lparr>kmem_m = \<lparr>flag = 0\<rparr>, freelist = NULL\<rparr>, hbound = 0\<rparr>"

lemma qemu_heap_ok:
  "heap_ok qemu_heap" "length (smallmem qemu_heap) = 8" "length (pagemem qemu_heap) = 2"
  by (simp_all add: qemu_heap_def heap_ok_def)

lemma qemu_layout:
  "heap_bytes qemu_heap = 0x7f00000" "zlo qemu_heap 8 = 0x4080000" "zhi qemu_heap 8 = 0x6040000"
  "PAGESTART qemu_heap = 0x4080000" "HUGESTART qemu_heap = 0x7020000"
  "zlo qemu_heap 0 = 0x100000" "zhi qemu_heap 0 = 0x8f0000"
  by (simp_all add: qemu_heap_def zlo_def zhi_def PAGESTART_def MPAGESTART_def HUGESTART_def HEAPSIZE_def)

lemma qemu_first_page: "0x4080000 \<in> zone_blocks qemu_heap 8"
  by (simp add: in_zone_blocks [OF qemu_heap_ok(1)] qemu_layout)

lemma qemu_small_block: "0x100000 \<in> zone_blocks qemu_heap 0" "0x100010 \<in> zone_blocks qemu_heap 0"
  by (simp_all add: in_zone_blocks [OF qemu_heap_ok(1)] qemu_layout)

text \<open>C1. \<open>kinit\<close> ends without an assertion failing, releases every lock, and leaves on
  the free list of each zone every aligned block that lies inside the zone, once.\<close>

theorem kinit_correct:
  assumes "heap_ok s" and "length (smallmem s) = 8" and "length (pagemem s) = 2"
  shows "\<exists>s' F. kinit s = Inr s' \<and> pmm_abs s' F \<and> hbound s' = HUGESTART s \<and>
    (\<forall>j<10. distinct (F j) \<and> set (F j) = zone_blocks s j)"
proof -
  obtain s' where "kinit s = Inr s'" "pmm_abs s' (\<lambda>j. rev (zone_list s j))" "hbound s' = HUGESTART s"
    using kinit_abs [OF assms] by blast
  then show ?thesis using set_zone_list [OF assms(1)]
    by (intro exI [of _ s'] exI [of _ "\<lambda>j. rev (zone_list s j)"]) simp
qed

theorem kinit_correct_witness:
  "\<exists>s' F. kinit qemu_heap = Inr s' \<and> pmm_abs s' F \<and> hbound s' = 0x7020000 \<and> 0x4080000 \<in> set (F 8)"
proof -
  from kinit_correct [OF qemu_heap_ok] obtain s' F where s': "kinit qemu_heap = Inr s'"
    "pmm_abs s' F" "hbound s' = HUGESTART qemu_heap" "\<forall>j<10. distinct (F j) \<and> set (F j) = zone_blocks qemu_heap j"
    by blast
  then have "set (F 8) = zone_blocks qemu_heap 8" by simp
  with s' qemu_first_page have "kinit qemu_heap = Inr s' \<and> pmm_abs s' F \<and> hbound s' = 0x7020000 \<and> 0x4080000 \<in> set (F 8)"
    by (simp only: qemu_layout simp_thms)
  then show ?thesis by (intro exI)
qed

text \<open>The state \<open>kinit\<close> leaves on that heap, for the witnesses below.\<close>

lemma qemu_init:
  obtains s where "kinit qemu_heap = Inr s" "pmm_abs s (\<lambda>j. rev (zone_list qemu_heap j))"
    "heap_start s = heap_start qemu_heap" "heap_end s = heap_end qemu_heap"
    "hbound s = 0x7020000"
  using kinit_abs [OF qemu_heap_ok] by (auto simp: qemu_layout)

text \<open>C2. \<open>kalloc\<close> of at most 8 KiB refines popping the list of the request's zone: it
  returns NULL and changes nothing when the zone is exhausted, and otherwise the first free
  block, which is large enough, aligned to its size class and no longer free.\<close>

theorem kalloc_correct:
  assumes "pmm_abs s F" and "unat bytes \<le> 8192"
  shows "(F (zone_of (unat bytes)) = [] \<and> kalloc bytes s = Inr (NULL, s)) \<or>
    (\<exists>p s'. kalloc bytes s = Inr (p, s') \<and> p = hd (F (zone_of (unat bytes))) \<and>
       pmm_abs s' (F(zone_of (unat bytes) := tl (F (zone_of (unat bytes))))) \<and>
       p \<in> zone_blocks s (zone_of (unat bytes)) \<and> p \<noteq> NULL \<and>
       p \<notin> set (tl (F (zone_of (unat bytes)))) \<and>
       2 ^ (4 + zone_of (unat bytes)) dvd unat p \<and> unat bytes \<le> 2 ^ (4 + zone_of (unat bytes)))"
proof (cases "F (zone_of (unat bytes))")
  case Nil
  then show ?thesis using kalloc_abs_empty [OF assms(1)] assms(2) by simp
next
  case (Cons p ps)
  let ?j = "zone_of (unat bytes)"
  have b: "unat bytes \<le> 2 ^ 13" using assms(2) by simp
  have j: "?j < 10" by (rule zone_of_bound [OF b])
  have "zone_free s ?j (p # ps)" using pmm_absD(5) [OF assms(1) j] Cons by simp
  then have "p \<in> zone_blocks s ?j" "p \<notin> set ps" by (auto simp: zone_free_def)
  moreover have "p \<noteq> NULL" using zone_blocks_nonnull [OF pmm_absD(1) [OF assms(1)] j] calculation by auto
  moreover have "2 ^ (4 + ?j) dvd unat p"
    using calculation(1) in_zone_blocks [OF pmm_absD(1) [OF assms(1)] j] by blast
  ultimately show ?thesis
    using kalloc_abs [OF assms(1) b Cons] zone_of_fits [of "unat bytes"] Cons by auto
qed

theorem kalloc_correct_witness:
  "\<exists>s F p s'. pmm_abs s F \<and> kalloc 10 s = Inr (p, s') \<and> p \<noteq> NULL \<and> 16 dvd unat p"
proof (rule qemu_init)
  fix s assume s: "pmm_abs s (\<lambda>j. rev (zone_list qemu_heap j))"
  have "ceil_log2 10 \<le> 4" by (rule ceil_log2_le) simp
  then have z: "zone_of (unat (10 :: u64)) = 0" by (simp add: zone_of_def)
  have "0x100000 \<in> set (zone_list qemu_heap 0)"
    using qemu_small_block(1) set_zone_list(1) [OF qemu_heap_ok(1), of 0] by simp
  then have "rev (zone_list qemu_heap 0) \<noteq> []" by auto
  with kalloc_correct [OF s, of 10] z s show ?thesis by (auto simp del: rev_is_Nil_conv)
qed

text \<open>The first page of the page zone can be allocated but not freed: its address is
  \<open>PAGESTART\<close>, which \<open>sfree\<close> looks up among the small zones, and the
  assertion there fails.\<close>

theorem kfree_PAGESTART_asserts:
  assumes "heap_ok s" and "PAGESTART s \<in> zone_blocks s 8"
  shows "kfree (PAGESTART s) s = Inl Assert_Fail"
proof -
  note r = zone_blocks_range [OF assms(1) _ assms(2)]
  have r: "zlo s 8 = unat (PAGESTART s)" "zlo s 8 < zhi s 8" "zhi s 8 \<le> zhi s 9"
    using r by (simp_all add: zlo_def zhi_def unat_PAGESTART [OF assms(1)])
  have "\<not> HUGESTART s \<le> PAGESTART s"
    using r unat_zone_hi [OF assms(1), of 9] by (simp add: zone_hi_def word_le_nat_alt)
  moreover have "sfree_id s (PAGESTART s) [0..<8] (-1) = (if (8::nat) \<in> set [0..<8] then int 8 else -1)"
  proof (rule sfree_id_last)
    fix i assume "i \<in> set [0..<8]"
    then have i: "i < 8" by simp
    then have "\<not> PAGESTART s < STARTADDR s (i + 1)"
      using unat_zone_hi [OF assms(1), of i] zhi_le_zlo [of i 8 s] r
      by (simp add: zone_hi_def word_less_nat_alt)
    then show "(PAGESTART s \<ge> STARTADDR s i \<and> PAGESTART s < STARTADDR s (i + 1)) = (i = 8)"
      using i by simp
  qed
  ultimately show ?thesis by (simp add: kfree_def sfree_def Let_def del: upt_rec_numeral)
qed

lemma first_page_zone:
  assumes "heap_ok s" and "j < 10" and "PAGESTART s \<in> zone_blocks s j"
  shows "j = 8"
proof -
  have r: "zlo s j \<le> unat (PAGESTART s)" "unat (PAGESTART s) < zhi s j" using zone_blocks_range [OF assms(1-3)] by simp_all
  consider "j < 8" | "j = 8" | "j = 9" using assms(2) by linarith
  then show ?thesis
  proof cases
    case 1
    then show ?thesis using r(2) zhi_le_zlo [of j 8 s] by (simp add: zlo_def unat_PAGESTART [OF assms(1)])
  next
    case 3
    then show ?thesis using r by (simp add: zlo_def zhi_def unat_PAGESTART [OF assms(1)])
  qed
qed

text \<open>C3. \<open>kfree\<close> of any allocated block of at most 8 KiB: on the first page of the page zone, at
  \<open>PAGESTART\<close>, it fails its assertion; every other block it pushes on the free list of the block's zone,
  which it finds from the address alone, and it touches no other word of memory.\<close>

theorem kfree_correct:
  assumes "pmm_abs s F" and "j < 10" and "p \<in> zone_blocks s j" and "p \<notin> set (F j)"
  shows "if p = PAGESTART s then kfree p s = Inl Assert_Fail
    else \<exists>s'. kfree p s = Inr s' \<and> pmm_abs s' (F(j := p # F j)) \<and>
      (\<forall>a. cells s' a = (if a = p then cells s' p else cells s a))"
proof (cases "p = PAGESTART s")
  case True
  note ok = pmm_absD(1) [OF assms(1)]
  have "j = 8" using first_page_zone [OF ok assms(2)] assms(3) True by simp
  then show ?thesis using kfree_PAGESTART_asserts [OF ok] assms(3) True by simp
next
  case False
  then show ?thesis using kfree_abs [OF assms False] by auto
qed

theorem kfree_correct_witness:
  "\<exists>s s' s'' p. kalloc 16 s = Inr (p, s') \<and> kfree p s' = Inr s''"
proof (rule qemu_init)
  fix s assume s: "pmm_abs s (\<lambda>j. rev (zone_list qemu_heap j))"
    and e: "heap_start s = heap_start qemu_heap" "heap_end s = heap_end qemu_heap"
  note l = layout_cong [OF e]
  obtain p ps where p: "rev (zone_list qemu_heap 0) = p # ps"
    using qemu_small_block(1) set_zone_list(1) [OF qemu_heap_ok(1), of 0]
    by (cases "rev (zone_list qemu_heap 0)") auto
  have z: "zone_of (unat (16 :: u64)) = 0" using zone_of_pow2 [of 0] by simp
  obtain s' where s': "kalloc 16 s = Inr (p, s')" "pmm_abs s' ((\<lambda>j. rev (zone_list qemu_heap j))(0 := ps))"
    "heap_start s' = heap_start s" "heap_end s' = heap_end s"
    using kalloc_abs [OF s, of 16 p ps] z p by auto
  have "p \<in> set (rev (zone_list qemu_heap 0))" unfolding p by simp
  then have pb: "p \<in> zone_blocks qemu_heap 0" using set_zone_list(1) [OF qemu_heap_ok(1), of 0] by simp
  then have "unat p < zhi qemu_heap 0" by (intro zone_blocks_range(3) [OF qemu_heap_ok(1)]) simp_all
  then have np: "p \<noteq> PAGESTART s'" by (auto simp: layout_cong [OF s'(3,4)] l qemu_layout)
  have pb': "p \<in> zone_blocks s' 0" using pb by (simp add: layout_cong [OF s'(3,4)] l)
  have "distinct (rev (zone_list qemu_heap 0))" using set_zone_list(2) [OF qemu_heap_ok(1), of 0] by simp
  then have nin: "p \<notin> set (((\<lambda>j. rev (zone_list qemu_heap j))(0 := ps)) 0)" unfolding p by simp
  from kfree_correct [OF s'(2) _ pb' nin] np s'(1) show ?thesis by auto
qed

text \<open>C4. Any number of allocations of one size class return, as long as the zone has that many free
  blocks: they hand out that many of its free blocks, all non-NULL and pairwise non-overlapping, and leave
  the rest of the zone's list and the other zones as they were.\<close>

theorem kalloc_many_disjoint:
  assumes "pmm_abs s F" and "c < 10" and "n \<le> length (F c)"
  shows "\<exists>ps s'. alloc_many (kalloc (2 ^ (4 + c))) n s = Inr (ps, s') \<and> length ps = n \<and>
    pmm_abs s' (F(c := drop n (F c))) \<and> set ps \<subseteq> set (F c) \<and> NULL \<notin> set ps \<and>
    (\<forall>i<n. \<forall>k<n. i \<noteq> k \<longrightarrow>
      unat (ps ! i) + 2 ^ (4 + c) \<le> unat (ps ! k) \<or> unat (ps ! k) + 2 ^ (4 + c) \<le> unat (ps ! i))"
proof -
  have c: "c \<in> {..<10}" using assms(2) by simp
  obtain s' where s': "alloc_many (kalloc (2 ^ (4 + c))) n s = Inr (take n (F c), s')" "pmm_abs s' (F(c := drop n (F c)))"
    using pmm_alloc.alloc_many_take [OF assms(1) c assms(3)] by (auto simp: class_alloc_def)
  have ps: "distinct (take n (F c))" "set (take n (F c)) \<subseteq> zone_blocks s c" "NULL \<notin> set (take n (F c))"
    using pmm_alloc.alloc_many_distinct [OF assms(1) c assms(3)] s'(1) by (simp_all add: class_alloc_def)
  have "unat (take n (F c) ! i) + 2 ^ (4 + c) \<le> unat (take n (F c) ! k) \<or>
      unat (take n (F c) ! k) + 2 ^ (4 + c) \<le> unat (take n (F c) ! i)" if "i < n" "k < n" "i \<noteq> k" for i k
  proof -
    have l: "i < length (take n (F c))" "k < length (take n (F c))" using that assms(3) by simp_all
    then have "take n (F c) ! i \<noteq> take n (F c) ! k" using ps(1) that(3) nth_eq_iff_index_eq by blast
    with zone_blocks_apart [OF pmm_absD(1) [OF assms(1)] assms(2,2)] show ?thesis
      using ps(2) nth_mem [OF l(1)] nth_mem [OF l(2)] by blast
  qed
  then show ?thesis using s' ps(3) assms(3) set_take_subset [of n "F c"]
    by (intro exI [of _ "take n (F c)"] exI [of _ s']) simp
qed

theorem kalloc_many_disjoint_witness:
  "\<exists>s p q s'. alloc_many (kalloc (2 ^ (4 + 0))) 2 s = Inr ([p, q], s') \<and>
     (unat p + 16 \<le> unat q \<or> unat q + 16 \<le> unat p)"
proof (rule qemu_init)
  fix s assume s: "pmm_abs s (\<lambda>j. rev (zone_list qemu_heap j))"
  have "{0x100000, 0x100010} \<subseteq> set (zone_list qemu_heap 0)"
    using qemu_small_block set_zone_list(1) [OF qemu_heap_ok(1), of 0] by simp
  then have "card {0x100000, 0x100010 :: addr} \<le> length (zone_list qemu_heap 0)"
    by (meson card_mono card_length finite_set le_trans)
  then have len: "2 \<le> length (rev (zone_list qemu_heap 0))" by simp
  from kalloc_many_disjoint [OF s _ len] obtain ps s' where ps: "alloc_many (kalloc (2 ^ (4 + 0))) 2 s = Inr (ps, s')" "length ps = 2"
    "\<forall>i<2. \<forall>k<2. i \<noteq> k \<longrightarrow> unat (ps ! i) + 2 ^ (4 + 0) \<le> unat (ps ! k) \<or> unat (ps ! k) + 2 ^ (4 + 0) \<le> unat (ps ! i)" by auto
  have pq: "ps = [ps ! 0, ps ! 1]" using ps(2) by (cases ps; cases "tl ps") auto
  have "unat (ps ! 0) + 16 \<le> unat (ps ! 1) \<or> unat (ps ! 1) + 16 \<le> unat (ps ! 0)"
    using ps(3) [rule_format, of 0 1] by simp
  then show ?thesis using ps(1) pq by metis
qed

section \<open>Huge blocks and the first page\<close>

lemma huge_tsz_nat:
  assumes "unat sz < 31"
  shows "huge_tsz sz = Inr (2 ^ unat sz)"
  using assms by (simp add: huge_tsz_def push_bit_eq_mult word_less_nat_alt)

lemma round_up_nat:
  fixes a k :: nat
  assumes "0 < k"
  shows "a \<le> (a + k - 1) div k * k" "(a + k - 1) div k * k < a + k"
proof -
  have "(a + k - 1) div k * k + (a + k - 1) mod k = a + k - 1" by (rule div_mult_mod_eq)
  moreover have "(a + k - 1) mod k < k" using assms by simp
  ultimately show "a \<le> (a + k - 1) div k * k" "(a + k - 1) div k * k < a + k"
    using assms by linarith+
qed

lemma hugealloc_block:
  assumes "unat sz < 31" and "flag (g_lock s) = 0"
    and "unat (hbound s) + 2 ^ unat sz \<le> unat (heap_end s)"
  shows "hugealloc sz s = Inr (ROUNDUP (hbound s) (2 ^ unat sz),
           s\<lparr>hbound := hbound s + 2 ^ unat sz, g_lock := g_lock s\<rparr>)"
    and "unat (hbound s + 2 ^ unat sz) = unat (hbound s) + 2 ^ unat sz"
    and "unat (ROUNDUP (hbound s) (2 ^ unat sz)) =
      (unat (hbound s) + 2 ^ unat sz - 1) div 2 ^ unat sz * 2 ^ unat sz"
proof -
  have p: "unat (2 ^ unat sz :: u64) = 2 ^ unat sz" using assms(1) by (simp add: unat_pow2)
  have e: "unat (heap_end s) < 2 ^ 64" by (rule less_le_trans [OF unsigned_less]) simp
  show b: "unat (hbound s + 2 ^ unat sz) = unat (hbound s) + 2 ^ unat sz"
    using assms(3) e by (subst unat_add_small) (simp_all add: p)
  show "unat (ROUNDUP (hbound s) (2 ^ unat sz)) =
      (unat (hbound s) + 2 ^ unat sz - 1) div 2 ^ unat sz * 2 ^ unat sz"
    using assms(1,3) e by (intro ROUNDUP_nat) simp_all
  show "hugealloc sz s = Inr (ROUNDUP (hbound s) (2 ^ unat sz),
           s\<lparr>hbound := hbound s + 2 ^ unat sz, g_lock := g_lock s\<rparr>)"
    using assms by (simp add: hugealloc_def huge_tsz_nat Let_def word_less_nat_alt b)
qed

text \<open>A huge allocation that fits returns an aligned block that starts at most one block
  above \<open>hbound\<close>; the block lies below the new \<open>hbound\<close>, so that the next
  allocation cannot overlap it, exactly when the old \<open>hbound\<close> was aligned to the block.\<close>

theorem hugealloc_reserves_iff:
  assumes "unat sz < 31" and "flag (g_lock s) = 0"
    and "unat (hbound s) + 2 ^ unat sz \<le> unat (heap_end s)"
  shows "\<exists>p s'. hugealloc sz s = Inr (p, s') \<and> 2 ^ unat sz dvd unat p \<and>
    unat (hbound s) \<le> unat p \<and> unat p < unat (hbound s) + 2 ^ unat sz \<and>
    (unat p + 2 ^ unat sz \<le> unat (hbound s') \<longleftrightarrow> 2 ^ unat sz dvd unat (hbound s))"
proof -
  let ?K = "2 ^ unat sz :: nat" and ?p = "ROUNDUP (hbound s) (2 ^ unat sz)"
  note h = hugealloc_block [OF assms]
  note r = round_up_nat [of ?K "unat (hbound s)"]
  have "unat ?p + ?K \<le> unat (hbound s) + ?K \<longleftrightarrow> ?K dvd unat (hbound s)"
  proof
    assume "unat ?p + ?K \<le> unat (hbound s) + ?K"
    then have "unat ?p = unat (hbound s)" using r h(3) by simp
    then show "?K dvd unat (hbound s)" using h(3) by (metis dvd_triv_right)
  next
    assume "?K dvd unat (hbound s)"
    then obtain c where c: "unat (hbound s) = ?K * c" by (rule dvdE)
    have "(?K * c + (?K - 1)) div ?K = c" by (rule div_mult_self4 [THEN trans]) simp_all
    then show "unat ?p + ?K \<le> unat (hbound s) + ?K"
      using h(3) c by (simp add: mult.commute)
  qed
  moreover have "?K dvd unat ?p" "unat (hbound s) \<le> unat ?p" "unat ?p < unat (hbound s) + ?K"
    using r by (simp_all only: h(3) dvd_triv_right zero_less_power zero_less_numeral)
  ultimately show ?thesis using h(1,2)
    by (intro exI [of _ ?p] exI [of _ "s\<lparr>hbound := hbound s + 2 ^ unat sz, g_lock := g_lock s\<rparr>"]) simp
qed

definition qemu_huge :: "addr \<Rightarrow> pmm" where
  "qemu_huge b = qemu_heap\<lparr>hbound := b\<rparr>"

theorem hugealloc_reserves_iff_witness:
  "\<exists>p s'. hugealloc 17 (qemu_huge 0x7020000) = Inr (p, s') \<and> unat p + 0x20000 \<le> unat (hbound s')"
  using hugealloc_reserves_iff [of 17 "qemu_huge 0x7020000"]
  by (auto simp: qemu_huge_def qemu_heap_def)

text \<open>On the heap of a 128 MiB machine, the first two huge allocations after
  \<open>kinit\<close>, of 256 KiB and then 128 KiB, return overlapping blocks.\<close>

theorem hugealloc_overlap:
  "\<exists>p q s' s''. kalloc 0x40000 (qemu_huge (HUGESTART qemu_heap)) = Inr (p, s') \<and>
     kalloc 0x20000 s' = Inr (q, s'') \<and> p < q \<and> unat q < unat p + 0x40000"
proof -
  have "ceil_log2 0x40000 = 18" "ceil_log2 0x20000 = 17"
    using ceil_log2_pow2 [of 18] ceil_log2_pow2 [of 17] by simp_all
  then have r: "ROUND_SELF 0x40000 = Some 18" "ROUND_SELF 0x20000 = Some 17"
    by (simp_all add: ROUND_SELF_eq)
  have "kalloc 0x40000 (qemu_huge 0x7020000) = Inr (0x7040000, qemu_huge 0x7060000)"
    by (simp add: kalloc_def r hugealloc_def huge_tsz_def ROUNDUP_def unlock_def atomic_xchg_def Let_def
        push_bit_eq_mult qemu_huge_def qemu_heap_def)
  moreover have "kalloc 0x20000 (qemu_huge 0x7060000) = Inr (0x7060000, qemu_huge 0x7080000)"
    by (simp add: kalloc_def r hugealloc_def huge_tsz_def ROUNDUP_def unlock_def atomic_xchg_def Let_def
        push_bit_eq_mult qemu_huge_def qemu_heap_def)
  ultimately show ?thesis unfolding qemu_layout by (intro exI conjI) (assumption, assumption, simp_all)
qed

theorem kfree_PAGESTART_asserts_witness:
  "kfree 0x4080000 qemu_heap = Inl Assert_Fail"
  using kfree_PAGESTART_asserts [OF qemu_heap_ok(1)] qemu_first_page by (simp add: qemu_layout)

end
