(* ===== verification/X86.thy ===== *)
theory X86
  imports Prelude
begin

text \<open>
  The x86-64 data structures of \<open>am/src/x86/x86.h\<close> and \<open>x86-qemu.h\<close>: page-table
  flags, segment selectors, segment and gate descriptors with their bit fields, the task
  state segment, and the table \<open>IRQS\<close> of interrupt numbers.

  A bit field of width \<open>w\<close> is a \<open>w word\<close>; storing a wider value in it truncates
  (\<open>ucast\<close>), as in C.
\<close>

section \<open>Constants\<close>

definition DPL_KERN :: "2 word" where "DPL_KERN = 0"
definition DPL_USER :: "2 word" where "DPL_USER = 3"

definition STA_X :: "4 word" where "STA_X = 8"
definition STA_W :: "4 word" where "STA_W = 2"
definition STA_R :: "4 word" where "STA_R = 2"

definition STS_T32A :: "4 word" where "STS_T32A = 9"
definition STS_IG :: "4 word" where "STS_IG = 14"
definition STS_TG :: "4 word" where "STS_TG = 15"

definition FL_IF :: u64 where "FL_IF = 0x200"
definition CR0_PG :: u64 where "CR0_PG = 0x80000000"

definition PTE_P :: u64 where "PTE_P = 1"
definition PTE_W :: u64 where "PTE_W = 2"
definition PTE_U :: u64 where "PTE_U = 4"

definition NR_SEG :: nat where "NR_SEG = 6"
definition SEG_KCODE :: u64 where "SEG_KCODE = 1"
definition SEG_KDATA :: u64 where "SEG_KDATA = 2"
definition SEG_UCODE :: u64 where "SEG_UCODE = 3"
definition SEG_UDATA :: u64 where "SEG_UDATA = 4"
definition SEG_TSS :: u64 where "SEG_TSS = 5"
definition NR_IRQ :: nat where "NR_IRQ = 256"

definition KSEL :: "u64 \<Rightarrow> u64" where
  "KSEL seg = push_bit 3 seg OR ucast DPL_KERN"

definition USEL :: "u64 \<Rightarrow> u64" where
  "USEL seg = push_bit 3 seg OR ucast DPL_USER"

definition T_IRQ0 :: nat where "T_IRQ0 = 32"
definition IRQ_TIMER :: nat where "IRQ_TIMER = 0"
definition IRQ_KBD :: nat where "IRQ_KBD = 1"
definition IRQ_COM1 :: nat where "IRQ_COM1 = 4"
definition IRQ_ERROR :: nat where "IRQ_ERROR = 19"
definition IRQ_SPURIOUS :: nat where "IRQ_SPURIOUS = 31"
definition EX_DE :: nat where "EX_DE = 0"
definition EX_UD :: nat where "EX_UD = 6"
definition EX_NM :: nat where "EX_NM = 7"
definition EX_DF :: nat where "EX_DF = 8"
definition EX_TS :: nat where "EX_TS = 10"
definition EX_NP :: nat where "EX_NP = 11"
definition EX_SS :: nat where "EX_SS = 12"
definition EX_GP :: nat where "EX_GP = 13"
definition EX_PF :: nat where "EX_PF = 14"
definition EX_SYSCALL :: nat where "EX_SYSCALL = 0x80"
definition EX_YIELD :: nat where "EX_YIELD = 0x81"

lemmas irq_numbers = T_IRQ0_def IRQ_TIMER_def IRQ_KBD_def IRQ_COM1_def EX_DE_def EX_UD_def
  EX_NM_def EX_DF_def EX_TS_def EX_NP_def EX_SS_def EX_GP_def EX_PF_def EX_SYSCALL_def EX_YIELD_def

text \<open>The list \<open>IRQS\<close>: interrupt number, privilege level, whether the CPU pushes an
  error code.\<close>

definition IRQS :: "(nat \<times> 2 word \<times> bool) list" where
  "IRQS =
    [(0, DPL_KERN, False), (1, DPL_KERN, False), (2, DPL_KERN, False), (3, DPL_KERN, False),
     (4, DPL_KERN, False), (5, DPL_KERN, False), (6, DPL_KERN, False), (7, DPL_KERN, False),
     (8, DPL_KERN, True), (9, DPL_KERN, False), (10, DPL_KERN, True), (11, DPL_KERN, True),
     (12, DPL_KERN, True), (13, DPL_KERN, True), (14, DPL_KERN, True), (15, DPL_KERN, False),
     (16, DPL_KERN, False), (19, DPL_KERN, False), (31, DPL_KERN, False), (32, DPL_KERN, False),
     (33, DPL_KERN, False), (34, DPL_KERN, False), (35, DPL_KERN, False), (36, DPL_KERN, False),
     (37, DPL_KERN, False), (38, DPL_KERN, False), (39, DPL_KERN, False), (40, DPL_KERN, False),
     (41, DPL_KERN, False), (42, DPL_KERN, False), (43, DPL_KERN, False), (44, DPL_KERN, False),
     (45, DPL_KERN, False), (46, DPL_KERN, False), (47, DPL_KERN, False),
     (128, DPL_USER, False), (129, DPL_USER, False)]"

section \<open>Descriptors\<close>

record SegDesc =
  lim_15_0 :: "16 word"
  base_15_0 :: "16 word"
  base_23_16 :: "8 word"
  sd_type :: "4 word"
  sd_s :: "1 word"
  sd_dpl :: "2 word"
  sd_p :: "1 word"
  lim_19_16 :: "4 word"
  sd_avl :: "1 word"
  sd_l :: "1 word"
  sd_db :: "1 word"
  sd_g :: "1 word"
  base_31_24 :: "8 word"

definition SEG64 :: "4 word \<Rightarrow> 2 word \<Rightarrow> SegDesc" where
  "SEG64 ty dpl =
     \<lparr>lim_15_0 = 0, base_15_0 = 0, base_23_16 = 0, sd_type = ty, sd_s = 1, sd_dpl = dpl,
      sd_p = 1, lim_19_16 = 0, sd_avl = 0, sd_l = 1, sd_db = 0, sd_g = 0, base_31_24 = 0\<rparr>"

definition SEG16 :: "4 word \<Rightarrow> addr \<Rightarrow> u64 \<Rightarrow> 2 word \<Rightarrow> SegDesc" where
  "SEG16 ty base lim dpl =
     \<lparr>lim_15_0 = ucast (lim AND 0xffff), base_15_0 = ucast (base AND 0xffff),
      base_23_16 = ucast (drop_bit 16 base AND 0xff), sd_type = ty, sd_s = 0, sd_dpl = dpl,
      sd_p = 1, lim_19_16 = ucast (drop_bit 16 lim), sd_avl = 0, sd_l = 0, sd_db = 1, sd_g = 0,
      base_31_24 = ucast (drop_bit 24 base)\<rparr>"

record GateDesc64 =
  off_15_0 :: "16 word"
  gd_cs :: "16 word"
  gd_isv :: "3 word"
  gd_zero1 :: "5 word"
  gd_type :: "4 word"
  gd_zero2 :: "1 word"
  gd_dpl :: "2 word"
  gd_p :: "1 word"
  off_31_16 :: "16 word"
  off_63_32 :: "32 word"
  gd_rsv :: "32 word"

definition GATE64 :: "4 word \<Rightarrow> u64 \<Rightarrow> addr \<Rightarrow> 2 word \<Rightarrow> GateDesc64" where
  "GATE64 ty cs entry dpl =
     \<lparr>off_15_0 = ucast (entry AND 0xffff), gd_cs = ucast cs, gd_isv = 0, gd_zero1 = 0,
      gd_type = ty, gd_zero2 = 0, gd_dpl = dpl, gd_p = 1,
      off_31_16 = ucast (drop_bit 16 entry AND 0xffff), off_63_32 = ucast (drop_bit 32 entry),
      gd_rsv = 0\<rparr>"

text \<open>What the CPU reads back: the handler's address, and the base of a segment.\<close>

definition gate_offset :: "GateDesc64 \<Rightarrow> addr" where
  "gate_offset g =
     push_bit 32 (ucast (off_63_32 g)) OR push_bit 16 (ucast (off_31_16 g)) OR ucast (off_15_0 g)"

definition seg_base :: "SegDesc \<Rightarrow> addr" where
  "seg_base d =
     push_bit 24 (ucast (base_31_24 d)) OR push_bit 16 (ucast (base_23_16 d)) OR ucast (base_15_0 d)"

definition seg_limit :: "SegDesc \<Rightarrow> u64" where
  "seg_limit d = push_bit 16 (ucast (lim_19_16 d)) OR ucast (lim_15_0 d)"

lemma and_low_mask: "(x :: u64) AND 0xffff = take_bit 16 x" "(x :: u64) AND 0xff = take_bit 8 x"
  by (simp_all add: take_bit_eq_mask mask_eq_exp_minus_1)

lemma gate_offset_GATE64 [simp]: "gate_offset (GATE64 ty cs entry dpl) = entry"
proof (rule bit_word_eqI)
  fix n assume "n < LENGTH(64)"
  then consider "n < 16" | "16 \<le> n" "n < 32" | "32 \<le> n" "n < 64" by fastforce
  then show "bit (gate_offset (GATE64 ty cs entry dpl)) n = bit entry n"
    by cases (auto simp: gate_offset_def GATE64_def and_low_mask bit_simps)
qed

lemma gate_dpl_GATE64 [simp]: "gd_dpl (GATE64 ty cs entry dpl) = dpl" "gd_p (GATE64 ty cs entry dpl) = 1"
  "gd_type (GATE64 ty cs entry dpl) = ty"
  by (simp_all add: GATE64_def)

lemma seg_base_SEG16:
  assumes "drop_bit 32 base = 0"
  shows "seg_base (SEG16 ty base lim dpl) = base"
proof (rule bit_word_eqI)
  fix n assume "n < LENGTH(64)"
  then consider "n < 16" | "16 \<le> n" "n < 24" | "24 \<le> n" "n < 32" | "32 \<le> n" "n < 64" by fastforce
  then show "bit (seg_base (SEG16 ty base lim dpl)) n = bit base n"
  proof cases
    case 4
    then have "bit (drop_bit 32 base) (n - 32) = bit base n" by (simp add: bit_simps)
    then show ?thesis using 4 assms by (simp add: seg_base_def SEG16_def bit_simps)
  qed (auto simp: seg_base_def SEG16_def and_low_mask bit_simps)
qed

section \<open>CPU-local state\<close>

record TSS64 =
  tss_rsp0 :: u64
  tss_rsp1 :: u64
  tss_rsp2 :: u64

record cpu_local =
  cpu_uvm :: addr
  cpu_gdt :: "SegDesc list"
  cpu_tss :: TSS64

text \<open>
  \<open>__am_percpu_initgdt\<close>; \<open>tss\<close> is the address of the CPU's TSS, which must be below
  4 GiB, and \<open>sizeof(TSS64)\<close> is 104.
\<close>

definition initgdt :: "addr \<Rightarrow> cpu_local \<Rightarrow> cpu_local result" where
  "initgdt tss c =
     (let g = cpu_gdt c;
          g = g[unat SEG_KCODE := SEG64 (STA_X OR STA_R) DPL_KERN];
          g = g[unat SEG_KDATA := SEG64 STA_W DPL_KERN];
          g = g[unat SEG_UCODE := SEG64 (STA_X OR STA_R) DPL_USER];
          g = g[unat SEG_UDATA := SEG64 STA_W DPL_USER];
          g = g[unat SEG_TSS := SEG16 STS_T32A tss (104 - 1) DPL_KERN]
      in bindR (guardR Out_Of_Bounds (length g = NR_SEG + 1)) (\<lambda>_.
         bindR (guardR Panic (drop_bit 32 tss = 0)) (\<lambda>_.
         Inr (c\<lparr>cpu_gdt := g\<rparr>))))"

lemma initgdt_segments:
  assumes "length (cpu_gdt c) = NR_SEG + 1" and "drop_bit 32 tss = 0"
  shows "\<exists>c'. initgdt tss c = Inr c' \<and> seg_base (cpu_gdt c' ! unat SEG_TSS) = tss \<and>
    seg_limit (cpu_gdt c' ! unat SEG_TSS) = 103 \<and>
    sd_dpl (cpu_gdt c' ! unat SEG_UCODE) = DPL_USER \<and> sd_dpl (cpu_gdt c' ! unat SEG_UDATA) = DPL_USER \<and>
    sd_dpl (cpu_gdt c' ! unat SEG_KCODE) = DPL_KERN \<and> cpu_tss c' = cpu_tss c"
  using assms
  by (simp add: initgdt_def Let_def NR_SEG_def SEG_TSS_def SEG_UCODE_def SEG_KCODE_def SEG_KDATA_def
      SEG_UDATA_def seg_base_SEG16) (simp add: SEG16_def SEG64_def seg_limit_def)

end
