(* ===== verification/Cte.thy ===== *)
theory Cte
  imports X86
begin

text \<open>
  Interrupts and contexts on x86-64: \<open>am/src/x86/qemu/cte.c\<close>.  A \<open>Context\<close> is the
  record of saved registers, a \<open>trap_frame\<close> what the entry stubs push.  The kernel's
  handler is an argument of \<open>irq_handle\<close>, a function that may fail and that returns the
  context to resume (\<open>None\<close> is a NULL pointer) and its new state; \<open>cte_init\<close> takes the
  addresses of the assembly stubs \<open>__am_irq<n>\<close> and \<open>__am_irqall\<close>.
\<close>

section \<open>Contexts, events, trap frames\<close>

record Context =
  r_cr3 :: addr
  r_rax :: u64
  r_rbx :: u64
  r_rcx :: u64
  r_rdx :: u64
  r_rbp :: u64
  r_rsi :: u64
  r_rdi :: u64
  r_r8 :: u64
  r_r9 :: u64
  r_r10 :: u64
  r_r11 :: u64
  r_r12 :: u64
  r_r13 :: u64
  r_r14 :: u64
  r_r15 :: u64
  r_rip :: u64
  r_cs :: u64
  r_rflags :: u64
  r_rsp :: u64
  r_ss :: u64
  r_rsp0 :: u64

text \<open>\<open>(Context) { 0 }\<close>, and the register names of the system-call convention.\<close>

definition zero_context :: Context where
  "zero_context =
     \<lparr>r_cr3 = 0, r_rax = 0, r_rbx = 0, r_rcx = 0, r_rdx = 0, r_rbp = 0, r_rsi = 0, r_rdi = 0,
      r_r8 = 0, r_r9 = 0, r_r10 = 0, r_r11 = 0, r_r12 = 0, r_r13 = 0, r_r14 = 0, r_r15 = 0,
      r_rip = 0, r_cs = 0, r_rflags = 0, r_rsp = 0, r_ss = 0, r_rsp0 = 0\<rparr>"

abbreviation GPR1 :: "Context \<Rightarrow> u64" where "GPR1 \<equiv> r_rdi"
abbreviation GPR2 :: "Context \<Rightarrow> u64" where "GPR2 \<equiv> r_rsi"
abbreviation GPRx :: "Context \<Rightarrow> u64" where "GPRx \<equiv> r_rax"

datatype event_kind =
    EVENT_NULL
  | EVENT_YIELD
  | EVENT_SYSCALL
  | EVENT_PAGEFAULT
  | EVENT_ERROR
  | EVENT_IRQ_TIMER
  | EVENT_IRQ_IODEV

record Event =
  ev_event :: event_kind
  ev_cause :: u64
  ev_ref :: addr

definition MMAP_NONE :: u64 where "MMAP_NONE = 0"
definition MMAP_READ :: u64 where "MMAP_READ = 1"
definition MMAP_WRITE :: u64 where "MMAP_WRITE = 2"

record trap_frame =
  saved_context :: Context
  tf_irq :: u64
  tf_errcode :: u64
  tf_rip :: u64
  tf_cs :: u64
  tf_rflags :: u64
  tf_rsp :: u64
  tf_ss :: u64

record cpu_regs =
  cr2 :: u64
  cr3 :: addr
  rsp0 :: u64
  eois :: nat

section \<open>Classification of interrupts\<close>

text \<open>The \<open>switch\<close> of \<open>__am_irq_handle\<close>.\<close>

definition classify :: "nat \<Rightarrow> u64 \<Rightarrow> u64 \<Rightarrow> Event" where
  "classify irq errcode faddr =
     (let ev = \<lparr>ev_event = EVENT_NULL, ev_cause = 0, ev_ref = 0\<rparr> in
      if irq = T_IRQ0 + IRQ_TIMER then ev\<lparr>ev_event := EVENT_IRQ_TIMER\<rparr>
      else if irq = T_IRQ0 + IRQ_KBD then ev\<lparr>ev_event := EVENT_IRQ_IODEV\<rparr>
      else if irq = T_IRQ0 + IRQ_COM1 then ev\<lparr>ev_event := EVENT_IRQ_IODEV\<rparr>
      else if irq = EX_SYSCALL then ev\<lparr>ev_event := EVENT_SYSCALL\<rparr>
      else if irq = EX_YIELD then ev\<lparr>ev_event := EVENT_YIELD\<rparr>
      else if irq \<in> set [EX_DE, EX_UD, EX_NM, EX_DF, EX_TS, EX_NP, EX_SS, EX_GP]
        then ev\<lparr>ev_event := EVENT_ERROR\<rparr>
      else if irq = EX_PF then
        let cause = (if errcode AND 1 \<noteq> 0 then ev_cause ev OR MMAP_NONE else ev_cause ev);
            cause = (if errcode AND 2 \<noteq> 0 then cause OR MMAP_WRITE else cause OR MMAP_READ)
        in ev\<lparr>ev_event := EVENT_PAGEFAULT, ev_cause := cause, ev_ref := faddr\<rparr>
      else ev\<lparr>ev_event := EVENT_ERROR, ev_cause := errcode\<rparr>)"

lemma classify_pagefault:
  "classify 14 errcode faddr =
     \<lparr>ev_event = EVENT_PAGEFAULT, ev_cause = (if errcode AND 2 \<noteq> 0 then MMAP_WRITE else MMAP_READ),
      ev_ref = faddr\<rparr>"
  by (simp add: classify_def irq_numbers Let_def MMAP_NONE_def)

lemma classify_kinds:
  "ev_event (classify irq errcode faddr) = EVENT_SYSCALL \<longleftrightarrow> irq = 0x80"
  "ev_event (classify irq errcode faddr) = EVENT_YIELD \<longleftrightarrow> irq = 0x81"
  "ev_event (classify irq errcode faddr) = EVENT_PAGEFAULT \<longleftrightarrow> irq = 14"
  "ev_event (classify irq errcode faddr) = EVENT_IRQ_TIMER \<longleftrightarrow> irq = 32"
  "ev_event (classify irq errcode faddr) = EVENT_IRQ_IODEV \<longleftrightarrow> irq = 33 \<or> irq = 36"
  "ev_event (classify irq errcode faddr) \<noteq> EVENT_NULL"
  by (simp_all add: classify_def irq_numbers Let_def)

section \<open>The interrupt handler\<close>

text \<open>The registers the CPU pushed are completed into the saved context.\<close>

definition save_context :: "trap_frame \<Rightarrow> cpu_regs \<Rightarrow> Context" where
  "save_context tf r =
     (saved_context tf)\<lparr>r_rip := tf_rip tf, r_cs := tf_cs tf, r_rflags := tf_rflags tf,
       r_rsp := tf_rsp tf, r_rsp0 := rsp0 r, r_ss := tf_ss tf, r_cr3 := cr3 r\<rparr>"

text \<open>The tail of the handler: switch the page table and the kernel stack, if the context
  has a page table, and resume it.\<close>

definition resume :: "Context \<Rightarrow> cpu_regs \<Rightarrow> cpu_regs" where
  "resume ctx r = (if r_cr3 ctx \<noteq> NULL then r\<lparr>cr3 := r_cr3 ctx, rsp0 := r_rsp0 ctx\<rparr> else r)"

definition irq_handle ::
    "(Event \<Rightarrow> Context \<Rightarrow> 's \<Rightarrow> (Context option \<times> 's) result) \<Rightarrow> trap_frame \<Rightarrow>
     cpu_regs \<times> 's \<Rightarrow> (Context \<times> cpu_regs \<times> 's) result" where
  "irq_handle user_handler tf st =
     (case st of (r, s) \<Rightarrow>
        let ctx = save_context tf r;
            irq = unat (tf_irq tf);
            r1 = (if T_IRQ0 \<le> irq \<and> irq < T_IRQ0 + 32 then r\<lparr>eois := eois r + 1\<rparr> else r);
            ev = classify irq (tf_errcode tf) (cr2 r)
        in bindR (user_handler ev ctx s) (\<lambda>(ret, s').
           case ret of None \<Rightarrow> Inl Panic
           | Some c \<Rightarrow> Inr (c, resume c r1, s')))"

lemma irq_handle_Inr:
  assumes "irq_handle h tf (r, s) = Inr (c, r', s')"
  shows "h (classify (unat (tf_irq tf)) (tf_errcode tf) (cr2 r)) (save_context tf r) s = Inr (Some c, s')"
    and "cr3 r' = (if r_cr3 c \<noteq> NULL then r_cr3 c else cr3 r)"
    and "eois r' = eois r + (if 32 \<le> unat (tf_irq tf) \<and> unat (tf_irq tf) < 64 then 1 else 0)"
proof -
  let ?ev = "classify (unat (tf_irq tf)) (tf_errcode tf) (cr2 r)" and ?c = "save_context tf r"
  from assms have "\<exists>ret. h ?ev ?c s = Inr (ret, s') \<and> ret = Some c \<and>
      r' = resume c (if T_IRQ0 \<le> unat (tf_irq tf) \<and> unat (tf_irq tf) < T_IRQ0 + 32 then r\<lparr>eois := eois r + 1\<rparr> else r)"
    by (cases "h ?ev ?c s") (auto simp: irq_handle_def Let_def split: option.splits)
  then show "h ?ev ?c s = Inr (Some c, s')" "cr3 r' = (if r_cr3 c \<noteq> NULL then r_cr3 c else cr3 r)"
    "eois r' = eois r + (if 32 \<le> unat (tf_irq tf) \<and> unat (tf_irq tf) < 64 then 1 else 0)"
    by (auto simp: resume_def T_IRQ0_def)
qed

section \<open>The interrupt table\<close>

fun idt_entries :: "(nat \<Rightarrow> addr) \<Rightarrow> (nat \<times> 2 word \<times> bool) list \<Rightarrow> GateDesc64 list \<Rightarrow> GateDesc64 list" where
  "idt_entries irqn [] idt = idt"
| "idt_entries irqn ((i, dpl, err) # es) idt =
     idt_entries irqn es (idt[i := GATE64 STS_TG (KSEL SEG_KCODE) (irqn i) dpl])"

definition cte_init :: "nat \<Rightarrow> bool \<Rightarrow> (nat \<Rightarrow> addr) \<Rightarrow> addr \<Rightarrow> GateDesc64 list result" where
  "cte_init cpu handler irqn irqall =
     bindR (guardR Panic (cpu = 0)) (\<lambda>_.
     bindR (guardR Panic handler) (\<lambda>_.
     Inr (idt_entries irqn IRQS
            (replicate NR_IRQ (GATE64 STS_TG (KSEL SEG_KCODE) irqall DPL_KERN)))))"

lemma length_idt_entries [simp]: "length (idt_entries irqn es idt) = length idt"
  by (induction irqn es idt rule: idt_entries.induct) simp_all

lemma idt_entries_nth:
  assumes "distinct (map fst es)" and "i < length idt"
  shows "idt_entries irqn es idt ! i =
    (case map_of es i of
       None \<Rightarrow> idt ! i
     | Some (dpl, err) \<Rightarrow> GATE64 STS_TG (KSEL SEG_KCODE) (irqn i) dpl)"
  using assms
proof (induction irqn es idt rule: idt_entries.induct)
  case (2 irqn j dpl err es idt)
  then have IH: "idt_entries irqn es (idt[j := GATE64 STS_TG (KSEL SEG_KCODE) (irqn j) dpl]) ! i =
    (case map_of es i of
       None \<Rightarrow> idt[j := GATE64 STS_TG (KSEL SEG_KCODE) (irqn j) dpl] ! i
     | Some (dpl, err) \<Rightarrow> GATE64 STS_TG (KSEL SEG_KCODE) (irqn i) dpl)" by simp
  show ?case
  proof (cases "i = j")
    case True
    then have "map_of es i = None" using 2(2) by (simp add: map_of_eq_None_iff)
    with IH True 2(3) show ?thesis by simp
  qed (use IH in \<open>simp split: option.split\<close>)
qed simp

lemma IRQS_distinct: "distinct (map fst IRQS)"
  by (simp add: IRQS_def)

lemma IRQS_user: "map_of IRQS i = Some (DPL_USER, err) \<Longrightarrow> i = 0x80 \<or> i = 0x81"
  by (auto simp: IRQS_def DPL_USER_def DPL_KERN_def split: if_splits)

text \<open>C38. After \<open>cte_init\<close> every interrupt number has a present trap gate into the kernel
  code segment whose offset is the entry stub of the table \<open>IRQS\<close>, or \<open>__am_irqall\<close>; user
  code can raise only the system-call and yield interrupts.\<close>

theorem cte_init_idt:
  assumes "cte_init cpu handler irqn irqall = Inr idt" and "i < 256"
  shows "length idt = 256 \<and> gd_p (idt ! i) = 1 \<and> gd_type (idt ! i) = STS_TG \<and>
    gate_offset (idt ! i) = (if map_of IRQS i = None then irqall else irqn i) \<and>
    (gd_dpl (idt ! i) = DPL_USER \<longleftrightarrow> i = 0x80 \<or> i = 0x81)"
proof -
  let ?g = "GATE64 STS_TG (KSEL SEG_KCODE) irqall DPL_KERN"
  have idt: "idt = idt_entries irqn IRQS (replicate NR_IRQ ?g)"
    using assms(1) by (auto simp: cte_init_def guardR_def split: if_splits)
  have nth: "idt ! i = (case map_of IRQS i of None \<Rightarrow> ?g
     | Some (dpl, err) \<Rightarrow> GATE64 STS_TG (KSEL SEG_KCODE) (irqn i) dpl)"
    using assms(2) by (simp add: idt idt_entries_nth IRQS_distinct NR_IRQ_def nth_replicate split: option.split)
  have dpl: "DPL_KERN \<noteq> DPL_USER" by (simp add: DPL_KERN_def DPL_USER_def)
  have user: "map_of IRQS i = Some (DPL_USER, False)" if "i = 0x80 \<or> i = 0x81"
    using that by (auto simp: IRQS_def)
  show ?thesis
  proof (cases "map_of IRQS i")
    case None
    then show ?thesis using nth dpl user by (auto simp: idt NR_IRQ_def)
  next
    case (Some e)
    obtain d err where e: "e = (d, err)" by (cases e)
    have "d = DPL_USER \<longleftrightarrow> i = 0x80 \<or> i = 0x81"
      using IRQS_user [of i err] user Some e by auto
    then show ?thesis using nth Some e by (simp add: idt NR_IRQ_def)
  qed
qed

theorem cte_init_idt_witness:
  "\<exists>idt. cte_init 0 True (\<lambda>n. 0x100000 + word_of_nat n) 0x1ff000 = Inr idt \<and>
     gate_offset (idt ! 14) = 0x10000e \<and> gate_offset (idt ! 200) = 0x1ff000 \<and>
     gd_dpl (idt ! 14) \<noteq> DPL_USER"
proof -
  let ?irqn = "\<lambda>n. 0x100000 + word_of_nat n :: addr"
  obtain idt where idt: "cte_init 0 True ?irqn 0x1ff000 = Inr idt"
    by (simp add: cte_init_def)
  have "map_of IRQS 14 \<noteq> None" "map_of IRQS 200 = None" by (simp_all add: IRQS_def)
  with cte_init_idt [OF idt, of 14] cte_init_idt [OF idt, of 200] idt show ?thesis
    by (intro exI [of _ idt]) simp
qed

section \<open>Contexts of kernel threads\<close>

text \<open>
  \<open>kcontext\<close> with the stack given by its end, the address of \<open>__am_kcontext_start\<close>,
  the entry point and its argument; the record is stored at \<open>kstack.end - sizeof(Context)\<close>.
\<close>

definition kcontext :: "addr \<Rightarrow> addr \<Rightarrow> addr \<Rightarrow> u64 \<Rightarrow> Context" where
  "kcontext start kstack_end entry arg =
     zero_context\<lparr>r_cs := KSEL SEG_KCODE, r_rip := start, r_rflags := FL_IF, r_rsp := kstack_end,
       r_rdi := arg, r_rsi := entry\<rparr>"

lemma kcontext_resume [simp]: "resume (kcontext start e entry arg) r = r"
  by (simp add: resume_def kcontext_def zero_context_def)

text \<open>An interrupt whose handler returns the context it was given resumes the interrupted
  code with exactly its registers, page table and kernel stack.\<close>

theorem irq_handle_transparent:
  assumes "\<And>ev c s. h ev c s = Inr (Some c, f ev s)"
  shows "\<exists>c r' s'. irq_handle h tf (r, s) = Inr (c, r', s') \<and>
    r_rip c = tf_rip tf \<and> r_rsp c = tf_rsp tf \<and> r_rflags c = tf_rflags tf \<and> r_cs c = tf_cs tf \<and>
    r_ss c = tf_ss tf \<and> r_rax c = r_rax (saved_context tf) \<and>
    cr3 r' = cr3 r \<and> rsp0 r' = rsp0 r \<and>
    s' = f (classify (unat (tf_irq tf)) (tf_errcode tf) (cr2 r)) s"
  by (simp add: irq_handle_def assms Let_def save_context_def resume_def)

theorem irq_handle_transparent_witness:
  "\<exists>c r' s'. irq_handle (\<lambda>ev c n. Inr (Some c, n + 1))
      \<lparr>saved_context = zero_context, tf_irq = 32, tf_errcode = 0, tf_rip = 0x1234, tf_cs = 8,
       tf_rflags = 0x200, tf_rsp = 0x9000, tf_ss = 0\<rparr>
      (\<lparr>cr2 = 0, cr3 = 0x1000, rsp0 = 0x8000, eois = 0\<rparr>, 5) = Inr (c, r', s') \<and>
    r_rip c = 0x1234 \<and> cr3 r' = 0x1000 \<and> s' = (6::nat)"
  using irq_handle_transparent [of "\<lambda>ev c n. Inr (Some c, n + 1)" "\<lambda>ev n. n + (1::nat)"
      "\<lparr>saved_context = zero_context, tf_irq = 32, tf_errcode = 0, tf_rip = 0x1234, tf_cs = 8,
       tf_rflags = 0x200, tf_rsp = 0x9000, tf_ss = 0\<rparr>"
      "\<lparr>cr2 = 0, cr3 = 0x1000, rsp0 = 0x8000, eois = 0\<rparr>" 5, OF refl]
  by (elim exE conjE) (intro exI conjI, assumption, simp_all)

end
