(* ===== verification/Vme.thy ===== *)
theory Vme
  imports Pmm Cte
begin

text \<open>
  Virtual memory on x86-64: \<open>am/src/x86/qemu/vme.c\<close>.  Page tables live in a memory of
  64-bit cells.  The two function pointers \<open>pgalloc\<close> and \<open>pgfree\<close> that \<open>vme_init\<close> stores are
  fields of a record of operations, beside reading and writing a cell of the state they work
  on; \<open>pmm_ops\<close> is that record for the kernel, which passes \<open>pmm->alloc\<close> and \<open>pmm->free\<close>.
\<close>

section \<open>Data\<close>

record ptinfo =
  pt_mask :: u64
  pt_shift :: nat
  pt_bits :: nat

definition pgsize_mmu :: u64 where "pgsize_mmu = 4096"

definition pgtables :: "ptinfo list" where
  "pgtables =
    [\<lparr>pt_mask = 0x000000000000, pt_shift = 0, pt_bits = 0\<rparr>,
     \<lparr>pt_mask = 0xff8000000000, pt_shift = 39, pt_bits = 9\<rparr>,
     \<lparr>pt_mask = 0x007fc0000000, pt_shift = 30, pt_bits = 9\<rparr>,
     \<lparr>pt_mask = 0x00003fe00000, pt_shift = 21, pt_bits = 9\<rparr>,
     \<lparr>pt_mask = 0x0000001ff000, pt_shift = 12, pt_bits = 9\<rparr>]"

record vm_area =
  va_start :: addr
  va_end :: addr
  va_kernel :: bool

definition vm_areas :: "vm_area list" where
  "vm_areas =
    [\<lparr>va_start = 0x100000000000, va_end = 0x108000000000, va_kernel = False\<rparr>,
     \<lparr>va_start = 0x000000000000, va_end = 0x008000000000, va_kernel = True\<rparr>]"

definition uvm_area :: vm_area where "uvm_area = vm_areas ! 0"

record AddrSpace =
  as_pgsize :: u64
  as_start :: addr
  as_end :: addr
  as_ptr :: addr

definition PML4_ADDR :: addr where "PML4_ADDR = 0x1000"

text \<open>The allocator and the memory the page tables live in.\<close>

record 's vme_ops =
  pgalloc :: "'s \<Rightarrow> (addr \<times> 's) result"
  pgfree :: "addr \<Rightarrow> 's \<Rightarrow> 's result"
  rd :: "'s \<Rightarrow> addr \<Rightarrow> u64"
  wr :: "addr \<Rightarrow> u64 \<Rightarrow> 's \<Rightarrow> 's"

definition pmm_ops :: "pmm vme_ops" where
  "pmm_ops = \<lparr>pgalloc = kalloc 4096, pgfree = kfree, rd = cells,
     wr = (\<lambda>a v s. s\<lparr>cells := (cells s)(a := v)\<rparr>)\<rparr>"

section \<open>Page-table walk\<close>

text \<open>The loop that zeroes a fresh page: \<open>n\<close> words are left, \<open>a\<close> is the next one.\<close>

fun zero_words :: "'s vme_ops \<Rightarrow> nat \<Rightarrow> addr \<Rightarrow> 's \<Rightarrow> 's" where
  "zero_words ops 0 a s = s"
| "zero_words ops (Suc n) a s = zero_words ops n (a + 8) (wr ops a 0 s)"

definition pgallocz :: "'s vme_ops \<Rightarrow> 's \<Rightarrow> (addr \<times> 's) result" where
  "pgallocz ops s =
     bindR (pgalloc ops s) (\<lambda>(base, s').
     bindR (guardR Panic (base \<noteq> NULL)) (\<lambda>_.
     Inr (base, zero_words ops (unat pgsize_mmu div 8) base s')))"

definition indexof :: "addr \<Rightarrow> ptinfo \<Rightarrow> nat" where
  "indexof a info = unat (drop_bit (pt_shift info) (a AND pt_mask info))"

definition baseof :: "addr \<Rightarrow> addr" where
  "baseof a = a AND NOT (pgsize_mmu - 1)"

text \<open>
  \<open>cur\<close> points first to the field \<open>as->ptr\<close>, which acts as a table of one entry, then to
  tables in memory; \<open>slot\<close> is the address of entry \<open>i\<close> of a table.
\<close>

datatype ptcur = At_As | At_Page addr

definition slot :: "addr \<Rightarrow> nat \<Rightarrow> addr" where
  "slot a i = a + 8 * word_of_nat i"

definition pt_read :: "'s vme_ops \<Rightarrow> ptcur \<Rightarrow> nat \<Rightarrow> AddrSpace \<times> 's \<Rightarrow> u64 result" where
  "pt_read ops cur i st =
     (case cur of
        At_As \<Rightarrow> if i = 0 then Inr (as_ptr (fst st)) else Inl Out_Of_Bounds
      | At_Page a \<Rightarrow> Inr (rd ops (snd st) (slot a i)))"

definition pt_write :: "'s vme_ops \<Rightarrow> ptcur \<Rightarrow> nat \<Rightarrow> u64 \<Rightarrow> AddrSpace \<times> 's \<Rightarrow> (AddrSpace \<times> 's) result" where
  "pt_write ops cur i v st =
     (case cur of
        At_As \<Rightarrow> if i = 0 then Inr ((fst st)\<lparr>as_ptr := v\<rparr>, snd st) else Inl Out_Of_Bounds
      | At_Page a \<Rightarrow> Inr (fst st, wr ops (slot a i) v (snd st)))"

text \<open>
  The loop of \<open>ptwalk\<close> over the levels that are left; the result is the table and index of
  the entry of the last level, and the new state.
\<close>

fun ptwalk_loop ::
    "'s vme_ops \<Rightarrow> addr \<Rightarrow> u64 \<Rightarrow> ptinfo list \<Rightarrow> ptcur \<Rightarrow> AddrSpace \<times> 's \<Rightarrow>
     ((ptcur \<times> nat) \<times> AddrSpace \<times> 's) result" where
  "ptwalk_loop ops a flags [] cur st = Inl Panic"
| "ptwalk_loop ops a flags [info] cur st = Inr ((cur, indexof a info), st)"
| "ptwalk_loop ops a flags (info # info' # infos) cur st =
     bindR (pt_read ops cur (indexof a info) st) (\<lambda>e.
       if e AND PTE_P = 0 then
         bindR (pgallocz ops (snd st)) (\<lambda>(next_page, s').
         bindR (pt_write ops cur (indexof a info) (next_page OR PTE_P OR flags) (fst st, s')) (\<lambda>st'.
         ptwalk_loop ops a flags (info' # infos) (At_Page next_page) st'))
       else ptwalk_loop ops a flags (info' # infos) (At_Page (baseof e)) st)"

definition ptwalk ::
    "'s vme_ops \<Rightarrow> addr \<Rightarrow> u64 \<Rightarrow> AddrSpace \<times> 's \<Rightarrow> ((ptcur \<times> nat) \<times> AddrSpace \<times> 's) result" where
  "ptwalk ops a flags st = ptwalk_loop ops a flags pgtables At_As st"

section \<open>Mapping\<close>

definition IN_RANGE :: "addr \<Rightarrow> vm_area \<Rightarrow> bool" where
  "IN_RANGE p ar \<longleftrightarrow> va_start ar \<le> p \<and> p < va_end ar"

definition vme_map :: "'s vme_ops \<Rightarrow> addr \<Rightarrow> addr \<Rightarrow> u64 \<Rightarrow> AddrSpace \<times> 's \<Rightarrow> (AddrSpace \<times> 's) result" where
  "vme_map ops va pa prot st =
     bindR (guardR Panic (IN_RANGE va uvm_area)) (\<lambda>_.
     bindR (guardR Panic (va = ROUNDDOWN va pgsize_mmu \<and> pa = ROUNDDOWN pa pgsize_mmu)) (\<lambda>_.
     bindR (ptwalk ops va (PTE_W OR PTE_U) st) (\<lambda>((cur, i), st).
     bindR (pt_read ops cur i st) (\<lambda>e.
     bindR (if prot = MMAP_NONE then
              bindR (guardR Panic (e AND PTE_P \<noteq> 0)) (\<lambda>_. pt_write ops cur i 0 st)
            else
              bindR (guardR Panic (e AND PTE_P = 0)) (\<lambda>_.
              pt_write ops cur i
                (pa OR PTE_P OR PTE_U OR (if prot AND MMAP_WRITE \<noteq> 0 then PTE_W else 0)) st)) (\<lambda>st.
     bindR (ptwalk ops va (PTE_W OR PTE_U) st) (\<lambda>(_, st).
     Inr st))))))"

section \<open>Address spaces\<close>

text \<open>The inner loop of \<open>protect\<close>: copy the level-1 entries of one kernel area.\<close>

partial_function (option) protect_copy ::
    "'s vme_ops \<Rightarrow> addr \<Rightarrow> addr \<Rightarrow> addr \<Rightarrow> addr \<times> 's \<Rightarrow> 's option" where
  "protect_copy ops kpt up area_end st =
     (case st of (cur, s) \<Rightarrow>
        if cur = area_end then Some s
        else let i = indexof cur (pgtables ! 1) in
          protect_copy ops kpt up area_end
            (cur + push_bit (pt_shift (pgtables ! 1)) 1,
             wr ops (slot up i) (rd ops s (slot kpt i)) s))"

fun protect_areas :: "'s vme_ops \<Rightarrow> addr \<Rightarrow> addr \<Rightarrow> vm_area list \<Rightarrow> 's \<Rightarrow> 's option" where
  "protect_areas ops kpt up [] s = Some s"
| "protect_areas ops kpt up (vma # vmas) s =
     (if va_kernel vma then
        (case protect_copy ops kpt up (va_end vma) (va_start vma, s) of
           None \<Rightarrow> None
         | Some s' \<Rightarrow> protect_areas ops kpt up vmas s')
      else protect_areas ops kpt up vmas s)"

definition protect :: "'s vme_ops \<Rightarrow> addr \<Rightarrow> 's \<Rightarrow> (AddrSpace \<times> 's) result" where
  "protect ops kpt s =
     bindR (pgallocz ops s) (\<lambda>(up, s1).
       case protect_areas ops kpt up vm_areas s1 of
         None \<Rightarrow> Inl Spin_Forever
       | Some s2 \<Rightarrow>
           Inr (\<lparr>as_pgsize = pgsize_mmu, as_start = va_start uvm_area, as_end = va_end uvm_area,
                 as_ptr = up OR PTE_P OR PTE_U\<rparr>, s2))"

text \<open>
  \<open>teardown\<close> by the levels that are left; the root level is \<open>as->ptr\<close> itself and is not
  freed.  \<open>teardown_entries\<close> is its loop over the entries of one table.
\<close>

fun teardown_entries ::
    "(addr \<Rightarrow> 's \<Rightarrow> 's result) \<Rightarrow> ('s \<Rightarrow> nat \<Rightarrow> u64) \<Rightarrow> nat list \<Rightarrow> 's \<Rightarrow> 's result" where
  "teardown_entries sub entry [] s = Inr s"
| "teardown_entries sub entry (i # is) s =
     bindR (if entry s i AND PTE_P \<noteq> 0 \<and> entry s i AND PTE_U \<noteq> 0
            then sub (baseof (entry s i)) s else Inr s) (teardown_entries sub entry is)"

fun teardown :: "'s vme_ops \<Rightarrow> ptinfo list \<Rightarrow> addr \<Rightarrow> 's \<Rightarrow> 's result" where
  "teardown ops [] pt s = Inr s"
| "teardown ops (info # infos) pt s =
     bindR (teardown_entries (teardown ops infos) (\<lambda>s i. rd ops s (slot pt i))
              [0..<2 ^ pt_bits info] s) (pgfree ops pt)"

definition unprotect :: "'s vme_ops \<Rightarrow> AddrSpace \<Rightarrow> 's \<Rightarrow> 's result" where
  "unprotect ops asp s =
     teardown_entries (teardown ops (tl pgtables)) (\<lambda>_ _. as_ptr asp) [0..<2 ^ pt_bits (hd pgtables)] s"

record vme_state =
  vme_kpt :: addr
  vme_cr3 :: addr
  vme_cr0 :: u64

definition vme_init :: "nat \<Rightarrow> vme_state \<Rightarrow> vme_state result" where
  "vme_init cpu v =
     bindR (guardR Panic (cpu = 0)) (\<lambda>_.
     Inr (v\<lparr>vme_kpt := PML4_ADDR, vme_cr3 := PML4_ADDR, vme_cr0 := vme_cr0 v OR CR0_PG\<rparr>))"

text \<open>\<open>ucontext\<close> with the kernel stack given by its end.\<close>

definition ucontext :: "AddrSpace \<Rightarrow> addr \<Rightarrow> addr \<Rightarrow> Context" where
  "ucontext asp kstack_end entry =
     zero_context\<lparr>r_cs := USEL SEG_UCODE, r_ss := USEL SEG_UDATA, r_rip := entry, r_rflags := FL_IF,
       r_rsp := va_end uvm_area, r_rsp0 := kstack_end, r_cr3 := as_ptr asp\<rparr>"

end
