(* ===== verification/VmeProofs.thy ===== *)
theory VmeProofs
  imports Vme PmmProofs
begin

text \<open>
  Correctness of the page tables.  \<open>walk\<close> follows a list of indices through the tables as the
  MMU does; \<open>pt_tree\<close> says that no two paths of user indices meet in one table and that every
  table is owned; \<open>translate\<close> is the entry that the MMU finds for a user address.  The locale
  \<open>page_pool\<close> is what the page tables need from the allocator, and the kernel's \<open>pmm\<close>
  provides it.
\<close>

section \<open>Addresses and indices\<close>

lemma unat_baseof: "unat (baseof a) = unat a div 4096 * 4096"
  using unat_and_not_low_bits [of a 12] by (simp add: baseof_def pgsize_mmu_def)

lemma baseof_idem [simp]: "baseof (baseof a) = baseof a"
  by (simp add: word_unat_eq_iff unat_baseof)

lemma baseof_iff: "baseof a = a \<longleftrightarrow> 4096 dvd unat a"
  by (simp add: word_unat_eq_iff unat_baseof dvd_div_mult_self) (metis dvd_triv_right dvd_div_mult_self)

lemma unat_slot:
  assumes "baseof p = p" and "i < 512"
  shows "unat (slot p i) = unat p + 8 * i"
proof -
  have d: "4096 dvd unat p" using assms(1) baseof_iff by simp
  then obtain k where k: "unat p = 4096 * k" by (rule dvdE)
  have "unat p < 2 ^ 64" by (rule less_le_trans [OF unsigned_less]) simp
  then have b: "unat p + 4096 \<le> 2 ^ 64" using k by simp
  have "unat (8 * word_of_nat i :: u64) = 8 * i"
    using assms(2) by (subst unat_mult_lem [THEN iffD1]) (simp_all add: unat64_of_nat)
  then show ?thesis unfolding slot_def using b assms(2) by (subst unat_add_small) simp_all
qed

lemma baseof_slot [simp]: "baseof p = p \<Longrightarrow> i < 512 \<Longrightarrow> baseof (slot p i) = p"
proof -
  assume p: "baseof p = p" and i: "i < 512"
  then obtain k where k: "unat p = 4096 * k" by (auto simp: baseof_iff elim: dvdE)
  have "(4096 * k + 8 * i) div 4096 = k" using i by (simp add: div_mult_self4)
  then show "baseof (slot p i) = p" using i p k by (simp add: word_unat_eq_iff unat_baseof unat_slot)
qed

lemma slot_inj:
  assumes "slot p i = slot q j" and "baseof p = p" and "baseof q = q" and "i < 512" and "j < 512"
  shows "p = q \<and> i = j"
proof -
  have pq: "p = q" using assms baseof_slot [of p i] baseof_slot [of q j] by simp
  then show ?thesis using arg_cong [OF assms(1), of unat] assms by (simp add: unat_slot)
qed

lemma index_bits: "unat (drop_bit s (a AND push_bit s (mask 9)) :: u64) = unat a div 2 ^ s mod 512"
proof -
  have eq: "drop_bit s (a AND push_bit s (mask 9)) = take_bit 9 (drop_bit s a)"
  proof (rule bit_word_eqI)
    fix n assume n: "n < LENGTH(64)"
    show "bit (drop_bit s (a AND push_bit s (mask 9))) n = bit (take_bit 9 (drop_bit s a)) n"
    proof (cases "s + n < 64")
      case False
      then have "\<not> bit a (s + n)" using bit_imp_le_length [of a "s + n"] by auto
      then show ?thesis by (simp add: bit_simps)
    qed (use n in \<open>auto simp: bit_simps\<close>)
  qed
  show ?thesis
    unfolding eq by (simp only: unsigned_take_bit_eq unat_drop_bit64) (simp add: take_bit_eq_mod)
qed

text \<open>The indices of the four levels are digits in base 512.\<close>

lemma index_level_list:
  "indexof a (pgtables ! 0) = 0"
  "indexof a (pgtables ! 1) = unat a div 2 ^ 39 mod 512"
  "indexof a (pgtables ! 2) = unat a div 2 ^ 30 mod 512"
  "indexof a (pgtables ! 3) = unat a div 2 ^ 21 mod 512"
  "indexof a (pgtables ! 4) = unat a div 2 ^ 12 mod 512"
  using index_bits [of 39 a] index_bits [of 30 a] index_bits [of 21 a] index_bits [of 12 a]
  by (simp_all add: indexof_def pgtables_def push_bit_eq_mult mask_eq_exp_minus_1)

lemmas index_levels = index_level_list index_level_list(2) [unfolded One_nat_def]

lemma index_bound: "k < 5 \<Longrightarrow> indexof a (pgtables ! k) < 512"
proof -
  assume "k < 5"
  then consider "k = 0" | "k = 1" | "k = 2" | "k = 3" | "k = 4" by linarith
  then show ?thesis by cases (simp_all only: index_levels mod_less_divisor zero_less_numeral)
qed

definition va_path :: "addr \<Rightarrow> nat list" where
  "va_path a = map (\<lambda>k. indexof a (pgtables ! k)) [1, 2, 3]"

definition va_leaf :: "addr \<Rightarrow> nat" where
  "va_leaf a = indexof a (pgtables ! 4)"

lemma uvm_range: "IN_RANGE a uvm_area \<longleftrightarrow> 2 ^ 44 \<le> unat a \<and> unat a < 2 ^ 44 + 2 ^ 39"
  by (simp add: IN_RANGE_def uvm_area_def vm_areas_def word_le_nat_alt word_less_nat_alt)

lemma uvm_div: "IN_RANGE a uvm_area \<Longrightarrow> unat a div 2 ^ 39 = 32"
  by (rule div_nat_eqI) (simp_all add: uvm_range)

lemma uvm_head: "IN_RANGE a uvm_area \<Longrightarrow> indexof a (pgtables ! 1) = 32"
  using uvm_div [of a] by (simp add: index_levels)

lemma va_digits:
  assumes "IN_RANGE a uvm_area" and "IN_RANGE b uvm_area"
  shows "va_path a = va_path b \<and> va_leaf a = va_leaf b \<longleftrightarrow> baseof a = baseof b"
proof -
  have split: "n div 4096 = ((n div 2 ^ 39 * 512 + n div 2 ^ 30 mod 512) * 512 + n div 2 ^ 21 mod 512) * 512
      + n div 2 ^ 12 mod 512" for n :: nat
  proof -
    have "n div 2 ^ 30 div 512 = n div 2 ^ 39" "n div 2 ^ 21 div 512 = n div 2 ^ 30"
      "n div 2 ^ 12 div 512 = n div 2 ^ 21"
      by (simp_all add: div_mult2_eq [symmetric])
    then show ?thesis
      using div_mult_mod_eq [of "n div 2 ^ 30" 512] div_mult_mod_eq [of "n div 2 ^ 21" 512]
        div_mult_mod_eq [of "n div 2 ^ 12" 512] by simp
  qed
  have h: "unat a div 2 ^ 39 = 32" "unat b div 2 ^ 39 = 32"
    using assms by (simp_all only: uvm_div)
  have "baseof a = baseof b \<longleftrightarrow> unat a div 4096 = unat b div 4096"
    by (simp add: word_unat_eq_iff unat_baseof)
  also have "\<dots> \<longleftrightarrow> va_path a = va_path b \<and> va_leaf a = va_leaf b"
  proof
    assume eq: "unat a div 4096 = unat b div 4096"
    have q: "n div 2 ^ (12 + k) = n div 4096 div 2 ^ k" for n k :: nat
      by (simp only: power_add div_mult2_eq) simp
    have "unat a div 2 ^ (12 + k) = unat b div 2 ^ (12 + k)" for k
      unfolding q eq ..
    from this [of 27] this [of 18] this [of 9] this [of 0]
    have "unat a div 2 ^ 39 = unat b div 2 ^ 39" "unat a div 2 ^ 30 = unat b div 2 ^ 30"
      "unat a div 2 ^ 21 = unat b div 2 ^ 21" "unat a div 2 ^ 12 = unat b div 2 ^ 12"
      by simp_all
    then show "va_path a = va_path b \<and> va_leaf a = va_leaf b"
      by (simp only: va_path_def va_leaf_def index_levels list.map simp_thms)
  next
    assume "va_path a = va_path b \<and> va_leaf a = va_leaf b"
    then show "unat a div 4096 = unat b div 4096"
      unfolding split [of "unat a"] split [of "unat b"] h
      by (simp only: va_path_def va_leaf_def index_levels list.map list.inject simp_thms)
  qed
  finally show ?thesis by blast
qed

section \<open>Walks\<close>

text \<open>Following indices from table \<open>a\<close>, as the MMU does; \<open>None\<close> is a missing table.\<close>

fun walk :: "(addr \<Rightarrow> u64) \<Rightarrow> addr \<Rightarrow> nat list \<Rightarrow> addr option" where
  "walk c a [] = Some a"
| "walk c a (i # is) =
     (if c (slot a i) AND PTE_P = 0 then None else walk c (baseof (c (slot a i))) is)"

lemma walk_snoc:
  "walk c a (p @ [i]) = (case walk c a p of None \<Rightarrow> None
     | Some b \<Rightarrow> if c (slot b i) AND PTE_P = 0 then None else Some (baseof (c (slot b i))))"
  by (induction c a p rule: walk.induct) auto

text \<open>Paths of user addresses through the first three levels.\<close>

definition upath :: "nat list \<Rightarrow> bool" where
  "upath p \<longleftrightarrow> length p \<le> 3 \<and> (\<forall>i\<in>set p. i < 512) \<and> (p \<noteq> [] \<longrightarrow> hd p = 32)"

lemma upath_snocD: "upath (p @ [i]) \<Longrightarrow> upath p \<and> i < 512 \<and> length p \<le> 2"
  by (cases p) (auto simp: upath_def)

lemma upath_va: "IN_RANGE a uvm_area \<Longrightarrow> upath (va_path a)"
  using uvm_head [of a] index_bound [of 1 a] index_bound [of 2 a] index_bound [of 3 a]
  by (simp add: upath_def va_path_def)

definition pt_tree :: "(addr \<Rightarrow> u64) \<Rightarrow> addr \<Rightarrow> addr set \<Rightarrow> bool" where
  "pt_tree c r D \<longleftrightarrow>
     (\<forall>p a. upath p \<longrightarrow> walk c r p = Some a \<longrightarrow> a \<in> D) \<and>
     (\<forall>p q a. upath p \<longrightarrow> upath q \<longrightarrow> walk c r p = Some a \<longrightarrow> walk c r q = Some a \<longrightarrow> p = q)"

lemma pt_treeD:
  assumes "pt_tree c r D"
  shows "upath p \<Longrightarrow> walk c r p = Some a \<Longrightarrow> a \<in> D"
    and "upath p \<Longrightarrow> upath q \<Longrightarrow> walk c r p = Some a \<Longrightarrow> walk c r q = Some a \<Longrightarrow> p = q"
  using assms by (auto simp: pt_tree_def)

lemma upath_Nil [simp]: "upath []"
  by (simp add: upath_def)

text \<open>The last-level entry on a path, 0 where there is none.\<close>

definition leaf :: "(addr \<Rightarrow> u64) \<Rightarrow> addr \<Rightarrow> nat list \<Rightarrow> nat \<Rightarrow> u64" where
  "leaf c r p i = (case walk c r p of None \<Rightarrow> 0
     | Some b \<Rightarrow> if c (slot b i) AND PTE_P = 0 then 0 else c (slot b i))"

text \<open>A new table below entry \<open>i\<close> of table \<open>a\<close>.\<close>

definition fresh_table :: "(addr \<Rightarrow> u64) \<Rightarrow> addr \<Rightarrow> addr \<Rightarrow> nat \<Rightarrow> u64 \<Rightarrow> (addr \<Rightarrow> u64) \<Rightarrow> bool" where
  "fresh_table c n a i e c' \<longleftrightarrow>
     c' (slot a i) = e \<and> (\<forall>j<512. c' (slot n j) = 0) \<and>
     (\<forall>x. x \<noteq> slot a i \<longrightarrow> x \<notin> slot n ` {..<512} \<longrightarrow> c' x = c x)"

lemma fresh_table_other:
  assumes "fresh_table c n a i e c'" and "baseof b = b" and "baseof n = n" and "b \<noteq> n" and "j < 512"
    and "baseof a = a" and "i < 512" and "\<not> (b = a \<and> j = i)"
  shows "c' (slot b j) = c (slot b j)"
proof -
  have "slot b j \<noteq> slot a i" using slot_inj [of b j a i] assms by auto
  moreover have "slot b j \<notin> slot n ` {..<512}" using slot_inj [of b j n] assms by auto
  ultimately show ?thesis using assms(1) by (simp add: fresh_table_def)
qed

lemma walk_fresh_table:
  assumes "pt_tree c r D" and "upath (p @ [i])" and "walk c r p = Some a" and "c (slot a i) AND PTE_P = 0"
    and "fresh_table c n a i e c'" and "e AND PTE_P \<noteq> 0" and "baseof e = n"
    and "n \<notin> D" and "baseof n = n" and al': "\<forall>d\<in>D. baseof d = d"
    and "upath q"
  shows "walk c' r q = (if q = p @ [i] then Some n else walk c r q)"
  using assms(11)
proof (induction q rule: rev_induct)
  case (snoc j q)
  note al = al' [rule_format]
  note pi = upath_snocD [OF assms(2)] and qj = upath_snocD [OF snoc.prems]
  have a: "a \<in> D" "baseof a = a" using pt_treeD(1) [OF assms(1) _ assms(3)] pi al by auto
  have IH: "walk c' r q = (if q = p @ [i] then Some n else walk c r q)" using snoc.IH qj by simp
  show ?case
  proof (cases "q = p @ [i]")
    case True
    have "walk c r q = None" using assms(3,4) by (simp add: True walk_snoc)
    moreover have "c' (slot n j) = 0" using assms(5) qj by (simp add: fresh_table_def)
    ultimately show ?thesis unfolding walk_snoc using IH True by simp
  next
    case False
    show ?thesis
    proof (cases "walk c r q")
      case None
      then have "q \<noteq> p" using assms(3) by auto
      then show ?thesis using IH False None by (simp add: walk_snoc)
    next
      case (Some b)
      have b: "b \<in> D" using pt_treeD(1) [OF assms(1) _ Some] qj by simp
      show ?thesis
      proof (cases "b = a \<and> j = i")
        case True
        then have "q = p" using pt_treeD(2) [OF assms(1) _ _ _ assms(3)] Some qj pi by simp
        moreover have "c' (slot a i) = e" using assms(5) by (simp add: fresh_table_def)
        ultimately show ?thesis using IH False Some True assms(6,7) by (simp add: walk_snoc)
      next
        case other: False
        have "c' (slot b j) = c (slot b j)"
          using fresh_table_other [OF assms(5) al [OF b] assms(9)] b assms(8) qj pi a other by auto
        moreover have "q @ [j] \<noteq> p @ [i]" using other Some assms(3) by auto
        ultimately show ?thesis using IH False Some by (simp only: walk_snoc if_False) simp
      qed
    qed
  qed
qed simp

lemma pt_tree_fresh_table:
  assumes "pt_tree c r D" and "upath (p @ [i])" and "walk c r p = Some a" and "c (slot a i) AND PTE_P = 0"
    and "fresh_table c n a i e c'" and "e AND PTE_P \<noteq> 0" and "baseof e = n"
    and "n \<notin> D" and "baseof n = n" and al': "\<forall>d\<in>D. baseof d = d"
  shows "pt_tree c' r (insert n D)"
    and "upath q \<Longrightarrow> length q = 3 \<Longrightarrow> j < 512 \<Longrightarrow> leaf c' r q j = leaf c r q j"
proof -
  note al = al' [rule_format]
  note w = walk_fresh_table [OF assms]
  note D = pt_treeD(1) [OF assms(1)]
  show "pt_tree c' r (insert n D)"
    unfolding pt_tree_def
  proof (intro conjI allI impI)
    fix q x assume "upath q" "walk c' r q = Some x"
    then show "x \<in> insert n D" using w [of q] D [of q x] by (auto split: if_splits)
  next
    fix q q' x assume *: "upath q" "upath q'" "walk c' r q = Some x" "walk c' r q' = Some x"
    show "q = q'"
    proof (cases "x = n")
      case True
      then have "walk c r q \<noteq> Some x" "walk c r q' \<noteq> Some x" using D assms(8) * by auto
      then show ?thesis using * w [of q] w [of q'] by (auto split: if_splits)
    next
      case False
      then have "walk c r q = Some x" "walk c r q' = Some x" using * w [of q] w [of q'] by (auto split: if_splits)
      then show ?thesis using pt_treeD(2) [OF assms(1)] * by blast
    qed
  qed
  assume q: "upath q" "length q = 3" "j < 512"
  show "leaf c' r q j = leaf c r q j"
  proof (cases "q = p @ [i]")
    case True
    have "c' (slot n j) = 0" using assms(5) q(3) by (simp add: fresh_table_def)
    moreover have "walk c r q = None" using assms(3,4) by (simp add: True walk_snoc)
    ultimately show ?thesis using w [OF q(1)] True by (simp add: leaf_def)
  next
    case False
    show ?thesis
    proof (cases "walk c r q")
      case (Some b)
      have pi: "upath p" "length p \<le> 2" "i < 512" using upath_snocD [OF assms(2)] by auto
      have b: "b \<in> D" "a \<in> D" using D [OF q(1) Some] D [OF pi(1) assms(3)] by auto
      have "b \<noteq> a" using pt_treeD(2) [OF assms(1) q(1) pi(1) Some] assms(3) q(2) pi(2) by auto
      then have "c' (slot b j) = c (slot b j)"
        using fresh_table_other [OF assms(5) al [OF b(1)] assms(9) _ q(3) al [OF b(2)] pi(3)] b assms(8) by auto
      then show ?thesis using w [OF q(1)] False Some by (simp add: leaf_def)
    qed (use w [OF q(1)] False in \<open>simp add: leaf_def\<close>)
  qed
qed

text \<open>Writing a last-level entry.\<close>

lemma walk_leaf_write:
  assumes "pt_tree c r D" and "upath p" and "length p = 3" and "walk c r p = Some a" and "i < 512"
    and al': "\<forall>d\<in>D. baseof d = d" and "upath q"
  shows "walk (c(slot a i := v)) r q = walk c r q"
  using assms(7)
proof (induction q rule: rev_induct)
  case (snoc j q)
  note al = al' [rule_format]
  note qj = upath_snocD [OF snoc.prems]
  have IH: "walk (c(slot a i := v)) r q = walk c r q" using snoc.IH qj by blast
  show ?case
  proof (cases "walk c r q")
    case (Some b)
    have "b \<in> D" "a \<in> D" using pt_treeD(1) [OF assms(1)] qj Some assms(2,4) by auto
    moreover have "b \<noteq> a" using pt_treeD(2) [OF assms(1) _ assms(2) Some] qj assms(3,4) by auto
    ultimately have "slot b j \<noteq> slot a i" using slot_inj [of b j a i] al qj assms(5) by auto
    then show ?thesis unfolding walk_snoc IH using Some by simp
  next
    case None
    then show ?thesis unfolding walk_snoc IH by simp
  qed
qed simp

lemma leaf_write:
  assumes "pt_tree c r D" and "upath p" and "length p = 3" and "walk c r p = Some a" and "i < 512"
    and al': "\<forall>d\<in>D. baseof d = d"
  shows "pt_tree (c(slot a i := v)) r D"
    and "upath q \<Longrightarrow> length q = 3 \<Longrightarrow> j < 512 \<Longrightarrow> leaf (c(slot a i := v)) r q j =
      (if q = p \<and> j = i then (if v AND PTE_P = 0 then 0 else v) else leaf c r q j)"
proof -
  note al = al' [rule_format]
  note w = walk_leaf_write [OF assms, of _ v]
  show "pt_tree (c(slot a i := v)) r D"
    using assms(1) by (simp add: pt_tree_def w cong: imp_cong)
  assume q: "upath q" "length q = 3" "j < 512"
  show "leaf (c(slot a i := v)) r q j =
      (if q = p \<and> j = i then (if v AND PTE_P = 0 then 0 else v) else leaf c r q j)"
  proof (cases "walk c r q")
    case None
    then show ?thesis using w [OF q(1)] assms(4) by (auto simp: leaf_def)
  next
    case (Some b)
    have d: "b \<in> D" "a \<in> D" using pt_treeD(1) [OF assms(1)] q Some assms(2,4) by auto
    have "slot b j = slot a i \<longleftrightarrow> q = p \<and> j = i"
    proof
      assume "slot b j = slot a i"
      then have "b = a" "j = i" using slot_inj al d q(3) assms(5) by blast+
      then show "q = p \<and> j = i" using pt_treeD(2) [OF assms(1) q(1) assms(2) Some] assms(4) by simp
    qed (use Some assms(4) in auto)
    then show ?thesis using w [OF q(1)] Some
      by (cases "q = p \<and> j = i") (simp_all only: leaf_def if_True if_False simp_thms option.case fun_upd_apply)
  qed
qed

section \<open>What the page tables need from the allocator\<close>

text \<open>
  \<open>own s D\<close>: the pages \<open>D\<close> are allocated to the client, who may write them; \<open>avail s\<close>
  pages can still be allocated, from the pages \<open>area s\<close>.
\<close>

locale page_pool =
  fixes ops :: "'s vme_ops"
    and own :: "'s \<Rightarrow> addr set \<Rightarrow> bool"
    and avail :: "'s \<Rightarrow> nat"
    and area :: "'s \<Rightarrow> addr set"
  assumes rd_wr: "rd ops (wr ops a v s) = (rd ops s)(a := v)"
    and own_wr: "own s D \<Longrightarrow> baseof a \<in> D \<Longrightarrow> own (wr ops a v s) D \<and> avail (wr ops a v s) = avail s"
    and own_page: "own s D \<Longrightarrow> \<forall>p\<in>D. baseof p = p"
    and alloc_page: "own s D \<Longrightarrow> 0 < avail s \<Longrightarrow>
      \<exists>p s'. pgalloc ops s = Inr (p, s') \<and> p \<noteq> NULL \<and> p \<in> area s \<and> p \<notin> D \<and> own s' (insert p D) \<and>
        rd ops s' = rd ops s \<and> avail s' = avail s - 1"
    and alloc_none: "own s D \<Longrightarrow> avail s = 0 \<Longrightarrow> pgalloc ops s = Inr (NULL, s)"
begin

lemma zero_words_ok:
  assumes "own s D" and "n \<in> D" and "m + k \<le> 512"
  shows "own (zero_words ops k (slot n m) s) D \<and> avail (zero_words ops k (slot n m) s) = avail s \<and>
    rd ops (zero_words ops k (slot n m) s) x =
      (if x \<in> slot n ` {m..<m + k} then 0 else rd ops s x)"
  using assms
proof (induction k arbitrary: m s)
  case (Suc k)
  have n: "baseof n = n" using own_page [OF Suc.prems(1)] Suc.prems(2) by blast
  have next_slot: "slot n m + 8 = slot n (Suc m)" by (simp add: slot_def algebra_simps)
  have o: "own (wr ops (slot n m) 0 s) D" "avail (wr ops (slot n m) 0 s) = avail s"
    using own_wr [OF Suc.prems(1)] n Suc.prems(2,3) by simp_all
  have "{m..<m + Suc k} = insert m {Suc m..<Suc m + k}" by auto
  then show ?case
    using Suc.IH [OF o(1) Suc.prems(2), of "Suc m"] o(2) Suc.prems(3) by (auto simp: next_slot rd_wr)
qed simp

lemma pgallocz_ok:
  assumes "own s D" and "0 < avail s"
  shows "\<exists>n s'. pgallocz ops s = Inr (n, s') \<and> n \<noteq> NULL \<and> n \<notin> D \<and> own s' (insert n D) \<and>
    avail s' = avail s - 1 \<and> n \<in> area s \<and> (\<forall>j<512. rd ops s' (slot n j) = 0) \<and>
    (\<forall>x. x \<notin> slot n ` {..<512} \<longrightarrow> rd ops s' x = rd ops s x)"
proof -
  from alloc_page [OF assms] obtain n s1 where n: "pgalloc ops s = Inr (n, s1)" "n \<noteq> NULL" "n \<notin> D"
    "own s1 (insert n D)" "rd ops s1 = rd ops s" "avail s1 = avail s - 1" "n \<in> area s" by blast
  have "slot n 0 = n" by (simp add: slot_def)
  then show ?thesis
    using n zero_words_ok [OF n(4), of n 0 512]
    by (intro exI [of _ n] exI [of _ "zero_words ops 512 n s1"])
      (simp add: pgallocz_def pgsize_mmu_def lessThan_atLeast0)
qed

lemma pgallocz_none: "own s D \<Longrightarrow> avail s = 0 \<Longrightarrow> pgallocz ops s = Inl Panic"
  by (simp add: pgallocz_def alloc_none)

end

text \<open>Flags in the low bits of an entry.\<close>

lemma entry_flags:
  assumes "baseof n = n" and "baseof f = 0" and "f AND PTE_P \<noteq> 0"
  shows "baseof (n OR f) = n" and "(n OR f) AND PTE_P \<noteq> 0"
proof -
  have "baseof (n OR f) = baseof n OR baseof f" by (simp add: baseof_def bit.conj_disj_distrib2)
  then show "baseof (n OR f) = n" using assms(1,2) by simp
  have "(n OR f) AND PTE_P = (n AND PTE_P) OR (f AND PTE_P)" by (simp add: bit.conj_disj_distrib2)
  then show "(n OR f) AND PTE_P \<noteq> 0" using assms(3) by (simp add: or_eq_0_iff)
qed

lemma user_flags: "baseof (PTE_P OR (PTE_W OR PTE_U)) = 0" "(PTE_P OR (PTE_W OR PTE_U)) AND PTE_P \<noteq> 0"
  "baseof (PTE_P OR PTE_U) = 0" "(PTE_P OR PTE_U) AND PTE_P \<noteq> 0"
  "baseof (PTE_P OR (PTE_U OR PTE_W)) = 0" "(PTE_P OR (PTE_U OR PTE_W)) AND PTE_P \<noteq> 0"
  by (simp_all add: baseof_def pgsize_mmu_def PTE_P_def PTE_W_def PTE_U_def)

text \<open>A walk along existing tables changes nothing.\<close>

lemma ptwalk_loop_existing:
  assumes "walk (rd ops s) a (map (indexof va) (butlast infos)) = Some b" and "infos \<noteq> []"
  shows "ptwalk_loop ops va fl infos (At_Page a) (asp, s) =
    Inr ((At_Page b, indexof va (last infos)), asp, s)"
  using assms
proof (induction infos arbitrary: a)
  case (Cons info infos)
  then show ?case
    by (cases infos) (auto simp: pt_read_def split: if_splits)
qed simp

text \<open>Level 0 is the field \<open>as->ptr\<close> itself; the four levels in memory are below it.\<close>

lemma ptwalk_levels:
  assumes "as_ptr asp AND PTE_P \<noteq> 0"
  shows "ptwalk ops va fl (asp, s) =
    ptwalk_loop ops va fl (tl pgtables) (At_Page (baseof (as_ptr asp))) (asp, s)"
  using assms by (simp add: ptwalk_def pgtables_def pt_read_def indexof_def)

lemma levels_path:
  "va_path va = map (indexof va) (butlast (tl pgtables))" "va_leaf va = indexof va (last (tl pgtables))"
  "length (tl pgtables) = 4" "tl pgtables \<noteq> []"
  by (simp_all add: va_path_def va_leaf_def pgtables_def)

context page_pool
begin

text \<open>
  The walk creates the missing tables and leaves every translation as it was.  \<open>T\<close> are the
  tables of the address space, among the owned pages \<open>D\<close>; the new ones are fresh.
\<close>

lemma ptwalk_loop_ok:
  assumes "own s D" and "T \<subseteq> D" and "pt_tree (rd ops s) r T" and "walk (rd ops s) r p = Some a"
    and "infos \<noteq> []" and "upath (p @ map (indexof va) (butlast infos))"
    and "length infos - 1 \<le> avail s"
    and fl: "baseof (PTE_P OR fl) = 0" "(PTE_P OR fl) AND PTE_P \<noteq> 0"
  shows "\<exists>s' T' b. ptwalk_loop ops va fl infos (At_Page a) (asp, s) =
      Inr ((At_Page b, indexof va (last infos)), asp, s') \<and>
    own s' (D \<union> T') \<and> T \<subseteq> T' \<and> T' \<inter> D = T \<and> pt_tree (rd ops s') r T' \<and>
    walk (rd ops s') r (p @ map (indexof va) (butlast infos)) = Some b \<and>
    (\<forall>q j. upath q \<longrightarrow> length q = 3 \<longrightarrow> j < 512 \<longrightarrow> leaf (rd ops s') r q j = leaf (rd ops s) r q j) \<and>
    (\<forall>x. baseof x \<notin> T' \<longrightarrow> rd ops s' x = rd ops s x) \<and>
    avail s \<le> avail s' + (length infos - 1)"
  using assms(1-7)
proof (induction infos arbitrary: p a s D T)
  case (Cons info infos)
  show ?case
  proof (cases infos)
    case Nil
    have "D \<union> T = D" "T \<inter> D = T" using Cons.prems(2) by auto
    with Nil show ?thesis using Cons.prems
      by (intro exI [of _ s] exI [of _ T] exI [of _ a]) simp
  next
    case (Cons info' infos')
    let ?i = "indexof va info" and ?e = "rd ops s (slot a (indexof va info))"
    have path: "p @ map (indexof va) (butlast (info # infos)) = (p @ [?i]) @ map (indexof va) (butlast infos)"
      using Cons by simp
    have up: "upath (p @ [?i])"
      using Cons.prems(6) unfolding path by (cases p) (auto simp: upath_def)
    have up': "upath ((p @ [?i]) @ map (indexof va) (butlast infos))" using Cons.prems(6) path by simp
    show ?thesis
    proof (cases "?e AND PTE_P = 0")
      case False
      then have w: "walk (rd ops s) r (p @ [?i]) = Some (baseof ?e)"
        using Cons.prems(4) by (simp add: walk_snoc)
      have "infos \<noteq> []" "length infos - 1 \<le> avail s" using Cons Cons.prems(7) by simp_all
      from Cons.IH [OF Cons.prems(1-3) w this(1) up' this(2)]
      obtain s' T' b where "ptwalk_loop ops va fl infos (At_Page (baseof ?e)) (asp, s) =
          Inr ((At_Page b, indexof va (last infos)), asp, s')" and
        rest: "own s' (D \<union> T')" "T \<subseteq> T'" "T' \<inter> D = T" "pt_tree (rd ops s') r T'"
        "walk (rd ops s') r ((p @ [?i]) @ map (indexof va) (butlast infos)) = Some b"
        "\<forall>q j. upath q \<longrightarrow> length q = 3 \<longrightarrow> j < 512 \<longrightarrow> leaf (rd ops s') r q j = leaf (rd ops s) r q j"
        "\<forall>x. baseof x \<notin> T' \<longrightarrow> rd ops s' x = rd ops s x" "avail s \<le> avail s' + (length infos - 1)"
        by blast
      then show ?thesis using Cons False unfolding path
        by (intro exI [of _ s'] exI [of _ T'] exI [of _ b]) (simp add: pt_read_def)
    next
      case True
      have av: "0 < avail s" using Cons.prems(7) Cons by simp
      from pgallocz_ok [OF Cons.prems(1) av] obtain n s1 where n: "pgallocz ops s = Inr (n, s1)"
        "n \<noteq> NULL" "n \<notin> D" "own s1 (insert n D)" "avail s1 = avail s - 1"
        "\<forall>j<512. rd ops s1 (slot n j) = 0" "\<forall>x. x \<notin> slot n ` {..<512} \<longrightarrow> rd ops s1 x = rd ops s x"
        by blast
      have al: "\<forall>d\<in>T. baseof d = d" "baseof n = n"
        using own_page [OF Cons.prems(1)] own_page [OF n(4)] Cons.prems(2) by auto
      have nT: "n \<notin> T" using n(3) Cons.prems(2) by auto
      have pi: "upath p" "?i < 512" using upath_snocD [OF up] by auto
      have a: "a \<in> T" using pt_treeD(1) [OF Cons.prems(3) pi(1) Cons.prems(4)] .
      let ?v = "n OR PTE_P OR fl" and ?s2 = "wr ops (slot a ?i) (n OR PTE_P OR fl) s1"
      have v: "baseof ?v = n" "?v AND PTE_P \<noteq> 0"
        using entry_flags [OF al(2) fl] by (simp_all add: or.assoc)
      have "\<forall>j<512. slot n j \<noteq> slot a ?i"
        using slot_inj [of a ?i n] al a pi nT by metis
      then have fresh: "fresh_table (rd ops s) n a ?i ?v (rd ops ?s2)"
        using n(6,7) by (simp add: fresh_table_def rd_wr)
      have "baseof (slot a ?i) \<in> insert n D" using a al(1) pi Cons.prems(2) by auto
      then have o2: "own ?s2 (insert n D)" "avail ?s2 = avail s - 1"
        using own_wr [OF n(4), of "slot a ?i"] n(5) by auto
      note t = pt_tree_fresh_table [OF Cons.prems(3) up Cons.prems(4) True fresh v(2,1) nT al(2,1)]
      have w: "walk (rd ops ?s2) r (p @ [?i]) = Some n"
        using walk_fresh_table [OF Cons.prems(3) up Cons.prems(4) True fresh v(2,1) nT al(2,1) up] by simp
      have av': "length infos - 1 \<le> avail ?s2" "infos \<noteq> []" using Cons.prems(7) o2(2) Cons by simp_all
      have frame: "rd ops ?s2 x = rd ops s x" if "baseof x \<notin> insert n T" for x
      proof -
        have "x \<noteq> slot a ?i" "x \<notin> slot n ` {..<512}" using that a al pi by auto
        then show ?thesis using n(7) by (simp add: rd_wr)
      qed
      have sub: "insert n T \<subseteq> insert n D" using Cons.prems(2) by blast
      from Cons.IH [OF o2(1) sub t(1) w av'(2) up' av'(1)]
      obtain s' T' b where walk': "ptwalk_loop ops va fl infos (At_Page n) (asp, ?s2) =
          Inr ((At_Page b, indexof va (last infos)), asp, s')" and
        rest: "own s' (insert n D \<union> T')" "insert n T \<subseteq> T'" "T' \<inter> insert n D = insert n T"
        "pt_tree (rd ops s') r T'"
        "walk (rd ops s') r ((p @ [?i]) @ map (indexof va) (butlast infos)) = Some b"
        "\<forall>q j. upath q \<longrightarrow> length q = 3 \<longrightarrow> j < 512 \<longrightarrow> leaf (rd ops s') r q j = leaf (rd ops ?s2) r q j"
        "\<forall>x. baseof x \<notin> T' \<longrightarrow> rd ops s' x = rd ops ?s2 x" "avail ?s2 \<le> avail s' + (length infos - 1)"
        by blast
      have "ptwalk_loop ops va fl (info # infos) (At_Page a) (asp, s) =
          Inr ((At_Page b, indexof va (last (info # infos))), asp, s')"
        using walk' True n(1) Cons by (simp add: pt_read_def pt_write_def)
      moreover have "\<forall>q j. upath q \<longrightarrow> length q = 3 \<longrightarrow> j < 512 \<longrightarrow> leaf (rd ops s') r q j = leaf (rd ops s) r q j"
        using rest(6) t(2) by simp
      moreover have "\<forall>x. baseof x \<notin> T' \<longrightarrow> rd ops s' x = rd ops s x"
      proof (intro allI impI)
        fix x assume x: "baseof x \<notin> T'"
        then have "baseof x \<notin> insert n T" using rest(2) by blast
        then show "rd ops s' x = rd ops s x" using frame x rest(7) by metis
      qed
      moreover have "avail s \<le> avail s' + (length (info # infos) - 1)"
        using rest(8) o2(2) Cons by simp
      moreover have "insert n D \<union> T' = D \<union> T'" "T \<subseteq> T'" using rest(2) by auto
      moreover have "T' \<inter> D = T"
      proof -
        have "T' \<inter> D = (T' \<inter> insert n D) - {n}" using n(3) by blast
        then show ?thesis using rest(3) nT by simp
      qed
      ultimately show ?thesis using rest(1,4,5) unfolding path
        by (intro exI [of _ s'] exI [of _ T'] exI [of _ b]) simp
    qed
  qed
qed simp

text \<open>An address space with tables \<open>T\<close>, when the client owns the pages \<open>D\<close>.\<close>

definition space_ok :: "AddrSpace \<Rightarrow> 's \<Rightarrow> addr set \<Rightarrow> addr set \<Rightarrow> bool" where
  "space_ok asp s T D \<longleftrightarrow> own s D \<and> T \<subseteq> D \<and> as_ptr asp AND PTE_P \<noteq> 0 \<and>
     pt_tree (rd ops s) (baseof (as_ptr asp)) T"

lemma ptwalk_ok:
  assumes "space_ok asp s T D" and "3 \<le> avail s" and "IN_RANGE va uvm_area"
  shows "\<exists>s' T' b. ptwalk ops va (PTE_W OR PTE_U) (asp, s) = Inr ((At_Page b, va_leaf va), asp, s') \<and>
    space_ok asp s' T' (D \<union> T') \<and> T \<subseteq> T' \<and> T' \<inter> D = T \<and>
    walk (rd ops s') (baseof (as_ptr asp)) (va_path va) = Some b \<and>
    (\<forall>q j. upath q \<longrightarrow> length q = 3 \<longrightarrow> j < 512 \<longrightarrow>
      leaf (rd ops s') (baseof (as_ptr asp)) q j = leaf (rd ops s) (baseof (as_ptr asp)) q j) \<and>
    (\<forall>x. baseof x \<notin> T' \<longrightarrow> rd ops s' x = rd ops s x) \<and> avail s \<le> avail s' + 3"
proof -
  let ?r = "baseof (as_ptr asp)"
  have s: "own s D" "T \<subseteq> D" "as_ptr asp AND PTE_P \<noteq> 0" "pt_tree (rd ops s) ?r T"
    using assms(1) by (auto simp: space_ok_def)
  have up: "upath ([] @ map (indexof va) (butlast (tl pgtables)))"
    using upath_va [OF assms(3)] by (simp only: levels_path(1) append_Nil)
  have "\<exists>s' T' b. ptwalk_loop ops va (PTE_W OR PTE_U) (tl pgtables) (At_Page ?r) (asp, s) =
      Inr ((At_Page b, indexof va (last (tl pgtables))), asp, s') \<and>
    own s' (D \<union> T') \<and> T \<subseteq> T' \<and> T' \<inter> D = T \<and> pt_tree (rd ops s') ?r T' \<and>
    walk (rd ops s') ?r ([] @ map (indexof va) (butlast (tl pgtables))) = Some b \<and>
    (\<forall>q j. upath q \<longrightarrow> length q = 3 \<longrightarrow> j < 512 \<longrightarrow> leaf (rd ops s') ?r q j = leaf (rd ops s) ?r q j) \<and>
    (\<forall>x. baseof x \<notin> T' \<longrightarrow> rd ops s' x = rd ops s x) \<and>
    avail s \<le> avail s' + (length (tl pgtables) - 1)"
    by (rule ptwalk_loop_ok [OF s(1,2,4) walk.simps(1) levels_path(4) up _ user_flags(1,2)])
      (simp only: levels_path(3), use assms(2) in simp)
  then obtain s' T' b where r:
    "ptwalk_loop ops va (PTE_W OR PTE_U) (tl pgtables) (At_Page ?r) (asp, s) =
      Inr ((At_Page b, indexof va (last (tl pgtables))), asp, s')"
    "own s' (D \<union> T')" "T \<subseteq> T'" "T' \<inter> D = T" "pt_tree (rd ops s') ?r T'"
    "walk (rd ops s') ?r ([] @ map (indexof va) (butlast (tl pgtables))) = Some b"
    "\<forall>q j. upath q \<longrightarrow> length q = 3 \<longrightarrow> j < 512 \<longrightarrow> leaf (rd ops s') ?r q j = leaf (rd ops s) ?r q j"
    "\<forall>x. baseof x \<notin> T' \<longrightarrow> rd ops s' x = rd ops s x"
    "avail s \<le> avail s' + (length (tl pgtables) - 1)"
    by blast
  have "avail s \<le> avail s' + 3" using r(9) unfolding levels_path(3) by simp
  with r(1-8) show ?thesis
    unfolding ptwalk_levels [OF s(3)] space_ok_def levels_path(1,2)
    using s(3) by (intro exI [of _ s'] exI [of _ T'] exI [of _ b]) simp
qed

lemma ptwalk_existing:
  assumes "as_ptr asp AND PTE_P \<noteq> 0" and "walk (rd ops s) (baseof (as_ptr asp)) (va_path va) = Some b"
  shows "ptwalk ops va fl (asp, s) = Inr ((At_Page b, va_leaf va), asp, s)"
  unfolding ptwalk_levels [OF assms(1)] levels_path(2)
  by (rule ptwalk_loop_existing [OF _ levels_path(4)]) (use assms(2) in \<open>simp only: levels_path(1)\<close>)

end

text \<open>The entry the MMU uses for a user address, 0 if there is none.\<close>

definition translate :: "(addr \<Rightarrow> u64) \<Rightarrow> AddrSpace \<Rightarrow> addr \<Rightarrow> u64" where
  "translate c asp va = leaf c (baseof (as_ptr asp)) (va_path va) (va_leaf va)"

definition map_entry :: "addr \<Rightarrow> u64 \<Rightarrow> u64" where
  "map_entry pa prot = (if prot = MMAP_NONE then 0
     else pa OR PTE_P OR PTE_U OR (if prot AND MMAP_WRITE \<noteq> 0 then PTE_W else 0))"

lemma map_entry_present: "prot \<noteq> MMAP_NONE \<Longrightarrow> map_entry pa prot AND PTE_P \<noteq> 0"
  by (auto simp: map_entry_def bit.conj_disj_distrib2 or_eq_0_iff PTE_P_def)

lemma map_entry_base: "baseof pa = pa \<Longrightarrow> prot \<noteq> MMAP_NONE \<Longrightarrow> baseof (map_entry pa prot) = pa"
  using entry_flags(1) [of pa, OF _ user_flags(3,4)] entry_flags(1) [of pa, OF _ user_flags(5,6)]
  by (simp add: map_entry_def or.assoc)

context page_pool
begin

lemma map_ok:
  assumes "space_ok asp s T D" and "3 \<le> avail s" and "IN_RANGE va uvm_area"
    and "baseof va = va" and "baseof pa = pa" and "(prot = MMAP_NONE) = (translate (rd ops s) asp va \<noteq> 0)"
  shows "\<exists>s' T'. vme_map ops va pa prot (asp, s) = Inr (asp, s') \<and> space_ok asp s' T' (D \<union> T') \<and>
    T \<subseteq> T' \<and> T' \<inter> D = T \<and> avail s \<le> avail s' + 3 \<and> (\<forall>x. baseof x \<notin> T' \<longrightarrow> rd ops s' x = rd ops s x) \<and>
    (\<forall>v. IN_RANGE v uvm_area \<longrightarrow> translate (rd ops s') asp v =
      (if baseof v = va then map_entry pa prot else translate (rd ops s) asp v))"
proof -
  let ?r = "baseof (as_ptr asp)"
  from ptwalk_ok [OF assms(1-3)] obtain s1 T1 b where
    w: "ptwalk ops va (PTE_W OR PTE_U) (asp, s) = Inr ((At_Page b, va_leaf va), asp, s1)"
    and s1: "space_ok asp s1 T1 (D \<union> T1)" "T \<subseteq> T1" "walk (rd ops s1) ?r (va_path va) = Some b"
    and lf: "\<forall>q j. upath q \<longrightarrow> length q = 3 \<longrightarrow> j < 512 \<longrightarrow> leaf (rd ops s1) ?r q j = leaf (rd ops s) ?r q j"
    and int: "T1 \<inter> D = T" and fr: "\<forall>x. baseof x \<notin> T1 \<longrightarrow> rd ops s1 x = rd ops s x" and av: "avail s \<le> avail s1 + 3"
    by blast
  have o: "own s1 (D \<union> T1)" "as_ptr asp AND PTE_P \<noteq> 0" "pt_tree (rd ops s1) ?r T1"
    using s1(1) by (auto simp: space_ok_def)
  have idx: "va_leaf v < 512" "length (va_path v) = 3" for v
    using index_bound [of 4 v] by (simp_all add: va_leaf_def va_path_def)
  note up = upath_va [OF assms(3)]
  have bD: "b \<in> T1" using pt_treeD(1) [OF o(3) up s1(3)] .
  have al: "\<forall>d\<in>T1. baseof d = d" using own_page [OF o(1)] by blast
  let ?e = "rd ops s1 (slot b (va_leaf va))" and ?v = "map_entry pa prot"
  let ?s2 = "wr ops (slot b (va_leaf va)) ?v s1"
  have tr: "translate (rd ops s1) asp v = translate (rd ops s) asp v" if "IN_RANGE v uvm_area" for v
    using lf upath_va [OF that] idx by (simp add: translate_def)
  have te: "translate (rd ops s1) asp va = (if ?e AND PTE_P = 0 then 0 else ?e)"
    by (simp add: translate_def leaf_def s1(3))
  then have e: "(prot = MMAP_NONE) = (?e AND PTE_P \<noteq> 0)"
    using assms(6) tr [OF assms(3)] by auto
  note lw = leaf_write [OF o(3) up idx(2) s1(3) idx(1) al, where v = ?v]
  have s2: "own ?s2 (D \<union> T1)" "avail ?s2 = avail s1" using own_wr [OF o(1)] bD al idx by auto
  have ok2: "space_ok asp ?s2 T1 (D \<union> T1)" using s2(1) o(2) lw(1) by (simp add: space_ok_def rd_wr)
  have w2: "walk (rd ops ?s2) ?r (va_path va) = Some b"
    using walk_leaf_write [OF o(3) up idx(2) s1(3) idx(1) al up] s1(3) by (simp add: rd_wr)
  note again = ptwalk_existing [OF o(2) w2]
  have round: "va = ROUNDDOWN va pgsize_mmu" "pa = ROUNDDOWN pa pgsize_mmu"
    using assms(4,5) by (simp_all add: ROUNDDOWN_def baseof_def)
  have "vme_map ops va pa prot (asp, s) = Inr (asp, ?s2)"
  proof (cases "prot = MMAP_NONE")
    case True
    then show ?thesis
      using w again assms(3) round e by (simp add: vme_map_def pt_read_def pt_write_def map_entry_def)
  next
    case False
    then show ?thesis
      using w again assms(3) round e by (simp add: vme_map_def pt_read_def pt_write_def map_entry_def)
  qed
  moreover have "translate (rd ops ?s2) asp v =
      (if baseof v = va then ?v else translate (rd ops s) asp v)" if v: "IN_RANGE v uvm_area" for v
  proof -
    have "(if ?v AND PTE_P = 0 then 0 else ?v) = ?v"
      using map_entry_present [of prot pa] by (auto simp: map_entry_def)
    moreover have "va_path v = va_path va \<and> va_leaf v = va_leaf va \<longleftrightarrow> baseof v = va"
      using va_digits [OF v assms(3)] assms(4) by simp
    ultimately show ?thesis
      using lw(2) [OF upath_va [OF v] idx(2,1)] tr [OF v] by (simp add: translate_def rd_wr)
  qed
  moreover have "\<forall>x. baseof x \<notin> T1 \<longrightarrow> rd ops ?s2 x = rd ops s x"
    using fr bD al idx(1) by (auto simp: rd_wr)
  ultimately show ?thesis using ok2 s1(2) int av s2(2)
    by (intro exI [of _ ?s2] exI [of _ T1]) simp
qed

lemma map_wrong:
  assumes "space_ok asp s T D" and "3 \<le> avail s" and "IN_RANGE va uvm_area"
    and "baseof va = va" and "baseof pa = pa" and "(prot = MMAP_NONE) \<noteq> (translate (rd ops s) asp va \<noteq> 0)"
  shows "vme_map ops va pa prot (asp, s) = Inl Panic"
proof -
  let ?r = "baseof (as_ptr asp)"
  from ptwalk_ok [OF assms(1-3)] obtain s1 T1 b where
    w: "ptwalk ops va (PTE_W OR PTE_U) (asp, s) = Inr ((At_Page b, va_leaf va), asp, s1)"
    and s1: "walk (rd ops s1) ?r (va_path va) = Some b"
    and lf: "\<forall>q j. upath q \<longrightarrow> length q = 3 \<longrightarrow> j < 512 \<longrightarrow> leaf (rd ops s1) ?r q j = leaf (rd ops s) ?r q j"
    by blast
  let ?e = "rd ops s1 (slot b (va_leaf va))"
  have idx: "va_leaf va < 512" "length (va_path va) = 3"
    using index_bound [of 4 va] by (simp_all add: va_leaf_def va_path_def)
  have "translate (rd ops s1) asp va = translate (rd ops s) asp va"
    using lf upath_va [OF assms(3)] idx by (simp add: translate_def)
  then have "translate (rd ops s) asp va = (if ?e AND PTE_P = 0 then 0 else ?e)"
    by (simp add: translate_def leaf_def s1)
  then have e: "(prot = MMAP_NONE) \<noteq> (?e AND PTE_P \<noteq> 0)" using assms(6) by auto
  have "va = ROUNDDOWN va pgsize_mmu" "pa = ROUNDDOWN pa pgsize_mmu"
    using assms(4,5) by (simp_all add: ROUNDDOWN_def baseof_def)
  then show ?thesis using w assms(3) e by (cases "prot = MMAP_NONE") (simp_all add: vme_map_def pt_read_def)
qed

end

section \<open>New and unrelated address spaces\<close>

text \<open>What an address space translates depends on the cells of its own tables alone.\<close>

lemma walk_cong:
  assumes "pt_tree c r T" and al: "\<forall>d\<in>T. baseof d = d" and eq: "\<forall>x. baseof x \<in> T \<longrightarrow> c' x = c x"
    and "upath q"
  shows "walk c' r q = walk c r q"
  using assms(4)
proof (induction q rule: rev_induct)
  case (snoc j q)
  note qj = upath_snocD [OF snoc.prems]
  show ?case
  proof (cases "walk c r q")
    case (Some b)
    then have "b \<in> T" using pt_treeD(1) [OF assms(1)] qj by blast
    then have "c' (slot b j) = c (slot b j)" using eq al qj by simp
    then show ?thesis using snoc.IH qj Some by (simp add: walk_snoc)
  qed (use snoc.IH qj in \<open>simp add: walk_snoc\<close>)
qed simp

lemma space_cong:
  assumes "pt_tree c r T" and al: "\<forall>d\<in>T. baseof d = d" and eq: "\<forall>x. baseof x \<in> T \<longrightarrow> c' x = c x"
  shows "pt_tree c' r T" and "upath q \<Longrightarrow> j < 512 \<Longrightarrow> leaf c' r q j = leaf c r q j"
proof -
  note w = walk_cong [OF assms]
  show "pt_tree c' r T" using assms(1) by (simp add: pt_tree_def w cong: imp_cong)
  assume q: "upath q" "j < 512"
  show "leaf c' r q j = leaf c r q j"
  proof (cases "walk c r q")
    case (Some b)
    then have "b \<in> T" using pt_treeD(1) [OF assms(1)] q by blast
    then have "c' (slot b j) = c (slot b j)" using eq al q by simp
    then show ?thesis using w [OF q(1)] Some by (simp add: leaf_def)
  qed (use w [OF q(1)] in \<open>simp add: leaf_def\<close>)
qed

lemma protect_areas_eq:
  "protect_areas ops kpt up vm_areas s = Some (wr ops (slot up 0) (rd ops s (slot kpt 0)) s)"
proof -
  have "protect_copy ops kpt up 0x8000000000 (0, s) =
      Some (wr ops (slot up 0) (rd ops s (slot kpt 0)) s)"
    by (subst protect_copy.simps, subst protect_copy.simps)
      (simp add: pgtables_def indexof_def push_bit_eq_mult)
  then show ?thesis by (simp add: vm_areas_def)
qed

context page_pool
begin

text \<open>A new address space translates no user address and shares the kernel's level-1 entry.\<close>

lemma protect_ok:
  assumes "own s D" and "0 < avail s" and "baseof kpt = kpt"
  shows "\<exists>asp s' n. protect ops kpt s = Inr (asp, s') \<and> baseof (as_ptr asp) = n \<and> n \<notin> D \<and> n \<in> area s \<and>
    space_ok asp s' {n} (insert n D) \<and> avail s' = avail s - 1 \<and> as_pgsize asp = 4096 \<and>
    as_start asp = 0x100000000000 \<and>
    (\<forall>x. baseof x \<noteq> n \<longrightarrow> rd ops s' x = rd ops s x) \<and>
    (n \<noteq> kpt \<longrightarrow> rd ops s' (slot n 0) = rd ops s (slot kpt 0)) \<and>
    (\<forall>v. IN_RANGE v uvm_area \<longrightarrow> translate (rd ops s') asp v = 0)"
proof -
  from pgallocz_ok [OF assms(1,2)] obtain n s1 where n: "pgallocz ops s = Inr (n, s1)"
    "n \<in> area s" "n \<notin> D" "own s1 (insert n D)" "avail s1 = avail s - 1"
    "\<forall>j<512. rd ops s1 (slot n j) = 0" "\<forall>x. x \<notin> slot n ` {..<512} \<longrightarrow> rd ops s1 x = rd ops s x"
    by blast
  have al: "baseof n = n" using own_page [OF n(4)] by simp
  let ?s2 = "wr ops (slot n 0) (rd ops s1 (slot kpt 0)) s1"
  let ?asp = "\<lparr>as_pgsize = pgsize_mmu, as_start = va_start uvm_area, as_end = va_end uvm_area,
    as_ptr = n OR PTE_P OR PTE_U\<rparr>"
  have r: "baseof (as_ptr ?asp) = n" "as_ptr ?asp AND PTE_P \<noteq> 0"
    using entry_flags [OF al user_flags(3,4)] by (simp_all add: or.assoc)
  have o: "own ?s2 (insert n D)" "avail ?s2 = avail s - 1"
    using own_wr [OF n(4), of "slot n 0"] al n(5) by simp_all
  have zero: "rd ops ?s2 (slot n j) = 0" if "j < 512" "j \<noteq> 0" for j
    using n(6) that slot_inj [of n j n 0] al by (auto simp: rd_wr)
  have w: "walk (rd ops ?s2) n q = (if q = [] then Some n else None)" if "upath q" for q
  proof (cases q)
    case (Cons i q')
    then have "i = 32" using that by (simp add: upath_def)
    then show ?thesis using Cons zero [of 32] by simp
  qed simp
  have tree: "pt_tree (rd ops ?s2) n {n}"
    by (auto simp: pt_tree_def w split: if_splits)
  have tr: "translate (rd ops ?s2) ?asp v = 0" if v: "IN_RANGE v uvm_area" for v
  proof -
    have "va_path v \<noteq> []" by (simp add: va_path_def)
    then show ?thesis using w [OF upath_va [OF v]] r(1) by (simp add: translate_def leaf_def)
  qed
  have fr: "rd ops ?s2 x = rd ops s x" if "baseof x \<noteq> n" for x
  proof -
    have "x \<notin> slot n ` {..<512}" "x \<noteq> slot n 0" using that al by auto
    then show ?thesis using n(7) by (simp add: rd_wr)
  qed
  have k: "rd ops ?s2 (slot n 0) = rd ops s (slot kpt 0)" if "n \<noteq> kpt"
  proof -
    have "slot kpt 0 \<notin> slot n ` {..<512}" using slot_inj [of kpt 0 n] assms(3) al that by auto
    then show ?thesis using n(7) by (simp add: rd_wr)
  qed
  have "protect ops kpt s = Inr (?asp, ?s2)"
    by (simp add: protect_def n(1) protect_areas_eq)
  moreover have "space_ok ?asp ?s2 {n} (insert n D)"
    using o(1) r tree by (simp add: space_ok_def)
  ultimately show ?thesis using n(2,3) r(1) o(2) tr fr k
    by (intro exI [of _ ?asp] exI [of _ ?s2] exI [of _ n])
      (simp add: pgsize_mmu_def uvm_area_def vm_areas_def)
qed

text \<open>Two address spaces with different tables: mapping a page in one leaves the other alone.\<close>

lemma map_isolated:
  assumes "space_ok asp s T D" and "space_ok asp2 s T2 D" and "T \<inter> T2 = {}" and "3 \<le> avail s"
    and "IN_RANGE va uvm_area" and "baseof va = va" and "baseof pa = pa"
    and "vme_map ops va pa prot (asp, s) = Inr (asp', s')"
  shows "\<exists>T' D'. space_ok asp' s' T' D' \<and> space_ok asp2 s' T2 D' \<and> T' \<inter> T2 = {} \<and> asp' = asp \<and>
    (\<forall>v. IN_RANGE v uvm_area \<longrightarrow> translate (rd ops s') asp2 v = translate (rd ops s) asp2 v)"
proof -
  have "(prot = MMAP_NONE) = (translate (rd ops s) asp va \<noteq> 0)"
    using map_wrong [OF assms(1,4-7), of prot] assms(8) by auto
  from map_ok [OF assms(1,4-7) this] assms(8) obtain T' where
    m: "asp' = asp" "space_ok asp s' T' (D \<union> T')" "T \<subseteq> T'" "T' \<inter> D = T"
    and fr: "\<forall>x. baseof x \<notin> T' \<longrightarrow> rd ops s' x = rd ops s x" by auto
  have s2: "own s D" "T2 \<subseteq> D" "as_ptr asp2 AND PTE_P \<noteq> 0" "pt_tree (rd ops s) (baseof (as_ptr asp2)) T2"
    using assms(2) by (auto simp: space_ok_def)
  have dis: "T' \<inter> T2 = {}" using m(4) s2(2) assms(3) by blast
  have al: "\<forall>d\<in>T2. baseof d = d" using own_page [OF s2(1)] s2(2) by blast
  have eq: "\<forall>x. baseof x \<in> T2 \<longrightarrow> rd ops s' x = rd ops s x" using fr dis by blast
  note c = space_cong [OF s2(4) al eq]
  have "space_ok asp2 s' T2 (D \<union> T')"
    using c(1) s2(2,3) m(2) by (auto simp: space_ok_def)
  moreover have "translate (rd ops s') asp2 v = translate (rd ops s) asp2 v" if "IN_RANGE v uvm_area" for v
    using c(2) [OF upath_va [OF that], of "va_leaf v"] index_bound [of 4 v]
    by (simp add: translate_def va_leaf_def)
  ultimately show ?thesis using m(1,2) dis
    by (intro exI [of _ T'] exI [of _ "D \<union> T'"]) simp
qed

end

end
