(* ===== verification/Paging.thy ===== *)
theory Paging
  imports VmeProofs
begin

text \<open>
  The page tables on the kernel's own allocator: \<open>uproc_init\<close> hands \<open>pmm->alloc\<close> and
  \<open>pmm->free\<close> to \<open>vme_init\<close>.  The physical memory manager provides the interface
  \<open>page_pool\<close>, so that mapping, isolation and new address spaces hold for \<open>vme.c\<close> running on
  \<open>pmm.c\<close>.
\<close>

section \<open>The allocator provides the interface\<close>

text \<open>The pages \<open>D\<close> are blocks of the page zone that are not free.\<close>

definition own_pages :: "pmm \<Rightarrow> addr set \<Rightarrow> bool" where
  "own_pages s D \<longleftrightarrow> (\<exists>F. pmm_abs s F \<and> D \<subseteq> zone_blocks s 8 \<and> D \<inter> set (F 8) = {})"

definition free_pages :: "pmm \<Rightarrow> nat" where
  "free_pages s = length (THE xs. flist (cells s) (freelist (kmem_at s 8)) xs)"

lemma free_pages_abs: "pmm_abs s F \<Longrightarrow> free_pages s = length (F 8)"
proof -
  assume "pmm_abs s F"
  then have "flist (cells s) (freelist (kmem_at s 8)) (F 8)" by (simp add: pmm_abs_def zone_free_def)
  then have "(THE xs. flist (cells s) (freelist (kmem_at s 8)) xs) = F 8"
    by (intro the_equality) (auto intro: flist_unique)
  then show ?thesis by (simp add: free_pages_def)
qed

lemma zone_page_base: "heap_ok s \<Longrightarrow> p \<in> zone_blocks s 8 \<Longrightarrow> baseof p = p"
  by (simp add: in_zone_blocks baseof_iff)

text \<open>Writing inside a page that is not free keeps every free list.\<close>

lemma pmm_abs_write:
  assumes "pmm_abs s F" and "b \<in> zone_blocks s 8" and "b \<notin> set (F 8)" and "baseof a = b"
  shows "pmm_abs (s\<lparr>cells := (cells s)(a := v)\<rparr>) F"
proof -
  note h = pmm_absD [OF assms(1)]
  let ?s' = "s\<lparr>cells := (cells s)(a := v)\<rparr>"
  have l: "zone_blocks ?s' = zone_blocks s" "heap_ok ?s' = heap_ok s"
    by (rule layout_cong; simp)+
  have b: "unat b \<le> unat a" "unat a < unat b + 4096"
    using arg_cong [OF assms(4), of unat] div_mult_mod_eq [of "unat a" 4096]
      mod_less_divisor [of 4096 "unat a"] unfolding unat_baseof by linarith+
  have "a \<notin> set (F j)" if j: "j < 10" for j
  proof
    assume a: "a \<in> set (F j)"
    have sub: "set (F j) \<subseteq> zone_blocks s j" using h(5) [OF j] by (simp add: zone_free_def)
    show False
    proof (cases "a = b")
      case True
      then show False
        using zone_blocks_disjoint [OF h(1) _ j, of 8 b] assms(2,3) a sub by auto
    next
      case False
      have "a \<in> zone_blocks s j" using a sub by blast
      from zone_blocks_apart [OF h(1) _ j assms(2) this] False
      have "unat b + 4096 \<le> unat a \<or> unat a + 2 ^ (4 + j) \<le> unat b" by simp
      moreover have "(0::nat) < 2 ^ (4 + j)" by simp
      ultimately show False using b by linarith
    qed
  qed
  then have "zone_free ?s' j (F j)" if "j < 10" for j
    using h(5) [OF that] that by (simp add: zone_free_def l)
  then show ?thesis using h(1-4) by (simp add: pmm_abs_def l)
qed

interpretation kernel_pages: page_pool pmm_ops own_pages free_pages "\<lambda>s. zone_blocks s 8"
proof (unfold_locales, goal_cases)
  case (1 a v s)
  then show ?case by (simp add: pmm_ops_def)
next
  case (2 s D a v)
  then obtain F where F: "pmm_abs s F" "D \<subseteq> zone_blocks s 8" "D \<inter> set (F 8) = {}"
    by (auto simp: own_pages_def)
  have "pmm_abs (wr pmm_ops a v s) F"
    using pmm_abs_write [OF F(1), of "baseof a" a v] F 2(2) by (auto simp: pmm_ops_def)
  moreover have "zone_blocks (wr pmm_ops a v s) = zone_blocks s"
    unfolding pmm_ops_def by (rule layout_cong) simp_all
  ultimately show ?case using F free_pages_abs by (auto simp: own_pages_def)
next
  case (3 s D)
  then show ?case by (auto simp: own_pages_def pmm_abs_def intro: zone_page_base)
next
  case (4 s D)
  then obtain F where F: "pmm_abs s F" "D \<subseteq> zone_blocks s 8" "D \<inter> set (F 8) = {}"
    by (auto simp: own_pages_def)
  have z: "zone_of (unat (4096 :: u64)) = 8" using zone_of_pow2 [of 8] by simp
  obtain p ps where p: "F 8 = p # ps" using 4(2) free_pages_abs [OF F(1)] by (cases "F 8") auto
  from kalloc_abs [OF F(1), of 4096 p ps] z p obtain s' where s': "kalloc 4096 s = Inr (p, s')"
    "pmm_abs s' (F(8 := ps))" "heap_start s' = heap_start s" "heap_end s' = heap_end s" "cells s' = cells s"
    by auto
  have zb: "zone_blocks s' = zone_blocks s" using layout_cong(2) [OF s'(3,4)] .
  have f8: "zone_free s 8 (p # ps)" using pmm_absD(5) [OF F(1), of 8] p by simp
  then have "p \<in> zone_blocks s 8" "p \<notin> set ps" by (simp_all add: zone_free_def)
  then have "own_pages s' (insert p D)"
    unfolding own_pages_def using s'(2) F(2,3) p zb by (intro exI [of _ "F(8 := ps)"]) auto
  moreover have "p \<noteq> NULL"
    using \<open>p \<in> zone_blocks s 8\<close> zone_blocks_nonnull [OF pmm_absD(1) [OF F(1)], of 8] by auto
  moreover have "free_pages s' = free_pages s - 1"
    using free_pages_abs [OF F(1)] free_pages_abs [OF s'(2)] p by simp
  ultimately show ?case using s' F(3) p \<open>p \<in> zone_blocks s 8\<close>
    by (intro exI [of _ p] exI [of _ s']) (auto simp: pmm_ops_def)
next
  case (5 s D)
  then obtain F where F: "pmm_abs s F" by (auto simp: own_pages_def)
  have z: "zone_of (unat (4096 :: u64)) = 8" using zone_of_pow2 [of 8] by simp
  have "F 8 = []" using 5(2) free_pages_abs [OF F] by simp
  then show ?case using kalloc_abs_empty [OF F, of 4096] z by (simp add: pmm_ops_def)
qed

text \<open>Address spaces of the kernel, with their tables \<open>T\<close> among the owned pages \<open>D\<close>.\<close>

definition kspace :: "AddrSpace \<Rightarrow> pmm \<Rightarrow> addr set \<Rightarrow> addr set \<Rightarrow> bool" where
  "kspace asp s T D \<longleftrightarrow> own_pages s D \<and> T \<subseteq> D \<and> as_ptr asp AND PTE_P \<noteq> 0 \<and>
     pt_tree (cells s) (baseof (as_ptr asp)) T"

lemma rd_pmm [simp]: "rd pmm_ops = cells"
  by (simp add: pmm_ops_def)

lemma kspace_eq: "kspace = kernel_pages.space_ok"
  by (simp add: fun_eq_iff kspace_def kernel_pages.space_ok_def)

section \<open>Properties\<close>

text \<open>C9. Mapping (or unmapping) a page of user space, when the page is not mapped (is
  mapped), succeeds as long as three pages can be allocated; afterwards the MMU finds the new
  entry for exactly the addresses of that page and the old ones elsewhere, and memory outside
  the address space's tables is untouched.\<close>

theorem vme_map_correct:
  assumes "kspace asp s T D" and "3 \<le> free_pages s" and "IN_RANGE va uvm_area"
    and "baseof va = va" and "baseof pa = pa" and "(prot = MMAP_NONE) = (translate (cells s) asp va \<noteq> 0)"
  shows "\<exists>s' T'. vme_map pmm_ops va pa prot (asp, s) = Inr (asp, s') \<and> kspace asp s' T' (D \<union> T') \<and>
    T \<subseteq> T' \<and> T' \<inter> D = T \<and> (\<forall>x. baseof x \<notin> T' \<longrightarrow> cells s' x = cells s x) \<and>
    (\<forall>v. IN_RANGE v uvm_area \<longrightarrow> translate (cells s') asp v =
      (if baseof v = va then map_entry pa prot else translate (cells s) asp v))"
  using kernel_pages.map_ok [of asp s T D va pa prot, unfolded rd_pmm] assms
  unfolding kspace_eq by blast

text \<open>The heap after \<open>kinit\<close> has room for the witnesses.\<close>

lemma qemu_pages:
  obtains s where "own_pages s {}" "5 \<le> free_pages s" "kinit qemu_heap = Inr s" "heap_start s = 0x100000"
proof (rule qemu_init)
  fix s assume k: "kinit qemu_heap = Inr s" and s: "pmm_abs s (\<lambda>j. rev (zone_list qemu_heap j))"
    and h: "heap_start s = heap_start qemu_heap"
  let ?B = "{0x4080000, 0x4081000, 0x4082000, 0x4083000, 0x4084000 :: addr}"
  have "?B \<subseteq> set (zone_list qemu_heap 8)"
    using set_zone_list(1) [OF qemu_heap_ok(1), of 8]
    by (simp add: in_zone_blocks [OF qemu_heap_ok(1)] qemu_layout)
  then have "card ?B \<le> length (zone_list qemu_heap 8)"
    by (meson card_mono card_length finite_set le_trans)
  then have "5 \<le> free_pages s" using free_pages_abs [OF s] by simp
  moreover have "own_pages s {}" using s by (auto simp: own_pages_def)
  ultimately show ?thesis using that k h by (simp add: qemu_heap_def)
qed

theorem vme_map_correct_witness:
  "\<exists>asp s s'. vme_map pmm_ops 0x100000002000 0x5000000 MMAP_WRITE (asp, s) = Inr (asp, s') \<and>
     translate (cells s') asp 0x100000002abc = 0x5000007 \<and> translate (cells s') asp 0x100000003abc = 0"
proof (rule qemu_pages)
  fix s0 assume s0: "own_pages s0 {}" "5 \<le> free_pages s0"
  have "baseof PML4_ADDR = PML4_ADDR" by (simp add: baseof_def pgsize_mmu_def PML4_ADDR_def)
  with kernel_pages.protect_ok [OF s0(1), of PML4_ADDR] s0(2) obtain asp s n where
    s: "kspace asp s {n} {n}" "free_pages s = free_pages s0 - 1"
    "\<forall>v. IN_RANGE v uvm_area \<longrightarrow> translate (cells s) asp v = 0" by (auto simp: kspace_eq)
  have r: "IN_RANGE 0x100000002000 uvm_area" "IN_RANGE 0x100000002abc uvm_area" "IN_RANGE 0x100000003abc uvm_area"
    "baseof 0x100000002000 = 0x100000002000" "baseof 0x5000000 = 0x5000000"
    "baseof 0x100000002abc = 0x100000002000" "baseof 0x100000003abc = 0x100000003000"
    by (simp_all add: uvm_range baseof_def pgsize_mmu_def)
  have e: "map_entry 0x5000000 MMAP_WRITE = 0x5000007"
    by (simp add: map_entry_def MMAP_NONE_def MMAP_WRITE_def PTE_P_def PTE_U_def PTE_W_def)
  have *: "(MMAP_WRITE = MMAP_NONE) = (translate (cells s) asp 0x100000002000 \<noteq> 0)"
    using s(3) r(1) by (simp add: MMAP_NONE_def MMAP_WRITE_def)
  have "3 \<le> free_pages s" using s(2) s0(2) by simp
  from vme_map_correct [OF s(1) this r(1,4,5) *] obtain s' where
    "vme_map pmm_ops 0x100000002000 0x5000000 MMAP_WRITE (asp, s) = Inr (asp, s')"
    "\<forall>v. IN_RANGE v uvm_area \<longrightarrow> translate (cells s') asp v =
      (if baseof v = 0x100000002000 then map_entry 0x5000000 MMAP_WRITE else translate (cells s) asp v)"
    by blast
  then show ?thesis using r s(3) e by (intro exI [of _ asp] exI [of _ s] exI [of _ s']) simp
qed

text \<open>C10. Isolation: with two address spaces whose tables are disjoint, mapping or unmapping a
  page in one leaves every translation of the other unchanged, and their tables disjoint.\<close>

theorem vme_map_isolated:
  assumes "kspace asp s T D" and "kspace asp2 s T2 D" and "T \<inter> T2 = {}" and "3 \<le> free_pages s"
    and "IN_RANGE va uvm_area" and "baseof va = va" and "baseof pa = pa"
    and "vme_map pmm_ops va pa prot (asp, s) = Inr (asp', s')"
  shows "\<exists>T' D'. kspace asp' s' T' D' \<and> kspace asp2 s' T2 D' \<and> T' \<inter> T2 = {} \<and>
    (\<forall>v. IN_RANGE v uvm_area \<longrightarrow> translate (cells s') asp2 v = translate (cells s) asp2 v)"
  using kernel_pages.map_isolated [of asp s T D asp2 T2 va pa prot asp' s', unfolded rd_pmm] assms
  unfolding kspace_eq by blast

theorem vme_map_isolated_witness:
  "\<exists>a1 a2 s s'. vme_map pmm_ops 0x100000002000 0x5000000 MMAP_WRITE (a1, s) = Inr (a1, s') \<and>
     translate (cells s') a2 0x100000002000 = 0 \<and> translate (cells s') a1 0x100000002000 = 0x5000007"
proof (rule qemu_pages)
  fix s0 assume s0: "own_pages s0 {}" "5 \<le> free_pages s0"
  have k: "baseof PML4_ADDR = PML4_ADDR" by (simp add: baseof_def pgsize_mmu_def PML4_ADDR_def)
  from kernel_pages.protect_ok [OF s0(1) _ k] s0(2) obtain a2 s1 n2 where
    s1: "kspace a2 s1 {n2} {n2}" "free_pages s1 = free_pages s0 - 1"
    "\<forall>v. IN_RANGE v uvm_area \<longrightarrow> translate (cells s1) a2 v = 0" by (auto simp: kspace_eq)
  have o1: "own_pages s1 {n2}" using s1(1) by (simp add: kspace_def)
  have av: "0 < free_pages s1" using s1(2) s0(2) by simp
  from kernel_pages.protect_ok [OF o1 av k, unfolded rd_pmm] obtain a1 s n where
    s: "baseof (as_ptr a1) = n" "n \<notin> {n2}" "kernel_pages.space_ok a1 s {n} (insert n {n2})"
    "free_pages s = free_pages s1 - 1" "\<forall>x. baseof x \<noteq> n \<longrightarrow> cells s x = cells s1 x"
    "\<forall>v. IN_RANGE v uvm_area \<longrightarrow> translate (cells s) a1 v = 0" by blast
  have t2: "pt_tree (cells s1) (baseof (as_ptr a2)) {n2}" "as_ptr a2 AND PTE_P \<noteq> 0"
    using s1(1) by (simp_all add: kspace_def)
  have al: "\<forall>d\<in>{n2}. baseof d = d" using kernel_pages.own_page [OF o1] .
  have eq: "\<forall>x. baseof x \<in> {n2} \<longrightarrow> cells s x = cells s1 x" using s(2,5) by auto
  note c = space_cong [OF t2(1) al eq]
  have own: "own_pages s (insert n {n2})" using s(3) by (simp add: kspace_eq [symmetric] kspace_def)
  have k1: "kspace a1 s {n} (insert n {n2})" using s(3) by (simp add: kspace_eq)
  have k2: "kspace a2 s {n2} (insert n {n2})" using own c(1) t2(2) by (simp add: kspace_def)
  have r: "IN_RANGE 0x100000002000 uvm_area"
    "baseof 0x100000002000 = 0x100000002000" "baseof 0x5000000 = 0x5000000"
    by (simp_all add: uvm_range baseof_def pgsize_mmu_def)
  have av3: "3 \<le> free_pages s" using s(4) s1(2) s0(2) by simp
  have *: "(MMAP_WRITE = MMAP_NONE) = (translate (cells s) a1 0x100000002000 \<noteq> 0)"
    using s(6) r(1) by (simp add: MMAP_NONE_def MMAP_WRITE_def)
  from kernel_pages.map_ok [OF s(3) av3 r(1-3), unfolded rd_pmm, OF *] obtain s' where
    m: "vme_map pmm_ops 0x100000002000 0x5000000 MMAP_WRITE (a1, s) = Inr (a1, s')"
    "\<forall>v. IN_RANGE v uvm_area \<longrightarrow> translate (cells s') a1 v =
      (if baseof v = 0x100000002000 then map_entry 0x5000000 MMAP_WRITE else translate (cells s) a1 v)"
    by blast
  have "{n} \<inter> {n2} = {}" using s(2) by simp
  from vme_map_isolated [OF k1 k2 this av3 r m(1)] r(1)
  have "translate (cells s') a2 0x100000002000 = translate (cells s) a2 0x100000002000" by blast
  also have "\<dots> = translate (cells s1) a2 0x100000002000"
    using c(2) [OF upath_va [OF r(1)], of "va_leaf 0x100000002000"] index_bound [of 4 "0x100000002000"]
    by (simp add: translate_def va_leaf_def)
  also have "\<dots> = 0" using s1(3) r(1) by blast
  finally have z: "translate (cells s') a2 0x100000002000 = 0" .
  have "map_entry 0x5000000 MMAP_WRITE = 0x5000007"
    by (simp add: map_entry_def MMAP_NONE_def MMAP_WRITE_def PTE_P_def PTE_U_def PTE_W_def)
  with m r z show ?thesis by (intro exI [of _ a1] exI [of _ a2] exI [of _ s] exI [of _ s']) simp
qed

text \<open>\<open>protect\<close> makes an address space with one fresh table, in which no user address is
  mapped and whose kernel entry is the kernel's own.\<close>

theorem protect_correct:
  assumes "own_pages s D" and "0 < free_pages s" and "unat PML4_ADDR < unat (heap_start s)"
  shows "\<exists>asp s' n. protect pmm_ops PML4_ADDR s = Inr (asp, s') \<and> n \<notin> D \<and>
    kspace asp s' {n} (insert n D) \<and> as_pgsize asp = 4096 \<and>
    cells s' (slot n 0) = cells s (slot PML4_ADDR 0) \<and>
    (\<forall>x. baseof x \<noteq> n \<longrightarrow> cells s' x = cells s x) \<and>
    (\<forall>v. IN_RANGE v uvm_area \<longrightarrow> translate (cells s') asp v = 0)"
proof -
  have k: "baseof PML4_ADDR = PML4_ADDR" by (simp add: baseof_def pgsize_mmu_def PML4_ADDR_def)
  from kernel_pages.protect_ok [OF assms(1,2) k, unfolded rd_pmm] obtain asp s' n where
    p: "protect pmm_ops PML4_ADDR s = Inr (asp, s')" "n \<notin> D" "kernel_pages.space_ok asp s' {n} (insert n D)"
    "as_pgsize asp = 4096" "\<forall>x. baseof x \<noteq> n \<longrightarrow> cells s' x = cells s x"
    "n \<noteq> PML4_ADDR \<longrightarrow> cells s' (slot n 0) = cells s (slot PML4_ADDR 0)"
    "\<forall>v. IN_RANGE v uvm_area \<longrightarrow> translate (cells s') asp v = 0" "n \<in> zone_blocks s 8" by blast
  have "heap_ok s" using assms(1) by (auto simp: own_pages_def pmm_abs_def)
  then have "unat (heap_start s) \<le> unat n" using p(8) by (simp add: in_zone_blocks zlo_def)
  then have "n \<noteq> PML4_ADDR" using assms(3) by auto
  with p show ?thesis by (intro exI [of _ asp] exI [of _ s'] exI [of _ n]) (simp add: kspace_eq)
qed

theorem protect_correct_witness:
  "\<exists>asp s s' n. protect pmm_ops PML4_ADDR s = Inr (asp, s') \<and> kspace asp s' {n} {n} \<and>
     as_pgsize asp = 4096 \<and> translate (cells s') asp 0x100000000000 = 0"
proof (rule qemu_pages)
  fix s assume s: "own_pages s {}" "5 \<le> free_pages s" "heap_start s = 0x100000"
  have "IN_RANGE 0x100000000000 uvm_area" by (simp add: uvm_range)
  moreover from protect_correct [OF s(1)] s(2,3) obtain asp s' n where
    "protect pmm_ops PML4_ADDR s = Inr (asp, s')" "kspace asp s' {n} {n}" "as_pgsize asp = 4096"
    "\<forall>v. IN_RANGE v uvm_area \<longrightarrow> translate (cells s') asp v = 0" by (auto simp: PML4_ADDR_def)
  ultimately show ?thesis by (intro exI [of _ asp] exI [of _ s] exI [of _ s'] exI [of _ n]) simp
qed

end
