(* ===== verification/Ring.thy ===== *)
theory Ring
  imports Prelude
begin

text \<open>
  Circular doubly linked lists, as the task rings of the kernel (\<open>kmt.c\<close>, \<open>uproc.c\<close>) and
  the coroutine ring of \<open>libco/co.c\<close> keep them: \<open>ring nx pv xs\<close> says that following
  \<open>nx\<close> from the head of \<open>xs\<close> visits \<open>xs\<close> and returns, and that \<open>pv\<close> goes the
  other way.  The locale \<open>ring_store\<close> lifts insertion and removal to a store of linked
  objects whose fields are read and written one at a time and may fail.
\<close>

section \<open>Rings\<close>

fun linked :: "('p \<Rightarrow> 'p) \<Rightarrow> ('p \<Rightarrow> 'p) \<Rightarrow> 'p list \<Rightarrow> bool" where
  "linked nx pv (a # b # xs) \<longleftrightarrow> nx a = b \<and> pv b = a \<and> linked nx pv (b # xs)"
| "linked nx pv xs \<longleftrightarrow> True"

definition ring :: "('p \<Rightarrow> 'p) \<Rightarrow> ('p \<Rightarrow> 'p) \<Rightarrow> 'p list \<Rightarrow> bool" where
  "ring nx pv xs \<longleftrightarrow> xs \<noteq> [] \<and> distinct xs \<and> linked nx pv (xs @ [hd xs])"

lemma linked_append:
  "linked nx pv (xs @ a # ys) \<longleftrightarrow> linked nx pv (xs @ [a]) \<and> linked nx pv (a # ys)"
  by (induction nx pv xs rule: linked.induct) simp_all

lemma linked_cong:
  assumes "\<And>x. x \<in> set (butlast xs) \<Longrightarrow> nx' x = nx x" and "\<And>x. x \<in> set (tl xs) \<Longrightarrow> pv' x = pv x"
  shows "linked nx' pv' xs = linked nx pv xs"
  using assms by (induction nx pv xs rule: linked.induct) auto

lemma ring_single: "ring nx pv [a] \<longleftrightarrow> nx a = a \<and> pv a = a"
  by (simp add: ring_def)

lemma ring_rotate1: "ring nx pv (a # xs) \<Longrightarrow> ring nx pv (xs @ [a])"
proof (cases xs)
  case (Cons b ys)
  assume r: "ring nx pv (a # xs)"
  then have l: "linked nx pv (a # b # ys @ [a])" using Cons by (simp add: ring_def)
  then have "linked nx pv ((b # ys) @ a # [b])"
    by (intro linked_append [of nx pv "b # ys" a "[b]", THEN iffD2]) simp
  then show ?thesis using r Cons by (auto simp: ring_def)
qed simp

lemma ring_rotate: "ring nx pv (xs @ ys) \<Longrightarrow> ring nx pv (ys @ xs)"
proof (induction xs arbitrary: ys)
  case (Cons a xs)
  then have "ring nx pv (xs @ (ys @ [a]))" using ring_rotate1 [of nx pv a "xs @ ys"] by simp
  then show ?case using Cons.IH [of "ys @ [a]"] by simp
qed simp

lemma ring_next:
  assumes "ring nx pv (a # xs)"
  shows "nx a = hd (xs @ [a])" and "nx a \<in> set (a # xs)"
  using assms by (cases xs; auto simp: ring_def)+

lemma ring_prev:
  assumes "ring nx pv (a # xs)"
  shows "pv a = last (a # xs)" and "pv a \<in> set (a # xs)"
proof -
  have "linked nx pv ((a # xs) @ [a])" using assms by (simp add: ring_def)
  moreover have "linked nx pv (ys @ [a]) \<Longrightarrow> ys \<noteq> [] \<Longrightarrow> pv a = last ys" for ys
    by (induction nx pv ys rule: linked.induct) (auto simp: neq_Nil_conv)
  ultimately show "pv a = last (a # xs)" by blast
  then show "pv a \<in> set (a # xs)" by (simp only: last_in_set list.distinct not_False_eq_True)
qed

lemma ring_cong:
  assumes "\<And>x. x \<in> set xs \<Longrightarrow> nx' x = nx x" and "\<And>x. x \<in> set xs \<Longrightarrow> pv' x = pv x"
  shows "ring nx' pv' xs = ring nx pv xs"
proof (cases "xs = []")
  case False
  have "linked nx' pv' (xs @ [hd xs]) = linked nx pv (xs @ [hd xs])"
    by (rule linked_cong) (use assms False in \<open>auto simp: butlast_append tl_append split: list.splits\<close>)
  then show ?thesis by (simp add: ring_def)
qed (simp add: ring_def)

text \<open>Inserting \<open>t\<close> after \<open>a\<close>, and unlinking \<open>t\<close>.\<close>

lemma ring_insert:
  assumes "ring nx pv (a # xs)" and "t \<notin> set (a # xs)"
  shows "ring (nx(t := nx a, a := t)) (pv(t := a, nx a := t)) (a # t # xs)"
proof (cases xs)
  case Nil
  then show ?thesis using assms by (auto simp: ring_def)
next
  case (Cons b ys)
  then have r: "nx a = b" "pv b = a" "linked nx pv (b # ys @ [a])" "distinct (a # b # ys)" "t \<notin> set (a # b # ys)"
    using assms by (auto simp: ring_def)
  have "linked (nx(t := b, a := t)) (pv(t := a, b := t)) (b # ys @ [a]) = linked nx pv (b # ys @ [a])"
    by (rule linked_cong) (use r in \<open>auto simp: butlast_append split: if_splits\<close>)
  then show ?thesis using r Cons by (auto simp: ring_def)
qed

lemma ring_remove:
  assumes "ring nx pv (t # xs)" and "xs \<noteq> []"
  shows "ring (nx(pv t := nx t)) (pv(nx t := pv t)) xs"
proof -
  obtain b where b: "nx t = b" "hd xs = b" using assms ring_next(1) [OF assms(1)] by (cases xs) auto
  have p: "pv t = last xs" using ring_prev(1) [OF assms(1)] assms(2) by simp
  have l: "linked nx pv (t # xs @ [t])" "distinct (t # xs)" using assms(1) by (auto simp: ring_def)
  define ys where "ys = butlast xs"
  have ys: "ys @ [last xs] = xs" using assms(2) by (simp add: ys_def)
  have lxs: "linked nx pv xs"
  proof -
    have "linked nx pv (xs @ [t])" using l(1) by (cases xs) auto
    moreover have "xs @ [t] = ys @ last xs # [t]" by (subst ys [symmetric]) simp
    ultimately have "linked nx pv (ys @ last xs # [t])" by simp
    from linked_append [of nx pv ys "last xs" "[t]", THEN iffD1, OF this]
    show ?thesis using ys by simp
  qed
  have "linked (nx(last xs := b)) (pv(b := last xs)) xs = linked nx pv xs"
  proof (rule linked_cong)
    fix x assume "x \<in> set (butlast xs)"
    moreover have "distinct (ys @ [last xs])" using l(2) ys by simp
    ultimately have "x \<noteq> last xs" by (auto simp: ys_def)
    then show "(nx(last xs := b)) x = nx x" by simp
  next
    fix x assume "x \<in> set (tl xs)"
    then have "x \<noteq> b" using l(2) b(2) assms(2) by (cases xs) auto
    then show "(pv(b := last xs)) x = pv x" by simp
  qed
  with lxs have lk: "linked (nx(last xs := b)) (pv(b := last xs)) (ys @ [last xs])" by (simp only: ys)
  have "linked (nx(last xs := b)) (pv(b := last xs)) (ys @ last xs # [b])"
    by (rule linked_append [of _ _ ys "last xs" "[b]", THEN iffD2]) (use lk in simp)
  moreover have eq: "ys @ last xs # [b] = xs @ [hd xs]" by (subst (2) ys [symmetric]) (simp add: b(2))
  ultimately have "linked (nx(last xs := b)) (pv(b := last xs)) (xs @ [hd xs])" by (simp only: eq)
  then show ?thesis using assms(2) l(2) b(1) p by (simp add: ring_def)
qed

section \<open>Stores of linked objects\<close>

text \<open>
  The fields \<open>next\<close> and \<open>prev\<close> of the objects \<open>live s\<close>; writing a field of a live
  object succeeds and changes nothing else, neither of the linkage nor of the \<open>rest\<close> of
  the state.
\<close>

locale ring_store =
  fixes nxt prv :: "'s \<Rightarrow> 'p \<Rightarrow> 'p"
    and set_nxt set_prv :: "'p \<Rightarrow> 'p \<Rightarrow> 's \<Rightarrow> 's result"
    and live :: "'s \<Rightarrow> 'p set"
    and rest :: "'s \<Rightarrow> 'r"
  assumes set_nxt: "p \<in> live s \<Longrightarrow> \<exists>s'. set_nxt p v s = Inr s' \<and> nxt s' = (nxt s)(p := v) \<and>
      prv s' = prv s \<and> live s' = live s \<and> rest s' = rest s"
    and set_prv: "p \<in> live s \<Longrightarrow> \<exists>s'. set_prv p v s = Inr s' \<and> prv s' = (prv s)(p := v) \<and>
      nxt s' = nxt s \<and> live s' = live s \<and> rest s' = rest s"
begin

text \<open>The order of assignments of \<open>kcreate\<close>.\<close>

lemma insert_after:
  assumes "ring (nxt s) (prv s) (a # xs)" and "set (a # xs) \<subseteq> live s" and "t \<in> live s" and "t \<notin> set (a # xs)"
  shows "\<exists>s'. bindR (set_nxt t (nxt s a) s) (\<lambda>s1. bindR (set_prv t a s1) (\<lambda>s2.
      bindR (set_nxt a t s2) (\<lambda>s3. set_prv (nxt s3 t) t s3))) = Inr s' \<and>
    ring (nxt s') (prv s') (a # t # xs) \<and> live s' = live s \<and> rest s' = rest s \<and>
    (\<forall>x. x \<noteq> t \<longrightarrow> x \<notin> set (a # xs) \<longrightarrow> nxt s' x = nxt s x \<and> prv s' x = prv s x)"
proof -
  from set_nxt [OF assms(3)] obtain s1 where s1: "set_nxt t (nxt s a) s = Inr s1"
    "nxt s1 = (nxt s)(t := nxt s a)" "prv s1 = prv s" "live s1 = live s" "rest s1 = rest s" by blast
  have "t \<in> live s1" using assms(3) s1(4) by simp
  from set_prv [OF this] obtain s2 where s2: "set_prv t a s1 = Inr s2"
    "prv s2 = (prv s1)(t := a)" "nxt s2 = nxt s1" "live s2 = live s1" "rest s2 = rest s1" by blast
  have "a \<in> live s2" using assms(2) s1(4) s2(4) by simp
  from set_nxt [OF this] obtain s3 where s3: "set_nxt a t s2 = Inr s3"
    "nxt s3 = (nxt s2)(a := t)" "prv s3 = prv s2" "live s3 = live s2" "rest s3 = rest s2" by blast
  have n: "nxt s3 t = nxt s a" using s1 s2 s3 assms(4) by simp
  have "nxt s a \<in> live s3" using ring_next(2) [OF assms(1)] assms(2) s1(4) s2(4) s3(4) by auto
  from set_prv [OF this] obtain s4 where s4: "set_prv (nxt s a) t s3 = Inr s4"
    "prv s4 = (prv s3)(nxt s a := t)" "nxt s4 = nxt s3" "live s4 = live s3" "rest s4 = rest s3" by blast
  have "ring (nxt s4) (prv s4) (a # t # xs)"
    using ring_insert [OF assms(1,4)] s1 s2 s3 s4 by (simp add: fun_upd_twist)
  moreover have "nxt s4 x = nxt s x \<and> prv s4 x = prv s x" if "x \<noteq> t" "x \<notin> set (a # xs)" for x
  proof -
    have "x \<noteq> nxt s a" using ring_next(2) [OF assms(1)] that(2) by metis
    with that show ?thesis using s1 s2 s3 s4 by simp
  qed
  ultimately show ?thesis using s1 s2 s3 s4 n by simp
qed

text \<open>The order of assignments of \<open>ucreate\<close> and \<open>co_start\<close>.\<close>

lemma insert_after':
  assumes "ring (nxt s) (prv s) (a # xs)" and "set (a # xs) \<subseteq> live s" and "t \<in> live s" and "t \<notin> set (a # xs)"
  shows "\<exists>s'. bindR (set_nxt t (nxt s a) s) (\<lambda>s1. bindR (set_prv t a s1) (\<lambda>s2.
      bindR (set_prv (nxt s2 a) t s2) (\<lambda>s3. set_nxt a t s3))) = Inr s' \<and>
    ring (nxt s') (prv s') (a # t # xs) \<and> live s' = live s \<and> rest s' = rest s \<and>
    (\<forall>x. x \<noteq> t \<longrightarrow> x \<notin> set (a # xs) \<longrightarrow> nxt s' x = nxt s x \<and> prv s' x = prv s x)"
proof -
  from set_nxt [OF assms(3)] obtain s1 where s1: "set_nxt t (nxt s a) s = Inr s1"
    "nxt s1 = (nxt s)(t := nxt s a)" "prv s1 = prv s" "live s1 = live s" "rest s1 = rest s" by blast
  have "t \<in> live s1" using assms(3) s1(4) by simp
  from set_prv [OF this] obtain s2 where s2: "set_prv t a s1 = Inr s2"
    "prv s2 = (prv s1)(t := a)" "nxt s2 = nxt s1" "live s2 = live s1" "rest s2 = rest s1" by blast
  have n: "nxt s2 a = nxt s a" using s1 s2 assms(4) by auto
  have "nxt s a \<in> live s2" using ring_next(2) [OF assms(1)] assms(2) s1(4) s2(4) by auto
  from set_prv [OF this] obtain s3 where s3: "set_prv (nxt s a) t s2 = Inr s3"
    "prv s3 = (prv s2)(nxt s a := t)" "nxt s3 = nxt s2" "live s3 = live s2" "rest s3 = rest s2" by blast
  have "a \<in> live s3" using assms(2) s1(4) s2(4) s3(4) by simp
  from set_nxt [OF this] obtain s4 where s4: "set_nxt a t s3 = Inr s4"
    "nxt s4 = (nxt s3)(a := t)" "prv s4 = prv s3" "live s4 = live s3" "rest s4 = rest s3" by blast
  have "ring (nxt s4) (prv s4) (a # t # xs)"
    using ring_insert [OF assms(1,4)] s1 s2 s3 s4 by (simp add: fun_upd_twist)
  moreover have "nxt s4 x = nxt s x \<and> prv s4 x = prv s x" if "x \<noteq> t" "x \<notin> set (a # xs)" for x
  proof -
    have "x \<noteq> nxt s a" using ring_next(2) [OF assms(1)] that(2) by metis
    with that show ?thesis using s1 s2 s3 s4 by simp
  qed
  ultimately show ?thesis using s1 s2 s3 s4 n by simp
qed

text \<open>Unlinking \<open>t\<close>: first the successor's \<open>prev\<close>, then the predecessor's \<open>next\<close>.\<close>

lemma unlink:
  assumes "ring (nxt s) (prv s) (t # xs)" and "xs \<noteq> []" and "set (t # xs) \<subseteq> live s"
  shows "\<exists>s'. bindR (set_prv (nxt s t) (prv s t) s) (\<lambda>s1. set_nxt (prv s1 t) (nxt s1 t) s1) = Inr s' \<and>
    ring (nxt s') (prv s') xs \<and> live s' = live s \<and> rest s' = rest s \<and>
    (\<forall>x. x \<notin> set (t # xs) \<longrightarrow> nxt s' x = nxt s x \<and> prv s' x = prv s x)"
proof -
  have d: "distinct (t # xs)" using assms(1) by (simp add: ring_def)
  have nt: "nxt s t \<in> set xs" using ring_next(1) [OF assms(1)] assms(2) by (cases xs) auto
  have pt: "prv s t \<in> set xs" using ring_prev(1) [OF assms(1)] assms(2) by simp
  have "nxt s t \<in> live s" using nt assms(3) by auto
  from set_prv [OF this] obtain s1 where s1: "set_prv (nxt s t) (prv s t) s = Inr s1"
    "prv s1 = (prv s)(nxt s t := prv s t)" "nxt s1 = nxt s" "live s1 = live s" "rest s1 = rest s" by blast
  have p1: "prv s1 t = prv s t" using s1(2) nt d by auto
  have "prv s t \<in> live s1" using pt assms(3) s1(4) by auto
  from set_nxt [OF this] obtain s2 where s2: "set_nxt (prv s t) (nxt s t) s1 = Inr s2"
    "nxt s2 = (nxt s1)(prv s t := nxt s t)" "prv s2 = prv s1" "live s2 = live s1" "rest s2 = rest s1" by blast
  have "nxt s2 x = nxt s x \<and> prv s2 x = prv s x" if "x \<notin> set (t # xs)" for x
  proof -
    have "x \<noteq> nxt s t" "x \<noteq> prv s t" using nt pt that by auto
    then show ?thesis using s1 s2 by simp
  qed
  then show ?thesis using ring_remove [OF assms(1,2)] s1 s2 p1 by simp
qed

text \<open>Unlinking in the order of \<open>co_wait\<close>.\<close>

lemma unlink':
  assumes "ring (nxt s) (prv s) (t # xs)" and "xs \<noteq> []" and "set (t # xs) \<subseteq> live s"
  shows "\<exists>s'. bindR (set_nxt (prv s t) (nxt s t) s) (\<lambda>s1. set_prv (nxt s1 t) (prv s1 t) s1) = Inr s' \<and>
    ring (nxt s') (prv s') xs \<and> live s' = live s \<and> rest s' = rest s \<and>
    (\<forall>x. x \<notin> set (t # xs) \<longrightarrow> nxt s' x = nxt s x \<and> prv s' x = prv s x)"
proof -
  have d: "distinct (t # xs)" using assms(1) by (simp add: ring_def)
  have nt: "nxt s t \<in> set xs" using ring_next(1) [OF assms(1)] assms(2) by (cases xs) auto
  have pt: "prv s t \<in> set xs" using ring_prev(1) [OF assms(1)] assms(2) by simp
  have "prv s t \<in> live s" using pt assms(3) by auto
  from set_nxt [OF this] obtain s1 where s1: "set_nxt (prv s t) (nxt s t) s = Inr s1"
    "nxt s1 = (nxt s)(prv s t := nxt s t)" "prv s1 = prv s" "live s1 = live s" "rest s1 = rest s" by blast
  have p1: "nxt s1 t = nxt s t" using s1(2) pt d by auto
  have "nxt s t \<in> live s1" using nt assms(3) s1(4) by auto
  from set_prv [OF this] obtain s2 where s2: "set_prv (nxt s t) (prv s t) s1 = Inr s2"
    "prv s2 = (prv s1)(nxt s t := prv s t)" "nxt s2 = nxt s1" "live s2 = live s1" "rest s2 = rest s1" by blast
  have "nxt s2 x = nxt s x \<and> prv s2 x = prv s x" if "x \<notin> set (t # xs)" for x
  proof -
    have "x \<noteq> nxt s t" "x \<noteq> prv s t" using nt pt that by auto
    then show ?thesis using s1 s2 by simp
  qed
  then show ?thesis using ring_remove [OF assms(1,2)] s1 s2 p1 by simp
qed

end

end
