(* ===== verification/Kmt.thy ===== *)
theory Kmt
  imports Ring Vme
begin

text \<open>
  The kernel's state and its multithreading module: the global variables of
  \<open>kernel/include/common.h\<close> and the operations of \<open>kernel/src/kmt.c\<close>.

  The \<open>task\<close> structures live in a typed store from addresses; an access to an address
  without a task is the failure \<open>Null_Deref\<close>.  Arrays indexed by CPU are functions of the
  CPU number, which \<open>cpu_current()\<close> keeps below \<open>cpu_count() \<le> MAX_CPU\<close>; every operation
  takes the number \<open>c\<close> of the CPU that runs it.  Memory that \<open>pmm->alloc\<close> returns is not
  initialised: the contents of a fresh task are the argument \<open>junk\<close>.
\<close>

section \<open>Data\<close>

datatype status = RUNNING | SLEEPING | WAITING | ZOMBIE

record task =
  t_name :: string
  t_entry :: addr
  t_context :: "Context list"
  t_nc :: int
  t_next :: addr
  t_prev :: addr
  t_status :: status
  t_pid :: int
  t_children :: addr
  t_parent :: addr
  t_bros :: addr
  t_nchildren :: int
  t_excode :: int
  t_np :: int
  t_npneed :: int
  t_va :: "addr list"
  t_pa :: "addr list"
  t_as :: AddrSpace

definition sizeof_task :: u64 where "sizeof_task = 5944"

record spinlock =
  sl_name :: string
  sl_flag :: u32

record semaphore =
  sem_lk :: lock_t
  sem_value :: int
  sem_name :: string

record kernel =
  mem :: pmm
  tasks :: "addr \<Rightarrow> task option"
  curTask :: "nat \<Rightarrow> addr"
  numTask :: "nat \<Rightarrow> int"
  currents :: "nat \<Rightarrow> addr"
  locks :: "nat \<Rightarrow> spinlock"
  glock :: lock_t
  cpurec :: nat
  intenb :: "nat \<Rightarrow> bool"
  nest :: "nat \<Rightarrow> int"
  ien :: "nat \<Rightarrow> bool"
  pidtables :: "int \<Rightarrow> addr"
  pidrec :: int
  cpu_count :: nat
  kernel_pt :: addr
  console :: "u8 list"

section \<open>Tasks in memory\<close>

definition get_task :: "addr \<Rightarrow> kernel \<Rightarrow> task result" where
  "get_task p s = (case tasks s p of None \<Rightarrow> Inl Null_Deref | Some t \<Rightarrow> Inr t)"

definition upd_task :: "addr \<Rightarrow> (task \<Rightarrow> task) \<Rightarrow> kernel \<Rightarrow> kernel result" where
  "upd_task p f s = (case tasks s p of None \<Rightarrow> Inl Null_Deref
     | Some t \<Rightarrow> Inr (s\<lparr>tasks := (tasks s)(p \<mapsto> f t)\<rparr>))"

definition set_next :: "addr \<Rightarrow> addr \<Rightarrow> kernel \<Rightarrow> kernel result" where
  "set_next p v = upd_task p (\<lambda>t. t\<lparr>t_next := v\<rparr>)"

definition set_prev :: "addr \<Rightarrow> addr \<Rightarrow> kernel \<Rightarrow> kernel result" where
  "set_prev p v = upd_task p (\<lambda>t. t\<lparr>t_prev := v\<rparr>)"

text \<open>\<open>pmm->alloc\<close> on CPU \<open>c\<close>, and the allocation of a task structure.\<close>

definition kernel_alloc :: "nat \<Rightarrow> u64 \<Rightarrow> kernel \<Rightarrow> (addr \<times> kernel) result" where
  "kernel_alloc c n s =
     bindR (safe_kalloc n (ien s c, mem s)) (\<lambda>(p, i, m).
     Inr (p, s\<lparr>mem := m, ien := (ien s)(c := i)\<rparr>))"

definition kernel_free :: "nat \<Rightarrow> addr \<Rightarrow> kernel \<Rightarrow> kernel result" where
  "kernel_free c p s =
     bindR (safe_kfree p (ien s c, mem s)) (\<lambda>(i, m).
     Inr (s\<lparr>mem := m, ien := (ien s)(c := i), tasks := (tasks s)(p := None)\<rparr>))"

definition task_alloc :: "(addr \<Rightarrow> task) \<Rightarrow> nat \<Rightarrow> kernel \<Rightarrow> (addr \<times> kernel) result" where
  "task_alloc junk c s =
     bindR (kernel_alloc c sizeof_task s) (\<lambda>(p, s').
     Inr (p, if p = NULL then s' else s'\<lparr>tasks := (tasks s')(p \<mapsto> junk p)\<rparr>))"

section \<open>Spin locks\<close>

definition spin_init :: "nat \<Rightarrow> string \<Rightarrow> kernel \<Rightarrow> kernel" where
  "spin_init l name s = s\<lparr>locks := (locks s)(l := \<lparr>sl_name = name, sl_flag = 0\<rparr>)\<rparr>"

definition spin_lock :: "nat \<Rightarrow> nat \<Rightarrow> kernel \<Rightarrow> kernel result" where
  "spin_lock c l s =
     (let i = ien s c;
          s1 = s\<lparr>ien := (ien s)(c := False), nest := (nest s)(c := nest s c + 1)\<rparr>
      in if nest s1 c = 1 then
           let s2 = s1\<lparr>intenb := (intenb s1)(c := i)\<rparr> in
           bindR (lock_wait \<lparr>flag = sl_flag (locks s2 l)\<rparr>) (\<lambda>m.
           Inr (s2\<lparr>locks := (locks s2)(l := (locks s2 l)\<lparr>sl_flag := flag m\<rparr>)\<rparr>))
         else Inr s1)"

definition spin_unlock :: "nat \<Rightarrow> nat \<Rightarrow> kernel \<Rightarrow> kernel result" where
  "spin_unlock c l s =
     (let s1 = s\<lparr>nest := (nest s)(c := nest s c - 1)\<rparr> in
      bindR (guardR Assert_Fail (nest s1 c \<ge> 0)) (\<lambda>_.
        if nest s1 c = 0 then
          let s2 = s1\<lparr>locks := (locks s1)(l := (locks s1 l)\<lparr>sl_flag := 0\<rparr>)\<rparr> in
          bindR (guardR Assert_Fail (\<not> ien s2 c)) (\<lambda>_.
          Inr (if intenb s2 c then s2\<lparr>ien := (ien s2)(c := True)\<rparr> else s2))
        else Inr s1))"

section \<open>Initialisation\<close>

text \<open>The first loop of \<open>k_init\<close> over the CPUs \<open>is\<close>: one idle task per CPU, whose entry is
  \<open>os->run\<close>.  The field \<open>status\<close> is not assigned.\<close>

fun k_init_idles :: "(addr \<Rightarrow> task) \<Rightarrow> addr \<Rightarrow> nat \<Rightarrow> nat list \<Rightarrow> kernel \<Rightarrow> kernel result" where
  "k_init_idles junk os_run c [] s = Inr s"
| "k_init_idles junk os_run c (i # is) s =
     bindR (task_alloc junk c s) (\<lambda>(idle, s1).
     bindR (upd_task idle (\<lambda>t. t\<lparr>t_name := ''idle'', t_entry := os_run, t_next := idle,
              t_prev := idle, t_nc := 0\<rparr>) s1) (\<lambda>s2.
     k_init_idles junk os_run c is
       (s2\<lparr>curTask := (curTask s2)(i := idle), numTask := (numTask s2)(i := 1),
           currents := (currents s2)(i := idle)\<rparr>)))"

fun k_init_locks :: "nat list \<Rightarrow> kernel \<Rightarrow> kernel" where
  "k_init_locks [] s = s"
| "k_init_locks (i # is) s =
     k_init_locks is ((spin_init i ''cpulock'' s)\<lparr>nest := (nest s)(i := 0)\<rparr>)"

definition k_init :: "(addr \<Rightarrow> task) \<Rightarrow> addr \<Rightarrow> nat \<Rightarrow> kernel \<Rightarrow> kernel result" where
  "k_init junk os_run c s =
     bindR (k_init_idles junk os_run c [0..<cpu_count s] s) (\<lambda>s1.
       let s2 = k_init_locks [0..<cpu_count s1] s1
       in Inr (s2\<lparr>cpurec := 0, glock := lockinit (glock s2)\<rparr>))"

section \<open>Threads\<close>

text \<open>\<open>start\<close> is the address of \<open>__am_kcontext_start\<close>.\<close>

definition kcreate ::
    "addr \<Rightarrow> nat \<Rightarrow> addr \<Rightarrow> string \<Rightarrow> addr \<Rightarrow> u64 \<Rightarrow> kernel \<Rightarrow> (int \<times> kernel) result" where
  "kcreate start c tp name entry arg s =
     bindR (get_task tp s) (\<lambda>t0.
     bindR (arr_set (t_context t0) 0 (kcontext start (tp + sizeof_task) entry arg)) (\<lambda>ctxs.
     bindR (upd_task tp (\<lambda>t. t\<lparr>t_name := name, t_entry := entry, t_context := ctxs, t_nc := 1,
              t_status := RUNNING\<rparr>) s) (\<lambda>s1.
     bindR (spin_lock c c s1) (\<lambda>s2.
     bindR (lock_wait (glock s2)) (\<lambda>g.
     let cpu = cpurec s2;
         s3 = s2\<lparr>glock := g, cpurec := (cpurec s2 + 1) mod cpu_count s2,
                  numTask := (numTask s2)(cpu := numTask s2 cpu + 1)\<rparr> in
     bindR (get_task (currents s3 cpu) s3) (\<lambda>cur.
     bindR (set_next tp (t_next cur) s3) (\<lambda>s4.
     bindR (set_prev tp (currents s4 cpu) s4) (\<lambda>s5.
     bindR (set_next (currents s5 cpu) tp s5) (\<lambda>s6.
     bindR (get_task tp s6) (\<lambda>t.
     bindR (set_prev (t_next t) tp s6) (\<lambda>s7.
     bindR (spin_unlock c c (s7\<lparr>glock := unlock (glock s7)\<rparr>)) (\<lambda>s8.
     Inr (1, s8)))))))))))))"

definition kteardown :: "nat \<Rightarrow> addr \<Rightarrow> kernel \<Rightarrow> kernel result" where
  "kteardown c tp s =
     bindR (spin_lock c c s) (\<lambda>s1.
     bindR (get_task tp s1) (\<lambda>t.
     bindR (set_prev (t_next t) (t_prev t) s1) (\<lambda>s2.
     bindR (get_task tp s2) (\<lambda>t.
     bindR (set_next (t_prev t) (t_next t) s2) (\<lambda>s3.
     bindR (spin_unlock c c s3) (\<lambda>s4.
     kernel_free c tp s4))))))"

section \<open>Semaphores\<close>

definition sem_init :: "string \<Rightarrow> int \<Rightarrow> semaphore \<Rightarrow> semaphore" where
  "sem_init name value sem =
     sem\<lparr>sem_lk := lockinit (sem_lk sem), sem_value := value, sem_name := name\<rparr>"

text \<open>One iteration of the loop of \<open>sem_wait\<close>, without the \<open>yield\<close>.\<close>

definition sem_try :: "semaphore \<Rightarrow> (bool \<times> semaphore) result" where
  "sem_try sem =
     bindR (lock_wait (sem_lk sem)) (\<lambda>m.
       if sem_value sem > 0
       then Inr (True, sem\<lparr>sem_lk := unlock m, sem_value := sem_value sem - 1\<rparr>)
       else Inr (False, sem\<lparr>sem_lk := unlock m\<rparr>))"

text \<open>\<open>env\<close> is what the other threads do to the semaphore during a \<open>yield\<close>.\<close>

partial_function (option) sem_wait ::
    "(semaphore \<Rightarrow> semaphore) \<Rightarrow> semaphore \<Rightarrow> semaphore result option" where
  "sem_wait env sem =
     (case sem_try sem of
        Inl e \<Rightarrow> Some (Inl e)
      | Inr (acquire, sem') \<Rightarrow> if acquire then Some (Inr sem') else sem_wait env (env sem'))"

definition sem_signal :: "semaphore \<Rightarrow> semaphore result" where
  "sem_signal sem =
     bindR (lock_wait (sem_lk sem)) (\<lambda>m.
     bindR (guardR Undefined_Behaviour (sem_value sem < 2 ^ 31 - 1)) (\<lambda>_.
     Inr (sem\<lparr>sem_lk := unlock m, sem_value := sem_value sem + 1\<rparr>)))"

end
