(* ===== verification/KmtProofs.thy ===== *)
theory KmtProofs
  imports Kmt PmmProofs
begin

text \<open>
  Correctness of \<open>kmt.c\<close>: spin locks with their nesting counter and interrupt flag, the task
  rings that \<open>kcreate\<close> and \<open>kteardown\<close> maintain, and semaphores.
\<close>

section \<open>Task rings\<close>

definition nxt :: "kernel \<Rightarrow> addr \<Rightarrow> addr" where
  "nxt s p = (case tasks s p of None \<Rightarrow> NULL | Some t \<Rightarrow> t_next t)"

definition prv :: "kernel \<Rightarrow> addr \<Rightarrow> addr" where
  "prv s p = (case tasks s p of None \<Rightarrow> NULL | Some t \<Rightarrow> t_prev t)"

text \<open>Everything but the links.\<close>

definition unlinked :: "task \<Rightarrow> task" where
  "unlinked t = t\<lparr>t_next := NULL, t_prev := NULL\<rparr>"

definition links_apart :: "kernel \<Rightarrow> kernel" where
  "links_apart s = s\<lparr>tasks := map_option unlinked \<circ> tasks s\<rparr>"

lemma get_task_Some [simp]: "tasks s p = Some t \<Longrightarrow> get_task p s = Inr t"
  by (simp add: get_task_def)

lemma upd_task_Some [simp]: "tasks s p = Some t \<Longrightarrow> upd_task p f s = Inr (s\<lparr>tasks := (tasks s)(p \<mapsto> f t)\<rparr>)"
  by (simp add: upd_task_def)

interpretation task_ring: ring_store nxt prv set_next set_prev "\<lambda>s. dom (tasks s)" links_apart
proof (unfold_locales, goal_cases)
  case (1 p s v)
  then obtain t where t: "tasks s p = Some t" by blast
  show ?case
    by (rule exI [of _ "s\<lparr>tasks := (tasks s)(p \<mapsto> t\<lparr>t_next := v\<rparr>)\<rparr>"])
      (use t in \<open>auto simp: set_next_def nxt_def prv_def links_apart_def unlinked_def fun_eq_iff\<close>)
next
  case (2 p s v)
  then obtain t where t: "tasks s p = Some t" by blast
  show ?case
    by (rule exI [of _ "s\<lparr>tasks := (tasks s)(p \<mapsto> t\<lparr>t_prev := v\<rparr>)\<rparr>"])
      (use t in \<open>auto simp: set_prev_def nxt_def prv_def links_apart_def unlinked_def fun_eq_iff\<close>)
qed

lemma get_task_nxt: "tasks s p = Some t \<Longrightarrow> t_next t = nxt s p" "tasks s p = Some t \<Longrightarrow> t_prev t = prv s p"
  by (simp_all add: nxt_def prv_def)

text \<open>What the same \<open>links_apart\<close> gives back.\<close>

lemma links_apart_eq:
  assumes "links_apart s' = links_apart s"
  shows "mem s' = mem s" "curTask s' = curTask s" "numTask s' = numTask s" "currents s' = currents s"
    "locks s' = locks s" "glock s' = glock s" "cpurec s' = cpurec s" "intenb s' = intenb s"
    "nest s' = nest s" "ien s' = ien s" "pidtables s' = pidtables s" "pidrec s' = pidrec s"
    "cpu_count s' = cpu_count s" "kernel_pt s' = kernel_pt s" "console s' = console s"
    "map_option unlinked (tasks s' p) = map_option unlinked (tasks s p)"
proof -
  note e = arg_cong [OF assms, of mem] arg_cong [OF assms, of curTask] arg_cong [OF assms, of numTask]
    arg_cong [OF assms, of currents] arg_cong [OF assms, of locks] arg_cong [OF assms, of glock]
    arg_cong [OF assms, of cpurec] arg_cong [OF assms, of intenb] arg_cong [OF assms, of nest]
    arg_cong [OF assms, of ien] arg_cong [OF assms, of pidtables] arg_cong [OF assms, of pidrec]
    arg_cong [OF assms, of cpu_count] arg_cong [OF assms, of kernel_pt] arg_cong [OF assms, of console]
    arg_cong [OF assms, of "\<lambda>s. tasks s p"]
  then show "mem s' = mem s" "curTask s' = curTask s" "numTask s' = numTask s" "currents s' = currents s"
    "locks s' = locks s" "glock s' = glock s" "cpurec s' = cpurec s" "intenb s' = intenb s"
    "nest s' = nest s" "ien s' = ien s" "pidtables s' = pidtables s" "pidrec s' = pidrec s"
    "cpu_count s' = cpu_count s" "kernel_pt s' = kernel_pt s" "console s' = console s"
    "map_option unlinked (tasks s' p) = map_option unlinked (tasks s p)"
    by (simp_all add: links_apart_def)
qed

lemma links_apart_task:
  assumes "links_apart s' = links_apart s" and "tasks s p = Some t"
  shows "\<exists>t'. tasks s' p = Some t' \<and> unlinked t' = unlinked t"
  using links_apart_eq(16) [OF assms(1), of p] assms(2) by (cases "tasks s' p") auto

lemma unlinked_eq:
  assumes "unlinked t' = unlinked t"
  shows "t_name t' = t_name t" "t_entry t' = t_entry t" "t_context t' = t_context t" "t_nc t' = t_nc t"
    "t_status t' = t_status t" "t_pid t' = t_pid t" "t_np t' = t_np t" "t_as t' = t_as t"
    "t_children t' = t_children t" "t_parent t' = t_parent t" "t_bros t' = t_bros t"
    "t_nchildren t' = t_nchildren t" "t_excode t' = t_excode t" "t_va t' = t_va t" "t_pa t' = t_pa t"
  using arg_cong [OF assms, of t_name] arg_cong [OF assms, of t_entry] arg_cong [OF assms, of t_context]
    arg_cong [OF assms, of t_nc] arg_cong [OF assms, of t_status] arg_cong [OF assms, of t_pid]
    arg_cong [OF assms, of t_np] arg_cong [OF assms, of t_as] arg_cong [OF assms, of t_children]
    arg_cong [OF assms, of t_parent] arg_cong [OF assms, of t_bros] arg_cong [OF assms, of t_nchildren]
    arg_cong [OF assms, of t_excode] arg_cong [OF assms, of t_va] arg_cong [OF assms, of t_pa]
  by (simp_all add: unlinked_def)

text \<open>The rings \<open>R c\<close> of the CPUs: each holds the CPU's current task, and they are disjoint.\<close>

definition rings :: "kernel \<Rightarrow> (nat \<Rightarrow> addr list) \<Rightarrow> bool" where
  "rings s R \<longleftrightarrow>
     (\<forall>c<cpu_count s. ring (nxt s) (prv s) (R c) \<and> curTask s c \<in> set (R c) \<and>
        currents s c \<in> set (R c) \<and> set (R c) \<subseteq> dom (tasks s)) \<and>
     (\<forall>c<cpu_count s. \<forall>c'<cpu_count s. c \<noteq> c' \<longrightarrow> set (R c) \<inter> set (R c') = {})"

lemma ringsD:
  assumes "rings s R" and "c < cpu_count s"
  shows "ring (nxt s) (prv s) (R c)" "curTask s c \<in> set (R c)" "currents s c \<in> set (R c)"
    "set (R c) \<subseteq> dom (tasks s)" "\<And>c'. c' < cpu_count s \<Longrightarrow> c' \<noteq> c \<Longrightarrow> set (R c) \<inter> set (R c') = {}"
  using assms unfolding rings_def by blast+

text \<open>Replacing one ring, when the links of the others did not change.\<close>

lemma rings_update:
  assumes r: "rings s R" and "k < cpu_count s" and "cpu_count s' = cpu_count s"
    and "ring (nxt s') (prv s') zs" and "set zs \<subseteq> dom (tasks s')" and "dom (tasks s) \<subseteq> dom (tasks s')"
    and "curTask s' k \<in> set zs" and "currents s' k \<in> set zs"
    and cur: "\<And>c. c < cpu_count s \<Longrightarrow> c \<noteq> k \<Longrightarrow> curTask s' c = curTask s c \<and> currents s' c = currents s c"
    and new: "\<And>c. c < cpu_count s \<Longrightarrow> c \<noteq> k \<Longrightarrow> set (R c) \<inter> set zs = {}"
    and lnk: "\<And>c x. c < cpu_count s \<Longrightarrow> c \<noteq> k \<Longrightarrow> x \<in> set (R c) \<Longrightarrow> nxt s' x = nxt s x \<and> prv s' x = prv s x"
  shows "rings s' (R(k := zs))"
  unfolding rings_def
proof (intro conjI allI impI)
  fix c assume c: "c < cpu_count s'"
  have other: "ring (nxt s') (prv s') (R c)" if "c \<noteq> k"
  proof -
    have "ring (nxt s') (prv s') (R c) = ring (nxt s) (prv s) (R c)"
      by (rule ring_cong) (use lnk [of c] c that assms(3) in auto)
    then show ?thesis using ringsD(1) [OF r, of c] c assms(3) by simp
  qed
  show "ring (nxt s') (prv s') ((R(k := zs)) c)" using other assms(4) by simp
  show "curTask s' c \<in> set ((R(k := zs)) c)"
    using ringsD(2) [OF r, of c] cur [of c] c assms(3,7) by auto
  show "currents s' c \<in> set ((R(k := zs)) c)"
    using ringsD(3) [OF r, of c] cur [of c] c assms(3,8) by auto
  have "c \<noteq> k \<Longrightarrow> set (R c) \<subseteq> dom (tasks s')"
    using subset_trans [OF ringsD(4) [OF r, of c] assms(6)] c assms(3) by simp
  then show "set ((R(k := zs)) c) \<subseteq> dom (tasks s')" using assms(5) by simp
next
  fix c c' assume c: "c < cpu_count s'" "c' < cpu_count s'" "c \<noteq> c'"
  show "set ((R(k := zs)) c) \<inter> set ((R(k := zs)) c') = {}"
    using ringsD(5) [OF r, of c c'] new [of c] new [of c'] c assms(3) by auto
qed

section \<open>Spin locks\<close>

lemma spin_lock_free:
  assumes "nest s c = 0" and "sl_flag (locks s l) = 0"
  shows "spin_lock c l s = Inr (s\<lparr>ien := (ien s)(c := False), nest := (nest s)(c := 1),
    intenb := (intenb s)(c := ien s c), locks := (locks s)(l := (locks s l)\<lparr>sl_flag := 1\<rparr>)\<rparr>)"
  using assms by (simp add: spin_lock_def Let_def)

lemma spin_lock_nested:
  assumes "0 < nest s c"
  shows "spin_lock c l s = Inr (s\<lparr>ien := (ien s)(c := False), nest := (nest s)(c := nest s c + 1)\<rparr>)"
  using assms by (simp add: spin_lock_def Let_def)

lemma spin_unlock_last:
  assumes "nest s c = 1" and "\<not> ien s c"
  shows "spin_unlock c l s = Inr (s\<lparr>nest := (nest s)(c := 0),
    locks := (locks s)(l := (locks s l)\<lparr>sl_flag := 0\<rparr>), ien := (ien s)(c := intenb s c)\<rparr>)"
  using assms by (simp add: spin_unlock_def Let_def fun_upd_idem)

lemma spin_unlock_nested:
  assumes "1 < nest s c"
  shows "spin_unlock c l s = Inr (s\<lparr>nest := (nest s)(c := nest s c - 1)\<rparr>)"
  using assms by (simp add: spin_unlock_def Let_def)

section \<open>Creating and removing threads\<close>

lemma ring_member:
  assumes "ring nx pv zs" and "a \<in> set zs"
  obtains xs ys where "zs = xs @ a # ys" "ring nx pv (a # ys @ xs)"
proof -
  obtain xs ys where z: "zs = xs @ a # ys" using split_list [OF assms(2)] by blast
  then have "ring nx pv (a # ys @ xs)" using ring_rotate [of nx pv xs "a # ys"] assms(1) by simp
  with z that show thesis by blast
qed

text \<open>The four assignments of \<open>kcreate\<close> that link the new task behind the current one.\<close>

lemma kcreate_link:
  assumes "ring (nxt s) (prv s) (a # xs)" and "set (a # xs) \<subseteq> dom (tasks s)" and "tp \<in> dom (tasks s)"
    and "tp \<notin> set (a # xs)" and a: "currents s k = a"
  shows "\<exists>s1. bindR (get_task (currents s k) s) (\<lambda>cur.
      bindR (set_next tp (t_next cur) s) (\<lambda>s4. bindR (set_prev tp (currents s4 k) s4) (\<lambda>s5.
      bindR (set_next (currents s5 k) tp s5) (\<lambda>s6. bindR (get_task tp s6) (\<lambda>t.
      bindR (set_prev (t_next t) tp s6) K))))) = K s1 \<and>
    ring (nxt s1) (prv s1) (a # tp # xs) \<and> dom (tasks s1) = dom (tasks s) \<and> links_apart s1 = links_apart s \<and>
    (\<forall>x. x \<noteq> tp \<longrightarrow> x \<notin> set (a # xs) \<longrightarrow> nxt s1 x = nxt s x \<and> prv s1 x = prv s x)"
proof -
  from task_ring.insert_after [OF assms(1-4)] obtain s7 where
    e: "bindR (set_next tp (nxt s a) s) (\<lambda>s1. bindR (set_prev tp a s1) (\<lambda>s2.
      bindR (set_next a tp s2) (\<lambda>s3. set_prev (nxt s3 tp) tp s3))) = Inr s7"
    and r: "ring (nxt s7) (prv s7) (a # tp # xs)" "dom (tasks s7) = dom (tasks s)" "links_apart s7 = links_apart s"
      "\<forall>x. x \<noteq> tp \<longrightarrow> x \<notin> set (a # xs) \<longrightarrow> nxt s7 x = nxt s x \<and> prv s7 x = prv s x"
    by blast
  from e obtain s4 s5 s6 where st: "set_next tp (nxt s a) s = Inr s4" "set_prev tp a s4 = Inr s5"
    "set_next a tp s5 = Inr s6" "set_prev (nxt s6 tp) tp s6 = Inr s7"
    unfolding bindR_Inr_iff by blast
  obtain ta where ta: "tasks s a = Some ta" using assms(2) by auto
  have cur: "currents s4 k = a" "currents s5 k = a"
    using st(1,2) a by (auto simp: set_next_def set_prev_def upd_task_def split: option.splits)
  have d: "tp \<in> dom (tasks s6)"
    using st assms(3) by (auto simp: set_next_def set_prev_def upd_task_def split: option.splits)
  then obtain t where t: "tasks s6 tp = Some t" by blast
  have "bindR (get_task (currents s k) s) (\<lambda>cur.
      bindR (set_next tp (t_next cur) s) (\<lambda>s4. bindR (set_prev tp (currents s4 k) s4) (\<lambda>s5.
      bindR (set_next (currents s5 k) tp s5) (\<lambda>s6. bindR (get_task tp s6) (\<lambda>t.
      bindR (set_prev (t_next t) tp s6) K))))) = K s7"
    using ta st cur t by (simp add: a get_task_nxt)
  with r show ?thesis by blast
qed

text \<open>What a CPU needs to run a critical section under its own lock.\<close>

definition cpu_quiet :: "nat \<Rightarrow> kernel \<Rightarrow> bool" where
  "cpu_quiet c s \<longleftrightarrow> nest s c = 0 \<and> sl_flag (locks s c) = 0 \<and> flag (glock s) = 0"

text \<open>C21. \<open>kcreate\<close> puts the new thread into the ring of the next CPU in round-robin order,
  directly behind that CPU's current task, leaves the other rings alone, and returns with the
  locks released and the interrupt flag as it was.\<close>

theorem kcreate_correct:
  assumes r: "rings s R" and c: "c < cpu_count s" and k: "cpurec s < cpu_count s"
    and t0: "tasks s tp = Some t0" and len: "length (t_context t0) = 4"
    and new: "\<forall>i<cpu_count s. tp \<notin> set (R i)" and q: "cpu_quiet c s"
  shows "\<exists>s' t xs ys. kcreate start c tp name entry arg s = Inr (1, s') \<and>
    R (cpurec s) = xs @ currents s (cpurec s) # ys \<and>
    rings s' (R(cpurec s := xs @ currents s (cpurec s) # tp # ys)) \<and>
    tasks s' tp = Some t \<and> t_name t = name \<and> t_status t = RUNNING \<and> t_nc t = 1 \<and>
    t_context t ! 0 = kcontext start (tp + sizeof_task) entry arg \<and>
    cpurec s' = (cpurec s + 1) mod cpu_count s \<and> cpu_quiet c s' \<and> ien s' = ien s \<and>
    numTask s' = (numTask s)(cpurec s := numTask s (cpurec s) + 1)"
proof -
  let ?k = "cpurec s" and ?a = "currents s (cpurec s)"
  let ?ctx = "(t_context t0)[0 := kcontext start (tp + sizeof_task) entry arg]"
  let ?t1 = "t0\<lparr>t_name := name, t_entry := entry, t_context := ?ctx, t_nc := 1, t_status := RUNNING\<rparr>"
  let ?s3 = "s\<lparr>tasks := (tasks s)(tp \<mapsto> ?t1), ien := (ien s)(c := False), nest := (nest s)(c := 1),
    intenb := (intenb s)(c := ien s c), locks := (locks s)(c := (locks s c)\<lparr>sl_flag := 1\<rparr>),
    glock := (glock s)\<lparr>flag := 1\<rparr>, cpurec := (?k + 1) mod cpu_count s,
    numTask := (numTask s)(?k := numTask s ?k + 1)\<rparr>"
  have nx: "nxt ?s3 = nxt s" "prv ?s3 = prv s" using t0 by (auto simp: nxt_def prv_def fun_eq_iff)
  note rk = ringsD [OF r k]
  obtain xs ys where R: "R ?k = xs @ ?a # ys" "ring (nxt s) (prv s) (?a # ys @ xs)"
    by (rule ring_member [OF rk(1,3)])
  have sub: "set (?a # ys @ xs) \<subseteq> dom (tasks ?s3)" using rk(4) R(1) by auto
  have nin: "tp \<notin> set (?a # ys @ xs)" using new k R(1) by auto
  have ring3: "ring (nxt ?s3) (prv ?s3) (?a # ys @ xs)" unfolding nx by (rule R(2))
  have dt: "tp \<in> dom (tasks ?s3)" by simp
  have a3: "currents ?s3 ?k = ?a" by simp
  let ?K = "\<lambda>s7. bindR (spin_unlock c c (s7\<lparr>glock := unlock (glock s7)\<rparr>)) (\<lambda>s8. Inr (1::int, s8))"
  from kcreate_link [OF ring3 sub dt nin a3, of ?K] obtain s1 where
    link: "bindR (get_task (currents ?s3 ?k) ?s3) (\<lambda>cur.
      bindR (set_next tp (t_next cur) ?s3) (\<lambda>s4. bindR (set_prev tp (currents s4 ?k) s4) (\<lambda>s5.
      bindR (set_next (currents s5 ?k) tp s5) (\<lambda>s6. bindR (get_task tp s6) (\<lambda>t.
      bindR (set_prev (t_next t) tp s6) ?K))))) = ?K s1"
    and s1: "ring (nxt s1) (prv s1) (?a # tp # ys @ xs)" "dom (tasks s1) = dom (tasks ?s3)"
      "links_apart s1 = links_apart ?s3"
      "\<forall>x. x \<noteq> tp \<longrightarrow> x \<notin> set (?a # ys @ xs) \<longrightarrow> nxt s1 x = nxt ?s3 x \<and> prv s1 x = prv ?s3 x"
    by blast
  note e1 = links_apart_eq [OF s1(3)]
  have "tasks ?s3 tp = Some ?t1" by simp
  from links_apart_task [OF s1(3) this] obtain t where t: "tasks s1 tp = Some t" "unlinked t = unlinked ?t1" by blast
  let ?s' = "s1\<lparr>glock := glock s, nest := nest s, locks := locks s, ien := ien s\<rparr>"
  have "?K s1 = Inr (1, ?s')"
    using q e1 by (simp add: spin_unlock_last cpu_quiet_def fun_upd_idem)
  moreover have "kcreate start c tp name entry arg s = ?K s1"
    using t0 len q link unfolding kcreate_def cpu_quiet_def
    by (simp add: spin_lock_free Let_def)
  ultimately have run: "kcreate start c tp name entry arg s = Inr (1, ?s')" by simp
  have nx': "nxt ?s' = nxt s1" "prv ?s' = prv s1" by (simp_all add: nxt_def prv_def fun_eq_iff)
  have ring': "ring (nxt ?s') (prv ?s') (xs @ ?a # tp # ys)"
    using ring_rotate [of "nxt s1" "prv s1" "?a # tp # ys" xs] s1(1) by (simp only: nx' append_Cons)
  have dom': "dom (tasks ?s') = dom (tasks s)" using s1(2) t0 by (auto simp: dom_def)
  have "rings ?s' (R(?k := xs @ ?a # tp # ys))"
  proof (rule rings_update [OF r k _ ring'])
    show "set (xs @ ?a # tp # ys) \<subseteq> dom (tasks ?s')" using dom' rk(4) R(1) t0 by auto
    show "curTask ?s' ?k \<in> set (xs @ ?a # tp # ys)" using rk(2) R(1) e1 by auto
    show "currents ?s' ?k \<in> set (xs @ ?a # tp # ys)" using e1 by simp
    fix i assume i: "i < cpu_count s" "i \<noteq> ?k"
    have dis: "set (R i) \<inter> set (?a # ys @ xs) = {}" using ringsD(5) [OF r i(1) k] i(2) R(1) by auto
    then show "set (R i) \<inter> set (xs @ ?a # tp # ys) = {}" using new i(1) by auto
    show "curTask ?s' i = curTask s i \<and> currents ?s' i = currents s i" using e1 by simp
    fix x assume "x \<in> set (R i)"
    then have "x \<noteq> tp" "x \<notin> set (?a # ys @ xs)" using new i(1) dis by auto
    then have "nxt s1 x = nxt s x \<and> prv s1 x = prv s x" using s1(4) nx by simp
    then show "nxt ?s' x = nxt s x \<and> prv ?s' x = prv s x" by (simp add: nxt_def prv_def)
  qed (use e1 dom' in simp_all)
  moreover have "cpu_quiet c ?s'" using q by (simp add: cpu_quiet_def)
  moreover have "t_name t = name \<and> t_status t = RUNNING \<and> t_nc t = 1 \<and>
    t_context t ! 0 = kcontext start (tp + sizeof_task) entry arg"
    using unlinked_eq [OF t(2)] len by simp
  ultimately show ?thesis using run R(1) t(1) e1
    by (intro exI [of _ ?s'] exI [of _ t] exI [of _ xs] exI [of _ ys]) simp
qed

text \<open>A kernel with two CPUs, their idle tasks, and one task that is not yet linked.\<close>

definition demo_task :: "addr \<Rightarrow> task" where
  "demo_task p =
     \<lparr>t_name = ''idle'', t_entry = 0, t_context = replicate 4 zero_context, t_nc = 0, t_next = p, t_prev = p,
      t_status = RUNNING, t_pid = 0, t_children = NULL, t_parent = NULL, t_bros = NULL, t_nchildren = 0,
      t_excode = 0, t_np = 0, t_npneed = 0, t_va = replicate 64 0, t_pa = replicate 64 0,
      t_as = \<lparr>as_pgsize = 4096, as_start = 0, as_end = 0, as_ptr = 0\<rparr>\<rparr>"

definition demo_kernel :: "pmm \<Rightarrow> kernel" where
  "demo_kernel m =
     \<lparr>mem = m, tasks = [0x6042000 \<mapsto> demo_task 0x6042000, 0x6044000 \<mapsto> demo_task 0x6044000,
        0x6046000 \<mapsto> demo_task 0],
      curTask = (\<lambda>_. 0)(0 := 0x6042000, 1 := 0x6044000), numTask = (\<lambda>_. 1),
      currents = (\<lambda>_. 0)(0 := 0x6042000, 1 := 0x6044000),
      locks = (\<lambda>_. \<lparr>sl_name = ''cpulock'', sl_flag = 0\<rparr>), glock = \<lparr>flag = 0\<rparr>, cpurec = 1,
      intenb = (\<lambda>_. False), nest = (\<lambda>_. 0), ien = (\<lambda>_. True), pidtables = (\<lambda>_. NULL), pidrec = 1,
      cpu_count = 2, kernel_pt = PML4_ADDR, console = []\<rparr>"

definition demo_rings :: "nat \<Rightarrow> addr list" where
  "demo_rings c = (if c = 0 then [0x6042000] else [0x6044000])"

lemma demo_rings_ok: "rings (demo_kernel m) demo_rings"
  by (simp add: rings_def demo_rings_def demo_kernel_def demo_task_def ring_single nxt_def prv_def less_2_cases_iff)

theorem kcreate_correct_witness:
  "\<exists>s' t. kcreate 0x100400 0 0x6046000 ''a'' 0x100500 7 (demo_kernel qemu_heap) = Inr (1, s') \<and>
     rings s' (demo_rings(1 := [0x6044000, 0x6046000])) \<and> tasks s' 0x6046000 = Some t \<and>
     t_status t = RUNNING \<and> cpurec s' = 0"
proof -
  let ?s = "demo_kernel qemu_heap"
  have d: "cpu_count ?s = 2" "cpurec ?s = 1" "tasks ?s 0x6046000 = Some (demo_task 0)"
    "currents ?s 1 = 0x6044000" "length (t_context (demo_task 0)) = 4" "demo_rings 1 = [0x6044000]"
    "cpu_quiet 0 ?s"
    by (simp_all add: demo_kernel_def demo_task_def demo_rings_def cpu_quiet_def)
  have new: "\<forall>i<cpu_count ?s. 0x6046000 \<notin> set (demo_rings i)" by (simp add: demo_rings_def)
  from kcreate_correct [where start = "0x100400" and name = "''a''" and entry = "0x100500" and arg = "7",
      OF demo_rings_ok _ _ d(3,5) new d(7)]
  obtain s' t xs ys where k: "kcreate 0x100400 0 0x6046000 ''a'' 0x100500 7 ?s = Inr (1, s')"
    "demo_rings 1 = xs @ currents ?s 1 # ys" "rings s' (demo_rings(1 := xs @ currents ?s 1 # 0x6046000 # ys))"
    "tasks s' 0x6046000 = Some t" "t_status t = RUNNING" "cpurec s' = (1 + 1) mod cpu_count ?s"
    using d(1,2) by auto
  have "xs = [] \<and> ys = []" using k(2) d(4,6) by (cases xs) auto
  with k d show ?thesis by (intro exI [of _ s'] exI [of _ t]) simp
qed

text \<open>C22. \<open>kteardown\<close> of a task of this CPU's ring that is not its current one unlinks it,
  leaves every other link alone, and gives its memory back to the allocator.\<close>

theorem kteardown_correct:
  assumes r: "rings s R" and c: "c < cpu_count s" and tp: "R c = xs @ tp # ys"
    and cur: "curTask s c \<noteq> tp" "currents s c \<noteq> tp" and q: "cpu_quiet c s"
    and m: "pmm_abs (mem s) F" "tp \<in> zone_blocks (mem s) 9" "tp \<notin> set (F 9)"
  shows "\<exists>s'. kteardown c tp s = Inr s' \<and> rings s' (R(c := xs @ ys)) \<and> tasks s' tp = None \<and>
    pmm_abs (mem s') (F(9 := tp # F 9)) \<and> cpu_quiet c s' \<and> ien s' = ien s"
proof -
  let ?s1 = "s\<lparr>ien := (ien s)(c := False), nest := (nest s)(c := 1),
    intenb := (intenb s)(c := ien s c), locks := (locks s)(c := (locks s c)\<lparr>sl_flag := 1\<rparr>)\<rparr>"
  have nx1: "nxt ?s1 = nxt s" "prv ?s1 = prv s" by (simp_all add: nxt_def prv_def fun_eq_iff)
  note rc = ringsD [OF r c]
  have ring1: "ring (nxt ?s1) (prv ?s1) (tp # ys @ xs)"
    unfolding nx1 using ring_rotate [of "nxt s" "prv s" xs "tp # ys"] rc(1) tp by simp
  have ne: "ys @ xs \<noteq> []" using rc(2) cur(1) tp by auto
  have sub: "set (tp # ys @ xs) \<subseteq> dom (tasks ?s1)" using rc(4) tp by auto
  from task_ring.unlink [OF ring1 ne sub] obtain s3 where
    e: "bindR (set_prev (nxt ?s1 tp) (prv ?s1 tp) ?s1) (\<lambda>s1. set_next (prv s1 tp) (nxt s1 tp) s1) = Inr s3"
    and s3: "ring (nxt s3) (prv s3) (ys @ xs)" "dom (tasks s3) = dom (tasks ?s1)" "links_apart s3 = links_apart ?s1"
      "\<forall>x. x \<notin> set (tp # ys @ xs) \<longrightarrow> nxt s3 x = nxt ?s1 x \<and> prv s3 x = prv ?s1 x" by blast
  from e obtain s2 where st: "set_prev (nxt ?s1 tp) (prv ?s1 tp) ?s1 = Inr s2"
    "set_next (prv s2 tp) (nxt s2 tp) s2 = Inr s3" unfolding bindR_Inr_iff by blast
  obtain t0 where t0: "tasks ?s1 tp = Some t0" using sub by auto
  have "tp \<in> dom (tasks s2)" using st(1) t0 by (auto simp: set_prev_def upd_task_def split: option.splits)
  then obtain t2 where t2: "tasks s2 tp = Some t2" by blast
  note e3 = links_apart_eq [OF s3(3)]
  let ?s4 = "s3\<lparr>nest := nest s, locks := locks s, ien := ien s\<rparr>"
  have unl: "spin_unlock c c s3 = Inr ?s4"
    using q e3 by (simp add: spin_unlock_last cpu_quiet_def fun_upd_idem)
  have npage: "tp \<noteq> PAGESTART (mem s)"
  proof -
    have "heap_ok (mem s)" using m(1) by (rule pmm_absD)
    then have "zlo (mem s) 9 \<le> unat tp" "unat (PAGESTART (mem s)) = zlo (mem s) 8" "zlo (mem s) 8 < zlo (mem s) 9 \<or> zlo (mem s) 9 = zlo (mem s) 8"
      using zone_blocks_range [of "mem s" 9 tp] m(2) by (auto simp: unat_PAGESTART zlo_def)
    moreover have "zlo (mem s) 8 \<noteq> zlo (mem s) 9"
    proof
      assume "zlo (mem s) 8 = zlo (mem s) 9"
      then have "heap_bytes (mem s) div 4 = 0" by (simp add: zlo_def)
      then have "zhi (mem s) 9 = zlo (mem s) 9" by (simp add: zlo_def zhi_def)
      then show False using zone_blocks_range [OF \<open>heap_ok (mem s)\<close> _ m(2)] by simp
    qed
    ultimately show ?thesis by auto
  qed
  from kfree_abs [OF m(1) _ m(2,3) npage] obtain m' where
    m': "kfree tp (mem s) = Inr m'" "pmm_abs m' (F(9 := tp # F 9))" by auto
  let ?s' = "?s4\<lparr>mem := m', ien := ien s, tasks := (tasks s3)(tp := None)\<rparr>"
  have fre: "kernel_free c tp ?s4 = Inr ?s'"
    using m'(1) e3 by (simp add: kernel_free_def safe_kfree_def Let_def fun_upd_idem)
  have lk: "spin_lock c c s = Inr ?s1" using q by (intro spin_lock_free) (simp_all add: cpu_quiet_def)
  have run: "kteardown c tp s = Inr ?s'"
    using lk st(1) [unfolded nx1] st(2) t0 t2 unl fre by (simp add: kteardown_def get_task_nxt)
  have d: "distinct (xs @ tp # ys)" using rc(1) tp by (simp add: ring_def)
  have tpn: "tp \<notin> set (xs @ ys)" using d by auto
  have nx': "nxt ?s' x = nxt s3 x" "prv ?s' x = prv s3 x" if "x \<noteq> tp" for x
    using that by (simp_all add: nxt_def prv_def)
  have "ring (nxt ?s') (prv ?s') (xs @ ys) = ring (nxt s3) (prv s3) (xs @ ys)"
    by (rule ring_cong) (use nx' tpn in metis)+
  then have ring': "ring (nxt ?s') (prv ?s') (xs @ ys)" using ring_rotate [OF s3(1)] by simp
  have sub1: "set (R i) \<subseteq> dom (tasks ?s1)" if "i < cpu_count s" for i
    using ringsD(4) [OF r that] by simp
  have "rings ?s' (R(c := xs @ ys))"
    unfolding rings_def
  proof (intro conjI allI impI)
    fix i assume "i < cpu_count ?s'"
    then have i: "i < cpu_count s" using e3 by simp
    have dis: "set (R i) \<inter> set (xs @ tp # ys) = {}" if "i \<noteq> c" using ringsD(5) [OF r i c] that tp by auto
    have "ring (nxt ?s') (prv ?s') (R i) = ring (nxt s) (prv s) (R i)" if "i \<noteq> c"
    proof (rule ring_cong)
      fix x assume "x \<in> set (R i)"
      then have "x \<noteq> tp" "x \<notin> set (tp # ys @ xs)" using dis [OF that] by auto
      then have "nxt s3 x = nxt s x \<and> prv s3 x = prv s x" using s3(4) nx1 by simp
      then show "nxt ?s' x = nxt s x" "prv ?s' x = prv s x" using nx' [OF \<open>x \<noteq> tp\<close>] by simp_all
    qed
    then show "ring (nxt ?s') (prv ?s') ((R(c := xs @ ys)) i)" using ring' ringsD(1) [OF r i] by simp
    show "curTask ?s' i \<in> set ((R(c := xs @ ys)) i)"
      using ringsD(2) [OF r i] cur(1) tp e3 by auto
    show "currents ?s' i \<in> set ((R(c := xs @ ys)) i)"
      using ringsD(3) [OF r i] cur(2) tp e3 by auto
    have "set ((R(c := xs @ ys)) i) \<subseteq> dom (tasks ?s1) - {tp}"
      using sub1 [OF i] sub1 [OF c] dis tp tpn by (cases "i = c") auto
    then show "set ((R(c := xs @ ys)) i) \<subseteq> dom (tasks ?s')" using s3(2) by simp
  next
    fix i j assume "i < cpu_count ?s'" "j < cpu_count ?s'" "i \<noteq> j"
    then show "set ((R(c := xs @ ys)) i) \<inter> set ((R(c := xs @ ys)) j) = {}"
      using ringsD(5) [OF r, of i j] tp e3 by (auto split: if_splits)
  qed
  moreover have "cpu_quiet c ?s'" using q e3 by (simp add: cpu_quiet_def)
  ultimately show ?thesis using run m'(2) by (intro exI [of _ ?s']) simp
qed

definition demo_pair :: kernel where
  "demo_pair = (demo_kernel qemu_heap)\<lparr>tasks := [0x6042000 \<mapsto> demo_task 0x6046000,
     0x6044000 \<mapsto> demo_task 0x6044000, 0x6046000 \<mapsto> demo_task 0x6042000]\<rparr>"

lemma qemu_heap_used: "pmm_abs qemu_heap (\<lambda>_. [])"
  unfolding pmm_abs_def
proof (intro conjI allI impI)
  fix j :: nat assume "j < 10"
  then have "kmem_at qemu_heap j = \<lparr>kmem_m = \<lparr>flag = 0\<rparr>, freelist = NULL\<rparr>"
    by (simp add: kmem_at_def qemu_heap_def)
  then show "zone_free qemu_heap j []" by (simp add: zone_free_def)
qed (simp_all add: qemu_heap_ok, simp add: qemu_heap_def)

lemma qemu_mpage: "0x6046000 \<in> zone_blocks qemu_heap 9"
proof -
  have "zlo qemu_heap 9 = 0x6040000" "zhi qemu_heap 9 = 0x7020000"
    by (simp_all add: qemu_heap_def zlo_def zhi_def)
  then show ?thesis by (simp add: in_zone_blocks [OF qemu_heap_ok(1)])
qed

theorem kteardown_correct_witness:
  "\<exists>s'. kteardown 0 0x6046000 demo_pair = Inr s' \<and> rings s' demo_rings \<and> tasks s' 0x6046000 = None"
proof -
  let ?R = "demo_rings(0 := [0x6042000] @ 0x6046000 # [])"
  have r: "rings demo_pair ?R"
    by (simp add: rings_def demo_rings_def demo_pair_def demo_kernel_def demo_task_def ring_def nxt_def
        prv_def less_2_cases_iff)
  have p: "0 < cpu_count demo_pair" "?R 0 = [0x6042000] @ 0x6046000 # []"
    "curTask demo_pair 0 \<noteq> 0x6046000" "currents demo_pair 0 \<noteq> 0x6046000" "cpu_quiet 0 demo_pair"
    "mem demo_pair = qemu_heap"
    by (simp_all add: demo_pair_def demo_kernel_def cpu_quiet_def)
  have "?R(0 := [0x6042000] @ []) = demo_rings" by (simp add: fun_eq_iff demo_rings_def)
  with kteardown_correct [OF r p(1-5), where F = "\<lambda>_. []"] qemu_heap_used qemu_mpage p(6)
  show ?thesis by (metis empty_iff list.set(1))
qed

section \<open>Spin locks under interleaving\<close>

text \<open>
  Any number of CPUs locking and unlocking; \<open>h c\<close> are the locks CPU \<open>c\<close> is between
  \<open>spin_lock\<close> and \<open>spin_unlock\<close> of, innermost first.  A CPU nests calls of one lock only, as
  the kernel does with \<open>locks[cpu_current()]\<close>; outside a critical section code may set the
  interrupt flag.
\<close>

inductive spin_run :: "kernel \<Rightarrow> (nat \<Rightarrow> nat list) \<Rightarrow> bool" where
  init: "(\<And>l. sl_flag (locks s l) = 0) \<Longrightarrow> (\<And>c. nest s c = 0) \<Longrightarrow> spin_run s (\<lambda>_. [])"
| acquire: "spin_run s h \<Longrightarrow> h c = [] \<or> l = hd (h c) \<Longrightarrow> spin_lock c l s = Inr s' \<Longrightarrow>
    spin_run s' (h(c := l # h c))"
| release: "spin_run s h \<Longrightarrow> h c = l # ls \<Longrightarrow> spin_unlock c l s = Inr s' \<Longrightarrow> spin_run s' (h(c := ls))"
| iset: "spin_run s h \<Longrightarrow> h c = [] \<Longrightarrow> spin_run (s\<lparr>ien := (ien s)(c := b)\<rparr>) h"

definition spin_inv :: "kernel \<Rightarrow> (nat \<Rightarrow> nat list) \<Rightarrow> bool" where
  "spin_inv s h \<longleftrightarrow>
     (\<forall>c. nest s c = int (length (h c))) \<and>
     (\<forall>c. \<forall>l\<in>set (h c). l = hd (h c) \<and> \<not> ien s c \<and> sl_flag (locks s l) = 1) \<and>
     (\<forall>l. sl_flag (locks s l) \<noteq> 0 \<longrightarrow> (\<exists>c. l \<in> set (h c))) \<and>
     (\<forall>c d l. l \<in> set (h c) \<longrightarrow> l \<in> set (h d) \<longrightarrow> c = d)"

lemma spin_invD:
  assumes "spin_inv s h"
  shows "nest s c = int (length (h c))" "l \<in> set (h c) \<Longrightarrow> l = hd (h c)" "l \<in> set (h c) \<Longrightarrow> \<not> ien s c"
    "l \<in> set (h c) \<Longrightarrow> sl_flag (locks s l) = 1" "sl_flag (locks s l) \<noteq> 0 \<Longrightarrow> \<exists>c. l \<in> set (h c)"
    "l \<in> set (h c) \<Longrightarrow> l \<in> set (h d) \<Longrightarrow> c = d"
  using assms unfolding spin_inv_def by blast+

lemma spin_inv_acquire:
  assumes inv: "spin_inv s h" and l: "h c = [] \<or> l = hd (h c)" and run: "spin_lock c l s = Inr s'"
  shows "spin_inv s' (h(c := l # h c))"
proof (cases "h c")
  case Nil
  then have n: "nest s c = 0" using spin_invD(1) [OF inv, of c] by simp
  have free: "sl_flag (locks s l) = 0"
    using run n by (auto simp: spin_lock_def Let_def bindR_Inr_iff lock_wait_Inr)
  then have nobody: "l \<notin> set (h d)" for d using spin_invD(4) [OF inv, of l d] by auto
  have s': "s' = s\<lparr>ien := (ien s)(c := False), nest := (nest s)(c := 1),
    intenb := (intenb s)(c := ien s c), locks := (locks s)(l := (locks s l)\<lparr>sl_flag := 1\<rparr>)\<rparr>"
    using spin_lock_free [OF n free] run by simp
  show ?thesis
    unfolding spin_inv_def
  proof (intro conjI allI impI ballI)
    fix d show "nest s' d = int (length ((h(c := l # h c)) d))"
      using spin_invD(1) [OF inv, of d] Nil by (simp add: s')
  next
    fix d k assume k: "k \<in> set ((h(c := l # h c)) d)"
    show "k = hd ((h(c := l # h c)) d)" using k spin_invD(2) [OF inv, of k d] Nil by (auto split: if_splits)
    show "\<not> ien s' d" using k spin_invD(3) [OF inv, of k d] Nil by (auto simp: s' split: if_splits)
    show "sl_flag (locks s' k) = 1" using k spin_invD(4) [OF inv, of k d] Nil by (auto simp: s' split: if_splits)
  next
    fix k assume "sl_flag (locks s' k) \<noteq> 0"
    then consider "k = l" | "k \<noteq> l" "sl_flag (locks s k) \<noteq> 0" by (auto simp: s' split: if_splits)
    then show "\<exists>d. k \<in> set ((h(c := l # h c)) d)"
    proof cases
      case 1
      then show ?thesis by (intro exI [of _ c]) simp
    next
      case 2
      from spin_invD(5) [OF inv this(2)] obtain d where "k \<in> set (h d)" ..
      then show ?thesis by (intro exI [of _ d]) (cases "d = c", simp_all)
    qed
  next
    fix d e k assume "k \<in> set ((h(c := l # h c)) d)" "k \<in> set ((h(c := l # h c)) e)"
    then show "d = e"
      using spin_invD(6) [OF inv, of k d e] nobody Nil by (auto split: if_splits)
  qed
next
  case (Cons l' ls)
  have n: "0 < nest s c" using spin_invD(1) [OF inv, of c] Cons by simp
  have s': "s' = s\<lparr>ien := (ien s)(c := False), nest := (nest s)(c := nest s c + 1)\<rparr>"
    using spin_lock_nested [OF n] run by simp
  have set: "set ((h(c := l # h c)) d) = set (h d)" for d using l Cons by auto
  have hd: "hd ((h(c := l # h c)) d) = hd (h d)" for d using l Cons by auto
  show ?thesis
    unfolding spin_inv_def set hd
  proof (intro conjI allI impI ballI)
    fix d show "nest s' d = int (length ((h(c := l # h c)) d))"
      using spin_invD(1) [OF inv, of d] by (cases "d = c") (simp_all add: s')
  next
    fix d k assume k: "k \<in> set (h d)"
    show "k = hd (h d)" using spin_invD(2) [OF inv k] .
    show "\<not> ien s' d" using spin_invD(3) [OF inv k] by (simp add: s')
    show "sl_flag (locks s' k) = 1" using spin_invD(4) [OF inv k] by (simp add: s')
  next
    fix k assume "sl_flag (locks s' k) \<noteq> 0"
    then show "\<exists>d. k \<in> set (h d)" using spin_invD(5) [OF inv, of k] by (simp add: s')
  next
    fix d e k assume "k \<in> set (h d)" "k \<in> set (h e)"
    then show "d = e" by (rule spin_invD(6) [OF inv])
  qed
qed

lemma spin_inv_release:
  assumes inv: "spin_inv s h" and hc: "h c = l # ls"
  shows "\<exists>s'. spin_unlock c l s = Inr s' \<and> spin_inv s' (h(c := ls)) \<and>
    (ls = [] \<longrightarrow> ien s' c = intenb s c) \<and> (ls \<noteq> [] \<longrightarrow> \<not> ien s' c)"
proof (cases ls)
  case Nil
  have n: "nest s c = 1" using spin_invD(1) [OF inv, of c] hc Nil by simp
  have i: "\<not> ien s c" using spin_invD(3) [OF inv, of l c] hc by simp
  have me: "l \<in> set (h d) \<Longrightarrow> d = c" for d using spin_invD(6) [OF inv, of l d c] hc by simp
  let ?s' = "s\<lparr>nest := (nest s)(c := 0), locks := (locks s)(l := (locks s l)\<lparr>sl_flag := 0\<rparr>),
    ien := (ien s)(c := intenb s c)\<rparr>"
  have "spin_inv ?s' (h(c := ls))"
    unfolding spin_inv_def
  proof (intro conjI allI impI ballI)
    fix d show "nest ?s' d = int (length ((h(c := ls)) d))"
      using spin_invD(1) [OF inv, of d] Nil by simp
  next
    fix d k assume "k \<in> set ((h(c := ls)) d)"
    then have k: "d \<noteq> c" "k \<in> set (h d)" "k \<noteq> l" using Nil me by (auto split: if_splits)
    show "k = hd ((h(c := ls)) d)" using spin_invD(2) [OF inv k(2)] k(1) by simp
    show "\<not> ien ?s' d" using spin_invD(3) [OF inv k(2)] k(1) by simp
    show "sl_flag (locks ?s' k) = 1" using spin_invD(4) [OF inv k(2)] k(3) by simp
  next
    fix k assume "sl_flag (locks ?s' k) \<noteq> 0"
    then have k: "k \<noteq> l" "sl_flag (locks s k) \<noteq> 0" by (auto split: if_splits)
    from spin_invD(5) [OF inv k(2)] obtain d where d: "k \<in> set (h d)" ..
    then have "d \<noteq> c" using k(1) hc Nil by auto
    then show "\<exists>d. k \<in> set ((h(c := ls)) d)" using d by (intro exI [of _ d]) simp
  next
    fix d e k assume "k \<in> set ((h(c := ls)) d)" "k \<in> set ((h(c := ls)) e)"
    then show "d = e" using spin_invD(6) [OF inv, of k d e] Nil by (auto split: if_splits)
  qed
  then show ?thesis using spin_unlock_last [OF n i] Nil by (intro exI [of _ ?s']) simp
next
  case (Cons l' ls')
  have n: "1 < nest s c" using spin_invD(1) [OF inv, of c] hc Cons by simp
  have i: "\<not> ien s c" using spin_invD(3) [OF inv, of l c] hc by simp
  have "l' = l" using spin_invD(2) [OF inv, of l' c] hc Cons by simp
  then have set: "set ((h(c := ls)) d) = set (h d)" and hd: "hd ((h(c := ls)) d) = hd (h d)" for d
    using hc Cons by auto
  let ?s' = "s\<lparr>nest := (nest s)(c := nest s c - 1)\<rparr>"
  have "spin_inv ?s' (h(c := ls))"
    unfolding spin_inv_def set hd
  proof (intro conjI allI impI ballI)
    fix d show "nest ?s' d = int (length ((h(c := ls)) d))"
      using spin_invD(1) [OF inv, of d] hc by (cases "d = c") simp_all
  next
    fix d k assume k: "k \<in> set (h d)"
    show "k = hd (h d)" using spin_invD(2) [OF inv k] .
    show "\<not> ien ?s' d" using spin_invD(3) [OF inv k] by simp
    show "sl_flag (locks ?s' k) = 1" using spin_invD(4) [OF inv k] by simp
  next
    fix k assume "sl_flag (locks ?s' k) \<noteq> 0"
    then show "\<exists>d. k \<in> set (h d)" using spin_invD(5) [OF inv, of k] by simp
  next
    fix d e k assume "k \<in> set (h d)" "k \<in> set (h e)"
    then show "d = e" by (rule spin_invD(6) [OF inv])
  qed
  then show ?thesis using spin_unlock_nested [OF n] Cons i by (intro exI [of _ ?s']) simp
qed

lemma spin_run_inv: "spin_run s h \<Longrightarrow> spin_inv s h"
proof (induction rule: spin_run.induct)
  case (init s)
  then show ?case by (simp add: spin_inv_def)
next
  case (acquire s h c l s')
  then show ?case by (intro spin_inv_acquire)
next
  case (release s h c l ls s')
  from spin_inv_release [OF release.IH release.hyps(2)]
  obtain s'' where s'': "spin_unlock c l s = Inr s''" "spin_inv s'' (h(c := ls))" by blast
  then have "s'' = s'" using release.hyps(3) by simp
  with s''(2) show ?case by (simp only:)
next
  case (iset s h c b)
  then have "spin_inv s h" by simp
  then show ?case
    unfolding spin_inv_def using iset(2) by (auto split: if_splits)
qed

text \<open>C23. Spin locks exclude each other on any number of CPUs that nest calls of one lock: no
  two CPUs are inside the same lock, a CPU inside one runs with interrupts off, and unlocking
  never fails an assertion.\<close>

theorem spin_mutual_exclusion:
  assumes "spin_run s h" and "l \<in> set (h c)"
  shows "(l \<in> set (h d) \<longleftrightarrow> d = c) \<and> \<not> ien s c \<and> sl_flag (locks s l) = 1 \<and>
    (\<exists>s'. spin_unlock c (hd (h c)) s = Inr s')"
proof -
  note inv = spin_run_inv [OF assms(1)]
  obtain k ls where k: "h c = k # ls" using assms(2) by (cases "h c") auto
  from spin_inv_release [OF inv k] obtain s' where "spin_unlock c (hd (h c)) s = Inr s'"
    using k by auto
  then show ?thesis
    using spin_invD(6) [OF inv assms(2), of d] assms(2) spin_invD(3,4) [OF inv assms(2)] by blast
qed

lemma demo_spin_free: "sl_flag (locks (demo_kernel m) l) = 0" "nest (demo_kernel m) c = 0"
  "ien (demo_kernel m) c"
  by (simp_all add: demo_kernel_def)

theorem spin_mutual_exclusion_witness:
  "\<exists>s h. spin_run s h \<and> h 0 = [5, 5] \<and> 5 \<notin> set (h 1) \<and> (\<exists>s'. spin_unlock 0 5 s = Inr s')"
proof -
  let ?k = "demo_kernel qemu_heap"
  obtain s1 where s1: "spin_lock 0 5 ?k = Inr s1" "nest s1 0 = 1"
    using spin_lock_free [of ?k 0 5] demo_spin_free by auto
  obtain s2 where s2: "spin_lock 0 5 s1 = Inr s2" using spin_lock_nested [of s1 0 5] s1(2) by auto
  have r0: "spin_run ?k (\<lambda>_. [])" using demo_spin_free by (intro spin_run.init)
  have "spin_run s1 ((\<lambda>_. [])(0 := 5 # []))"
    using spin_run.acquire [OF r0 _ s1(1)] by simp
  from spin_run.acquire [OF this _ s2] have r2: "spin_run s2 ((\<lambda>_. [])(0 := [5, 5]))" by simp
  from spin_mutual_exclusion [OF r2, of 5 0 1] r2 show ?thesis
    by (intro exI [of _ s2] exI [of _ "(\<lambda>_. [])(0 := [5, 5])"]) simp
qed

text \<open>Nesting two different locks breaks both: the inner lock is not taken, so another CPU
  enters it too; and when the outer lock is released first, it stays locked for ever.\<close>

theorem spin_nesting_broken:
  "\<exists>s1 s2 s3 s4 s5 s6. spin_lock 0 1 (demo_kernel qemu_heap) = Inr s1 \<and> spin_lock 0 2 s1 = Inr s2 \<and>
     spin_lock 1 2 s2 = Inr s3 \<and>
     spin_unlock 0 1 s2 = Inr s4 \<and> spin_unlock 0 2 s4 = Inr s5 \<and>
     spin_lock 1 1 s5 = Inl Spin_Forever \<and> spin_lock 1 2 s5 = Inr s6"
proof -
  let ?k = "demo_kernel qemu_heap"
  obtain s1 where s1: "spin_lock 0 1 ?k = Inr s1" "nest s1 0 = 1" "sl_flag (locks s1 1) = 1"
    "sl_flag (locks s1 2) = 0" "nest s1 1 = 0" "\<not> ien s1 0"
    using spin_lock_free [of ?k 0 1] demo_spin_free by auto
  obtain s2 where s2: "spin_lock 0 2 s1 = Inr s2" "nest s2 0 = 2" "sl_flag (locks s2 1) = 1"
    "sl_flag (locks s2 2) = 0" "nest s2 1 = 0" "\<not> ien s2 0"
    using spin_lock_nested [of s1 0 2] s1 by auto
  obtain s3 where s3: "spin_lock 1 2 s2 = Inr s3" using spin_lock_free [of s2 1 2] s2 by auto
  obtain s4 where s4: "spin_unlock 0 1 s2 = Inr s4" "nest s4 0 = 1" "sl_flag (locks s4 1) = 1"
    "sl_flag (locks s4 2) = 0" "nest s4 1 = 0" "\<not> ien s4 0"
    using spin_unlock_nested [of s2 0 1] s2 by auto
  obtain s5 where s5: "spin_unlock 0 2 s4 = Inr s5" "sl_flag (locks s5 1) = 1"
    "sl_flag (locks s5 2) = 0" "nest s5 1 = 0"
    using spin_unlock_last [of s4 0 2] s4 by auto
  have "lock_wait \<lparr>flag = 1\<rparr> = Inl Spin_Forever" by (simp add: lock_wait_def lock_eq)
  then have "spin_lock 1 1 s5 = Inl Spin_Forever" using s5 by (simp add: spin_lock_def Let_def)
  moreover obtain s6 where "spin_lock 1 2 s5 = Inr s6" using spin_lock_free [of s5 1 2] s5 by auto
  ultimately show ?thesis using s1(1) s2(1) s3 s4(1) s5(1) by blast
qed

end
