(* ===== verification/Semaphores.thy ===== *)
theory Semaphores
  imports Kmt
begin

text \<open>
  Semaphores (\<open>sem_wait\<close>, \<open>sem_signal\<close> of \<open>kmt.c\<close>) and the producers and consumers of
  \<open>os.c\<close>, which print opening and closing brackets: any number of threads, interleaved at the
  critical sections of the semaphores.
\<close>

section \<open>One semaphore\<close>

lemma sem_try_eq:
  assumes "flag (sem_lk sem) = 0"
  shows "sem_try sem = Inr (if sem_value sem > 0 then (True, sem\<lparr>sem_value := sem_value sem - 1\<rparr>) else (False, sem))"
  using assms by (simp add: sem_try_def)

lemma sem_try_Inr:
  "sem_try sem = Inr (b, sem') \<longleftrightarrow> flag (sem_lk sem) = 0 \<and> b = (sem_value sem > 0) \<and>
     sem' = (if b then sem\<lparr>sem_value := sem_value sem - 1\<rparr> else sem)"
proof (cases "flag (sem_lk sem) = 0")
  case False
  then show ?thesis by (simp add: sem_try_def lock_wait_def lock_eq)
qed (auto simp: sem_try_eq)

lemma sem_signal_Inr:
  "sem_signal sem = Inr sem' \<longleftrightarrow> flag (sem_lk sem) = 0 \<and> sem_value sem < 2 ^ 31 - 1 \<and>
     sem' = sem\<lparr>sem_value := sem_value sem + 1\<rparr>"
proof (cases "flag (sem_lk sem) = 0")
  case False
  then show ?thesis by (simp add: sem_signal_def lock_wait_def lock_eq)
qed (auto simp: sem_signal_def guardR_def)

text \<open>C26. \<open>sem_wait\<close> returns as soon as, after some number of yields, the semaphore is positive
  and its lock free; it takes exactly one unit.\<close>

theorem sem_wait_returns:
  assumes "\<forall>j\<le>k. flag (sem_lk ((env ^^ j) sem)) = 0" and "sem_value ((env ^^ k) sem) > 0"
  shows "\<exists>j\<le>k. (\<forall>i<j. sem_value ((env ^^ i) sem) \<le> 0) \<and> sem_value ((env ^^ j) sem) > 0 \<and>
    sem_wait env sem = Some (Inr (((env ^^ j) sem)\<lparr>sem_value := sem_value ((env ^^ j) sem) - 1\<rparr>))"
  using assms
proof (induction k arbitrary: sem)
  case 0
  then show ?case by (subst sem_wait.simps) (simp add: sem_try_eq)
next
  case (Suc k)
  show ?case
  proof (cases "sem_value sem > 0")
    case True
    have "flag (sem_lk sem) = 0" using Suc.prems(1) by auto
    with True show ?thesis
      by (intro exI [of _ 0], subst sem_wait.simps) (simp add: sem_try_eq)
  next
    case False
    have f0: "flag (sem_lk sem) = 0" using Suc.prems(1) by auto
    have sh: "(env ^^ j) (env sem) = (env ^^ Suc j) sem" for j by (simp add: funpow_swap1)
    have "\<forall>j\<le>k. flag (sem_lk ((env ^^ j) (env sem))) = 0"
    proof (intro allI impI)
      fix j assume "j \<le> k"
      then have "Suc j \<le> Suc k" by simp
      then show "flag (sem_lk ((env ^^ j) (env sem))) = 0" using Suc.prems(1) unfolding sh by blast
    qed
    moreover have "sem_value ((env ^^ k) (env sem)) > 0" using Suc.prems(2) unfolding sh .
    ultimately obtain j where j: "j \<le> k" "\<forall>i<j. sem_value ((env ^^ i) (env sem)) \<le> 0"
      "sem_value ((env ^^ j) (env sem)) > 0"
      "sem_wait env (env sem) = Some (Inr (((env ^^ j) (env sem))\<lparr>sem_value := sem_value ((env ^^ j) (env sem)) - 1\<rparr>))"
      using Suc.IH by blast
    have "sem_wait env sem = sem_wait env (env sem)"
      using False f0 by (subst sem_wait.simps) (simp add: sem_try_eq)
    moreover have "\<forall>i<Suc j. sem_value ((env ^^ i) sem) \<le> 0"
    proof (intro allI impI)
      fix i assume "i < Suc j"
      then show "sem_value ((env ^^ i) sem) \<le> 0" using False j(2) sh by (cases i) auto
    qed
    ultimately show ?thesis using j(1,3,4) unfolding sh
      by (intro exI [of _ "Suc j"]) simp
  qed
qed

theorem sem_wait_returns_witness:
  "\<exists>j\<le>3. sem_wait (\<lambda>s. s\<lparr>sem_value := sem_value s + 1\<rparr>)
     \<lparr>sem_lk = \<lparr>flag = 0\<rparr>, sem_value = -2, sem_name = ''empty''\<rparr> =
   Some (Inr \<lparr>sem_lk = \<lparr>flag = 0\<rparr>, sem_value = int j - 2 - 1, sem_name = ''empty''\<rparr>)"
proof -
  let ?e = "\<lambda>s :: semaphore. s\<lparr>sem_value := sem_value s + 1\<rparr>"
  let ?s = "\<lparr>sem_lk = \<lparr>flag = 0\<rparr>, sem_value = -2, sem_name = ''empty''\<rparr> :: semaphore"
  have p: "(?e ^^ j) ?s = ?s\<lparr>sem_value := int j - 2\<rparr>" for j by (induction j) simp_all
  have "\<forall>j\<le>3. flag (sem_lk ((?e ^^ j) ?s)) = 0" "sem_value ((?e ^^ 3) ?s) > 0" unfolding p by simp_all
  from sem_wait_returns [OF this] show ?thesis unfolding p by auto
qed

section \<open>Producers and consumers\<close>

text \<open>Where a thread is in \<open>while(1) { P(&empty); printf("("); V(&fill); }\<close>.\<close>

datatype stage = At_P | At_Print | At_V

record pc_state =
  sem_empty :: semaphore
  sem_fill :: semaphore
  producers :: "stage list"
  consumers :: "stage list"
  pc_out :: "bool list"

text \<open>\<open>True\<close> is an opening bracket, \<open>False\<close> a closing one.\<close>

inductive pc_step :: "pc_state \<Rightarrow> pc_state \<Rightarrow> bool" where
  produce_P: "i < length (producers s) \<Longrightarrow> producers s ! i = At_P \<Longrightarrow>
    sem_try (sem_empty s) = Inr (acquired, e) \<Longrightarrow>
    pc_step s (s\<lparr>sem_empty := e,
      producers := (producers s)[i := if acquired then At_Print else At_P]\<rparr>)"
| produce_print: "i < length (producers s) \<Longrightarrow> producers s ! i = At_Print \<Longrightarrow>
    pc_step s (s\<lparr>pc_out := pc_out s @ [True], producers := (producers s)[i := At_V]\<rparr>)"
| produce_V: "i < length (producers s) \<Longrightarrow> producers s ! i = At_V \<Longrightarrow>
    sem_signal (sem_fill s) = Inr f \<Longrightarrow>
    pc_step s (s\<lparr>sem_fill := f, producers := (producers s)[i := At_P]\<rparr>)"
| consume_P: "i < length (consumers s) \<Longrightarrow> consumers s ! i = At_P \<Longrightarrow>
    sem_try (sem_fill s) = Inr (acquired, f) \<Longrightarrow>
    pc_step s (s\<lparr>sem_fill := f,
      consumers := (consumers s)[i := if acquired then At_Print else At_P]\<rparr>)"
| consume_print: "i < length (consumers s) \<Longrightarrow> consumers s ! i = At_Print \<Longrightarrow>
    pc_step s (s\<lparr>pc_out := pc_out s @ [False], consumers := (consumers s)[i := At_V]\<rparr>)"
| consume_V: "i < length (consumers s) \<Longrightarrow> consumers s ! i = At_V \<Longrightarrow>
    sem_signal (sem_empty s) = Inr e \<Longrightarrow>
    pc_step s (s\<lparr>sem_empty := e, consumers := (consumers s)[i := At_P]\<rparr>)"

text \<open>\<open>n\<close> empty places, \<open>p\<close> producers and \<open>c\<close> consumers.  \<open>os_init\<close> creates them in lines that are
  commented out, so this is the initial state that those lines describe, not one that the built kernel
  reaches.\<close>

definition pc_init :: "int \<Rightarrow> nat \<Rightarrow> nat \<Rightarrow> pc_state" where
  "pc_init n p c =
     (let sem = \<lparr>sem_lk = \<lparr>flag = 0\<rparr>, sem_value = 0, sem_name = []\<rparr> in
      \<lparr>sem_empty = sem_init ''empty1'' n sem, sem_fill = sem_init ''fill1'' 0 sem,
       producers = replicate p At_P, consumers = replicate c At_P, pc_out = []\<rparr>)"

inductive pc_run :: "int \<Rightarrow> pc_state \<Rightarrow> bool" for n where
  init: "pc_run n (pc_init n p c)"
| step: "pc_run n s \<Longrightarrow> pc_step s s' \<Longrightarrow> pc_run n s'"

definition depth :: "bool list \<Rightarrow> int" where
  "depth bs = (\<Sum>b\<leftarrow>bs. if b then 1 else -1)"

lemma depth_simps [simp]: "depth [] = 0" "depth (bs @ [b]) = depth bs + (if b then 1 else -1)"
  by (simp_all add: depth_def)

definition at :: "stage set \<Rightarrow> stage list \<Rightarrow> int" where
  "at S ts = (\<Sum>t\<leftarrow>ts. of_bool (t \<in> S))"

lemma at_update: "i < length ts \<Longrightarrow> at S (ts[i := t]) = at S ts - of_bool (ts ! i \<in> S) + of_bool (t \<in> S)"
proof (induction ts arbitrary: i)
  case (Cons u ts)
  then show ?case by (cases i) (auto simp: at_def)
qed simp

lemma at_nonneg: "0 \<le> at S ts"
  by (induction ts) (simp_all add: at_def)

lemma at_replicate: "t \<notin> S \<Longrightarrow> at S (replicate k t) = 0"
  by (induction k) (simp_all add: at_def)

text \<open>The units of both semaphores and of the threads inside are constant, and the brackets
  that are open are those a consumer can still close.\<close>

definition pc_inv :: "int \<Rightarrow> pc_state \<Rightarrow> bool" where
  "pc_inv n s \<longleftrightarrow> 0 \<le> sem_value (sem_empty s) \<and> 0 \<le> sem_value (sem_fill s) \<and>
     sem_value (sem_empty s) + sem_value (sem_fill s) + at {At_Print, At_V} (producers s) +
       at {At_Print, At_V} (consumers s) = n \<and>
     depth (pc_out s) = sem_value (sem_fill s) + at {At_V} (producers s) + at {At_Print} (consumers s) \<and>
     (\<forall>k. 0 \<le> depth (take k (pc_out s)) \<and> depth (take k (pc_out s)) \<le> n)"

lemma at_split: "at {At_Print, At_V} ts = at {At_Print} ts + at {At_V} ts"
  by (induction ts) (auto simp: at_def of_bool_def)

lemma take_snoc_all: "(\<forall>k. P (take k (bs @ [b]))) \<longleftrightarrow> (\<forall>k. P (take k bs)) \<and> P (bs @ [b])"
proof safe
  fix k assume *: "\<forall>k. P (take k (bs @ [b]))"
  then have "P (take (min k (length bs)) (bs @ [b]))" by blast
  then show "P (take k bs)" by (simp add: min_def split: if_splits)
next
  assume *: "\<forall>k. P (take k (bs @ [b]))"
  then have "P (take (Suc (length bs)) (bs @ [b]))" by blast
  then show "P (bs @ [b])" by simp
next
  fix k assume *: "\<forall>k. P (take k bs)" "P (bs @ [b])"
  then show "P (take k (bs @ [b]))" by (cases "k \<le> length bs") auto
qed

lemma pc_step_inv:
  assumes "pc_step s s'" and "pc_inv n s"
  shows "pc_inv n s'"
proof -
  have nn: "0 \<le> at S ts" for S ts by (rule at_nonneg)
  note c = assms(2) [unfolded pc_inv_def at_split]
  show ?thesis
    using assms(1)
  proof cases
    case (produce_P i acquired e)
    then show ?thesis using c by (auto simp: pc_inv_def at_split at_update sem_try_Inr)
  next
    case (produce_print i)
    let ?P = "\<lambda>bs. 0 \<le> depth bs \<and> depth bs \<le> n"
    have "at {At_Print} (producers s) \<ge> 1"
      using nn [of "{At_Print}" "(producers s)[i := At_V]"] produce_print(2,3) by (simp add: at_update)
    then have "?P (pc_out s @ [True])" using c nn [of "{At_V}" "producers s"] nn [of "{At_V}" "consumers s"]
      nn [of "{At_Print}" "consumers s"] by simp
    moreover have "\<forall>k. ?P (take k (pc_out s))" using c by blast
    ultimately have "\<forall>k. ?P (take k (pc_out s @ [True]))" using take_snoc_all [of ?P "pc_out s" True] by blast
    then show ?thesis using produce_print c by (simp add: pc_inv_def at_split at_update)
  next
    case (produce_V i f)
    then show ?thesis using c by (auto simp: pc_inv_def at_split at_update sem_signal_Inr)
  next
    case (consume_P i acquired f)
    then show ?thesis using c by (auto simp: pc_inv_def at_split at_update sem_try_Inr)
  next
    case (consume_print i)
    let ?P = "\<lambda>bs. 0 \<le> depth bs \<and> depth bs \<le> n"
    have "at {At_Print} (consumers s) \<ge> 1"
      using nn [of "{At_Print}" "(consumers s)[i := At_V]"] consume_print(2,3) by (simp add: at_update)
    moreover have "depth (pc_out s) \<le> n" using c nn [of "{At_V}" "consumers s"] nn [of "{At_Print}" "producers s"] by simp
    ultimately have "?P (pc_out s @ [False])" using c nn [of "{At_V}" "producers s"] by simp
    moreover have "\<forall>k. ?P (take k (pc_out s))" using c by blast
    ultimately have "\<forall>k. ?P (take k (pc_out s @ [False]))" using take_snoc_all [of ?P "pc_out s" False] by blast
    then show ?thesis using consume_print c by (simp add: pc_inv_def at_split at_update)
  next
    case (consume_V i e)
    then show ?thesis using c by (auto simp: pc_inv_def at_split at_update sem_signal_Inr)
  qed
qed

lemma pc_run_inv: "pc_run n s \<Longrightarrow> 0 \<le> n \<Longrightarrow> pc_inv n s"
proof (induction rule: pc_run.induct)
  case (init p c)
  then show ?case by (simp add: pc_inv_def pc_init_def Let_def sem_init_def at_replicate)
next
  case (step s s')
  then show ?case by (blast intro: pc_step_inv)
qed

text \<open>C25. Whatever the interleaving of any number of producers and consumers, with \<open>empty\<close>
  initialised to \<open>n\<close> and \<open>fill\<close> to 0, every prefix of the output has at least as many opening
  as closing brackets and at most \<open>n\<close> more, and the semaphores never become negative.\<close>

theorem producer_consumer_safe:
  assumes "pc_run n s" and "0 \<le> n"
  shows "0 \<le> depth (take k (pc_out s)) \<and> depth (take k (pc_out s)) \<le> n \<and>
    0 \<le> sem_value (sem_empty s) \<and> 0 \<le> sem_value (sem_fill s)"
  using pc_run_inv [OF assms] by (simp add: pc_inv_def)

definition pc_demo :: pc_state where
  "pc_demo = (pc_init 1 2 1)\<lparr>sem_empty := (sem_empty (pc_init 1 2 1))\<lparr>sem_value := 0\<rparr>,
     producers := [At_V, At_P], pc_out := [True]\<rparr>"

lemma pc_demo_run: "pc_run 1 pc_demo"
proof -
  let ?s0 = "pc_init 1 2 1" and ?e = "(sem_empty (pc_init 1 2 1))\<lparr>sem_value := 0\<rparr>"
  let ?s1 = "?s0\<lparr>sem_empty := ?e, producers := (producers ?s0)[0 := if True then At_Print else At_P]\<rparr>"
  let ?s2 = "?s1\<lparr>pc_out := pc_out ?s1 @ [True], producers := (producers ?s1)[0 := At_V]\<rparr>"
  have p: "producers ?s0 = [At_P, At_P]" "pc_out ?s0 = []"
    by (simp_all add: pc_init_def Let_def numeral_2_eq_2)
  have "pc_step ?s0 ?s1"
    by (rule pc_step.produce_P) (use p in \<open>simp_all add: sem_try_Inr pc_init_def Let_def sem_init_def\<close>)
  moreover have "pc_step ?s1 ?s2" by (rule pc_step.produce_print) (use p in simp_all)
  moreover have "?s2 = pc_demo" using p by (simp add: pc_demo_def)
  ultimately show ?thesis using pc_run.init [of 1 2 1] by (metis pc_run.step)
qed

theorem producer_consumer_safe_witness:
  "pc_run 1 pc_demo \<and> depth (take 1 (pc_out pc_demo)) = 1 \<and> 0 \<le> sem_value (sem_fill pc_demo)"
proof -
  have "pc_out pc_demo = [True]" by (simp add: pc_demo_def)
  then have "depth (take 1 (pc_out pc_demo)) = depth ([] @ [True])" by simp
  then show ?thesis using producer_consumer_safe [OF pc_demo_run, of 1] pc_demo_run
    unfolding depth_simps by simp
qed

end
