(* ===== verification/Uproc.thy ===== *)
theory Uproc
  imports Kmt
begin

text \<open>
  User processes: \<open>kernel/src/uproc.c\<close> and the page-mapping helper \<open>pgmap\<close> of
  \<open>kernel/src/os.c\<close>.  The functions that \<open>uproc.c\<close> leaves as stubs (\<open>wait\<close>,
  \<open>kill\<close>, \<open>mmap\<close>, \<open>uptime\<close>) are stubs here.
\<close>

definition PROT_READ :: u64 where "PROT_READ = 2"
definition PROT_WRITE :: u64 where "PROT_WRITE = 4"

definition uproc_init :: "nat \<Rightarrow> kernel \<Rightarrow> kernel result" where
  "uproc_init c s =
     bindR (vme_init c \<lparr>vme_kpt = kernel_pt s, vme_cr3 = 0, vme_cr0 = 0\<rparr>) (\<lambda>v.
     Inr (s\<lparr>kernel_pt := vme_kpt v, pidrec := 1\<rparr>))"

section \<open>The saved contexts of a task\<close>

text \<open>\<open>task->context[i]\<close> with the bounds of the array made explicit.\<close>

definition get_context :: "task \<Rightarrow> int \<Rightarrow> Context result" where
  "get_context t i = (if 0 \<le> i then arr_get (t_context t) (nat i) else Inl Out_Of_Bounds)"

definition set_context :: "addr \<Rightarrow> int \<Rightarrow> Context \<Rightarrow> kernel \<Rightarrow> kernel result" where
  "set_context p i ctx s =
     bindR (get_task p s) (\<lambda>t.
     bindR (if 0 \<le> i then arr_set (t_context t) (nat i) ctx else Inl Out_Of_Bounds) (\<lambda>cs.
     upd_task p (\<lambda>t. t\<lparr>t_context := cs\<rparr>) s))"

section \<open>Mapping a page\<close>

definition pgmap :: "addr \<Rightarrow> addr \<Rightarrow> addr \<Rightarrow> u64 \<Rightarrow> kernel \<Rightarrow> kernel result" where
  "pgmap p va pa prot s =
     bindR (get_task p s) (\<lambda>t.
     let pages = t_np t in
     bindR (if 0 \<le> pages then arr_set (t_va t) (nat pages) va else Inl Out_Of_Bounds) (\<lambda>vas.
     bindR (if 0 \<le> pages then arr_set (t_pa t) (nat pages) pa else Inl Out_Of_Bounds) (\<lambda>pas.
     bindR (guardR Assert_Fail (pages + 1 \<le> 64)) (\<lambda>_.
     bindR (vme_map pmm_ops va pa prot (t_as t, mem s)) (\<lambda>(asp, m).
     upd_task p (\<lambda>t. t\<lparr>t_va := vas, t_pa := pas, t_np := pages + 1, t_as := asp\<rparr>)
       (s\<lparr>mem := m\<rparr>))))))"

section \<open>Creating processes\<close>

definition ucreate :: "(addr \<Rightarrow> task) \<Rightarrow> nat \<Rightarrow> nat \<Rightarrow> string \<Rightarrow> kernel \<Rightarrow> (addr \<times> kernel) result" where
  "ucreate junk c cpu name s =
     bindR (task_alloc junk c s) (\<lambda>(p, s1).
     bindR (spin_lock c cpu s1) (\<lambda>s2.
     bindR (get_task p s2) (\<lambda>_.
     bindR (protect pmm_ops (kernel_pt s2) (mem s2)) (\<lambda>(asp, m).
     let s3 = s2\<lparr>mem := m, numTask := (numTask s2)(cpu := numTask s2 cpu + 1)\<rparr> in
     bindR (upd_task p (\<lambda>t. t\<lparr>t_as := asp, t_name := name, t_entry := as_start asp\<rparr>) s3) (\<lambda>s4.
     bindR (get_task (curTask s4 cpu) s4) (\<lambda>cur.
     bindR (set_next p (t_next cur) s4) (\<lambda>s5.
     bindR (set_prev p (curTask s5 cpu) s5) (\<lambda>s6.
     bindR (guardR Out_Of_Bounds (0 \<le> pidrec s6 \<and> pidrec s6 < 32768)) (\<lambda>_.
     bindR (upd_task p (\<lambda>t. t\<lparr>t_np := 0, t_nc := 1, t_status := RUNNING, t_nchildren := 0,
              t_parent := NULL, t_children := NULL, t_bros := NULL, t_pid := pidrec s6\<rparr>) s6) (\<lambda>s7.
     let s8 = s7\<lparr>pidtables := (pidtables s7)(pidrec s7 := p), pidrec := pidrec s7 + 1\<rparr> in
     bindR (get_task (curTask s8 cpu) s8) (\<lambda>cur.
     bindR (set_prev (t_next cur) p s8) (\<lambda>s9.
     bindR (set_next (curTask s9 cpu) p s9) (\<lambda>s10.
     bindR (get_task p s10) (\<lambda>t.
     bindR (set_context p 0 (ucontext (t_as t) (p + sizeof_task) (t_entry t)) s10) (\<lambda>s11.
     bindR (spin_unlock c cpu s11) (\<lambda>s12.
     Inr (p, s12)))))))))))))))))"

definition uteardown :: "nat \<Rightarrow> addr \<Rightarrow> kernel \<Rightarrow> kernel result" where
  "uteardown c p s =
     bindR (get_task p s) (\<lambda>t.
     bindR (guardR Assert_Fail (t_status t = ZOMBIE)) (\<lambda>_.
     bindR (unprotect pmm_ops (t_as t) (mem s)) (\<lambda>m.
     kernel_free c p (s\<lparr>mem := m\<rparr>))))"

section \<open>System calls\<close>

definition kputs :: "addr \<Rightarrow> u8 \<Rightarrow> kernel \<Rightarrow> kernel result" where
  "kputs p ch s =
     (let s' = s\<lparr>console := console s @ [ch]\<rparr> in
      bindR (get_task p s') (\<lambda>t.
      bindR (get_context t (t_nc t - 1)) (\<lambda>_. Inr s')))"

text \<open>\<open>memcpy\<close> of \<open>8 * n\<close> bytes between two pages, one cell at a time.\<close>

fun copy_words :: "nat \<Rightarrow> addr \<Rightarrow> addr \<Rightarrow> pmm \<Rightarrow> pmm" where
  "copy_words 0 dst src m = m"
| "copy_words (Suc n) dst src m =
     copy_words n (dst + 8) (src + 8) (m\<lparr>cells := (cells m)(dst := cells m src)\<rparr>)"

text \<open>The loop of \<open>fork\<close> over the pages of the parent, by their indices.\<close>

fun fork_pages :: "nat \<Rightarrow> addr \<Rightarrow> addr \<Rightarrow> nat list \<Rightarrow> kernel \<Rightarrow> kernel result" where
  "fork_pages c p np [] s = Inr s"
| "fork_pages c p np (i # is) s =
     bindR (get_task p s) (\<lambda>t.
     bindR (arr_get (t_va t) i) (\<lambda>va.
     bindR (arr_get (t_pa t) i) (\<lambda>pa.
     let sz = as_pgsize (t_as t) in
     bindR (kernel_alloc c sz s) (\<lambda>(npa, s1).
     bindR (guardR Null_Deref (npa \<noteq> NULL)) (\<lambda>_.
     bindR (pgmap np va npa (PROT_READ OR PROT_WRITE)
              (s1\<lparr>mem := copy_words (unat sz div 8) npa pa (mem s1)\<rparr>)) (\<lambda>s2.
     fork_pages c p np is s2))))))"

definition fork :: "(addr \<Rightarrow> task) \<Rightarrow> nat \<Rightarrow> addr \<Rightarrow> kernel \<Rightarrow> (int \<times> kernel) result" where
  "fork junk c p s =
     bindR (ucreate junk c c ''children'' s) (\<lambda>(np, s1).
     bindR (get_task p s1) (\<lambda>t.
     bindR (get_task np s1) (\<lambda>n.
     bindR (get_context n 0) (\<lambda>ctx0.
     bindR (get_context t (t_nc t - 1)) (\<lambda>ctx.
     bindR (set_context np 0 (ctx\<lparr>r_rsp0 := r_rsp0 ctx0, r_cr3 := r_cr3 ctx0, r_rax := 0\<rparr>) s1) (\<lambda>s2.
     bindR (fork_pages c p np [0..<nat (t_np t)] s2) (\<lambda>s3.
     bindR (get_task p s3) (\<lambda>t.
     bindR (upd_task np (\<lambda>n. n\<lparr>t_parent := p, t_bros := t_children t\<rparr>) s3) (\<lambda>s4.
     bindR (upd_task p (\<lambda>t. t\<lparr>t_children := np, t_nchildren := t_nchildren t + 1\<rparr>) s4) (\<lambda>s5.
     bindR (get_task p s5) (\<lambda>t.
     bindR (get_task np s5) (\<lambda>n.
     bindR (get_context t (t_nc t - 1)) (\<lambda>ctx.
     bindR (set_context p (t_nc t - 1) (ctx\<lparr>r_rax := word_of_int (t_pid n)\<rparr>) s5) (\<lambda>s6.
     bindR (get_context n (t_nc n - 1)) (\<lambda>nctx.
     bindR (set_context np (t_nc n - 1) (nctx\<lparr>r_rax := 0\<rparr>) s6) (\<lambda>s7.
     Inr (t_pid n, s7)))))))))))))))))"

definition getpid :: "addr \<Rightarrow> kernel \<Rightarrow> (int \<times> kernel) result" where
  "getpid p s =
     bindR (get_task p s) (\<lambda>t.
     bindR (get_context t (t_nc t - 1)) (\<lambda>ctx.
     bindR (set_context p (t_nc t - 1) (ctx\<lparr>r_rax := word_of_int (t_pid t)\<rparr>) s) (\<lambda>s'.
     Inr (t_pid t, s'))))"

text \<open>The part of \<open>exit\<close> before its \<open>yield\<close>; the call never returns.\<close>

definition exit_mark :: "addr \<Rightarrow> int \<Rightarrow> kernel \<Rightarrow> kernel result" where
  "exit_mark p st = upd_task p (\<lambda>t. t\<lparr>t_status := ZOMBIE, t_excode := st\<rparr>)"

text \<open>\<open>sleep\<close>: the time to wake up at, and the test of its loop; \<open>seconds\<close> is an \<open>int\<close>.\<close>

definition sleep_until :: "u64 \<Rightarrow> 32 word \<Rightarrow> u64" where
  "sleep_until now seconds = now + 1000000 * scast seconds"

definition sleep_again :: "u64 \<Rightarrow> u64 \<Rightarrow> bool" where
  "sleep_again now wakeup \<longleftrightarrow> now \<le> wakeup"

definition uproc_wait :: "addr \<Rightarrow> kernel \<Rightarrow> int" where "uproc_wait p s = -1"
definition uproc_kill :: "addr \<Rightarrow> int \<Rightarrow> kernel \<Rightarrow> int" where "uproc_kill p pid s = -1"
definition uproc_mmap :: "addr \<Rightarrow> addr \<Rightarrow> kernel \<Rightarrow> addr" where "uproc_mmap p a s = NULL"
definition uproc_uptime :: "addr \<Rightarrow> kernel \<Rightarrow> int" where "uproc_uptime p s = -1"

end
