(* ===== verification/Os.thy ===== *)
theory Os
  imports Uproc
begin

text \<open>
  The kernel's trap handler, scheduler and dispatch: \<open>kernel/src/os.c\<close>.

  A handler that calls \<open>yield()\<close> (\<open>exit\<close>, \<open>sleep\<close>) does not come back to
  \<open>os_trap\<close> before its task is scheduled again: the \<open>int $0x81\<close> enters a second trap whose
  saved context is that of the kernel code itself.  \<open>handled\<close> tells the two cases apart,
  and \<open>kctx\<close> stands for the registers at that instruction.
\<close>

section \<open>Saving, scheduling, returning\<close>

text \<open>\<open>cur->context[cur->nc++] = *context\<close>\<close>

definition trap_save :: "nat \<Rightarrow> Context \<Rightarrow> kernel \<Rightarrow> kernel result" where
  "trap_save c ctx s =
     bindR (get_task (currents s c) s) (\<lambda>t.
     bindR (set_context (currents s c) (t_nc t) ctx s) (\<lambda>s1.
     upd_task (currents s c) (\<lambda>t. t\<lparr>t_nc := t_nc t + 1\<rparr>) s1))"

text \<open>The \<open>do ... while\<close> loop.\<close>

partial_function (option) schedule :: "nat \<Rightarrow> kernel \<Rightarrow> kernel result option" where
  "schedule c s =
     (case get_task (curTask s c) s of
        Inl e \<Rightarrow> Some (Inl e)
      | Inr t \<Rightarrow>
          let s1 = s\<lparr>curTask := (curTask s)(c := t_next t)\<rparr> in
          (case get_task (curTask s1 c) s1 of
             Inl e \<Rightarrow> Some (Inl e)
           | Inr t1 \<Rightarrow>
               if t_status t1 = ZOMBIE \<or> t_status t1 = WAITING then schedule c s1 else Some (Inr s1)))"

definition trap_return :: "nat \<Rightarrow> kernel \<Rightarrow> (Context \<times> kernel) result" where
  "trap_return c s =
     bindR (spin_lock c c s) (\<lambda>s1.
     bindR (returns (schedule c s1)) (\<lambda>s2.
     bindR (spin_unlock c c (s2\<lparr>currents := (currents s2)(c := curTask s2 c)\<rparr>)) (\<lambda>s3.
     bindR (get_task (currents s3 c) s3) (\<lambda>t.
     bindR (get_context t (t_nc t - 1)) (\<lambda>ctx.
     bindR (upd_task (currents s3 c) (\<lambda>t. t\<lparr>t_nc := t_nc t - 1\<rparr>) s3) (\<lambda>s4.
     Inr (ctx, s4)))))))"

text \<open>The trap of a \<open>yield\<close>: no handler runs.\<close>

definition yield_trap :: "nat \<Rightarrow> Context \<Rightarrow> kernel \<Rightarrow> (Context \<times> kernel) result" where
  "yield_trap c ctx s = bindR (trap_save c ctx s) (trap_return c)"

section \<open>Handlers\<close>

datatype handled = Returned kernel | Yields kernel

definition PF_handler :: "nat \<Rightarrow> Event \<Rightarrow> kernel \<Rightarrow> kernel result" where
  "PF_handler c ev s =
     bindR (spin_lock c c s) (\<lambda>s1.
     bindR (get_task (curTask s1 c) s1) (\<lambda>t.
     bindR (kernel_alloc c (as_pgsize (t_as t)) s1) (\<lambda>(pa, s2).
     let va = ROUNDDOWN (ev_ref ev) (as_pgsize (t_as t)) in
     bindR (pgmap (curTask s2 c) va pa (MMAP_READ OR MMAP_WRITE) s2) (\<lambda>s3.
     spin_unlock c c s3))))"

text \<open>\<open>now\<close> and \<open>now'\<close> are the two readings of the uptime that \<open>sleep\<close> makes before it
  first yields.\<close>

definition SYS_handler ::
    "(addr \<Rightarrow> task) \<Rightarrow> nat \<Rightarrow> u64 \<times> u64 \<Rightarrow> Context \<Rightarrow> kernel \<Rightarrow> handled result" where
  "SYS_handler junk c clk ctx s =
     (let cur = curTask s c; sysno = unat (GPRx ctx) in
      if sysno = 1 then
        bindR (kputs cur (ucast (GPR1 ctx)) s) (\<lambda>s'. Inr (Returned s'))
      else if sysno = 14 then
        bindR (get_task cur s) (\<lambda>_.
        let wakeup = sleep_until (fst clk) (ucast (GPR1 ctx)) in
        Inr (if sleep_again (snd clk) wakeup then Yields s else Returned s))
      else if sysno = 3 then
        bindR (exit_mark cur (sint (ucast (GPR1 ctx) :: 32 word)) s) (\<lambda>s'. Inr (Yields s'))
      else if sysno = 2 then
        bindR (spin_lock c c s) (\<lambda>s1.
        bindR (fork junk c cur s1) (\<lambda>(_, s2).
        bindR (spin_unlock c c s2) (\<lambda>s3. Inr (Returned s3))))
      else if sysno = 12 then
        bindR (getpid cur s) (\<lambda>(_, s'). Inr (Returned s'))
      else Inr (Returned s))"

definition irq_handlers ::
    "(addr \<Rightarrow> task) \<Rightarrow> nat \<Rightarrow> u64 \<times> u64 \<Rightarrow> Event \<Rightarrow> Context \<Rightarrow> kernel \<Rightarrow> handled result" where
  "irq_handlers junk c clk ev ctx s =
     (case ev_event ev of
        EVENT_PAGEFAULT \<Rightarrow> bindR (PF_handler c ev s) (\<lambda>s'. Inr (Returned s'))
      | EVENT_SYSCALL \<Rightarrow> SYS_handler junk c clk ctx s
      | EVENT_ERROR \<Rightarrow> Inl Panic
      | _ \<Rightarrow> Inr (Returned s))"

definition os_trap ::
    "(addr \<Rightarrow> task) \<Rightarrow> nat \<Rightarrow> u64 \<times> u64 \<Rightarrow> Context \<Rightarrow> Event \<Rightarrow> Context \<Rightarrow> kernel \<Rightarrow>
     (Context \<times> kernel) result" where
  "os_trap junk c clk kctx ev ctx s =
     bindR (trap_save c ctx s) (\<lambda>s1.
     bindR (irq_handlers junk c clk ev ctx s1) (\<lambda>h.
       case h of Returned s2 \<Rightarrow> trap_return c s2 | Yields s2 \<Rightarrow> yield_trap c kctx s2))"

text \<open>What happens when a context saved inside the loop of \<open>sleep\<close> is resumed.\<close>

definition sleep_resume :: "nat \<Rightarrow> u64 \<Rightarrow> u64 \<Rightarrow> Context \<Rightarrow> kernel \<Rightarrow> (Context \<times> kernel) result" where
  "sleep_resume c now wakeup kctx s =
     (if sleep_again now wakeup then yield_trap c kctx s else trap_return c s)"

section \<open>Start\<close>

definition os_init :: "(addr \<Rightarrow> task) \<Rightarrow> addr \<Rightarrow> nat \<Rightarrow> kernel \<Rightarrow> kernel result" where
  "os_init junk os_run c s =
     bindR (pmm_init (mem s)) (\<lambda>m.
     bindR (k_init junk os_run c (s\<lparr>mem := m\<rparr>)) (\<lambda>s1.
     uproc_init c s1))"

end
