(* ===== verification/OsProofs.thy ===== *)
theory OsProofs
  imports Os KmtProofs Paging
begin

text \<open>
  Correctness of the scheduler, the trap handler and the system calls (\<open>os.c\<close>,
  \<open>uproc.c\<close>).
\<close>

section \<open>The scheduler\<close>

definition runnable :: "kernel \<Rightarrow> addr \<Rightarrow> bool" where
  "runnable s p \<longleftrightarrow> (\<exists>t. tasks s p = Some t \<and> t_status t \<noteq> ZOMBIE \<and> t_status t \<noteq> WAITING)"

lemma sched_cong:
  assumes "tasks s' = tasks s"
  shows "nxt s' = nxt s" "prv s' = prv s" "runnable s' = runnable s"
  using assms by (simp_all add: nxt_def prv_def runnable_def fun_eq_iff)

text \<open>One turn of the loop.\<close>

lemma schedule_step:
  assumes "tasks s (curTask s c) = Some t" and "tasks s (nxt s (curTask s c)) = Some t1"
  shows "schedule c s = (let s1 = s\<lparr>curTask := (curTask s)(c := nxt s (curTask s c))\<rparr> in
    if runnable s (nxt s (curTask s c)) then Some (Inr s1) else schedule c s1)"
  using assms by (subst schedule.simps) (auto simp: Let_def runnable_def get_task_nxt)

lemma schedule_finds:
  assumes "ring (nxt s) (prv s) (a # xs)" and "curTask s c = a" and "set (a # xs) \<subseteq> dom (tasks s)"
    and "xs @ [a] = us @ v # ws" and "\<forall>u\<in>set us. \<not> runnable s u" and "runnable s v"
  shows "schedule c s = Some (Inr (s\<lparr>curTask := (curTask s)(c := v)\<rparr>))"
  using assms
proof (induction us arbitrary: a xs s ws)
  case Nil
  have "nxt s a = v" using ring_next(1) [OF Nil.prems(1)] Nil.prems(4) by simp
  moreover obtain t where "tasks s a = Some t" using Nil.prems(3) by auto
  moreover obtain t1 where "tasks s v = Some t1" using Nil.prems(6) by (auto simp: runnable_def)
  ultimately show ?case using schedule_step [of s c t t1] Nil.prems(2,6) by (simp add: fun_upd_def)
next
  case (Cons u us)
  have n: "nxt s a = u" using ring_next(1) [OF Cons.prems(1)] Cons.prems(4) by simp
  have xs: "xs @ [a] = u # us @ v # ws" using Cons.prems(4) by simp
  obtain t where t: "tasks s a = Some t" using Cons.prems(3) by auto
  have sub: "set (u # us @ v # ws) \<subseteq> dom (tasks s)" using Cons.prems(3) unfolding xs [symmetric] by auto
  obtain t1 where t1: "tasks s u = Some t1" using sub by auto
  let ?s1 = "s\<lparr>curTask := (curTask s)(c := u)\<rparr>"
  note cong = sched_cong [of ?s1 s]
  have "ring (nxt s) (prv s) (u # us @ v # ws)" using ring_rotate1 [OF Cons.prems(1)] unfolding xs .
  then have "schedule c ?s1 = Some (Inr (?s1\<lparr>curTask := (curTask ?s1)(c := v)\<rparr>))"
    using Cons.prems(5,6) sub cong
    by (intro Cons.IH [where a = u and xs = "us @ v # ws" and ws = "ws @ [u]"]) simp_all
  moreover have "schedule c s = schedule c ?s1"
    using schedule_step [of s c t t1] Cons.prems(2,5) n t t1 by simp
  moreover have "?s1\<lparr>curTask := (curTask ?s1)(c := v)\<rparr> = s\<lparr>curTask := (curTask s)(c := v)\<rparr>"
    by simp
  ultimately show ?case by (simp only:)
qed

text \<open>With nothing to run, the loop never ends.\<close>

lemma schedule_none:
  assumes "schedule c s = Some r" and "ring (nxt s) (prv s) zs" and "curTask s c \<in> set zs"
    and "set zs \<subseteq> dom (tasks s)"
  shows "\<exists>v\<in>set zs. runnable s v"
proof -
  have "ring (nxt s) (prv s) zs \<longrightarrow> curTask s c \<in> set zs \<longrightarrow> set zs \<subseteq> dom (tasks s) \<longrightarrow> (\<exists>v\<in>set zs. runnable s v)"
  proof (rule schedule.raw_induct [OF _ assms(1), where P = "\<lambda>c s r. ring (nxt s) (prv s) zs \<longrightarrow>
      curTask s c \<in> set zs \<longrightarrow> set zs \<subseteq> dom (tasks s) \<longrightarrow> (\<exists>v\<in>set zs. runnable s v)"], intro impI)
    fix f c s r
    assume IH: "\<And>c s r. f c s = Some r \<Longrightarrow> ring (nxt s) (prv s) zs \<longrightarrow> curTask s c \<in> set zs \<longrightarrow>
        set zs \<subseteq> dom (tasks s) \<longrightarrow> (\<exists>v\<in>set zs. runnable s v)"
      and eq: "(case get_task (curTask s c) s of Inl e \<Rightarrow> Some (Inl e)
      | Inr t \<Rightarrow> let s1 = s\<lparr>curTask := (curTask s)(c := t_next t)\<rparr> in
          (case get_task (curTask s1 c) s1 of Inl e \<Rightarrow> Some (Inl e)
           | Inr t1 \<Rightarrow> if t_status t1 = ZOMBIE \<or> t_status t1 = WAITING then f c s1 else Some (Inr s1))) = Some r"
      and r: "ring (nxt s) (prv s) zs" "curTask s c \<in> set zs" "set zs \<subseteq> dom (tasks s)"
    obtain t where t: "tasks s (curTask s c) = Some t" using r by auto
    obtain xs ys where z: "zs = xs @ curTask s c # ys" "ring (nxt s) (prv s) (curTask s c # ys @ xs)"
      by (rule ring_member [OF r(1,2)])
    have n: "nxt s (curTask s c) \<in> set zs" using ring_next(2) [OF z(2)] z(1) by auto
    then obtain t1 where t1: "tasks s (nxt s (curTask s c)) = Some t1" using r(3) by auto
    let ?s1 = "s\<lparr>curTask := (curTask s)(c := nxt s (curTask s c))\<rparr>"
    show "\<exists>v\<in>set zs. runnable s v"
    proof (cases "runnable s (nxt s (curTask s c))")
      case False
      then have "f c ?s1 = Some r" using eq t t1 by (auto simp: Let_def runnable_def get_task_nxt)
      from IH [OF this] show ?thesis using r n sched_cong [of ?s1 s] by simp
    qed (use n in blast)
  qed
  then show ?thesis using assms(2-4) by blast
qed

section \<open>Traps\<close>

lemma set_context_Some:
  assumes "tasks s p = Some t" and "0 \<le> i" and "nat i < length (t_context t)"
  shows "set_context p i ctx s =
    Inr (s\<lparr>tasks := (tasks s)(p \<mapsto> t\<lparr>t_context := (t_context t)[nat i := ctx]\<rparr>)\<rparr>)"
  using assms by (simp add: set_context_def)

lemma get_context_ok: "0 \<le> i \<Longrightarrow> nat i < length (t_context t) \<Longrightarrow> get_context t i = Inr (t_context t ! nat i)"
  by (simp add: get_context_def)

text \<open>\<open>saved t ctx\<close>: the task after its context has been pushed.\<close>

definition saved :: "task \<Rightarrow> Context \<Rightarrow> task" where
  "saved t ctx = t\<lparr>t_context := (t_context t)[nat (t_nc t) := ctx], t_nc := t_nc t + 1\<rparr>"

lemma trap_save_ok:
  assumes "tasks s (currents s c) = Some t" and "0 \<le> t_nc t" and "t_nc t < 4" and "length (t_context t) = 4"
  shows "trap_save c ctx s = Inr (s\<lparr>tasks := (tasks s)(currents s c \<mapsto> saved t ctx)\<rparr>)"
  using assms by (simp add: trap_save_def set_context_Some saved_def)

text \<open>Replacing one task's record without its links keeps the rings.\<close>

lemma rings_cong:
  assumes "nxt s' = nxt s" "prv s' = prv s" "dom (tasks s) \<subseteq> dom (tasks s')" "curTask s' = curTask s"
    "currents s' = currents s" "cpu_count s' = cpu_count s" "rings s R"
  shows "rings s' R"
  using assms(7) assms(3) unfolding rings_def assms(1,2,4,5,6) by (meson subset_trans)

lemma links_upd:
  assumes "tasks s p = Some t" and "t_next t' = t_next t" and "t_prev t' = t_prev t"
  shows "nxt (s\<lparr>tasks := (tasks s)(p \<mapsto> t')\<rparr>) = nxt s" "prv (s\<lparr>tasks := (tasks s)(p \<mapsto> t')\<rparr>) = prv s"
  using assms by (auto simp: nxt_def prv_def fun_eq_iff)

lemma runnable_upd:
  assumes "tasks s p = Some t" and "t_status t' = t_status t"
  shows "runnable (s\<lparr>tasks := (tasks s)(p \<mapsto> t')\<rparr>) = runnable s"
  using assms by (auto simp: runnable_def fun_eq_iff)

lemma trap_return_ok:
  assumes q: "nest s c = 0" "sl_flag (locks s c) = 0"
    and r: "ring (nxt s) (prv s) (a # xs)" "curTask s c = a" "set (a # xs) \<subseteq> dom (tasks s)"
    and v: "xs @ [a] = us @ v # ws" "\<forall>u\<in>set us. \<not> runnable s u" "runnable s v"
    and tv: "tasks s v = Some tv" "1 \<le> t_nc tv" "t_nc tv \<le> 4" "length (t_context tv) = 4"
  shows "trap_return c s = Inr (t_context tv ! nat (t_nc tv - 1),
    s\<lparr>curTask := (curTask s)(c := v), currents := (currents s)(c := v),
      intenb := (intenb s)(c := ien s c), tasks := (tasks s)(v \<mapsto> tv\<lparr>t_nc := t_nc tv - 1\<rparr>)\<rparr>)"
proof -
  let ?s1 = "s\<lparr>ien := (ien s)(c := False), nest := (nest s)(c := 1),
    intenb := (intenb s)(c := ien s c), locks := (locks s)(c := (locks s c)\<lparr>sl_flag := 1\<rparr>)\<rparr>"
  have l: "spin_lock c c s = Inr ?s1" using q by (rule spin_lock_free)
  note cong = sched_cong [of ?s1 s]
  have sch: "schedule c ?s1 = Some (Inr (?s1\<lparr>curTask := (curTask ?s1)(c := v)\<rparr>))"
    by (rule schedule_finds [where a = a and xs = xs and us = us and ws = ws]) (use r v cong in simp_all)
  have u: "spin_unlock c c (?s1\<lparr>curTask := (curTask s)(c := v), currents := (currents s)(c := v)\<rparr>) =
      Inr (s\<lparr>curTask := (curTask s)(c := v), currents := (currents s)(c := v), intenb := (intenb s)(c := ien s c)\<rparr>)"
    using q by (simp add: spin_unlock_last fun_upd_idem)
  show ?thesis using l sch u tv by (simp add: trap_return_def get_context_ok)
qed

text \<open>C16. Context switch: a trap without a handler (\<open>yield\<close>, timer, I/O) saves the
  interrupted context in the current task and resumes the next task of the CPU's ring that is
  neither a zombie nor waiting, with its most recently saved context; if that is the current
  task itself, the interrupted context is resumed.  Rings, locks and interrupt flag are as
  before.\<close>

theorem os_trap_switch:
  assumes r: "rings s R" and c: "c < cpu_count s" and Rc: "R c = a # xs"
    and cur: "curTask s c = a" "currents s c = a" and q: "cpu_quiet c s"
    and ev: "ev_event ev \<in> {EVENT_YIELD, EVENT_IRQ_TIMER, EVENT_IRQ_IODEV}"
    and ta: "tasks s a = Some ta" "0 \<le> t_nc ta" "t_nc ta < 4" "length (t_context ta) = 4"
    and v: "xs @ [a] = us @ v # ws" "\<forall>u\<in>set us. \<not> runnable s u" "runnable s v"
    and tv: "tasks s v = Some tv" "v \<noteq> a \<longrightarrow> 1 \<le> t_nc tv \<and> t_nc tv \<le> 4" "length (t_context tv) = 4"
  shows "\<exists>s'. os_trap junk c clk kctx ev ctx s =
      Inr (if v = a then ctx else t_context tv ! nat (t_nc tv - 1), s') \<and>
    rings s' R \<and> curTask s' c = v \<and> currents s' c = v \<and> cpu_quiet c s' \<and> ien s' = ien s \<and>
    (v \<noteq> a \<longrightarrow> (\<exists>t'. tasks s' a = Some t' \<and> t_context t' ! nat (t_nc t' - 1) = ctx))"
proof -
  let ?s1 = "s\<lparr>tasks := (tasks s)(a \<mapsto> saved ta ctx)\<rparr>"
  have sv: "t_next (saved ta ctx) = t_next ta" "t_prev (saved ta ctx) = t_prev ta"
    "t_status (saved ta ctx) = t_status ta" "t_nc (saved ta ctx) = t_nc ta + 1"
    "length (t_context (saved ta ctx)) = 4" "t_context (saved ta ctx) ! nat (t_nc ta) = ctx"
    using ta by (simp_all add: saved_def)
  have save: "trap_save c ctx s = Inr ?s1" using trap_save_ok [of s c ta ctx] ta cur(2) by simp
  note l = links_upd [OF ta(1) sv(1,2)] runnable_upd [OF ta(1) sv(3)]
  note rc = ringsD [OF r c]
  let ?tv = "if v = a then saved ta ctx else tv"
  have "trap_return c ?s1 = Inr (t_context ?tv ! nat (t_nc ?tv - 1),
    ?s1\<lparr>curTask := (curTask ?s1)(c := v), currents := (currents ?s1)(c := v),
      intenb := (intenb ?s1)(c := ien ?s1 c), tasks := (tasks ?s1)(v \<mapsto> ?tv\<lparr>t_nc := t_nc ?tv - 1\<rparr>)\<rparr>)"
  proof (rule trap_return_ok [where a = a and xs = xs and us = us and ws = ws])
    show "set (a # xs) \<subseteq> dom (tasks ?s1)" using rc(4) Rc by auto
    show "ring (nxt ?s1) (prv ?s1) (a # xs)" unfolding l using rc(1) Rc by simp
  qed (use q cur v tv ta sv l in \<open>auto simp: cpu_quiet_def\<close>)
  moreover have "irq_handlers junk c clk ev ctx ?s1 = Inr (Returned ?s1)"
    using ev by (auto simp: irq_handlers_def)
  moreover define s' where "s' = ?s1\<lparr>curTask := (curTask ?s1)(c := v), currents := (currents ?s1)(c := v),
      intenb := (intenb ?s1)(c := ien ?s1 c), tasks := (tasks ?s1)(v \<mapsto> ?tv\<lparr>t_nc := t_nc ?tv - 1\<rparr>)\<rparr>"
  ultimately have run: "os_trap junk c clk kctx ev ctx s = Inr (t_context ?tv ! nat (t_nc ?tv - 1), s')"
    by (simp add: os_trap_def save)
  have lk: "nxt s' = nxt s" "prv s' = prv s"
    using l(1,2) ta(1) tv(1) sv by (auto simp: s'_def nxt_def prv_def fun_eq_iff)
  have vR: "v \<in> set (R c)"
  proof -
    have "v \<in> set (xs @ [a])" unfolding v(1) by simp
    then show ?thesis using Rc by auto
  qed
  have dm: "dom (tasks s') = dom (tasks s)" using ta(1) tv(1) by (auto simp: s'_def)
  have "rings s' (R(c := R c))"
    by (rule rings_update [OF r c])
      (use rc vR lk dm ringsD(5) [OF r _ c] in \<open>auto simp: s'_def\<close>)
  then have "rings s' R" by simp
  moreover have "\<exists>t'. tasks s' a = Some t' \<and> t_context t' ! nat (t_nc t' - 1) = ctx" if "v \<noteq> a"
    using that sv(4,6) ta(2) by (simp add: s'_def)
  moreover have "t_context ?tv ! nat (t_nc ?tv - 1) = (if v = a then ctx else t_context tv ! nat (t_nc tv - 1))"
    using sv by simp
  moreover have "cpu_quiet c s'" using q by (simp add: cpu_quiet_def s'_def)
  ultimately show ?thesis using run by (intro exI [of _ s']) (simp add: s'_def)
qed

text \<open>Two tasks on CPU 0: the current one, and one whose context was saved before.\<close>

definition demo_ctx :: Context where
  "demo_ctx = zero_context\<lparr>r_rip := 0x1234, r_rax := 12\<rparr>"

definition demo_two :: kernel where
  "demo_two = demo_pair\<lparr>tasks := (tasks demo_pair)(0x6046000 \<mapsto>
     (demo_task 0x6042000)\<lparr>t_nc := 1, t_context := (replicate 4 zero_context)[0 := demo_ctx]\<rparr>)\<rparr>"

definition demo_two_rings :: "nat \<Rightarrow> addr list" where
  "demo_two_rings c = (if c = 0 then [0x6042000, 0x6046000] else [0x6044000])"

lemma demo_two_facts:
  "rings demo_two demo_two_rings" "cpu_count demo_two = 2" "curTask demo_two 0 = 0x6042000"
  "currents demo_two 0 = 0x6042000" "cpu_quiet 0 demo_two"
  "tasks demo_two 0x6042000 = Some (demo_task 0x6046000)"
  "tasks demo_two 0x6046000 = Some ((demo_task 0x6042000)\<lparr>t_nc := 1, t_context := (replicate 4 zero_context)[0 := demo_ctx]\<rparr>)"
  "runnable demo_two 0x6042000" "runnable demo_two 0x6046000"
  by (simp_all add: rings_def demo_two_rings_def demo_two_def demo_pair_def demo_kernel_def demo_task_def
      ring_def nxt_def prv_def less_2_cases_iff cpu_quiet_def runnable_def)

theorem os_trap_switch_witness:
  "\<exists>s'. os_trap demo_task 0 (0, 0) zero_context \<lparr>ev_event = EVENT_YIELD, ev_cause = 0, ev_ref = 0\<rparr>
     zero_context demo_two = Inr (demo_ctx, s') \<and> curTask s' 0 = 0x6046000 \<and> rings s' demo_two_rings"
proof -
  note d = demo_two_facts
  have r: "demo_two_rings 0 = 0x6042000 # [0x6046000]" by (simp add: demo_two_rings_def)
  have v: "[0x6046000] @ [0x6042000] = [] @ 0x6046000 # [0x6042000 :: addr]" by simp
  have ev: "ev_event \<lparr>ev_event = EVENT_YIELD, ev_cause = 0, ev_ref = 0\<rparr> \<in> {EVENT_YIELD, EVENT_IRQ_TIMER, EVENT_IRQ_IODEV}"
    by simp
  have "(0::nat) < cpu_count demo_two" using d(2) by simp
  from os_trap_switch [OF d(1) this r d(3,4,5) ev d(6) _ _ _ v _ d(9) d(7), of demo_task "(0, 0)" zero_context zero_context]
  show ?thesis by (auto simp: demo_task_def)
qed

text \<open>C17. The system call \<open>exit\<close> makes the caller a zombie with its exit code and resumes the next
  runnable task of the ring with its saved context; the run queues stay as they were (with the zombie in
  them), and so do all other tasks.  When no other task can run, the scheduler spins for ever.\<close>

theorem os_exit:
  assumes r: "rings s R" and c: "c < cpu_count s" and Rc: "R c = a # xs"
    and cur: "curTask s c = a" "currents s c = a" and q: "cpu_quiet c s"
    and ev: "ev_event ev = EVENT_SYSCALL" "GPRx ctx = 3"
    and ta: "tasks s a = Some ta" "0 \<le> t_nc ta" "t_nc ta < 3" "length (t_context ta) = 4"
    and wf: "\<forall>v\<in>set xs. \<exists>tv. tasks s v = Some tv \<and> 1 \<le> t_nc tv \<and> t_nc tv \<le> 4 \<and> length (t_context tv) = 4"
  shows "if \<exists>v\<in>set xs. runnable s v then
      \<exists>us v ws tv s'. xs = us @ v # ws \<and> (\<forall>u\<in>set us. \<not> runnable s u) \<and> runnable s v \<and> tasks s v = Some tv \<and>
        os_trap junk c clk kctx ev ctx s = Inr (t_context tv ! nat (t_nc tv - 1), s') \<and>
        curTask s' c = v \<and> currents s' c = v \<and> rings s' R \<and> cpu_quiet c s' \<and> ien s' = ien s \<and>
        (\<exists>z. tasks s' a = Some z \<and> t_status z = ZOMBIE \<and> t_excode z = sint (ucast (GPR1 ctx) :: 32 word)) \<and>
        (\<forall>p. p \<noteq> a \<longrightarrow> p \<noteq> v \<longrightarrow> tasks s' p = tasks s p)
    else os_trap junk c clk kctx ev ctx s = Inl Spin_Forever"
proof -
  let ?z = "(saved ta ctx)\<lparr>t_status := ZOMBIE, t_excode := sint (ucast (GPR1 ctx) :: 32 word)\<rparr>"
  let ?t = "saved ?z kctx"
  let ?s1 = "s\<lparr>tasks := (tasks s)(a \<mapsto> saved ta ctx)\<rparr>" and ?s2 = "s\<lparr>tasks := (tasks s)(a \<mapsto> ?z)\<rparr>"
  let ?s3 = "s\<lparr>tasks := (tasks s)(a \<mapsto> ?t)\<rparr>"
  note rc = ringsD [OF r c]
  have d: "distinct (a # xs)" using rc(1) Rc by (simp add: ring_def)
  have tz: "t_next ?t = t_next ta" "t_prev ?t = t_prev ta" "t_status ?t = ZOMBIE" by (simp_all add: saved_def)
  have save: "trap_save c ctx s = Inr ?s1" using trap_save_ok [of s c ta ctx] ta cur(2) by simp
  have "irq_handlers junk c clk ev ctx ?s1 = Inr (Yields ?s2)"
    using ev cur(1) by (simp add: irq_handlers_def SYS_handler_def Let_def exit_mark_def)
  moreover have "trap_save c kctx ?s2 = Inr ?s3"
    using trap_save_ok [of ?s2 c ?z kctx] ta cur(2) by (simp add: saved_def)
  ultimately have run: "os_trap junk c clk kctx ev ctx s = trap_return c ?s3"
    by (simp add: os_trap_def save yield_trap_def)
  have l: "nxt ?s3 = nxt s" "prv ?s3 = prv s" using links_upd [OF ta(1) tz(1,2)] by simp_all
  have ra: "\<not> runnable ?s3 a" using tz(3) by (simp add: runnable_def)
  have rx: "runnable ?s3 u = runnable s u" if "u \<noteq> a" for u using that by (simp add: runnable_def)
  have ring3: "ring (nxt ?s3) (prv ?s3) (a # xs)" unfolding l using rc(1) Rc by simp
  have sub3: "set (a # xs) \<subseteq> dom (tasks ?s3)" using rc(4) Rc by auto
  show ?thesis
  proof (cases "\<exists>v\<in>set xs. runnable s v")
    case True
    from split_list_first_prop [OF True] obtain us v ws where
      v: "xs = us @ v # ws" "runnable s v" "\<forall>u\<in>set us. \<not> runnable s u" by blast
    have va: "v \<noteq> a" "a \<notin> set us" using d v(1) by auto
    obtain tv where tv: "tasks s v = Some tv" "1 \<le> t_nc tv" "t_nc tv \<le> 4" "length (t_context tv) = 4"
      using wf v(1) by auto
    let ?s' = "?s3\<lparr>curTask := (curTask ?s3)(c := v), currents := (currents ?s3)(c := v),
      intenb := (intenb ?s3)(c := ien ?s3 c), tasks := (tasks ?s3)(v \<mapsto> tv\<lparr>t_nc := t_nc tv - 1\<rparr>)\<rparr>"
    have "trap_return c ?s3 = Inr (t_context tv ! nat (t_nc tv - 1), ?s')"
    proof (rule trap_return_ok [where a = a and xs = xs and us = us and ws = "ws @ [a]"])
      show "\<forall>u\<in>set us. \<not> runnable ?s3 u" using v(3) rx va(2) by metis
      show "runnable ?s3 v" using v(2) rx [OF va(1)] by simp
      show "xs @ [a] = us @ v # ws @ [a]" using v(1) by simp
    qed (use q cur ring3 sub3 tv va in \<open>simp_all add: cpu_quiet_def\<close>)
    moreover have "\<exists>z. tasks ?s' a = Some z \<and> t_status z = ZOMBIE \<and> t_excode z = sint (ucast (GPR1 ctx) :: 32 word)"
      using va by (simp add: saved_def)
    moreover have "rings ?s' R"
    proof -
      have "nxt ?s' = nxt s" "prv ?s' = prv s" using l tv(1) va by (auto simp: nxt_def prv_def fun_eq_iff)
      moreover have "dom (tasks ?s') = dom (tasks s)" using ta(1) tv(1) by auto
      moreover have "v \<in> set (R c)" using v(1) Rc by simp
      ultimately have "rings ?s' (R(c := R c))"
        by (intro rings_update [OF r c]) (use rc ringsD(5) [OF r _ c] in auto)
      then show ?thesis by simp
    qed
    moreover have "cpu_quiet c ?s'" using q by (simp add: cpu_quiet_def)
    ultimately have "\<exists>us v ws tv s'. xs = us @ v # ws \<and> (\<forall>u\<in>set us. \<not> runnable s u) \<and> runnable s v \<and> tasks s v = Some tv \<and>
        os_trap junk c clk kctx ev ctx s = Inr (t_context tv ! nat (t_nc tv - 1), s') \<and>
        curTask s' c = v \<and> currents s' c = v \<and> rings s' R \<and> cpu_quiet c s' \<and> ien s' = ien s \<and>
        (\<exists>z. tasks s' a = Some z \<and> t_status z = ZOMBIE \<and> t_excode z = sint (ucast (GPR1 ctx) :: 32 word)) \<and>
        (\<forall>p. p \<noteq> a \<longrightarrow> p \<noteq> v \<longrightarrow> tasks s' p = tasks s p)"
      using v tv run by (intro exI [of _ us] exI [of _ v] exI [of _ ws] exI [of _ tv] exI [of _ ?s']) simp
    then show ?thesis using True by (simp only: if_True)
  next
    case False
    let ?l = "?s3\<lparr>ien := (ien s)(c := False), nest := (nest s)(c := 1),
      intenb := (intenb s)(c := ien s c), locks := (locks s)(c := (locks s c)\<lparr>sl_flag := 1\<rparr>)\<rparr>"
    have lk: "spin_lock c c ?s3 = Inr ?l" using spin_lock_free [of ?s3 c c] q by (simp add: cpu_quiet_def)
    note cong = sched_cong [of ?l ?s3]
    have none: "\<forall>v\<in>set (a # xs). \<not> runnable ?l v"
    proof
      fix v assume "v \<in> set (a # xs)"
      then show "\<not> runnable ?l v" using False ra rx [of v] cong(3) by (cases "v = a") auto
    qed
    have "schedule c ?l = None"
    proof (cases "schedule c ?l")
      case (Some x)
      have "ring (nxt ?l) (prv ?l) (a # xs)" using ring3 cong by simp
      from schedule_none [OF Some this] none cur sub3 show ?thesis by auto
    qed simp
    then have "os_trap junk c clk kctx ev ctx s = Inl Spin_Forever"
      using lk run by (simp add: trap_return_def)
    then show ?thesis using False by (simp only: if_False)
  qed
qed

theorem os_exit_witness:
  "\<exists>s'. os_trap demo_task 0 (0, 0) zero_context \<lparr>ev_event = EVENT_SYSCALL, ev_cause = 0, ev_ref = 0\<rparr>
     (zero_context\<lparr>r_rax := 3\<rparr>) demo_two = Inr (demo_ctx, s') \<and> rings s' demo_two_rings \<and>
     map_option t_status (tasks s' 0x6042000) = Some ZOMBIE"
proof -
  note d = demo_two_facts
  have r: "demo_two_rings 0 = 0x6042000 # [0x6046000]" by (simp add: demo_two_rings_def)
  have c: "(0::nat) < cpu_count demo_two" using d(2) by simp
  have wf: "\<forall>v\<in>set [0x6046000]. \<exists>tv. tasks demo_two v = Some tv \<and> 1 \<le> t_nc tv \<and> t_nc tv \<le> 4 \<and> length (t_context tv) = 4"
    using d(7) by simp
  have ev: "ev_event \<lparr>ev_event = EVENT_SYSCALL, ev_cause = 0, ev_ref = 0\<rparr> = EVENT_SYSCALL"
    "GPRx (zero_context\<lparr>r_rax := 3\<rparr>) = 3" by simp_all
  have "\<exists>v\<in>set [0x6046000]. runnable demo_two v" using d(9) by simp
  with os_exit [OF d(1) c r d(3,4,5) ev d(6) _ _ _ wf, of demo_task "(0, 0)" zero_context]
  obtain us v ws tv s' where "[0x6046000] = us @ v # ws" "tasks demo_two v = Some tv"
    "os_trap demo_task 0 (0, 0) zero_context \<lparr>ev_event = EVENT_SYSCALL, ev_cause = 0, ev_ref = 0\<rparr>
      (zero_context\<lparr>r_rax := 3\<rparr>) demo_two = Inr (t_context tv ! nat (t_nc tv - 1), s')"
    "rings s' demo_two_rings" "map_option t_status (tasks s' 0x6042000) = Some ZOMBIE" by (auto simp: demo_task_def)
  moreover from this(1) have "v = 0x6046000" by (cases us) auto
  ultimately show ?thesis using d(7) by auto
qed

section \<open>Page faults\<close>

lemma uvm_base: "IN_RANGE a uvm_area \<Longrightarrow> IN_RANGE (baseof a) uvm_area"
proof -
  assume a: "IN_RANGE a uvm_area"
  have "(2::nat) ^ 44 div 4096 \<le> unat a div 4096" by (intro div_le_mono) (use a uvm_range in simp)
  then have "(2::nat) ^ 44 \<le> unat a div 4096 * 4096" by simp
  moreover have "unat a div 4096 * 4096 \<le> unat a" by (rule div_times_less_eq_dividend)
  ultimately show ?thesis using a unfolding uvm_range unat_baseof by linarith
qed

lemma translate_base:
  assumes "IN_RANGE a uvm_area"
  shows "translate cs asp (baseof a) = translate cs asp a"
  using va_digits [OF uvm_base [OF assms] assms] by (simp add: translate_def)

text \<open>Mapping one page of a task whose tables are sound.\<close>

lemma pgmap_ok:
  assumes t: "tasks s p = Some t" "0 \<le> t_np t" "t_np t < 64" "length (t_va t) = 64" "length (t_pa t) = 64"
    and k: "kspace (t_as t) (mem s) T D" "3 \<le> free_pages (mem s)"
    and va: "IN_RANGE va uvm_area" "baseof va = va" "baseof pa = pa" "prot \<noteq> MMAP_NONE"
      "translate (cells (mem s)) (t_as t) va = 0"
  shows "\<exists>m T'. pgmap p va pa prot s = Inr (s\<lparr>mem := m, tasks := (tasks s)(p \<mapsto>
      t\<lparr>t_va := (t_va t)[nat (t_np t) := va], t_pa := (t_pa t)[nat (t_np t) := pa], t_np := t_np t + 1\<rparr>)\<rparr>) \<and>
    kspace (t_as t) m T' (D \<union> T') \<and> T \<subseteq> T' \<and> T' \<inter> D = T \<and> free_pages (mem s) \<le> free_pages m + 3 \<and>
    (\<forall>x. baseof x \<notin> T' \<longrightarrow> cells m x = cells (mem s) x) \<and>
    (\<forall>v. IN_RANGE v uvm_area \<longrightarrow> translate (cells m) (t_as t) v =
      (if baseof v = va then map_entry pa prot else translate (cells (mem s)) (t_as t) v))"
proof -
  have "(prot = MMAP_NONE) = (translate (cells (mem s)) (t_as t) va \<noteq> 0)" using va(4,5) by simp
  from kernel_pages.map_ok [of "t_as t" "mem s" T D va pa prot, unfolded rd_pmm, OF _ k(2) va(1-3) this]
  obtain m T' where m: "vme_map pmm_ops va pa prot (t_as t, mem s) = Inr (t_as t, m)"
    "kernel_pages.space_ok (t_as t) m T' (D \<union> T')" "T \<subseteq> T'" "T' \<inter> D = T"
    "free_pages (mem s) \<le> free_pages m + 3" "\<forall>x. baseof x \<notin> T' \<longrightarrow> cells m x = cells (mem s) x"
    "\<forall>v. IN_RANGE v uvm_area \<longrightarrow> translate (cells m) (t_as t) v =
      (if baseof v = va then map_entry pa prot else translate (cells (mem s)) (t_as t) v)"
    using k(1) unfolding kspace_eq by blast
  then show ?thesis using t
    by (intro exI [of _ m] exI [of _ T']) (simp add: pgmap_def kspace_eq Let_def)
qed

text \<open>A page from the allocator, as the kernel takes it.\<close>

lemma kernel_alloc_page:
  assumes "own_pages (mem s) D" and "0 < free_pages (mem s)"
  shows "\<exists>p m. kernel_alloc c 4096 s = Inr (p, s\<lparr>mem := m\<rparr>) \<and> p \<noteq> NULL \<and> p \<notin> D \<and> baseof p = p \<and>
    own_pages m (insert p D) \<and> cells m = cells (mem s) \<and> free_pages m = free_pages (mem s) - 1"
proof -
  from kernel_pages.alloc_page [OF assms] obtain p m where
    "pgalloc pmm_ops (mem s) = Inr (p, m)" and m: "p \<noteq> NULL" "p \<notin> D" "own_pages m (insert p D)"
    "rd pmm_ops m = rd pmm_ops (mem s)" "free_pages m = free_pages (mem s) - 1" by blast
  then have "kalloc 4096 (mem s) = Inr (p, m)" by (simp add: pmm_ops_def)
  then have "kernel_alloc c 4096 s = Inr (p, s\<lparr>mem := m\<rparr>)"
    by (simp add: kernel_alloc_def safe_kalloc_def Let_def fun_upd_idem)
  moreover have "baseof p = p" using kernel_pages.own_page [OF m(3)] by simp
  ultimately show ?thesis using m by (intro exI [of _ p] exI [of _ m]) simp
qed

lemma kspace_grow:
  assumes "kspace asp m T D" and "own_pages m' (insert p D)" and "cells m' = cells m"
  shows "kspace asp m' T (insert p D)"
  using assms by (auto simp: kspace_def)

text \<open>C20. A page fault on an unmapped user address gives the current task a page it did not
  own before, mapped readable and writable at the faulting page and nowhere else, and records
  it in the task's page list; locks and interrupt flag are as before.\<close>

theorem PF_handler_correct:
  assumes cur: "tasks s (curTask s c) = Some t" and q: "cpu_quiet c s"
    and t: "0 \<le> t_np t" "t_np t < 64" "length (t_va t) = 64" "length (t_pa t) = 64" "as_pgsize (t_as t) = 4096"
    and k: "kspace (t_as t) (mem s) T D" "4 \<le> free_pages (mem s)"
    and va: "IN_RANGE (ev_ref ev) uvm_area" "translate (cells (mem s)) (t_as t) (ev_ref ev) = 0"
  shows "\<exists>s' t' pa T'. PF_handler c ev s = Inr s' \<and> tasks s' (curTask s c) = Some t' \<and> pa \<notin> D \<and>
    kspace (t_as t') (mem s') T' (insert pa D \<union> T') \<and>
    (\<forall>v. IN_RANGE v uvm_area \<longrightarrow> translate (cells (mem s')) (t_as t') v =
      (if baseof v = baseof (ev_ref ev) then pa OR 7 else translate (cells (mem s)) (t_as t) v)) \<and>
    t_np t' = t_np t + 1 \<and> t_va t' ! nat (t_np t) = baseof (ev_ref ev) \<and> t_pa t' ! nat (t_np t) = pa \<and>
    cpu_quiet c s' \<and> ien s' = ien s"
proof -
  let ?a = "curTask s c" and ?va = "baseof (ev_ref ev)"
  let ?s1 = "s\<lparr>ien := (ien s)(c := False), nest := (nest s)(c := 1),
    intenb := (intenb s)(c := ien s c), locks := (locks s)(c := (locks s c)\<lparr>sl_flag := 1\<rparr>)\<rparr>"
  have lk: "spin_lock c c s = Inr ?s1" using q by (intro spin_lock_free) (simp_all add: cpu_quiet_def)
  have own: "own_pages (mem ?s1) D" using k(1) by (simp add: kspace_def)
  have "0 < free_pages (mem ?s1)" using k(2) by simp
  from kernel_alloc_page [OF own this, where c = c] obtain pa m where
    pa: "kernel_alloc c 4096 ?s1 = Inr (pa, ?s1\<lparr>mem := m\<rparr>)"
    "pa \<noteq> NULL" "pa \<notin> D" "baseof pa = pa" "own_pages m (insert pa D)" "cells m = cells (mem ?s1)"
    "free_pages m = free_pages (mem ?s1) - 1" by blast
  let ?s2 = "?s1\<lparr>mem := m\<rparr>"
  have k2: "kspace (t_as t) (mem ?s2) T (insert pa D)" using kspace_grow [OF k(1) pa(5)] pa(6) by simp
  have fp2: "3 \<le> free_pages (mem ?s2)" using pa(7) k(2) by simp
  have t2: "tasks ?s2 ?a = Some t" using cur by simp
  have prot: "MMAP_READ OR MMAP_WRITE \<noteq> MMAP_NONE" by (simp add: MMAP_READ_def MMAP_WRITE_def MMAP_NONE_def)
  have z: "translate (cells (mem ?s2)) (t_as t) ?va = 0"
    using va translate_base [OF va(1), of "cells m" "t_as t"] pa(6) by simp
  from pgmap_ok [OF t2 t(1-4) k2 fp2 uvm_base [OF va(1)] baseof_idem pa(4) prot z] obtain m' T' where
    m': "pgmap ?a ?va pa (MMAP_READ OR MMAP_WRITE) ?s2 = Inr (?s2\<lparr>mem := m', tasks := (tasks ?s2)(?a \<mapsto>
      t\<lparr>t_va := (t_va t)[nat (t_np t) := ?va], t_pa := (t_pa t)[nat (t_np t) := pa], t_np := t_np t + 1\<rparr>)\<rparr>)"
    "kspace (t_as t) m' T' (insert pa D \<union> T')"
    "\<forall>v. IN_RANGE v uvm_area \<longrightarrow> translate (cells m') (t_as t) v =
      (if baseof v = ?va then map_entry pa (MMAP_READ OR MMAP_WRITE) else translate (cells (mem ?s2)) (t_as t) v)"
    by blast
  let ?t' = "t\<lparr>t_va := (t_va t)[nat (t_np t) := ?va], t_pa := (t_pa t)[nat (t_np t) := pa], t_np := t_np t + 1\<rparr>"
  let ?s' = "s\<lparr>mem := m', tasks := (tasks s)(?a \<mapsto> ?t'), intenb := (intenb s)(c := ien s c)\<rparr>"
  have ent: "map_entry pa (MMAP_READ OR MMAP_WRITE) = pa OR 7"
    by (simp add: map_entry_def MMAP_READ_def MMAP_WRITE_def MMAP_NONE_def PTE_P_def PTE_U_def PTE_W_def or.assoc)
  have rd: "ROUNDDOWN (ev_ref ev) 4096 = ?va" by (simp add: ROUNDDOWN_def baseof_def pgsize_mmu_def)
  have "spin_unlock c c (?s2\<lparr>mem := m', tasks := (tasks ?s2)(?a \<mapsto> ?t')\<rparr>) = Inr ?s'"
    using q by (simp add: spin_unlock_last fun_upd_idem cpu_quiet_def)
  then have run: "PF_handler c ev s = Inr ?s'"
    using lk pa(1) m'(1) cur t(5) rd by (simp add: PF_handler_def Let_def)
  have tr: "\<forall>v. IN_RANGE v uvm_area \<longrightarrow> translate (cells m') (t_as t) v =
      (if baseof v = ?va then pa OR 7 else translate (cells (mem s)) (t_as t) v)"
    using m'(3) pa(6) ent by simp
  have "cpu_quiet c ?s'" using q by (simp add: cpu_quiet_def)
  then show ?thesis using run pa(3) m'(2) tr t
    by (intro exI [of _ ?s'] exI [of _ ?t'] exI [of _ pa] exI [of _ T']) simp
qed

text \<open>A task with a fresh address space on the heap after \<open>kinit\<close>.\<close>

definition demo_user :: "AddrSpace \<Rightarrow> pmm \<Rightarrow> kernel" where
  "demo_user asp m = (demo_kernel m)\<lparr>tasks :=
     (tasks (demo_kernel m))(0x6042000 \<mapsto> (demo_task 0x6042000)\<lparr>t_as := asp\<rparr>)\<rparr>"

lemma demo_user_facts:
  "curTask (demo_user asp m) 0 = 0x6042000" "mem (demo_user asp m) = m" "cpu_quiet 0 (demo_user asp m)"
  "tasks (demo_user asp m) 0x6042000 = Some ((demo_task 0x6042000)\<lparr>t_as := asp\<rparr>)"
  by (simp_all add: demo_user_def demo_kernel_def cpu_quiet_def)

theorem PF_handler_correct_witness:
  "\<exists>asp m s' t' pa. PF_handler 0 \<lparr>ev_event = EVENT_PAGEFAULT, ev_cause = 2, ev_ref = 0x100000002abc\<rparr> (demo_user asp m) = Inr s' \<and>
     tasks s' 0x6042000 = Some t' \<and> translate (cells (mem s')) (t_as t') 0x100000002abc = pa OR 7 \<and> t_np t' = 1"
proof (rule qemu_pages)
  fix s0 assume s0: "own_pages s0 {}" "5 \<le> free_pages s0"
  have "baseof PML4_ADDR = PML4_ADDR" by (simp add: baseof_def pgsize_mmu_def PML4_ADDR_def)
  moreover have "0 < free_pages s0" using s0(2) by simp
  ultimately obtain asp m n where m: "kspace asp m {n} {n}" "free_pages m = free_pages s0 - 1" "as_pgsize asp = 4096"
    "\<forall>v. IN_RANGE v uvm_area \<longrightarrow> translate (cells m) asp v = 0"
    using kernel_pages.protect_ok [OF s0(1), of PML4_ADDR, unfolded rd_pmm] unfolding kspace_eq by blast
  let ?s = "demo_user asp m" and ?t = "(demo_task 0x6042000)\<lparr>t_as := asp\<rparr>"
  let ?ev = "\<lparr>ev_event = EVENT_PAGEFAULT, ev_cause = 2, ev_ref = 0x100000002abc\<rparr>"
  note d = demo_user_facts [of asp m]
  have c: "tasks ?s (curTask ?s 0) = Some ?t" using d by simp
  have t: "0 \<le> t_np ?t" "t_np ?t < 64" "length (t_va ?t) = 64" "length (t_pa ?t) = 64" "as_pgsize (t_as ?t) = 4096"
    using m(3) by (simp_all add: demo_task_def)
  have k: "kspace (t_as ?t) (mem ?s) {n} {n}" "4 \<le> free_pages (mem ?s)" using m(1,2) s0(2) d(2) by simp_all
  have r: "IN_RANGE (ev_ref ?ev) uvm_area" by (simp add: uvm_range)
  have z: "translate (cells (mem ?s)) (t_as ?t) (ev_ref ?ev) = 0" using m(4) r d(2) by simp
  from PF_handler_correct [OF c d(3) t k r z] obtain s' t' pa where
    "PF_handler 0 ?ev ?s = Inr s'" "tasks s' (curTask ?s 0) = Some t'"
    "\<forall>v. IN_RANGE v uvm_area \<longrightarrow> translate (cells (mem s')) (t_as t') v =
      (if baseof v = baseof (ev_ref ?ev) then pa OR 7 else translate (cells (mem ?s)) (t_as ?t) v)"
    "t_np t' = t_np ?t + 1" by blast
  then show ?thesis using r d(1)
    by (intro exI [of _ asp] exI [of _ m] exI [of _ s'] exI [of _ t'] exI [of _ pa]) (simp add: demo_task_def)
qed

text \<open>The system call \<open>getpid\<close>, seen by a process that is alone on its CPU: it resumes
  with its process id in \<open>rax\<close> and every other register unchanged.\<close>

theorem os_getpid:
  assumes r: "rings s R" and c: "c < cpu_count s" and Rc: "R c = [a]"
    and q: "cpu_quiet c s" and ev: "ev_event ev = EVENT_SYSCALL" "GPRx ctx = 12"
    and ta: "tasks s a = Some ta" "0 \<le> t_nc ta" "t_nc ta < 4" "length (t_context ta) = 4" "t_status ta = RUNNING"
  shows "\<exists>s'. os_trap junk c clk kctx ev ctx s = Inr (ctx\<lparr>r_rax := word_of_int (t_pid ta)\<rparr>, s') \<and>
    rings s' R \<and> tasks s' a = Some (ta\<lparr>t_context := (t_context ta)[nat (t_nc ta) := ctx\<lparr>r_rax := word_of_int (t_pid ta)\<rparr>]\<rparr>)"
proof -
  note rc = ringsD [OF r c]
  have cur: "curTask s c = a" "currents s c = a" using rc(2,3) Rc by simp_all
  let ?ctx = "ctx\<lparr>r_rax := word_of_int (t_pid ta)\<rparr>"
  let ?s1 = "s\<lparr>tasks := (tasks s)(a \<mapsto> saved ta ctx)\<rparr>"
  let ?t2 = "(saved ta ctx)\<lparr>t_context := (t_context ta)[nat (t_nc ta) := ?ctx]\<rparr>"
  let ?s2 = "s\<lparr>tasks := (tasks s)(a \<mapsto> ?t2)\<rparr>"
  have save: "trap_save c ctx s = Inr ?s1" using trap_save_ok [of s c ta ctx] ta cur(2) by simp
  have ctx1: "get_context (saved ta ctx) (t_nc (saved ta ctx) - 1) = Inr ctx"
    using ta by (simp add: saved_def get_context_ok)
  have "set_context a (t_nc (saved ta ctx) - 1) ?ctx ?s1 = Inr ?s2"
    using set_context_Some [of ?s1 a "saved ta ctx" "t_nc ta" ?ctx] ta by (simp add: saved_def)
  then have "getpid a ?s1 = Inr (t_pid ta, ?s2)"
    using ctx1 by (simp add: getpid_def) (simp add: saved_def)
  then have h: "irq_handlers junk c clk ev ctx ?s1 = Inr (Returned ?s2)"
    using ev cur(1) by (simp add: irq_handlers_def SYS_handler_def Let_def)
  have t2: "t_next ?t2 = t_next ta" "t_prev ?t2 = t_prev ta" "t_status ?t2 = t_status ta" "t_nc ?t2 = t_nc ta + 1"
    by (simp_all add: saved_def)
  note l = links_upd [OF ta(1) t2(1,2)] runnable_upd [OF ta(1) t2(3)]
  let ?s' = "?s2\<lparr>curTask := (curTask ?s2)(c := a), currents := (currents ?s2)(c := a),
      intenb := (intenb ?s2)(c := ien ?s2 c), tasks := (tasks ?s2)(a \<mapsto> ?t2\<lparr>t_nc := t_nc ?t2 - 1\<rparr>)\<rparr>"
  have "trap_return c ?s2 = Inr (t_context ?t2 ! nat (t_nc ?t2 - 1), ?s')"
  proof (rule trap_return_ok [where a = a and xs = "[]" and us = "[]" and ws = "[]"])
    show "ring (nxt ?s2) (prv ?s2) [a]" unfolding l using rc(1) Rc by simp
    show "runnable ?s2 a" using ta(5) by (simp add: runnable_def saved_def)
  qed (use q cur t2 ta in \<open>simp_all add: cpu_quiet_def\<close>)
  moreover have "t_context ?t2 ! nat (t_nc ?t2 - 1) = ?ctx" using t2(4) ta by simp
  ultimately have run: "os_trap junk c clk kctx ev ctx s = Inr (?ctx, ?s')"
    by (simp add: os_trap_def save h)
  have e: "?t2\<lparr>t_nc := t_nc ?t2 - 1\<rparr> = ta\<lparr>t_context := (t_context ta)[nat (t_nc ta) := ?ctx]\<rparr>"
    by (simp add: saved_def)
  have "rings ?s' R"
  proof (rule rings_cong [OF _ _ _ _ _ _ r])
    show "nxt ?s' = nxt s" "prv ?s' = prv s" using ta(1) by (auto simp: nxt_def prv_def fun_eq_iff saved_def)
  qed (use cur ta(1) in \<open>auto simp: fun_upd_idem\<close>)
  with run e show ?thesis by (intro exI [of _ ?s']) simp
qed

theorem os_getpid_witness:
  "\<exists>s'. os_trap demo_task 0 (0, 0) zero_context \<lparr>ev_event = EVENT_SYSCALL, ev_cause = 0, ev_ref = 0\<rparr>
     (zero_context\<lparr>r_rax := 12, r_rip := 0x1234\<rparr>) (demo_kernel qemu_heap) =
     Inr (zero_context\<lparr>r_rip := 0x1234, r_rax := 0\<rparr>, s') \<and> rings s' demo_rings"
proof -
  let ?k = "demo_kernel qemu_heap"
  have d: "0 < cpu_count ?k" "demo_rings 0 = [0x6042000]" "cpu_quiet 0 ?k"
    "tasks ?k 0x6042000 = Some (demo_task 0x6042000)"
    by (simp_all add: demo_kernel_def demo_rings_def cpu_quiet_def)
  have e: "ev_event \<lparr>ev_event = EVENT_SYSCALL, ev_cause = 0, ev_ref = 0\<rparr> = EVENT_SYSCALL"
    "GPRx (zero_context\<lparr>r_rax := 12, r_rip := 0x1234\<rparr>) = 12" by simp_all
  from os_getpid [OF demo_rings_ok d(1,2,3) e d(4), of demo_task "(0, 0)" zero_context] show ?thesis
    by (auto simp: demo_task_def)
qed

end
