(* ===== verification/Processes.thy ===== *)
theory Processes
  imports OsProofs
begin

text \<open>
  Creating and forking processes: \<open>ucreate\<close> and \<open>fork\<close> of \<open>uproc.c\<close> end to end, on the
  physical memory manager and the page tables.
\<close>

section \<open>Critical sections that may be nested\<close>

definition can_lock :: "nat \<Rightarrow> kernel \<Rightarrow> bool" where
  "can_lock c s \<longleftrightarrow> nest s c = 0 \<and> sl_flag (locks s c) = 0 \<or> 0 < nest s c \<and> \<not> ien s c"

lemma can_lock_quiet: "cpu_quiet c s \<Longrightarrow> can_lock c s"
  by (simp add: can_lock_def cpu_quiet_def)

lemma spin_section:
  assumes "can_lock c s"
  obtains i n b l where "spin_lock c c s = Inr (s\<lparr>ien := i, nest := n, intenb := b, locks := l\<rparr>)"
    and "\<And>s2. ien s2 = i \<Longrightarrow> nest s2 = n \<Longrightarrow> intenb s2 = b \<Longrightarrow> locks s2 = l \<Longrightarrow>
      spin_unlock c c s2 = Inr (s2\<lparr>ien := ien s, nest := nest s, locks := locks s\<rparr>)"
    and "0 < n c" and "\<not> i c"
proof (cases "nest s c = 0")
  case True
  then have f: "sl_flag (locks s c) = 0" using assms by (simp add: can_lock_def)
  have "spin_unlock c c s2 = Inr (s2\<lparr>ien := ien s, nest := nest s, locks := locks s\<rparr>)"
    if "ien s2 = (ien s)(c := False)" "nest s2 = (nest s)(c := 1)" "intenb s2 = (intenb s)(c := ien s c)"
      "locks s2 = (locks s)(c := (locks s c)\<lparr>sl_flag := 1\<rparr>)" for s2
    using that True f by (simp add: spin_unlock_last fun_upd_idem)
  then show thesis using that [OF spin_lock_free [OF True f, unfolded kernel.simps]] by simp
next
  case False
  then have n: "0 < nest s c" "\<not> ien s c" using assms by (auto simp: can_lock_def)
  let ?n = "(nest s)(c := nest s c + 1)"
  have "spin_lock c c s = Inr (s\<lparr>ien := (ien s)(c := False), nest := ?n, intenb := intenb s, locks := locks s\<rparr>)"
    using spin_lock_nested [OF n(1)] by simp
  moreover have "spin_unlock c c s2 = Inr (s2\<lparr>ien := ien s, nest := nest s, locks := locks s\<rparr>)"
    if "ien s2 = (ien s)(c := False)" "nest s2 = ?n" "intenb s2 = intenb s" "locks s2 = locks s" for s2
    using that n by (simp add: spin_unlock_nested fun_upd_idem)
  ultimately show thesis using that [where i = "(ien s)(c := False)" and n = ?n and b = "intenb s" and l = "locks s"] n by simp
qed

section \<open>Allocating a task\<close>

lemma zone_of_task: "zone_of (unat sizeof_task) = 9"
proof -
  have "ceil_log2 5944 = 13"
  proof (rule ceil_log2_eqI)
    fix j :: nat assume "j < 13"
    then have "(2::nat) ^ j \<le> 2 ^ 12" by (intro power_increasing) simp_all
    then show "2 ^ j < (5944::nat)" by simp
  qed simp
  then show ?thesis by (simp add: zone_of_def sizeof_task_def)
qed

text \<open>The heap as the kernel sees it: pages \<open>D\<close> are in use, and no free block holds a task.\<close>

definition kernel_heap :: "kernel \<Rightarrow> addr set \<Rightarrow> (nat \<Rightarrow> addr list) \<Rightarrow> bool" where
  "kernel_heap s D F \<longleftrightarrow> pmm_abs (mem s) F \<and> D \<subseteq> zone_blocks (mem s) 8 \<and> D \<inter> set (F 8) = {} \<and>
     dom (tasks s) \<inter> set (F 9) = {}"

lemma task_alloc_ok:
  assumes h: "kernel_heap s D F" and F: "F 9 = p # ps"
  shows "\<exists>m. task_alloc junk c s = Inr (p, s\<lparr>mem := m, tasks := (tasks s)(p \<mapsto> junk p)\<rparr>) \<and>
    p \<noteq> NULL \<and> p \<notin> dom (tasks s) \<and> pmm_abs m (F(9 := ps)) \<and> own_pages m D \<and>
    cells m = cells (mem s) \<and> free_pages m = length (F 8) \<and> heap_start m = heap_start (mem s) \<and>
    p \<notin> set ps"
proof -
  have a: "pmm_abs (mem s) F" using h by (simp add: kernel_heap_def)
  have le: "unat sizeof_task \<le> 2 ^ 13" by (simp add: sizeof_task_def)
  from kalloc_abs [OF a le, of p ps] F obtain m where
    m: "kalloc sizeof_task (mem s) = Inr (p, m)" "pmm_abs m (F(9 := ps))" "heap_start m = heap_start (mem s)"
    "heap_end m = heap_end (mem s)" "cells m = cells (mem s)"
    unfolding zone_of_task by blast
  have z: "zone_free (mem s) 9 (p # ps)" using pmm_absD(5) [OF a, of 9] F by simp
  then have p: "p \<in> zone_blocks (mem s) 9" "p \<notin> set ps" by (simp_all add: zone_free_def)
  have null: "p \<noteq> NULL" using zone_blocks_nonnull [OF pmm_absD(1) [OF a], of 9] p(1) by auto
  have zb: "zone_blocks m = zone_blocks (mem s)" using layout_cong(2) [OF m(3,4)] .
  have "own_pages m D"
    unfolding own_pages_def using h m(2) zb by (intro exI [of _ "F(9 := ps)"]) (simp add: kernel_heap_def)
  moreover have "free_pages m = length (F 8)" using free_pages_abs [OF m(2)] by simp
  moreover have "p \<notin> dom (tasks s)"
  proof
    assume "p \<in> dom (tasks s)"
    then have "p \<in> dom (tasks s) \<inter> set (F 9)" using F by simp
    then show False using h unfolding kernel_heap_def by blast
  qed
  moreover have "task_alloc junk c s = Inr (p, s\<lparr>mem := m, tasks := (tasks s)(p \<mapsto> junk p)\<rparr>)"
    using m(1) null by (simp add: task_alloc_def kernel_alloc_def safe_kalloc_def Let_def fun_upd_idem)
  ultimately show ?thesis using m null p(2) by (intro exI [of _ m]) simp
qed

section \<open>ucreate\<close>

lemma zero_words_fields:
  "zero_words pmm_ops n a m = m\<lparr>cells := cells (zero_words pmm_ops n a m)\<rparr>"
proof (induction n arbitrary: a m)
  case (Suc n)
  show ?case by (simp only: zero_words.simps, subst Suc) (simp add: pmm_ops_def)
qed simp

text \<open>\<open>protect\<close> takes one page and leaves the other zones alone.\<close>

lemma protect_heap:
  assumes a: "pmm_abs m F" and f: "F 8 = p # ps" and pr: "protect pmm_ops kpt m = Inr (asp, m')"
    and own: "own_pages m' E" "n \<in> E" and fr: "\<forall>x. baseof x \<noteq> n \<longrightarrow> cells m' x = cells m x"
  shows "\<exists>F'. pmm_abs m' F' \<and> F' 9 = F 9 \<and> E \<subseteq> zone_blocks m' 8 \<and> E \<inter> set (F' 8) = {}"
proof -
  have z: "zone_of (unat (4096 :: u64)) = 8" using zone_of_pow2 [of 8] by simp
  from kalloc_abs [OF a, of 4096 p ps] z f obtain m1 where m1: "kalloc 4096 m = Inr (p, m1)"
    "pmm_abs m1 (F(8 := ps))" "heap_start m1 = heap_start m" "heap_end m1 = heap_end m" "cells m1 = cells m" by auto
  obtain cs where "zero_words pmm_ops (unat pgsize_mmu div 8) p m1 = m1\<lparr>cells := cs\<rparr>"
    using zero_words_fields [of "unat pgsize_mmu div 8" p m1] by blast
  then have "m' = wr pmm_ops (slot p 0) (rd pmm_ops (m1\<lparr>cells := cs\<rparr>) (slot kpt 0)) (m1\<lparr>cells := cs\<rparr>)"
    using pr m1(1) unfolding protect_def pgallocz_def
    by (auto simp: protect_areas_eq bindR_Inr_iff pmm_ops_def)
  then obtain cs' where m': "m' = m1\<lparr>cells := cs'\<rparr>" by (simp add: pmm_ops_def)
  obtain F' where F': "pmm_abs m' F'" "E \<subseteq> zone_blocks m' 8" "E \<inter> set (F' 8) = {}" using own(1) by (auto simp: own_pages_def)
  have zb: "zone_blocks m' = zone_blocks m" using m1(3,4) by (intro layout_cong(2)) (simp_all add: m')
  have l1: "flist (cells m) (freelist (kmem_at m' 9)) (F 9)" "set (F 9) \<subseteq> zone_blocks m 9"
    using pmm_absD(5) [OF m1(2), of 9] pmm_absD(5) [OF a, of 9] m1(5) by (simp_all add: zone_free_def kmem_at_def m')
  have "cells m x = cells m' x" if x: "x \<in> set (F 9)" for x
  proof -
    have x9: "x \<in> zone_blocks m 9" using l1(2) x by blast
    have n8: "n \<in> zone_blocks m 8" using F'(2) own(2) zb by auto
    have "2 ^ (4 + 9) dvd unat x" using in_zone_blocks [OF pmm_absD(1) [OF a], of 9 x] x9 by simp
    then have "4096 dvd unat x" using dvd_trans [of 4096 8192 "unat x"] by simp
    then have "baseof x = x" by (simp add: baseof_iff)
    moreover have "x \<noteq> n" using zone_blocks_disjoint [OF pmm_absD(1) [OF a], of 8 9 n] n8 x9 by auto
    ultimately show ?thesis using fr by simp
  qed
  then have "flist (cells m') (freelist (kmem_at m' 9)) (F 9)" using l1(1) flist_cong [of "F 9" "cells m" "cells m'"] by blast
  moreover have "flist (cells m') (freelist (kmem_at m' 9)) (F' 9)" using pmm_absD(5) [OF F'(1), of 9] by (simp add: zone_free_def)
  ultimately have "F' 9 = F 9" by (rule flist_unique [rotated])
  then show ?thesis using F' by blast
qed

lemma ucreate_ok:
  assumes lk: "can_lock c s" and r: "ring (nxt s) (prv s) (curTask s c # xs)"
    and sub: "set (curTask s c # xs) \<subseteq> dom (tasks s)"
    and h: "kernel_heap s D F" and F: "F 9 = p # ps" "F 8 \<noteq> []"
    and pid: "0 \<le> pidrec s" "pidrec s < 32768" and j: "length (t_context (junk p)) = 4"
    and kp: "baseof (kernel_pt s) = kernel_pt s"
  shows "\<exists>s' n t. ucreate junk c c name s = Inr (p, s') \<and> tasks s' p = Some t \<and> p \<notin> dom (tasks s) \<and>
    t_status t = RUNNING \<and> t_nc t = 1 \<and> t_np t = 0 \<and> t_pid t = pidrec s \<and>
    t_va t = t_va (junk p) \<and> t_pa t = t_pa (junk p) \<and> length (t_context t) = 4 \<and>
    t_context t ! 0 = ucontext (t_as t) (p + sizeof_task) (t_entry t) \<and> as_pgsize (t_as t) = 4096 \<and>
    n \<notin> D \<and> kspace (t_as t) (mem s') {n} (insert n D) \<and> free_pages (mem s') = length (F 8) - 1 \<and>
    (\<forall>v. IN_RANGE v uvm_area \<longrightarrow> translate (cells (mem s')) (t_as t) v = 0) \<and>
    (\<forall>x. baseof x \<noteq> n \<longrightarrow> cells (mem s') x = cells (mem s) x) \<and>
    ring (nxt s') (prv s') (curTask s c # p # xs) \<and>
    (\<forall>x. x \<noteq> p \<longrightarrow> x \<notin> set (curTask s c # xs) \<longrightarrow> nxt s' x = nxt s x \<and> prv s' x = prv s x) \<and>
    (\<forall>q. q \<noteq> p \<longrightarrow> map_option unlinked (tasks s' q) = map_option unlinked (tasks s q)) \<and>
    curTask s' = curTask s \<and> currents s' = currents s \<and> ien s' = ien s \<and> nest s' = nest s \<and>
    locks s' = locks s \<and> glock s' = glock s \<and> cpu_count s' = cpu_count s \<and> pidrec s' = pidrec s + 1 \<and>
    pidtables s' = (pidtables s)(pidrec s := p) \<and> (\<exists>F'. kernel_heap s' (insert n D) F')"
proof -
  let ?a = "curTask s c"
  from task_alloc_ok [OF h F(1), of junk c] obtain m where
    al: "task_alloc junk c s = Inr (p, s\<lparr>mem := m, tasks := (tasks s)(p \<mapsto> junk p)\<rparr>)"
    and pn: "p \<notin> dom (tasks s)" and m: "own_pages m D" "cells m = cells (mem s)" "free_pages m = length (F 8)"
      "pmm_abs m (F(9 := ps))" "p \<notin> set ps"
    by blast
  let ?s1 = "s\<lparr>mem := m, tasks := (tasks s)(p \<mapsto> junk p)\<rparr>"
  have "can_lock c ?s1" using lk by (simp add: can_lock_def)
  then obtain i ne b l where lock: "spin_lock c c ?s1 = Inr (?s1\<lparr>ien := i, nest := ne, intenb := b, locks := l\<rparr>)"
    and unlock: "\<And>s2. ien s2 = i \<Longrightarrow> nest s2 = ne \<Longrightarrow> intenb s2 = b \<Longrightarrow> locks s2 = l \<Longrightarrow>
      spin_unlock c c s2 = Inr (s2\<lparr>ien := ien ?s1, nest := nest ?s1, locks := locks ?s1\<rparr>)"
    by (rule spin_section) blast
  have "0 < free_pages m" using m(3) F(2) by simp
  from kernel_pages.protect_ok [OF m(1) this kp, unfolded rd_pmm] obtain asp m' n where
    pr: "protect pmm_ops (kernel_pt s) m = Inr (asp, m')" and n: "n \<notin> D"
    "kernel_pages.space_ok asp m' {n} (insert n D)" "free_pages m' = free_pages m - 1"
    "as_pgsize asp = 4096" "\<forall>x. baseof x \<noteq> n \<longrightarrow> cells m' x = cells m x"
    "\<forall>v. IN_RANGE v uvm_area \<longrightarrow> translate (cells m') asp v = 0" by blast
  have nn: "nxt s ?a \<in> set (?a # xs)" using ring_next(2) [OF r] .
  obtain ta where ta: "tasks s ?a = Some ta" using sub by auto
  obtain tn where tn: "tasks s (nxt s ?a) = Some tn" using sub nn by auto
  have pa: "p \<noteq> ?a" "p \<noteq> nxt s ?a" using pn ta tn by auto
  have nta: "t_next ta = nxt s ?a" using ta by (simp add: get_task_nxt)
  let ?t1 = "(junk p)\<lparr>t_as := asp, t_name := name, t_entry := as_start asp, t_next := nxt s ?a, t_prev := ?a,
    t_np := 0, t_nc := 1, t_status := RUNNING, t_nchildren := 0, t_parent := NULL, t_children := NULL,
    t_bros := NULL, t_pid := pidrec s\<rparr>"
  let ?t = "?t1\<lparr>t_context := (t_context (junk p))[0 := ucontext asp (p + sizeof_task) (as_start asp)]\<rparr>"
  let ?T1 = "(tasks s)(p \<mapsto> ?t1, nxt s ?a \<mapsto> tn\<lparr>t_prev := p\<rparr>)"
  let ?ta = "the (?T1 ?a)"
  let ?T = "?T1(?a \<mapsto> ?ta\<lparr>t_next := p\<rparr>, p \<mapsto> ?t)"
  have ta': "?T1 ?a = Some ?ta" using ta by simp
  let ?s' = "s\<lparr>mem := m', tasks := ?T, numTask := (numTask s)(c := numTask s c + 1),
    pidtables := (pidtables s)(pidrec s := p), pidrec := pidrec s + 1, intenb := b\<rparr>"
  have run: "ucreate junk c c name s = Inr (p, ?s')"
    using al lock pr pid ta tn pa nta j unlock
    by (simp add: ucreate_def Let_def set_next_def set_prev_def set_context_Some get_task_nxt fun_upd_twist)
  have nx: "nxt ?s' = (nxt s)(p := nxt s ?a, ?a := p)" "prv ?s' = (prv s)(p := ?a, nxt s ?a := p)"
    using ta tn pa by (auto simp: nxt_def prv_def fun_eq_iff)
  have pin: "p \<notin> set (?a # xs)" using sub pn by auto
  have ring': "ring (nxt ?s') (prv ?s') (?a # p # xs)" unfolding nx by (rule ring_insert [OF r pin])
  have fr: "nxt ?s' x = nxt s x \<and> prv ?s' x = prv s x" if "x \<noteq> p" "x \<notin> set (?a # xs)" for x
  proof -
    have "x \<noteq> nxt s ?a" using that(2) nn by metis
    then show ?thesis using that unfolding nx by simp
  qed
  have un: "map_option unlinked (tasks ?s' q) = map_option unlinked (tasks s q)" if "q \<noteq> p" for q
    using that ta tn pa by (auto simp: unlinked_def)
  obtain r rs where F8: "(F(9 := ps)) 8 = r # rs" using F(2) by (cases "F 8") auto
  have "own_pages m' (insert n D)" using n(2) by (simp add: kspace_def flip: kspace_eq)
  from protect_heap [OF m(4) F8 pr this insertI1 n(5)] obtain F' where
    F': "pmm_abs m' F'" "F' 9 = ps" "insert n D \<subseteq> zone_blocks m' 8" "insert n D \<inter> set (F' 8) = {}" by auto
  have "dom (tasks ?s') = insert p (dom (tasks s))" using ta tn by auto
  moreover have "dom (tasks s) \<inter> set (p # ps) = {}" using h F(1) by (simp add: kernel_heap_def)
  ultimately have "dom (tasks ?s') \<inter> set (F' 9) = {}" using F'(2) m(5) by auto
  then have K: "\<exists>F'. kernel_heap ?s' (insert n D) F'" using F' unfolding kernel_heap_def by (intro exI [of _ F']) simp
  have "tasks ?s' p = Some ?t" by simp
  then show ?thesis
    using run n m ring' fr un j pn K
    by (intro exI [of _ ?s'] exI [of _ n] exI [of _ ?t]) (simp add: kspace_eq)
qed

section \<open>Copying the pages of a process\<close>

lemma copy_words_ok:
  assumes "own_pages m E" and "dst \<in> E" and "baseof src = src" and "src \<noteq> dst" and "k + n \<le> 512"
  shows "own_pages (copy_words n (slot dst k) (slot src k) m) E \<and>
    free_pages (copy_words n (slot dst k) (slot src k) m) = free_pages m \<and>
    (\<forall>w. k \<le> w \<longrightarrow> w < k + n \<longrightarrow> cells (copy_words n (slot dst k) (slot src k) m) (slot dst w) = cells m (slot src w)) \<and>
    (\<forall>x. (\<forall>w. k \<le> w \<longrightarrow> w < k + n \<longrightarrow> x \<noteq> slot dst w) \<longrightarrow>
      cells (copy_words n (slot dst k) (slot src k) m) x = cells m x)"
  using assms(1,5)
proof (induction n arbitrary: k m)
  case (Suc n)
  have al: "baseof dst = dst" using kernel_pages.own_page [OF Suc.prems(1)] assms(2) by simp
  let ?m1 = "m\<lparr>cells := (cells m)(slot dst k := cells m (slot src k))\<rparr>"
  have o: "own_pages ?m1 E" "free_pages ?m1 = free_pages m"
    using kernel_pages.own_wr [OF Suc.prems(1), of "slot dst k" "cells m (slot src k)"] al assms(2) Suc.prems(2)
    by (simp_all add: pmm_ops_def)
  have nxt_slot: "slot a k + 8 = slot a (Suc k)" for a by (simp add: slot_def algebra_simps)
  have eq: "copy_words (Suc n) (slot dst k) (slot src k) m = copy_words n (slot dst (Suc k)) (slot src (Suc k)) ?m1"
    by (simp add: nxt_slot)
  have "Suc k + n \<le> 512" using Suc.prems(2) by simp
  note IH = Suc.IH [OF o(1) this]
  let ?m2 = "copy_words n (slot dst (Suc k)) (slot src (Suc k)) ?m1"
  have ne: "slot dst k \<noteq> slot dst w" if "k < w" "w < 512" for w
    using slot_inj [of dst k dst w] al that by auto
  have ns: "slot src w \<noteq> slot dst k" if "w < 512" for w
    using slot_inj [of src w dst k] al assms(3,4) that Suc.prems(2) by auto
  have v: "cells ?m2 (slot dst w) = cells m (slot src w)" if w: "k \<le> w" "w < k + Suc n" for w
  proof (cases "w = k")
    case True
    have "\<forall>u. Suc k \<le> u \<longrightarrow> u < Suc k + n \<longrightarrow> slot dst k \<noteq> slot dst u" using ne Suc.prems(2) by auto
    then have "cells ?m2 (slot dst k) = cells ?m1 (slot dst k)" using IH by blast
    then show ?thesis using True by simp
  next
    case False
    then have "Suc k \<le> w" "w < Suc k + n" "w < 512" using w Suc.prems(2) by auto
    then have "cells ?m2 (slot dst w) = cells ?m1 (slot src w)" using IH by blast
    then show ?thesis using ns [OF \<open>w < 512\<close>] by simp
  qed
  have x: "cells ?m2 x = cells m x" if x: "\<forall>w. k \<le> w \<longrightarrow> w < k + Suc n \<longrightarrow> x \<noteq> slot dst w" for x
  proof -
    have "\<forall>w. Suc k \<le> w \<longrightarrow> w < Suc k + n \<longrightarrow> x \<noteq> slot dst w" using x by auto
    then have "cells ?m2 x = cells ?m1 x" using IH by blast
    moreover have "x \<noteq> slot dst k" using x by auto
    ultimately show ?thesis by simp
  qed
  have "own_pages ?m2 E" "free_pages ?m2 = free_pages m" using IH o(2) by simp_all
  then show ?case unfolding eq using v x by (intro conjI allI impI) simp_all
qed simp

lemma copy_page_ok:
  assumes "own_pages m E" and "dst \<in> E" and "baseof src = src" and "src \<noteq> dst"
  shows "own_pages (copy_words 512 dst src m) E" and "free_pages (copy_words 512 dst src m) = free_pages m"
    and "w < 512 \<Longrightarrow> cells (copy_words 512 dst src m) (slot dst w) = cells m (slot src w)"
    and "baseof x \<noteq> dst \<Longrightarrow> cells (copy_words 512 dst src m) x = cells m x"
proof -
  have s0: "slot a 0 = a" for a by (simp add: slot_def)
  note cw = copy_words_ok [OF assms, of 0 512, unfolded s0]
  note c1 = conjunct1 [OF cw] and c2 = conjunct2 [OF cw]
  note c3 = conjunct1 [OF conjunct2 [OF c2]] and c4 = conjunct2 [OF conjunct2 [OF c2]]
  show "own_pages (copy_words 512 dst src m) E" using c1 by simp
  show "free_pages (copy_words 512 dst src m) = free_pages m" using conjunct1 [OF c2] by simp
  show "cells (copy_words 512 dst src m) (slot dst w) = cells m (slot src w)" if "w < 512" using c3 that by simp
  have al: "baseof dst = dst" using kernel_pages.own_page [OF assms(1)] assms(2) by simp
  show "cells (copy_words 512 dst src m) x = cells m x" if "baseof x \<noteq> dst"
  proof (rule c4 [rule_format])
    fix w assume "w < 0 + (512::nat)"
    then have "baseof (slot dst w) = dst" using al by simp
    then show "x \<noteq> slot dst w" using that by auto
  qed simp_all
qed

text \<open>After the first \<open>k\<close> pages: the child's lists, what its tables map, the copies, and that
  nothing owned before the fork (\<open>D\<close>, with contents \<open>C\<close>) has changed.\<close>

definition fork_inv :: "(addr \<Rightarrow> u64) \<Rightarrow> addr set \<Rightarrow> addr list \<Rightarrow> addr list \<Rightarrow> nat \<Rightarrow> task \<Rightarrow> pmm \<Rightarrow> addr set \<Rightarrow> addr set \<Rightarrow> bool" where
  "fork_inv C D vas pas k t m T E \<longleftrightarrow>
     t_np t = int k \<and> length (t_va t) = 64 \<and> length (t_pa t) = 64 \<and>
     kspace (t_as t) m T E \<and> D \<subseteq> E \<and> T \<inter> D = {} \<and>
     (\<forall>i<k. t_va t ! i = vas ! i \<and> translate (cells m) (t_as t) (vas ! i) = t_pa t ! i OR 7 \<and>
        t_pa t ! i \<in> E \<and> t_pa t ! i \<notin> D \<and> t_pa t ! i \<notin> T \<and>
        (\<forall>w<512. cells m (slot (t_pa t ! i) w) = C (slot (pas ! i) w))) \<and>
     (\<forall>i<k. \<forall>j<k. i \<noteq> j \<longrightarrow> t_pa t ! i \<noteq> t_pa t ! j) \<and>
     (\<forall>v. IN_RANGE v uvm_area \<longrightarrow> (\<forall>i<k. baseof v \<noteq> vas ! i) \<longrightarrow> translate (cells m) (t_as t) v = 0) \<and>
     (\<forall>x. baseof x \<in> D \<longrightarrow> cells m x = C x)"

lemma fork_invD:
  assumes "fork_inv C D vas pas k t m T E"
  shows "t_np t = int k" and "length (t_va t) = 64" and "length (t_pa t) = 64" and "kspace (t_as t) m T E"
    and "D \<subseteq> E" and "T \<inter> D = {}"
    and "\<And>i. i < k \<Longrightarrow> t_va t ! i = vas ! i \<and> translate (cells m) (t_as t) (vas ! i) = t_pa t ! i OR 7"
    and "\<And>i. i < k \<Longrightarrow> t_pa t ! i \<in> E \<and> t_pa t ! i \<notin> D \<and> t_pa t ! i \<notin> T"
    and "\<And>i w. i < k \<Longrightarrow> w < 512 \<Longrightarrow> cells m (slot (t_pa t ! i) w) = C (slot (pas ! i) w)"
    and "\<And>i j. i < k \<Longrightarrow> j < k \<Longrightarrow> i \<noteq> j \<Longrightarrow> t_pa t ! i \<noteq> t_pa t ! j"
    and "\<And>v. IN_RANGE v uvm_area \<Longrightarrow> (\<forall>i<k. baseof v \<noteq> vas ! i) \<Longrightarrow> translate (cells m) (t_as t) v = 0"
    and "\<And>x. baseof x \<in> D \<Longrightarrow> cells m x = C x"
  using assms unfolding fork_inv_def by blast+

lemma fork_page_step:
  assumes inv: "fork_inv C D vas pas k t m T E" and k: "k < 64"
    and tq: "tasks s q = Some t" "mem s = m"
    and tp: "tasks s p = Some tp" "t_va tp = vas" "t_pa tp = pas" "as_pgsize (t_as tp) = 4096"
      "length vas = 64" "length pas = 64" "p \<noteq> q"
    and va': "\<forall>j\<le>k. IN_RANGE (vas ! j) uvm_area \<and> baseof (vas ! j) = vas ! j" "\<forall>i<k. vas ! k \<noteq> vas ! i"
    and pa: "baseof (pas ! k) = pas ! k" "pas ! k \<in> D"
    and fp: "4 \<le> free_pages m"
  shows "\<exists>m' npa T' E'. fork_pages c p q (k # is) s =
      fork_pages c p q is (s\<lparr>mem := m', tasks := (tasks s)(q \<mapsto> t\<lparr>t_va := (t_va t)[k := vas ! k],
        t_pa := (t_pa t)[k := npa], t_np := int (Suc k)\<rparr>)\<rparr>) \<and>
    fork_inv C D vas pas (Suc k) (t\<lparr>t_va := (t_va t)[k := vas ! k], t_pa := (t_pa t)[k := npa],
      t_np := int (Suc k)\<rparr>) m' T' E' \<and> free_pages m \<le> free_pages m' + 4"
proof -
  note i = fork_invD [OF inv]
  have va: "IN_RANGE (vas ! k) uvm_area" "baseof (vas ! k) = vas ! k" "\<forall>i<k. vas ! k \<noteq> vas ! i"
    using va' by simp_all
  note K = i(4) and DE = i(5) and TD = i(6)
  have own: "own_pages (mem s) E" using K tq(2) by (simp add: kspace_def)
  have "0 < free_pages (mem s)" using fp tq(2) by simp
  from kernel_alloc_page [OF own this, where c = c] obtain npa m1 where
    a: "kernel_alloc c 4096 s = Inr (npa, s\<lparr>mem := m1\<rparr>)" "npa \<noteq> NULL" "npa \<notin> E" "baseof npa = npa"
    "own_pages m1 (insert npa E)" "cells m1 = cells (mem s)" "free_pages m1 = free_pages (mem s) - 1" by blast
  let ?pa = "pas ! k" and ?va = "vas ! k"
  define m2 where "m2 = copy_words 512 npa ?pa m1"
  have ne: "?pa \<noteq> npa" using pa(2) DE a(3) by auto
  note cw = copy_page_ok [OF a(5) insertI1 pa(1) ne, folded m2_def]
  have m2: "own_pages m2 (insert npa E)" "free_pages m2 = free_pages m - 1"
    "\<And>w. w < 512 \<Longrightarrow> cells m2 (slot npa w) = cells m (slot ?pa w)"
    "\<And>x. baseof x \<noteq> npa \<Longrightarrow> cells m2 x = cells m x"
  proof -
    show "own_pages m2 (insert npa E)" "free_pages m2 = free_pages m - 1" using cw(1,2) a(7) tq(2) by simp_all
    show "cells m2 (slot npa w) = cells m (slot ?pa w)" if "w < 512" for w using cw(3) [OF that] a(6) tq(2) by simp
    show "cells m2 x = cells m x" if "baseof x \<noteq> npa" for x using cw(4) [OF that] a(6) tq(2) by simp
  qed
  have Ts: "T \<subseteq> E" "pt_tree (cells m) (baseof (as_ptr (t_as t))) T" "as_ptr (t_as t) AND PTE_P \<noteq> 0"
    using K by (auto simp: kspace_def)
  have alT: "\<forall>d\<in>T. baseof d = d" using kernel_pages.own_page [OF own] Ts(1) by blast
  have "\<forall>x. baseof x \<in> T \<longrightarrow> cells m2 x = cells m x" using m2(4) Ts(1) a(3) by (metis subsetD)
  note sc = space_cong [OF Ts(2) alT this]
  have tr2: "translate (cells m2) (t_as t) v = translate (cells m) (t_as t) v" if "IN_RANGE v uvm_area" for v
    using sc(2) [OF upath_va [OF that], of "va_leaf v"] index_bound [of 4 v]
    by (simp add: translate_def va_leaf_def)
  let ?s2 = "s\<lparr>mem := m2\<rparr>"
  have k2: "kspace (t_as t) (mem ?s2) T (insert npa E)"
    using m2(1) Ts sc(1) by (auto simp: kspace_def)
  have t2: "tasks ?s2 q = Some t" using tq(1) by simp
  have tn: "0 \<le> t_np t" "t_np t < 64" "length (t_va t) = 64" "length (t_pa t) = 64" "nat (t_np t) = k"
    using i(1,2,3) k by simp_all
  have "\<forall>i<k. baseof ?va \<noteq> vas ! i" using va(2,3) by simp
  then have z: "translate (cells (mem ?s2)) (t_as t) ?va = 0" using i(11) va(1) tr2 by simp
  have prot: "PROT_READ OR PROT_WRITE \<noteq> MMAP_NONE" by (simp add: PROT_READ_def PROT_WRITE_def MMAP_NONE_def)
  have fp2: "3 \<le> free_pages (mem ?s2)" using m2(2) fp by simp
  from pgmap_ok [OF t2 tn(1-4) k2 fp2 va(1,2) a(4) prot z] obtain m3 T' where
    p3: "pgmap q ?va npa (PROT_READ OR PROT_WRITE) ?s2 = Inr (?s2\<lparr>mem := m3, tasks := (tasks ?s2)(q \<mapsto>
      t\<lparr>t_va := (t_va t)[nat (t_np t) := ?va], t_pa := (t_pa t)[nat (t_np t) := npa], t_np := t_np t + 1\<rparr>)\<rparr>)"
    and m3: "kspace (t_as t) m3 T' (insert npa E \<union> T')" "T \<subseteq> T'" "T' \<inter> insert npa E = T"
    "free_pages (mem ?s2) \<le> free_pages m3 + 3" "\<forall>x. baseof x \<notin> T' \<longrightarrow> cells m3 x = cells (mem ?s2) x"
    "\<forall>v. IN_RANGE v uvm_area \<longrightarrow> translate (cells m3) (t_as t) v =
      (if baseof v = ?va then map_entry npa (PROT_READ OR PROT_WRITE) else translate (cells (mem ?s2)) (t_as t) v)"
    by blast
  have ent: "map_entry npa (PROT_READ OR PROT_WRITE) = npa OR 7"
    by (simp add: map_entry_def PROT_READ_def PROT_WRITE_def MMAP_WRITE_def MMAP_NONE_def PTE_P_def
        PTE_U_def PTE_W_def or.assoc)
  let ?t' = "t\<lparr>t_va := (t_va t)[k := ?va], t_pa := (t_pa t)[k := npa], t_np := int (Suc k)\<rparr>"
  have tk: "t_np t + 1 = int (Suc k)" using i(1) by simp
  have run: "fork_pages c p q (k # is) s = fork_pages c p q is (s\<lparr>mem := m3, tasks := (tasks s)(q \<mapsto> ?t')\<rparr>)"
    using a(1,2) p3 tp k tn(5) tk by (simp add: m2_def [symmetric])
  have far: "cells m3 x = cells m x" if "baseof x \<in> E" "baseof x \<notin> T" for x
  proof -
    have "baseof x \<notin> T'" using that m3(3) by blast
    moreover have "baseof x \<noteq> npa" using that(1) a(3) by auto
    ultimately show ?thesis using m3(5) m2(4) by simp
  qed
  have new: "cells m3 (slot npa w) = C (slot ?pa w)" if w: "w < 512" for w
  proof -
    have "npa \<notin> T'" using m3(3) Ts(1) a(3) by blast
    then have "cells m3 (slot npa w) = cells m2 (slot npa w)" using m3(5) a(4) w by simp
    also have "\<dots> = cells m (slot ?pa w)" using m2(3) w by simp
    also have "\<dots> = C (slot ?pa w)" using i(12) pa w by simp
    finally show ?thesis .
  qed
  have tr3: "translate (cells m3) (t_as t) v = (if baseof v = ?va then npa OR 7 else translate (cells m) (t_as t) v)"
    if "IN_RANGE v uvm_area" for v
    using m3(6) that tr2 ent by simp
  have alE: "\<forall>d\<in>E. baseof d = d" using kernel_pages.own_page [OF own] .
  have old: "t_va ?t' ! j = vas ! j \<and> t_pa ?t' ! j = t_pa t ! j \<and> t_pa t ! j \<in> E \<and> t_pa t ! j \<notin> D \<and> t_pa t ! j \<notin> T' \<and>
      (\<forall>w<512. cells m3 (slot (t_pa t ! j) w) = C (slot (pas ! j) w))" if j: "j < k" for j
  proof -
    have jj: "t_va t ! j = vas ! j" "t_pa t ! j \<in> E" "t_pa t ! j \<notin> D" "t_pa t ! j \<notin> T"
      "\<forall>w<512. cells m (slot (t_pa t ! j) w) = C (slot (pas ! j) w)" using i(7,8,9) j by simp_all
    have "t_pa t ! j \<notin> T'" using jj(2,4) m3(3) by blast
    moreover have "cells m3 (slot (t_pa t ! j) w) = cells m (slot (t_pa t ! j) w)" if "w < 512" for w
      using far [of "slot (t_pa t ! j) w"] jj(2,4) alE that by simp
    ultimately show ?thesis using jj j by simp
  qed
  have npaT: "npa \<notin> T'" "npa \<notin> D" using m3(3) Ts(1) a(3) DE by blast+
  have "fork_inv C D vas pas (Suc k) ?t' m3 T' (insert npa E \<union> T')"
    unfolding fork_inv_def
  proof (intro conjI)
    show "kspace (t_as ?t') m3 T' (insert npa E \<union> T')" using m3(1) by simp
    show "D \<subseteq> insert npa E \<union> T'" using DE by blast
    show "T' \<inter> D = {}" using m3(3) TD DE by blast
    show "\<forall>x. baseof x \<in> D \<longrightarrow> cells m3 x = C x"
    proof (intro allI impI)
      fix x assume x: "baseof x \<in> D"
      then have "cells m3 x = cells m x" using far [of x] DE TD by blast
      then show "cells m3 x = C x" using i(12) x by simp
    qed
    show "\<forall>i<Suc k. t_va ?t' ! i = vas ! i \<and> translate (cells m3) (t_as ?t') (vas ! i) = t_pa ?t' ! i OR 7 \<and>
        t_pa ?t' ! i \<in> insert npa E \<union> T' \<and> t_pa ?t' ! i \<notin> D \<and> t_pa ?t' ! i \<notin> T' \<and>
        (\<forall>w<512. cells m3 (slot (t_pa ?t' ! i) w) = C (slot (pas ! i) w))"
    proof (intro allI impI)
      fix j assume j: "j < Suc k"
      show "t_va ?t' ! j = vas ! j \<and> translate (cells m3) (t_as ?t') (vas ! j) = t_pa ?t' ! j OR 7 \<and>
        t_pa ?t' ! j \<in> insert npa E \<union> T' \<and> t_pa ?t' ! j \<notin> D \<and> t_pa ?t' ! j \<notin> T' \<and>
        (\<forall>w<512. cells m3 (slot (t_pa ?t' ! j) w) = C (slot (pas ! j) w))"
      proof (cases "j = k")
        case True
        then show ?thesis using tr3 [OF va(1)] va(2) new npaT tn(3,4) k by simp
      next
        case False
        then have jk: "j < k" using j by simp
        have t7: "translate (cells m) (t_as t) (vas ! j) = t_pa t ! j OR 7" using i(7) jk by simp
        have rj: "IN_RANGE (vas ! j) uvm_area" "baseof (vas ! j) = vas ! j" using va'(1) jk by simp_all
        have "baseof (vas ! j) \<noteq> ?va" using rj(2) va(3) jk by metis
        then have "translate (cells m3) (t_as t) (vas ! j) = t_pa t ! j OR 7" using tr3 [OF rj(1)] t7 by simp
        then show ?thesis using old [OF jk] by simp
      qed
    qed
    show "\<forall>i<Suc k. \<forall>j<Suc k. i \<noteq> j \<longrightarrow> t_pa ?t' ! i \<noteq> t_pa ?t' ! j"
    proof (intro allI impI)
      fix x y assume x: "x < Suc k" and y: "y < Suc k" and n: "x \<noteq> y"
      have a1: "t_pa ?t' ! k = npa" using tn(4) k by simp
      have a2: "t_pa ?t' ! z = t_pa t ! z \<and> t_pa t ! z \<noteq> npa" if "z < k" for z
        using i(8) that a(3) k by auto
      consider "x < k" "y < k" | "x < k" "y = k" | "x = k" "y < k" using x y n by linarith
      then show "t_pa ?t' ! x \<noteq> t_pa ?t' ! y"
      proof cases
        case 1
        then have "t_pa t ! x \<noteq> t_pa t ! y" using i(10) n by blast
        then show ?thesis using a2 1 by simp
      qed (use a1 a2 in metis)+
    qed
    show "\<forall>v. IN_RANGE v uvm_area \<longrightarrow> (\<forall>i<Suc k. baseof v \<noteq> vas ! i) \<longrightarrow> translate (cells m3) (t_as ?t') v = 0"
    proof (intro allI impI)
      fix v assume v: "IN_RANGE v uvm_area" and nv: "\<forall>i<Suc k. baseof v \<noteq> vas ! i"
      have "\<forall>i<k. baseof v \<noteq> vas ! i" "baseof v \<noteq> ?va" using nv by simp_all
      moreover have "translate (cells m) (t_as t) v = 0" using i(11) v calculation(1) by blast
      ultimately show "translate (cells m3) (t_as ?t') v = 0" using tr3 [OF v] by simp
    qed
  qed (use tn in simp_all)
  moreover have "free_pages m \<le> free_pages m3 + 4" using m2(2) m3(4) fp by simp
  ultimately show ?thesis using run by blast
qed

text \<open>The whole loop, from page \<open>k\<close> on.\<close>

lemma fork_pages_ok:
  assumes "fork_inv C D vas pas k t (mem s) T E" and "k + n \<le> 64"
    and "tasks s q = Some t"
    and tp: "tasks s p = Some tp" "t_va tp = vas" "t_pa tp = pas" "as_pgsize (t_as tp) = 4096"
      "length vas = 64" "length pas = 64" "p \<noteq> q"
    and va: "\<forall>j<np. IN_RANGE (vas ! j) uvm_area \<and> baseof (vas ! j) = vas ! j"
      "\<forall>i<np. \<forall>j<i. vas ! i \<noteq> vas ! j"
    and pa: "\<forall>j<np. baseof (pas ! j) = pas ! j \<and> pas ! j \<in> D"
    and np: "k + n = np" and "4 * n \<le> free_pages (mem s)"
  shows "\<exists>m' vas' pas' T' E'. fork_pages c p q [k..<np] s = Inr (s\<lparr>mem := m', tasks := (tasks s)(q \<mapsto>
      t\<lparr>t_va := vas', t_pa := pas', t_np := int np\<rparr>)\<rparr>) \<and>
    fork_inv C D vas pas np (t\<lparr>t_va := vas', t_pa := pas', t_np := int np\<rparr>) m' T' E'"
  using assms(1-4) np assms(15)
proof (induction n arbitrary: k t s T E)
  case 0
  have e: "t\<lparr>t_va := t_va t, t_pa := t_pa t, t_np := int np\<rparr> = t"
    using fork_invD(1) [OF 0(1)] 0(5) by simp
  have e2: "s\<lparr>mem := mem s, tasks := (tasks s)(q \<mapsto> t)\<rparr> = s" using 0(3) by (simp add: fun_upd_idem)
  let ?t = "t\<lparr>t_va := t_va t, t_pa := t_pa t, t_np := int np\<rparr>"
  have "fork_inv C D vas pas np ?t (mem s) T E" unfolding e using 0(1,5) by simp
  moreover have "fork_pages c p q [k..<np] s = Inr (s\<lparr>mem := mem s, tasks := (tasks s)(q \<mapsto> ?t)\<rparr>)"
    unfolding e e2 using 0(5) by simp
  ultimately show ?case by blast
next
  case (Suc n)
  have k: "k < 64" "k < np" using Suc.prems(2,5) by simp_all
  have v1: "\<forall>j\<le>k. IN_RANGE (vas ! j) uvm_area \<and> baseof (vas ! j) = vas ! j" using va(1) k(2) by simp
  have v2: "\<forall>i<k. vas ! k \<noteq> vas ! i" using va(2) k(2) by simp
  have p1: "baseof (pas ! k) = pas ! k" "pas ! k \<in> D" using pa k(2) by simp_all
  have f4: "4 \<le> free_pages (mem s)" using Suc.prems(6) by simp
  from fork_page_step [OF Suc.prems(1) k(1) Suc.prems(3) refl Suc.prems(4) tp(2-7) v1 v2 p1 f4,
      of c "[Suc k..<np]"]
  obtain m' npa T' E' where st: "fork_pages c p q (k # [Suc k..<np]) s =
      fork_pages c p q [Suc k..<np] (s\<lparr>mem := m', tasks := (tasks s)(q \<mapsto> t\<lparr>t_va := (t_va t)[k := vas ! k],
        t_pa := (t_pa t)[k := npa], t_np := int (Suc k)\<rparr>)\<rparr>)"
    and inv: "fork_inv C D vas pas (Suc k) (t\<lparr>t_va := (t_va t)[k := vas ! k], t_pa := (t_pa t)[k := npa],
      t_np := int (Suc k)\<rparr>) m' T' E'" and f': "free_pages (mem s) \<le> free_pages m' + 4" by blast
  let ?t1 = "t\<lparr>t_va := (t_va t)[k := vas ! k], t_pa := (t_pa t)[k := npa], t_np := int (Suc k)\<rparr>"
  let ?s1 = "s\<lparr>mem := m', tasks := (tasks s)(q \<mapsto> ?t1)\<rparr>"
  have i1: "fork_inv C D vas pas (Suc k) ?t1 (mem ?s1) T' E'" using inv by simp
  have t1: "tasks ?s1 q = Some ?t1" "tasks ?s1 p = Some tp" using tp(1) Suc.prems(4) tp(7) by simp_all
  have a: "Suc k + n \<le> 64" "Suc k + n = np" using Suc.prems(2,5) by simp_all
  have f1: "4 * n \<le> free_pages (mem ?s1)" using f' Suc.prems(6) by simp
  from Suc.IH [OF i1 a(1) t1 a(2) f1] obtain m2 vas' pas' T2 E2 where
    r: "fork_pages c p q [Suc k..<np] ?s1 = Inr (?s1\<lparr>mem := m2, tasks := (tasks ?s1)(q \<mapsto>
      ?t1\<lparr>t_va := vas', t_pa := pas', t_np := int np\<rparr>)\<rparr>)"
    and i2: "fork_inv C D vas pas np (?t1\<lparr>t_va := vas', t_pa := pas', t_np := int np\<rparr>) m2 T2 E2" by blast
  have e: "?t1\<lparr>t_va := vas', t_pa := pas', t_np := int np\<rparr> = t\<lparr>t_va := vas', t_pa := pas', t_np := int np\<rparr>"
    by simp
  have "fork_pages c p q [k..<np] s = Inr (s\<lparr>mem := m2, tasks := (tasks s)(q \<mapsto>
      t\<lparr>t_va := vas', t_pa := pas', t_np := int np\<rparr>)\<rparr>)"
    using st r k(2) by (simp add: upt_conv_Cons)
  then show ?case using i2 unfolding e by blast
qed

end
