(* ===== verification/Forking.thy ===== *)
theory Forking
  imports Processes
begin

text \<open>
  The system call \<open>fork\<close>: what parent and child are after it.
\<close>

text \<open>A process: its context stack and its page list, which lists distinct pages of user space.\<close>

definition process_ok :: "task \<Rightarrow> addr set \<Rightarrow> bool" where
  "process_ok t D \<longleftrightarrow> length (t_context t) = 4 \<and> 1 \<le> t_nc t \<and> t_nc t \<le> 4 \<and>
     length (t_va t) = 64 \<and> length (t_pa t) = 64 \<and> 0 \<le> t_np t \<and> t_np t \<le> 64 \<and> as_pgsize (t_as t) = 4096 \<and>
     (\<forall>j<nat (t_np t). IN_RANGE (t_va t ! j) uvm_area \<and> baseof (t_va t ! j) = t_va t ! j) \<and>
     (\<forall>i<nat (t_np t). \<forall>j<i. t_va t ! i \<noteq> t_va t ! j) \<and>
     (\<forall>j<nat (t_np t). baseof (t_pa t ! j) = t_pa t ! j \<and> t_pa t ! j \<in> D)"

lemma process_okD:
  assumes "process_ok t D"
  shows "length (t_context t) = 4" and "1 \<le> t_nc t" and "t_nc t \<le> 4" and "length (t_va t) = 64"
    and "length (t_pa t) = 64" and "0 \<le> t_np t" and "t_np t \<le> 64" and "as_pgsize (t_as t) = 4096"
    and "\<forall>j<nat (t_np t). IN_RANGE (t_va t ! j) uvm_area \<and> baseof (t_va t ! j) = t_va t ! j"
    and "\<forall>i<nat (t_np t). \<forall>j<i. t_va t ! i \<noteq> t_va t ! j"
    and "\<forall>j<nat (t_np t). baseof (t_pa t ! j) = t_pa t ! j \<and> t_pa t ! j \<in> D"
  using assms unfolding process_ok_def by blast+

lemma unlinked_fields:
  assumes "unlinked t = unlinked t'"
  shows "t_context t = t_context t'" and "t_nc t = t_nc t'" and "t_va t = t_va t'" and "t_pa t = t_pa t'"
    and "t_np t = t_np t'" and "t_as t = t_as t'" and "t_pid t = t_pid t'" and "t_children t = t_children t'"
    and "t_nchildren t = t_nchildren t'" and "t_status t = t_status t'"
proof -
  show "t_context t = t_context t'" "t_nc t = t_nc t'" "t_va t = t_va t'" "t_pa t = t_pa t'"
    "t_np t = t_np t'" "t_as t = t_as t'" "t_pid t = t_pid t'" "t_children t = t_children t'"
    "t_nchildren t = t_nchildren t'" "t_status t = t_status t'"
    using arg_cong [OF assms, of t_context] arg_cong [OF assms, of t_nc] arg_cong [OF assms, of t_va]
      arg_cong [OF assms, of t_pa] arg_cong [OF assms, of t_np] arg_cong [OF assms, of t_as]
      arg_cong [OF assms, of t_pid] arg_cong [OF assms, of t_children]
      arg_cong [OF assms, of t_nchildren] arg_cong [OF assms, of t_status]
    by (simp_all add: unlinked_def)
qed

text \<open>C5. \<open>fork\<close> by a process with any number of mapped pages succeeds when the kernel has
  the memory.  The child is linked after the parent in the run queue, returns 0 in \<open>rax\<close> from the
  parent's saved context with its own page table and kernel stack, and maps each page of the
  parent at the same virtual address to a fresh page with the same contents, and nothing else; the
  parent gets the child's pid; no page in use before the call is written.\<close>

theorem fork_correct:
  assumes lk: "can_lock c s" and cur: "curTask s c = p" and r: "ring (nxt s) (prv s) (p # xs)"
    and sub: "set (p # xs) \<subseteq> dom (tasks s)" and tp: "tasks s p = Some tp" "process_ok tp D"
    and h: "kernel_heap s D F" and F: "F 9 = q # qs" "1 + 4 * nat (t_np tp) \<le> length (F 8)"
    and pid: "0 \<le> pidrec s" "pidrec s < 32768"
    and j: "length (t_context (junk q)) = 4" "length (t_va (junk q)) = 64" "length (t_pa (junk q)) = 64"
    and kp: "baseof (kernel_pt s) = kernel_pt s"
  shows "\<exists>s' tq tp' T E. fork junk c p s = Inr (pidrec s, s') \<and> tasks s' q = Some tq \<and> tasks s' p = Some tp' \<and>
    ring (nxt s') (prv s') (p # q # xs) \<and> t_pid tq = pidrec s \<and> t_parent tq = p \<and> t_status tq = RUNNING \<and>
    t_nc tq = 1 \<and> t_context tq ! 0 = (t_context tp ! nat (t_nc tp - 1))
      \<lparr>r_rsp0 := q + sizeof_task, r_cr3 := as_ptr (t_as tq), r_rax := 0\<rparr> \<and>
    kspace (t_as tq) (mem s') T E \<and> D \<subseteq> E \<and> T \<inter> D = {} \<and> t_np tq = t_np tp \<and>
    (\<forall>i<nat (t_np tp). t_va tq ! i = t_va tp ! i \<and> t_pa tq ! i \<notin> D \<and>
      translate (cells (mem s')) (t_as tq) (t_va tp ! i) = t_pa tq ! i OR 7 \<and>
      (\<forall>w<512. cells (mem s') (slot (t_pa tq ! i) w) = cells (mem s) (slot (t_pa tp ! i) w))) \<and>
    (\<forall>v. IN_RANGE v uvm_area \<longrightarrow> (\<forall>i<nat (t_np tp). baseof v \<noteq> t_va tp ! i) \<longrightarrow>
      translate (cells (mem s')) (t_as tq) v = 0) \<and>
    (\<forall>x. baseof x \<in> D \<longrightarrow> cells (mem s') x = cells (mem s) x) \<and>
    unlinked tp' = unlinked (tp\<lparr>t_context := (t_context tp)[nat (t_nc tp - 1) :=
      (t_context tp ! nat (t_nc tp - 1))\<lparr>r_rax := word_of_int (pidrec s)\<rparr>],
      t_children := q, t_nchildren := t_nchildren tp + 1\<rparr>)"
proof -
  note P = process_okD [OF tp(2)]
  have r': "ring (nxt s) (prv s) (curTask s c # xs)" "set (curTask s c # xs) \<subseteq> dom (tasks s)"
    using r sub cur by simp_all
  have F8: "F 8 \<noteq> []" using F(2) by auto
  from ucreate_ok [where junk = junk and name = "''children''", OF lk r' h F(1) F8 pid j(1) kp] obtain s1 n t where
    u: "ucreate junk c c ''children'' s = Inr (q, s1)" and tq: "tasks s1 q = Some t" "q \<notin> dom (tasks s)"
    and t: "t_status t = RUNNING" "t_nc t = 1" "t_np t = 0" "t_pid t = pidrec s" "t_va t = t_va (junk q)"
      "t_pa t = t_pa (junk q)" "length (t_context t) = 4"
      "t_context t ! 0 = ucontext (t_as t) (q + sizeof_task) (t_entry t)"
    and n: "n \<notin> D" "kspace (t_as t) (mem s1) {n} (insert n D)" "free_pages (mem s1) = length (F 8) - 1"
      "\<forall>v. IN_RANGE v uvm_area \<longrightarrow> translate (cells (mem s1)) (t_as t) v = 0"
      "\<forall>x. baseof x \<noteq> n \<longrightarrow> cells (mem s1) x = cells (mem s) x"
    and rg: "ring (nxt s1) (prv s1) (curTask s c # q # xs)"
    and un: "\<forall>z. z \<noteq> q \<longrightarrow> map_option unlinked (tasks s1 z) = map_option unlinked (tasks s z)"
    by (elim exE conjE) (rule that, assumption+)
  have pq: "p \<noteq> q" using tq(2) tp(1) by auto
  obtain t1 where t1: "tasks s1 p = Some t1" "unlinked t1 = unlinked tp"
    using un pq tp(1) by (metis (no_types, lifting) map_option_eq_Some)
  note U = unlinked_fields [OF t1(2)]
  let ?np = "nat (t_np tp)" and ?i = "nat (t_nc tp - 1)"
  let ?pc = "t_context tp ! ?i"
  let ?c0 = "?pc\<lparr>r_rsp0 := q + sizeof_task, r_cr3 := as_ptr (t_as t), r_rax := 0\<rparr>"
  let ?t2 = "t\<lparr>t_context := (t_context t)[0 := ?c0]\<rparr>"
  let ?s2 = "s1\<lparr>tasks := (tasks s1)(q \<mapsto> ?t2)\<rparr>"
  have c0: "get_context t 0 = Inr (t_context t ! 0)" using t(7) by (simp add: get_context_ok)
  have cp: "get_context t1 (t_nc t1 - 1) = Inr ?pc" using P(1-3) U(1,2) by (simp add: get_context_ok)
  have uc: "r_rsp0 (t_context t ! 0) = q + sizeof_task" "r_cr3 (t_context t ! 0) = as_ptr (t_as t)"
    using t(8) by (simp_all add: ucontext_def)
  have sc: "set_context q 0 ?c0 s1 = Inr ?s2" using set_context_Some [OF tq(1), of 0 ?c0] t(7) by simp
  have inv0: "fork_inv (cells (mem s)) D (t_va tp) (t_pa tp) 0 ?t2 (mem ?s2) {n} (insert n D)"
    unfolding fork_inv_def using t(3,5,6) j n by auto
  have fp: "4 * ?np \<le> free_pages (mem ?s2)" using n(3) F(2) by simp
  have np: "0 + ?np \<le> 64" "0 + ?np = ?np" using P(7) by simp_all
  have q2: "tasks ?s2 q = Some ?t2" "tasks ?s2 p = Some t1" using t1 pq by simp_all
  have U2: "t_va t1 = t_va tp" "t_pa t1 = t_pa tp" "as_pgsize (t_as t1) = 4096" using U P(8) by simp_all
  from fork_pages_ok [OF inv0 np(1) q2 U2 P(4,5) pq P(9,10,11) np(2) fp, of c]
  obtain m vas pas T E where
    fo: "fork_pages c p q [0..<?np] ?s2 = Inr (?s2\<lparr>mem := m, tasks := (tasks ?s2)(q \<mapsto>
      ?t2\<lparr>t_va := vas, t_pa := pas, t_np := int ?np\<rparr>)\<rparr>)"
    and inv: "fork_inv (cells (mem s)) D (t_va tp) (t_pa tp) ?np (?t2\<lparr>t_va := vas, t_pa := pas, t_np := int ?np\<rparr>) m T E"
    by blast
  let ?t3 = "?t2\<lparr>t_va := vas, t_pa := pas, t_np := int ?np\<rparr>"
  let ?tq = "?t3\<lparr>t_parent := p, t_bros := t_children t1\<rparr>"
  let ?tp1 = "t1\<lparr>t_children := q, t_nchildren := t_nchildren t1 + 1\<rparr>"
  let ?tp = "?tp1\<lparr>t_context := (t_context tp)[?i := ?pc\<lparr>r_rax := word_of_int (pidrec s)\<rparr>]\<rparr>"
  let ?s' = "s1\<lparr>mem := m, tasks := (tasks s1)(q \<mapsto> ?tq, p \<mapsto> ?tp)\<rparr>"
  let ?s3 = "?s2\<lparr>mem := m, tasks := (tasks ?s2)(q \<mapsto> ?t3)\<rparr>"
  have s3: "tasks ?s3 p = Some t1" "tasks ?s3 q = Some ?t3" using t1(1) pq by simp_all
  let ?s4 = "?s3\<lparr>tasks := (tasks ?s3)(q \<mapsto> ?tq)\<rparr>"
  have u4: "upd_task q (\<lambda>n. n\<lparr>t_parent := p, t_bros := t_children t1\<rparr>) ?s3 = Inr ?s4"
    by (rule upd_task_Some [OF s3(2)])
  let ?s5 = "?s4\<lparr>tasks := (tasks ?s4)(p \<mapsto> ?tp1)\<rparr>"
  have s4: "tasks ?s4 p = Some t1" using s3(1) pq by simp
  have u5: "upd_task p (\<lambda>t. t\<lparr>t_children := q, t_nchildren := t_nchildren t + 1\<rparr>) ?s4 = Inr ?s5"
    by (rule upd_task_Some [OF s4])
  have s5: "tasks ?s5 p = Some ?tp1" "tasks ?s5 q = Some ?tq" using pq by simp_all
  have ti: "t_nc ?tp1 = t_nc tp" "t_context ?tp1 = t_context tp" using U by simp_all
  have cp1: "get_context ?tp1 (t_nc ?tp1 - 1) = Inr ?pc" using P(1-3) ti by (simp add: get_context_ok)
  let ?s6 = "?s5\<lparr>tasks := (tasks ?s5)(p \<mapsto> ?tp)\<rparr>"
  have pd: "t_pid ?tq = pidrec s" "t_nc ?tq = 1" using t(2,4) by simp_all
  have u6: "set_context p (t_nc ?tp1 - 1) (?pc\<lparr>r_rax := word_of_int (t_pid ?tq)\<rparr>) ?s5 = Inr ?s6"
    using set_context_Some [OF s5(1), of "t_nc tp - 1" "?pc\<lparr>r_rax := word_of_int (pidrec s)\<rparr>"] ti P(1-3) pd(1) by simp
  have s6: "tasks ?s6 q = Some ?tq" using pq by simp
  have c6: "get_context ?tq (t_nc ?tq - 1) = Inr ?c0" using t(7) pd(2) by (simp add: get_context_ok)
  have e6: "?tq\<lparr>t_context := (t_context ?tq)[nat (t_nc ?tq - 1) := ?c0\<lparr>r_rax := 0\<rparr>]\<rparr> = ?tq" using pd(2) by simp
  have "set_context q (t_nc ?tq - 1) (?c0\<lparr>r_rax := 0\<rparr>) ?s6 = Inr (?s6\<lparr>tasks := (tasks ?s6)(q \<mapsto> ?tq)\<rparr>)"
    using set_context_Some [OF s6, of "t_nc ?tq - 1" "?c0\<lparr>r_rax := 0\<rparr>"] t(7) pd(2) unfolding e6 by simp
  moreover have "?s6\<lparr>tasks := (tasks ?s6)(q \<mapsto> ?tq)\<rparr> = ?s'" using pq by (simp add: fun_upd_twist)
  ultimately have u7: "set_context q (t_nc ?tq - 1) (?c0\<lparr>r_rax := 0\<rparr>) ?s6 = Inr ?s'" by simp
  have "fork junk c p s = Inr (t_pid ?tq, ?s')"
    unfolding fork_def u bindR_simps prod.case get_task_Some [OF t1(1)] get_task_Some [OF tq(1)] c0 cp uc sc
      U(5) fo get_task_Some [OF s3(1)] u4 u5 get_task_Some [OF s5(1)] get_task_Some [OF s5(2)] cp1 u6 c6 u7 ..
  then have run: "fork junk c p s = Inr (pidrec s, ?s')" using t(4) by simp
  note I = fork_invD [OF inv]
  have tasks': "tasks ?s' q = Some ?tq" "tasks ?s' p = Some ?tp" using pq by simp_all
  have lnk: "nxt ?s' = nxt s1" "prv ?s' = prv s1"
    using tq(1) t1(1) by (auto simp: nxt_def prv_def fun_eq_iff)
  have rg': "ring (nxt ?s') (prv ?s') (p # q # xs)" unfolding lnk using rg cur by simp
  have ch: "t_pid ?tq = pidrec s" "t_parent ?tq = p" "t_status ?tq = RUNNING" "t_nc ?tq = 1"
    "t_context ?tq ! 0 = ?pc\<lparr>r_rsp0 := q + sizeof_task, r_cr3 := as_ptr (t_as ?tq), r_rax := 0\<rparr>"
    "t_np ?tq = t_np tp" "t_as ?tq = t_as ?t3" "mem ?s' = m" "t_va ?tq = t_va ?t3" "t_pa ?tq = t_pa ?t3"
    using t P(6) by simp_all
  have pages: "\<forall>i<?np. t_va ?tq ! i = t_va tp ! i \<and> t_pa ?tq ! i \<notin> D \<and>
      translate (cells (mem ?s')) (t_as ?tq) (t_va tp ! i) = t_pa ?tq ! i OR 7 \<and>
      (\<forall>w<512. cells (mem ?s') (slot (t_pa ?tq ! i) w) = cells (mem s) (slot (t_pa tp ! i) w))"
    using I(7-9) unfolding ch(7-10) by blast
  have none: "\<forall>v. IN_RANGE v uvm_area \<longrightarrow> (\<forall>i<?np. baseof v \<noteq> t_va tp ! i) \<longrightarrow>
      translate (cells (mem ?s')) (t_as ?tq) v = 0" using I(11) unfolding ch(7,8) by blast
  have keep: "\<forall>x. baseof x \<in> D \<longrightarrow> cells (mem ?s') x = cells (mem s) x" using I(12) unfolding ch(8) by blast
  have ks: "kspace (t_as ?tq) (mem ?s') T E" "D \<subseteq> E" "T \<inter> D = {}" using I(4-6) unfolding ch(7,8) by simp_all
  have un': "unlinked ?tp = unlinked (tp\<lparr>t_context := (t_context tp)[?i := ?pc\<lparr>r_rax := word_of_int (pidrec s)\<rparr>],
      t_children := q, t_nchildren := t_nchildren tp + 1\<rparr>)"
  proof -
    have "unlinked ?tp = (unlinked t1)\<lparr>t_context := (t_context tp)[?i := ?pc\<lparr>r_rax := word_of_int (pidrec s)\<rparr>],
      t_children := q, t_nchildren := t_nchildren t1 + 1\<rparr>" by (simp add: unlinked_def)
    also have "\<dots> = unlinked (tp\<lparr>t_context := (t_context tp)[?i := ?pc\<lparr>r_rax := word_of_int (pidrec s)\<rparr>],
      t_children := q, t_nchildren := t_nchildren tp + 1\<rparr>)" unfolding t1(2) U(9) by (simp add: unlinked_def)
    finally show ?thesis .
  qed
  show ?thesis
    by (intro exI [of _ ?s'] exI [of _ ?tq] exI [of _ ?tp] exI [of _ T] exI [of _ E] conjI)
      (rule run tasks' rg' ch(1-6) ks pages none keep un')+
qed

text \<open>A kernel whose one task, on the heap after \<open>kinit\<close>, has one page mapped.\<close>

lemma booted_heap:
  obtains m F p q qs a where "pmm_abs m F" "F 9 = q # qs" "5 \<le> length (F 8)" "p \<notin> set (F 9)" "p \<noteq> NULL"
    "baseof a = a" "a \<in> zone_blocks m 8" "a \<notin> set (F 8)"
proof (rule qemu_init)
  fix s assume s: "pmm_abs s (\<lambda>j. rev (zone_list qemu_heap j))"
  let ?F = "\<lambda>j. rev (zone_list qemu_heap j)"
  let ?B = "{0x4080000, 0x4081000, 0x4082000, 0x4083000, 0x4084000, 0x4085000 :: addr}"
  have "?B \<subseteq> set (zone_list qemu_heap 8)"
    using set_zone_list(1) [OF qemu_heap_ok(1), of 8]
    by (simp add: in_zone_blocks [OF qemu_heap_ok(1)] qemu_layout)
  then have "card ?B \<le> length (zone_list qemu_heap 8)" by (meson card_mono card_length finite_set le_trans)
  then have l8: "6 \<le> length (?F 8)" by simp
  have z9: "zlo qemu_heap 9 = 0x6040000" "zhi qemu_heap 9 = 0x7020000"
    unfolding zlo_def zhi_def qemu_layout(1) by (simp_all add: qemu_heap_def)
  have "{0x6042000, 0x6044000 :: addr} \<subseteq> set (zone_list qemu_heap 9)"
    using set_zone_list(1) [OF qemu_heap_ok(1), of 9]
    by (simp add: in_zone_blocks [OF qemu_heap_ok(1)] z9)
  then have "card {0x6042000, 0x6044000 :: addr} \<le> length (zone_list qemu_heap 9)" by (meson card_mono card_length finite_set le_trans)
  then have l9: "2 \<le> length (?F 9)" by simp
  obtain p q qs where F9: "?F 9 = p # q # qs" using l9 by (cases "?F 9"; cases "tl (?F 9)") auto
  obtain a bs where F8: "?F 8 = a # bs" using l8 by (cases "?F 8") auto
  have z: "zone_of (unat sizeof_task) = 9" "zone_of (unat (4096 :: u64)) = 8"
    using zone_of_task zone_of_pow2 [of 8] by simp_all
  have b: "unat sizeof_task \<le> 2 ^ 13" "unat (4096 :: u64) \<le> 2 ^ 13" by (simp_all add: sizeof_task_def)
  from kalloc_abs [OF s b(1), of p "q # qs"] F9 z(1) obtain s1 where
    s1: "pmm_abs s1 (?F(9 := q # qs))" "heap_start s1 = heap_start s" "heap_end s1 = heap_end s" by auto
  from kalloc_abs [OF s1(1) b(2), of a bs] F8 z(2) obtain s2 where
    s2: "pmm_abs s2 (?F(9 := q # qs, 8 := bs))" "heap_start s2 = heap_start s1" "heap_end s2 = heap_end s1" by auto
  have zf: "zone_free s 8 (a # bs)" "zone_free s 9 (p # q # qs)"
    using pmm_absD(5) [OF s, of 8] pmm_absD(5) [OF s, of 9] F8 F9 by simp_all
  have zb: "zone_blocks s2 = zone_blocks s" 
    using layout_cong(2) [OF s1(2,3)] layout_cong(2) [OF s2(2,3)] by (rule trans [rotated])
  show thesis
  proof (rule that [OF s2(1)])
    show "(?F(9 := q # qs, 8 := bs)) 9 = q # qs" by simp
    show "5 \<le> length ((?F(9 := q # qs, 8 := bs)) 8)" using l8 F8 by simp
    show "p \<notin> set ((?F(9 := q # qs, 8 := bs)) 9)" using zf(2) by (simp add: zone_free_def)
    show "p \<noteq> NULL" using zf(2) zone_blocks_nonnull [OF pmm_absD(1) [OF s], of 9] by (auto simp: zone_free_def)
    show "a \<in> zone_blocks s2 8" using zf(1) zb by (simp add: zone_free_def)
    show "a \<notin> set ((?F(9 := q # qs, 8 := bs)) 8)" using zf(1) by (simp add: zone_free_def)
    show "baseof a = a" using zf(1) zone_page_base [OF pmm_absD(1) [OF s]] by (auto simp: zone_free_def)
  qed
qed

definition demo_parent :: "addr \<Rightarrow> addr \<Rightarrow> task" where
  "demo_parent p a = (demo_task p)\<lparr>t_nc := 1, t_np := 1, t_va := (replicate 64 0)[0 := 0x100000002000],
     t_pa := (replicate 64 0)[0 := a]\<rparr>"

definition demo_forker :: "addr \<Rightarrow> addr \<Rightarrow> pmm \<Rightarrow> kernel" where
  "demo_forker p a m = (demo_kernel m)\<lparr>tasks := [p \<mapsto> demo_parent p a], curTask := (\<lambda>_. p)\<rparr>"

lemma demo_parent_ok: "baseof a = a \<Longrightarrow> process_ok (demo_parent p a) {a}"
  by (simp add: process_ok_def demo_parent_def demo_task_def uvm_range baseof_def pgsize_mmu_def)

lemma demo_forker_facts:
  "can_lock 0 (demo_forker p a m)" "curTask (demo_forker p a m) 0 = p"
  "ring (nxt (demo_forker p a m)) (prv (demo_forker p a m)) [p]"
  "tasks (demo_forker p a m) p = Some (demo_parent p a)" "set [p] \<subseteq> dom (tasks (demo_forker p a m))"
  "pidrec (demo_forker p a m) = 1" "mem (demo_forker p a m) = m"
  "baseof (kernel_pt (demo_forker p a m)) = kernel_pt (demo_forker p a m)"
  by (simp_all add: demo_forker_def demo_kernel_def demo_parent_def demo_task_def can_lock_def ring_single
      nxt_def prv_def baseof_def pgsize_mmu_def PML4_ADDR_def)

theorem fork_correct_witness:
  "\<exists>p a m q s' tq. fork demo_task 0 p (demo_forker p a m) = Inr (1, s') \<and> tasks s' q = Some tq \<and>
     ring (nxt s') (prv s') [p, q] \<and> t_va tq ! 0 = 0x100000002000 \<and> t_pa tq ! 0 \<noteq> a \<and>
     translate (cells (mem s')) (t_as tq) 0x100000002000 = t_pa tq ! 0 OR 7"
proof (rule booted_heap)
  fix m F p q qs a assume m: "pmm_abs m F" "F 9 = q # qs" "5 \<le> length (F 8)" "p \<notin> set (F 9)"
    "baseof a = a" "a \<in> zone_blocks m 8" "a \<notin> set (F 8)"
  let ?s = "demo_forker p a m"
  note d = demo_forker_facts [of p a m]
  have h: "kernel_heap ?s {a} F" using m by (simp add: kernel_heap_def demo_forker_def demo_kernel_def)
  have np: "nat (t_np (demo_parent p a)) = 1" "t_va (demo_parent p a) ! 0 = 0x100000002000"
    by (simp_all add: demo_parent_def)
  have l8: "1 + 4 * nat (t_np (demo_parent p a)) \<le> length (F 8)" using m(3) np(1) by simp
  have pid: "0 \<le> pidrec ?s" "pidrec ?s < 32768" using d(6) by simp_all
  have j: "length (t_context (demo_task q)) = 4" "length (t_va (demo_task q)) = 64" "length (t_pa (demo_task q)) = 64"
    by (simp_all add: demo_task_def)
  from fork_correct [where junk = demo_task, OF d(1-3,5,4) demo_parent_ok [OF m(5), of p] h m(2) l8 pid j d(8)] obtain s' tq where
    f: "fork demo_task 0 p ?s = Inr (pidrec ?s, s')" "tasks s' q = Some tq" "ring (nxt s') (prv s') [p, q]"
    and pg: "\<forall>i<nat (t_np (demo_parent p a)). t_va tq ! i = t_va (demo_parent p a) ! i \<and> t_pa tq ! i \<notin> {a} \<and>
      translate (cells (mem s')) (t_as tq) (t_va (demo_parent p a) ! i) = t_pa tq ! i OR 7 \<and>
      (\<forall>w<512. cells (mem s') (slot (t_pa tq ! i) w) = cells (mem ?s) (slot (t_pa (demo_parent p a) ! i) w))"
    by (elim exE conjE) (rule that, assumption+)
  have "t_va tq ! 0 = 0x100000002000 \<and> t_pa tq ! 0 \<noteq> a \<and>
     translate (cells (mem s')) (t_as tq) 0x100000002000 = t_pa tq ! 0 OR 7"
    using pg np by simp
  then show ?thesis using f d(6) by (intro exI [of _ p] exI [of _ a] exI [of _ m] exI [of _ q] exI [of _ s'] exI [of _ tq]) simp
qed

end
