(* ===== verification/Booting.thy ===== *)
theory Booting
  imports Processes
begin

text \<open>
  The start of the kernel, \<open>main\<close> of \<open>kernel/framework/main.c\<close>: from a machine whose memory is not set up,
  \<open>os_init\<close> builds the free lists of the heap, the ring of idle tasks of every processor and the locks, and
  \<open>ucreate\<close> the first process.  The state that they leave satisfies the invariants that the theories of the
  threads, the traps and the processes begin with.
\<close>

section \<open>The program\<close>

text \<open>\<open>ioe_init\<close> and \<open>cte_init\<close> change the devices and the interrupt table only; \<open>mpe_init\<close> then enters
  \<open>os->run\<close> on every processor.\<close>

fun uproc_tests :: "(addr \<Rightarrow> task) \<Rightarrow> nat list \<Rightarrow> nat \<Rightarrow> kernel \<Rightarrow> kernel result" where
  "uproc_tests junk [] c s = Inr s"
| "uproc_tests junk (i # is) c s = bindR (ucreate junk c 0 ''test'' s) (\<lambda>(p, s). uproc_tests junk is c s)"

definition kernel_main :: "(addr \<Rightarrow> task) \<Rightarrow> addr \<Rightarrow> nat \<Rightarrow> kernel \<Rightarrow> kernel result" where
  "kernel_main junk os_run c s = bindR (os_init junk os_run c s) (uproc_tests junk [1..<2] c)"

section \<open>The idle tasks\<close>

definition idle_task :: "(addr \<Rightarrow> task) \<Rightarrow> addr \<Rightarrow> addr \<Rightarrow> task" where
  "idle_task junk os_run p = (junk p)\<lparr>t_name := ''idle'', t_entry := os_run, t_next := p, t_prev := p, t_nc := 0\<rparr>"

definition idles_at :: "nat list \<Rightarrow> 'a list \<Rightarrow> (nat \<Rightarrow> 'a) \<Rightarrow> nat \<Rightarrow> 'a" where
  "idles_at is ps f i = (case map_of (zip is ps) i of None \<Rightarrow> f i | Some p \<Rightarrow> p)"

lemma idles_at_Nil [simp]: "idles_at [] ps f = f"
  by (simp add: idles_at_def fun_eq_iff)

lemma idles_at_Cons: "i \<notin> set is \<Longrightarrow> length is = length ps \<Longrightarrow> idles_at (i # is) (p # ps) f = idles_at is ps (f(i := p))"
  by (auto simp: idles_at_def fun_eq_iff split: option.splits dest!: map_of_SomeD set_zip_leftD)

lemma k_init_idles_ok:
  assumes "kernel_heap s D F" and "F 9 = ps @ rest" and "length is = length ps" and "distinct is"
  shows "\<exists>m N. k_init_idles junk os_run c is s = Inr (s\<lparr>mem := m,
      tasks := (\<lambda>p. if p \<in> set ps then Some (idle_task junk os_run p) else tasks s p),
      curTask := idles_at is ps (curTask s), currents := idles_at is ps (currents s), numTask := N\<rparr>) \<and>
    (\<forall>i. N i = (if i \<in> set is then 1 else numTask s i)) \<and>
    kernel_heap (s\<lparr>mem := m, tasks := (\<lambda>p. if p \<in> set ps then Some (idle_task junk os_run p) else tasks s p)\<rparr>) D (F(9 := rest)) \<and>
    distinct ps \<and> set ps \<inter> dom (tasks s) = {}"
  using assms
proof (induction "is" arbitrary: s F ps)
  case Nil
  then have "F(9 := rest) = F" by auto
  then show ?case using Nil by (intro exI [of _ "mem s"] exI [of _ "numTask s"]) simp
next
  case (Cons i "is")
  obtain p qs where ps: "ps = p # qs" using Cons.prems(3) by (cases ps) auto
  have F: "F 9 = p # (qs @ rest)" using Cons.prems(2) ps by simp
  obtain m where m: "task_alloc junk c s = Inr (p, s\<lparr>mem := m, tasks := (tasks s)(p \<mapsto> junk p)\<rparr>)"
    "p \<notin> dom (tasks s)" "pmm_abs m (F(9 := qs @ rest))" "own_pages m D" "p \<notin> set (qs @ rest)"
    using task_alloc_ok [OF Cons.prems(1) F, of junk c] by blast
  define s1 where "s1 = s\<lparr>mem := m, tasks := (tasks s)(p \<mapsto> idle_task junk os_run p), curTask := (curTask s)(i := p),
    numTask := (numTask s)(i := 1), currents := (currents s)(i := p)\<rparr>"
  have h: "kernel_heap s1 D (F(9 := qs @ rest))"
  proof -
    have "D \<subseteq> zone_blocks m 8" using m(4) by (auto simp: own_pages_def)
    moreover have "D \<inter> set (F 8) = {}" "dom (tasks s) \<inter> set (F 9) = {}"
      using Cons.prems(1) by (auto simp: kernel_heap_def)
    ultimately show ?thesis using m(3,5) F by (auto simp: kernel_heap_def s1_def)
  qed
  have d: "i \<notin> set is" "distinct is" "length is = length qs" using Cons.prems(3,4) ps by simp_all
  obtain m' N where IH: "k_init_idles junk os_run c is s1 = Inr (s1\<lparr>mem := m',
      tasks := (\<lambda>p. if p \<in> set qs then Some (idle_task junk os_run p) else tasks s1 p),
      curTask := idles_at is qs (curTask s1), currents := idles_at is qs (currents s1), numTask := N\<rparr>)"
    "\<forall>i. N i = (if i \<in> set is then 1 else numTask s1 i)"
    "kernel_heap (s1\<lparr>mem := m', tasks := (\<lambda>p. if p \<in> set qs then Some (idle_task junk os_run p) else tasks s1 p)\<rparr>) D (F(9 := rest))"
    "distinct qs" "set qs \<inter> dom (tasks s1) = {}"
    using Cons.IH [OF h fun_upd_same d(3,2), unfolded fun_upd_upd] by blast
  have T: "(\<lambda>q. if q \<in> set qs then Some (idle_task junk os_run q) else tasks s1 q) =
      (\<lambda>q. if q \<in> set ps then Some (idle_task junk os_run q) else tasks s q)"
    by (auto simp: ps s1_def fun_eq_iff)
  have "k_init_idles junk os_run c (i # is) s = k_init_idles junk os_run c is s1"
    using m(1) by (simp add: s1_def idle_task_def fun_upd_twist)
  also have "\<dots> = Inr (s\<lparr>mem := m', tasks := (\<lambda>q. if q \<in> set ps then Some (idle_task junk os_run q) else tasks s q),
      curTask := idles_at (i # is) ps (curTask s), currents := idles_at (i # is) ps (currents s), numTask := N\<rparr>)"
    unfolding IH(1) T using d by (simp add: s1_def ps idles_at_Cons)
  finally have run: "k_init_idles junk os_run c (i # is) s = \<dots>" .
  have K: "kernel_heap (s\<lparr>mem := m', tasks := (\<lambda>q. if q \<in> set ps then Some (idle_task junk os_run q) else tasks s q)\<rparr>) D (F(9 := rest))"
    using IH(3) unfolding T by (simp add: kernel_heap_def s1_def)
  have "distinct ps" "set ps \<inter> dom (tasks s) = {}" using IH(4,5) m(2,5) by (auto simp: ps s1_def)
  moreover have "\<forall>j. N j = (if j \<in> set (i # is) then 1 else numTask s j)" using IH(2) d(1) by (auto simp: s1_def)
  ultimately show ?case using run K by blast
qed

lemma k_init_locks_eq:
  "k_init_locks is s = s\<lparr>locks := (\<lambda>i. if i \<in> set is then \<lparr>sl_name = ''cpulock'', sl_flag = 0\<rparr> else locks s i),
     nest := (\<lambda>i. if i \<in> set is then 0 else nest s i)\<rparr>"
  by (induction "is" s rule: k_init_locks.induct) (auto simp: spin_init_def fun_eq_iff)

lemma idles_at_nth: "length is = length ps \<Longrightarrow> distinct is \<Longrightarrow> k < length is \<Longrightarrow> idles_at is ps f (is ! k) = ps ! k"
  by (simp add: idles_at_def map_of_zip_nth)

section \<open>After the initialisation\<close>

text \<open>Every processor has one idle task, alone in its ring, its locks are free, and no block of the heap is
  in use but those of the idle tasks.\<close>

definition booted :: "(addr \<Rightarrow> task) \<Rightarrow> addr \<Rightarrow> kernel \<Rightarrow> addr list \<Rightarrow> (nat \<Rightarrow> addr list) \<Rightarrow> bool" where
  "booted junk os_run s ps F \<longleftrightarrow>
     length ps = cpu_count s \<and> distinct ps \<and> rings s (\<lambda>c. [ps ! c]) \<and> kernel_heap s {} F \<and>
     tasks s = (\<lambda>p. if p \<in> set ps then Some (idle_task junk os_run p) else None) \<and>
     (\<forall>c<cpu_count s. curTask s c = ps ! c \<and> currents s c = ps ! c \<and> numTask s c = 1 \<and> cpu_quiet c s) \<and>
     cpurec s = 0 \<and> pidrec s = 1 \<and> kernel_pt s = PML4_ADDR"

lemma os_init_ok:
  assumes heap: "heap_ok (mem s)" "length (smallmem (mem s)) = 8" "length (pagemem (mem s)) = 2"
    and t: "tasks s = (\<lambda>_. None)" and n: "cpu_count s \<le> card (zone_blocks (mem s) 9)"
  shows "\<exists>s' ps F. os_init junk os_run 0 s = Inr s' \<and> booted junk os_run s' ps F \<and> cpu_count s' = cpu_count s \<and>
    ien s' = ien s \<and> length (F 9) = card (zone_blocks (mem s) 9) - cpu_count s \<and> length (F 8) = card (zone_blocks (mem s) 8)"
proof -
  let ?F = "\<lambda>j. rev (zone_list (mem s) j)" and ?n = "cpu_count s"
  obtain m0 where m0: "kinit (mem s) = Inr m0" "pmm_abs m0 ?F" using kinit_abs [OF heap] by blast
  have card: "length (?F j) = card (zone_blocks (mem s) j)" if "j < 10" for j
    using set_zone_list [OF heap(1) that] distinct_card [of "zone_list (mem s) j"] by simp
  define ps where "ps = take ?n (?F 9)"
  define rest where "rest = drop ?n (?F 9)"
  define s0 where "s0 = s\<lparr>mem := m0\<rparr>"
  have l: "length [0..<?n] = length ps" "length ps = ?n" using n card [of 9] by (simp_all add: ps_def)
  have "kernel_heap s0 {} ?F" using m0(2) t by (simp add: kernel_heap_def s0_def)
  moreover have "?F 9 = ps @ rest" unfolding ps_def rest_def by (rule append_take_drop_id [symmetric])
  ultimately obtain m N where k: "k_init_idles junk os_run 0 [0..<?n] s0 = Inr (s0\<lparr>mem := m,
      tasks := (\<lambda>p. if p \<in> set ps then Some (idle_task junk os_run p) else tasks s0 p),
      curTask := idles_at [0..<?n] ps (curTask s0), currents := idles_at [0..<?n] ps (currents s0), numTask := N\<rparr>)"
    "\<forall>i. N i = (if i \<in> set [0..<?n] then 1 else numTask s0 i)"
    "kernel_heap (s0\<lparr>mem := m, tasks := (\<lambda>p. if p \<in> set ps then Some (idle_task junk os_run p) else tasks s0 p)\<rparr>) {} (?F(9 := rest))"
    "distinct ps"
    using k_init_idles_ok [OF _ _ l(1) distinct_upt] by blast
  define s' where "s' = s0\<lparr>mem := m, tasks := (\<lambda>p. if p \<in> set ps then Some (idle_task junk os_run p) else tasks s0 p),
      curTask := idles_at [0..<?n] ps (curTask s0), currents := idles_at [0..<?n] ps (currents s0), numTask := N,
      locks := (\<lambda>i. if i < ?n then \<lparr>sl_name = ''cpulock'', sl_flag = 0\<rparr> else locks s i), nest := (\<lambda>i. if i < ?n then 0 else nest s i),
      cpurec := 0, glock := lockinit (glock s), kernel_pt := PML4_ADDR, pidrec := 1\<rparr>"
  have run: "os_init junk os_run 0 s = Inr s'"
    using m0(1) k(1) by (simp add: os_init_def pmm_init_def k_init_def Let_def k_init_locks_eq uproc_init_def vme_init_def s'_def s0_def cong: if_cong)
  have T: "tasks s' = (\<lambda>p. if p \<in> set ps then Some (idle_task junk os_run p) else None)"
    by (simp add: s'_def s0_def t cong: if_cong)
  have cur: "curTask s' c = ps ! c" "currents s' c = ps ! c" if "c < ?n" for c
    using idles_at_nth [OF l(1) distinct_upt, of c] that by (simp_all add: s'_def)
  have links: "nxt s' p = p" "prv s' p = p" if "p \<in> set ps" for p
    using that T by (simp_all add: nxt_def prv_def idle_task_def)
  have inps: "ps ! c \<in> set ps" if "c < ?n" for c using that l(2) by simp
  have cc: "cpu_count s' = ?n" by (simp add: s'_def s0_def)
  have "rings s' (\<lambda>c. [ps ! c])"
    unfolding rings_def cc
  proof (intro conjI allI impI)
    fix c assume c: "c < ?n"
    show "ring (nxt s') (prv s') [ps ! c]" using links [OF inps [OF c]] by (simp add: ring_single)
    show "curTask s' c \<in> set [ps ! c]" "currents s' c \<in> set [ps ! c]" using cur [OF c] by simp_all
    show "set [ps ! c] \<subseteq> dom (tasks s')" using T inps [OF c] by auto
  next
    fix c c' assume "c < ?n" "c' < ?n" "c \<noteq> c'"
    then show "set [ps ! c] \<inter> set [ps ! c'] = {}" using k(4) l(2) by (simp add: nth_eq_iff_index_eq)
  qed
  moreover have "kernel_heap s' {} (?F(9 := rest))" using k(3) by (simp add: kernel_heap_def s'_def s0_def)
  moreover have "\<forall>c<?n. curTask s' c = ps ! c \<and> currents s' c = ps ! c \<and> numTask s' c = 1 \<and> cpu_quiet c s'"
    using cur k(2) by (simp add: cpu_quiet_def s'_def lockinit_def)
  moreover have "cpurec s' = 0" "pidrec s' = 1" "kernel_pt s' = PML4_ADDR" "ien s' = ien s"
    by (simp_all add: s'_def s0_def)
  ultimately have "booted junk os_run s' ps (?F(9 := rest))" "ien s' = ien s" using l(2) k(4) T cc by (simp_all add: booted_def)
  moreover have "length ((?F(9 := rest)) 9) = card (zone_blocks (mem s) 9) - ?n"
    using card [of 9] by (simp add: rest_def)
  moreover have "length ((?F(9 := rest)) 8) = card (zone_blocks (mem s) 8)" using card [of 8] by simp
  ultimately show ?thesis using run cc by blast
qed

text \<open>C7. The kernel boots: on a machine with a sound heap, in which no task exists yet, \<open>main\<close> sets the kernel
  up without a failure, and the state satisfies the invariants of the scheduler and of the memory: the ring of
  each processor holds its own idle task, whose entry is \<open>os->run\<close>, and the ring of processor 0 also the first
  process, behind the idle task, runnable, with pid 1 and no page of user memory mapped.  The heap is sound:
  each zone has a free list of its blocks, which holds neither a task nor the page table \<open>n\<close> of the process,
  and the locks of the zones, those of the processors and the global ones are free.\<close>

theorem kernel_boots:
  assumes "heap_ok (mem s)" and "length (smallmem (mem s)) = 8" and "length (pagemem (mem s)) = 2"
    and "tasks s = (\<lambda>_. None)" and "0 < cpu_count s" and "cpu_count s < card (zone_blocks (mem s) 9)"
    and "zone_blocks (mem s) 8 \<noteq> {}" and "\<forall>p. length (t_context (junk p)) = 4"
  shows "\<exists>s' ps p t. kernel_main junk os_run 0 s = Inr s' \<and> length ps = cpu_count s \<and> cpu_count s' = cpu_count s \<and>
    rings s' ((\<lambda>c. [ps ! c])(0 := [ps ! 0, p])) \<and>
    (\<forall>c<cpu_count s. cpu_quiet c s' \<and> curTask s' c = ps ! c \<and> currents s' c = ps ! c \<and>
       map_option t_entry (tasks s' (ps ! c)) = Some os_run) \<and>
    tasks s' p = Some t \<and> t_status t = RUNNING \<and> t_pid t = 1 \<and>
    (\<forall>v. IN_RANGE v uvm_area \<longrightarrow> translate (cells (mem s')) (t_as t) v = 0) \<and> pidrec s' = 2 \<and>
    (\<exists>n F. kernel_heap s' {n} F \<and> kspace (t_as t) (mem s') {n} {n}) \<and>
    flag (g_lock (mem s')) = 0 \<and> (\<forall>j<8. flag (kmem_m (smallmem (mem s') ! j)) = 0) \<and>
    (\<forall>j<2. flag (kmem_m (pagemem (mem s') ! j)) = 0)"
proof -
  obtain s1 ps F where s1: "os_init junk os_run 0 s = Inr s1" "booted junk os_run s1 ps F" "cpu_count s1 = cpu_count s"
    "length (F 9) = card (zone_blocks (mem s) 9) - cpu_count s" "length (F 8) = card (zone_blocks (mem s) 8)"
    using os_init_ok [OF assms(1-4), of junk os_run] assms(6) by auto
  note B = s1(2) [unfolded booted_def s1(3)]
  have "F 9 \<noteq> []" using s1(4) assms(6) by auto
  then obtain p rest where F9: "F 9 = p # rest" by (cases "F 9") auto
  have "finite (zone_blocks (mem s) 8)" by (rule finite)
  then have F8: "F 8 \<noteq> []" using s1(5) assms(7) by auto
  have q: "cpu_quiet 0 s1" and c0: "curTask s1 0 = ps ! 0" using B assms(5) by auto
  have r0: "ring (nxt s1) (prv s1) [curTask s1 0]" and d0: "set [curTask s1 0] \<subseteq> dom (tasks s1)"
    using ringsD(1,4) [of s1 "\<lambda>c. [ps ! c]" 0] B c0 assms(5) s1(3) by simp_all
  have kp: "baseof (kernel_pt s1) = kernel_pt s1" using B by (simp add: PML4_ADDR_def baseof_def pgsize_mmu_def)
  have kh: "kernel_heap s1 {} F" and pid: "pidrec s1 = 1" using B by simp_all
  have pid01: "0 \<le> pidrec s1" "pidrec s1 < 32768" and jl: "length (t_context (junk p)) = 4" using pid assms(8) by simp_all
  obtain s' t n F' where u: "ucreate junk 0 0 ''test'' s1 = Inr (p, s')" "tasks s' p = Some t" "p \<notin> dom (tasks s1)"
    "t_status t = RUNNING" "t_pid t = pidrec s1"
    "\<forall>v. IN_RANGE v uvm_area \<longrightarrow> translate (cells (mem s')) (t_as t) v = 0"
    "ring (nxt s') (prv s') (curTask s1 0 # p # [])"
    "\<forall>x. x \<noteq> p \<longrightarrow> x \<notin> set [curTask s1 0] \<longrightarrow> nxt s' x = nxt s1 x \<and> prv s' x = prv s1 x"
    "\<forall>q. q \<noteq> p \<longrightarrow> map_option unlinked (tasks s' q) = map_option unlinked (tasks s1 q)"
    "curTask s' = curTask s1" "currents s' = currents s1" "nest s' = nest s1"
    "locks s' = locks s1" "glock s' = glock s1" "cpu_count s' = cpu_count s1" "pidrec s' = pidrec s1 + 1"
    "kernel_heap s' {n} F'" "kspace (t_as t) (mem s') {n} {n}"
    using ucreate_ok [where junk = junk and name = "''test''", OF can_lock_quiet [OF q] r0 d0 kh F9 F8 pid01 jl kp]
    by (elim exE conjE) (rule that, assumption+)
  have dom: "dom (tasks s1) \<subseteq> dom (tasks s')"
  proof
    fix x assume x: "x \<in> dom (tasks s1)"
    then have "x \<noteq> p" using u(3) by auto
    then have "map_option unlinked (tasks s' x) = map_option unlinked (tasks s1 x)" using u(9) by blast
    then show "x \<in> dom (tasks s')" using x by auto
  qed
  have L: "flag (kmem_m (kmem_at (mem s') j)) = 0" if "j < 10" for j
    using u(17) that by (simp add: kernel_heap_def pmm_abs_def zone_free_def)
  have "rings s' ((\<lambda>c. [ps ! c])(0 := [ps ! 0, p]))"
  proof (rule rings_update [where s = s1])
    show "rings s1 (\<lambda>c. [ps ! c])" "0 < cpu_count s1" "cpu_count s' = cpu_count s1" using B assms(5) s1(3) u(15) by simp_all
    show "ring (nxt s') (prv s') [ps ! 0, p]" using u(7) c0 by simp
    show "set [ps ! 0, p] \<subseteq> dom (tasks s')" using d0 dom c0 u(2) by auto
    show "curTask s' 0 \<in> set [ps ! 0, p]" "currents s' 0 \<in> set [ps ! 0, p]" using B c0 u(10,11) assms(5) by auto
    show "dom (tasks s1) \<subseteq> dom (tasks s')" by (rule dom)
    fix c assume c: "c < cpu_count s1" "c \<noteq> 0"
    show "curTask s' c = curTask s1 c \<and> currents s' c = currents s1 c" using u(10,11) by simp
    have ne: "ps ! c \<noteq> ps ! 0" using B c s1(3) assms(5) by (simp add: nth_eq_iff_index_eq)
    have np: "ps ! c \<noteq> p" using B c s1(3) u(3) by auto
    show "set [ps ! c] \<inter> set [ps ! 0, p] = {}" using ne np by simp
    fix x assume "x \<in> set [ps ! c]"
    then show "nxt s' x = nxt s1 x \<and> prv s' x = prv s1 x" using u(8) ne np c0 by auto
  qed
  moreover have "map_option t_entry (tasks s' (ps ! c)) = Some os_run" if "c < cpu_count s" for c
  proof -
    have Ts: "tasks s1 = (\<lambda>p. if p \<in> set ps then Some (idle_task junk os_run p) else None)" and "length ps = cpu_count s" using B by simp_all
    then have T: "tasks s1 (ps ! c) = Some (idle_task junk os_run (ps ! c))" using that by (simp only: Ts) simp
    then have "ps ! c \<noteq> p" using u(3) by auto
    then have "map_option unlinked (tasks s' (ps ! c)) = Some (unlinked (idle_task junk os_run (ps ! c)))" using u(9) T by simp
    then obtain t' where t': "tasks s' (ps ! c) = Some t'" "unlinked t' = unlinked (idle_task junk os_run (ps ! c))" by auto
    show ?thesis using t'(1) unlinked_eq(2) [OF t'(2)] by (simp add: idle_task_def)
  qed
  moreover have "kernel_main junk os_run 0 s = Inr s'" using s1(1) u(1) by (simp add: kernel_main_def upt_conv_Cons)
  moreover have "\<forall>c<cpu_count s. cpu_quiet c s' \<and> curTask s' c = ps ! c \<and> currents s' c = ps ! c"
    using B u(10-14) by (simp add: cpu_quiet_def)
  moreover have "flag (kmem_m (pagemem (mem s') ! j)) = 0" if "j < 2" for j using L [of "j + 8"] that by (simp add: kmem_at_def)
  moreover have "flag (kmem_m (smallmem (mem s') ! j)) = 0" if "j < 8" for j using L [of j] that by (simp add: kmem_at_def)
  moreover have "flag (g_lock (mem s')) = 0" using u(17) by (simp add: kernel_heap_def pmm_abs_def)
  moreover have "\<exists>n F. kernel_heap s' {n} F \<and> kspace (t_as t) (mem s') {n} {n}" using u(17,18) by blast
  ultimately show ?thesis using B u(2,4,5,6,15,16) s1(3) pid by (intro exI [of _ s'] exI [of _ ps] exI [of _ p] exI [of _ t]) simp
qed

text \<open>The 128 MiB machine of QEMU with two processors.\<close>

theorem kernel_boots_witness:
  "\<exists>s' a b p t. kernel_main demo_task 0x100500 0 ((demo_kernel qemu_heap)\<lparr>tasks := (\<lambda>_. None)\<rparr>) = Inr s' \<and>
    ring (nxt s') (prv s') [a, p] \<and> ring (nxt s') (prv s') [b] \<and> tasks s' p = Some t \<and> t_pid t = 1"
proof -
  let ?s = "(demo_kernel qemu_heap)\<lparr>tasks := (\<lambda>_. None)\<rparr>"
  have m: "mem ?s = qemu_heap" "tasks ?s = (\<lambda>_. None)" "cpu_count ?s = 2" by (simp_all add: demo_kernel_def)
  have z9: "zlo qemu_heap 9 = 0x6040000" "zhi qemu_heap 9 = 0x7020000"
    unfolding zlo_def zhi_def qemu_layout(1) by (simp_all add: qemu_heap_def)
  have "{0x6042000, 0x6044000, 0x6046000} \<subseteq> zone_blocks qemu_heap 9"
    by (simp add: in_zone_blocks [OF qemu_heap_ok(1)] z9)
  then have "card {0x6042000, 0x6044000, 0x6046000 :: addr} \<le> card (zone_blocks qemu_heap 9)"
    by (intro card_mono) simp_all
  then have n: "cpu_count ?s < card (zone_blocks (mem ?s) 9)" unfolding m by simp
  have ne: "zone_blocks (mem ?s) 8 \<noteq> {}" unfolding m using qemu_first_page by blast
  obtain s' ps p t where b: "kernel_main demo_task 0x100500 0 ?s = Inr s'" "cpu_count s' = cpu_count ?s"
    "rings s' ((\<lambda>c. [ps ! c])(0 := [ps ! 0, p]))" "tasks s' p = Some t" "t_pid t = 1"
    using kernel_boots [of ?s demo_task "0x100500"] qemu_heap_ok n ne unfolding m by (auto simp: demo_task_def)
  have "ring (nxt s') (prv s') [ps ! 0, p]" "ring (nxt s') (prv s') [ps ! 1]"
    using ringsD(1) [OF b(3), of 0] ringsD(1) [OF b(3), of 1] b(2) m(3) by simp_all
  then show ?thesis using b(1,4,5) by blast
qed

end
