(* ===== verification/Klib.thy ===== *)
theory Klib
  imports Prelude "HOL-Library.Signed_Division"
begin

text \<open>
  The kernel's C library: \<open>string.c\<close>, \<open>stdlib.c\<close> and \<open>stdio.c\<close> of \<open>abstract-machine/klib/src\<close>, on a
  memory of bytes.  A scan for a terminating NUL may not end, so it is a partial function; loops
  with a counter recurse on it.  A \<open>char\<close> is signed on this machine.
\<close>

type_synonym bytes = "addr \<Rightarrow> u8"

abbreviation nonnull :: "addr \<Rightarrow> (unit \<Rightarrow> 'a result) \<Rightarrow> 'a result" where
  "nonnull p k \<equiv> bindR (guardR Assert_Fail (p \<noteq> NULL)) k"

section \<open>string.c\<close>

partial_function (option) strlen_loop :: "bytes \<Rightarrow> addr \<Rightarrow> u64 \<Rightarrow> u64 result option" where
  "strlen_loop m s i = (if m (s + i) = 0 then Some (Inr i) else strlen_loop m s (i + 1))"

definition strlen :: "bytes \<Rightarrow> addr \<Rightarrow> u64 result" where
  "strlen m s = nonnull s (\<lambda>_. returns (strlen_loop m s 0))"

partial_function (option) strcpy_loop :: "addr \<Rightarrow> addr \<Rightarrow> u64 \<Rightarrow> bytes \<Rightarrow> bytes result option" where
  "strcpy_loop dst src i m =
     (if m (src + i) \<noteq> 0 then strcpy_loop dst src (i + 1) (m(dst + i := m (src + i)))
      else Some (Inr (m(dst + i := 0))))"

definition strcpy :: "addr \<Rightarrow> addr \<Rightarrow> bytes \<Rightarrow> (addr \<times> bytes) result" where
  "strcpy dst src m = nonnull dst (\<lambda>_. nonnull src (\<lambda>_.
     bindR (returns (strcpy_loop dst src 0 m)) (\<lambda>m'. Inr (dst, m'))))"

text \<open>\<open>*tmp1 = *tmp2; tmp1++, tmp2++\<close>, \<open>n\<close> times.\<close>

fun copy_up :: "nat \<Rightarrow> addr \<Rightarrow> addr \<Rightarrow> bytes \<Rightarrow> bytes" where
  "copy_up 0 dst src m = m"
| "copy_up (Suc n) dst src m = copy_up n (dst + 1) (src + 1) (m(dst := m src))"

fun copy_down :: "nat \<Rightarrow> addr \<Rightarrow> addr \<Rightarrow> bytes \<Rightarrow> bytes" where
  "copy_down 0 dst src m = m"
| "copy_down (Suc n) dst src m = copy_down n (dst - 1) (src - 1) (m(dst := m src))"

definition strncpy :: "addr \<Rightarrow> addr \<Rightarrow> u64 \<Rightarrow> bytes \<Rightarrow> (addr \<times> bytes) result" where
  "strncpy dst src n m = nonnull dst (\<lambda>_. nonnull src (\<lambda>_.
     let m' = copy_up (unat n) dst src m in Inr (dst, m'(dst + n := 0))))"

text \<open>\<open>int\<close> indices: going past \<open>INT_MAX\<close> is undefined.\<close>

partial_function (option) strcat_end :: "bytes \<Rightarrow> addr \<Rightarrow> int \<Rightarrow> int result option" where
  "strcat_end m dst len1 =
     (if m (dst + word_of_int len1) \<noteq> 0
      then if len1 + 1 < 2 ^ 31 then strcat_end m dst (len1 + 1) else Some (Inl Undefined_Behaviour)
      else Some (Inr len1))"

partial_function (option) strcat_loop :: "addr \<Rightarrow> addr \<Rightarrow> int \<Rightarrow> int \<Rightarrow> bytes \<Rightarrow> bytes result option" where
  "strcat_loop dst src len1 len2 m =
     (if m (src + word_of_int len2) \<noteq> 0
      then if len1 + len2 + 1 < 2 ^ 31
        then strcat_loop dst src len1 (len2 + 1) (m(dst + word_of_int (len1 + len2) := m (src + word_of_int len2)))
        else Some (Inl Undefined_Behaviour)
      else Some (Inr (m(dst + word_of_int (len1 + len2) := 0))))"

definition strcat :: "addr \<Rightarrow> addr \<Rightarrow> bytes \<Rightarrow> (addr \<times> bytes) result" where
  "strcat dst src m =
     bindR (returns (strcat_end m dst 0)) (\<lambda>len1.
     bindR (returns (strcat_loop dst src len1 0 m)) (\<lambda>m'. Inr (dst, m')))"

text \<open>What \<open>strcmp\<close> and \<open>strncmp\<close> make of the two bytes they stop at.\<close>

definition cmp_stop :: "u8 \<Rightarrow> u8 \<Rightarrow> int" where
  "cmp_stop a b =
     (if a = 0 \<or> sint a < sint b then -1 else if b = 0 \<or> sint a > sint b then 1 else 0)"

partial_function (option) strcmp_loop :: "bytes \<Rightarrow> addr \<Rightarrow> addr \<Rightarrow> int result option" where
  "strcmp_loop m s1 s2 =
     (if m s1 = m s2 then if m s1 = 0 then Some (Inr 0) else strcmp_loop m (s1 + 1) (s2 + 1)
      else Some (Inr (cmp_stop (m s1) (m s2))))"

definition strcmp :: "bytes \<Rightarrow> addr \<Rightarrow> addr \<Rightarrow> int result" where
  "strcmp m s1 s2 = nonnull s1 (\<lambda>_. nonnull s2 (\<lambda>_. returns (strcmp_loop m s1 s2)))"

text \<open>The first argument is \<open>n - cnt\<close>.\<close>

fun strncmp_loop :: "nat \<Rightarrow> bytes \<Rightarrow> addr \<Rightarrow> addr \<Rightarrow> int" where
  "strncmp_loop 0 m s1 s2 = 0"
| "strncmp_loop (Suc r) m s1 s2 =
     (if m s1 = m s2 then strncmp_loop r m (s1 + 1) (s2 + 1) else cmp_stop (m s1) (m s2))"

definition strncmp :: "bytes \<Rightarrow> addr \<Rightarrow> addr \<Rightarrow> u64 \<Rightarrow> int result" where
  "strncmp m s1 s2 n = nonnull s1 (\<lambda>_. nonnull s2 (\<lambda>_. Inr (strncmp_loop (unat n) m s1 s2)))"

fun memset_loop :: "nat \<Rightarrow> addr \<Rightarrow> u8 \<Rightarrow> bytes \<Rightarrow> bytes" where
  "memset_loop 0 s c m = m"
| "memset_loop (Suc n) s c m = memset_loop n (s + 1) c (m(s := c))"

definition memset :: "addr \<Rightarrow> u32 \<Rightarrow> u64 \<Rightarrow> bytes \<Rightarrow> addr \<times> bytes" where
  "memset s c n m = (s, memset_loop (unat n) s (ucast c) m)"

definition memmove :: "addr \<Rightarrow> addr \<Rightarrow> u64 \<Rightarrow> bytes \<Rightarrow> (addr \<times> bytes) result" where
  "memmove dst src n m =
     bindR (guardR Assert_Fail (dst \<noteq> NULL \<and> src \<noteq> NULL)) (\<lambda>_.
       Inr (dst,
         if src < dst then copy_up (unat n) dst src m
         else if src > dst then copy_down (unat n) (dst + (n - 1)) (src + (n - 1)) m
         else m))"

definition memcpy :: "addr \<Rightarrow> addr \<Rightarrow> u64 \<Rightarrow> bytes \<Rightarrow> addr \<times> bytes" where
  "memcpy out inp n m = (out, copy_up (unat n) out inp m)"

fun memcmp_loop :: "nat \<Rightarrow> bytes \<Rightarrow> addr \<Rightarrow> addr \<Rightarrow> addr \<Rightarrow> addr \<Rightarrow> int" where
  "memcmp_loop 0 m s1 s2 tmp1 tmp2 = 0"
| "memcmp_loop (Suc n) m s1 s2 tmp1 tmp2 =
     (if tmp1 = NULL then 0
      else if m tmp1 \<noteq> m tmp2 then if uint (m s1) - uint (m s2) > 0 then 1 else -1
      else memcmp_loop n m s1 s2 (tmp1 + 1) (tmp2 + 1))"

definition memcmp :: "bytes \<Rightarrow> addr \<Rightarrow> addr \<Rightarrow> u64 \<Rightarrow> int result" where
  "memcmp m s1 s2 n = nonnull s1 (\<lambda>_. nonnull s2 (\<lambda>_. Inr (memcmp_loop (unat n) m s1 s2 s1 s2)))"

section \<open>stdlib.c\<close>

record klib =
  addr_rec :: addr
  next_rand :: u64

definition rand :: "klib \<Rightarrow> int \<times> klib" where
  "rand k = (let n = next_rand k * 1103515245 + 12345 in
     (uint ((ucast (n div 65536) :: u32) mod 32768), k\<lparr>next_rand := n\<rparr>))"

definition srand :: "u32 \<Rightarrow> klib \<Rightarrow> klib" where
  "srand seed k = k\<lparr>next_rand := ucast seed\<rparr>"

definition abs_c :: "int \<Rightarrow> int result" where
  "abs_c x = (if x < 0 then if x = - (2 ^ 31) then Inl Undefined_Behaviour else Inr (- x) else Inr x)"

partial_function (option) atoi_spaces :: "bytes \<Rightarrow> addr \<Rightarrow> addr result option" where
  "atoi_spaces m p = (if m p = 0x20 then atoi_spaces m (p + 1) else Some (Inr p))"

text \<open>\<open>x * 10 + *nptr - '0'\<close> with its overflow checks, from left to right.\<close>

partial_function (option) atoi_digits :: "bytes \<Rightarrow> addr \<Rightarrow> int \<Rightarrow> int result option" where
  "atoi_digits m p x =
     (if sint (m p) \<ge> 48 \<and> sint (m p) \<le> 57
      then if x * 10 + sint (m p) < 2 ^ 31
        then atoi_digits m (p + 1) (x * 10 + sint (m p) - 48) else Some (Inl Undefined_Behaviour)
      else Some (Inr x))"

definition atoi :: "bytes \<Rightarrow> addr \<Rightarrow> int result" where
  "atoi m nptr =
     bindR (returns (atoi_spaces m nptr)) (\<lambda>p. returns (atoi_digits m p 0))"

definition malloc :: "addr \<Rightarrow> u64 \<Rightarrow> klib \<Rightarrow> addr \<times> klib" where
  "malloc heap_start sz k =
     (let rec = (if addr_rec k = NULL then heap_start else addr_rec k)
      in (rec, k\<lparr>addr_rec := rec + ROUNDUP sz 8\<rparr>))"

section \<open>stdio.c\<close>

text \<open>The digits that the loop \<open>for (i = 0; temp != 0; i++)\<close> leaves in \<open>buf\<close>, lowest first; a
  character is the low byte of \<open>temp % base + '0'\<close>.\<close>

function put_digits :: "int \<Rightarrow> int \<Rightarrow> u8 list" where
  "put_digits base temp =
     (if temp = 0 \<or> base \<le> 1 then [] else word_of_int (temp smod base + 48) # put_digits base (temp sdiv base))"
  by auto
termination
proof (relation "measure (\<lambda>(base, temp). nat \<bar>temp\<bar>)", goal_cases)
  case (2 base temp)
  then have "\<bar>temp\<bar> div base < \<bar>temp\<bar>" "0 \<le> \<bar>temp\<bar> div base"
    using int_div_less_self [of "\<bar>temp\<bar>" base] by (simp_all add: pos_imp_zdiv_nonneg_iff)
  then have "\<bar>temp sdiv base\<bar> < \<bar>temp\<bar>" using 2 by (simp add: signed_divide_int_def abs_mult)
  then show ?case by simp
qed simp

datatype varg = Int_arg u32 | Str_arg addr

text \<open>\<open>va_arg\<close> with another type than the caller passed is undefined.\<close>

definition arg_int :: "varg list \<Rightarrow> (int \<times> varg list) result" where
  "arg_int ap = (case ap of Int_arg w # ap' \<Rightarrow> Inr (sint w, ap') | _ \<Rightarrow> Inl Undefined_Behaviour)"

definition arg_str :: "varg list \<Rightarrow> (addr \<times> varg list) result" where
  "arg_str ap = (case ap of Str_arg p # ap' \<Rightarrow> Inr (p, ap') | _ \<Rightarrow> Inl Undefined_Behaviour)"

text \<open>\<open>*str++ = c\<close> for each character of a list.\<close>

fun puts_at :: "u8 list \<Rightarrow> addr \<times> bytes \<Rightarrow> addr \<times> bytes" where
  "puts_at [] s = s"
| "puts_at (c # cs) (str, m) = puts_at cs (str + 1, m(str := c))"

text \<open>\<open>case 's'\<close>: \<open>len\<close> is an \<open>int\<close>, and the characters are read after the earlier ones are written.\<close>

fun copy_str :: "nat \<Rightarrow> addr \<Rightarrow> addr \<times> bytes \<Rightarrow> addr \<times> bytes" where
  "copy_str 0 s out = out"
| "copy_str (Suc n) s (str, m) = copy_str n (s + 1) (str + 1, m(str := m s))"

definition put_num :: "int \<Rightarrow> int \<Rightarrow> addr \<times> bytes \<Rightarrow> addr \<times> bytes" where
  "put_num base temp out = (if temp = 0 then puts_at [48] out else puts_at (rev (put_digits base temp)) out)"

definition put_padded :: "int \<Rightarrow> int \<Rightarrow> int \<Rightarrow> addr \<times> bytes \<Rightarrow> addr \<times> bytes" where
  "put_padded len base temp out =
     (let ds = put_digits base temp
      in puts_at (rev ds) (puts_at (replicate (nat (len - int (length ds))) 48) out))"

text \<open>One turn of the loop from \<open>*fmt = '%'\<close> on, up to the closing \<open>++fmt\<close>.  The \<open>strlen\<close> it calls is a
  parameter, because \<open>user/ulib.h\<close> has the same code with a \<open>strlen\<close> of its own.\<close>

definition directive :: "(bytes \<Rightarrow> addr \<Rightarrow> u64 result) \<Rightarrow> addr \<Rightarrow> varg list \<Rightarrow> addr \<times> bytes \<Rightarrow> (addr \<times> varg list \<times> addr \<times> bytes) result" where
  "directive slen fmt ap out =
     (let m = snd out; c = m fmt in
      if c = 0x73 then
        bindR (arg_str ap) (\<lambda>(s, ap).
        bindR (slen m s) (\<lambda>len.
        Inr (fmt, ap, copy_str (nat (sint (ucast len :: u32))) s out)))
      else if c = 0x64 then bindR (arg_int ap) (\<lambda>(temp, ap). Inr (fmt, ap, put_num 10 temp out))
      else if c = 0x78 then bindR (arg_int ap) (\<lambda>(temp, ap). Inr (fmt, ap, put_num 16 temp out))
      else if c = 0x30 then
        (let len = sint (m (fmt + 1)) - 48 in
         if m (fmt + 2) = 0x64
         then bindR (arg_int ap) (\<lambda>(temp, ap). Inr (fmt + 2, ap, put_padded len 10 temp out))
         else if m (fmt + 2) = 0x78
         then bindR (arg_int ap) (\<lambda>(temp, ap). Inr (fmt + 2, ap, put_padded len 16 temp out))
         else Inr (fmt + 2, ap, out))
      else if c = 0x5c then
        Inr (fmt + 1, ap, puts_at [if m (fmt + 1) = 0x6e then 10 else m (fmt + 1)] out)
      else Inr (fmt, ap, out))"

partial_function (option) vsprintf_loop ::
    "(bytes \<Rightarrow> addr \<Rightarrow> u64 result) \<Rightarrow> addr \<Rightarrow> varg list \<Rightarrow> addr \<times> bytes \<Rightarrow> (addr \<times> bytes) result option" where
  "vsprintf_loop slen fmt ap out =
     (if snd out fmt = 0 then Some (Inr out)
      else if snd out fmt \<noteq> 0x25 then vsprintf_loop slen (fmt + 1) ap (puts_at [snd out fmt] out)
      else case directive slen (fmt + 1) ap out of
          Inl e \<Rightarrow> Some (Inl e)
        | Inr (fmt', ap', out') \<Rightarrow> vsprintf_loop slen (fmt' + 1) ap' out')"

definition vsprintf :: "addr \<Rightarrow> addr \<Rightarrow> varg list \<Rightarrow> bytes \<Rightarrow> (int \<times> bytes) result" where
  "vsprintf out fmt ap m =
     bindR (returns (vsprintf_loop strlen fmt ap (out, m))) (\<lambda>(str, m').
     Inr (sint (ucast (str - out) :: u32), m'(str := 0)))"

definition sprintf :: "addr \<Rightarrow> addr \<Rightarrow> varg list \<Rightarrow> bytes \<Rightarrow> (int \<times> bytes) result" where
  "sprintf out fmt ap m = vsprintf out fmt ap m"

text \<open>\<open>printf\<close> with its buffer of 1025 bytes at \<open>buf\<close>; the result is what \<open>putch\<close> is called with.\<close>

definition printf :: "addr \<Rightarrow> addr \<Rightarrow> varg list \<Rightarrow> bytes \<Rightarrow> (int \<times> u8 list) result" where
  "printf buf fmt ap m = nonnull fmt (\<lambda>_.
     bindR (vsprintf buf fmt ap m) (\<lambda>(i, m').
     Inr (i, map (\<lambda>cnt. m' (buf + word_of_nat cnt)) [0..<nat (i + 1)])))"

definition snprintf :: "addr \<Rightarrow> u64 \<Rightarrow> addr \<Rightarrow> varg list \<Rightarrow> bytes \<Rightarrow> (int \<times> bytes) result" where
  "snprintf out n fmt ap m = Inl Panic"

definition vsnprintf :: "addr \<Rightarrow> u64 \<Rightarrow> addr \<Rightarrow> varg list \<Rightarrow> bytes \<Rightarrow> (int \<times> bytes) result" where
  "vsnprintf out n fmt ap m = Inl Panic"

end
