(* ===== verification/KlibProofs.thy ===== *)
theory KlibProofs
  imports Klib "HOL-Library.List_Lexorder"
begin

text \<open>
  What the string and number routines of the C library compute, on strings in memory.
\<close>

section \<open>Bytes in memory\<close>

fun holds :: "bytes \<Rightarrow> addr \<Rightarrow> u8 list \<Rightarrow> bool" where
  "holds m s [] = True"
| "holds m s (x # xs) = (m s = x \<and> holds m (s + 1) xs)"

definition cstr :: "bytes \<Rightarrow> addr \<Rightarrow> u8 list \<Rightarrow> bool" where
  "cstr m s xs \<longleftrightarrow> 0 \<notin> set xs \<and> holds m s (xs @ [0])"

fun poke :: "bytes \<Rightarrow> addr \<Rightarrow> u8 list \<Rightarrow> bytes" where
  "poke m s [] = m"
| "poke m s (x # xs) = poke (m(s := x)) (s + 1) xs"

definition peek :: "bytes \<Rightarrow> addr \<Rightarrow> nat \<Rightarrow> u8 list" where
  "peek m s n = map (\<lambda>i. m (s + word_of_nat i)) [0..<n]"

definition span :: "addr \<Rightarrow> nat \<Rightarrow> addr set" where
  "span s n = (\<lambda>i. s + word_of_nat i) ` {..<n}"

lemma span_0 [simp]: "span s 0 = {}"
  by (simp add: span_def)

lemma span_Suc: "span s (Suc n) = insert s (span (s + 1) n)"
proof -
  have "{..<Suc n} = insert 0 (Suc ` {..<n})" by (rule lessThan_Suc_eq_insert_0)
  then show ?thesis unfolding span_def by (simp add: image_image add.assoc)
qed

lemma span_mono: "n \<le> k \<Longrightarrow> span s n \<subseteq> span s k"
  by (auto simp: span_def)

lemma span_self: "0 < n \<Longrightarrow> s \<in> span s n"
  using imageI [of 0 "{..<n}" "\<lambda>i. s + word_of_nat i"] by (simp add: span_def)

lemma in_span: "x \<in> span s n \<longleftrightarrow> (\<exists>i<n. x = s + word_of_nat i)"
  by (auto simp: span_def)

lemma span_shift: "i \<le> n \<Longrightarrow> span (s + word_of_nat i) (n - i) \<subseteq> span s n"
proof
  fix x assume i: "i \<le> n" and "x \<in> span (s + word_of_nat i) (n - i)"
  then obtain j where "j < n - i" "x = s + word_of_nat i + word_of_nat j" by (auto simp: in_span)
  then show "x \<in> span s n" unfolding in_span using i by (intro exI [of _ "i + j"]) (simp add: add.assoc)
qed

lemma span_notin_next: "n < 2 ^ 64 \<Longrightarrow> s \<notin> span (s + 1) n"
proof
  assume n: "n < 2 ^ 64" and "s \<in> span (s + 1) n"
  then obtain i where i: "i < n" "s = s + 1 + word_of_nat i" by (auto simp: in_span)
  then have "(word_of_nat (Suc i) :: addr) = 0" by (simp add: add.assoc)
  moreover have "Suc i < 2 ^ 64" using i(1) n by simp
  ultimately show False using unat64_of_nat [of "Suc i"] by (metis nat.distinct(1) unat_0)
qed

lemma holds_cong: "(\<And>x. x \<in> span s (length xs) \<Longrightarrow> m x = m' x) \<Longrightarrow> holds m s xs = holds m' s xs"
  by (induction xs arbitrary: s) (auto simp: span_Suc)

lemma holds_upd [simp]: "p \<notin> span s (length xs) \<Longrightarrow> holds (m(p := v)) s xs = holds m s xs"
  by (rule holds_cong) auto

lemma holds_append: "holds m s (xs @ ys) \<longleftrightarrow> holds m s xs \<and> holds m (s + word_of_nat (length xs)) ys"
  by (induction xs arbitrary: s) (auto simp: add.assoc)

lemma poke_out: "x \<notin> span s (length xs) \<Longrightarrow> poke m s xs x = m x"
  by (induction xs arbitrary: m s) (auto simp: span_Suc)

lemma poke_append: "poke m s (xs @ ys) = poke (poke m s xs) (s + word_of_nat (length xs)) ys"
  by (induction xs arbitrary: m s) (simp_all add: add.assoc)

lemma holds_poke: "length xs \<le> 2 ^ 64 \<Longrightarrow> holds (poke m s xs) s xs"
proof (induction xs arbitrary: m s)
  case (Cons x xs)
  have "s \<notin> span (s + 1) (length xs)" using Cons.prems by (intro span_notin_next) simp
  then show ?case using Cons by (simp add: poke_out)
qed simp

lemma holds_poke_other: "span s (length xs) \<inter> span p (length ys) = {} \<Longrightarrow> holds (poke m p ys) s xs = holds m s xs"
  by (rule holds_cong) (auto intro!: poke_out)

lemma cstr_Nil [simp]: "cstr m s [] \<longleftrightarrow> m s = 0"
  by (simp add: cstr_def)

lemma cstr_Cons: "cstr m s (x # xs) \<longleftrightarrow> m s = x \<and> x \<noteq> 0 \<and> cstr m (s + 1) xs"
  by (auto simp: cstr_def)

lemma cstr_upd: "p \<notin> span s (Suc (length xs)) \<Longrightarrow> cstr (m(p := v)) s xs = cstr m s xs"
  by (simp add: cstr_def)

lemma cstr_poke: "0 \<notin> set xs \<Longrightarrow> length xs < 2 ^ 64 \<Longrightarrow> cstr (poke m s (xs @ [0])) s xs"
  unfolding cstr_def by (intro conjI holds_poke) simp_all

lemma cstr_unique: "cstr m s xs \<Longrightarrow> cstr m s ys \<Longrightarrow> xs = ys"
proof (induction xs arbitrary: s ys)
  case Nil
  then show ?case by (cases ys) (auto simp: cstr_Cons)
next
  case (Cons x xs)
  then show ?case by (cases ys) (auto simp: cstr_Cons)
qed

section \<open>string.c\<close>

lemma strlen_loop_ok: "cstr m (s + i) xs \<Longrightarrow> strlen_loop m s i = Some (Inr (i + word_of_nat (length xs)))"
proof (induction xs arbitrary: i)
  case Nil
  then show ?case by (subst strlen_loop.simps) simp
next
  case (Cons x xs)
  then have "cstr m (s + (i + 1)) xs" "m (s + i) \<noteq> 0" by (simp_all add: cstr_Cons add.assoc)
  then show ?case using Cons.IH by (subst strlen_loop.simps) (simp add: add.assoc)
qed

lemma strlen_ok: "cstr m s xs \<Longrightarrow> s \<noteq> NULL \<Longrightarrow> strlen m s = Inr (word_of_nat (length xs))"
  using strlen_loop_ok [of m s 0 xs] by (simp add: strlen_def)

lemma strcpy_loop_ok:
  assumes "cstr m (src + i) xs"
    and "span (dst + i) (Suc (length xs)) \<inter> span (src + i) (Suc (length xs)) = {}"
  shows "strcpy_loop dst src i m = Some (Inr (poke m (dst + i) (xs @ [0])))"
  using assms
proof (induction xs arbitrary: i m)
  case Nil
  then show ?case by (subst strcpy_loop.simps) simp
next
  case (Cons x xs)
  let ?m = "m(dst + i := x)"
  have c: "m (src + i) = x" "x \<noteq> 0" "cstr m (src + (i + 1)) xs" using Cons.prems(1) by (simp_all add: cstr_Cons add.assoc)
  have d: "dst + i \<notin> span (src + (i + 1)) (Suc (length xs))"
    "span (dst + (i + 1)) (Suc (length xs)) \<inter> span (src + (i + 1)) (Suc (length xs)) = {}"
    using Cons.prems(2) by (auto simp: span_Suc [of _ "Suc _"] add.assoc)
  have "strcpy_loop dst src (i + 1) ?m = Some (Inr (poke ?m (dst + (i + 1)) (xs @ [0])))"
    using Cons.IH [of ?m "i + 1"] cstr_upd [OF d(1), of m x] c(3) d(2) by blast
  then show ?case using c by (subst strcpy_loop.simps) (simp add: add.assoc)
qed

text \<open>\<open>strcpy\<close> between disjoint areas returns the destination, where it leaves the source
  string with its terminator, and writes nothing else.\<close>

theorem strcpy_correct:
  assumes "cstr m src xs" and "dst \<noteq> NULL" and "src \<noteq> NULL" and "length xs < 2 ^ 64"
    and "span dst (Suc (length xs)) \<inter> span src (Suc (length xs)) = {}"
  shows "\<exists>m'. strcpy dst src m = Inr (dst, m') \<and> cstr m' dst xs \<and> cstr m' src xs \<and>
    (\<forall>x. x \<notin> span dst (Suc (length xs)) \<longrightarrow> m' x = m x)"
proof -
  let ?m = "poke m dst (xs @ [0])"
  have "strcpy dst src m = Inr (dst, ?m)"
    using strcpy_loop_ok [of m src 0 xs dst] assms by (simp add: strcpy_def)
  moreover have "0 \<notin> set xs" using assms(1) by (simp add: cstr_def)
  moreover have "cstr ?m src xs"
    using assms(1,5) holds_poke_other [of src "xs @ [0]" dst "xs @ [0]" m] by (simp add: cstr_def Int_commute)
  ultimately show ?thesis using cstr_poke [OF _ assms(4)] poke_out [of _ dst "xs @ [0]" m] by (intro exI [of _ ?m]) simp
qed

theorem strcpy_correct_witness:
  "\<exists>m'. strcpy 0x2000 0x1000 (poke (\<lambda>_. 7) 0x1000 [72, 105, 0]) = Inr (0x2000, m') \<and> cstr m' 0x2000 [72, 105]"
proof -
  have d: "span 0x2000 (Suc (length [72, 105 :: u8])) \<inter> span 0x1000 (Suc (length [72, 105 :: u8])) = {}"
    by (simp add: span_Suc)
  have c: "cstr (poke (\<lambda>_. 7) 0x1000 [72, 105, 0]) 0x1000 [72, 105]" by (simp add: cstr_def)
  show ?thesis using strcpy_correct [OF c _ _ _ d] by auto
qed

text \<open>On ASCII strings, where signed and unsigned bytes agree.\<close>

lemma sint_ascii: "x < 128 \<Longrightarrow> sint (x :: u8) = uint x"
  by (rule sint_small) (simp add: word_less_def)

lemma cmp_stop_ascii:
  assumes "a < 128" and "b < 128" and "a \<noteq> b"
  shows "cmp_stop a b = (if a < b then -1 else 1)"
proof -
  have s: "sint a < sint b \<longleftrightarrow> a < b" "sint a > sint b \<longleftrightarrow> b < a"
    using assms(1,2) by (simp_all add: sint_ascii word_less_def)
  have "a \<noteq> 0 \<Longrightarrow> b = 0 \<Longrightarrow> \<not> a < b" by simp
  moreover have "a = 0 \<Longrightarrow> a < b" using assms(3) by (simp add: word_gt_0)
  ultimately show ?thesis using assms(3) by (auto simp: cmp_stop_def s)
qed

lemma strcmp_loop_ok:
  assumes "cstr m s1 xs" and "cstr m s2 ys" and "\<forall>x\<in>set xs \<union> set ys. x < 128"
  shows "strcmp_loop m s1 s2 = Some (Inr (if xs = ys then 0 else if xs < ys then -1 else 1))"
  using assms
proof (induction xs arbitrary: s1 s2 ys)
  case Nil
  show ?case
  proof (cases ys)
    case (Cons y zs)
    then have "m s1 = 0" "m s2 \<noteq> 0" using Nil by (simp_all add: cstr_Cons)
    then show ?thesis using Cons by (subst strcmp_loop.simps) (simp add: cmp_stop_def)
  qed (use Nil in \<open>subst strcmp_loop.simps, simp\<close>)
next
  case (Cons x xs)
  show ?case
  proof (cases ys)
    case Nil
    then have "m s1 = x" "x \<noteq> 0" "x < 128" "m s2 = 0" using Cons.prems by (simp_all add: cstr_Cons)
    then show ?thesis using Nil by (subst strcmp_loop.simps) (simp add: cmp_stop_ascii)
  next
    case (Cons y zs)
    then have m: "m s1 = x" "x \<noteq> 0" "x < 128" "m s2 = y" "y \<noteq> 0" "y < 128"
      and r: "cstr m (s1 + 1) xs" "cstr m (s2 + 1) zs" "\<forall>x\<in>set xs \<union> set zs. x < 128"
      using Cons.prems by (simp_all add: cstr_Cons)
    show ?thesis
    proof (cases "x = y")
      case True
      then show ?thesis using m Cons Cons.IH [OF r] by (subst strcmp_loop.simps) (simp add: list_less_def)
    next
      case False
      then show ?thesis using m Cons by (subst strcmp_loop.simps) (auto simp: cmp_stop_ascii)
    qed
  qed
qed

text \<open>\<open>strcmp\<close> decides the lexicographic order of ASCII strings.\<close>

theorem strcmp_correct:
  assumes "cstr m s1 xs" and "cstr m s2 ys" and "\<forall>x\<in>set xs \<union> set ys. x < 128"
    and "s1 \<noteq> NULL" and "s2 \<noteq> NULL"
  shows "strcmp m s1 s2 = Inr (if xs = ys then 0 else if xs < ys then -1 else 1)"
  using strcmp_loop_ok [OF assms(1-3)] assms(4,5) by (simp add: strcmp_def)

theorem strcmp_correct_witness:
  "strcmp (poke (\<lambda>_. 0) 0x1000 [115, 100, 97, 0, 116, 116, 121, 0]) 0x1000 0x1004 = Inr (-1)"
proof -
  let ?m = "poke (\<lambda>_. 0) 0x1000 [115, 100, 97, 0, 116, 116, 121, 0]"
  have "cstr ?m 0x1000 [115, 100, 97]" "cstr ?m 0x1004 [116, 116, 121]" by (simp_all add: cstr_def)
  from strcmp_correct [OF this] show ?thesis by simp
qed

text \<open>Copying upwards is a copy when no byte is read after it has been written.\<close>

lemma copy_up_ok:
  assumes "\<forall>j<n. \<forall>i<j. src + word_of_nat j \<noteq> dst + word_of_nat i"
  shows "copy_up n dst src m = poke m dst (peek m src n)"
  using assms
proof (induction n arbitrary: dst src m)
  case (Suc n)
  let ?m = "m(dst := m src)"
  have r: "src + 1 + word_of_nat j \<noteq> dst" if "j < n" for j
    using Suc.prems [rule_format, of "Suc j" 0] that by (simp add: add.assoc)
  have "\<forall>j<n. \<forall>i<j. (src + 1) + word_of_nat j \<noteq> (dst + 1) + word_of_nat i"
  proof (intro allI impI)
    fix j i assume "j < n" "i < j"
    then show "(src + 1) + word_of_nat j \<noteq> (dst + 1) + word_of_nat i"
      using Suc.prems [rule_format, of "Suc j" "Suc i"] by (simp add: add.assoc)
  qed
  then have "copy_up n (dst + 1) (src + 1) ?m = poke ?m (dst + 1) (peek ?m (src + 1) n)" by (rule Suc.IH)
  moreover have "peek ?m (src + 1) n = peek m (src + 1) n" using r by (auto simp: peek_def)
  moreover have "peek m src (Suc n) = m src # peek m (src + 1) n"
    by (simp add: peek_def upt_conv_Cons map_Suc_upt [symmetric] add.assoc del: upt_Suc)
  ultimately show ?case by simp
qed (simp add: peek_def)

lemma peek_upd: "p \<notin> span s n \<Longrightarrow> peek (m(p := v)) s n = peek m s n"
  by (auto simp: peek_def in_span)

lemma length_peek [simp]: "length (peek m s n) = n"
  by (simp add: peek_def)

lemma peek_Suc: "peek m s (Suc n) = peek m s n @ [m (s + word_of_nat n)]"
  by (simp add: peek_def)

lemma poke_upd: "p \<notin> span s (length xs) \<Longrightarrow> poke (m(p := v)) s xs = (poke m s xs)(p := v)"
  by (induction xs arbitrary: m s) (auto simp: span_Suc fun_upd_twist)

lemma span_below:
  assumes "unat x < unat s" and "unat s + n \<le> 2 ^ 64"
  shows "x \<notin> span s n"
proof
  assume "x \<in> span s n"
  then obtain i where i: "i < n" "x = s + word_of_nat i" by (auto simp: in_span)
  then have "unat (word_of_nat i :: addr) = i" using assms(2) by (intro unat64_of_nat) simp
  moreover have "unat s + i < 2 ^ 64" using i(1) assms(2) by simp
  ultimately have "unat x = unat s + i" unfolding i(2) by (subst unat_add_lem [THEN iffD1]) simp_all
  then show False using assms(1) by simp
qed

lemma span_end_notin: "n < 2 ^ 64 \<Longrightarrow> s + word_of_nat n \<notin> span s n"
proof
  assume n: "n < 2 ^ 64" and "s + word_of_nat n \<in> span s n"
  then obtain i where i: "i < n" "(word_of_nat n :: addr) = word_of_nat i" by (auto simp: in_span)
  then show False using unat64_of_nat [of n] unat64_of_nat [of i] n by simp
qed

lemma copy_down_ok:
  assumes "span dst n \<inter> span src n = {}" and "n < 2 ^ 64"
  shows "copy_down n (dst + (word_of_nat n - 1)) (src + (word_of_nat n - 1)) m = poke m dst (peek m src n)"
  using assms
proof (induction n arbitrary: m)
  case (Suc n)
  let ?m = "m(dst + word_of_nat n := m (src + word_of_nat n))"
  have sub: "span a n \<subseteq> span a (Suc n)" for a by (rule span_mono) simp
  have last: "a + word_of_nat n \<in> span a (Suc n)" for a unfolding in_span by (intro exI [of _ n]) simp
  have d: "span dst n \<inter> span src n = {}" using Suc.prems(1) sub by blast
  have n: "n < 2 ^ 64" using Suc.prems(2) by simp
  have "dst + word_of_nat n \<notin> span src n" using Suc.prems(1) sub last by blast
  then have pk: "peek ?m src n = peek m src n" by (rule peek_upd)
  have po: "poke ?m dst (peek m src n) = (poke m dst (peek m src n))(dst + word_of_nat n := m (src + word_of_nat n))"
    by (rule poke_upd) (simp add: span_end_notin [OF n])
  have a: "a + (word_of_nat (Suc n) - 1) = a + word_of_nat n" "a + word_of_nat n - 1 = a + (word_of_nat n - 1)"
    for a :: addr by (simp_all add: algebra_simps)
  have "copy_down (Suc n) (dst + (word_of_nat (Suc n) - 1)) (src + (word_of_nat (Suc n) - 1)) m =
      copy_down n (dst + (word_of_nat n - 1)) (src + (word_of_nat n - 1)) ?m"
    by (simp only: a copy_down.simps)
  also have "\<dots> = poke ?m dst (peek m src n)" using Suc.IH [OF d n, of ?m] pk by (simp only:)
  finally show ?case by (simp add: po peek_Suc poke_append)
qed (simp add: peek_def)

lemma memcpy_ok:
  assumes "span dst (unat n) \<inter> span src (unat n) = {}"
  shows "memcpy dst src n m = (dst, poke m dst (peek m src (unat n)))"
proof -
  have "src + word_of_nat j \<noteq> dst + word_of_nat i" if "j < unat n" "i < j" for i j
  proof -
    have "src + word_of_nat j \<in> span src (unat n)" "dst + word_of_nat i \<in> span dst (unat n)"
      using that by (auto simp: span_def)
    then show ?thesis using assms by auto
  qed
  then show ?thesis by (simp add: memcpy_def copy_up_ok)
qed

lemma memmove_ok:
  assumes "span dst (unat n) \<inter> span src (unat n) = {}" and "dst \<noteq> NULL" and "src \<noteq> NULL"
  shows "memmove dst src n m = Inr (dst, poke m dst (peek m src (unat n)))"
proof -
  have up: "copy_up (unat n) dst src m = poke m dst (peek m src (unat n))"
    using memcpy_ok [OF assms(1), of m] by (simp add: memcpy_def)
  have lt: "unat n < 2 ^ 64" using unsigned_less [of n] by simp
  have down: "copy_down (unat n) (dst + (n - 1)) (src + (n - 1)) m = poke m dst (peek m src (unat n))"
    using copy_down_ok [OF assms(1) lt, of m] by simp
  have "unat n = 0" if "src = dst" using assms(1) that span_self [of "unat n" dst] by auto
  then show ?thesis using assms(2,3) up down by (cases "src < dst"; cases "dst < src") (auto simp: memmove_def peek_def)
qed

lemma copy_up_2: "copy_up 2 d s m = (m(d := m s))(d + 1 := (m(d := m s)) (s + 1))"
  unfolding numeral_2_eq_2 by simp

lemma peek_2: "peek m s 2 = [m s, m (s + 1)]"
  unfolding numeral_2_eq_2 by (simp add: peek_def)

text \<open>\<open>memmove\<close> copies in the wrong direction: on overlapping areas it repeats the first byte
  instead of moving the area.\<close>

theorem memmove_overlap:
  "\<exists>m'. memmove 0x1001 0x1000 2 (poke (\<lambda>_. 0) 0x1000 [1, 2, 3]) = Inr (0x1001, m') \<and>
     peek (poke (\<lambda>_. 0) 0x1000 [1, 2, 3]) 0x1000 2 = [1, 2] \<and> peek m' 0x1001 2 = [1, 1]"
  by (simp add: memmove_def copy_up_2 peek_2)

lemma memset_loop_ok: "memset_loop n s c m = poke m s (replicate n c)"
  by (induction n arbitrary: s m) simp_all

lemma memset_ok: "memset s c n m = (s, poke m s (replicate (unat n) (ucast c)))"
  by (simp add: memset_def memset_loop_ok)

section \<open>stdlib.c\<close>

lemma rand_range: "0 \<le> fst (rand k)" "fst (rand k) < 32768"
proof -
  let ?w = "ucast ((next_rand k * 1103515245 + 12345) div 65536) :: u32"
  have "uint (?w mod 32768) = uint ?w mod 32768" by (simp add: uint_mod)
  then show "0 \<le> fst (rand k)" "fst (rand k) < 32768" by (simp_all add: rand_def Let_def)
qed

text \<open>The bump pointer of \<open>malloc\<close> stays aligned, and blocks do not overlap while it does not wrap.\<close>

lemma malloc_ok:
  assumes "malloc hs sz k = (p, k')" and "8 dvd unat hs" and "8 dvd unat (addr_rec k)" and "hs \<noteq> NULL"
    and "unat p + unat sz + 8 \<le> 2 ^ 64"
  shows "8 dvd unat p" and "8 dvd unat (addr_rec k')" and "unat p + unat sz \<le> unat (addr_rec k')"
proof -
  let ?r = "if addr_rec k = NULL then hs else addr_rec k"
  have p: "p = ?r" "addr_rec k' = p + ROUNDUP sz 8" using assms(1) by (auto simp: malloc_def Let_def)
  show al: "8 dvd unat p" using assms(2,3) p(1) by simp
  let ?u = "((unat sz + 2 ^ 3 - 1) div 2 ^ 3) * 2 ^ 3"
  have u: "unat (ROUNDUP sz 8) = ?u" using ROUNDUP_nat [of 3 sz] assms(5) by simp
  have le: "unat sz \<le> ?u" "?u \<le> unat sz + 7" by simp_all
  have "unat p + unat (ROUNDUP sz 8) < 2 ^ 64" using le(2) assms(5) u by linarith
  then have s: "unat (addr_rec k') = unat p + ?u" unfolding p(2) u [symmetric]
    by (subst unat_add_lem [THEN iffD1]) simp_all
  have "8 dvd ?u" by simp
  then show "8 dvd unat (addr_rec k')" unfolding s using al by (rule dvd_add [rotated])
  show "unat p + unat sz \<le> unat (addr_rec k')" unfolding s using le(1) by simp
qed

end
