(* ===== verification/Printing.thy ===== *)
theory Printing
  imports KlibProofs
begin

text \<open>
  \<open>sprintf\<close> of a number and \<open>atoi\<close>: what is printed is read back.
\<close>

declare put_digits.simps [simp del]

section \<open>Digits\<close>

definition digit :: "u8 \<Rightarrow> bool" where
  "digit c \<longleftrightarrow> 48 \<le> uint c \<and> uint c \<le> 57"

definition read_digits :: "int \<Rightarrow> u8 list \<Rightarrow> int" where
  "read_digits = foldl (\<lambda>x c. x * 10 + (uint c - 48))"

lemma read_digits_simps [simp]:
  "read_digits x [] = x"
  "read_digits x (c # cs) = read_digits (x * 10 + (uint c - 48)) cs"
  "read_digits x (cs @ [c]) = read_digits x cs * 10 + (uint c - 48)"
  by (simp_all add: read_digits_def)

lemma digit_sint: "digit c \<Longrightarrow> sint c = uint c"
  by (rule sint_small) (simp add: digit_def)

lemma digit_nonzero: "digit c \<Longrightarrow> c \<noteq> 0 \<and> c \<noteq> 0x20"
  by (auto simp: digit_def)

lemma put_digits_step:
  assumes "0 < n"
  shows "put_digits 10 n = word_of_int (n mod 10 + 48) # put_digits 10 (n div 10)"
proof -
  have "n smod 10 = n mod 10" "n sdiv 10 = n div 10"
    using assms by (simp_all add: signed_divide_int_def signed_modulo_int_def minus_div_mult_eq_mod)
  then show ?thesis using assms by (subst put_digits.simps) simp
qed

lemma put_digits_0 [simp]: "put_digits b 0 = []"
  by (subst put_digits.simps) simp

lemma uint_digit: "0 \<le> d \<Longrightarrow> d < 10 \<Longrightarrow> uint (word_of_int (d + 48) :: u8) = d + 48"
  by (subst uint_word_of_int, rule mod_pos_pos_trivial) simp_all

lemma put_digits_ok:
  assumes "0 \<le> n"
  shows "\<forall>c\<in>set (put_digits 10 n). digit c" and "read_digits 0 (rev (put_digits 10 n)) = n"
    and "n < 10 ^ k \<Longrightarrow> length (put_digits 10 n) \<le> k"
proof -
  have "(\<forall>c\<in>set (put_digits 10 n). digit c) \<and> read_digits 0 (rev (put_digits 10 n)) = n \<and>
    (\<forall>k. n < 10 ^ k \<longrightarrow> length (put_digits 10 n) \<le> k)"
    using assms
  proof (induction "nat n" arbitrary: n rule: less_induct)
    case less
    show ?case
    proof (cases "n = 0")
      case False
      then have n: "0 < n" "0 \<le> n div 10" "nat (n div 10) < nat n"
        using less.prems by (simp_all add: pos_imp_zdiv_nonneg_iff)
      note IH = less.hyps [OF n(3) n(2)]
      have u: "uint (word_of_int (n mod 10 + 48) :: u8) = n mod 10 + 48" by (rule uint_digit) simp_all
      have "length (put_digits 10 (n div 10)) < k" if k: "n < 10 ^ k" for k
      proof (cases k)
        case 0
        then show ?thesis using k n(1) by simp
      next
        case (Suc j)
        then have "n div 10 < 10 ^ j" using k by simp
        then show ?thesis using IH Suc by (simp add: less_Suc_eq_le)
      qed
      then show ?thesis using IH u by (simp add: put_digits_step [OF n(1)] digit_def Suc_le_eq)
    qed simp
  qed
  then show "\<forall>c\<in>set (put_digits 10 n). digit c" "read_digits 0 (rev (put_digits 10 n)) = n"
    "n < 10 ^ k \<Longrightarrow> length (put_digits 10 n) \<le> k" by simp_all
qed

section \<open>Reading\<close>

lemma read_digits_ge:
  assumes "\<forall>c\<in>set cs. digit c" and "0 \<le> x"
  shows "x \<le> read_digits x cs"
  using assms
proof (induction cs arbitrary: x)
  case (Cons c cs)
  then have "0 \<le> uint c - 48" by (simp add: digit_def)
  then have "0 \<le> x * 10 + (uint c - 48)" "x \<le> x * 10 + (uint c - 48)" using Cons.prems(2) by simp_all
  then show ?case using Cons.IH [of "x * 10 + (uint c - 48)"] Cons.prems(1) by simp
qed simp

lemma read_digits_ge10:
  assumes "\<forall>c\<in>set cs. digit c" and "0 \<le> x" and "cs \<noteq> []"
  shows "10 * x \<le> read_digits x cs"
proof -
  obtain c ds where cs: "cs = c # ds" using assms(3) by (cases cs) auto
  have c: "0 \<le> uint c - 48" using assms(1) cs by (simp add: digit_def)
  then have "x * 10 + (uint c - 48) \<le> read_digits (x * 10 + (uint c - 48)) ds"
    using assms(1,2) cs by (intro read_digits_ge) auto
  then show ?thesis using c cs by simp
qed

text \<open>The sum of the last digit is the only one that can overflow.\<close>

lemma atoi_digits_ok:
  assumes "holds m p (cs @ [0])" and "\<forall>c\<in>set cs. digit c" and "0 \<le> x" and "read_digits x cs < 2 ^ 31"
  shows "atoi_digits m p x =
    Some (if cs = [] \<or> read_digits x cs + 48 < 2 ^ 31 then Inr (read_digits x cs) else Inl Undefined_Behaviour)"
  using assms
proof (induction cs arbitrary: p x)
  case Nil
  then show ?case by (subst atoi_digits.simps) simp
next
  case (Cons c cs)
  let ?y = "x * 10 + (uint c - 48)"
  have c: "m p = c" "digit c" "sint c = uint c" using Cons.prems by (simp_all add: digit_sint)
  have y: "0 \<le> ?y" using c(2) Cons.prems(3) by (simp add: digit_def)
  have g: "48 \<le> uint c" "uint c \<le> 57" using c(2) by (simp_all add: digit_def)
  have step: "atoi_digits m p x = (if ?y + 48 < 2 ^ 31 then atoi_digits m (p + 1) ?y else Some (Inl Undefined_Behaviour))"
    using c(1,3) g by (subst atoi_digits.simps) (simp add: algebra_simps)
  have IH: "atoi_digits m (p + 1) ?y =
      Some (if cs = [] \<or> read_digits ?y cs + 48 < 2 ^ 31 then Inr (read_digits ?y cs) else Inl Undefined_Behaviour)"
    using Cons.IH [of "p + 1" ?y] Cons.prems y by simp
  show ?case
  proof (cases "cs = []")
    case True
    then show ?thesis using step IH by simp
  next
    case False
    have "10 * ?y \<le> read_digits ?y cs" using read_digits_ge10 [OF _ y False] Cons.prems(2) by simp
    then have "?y + 48 < 2 ^ 31" using Cons.prems(4) by simp
    then show ?thesis using step IH False by simp
  qed
qed

lemma atoi_ok:
  assumes "holds m p (cs @ [0])" and "\<forall>c\<in>set cs. digit c" and "cs \<noteq> []" and "read_digits 0 cs < 2 ^ 31"
  shows "atoi m p = (if read_digits 0 cs + 48 < 2 ^ 31 then Inr (read_digits 0 cs) else Inl Undefined_Behaviour)"
proof -
  have "m p \<noteq> 0x20" using assms(1,2) digit_nonzero by (cases cs) auto
  then have "atoi_spaces m p = Some (Inr p)" by (subst atoi_spaces.simps) simp
  then show ?thesis using atoi_digits_ok [OF assms(1,2) _ assms(4)] assms(3) by (simp add: atoi_def)
qed

section \<open>Printing\<close>

lemma puts_at_poke: "puts_at cs (p, m) = (p + word_of_nat (length cs), poke m p cs)"
  by (induction cs arbitrary: p m) (simp_all add: add.assoc)

lemma put_num_poke:
  "put_num 10 n (p, m) = (let cs = (if n = 0 then [48] else rev (put_digits 10 n))
     in (p + word_of_nat (length cs), poke m p cs))"
  by (simp add: put_num_def puts_at_poke Let_def)

lemma sint_length:
  assumes "n < 2 ^ 31"
  shows "sint (ucast (word_of_nat n :: addr) :: u32) = int n"
proof -
  have "uint (word_of_nat n :: addr) = int n" 
    unfolding uint_nat using assms by (subst unat64_of_nat) simp_all
  then have "uint (ucast (word_of_nat n :: addr) :: u32) = take_bit 32 (int n)" by (simp only: unsigned_ucast_eq) simp
  also have "\<dots> = int n" by (rule take_bit_int_eq_self) (use assms in simp_all)
  finally show ?thesis using sint_small [of "ucast (word_of_nat n :: addr) :: u32"] assms by simp
qed

lemma sprintf_d:
  assumes fmt: "m fmt = 0x25" "m (fmt + 1) = 0x64" "m (fmt + 2) = 0" and d: "fmt + 2 \<notin> span out (length cs)"
    and cs: "cs = (if sint w = 0 then [48] else rev (put_digits 10 (sint w)))"
  shows "sprintf out fmt [Int_arg w] m = Inr (sint (ucast (word_of_nat (length cs) :: addr) :: u32), poke m out (cs @ [0]))"
proof -
  have st: "directive f (fmt + 1) [Int_arg w] (out, m) = Inr (fmt + 1, [], (out + word_of_nat (length cs), poke m out cs))" for f
    using fmt(2) cs by (simp add: directive_def arg_int_def put_num_poke Let_def)
  have "poke m out cs (fmt + 2) = 0" using poke_out [OF d] fmt(3) by simp
  then have e: "vsprintf_loop f (fmt + 2) [] (out + word_of_nat (length cs), poke m out cs) =
      Some (Inr (out + word_of_nat (length cs), poke m out cs))" for f
    by (subst vsprintf_loop.simps) simp
  have "vsprintf_loop f fmt [Int_arg w] (out, m) = Some (Inr (out + word_of_nat (length cs), poke m out cs))" for f
    using st fmt(1) e by (subst vsprintf_loop.simps) (simp add: add.assoc)
  then show ?thesis by (simp add: sprintf_def vsprintf_def poke_append)
qed

text \<open>C35. Every non-negative number printed with \<open>%d\<close> has between one and ten characters, which
  \<open>atoi\<close> reads back as the number, except that for the 48 largest ones its last sum overflows, which is
  undefined.  (Negative numbers are not printed as numbers.)\<close>

theorem print_parse:
  assumes fmt: "m fmt = 0x25" "m (fmt + 1) = 0x64" "m (fmt + 2) = 0" and d: "fmt + 2 \<notin> span out 10"
    and n: "0 \<le> sint w"
  shows "\<exists>m' k. sprintf out fmt [Int_arg w] m = Inr (k, m') \<and> 1 \<le> k \<and> k \<le> 10 \<and>
    atoi m' out = (if sint w + 48 < 2 ^ 31 then Inr (sint w) else Inl Undefined_Behaviour) \<and>
    (\<forall>x. x \<notin> span out 11 \<longrightarrow> m' x = m x)"
proof -
  let ?cs = "if sint w = 0 then [48] else rev (put_digits 10 (sint w))"
  note pd = put_digits_ok [OF n]
  have lim: "sint w < 2 ^ 31" using sint_lt [of w] by simp
  then have "sint w < 10 ^ 10" by simp
  then have len: "length ?cs \<le> 10" using pd(3) [of 10] by simp
  have len0: "1 \<le> length ?cs" using n by (simp add: put_digits_step)
  have "fmt + 2 \<notin> span out (length ?cs)" using d span_mono [OF len] by blast
  then have run: "sprintf out fmt [Int_arg w] m = Inr (sint (ucast (word_of_nat (length ?cs) :: addr) :: u32), poke m out (?cs @ [0]))"
    by (rule sprintf_d [OF fmt _ refl])
  let ?k = "sint (ucast (word_of_nat (length ?cs) :: addr) :: u32)"
  have "?k = int (length ?cs)" by (rule sint_length) (use len in simp)
  then have k: "1 \<le> ?k" "?k \<le> 10" using len len0 by simp_all
  have "holds (poke m out (?cs @ [0])) out (?cs @ [0])" by (rule holds_poke) (use len in simp)
  moreover have "\<forall>c\<in>set ?cs. digit c" using pd(1) by (simp add: digit_def)
  moreover have v: "read_digits 0 ?cs = sint w" using pd(2) by simp
  moreover have "?cs \<noteq> []" using len0 by auto
  ultimately have "atoi (poke m out (?cs @ [0])) out = (if sint w + 48 < 2 ^ 31 then Inr (sint w) else Inl Undefined_Behaviour)"
    using atoi_ok [of "poke m out (?cs @ [0])" out ?cs] lim by presburger
  moreover have "poke m out (?cs @ [0]) x = m x" if "x \<notin> span out 11" for x
  proof (rule poke_out)
    have "span out (length (?cs @ [0])) \<subseteq> span out 11" by (rule span_mono) (use len in simp)
    then show "x \<notin> span out (length (?cs @ [0]))" using that by blast
  qed
  ultimately show ?thesis using run k by (intro exI [of _ "poke m out (?cs @ [0])"] exI [of _ ?k] conjI allI impI)
qed

theorem print_parse_witness:
  "\<exists>m' k. sprintf 0x2000 0x1000 [Int_arg 2022] (poke (\<lambda>_. 7) 0x1000 [0x25, 0x64, 0]) = Inr (k, m') \<and>
     atoi m' 0x2000 = Inr 2022"
proof -
  let ?m = "poke (\<lambda>_. 7) 0x1000 [0x25, 0x64, 0] :: bytes"
  have f: "?m 0x1000 = 0x25" "?m (0x1000 + 1) = 0x64" "?m (0x1000 + 2) = 0" by simp_all
  have d: "(0x1000 + 2 :: addr) \<notin> span 0x2000 10" by (rule span_below) simp_all
  have s: "sint (2022 :: u32) = 2022" by (simp add: sint_small)
  have n: "0 \<le> sint (2022 :: u32)" unfolding s by simp
  have small: "(2022 :: int) + 48 < 2 ^ 31" by simp
  show ?thesis using print_parse [OF f d n] unfolding s if_P [OF small] by blast
qed

end
