(* ===== verification/Ulib.thy ===== *)
theory Ulib
  imports Os Klib
begin

text \<open>
  The user's C library, \<open>user/ulib.h\<close>: the system calls, as the registers they put before
  \<open>int $0x80\<close>, and a copy of the kernel's \<open>vsprintf\<close> with a \<open>strlen\<close> without assertion.
\<close>

section \<open>System calls\<close>

text \<open>The registers at the \<open>int $0x80\<close> of \<open>syscall\<close>; its result is what the kernel leaves in \<open>rax\<close>.\<close>

definition syscall_regs :: "nat \<Rightarrow> u64 \<Rightarrow> u64 \<Rightarrow> u64 \<Rightarrow> u64 \<Rightarrow> Context \<Rightarrow> Context" where
  "syscall_regs num x1 x2 x3 x4 ctx =
     ctx\<lparr>r_rax := word_of_nat num, r_rdi := x1, r_rsi := x2, r_rdx := x3, r_rcx := x4\<rparr>"

definition u_kputc :: "u8 \<Rightarrow> Context \<Rightarrow> Context" where
  "u_kputc ch = syscall_regs 1 (scast ch) 0 0 0"

definition u_fork :: "Context \<Rightarrow> Context" where
  "u_fork = syscall_regs 2 0 0 0 0"

definition u_wait :: "addr \<Rightarrow> Context \<Rightarrow> Context" where
  "u_wait status = syscall_regs 4 status 0 0 0"

definition u_exit :: "u32 \<Rightarrow> Context \<Rightarrow> Context" where
  "u_exit status = syscall_regs 3 (scast status) 0 0 0"

definition u_kill :: "u32 \<Rightarrow> Context \<Rightarrow> Context" where
  "u_kill pid = syscall_regs 7 (scast pid) 0 0 0"

definition u_mmap :: "addr \<Rightarrow> u32 \<Rightarrow> u32 \<Rightarrow> u32 \<Rightarrow> Context \<Rightarrow> Context" where
  "u_mmap a len prot flags = syscall_regs 13 a (scast len) (scast prot) (scast flags)"

definition u_getpid :: "Context \<Rightarrow> Context" where
  "u_getpid = syscall_regs 12 0 0 0 0"

definition u_sleep :: "u32 \<Rightarrow> Context \<Rightarrow> Context" where
  "u_sleep seconds = syscall_regs 14 (scast seconds) 0 0 0"

definition u_uptime :: "Context \<Rightarrow> Context" where
  "u_uptime = syscall_regs 15 0 0 0 0"

section \<open>Strings and printing\<close>

definition u_strlen :: "bytes \<Rightarrow> addr \<Rightarrow> u64 result" where
  "u_strlen m s = returns (strlen_loop m s 0)"

definition u_vsprintf :: "addr \<Rightarrow> addr \<Rightarrow> varg list \<Rightarrow> bytes \<Rightarrow> (int \<times> bytes) result" where
  "u_vsprintf out fmt ap m =
     bindR (returns (vsprintf_loop u_strlen fmt ap (out, m))) (\<lambda>(str, m').
     Inr (sint (ucast (str - out) :: u32), m'(str := 0)))"

definition u_sprintf :: "addr \<Rightarrow> addr \<Rightarrow> varg list \<Rightarrow> bytes \<Rightarrow> (int \<times> bytes) result" where
  "u_sprintf out fmt ap m = u_vsprintf out fmt ap m"

text \<open>The characters \<open>printf\<close> passes to \<open>kputc\<close>, one system call each.\<close>

definition u_printf :: "addr \<Rightarrow> addr \<Rightarrow> varg list \<Rightarrow> bytes \<Rightarrow> (int \<times> u8 list) result" where
  "u_printf buf fmt ap m =
     bindR (u_vsprintf buf fmt ap m) (\<lambda>(i, m').
     Inr (i, map (\<lambda>cnt. m' (buf + word_of_nat cnt)) [0..<nat (i + 1)]))"

section \<open>What the kernel makes of the calls\<close>

lemma ucast_scast [simp]:
  "ucast (scast (x :: u32) :: u64) = x" "ucast (scast (y :: u8) :: u64) = y"
  by (rule bit_word_eqI; auto simp: bit_simps)+

lemma SYS_handler_numbers:
  "SYS_handler junk c clk (u_getpid ctx) s = bindR (getpid (curTask s c) s) (\<lambda>(_, s'). Inr (Returned s'))"
  "SYS_handler junk c clk (u_exit st ctx) s = bindR (exit_mark (curTask s c) (sint st) s) (\<lambda>s'. Inr (Yields s'))"
  "SYS_handler junk c clk (u_kputc ch ctx) s = bindR (kputs (curTask s c) ch s) (\<lambda>s'. Inr (Returned s'))"
  "SYS_handler junk c clk (u_wait a ctx) s = Inr (Returned s)"
  "SYS_handler junk c clk (u_kill pid ctx) s = Inr (Returned s)"
  "SYS_handler junk c clk (u_uptime ctx) s = Inr (Returned s)"
  by (simp_all add: SYS_handler_def u_getpid_def u_exit_def u_kputc_def u_wait_def u_kill_def u_uptime_def
      syscall_regs_def Let_def)

end
