(* ===== verification/Amdev.thy ===== *)
theory Amdev
  imports Main
begin

text \<open>
  The key codes of \<open>abstract-machine/am/include/amdev.h\<close>: the enumeration over \<open>AM_KEYS\<close>, and the
  names in its order.
\<close>

definition AM_KEYS :: "string list" where
  "AM_KEYS =
     [''ESCAPE'', ''F1'', ''F2'', ''F3'', ''F4'', ''F5'', ''F6'', ''F7'', ''F8'',
      ''F9'', ''F10'', ''F11'', ''F12'', ''GRAVE'', ''1'', ''2'', ''3'', ''4'',
      ''5'', ''6'', ''7'', ''8'', ''9'', ''0'', ''MINUS'', ''EQUALS'', ''BACKSPACE'',
      ''TAB'', ''Q'', ''W'', ''E'', ''R'', ''T'', ''Y'', ''U'', ''I'',
      ''O'', ''P'', ''LEFTBRACKET'', ''RIGHTBRACKET'', ''BACKSLASH'', ''CAPSLOCK'', ''A'', ''S'', ''D'',
      ''F'', ''G'', ''H'', ''J'', ''K'', ''L'', ''SEMICOLON'', ''APOSTROPHE'', ''RETURN'',
      ''LSHIFT'', ''Z'', ''X'', ''C'', ''V'', ''B'', ''N'', ''M'', ''COMMA'',
      ''PERIOD'', ''SLASH'', ''RSHIFT'', ''LCTRL'', ''APPLICATION'', ''LALT'', ''SPACE'', ''RALT'', ''RCTRL'',
      ''UP'', ''DOWN'', ''LEFT'', ''RIGHT'', ''INSERT'', ''DELETE'', ''HOME'', ''END'', ''PAGEUP'',
      ''PAGEDOWN'']"

abbreviation (input) AM_KEY_NONE :: nat where "AM_KEY_NONE \<equiv> 0"
abbreviation (input) AM_KEY_ESCAPE :: nat where "AM_KEY_ESCAPE \<equiv> 1"
abbreviation (input) AM_KEY_F1 :: nat where "AM_KEY_F1 \<equiv> 2"
abbreviation (input) AM_KEY_F2 :: nat where "AM_KEY_F2 \<equiv> 3"
abbreviation (input) AM_KEY_F3 :: nat where "AM_KEY_F3 \<equiv> 4"
abbreviation (input) AM_KEY_F4 :: nat where "AM_KEY_F4 \<equiv> 5"
abbreviation (input) AM_KEY_F5 :: nat where "AM_KEY_F5 \<equiv> 6"
abbreviation (input) AM_KEY_F6 :: nat where "AM_KEY_F6 \<equiv> 7"
abbreviation (input) AM_KEY_F7 :: nat where "AM_KEY_F7 \<equiv> 8"
abbreviation (input) AM_KEY_F8 :: nat where "AM_KEY_F8 \<equiv> 9"
abbreviation (input) AM_KEY_F9 :: nat where "AM_KEY_F9 \<equiv> 10"
abbreviation (input) AM_KEY_F10 :: nat where "AM_KEY_F10 \<equiv> 11"
abbreviation (input) AM_KEY_F11 :: nat where "AM_KEY_F11 \<equiv> 12"
abbreviation (input) AM_KEY_F12 :: nat where "AM_KEY_F12 \<equiv> 13"
abbreviation (input) AM_KEY_GRAVE :: nat where "AM_KEY_GRAVE \<equiv> 14"
abbreviation (input) AM_KEY_1 :: nat where "AM_KEY_1 \<equiv> 15"
abbreviation (input) AM_KEY_2 :: nat where "AM_KEY_2 \<equiv> 16"
abbreviation (input) AM_KEY_3 :: nat where "AM_KEY_3 \<equiv> 17"
abbreviation (input) AM_KEY_4 :: nat where "AM_KEY_4 \<equiv> 18"
abbreviation (input) AM_KEY_5 :: nat where "AM_KEY_5 \<equiv> 19"
abbreviation (input) AM_KEY_6 :: nat where "AM_KEY_6 \<equiv> 20"
abbreviation (input) AM_KEY_7 :: nat where "AM_KEY_7 \<equiv> 21"
abbreviation (input) AM_KEY_8 :: nat where "AM_KEY_8 \<equiv> 22"
abbreviation (input) AM_KEY_9 :: nat where "AM_KEY_9 \<equiv> 23"
abbreviation (input) AM_KEY_0 :: nat where "AM_KEY_0 \<equiv> 24"
abbreviation (input) AM_KEY_MINUS :: nat where "AM_KEY_MINUS \<equiv> 25"
abbreviation (input) AM_KEY_EQUALS :: nat where "AM_KEY_EQUALS \<equiv> 26"
abbreviation (input) AM_KEY_BACKSPACE :: nat where "AM_KEY_BACKSPACE \<equiv> 27"
abbreviation (input) AM_KEY_TAB :: nat where "AM_KEY_TAB \<equiv> 28"
abbreviation (input) AM_KEY_Q :: nat where "AM_KEY_Q \<equiv> 29"
abbreviation (input) AM_KEY_W :: nat where "AM_KEY_W \<equiv> 30"
abbreviation (input) AM_KEY_E :: nat where "AM_KEY_E \<equiv> 31"
abbreviation (input) AM_KEY_R :: nat where "AM_KEY_R \<equiv> 32"
abbreviation (input) AM_KEY_T :: nat where "AM_KEY_T \<equiv> 33"
abbreviation (input) AM_KEY_Y :: nat where "AM_KEY_Y \<equiv> 34"
abbreviation (input) AM_KEY_U :: nat where "AM_KEY_U \<equiv> 35"
abbreviation (input) AM_KEY_I :: nat where "AM_KEY_I \<equiv> 36"
abbreviation (input) AM_KEY_O :: nat where "AM_KEY_O \<equiv> 37"
abbreviation (input) AM_KEY_P :: nat where "AM_KEY_P \<equiv> 38"
abbreviation (input) AM_KEY_LEFTBRACKET :: nat where "AM_KEY_LEFTBRACKET \<equiv> 39"
abbreviation (input) AM_KEY_RIGHTBRACKET :: nat where "AM_KEY_RIGHTBRACKET \<equiv> 40"
abbreviation (input) AM_KEY_BACKSLASH :: nat where "AM_KEY_BACKSLASH \<equiv> 41"
abbreviation (input) AM_KEY_CAPSLOCK :: nat where "AM_KEY_CAPSLOCK \<equiv> 42"
abbreviation (input) AM_KEY_A :: nat where "AM_KEY_A \<equiv> 43"
abbreviation (input) AM_KEY_S :: nat where "AM_KEY_S \<equiv> 44"
abbreviation (input) AM_KEY_D :: nat where "AM_KEY_D \<equiv> 45"
abbreviation (input) AM_KEY_F :: nat where "AM_KEY_F \<equiv> 46"
abbreviation (input) AM_KEY_G :: nat where "AM_KEY_G \<equiv> 47"
abbreviation (input) AM_KEY_H :: nat where "AM_KEY_H \<equiv> 48"
abbreviation (input) AM_KEY_J :: nat where "AM_KEY_J \<equiv> 49"
abbreviation (input) AM_KEY_K :: nat where "AM_KEY_K \<equiv> 50"
abbreviation (input) AM_KEY_L :: nat where "AM_KEY_L \<equiv> 51"
abbreviation (input) AM_KEY_SEMICOLON :: nat where "AM_KEY_SEMICOLON \<equiv> 52"
abbreviation (input) AM_KEY_APOSTROPHE :: nat where "AM_KEY_APOSTROPHE \<equiv> 53"
abbreviation (input) AM_KEY_RETURN :: nat where "AM_KEY_RETURN \<equiv> 54"
abbreviation (input) AM_KEY_LSHIFT :: nat where "AM_KEY_LSHIFT \<equiv> 55"
abbreviation (input) AM_KEY_Z :: nat where "AM_KEY_Z \<equiv> 56"
abbreviation (input) AM_KEY_X :: nat where "AM_KEY_X \<equiv> 57"
abbreviation (input) AM_KEY_C :: nat where "AM_KEY_C \<equiv> 58"
abbreviation (input) AM_KEY_V :: nat where "AM_KEY_V \<equiv> 59"
abbreviation (input) AM_KEY_B :: nat where "AM_KEY_B \<equiv> 60"
abbreviation (input) AM_KEY_N :: nat where "AM_KEY_N \<equiv> 61"
abbreviation (input) AM_KEY_M :: nat where "AM_KEY_M \<equiv> 62"
abbreviation (input) AM_KEY_COMMA :: nat where "AM_KEY_COMMA \<equiv> 63"
abbreviation (input) AM_KEY_PERIOD :: nat where "AM_KEY_PERIOD \<equiv> 64"
abbreviation (input) AM_KEY_SLASH :: nat where "AM_KEY_SLASH \<equiv> 65"
abbreviation (input) AM_KEY_RSHIFT :: nat where "AM_KEY_RSHIFT \<equiv> 66"
abbreviation (input) AM_KEY_LCTRL :: nat where "AM_KEY_LCTRL \<equiv> 67"
abbreviation (input) AM_KEY_APPLICATION :: nat where "AM_KEY_APPLICATION \<equiv> 68"
abbreviation (input) AM_KEY_LALT :: nat where "AM_KEY_LALT \<equiv> 69"
abbreviation (input) AM_KEY_SPACE :: nat where "AM_KEY_SPACE \<equiv> 70"
abbreviation (input) AM_KEY_RALT :: nat where "AM_KEY_RALT \<equiv> 71"
abbreviation (input) AM_KEY_RCTRL :: nat where "AM_KEY_RCTRL \<equiv> 72"
abbreviation (input) AM_KEY_UP :: nat where "AM_KEY_UP \<equiv> 73"
abbreviation (input) AM_KEY_DOWN :: nat where "AM_KEY_DOWN \<equiv> 74"
abbreviation (input) AM_KEY_LEFT :: nat where "AM_KEY_LEFT \<equiv> 75"
abbreviation (input) AM_KEY_RIGHT :: nat where "AM_KEY_RIGHT \<equiv> 76"
abbreviation (input) AM_KEY_INSERT :: nat where "AM_KEY_INSERT \<equiv> 77"
abbreviation (input) AM_KEY_DELETE :: nat where "AM_KEY_DELETE \<equiv> 78"
abbreviation (input) AM_KEY_HOME :: nat where "AM_KEY_HOME \<equiv> 79"
abbreviation (input) AM_KEY_END :: nat where "AM_KEY_END \<equiv> 80"
abbreviation (input) AM_KEY_PAGEUP :: nat where "AM_KEY_PAGEUP \<equiv> 81"
abbreviation (input) AM_KEY_PAGEDOWN :: nat where "AM_KEY_PAGEDOWN \<equiv> 82"

end
