(* ===== verification/Input.thy ===== *)
theory Input
  imports Kmt Amdev
begin

text \<open>
  The keyboard device, \<open>kernel/src/dev/dev_input.c\<close>.  Its spin lock is entry \<open>in_lock\<close> of the kernel's
  table of locks (the CPUs' locks are the first \<open>MAX_CPU\<close>).  A call that can block on a
  semaphore is modelled up to the attempt that decides: \<open>None\<close> means that it yields.
\<close>

definition NEVENTS :: nat where "NEVENTS = 128"

record input_event =
  ev_ctrl :: "1 word"
  ev_alt :: "1 word"
  ev_data :: u16

record input_t =
  in_lock :: nat
  event_sem :: semaphore
  events :: "input_event list"
  front :: nat
  rear :: nat
  capslock :: int
  shift_down :: "int \<times> int"
  ctrl_down :: "int \<times> int"
  alt_down :: "int \<times> int"

text \<open>The bit fields of \<open>struct input_event\<close> truncate what is stored in them.\<close>

definition event :: "int \<Rightarrow> int \<Rightarrow> int \<Rightarrow> input_event" where
  "event c a d = \<lparr>ev_ctrl = word_of_int c, ev_alt = word_of_int a, ev_data = word_of_int d\<rparr>"

definition is_empty :: "input_t \<Rightarrow> bool" where
  "is_empty inp \<longleftrightarrow> rear inp = front inp"

section \<open>The queue\<close>

text \<open>What \<open>push_event\<close> and \<open>pop_event\<close> do between their lock and unlock.\<close>

definition event_put :: "input_event \<Rightarrow> input_t \<Rightarrow> input_t result" where
  "event_put ev inp =
     bindR (arr_set (events inp) (rear inp) ev) (\<lambda>evs.
     let inp' = inp\<lparr>events := evs, rear := (rear inp + 1) mod NEVENTS\<rparr> in
     bindR (guardR Panic (\<not> is_empty inp')) (\<lambda>_. Inr inp'))"

definition event_take :: "input_t \<Rightarrow> (input_event \<times> input_t) result" where
  "event_take inp =
     bindR (guardR Panic (\<not> is_empty inp)) (\<lambda>_.
     let idx = front inp; inp' = inp\<lparr>front := (front inp + 1) mod NEVENTS\<rparr> in
     bindR (arr_get (events inp') idx) (\<lambda>ret. Inr (ret, inp')))"

definition push_event :: "nat \<Rightarrow> input_event \<Rightarrow> input_t \<times> kernel \<Rightarrow> (input_t \<times> kernel) result" where
  "push_event c ev = (\<lambda>(inp, s).
     bindR (spin_lock c (in_lock inp) s) (\<lambda>s1.
     bindR (event_put ev inp) (\<lambda>inp1.
     bindR (spin_unlock c (in_lock inp1) s1) (\<lambda>s2.
     bindR (sem_signal (event_sem inp1)) (\<lambda>sem.
     Inr (inp1\<lparr>event_sem := sem\<rparr>, s2))))))"

definition pop_event :: "nat \<Rightarrow> input_t \<times> kernel \<Rightarrow> (input_event option \<times> input_t \<times> kernel) result" where
  "pop_event c = (\<lambda>(inp, s).
     bindR (sem_try (event_sem inp)) (\<lambda>(acquire, sem).
     let inp1 = inp\<lparr>event_sem := sem\<rparr> in
     if \<not> acquire then Inr (None, inp1, s)
     else
       bindR (spin_lock c (in_lock inp1) s) (\<lambda>s1.
       bindR (event_take inp1) (\<lambda>(ret, inp2).
       bindR (spin_unlock c (in_lock inp2) s1) (\<lambda>s2.
       Inr (Some ret, inp2, s2))))))"

section \<open>Keys\<close>

definition keymap_entries :: "(nat \<times> u8 \<times> u8) list" where
  "keymap_entries =
     [(AM_KEY_0, 0x30, 0x29), (AM_KEY_1, 0x31, 0x21), (AM_KEY_2, 0x32, 0x40),
      (AM_KEY_3, 0x33, 0x23), (AM_KEY_4, 0x34, 0x24), (AM_KEY_5, 0x35, 0x25),
      (AM_KEY_6, 0x36, 0x5e), (AM_KEY_7, 0x37, 0x26), (AM_KEY_8, 0x38, 0x2a),
      (AM_KEY_9, 0x39, 0x28), (AM_KEY_A, 0x61, 0x41), (AM_KEY_B, 0x62, 0x42),
      (AM_KEY_C, 0x63, 0x43), (AM_KEY_D, 0x64, 0x44), (AM_KEY_E, 0x65, 0x45),
      (AM_KEY_F, 0x66, 0x46), (AM_KEY_G, 0x67, 0x47), (AM_KEY_H, 0x68, 0x48),
      (AM_KEY_I, 0x69, 0x49), (AM_KEY_J, 0x6a, 0x4a), (AM_KEY_K, 0x6b, 0x4b),
      (AM_KEY_L, 0x6c, 0x4c), (AM_KEY_M, 0x6d, 0x4d), (AM_KEY_N, 0x6e, 0x4e),
      (AM_KEY_O, 0x6f, 0x4f), (AM_KEY_P, 0x70, 0x50), (AM_KEY_Q, 0x71, 0x51),
      (AM_KEY_R, 0x72, 0x52), (AM_KEY_S, 0x73, 0x53), (AM_KEY_T, 0x74, 0x54),
      (AM_KEY_U, 0x75, 0x55), (AM_KEY_V, 0x76, 0x56), (AM_KEY_W, 0x77, 0x57),
      (AM_KEY_X, 0x78, 0x58), (AM_KEY_Y, 0x79, 0x59), (AM_KEY_Z, 0x7a, 0x5a),
      (AM_KEY_GRAVE, 0x60, 0x7e), (AM_KEY_MINUS, 0x2d, 0x5f), (AM_KEY_EQUALS, 0x3d, 0x2b),
      (AM_KEY_LEFTBRACKET, 0x5b, 0x7b), (AM_KEY_RIGHTBRACKET, 0x5d, 0x7d), (AM_KEY_BACKSLASH, 0x5c, 0x7c),
      (AM_KEY_SEMICOLON, 0x3b, 0x3a), (AM_KEY_APOSTROPHE, 0x27, 0x22), (AM_KEY_RETURN, 0x0a, 0x0a),
      (AM_KEY_COMMA, 0x2c, 0x3c), (AM_KEY_PERIOD, 0x2e, 0x3e), (AM_KEY_SLASH, 0x2f, 0x3f),
      (AM_KEY_SPACE, 0x20, 0x20), (AM_KEY_BACKSPACE, 0x08, 0x08)]"

definition keymap :: "nat \<Rightarrow> u8 \<times> u8" where
  "keymap k = (case map_of keymap_entries k of Some v \<Rightarrow> v | None \<Rightarrow> (0, 0))"

definition input_keydown ::
    "nat \<Rightarrow> bool \<Rightarrow> nat \<Rightarrow> input_t \<times> kernel \<Rightarrow> (input_t \<times> kernel) result" where
  "input_keydown c keydown keycode = (\<lambda>(inp, s).
     if keydown then
       if keycode = AM_KEY_CAPSLOCK then Inr (inp\<lparr>capslock := capslock inp XOR 1\<rparr>, s)
       else if keycode = AM_KEY_LCTRL then Inr (inp\<lparr>ctrl_down := (1, snd (ctrl_down inp))\<rparr>, s)
       else if keycode = AM_KEY_RCTRL then Inr (inp\<lparr>ctrl_down := (fst (ctrl_down inp), 1)\<rparr>, s)
       else if keycode = AM_KEY_LALT then Inr (inp\<lparr>alt_down := (1, snd (alt_down inp))\<rparr>, s)
       else if keycode = AM_KEY_RALT then Inr (inp\<lparr>alt_down := (fst (alt_down inp), 1)\<rparr>, s)
       else if keycode = AM_KEY_LSHIFT then Inr (inp\<lparr>shift_down := (1, snd (shift_down inp))\<rparr>, s)
       else if keycode = AM_KEY_RSHIFT then Inr (inp\<lparr>shift_down := (fst (shift_down inp), 1)\<rparr>, s)
       else
         let ch = sint (fst (keymap keycode)) in
         if ch = 0 then Inr (inp, s)
         else
           let shift = (if fst (shift_down inp) \<noteq> 0 \<or> snd (shift_down inp) \<noteq> 0 then 1 else 0);
               ctrl = (if fst (ctrl_down inp) \<noteq> 0 \<or> snd (ctrl_down inp) \<noteq> 0 then 1 else 0);
               alt = (if fst (alt_down inp) \<noteq> 0 \<or> snd (alt_down inp) \<noteq> 0 then 1 else 0)
           in if ctrl \<noteq> 0 \<or> alt \<noteq> 0 then push_event c (event ctrl alt ch) (inp, s)
              else
                let shift' = (if ch \<ge> 97 \<and> ch \<le> 122 then shift XOR capslock inp else shift)
                in if shift' \<noteq> 0 then push_event c (event 0 0 (sint (snd (keymap keycode)))) (inp, s)
                   else push_event c (event 0 0 ch) (inp, s)
     else
       if keycode = AM_KEY_LCTRL then Inr (inp\<lparr>ctrl_down := (0, snd (ctrl_down inp))\<rparr>, s)
       else if keycode = AM_KEY_RCTRL then Inr (inp\<lparr>ctrl_down := (fst (ctrl_down inp), 0)\<rparr>, s)
       else if keycode = AM_KEY_LALT then Inr (inp\<lparr>alt_down := (0, snd (alt_down inp))\<rparr>, s)
       else if keycode = AM_KEY_RALT then Inr (inp\<lparr>alt_down := (fst (alt_down inp), 0)\<rparr>, s)
       else if keycode = AM_KEY_LSHIFT then Inr (inp\<lparr>shift_down := (0, snd (shift_down inp))\<rparr>, s)
       else if keycode = AM_KEY_RSHIFT then Inr (inp\<lparr>shift_down := (fst (shift_down inp), 0)\<rparr>, s)
       else Inr (inp, s))"

section \<open>Device operations\<close>

text \<open>\<open>input_init\<close> on lock number \<open>l\<close>; \<open>garbage\<close> is the content of the array it allocates (the
  source does not check the allocation).  The second semaphore is \<open>sem_kbdirq\<close>.\<close>

definition input_init ::
    "nat \<Rightarrow> input_event list \<Rightarrow> nat \<Rightarrow> kernel \<Rightarrow> (input_t \<times> semaphore \<times> addr \<times> kernel) result" where
  "input_init l garbage c s =
     bindR (kernel_alloc c (4 * word_of_nat NEVENTS) s) (\<lambda>(p, s1).
     let sem = \<lparr>sem_lk = \<lparr>flag = 0\<rparr>, sem_value = 0, sem_name = []\<rparr>;
         inp = \<lparr>in_lock = l, event_sem = sem_init ''events in queue'' 0 sem, events = take NEVENTS garbage,
               front = 0, rear = 0, capslock = 0, shift_down = (0, 0), ctrl_down = (0, 0), alt_down = (0, 0)\<rparr>
     in Inr (inp, sem_init ''keyboard-interrupt'' 0 sem, p, spin_init l ''/dev/input lock'' s1))"

definition input_notify :: "semaphore \<Rightarrow> semaphore result" where
  "input_notify sem_kbdirq = sem_signal sem_kbdirq"

text \<open>\<open>input_read\<close>: the bytes copied are the event itself; \<open>sizeof(ev)\<close> is 4 on this machine.\<close>

definition input_read ::
    "nat \<Rightarrow> int \<Rightarrow> input_t \<times> kernel \<Rightarrow> ((int \<times> input_event option) option \<times> input_t \<times> kernel) result" where
  "input_read c count st =
     bindR (pop_event c st) (\<lambda>(r, st').
       case r of None \<Rightarrow> Inr (None, st')
       | Some ev \<Rightarrow> Inr (Some (if (word_of_int count :: u64) \<ge> 4 then (4, Some ev) else (0, None)), st'))"

definition input_write :: "int \<Rightarrow> int" where
  "input_write count = 0"

section \<open>The daemon\<close>

fun input_keys :: "nat \<Rightarrow> (bool \<times> nat) list \<Rightarrow> input_t \<times> kernel \<Rightarrow> (input_t \<times> kernel) result" where
  "input_keys c [] st = Inr st"
| "input_keys c ((keydown, keycode) # ks) st =
     bindR (input_keydown c keydown keycode st) (\<lambda>st'. input_keys c ks st')"

text \<open>One turn of \<open>dev_input_task\<close> before its \<open>sem_wait\<close>: \<open>keys\<close> are what the keyboard delivers
  until it is empty, \<open>us\<close> the clock.\<close>

definition input_turn ::
    "nat \<Rightarrow> (bool \<times> nat) list \<Rightarrow> u64 \<Rightarrow> u32 \<times> input_t \<times> kernel \<Rightarrow> (u32 \<times> input_t \<times> kernel) result" where
  "input_turn c keys us = (\<lambda>(known_time, st).
     bindR (input_keys c keys st) (\<lambda>st1.
     let time = ucast us in
     if (time - known_time) div 1000 > 100 \<and> is_empty (fst st1)
     then bindR (push_event c (event 0 0 0) st1) (\<lambda>st2. Inr (time, st2))
     else Inr (known_time, st1)))"

end
