(* ===== verification/RingBuf.thy ===== *)
theory RingBuf
  imports Prelude
begin

text \<open>
  Ring buffers: an array of \<open>N\<close> slots with a front and a rear index, as the keyboard and the
  terminal devices use them, and the contract of a bounded queue, proved of both.
\<close>

section \<open>The slots in use\<close>

definition used :: "nat \<Rightarrow> nat \<Rightarrow> nat \<Rightarrow> nat" where
  "used N f r = (if f \<le> r then r - f else r + N - f)"

definition queued :: "nat \<Rightarrow> 'a list \<Rightarrow> nat \<Rightarrow> nat \<Rightarrow> 'a list" where
  "queued N buf f r = map (\<lambda>i. buf ! ((f + i) mod N)) [0..<used N f r]"

lemma length_queued [simp]: "length (queued N buf f r) = used N f r"
  by (simp add: queued_def)

lemma used_less: "f < N \<Longrightarrow> r < N \<Longrightarrow> used N f r < N"
  by (auto simp: used_def)

lemma used_0 [simp]: "f < N \<Longrightarrow> r < N \<Longrightarrow> used N f r = 0 \<longleftrightarrow> f = r"
  by (auto simp: used_def)

lemma mod_small: "f < N \<Longrightarrow> i < N \<Longrightarrow> (f + i) mod N = (if f + i < N then f + i else f + i - N)"
  for N :: nat
  by (simp add: mod_if)

lemma slot_eq_rear:
  assumes "f < N" and "r < N" and "i < N"
  shows "(f + i) mod N = r \<longleftrightarrow> i = used N f r"
  using assms by (auto simp: mod_small used_def)

lemma used_Suc:
  assumes "f < N" and "r < N"
  shows "used N f (Suc r mod N) = (if used N f r = N - 1 then 0 else Suc (used N f r))"
  using assms by (cases "Suc r = N") (auto simp: used_def)

lemma full_iff: "f < N \<Longrightarrow> r < N \<Longrightarrow> Suc r mod N = f \<longleftrightarrow> used N f r = N - 1"
  by (cases "Suc r = N") (auto simp: used_def)

lemma queued_upd:
  assumes "f < N" and "r < N" and "length buf = N"
  shows "queued N (buf[r := x]) f r = queued N buf f r"
proof -
  have "buf[r := x] ! ((f + i) mod N) = buf ! ((f + i) mod N)" if i: "i < used N f r" for i
  proof -
    have "i < N" using i used_less [OF assms(1,2)] by simp
    then have "(f + i) mod N \<noteq> r" using slot_eq_rear [OF assms(1,2), of i] i by auto
    then show ?thesis by simp
  qed
  then show ?thesis by (simp add: queued_def)
qed

lemma queued_push:
  assumes "f < N" and "r < N" and "length buf = N" and "Suc r mod N \<noteq> f"
  shows "queued N (buf[r := x]) f (Suc r mod N) = queued N buf f r @ [x]"
proof -
  have u: "used N f (Suc r mod N) = Suc (used N f r)"
    using used_Suc [OF assms(1,2)] full_iff [OF assms(1,2)] assms(4) by simp
  have "(f + used N f r) mod N = r" using slot_eq_rear [OF assms(1,2)] used_less [OF assms(1,2)] by blast
  then have "queued N (buf[r := x]) f (Suc r mod N) = queued N (buf[r := x]) f r @ [x]"
    using assms(2,3) by (simp add: queued_def u)
  then show ?thesis using queued_upd [OF assms(1-3)] by simp
qed

lemma used_pop: "f < N \<Longrightarrow> r < N \<Longrightarrow> f \<noteq> r \<Longrightarrow> used N f r = Suc (used N (Suc f mod N) r)"
  by (cases "Suc f = N") (auto simp: used_def)

lemma queued_pop:
  assumes "f < N" and "r < N" and "f \<noteq> r"
  shows "queued N buf f r = buf ! f # queued N buf (Suc f mod N) r"
proof -
  have "(f + Suc i) mod N = (Suc f mod N + i) mod N" for i by (simp add: mod_add_left_eq)
  then show ?thesis
    using assms by (simp add: queued_def used_pop upt_conv_Cons map_Suc_upt [symmetric] del: upt_Suc)
qed

text \<open>The slot before the rear, and taking it off again.\<close>

definition before :: "nat \<Rightarrow> nat \<Rightarrow> nat" where
  "before N r = (if r = 0 then N else r) - 1"

lemma before_ok: "r < N \<Longrightarrow> before N r < N \<and> Suc (before N r) mod N = r"
  by (auto simp: before_def)

lemma used_before: "f < N \<Longrightarrow> r < N \<Longrightarrow> f \<noteq> r \<Longrightarrow> used N f r = Suc (used N f (before N r))"
  by (auto simp: used_def before_def)

lemma queued_before:
  assumes "f < N" and "r < N" and "f \<noteq> r"
  shows "queued N buf f r = queued N buf f (before N r) @ [buf ! before N r]"
proof -
  note b = before_ok [OF assms(2)]
  have "(f + used N f (before N r)) mod N = before N r"
    using slot_eq_rear [of f N "before N r"] used_less [of f N "before N r"] assms(1) b by blast
  then show ?thesis using used_before [OF assms] by (simp add: queued_def)
qed

section \<open>Bounded queues\<close>

fun put_list :: "('a \<Rightarrow> 'q \<Rightarrow> 'q result) \<Rightarrow> 'a list \<Rightarrow> 'q \<Rightarrow> 'q result" where
  "put_list put [] q = Inr q"
| "put_list put (x # xs) q = bindR (put x q) (put_list put xs)"

fun take_list :: "('q \<Rightarrow> ('a \<times> 'q) result) \<Rightarrow> nat \<Rightarrow> 'q \<Rightarrow> ('a list \<times> 'q) result" where
  "take_list get 0 q = Inr ([], q)"
| "take_list get (Suc n) q =
     bindR (get q) (\<lambda>(x, q). bindR (take_list get n q) (\<lambda>(xs, q). Inr (x # xs, q)))"

locale bounded_queue =
  fixes inv :: "'q \<Rightarrow> bool" and contents :: "'q \<Rightarrow> 'a list" and cap :: nat
    and put :: "'a \<Rightarrow> 'q \<Rightarrow> 'q result" and get :: "'q \<Rightarrow> ('a \<times> 'q) result"
  assumes bound: "inv q \<Longrightarrow> length (contents q) \<le> cap"
    and put_ok: "inv q \<Longrightarrow> length (contents q) < cap \<Longrightarrow>
      \<exists>q'. put x q = Inr q' \<and> inv q' \<and> contents q' = contents q @ [x]"
    and put_full: "inv q \<Longrightarrow> length (contents q) = cap \<Longrightarrow> put x q = Inl Panic"
    and get_ok: "inv q \<Longrightarrow> contents q = x # xs \<Longrightarrow> \<exists>q'. get q = Inr (x, q') \<and> inv q' \<and> contents q' = xs"
begin

lemma put_list_ok:
  "inv q \<Longrightarrow> length (contents q) + length xs \<le> cap \<Longrightarrow>
    \<exists>q'. put_list put xs q = Inr q' \<and> inv q' \<and> contents q' = contents q @ xs"
proof (induction xs arbitrary: q)
  case (Cons x xs)
  obtain q1 where q1: "put x q = Inr q1" "inv q1" "contents q1 = contents q @ [x]"
    using put_ok [of q x] Cons.prems by auto
  then have "length (contents q1) + length xs \<le> cap" using Cons.prems(2) by simp
  from Cons.IH [OF q1(2) this] show ?case using q1 by auto
qed simp

lemma take_list_ok:
  "inv q \<Longrightarrow> contents q = xs @ ys \<Longrightarrow> \<exists>q'. take_list get (length xs) q = Inr (xs, q') \<and> inv q' \<and> contents q' = ys"
proof (induction xs arbitrary: q)
  case (Cons x xs)
  obtain q1 where q1: "get q = Inr (x, q1)" "inv q1" "contents q1 = xs @ ys"
    using get_ok [of q x "xs @ ys"] Cons.prems by auto
  from Cons.IH [OF q1(2,3)] show ?case using q1(1) by auto
qed simp

lemma put_list_overflow:
  assumes "inv q" and "cap < length (contents q) + length xs"
  shows "put_list put xs q = Inl Panic"
  using assms
proof (induction xs arbitrary: q)
  case (Cons x xs)
  show ?case
  proof (cases "length (contents q) = cap")
    case False
    then have "length (contents q) < cap" using bound [OF Cons.prems(1)] by simp
    then obtain q1 where q1: "put x q = Inr q1" "inv q1" "contents q1 = contents q @ [x]"
      using put_ok [OF Cons.prems(1), of x] by auto
    then show ?thesis using Cons.IH [of q1] Cons.prems(2) by simp
  qed (use Cons.prems(1) put_full in simp)
next
  case Nil
  then show ?case using bound [of q] by simp
qed

end

end
