(* ===== verification/InputProofs.thy ===== *)
theory InputProofs
  imports Input RingBuf Semaphores KmtProofs KlibProofs
begin

text \<open>
  The keyboard device: its ring buffer is a bounded queue of 127 events, the semaphore counts
  them, and a key press puts the right character into it.
\<close>

section \<open>The ring buffer\<close>

definition input_ok :: "input_t \<Rightarrow> bool" where
  "input_ok inp \<longleftrightarrow> length (events inp) = NEVENTS \<and> front inp < NEVENTS \<and> rear inp < NEVENTS"

definition input_contents :: "input_t \<Rightarrow> input_event list" where
  "input_contents inp = queued NEVENTS (events inp) (front inp) (rear inp)"

lemma event_put_eq:
  assumes "input_ok inp"
  shows "event_put ev inp = (if Suc (rear inp) mod NEVENTS = front inp then Inl Panic
    else Inr (inp\<lparr>events := (events inp)[rear inp := ev], rear := Suc (rear inp) mod NEVENTS\<rparr>))"
  using assms by (simp add: event_put_def input_ok_def is_empty_def Let_def guardR_def)

interpretation input_queue: bounded_queue input_ok input_contents 127 event_put event_take
proof (unfold_locales, goal_cases)
  case (1 q)
  then show ?case
    using used_less [of "front q" NEVENTS "rear q"] by (simp add: input_ok_def input_contents_def NEVENTS_def)
next
  case (2 q x)
  let ?q = "q\<lparr>events := (events q)[rear q := x], rear := Suc (rear q) mod NEVENTS\<rparr>"
  have ok: "length (events q) = NEVENTS" "front q < NEVENTS" "rear q < NEVENTS" using 2(1) by (simp_all add: input_ok_def)
  have "used NEVENTS (front q) (rear q) < 127" using 2(2) by (simp add: input_contents_def)
  then have n: "Suc (rear q) mod NEVENTS \<noteq> front q" using full_iff [OF ok(2,3)] by (simp add: NEVENTS_def)
  have "input_contents ?q = input_contents q @ [x]"
    using queued_push [OF ok(2,3,1) n, of x] by (simp add: input_contents_def)
  moreover have "input_ok ?q" using ok by (simp add: input_ok_def NEVENTS_def)
  ultimately show ?case using event_put_eq [OF 2(1), of x] n by (intro exI [of _ ?q]) simp
next
  case (3 q x)
  then have ok: "front q < NEVENTS" "rear q < NEVENTS" by (simp_all add: input_ok_def)
  have "used NEVENTS (front q) (rear q) = NEVENTS - 1" using 3(2) by (simp add: input_contents_def NEVENTS_def)
  then show ?case using event_put_eq [OF 3(1), of x] full_iff [OF ok] by simp
next
  case (4 q x xs)
  let ?q = "q\<lparr>front := Suc (front q) mod NEVENTS\<rparr>"
  have ok: "length (events q) = NEVENTS" "front q < NEVENTS" "rear q < NEVENTS" using 4(1) by (simp_all add: input_ok_def)
  have ne: "front q \<noteq> rear q" using 4(2) used_0 [OF ok(2,3)] length_queued [of NEVENTS "events q" "front q" "rear q"]
    by (auto simp: input_contents_def queued_def)
  have "x = events q ! front q" "xs = input_contents ?q"
    using 4(2) queued_pop [OF ok(2,3) ne, of "events q"] by (simp_all add: input_contents_def)
  moreover have "event_take q = Inr (events q ! front q, ?q)"
    using ok ne by (simp add: event_take_def is_empty_def Let_def)
  moreover have "input_ok ?q" using ok by (simp add: input_ok_def NEVENTS_def)
  ultimately show ?case by (intro exI [of _ ?q]) simp
qed

section \<open>With the lock and the semaphore\<close>

text \<open>Between calls the queue is well formed, the semaphore counts its events, and both locks are free.\<close>

definition input_inv :: "nat \<Rightarrow> input_t \<Rightarrow> kernel \<Rightarrow> bool" where
  "input_inv c inp s \<longleftrightarrow> input_ok inp \<and> flag (sem_lk (event_sem inp)) = 0 \<and>
     sem_value (event_sem inp) = int (length (input_contents inp)) \<and>
     nest s c = 0 \<and> sl_flag (locks s (in_lock inp)) = 0"

lemma spin_pair:
  assumes "nest s c = 0" and "sl_flag (locks s l) = 0"
  obtains s1 where "spin_lock c l s = Inr s1"
    and "spin_unlock c l s1 = Inr (s\<lparr>intenb := (intenb s)(c := ien s c)\<rparr>)"
proof -
  let ?s1 = "s\<lparr>ien := (ien s)(c := False), nest := (nest s)(c := 1), intenb := (intenb s)(c := ien s c),
    locks := (locks s)(l := (locks s l)\<lparr>sl_flag := 1\<rparr>)\<rparr>"
  have "spin_lock c l s = Inr ?s1" using spin_lock_free [of s c l] assms by simp
  moreover have "spin_unlock c l ?s1 = Inr (s\<lparr>intenb := (intenb s)(c := ien s c)\<rparr>)"
    using assms by (simp add: spin_unlock_last fun_upd_idem)
  ultimately show thesis by (rule that)
qed

lemma push_event_ok:
  assumes "input_inv c inp s" and "length (input_contents inp) < 127"
  shows "\<exists>inp' s'. push_event c ev (inp, s) = Inr (inp', s') \<and> input_inv c inp' s' \<and>
    input_contents inp' = input_contents inp @ [ev] \<and> in_lock inp' = in_lock inp"
proof -
  note i = assms(1) [unfolded input_inv_def]
  obtain q where q: "event_put ev inp = Inr q" "input_ok q" "input_contents q = input_contents inp @ [ev]"
    using input_queue.put_ok [of inp ev] i assms(2) by blast
  then have sm: "event_sem q = event_sem inp" "in_lock q = in_lock inp"
    using event_put_eq [of inp ev] i by (auto split: if_splits)
  obtain s1 where sp: "spin_lock c (in_lock inp) s = Inr s1"
    "spin_unlock c (in_lock inp) s1 = Inr (s\<lparr>intenb := (intenb s)(c := ien s c)\<rparr>)"
    using spin_pair [of s c "in_lock inp"] i by blast
  let ?sem = "(event_sem inp)\<lparr>sem_value := sem_value (event_sem inp) + 1\<rparr>"
  let ?s = "s\<lparr>intenb := (intenb s)(c := ien s c)\<rparr>"
  have "sem_signal (event_sem inp) = Inr ?sem" using i assms(2) by (simp add: sem_signal_Inr)
  then have "push_event c ev (inp, s) = Inr (q\<lparr>event_sem := ?sem\<rparr>, ?s)"
    using sp q(1) sm by (simp add: push_event_def)
  moreover have c: "input_contents (q\<lparr>event_sem := ?sem\<rparr>) = input_contents inp @ [ev]"
    using q(3) by (simp add: input_contents_def)
  moreover have "input_inv c (q\<lparr>event_sem := ?sem\<rparr>) ?s"
    using i q(2) c sm by (simp add: input_inv_def) (simp add: input_ok_def)
  ultimately show ?thesis using sm by (intro exI [of _ "q\<lparr>event_sem := ?sem\<rparr>"] exI [of _ ?s]) simp
qed

lemma push_event_full:
  assumes "input_inv c inp s" and "length (input_contents inp) = 127"
  shows "push_event c ev (inp, s) = Inl Panic"
proof -
  note i = assms(1) [unfolded input_inv_def]
  obtain s1 where "spin_lock c (in_lock inp) s = Inr s1" using spin_pair [of s c "in_lock inp"] i by blast
  then show ?thesis using input_queue.put_full [of inp ev] i assms(2) by (simp add: push_event_def)
qed

lemma pop_event_ok:
  assumes "input_inv c inp s" and "input_contents inp = ev # evs"
  shows "\<exists>inp' s'. pop_event c (inp, s) = Inr (Some ev, inp', s') \<and> input_inv c inp' s' \<and>
    input_contents inp' = evs \<and> in_lock inp' = in_lock inp"
proof -
  note i = assms(1) [unfolded input_inv_def]
  let ?sem = "(event_sem inp)\<lparr>sem_value := sem_value (event_sem inp) - 1\<rparr>"
  let ?inp = "inp\<lparr>event_sem := ?sem\<rparr>"
  have "sem_value (event_sem inp) > 0" using i assms(2) by simp
  then have t: "sem_try (event_sem inp) = Inr (True, ?sem)" using i by (simp add: sem_try_eq)
  have "input_ok ?inp" "input_contents ?inp = ev # evs" using i assms(2) by (simp_all add: input_ok_def input_contents_def)
  then obtain q where q: "event_take ?inp = Inr (ev, q)" "input_ok q" "input_contents q = evs"
    using input_queue.get_ok by blast
  then have sm: "event_sem q = ?sem" "in_lock q = in_lock inp"
    by (auto simp: event_take_def Let_def guardR_def outcome arr_get_Inr split: if_splits)
  obtain s1 where sp: "spin_lock c (in_lock inp) s = Inr s1"
    "spin_unlock c (in_lock inp) s1 = Inr (s\<lparr>intenb := (intenb s)(c := ien s c)\<rparr>)"
    using spin_pair [of s c "in_lock inp"] i by blast
  let ?s = "s\<lparr>intenb := (intenb s)(c := ien s c)\<rparr>"
  have "pop_event c (inp, s) = Inr (Some ev, q, ?s)" using t sp q(1) sm by (simp add: pop_event_def Let_def)
  moreover have "input_inv c q ?s" using i q(2,3) sm assms(2) by (simp add: input_inv_def)
  ultimately show ?thesis using q(3) sm by blast
qed

lemma pop_event_empty:
  assumes "input_inv c inp s" and "input_contents inp = []"
  shows "pop_event c (inp, s) = Inr (None, inp, s)"
  using assms by (simp add: input_inv_def pop_event_def sem_try_eq Let_def)

text \<open>\<open>pop_event\<close> where it does not have to wait.\<close>

definition pop_now :: "nat \<Rightarrow> input_t \<times> kernel \<Rightarrow> (input_event \<times> input_t \<times> kernel) result" where
  "pop_now c st = bindR (pop_event c st) (\<lambda>(r, st'). case r of None \<Rightarrow> Inl Spin_Forever | Some ev \<Rightarrow> Inr (ev, st'))"

interpretation input_device: bounded_queue "\<lambda>st. input_inv c (fst st) (snd st)"
  "\<lambda>st. input_contents (fst st)" 127 "push_event c" "pop_now c" for c
proof (unfold_locales, goal_cases)
  case (1 q)
  then show ?case using input_queue.bound [of "fst q"] by (simp add: input_inv_def)
next
  case (2 q x)
  then show ?case using push_event_ok [of c "fst q" "snd q" x] by force
next
  case (3 q x)
  then show ?case using push_event_full [of c "fst q" "snd q" x] by simp
next
  case (4 q x xs)
  then show ?case using pop_event_ok [of c "fst q" "snd q" x xs] by (fastforce simp: pop_now_def)
qed

text \<open>C11. The keyboard device is a first-in first-out queue: pushing any number of events while
  there is room and popping as many as there are gives the old events and then the new ones, in
  order, and a push that would exceed 127 events panics.\<close>

theorem input_fifo:
  assumes "input_inv c inp s"
  shows "(length (input_contents inp) + length evs \<le> 127 \<longrightarrow>
      (\<exists>st st'. put_list (push_event c) evs (inp, s) = Inr st \<and>
        take_list (pop_now c) (length (input_contents inp) + length evs) st = Inr (input_contents inp @ evs, st') \<and>
        input_inv c (fst st') (snd st') \<and> input_contents (fst st') = [])) \<and>
    (127 < length (input_contents inp) + length evs \<longrightarrow> put_list (push_event c) evs (inp, s) = Inl Panic)"
proof (intro conjI impI)
  assume l: "length (input_contents inp) + length evs \<le> 127"
  obtain st where st: "put_list (push_event c) evs (inp, s) = Inr st" "input_inv c (fst st) (snd st)"
    "input_contents (fst st) = input_contents inp @ evs"
    using input_device.put_list_ok [of c "(inp, s)" evs] assms l by auto
  then have "input_contents (fst st) = (input_contents inp @ evs) @ []" by simp
  from input_device.take_list_ok [OF st(2) this] st(1)
  show "\<exists>st st'. put_list (push_event c) evs (inp, s) = Inr st \<and>
        take_list (pop_now c) (length (input_contents inp) + length evs) st = Inr (input_contents inp @ evs, st') \<and>
        input_inv c (fst st') (snd st') \<and> input_contents (fst st') = []" by auto
qed (use assms input_device.put_list_overflow [of c "(inp, s)" evs] in simp)

text \<open>The device after \<open>input_init\<close>, on lock 8.\<close>

lemma input_init_ok:
  assumes "input_init l garbage c s = Inr (inp, sem, p, s')" and "length garbage \<ge> NEVENTS" and "nest s c = 0"
  shows "input_inv c inp s'" and "input_contents inp = []"
  using assms by (auto simp: input_init_def outcome Let_def input_inv_def input_ok_def input_contents_def
      queued_def used_def sem_init_def lockinit_def spin_init_def kernel_alloc_def NEVENTS_def)

definition demo_input :: input_t where
  "demo_input = \<lparr>in_lock = 8, event_sem = \<lparr>sem_lk = \<lparr>flag = 0\<rparr>, sem_value = 0, sem_name = ''events in queue''\<rparr>,
     events = replicate 128 (event 0 0 0), front = 0, rear = 0, capslock = 0, shift_down = (0, 0),
     ctrl_down = (0, 0), alt_down = (0, 0)\<rparr>"

lemma demo_input_ok: "input_inv 0 demo_input (demo_kernel m)" "input_contents demo_input = []"
  by (simp_all add: input_inv_def input_ok_def demo_input_def demo_kernel_def input_contents_def queued_def
      used_def NEVENTS_def)

theorem input_fifo_witness:
  "\<exists>st st'. put_list (push_event 0) [event 0 0 97, event 0 0 98] (demo_input, demo_kernel qemu_heap) = Inr st \<and>
     take_list (pop_now 0) 2 st = Inr ([event 0 0 97, event 0 0 98], st')"
proof -
  let ?es = "[event 0 0 97, event 0 0 98]"
  have n: "length (input_contents demo_input) + length ?es = 2" "input_contents demo_input @ ?es = ?es"
    by (simp_all add: demo_input_ok(2))
  note w = conjunct1 [OF input_fifo [OF demo_input_ok(1) [of qemu_heap], of ?es]]
  have "(2 :: nat) \<le> 127" by simp
  from w [unfolded n, rule_format, OF this] show ?thesis by blast
qed

section \<open>Keys\<close>

lemma keymap_letters: "\<forall>(k, a, b)\<in>set keymap_entries. 97 \<le> a \<and> a \<le> 122 \<longrightarrow> b = a - 32"
  by (simp add: keymap_entries_def)

lemma keymap_modifiers:
  "\<forall>k\<in>{AM_KEY_CAPSLOCK, AM_KEY_LCTRL, AM_KEY_RCTRL, AM_KEY_LALT, AM_KEY_RALT, AM_KEY_LSHIFT, AM_KEY_RSHIFT}.
    fst (keymap k) = 0"
  by (simp add: keymap_def keymap_entries_def)

text \<open>Pressing a letter key without control or alt appends one event to the queue: the
  capital letter exactly when one of shift and caps lock is on.\<close>

theorem input_keydown_letter:
  assumes i: "input_inv c inp s" and room: "length (input_contents inp) < 127"
    and m: "ctrl_down inp = (0, 0)" "alt_down inp = (0, 0)" "capslock inp = (if caps then 1 else 0)"
    and k: "97 \<le> fst (keymap k)" "fst (keymap k) \<le> 122"
  shows "\<exists>inp' s'. input_keydown c True k (inp, s) = Inr (inp', s') \<and> input_inv c inp' s' \<and>
    input_contents inp' = input_contents inp @ [event 0 0 (sint (fst (keymap k)) -
      (if ((fst (shift_down inp) \<noteq> 0 \<or> snd (shift_down inp) \<noteq> 0) \<noteq> caps) then 32 else 0))]"
proof -
  let ?a = "fst (keymap k)" and ?b = "snd (keymap k)"
  have nm: "k \<notin> {AM_KEY_CAPSLOCK, AM_KEY_LCTRL, AM_KEY_RCTRL, AM_KEY_LALT, AM_KEY_RALT, AM_KEY_LSHIFT, AM_KEY_RSHIFT}"
    using keymap_modifiers k(1) by auto
  have a: "97 \<le> uint ?a" "uint ?a \<le> 122" using k by (simp_all add: word_le_def)
  have sa: "sint ?a = uint ?a" by (rule sint_small) (use a in simp)
  obtain v where "map_of keymap_entries k = Some v" using k(1) by (auto simp: keymap_def split: option.splits)
  then have "(k, ?a, ?b) \<in> set keymap_entries" by (auto simp: keymap_def dest: map_of_SomeD)
  then have b: "?b = ?a - 32" using keymap_letters k by blast
  have "uint ?b = uint ?a - 32" unfolding b using iffD1 [OF uint_sub_lem, of 32 ?a] a by simp
  then have sb: "sint ?b = sint ?a - 32" using sint_small [of ?b] sa a by simp
  let ?sh = "fst (shift_down inp) \<noteq> 0 \<or> snd (shift_down inp) \<noteq> 0"
  let ?ev = "event 0 0 (sint ?a - (if ?sh \<noteq> caps then 32 else 0))"
  have run: "input_keydown c True k (inp, s) = push_event c ?ev (inp, s)"
    using nm m a sa sb by (simp add: input_keydown_def Let_def)
  from push_event_ok [OF i room, of ?ev] show ?thesis unfolding run [symmetric] by blast
qed

theorem input_keydown_letter_witness:
  "\<exists>inp' s'. input_keydown 0 True AM_KEY_A (demo_input\<lparr>capslock := 1\<rparr>, demo_kernel qemu_heap) = Inr (inp', s') \<and>
     input_contents inp' = [event 0 0 65]"
proof -
  let ?d = "demo_input\<lparr>capslock := 1\<rparr>"
  have i: "input_inv 0 ?d (demo_kernel qemu_heap)" "input_contents ?d = []"
    by (simp_all add: input_inv_def input_ok_def demo_input_def demo_kernel_def input_contents_def queued_def
      used_def NEVENTS_def)
  have m: "ctrl_down ?d = (0, 0)" "alt_down ?d = (0, 0)" "capslock ?d = (if True then 1 else 0)"
    by (simp_all add: demo_input_def)
  have k: "fst (keymap AM_KEY_A) = 97" by (simp add: keymap_def keymap_entries_def)
  have sh: "shift_down ?d = (0, 0)" by (simp add: demo_input_def)
  have s: "sint (97 :: u8) = 97" by (simp add: sint_small)
  from input_keydown_letter [OF i(1) _ m, of AM_KEY_A]
  have "\<exists>inp' s'. input_keydown 0 True AM_KEY_A (?d, demo_kernel qemu_heap) = Inr (inp', s') \<and>
     input_inv 0 inp' s' \<and> input_contents inp' = [event 0 0 65]" unfolding i(2) k sh s by simp
  then show ?thesis by blast
qed

end
