(* ===== verification/Fb.thy ===== *)
theory Fb
  imports Kmt Font
begin

text \<open>
  The frame buffer device, \<open>kernel/src/dev/dev_video.c\<close>, with the structures of \<open>devices.h\<close>.  The
  textures are bytes, because \<open>fb_write\<close> copies bytes into them; what is drawn is a log of
  the \<open>AM_GPU_FBDRAW\<close> requests.
\<close>

definition NTEXTURE :: nat where "NTEXTURE = 16384"
definition NSPRITE :: nat where "NSPRITE = 16384"
definition TEXTURE_W :: nat where "TEXTURE_W = 8"
definition TEXTURE_H :: nat where "TEXTURE_H = 8"
definition SPRITE_BRK :: int where "SPRITE_BRK = 0x1000000"

record display_info =
  di_width :: u32
  di_height :: u32
  num_displays :: u32
  current :: u32
  num_textures :: u32
  num_sprites :: u32

record sprite =
  sp_texture :: u16
  sp_x :: u16
  sp_y :: u16
  sp_display :: "4 word"
  sp_z :: "12 word"

type_synonym texels = "nat \<Rightarrow> u8"

text \<open>One \<open>AM_GPU_FBDRAW\<close>: position and the 64 pixels.\<close>

type_synonym draw = "u16 \<times> u16 \<times> u32 list"

record fb_t =
  fb_info :: display_info
  fb_textures :: texels
  fb_sem :: semaphore
  fb_draws :: "draw list"

section \<open>Textures\<close>

definition put32 :: "nat \<Rightarrow> u32 \<Rightarrow> texels \<Rightarrow> texels" where
  "put32 a v t = t(a := ucast v, a + 1 := ucast (drop_bit 8 v), a + 2 := ucast (drop_bit 16 v),
     a + 3 := ucast (drop_bit 24 v))"

definition get32 :: "nat \<Rightarrow> texels \<Rightarrow> u32" where
  "get32 a t = ucast (t a) OR push_bit 8 (ucast (t (a + 1))) OR push_bit 16 (ucast (t (a + 2))) OR
     push_bit 24 (ucast (t (a + 3)))"

text \<open>The two loops of \<open>texture_fill\<close> over the pairs of \<open>y\<close> and \<open>x\<close>, with the moving pointer
  \<open>px\<close>; the pointer \<open>bits\<close> is the font and an offset into it.\<close>

fun texture_loop :: "(nat \<times> nat) list \<Rightarrow> nat \<Rightarrow> int \<Rightarrow> u8 list \<Rightarrow> nat \<Rightarrow> u32 \<Rightarrow> u32 \<Rightarrow> texels \<Rightarrow> texels result" where
  "texture_loop [] px tp font bits fg bg t = Inr t"
| "texture_loop ((y, x) # ps) px tp font bits fg bg t =
     bindR (arr_get font (bits + (if tp \<noteq> 0 then y + TEXTURE_H else y))) (\<lambda>bitmask.
     texture_loop ps (px + 4) tp font bits fg bg
       (put32 px (if drop_bit (7 - x) bitmask AND 1 \<noteq> 0 then fg else bg) t))"

definition texture_fill :: "nat \<Rightarrow> int \<Rightarrow> u8 list \<Rightarrow> nat \<Rightarrow> u32 \<Rightarrow> u32 \<Rightarrow> texels \<Rightarrow> texels result" where
  "texture_fill tx tp font bits fg bg t =
     texture_loop (List.product [0..<TEXTURE_H] [0..<TEXTURE_W]) (256 * tx) tp font bits fg bg t"

fun font_loop :: "nat list \<Rightarrow> u8 list \<Rightarrow> texels \<Rightarrow> texels result" where
  "font_loop [] font t = Inr t"
| "font_loop (ch # chs) font t =
     bindR (texture_fill (ch * 2 + 1) 0 font (16 * ch) 0xeeeeee 0x000000 t) (\<lambda>t.
     bindR (texture_fill (ch * 2 + 2) 1 font (16 * ch) 0xeeeeee 0x000000 t) (\<lambda>t.
     font_loop chs font t))"

definition font_load :: "u8 list \<Rightarrow> texels \<Rightarrow> texels result" where
  "font_load font t = font_loop [0..<256] font t"

section \<open>Device operations\<close>

text \<open>\<open>fb_init\<close>: \<open>w\<close> and \<open>h\<close> are what the GPU reports; the three allocations are requested from
  \<open>pmm\<close>, whose answers the source does not check.\<close>

definition fb_init :: "u32 \<Rightarrow> u32 \<Rightarrow> texels \<Rightarrow> string \<Rightarrow> nat \<Rightarrow> kernel \<Rightarrow> (fb_t \<times> kernel) result" where
  "fb_init w h garbage name c s =
     bindR (kernel_alloc c 24 s) (\<lambda>(_, s1).
     bindR (kernel_alloc c (256 * word_of_nat NTEXTURE) s1) (\<lambda>(_, s2).
     bindR (kernel_alloc c (8 * word_of_nat NSPRITE) s2) (\<lambda>(_, s3).
     let info = \<lparr>di_width = w, di_height = h, num_displays = 8, current = 0,
                 num_textures = word_of_nat NTEXTURE, num_sprites = word_of_nat NSPRITE\<rparr> in
     bindR (font_load term_font garbage) (\<lambda>t.
     Inr (\<lparr>fb_info = info, fb_textures = t,
           fb_sem = sem_init name 1 \<lparr>sem_lk = \<lparr>flag = 0\<rparr>, sem_value = 0, sem_name = []\<rparr>,
           fb_draws = []\<rparr>, s3)))))"

text \<open>\<open>fb_read\<close> always returns 0; what it copies is the second component.\<close>

definition fb_read :: "fb_t \<Rightarrow> int \<Rightarrow> int \<Rightarrow> int \<times> display_info option" where
  "fb_read fb offset count =
     (if offset \<noteq> 0 then (0, None) else if (word_of_int count :: u64) \<noteq> 24 then (0, None)
      else (0, Some (fb_info fb)))"

text \<open>The buffer of \<open>fb_write\<close>, by the use made of it.\<close>

datatype fb_data = Info display_info | Texels "u8 list" | Sprites "sprite list"

text \<open>The pixels of a texture; an index past the \<open>NTEXTURE\<close> allocated ones is out of bounds.\<close>

definition texture_pixels :: "nat \<Rightarrow> texels \<Rightarrow> u32 list result" where
  "texture_pixels tx t =
     bindR (guardR Out_Of_Bounds (tx < NTEXTURE)) (\<lambda>_.
     Inr (map (\<lambda>i. get32 (256 * tx + 4 * i) t) [0..<TEXTURE_W * TEXTURE_H]))"

fun fb_sprites :: "sprite list \<Rightarrow> fb_t \<Rightarrow> fb_t result" where
  "fb_sprites [] fb = Inr fb"
| "fb_sprites (sp # sps) fb =
     (if unat (sp_texture sp) > 0 \<and> ucast (sp_display sp) = current (fb_info fb)
      then bindR (texture_pixels (unat (sp_texture sp)) (fb_textures fb)) (\<lambda>px.
           fb_sprites sps (fb\<lparr>fb_draws := fb_draws fb @ [(sp_x sp, sp_y sp, px)]\<rparr>))
      else fb_sprites sps fb)"

fun copy_texels :: "nat \<Rightarrow> u8 list \<Rightarrow> texels \<Rightarrow> texels" where
  "copy_texels a [] t = t"
| "copy_texels a (x # xs) t = copy_texels (a + 1) xs (t(a := x))"

definition fb_write :: "int \<Rightarrow> fb_data \<Rightarrow> int \<Rightarrow> fb_t \<Rightarrow> (int \<times> fb_t) result" where
  "fb_write offset buf count fb =
     bindR (returns (sem_wait (\<lambda>sem. sem) (fb_sem fb))) (\<lambda>sem.
     let fb1 = fb\<lparr>fb_sem := sem\<rparr> in
     bindR
      (if offset = 0 then
         (case buf of Info info \<Rightarrow>
            Inr (if current (fb_info fb1) \<noteq> current info
                 then fb1\<lparr>fb_info := (fb_info fb1)\<lparr>current := current info\<rparr>\<rparr> else fb1)
          | _ \<Rightarrow> Inl Undefined_Behaviour)
       else if offset < SPRITE_BRK then
         (case buf of Texels xs \<Rightarrow>
            bindR (guardR Out_Of_Bounds (0 \<le> offset \<and> count = int (length xs) \<and>
                     nat offset + length xs \<le> 256 * NTEXTURE)) (\<lambda>_.
            Inr (fb1\<lparr>fb_textures := copy_texels (nat offset) xs (fb_textures fb1)\<rparr>))
          | _ \<Rightarrow> Inl Undefined_Behaviour)
       else
         (case buf of Sprites sps \<Rightarrow> fb_sprites sps fb1 | _ \<Rightarrow> Inl Undefined_Behaviour)) (\<lambda>fb2.
     bindR (sem_signal (fb_sem fb2)) (\<lambda>sem'. Inr (count, fb2\<lparr>fb_sem := sem'\<rparr>))))"

section \<open>What the font loader leaves in the textures\<close>

lemma put32_other: "x < a \<or> a + 4 \<le> x \<Longrightarrow> put32 a v t x = t x"
  by (auto simp: put32_def)

lemma get32_put32: "get32 a (put32 a v t) = v"
proof (rule bit_word_eqI)
  fix n assume "n < LENGTH(32)"
  then consider "n < 8" | "8 \<le> n" "n < 16" | "16 \<le> n" "n < 24" | "24 \<le> n" "n < 32" by fastforce
  then show "bit (get32 a (put32 a v t)) n = bit v n"
    unfolding get32_def put32_def by cases (auto simp: bit_simps)
qed

lemma get32_cong: "(\<And>x. a \<le> x \<Longrightarrow> x < a + 4 \<Longrightarrow> t x = t' x) \<Longrightarrow> get32 a t = get32 a t'"
  by (simp add: get32_def)

lemma bit_test: "drop_bit k b AND 1 \<noteq> 0 \<longleftrightarrow> bit (b :: u8) k"
  by (simp add: and_one_eq mod_2_eq_odd bit_iff_odd_drop_bit)

definition colour :: "u8 list \<Rightarrow> nat \<Rightarrow> int \<Rightarrow> u32 \<Rightarrow> u32 \<Rightarrow> nat \<times> nat \<Rightarrow> u32" where
  "colour font bits tp fg bg = (\<lambda>(y, x).
     if bit (font ! (bits + (if tp \<noteq> 0 then y + 8 else y))) (7 - x) then fg else bg)"

lemma texture_loop_ok:
  assumes "\<forall>(y, x)\<in>set ps. bits + (if tp \<noteq> 0 then y + 8 else y) < length font"
  shows "\<exists>t'. texture_loop ps px tp font bits fg bg t = Inr t' \<and>
    (\<forall>i<length ps. get32 (px + 4 * i) t' = colour font bits tp fg bg (ps ! i)) \<and>
    (\<forall>x. x < px \<or> px + 4 * length ps \<le> x \<longrightarrow> t' x = t x)"
  using assms
proof (induction ps arbitrary: px t)
  case (Cons p ps)
  obtain y x where p: "p = (y, x)" by (cases p)
  let ?j = "bits + (if tp \<noteq> 0 then y + 8 else y)"
  let ?t = "put32 px (colour font bits tp fg bg p) t"
  have j: "?j < length font" using Cons.prems p by simp
  obtain t' where t': "texture_loop ps (px + 4) tp font bits fg bg ?t = Inr t'"
    "\<forall>i<length ps. get32 (px + 4 + 4 * i) t' = colour font bits tp fg bg (ps ! i)"
    "\<forall>x. x < px + 4 \<or> px + 4 + 4 * length ps \<le> x \<longrightarrow> t' x = ?t x"
    using Cons.IH [of "px + 4" ?t] Cons.prems by auto
  have run: "texture_loop (p # ps) px tp font bits fg bg t = Inr t'"
    using j t'(1) p by (cases "tp = 0") (simp_all add: TEXTURE_H_def bit_test colour_def)
  have "get32 px t' = get32 px ?t" using t'(3) by (intro get32_cong) simp
  then have "get32 (px + 4 * i) t' = colour font bits tp fg bg ((p # ps) ! i)" if "i < length (p # ps)" for i
    using that t'(2) by (cases i) (simp_all add: get32_put32 algebra_simps)
  moreover have "t' x = t x" if "x < px \<or> px + 4 * length (p # ps) \<le> x" for x
    using that t'(3) by (auto simp: put32_other)
  ultimately show ?case using run by blast
qed simp

lemma texture_fill_ok:
  assumes "bits + 16 \<le> length font"
  shows "\<exists>t'. texture_fill tx tp font bits fg bg t = Inr t' \<and>
    (\<forall>y<8. \<forall>x<8. get32 (256 * tx + 4 * (8 * y + x)) t' = colour font bits tp fg bg (y, x)) \<and>
    (\<forall>x. x < 256 * tx \<or> 256 * tx + 256 \<le> x \<longrightarrow> t' x = t x)"
proof -
  let ?ps = "List.product [0..<8] [0..<8] :: (nat \<times> nat) list"
  have b: "\<forall>(y, x)\<in>set ?ps. bits + (if tp \<noteq> 0 then y + 8 else y) < length font" using assms by auto
  have n: "?ps ! (8 * y + x) = (y, x)" if "y < 8" "x < 8" for y x
    using that by (subst product_nth) simp_all
  obtain t' where t': "texture_loop ?ps (256 * tx) tp font bits fg bg t = Inr t'"
    "\<forall>i<length ?ps. get32 (256 * tx + 4 * i) t' = colour font bits tp fg bg (?ps ! i)"
    "\<forall>x. x < 256 * tx \<or> 256 * tx + 4 * length ?ps \<le> x \<longrightarrow> t' x = t x"
    using texture_loop_ok [OF b, of "256 * tx" fg bg t] by blast
  have "get32 (256 * tx + 4 * (8 * y + x)) t' = colour font bits tp fg bg (y, x)" if "y < 8" "x < 8" for y x
    using t'(2) [rule_format, of "8 * y + x"] n [OF that] that by simp
  then show ?thesis using t'(1,3) by (simp add: texture_fill_def TEXTURE_H_def TEXTURE_W_def)
qed

text \<open>The loop over the characters: the texture \<open>2 * ch + 1 + h\<close> is half \<open>h\<close> of character \<open>ch\<close>.\<close>

definition glyph :: "u8 list \<Rightarrow> nat \<Rightarrow> nat \<Rightarrow> texels \<Rightarrow> bool" where
  "glyph font ch h t \<longleftrightarrow> (\<forall>y<8. \<forall>x<8. get32 (256 * (2 * ch + 1 + h) + 4 * (8 * y + x)) t =
     (if bit (font ! (16 * ch + 8 * h + y)) (7 - x) then 0xeeeeee else 0))"

lemma glyph_cong:
  assumes "\<And>x. 256 * (2 * ch + 1 + h) \<le> x \<Longrightarrow> x < 256 * (2 * ch + 2 + h) \<Longrightarrow> t x = t' x"
  shows "glyph font ch h t = glyph font ch h t'"
proof -
  have "get32 (256 * (2 * ch + 1 + h) + 4 * (8 * y + x)) t = get32 (256 * (2 * ch + 1 + h) + 4 * (8 * y + x)) t'"
    if "y < 8" "x < 8" for y x
    using that by (intro get32_cong assms) simp_all
  then show ?thesis by (simp add: glyph_def)
qed

lemma font_loop_ok:
  assumes "16 * (k + n) \<le> length font"
  shows "\<exists>t'. font_loop [k..<k + n] font t = Inr t' \<and>
    (\<forall>ch. k \<le> ch \<longrightarrow> ch < k + n \<longrightarrow> glyph font ch 0 t' \<and> glyph font ch 1 t') \<and>
    (\<forall>x. x < 256 * (2 * k + 1) \<or> 256 * (2 * (k + n) + 1) \<le> x \<longrightarrow> t' x = t x)"
  using assms
proof (induction n arbitrary: k t)
  case (Suc n)
  have b: "16 * k + 16 \<le> length font" using Suc.prems by simp
  obtain t1 where t1: "texture_fill (k * 2 + 1) 0 font (16 * k) 0xeeeeee 0 t = Inr t1"
    "\<forall>y<8. \<forall>x<8. get32 (256 * (k * 2 + 1) + 4 * (8 * y + x)) t1 = colour font (16 * k) 0 0xeeeeee 0 (y, x)"
    "\<forall>x. x < 256 * (k * 2 + 1) \<or> 256 * (k * 2 + 1) + 256 \<le> x \<longrightarrow> t1 x = t x"
    using texture_fill_ok [OF b, of "k * 2 + 1" 0 "0xeeeeee" 0 t] by blast
  obtain t2 where t2: "texture_fill (k * 2 + 2) 1 font (16 * k) 0xeeeeee 0 t1 = Inr t2"
    "\<forall>y<8. \<forall>x<8. get32 (256 * (k * 2 + 2) + 4 * (8 * y + x)) t2 = colour font (16 * k) 1 0xeeeeee 0 (y, x)"
    "\<forall>x. x < 256 * (k * 2 + 2) \<or> 256 * (k * 2 + 2) + 256 \<le> x \<longrightarrow> t2 x = t1 x"
    using texture_fill_ok [OF b, of "k * 2 + 2" 1 "0xeeeeee" 0 t1] by blast
  have g1: "glyph font k 0 t1" using t1(2) by (simp add: glyph_def colour_def mult.commute)
  have i: "16 * k + (y + 8) = 16 * k + 8 + y" for y by simp
  have g2: "glyph font k 1 t2" using t2(2) unfolding glyph_def colour_def by (simp add: i)
  have g1': "glyph font k 0 t2" using glyph_cong [of k 0 t2 t1] g1 t2(3) by simp
  obtain t' where t': "font_loop [Suc k..<Suc k + n] font t2 = Inr t'"
    "\<forall>ch. Suc k \<le> ch \<longrightarrow> ch < Suc k + n \<longrightarrow> glyph font ch 0 t' \<and> glyph font ch 1 t'"
    "\<forall>x. x < 256 * (2 * Suc k + 1) \<or> 256 * (2 * (Suc k + n) + 1) \<le> x \<longrightarrow> t' x = t2 x"
    using Suc.IH [of "Suc k" t2] Suc.prems by auto
  have k: "glyph font k 0 t'" "glyph font k 1 t'"
    using glyph_cong [of k 0 t' t2] glyph_cong [of k 1 t' t2] g1' g2 t'(3) by simp_all
  have "glyph font ch 0 t' \<and> glyph font ch 1 t'" if "k \<le> ch" "ch < k + Suc n" for ch
    using that k t'(2) by (cases "ch = k") simp_all
  moreover have "t' x = t x" if "x < 256 * (2 * k + 1) \<or> 256 * (2 * (k + Suc n) + 1) \<le> x" for x
    using that t1(3) t2(3) t'(3) by auto
  moreover have "font_loop [k..<k + Suc n] font t = Inr t'"
    using t1(1) t2(1) t'(1) upt_conv_Cons [of k "k + Suc n"] by (simp del: upt_Suc)
  ultimately show ?case by blast
qed (simp add: glyph_def)

lemma term_font_length: "length term_font = 4096"
proof -
  have s: "sum_list (map length rs) = 16 * length rs" if "\<forall>r\<in>set rs. length r = 16" for rs :: "nat list list"
    using that by (induction rs) simp_all
  show ?thesis
    using s [OF font_row_bytes(1)] s [OF font_row_bytes(2)] font_rows by (simp add: term_font_def length_concat)
qed

text \<open>Loading the console font reads only the 4096 bytes of the table and draws each
  character into its two textures, pixel by pixel, touching no other texture.\<close>

theorem font_load_correct:
  "\<exists>t'. font_load term_font t = Inr t' \<and>
    (\<forall>ch<256. \<forall>h<2. \<forall>y<8. \<forall>x<8. get32 (256 * (2 * ch + 1 + h) + 4 * (8 * y + x)) t' =
      (if bit (term_font ! (16 * ch + 8 * h + y)) (7 - x) then 0xeeeeee else 0)) \<and>
    (\<forall>x. x < 256 \<or> 256 * 513 \<le> x \<longrightarrow> t' x = t x)"
proof -
  obtain t' where t': "font_loop [0..<256] term_font t = Inr t'"
    "\<forall>ch<256. glyph term_font ch 0 t' \<and> glyph term_font ch 1 t'"
    "\<forall>x. x < 256 \<or> 256 * 513 \<le> x \<longrightarrow> t' x = t x"
    using font_loop_ok [of 0 256 term_font t] by (auto simp: term_font_length)
  have "glyph term_font ch h t'" if "ch < 256" "h < 2" for ch h using t'(2) that by (cases h) auto
  then show ?thesis using t'(1,3) by (intro exI [of _ t']) (simp add: font_load_def glyph_def)
qed

text \<open>The pixels around the upper left corner of the face that is character 1.\<close>

theorem font_load_correct_witness:
  "\<exists>t'. font_load term_font (\<lambda>_. 0) = Inr t' \<and> get32 (256 * 3 + 4 * (8 * 2 + 0)) t' = 0 \<and>
     get32 (256 * 3 + 4 * (8 * 2 + 1)) t' = 0xeeeeee \<and> t' 0 = 0"
proof -
  have b: "term_font ! 18 = 0x7e"
    by (simp add: term_font_def font_low_def)
  obtain t' where t': "font_load term_font (\<lambda>_. 0) = Inr t'"
    and px: "\<forall>ch<256. \<forall>h<2. \<forall>y<8. \<forall>x<8. get32 (256 * (2 * ch + 1 + h) + 4 * (8 * y + x)) t' =
      (if bit (term_font ! (16 * ch + 8 * h + y)) (7 - x) then 0xeeeeee else 0)"
    and rest: "\<forall>x. x < 256 \<or> 256 * 513 \<le> x \<longrightarrow> t' x = 0"
    using font_load_correct [of "\<lambda>_. 0"] by blast
  have "get32 (256 * 3 + 4 * (8 * 2 + 0)) t' = 0" "get32 (256 * 3 + 4 * (8 * 2 + 1)) t' = 0xeeeeee"
    using px [rule_format, of 1 0 2 0] px [rule_format, of 1 0 2 1] b by simp_all
  with t' rest show ?thesis by (intro exI [of _ t']) simp
qed

end
