(* ===== verification/Tty.thy ===== *)
theory Tty
  imports Fb Input
begin

text \<open>
  The terminal device, \<open>kernel/src/dev/dev_tty.c\<close>.  Pointers into the screen and into the queue are
  indices from its start; the cursor may be one past the end, and any access outside an array
  is the failure \<open>Out_Of_Bounds\<close>.  A semaphore whose value is 0 makes a call here
  \<open>Spin_Forever\<close>: no other thread runs during it.
\<close>

definition TTY_COOK_BUF_SZ :: nat where "TTY_COOK_BUF_SZ = 1024"

record character =
  metadata :: u32
  ch_ch :: u8

record tty_queue =
  q_buf :: "u8 list"
  q_end :: nat
  q_front :: nat
  q_rear :: nat

record tty_t =
  t_lock :: semaphore
  cooked :: semaphore
  t_display :: int
  lines :: int
  columns :: int
  t_size :: int
  t_buf :: "character list"
  cursor :: int
  t_queue :: tty_queue
  dirty :: "u8 list"

definition tty_defaultch :: character where
  "tty_defaultch = \<lparr>metadata = 0, ch_ch = 0\<rparr>"

definition geti :: "'a list \<Rightarrow> int \<Rightarrow> 'a result" where
  "geti xs i = (if 0 \<le> i then arr_get xs (nat i) else Inl Out_Of_Bounds)"

definition seti :: "'a list \<Rightarrow> int \<Rightarrow> 'a \<Rightarrow> 'a list result" where
  "seti xs i v = (if 0 \<le> i then arr_set xs (nat i) v else Inl Out_Of_Bounds)"

section \<open>The line queue\<close>

definition tty_enqueue :: "u8 \<Rightarrow> tty_queue \<Rightarrow> tty_queue result" where
  "tty_enqueue ch q =
     bindR (arr_set (q_buf q) (q_rear q) ch) (\<lambda>b.
     let r = q_rear q + 1; r' = (if r = q_end q then 0 else r) in
     bindR (guardR Panic (r' \<noteq> q_front q)) (\<lambda>_.
     bindR (arr_set b r' 0) (\<lambda>b'. Inr (q\<lparr>q_buf := b', q_rear := r'\<rparr>))))"

definition tty_pop_back :: "tty_queue \<Rightarrow> (int \<times> tty_queue) result" where
  "tty_pop_back q =
     (if q_front q \<noteq> q_end q then
        let p = (if q_rear q = 0 then q_end q else q_rear q) in
        bindR (geti (q_buf q) (int p - 1)) (\<lambda>ch.
        if ch \<noteq> 0
        then bindR (arr_set (q_buf q) (p - 1) 0) (\<lambda>b. Inr (0, q\<lparr>q_rear := p - 1, q_buf := b\<rparr>))
        else Inr (1, q))
      else Inr (1, q))"

section \<open>Screen updates\<close>

text \<open>\<open>memmove\<close> of whole cells to a lower address: the library copies from the last to the first.\<close>

fun cells_down :: "nat \<Rightarrow> nat \<Rightarrow> nat \<Rightarrow> 'a list \<Rightarrow> 'a list result" where
  "cells_down 0 dst src xs = Inr xs"
| "cells_down (Suc n) dst src xs =
     bindR (arr_get xs (src + n)) (\<lambda>x. bindR (arr_set xs (dst + n) x) (cells_down n dst src))"

fun clear_cells :: "nat \<Rightarrow> int \<Rightarrow> character list \<Rightarrow> character list result" where
  "clear_cells 0 i xs = Inr xs"
| "clear_cells (Suc n) i xs = bindR (seti xs i tty_defaultch) (clear_cells n (i + 1))"

definition tty_upd_scrollup :: "tty_t \<Rightarrow> tty_t result" where
  "tty_upd_scrollup tty =
     (let move_sz = columns tty * (lines tty - 1) in
      bindR (cells_down (nat move_sz) 0 (nat (columns tty)) (t_buf tty)) (\<lambda>b.
      bindR (cells_down (nat move_sz) 0 (nat (columns tty)) (dirty tty)) (\<lambda>d.
      let c = cursor tty - columns tty in
      bindR (clear_cells (nat (columns tty)) c b) (\<lambda>b'.
      Inr (tty\<lparr>t_buf := b', dirty := d, cursor := c\<rparr>)))))"

definition tty_upd_cr :: "tty_t \<Rightarrow> tty_t result" where
  "tty_upd_cr tty =
     bindR (guardR Undefined_Behaviour (columns tty \<noteq> 0)) (\<lambda>_.
     Inr (tty\<lparr>cursor := cursor tty - cursor tty mod columns tty\<rparr>))"

definition tty_upd_lf :: "tty_t \<Rightarrow> tty_t" where
  "tty_upd_lf tty = tty\<lparr>cursor := cursor tty + columns tty\<rparr>"

definition tty_upd_backsp :: "tty_t \<Rightarrow> tty_t result" where
  "tty_upd_backsp tty =
     (if cursor tty > 0 then
        bindR (geti (t_buf tty) (cursor tty - 1)) (\<lambda>x.
        bindR (seti (t_buf tty) (cursor tty - 1) (x\<lparr>ch_ch := 0\<rparr>)) (\<lambda>b.
        Inr (tty\<lparr>cursor := cursor tty - 1, t_buf := b\<rparr>)))
      else Inr tty)"

definition tty_upd_putc :: "u8 \<Rightarrow> tty_t \<Rightarrow> tty_t result" where
  "tty_upd_putc ch tty =
     bindR (geti (t_buf tty) (cursor tty)) (\<lambda>x.
     bindR (seti (t_buf tty) (cursor tty) (x\<lparr>ch_ch := ch\<rparr>)) (\<lambda>b.
     Inr (tty\<lparr>t_buf := b, cursor := cursor tty + 1\<rparr>)))"

definition tty_cook :: "u8 \<Rightarrow> tty_t \<Rightarrow> (int \<times> tty_t) result" where
  "tty_cook ch tty =
     bindR (returns (sem_wait (\<lambda>s. s) (t_lock tty))) (\<lambda>lk.
     let tty1 = tty\<lparr>t_lock := lk\<rparr> in
     bindR
      (if ch = 10 then
         bindR (tty_enqueue ch (t_queue tty1)) (\<lambda>q.
         bindR (tty_enqueue 0 q) (\<lambda>q.
         bindR (sem_signal (cooked tty1)) (\<lambda>sem. Inr (0, tty1\<lparr>t_queue := q, cooked := sem\<rparr>))))
       else if ch = 8 then
         bindR (tty_pop_back (t_queue tty1)) (\<lambda>(ret, q). Inr (ret, tty1\<lparr>t_queue := q\<rparr>))
       else
         bindR (tty_enqueue ch (t_queue tty1)) (\<lambda>q. Inr (0, tty1\<lparr>t_queue := q\<rparr>))) (\<lambda>(ret, tty2).
     bindR (sem_signal (t_lock tty2)) (\<lambda>lk. Inr (ret, tty2\<lparr>t_lock := lk\<rparr>))))"

section \<open>Marking and rendering\<close>

text \<open>The cells of \<open>tty_render\<close> with their index; \<open>sp ++\<close> twice per dirty cell.\<close>

definition cell_sprites :: "bool \<Rightarrow> tty_t \<Rightarrow> nat \<Rightarrow> sprite list result" where
  "cell_sprites show_cursor tty i =
     bindR (arr_get (dirty tty) i) (\<lambda>d.
     if d = 0 then Inr [] else
     bindR (arr_get (t_buf tty) i) (\<lambda>ch.
     let w = nat (columns tty); x = i mod w; y = i div w;
         draw = (if int i = cursor tty \<and> show_cursor then 0xdb else unat (ch_ch ch))
     in Inr [\<lparr>sp_texture = word_of_nat (draw * 2 + 1), sp_x = word_of_nat (x * 8), sp_y = word_of_nat (y * 16),
              sp_display = word_of_int (t_display tty), sp_z = 0\<rparr>,
             \<lparr>sp_texture = word_of_nat (draw * 2 + 2), sp_x = word_of_nat (x * 8), sp_y = word_of_nat (y * 16 + 8),
              sp_display = word_of_int (t_display tty), sp_z = 0\<rparr>]))"

fun cells_sprites :: "bool \<Rightarrow> tty_t \<Rightarrow> nat list \<Rightarrow> sprite list result" where
  "cells_sprites show_cursor tty [] = Inr []"
| "cells_sprites show_cursor tty (i # is) =
     bindR (cell_sprites show_cursor tty i) (\<lambda>a. bindR (cells_sprites show_cursor tty is) (\<lambda>b. Inr (a @ b)))"

definition tty_render :: "bool \<Rightarrow> tty_t \<times> fb_t \<Rightarrow> (tty_t \<times> fb_t) result" where
  "tty_render show_cursor = (\<lambda>(tty, fb).
     bindR (returns (sem_wait (\<lambda>s. s) (t_lock tty))) (\<lambda>lk.
     let tty1 = tty\<lparr>t_lock := lk\<rparr> in
     bindR (cells_sprites show_cursor tty1 [0..<nat (lines tty1) * nat (columns tty1)]) (\<lambda>sps.
     bindR (fb_write SPRITE_BRK (Sprites sps) (int (length sps) * 8) fb) (\<lambda>(_, fb').
     let tty2 = tty1\<lparr>dirty := replicate (nat (t_size tty1)) 0\<rparr> in
     bindR (sem_signal (t_lock tty2)) (\<lambda>lk. Inr (tty2\<lparr>t_lock := lk\<rparr>, fb'))))))"

definition tty_mark :: "int \<Rightarrow> tty_t \<Rightarrow> tty_t result" where
  "tty_mark ch tty = bindR (seti (dirty tty) ch 1) (\<lambda>d. Inr (tty\<lparr>dirty := d\<rparr>))"

fun tty_mark_list :: "int list \<Rightarrow> tty_t \<Rightarrow> tty_t result" where
  "tty_mark_list [] tty = Inr tty"
| "tty_mark_list (i # is) tty = bindR (tty_mark i tty) (tty_mark_list is)"

definition tty_mark_line :: "int \<Rightarrow> tty_t \<Rightarrow> tty_t result" where
  "tty_mark_line ch tty =
     bindR (guardR Undefined_Behaviour (columns tty \<noteq> 0)) (\<lambda>_.
     tty_mark_list (map (\<lambda>i. ch - ch mod columns tty + int i) [0..<nat (columns tty)]) tty)"

definition tty_mark_all :: "tty_t \<Rightarrow> tty_t result" where
  "tty_mark_all tty = tty_mark_list (map int [0..<nat (t_size tty)]) tty"

section \<open>Output\<close>

definition tty_putc :: "u8 \<Rightarrow> tty_t \<Rightarrow> tty_t result" where
  "tty_putc ch tty =
     (if ch = 13 then bindR (tty_upd_cr tty) (\<lambda>tty. tty_mark_line (cursor tty) tty)
      else if ch = 8 then
        bindR (tty_upd_backsp tty) (\<lambda>tty.
        bindR (tty_mark (cursor tty) tty) (\<lambda>tty. tty_mark (cursor tty + 1) tty))
      else if ch = 10 then
        bindR (tty_upd_cr tty) (\<lambda>tty.
        let tty = tty_upd_lf tty in
        if cursor tty = t_size tty
        then bindR (tty_upd_scrollup tty) tty_mark_all
        else bindR (tty_mark_line (cursor tty - columns tty) tty) (\<lambda>tty. tty_mark_line (cursor tty) tty))
      else
        bindR (tty_upd_putc ch tty) (\<lambda>tty.
        if cursor tty = t_size tty
        then bindR (tty_upd_scrollup tty) tty_mark_all
        else bindR (tty_mark (cursor tty - 1) tty) (\<lambda>tty. tty_mark (cursor tty) tty)))"

fun tty_puts :: "u8 list \<Rightarrow> tty_t \<Rightarrow> tty_t result" where
  "tty_puts [] tty = Inr tty"
| "tty_puts (ch # chs) tty = bindR (tty_putc ch tty) (tty_puts chs)"

text \<open>\<open>tty_write\<close>: \<open>buf\<close> holds \<open>count\<close> bytes.\<close>

definition tty_write :: "bool \<Rightarrow> u8 list \<Rightarrow> tty_t \<times> fb_t \<Rightarrow> (int \<times> tty_t \<times> fb_t) result" where
  "tty_write show_cursor buf = (\<lambda>(tty, fb).
     bindR (returns (sem_wait (\<lambda>s. s) (t_lock tty))) (\<lambda>lk.
     bindR (tty_puts buf (tty\<lparr>t_lock := lk\<rparr>)) (\<lambda>tty1.
     bindR (sem_signal (t_lock tty1)) (\<lambda>lk.
     bindR (tty_render show_cursor (tty1\<lparr>t_lock := lk\<rparr>, fb)) (\<lambda>st.
     Inr (int (length buf), st))))))"

section \<open>Input\<close>

text \<open>One turn of the loop of \<open>tty_read\<close>: the character, and the queue after it.\<close>

definition tty_dequeue :: "tty_queue \<Rightarrow> (u8 \<times> tty_queue) result" where
  "tty_dequeue q =
     bindR (arr_get (q_buf q) (q_front q)) (\<lambda>ch.
     let f = q_front q + 1 in Inr (ch, q\<lparr>q_front := if f = q_end q then 0 else f\<rparr>))"

partial_function (option) tty_read_loop ::
    "int \<Rightarrow> u8 list \<Rightarrow> tty_queue \<Rightarrow> (u8 list \<times> tty_queue) result option" where
  "tty_read_loop count buf q =
     (case tty_dequeue q of
        Inl e \<Rightarrow> Some (Inl e)
      | Inr (ch, q') \<Rightarrow>
          let buf' = (if int (length buf) < count \<and> ch \<noteq> 0 then buf @ [ch] else buf)
          in if ch = 0 then Some (Inr (buf', q')) else tty_read_loop count buf' q')"

text \<open>The result is \<open>nread\<close> and the bytes written to \<open>buf\<close>.\<close>

definition tty_read :: "int \<Rightarrow> tty_t \<Rightarrow> (int \<times> u8 list \<times> tty_t) result" where
  "tty_read count tty =
     bindR (returns (sem_wait (\<lambda>s. s) (cooked tty))) (\<lambda>ck.
     bindR (returns (sem_wait (\<lambda>s. s) (t_lock tty))) (\<lambda>lk.
     bindR (returns (tty_read_loop count [] (t_queue tty))) (\<lambda>(buf, q).
     bindR (sem_signal lk) (\<lambda>lk.
     Inr (int (length buf), buf, tty\<lparr>cooked := ck, t_lock := lk, t_queue := q\<rparr>)))))"

section \<open>Start\<close>

definition welcome_text :: string where
  "welcome_text =
     '' 1111112 11111112112      111112 1111112 '' @ [CHR 0x0A] @
     ''11533311211533336114     1153311211533112'' @ [CHR 0x0A] @
     ''114   11411111112114     1111111411111156'' @ [CHR 0x0A] @
     ''114   11473333114114     1153311411533112'' @ [CHR 0x0A] @
     ''7111111561111111411111112114  11411111156'' @ [CHR 0x0A] @
     '' 7333336 7333333673333336736  7367333336 '' @ [CHR 0x0A]"

definition welcome_char :: "char \<Rightarrow> u8" where
  "welcome_char p =
     (if p = CHR ''1'' then 219 else if p = CHR ''2'' then 187 else if p = CHR ''3'' then 205
      else if p = CHR ''4'' then 186 else if p = CHR ''5'' then 201 else if p = CHR ''6'' then 188
      else if p = CHR ''7'' then 200 else word_of_nat (of_char p))"

definition tty_welcome :: "bool \<Rightarrow> tty_t \<times> fb_t \<Rightarrow> (int \<times> tty_t \<times> fb_t) result" where
  "tty_welcome show_cursor st = tty_write show_cursor (map welcome_char welcome_text) st"

text \<open>\<open>id\<close> is the device's number; \<open>qg\<close> is the uninitialised content of the queue's buffer.  The
  arrays come from four calls of \<open>pmm->alloc\<close>, of which the source does not check the results.\<close>

definition tty_init :: "int \<Rightarrow> u8 list \<Rightarrow> nat \<Rightarrow> fb_t \<times> kernel \<Rightarrow> (tty_t \<times> fb_t \<times> kernel) result" where
  "tty_init id_no qg c = (\<lambda>(fb, s).
     let ln = uint (di_height (fb_info fb) div 16); col = uint (di_width (fb_info fb) div 8); sz = col * ln;
         sem = \<lparr>sem_lk = \<lparr>flag = 0\<rparr>, sem_value = 0, sem_name = []\<rparr>
     in
     bindR (kernel_alloc c (word_of_int (sz * 8)) s) (\<lambda>(_, s1).
     bindR (kernel_alloc c (word_of_int sz) s1) (\<lambda>(_, s2).
     bindR (kernel_alloc c (word_of_int (sz * 2 * 8)) s2) (\<lambda>(_, s3).
     bindR (kernel_alloc c (word_of_nat TTY_COOK_BUF_SZ) s3) (\<lambda>(_, s4).
     let tty = \<lparr>t_lock = sem_init ''tty lock'' 1 sem, cooked = sem_init ''tty cooked lines'' 0 sem,
                t_display = id_no - 1, lines = ln, columns = col, t_size = sz,
                t_buf = replicate (nat sz) tty_defaultch, cursor = 0,
                t_queue = \<lparr>q_buf = take TTY_COOK_BUF_SZ qg, q_end = TTY_COOK_BUF_SZ, q_front = 0, q_rear = 0\<rparr>,
                dirty = replicate (nat sz) 0\<rparr> in
     bindR (tty_welcome True (tty, fb)) (\<lambda>(_, tty', fb'). Inr (tty', fb', s4)))))))"

section \<open>The daemon\<close>

text \<open>One turn of \<open>dev_tty_task\<close> on an event \<open>ev\<close> read from the keyboard, at time \<open>now\<close>.  The two
  terminals are numbered 0 and 1 and \<open>cur\<close> is the one shown.\<close>

record tty_daemon =
  d_ttys :: "tty_t list"
  d_cur :: nat
  d_fb :: fb_t
  d_show_cursor :: bool
  d_known_time :: u64

definition with_cur :: "(tty_t \<times> fb_t \<Rightarrow> (int \<times> tty_t \<times> fb_t) result) \<Rightarrow> tty_daemon \<Rightarrow> tty_daemon result" where
  "with_cur f d =
     bindR (arr_get (d_ttys d) (d_cur d)) (\<lambda>tty.
     bindR (f (tty, d_fb d)) (\<lambda>(_, tty', fb').
     Inr (d\<lparr>d_ttys := (d_ttys d)[d_cur d := tty'], d_fb := fb'\<rparr>)))"

definition tty_switch :: "nat \<Rightarrow> tty_daemon \<Rightarrow> tty_daemon result" where
  "tty_switch n d =
     (if n = d_cur d then Inr d
      else
        let d1 = d\<lparr>d_cur := n\<rparr> in
        bindR (arr_get (d_ttys d1) n) (\<lambda>tty.
        bindR (tty_mark_all tty) (\<lambda>tty1.
        bindR (fb_write 0 (Info \<lparr>di_width = 0, di_height = 0, num_displays = 0,
                 current = word_of_int (t_display tty1), num_textures = 0, num_sprites = 0\<rparr>) 24 (d_fb d1)) (\<lambda>(_, fb).
        with_cur (tty_write (d_show_cursor d1) []) (d1\<lparr>d_ttys := (d_ttys d1)[n := tty1], d_fb := fb\<rparr>)))))"

definition tty_turn :: "input_event \<Rightarrow> u64 \<Rightarrow> tty_daemon \<Rightarrow> tty_daemon result" where
  "tty_turn ev now d =
     bindR (if ev_alt ev \<noteq> 0
            then tty_switch (if ev_data ev = 0x32 then 1 else if ev_data ev = 0x31 then 0 else d_cur d) d
            else Inr d) (\<lambda>d1.
     bindR (if ev_ctrl ev = 0 \<and> ev_alt ev = 0 \<and> ev_data ev \<noteq> 0
            then bindR (arr_get (d_ttys d1) (d_cur d1)) (\<lambda>tty.
                 let ch = ucast (ev_data ev) in
                 bindR (tty_cook ch tty) (\<lambda>(ret, tty').
                 let d2 = d1\<lparr>d_ttys := (d_ttys d1)[d_cur d1 := tty']\<rparr> in
                 if ret = 0 then with_cur (tty_write (d_show_cursor d2) [ch]) d2 else Inr d2))
            else Inr d1) (\<lambda>d3.
     let changed = ev_data ev \<noteq> 0 in
     if changed \<or> (now - d_known_time d3) div 1000 > 500
     then
       let d4 = d3\<lparr>d_known_time := now, d_show_cursor := \<not> d_show_cursor d3 \<or> changed\<rparr> in
       bindR (arr_get (d_ttys d4) (d_cur d4)) (\<lambda>tty.
       bindR (tty_mark (cursor tty) tty) (\<lambda>tty'.
       with_cur (tty_write (d_show_cursor d4) []) (d4\<lparr>d_ttys := (d_ttys d4)[d_cur d4 := tty']\<rparr>)))
     else Inr d3))"

end
