(* ===== verification/TtyProofs.thy ===== *)
theory TtyProofs
  imports Tty InputProofs
begin

text \<open>
  The terminal: any output keeps the screen well formed, scrolling loses the screen, and the line
  discipline delivers the edited line.
\<close>

section \<open>The screen\<close>

definition tty_ok :: "tty_t \<Rightarrow> bool" where
  "tty_ok t \<longleftrightarrow> 1 \<le> columns t \<and> 1 \<le> lines t \<and> t_size t = columns t * lines t \<and> 2 \<le> t_size t \<and>
     length (t_buf t) = nat (t_size t) \<and> length (dirty t) = nat (t_size t) \<and>
     0 \<le> cursor t \<and> cursor t < t_size t"

text \<open>The same while the cursor may stand at any \<open>c\<close>, and what does not change.\<close>

definition screen :: "tty_t \<Rightarrow> int \<times> int \<times> int \<times> nat \<times> nat" where
  "screen t = (columns t, lines t, t_size t, length (t_buf t), length (dirty t))"

lemma geti_ok [simp]: "0 \<le> i \<Longrightarrow> nat i < length xs \<Longrightarrow> geti xs i = Inr (xs ! nat i)"
  by (simp add: geti_def)

lemma seti_ok [simp]: "0 \<le> i \<Longrightarrow> nat i < length xs \<Longrightarrow> seti xs i v = Inr (xs[nat i := v])"
  by (simp add: seti_def)

lemma tty_mark_list_ok:
  assumes "\<forall>i\<in>set is. 0 \<le> i \<and> nat i < length (dirty t)"
  shows "\<exists>d. tty_mark_list is t = Inr (t\<lparr>dirty := d\<rparr>) \<and> length d = length (dirty t)"
  using assms
proof (induction "is" arbitrary: t)
  case Nil
  then show ?case by (intro exI [of _ "dirty t"]) simp
next
  case (Cons i "is")
  let ?t = "t\<lparr>dirty := (dirty t)[nat i := 1]\<rparr>"
  obtain d where "tty_mark_list is ?t = Inr (?t\<lparr>dirty := d\<rparr>)" "length d = length (dirty ?t)"
    using Cons.IH [of ?t] Cons.prems by auto
  then show ?case using Cons.prems by (intro exI [of _ d]) (simp add: tty_mark_def)
qed

lemma tty_mark_ok: "0 \<le> i \<Longrightarrow> nat i < length (dirty t) \<Longrightarrow> tty_mark i t = Inr (t\<lparr>dirty := (dirty t)[nat i := 1]\<rparr>)"
  by (simp add: tty_mark_def)

lemma tty_mark_line_ok:
  assumes "1 \<le> columns t" and "0 \<le> i - i mod columns t" and "i - i mod columns t + columns t \<le> int (length (dirty t))"
  shows "\<exists>d. tty_mark_line i t = Inr (t\<lparr>dirty := d\<rparr>) \<and> length d = length (dirty t)"
proof -
  have "\<forall>j\<in>set (map (\<lambda>k. i - i mod columns t + int k) [0..<nat (columns t)]). 0 \<le> j \<and> nat j < length (dirty t)"
    using assms by auto
  from tty_mark_list_ok [OF this] show ?thesis using assms(1) by (simp add: tty_mark_line_def)
qed

lemma tty_mark_all_ok:
  assumes "length (dirty t) = nat (t_size t)"
  shows "\<exists>d. tty_mark_all t = Inr (t\<lparr>dirty := d\<rparr>) \<and> length d = length (dirty t)"
  unfolding tty_mark_all_def by (rule tty_mark_list_ok) (use assms in auto)

text \<open>The row of the cursor lies in the screen.\<close>

lemma row_bounds:
  fixes c n k :: int
  assumes "1 \<le> c" and "0 \<le> k" and "k < c * n"
  shows "0 \<le> k - k mod c" and "k - k mod c + c \<le> c * n"
proof -
  have e: "k - k mod c = c * (k div c)" by (simp add: minus_mod_eq_mult_div)
  have "k div c < n"
  proof (rule ccontr)
    assume "\<not> k div c < n"
    then have "c * n \<le> c * (k div c)" using assms(1) by (intro mult_left_mono) simp_all
    also have "\<dots> \<le> k" using e pos_mod_sign [of c k] assms(1) by linarith
    finally show False using assms(3) by simp
  qed
  then have "k div c + 1 \<le> n" by simp
  then have "c * (k div c + 1) \<le> c * n" using assms(1) by (intro mult_left_mono) simp_all
  then show "k - k mod c + c \<le> c * n" unfolding e by (simp add: distrib_left)
  show "0 \<le> k - k mod c" unfolding e using assms(1,2) by (simp add: pos_imp_zdiv_nonneg_iff)
qed

text \<open>Copying from the end: with the source above the destination, every cell below the last
  \<open>k\<close> ends up with what the last block held.\<close>

lemma cells_down_ok:
  assumes "0 < k" and "k + n \<le> length xs"
  shows "\<exists>ys. cells_down n 0 k xs = Inr ys \<and> length ys = length xs \<and>
    (\<forall>i<n. ys ! i = (if i + k < n then ys ! (i + k) else xs ! (i + k))) \<and> (\<forall>i. n \<le> i \<longrightarrow> ys ! i = xs ! i)"
  using assms(2)
proof (induction n arbitrary: xs)
  case (Suc n)
  let ?xs = "xs[n := xs ! (k + n)]"
  from Suc.IH [of ?xs] Suc.prems obtain ys where ys: "cells_down n 0 k ?xs = Inr ys" "length ys = length xs"
    "\<forall>i<n. ys ! i = (if i + k < n then ys ! (i + k) else ?xs ! (i + k))" "\<forall>i. n \<le> i \<longrightarrow> ys ! i = ?xs ! i" by auto
  have run: "cells_down (Suc n) 0 k xs = Inr ys" using ys(1) Suc.prems by simp
  have top: "ys ! n = xs ! (n + k)" using ys(4) Suc.prems by (simp add: add.commute)
  have "ys ! i = (if i + k < Suc n then ys ! (i + k) else xs ! (i + k))" if "i < Suc n" for i
  proof (cases "i = n")
    case False
    then have "i < n" using that by simp
    then have "ys ! i = (if i + k < n then ys ! (i + k) else ?xs ! (i + k))" using ys(3) by blast
    then show ?thesis using ys(4) by (cases "i + k = n") auto
  qed (use top assms(1) in simp)
  moreover have "ys ! i = xs ! i" if "Suc n \<le> i" for i using ys(4) that by simp
  ultimately show ?case using run ys(2) by blast
qed simp

lemma cells_down_rows:
  assumes ys: "\<forall>i<k * m. ys ! i = (if i + k < k * m then ys ! (i + k) else xs ! (i + k))"
    and "0 < k" and "r < m" and "j < k"
  shows "ys ! (r * k + j) = xs ! (m * k + j)"
  using assms(3)
proof (induction "m - r" arbitrary: r)
  case (Suc d)
  have "r * k + j < m * k"
  proof -
    have "r * k + j < Suc r * k" using assms(4) by simp
    also have "\<dots> \<le> m * k" using Suc.prems by (intro mult_le_mono1) simp
    finally show ?thesis .
  qed
  then have y: "ys ! (r * k + j) = (if Suc r * k + j < k * m then ys ! (Suc r * k + j) else xs ! (Suc r * k + j))"
    using ys [rule_format, of "r * k + j"] by (simp add: mult.commute algebra_simps)
  show ?case
  proof (cases "Suc r < m")
    case True
    have "Suc r * k + j < Suc (Suc r) * k" using assms(4) by simp
    also have "\<dots> \<le> m * k" using True by (intro mult_le_mono1) simp
    finally have "Suc r * k + j < k * m" by (simp add: mult.commute)
    moreover have "ys ! (Suc r * k + j) = xs ! (m * k + j)" using Suc.hyps(1) [of "Suc r"] Suc.hyps(2) True by simp
    ultimately show ?thesis using y by simp
  next
    case False
    then have "Suc r = m" using Suc.prems by simp
    then show ?thesis using y by (simp add: mult.commute)
  qed
qed simp

lemma clear_cells_ok:
  assumes "0 \<le> i" and "nat i + n \<le> length xs"
  shows "\<exists>ys. clear_cells n i xs = Inr ys \<and> length ys = length xs \<and>
    (\<forall>j. ys ! j = (if nat i \<le> j \<and> j < nat i + n then tty_defaultch else xs ! j))"
  using assms
proof (induction n arbitrary: i xs)
  case (Suc n)
  let ?xs = "xs[nat i := tty_defaultch]"
  have s: "nat (i + 1) = Suc (nat i)" using Suc.prems(1) by simp
  obtain ys where ys: "clear_cells n (i + 1) ?xs = Inr ys" "length ys = length ?xs"
    "\<forall>j. ys ! j = (if Suc (nat i) \<le> j \<and> j < Suc (nat i) + n then tty_defaultch else ?xs ! j)"
    using Suc.IH [of "i + 1" ?xs] Suc.prems s by auto
  have l: "nat i < length xs" using Suc.prems by simp
  have "ys ! j = (if nat i \<le> j \<and> j < nat i + Suc n then tty_defaultch else xs ! j)" for j
    using ys(3) [rule_format, of j] l by (cases "j = nat i") auto
  then show ?case using ys(1,2) l Suc.prems(1) by (intro exI [of _ ys]) simp
qed auto

definition screen_ok :: "tty_t \<Rightarrow> bool" where
  "screen_ok t \<longleftrightarrow> 1 \<le> columns t \<and> 1 \<le> lines t \<and> t_size t = columns t * lines t \<and> 2 \<le> t_size t \<and>
     length (t_buf t) = nat (t_size t) \<and> length (dirty t) = nat (t_size t)"

lemma tty_ok_screen: "tty_ok t \<longleftrightarrow> screen_ok t \<and> 0 \<le> cursor t \<and> cursor t < t_size t"
  by (auto simp: tty_ok_def screen_ok_def)

lemma screen_okD:
  assumes "screen_ok t"
  shows "1 \<le> columns t" and "1 \<le> lines t" and "t_size t = columns t * lines t" and "2 \<le> t_size t"
    and "length (t_buf t) = nat (t_size t)" and "length (dirty t) = nat (t_size t)"
  using assms by (simp_all add: screen_ok_def)

lemma scrollup_ok:
  assumes t: "screen_ok t" and c: "cursor t = t_size t"
  shows "\<exists>b d. tty_upd_scrollup t = Inr (t\<lparr>t_buf := b, dirty := d, cursor := t_size t - columns t\<rparr>) \<and>
    length b = length (t_buf t) \<and> length d = length (dirty t) \<and>
    (\<forall>r<nat (lines t - 1). \<forall>j<nat (columns t). b ! (r * nat (columns t) + j) =
       t_buf t ! (nat (lines t - 1) * nat (columns t) + j)) \<and>
    (\<forall>j<nat (columns t). b ! (nat (lines t - 1) * nat (columns t) + j) = tty_defaultch)"
proof -
  note T = screen_okD [OF t]
  let ?k = "nat (columns t)" and ?m = "nat (lines t - 1)"
  have k: "0 < ?k" "int ?k = columns t" using T(1) by simp_all
  have m: "lines t = int ?m + 1" using T(2) by simp
  have sz: "nat (t_size t) = ?k * ?m + ?k" unfolding T(3) using k(2) m
    by (metis distrib_left mult.right_neutral nat_int of_nat_1 of_nat_add of_nat_mult)
  have mv: "nat (columns t * (lines t - 1)) = ?k * ?m" using T(1,2) by (simp add: nat_mult_distrib)
  have cur: "t_size t - columns t = int (?k * ?m)" unfolding T(3) using k(2) m
    by (metis add_diff_cancel_right' distrib_left mult.right_neutral of_nat_mult)
  have lb: "?k + ?k * ?m \<le> length (t_buf t)" "?k + ?k * ?m \<le> length (dirty t)" using T(5,6) sz by simp_all
  obtain b where b: "cells_down (?k * ?m) 0 ?k (t_buf t) = Inr b" "length b = length (t_buf t)"
    "\<forall>i<?k * ?m. b ! i = (if i + ?k < ?k * ?m then b ! (i + ?k) else t_buf t ! (i + ?k))"
    using cells_down_ok [OF k(1) lb(1)] by blast
  obtain d where d: "cells_down (?k * ?m) 0 ?k (dirty t) = Inr d" "length d = length (dirty t)"
    using cells_down_ok [OF k(1) lb(2)] by blast
  have "nat (int (?k * ?m)) + ?k \<le> length b" unfolding nat_int using lb(1) b(2) by linarith
  from clear_cells_ok [OF of_nat_0_le_iff this, unfolded nat_int] obtain b' where b': "clear_cells ?k (int (?k * ?m)) b = Inr b'" "length b' = length b"
    "\<forall>j. b' ! j = (if ?k * ?m \<le> j \<and> j < ?k * ?m + ?k then tty_defaultch else b ! j)" by auto
  have run: "tty_upd_scrollup t = Inr (t\<lparr>t_buf := b', dirty := d, cursor := t_size t - columns t\<rparr>)"
    using b(1) d(1) b'(1) [folded cur] by (simp add: tty_upd_scrollup_def mv c Let_def)
  have old: "b' ! (r * ?k + j) = t_buf t ! (?m * ?k + j)" if r: "r < ?m" "j < ?k" for r j
  proof -
    have "r * ?k + j < Suc r * ?k" using r(2) by simp
    also have "\<dots> \<le> ?m * ?k" using r(1) by (intro mult_le_mono1) simp
    finally have "\<not> ?k * ?m \<le> r * ?k + j" by (simp add: mult.commute)
    then show ?thesis using b'(3) cells_down_rows [OF b(3) k(1) r] by simp
  qed
  have "b' ! (?m * ?k + j) = tty_defaultch" if "j < ?k" for j using b'(3) that by (simp add: mult.commute)
  then show ?thesis using run old b(2) b'(2) d(2) by (intro exI [of _ b'] exI [of _ d]) simp
qed

lemma tty_scroll_lemma:
  assumes "screen_ok t" and "cursor t = t_size t"
  shows "\<exists>t'. tty_upd_scrollup t = Inr t' \<and> tty_ok t'"
proof -
  note T = screen_okD [OF assms(1)]
  obtain b d where r: "tty_upd_scrollup t = Inr (t\<lparr>t_buf := b, dirty := d, cursor := t_size t - columns t\<rparr>)"
    "length b = length (t_buf t)" "length d = length (dirty t)" using scrollup_ok [OF assms] by blast
  have "columns t * 1 \<le> columns t * lines t" using T(1,2) by (intro mult_left_mono) simp_all
  then have "tty_ok (t\<lparr>t_buf := b, dirty := d, cursor := t_size t - columns t\<rparr>)"
    using T r(2,3) by (simp add: tty_ok_def)
  then show ?thesis using r(1) by blast
qed

text \<open>Scrolling does not scroll: after \<open>tty_upd_scrollup\<close> every line but the last shows what
  the last line showed, because \<open>memmove\<close> copies from the wrong end; the last line is blank.\<close>

theorem tty_scroll_smears:
  assumes "screen_ok t" and "cursor t = t_size t"
  shows "\<exists>t'. tty_upd_scrollup t = Inr t' \<and> tty_ok t' \<and>
    (\<forall>r<nat (lines t - 1). \<forall>j<nat (columns t). t_buf t' ! (r * nat (columns t) + j) =
       t_buf t ! (nat (lines t - 1) * nat (columns t) + j)) \<and>
    (\<forall>j<nat (columns t). t_buf t' ! (nat (lines t - 1) * nat (columns t) + j) = tty_defaultch)"
proof -
  obtain b d where r: "tty_upd_scrollup t = Inr (t\<lparr>t_buf := b, dirty := d, cursor := t_size t - columns t\<rparr>)"
    "\<forall>r<nat (lines t - 1). \<forall>j<nat (columns t). b ! (r * nat (columns t) + j) =
       t_buf t ! (nat (lines t - 1) * nat (columns t) + j)"
    "\<forall>j<nat (columns t). b ! (nat (lines t - 1) * nat (columns t) + j) = tty_defaultch"
    using scrollup_ok [OF assms] by blast
  moreover obtain t' where "tty_upd_scrollup t = Inr t'" "tty_ok t'" using tty_scroll_lemma [OF assms] by blast
  ultimately show ?thesis by (intro exI [of _ t']) auto
qed

definition demo_tty :: tty_t where
  "demo_tty = \<lparr>t_lock = \<lparr>sem_lk = \<lparr>flag = 0\<rparr>, sem_value = 1, sem_name = ''tty lock''\<rparr>,
     cooked = \<lparr>sem_lk = \<lparr>flag = 0\<rparr>, sem_value = 0, sem_name = ''tty cooked lines''\<rparr>,
     t_display = 0, lines = 3, columns = 2, t_size = 6,
     t_buf = map (\<lambda>c. \<lparr>metadata = 0, ch_ch = c\<rparr>) [65, 66, 67, 68, 69, 70], cursor = 0,
     t_queue = \<lparr>q_buf = replicate 1024 0, q_end = 1024, q_front = 0, q_rear = 0\<rparr>, dirty = replicate 6 0\<rparr>"

theorem tty_scroll_smears_witness:
  "\<exists>t'. tty_upd_scrollup (demo_tty\<lparr>cursor := 6\<rparr>) = Inr t' \<and> t_buf t' ! 0 = \<lparr>metadata = 0, ch_ch = 69\<rparr> \<and>
     t_buf t' ! 2 = \<lparr>metadata = 0, ch_ch = 69\<rparr>"
proof -
  let ?t = "demo_tty\<lparr>cursor := 6\<rparr>"
  have c: "nat (columns ?t) = 2" "nat (lines ?t - 1) = 2" by (simp_all add: demo_tty_def)
  have b: "t_buf ?t ! (2 * 2 + 0) = \<lparr>metadata = 0, ch_ch = 69\<rparr>" by (simp add: demo_tty_def)
  have "screen_ok ?t" "cursor ?t = t_size ?t" by (simp_all add: screen_ok_def demo_tty_def)
  from tty_scroll_smears [OF this] obtain t' where t': "tty_upd_scrollup ?t = Inr t'"
    "\<forall>r<2. \<forall>j<2. t_buf t' ! (r * 2 + j) = t_buf ?t ! (2 * 2 + j)" unfolding c by blast
  have "t_buf t' ! (0 * 2 + 0) = t_buf ?t ! (2 * 2 + 0)" "t_buf t' ! (1 * 2 + 0) = t_buf ?t ! (2 * 2 + 0)"
    using t'(2) [rule_format, of 0 0] t'(2) [rule_format, of 1 0] by simp_all
  then show ?thesis using t'(1) unfolding b by (intro exI [of _ t']) simp
qed

section \<open>Any output keeps the screen well formed\<close>

lemma tty_ok_dirty: "tty_ok t \<Longrightarrow> length d = length (dirty t) \<Longrightarrow> tty_ok (t\<lparr>dirty := d\<rparr>)"
  by (simp add: tty_ok_def)

lemma mark_ok:
  assumes "tty_ok t" and "0 \<le> i" and "i < t_size t"
  shows "\<exists>t'. tty_mark i t = Inr t' \<and> tty_ok t' \<and> cursor t' = cursor t \<and> t_size t' = t_size t"
  using assms by (simp add: tty_mark_ok tty_ok_def)

lemma mark_line_ok:
  assumes "tty_ok t" and "0 \<le> i" and "i < t_size t"
  shows "\<exists>t'. tty_mark_line i t = Inr t' \<and> tty_ok t' \<and> cursor t' = cursor t"
proof -
  have s: "1 \<le> columns t" "i < columns t * lines t" "int (length (dirty t)) = columns t * lines t"
    using assms by (simp_all add: tty_ok_def)
  note rb = row_bounds [OF s(1) assms(2) s(2)]
  from tty_mark_line_ok [of t i] obtain d where "tty_mark_line i t = Inr (t\<lparr>dirty := d\<rparr>)" "length d = length (dirty t)"
    using s rb by auto
  then show ?thesis using tty_ok_dirty [OF assms(1)] by auto
qed

lemma scroll_ok:
  assumes "screen_ok t" and "cursor t = t_size t"
  shows "\<exists>t'. bindR (tty_upd_scrollup t) tty_mark_all = Inr t' \<and> tty_ok t'"
proof -
  obtain t1 where t1: "tty_upd_scrollup t = Inr t1" "tty_ok t1" using tty_scroll_lemma [OF assms] by blast
  then have "length (dirty t1) = nat (t_size t1)" by (simp add: tty_ok_def)
  then obtain d where "tty_mark_all t1 = Inr (t1\<lparr>dirty := d\<rparr>)" "length d = length (dirty t1)"
    using tty_mark_all_ok by blast
  then show ?thesis using t1 tty_ok_dirty by auto
qed

lemma tty_putc_ok:
  assumes t: "tty_ok t"
  shows "\<exists>t'. tty_putc ch t = Inr t' \<and> tty_ok t'"
proof -
  have s: "screen_ok t" "0 \<le> cursor t" "cursor t < t_size t" using t by (simp_all add: tty_ok_screen)
  note T = screen_okD [OF s(1)]
  have cs: "cursor t < columns t * lines t" using s(3) T(3) by simp
  note rb = row_bounds [OF T(1) s(2) cs]
  let ?c0 = "cursor t - cursor t mod columns t"
  have cr: "tty_upd_cr t = Inr (t\<lparr>cursor := ?c0\<rparr>)" using T(1) by (simp add: tty_upd_cr_def)
  have c0: "?c0 < t_size t" using rb T(1,3) by linarith
  have ok0: "tty_ok (t\<lparr>cursor := ?c0\<rparr>)" using t rb(1) c0 by (simp add: tty_ok_def)
  consider "ch = 13" | "ch = 8" | "ch = 10" | "ch \<noteq> 13" "ch \<noteq> 8" "ch \<noteq> 10" by blast
  then show ?thesis
  proof cases
    case 1
    then show ?thesis using cr mark_line_ok [OF ok0, of ?c0] rb(1) c0 by (auto simp: tty_putc_def)
  next
    case 2
    obtain t1 where t1: "tty_upd_backsp t = Inr t1" "tty_ok t1" "cursor t1 + 1 < t_size t1"
    proof (cases "cursor t > 0")
      case True
      let ?x = "(t_buf t ! nat (cursor t - 1))\<lparr>ch_ch := 0\<rparr>"
      have "nat (cursor t - 1) < length (t_buf t)" using s True T(5) by simp
      then have "tty_upd_backsp t = Inr (t\<lparr>cursor := cursor t - 1, t_buf := (t_buf t)[nat (cursor t - 1) := ?x]\<rparr>)"
        using True by (simp add: tty_upd_backsp_def)
      then show thesis using that t True s(3) by (simp add: tty_ok_def)
    next
      case False
      then show thesis using that [of t] t s(2) T(4) by (simp add: tty_upd_backsp_def)
    qed
    obtain t2 where t2: "tty_mark (cursor t1) t1 = Inr t2" "tty_ok t2" "cursor t2 = cursor t1" "t_size t2 = t_size t1"
      using mark_ok [OF t1(2), of "cursor t1"] t1(2) by (auto simp: tty_ok_def)
    have "0 \<le> cursor t1" using t1(2) by (simp add: tty_ok_def)
    then obtain t3 where "tty_mark (cursor t2 + 1) t2 = Inr t3" "tty_ok t3"
      using mark_ok [OF t2(2), of "cursor t2 + 1"] t1(3) t2(3,4) by auto
    then show ?thesis using 2 t1(1) t2(1) by (simp add: tty_putc_def)
  next
    case 3
    let ?t = "tty_upd_lf (t\<lparr>cursor := ?c0\<rparr>)"
    have f: "cursor ?t = ?c0 + columns t" "t_size ?t = t_size t" "columns ?t = columns t" by (simp_all add: tty_upd_lf_def)
    have so: "screen_ok ?t" using s(1) by (simp add: screen_ok_def tty_upd_lf_def)
    show ?thesis
    proof (cases "cursor ?t = t_size ?t")
      case True
      then show ?thesis using 3 cr scroll_ok [OF so True] by (simp add: tty_putc_def Let_def)
    next
      case False
      then have "cursor ?t < t_size ?t" using f rb(2) T(3) by simp
      then have ok: "tty_ok ?t" using so f rb(1) T(1) by (simp add: tty_ok_screen)
      obtain t1 where t1: "tty_mark_line (cursor ?t - columns ?t) ?t = Inr t1" "tty_ok t1" "cursor t1 = cursor ?t"
        using mark_line_ok [OF ok, of "cursor ?t - columns ?t"] f rb(1) c0 by auto
      obtain t2 where "tty_mark_line (cursor t1) t1 = Inr t2" "tty_ok t2"
        using mark_line_ok [OF t1(2), of "cursor t1"] t1(2) by (auto simp: tty_ok_def)
      then show ?thesis using 3 cr t1(1) False by (simp add: tty_putc_def Let_def)
    qed
  next
    case 4
    let ?x = "(t_buf t ! nat (cursor t))\<lparr>ch_ch := ch\<rparr>"
    let ?t = "t\<lparr>t_buf := (t_buf t)[nat (cursor t) := ?x], cursor := cursor t + 1\<rparr>"
    have "nat (cursor t) < length (t_buf t)" using s T(5) by simp
    then have pc: "tty_upd_putc ch t = Inr ?t" using s(2) by (simp add: tty_upd_putc_def)
    have so: "screen_ok ?t" using s(1) by (simp add: screen_ok_def)
    show ?thesis
    proof (cases "cursor ?t = t_size ?t")
      case True
      then show ?thesis using 4 pc scroll_ok [OF so True] by (simp add: tty_putc_def)
    next
      case False
      then have ok: "tty_ok ?t" using so s(2,3) by (simp add: tty_ok_screen)
      obtain t1 where t1: "tty_mark (cursor ?t - 1) ?t = Inr t1" "tty_ok t1" "cursor t1 = cursor ?t" "t_size t1 = t_size ?t"
        using mark_ok [OF ok, of "cursor ?t - 1"] s(2,3) by auto
      obtain t2 where "tty_mark (cursor t1) t1 = Inr t2" "tty_ok t2"
        using mark_ok [OF t1(2), of "cursor t1"] t1(2) by (auto simp: tty_ok_def)
      then show ?thesis using 4 pc t1(1) False by (simp add: tty_putc_def)
    qed
  qed
qed

text \<open>C36. Whatever bytes are written to a terminal of at least two cells, no access leaves its
  arrays and the cursor stays on the screen.\<close>

theorem tty_puts_safe:
  assumes "tty_ok t"
  shows "\<exists>t'. tty_puts chs t = Inr t' \<and> tty_ok t'"
  using assms
proof (induction chs arbitrary: t)
  case (Cons ch chs)
  obtain t1 where "tty_putc ch t = Inr t1" "tty_ok t1" using tty_putc_ok [OF Cons.prems] by blast
  then show ?case using Cons.IH by auto
qed simp

theorem tty_puts_safe_witness: "\<exists>t'. tty_puts [104, 105, 10, 8, 8, 13, 33, 10, 10] demo_tty = Inr t' \<and> tty_ok t'"
  by (rule tty_puts_safe) (simp add: tty_ok_def demo_tty_def)

end
