(* ===== verification/TtyLines.thy ===== *)
theory TtyLines
  imports TtyProofs
begin

text \<open>
  The line discipline of the terminal: the characters typed, with backspaces, and the line read.
\<close>

section \<open>The queue of characters\<close>

definition queue_ok :: "tty_queue \<Rightarrow> bool" where
  "queue_ok q \<longleftrightarrow> q_end q = TTY_COOK_BUF_SZ \<and> length (q_buf q) = TTY_COOK_BUF_SZ \<and>
     q_front q < TTY_COOK_BUF_SZ \<and> q_rear q < TTY_COOK_BUF_SZ"

definition chars :: "tty_queue \<Rightarrow> u8 list" where
  "chars q = queued TTY_COOK_BUF_SZ (q_buf q) (q_front q) (q_rear q)"

lemma queue_okD:
  assumes "queue_ok q"
  shows "q_end q = TTY_COOK_BUF_SZ" and "length (q_buf q) = TTY_COOK_BUF_SZ"
    and "q_front q < TTY_COOK_BUF_SZ" and "q_rear q < TTY_COOK_BUF_SZ"
  using assms by (simp_all add: queue_ok_def)

lemma wrap: "r < N \<Longrightarrow> (if r + 1 = N then 0 else r + 1) = Suc r mod N"
  by (cases "Suc r = N") auto

text \<open>The queue after the character and its terminator are stored.\<close>

definition stored :: "u8 \<Rightarrow> tty_queue \<Rightarrow> tty_queue" where
  "stored ch q = q\<lparr>q_buf := ((q_buf q)[q_rear q := ch])[Suc (q_rear q) mod TTY_COOK_BUF_SZ := 0],
     q_rear := Suc (q_rear q) mod TTY_COOK_BUF_SZ\<rparr>"

lemma tty_enqueue_eq:
  assumes "queue_ok q"
  shows "tty_enqueue ch q = (if Suc (q_rear q) mod TTY_COOK_BUF_SZ = q_front q then Inl Panic else Inr (stored ch q))"
proof -
  note Q = queue_okD [OF assms]
  have w: "(if q_rear q + 1 = q_end q then 0 else q_rear q + 1) = Suc (q_rear q) mod TTY_COOK_BUF_SZ"
    unfolding Q(1) by (rule wrap [OF Q(4)])
  have "Suc (q_rear q) mod TTY_COOK_BUF_SZ < TTY_COOK_BUF_SZ" by (simp add: TTY_COOK_BUF_SZ_def)
  then show ?thesis using Q unfolding tty_enqueue_def Let_def w by (simp add: guardR_def stored_def)
qed

lemma stored_ok:
  assumes q: "queue_ok q" and n: "Suc (q_rear q) mod TTY_COOK_BUF_SZ \<noteq> q_front q"
  shows "queue_ok (stored ch q)" and "chars (stored ch q) = chars q @ [ch]"
    and "q_buf (stored ch q) ! before TTY_COOK_BUF_SZ (q_rear (stored ch q)) = ch"
proof -
  note Q = queue_okD [OF q]
  let ?N = TTY_COOK_BUF_SZ and ?r = "Suc (q_rear q) mod TTY_COOK_BUF_SZ"
  have r: "?r < ?N" by (simp add: TTY_COOK_BUF_SZ_def)
  show "queue_ok (stored ch q)" using Q r by (simp add: queue_ok_def stored_def)
  have "chars (stored ch q) = queued ?N ((q_buf q)[q_rear q := ch]) (q_front q) ?r"
    unfolding chars_def stored_def using queued_upd [OF Q(3) r, of "(q_buf q)[q_rear q := ch]" 0] Q(2) by simp
  then show "chars (stored ch q) = chars q @ [ch]" using queued_push [OF Q(3,4,2) n, of ch] by (simp add: chars_def)
  have b: "before ?N ?r = q_rear q" using Q(4) by (cases "Suc (q_rear q) = ?N") (auto simp: before_def)
  have "?r \<noteq> q_rear q" using Q(4) by (cases "Suc (q_rear q) = ?N") (auto simp: TTY_COOK_BUF_SZ_def)
  then show "q_buf (stored ch q) ! before ?N (q_rear (stored ch q)) = ch" using Q(2,4) b by (simp add: stored_def)
qed

lemma tty_dequeue_eq:
  "queue_ok q \<Longrightarrow> tty_dequeue q = Inr (q_buf q ! q_front q, q\<lparr>q_front := Suc (q_front q) mod TTY_COOK_BUF_SZ\<rparr>)"
  using wrap [of "q_front q" TTY_COOK_BUF_SZ] by (simp add: tty_dequeue_def Let_def queue_ok_def)

interpretation tty_chars: bounded_queue queue_ok chars 1023 tty_enqueue tty_dequeue
proof (unfold_locales, goal_cases)
  case (1 q)
  then show ?case
    using used_less [of "q_front q" TTY_COOK_BUF_SZ "q_rear q"] by (simp add: queue_ok_def chars_def TTY_COOK_BUF_SZ_def)
next
  case (2 q x)
  note Q = queue_okD [OF 2(1)]
  have "used TTY_COOK_BUF_SZ (q_front q) (q_rear q) < 1023" using 2(2) by (simp add: chars_def)
  then have n: "Suc (q_rear q) mod TTY_COOK_BUF_SZ \<noteq> q_front q"
    using full_iff [OF Q(3,4)] by (simp add: TTY_COOK_BUF_SZ_def)
  show ?case using tty_enqueue_eq [OF 2(1), of x] stored_ok [OF 2(1) n] n by auto
next
  case (3 q x)
  note Q = queue_okD [OF 3(1)]
  have "used TTY_COOK_BUF_SZ (q_front q) (q_rear q) = TTY_COOK_BUF_SZ - 1"
    using 3(2) by (simp add: chars_def TTY_COOK_BUF_SZ_def)
  then show ?case using tty_enqueue_eq [OF 3(1), of x] full_iff [OF Q(3,4)] by simp
next
  case (4 q x xs)
  note Q = queue_okD [OF 4(1)]
  let ?q = "q\<lparr>q_front := Suc (q_front q) mod TTY_COOK_BUF_SZ\<rparr>"
  have ne: "q_front q \<noteq> q_rear q"
    using 4(2) used_0 [OF Q(3,4)] by (auto simp: chars_def queued_def)
  have "x = q_buf q ! q_front q" "xs = chars ?q"
    using 4(2) queued_pop [OF Q(3,4) ne, of "q_buf q"] by (simp_all add: chars_def)
  moreover have "tty_dequeue q = Inr (q_buf q ! q_front q, ?q)"
    by (rule tty_dequeue_eq [OF 4(1)])
  moreover have "queue_ok ?q" using Q by (simp add: queue_ok_def TTY_COOK_BUF_SZ_def)
  ultimately show ?case by (intro exI [of _ ?q]) simp
qed

section \<open>The line being typed\<close>

text \<open>\<open>finished\<close> lines, each with its terminator, and the unfinished \<open>line\<close>.  The slot before it holds a
  terminator if \<open>g\<close>, which is what stops a backspace; the queue of a new terminal is not initialised.\<close>

definition line_start :: "tty_queue \<Rightarrow> u8 list \<Rightarrow> nat" where
  "line_start q finished = (q_front q + length finished) mod TTY_COOK_BUF_SZ"

definition typing :: "bool \<Rightarrow> tty_queue \<Rightarrow> u8 list \<Rightarrow> u8 list \<Rightarrow> bool" where
  "typing g q finished line \<longleftrightarrow> queue_ok q \<and> chars q = finished @ line \<and> 0 \<notin> set line \<and>
     (g \<longrightarrow> q_buf q ! before TTY_COOK_BUF_SZ (line_start q finished) = 0)"

lemma typingD:
  assumes "typing g q fs line"
  shows "queue_ok q" and "chars q = fs @ line" and "0 \<notin> set line"
    and "g \<Longrightarrow> q_buf q ! before TTY_COOK_BUF_SZ (line_start q fs) = 0"
  using assms by (simp_all add: typing_def)

lemma chars_length: "length (chars q) = used TTY_COOK_BUF_SZ (q_front q) (q_rear q)"
  by (simp add: chars_def)

lemma room:
  assumes "queue_ok q" and "length (chars q) < 1023"
  shows "Suc (q_rear q) mod TTY_COOK_BUF_SZ \<noteq> q_front q"
  using assms full_iff [OF queue_okD(3,4) [OF assms(1)]] by (simp add: chars_length TTY_COOK_BUF_SZ_def)

lemma stored_start:
  assumes t: "typing g q fs line" and l: "length (chars q) < 1023" and g: g
  shows "q_buf (stored ch q) ! before TTY_COOK_BUF_SZ (line_start (stored ch q) fs) = 0"
proof -
  let ?N = TTY_COOK_BUF_SZ and ?r = "Suc (q_rear q) mod TTY_COOK_BUF_SZ"
  note Q = queue_okD [OF typingD(1) [OF t]]
  let ?s = "line_start q fs"
  have s: "?s < ?N" by (simp add: line_start_def TTY_COOK_BUF_SZ_def)
  note b = before_ok [OF s]
  have "before ?N ?s \<noteq> q_rear q"
  proof
    assume "before ?N ?s = q_rear q"
    then have e: "?s = ?r" using b by simp
    have u: "length fs \<le> used ?N (q_front q) (q_rear q)" "Suc (used ?N (q_front q) (q_rear q)) < ?N"
      unfolding chars_length [of q, symmetric] using typingD(2) [OF t] l by (simp_all add: TTY_COOK_BUF_SZ_def)
    have r: "?r < ?N" by (simp add: TTY_COOK_BUF_SZ_def)
    have "used ?N (q_front q) ?r = Suc (used ?N (q_front q) (q_rear q))" using used_Suc [OF Q(3,4)] u(2) by simp
    moreover have "length fs < ?N" using u by simp
    ultimately have "length fs = Suc (used ?N (q_front q) (q_rear q))"
      using e slot_eq_rear [OF Q(3) r, of "length fs"] by (simp add: line_start_def)
    then show False using u(1) by simp
  qed
  then show ?thesis using typingD(4) [OF t g] Q(2) b
    by (cases "before ?N ?s = ?r") (auto simp: stored_def line_start_def nth_list_update)
qed

lemma typing_char:
  assumes t: "typing g q fs line" and "ch \<noteq> 0" and l: "length (chars q) < 1023"
  shows "tty_enqueue ch q = Inr (stored ch q)" and "typing g (stored ch q) fs (line @ [ch])"
proof -
  note q = typingD(1) [OF t]
  note n = room [OF q l]
  show "tty_enqueue ch q = Inr (stored ch q)" using tty_enqueue_eq [OF q] n by simp
  show "typing g (stored ch q) fs (line @ [ch])"
    using stored_ok [OF q n, of ch] stored_start [OF t l, of ch] typingD(2,3) [OF t] assms(2) by (simp add: typing_def)
qed

lemma typing_end:
  assumes t: "typing g q fs line" and l: "length (chars q) + 2 \<le> 1023"
  shows "\<exists>q1 q2. tty_enqueue 10 q = Inr q1 \<and> tty_enqueue 0 q1 = Inr q2 \<and> typing True q2 (fs @ line @ [10, 0]) []"
proof -
  let ?q1 = "stored 10 q" and ?q2 = "stored 0 (stored 10 q)"
  have l1: "length (chars q) < 1023" using l by simp
  have ten: "(10 :: u8) \<noteq> 0" by simp
  note q1 = typing_char [OF t ten l1]
  note ok1 = typingD(1) [OF q1(2)]
  have l2: "length (chars ?q1) < 1023" using typingD(2) [OF q1(2)] typingD(2) [OF t] l by simp
  note n = room [OF ok1 l2]
  note s = stored_ok [OF ok1 n, of 0]
  note S = queue_okD [OF s(1)]
  have c: "chars ?q2 = fs @ line @ [10, 0]" using s(2) typingD(2) [OF q1(2)] by simp
  have u: "length (fs @ line @ [10, 0]) = used TTY_COOK_BUF_SZ (q_front ?q2) (q_rear ?q2)"
    using c chars_length [of ?q2] by simp
  then have "line_start ?q2 (fs @ line @ [10, 0]) = q_rear ?q2"
    using slot_eq_rear [OF S(3,4), of "length (fs @ line @ [10, 0])"] used_less [OF S(3,4)] by (simp add: line_start_def)
  then have "typing True ?q2 (fs @ line @ [10, 0]) []" using s(1,3) c by (simp add: typing_def)
  moreover have "tty_enqueue 0 ?q1 = Inr ?q2" using tty_enqueue_eq [OF ok1] n by simp
  ultimately show ?thesis using q1(1) by blast
qed

lemma typing_back:
  assumes t: "typing g q fs line"
  shows "if line = [] then g \<longrightarrow> tty_pop_back q = Inr (1, q)
    else \<exists>q'. tty_pop_back q = Inr (0, q') \<and> typing g q' fs (butlast line)"
proof -
  let ?N = TTY_COOK_BUF_SZ
  note q = typingD(1) [OF t] and c = typingD(2) [OF t]
  note Q = queue_okD [OF q]
  let ?b = "before ?N (q_rear q)"
  have b: "?b < ?N" using before_ok [OF Q(4)] by simp
  have p: "int (if q_rear q = 0 then q_end q else q_rear q) - 1 = int ?b"
    "(if q_rear q = 0 then q_end q else q_rear q) - 1 = ?b"
    using Q(1,4) by (auto simp: before_def TTY_COOK_BUF_SZ_def)
  have step: "tty_pop_back q = (if q_buf q ! ?b \<noteq> 0
      then Inr (0, q\<lparr>q_rear := ?b, q_buf := (q_buf q)[?b := 0]\<rparr>) else Inr (1, q))"
    using Q b unfolding tty_pop_back_def Let_def p by simp
  show ?thesis
  proof (cases "line = []")
    case True
    then have "length fs = used ?N (q_front q) (q_rear q)" using c chars_length [of q] by simp
    then have "line_start q fs = q_rear q"
      using slot_eq_rear [OF Q(3,4), of "length fs"] used_less [OF Q(3,4)] by (simp add: line_start_def)
    then show ?thesis using True step typingD(4) [OF t] by simp
  next
    case False
    then have ne: "q_front q \<noteq> q_rear q" using c used_0 [OF Q(3,4)] by (auto simp: chars_def queued_def)
    have l: "chars q = queued ?N (q_buf q) (q_front q) ?b @ [q_buf q ! ?b]"
      unfolding chars_def by (rule queued_before [OF Q(3,4) ne])
    obtain ls x where ls: "line = ls @ [x]" using False by (cases line rule: rev_cases) auto
    then have last: "q_buf q ! ?b = x" "queued ?N (q_buf q) (q_front q) ?b = fs @ ls" using c l by auto
    have nz: "x \<noteq> 0" "0 \<notin> set ls" using typingD(3) [OF t] ls by auto
    let ?q = "q\<lparr>q_rear := ?b, q_buf := (q_buf q)[?b := 0]\<rparr>"
    have "queue_ok ?q" using Q b by (simp add: queue_ok_def)
    moreover have "chars ?q = fs @ ls"
      unfolding chars_def using queued_upd [OF Q(3) b Q(2), of 0] last(2) by simp
    moreover have "(q_buf q)[?b := 0] ! before ?N (line_start ?q fs) = 0" if g
      using that typingD(4) [OF t] Q(2) b by (simp add: line_start_def nth_list_update)
    ultimately have "typing g ?q fs ls" using nz(2) by (simp add: typing_def)
    then show ?thesis using step last(1) nz(1) ls by auto
  qed
qed

section \<open>Typing\<close>

fun tty_type :: "u8 list \<Rightarrow> tty_t \<Rightarrow> tty_t result" where
  "tty_type [] t = Inr t"
| "tty_type (ch # chs) t = bindR (tty_cook ch t) (\<lambda>(_, t). tty_type chs t)"

fun edit :: "u8 list \<Rightarrow> u8 list \<Rightarrow> u8 list" where
  "edit line [] = line"
| "edit line (x # xs) = edit (if x = 8 then butlast line else line @ [x]) xs"

text \<open>Every backspace takes back a character of the line, which has \<open>n\<close> so far.\<close>

fun takes_back :: "nat \<Rightarrow> u8 list \<Rightarrow> bool" where
  "takes_back n [] \<longleftrightarrow> True"
| "takes_back n (x # xs) \<longleftrightarrow> (if x = 8 then 0 < n \<and> takes_back (n - 1) xs else takes_back (n + 1) xs)"

definition sem_free :: "int \<Rightarrow> semaphore \<Rightarrow> bool" where
  "sem_free n sem \<longleftrightarrow> flag (sem_lk sem) = 0 \<and> sem_value sem = n"

lemma sem_wait_free: "sem_free n sem \<Longrightarrow> 0 < n \<Longrightarrow> sem_wait (\<lambda>s. s) sem = Some (Inr (sem\<lparr>sem_value := n - 1\<rparr>))"
  by (subst sem_wait.simps) (simp add: sem_free_def sem_try_eq)

lemma sem_signal_free:
  "sem_free n sem \<Longrightarrow> n < 2 ^ 31 - 1 \<Longrightarrow> sem_signal sem = Inr (sem\<lparr>sem_value := n + 1\<rparr>)"
  by (simp add: sem_free_def sem_signal_Inr)

lemma tty_cook_locked:
  assumes "sem_free 1 (t_lock t)"
  shows "tty_cook ch t =
      (if ch = 10 then
         bindR (tty_enqueue ch (t_queue t)) (\<lambda>q. bindR (tty_enqueue 0 q) (\<lambda>q.
         bindR (sem_signal (cooked t)) (\<lambda>sem. Inr (0, t\<lparr>t_queue := q, cooked := sem\<rparr>))))
       else if ch = 8 then bindR (tty_pop_back (t_queue t)) (\<lambda>(ret, q). Inr (ret, t\<lparr>t_queue := q\<rparr>))
       else bindR (tty_enqueue ch (t_queue t)) (\<lambda>q. Inr (0, t\<lparr>t_queue := q\<rparr>)))"
proof -
  let ?lk = "(t_lock t)\<lparr>sem_value := 0\<rparr>"
  have w: "sem_wait (\<lambda>s. s) (t_lock t) = Some (Inr ?lk)" using sem_wait_free [OF assms] by simp
  have s: "sem_signal ?lk = Inr (t_lock t)"
    using sem_signal_free [of 0 ?lk] assms by (simp add: sem_free_def)
  show ?thesis by (simp add: tty_cook_def w s Let_def bindR_assoc case_prod_unfold)
qed

lemma cook_char:
  assumes t: "typing g (t_queue t) fs line" and lk: "sem_free 1 (t_lock t)"
    and ch: "ch \<noteq> 0" "ch \<noteq> 10" "ch = 8 \<Longrightarrow> line = [] \<Longrightarrow> g" and l: "length (chars (t_queue t)) < 1023"
  shows "\<exists>ret q. tty_cook ch t = Inr (ret, t\<lparr>t_queue := q\<rparr>) \<and>
    typing g q fs (if ch = 8 then butlast line else line @ [ch]) \<and> length (chars q) \<le> Suc (length (chars (t_queue t)))"
proof (cases "ch = 8")
  case True
  show ?thesis
  proof (cases "line = []")
    case True
    then have "tty_pop_back (t_queue t) = Inr (1, t_queue t)" using typing_back [OF t] ch(3) \<open>ch = 8\<close> by simp
    then show ?thesis using \<open>ch = 8\<close> True t tty_cook_locked [OF lk, of ch]
      by (intro exI [of _ 1] exI [of _ "t_queue t"]) simp
  next
    case False
    then obtain q where q: "tty_pop_back (t_queue t) = Inr (0, q)" "typing g q fs (butlast line)"
      using typing_back [OF t] by auto
    then have "length (chars q) \<le> length (chars (t_queue t))"
      using typingD(2) [OF q(2)] typingD(2) [OF t] by simp
    then show ?thesis using \<open>ch = 8\<close> q tty_cook_locked [OF lk, of ch] by (intro exI [of _ 0] exI [of _ q]) simp
  qed
next
  case False
  note tc = typing_char [OF t ch(1) l]
  have "length (chars (stored ch (t_queue t))) = Suc (length (chars (t_queue t)))"
    using typingD(2) [OF tc(2)] typingD(2) [OF t] by simp
  then show ?thesis using False ch(2) tc tty_cook_locked [OF lk, of ch]
    by (intro exI [of _ 0] exI [of _ "stored ch (t_queue t)"]) simp
qed

lemma type_chars:
  assumes "typing g (t_queue t) fs line" and "sem_free 1 (t_lock t)" and "set xs \<inter> {0, 10} = {}"
    and "g \<or> takes_back (length line) xs" and "length (chars (t_queue t)) + length xs \<le> 1023"
  shows "\<exists>q. tty_type xs t = Inr (t\<lparr>t_queue := q\<rparr>) \<and> typing g q fs (edit line xs) \<and>
    length (chars q) \<le> length (chars (t_queue t)) + length xs"
  using assms
proof (induction xs arbitrary: t line)
  case Nil
  then show ?case by (intro exI [of _ "t_queue t"]) simp
next
  case (Cons x xs)
  let ?line = "if x = 8 then butlast line else line @ [x]"
  have x: "x \<noteq> 0" "x \<noteq> 10" "x = 8 \<Longrightarrow> line = [] \<Longrightarrow> g" "length (chars (t_queue t)) < 1023" using Cons.prems(3,4,5) by auto
  obtain ret q where q: "tty_cook x t = Inr (ret, t\<lparr>t_queue := q\<rparr>)" "typing g q fs ?line"
    "length (chars q) \<le> Suc (length (chars (t_queue t)))"
    using cook_char [OF Cons.prems(1,2) x] by blast
  let ?t = "t\<lparr>t_queue := q\<rparr>"
  have "typing g (t_queue ?t) fs ?line" "sem_free 1 (t_lock ?t)" "set xs \<inter> {0, 10} = {}"
    "g \<or> takes_back (length ?line) xs" "length (chars (t_queue ?t)) + length xs \<le> 1023" using Cons.prems q by auto
  from Cons.IH [OF this] obtain q' where "tty_type xs ?t = Inr (?t\<lparr>t_queue := q'\<rparr>)" "typing g q' fs (edit ?line xs)"
    "length (chars q') \<le> length (chars (t_queue ?t)) + length xs" by blast
  then show ?case using q(1,3) by (intro exI [of _ q']) simp
qed

section \<open>Reading\<close>

lemma tty_read_loop_ok:
  assumes "queue_ok q" and "chars q = l @ 0 # rest" and "0 \<notin> set l"
  shows "\<exists>q'. tty_read_loop count buf q = Some (Inr (buf @ take (nat (count - int (length buf))) l, q')) \<and>
    queue_ok q' \<and> chars q' = rest \<and> q_buf q' = q_buf q \<and> line_start q' [] = line_start q (l @ [0])"
  using assms
proof (induction l arbitrary: q buf)
  case Nil
  obtain q' where q': "tty_dequeue q = Inr (0, q')" "queue_ok q'" "chars q' = rest"
    using tty_chars.get_ok [OF Nil(1)] Nil(2) by auto
  have e: "q' = q\<lparr>q_front := Suc (q_front q) mod TTY_COOK_BUF_SZ\<rparr>"
    using q'(1) tty_dequeue_eq [OF Nil(1)] by simp
  show ?case using q' e by (subst tty_read_loop.simps) (auto simp: line_start_def mod_Suc_eq)
next
  case (Cons x l)
  obtain q1 where q1: "tty_dequeue q = Inr (x, q1)" "queue_ok q1" "chars q1 = l @ 0 # rest"
    using tty_chars.get_ok [OF Cons.prems(1)] Cons.prems(2) by auto
  have e: "q1 = q\<lparr>q_front := Suc (q_front q) mod TTY_COOK_BUF_SZ\<rparr>"
    using q1(1) tty_dequeue_eq [OF Cons.prems(1)] by simp
  have x: "x \<noteq> 0" "0 \<notin> set l" using Cons.prems(3) by auto
  let ?buf = "if int (length buf) < count then buf @ [x] else buf"
  obtain q' where q': "tty_read_loop count ?buf q1 = Some (Inr (?buf @ take (nat (count - int (length ?buf))) l, q'))"
    "queue_ok q'" "chars q' = rest" "q_buf q' = q_buf q1" "line_start q' [] = line_start q1 (l @ [0])"
    using Cons.IH [OF q1(2,3) x(2), of ?buf] by blast
  have tk: "?buf @ take (nat (count - int (length ?buf))) l = buf @ take (nat (count - int (length buf))) (x # l)"
  proof (cases "int (length buf) < count")
    case True
    then have "nat (count - int (length buf)) = Suc (nat (count - int (length (buf @ [x]))))" by simp
    then show ?thesis using True by simp
  qed simp
  have run: "tty_read_loop count buf q = tty_read_loop count ?buf q1"
    using q1(1) x(1) by (subst tty_read_loop.simps) (simp add: Let_def)
  have "line_start q1 (l @ [0]) = line_start q ((x # l) @ [0])"
    using mod_add_left_eq [of "Suc (q_front q)" TTY_COOK_BUF_SZ "Suc (length l)"] by (simp add: e line_start_def)
  then show ?case using q' run tk e by (intro exI [of _ q']) simp
qed

text \<open>C15. Typing any characters and then return into an empty terminal, and reading, yields the edited line
  with its newline, cut off at \<open>count\<close>: a backspace takes back the last character of the line, and at the
  start of the line it does nothing.  On a terminal that is new, whose buffer is not initialised, this holds
  when every backspace has a character to take back; afterwards the terminal is empty again, with a
  terminator in front of the next line, so that from then on it holds for all backspaces.\<close>

theorem tty_line:
  assumes t: "queue_ok (t_queue t)" "chars (t_queue t) = []"
    and new: "takes_back 0 xs \<or> q_buf (t_queue t) ! before TTY_COOK_BUF_SZ (q_front (t_queue t)) = 0"
    and lk: "sem_free 1 (t_lock t)" and ck: "sem_free 0 (cooked t)"
    and xs: "set xs \<inter> {0, 10} = {}" "length xs + 2 \<le> 1023"
  shows "\<exists>t1 t2. tty_type (xs @ [10]) t = Inr t1 \<and>
    tty_read count t1 = Inr (int (length (take (nat count) (edit [] xs @ [10]))),
      take (nat count) (edit [] xs @ [10]), t2) \<and>
    queue_ok (t_queue t2) \<and> chars (t_queue t2) = [] \<and>
    q_buf (t_queue t2) ! before TTY_COOK_BUF_SZ (q_front (t_queue t2)) = 0 \<and>
    sem_free 1 (t_lock t2) \<and> sem_free 0 (cooked t2)"
proof -
  define g where "g \<longleftrightarrow> q_buf (t_queue t) ! before TTY_COOK_BUF_SZ (q_front (t_queue t)) = 0"
  have ty: "typing g (t_queue t) [] []" using t by (simp add: typing_def g_def line_start_def queue_ok_def)
  have g: "g \<or> takes_back (length []) xs" using new by (auto simp: g_def)
  have "length (chars (t_queue t)) + length xs \<le> 1023" using xs(2) t(2) by simp
  from type_chars [OF ty lk xs(1) g this] obtain q where
    q: "tty_type xs t = Inr (t\<lparr>t_queue := q\<rparr>)" "typing g q [] (edit [] xs)" "length (chars q) \<le> length xs"
    using t(2) by auto
  have "length (chars q) + 2 \<le> 1023" using q(3) xs(2) by simp
  from typing_end [OF q(2) this] obtain q1 q2 where
    e: "tty_enqueue 10 q = Inr q1" "tty_enqueue 0 q1 = Inr q2" "typing True q2 (edit [] xs @ [10, 0]) []" by auto
  let ?l = "edit [] xs @ [10]" and ?ck = "(cooked t)\<lparr>sem_value := 1\<rparr>"
  let ?t1 = "t\<lparr>t_queue := q2, cooked := ?ck\<rparr>"
  have sg: "sem_signal (cooked t) = Inr ?ck" using sem_signal_free [OF ck] by simp
  have app: "tty_type (as @ bs) s = bindR (tty_type as s) (tty_type bs)" for as bs s
    by (induction as arbitrary: s) (simp_all add: bindR_assoc case_prod_unfold)
  have "sem_free 1 (t_lock (t\<lparr>t_queue := q\<rparr>))" using lk by simp
  from tty_cook_locked [OF this, of 10] have "tty_cook 10 (t\<lparr>t_queue := q\<rparr>) = Inr (0, ?t1)" using e(1,2) sg by simp
  then have typed: "tty_type (xs @ [10]) t = Inr ?t1" using q(1) by (simp add: app)
  have "chars q2 = ?l @ 0 # []" using typingD(2) [OF e(3)] by simp
  moreover have "0 \<notin> set ?l" using typingD(3) [OF q(2)] by simp
  ultimately obtain q3 where r: "tty_read_loop count [] q2 = Some (Inr (take (nat count) ?l, q3))"
    "queue_ok q3" "chars q3 = []" "q_buf q3 = q_buf q2" "line_start q3 [] = line_start q2 (?l @ [0])"
    using tty_read_loop_ok [OF typingD(1) [OF e(3)], of ?l "[]" count "[]"] by auto
  have t3: "q_buf q3 ! before TTY_COOK_BUF_SZ (q_front q3) = 0"
    using r typingD(4) [OF e(3)] by (simp add: line_start_def queue_ok_def)
  let ?t2 = "?t1\<lparr>cooked := cooked t, t_lock := t_lock t, t_queue := q3\<rparr>"
  have w1: "sem_wait (\<lambda>s. s) ?ck = Some (Inr (cooked t))"
    using sem_wait_free [of 1 ?ck] ck by (simp add: sem_free_def)
  have w2: "sem_wait (\<lambda>s. s) (t_lock t) = Some (Inr ((t_lock t)\<lparr>sem_value := 0\<rparr>))"
    using sem_wait_free [OF lk] by simp
  have w3: "sem_signal ((t_lock t)\<lparr>sem_value := 0\<rparr>) = Inr (t_lock t)"
    using sem_signal_free [of 0 "(t_lock t)\<lparr>sem_value := 0\<rparr>"] lk by (simp add: sem_free_def)
  have "tty_read count ?t1 = Inr (int (length (take (nat count) ?l)), take (nat count) ?l, ?t2)"
    using w1 w2 w3 r(1) by (simp add: tty_read_def)
  then show ?thesis using typed t3 r(2,3) lk ck by (intro exI [of _ ?t1] exI [of _ ?t2]) simp
qed

text \<open>A new terminal, with a buffer that holds anything.\<close>

definition new_tty :: tty_t where
  "new_tty = demo_tty\<lparr>t_queue := \<lparr>q_buf = replicate 1024 7, q_end = 1024, q_front = 0, q_rear = 0\<rparr>\<rparr>"

theorem tty_line_witness:
  "\<exists>t1 t2. tty_type [104, 111, 8, 105, 10] new_tty = Inr t1 \<and> tty_read 80 t1 = Inr (3, [104, 105, 10], t2)"
proof -
  have t: "queue_ok (t_queue new_tty)" "chars (t_queue new_tty) = []"
    by (simp_all add: queue_ok_def chars_def queued_def used_def new_tty_def TTY_COOK_BUF_SZ_def)
  have s: "sem_free 1 (t_lock new_tty)" "sem_free 0 (cooked new_tty)" by (simp_all add: sem_free_def new_tty_def demo_tty_def)
  have x: "set [104, 111, 8, 105 :: u8] \<inter> {0, 10} = {}" "length [104, 111, 8, 105 :: u8] + 2 \<le> 1023" by simp_all
  show ?thesis using tty_line [OF t _ s x, of 80] by auto
qed

text \<open>The buffer of a new terminal is not initialised: when its last byte is not 0, a backspace
  before anything is typed moves the rear below the front.\<close>

lemma tty_backspace_underflow:
  assumes "length b = 1024" and "b ! 1023 \<noteq> 0"
  shows "\<exists>q. tty_pop_back \<lparr>q_buf = b, q_end = 1024, q_front = 0, q_rear = 0\<rparr> = Inr (0, q) \<and> q_rear q = 1023"
  using assms by (simp add: tty_pop_back_def Let_def)

end
