(* ===== verification/Sd.thy ===== *)
theory Sd
  imports Prelude
begin

text \<open>
  The disk device, \<open>kernel/src/dev/dev_sd.c\<close>: reads and writes of any range through a buffer of one
  block.  The disk itself is an ideal one here, a function from block numbers to blocks; \<open>Blkdev\<close> has the
  same loops over the device registers and proves that they refine these.
\<close>

record sd_t =
  blkcnt :: u32
  blksz :: u32
  sd_buf :: "u8 list"
  sd_disk :: "u32 \<Rightarrow> u8 list"

text \<open>\<open>config\<close> is what the disk reports; \<open>None\<close> stands for the NULL \<open>dev->ptr\<close> without a disk.\<close>

definition sd_init :: "(u32 \<times> u32) option \<Rightarrow> (nat \<Rightarrow> u8) \<Rightarrow> (u32 \<Rightarrow> u8 list) \<Rightarrow> sd_t option" where
  "sd_init config junk disk =
     (case config of None \<Rightarrow> None
      | Some (cnt, sz) \<Rightarrow>
          Some \<lparr>blkcnt = cnt, blksz = sz, sd_buf = map junk [0..<unat sz], sd_disk = disk\<rparr>)"

definition blk_read :: "u32 \<Rightarrow> sd_t \<Rightarrow> sd_t" where
  "blk_read blkno sd = sd\<lparr>sd_buf := sd_disk sd blkno\<rparr>"

definition blk_write :: "u32 \<Rightarrow> sd_t \<Rightarrow> sd_t" where
  "blk_write blkno sd = sd\<lparr>sd_disk := (sd_disk sd)(blkno := sd_buf sd)\<rparr>"

text \<open>The \<open>memcpy\<close>s: \<open>n\<close> bytes of an array from a signed index on, and storing bytes there.\<close>

definition slice :: "int \<Rightarrow> nat \<Rightarrow> u8 list \<Rightarrow> u8 list result" where
  "slice i n xs =
     (if 0 \<le> i \<and> nat i + n \<le> length xs then Inr (take n (drop (nat i) xs)) else Inl Out_Of_Bounds)"

definition splice :: "int \<Rightarrow> u8 list \<Rightarrow> u8 list \<Rightarrow> u8 list result" where
  "splice i ys xs =
     (if 0 \<le> i \<and> nat i + length ys \<le> length xs
      then Inr (take (nat i) xs @ ys @ drop (nat i + length ys) xs) else Inl Out_Of_Bounds)"

text \<open>The start of the first block: the mask has 32 bits, and so has the variable.\<close>

definition blk_start :: "u32 \<Rightarrow> u32 \<Rightarrow> u32" where
  "blk_start offset sz = offset AND NOT (sz - 1)"

definition chunk :: "u32 \<Rightarrow> u32 \<Rightarrow> u32 \<Rightarrow> u32 \<Rightarrow> u32 \<Rightarrow> u32" where
  "chunk sz offset st count pos =
     (let n = sz - (offset - st) in if n > count - pos then count - pos else n)"

text \<open>
  \<open>offset\<close> is an \<open>int\<close>: it is unsigned in the size computation and signed in the pointer arithmetic
  \<open>sd->buf + offset - st\<close>.
\<close>

definition sd_index :: "u32 \<Rightarrow> u32 \<Rightarrow> int" where
  "sd_index offset st = sint offset - uint st"

partial_function (option) sd_read_loop ::
    "u32 \<Rightarrow> u32 \<Rightarrow> u32 \<Rightarrow> u32 \<Rightarrow> u8 list \<Rightarrow> sd_t \<Rightarrow> (u8 list \<times> u32 \<times> sd_t) result option" where
  "sd_read_loop count offset st pos out sd =
     (if \<not> pos < count then Some (Inr (out, pos, sd))
      else if blksz sd = 0 then Some (Inl Undefined_Behaviour)
      else
        let n = chunk (blksz sd) offset st count pos; sd1 = blk_read (st div blksz sd) sd in
        (case slice (sd_index offset st) (unat n) (sd_buf sd1) of
           Inl e \<Rightarrow> Some (Inl e)
         | Inr xs \<Rightarrow> sd_read_loop count (st + blksz sd1) (st + blksz sd1) (pos + n) (out @ xs) sd1))"

definition sd_read :: "int \<Rightarrow> int \<Rightarrow> sd_t option \<Rightarrow> (int \<times> u8 list \<times> sd_t) result" where
  "sd_read offset count dev =
     (case dev of None \<Rightarrow> Inl Panic
      | Some sd \<Rightarrow>
          bindR (returns (sd_read_loop (word_of_int count) (word_of_int offset)
                   (blk_start (word_of_int offset) (blksz sd)) 0 [] sd)) (\<lambda>(out, pos, sd').
          Inr (sint pos, out, sd')))"

partial_function (option) sd_write_loop ::
    "u8 list \<Rightarrow> u32 \<Rightarrow> u32 \<Rightarrow> u32 \<Rightarrow> u32 \<Rightarrow> sd_t \<Rightarrow> (u32 \<times> sd_t) result option" where
  "sd_write_loop buf count offset st pos sd =
     (if \<not> pos < count then Some (Inr (pos, sd))
      else if blksz sd = 0 then Some (Inl Undefined_Behaviour)
      else
        let n = chunk (blksz sd) offset st count pos;
            sd1 = (if n < blksz sd then blk_read (st div blksz sd) sd else sd)
        in
        (case bindR (slice (uint pos) (unat n) buf) (\<lambda>ys. splice (sd_index offset st) ys (sd_buf sd1)) of
           Inl e \<Rightarrow> Some (Inl e)
         | Inr b \<Rightarrow>
             sd_write_loop buf count (st + blksz sd1) (st + blksz sd1) (pos + n)
               (blk_write (st div blksz sd1) (sd1\<lparr>sd_buf := b\<rparr>))))"

definition sd_write :: "int \<Rightarrow> u8 list \<Rightarrow> int \<Rightarrow> sd_t option \<Rightarrow> (int \<times> sd_t) result" where
  "sd_write offset buf count dev =
     (case dev of None \<Rightarrow> Inl Panic
      | Some sd \<Rightarrow>
          bindR (returns (sd_write_loop buf (word_of_int count) (word_of_int offset)
                   (blk_start (word_of_int offset) (blksz sd)) 0 sd)) (\<lambda>(pos, sd').
          Inr (sint pos, sd')))"

section \<open>The disk as one sequence of bytes\<close>

definition disk_ok :: "nat \<Rightarrow> sd_t \<Rightarrow> bool" where
  "disk_ok k sd \<longleftrightarrow> k < 31 \<and> blksz sd = 2 ^ k \<and> length (sd_buf sd) = 2 ^ k \<and> (\<forall>b. length (sd_disk sd b) = 2 ^ k)"

definition disk_byte :: "nat \<Rightarrow> sd_t \<Rightarrow> nat \<Rightarrow> u8" where
  "disk_byte k sd a = sd_disk sd (word_of_nat (a div 2 ^ k)) ! (a mod 2 ^ k)"

text \<open>The position in the middle of a range: what the loops compute from it, as numbers.\<close>

definition block_pos :: "nat \<Rightarrow> u32 \<Rightarrow> u32 \<Rightarrow> u32 \<Rightarrow> u32 \<Rightarrow> bool" where
  "block_pos k off st cnt pos \<longleftrightarrow>
     k < 31 \<and> unat st = unat off div 2 ^ k * 2 ^ k \<and> pos < cnt \<and> unat off + (unat cnt - unat pos) + 2 ^ k \<le> 2 ^ 31"

definition block_n :: "nat \<Rightarrow> u32 \<Rightarrow> u32 \<Rightarrow> u32 \<Rightarrow> nat" where
  "block_n k off cnt pos = min (2 ^ k - unat off mod 2 ^ k) (unat cnt - unat pos)"

lemma block_facts:
  assumes "block_pos k off st cnt pos"
  shows "k < 31" and "unat (2 ^ k :: u32) = 2 ^ k" and "unat off = unat st + unat off mod 2 ^ k"
    and "unat pos < unat cnt" and "unat off + (unat cnt - unat pos) + 2 ^ k \<le> 2 ^ 31"
    and "unat off mod 2 ^ k < 2 ^ k"
proof -
  show "k < 31" using assms by (simp add: block_pos_def)
  then show "unat (2 ^ k :: u32) = 2 ^ k" by (simp add: unat_pow2)
  show "unat off = unat st + unat off mod 2 ^ k" using assms by (simp only: block_pos_def div_mult_mod_eq)
  show "unat pos < unat cnt" using assms by (simp add: block_pos_def word_less_nat_alt)
  show "unat off + (unat cnt - unat pos) + 2 ^ k \<le> 2 ^ 31" using assms unfolding block_pos_def by blast
  show "unat off mod 2 ^ k < 2 ^ k" by simp
qed

lemma block_index:
  assumes bp: "block_pos k off st cnt pos"
  shows "sd_index off st = int (unat off mod 2 ^ k)"
proof -
  have "unat off < 2 ^ 31" using block_facts(4,5) [OF bp] by linarith
  then have "int (unat off) < int (2 ^ 31)" by (simp only: of_nat_less_iff)
  then have "uint off < 2 ^ 31" by simp
  then have "sint off = int (unat off)" by (subst sint_small) simp_all
  moreover have "int (unat off) = int (unat st) + int (unat off mod 2 ^ k)"
    using block_facts(3) [OF bp] by (simp only: of_nat_add [symmetric])
  ultimately show ?thesis by (simp only: sd_index_def uint_nat add_diff_cancel_left')
qed

lemma block_chunk:
  assumes bp: "block_pos k off st cnt pos"
  shows "unat (chunk (2 ^ k) off st cnt pos) = block_n k off cnt pos"
proof -
  note bf = block_facts [OF bp]
  have o: "unat (off - st) = unat off mod 2 ^ k"
    using bf(3) unat_sub [of st off] by (simp add: word_le_nat_alt)
  have u1: "unat (2 ^ k - (off - st)) = 2 ^ k - unat off mod 2 ^ k"
    using unat_sub [of "off - st" "2 ^ k"] o bf(2,6) by (simp add: word_le_nat_alt)
  have u2: "unat (cnt - pos) = unat cnt - unat pos"
    using unat_sub [of pos cnt] bf(4) by (simp add: word_le_nat_alt)
  show ?thesis using u1 u2 by (simp add: chunk_def Let_def word_less_nat_alt min_def block_n_def)
qed

lemma block_number:
  assumes bp: "block_pos k off st cnt pos"
  shows "st div 2 ^ k = word_of_nat (unat off div 2 ^ k)"
proof -
  have "unat (st div 2 ^ k) = unat off div 2 ^ k"
    using bp block_facts(2) [OF bp] by (simp add: block_pos_def unat_div)
  then show ?thesis by (simp flip: \<open>unat (st div 2 ^ k) = unat off div 2 ^ k\<close>)
qed

lemma block_next:
  assumes bp: "block_pos k off st cnt pos"
  shows "unat (st + 2 ^ k) = unat st + 2 ^ k"
proof -
  note bf = block_facts [OF bp]
  have "(2::nat) ^ 31 < 2 ^ 32" by simp
  then have "unat st + 2 ^ k < 2 ^ 32" using bf(3,5) by linarith
  then have "unat st + unat (2 ^ k :: u32) < 2 ^ LENGTH(32)" by (simp add: bf(2))
  then show ?thesis using bf(2) by (subst unat_add_lem [THEN iffD1]) simp_all
qed

lemma block_n_le: "block_pos k off st cnt pos \<Longrightarrow> unat pos + block_n k off cnt pos \<le> unat cnt"
  using block_facts(4) [of k off st cnt pos] by (simp add: block_n_def)

lemma block_n_pos: "block_pos k off st cnt pos \<Longrightarrow> 0 < block_n k off cnt pos"
  using block_facts(4) [of k off st cnt pos] by (simp add: block_n_def)

lemma block_advance:
  assumes bp: "block_pos k off st cnt pos"
  shows "unat (pos + chunk (2 ^ k) off st cnt pos) = unat pos + block_n k off cnt pos"
proof -
  have "unat pos + unat (chunk (2 ^ k) off st cnt pos) < 2 ^ LENGTH(32)"
    unfolding block_chunk [OF bp] by (rule le_less_trans [OF block_n_le [OF bp] unsigned_less])
  then show ?thesis by (subst unat_add_lem [THEN iffD1]) (simp_all add: block_chunk [OF bp])
qed

text \<open>The next position starts a block, unless the range is finished.\<close>

lemma block_step:
  assumes bp: "block_pos k off st cnt pos" and lt: "pos + chunk (2 ^ k) off st cnt pos < cnt"
  shows "block_pos k (st + 2 ^ k) (st + 2 ^ k) cnt (pos + chunk (2 ^ k) off st cnt pos)"
    and "unat (st + 2 ^ k) = unat off + block_n k off cnt pos"
proof -
  note bf = block_facts [OF bp]
  have l: "unat pos + block_n k off cnt pos < unat cnt"
    using lt by (simp add: word_less_nat_alt block_advance [OF bp])
  then have n: "block_n k off cnt pos = 2 ^ k - unat off mod 2 ^ k" by (simp add: block_n_def)
  show e: "unat (st + 2 ^ k) = unat off + block_n k off cnt pos"
    using bf(3,6) unfolding block_next [OF bp] n by linarith
  have f: "unat (st + 2 ^ k) + (unat cnt - (unat pos + block_n k off cnt pos)) + 2 ^ k \<le> 2 ^ 31"
    using bf(5) l unfolding e by linarith
  have "unat st = unat off div 2 ^ k * 2 ^ k" using bp by (simp add: block_pos_def)
  then have "unat (st + 2 ^ k) = Suc (unat off div 2 ^ k) * 2 ^ k" by (simp only: block_next [OF bp] mult_Suc add.commute)
  then have "unat (st + 2 ^ k) = unat (st + 2 ^ k) div 2 ^ k * 2 ^ k" by simp
  then show "block_pos k (st + 2 ^ k) (st + 2 ^ k) cnt (pos + chunk (2 ^ k) off st cnt pos)"
    using lt f bf(1) unfolding block_pos_def block_advance [OF bp] by blast
qed

lemma blk_start_nat: "k < 31 \<Longrightarrow> unat (blk_start off (2 ^ k)) = unat off div 2 ^ k * 2 ^ k"
  by (simp add: blk_start_def unat_and_not_low_bits)

section \<open>Reading\<close>

lemma disk_block:
  assumes d: "disk_ok k sd" and mn: "a mod 2 ^ k + n \<le> 2 ^ k"
  shows "take n (drop (a mod 2 ^ k) (sd_disk sd (word_of_nat (a div 2 ^ k)))) = map (disk_byte k sd) [a..<a + n]"
proof (rule nth_equalityI)
  show "length (take n (drop (a mod 2 ^ k) (sd_disk sd (word_of_nat (a div 2 ^ k))))) = length (map (disk_byte k sd) [a..<a + n])"
    using d mn by (simp add: disk_ok_def)
next
  fix i
  assume "i < length (take n (drop (a mod 2 ^ k) (sd_disk sd (word_of_nat (a div 2 ^ k)))))"
  then have i: "i < n" by simp
  then have lt: "a mod 2 ^ k + i < 2 ^ k" using mn by linarith
  have a: "a + i = a div 2 ^ k * 2 ^ k + (a mod 2 ^ k + i)" by (simp add: div_mult_mod_eq flip: add.assoc)
  have "(a + i) div 2 ^ k = a div 2 ^ k" and "(a + i) mod 2 ^ k = a mod 2 ^ k + i"
    unfolding a using lt by simp_all
  then show "take n (drop (a mod 2 ^ k) (sd_disk sd (word_of_nat (a div 2 ^ k)))) ! i = map (disk_byte k sd) [a..<a + n] ! i"
    using i lt d by (simp add: disk_byte_def disk_ok_def)
qed

lemma block_n_mod: "block_pos k off st cnt pos \<Longrightarrow> unat off mod 2 ^ k + block_n k off cnt pos \<le> 2 ^ k"
  using block_facts(6) [of k off st cnt pos] unfolding block_n_def by linarith

lemma block_last:
  assumes bp: "block_pos k off st cnt pos" and "\<not> pos + chunk (2 ^ k) off st cnt pos < cnt"
  shows "pos + chunk (2 ^ k) off st cnt pos = cnt" and "block_n k off cnt pos = unat cnt - unat pos"
proof -
  have "unat cnt \<le> unat (pos + chunk (2 ^ k) off st cnt pos)" using assms(2) by (simp add: word_less_nat_alt)
  then have e: "unat pos + block_n k off cnt pos = unat cnt"
    using block_n_le [OF bp] unfolding block_advance [OF bp] by linarith
  then show "block_n k off cnt pos = unat cnt - unat pos" by linarith
  show "pos + chunk (2 ^ k) off st cnt pos = cnt"
    using e by (simp only: word_unat_eq_iff block_advance [OF bp])
qed

lemma upt_join: "n \<le> r \<Longrightarrow> [i..<i + n] @ [i + n..<i + n + (r - n)] = [i..<i + r]"
  using upt_add_eq_append [of i "i + n" "r - n"] by simp

lemma sd_read_loop_correct:
  assumes "block_pos k off st cnt pos" and "disk_ok k sd"
  shows "\<exists>sd'. sd_read_loop cnt off st pos out sd =
           Some (Inr (out @ map (disk_byte k sd) [unat off..<unat off + (unat cnt - unat pos)], cnt, sd')) \<and>
         disk_ok k sd' \<and> sd_disk sd' = sd_disk sd"
  using assms
proof (induction "unat cnt - unat pos" arbitrary: off st pos out sd rule: less_induct)
  case less
  let ?n = "block_n k off cnt pos" and ?c = "chunk (2 ^ k) off st cnt pos" and ?sd = "blk_read (st div 2 ^ k) sd"
  note bp = less.prems(1) and d = less.prems(2)
  have nz: "(2 :: u32) ^ k \<noteq> 0" using block_facts(2) [OF bp] by (metis unat_0 power_not_zero zero_neq_numeral)
  have sz: "blksz sd = 2 ^ k" "blksz ?sd = 2 ^ k" "pos < cnt"
    using d bp block_facts(2) [OF bp] by (auto simp: disk_ok_def blk_read_def block_pos_def)
  have d1: "disk_ok k ?sd" and same: "sd_disk ?sd = sd_disk sd" using d by (simp_all add: disk_ok_def blk_read_def)
  have by_disk: "disk_byte k ?sd = disk_byte k sd" by (rule ext) (simp add: disk_byte_def same)
  have sl: "slice (sd_index off st) (unat ?c) (sd_buf ?sd) = Inr (map (disk_byte k sd) [unat off..<unat off + ?n])"
    using disk_block [OF d block_n_mod [OF bp]] block_n_mod [OF bp] d
    by (simp add: block_index [OF bp] block_chunk [OF bp] slice_def blk_read_def block_number [OF bp] disk_ok_def)
  have step: "sd_read_loop cnt off st pos out sd =
      sd_read_loop cnt (st + 2 ^ k) (st + 2 ^ k) (pos + ?c) (out @ map (disk_byte k sd) [unat off..<unat off + ?n]) ?sd"
    by (subst sd_read_loop.simps) (simp only: sz nz sl Let_def if_True if_False not_True_eq_False sum.case)
  show ?case
  proof (cases "pos + ?c < cnt")
    case True
    let ?out = "out @ map (disk_byte k sd) [unat off..<unat off + ?n]"
    have r: "unat cnt - unat (pos + ?c) = unat cnt - unat pos - ?n" by (simp add: block_advance [OF bp])
    then have sm: "unat cnt - unat (pos + ?c) < unat cnt - unat pos"
      using block_n_pos [OF bp] block_facts(4) [OF bp] by linarith
    have up: "[unat off..<unat off + ?n] @ [unat off + ?n..<unat off + ?n + (unat cnt - unat (pos + ?c))] =
        [unat off..<unat off + (unat cnt - unat pos)]"
      unfolding r by (rule upt_join) (use block_n_le [OF bp] in linarith)
    from less.hyps [OF sm block_step(1) [OF bp True] d1, of ?out] show ?thesis
      unfolding step block_step(2) [OF bp True] by_disk same append_assoc map_append [symmetric] up .
  next
    case False
    have "\<not> cnt < cnt" by simp
    then show ?thesis unfolding step block_last(1) [OF bp False]
      by (subst sd_read_loop.simps) (simp add: block_last(2) [OF bp False, symmetric] d1 same)
  qed
qed

section \<open>Writing\<close>

lemma disk_store:
  assumes d: "disk_ok k sd" and mn: "a mod 2 ^ k + length ys \<le> 2 ^ k" and a: "a < 2 ^ 31" and x: "x < 2 ^ 31"
  defines "B \<equiv> (word_of_nat (a div 2 ^ k) :: u32)"
  assumes s: "sd_disk sd' = (sd_disk sd)(B := take (a mod 2 ^ k) (sd_disk sd B) @ ys @ drop (a mod 2 ^ k + length ys) (sd_disk sd B))"
  shows "disk_byte k sd' x = (if a \<le> x \<and> x < a + length ys then ys ! (x - a) else disk_byte k sd x)"
proof (cases "x div 2 ^ k = a div 2 ^ k")
  case True
  have xa: "x = a div 2 ^ k * 2 ^ k + x mod 2 ^ k" "a = a div 2 ^ k * 2 ^ k + a mod 2 ^ k"
    using True by (metis div_mult_mod_eq)+
  have iff: "a \<le> x \<longleftrightarrow> a mod 2 ^ k \<le> x mod 2 ^ k" "x < a + length ys \<longleftrightarrow> x mod 2 ^ k < a mod 2 ^ k + length ys"
    "x - a = x mod 2 ^ k - a mod 2 ^ k"
    using xa by linarith+
  have l: "length (sd_disk sd B) = 2 ^ k" "x mod 2 ^ k < 2 ^ k" using d by (simp_all add: disk_ok_def)
  show ?thesis unfolding iff disk_byte_def True s B_def [symmetric]
    using l mn by (auto simp: nth_append min_def)
next
  case False
  have out: "\<not> (a \<le> x \<and> x < a + length ys)"
  proof
    assume r: "a \<le> x \<and> x < a + length ys"
    then have "x = a div 2 ^ k * 2 ^ k + (a mod 2 ^ k + (x - a))" by (simp add: div_mult_mod_eq flip: add.assoc)
    moreover have "a mod 2 ^ k + (x - a) < 2 ^ k" using r mn by linarith
    ultimately have "x div 2 ^ k = a div 2 ^ k" by (metis div_mult_self3 div_less add_0_right power_not_zero zero_neq_numeral add.commute)
    with False show False ..
  qed
  have "x div 2 ^ k < 2 ^ 32" and "a div 2 ^ k < 2 ^ 32"
    by (rule le_less_trans [OF div_le_dividend], use a x in simp)+
  then have "unat (word_of_nat (x div 2 ^ k) :: u32) = x div 2 ^ k" and "unat B = a div 2 ^ k"
    unfolding B_def by (simp_all add: unat_of_nat_small)
  with False have "(word_of_nat (x div 2 ^ k) :: u32) \<noteq> B" by metis
  then show ?thesis unfolding disk_byte_def s using out by (simp add: if_not_P)
qed

lemma sd_write_loop_correct:
  assumes "block_pos k off st cnt pos" and "disk_ok k sd" and "length buf = unat cnt"
  shows "\<exists>sd'. sd_write_loop buf cnt off st pos sd = Some (Inr (cnt, sd')) \<and> disk_ok k sd' \<and>
     (\<forall>x < 2 ^ 31. disk_byte k sd' x =
        (if unat off \<le> x \<and> x < unat off + (unat cnt - unat pos) then buf ! (unat pos + (x - unat off))
         else disk_byte k sd x))"
  using assms
proof (induction "unat cnt - unat pos" arbitrary: off st pos sd rule: less_induct)
  case less
  let ?n = "block_n k off cnt pos" and ?c = "chunk (2 ^ k) off st cnt pos" and ?m = "unat off mod 2 ^ k"
  let ?B = "word_of_nat (unat off div 2 ^ k) :: u32" and ?ys = "take ?n (drop (unat pos) buf)"
  note bp = less.prems(1) and d = less.prems(2) and buf = less.prems(3)
  let ?sd1 = "if ?c < 2 ^ k then blk_read (st div 2 ^ k) sd else sd"
  let ?b = "take ?m (sd_disk sd ?B) @ ?ys @ drop (?m + ?n) (sd_disk sd ?B)"
  let ?sd2 = "blk_write (st div 2 ^ k) (?sd1\<lparr>sd_buf := ?b\<rparr>)"
  have nz: "(2 :: u32) ^ k \<noteq> 0" using block_facts(2) [OF bp] by (metis unat_0 power_not_zero zero_neq_numeral)
  have sz: "blksz sd = 2 ^ k" "blksz ?sd1 = 2 ^ k" "pos < cnt"
    using d bp by (auto simp: disk_ok_def blk_read_def block_pos_def)
  have ys: "length ?ys = ?n" using buf block_n_le [OF bp] by simp
  have s1: "slice (uint pos) (unat ?c) buf = Inr ?ys"
    using buf block_n_le [OF bp] by (simp add: slice_def block_chunk [OF bp])
  have full: "take ?m (sd_buf ?sd1) @ ?ys @ drop (?m + ?n) (sd_buf ?sd1) = ?b"
  proof (cases "?c < 2 ^ k")
    case True
    then show ?thesis by (simp add: blk_read_def block_number [OF bp])
  next
    case False
    then have "2 ^ k \<le> ?n" by (simp add: word_less_nat_alt block_chunk [OF bp] block_facts(2) [OF bp])
    then have "?m = 0" and "2 ^ k \<le> ?m + ?n" using block_n_mod [OF bp] by linarith+
    then show ?thesis using False d by (simp add: disk_ok_def)
  qed
  have lb: "length (sd_buf ?sd1) = 2 ^ k" using d by (simp add: disk_ok_def blk_read_def)
  have s2: "splice (sd_index off st) ?ys (sd_buf ?sd1) = Inr ?b"
    unfolding full [symmetric] using block_n_mod [OF bp]
    by (simp only: splice_def block_index [OF bp] ys lb nat_int of_nat_0_le_iff if_True simp_thms)
  have step: "sd_write_loop buf cnt off st pos sd = sd_write_loop buf cnt (st + 2 ^ k) (st + 2 ^ k) (pos + ?c) ?sd2"
    by (subst sd_write_loop.simps) (simp only: sz nz s1 s2 bindR_simps Let_def if_True if_False not_True_eq_False sum.case)
  have lenb: "length ?b = 2 ^ k" using d ys block_n_mod [OF bp] by (simp add: disk_ok_def)
  have d2: "disk_ok k ?sd2" using d lenb by (auto simp: disk_ok_def blk_write_def blk_read_def)
  have lt: "unat off < 2 ^ 31" using block_facts(4,5) [OF bp] by linarith
  have sd2: "sd_disk ?sd2 = (sd_disk sd)(?B := take ?m (sd_disk sd ?B) @ ?ys @ drop (?m + length ?ys) (sd_disk sd ?B))"
    unfolding ys by (simp add: blk_write_def blk_read_def block_number [OF bp])
  have store: "disk_byte k ?sd2 x = (if unat off \<le> x \<and> x < unat off + ?n then ?ys ! (x - unat off) else disk_byte k sd x)"
    if x: "x < 2 ^ 31" for x
    using disk_store [OF d _ lt x sd2] block_n_mod [OF bp] unfolding ys by blast
  have at: "?ys ! (x - unat off) = buf ! (unat pos + (x - unat off))" if "x < unat off + ?n" "unat off \<le> x" for x
    using that buf block_n_le [OF bp] by (simp add: less_diff_conv2)
  show ?case
  proof (cases "pos + ?c < cnt")
    case True
    have r: "unat cnt - unat (pos + ?c) = unat cnt - unat pos - ?n" by (simp add: block_advance [OF bp])
    then have sm: "unat cnt - unat (pos + ?c) < unat cnt - unat pos"
      using block_n_pos [OF bp] block_facts(4) [OF bp] by linarith
    from less.hyps [OF sm block_step(1) [OF bp True] d2 buf] obtain sd' where
      run: "sd_write_loop buf cnt (st + 2 ^ k) (st + 2 ^ k) (pos + ?c) ?sd2 = Some (Inr (cnt, sd'))"
      and ok: "disk_ok k sd'"
      and bytes: "\<forall>x < 2 ^ 31. disk_byte k sd' x =
        (if unat off + ?n \<le> x \<and> x < unat off + ?n + (unat cnt - unat pos - ?n)
         then buf ! (unat pos + ?n + (x - (unat off + ?n))) else disk_byte k ?sd2 x)"
      unfolding block_step(2) [OF bp True] block_advance [OF bp] diff_diff_eq by blast
    have "disk_byte k sd' x = (if unat off \<le> x \<and> x < unat off + (unat cnt - unat pos) then buf ! (unat pos + (x - unat off))
         else disk_byte k sd x)" if x: "x < 2 ^ 31" for x
      using bytes [rule_format, OF x] store [OF x] at [of x] block_n_le [OF bp] by (auto split: if_splits)
    with run ok show ?thesis unfolding step by blast
  next
    case False
    have bn: "?n = unat cnt - unat pos" by (rule block_last(2) [OF bp False])
    have "\<not> cnt < cnt" by simp
    then have "sd_write_loop buf cnt off st pos sd = Some (Inr (cnt, ?sd2))"
      unfolding step block_last(1) [OF bp False] by (subst sd_write_loop.simps) (simp only: not_False_eq_True if_True)
    moreover have "disk_byte k ?sd2 x = (if unat off \<le> x \<and> x < unat off + (unat cnt - unat pos)
        then buf ! (unat pos + (x - unat off)) else disk_byte k sd x)" if x: "x < 2 ^ 31" for x
      unfolding store [OF x] unfolding bn [symmetric] by (intro if_cong refl) (use at in blast)
    ultimately show ?thesis using d2 by blast
  qed
qed

section \<open>Whole transfers\<close>

lemma block_pos_start:
  assumes "k < 31" and "0 < n" and "off + n + 2 ^ k \<le> 2 ^ 31"
  shows "block_pos k (word_of_nat off) (blk_start (word_of_nat off) (2 ^ k)) (word_of_nat n) 0"
    and "unat (word_of_nat off :: u32) = off" and "unat (word_of_nat n :: u32) = n" and "sint (word_of_nat n :: u32) = int n"
proof -
  have "n < 2 ^ 31" and "off < 2 ^ 31" using assms(3) zero_less_power [of "2::nat" k] assms(2) by linarith+
  then show o: "unat (word_of_nat off :: u32) = off" and n: "unat (word_of_nat n :: u32) = n"
    by (simp_all add: unat_of_nat_small)
  from \<open>n < 2 ^ 31\<close> have "uint (word_of_nat n :: u32) = int n" by (simp add: uint_nat n del: unsigned_of_nat uint_nat [symmetric])
  then show "sint (word_of_nat n :: u32) = int n" using \<open>n < 2 ^ 31\<close> by (subst sint_small) simp_all
  show "block_pos k (word_of_nat off) (blk_start (word_of_nat off) (2 ^ k)) (word_of_nat n) 0"
    using assms unfolding block_pos_def blk_start_nat [OF assms(1)] o n word_less_nat_alt unat_0 by simp
qed

lemma sd_read_correct:
  assumes d: "disk_ok k sd" and n: "0 < n" "off + n + 2 ^ k \<le> 2 ^ 31"
  shows "\<exists>sd'. sd_read (int off) (int n) (Some sd) = Inr (int n, map (disk_byte k sd) [off..<off + n], sd') \<and>
           disk_ok k sd' \<and> sd_disk sd' = sd_disk sd"
proof -
  have k: "k < 31" "blksz sd = 2 ^ k" using d by (simp_all add: disk_ok_def)
  note start = block_pos_start [OF k(1) n]
  from sd_read_loop_correct [OF start(1) d, of "[]"] obtain sd' where
    "sd_read_loop (word_of_nat n) (word_of_nat off) (blk_start (word_of_nat off) (2 ^ k)) 0 [] sd =
       Some (Inr (map (disk_byte k sd) [off..<off + n], word_of_nat n, sd'))" and "disk_ok k sd'" "sd_disk sd' = sd_disk sd"
    unfolding start(2,3) unat_0 diff_zero append_Nil by blast
  then show ?thesis by (simp add: sd_read_def k start(4))
qed

lemma sd_write_correct:
  assumes d: "disk_ok k sd" and n: "0 < length buf" "off + length buf + 2 ^ k \<le> 2 ^ 31"
  shows "\<exists>sd'. sd_write (int off) buf (int (length buf)) (Some sd) = Inr (int (length buf), sd') \<and> disk_ok k sd' \<and>
     (\<forall>x < 2 ^ 31. disk_byte k sd' x =
        (if off \<le> x \<and> x < off + length buf then buf ! (x - off) else disk_byte k sd x))"
proof -
  have k: "k < 31" "blksz sd = 2 ^ k" using d by (simp_all add: disk_ok_def)
  note start = block_pos_start [OF k(1) n]
  from sd_write_loop_correct [OF start(1) d start(3) [symmetric]] obtain sd' where
    "sd_write_loop buf (word_of_nat (length buf)) (word_of_nat off) (blk_start (word_of_nat off) (2 ^ k)) 0 sd =
       Some (Inr (word_of_nat (length buf), sd'))" and "disk_ok k sd'"
    and "\<forall>x < 2 ^ 31. disk_byte k sd' x =
        (if off \<le> x \<and> x < off + length buf then buf ! (x - off) else disk_byte k sd x)"
    unfolding start(2,3) unat_0 diff_zero add_0 by blast
  then show ?thesis by (simp add: sd_write_def k start(4))
qed

text \<open>C12. Bytes written to the disk at any offset, across any number of blocks and from the middle of
  the first to the middle of the last one, are read back, and no other byte of the disk changes.  Both
  calls return the whole count.\<close>

theorem sd_write_read:
  assumes d: "disk_ok k sd" and n: "buf \<noteq> []" "off + length buf + 2 ^ k \<le> 2 ^ 31"
  shows "\<exists>sd' sd''. sd_write (int off) buf (int (length buf)) (Some sd) = Inr (int (length buf), sd') \<and>
     sd_read (int off) (int (length buf)) (Some sd') = Inr (int (length buf), buf, sd'') \<and> disk_ok k sd' \<and>
     (\<forall>x < 2 ^ 31. x < off \<or> off + length buf \<le> x \<longrightarrow> disk_byte k sd' x = disk_byte k sd x)"
proof -
  have n0: "0 < length buf" using n by simp
  obtain sd' where w: "sd_write (int off) buf (int (length buf)) (Some sd) = Inr (int (length buf), sd')"
    and ok: "disk_ok k sd'"
    and bytes: "\<And>x. x < 2 ^ 31 \<Longrightarrow> disk_byte k sd' x =
        (if off \<le> x \<and> x < off + length buf then buf ! (x - off) else disk_byte k sd x)"
    using sd_write_correct [OF d n0 n(2)] by blast
  have "map (disk_byte k sd') [off..<off + length buf] = buf"
    by (rule nth_equalityI) (use n(2) bytes in simp_all)
  then obtain sd'' where "sd_read (int off) (int (length buf)) (Some sd') = Inr (int (length buf), buf, sd'')"
    using sd_read_correct [OF ok n0 n(2)] by auto
  with w ok bytes show ?thesis by (intro exI [of _ sd'] exI [of _ sd'']) simp
qed

definition demo_sd :: sd_t where
  "demo_sd = \<lparr>blkcnt = 8, blksz = 2 ^ 2, sd_buf = replicate 4 0, sd_disk = (\<lambda>b. replicate 4 (ucast b))\<rparr>"

text \<open>Six bytes from the end of block 0 over block 1 into block 2.\<close>

theorem sd_write_read_witness:
  "\<exists>sd' sd''. sd_write 3 [10, 11, 12, 13, 14, 15] 6 (Some demo_sd) = Inr (6, sd') \<and>
     sd_read 3 6 (Some sd') = Inr (6, [10, 11, 12, 13, 14, 15], sd'') \<and> disk_byte 2 sd' 2 = 0 \<and> disk_byte 2 sd' 9 = 2"
proof -
  have d: "disk_ok 2 demo_sd" by (simp add: disk_ok_def demo_sd_def)
  have "disk_byte 2 demo_sd 2 = 0" "disk_byte 2 demo_sd 9 = 2" by (simp_all add: disk_byte_def demo_sd_def)
  with sd_write_read [OF d, of "[10, 11, 12, 13, 14, 15]" 3] show ?thesis by fastforce
qed

end
