(* ===== verification/Dev.thy ===== *)
theory Dev
  imports Kmt KlibProofs
begin

text \<open>
  The device table, \<open>kernel/src/dev/dev.c\<close>: creation of a device and lookup by name.  The \<open>device\<close>
  structures live in a store from addresses, the names are strings in the memory of bytes.
\<close>

datatype devops = input_ops | fb_ops | tty_ops | sd_ops

record device =
  d_name :: addr
  d_id :: int
  d_ptr :: addr
  d_ops :: devops

type_synonym dev_store = "addr \<Rightarrow> device option"

definition sizeof_device :: u64 where "sizeof_device = 32"

text \<open>The loop of \<open>dev_lookup\<close> over the rest of the array \<open>devices\<close>.\<close>

fun dev_lookup_loop :: "bytes \<Rightarrow> dev_store \<Rightarrow> addr \<Rightarrow> addr list \<Rightarrow> addr result" where
  "dev_lookup_loop m ds name [] = Inl Panic"
| "dev_lookup_loop m ds name (p # ps) =
     (case ds p of None \<Rightarrow> Inl Null_Deref
      | Some d \<Rightarrow>
          bindR (strcmp m (d_name d) name) (\<lambda>r.
          if r = 0 then Inr p else dev_lookup_loop m ds name ps))"

definition dev_lookup :: "bytes \<Rightarrow> dev_store \<Rightarrow> addr list \<Rightarrow> addr \<Rightarrow> addr result" where
  "dev_lookup m ds devices name = dev_lookup_loop m ds name devices"

definition dev_create ::
    "nat \<Rightarrow> u64 \<Rightarrow> addr \<Rightarrow> int \<Rightarrow> devops \<Rightarrow> dev_store \<times> kernel \<Rightarrow> (addr \<times> dev_store \<times> kernel) result" where
  "dev_create c sz name id_no ops = (\<lambda>(ds, s).
     bindR (kernel_alloc c sizeof_device s) (\<lambda>(dev, s1).
     bindR (kernel_alloc c sz s1) (\<lambda>(p, s2).
     bindR (guardR Null_Deref (dev \<noteq> NULL)) (\<lambda>_.
     Inr (dev, ds(dev \<mapsto> \<lparr>d_name = name, d_id = id_no, d_ptr = p, d_ops = ops\<rparr>), s2)))))"

text \<open>
  \<open>dev_init\<close>.  \<open>names\<close> are the addresses of the names, \<open>szof\<close> those of the structures and \<open>ini\<close> the
  \<open>init\<close> of the operations of a device, which the theories of the devices define; \<open>junk\<close> is what the
  memory of a new task holds.
\<close>

definition DEVICES :: "(nat \<times> devops \<times> string \<times> int) list" where
  "DEVICES = [(0, input_ops, ''input'', 1), (1, fb_ops, ''fb'', 1), (2, tty_ops, ''tty1'', 1), (3, tty_ops, ''tty2'', 2), (4, sd_ops, ''sda'', 1)]"

fun dev_init_loop :: "nat \<Rightarrow> (string \<Rightarrow> addr) \<Rightarrow> (devops \<Rightarrow> u64) \<Rightarrow> (devops \<Rightarrow> addr \<Rightarrow> dev_store \<times> kernel \<Rightarrow> (dev_store \<times> kernel) result) \<Rightarrow>
    (nat \<times> devops \<times> string \<times> int) list \<Rightarrow> addr list \<Rightarrow> dev_store \<times> kernel \<Rightarrow> (addr list \<times> dev_store \<times> kernel) result" where
  "dev_init_loop c names szof ini [] devices st = Inr (devices, st)"
| "dev_init_loop c names szof ini ((i, ops, name, id_no) # rest) devices st =
     bindR (dev_create c (szof ops) (names name) id_no ops st) (\<lambda>(dev, st).
     bindR (arr_set devices i dev) (\<lambda>devices.
     bindR (ini ops dev st) (\<lambda>st.
     dev_init_loop c names szof ini rest devices st)))"

definition new_thread :: "addr \<Rightarrow> nat \<Rightarrow> (addr \<Rightarrow> task) \<Rightarrow> string \<Rightarrow> addr \<Rightarrow> kernel \<Rightarrow> kernel result" where
  "new_thread start c junk name entry s =
     bindR (kernel_alloc c sizeof_task s) (\<lambda>(p, s).
     bindR (guardR Null_Deref (p \<noteq> NULL)) (\<lambda>_.
     bindR (kcreate start c p name entry 0 (s\<lparr>tasks := (tasks s)(p \<mapsto> junk p)\<rparr>)) (\<lambda>(r, s). Inr s)))"

definition dev_init :: "addr \<Rightarrow> nat \<Rightarrow> (addr \<Rightarrow> task) \<Rightarrow> (string \<Rightarrow> addr) \<Rightarrow> (devops \<Rightarrow> u64) \<Rightarrow>
    (devops \<Rightarrow> addr \<Rightarrow> dev_store \<times> kernel \<Rightarrow> (dev_store \<times> kernel) result) \<Rightarrow> addr \<Rightarrow> addr \<Rightarrow> dev_store \<times> kernel \<Rightarrow>
    (addr list \<times> dev_store \<times> kernel) result" where
  "dev_init start c junk names szof ini input_task tty_task st =
     bindR (dev_init_loop c names szof ini DEVICES (replicate (length DEVICES) NULL) st) (\<lambda>(devices, ds, s).
     bindR (new_thread start c junk ''input-task'' input_task s) (\<lambda>s.
     bindR (new_thread start c junk ''tty-task'' tty_task s) (\<lambda>s.
     Inr (devices, ds, s))))"

text \<open>The loop fills the slots of its entries in order and keeps the others.\<close>

lemma dev_init_loop_slots:
  "dev_init_loop c names szof ini es devices st = Inr (devices', st') \<Longrightarrow>
    length devices' = length devices \<and> (\<forall>e\<in>set es. fst e < length devices) \<and>
    (\<forall>i. i \<notin> fst ` set es \<longrightarrow> devices' ! i = devices ! i)"
proof (induction es arbitrary: devices st)
  case (Cons e es)
  obtain i ops name id_no where e: "e = (i, ops, name, id_no)" by (cases e)
  obtain dev st1 devices1 st2 where *: "arr_set devices i dev = Inr devices1"
    "dev_init_loop c names szof ini es devices1 st2 = Inr (devices', st')"
    using Cons.prems by (auto simp: e bindR_Inr_iff split: prod.splits)
  from *(1) have "i < length devices" "devices1 = devices[i := dev]" by (simp_all add: arr_set_Inr)
  then show ?case using Cons.IH [OF *(2)] by (auto simp: e)
qed simp

text \<open>
  A lookup returns the first device with the name; a name that no device has is a panic.  The names
  are ASCII strings, \<open>nm p\<close> that of the device at \<open>p\<close>.
\<close>

definition ascii_at :: "bytes \<Rightarrow> addr \<Rightarrow> u8 list \<Rightarrow> bool" where
  "ascii_at m a xs \<longleftrightarrow> a \<noteq> NULL \<and> cstr m a xs \<and> (\<forall>x\<in>set xs. x < 128)"

lemma strcmp_zero:
  assumes "ascii_at m a xs" and "ascii_at m b ys"
  shows "\<exists>r. strcmp m a b = Inr r \<and> (r = 0 \<longleftrightarrow> xs = ys)"
proof -
  have "\<forall>x\<in>set xs \<union> set ys. x < 128" using assms by (auto simp: ascii_at_def)
  then have "strcmp m a b = Inr (if xs = ys then 0 else if xs < ys then -1 else 1)"
    using assms strcmp_loop_ok [of m a xs b ys] by (simp add: ascii_at_def strcmp_def)
  then show ?thesis by (intro exI conjI) (assumption, simp)
qed

lemma dev_lookup_first:
  assumes "ascii_at m name xs"
    and "\<forall>p\<in>set ps. \<exists>d. ds p = Some d \<and> ascii_at m (d_name d) (nm p)"
  shows "dev_lookup m ds ps name = (case find (\<lambda>p. nm p = xs) ps of None \<Rightarrow> Inl Panic | Some p \<Rightarrow> Inr p)"
  unfolding dev_lookup_def using assms(2)
proof (induction ps)
  case (Cons p ps)
  then obtain d where d: "ds p = Some d" "ascii_at m (d_name d) (nm p)" by auto
  from strcmp_zero [OF d(2) assms(1)] Cons d(1) show ?case by (auto simp: outcome)
qed simp

end
