(* ===== verification/Int64.thy ===== *)
theory Int64
  imports Prelude "HOL-Library.Signed_Division"
begin

text \<open>
  The 64-bit arithmetic of \<open>klib/src/int64.c\<close>, which the compiler calls on 32-bit machines: division and
  remainder, signed and unsigned, and the counts of leading and trailing zeros.  The union \<open>udwords\<close>
  (and \<open>dwords\<close>) is a 64-bit word with its two halves.
\<close>

section \<open>Halves\<close>

definition lo :: "u64 \<Rightarrow> u32" where "lo w = ucast w"

definition hi :: "u64 \<Rightarrow> u32" where "hi w = ucast (drop_bit 32 w)"

definition udwords :: "u32 \<Rightarrow> u32 \<Rightarrow> u64" where
  "udwords h l = push_bit 32 (ucast h) OR ucast l"

section \<open>What the compiler provides\<close>

text \<open>
  \<open>__builtin_clz\<close> and \<open>__builtin_ctz\<close>, by the number of binary digits and the number of factors 2;
  both are undefined at 0, where the code does not call them.
\<close>

fun bit_len :: "nat \<Rightarrow> nat" where
  "bit_len n = (if n = 0 then 0 else Suc (bit_len (n div 2)))"

fun factors2 :: "nat \<Rightarrow> nat" where
  "factors2 n = (if n = 0 \<or> odd n then 0 else Suc (factors2 (n div 2)))"

declare bit_len.simps [simp del] factors2.simps [simp del]

definition builtin_clz :: "u32 \<Rightarrow> u32" where
  "builtin_clz x = word_of_nat (32 - bit_len (unat x))"

definition builtin_ctz :: "u32 \<Rightarrow> u32" where
  "builtin_ctz x = word_of_nat (factors2 (unat x))"

section \<open>Unsigned division\<close>

text \<open>\<open>q.all = n.all << (64 - sr)\<close> and \<open>r.all = n.all >> sr\<close>, for \<open>0 < sr < 32\<close>, \<open>sr = 32\<close> and above.\<close>

definition shift_below :: "u32 \<Rightarrow> u64 \<Rightarrow> u64 \<times> u64" where
  "shift_below sr n =
     (udwords (push_bit (unat (32 - sr)) (lo n)) 0,
      udwords (drop_bit (unat sr) (hi n)) (push_bit (unat (32 - sr)) (hi n) OR drop_bit (unat sr) (lo n)))"

definition shift_half :: "u64 \<Rightarrow> u64 \<times> u64" where
  "shift_half n = (udwords (lo n) 0, udwords 0 (hi n))"

definition shift_above :: "u32 \<Rightarrow> u64 \<Rightarrow> u64 \<times> u64" where
  "shift_above sr n =
     (udwords (push_bit (unat (64 - sr)) (hi n) OR drop_bit (unat (sr - 32)) (lo n)) (push_bit (unat (64 - sr)) (lo n)),
      udwords 0 (drop_bit (unat (sr - 32)) (hi n)))"

text \<open>One round of the loop: shift \<open>r:q\<close> left by one bit and subtract \<open>d\<close> if it fits.\<close>

definition udiv_round :: "u64 \<Rightarrow> u64 \<times> u64 \<times> u32 \<Rightarrow> u64 \<times> u64 \<times> u32" where
  "udiv_round d = (\<lambda>(q, r, carry).
     let rh = push_bit 1 (hi r) OR drop_bit 31 (lo r);
         rl = push_bit 1 (lo r) OR drop_bit 31 (hi q);
         qh = push_bit 1 (hi q) OR drop_bit 31 (lo q);
         ql = push_bit 1 (lo q) OR carry;
         r1 = udwords rh rl;
         s = signed_drop_bit 63 (d - r1 - 1)
     in (udwords qh ql, r1 - (d AND s), lo (s AND 1)))"

fun udiv_loop :: "nat \<Rightarrow> u64 \<Rightarrow> u64 \<times> u64 \<times> u32 \<Rightarrow> u64 \<times> u64" where
  "udiv_loop 0 d (q, r, carry) = (push_bit 1 q OR ucast carry, r)"
| "udiv_loop (Suc sr) d st = udiv_loop sr d (udiv_round d st)"

definition udiv_run :: "u32 \<Rightarrow> u64 \<Rightarrow> u64 \<times> u64 \<Rightarrow> (u64 \<times> u64) result" where
  "udiv_run sr d qr = Inr (udiv_loop (unat sr) d (fst qr, snd qr, 0))"

text \<open>The divisors with one low digit, with no low digit and with two digits, for a numerator of two.\<close>

definition udiv_by_low :: "u64 \<Rightarrow> u64 \<Rightarrow> (u64 \<times> u64) result" where
  "udiv_by_low n d =
     (if lo d AND (lo d - 1) = 0 then
        if lo d = 1 then Inr (n, ucast (lo n AND (lo d - 1)))
        else
          let sr = builtin_ctz (lo d) in
          Inr (udwords (drop_bit (unat sr) (hi n)) (push_bit (unat (32 - sr)) (hi n) OR drop_bit (unat sr) (lo n)),
               ucast (lo n AND (lo d - 1)))
      else
        let sr = 1 + 32 + builtin_clz (lo d) - builtin_clz (hi n) in
        udiv_run sr d (if sr = 32 then shift_half n else if sr < 32 then shift_below sr n else shift_above sr n))"

definition udiv_by_high :: "u64 \<Rightarrow> u64 \<Rightarrow> (u64 \<times> u64) result" where
  "udiv_by_high n d =
     (if hi d = 0 then Inl Undefined_Behaviour
      else if lo n = 0 then Inr (ucast (hi n div hi d), udwords (hi n mod hi d) 0)
      else if hi d AND (hi d - 1) = 0 then
        Inr (ucast (drop_bit (unat (builtin_ctz (hi d))) (hi n)), udwords (hi n AND (hi d - 1)) (lo n))
      else
        let sr = builtin_clz (hi d) - builtin_clz (hi n) in
        if sr > 30 then Inr (0, n) else udiv_run (sr + 1) d (shift_below (sr + 1) n))"

definition udiv_by_both :: "u64 \<Rightarrow> u64 \<Rightarrow> (u64 \<times> u64) result" where
  "udiv_by_both n d =
     (let sr = builtin_clz (hi d) - builtin_clz (hi n) in
      if sr > 31 then Inr (0, n)
      else udiv_run (sr + 1) d (if sr + 1 = 32 then shift_half n else shift_below (sr + 1) n))"

text \<open>Quotient and remainder; the remainder is stored only when \<open>rem\<close> is not NULL.\<close>

definition udivmoddi4 :: "u64 \<Rightarrow> u64 \<Rightarrow> (u64 \<times> u64) result" where
  "udivmoddi4 n d =
     (if hi n = 0 then
        if hi d = 0 then
          bindR (guardR Undefined_Behaviour (lo d \<noteq> 0)) (\<lambda>_. Inr (ucast (lo n div lo d), ucast (lo n mod lo d)))
        else Inr (0, ucast (lo n))
      else if lo d = 0 then udiv_by_high n d
      else if hi d = 0 then udiv_by_low n d
      else udiv_by_both n d)"

definition udivdi3 :: "u64 \<Rightarrow> u64 \<Rightarrow> u64 result" where
  "udivdi3 a b = bindR (udivmoddi4 a b) (\<lambda>(q, r). Inr q)"

definition umoddi3 :: "u64 \<Rightarrow> u64 \<Rightarrow> u64 result" where
  "umoddi3 a b = bindR (udivmoddi4 a b) (\<lambda>(q, r). Inr r)"

section \<open>Signed division\<close>

text \<open>\<open>s = x >> 63\<close>, and \<open>(x ^ s) - s\<close> in signed arithmetic, which overflows at the smallest number.\<close>

definition sign_mask :: "u64 \<Rightarrow> u64" where
  "sign_mask x = signed_drop_bit 63 x"

definition negate_if :: "u64 \<Rightarrow> u64 \<Rightarrow> u64 result" where
  "negate_if s x =
     (if sint (x XOR s) - sint s < 2 ^ 63 \<and> - (2 ^ 63) \<le> sint (x XOR s) - sint s then Inr ((x XOR s) - s)
      else Inl Undefined_Behaviour)"

definition divdi3 :: "u64 \<Rightarrow> u64 \<Rightarrow> u64 result" where
  "divdi3 a b =
     (let sa = sign_mask a; sb = sign_mask b in
      bindR (negate_if sa a) (\<lambda>a'.
      bindR (negate_if sb b) (\<lambda>b'.
      let s = sa XOR sb in
      bindR (udivmoddi4 a' b') (\<lambda>(q, _). Inr ((q XOR s) - s)))))"

definition divmoddi4 :: "u64 \<Rightarrow> u64 \<Rightarrow> (u64 \<times> u64) result" where
  "divmoddi4 a b =
     bindR (divdi3 a b) (\<lambda>d.
     bindR (guardR Undefined_Behaviour (- (2 ^ 63) \<le> sint d * sint b \<and> sint d * sint b < 2 ^ 63 \<and>
              - (2 ^ 63) \<le> sint a - sint d * sint b \<and> sint a - sint d * sint b < 2 ^ 63)) (\<lambda>_.
     Inr (d, a - d * b)))"

definition moddi3 :: "u64 \<Rightarrow> u64 \<Rightarrow> u64 result" where
  "moddi3 a b =
     bindR (negate_if (sign_mask b) b) (\<lambda>b'.
     let s = sign_mask a in
     bindR (negate_if s a) (\<lambda>a'.
     bindR (udivmoddi4 a' b') (\<lambda>(_, r). negate_if s r)))"

section \<open>Counting zeros\<close>

text \<open>One of the three halving steps, \<open>(x & mask) == 0\<close> and the shifts.\<close>

definition zero_step :: "u32 \<Rightarrow> u32 \<Rightarrow> nat \<Rightarrow> nat" where
  "zero_step msk x k = (if x AND msk = 0 then 2 ^ k else 0)"

definition clzsi2 :: "u32 \<Rightarrow> u32" where
  "clzsi2 x0 =
     (let t1 = zero_step 0xFFFF0000 x0 4; x1 = drop_bit (16 - t1) x0;
          t2 = zero_step 0xFF00 x1 3; x2 = drop_bit (8 - t2) x1;
          t3 = zero_step 0xF0 x2 2; x3 = drop_bit (4 - t3) x2;
          t4 = zero_step 0xC x3 1; x4 = drop_bit (2 - t4) x3;
          r = word_of_nat t1 + word_of_nat t2 + word_of_nat t3 + word_of_nat t4
      in r + ((2 - x4) AND (- (if x4 AND 2 = 0 then 1 else 0))))"

definition ctzsi2 :: "u32 \<Rightarrow> u32" where
  "ctzsi2 x0 =
     (let t1 = zero_step 0x0000FFFF x0 4; x1 = drop_bit t1 x0;
          t2 = zero_step 0x00FF x1 3; x2 = drop_bit t2 x1;
          t3 = zero_step 0x0F x2 2; x3 = drop_bit t3 x2;
          t4 = zero_step 0x3 x3 1; x4 = drop_bit t4 x3 AND 3;
          r = word_of_nat t1 + word_of_nat t2 + word_of_nat t3 + word_of_nat t4
      in r + ((2 - drop_bit 1 x4) AND (- (if x4 AND 1 = 0 then 1 else 0))))"

definition ctzdi2 :: "u64 \<Rightarrow> u32" where
  "ctzdi2 a =
     (let f = - (if lo a = 0 then 1 else 0) in
      ctzsi2 ((hi a AND f) OR (lo a AND NOT f)) + (f AND 32))"

definition clzdi2 :: "u64 \<Rightarrow> u32" where
  "clzdi2 a =
     (let f = - (if hi a = 0 then 1 else 0) in
      clzsi2 ((hi a AND NOT f) OR (lo a AND f)) + (f AND 32))"

end
