(* ===== verification/Int64Proofs.thy ===== *)
theory Int64Proofs
  imports Int64
begin

text \<open>
  Division by shifting and subtracting is division: the loop of \<open>__udivmoddi4\<close> keeps, with \<open>k\<close> rounds
  to go, \<open>r = (n >> k) mod d\<close> and the quotient of \<open>n >> k\<close> in the low bits of \<open>q\<close> and in \<open>carry\<close>.
\<close>

section \<open>Halves\<close>

named_theorems halves \<open>bits of the halves of a 64-bit word\<close>

lemma bit_lo [halves]: "bit (lo w) i \<longleftrightarrow> i < 32 \<and> bit w i"
  by (auto simp: lo_def bit_simps)

lemma bit_hi [halves]: "bit (hi w) i \<longleftrightarrow> i < 32 \<and> bit w (i + 32)"
  by (auto simp: hi_def bit_simps add.commute)

lemma bit_udwords [halves]:
  "bit (udwords h l) i \<longleftrightarrow> i < 64 \<and> (if i < 32 then bit l i else bit h (i - 32))"
  by (auto simp: udwords_def bit_simps dest: bit_imp_le_length)

lemma udwords_halves [simp]: "udwords (hi w) (lo w) = w"
  by (rule bit_word_eqI) (auto simp: halves bit_simps)

lemma halves_udwords [simp]: "lo (udwords h l) = l" "hi (udwords h l) = h"
  by (rule bit_word_eqI; auto simp: halves bit_simps)+

lemma unat_lo: "unat (lo w) = unat w mod 2 ^ 32"
  by (simp add: lo_def unsigned_ucast_eq take_bit_eq_mod)

lemma unat_hi: "unat (hi w) = unat w div 2 ^ 32"
proof -
  have "unat w < 2 ^ 64" using unsigned_less [of w, where ?'a = nat] by simp
  then have "unat w div 2 ^ 32 < 2 ^ 32" by (simp add: less_mult_imp_div_less)
  then show ?thesis by (simp add: hi_def unsigned_ucast_eq take_bit_eq_mod drop_bit_eq_div unat_div)
qed

lemma unat_ucast64 [simp]: "unat (ucast (c :: u32) :: u64) = unat c"
proof -
  have "unat c < 2 ^ 32" using unsigned_less [of c, where ?'a = nat] by simp
  then show ?thesis by (simp add: unsigned_ucast_eq take_bit_eq_mod)
qed

lemma unat_udwords: "unat (udwords h l) = unat h * 2 ^ 32 + unat l"
  using div_mult_mod_eq [of "unat (udwords h l)" "2 ^ 32"] unat_lo [of "udwords h l"] unat_hi [of "udwords h l"] by simp

section \<open>Binary digits\<close>

lemma bit_len_0 [simp]: "bit_len 0 = 0"
  by (simp add: bit_len.simps)

lemma bit_len_pos: "n \<noteq> 0 \<Longrightarrow> bit_len n = Suc (bit_len (n div 2))"
  by (simp add: bit_len.simps)

lemma bit_len_upper: "n < 2 ^ bit_len n"
proof (induction n rule: bit_len.induct)
  case (1 n)
  then show ?case by (cases "n = 0") (simp_all add: bit_len_pos)
qed

lemma bit_len_lower: "n \<noteq> 0 \<Longrightarrow> 2 ^ (bit_len n - 1) \<le> n"
proof (induction n rule: bit_len.induct)
  case (1 n)
  show ?case
  proof (cases "n div 2 = 0")
    case True
    then show ?thesis using 1(2) by (simp add: bit_len_pos)
  next
    case False
    then have "2 ^ (bit_len (n div 2) - 1) \<le> n div 2" using 1 by simp
    then show ?thesis using 1(2) False by (simp add: bit_len_pos [of n] bit_len_pos [of "n div 2"])
  qed
qed

lemma bit_len_less: "n < 2 ^ k \<Longrightarrow> bit_len n \<le> k"
proof (rule ccontr)
  assume "n < 2 ^ k" and "\<not> bit_len n \<le> k"
  then have "n \<noteq> 0" by (metis bit_len_0 le0)
  have "(2::nat) ^ k \<le> 2 ^ (bit_len n - 1)" using \<open>\<not> bit_len n \<le> k\<close> by (intro power_increasing) auto
  with bit_len_lower [OF \<open>n \<noteq> 0\<close>] \<open>n < 2 ^ k\<close> show False by linarith
qed

lemma bit_len_mono_less: "bit_len m < bit_len n \<Longrightarrow> m < n"
proof -
  assume lt: "bit_len m < bit_len n"
  then have "n \<noteq> 0" by (metis bit_len_0 not_less0)
  have "(2::nat) ^ bit_len m \<le> 2 ^ (bit_len n - 1)" using lt by (intro power_increasing) auto
  with bit_len_upper [of m] bit_len_lower [OF \<open>n \<noteq> 0\<close>] show ?thesis by linarith
qed

lemma bit_len_div: "bit_len (n div 2 ^ k) = bit_len n - k"
proof (induction k arbitrary: n)
  case (Suc k)
  have "n div 2 ^ Suc k = n div 2 div 2 ^ k" by (simp add: div_mult2_eq)
  then show ?case using Suc.IH [of "n div 2"] by (cases "n = 0") (simp_all add: bit_len_pos)
qed simp

lemma bit_len_word: "bit_len (unat (w :: 'a::len word)) \<le> LENGTH('a)"
  by (rule bit_len_less) (rule unsigned_less)

section \<open>The loop\<close>

lemma round_shift:
  "udwords (push_bit 1 (hi r) OR drop_bit 31 (lo r)) (push_bit 1 (lo r) OR drop_bit 31 (hi q)) =
     push_bit 1 r OR drop_bit 63 q"
  "udwords (push_bit 1 (hi q) OR drop_bit 31 (lo q)) (push_bit 1 (lo q) OR c) = push_bit 1 q OR ucast c"
  by (rule bit_word_eqI, auto simp: halves bit_simps Suc_le_eq simp del: push_bit_Suc dest: bit_imp_le_length)+

text \<open>A round in numbers, where the sign of \<open>d - r - 1\<close> is the comparison of \<open>r\<close> with \<open>d\<close>.\<close>

lemma sign_compare:
  fixes d r :: u64
  assumes "unat r < unat d + 2 ^ 63" and "unat d \<le> unat r + 2 ^ 63"
  shows "signed_drop_bit 63 (d - r - 1) = (if d \<le> r then -1 else 0)"
proof -
  have "bit (d - r - 1) 63 \<longleftrightarrow> d \<le> r"
  proof (cases "d \<le> r")
    case True
    have "unat (r - d) = unat r - unat d" using True unat_sub by blast
    then have lt: "unat (r - d) < 2 ^ 63" using assms(1) True by (simp add: word_le_nat_alt)
    have "d - r - 1 = NOT (r - d)" by (simp add: not_eq_complement)
    moreover have "\<not> bit (r - d) 63"
    proof -
      have "drop_bit 63 (unat (r - d)) = 0" using lt by (simp add: drop_bit_eq_div)
      then have "\<not> bit (unat (r - d)) 63" by (simp add: bit_iff_odd_drop_bit)
      then show ?thesis by (simp add: bit_unsigned_iff)
    qed
    ultimately show ?thesis using True by (simp add: bit_simps)
  next
    case False
    then have gt: "r < d" by simp
    have "unat (d - r) = unat d - unat r" using gt unat_sub [of r d] by (simp add: order.strict_implies_order)
    moreover have "d - r \<noteq> 0" using gt by auto
    ultimately have "unat (d - r - 1) = unat d - unat r - 1" by (simp add: unat_minus_one)
    then have lt: "unat (d - r - 1) < 2 ^ 63" using assms(2) gt by (simp add: word_less_nat_alt)
    have "drop_bit 63 (unat (d - r - 1)) = 0" using lt by (simp add: drop_bit_eq_div)
    then have "\<not> bit (unat (d - r - 1)) 63" by (simp add: bit_iff_odd_drop_bit)
    then show ?thesis using False by (simp add: bit_unsigned_iff)
  qed
  then show ?thesis
    by (intro bit_word_eqI) (auto simp: bit_simps min_def Suc_le_eq split: if_splits)
qed

lemma udiv_round_eq:
  assumes r1: "r1 = push_bit 1 r OR drop_bit 63 q"
    and "unat r1 < unat d + 2 ^ 63" and "unat d \<le> unat r1 + 2 ^ 63"
  shows "udiv_round d (q, r, c) =
    (push_bit 1 q OR ucast c, if d \<le> r1 then r1 - d else r1, if d \<le> r1 then 1 else 0)"
proof -
  have l: "lo 1 = 1" "lo 0 = 0" by (simp_all add: lo_def)
  have u: "udwords (push_bit 1 (hi r) OR drop_bit 31 (lo r)) (push_bit 1 (lo r) OR drop_bit 31 (hi q)) = r1"
    unfolding r1 by (rule round_shift(1))
  show ?thesis
    unfolding udiv_round_def Let_def prod.case u round_shift(2) [of q c] sign_compare [OF assms(2,3)] by (simp add: l)
qed

lemma shift_or_nat:
  assumes "unat x < 2"
  shows "unat (push_bit 1 r OR x) = 2 * unat (r :: u64) mod 2 ^ 64 + unat x"
proof -
  have x: "x = of_bool (bit x 0)"
  proof -
    have "unat x = 0 \<or> unat x = 1" using assms by auto
    then have "x = 0 \<or> x = 1" by (metis unat_0 unat_1 word_unat_eq_iff)
    then show ?thesis by auto
  qed
  have "push_bit 1 r AND x = 0" by (subst x) (rule bit_word_eqI, auto simp: bit_simps simp del: push_bit_Suc)
  then have or: "push_bit 1 r OR x = push_bit 1 r + x" by (simp only: disjunctive_add_eq_or)
  have e: "unat (push_bit 1 r) = 2 * unat r mod 2 ^ 64"
    unfolding unsigned_push_bit_eq take_bit_eq_mod by (simp add: push_bit_eq_mult mult.commute)
  have "even (2 * unat r mod 2 ^ 64)" by (simp add: dvd_mod)
  moreover have lt: "2 * unat r mod 2 ^ 64 < 2 ^ 64" by simp
  moreover have "odd ((2::nat) ^ 64 - 1)" by simp
  ultimately have "2 * unat r mod 2 ^ 64 \<noteq> 2 ^ 64 - 1" by metis
  then have "unat (push_bit 1 r) + unat x < 2 ^ LENGTH(64)" using assms lt unfolding e by simp
  then have "unat (push_bit 1 r + x) = unat (push_bit 1 r) + unat x" by (rule unat_add_lem [THEN iffD1])
  then show ?thesis unfolding or e .
qed

lemma udiv_nat_step:
  fixes N D k :: nat
  assumes "0 < D" and k: "k < 63" and N: "N < 2 ^ 64"
  defines "m \<equiv> N div 2 ^ Suc k" and "b \<equiv> N div 2 ^ k mod 2"
  defines "r \<equiv> m mod D" and "P \<equiv> m div D"
  defines "q \<equiv> N mod 2 ^ Suc k * 2 ^ (63 - k) + P div 2"
  shows "q div 2 ^ 63 = b" and "N div 2 ^ k mod D = (if D \<le> 2 * r + b then 2 * r + b - D else 2 * r + b)"
    and "N div 2 ^ k div D = 2 * P + (if D \<le> 2 * r + b then 1 else 0)"
    and "2 * q mod 2 ^ 64 + P mod 2 = N mod 2 ^ k * 2 ^ (64 - k) + P"
proof -
  have pw: "(2::nat) ^ 63 = 2 ^ k * 2 ^ (63 - k)" "(2::nat) ^ 64 = 2 ^ k * 2 ^ (64 - k)" "(2::nat) ^ (64 - k) = 2 * 2 ^ (63 - k)"
    using k by (simp_all add: Suc_diff_le flip: power_add power_Suc)
  have m2: "m = N div 2 ^ k div 2" unfolding m_def power_Suc2 by (rule div_mult2_eq)
  have nk: "N div 2 ^ k = 2 * m + b" unfolding b_def m2 by simp
  have "(2::nat) ^ (63 - k) * 2 ^ Suc k = 2 ^ 64" using k by (simp only: power_add [symmetric]) simp
  then have "m < 2 ^ (63 - k)" unfolding m_def using N by (intro less_mult_imp_div_less) metis
  then have P: "P < 2 ^ (63 - k)" unfolding P_def by (rule le_less_trans [OF div_le_dividend])
  then have P2: "P div 2 < 2 ^ (63 - k)" by (rule le_less_trans [OF div_le_dividend])
  have low: "N mod 2 ^ Suc k = b * 2 ^ k + N mod 2 ^ k"
    unfolding b_def power_Suc2 mod_mult2_eq by (simp only: mult.commute)
  have "q div 2 ^ (63 - k) = N mod 2 ^ Suc k" unfolding q_def using P2 by simp
  then have "q div 2 ^ 63 = N mod 2 ^ Suc k div 2 ^ k" unfolding pw(1) by (simp only: div_mult2_eq mult.commute [of "2 ^ k"])
  then show "q div 2 ^ 63 = b" unfolding low by simp
  have rD: "r < D" "b < 2" using assms(1) by (simp_all add: r_def b_def)
  have "m = P * D + r" unfolding P_def r_def by simp
  then have eq: "N div 2 ^ k = (2 * P) * D + (2 * r + b)" unfolding nk by simp
  have "2 * r + b < 2 * D" using rD by linarith
  then show "N div 2 ^ k mod D = (if D \<le> 2 * r + b then 2 * r + b - D else 2 * r + b)"
    and "N div 2 ^ k div D = 2 * P + (if D \<le> 2 * r + b then 1 else 0)"
    using assms(1) unfolding eq by (simp_all add: le_mod_geq le_div_geq)
  have "N mod 2 ^ k + 1 \<le> 2 ^ k" by (simp add: Suc_leI)
  then have "(N mod 2 ^ k + 1) * 2 ^ (64 - k) \<le> 2 ^ k * 2 ^ (64 - k)" by (rule mult_right_mono) simp
  then have "N mod 2 ^ k * 2 ^ (64 - k) + 2 ^ (64 - k) \<le> 2 ^ 64" by (simp only: pw(2) add_mult_distrib mult_1)
  moreover have "2 * (P div 2) < 2 ^ (64 - k)" using P pw(3) by linarith
  ultimately have bound: "N mod 2 ^ k * 2 ^ (64 - k) + 2 * (P div 2) < 2 ^ 64" by linarith
  have "2 * q = b * 2 ^ 64 + (N mod 2 ^ k * 2 ^ (64 - k) + 2 * (P div 2))"
    unfolding q_def low pw(2,3) by (simp add: algebra_simps)
  then have "2 * q mod 2 ^ 64 = N mod 2 ^ k * 2 ^ (64 - k) + 2 * (P div 2)" using bound by simp
  then show "2 * q mod 2 ^ 64 + P mod 2 = N mod 2 ^ k * 2 ^ (64 - k) + P" by simp
qed

text \<open>The invariant, and that a round keeps it.\<close>

definition udiv_inv :: "nat \<Rightarrow> nat \<Rightarrow> nat \<Rightarrow> u64 \<times> u64 \<times> u32 \<Rightarrow> bool" where
  "udiv_inv k N D = (\<lambda>(q, r, c). unat r = N div 2 ^ k mod D \<and> unat c = N div 2 ^ k div D mod 2 \<and>
     unat q = N mod 2 ^ k * 2 ^ (64 - k) + N div 2 ^ k div D div 2)"

lemma udiv_round_inv:
  assumes inv: "udiv_inv (Suc k) N (unat d) (q, r, c)" and k: "k < 63" and N: "N < 2 ^ 64" and d: "0 < unat d"
    and big: "unat d \<le> 2 ^ 63 \<or> k = 0 \<and> 2 ^ 63 \<le> N"
  shows "udiv_inv k N (unat d) (udiv_round d (q, r, c))"
proof -
  let ?b = "N div 2 ^ k mod 2" and ?r1 = "push_bit 1 r OR drop_bit 63 q" and ?D = "unat d"
  have q: "unat q = N mod 2 ^ Suc k * 2 ^ (63 - k) + N div 2 ^ Suc k div ?D div 2"
    and r: "unat r = N div 2 ^ Suc k mod ?D" and c: "unat c = N div 2 ^ Suc k div ?D mod 2"
    using inv by (simp_all add: udiv_inv_def)
  note st = udiv_nat_step [OF d k N, folded r q]
  have x: "unat (drop_bit 63 q) = ?b" unfolding trans [OF unat_drop_bit_eq drop_bit_eq_div] by (rule st(1))
  have rd: "unat r < ?D" using d by (simp add: r)
  have b: "?b < 2" and pw: "(2::nat) ^ 64 = 2 * 2 ^ 63" by simp_all
  have r1b: "2 * unat r + ?b < 2 ^ 64 \<and> 2 * unat r + ?b < ?D + 2 ^ 63 \<and> ?D \<le> 2 * unat r + ?b + 2 ^ 63"
  proof (cases "?D \<le> 2 ^ 63")
    case True
    then show ?thesis using rd b pw by (intro conjI; linarith)
  next
    case False
    then have "k = 0" "2 ^ 63 \<le> N" using big by simp_all
    moreover have "N div 2 < ?D" using False N pw by linarith
    ultimately have "2 * unat r + ?b = N" unfolding r by simp
    moreover have "?D < 2 ^ 64" using unsigned_less [of d, where ?'a = nat] by simp
    ultimately show ?thesis using False N \<open>2 ^ 63 \<le> N\<close> pw by (intro conjI; linarith)
  qed
  then have r1: "unat ?r1 = 2 * unat r + ?b" using shift_or_nat [of "drop_bit 63 q" r] unfolding x by simp
  have cmp: "d \<le> ?r1 \<longleftrightarrow> ?D \<le> 2 * unat r + ?b" unfolding word_le_nat_alt r1 ..
  have sub: "unat (?r1 - d) = 2 * unat r + ?b - ?D" if "d \<le> ?r1" using unat_sub [OF that] unfolding r1 .
  have c2: "unat c < 2" unfolding c by simp
  have q2: "unat (push_bit 1 q OR ucast c) = N mod 2 ^ k * 2 ^ (64 - k) + N div 2 ^ Suc k div ?D"
    using shift_or_nat [of "ucast c" q] c2 st(4) unfolding unat_ucast64 c [symmetric] by simp
  have run: "udiv_round d (q, r, c) =
      (push_bit 1 q OR ucast c, if d \<le> ?r1 then ?r1 - d else ?r1, if d \<le> ?r1 then 1 else 0)"
    by (rule udiv_round_eq [OF refl]) (use r1 r1b in linarith)+
  show ?thesis
    unfolding run udiv_inv_def prod.case q2 st(2,3)
    using sub by (cases "d \<le> ?r1") (simp_all only: cmp [symmetric] r1 if_True if_False unat_1 unat_0, simp_all)
qed

lemma udiv_loop_correct:
  assumes "udiv_inv k N (unat d) st" and "k < 64" and N: "N < 2 ^ 64" and d: "0 < unat d"
    and "unat d \<le> 2 ^ 63 \<or> k \<le> 1 \<and> 2 ^ 63 \<le> N"
  shows "udiv_loop k d st = (word_of_nat (N div unat d), word_of_nat (N mod unat d))"
  using assms(1,2,5)
proof (induction k arbitrary: st)
  case 0
  obtain q r c where st: "st = (q, r, c)" by (cases st)
  from 0 have q: "unat q = N div unat d div 2" and r: "unat r = N mod unat d" and c: "unat c = N div unat d mod 2"
    by (simp_all add: st udiv_inv_def)
  have "2 * unat q \<le> N div unat d" unfolding q by simp
  also have "\<dots> < 2 ^ 64" using N div_le_dividend by (rule order.strict_trans1 [rotated])
  finally have "unat (push_bit 1 q OR ucast c) = 2 * unat q + unat c"
    using shift_or_nat [of "ucast c" q] unfolding unat_ucast64 c by simp
  then have "unat (push_bit 1 q OR ucast c) = N div unat d" unfolding q c by simp
  then show ?case unfolding st udiv_loop.simps using r by (metis of_nat_unat ucast_id)
next
  case (Suc k)
  obtain q r c where st: "st = (q, r, c)" by (cases st)
  have inv: "udiv_inv k N (unat d) (udiv_round d st)"
    using Suc.prems udiv_round_inv [OF _ _ N d] unfolding st by auto
  have "k < 64" and "unat d \<le> 2 ^ 63 \<or> k \<le> 1 \<and> 2 ^ 63 \<le> N" using Suc.prems by auto
  from Suc.IH [OF inv this] show ?case by (simp only: udiv_loop.simps)
qed

section \<open>The setup\<close>

lemma unat_shift:
  fixes w :: "'a::len word"
  shows "unat (drop_bit k w) = unat w div 2 ^ k" and "unat (push_bit k w) = unat w * 2 ^ k mod 2 ^ LENGTH('a)"
  by (rule trans [OF unat_drop_bit_eq drop_bit_eq_div])
    (unfold unsigned_push_bit_eq take_bit_eq_mod, simp only: push_bit_eq_mult)

text \<open>The pair that the three shifts compute, as shifts of the whole word.\<close>

definition shifted :: "nat \<Rightarrow> u64 \<Rightarrow> u64 \<times> u64" where
  "shifted k n = (push_bit (64 - k) n, drop_bit k n)"

lemma shift_below_eq:
  assumes "0 < unat sr" and "unat sr < 32"
  shows "shift_below sr n = shifted (unat sr) n"
proof -
  have k: "unat (32 - sr) = 32 - unat sr" using assms by (subst unat_sub) (simp_all add: word_le_nat_alt)
  show ?thesis unfolding shift_below_def shifted_def k prod.inject
    by (intro conjI; rule bit_word_eqI) (use assms in \<open>auto simp: halves bit_simps algebra_simps dest: bit_imp_le_length\<close>)
qed

lemma shift_half_eq: "shift_half n = shifted 32 n"
  unfolding shift_half_def shifted_def prod.inject
  by (intro conjI; rule bit_word_eqI) (auto simp: halves bit_simps algebra_simps dest: bit_imp_le_length)

lemma shift_above_eq:
  assumes "32 < unat sr" and "unat sr < 64"
  shows "shift_above sr n = shifted (unat sr) n"
proof -
  have k: "unat (64 - sr) = 64 - unat sr" "unat (sr - 32) = unat sr - 32"
    using assms by (subst unat_sub; simp add: word_le_nat_alt)+
  show ?thesis unfolding shift_above_def shifted_def k prod.inject
    by (intro conjI; rule bit_word_eqI) (use assms in \<open>auto simp: halves bit_simps algebra_simps dest: bit_imp_le_length\<close>)
qed

lemma shifted_inv:
  assumes "0 < k" "k < 64" and "unat n div 2 ^ k < D"
  shows "udiv_inv k (unat n) D (fst (shifted k n), snd (shifted k n), 0)"
proof -
  have "(2::nat) ^ 64 = 2 ^ k * 2 ^ (64 - k)" using assms(2) by (simp flip: power_add)
  then have "unat n * 2 ^ (64 - k) mod 2 ^ LENGTH(64) = unat n mod 2 ^ k * 2 ^ (64 - k)"
    by (simp add: mult_mod_left)
  then show ?thesis
    unfolding udiv_inv_def shifted_def prod.case fst_conv snd_conv unat_shift using assms(3) by simp
qed

lemma word_div_mod: "word_of_nat (unat n div unat d) = n div (d :: 'a::len word)"
    "word_of_nat (unat n mod unat d) = n mod d"
  by (simp_all only: word_arith_nat_div word_arith_nat_mod)

lemma udiv_run_correct:
  assumes d: "d \<noteq> 0" and len: "bit_len (unat d) \<le> bit_len (unat n)"
    and sr: "unat sr + bit_len (unat d) = bit_len (unat n) + 1" "unat sr < 64"
  shows "udiv_run sr d (shifted (unat sr) n) = Inr (n div d, n mod d)"
proof -
  have d0: "0 < unat d" "0 < bit_len (unat d)" using d by (simp_all add: unat_gt_0 bit_len_pos)
  have N: "unat n < 2 ^ 64" using unsigned_less [of n, where ?'a = nat] by simp
  have "bit_len (unat n div 2 ^ unat sr) < bit_len (unat d)" unfolding bit_len_div using sr d0 by linarith
  then have "unat n div 2 ^ unat sr < unat d" by (rule bit_len_mono_less)
  then have inv: "udiv_inv (unat sr) (unat n) (unat d) (fst (shifted (unat sr) n), snd (shifted (unat sr) n), 0)"
    using sr len by (intro shifted_inv) simp_all
  have big: "unat d \<le> 2 ^ 63 \<or> unat sr \<le> 1 \<and> 2 ^ 63 \<le> unat n"
  proof (cases "unat d \<le> 2 ^ 63")
    case False
    then have "\<not> bit_len (unat d) \<le> 63" using bit_len_upper [of "unat d"]
      by (metis le_less_trans less_imp_le_nat linorder_not_le one_le_numeral order.strict_trans1 power_increasing)
    moreover have "bit_len (unat n) \<le> 64" using bit_len_word [of n] by simp
    ultimately have l: "bit_len (unat n) = 64" "unat sr = 1" using len sr by linarith+
    then have "unat n \<noteq> 0" by (metis bit_len_0 zero_neq_numeral)
    then show ?thesis using bit_len_lower [of "unat n"] l by simp
  qed simp
  show ?thesis
    unfolding udiv_run_def udiv_loop_correct [OF inv sr(2) N d0(1) big] word_div_mod ..
qed

text \<open>Numbers of digits of a word and of its halves, and the difference of two counts.\<close>

lemma bit_len_hi: "hi n \<noteq> 0 \<Longrightarrow> bit_len (unat n) = bit_len (unat (hi n)) + 32"
proof -
  assume "hi n \<noteq> 0"
  then have "0 < bit_len (unat (hi n))" by (simp add: unat_gt_0 bit_len_pos)
  then show ?thesis unfolding unat_hi bit_len_div by linarith
qed

lemma unat_clz: "unat (builtin_clz x) = 32 - bit_len (unat x)"
  unfolding builtin_clz_def by (rule unat_of_nat_small) simp

lemma clz_diff:
  fixes x y :: u32
  assumes "x \<noteq> 0" "y \<noteq> 0"
  shows "bit_len (unat x) \<le> bit_len (unat y) \<Longrightarrow>
           unat (builtin_clz x - builtin_clz y) = bit_len (unat y) - bit_len (unat x)"
    and "bit_len (unat y) < bit_len (unat x) \<Longrightarrow> 31 < builtin_clz x - builtin_clz y"
proof -
  have l: "bit_len (unat x) \<le> 32" "bit_len (unat y) \<le> 32" using bit_len_word [of x] bit_len_word [of y] by simp_all
  have p: "0 < bit_len (unat x)" "0 < bit_len (unat y)" using assms by (simp_all add: unat_gt_0 bit_len_pos)
  show "unat (builtin_clz x - builtin_clz y) = bit_len (unat y) - bit_len (unat x)"
    if "bit_len (unat x) \<le> bit_len (unat y)"
    using that l by (subst unat_sub) (simp_all add: word_le_nat_alt unat_clz)
  assume lt: "bit_len (unat y) < bit_len (unat x)"
  then have "unat (builtin_clz x) < unat (builtin_clz y)" using l unfolding unat_clz by linarith
  then have "unat (builtin_clz x - builtin_clz y) = 2 ^ 32 + unat (builtin_clz x) - unat (builtin_clz y)"
    by (simp add: unat_sub_if')
  then show "31 < builtin_clz x - builtin_clz y"
    using l p unfolding word_less_nat_alt unat_clz by simp
qed

section \<open>Powers of two\<close>

lemma factors2_decomp: "n \<noteq> 0 \<Longrightarrow> \<exists>j. n = 2 ^ factors2 n * (2 * j + 1)"
proof (induction n rule: factors2.induct)
  case (1 n)
  show ?case
  proof (cases "odd n")
    case True
    then show ?thesis by (auto simp: factors2.simps elim!: oddE)
  next
    case False
    then have "n div 2 \<noteq> 0" using 1(2) by auto
    with 1 False obtain j where "n div 2 = 2 ^ factors2 (n div 2) * (2 * j + 1)" by blast
    moreover have "factors2 n = Suc (factors2 (n div 2))" "n = 2 * (n div 2)"
      using False 1(2) by (simp_all add: factors2.simps)
    ultimately show ?thesis by (metis mult.assoc power_Suc)
  qed
qed

lemma power_of_2_nat:
  assumes "n \<noteq> 0" and "n AND (n - 1) = (0::nat)"
  shows "n = 2 ^ factors2 n"
proof -
  let ?t = "factors2 n"
  obtain j where n: "n = 2 ^ ?t * (2 * j + 1)" using factors2_decomp [OF assms(1)] by blast
  have n1: "n - 1 = (2 * j) * 2 ^ ?t + (2 ^ ?t - 1)" by (subst n) (simp add: algebra_simps)
  have "drop_bit ?t (n AND (n - 1)) = (2 * j + 1) AND (2 * j)"
  proof -
    have "n div 2 ^ ?t = 2 * j + 1" by (subst n) simp
    moreover have "(a * 2 ^ ?t + e) div 2 ^ ?t = a" if "e < 2 ^ ?t" for a e :: nat using that by simp
    then have "(n - 1) div 2 ^ ?t = 2 * j" unfolding n1 by (simp only: diff_less zero_less_one zero_less_power zero_less_numeral)
    ultimately show ?thesis by (subst drop_bit_and) (simp only: drop_bit_eq_div)
  qed
  also have "(2 * j + 1) AND (2 * j) = 2 * j" by (subst and_rec) simp
  finally have "j = 0" unfolding assms(2) by simp
  with n show ?thesis by simp
qed

lemma power_of_2_word:
  fixes x :: u32
  assumes "x \<noteq> 0" and "x AND (x - 1) = 0"
  shows "unat x = 2 ^ factors2 (unat x)" and "factors2 (unat x) < 32" and "unat (builtin_ctz x) = factors2 (unat x)"
    and "unat (y AND (x - 1)) = unat y mod unat x"
proof -
  have x1: "unat (x - 1) = unat x - 1" using assms(1) by (rule unat_minus_one)
  have "unat x AND (unat x - 1) = 0" using arg_cong [OF assms(2), of unat] by (simp only: unsigned_and_eq x1 unat_0)
  then show p: "unat x = 2 ^ factors2 (unat x)" using assms(1) by (intro power_of_2_nat) (simp_all add: unat_eq_0)
  have "unat x < 2 ^ 32" using unsigned_less [of x, where ?'a = nat] by simp
  then show lt: "factors2 (unat x) < 32" using p by (metis one_less_numeral_iff power_less_imp_less_exp semiring_norm(76))
  show "unat (builtin_ctz x) = factors2 (unat x)" unfolding builtin_ctz_def using lt by (intro unat_of_nat_small) simp
  have "unat (y AND (x - 1)) = unat y AND (2 ^ factors2 (unat x) - 1)"
    unfolding unsigned_and_eq x1 by (subst p) (rule refl)
  also have "\<dots> = unat y mod 2 ^ factors2 (unat x)"
    by (simp only: mask_eq_exp_minus_1 [symmetric] take_bit_eq_mask [symmetric] take_bit_eq_mod)
  finally show "unat (y AND (x - 1)) = unat y mod unat x" using p by simp
qed

section \<open>The whole function\<close>

lemma word_pair_nat:
  "unat q = unat n div unat d \<Longrightarrow> unat r = unat n mod unat d \<Longrightarrow> Inr (q, r) = Inr (n div d, n mod (d :: u64))"
  by (simp add: word_unat_eq_iff unat_div unat_mod)

lemma unat_split: "unat (w :: u64) = unat (hi w) * 2 ^ 32 + unat (lo w)"
  by (metis udwords_halves unat_udwords)

lemma lo_less: "unat (lo w) < 2 ^ 32"
  using unsigned_less [of "lo w", where ?'a = nat] by simp

lemma hi_zero: "hi w = 0 \<Longrightarrow> unat w = unat (lo w)"
  using unat_split [of w] by simp

lemma lo_zero: "lo w = 0 \<Longrightarrow> unat w = 2 ^ 32 * unat (hi w)"
  using unat_split [of w] by simp

lemma divide_small:
  assumes "hi n = 0" and "hi d = 0"
  shows "Inr (ucast (lo n div lo d), ucast (lo n mod lo d)) = Inr (n div d, n mod d)"
  using assms by (intro word_pair_nat) (simp_all add: hi_zero unat_div unat_mod)

lemma divide_less:
  fixes n d :: u64
  assumes "unat n < unat d"
  shows "Inr (0, n) = Inr (n div d, n mod d)"
  using assms by (intro word_pair_nat) simp_all

lemma divide_high:
  assumes "lo n = 0" and "lo d = 0"
  shows "Inr (ucast (hi n div hi d), udwords (hi n mod hi d) 0) = Inr (n div d, n mod d)"
  using lo_zero [OF assms(1)] lo_zero [OF assms(2)]
  by (intro word_pair_nat) (simp_all only: unat_ucast64 unat_udwords unat_div unat_mod unat_0 mult_mod_right, simp_all)

lemma div_mod_high:
  fixes N m :: nat
  shows "N div (2 ^ 32 * m) = N div 2 ^ 32 div m" and "N mod (2 ^ 32 * m) = (N div 2 ^ 32 mod m) * 2 ^ 32 + N mod 2 ^ 32"
  by (rule div_mult2_eq) (subst mod_mult2_eq, simp only: mult.commute)

lemma divide_high_power:
  assumes "hi d \<noteq> 0" "lo d = 0" and "hi d AND (hi d - 1) = 0"
  shows "Inr (ucast (drop_bit (unat (builtin_ctz (hi d))) (hi n)), udwords (hi n AND (hi d - 1)) (lo n)) =
    Inr (n div d, n mod d)"
proof -
  note p = power_of_2_word [OF assms(1,3)]
  have "unat (drop_bit (unat (builtin_ctz (hi d))) (hi n)) = unat (hi n) div unat (hi d)"
    unfolding unat_shift p(3) by (simp flip: p(1))
  then show ?thesis
    by (intro word_pair_nat)
      (simp_all only: unat_ucast64 unat_udwords p(4) lo_zero [OF assms(2)] div_mod_high
        unat_hi [of n] unat_lo [of n])
qed

lemma divide_low_power:
  assumes "hi d = 0" "lo d \<noteq> 0" "lo d \<noteq> 1" and "lo d AND (lo d - 1) = 0"
  defines "sr \<equiv> builtin_ctz (lo d)"
  shows "Inr (udwords (drop_bit (unat sr) (hi n)) (push_bit (unat (32 - sr)) (hi n) OR drop_bit (unat sr) (lo n)),
           ucast (lo n AND (lo d - 1))) = Inr (n div d, n mod d)"
proof -
  note p = power_of_2_word [OF assms(2,4)]
  let ?t = "factors2 (unat (lo d))"
  have d: "unat d = 2 ^ ?t" using hi_zero [OF assms(1)] p(1) by simp
  have "?t \<noteq> 0"
  proof
    assume "?t = 0"
    then have "unat (lo d) = 1" using p(1) by simp
    with assms(3) show False by (metis unat_1 word_unat_eq_iff)
  qed
  then have "snd (shift_below sr n) = drop_bit ?t n"
    using shift_below_eq [of sr n] p(2,3) by (simp add: sr_def shifted_def)
  then have q: "udwords (drop_bit (unat sr) (hi n)) (push_bit (unat (32 - sr)) (hi n) OR drop_bit (unat sr) (lo n)) =
      drop_bit ?t n" by (simp add: shift_below_def)
  have "unat (lo n) mod 2 ^ ?t = unat n mod 2 ^ ?t"
    unfolding unat_lo [of n] using p(2) by (intro mod_mod_cancel le_imp_power_dvd) simp
  then have "unat (lo n AND (lo d - 1)) = unat n mod unat d" by (metis p(1) p(4) d)
  moreover have "unat (drop_bit ?t n) = unat n div unat d" unfolding unat_shift d ..
  ultimately show ?thesis unfolding q by (intro word_pair_nat) (simp_all only: unat_ucast64)
qed

text \<open>The three ways into the loop.\<close>

lemma clz_low:
  assumes "hi n \<noteq> 0" "hi d = 0" "lo d \<noteq> 0"
  shows "unat (1 + 32 + builtin_clz (lo d) - builtin_clz (hi n)) + bit_len (unat d) = bit_len (unat n) + 1"
proof -
  have l: "bit_len (unat (lo d)) \<le> 32" "bit_len (unat (hi n)) \<le> 32"
    using bit_len_word [of "lo d"] bit_len_word [of "hi n"] by simp_all
  have "unat (1 + 32 + builtin_clz (lo d)) = 33 + unat (builtin_clz (lo d))"
    using l by (subst unat_add_lem [THEN iffD1]) (simp_all add: unat_clz)
  then have "unat (1 + 32 + builtin_clz (lo d) - builtin_clz (hi n)) = 33 + unat (builtin_clz (lo d)) - unat (builtin_clz (hi n))"
    by (subst unat_sub) (simp_all add: word_le_nat_alt unat_clz)
  then show ?thesis using l bit_len_hi [OF assms(1)] unfolding unat_clz hi_zero [OF assms(2)] by linarith
qed

lemma unat_succ_small: "unat (w :: u32) \<le> 32 \<Longrightarrow> unat (w + 1) = unat w + 1"
  by (subst unat_add_lem [THEN iffD1]) simp_all

lemma divide_loop_high:
  assumes h: "hi n \<noteq> 0" "hi d \<noteq> 0" and le: "\<not> 31 < builtin_clz (hi d) - builtin_clz (hi n)"
  defines "sr \<equiv> builtin_clz (hi d) - builtin_clz (hi n) + 1"
  shows "udiv_run sr d (shifted (unat sr) n) = Inr (n div d, n mod d)" and "0 < unat sr" and "unat sr \<le> 32"
    and "unat sr + bit_len (unat (hi d)) = bit_len (unat (hi n)) + 1"
proof -
  have ln: "bit_len (unat (hi d)) \<le> bit_len (unat (hi n))" using clz_diff(2) [OF h(2,1)] le by (metis not_le)
  have l: "bit_len (unat (hi n)) \<le> 32" using bit_len_word [of "hi n"] by simp
  have p: "0 < bit_len (unat (hi d))" using h(2) by (simp add: unat_gt_0 bit_len_pos)
  have u: "unat (builtin_clz (hi d) - builtin_clz (hi n)) = bit_len (unat (hi n)) - bit_len (unat (hi d))"
    by (rule clz_diff(1) [OF h(2,1) ln])
  then have sr: "unat sr = bit_len (unat (hi n)) - bit_len (unat (hi d)) + 1"
    unfolding sr_def using l by (subst unat_succ_small) simp_all
  then show "0 < unat sr" "unat sr \<le> 32" "unat sr + bit_len (unat (hi d)) = bit_len (unat (hi n)) + 1"
    using l p ln by linarith+
  have "d \<noteq> 0" using h(2) by (auto simp: hi_def)
  then show "udiv_run sr d (shifted (unat sr) n) = Inr (n div d, n mod d)"
    using sr l p ln by (intro udiv_run_correct) (simp_all add: bit_len_hi h)
qed

lemma less_high:
  assumes "hi n \<noteq> 0" "hi d \<noteq> 0" and "31 < builtin_clz (hi d) - builtin_clz (hi n)"
  shows "unat n < unat d"
proof -
  have "bit_len (unat (hi n)) \<le> 32" using bit_len_word [of "hi n"] by simp
  have "\<not> bit_len (unat (hi d)) \<le> bit_len (unat (hi n))"
  proof
    assume le: "bit_len (unat (hi d)) \<le> bit_len (unat (hi n))"
    have "0 < bit_len (unat (hi d))" using assms(2) by (simp add: unat_gt_0 bit_len_pos)
    moreover have "31 < bit_len (unat (hi n)) - bit_len (unat (hi d))"
      using assms(3) unfolding word_less_nat_alt clz_diff(1) [OF assms(2,1) le] by simp
    ultimately show False using \<open>bit_len (unat (hi n)) \<le> 32\<close> by linarith
  qed
  then have "bit_len (unat n) < bit_len (unat d)"
    unfolding bit_len_hi [OF assms(1)] bit_len_hi [OF assms(2)] by linarith
  then show ?thesis by (rule bit_len_mono_less)
qed

lemma one_digit:
  fixes x :: u32
  assumes "x AND (x - 1) \<noteq> 0"
  shows "1 < bit_len (unat x)"
proof (rule ccontr)
  assume "\<not> 1 < bit_len (unat x)"
  then have "(2::nat) ^ bit_len (unat x) \<le> 2 ^ 1" by (intro power_increasing) simp_all
  then have "unat x < 2" using bit_len_upper [of "unat x"] by simp
  then have "unat x = 0 \<or> unat x = 1" by linarith
  then have "x = 0 \<or> x = 1" by (metis unat_0 unat_1 word_unat_eq_iff)
  with assms show False by auto
qed

lemma unat_is_32: "unat (w :: u32) = 32 \<longleftrightarrow> w = 32"
  by (simp add: word_unat_eq_iff)

lemma divide_loop_low:
  assumes h: "hi n \<noteq> 0" "hi d = 0" "lo d AND (lo d - 1) \<noteq> 0"
  defines "sr \<equiv> 1 + 32 + builtin_clz (lo d) - builtin_clz (hi n)"
  shows "udiv_run sr d (if sr = 32 then shift_half n else if sr < 32 then shift_below sr n else shift_above sr n) =
    Inr (n div d, n mod d)"
proof -
  have d: "lo d \<noteq> 0" using h(3) by auto
  have l: "unat sr + bit_len (unat d) = bit_len (unat n) + 1" unfolding sr_def by (rule clz_low [OF h(1,2) d])
  have "bit_len (unat d) = bit_len (unat (lo d))" using hi_zero [OF h(2)] by simp
  then have ld: "1 < bit_len (unat d)" "bit_len (unat d) \<le> 32"
    using one_digit [OF h(3)] bit_len_word [of "lo d"] by simp_all
  have ln: "bit_len (unat n) \<le> 64" "32 < bit_len (unat n)"
    using bit_len_word [of n] bit_len_hi [OF h(1)] h(1) by (simp_all add: unat_gt_0 bit_len_pos)
  have sr: "0 < unat sr" "unat sr < 64" using l ld ln by linarith+
  have "(if sr = 32 then shift_half n else if sr < 32 then shift_below sr n else shift_above sr n) = shifted (unat sr) n"
  proof -
    have "unat sr = 32 \<longleftrightarrow> sr = 32" by (rule unat_is_32)
    then show ?thesis using shift_half_eq shift_below_eq [OF sr(1)] shift_above_eq [OF _ sr(2)]
      by (auto simp: word_less_nat_alt)
  qed
  moreover have "d \<noteq> 0" using d by (auto simp: lo_def)
  ultimately show ?thesis using udiv_run_correct [of d n sr] l sr ld ln by simp
qed

lemma divide_full:
  assumes h: "hi n \<noteq> 0" "hi d \<noteq> 0"
  defines "sr \<equiv> builtin_clz (hi d) - builtin_clz (hi n)"
  shows "(if sr > 31 then Inr (0, n)
     else udiv_run (sr + 1) d (if sr + 1 = 32 then shift_half n else shift_below (sr + 1) n)) = Inr (n div d, n mod d)"
proof (cases "31 < sr")
  case True
  then show ?thesis using divide_less [OF less_high [OF h]] by (simp add: sr_def)
next
  case False
  note lp = divide_loop_high [OF h False [unfolded sr_def], folded sr_def]
  have "unat (sr + 1) = 32 \<longleftrightarrow> sr + 1 = 32" by (rule unat_is_32)
  then have "(if sr + 1 = 32 then shift_half n else shift_below (sr + 1) n) = shifted (unat (sr + 1)) n"
    using shift_half_eq shift_below_eq [OF lp(2)] lp(3) by auto
  with lp(1) False show ?thesis by simp
qed

lemma divide_high_loop:
  assumes h: "hi n \<noteq> 0" "hi d AND (hi d - 1) \<noteq> 0"
  defines "sr \<equiv> builtin_clz (hi d) - builtin_clz (hi n)"
  shows "(if sr > 30 then Inr (0, n) else udiv_run (sr + 1) d (shift_below (sr + 1) n)) = Inr (n div d, n mod d)"
proof -
  have d: "hi d \<noteq> 0" using h(2) by auto
  show ?thesis
  proof (cases "31 < sr")
    case True
    moreover have "30 < sr" using True by (rule order.strict_trans [rotated]) simp
    ultimately show ?thesis using divide_less [OF less_high [OF h(1) d]] by (simp add: sr_def)
  next
    case False
    note lp = divide_loop_high [OF h(1) d False [unfolded sr_def], folded sr_def]
    have "unat (sr + 1) < 32"
      using lp(4) one_digit [OF h(2)] bit_len_word [of "hi n"] by simp
    moreover have "unat (sr + 1) = unat sr + 1" using False by (intro unat_succ_small) (simp add: word_less_nat_alt)
    ultimately have "\<not> 30 < sr" by (simp add: word_less_nat_alt)
    then show ?thesis using shift_below_eq [OF lp(2) \<open>unat (sr + 1) < 32\<close>] lp(1) by simp
  qed
qed

text \<open>For every divisor but 0 the quotient and the remainder are those of the machine words, whatever
  branch is taken.\<close>

lemmas udivmoddi4_parts = udivmoddi4_def udiv_by_low_def udiv_by_high_def udiv_by_both_def

lemma udivmoddi4_eq:
  "udivmoddi4 n d = (if d = 0 then Inl Undefined_Behaviour else Inr (n div d, n mod d))"
proof -
  have d0: "d = 0 \<longleftrightarrow> hi d = 0 \<and> lo d = 0" by (auto simp: word_unat_eq_iff unat_split [of d])
  consider (small) "hi n = 0" "hi d = 0" | (less) "hi n = 0" "hi d \<noteq> 0" | (zero) "hi n \<noteq> 0" "d = 0"
    | (high) "hi n \<noteq> 0" "lo d = 0" "hi d \<noteq> 0" | (low) "hi n \<noteq> 0" "lo d \<noteq> 0" "hi d = 0"
    | (full) "hi n \<noteq> 0" "lo d \<noteq> 0" "hi d \<noteq> 0"
    using d0 by blast
  then show ?thesis
  proof cases
    case small
    then show ?thesis using divide_small [of n d] d0 by (auto simp: udivmoddi4_def)
  next
    case less
    have "1 \<le> unat (hi d)" using less(2) by (simp add: unat_gt_0 Suc_le_eq)
    then have "1 * 2 ^ 32 \<le> unat (hi d) * 2 ^ 32" by (rule mult_right_mono) simp
    then have "unat n < unat d"
      using hi_zero [OF less(1)] lo_less [of n] unat_split [of d] by linarith
    moreover have "ucast (lo n) = n" using hi_zero [OF less(1)] by (simp add: word_unat_eq_iff)
    ultimately show ?thesis using less d0 divide_less [of n d] by (simp add: udivmoddi4_parts)
  next
    case zero
    then show ?thesis by (simp add: udivmoddi4_parts lo_def hi_def)
  next
    case high
    then show ?thesis using divide_high [of n d] divide_high_power [of d n] divide_high_loop [of n d] d0
      by (simp add: udivmoddi4_parts Let_def)
  next
    case low
    show ?thesis
    proof (cases "lo d AND (lo d - 1) = 0")
      case True
      have "n = n div d \<and> ucast (lo n AND (lo d - 1)) = n mod d" if "lo d = 1"
      proof -
        have "d = 1" using that hi_zero [OF low(3)] by (simp add: word_unat_eq_iff)
        then show ?thesis unfolding that by simp
      qed
      then show ?thesis using divide_low_power [OF low(3,2) _ True, of n] low True d0
        by (cases "lo d = 1") (simp_all add: udivmoddi4_parts Let_def)
    next
      case False
      show ?thesis unfolding udivmoddi4_parts Let_def divide_loop_low [OF low(1,3) False]
        by (simp only: low False d0 if_False if_True simp_thms)
    qed
  next
    case full
    then show ?thesis using divide_full [of n d] d0 by (simp add: udivmoddi4_parts Let_def)
  qed
qed

section \<open>Signed division\<close>

lemma sint_bounds: "- (2 ^ 63) \<le> sint (x :: u64)" "sint x < 2 ^ 63"
  using sint_ge [of x] sint_lt [of x] by simp_all

lemma sint_of_int: "- (2 ^ 63) \<le> i \<Longrightarrow> i < 2 ^ 63 \<Longrightarrow> sint (word_of_int i :: u64) = i"
  unfolding sint_sbintrunc' by (rule signed_take_bit_int_eq_self) simp_all

lemma sint_negative: "bit (x :: u64) 63 \<longleftrightarrow> sint x < 0"
  using bit_last_iff [of x] by simp

lemma sign_mask_eq: "sign_mask x = (if sint x < 0 then -1 else 0)"
proof -
  have "sign_mask x = (if bit x 63 then -1 else 0)"
    unfolding sign_mask_def by (intro bit_word_eqI) (auto simp: bit_simps min_def Suc_le_eq split: if_splits)
  then show ?thesis by (simp only: sint_negative)
qed

lemma negate_if_eq:
  "negate_if (if neg then -1 else 0) x =
     (if neg \<and> sint x = - (2 ^ 63) then Inl Undefined_Behaviour
      else Inr (word_of_int (if neg then - sint x else sint x)))"
proof (cases neg)
  case True
  have "NOT x = word_of_int (- sint x - 1)" by (simp add: not_eq_complement)
  then have "sint (NOT x) = - sint x - 1" using sint_bounds [of x] by (simp only:) (rule sint_of_int; linarith)
  then show ?thesis using True sint_bounds [of x] by (auto simp: negate_if_def not_eq_complement)
next
  case False
  then show ?thesis using sint_bounds [of x] by (simp add: negate_if_def)
qed

lemma negate_if_sign:
  "negate_if (sign_mask x) x =
     (if sint x = - (2 ^ 63) then Inl Undefined_Behaviour else Inr (word_of_int \<bar>sint x\<bar>))"
  unfolding sign_mask_eq negate_if_eq by auto

lemma uint_of_int: "0 \<le> i \<Longrightarrow> i < 2 ^ 64 \<Longrightarrow> uint (word_of_int i :: u64) = i"
  by (simp add: uint_word_of_int_eq take_bit_int_eq_self)

lemma udivmoddi4_int:
  assumes "0 \<le> a" "a < 2 ^ 63" "0 \<le> b" "b < 2 ^ 63"
  shows "udivmoddi4 (word_of_int a) (word_of_int b) =
    (if b = 0 then Inl Undefined_Behaviour else Inr (word_of_int (a div b), word_of_int (a mod b)))"
proof -
  have u: "uint (word_of_int a :: u64) = a" "uint (word_of_int b :: u64) = b" using assms by (simp_all add: uint_of_int)
  then have "(word_of_int b :: u64) = 0 \<longleftrightarrow> b = 0" by (metis uint_0_iff)
  moreover have "(word_of_int a :: u64) div word_of_int b = word_of_int (a div b)"
    and "(word_of_int a :: u64) mod word_of_int b = word_of_int (a mod b)"
    by (simp_all only: word_div_def word_mod_def u)
  ultimately show ?thesis by (simp only: udivmoddi4_eq)
qed

lemma word_signs:
  "((w :: u64) XOR ((if p then -1 else 0) XOR (if r then -1 else 0))) - ((if p then -1 else 0) XOR (if r then -1 else 0)) =
     (if p = r then w else - w)"
  by (simp add: not_eq_complement)

lemma abs_div_bounds:
  fixes a b :: int
  assumes "b \<noteq> 0"
  shows "\<bar>a\<bar> div \<bar>b\<bar> * \<bar>b\<bar> \<le> \<bar>a\<bar>" and "\<bar>a\<bar> div \<bar>b\<bar> \<le> \<bar>a\<bar>" and "\<bar>a\<bar> mod \<bar>b\<bar> \<le> \<bar>a\<bar>"
proof -
  have b: "1 \<le> \<bar>b\<bar>" and q: "0 \<le> \<bar>a\<bar> div \<bar>b\<bar>" using assms by (simp_all add: pos_imp_zdiv_nonneg_iff)
  have m: "0 \<le> \<bar>a\<bar> mod \<bar>b\<bar>" using assms by simp
  have e: "\<bar>a\<bar> div \<bar>b\<bar> * \<bar>b\<bar> + \<bar>a\<bar> mod \<bar>b\<bar> = \<bar>a\<bar>" by (rule div_mult_mod_eq)
  then show le: "\<bar>a\<bar> div \<bar>b\<bar> * \<bar>b\<bar> \<le> \<bar>a\<bar>" using m by linarith
  have "\<bar>a\<bar> div \<bar>b\<bar> * 1 \<le> \<bar>a\<bar> div \<bar>b\<bar> * \<bar>b\<bar>" using b q by (rule mult_left_mono)
  then show "\<bar>a\<bar> div \<bar>b\<bar> \<le> \<bar>a\<bar>" using le by linarith
  have "0 \<le> \<bar>a\<bar> div \<bar>b\<bar> * \<bar>b\<bar>" using q by simp
  then show "\<bar>a\<bar> mod \<bar>b\<bar> \<le> \<bar>a\<bar>" using e by linarith
qed

lemma sdiv_bounds:
  fixes a b :: int
  assumes "b \<noteq> 0"
  shows "\<bar>a sdiv b\<bar> \<le> \<bar>a\<bar>" and "\<bar>(a sdiv b) * b\<bar> \<le> \<bar>a\<bar>" and "\<bar>a smod b\<bar> \<le> \<bar>a\<bar>"
proof -
  have s: "\<bar>sgn a * sgn b * q\<bar> = (if a = 0 then 0 else q)" if "0 \<le> q" for q
    using that assms by (simp add: abs_mult abs_sgn_eq)
  have q: "0 \<le> \<bar>a\<bar> div \<bar>b\<bar>" and m: "0 \<le> \<bar>a\<bar> mod \<bar>b\<bar>"
    using assms by (simp_all add: pos_imp_zdiv_nonneg_iff)
  have e: "\<bar>a sdiv b\<bar> = (if a = 0 then 0 else \<bar>a\<bar> div \<bar>b\<bar>)" unfolding signed_divide_int_def by (rule s [OF q])
  show "\<bar>a sdiv b\<bar> \<le> \<bar>a\<bar>" unfolding e using abs_div_bounds(2) [OF assms] by simp
  show "\<bar>(a sdiv b) * b\<bar> \<le> \<bar>a\<bar>" unfolding abs_mult e using abs_div_bounds(1) [OF assms] by simp
  have "\<bar>a smod b\<bar> = (if a = 0 then 0 else \<bar>a\<bar> mod \<bar>b\<bar>)"
    using m by (simp add: signed_modulo_int_def abs_mult abs_sgn_eq)
  then show "\<bar>a smod b\<bar> \<le> \<bar>a\<bar>" using abs_div_bounds(3) [OF assms] by simp
qed

text \<open>The arguments for which the signed routines are undefined.\<close>

definition sdiv_undefined :: "int \<Rightarrow> int \<Rightarrow> bool" where
  "sdiv_undefined a b \<longleftrightarrow> a = - (2 ^ 63) \<or> b = - (2 ^ 63) \<or> b = 0"

lemma abs_less: "sint (x :: u64) \<noteq> - (2 ^ 63) \<Longrightarrow> \<bar>sint x\<bar> < 2 ^ 63"
  using sint_bounds [of x] by (auto simp: abs_if)

lemma divdi3_eq:
  "divdi3 a b = (if sdiv_undefined (sint a) (sint b) then Inl Undefined_Behaviour
     else Inr (word_of_int (sint a sdiv sint b)))"
proof (cases "sint a = - (2 ^ 63) \<or> sint b = - (2 ^ 63)")
  case True
  then show ?thesis unfolding divdi3_def Let_def negate_if_sign sdiv_undefined_def by auto
next
  case False
  let ?q = "\<bar>sint a\<bar> div \<bar>sint b\<bar>"
  have div: "udivmoddi4 (word_of_int \<bar>sint a\<bar>) (word_of_int \<bar>sint b\<bar>) =
      (if sint b = 0 then Inl Undefined_Behaviour else Inr (word_of_int ?q, word_of_int (\<bar>sint a\<bar> mod \<bar>sint b\<bar>)))"
    using False abs_less [of a] abs_less [of b] by (subst udivmoddi4_int) simp_all
  have "(if sint a < 0 \<longleftrightarrow> sint b < 0 then word_of_int ?q else - word_of_int ?q :: u64) = word_of_int (sint a sdiv sint b)"
    if "sint b \<noteq> 0"
    using that unfolding signed_divide_int_def by (cases "sint a = 0") (auto simp: sgn_if)
  then show ?thesis
    using False unfolding divdi3_def Let_def negate_if_sign sdiv_undefined_def
    by (simp add: div sign_mask_eq word_signs)
qed

lemma moddi3_eq:
  "moddi3 a b = (if sdiv_undefined (sint a) (sint b) then Inl Undefined_Behaviour
     else Inr (word_of_int (sint a smod sint b)))"
proof (cases "sint a = - (2 ^ 63) \<or> sint b = - (2 ^ 63)")
  case True
  then show ?thesis unfolding moddi3_def Let_def negate_if_sign sdiv_undefined_def by auto
next
  case False
  let ?m = "\<bar>sint a\<bar> mod \<bar>sint b\<bar>"
  have bounds: "\<bar>sint a\<bar> < 2 ^ 63" "\<bar>sint b\<bar> < 2 ^ 63" using False abs_less [of a] abs_less [of b] by simp_all
  then have div: "udivmoddi4 (word_of_int \<bar>sint a\<bar>) (word_of_int \<bar>sint b\<bar>) =
      (if sint b = 0 then Inl Undefined_Behaviour else Inr (word_of_int (\<bar>sint a\<bar> div \<bar>sint b\<bar>), word_of_int ?m))"
    by (subst udivmoddi4_int) simp_all
  have neg: "negate_if (sign_mask a) (word_of_int ?m) = Inr (word_of_int (sint a smod sint b))" if b: "sint b \<noteq> 0"
  proof -
    have m: "0 \<le> ?m" "?m < 2 ^ 63" using abs_div_bounds(3) [OF b, of "sint a"] bounds b by simp_all
    then have sm: "sint (word_of_int ?m :: u64) = ?m" by (intro sint_of_int) simp_all
    have "(if sint a < 0 then - ?m else ?m) = sint a smod sint b" by (simp add: signed_modulo_int_def sgn_if)
    then show ?thesis unfolding sign_mask_eq negate_if_eq sm using m by auto
  qed
  show ?thesis
    using False neg unfolding moddi3_def Let_def negate_if_sign sdiv_undefined_def by (simp add: div)
qed

lemma divmoddi4_eq:
  "divmoddi4 a b = (if sdiv_undefined (sint a) (sint b) then Inl Undefined_Behaviour
     else Inr (word_of_int (sint a sdiv sint b), word_of_int (sint a smod sint b)))"
proof (cases "sdiv_undefined (sint a) (sint b)")
  case True
  then show ?thesis by (simp add: divmoddi4_def divdi3_eq)
next
  case False
  then have a: "\<bar>sint a\<bar> < 2 ^ 63" and b: "sint b \<noteq> 0" using abs_less [of a] by (auto simp: sdiv_undefined_def)
  let ?q = "sint a sdiv sint b"
  have q: "sint (word_of_int ?q :: u64) = ?q"
    using sdiv_bounds(1) [OF b, of "sint a"] a by (intro sint_of_int) linarith+
  have g: "- (2 ^ 63) \<le> ?q * sint b \<and> ?q * sint b < 2 ^ 63" "sint a - ?q * sint b = sint a smod sint b"
    using sdiv_bounds(2) [OF b, of "sint a"] a minus_sdiv_mult_eq_smod [of "sint a" "sint b"] by linarith+
  have g2: "- (2 ^ 63) \<le> sint a smod sint b \<and> sint a smod sint b < 2 ^ 63"
    using sdiv_bounds(3) [OF b, of "sint a"] a by linarith
  have "a - word_of_int ?q * b = word_of_int (sint a - ?q * sint b)" by simp
  then show ?thesis
    using False g g2 unfolding divmoddi4_def divdi3_eq by (simp add: q)
qed

text \<open>C6. The 64-bit division routines compute, with 32-bit steps only, what division means: quotient and
  remainder of the unsigned words, and for signed numbers the quotient rounded towards zero with the
  remainder of its sign.  They divide by zero, or overflow on the smallest number, and nothing else goes
  wrong.\<close>

theorem division_correct:
  "udivmoddi4 m d = (if d = 0 then Inl Undefined_Behaviour else Inr (m div d, m mod d)) \<and>
   udivdi3 m d = (if d = 0 then Inl Undefined_Behaviour else Inr (m div d)) \<and>
   umoddi3 m d = (if d = 0 then Inl Undefined_Behaviour else Inr (m mod d)) \<and>
   divdi3 a b = (if sdiv_undefined (sint a) (sint b) then Inl Undefined_Behaviour
     else Inr (word_of_int (sint a sdiv sint b))) \<and>
   moddi3 a b = (if sdiv_undefined (sint a) (sint b) then Inl Undefined_Behaviour
     else Inr (word_of_int (sint a smod sint b))) \<and>
   divmoddi4 a b = (if sdiv_undefined (sint a) (sint b) then Inl Undefined_Behaviour
     else Inr (word_of_int (sint a sdiv sint b), word_of_int (sint a smod sint b)))"
  by (simp only: divdi3_eq moddi3_eq divmoddi4_eq udivdi3_def umoddi3_def udivmoddi4_eq) simp

end
