(* ===== verification/Int64Counts.thy ===== *)
theory Int64Counts
  imports Int64Proofs
begin

text \<open>
  The counts of leading and trailing zeros of \<open>int64.c\<close>: each halving step keeps what is left to count.
\<close>

section \<open>Leading zeros\<close>

lemma and_push_nat: "(n :: nat) AND push_bit m k = push_bit m (drop_bit m n AND k)"
  by (rule bit_eqI) (auto simp: bit_simps)

lemma high_zero:
  fixes x :: u32
  assumes "unat x < 2 ^ (m + j)" and "unat msk = push_bit m (mask j)"
  shows "x AND msk = 0 \<longleftrightarrow> unat x < 2 ^ m"
proof -
  have "unat (x AND msk) = unat x div 2 ^ m mod 2 ^ j * 2 ^ m"
    unfolding unsigned_and_eq assms(2) and_push_nat take_bit_eq_mask [symmetric]
    by (simp only: take_bit_eq_mod push_bit_eq_mult drop_bit_eq_div)
  moreover have "unat x div 2 ^ m < 2 ^ j"
    using assms(1) by (intro less_mult_imp_div_less) (simp add: power_add mult.commute)
  ultimately have "unat (x AND msk) = unat x div 2 ^ m * 2 ^ m" by simp
  then show ?thesis by (auto simp: word_unat_eq_iff div_eq_0_iff)
qed

lemma clz_step:
  fixes x :: u32
  assumes x: "unat x < 2 ^ (m + m)" and msk: "unat msk = push_bit m (mask m)" and m: "m = 2 ^ k"
  shows "unat (drop_bit (m - zero_step msk x k) x) < 2 ^ m"
    and "m + m - bit_len (unat x) = zero_step msk x k + (m - bit_len (unat (drop_bit (m - zero_step msk x k) x)))"
proof -
  note z = high_zero [OF x msk]
  have L: "bit_len (unat x) \<le> m + m" by (rule bit_len_less [OF x])
  have "unat (drop_bit (m - zero_step msk x k) x) < 2 ^ m \<and>
    m + m - bit_len (unat x) = zero_step msk x k + (m - bit_len (unat (drop_bit (m - zero_step msk x k) x)))"
  proof (cases "unat x < 2 ^ m")
    case True
    then have "bit_len (unat x) \<le> m" by (rule bit_len_less)
    then show ?thesis using True z by (simp add: zero_step_def m)
  next
    case False
    have "unat x div 2 ^ m < 2 ^ m"
      using x by (intro less_mult_imp_div_less) (simp add: power_add)
    moreover have "m < bit_len (unat x)"
    proof (rule ccontr)
      assume "\<not> m < bit_len (unat x)"
      then have "(2::nat) ^ bit_len (unat x) \<le> 2 ^ m" by (intro power_increasing) simp_all
      with bit_len_upper [of "unat x"] False show False by linarith
    qed
    moreover have "zero_step msk x k = 0" using False z by (simp add: zero_step_def)
    ultimately show ?thesis using L unfolding diff_zero by (simp only: unat_shift bit_len_div diff_zero) simp
  qed
  then show "unat (drop_bit (m - zero_step msk x k) x) < 2 ^ m"
    and "m + m - bit_len (unat x) = zero_step msk x k + (m - bit_len (unat (drop_bit (m - zero_step msk x k) x)))"
    by blast+
qed

lemma zero_step_le: "zero_step msk x k \<le> 2 ^ k"
  by (simp add: zero_step_def)

lemma small_words: "unat (x :: u32) < 4 \<Longrightarrow> x = 0 \<or> x = 1 \<or> x = 2 \<or> x = 3"
proof -
  assume "unat x < 4"
  then have "unat x \<in> {0, 1, 2, 3}" by auto
  then show ?thesis by (auto simp: word_unat_eq_iff)
qed

lemma clzsi2_eq: "clzsi2 x = builtin_clz x"
proof -
  define t1 where "t1 = zero_step 0xFFFF0000 x 4"
  define x1 where "x1 = drop_bit (16 - t1) x"
  define t2 where "t2 = zero_step 0xFF00 x1 3"
  define x2 where "x2 = drop_bit (8 - t2) x1"
  define t3 where "t3 = zero_step 0xF0 x2 2"
  define x3 where "x3 = drop_bit (4 - t3) x2"
  define t4 where "t4 = zero_step 0xC x3 1"
  define x4 where "x4 = drop_bit (2 - t4) x3"
  have 0: "unat x < 2 ^ (16 + 16)" using unsigned_less [of x, where ?'a = nat] by simp
  have 1: "unat x1 < 2 ^ 16" "16 + 16 - bit_len (unat x) = t1 + (16 - bit_len (unat x1))"
    unfolding x1_def t1_def by (rule clz_step [OF 0]; simp add: mask_eq_exp_minus_1 push_bit_eq_mult)+
  have 2: "unat x2 < 2 ^ 8" "8 + 8 - bit_len (unat x1) = t2 + (8 - bit_len (unat x2))"
    unfolding x2_def t2_def by (rule clz_step; use 1(1) in \<open>simp add: mask_eq_exp_minus_1 push_bit_eq_mult\<close>)+
  have 3: "unat x3 < 2 ^ 4" "4 + 4 - bit_len (unat x2) = t3 + (4 - bit_len (unat x3))"
    unfolding x3_def t3_def by (rule clz_step; use 2(1) in \<open>simp add: mask_eq_exp_minus_1 push_bit_eq_mult\<close>)+
  have 4: "unat x4 < 2 ^ 2" "2 + 2 - bit_len (unat x3) = t4 + (2 - bit_len (unat x4))"
    unfolding x4_def t4_def by (rule clz_step; use 3(1) in \<open>simp add: mask_eq_exp_minus_1 push_bit_eq_mult\<close>)+
  have sum: "32 - bit_len (unat x) = t1 + t2 + t3 + t4 + (2 - bit_len (unat x4))"
    using 1(2) 2(2) 3(2) 4(2) by simp
  have "(2 - x4) AND (- (if x4 AND 2 = 0 then 1 else 0)) = word_of_nat (2 - bit_len (unat x4))"
    using small_words [of x4] 4(1) by (auto simp: bit_len.simps)
  then have "clzsi2 x = word_of_nat (t1 + t2 + t3 + t4 + (2 - bit_len (unat x4)))"
    unfolding clzsi2_def Let_def t1_def [symmetric] x1_def [symmetric] t2_def [symmetric] x2_def [symmetric]
      t3_def [symmetric] x3_def [symmetric] t4_def [symmetric] x4_def [symmetric]
    by (simp only: of_nat_add)
  then show ?thesis unfolding builtin_clz_def sum .
qed

section \<open>Trailing zeros\<close>

lemma factors2_dvd: "n \<noteq> 0 \<Longrightarrow> 2 ^ m dvd n \<Longrightarrow> factors2 n = m + factors2 (n div 2 ^ m)"
proof (induction m arbitrary: n)
  case (Suc m)
  then have "even n" by (auto dest: dvd_mult_left)
  then have "factors2 n = Suc (factors2 (n div 2))" using Suc.prems by (subst factors2.simps) simp
  moreover have "n div 2 \<noteq> 0" "2 ^ m dvd n div 2"
    using Suc.prems \<open>even n\<close> by (auto elim!: dvdE)
  ultimately show ?case using Suc.IH [of "n div 2"] by (simp add: div_mult2_eq)
qed simp

lemma factors2_mod: "n mod 2 ^ k \<noteq> 0 \<Longrightarrow> factors2 (n mod 2 ^ k) = factors2 n"
proof (induction k arbitrary: n)
  case (Suc k)
  show ?case
  proof (cases "odd n")
    case True
    then have "odd (n mod 2 ^ Suc k)" by (simp add: dvd_mod_iff)
    then show ?thesis using True by (subst (1 2) factors2.simps) simp
  next
    case False
    have e: "n mod 2 ^ Suc k = 2 * (n div 2 mod 2 ^ k)" using False by (simp add: mod_mult2_eq)
    then have "n div 2 mod 2 ^ k \<noteq> 0" using Suc.prems by auto
    have "n \<noteq> 0" using Suc.prems by (metis mod_0)
    have "factors2 (n div 2 mod 2 ^ k) = factors2 (n div 2)" by (rule Suc.IH) fact
    moreover have "factors2 n = Suc (factors2 (n div 2))" using False \<open>n \<noteq> 0\<close> by (subst factors2.simps) simp
    moreover have "factors2 (2 * (n div 2 mod 2 ^ k)) = Suc (factors2 (n div 2 mod 2 ^ k))"
      using \<open>n div 2 mod 2 ^ k \<noteq> 0\<close> by (subst factors2.simps) simp
    ultimately show ?thesis unfolding e by simp
  qed
qed simp

lemma ctz_step:
  fixes x :: u32
  assumes x: "unat x mod 2 ^ (m + m) \<noteq> 0" and msk: "unat msk = mask m" and m: "m = 2 ^ k"
  shows "unat (drop_bit (zero_step msk x k) x) mod 2 ^ m \<noteq> 0"
    and "factors2 (unat x) = zero_step msk x k + factors2 (unat (drop_bit (zero_step msk x k) x))"
proof -
  have z: "x AND msk = 0 \<longleftrightarrow> unat x mod 2 ^ m = 0"
    unfolding word_unat_eq_iff unsigned_and_eq msk take_bit_eq_mask [symmetric] take_bit_eq_mod by simp
  have nz: "unat x \<noteq> 0" using x by (metis mod_0)
  have "unat x mod 2 ^ (m + m) = 2 ^ m * (unat x div 2 ^ m mod 2 ^ m) + unat x mod 2 ^ m"
    by (simp only: power_add mod_mult2_eq)
  then have "unat (drop_bit (zero_step msk x k) x) mod 2 ^ m \<noteq> 0 \<and>
    factors2 (unat x) = zero_step msk x k + factors2 (unat (drop_bit (zero_step msk x k) x))"
    using x z factors2_dvd [OF nz, of m]
    by (cases "unat x mod 2 ^ m = 0") (auto simp: zero_step_def m unat_shift mod_eq_0_iff_dvd)
  then show "unat (drop_bit (zero_step msk x k) x) mod 2 ^ m \<noteq> 0"
    and "factors2 (unat x) = zero_step msk x k + factors2 (unat (drop_bit (zero_step msk x k) x))"
    by blast+
qed

lemma ctzsi2_eq: "ctzsi2 x = (if x = 0 then 32 else builtin_ctz x)"
proof (cases "x = 0")
  case True
  then show ?thesis by (simp add: ctzsi2_def zero_step_def Let_def)
next
  case False
  define t1 where "t1 = zero_step 0x0000FFFF x 4"
  define x1 where "x1 = drop_bit t1 x"
  define t2 where "t2 = zero_step 0x00FF x1 3"
  define x2 where "x2 = drop_bit t2 x1"
  define t3 where "t3 = zero_step 0x0F x2 2"
  define x3 where "x3 = drop_bit t3 x2"
  define t4 where "t4 = zero_step 0x3 x3 1"
  define y where "y = drop_bit t4 x3"
  have "unat x < 2 ^ 32" using unsigned_less [of x, where ?'a = nat] by simp
  then have 0: "unat x mod 2 ^ (16 + 16) \<noteq> 0" using False by (simp add: unat_eq_0)
  have 1: "unat x1 mod 2 ^ 16 \<noteq> 0" "factors2 (unat x) = t1 + factors2 (unat x1)"
    unfolding x1_def t1_def by (rule ctz_step [OF 0]; simp add: mask_eq_exp_minus_1)+
  have 2: "unat x2 mod 2 ^ 8 \<noteq> 0" "factors2 (unat x1) = t2 + factors2 (unat x2)"
    unfolding x2_def t2_def by (rule ctz_step; use 1(1) in \<open>simp add: mask_eq_exp_minus_1\<close>)+
  have 3: "unat x3 mod 2 ^ 4 \<noteq> 0" "factors2 (unat x2) = t3 + factors2 (unat x3)"
    unfolding x3_def t3_def by (rule ctz_step; use 2(1) in \<open>simp add: mask_eq_exp_minus_1\<close>)+
  have 4: "unat y mod 2 ^ 2 \<noteq> 0" "factors2 (unat x3) = t4 + factors2 (unat y)"
    unfolding y_def t4_def by (rule ctz_step; use 3(1) in \<open>simp add: mask_eq_exp_minus_1\<close>)+
  have m: "unat (y AND 3) = unat y mod 2 ^ 2"
    using take_bit_eq_mask [of 2 "unat y"] by (simp add: unsigned_and_eq mask_eq_exp_minus_1 take_bit_eq_mod)
  then have f: "factors2 (unat (y AND 3)) = factors2 (unat y)" using factors2_mod [OF 4(1)] by simp
  have "y AND 3 = 1 \<or> y AND 3 = 2 \<or> y AND 3 = 3"
    using small_words [of "y AND 3"] m 4(1) by (auto simp: word_unat_eq_iff)
  moreover have "factors2 1 = 0" "factors2 2 = 1" "factors2 3 = 0" by (simp_all add: factors2.simps)
  ultimately have "(2 - drop_bit 1 w) AND (- (if w AND 1 = 0 then 1 else 0)) = word_of_nat (factors2 (unat w))"
    if "w = y AND 3" for w using that by (elim disjE) simp_all
  then have last: "(2 - drop_bit 1 (y AND 3)) AND (- (if (y AND 3) AND 1 = 0 then 1 else 0)) =
      word_of_nat (factors2 (unat y))" using f by metis
  have "ctzsi2 x = word_of_nat (t1 + t2 + t3 + t4 + factors2 (unat y))"
    unfolding ctzsi2_def Let_def t1_def [symmetric] x1_def [symmetric] t2_def [symmetric] x2_def [symmetric]
      t3_def [symmetric] x3_def [symmetric] t4_def [symmetric] y_def [symmetric] last
    by (simp only: of_nat_add)
  then show ?thesis using False 1(2) 2(2) 3(2) 4(2) by (simp add: builtin_ctz_def)
qed

section \<open>Double words\<close>

lemma clzdi2_eq: "clzdi2 a = word_of_nat (64 - bit_len (unat a))"
proof (cases "hi a = 0")
  case True
  have "bit_len (unat a) \<le> 32" using hi_zero [OF True] bit_len_word [of "lo a"] by simp
  then have "(64 :: nat) - bit_len (unat a) = (32 - bit_len (unat (lo a))) + 32" using hi_zero [OF True] by simp
  then have "word_of_nat (64 - bit_len (unat a)) = builtin_clz (lo a) + 32"
    by (simp only: builtin_clz_def of_nat_add of_nat_numeral)
  then show ?thesis using True by (simp add: clzdi2_def clzsi2_eq)
next
  case False
  then show ?thesis by (simp add: clzdi2_def clzsi2_eq builtin_clz_def bit_len_hi)
qed

lemma ctzdi2_eq: "ctzdi2 a = (if a = 0 then 64 else word_of_nat (factors2 (unat a)))"
proof (cases "lo a = 0")
  case True
  have n: "unat a = 2 ^ 32 * unat (hi a)" by (rule lo_zero [OF True])
  have "factors2 (unat a) = 32 + factors2 (unat (hi a))" if "hi a \<noteq> 0"
    using factors2_dvd [of "unat a" 32] that unfolding n by (simp add: unat_eq_0)
  moreover have "a = 0 \<longleftrightarrow> hi a = 0" using n by (auto simp: word_unat_eq_iff)
  ultimately show ?thesis using True by (simp add: ctzdi2_def ctzsi2_eq builtin_ctz_def)
next
  case False
  then have "unat (lo a) \<noteq> 0" by (simp add: unat_eq_0)
  then have nz: "unat a mod 2 ^ 32 \<noteq> 0" unfolding unat_lo .
  have "factors2 (unat (lo a)) = factors2 (unat a)" unfolding unat_lo by (rule factors2_mod [OF nz])
  moreover have "a \<noteq> 0" using nz by auto
  ultimately show ?thesis using False by (simp add: ctzdi2_def ctzsi2_eq builtin_ctz_def)
qed

text \<open>The four routines count: leading zeros are the width less the number of binary digits,
  trailing zeros the number of factors 2, at every word; at 0, which their comments exclude, all of them
  give the width.\<close>

theorem count_zeros:
  "clzsi2 x = word_of_nat (32 - bit_len (unat x)) \<and>
   ctzsi2 x = (if x = 0 then 32 else word_of_nat (factors2 (unat x))) \<and>
   clzdi2 y = word_of_nat (64 - bit_len (unat y)) \<and>
   ctzdi2 y = (if y = 0 then 64 else word_of_nat (factors2 (unat y)))"
  by (simp only: clzsi2_eq ctzsi2_eq clzdi2_eq ctzdi2_eq builtin_clz_def builtin_ctz_def simp_thms)

end
