(* ===== verification/Libco.thy ===== *)
theory Libco
  imports Ring
begin

text \<open>
  The coroutines of \<open>libco/co.c\<close>: a ring of coroutines through \<open>next\<close> and \<open>front\<close>, of which
  \<open>current\<close> runs.  A \<open>jmp_buf\<close> holds a point of execution; the type \<open>'k\<close> of such points is a
  parameter, \<open>setjmp\<close> stores one and \<open>longjmp\<close> resumes it.  The switch to a fresh stack is assembly:
  what it starts is an outcome of \<open>co_yield\<close>.
\<close>

section \<open>Data\<close>

datatype co_status = CO_NEW | CO_RUNNING | CO_WAITING | CO_DEAD

record 'k co =
  co_name :: string
  co_func :: addr
  co_arg :: addr
  co_stat :: co_status
  co_waiter :: addr
  co_next :: addr
  co_front :: addr
  co_context :: "'k option"

text \<open>The coroutines that \<open>malloc\<close> returned and \<open>free\<close> did not take back.\<close>

record 'k pool =
  cos :: "addr \<Rightarrow> 'k co option"
  co_current :: addr

definition get_co :: "addr \<Rightarrow> 'k pool \<Rightarrow> 'k co result" where
  "get_co p s = (case cos s p of None \<Rightarrow> Inl Null_Deref | Some c \<Rightarrow> Inr c)"

definition upd_co :: "addr \<Rightarrow> ('k co \<Rightarrow> 'k co) \<Rightarrow> 'k pool \<Rightarrow> 'k pool result" where
  "upd_co p f s = (case cos s p of None \<Rightarrow> Inl Null_Deref | Some c \<Rightarrow> Inr (s\<lparr>cos := (cos s)(p \<mapsto> f c)\<rparr>))"

definition set_co_next :: "addr \<Rightarrow> addr \<Rightarrow> 'k pool \<Rightarrow> 'k pool result" where
  "set_co_next p v = upd_co p (\<lambda>c. c\<lparr>co_next := v\<rparr>)"

definition set_co_front :: "addr \<Rightarrow> addr \<Rightarrow> 'k pool \<Rightarrow> 'k pool result" where
  "set_co_front p v = upd_co p (\<lambda>c. c\<lparr>co_front := v\<rparr>)"

section \<open>Operations\<close>

text \<open>\<open>p\<close> is what \<open>malloc\<close> returns, \<open>junk\<close> what the memory there holds.\<close>

definition co_ready :: "addr \<Rightarrow> 'k co \<Rightarrow> 'k pool \<Rightarrow> 'k pool result" where
  "co_ready p junk s =
     bindR (guardR Null_Deref (p \<noteq> NULL)) (\<lambda>_.
     Inr (s\<lparr>cos := (cos s)(p \<mapsto> junk\<lparr>co_name := ''main'', co_func := NULL, co_arg := NULL, co_stat := CO_RUNNING,
              co_waiter := NULL, co_next := p, co_front := p\<rparr>), co_current := p\<rparr>))"

text \<open>\<open>name\<close> has room for 63 characters; \<open>strcpy\<close> does not look.\<close>

definition co_start :: "addr \<Rightarrow> 'k co \<Rightarrow> string \<Rightarrow> addr \<Rightarrow> addr \<Rightarrow> 'k pool \<Rightarrow> (addr \<times> 'k pool) result" where
  "co_start p junk name func arg s =
     bindR (guardR Null_Deref (p \<noteq> NULL)) (\<lambda>_.
     bindR (guardR Out_Of_Bounds (length name < 64)) (\<lambda>_.
     let s0 = s\<lparr>cos := (cos s)(p \<mapsto> junk\<lparr>co_name := name, co_func := func, co_arg := arg, co_stat := CO_NEW,
                  co_waiter := NULL\<rparr>)\<rparr> in
     bindR (guardR Assert_Fail (co_current s0 \<noteq> NULL)) (\<lambda>_.
     bindR (get_co (co_current s0) s0) (\<lambda>c.
     bindR (set_co_next p (co_next c) s0) (\<lambda>s1.
     bindR (set_co_front p (co_current s1) s1) (\<lambda>s2.
     bindR (get_co (co_current s2) s2) (\<lambda>c.
     bindR (set_co_front (co_next c) p s2) (\<lambda>s3.
     bindR (set_co_next (co_current s3) p s3) (\<lambda>s4.
     Inr (p, s4))))))))))"

text \<open>What the processor does next: start the function of a coroutine, resume a saved point, or
  return from \<open>co_yield\<close> to its caller.\<close>

datatype 'k control = Starts addr | Resumes 'k | Returns

definition co_yield :: "'k \<Rightarrow> 'k pool \<Rightarrow> ('k control \<times> 'k pool) result" where
  "co_yield here s =
     bindR (upd_co (co_current s) (\<lambda>c. c\<lparr>co_context := Some here\<rparr>) s) (\<lambda>s1.
     bindR (get_co (co_current s1) s1) (\<lambda>c.
     let s2 = s1\<lparr>co_current := co_next c\<rparr> in
     bindR (get_co (co_current s2) s2) (\<lambda>c'.
     case co_stat c' of
       CO_NEW \<Rightarrow>
         bindR (upd_co (co_current s2) (\<lambda>c. c\<lparr>co_stat := CO_RUNNING\<rparr>) s2) (\<lambda>s3.
         Inr (Starts (co_current s3), s3))
     | CO_DEAD \<Rightarrow> Inr (Returns, s2)
     | _ \<Rightarrow> (case co_context c' of None \<Rightarrow> Inl Undefined_Behaviour | Some k \<Rightarrow> Inr (Resumes k, s2)))))"

text \<open>
  The end of \<open>wrapper\<close>, for the coroutine that it received as its argument.  Its return address is the
  start of a fresh stack, so returning is undefined.
\<close>

definition wrapper_end :: "addr \<Rightarrow> 'k \<Rightarrow> 'k pool \<Rightarrow> ('k control \<times> 'k pool) result" where
  "wrapper_end cur here s =
     bindR (upd_co cur (\<lambda>c. c\<lparr>co_stat := CO_DEAD\<rparr>) s) (\<lambda>s1.
     bindR (co_yield here s1) (\<lambda>(ctl, s2).
     case ctl of Returns \<Rightarrow> Inl Undefined_Behaviour | _ \<Rightarrow> Inr (ctl, s2)))"

definition co_wait_begin :: "addr \<Rightarrow> 'k pool \<Rightarrow> 'k pool result" where
  "co_wait_begin p s =
     bindR (upd_co (co_current s) (\<lambda>c. c\<lparr>co_stat := CO_WAITING\<rparr>) s) (\<lambda>s1.
     upd_co p (\<lambda>c. c\<lparr>co_waiter := co_current s1\<rparr>) s1)"

definition co_wait_end :: "addr \<Rightarrow> 'k pool \<Rightarrow> 'k pool result" where
  "co_wait_end p s =
     bindR (get_co p s) (\<lambda>c.
     bindR (upd_co (co_waiter c) (\<lambda>c. c\<lparr>co_stat := CO_RUNNING\<rparr>) s) (\<lambda>s1.
     bindR (get_co p s1) (\<lambda>c.
     bindR (set_co_next (co_front c) (co_next c) s1) (\<lambda>s2.
     bindR (get_co p s2) (\<lambda>c.
     bindR (set_co_front (co_next c) (co_front c) s2) (\<lambda>s3.
     Inr (s3\<lparr>cos := (cos s3)(p := None)\<rparr>)))))))"

text \<open>
  The loop of \<open>co_wait\<close>, from its test on: it ends the wait, or leaves the coroutine with the
  point \<open>here\<close> saved, from where the test is made again.
\<close>

partial_function (option) co_wait_loop :: "addr \<Rightarrow> 'k \<Rightarrow> 'k pool \<Rightarrow> ('k control option \<times> 'k pool) result option" where
  "co_wait_loop p here s =
     (case get_co p s of Inl e \<Rightarrow> Some (Inl e)
      | Inr c \<Rightarrow>
          if co_stat c = CO_DEAD then Some (bindR (co_wait_end p s) (\<lambda>s'. Inr (None, s')))
          else (case co_yield here s of Inl e \<Rightarrow> Some (Inl e)
            | Inr (Returns, s') \<Rightarrow> co_wait_loop p here s'
            | Inr (ctl, s') \<Rightarrow> Some (Inr (Some ctl, s'))))"

definition co_wait :: "addr \<Rightarrow> 'k \<Rightarrow> 'k pool \<Rightarrow> ('k control option \<times> 'k pool) result" where
  "co_wait p here s = bindR (co_wait_begin p s) (\<lambda>s1. returns (co_wait_loop p here s1))"

text \<open>The test of the loop of \<open>join\<close> at the end of the program: the next coroutine to wait for.\<close>

definition join_next :: "'k pool \<Rightarrow> addr option result" where
  "join_next s =
     bindR (guardR Assert_Fail (co_current s \<noteq> NULL)) (\<lambda>_.
     bindR (get_co (co_current s) s) (\<lambda>c.
     bindR (guardR Assert_Fail (co_name c = ''main'')) (\<lambda>_.
     Inr (if co_next c \<noteq> co_current s then Some (co_next c) else None))))"

section \<open>The ring\<close>

definition con :: "'k pool \<Rightarrow> addr \<Rightarrow> addr" where
  "con s p = (case cos s p of None \<Rightarrow> NULL | Some c \<Rightarrow> co_next c)"

definition cof :: "'k pool \<Rightarrow> addr \<Rightarrow> addr" where
  "cof s p = (case cos s p of None \<Rightarrow> NULL | Some c \<Rightarrow> co_front c)"

definition co_unlinked :: "'k co \<Rightarrow> 'k co" where
  "co_unlinked c = c\<lparr>co_next := NULL, co_front := NULL\<rparr>"

text \<open>Everything but the links.\<close>

definition co_rest :: "'k pool \<Rightarrow> 'k pool" where
  "co_rest s = s\<lparr>cos := map_option co_unlinked \<circ> cos s\<rparr>"

lemma get_co_Some [simp]: "cos s p = Some c \<Longrightarrow> get_co p s = Inr c"
  by (simp add: get_co_def)

lemma upd_co_Some [simp]: "cos s p = Some c \<Longrightarrow> upd_co p f s = Inr (s\<lparr>cos := (cos s)(p \<mapsto> f c)\<rparr>)"
  by (simp add: upd_co_def)

interpretation co_ring: ring_store con cof set_co_next set_co_front "\<lambda>s. dom (cos s)" co_rest
proof (unfold_locales, goal_cases)
  case (1 p s v)
  then obtain c where c: "cos s p = Some c" by blast
  show ?case
    by (rule exI [of _ "s\<lparr>cos := (cos s)(p \<mapsto> c\<lparr>co_next := v\<rparr>)\<rparr>"])
      (use c in \<open>auto simp: set_co_next_def con_def cof_def co_rest_def co_unlinked_def fun_eq_iff\<close>)
next
  case (2 p s v)
  then obtain c where c: "cos s p = Some c" by blast
  show ?case
    by (rule exI [of _ "s\<lparr>cos := (cos s)(p \<mapsto> c\<lparr>co_front := v\<rparr>)\<rparr>"])
      (use c in \<open>auto simp: set_co_front_def con_def cof_def co_rest_def co_unlinked_def fun_eq_iff\<close>)
qed

lemma co_links: "cos s p = Some c \<Longrightarrow> co_next c = con s p" "cos s p = Some c \<Longrightarrow> co_front c = cof s p"
  by (simp_all add: con_def cof_def)

text \<open>The coroutines of the pool are exactly those of the ring, and the current one is its first.\<close>

definition co_inv :: "addr list \<Rightarrow> 'k pool \<Rightarrow> bool" where
  "co_inv xs s \<longleftrightarrow> ring (con s) (cof s) xs \<and> dom (cos s) = set xs \<and> hd xs = co_current s \<and> NULL \<notin> set xs"

end
