(* ===== verification/LibcoProofs.thy ===== *)
theory LibcoProofs
  imports Libco
begin

text \<open>
  The coroutine ring under \<open>co_start\<close>, \<open>co_yield\<close> and \<open>co_wait\<close>: it stays a ring of the
  live coroutines, the turn goes round it, and a dead coroutine that nobody took out breaks the turn.
\<close>

lemma co_inv_live: "co_inv xs s \<Longrightarrow> x \<in> set xs \<Longrightarrow> \<exists>c. cos s x = Some c"
  by (auto simp: co_inv_def)

lemma co_invD:
  assumes "co_inv (a # xs) s"
  shows "ring (con s) (cof s) (a # xs)" "dom (cos s) = set (a # xs)" "co_current s = a" "NULL \<notin> set (a # xs)"
  using assms by (auto simp: co_inv_def)

text \<open>Updates that keep the links keep the ring.\<close>

lemma co_inv_cong:
  assumes "co_inv xs s" and "dom (cos s') = dom (cos s)" and "co_current s' = hd xs"
    and "\<And>x. x \<in> set xs \<Longrightarrow> con s' x = con s x" and "\<And>x. x \<in> set xs \<Longrightarrow> cof s' x = cof s x"
  shows "co_inv xs s'"
  using assms ring_cong [of xs "con s'" "con s" "cof s'" "cof s"] by (simp add: co_inv_def)

lemma co_rest_Some:
  assumes "co_rest s' = co_rest s" and "cos s p = Some c"
  shows "\<exists>c'. cos s' p = Some c' \<and> co_unlinked c' = co_unlinked c"
  using arg_cong [OF assms(1), of "\<lambda>s. cos s p"] assms(2) by (cases "cos s' p") (auto simp: co_rest_def)

lemma co_rest_current: "co_rest s' = co_rest s \<Longrightarrow> co_current s' = co_current s"
  unfolding co_rest_def by (drule arg_cong [of _ _ co_current]) simp

lemma co_unlinked_eq:
  assumes "co_unlinked c' = co_unlinked c"
  shows "co_name c' = co_name c" "co_func c' = co_func c" "co_arg c' = co_arg c" "co_stat c' = co_stat c"
    "co_waiter c' = co_waiter c" "co_context c' = co_context c"
  using arg_cong [OF assms, of co_name] arg_cong [OF assms, of co_func] arg_cong [OF assms, of co_arg]
    arg_cong [OF assms, of co_stat] arg_cong [OF assms, of co_waiter] arg_cong [OF assms, of co_context]
  by (simp_all add: co_unlinked_def)

section \<open>Starting and waiting\<close>

lemma link_domains:
  "set_co_next p v s = Inr s' \<Longrightarrow> dom (cos s') = dom (cos s) \<and> co_current s' = co_current s"
  "set_co_front p v s = Inr s' \<Longrightarrow> dom (cos s') = dom (cos s) \<and> co_current s' = co_current s"
  by (auto simp: set_co_next_def set_co_front_def upd_co_def split: option.splits if_splits)

lemma get_co_dom: "p \<in> dom (cos s) \<Longrightarrow> \<exists>c. get_co p s = Inr c \<and> co_next c = con s p \<and> co_front c = cof s p"
  by (auto simp: con_def cof_def)

lemma co_start_ring:
  assumes inv: "co_inv (a # xs) s" and p: "p \<notin> set (a # xs)" "p \<noteq> NULL" and name: "length name < 64"
  shows "\<exists>s' c. co_start p junk name func arg s = Inr (p, s') \<and> co_inv (a # p # xs) s' \<and>
    cos s' p = Some c \<and> co_stat c = CO_NEW \<and> co_func c = func \<and> co_arg c = arg \<and> co_name c = name \<and>
    (\<forall>x. x \<noteq> p \<longrightarrow> map_option co_unlinked (cos s' x) = map_option co_unlinked (cos s x))"
proof -
  note I = co_invD [OF inv]
  let ?c = "junk\<lparr>co_name := name, co_func := func, co_arg := arg, co_stat := CO_NEW, co_waiter := NULL\<rparr>"
  let ?s = "s\<lparr>cos := (cos s)(p \<mapsto> ?c)\<rparr>"
  have "con ?s x = con s x" "cof ?s x = cof s x" if "x \<in> set (a # xs)" for x
    using that p by (auto simp: con_def cof_def)
  then have "ring (con ?s) (cof ?s) (a # xs) = ring (con s) (cof s) (a # xs)" by (rule ring_cong)
  with I(1) have r: "ring (con ?s) (cof ?s) (a # xs)" by simp
  have a: "a \<noteq> NULL" "a \<noteq> p" "co_current ?s = a" "a \<in> dom (cos ?s)" using I p by auto
  from co_ring.insert_after' [OF r _ _ p(1)] obtain s4 where
    e: "bindR (set_co_next p (con ?s a) ?s) (\<lambda>s1. bindR (set_co_front p a s1) (\<lambda>s2.
      bindR (set_co_front (con s2 a) p s2) (\<lambda>s3. set_co_next a p s3))) = Inr s4"
    and r': "ring (con s4) (cof s4) (a # p # xs)" and d: "dom (cos s4) = dom (cos ?s)" and rest: "co_rest s4 = co_rest ?s"
    using I(2) by auto
  from e obtain s1 s2 s3 where st: "set_co_next p (con ?s a) ?s = Inr s1" "set_co_front p a s1 = Inr s2"
    "set_co_front (con s2 a) p s2 = Inr s3" "set_co_next a p s3 = Inr s4"
    unfolding bindR_Inr_iff by blast
  have cur: "co_current s1 = a" "co_current s2 = a" "co_current s3 = a" "dom (cos s2) = dom (cos ?s)"
    using link_domains(1) [OF st(1)] link_domains(2) [OF st(2)] link_domains(2) [OF st(3)] a(3) by simp_all
  obtain c0 where c0: "get_co a ?s = Inr c0" "co_next c0 = con ?s a" using get_co_dom [OF a(4)] by blast
  obtain c2 where c2: "get_co a s2 = Inr c2" "co_next c2 = con s2 a" using get_co_dom [of a s2] a(4) cur(4) by blast
  have "co_start p junk name func arg s = Inr (p, s4)"
    using p(2) name a(1) c0 c2 st unfolding co_start_def Let_def a(3) by (simp add: cur)
  moreover have "co_inv (a # p # xs) s4"
    using r' d I(2,4) p co_rest_current [OF rest] a(3) by (auto simp: co_inv_def)
  moreover obtain c where "cos s4 p = Some c" "co_unlinked c = co_unlinked ?c"
    using co_rest_Some [OF rest, of p ?c] by auto
  moreover have "map_option co_unlinked (cos s4 x) = map_option co_unlinked (cos s x)" if "x \<noteq> p" for x
    using arg_cong [OF rest, of "\<lambda>s. cos s x"] that by (simp add: co_rest_def)
  ultimately show ?thesis using co_unlinked_eq [of c ?c] by simp
qed

text \<open>Leaving the loop of \<open>co_wait\<close>: the waiter runs again and the dead coroutine is out of the ring.\<close>

lemma co_wait_end_ring:
  assumes inv: "co_inv (a # xs) s" and p: "p \<in> set xs" and c: "cos s p = Some c" "co_waiter c = a"
  shows "\<exists>s'. co_wait_end p s = Inr s' \<and> co_inv (a # remove1 p xs) s' \<and>
    (\<forall>x. x \<noteq> p \<longrightarrow> map_option co_unlinked (cos s' x) =
       map_option co_unlinked (if x = a then map_option (\<lambda>c. c\<lparr>co_stat := CO_RUNNING\<rparr>) (cos s a) else cos s x))"
proof -
  note I = co_invD [OF inv]
  have dist: "distinct (a # xs)" using I(1) by (simp add: ring_def)
  obtain ys zs where xs: "xs = ys @ p # zs" using split_list [OF p] by blast
  have rm: "remove1 p xs = ys @ zs" using dist by (simp add: xs remove1_append)
  obtain ca where ca: "cos s a = Some ca" using I(2) by auto
  let ?s = "s\<lparr>cos := (cos s)(a \<mapsto> ca\<lparr>co_stat := CO_RUNNING\<rparr>)\<rparr>"
  have same: "con ?s = con s" "cof ?s = cof s" using ca by (auto simp: con_def cof_def fun_eq_iff)
  have "ring (con s) (cof s) ((a # ys) @ (p # zs))" using I(1) by (simp add: xs)
  then have r: "ring (con ?s) (cof ?s) (p # zs @ a # ys)" unfolding same using ring_rotate by fastforce
  have dm: "dom (cos ?s) = set (a # xs)" using I(2) by auto
  from co_ring.unlink' [OF r] obtain s2 where
    e: "bindR (set_co_next (cof ?s p) (con ?s p) ?s) (\<lambda>s1. set_co_front (con s1 p) (cof s1 p) s1) = Inr s2"
    and r': "ring (con s2) (cof s2) (zs @ a # ys)" and d: "dom (cos s2) = dom (cos ?s)" and rest: "co_rest s2 = co_rest ?s"
    using dm by (auto simp: xs)
  from e obtain s1 where st: "set_co_next (cof ?s p) (con ?s p) ?s = Inr s1" "set_co_front (con s1 p) (cof s1 p) s1 = Inr s2"
    unfolding bindR_Inr_iff by blast
  have pd: "p \<in> dom (cos ?s)" "p \<in> dom (cos s1)" using link_domains(1) [OF st(1)] dm p by auto
  obtain c0 where c0: "get_co p ?s = Inr c0" "co_next c0 = con ?s p" "co_front c0 = cof ?s p" using get_co_dom [OF pd(1)] by blast
  obtain c1 where c1: "get_co p s1 = Inr c1" "co_next c1 = con s1 p" "co_front c1 = cof s1 p" using get_co_dom [OF pd(2)] by blast
  let ?t = "s2\<lparr>cos := (cos s2)(p := None)\<rparr>"
  have run: "co_wait_end p s = Inr ?t"
    using c ca c0 c1 st by (simp add: co_wait_end_def)
  have "con ?t x = con s2 x" "cof ?t x = cof s2 x" if "x \<in> set (a # ys @ zs)" for x
    using that dist by (auto simp: con_def cof_def xs)
  then have "ring (con ?t) (cof ?t) (a # ys @ zs) = ring (con s2) (cof s2) (a # ys @ zs)" by (rule ring_cong)
  then have "ring (con ?t) (cof ?t) (a # ys @ zs)" using ring_rotate [OF r'] by simp
  moreover have "dom (cos ?t) = set (a # ys @ zs)" using d dm dist by (auto simp: xs)
  ultimately have "co_inv (a # remove1 p xs) ?t"
    using I(3,4) co_rest_current [OF rest] unfolding rm by (auto simp: co_inv_def xs)
  moreover have "map_option co_unlinked (cos ?t x) =
      map_option co_unlinked (if x = a then map_option (\<lambda>c. c\<lparr>co_stat := CO_RUNNING\<rparr>) (cos s a) else cos s x)" if "x \<noteq> p" for x
    using arg_cong [OF rest, of "\<lambda>s. cos s x"] that ca by (auto simp: co_rest_def)
  ultimately show ?thesis using run by blast
qed

section \<open>Turns\<close>

definition runnable :: "'k co \<Rightarrow> bool" where
  "runnable c \<longleftrightarrow> co_stat c \<noteq> CO_DEAD \<and> (co_stat c = CO_NEW \<or> co_context c \<noteq> None)"

text \<open>What a turn of the coroutine \<open>p\<close> begins with.\<close>

definition turn_of :: "addr \<Rightarrow> 'k co \<Rightarrow> 'k control" where
  "turn_of p c = (if co_stat c = CO_NEW then Starts p else Resumes (the (co_context c)))"

definition begun :: "'k co \<Rightarrow> 'k co" where
  "begun c = (if co_stat c = CO_NEW then c\<lparr>co_stat := CO_RUNNING\<rparr> else c)"

definition started :: "'k co \<Rightarrow> bool" where
  "started c \<longleftrightarrow> co_stat c \<noteq> CO_NEW \<and> co_stat c \<noteq> CO_DEAD"

lemma begun_fields [simp]:
  "co_next (begun c) = co_next c" "co_front (begun c) = co_front c" "co_context (begun c) = co_context c"
  "co_stat (begun c) \<noteq> CO_NEW" "co_stat (begun c) = CO_DEAD \<longleftrightarrow> co_stat c = CO_DEAD"
  by (auto simp: begun_def)

lemma co_yield_step:
  assumes "co_current s = a" and "cos s a = Some ca" and "co_next ca = b"
    and "((cos s)(a \<mapsto> ca\<lparr>co_context := Some here\<rparr>)) b = Some cb"
  defines "s1 \<equiv> s\<lparr>cos := (cos s)(a \<mapsto> ca\<lparr>co_context := Some here\<rparr>), co_current := b\<rparr>"
  shows "co_yield here s = (case co_stat cb of
      CO_NEW \<Rightarrow> bindR (upd_co b (\<lambda>c. c\<lparr>co_stat := CO_RUNNING\<rparr>) s1) (\<lambda>s3. Inr (Starts (co_current s3), s3))
    | CO_DEAD \<Rightarrow> Inr (Returns, s1)
    | _ \<Rightarrow> (case co_context cb of None \<Rightarrow> Inl Undefined_Behaviour | Some k \<Rightarrow> Inr (Resumes k, s1)))"
proof -
  let ?s = "s\<lparr>cos := (cos s)(a \<mapsto> ca\<lparr>co_context := Some here\<rparr>)\<rparr>"
  have u: "upd_co (co_current s) (\<lambda>c. c\<lparr>co_context := Some here\<rparr>) s = Inr ?s" using assms(1,2) by simp
  have g: "get_co (co_current ?s) ?s = Inr (ca\<lparr>co_context := Some here\<rparr>)" using assms(1) by simp
  have n: "?s\<lparr>co_current := co_next (ca\<lparr>co_context := Some here\<rparr>)\<rparr> = s1" using assms(3) by (simp add: s1_def)
  have c: "co_current s1 = b" "get_co b s1 = Inr cb" using assms(4) by (simp_all add: s1_def get_co_def)
  show ?thesis by (simp only: co_yield_def u g n c bindR_simps Let_def)
qed

text \<open>One yield of the current coroutine \<open>a\<close>, to its successor \<open>b\<close>.\<close>

lemma co_yield_turn:
  assumes inv: "co_inv (a # xs) s" and ca: "cos s a = Some ca" and b: "b = hd (xs @ [a])"
    and cb: "((cos s)(a \<mapsto> ca\<lparr>co_context := Some here\<rparr>)) b = Some cb" "runnable cb"
  shows "\<exists>s'. co_yield here s = Inr (turn_of b cb, s') \<and> co_inv (xs @ [a]) s' \<and>
    cos s' = (cos s)(a \<mapsto> ca\<lparr>co_context := Some here\<rparr>, b \<mapsto> begun cb)"
proof -
  note I = co_invD [OF inv]
  let ?cs = "(cos s)(a \<mapsto> ca\<lparr>co_context := Some here\<rparr>)"
  let ?s = "s\<lparr>cos := ?cs(b \<mapsto> begun cb), co_current := b\<rparr>"
  have n: "co_next ca = b" using ring_next(1) [OF I(1)] co_links(1) [OF ca] b by simp
  have idem: "?cs(b \<mapsto> cb) = ?cs" using cb(1) by (simp add: fun_upd_idem)
  have step: "co_yield here s = (case co_stat cb of
      CO_NEW \<Rightarrow> bindR (upd_co b (\<lambda>c. c\<lparr>co_stat := CO_RUNNING\<rparr>) (s\<lparr>cos := ?cs, co_current := b\<rparr>))
        (\<lambda>s3. Inr (Starts (co_current s3), s3))
    | CO_DEAD \<Rightarrow> Inr (Returns, s\<lparr>cos := ?cs, co_current := b\<rparr>)
    | _ \<Rightarrow> (case co_context cb of None \<Rightarrow> Inl Undefined_Behaviour
        | Some k \<Rightarrow> Inr (Resumes k, s\<lparr>cos := ?cs, co_current := b\<rparr>)))"
    by (rule co_yield_step [OF I(3) ca n cb(1)])
  have run: "co_yield here s = Inr (turn_of b cb, ?s)"
    unfolding step using cb idem
    by (cases "co_stat cb") (auto simp: turn_of_def begun_def runnable_def simp del: fun_upd_apply)
  have live: "b \<in> set (a # xs)" using b by (cases xs) auto
  have links: "con ?s x = con s x" "cof ?s x = cof s x" for x
    using ca cb(1) by (auto simp: con_def cof_def split: if_splits)
  have "ring (con ?s) (cof ?s) (a # xs) = ring (con s) (cof s) (a # xs)" by (rule ring_cong) (simp_all only: links)
  then have "ring (con ?s) (cof ?s) (a # xs)" using I(1) by (rule iffD2)
  then have "ring (con ?s) (cof ?s) (xs @ [a])" by (rule ring_rotate1)
  moreover have "dom (cos ?s) = set (xs @ [a])" using I(2) ca live by auto
  ultimately have "co_inv (xs @ [a]) ?s" using I(4) b by (auto simp: co_inv_def)
  with run show ?thesis by (intro exI [of _ ?s]) simp
qed

text \<open>A run in which every coroutine that gets the turn yields at once, at the points \<open>ks\<close>.\<close>

fun co_yields :: "'k list \<Rightarrow> 'k pool \<Rightarrow> ('k control list \<times> 'k pool) result" where
  "co_yields [] s = Inr ([], s)"
| "co_yields (k # ks) s =
     bindR (co_yield k s) (\<lambda>(c, s'). bindR (co_yields ks s') (\<lambda>(cs, s''). Inr (c # cs, s'')))"

lemma co_yields_snoc:
  "co_yields (ks @ [k]) s = bindR (co_yields ks s) (\<lambda>(cs, s'). bindR (co_yield k s') (\<lambda>(c, s''). Inr (cs @ [c], s'')))"
proof (induction ks arbitrary: s)
  case (Cons j ks)
  then show ?case by (cases "co_yield j s") (auto simp: bindR_def split: sum.splits prod.splits)
qed (auto simp: bindR_def split: sum.splits)

lemma co_yields_turns:
  assumes "co_inv (a # ys @ zs) s" and "length ks = length ys"
    and "\<forall>y\<in>set ys. \<exists>c. cos s y = Some c \<and> runnable c" and "cos s a = Some ca" "started ca"
  shows "\<exists>s'. co_yields ks s = Inr (map (\<lambda>y. turn_of y (the (cos s y))) ys, s') \<and>
    co_inv (last (a # ys) # zs @ butlast (a # ys)) s' \<and>
    (\<forall>i<length ys. \<exists>c. cos s' ((a # ys) ! i) = Some c \<and> co_context c = Some (ks ! i)) \<and>
    (\<forall>z\<in>set zs. cos s' z = cos s z) \<and>
    (\<forall>i<length ys. \<forall>c. cos s' ((a # ys) ! i) = Some c \<longrightarrow> started c) \<and>
    (\<exists>c. cos s' (last (a # ys)) = Some c \<and> started c)"
  using assms
proof (induction ys arbitrary: a zs s ks ca)
  case (Cons y ys)
  obtain k ks' where ks: "ks = k # ks'" "length ks' = length ys" using Cons.prems(2) by (cases ks) auto
  have "ring (con s) (cof s) (a # y # ys @ zs)" using co_invD(1) [OF Cons.prems(1)] by (simp only: append_Cons)
  then have dist: "distinct (a # y # ys @ zs)" unfolding ring_def by blast
  obtain cy where cy: "cos s y = Some cy" "runnable cy" using Cons.prems(3) by auto
  let ?ca = "ca\<lparr>co_context := Some k\<rparr>"
  have "((cos s)(a \<mapsto> ?ca)) y = Some cy" using cy(1) dist by auto
  from co_yield_turn [OF _ Cons.prems(4) _ this cy(2), of "y # ys @ zs"] obtain s1 where
    s1: "co_yield k s = Inr (turn_of y cy, s1)" "co_inv ((y # ys @ zs) @ [a]) s1"
      "cos s1 = (cos s)(a \<mapsto> ?ca, y \<mapsto> begun cy)"
    using Cons.prems(1) by auto
  have "co_inv (y # ys @ (zs @ [a])) s1" using s1(2) by simp
  moreover have "\<forall>y'\<in>set ys. \<exists>c. cos s1 y' = Some c \<and> runnable c" using Cons.prems(3) dist s1(3) by auto
  moreover have "cos s1 y = Some (begun cy)" "started (begun cy)"
    using s1(3) cy(2) by (simp_all add: started_def runnable_def)
  ultimately obtain s' where s': "co_yields ks' s1 = Inr (map (\<lambda>y. turn_of y (the (cos s1 y))) ys, s')"
    "co_inv (last (y # ys) # (zs @ [a]) @ butlast (y # ys)) s'"
    "\<forall>i<length ys. \<exists>c. cos s' ((y # ys) ! i) = Some c \<and> co_context c = Some (ks' ! i)"
    "\<forall>z\<in>set (zs @ [a]). cos s' z = cos s1 z"
    "\<forall>i<length ys. \<forall>c. cos s' ((y # ys) ! i) = Some c \<longrightarrow> started c"
    "\<exists>c. cos s' (last (y # ys)) = Some c \<and> started c"
    using Cons.IH [of y "zs @ [a]" s1 ks' "begun cy"] ks(2) by auto
  have a': "cos s' a = Some ?ca" using s'(4) s1(3) dist by auto
  have m: "map (\<lambda>y. turn_of y (the (cos s1 y))) ys = map (\<lambda>y. turn_of y (the (cos s y))) ys"
    using s1(3) dist by auto
  have run: "co_yields ks s = Inr (map (\<lambda>y. turn_of y (the (cos s y))) (y # ys), s')"
    using s1(1) s'(1) cy(1) by (simp add: ks(1) m)
  have ctx: "\<forall>i<length (y # ys). \<exists>c. cos s' ((a # y # ys) ! i) = Some c \<and> co_context c = Some (ks ! i)"
    using s'(3) a' by (auto simp: ks(1) less_Suc_eq_0_disj)
  have stat: "\<forall>i<length (y # ys). \<forall>c. cos s' ((a # y # ys) ! i) = Some c \<longrightarrow> started c"
    using s'(5) a' Cons.prems(5) by (auto simp: less_Suc_eq_0_disj started_def)
  have rest: "\<forall>z\<in>set zs. cos s' z = cos s z" using s'(4) s1(3) dist by auto
  have inv: "co_inv (last (a # y # ys) # zs @ butlast (a # y # ys)) s'" using s'(2) by simp
  from run inv ctx rest stat s'(6) show ?case by (intro exI [of _ s'] conjI) (assumption | simp)+
qed auto

text \<open>C27. Round robin of the coroutines: when each coroutine that gets the turn yields at once, one yield
  for every coroutine of the ring starts or resumes each other one exactly once, in ring order, at the
  point that it saved, and the last yield resumes the first coroutine right where it yielded.\<close>

lemma co_round_robin:
  assumes "co_inv (a # ys) s" and "length ks = length ys" and "cos s a = Some ca" and "started ca"
    and "\<forall>y\<in>set ys. \<exists>c. cos s y = Some c \<and> runnable c"
  shows "\<exists>s'. co_yields (ks @ [k]) s =
      Inr (map (\<lambda>y. turn_of y (the (cos s y))) ys @ [Resumes (hd (ks @ [k]))], s') \<and> co_inv (a # ys) s'"
proof -
  let ?l = "last (a # ys)" and ?f = "butlast (a # ys)"
  obtain s1 where s1: "co_yields ks s = Inr (map (\<lambda>y. turn_of y (the (cos s y))) ys, s1)" "co_inv (?l # ?f) s1"
    "\<forall>i<length ys. \<exists>c. cos s1 ((a # ys) ! i) = Some c \<and> co_context c = Some (ks ! i)"
    "\<forall>i<length ys. \<forall>c. cos s1 ((a # ys) ! i) = Some c \<longrightarrow> started c" "\<exists>c. cos s1 ?l = Some c \<and> started c"
    using co_yields_turns [of a ys "[]" s ks ca] assms by auto
  have ring: "?f @ [?l] = a # ys" by (rule append_butlast_last_id) simp
  then have hd: "a = hd (?f @ [?l])" by simp
  obtain cl where cl: "cos s1 ?l = Some cl" "started cl" using s1(5) by blast
  have "\<exists>c. ((cos s1)(?l \<mapsto> cl\<lparr>co_context := Some k\<rparr>)) a = Some c \<and> started c \<and> co_context c = Some (hd (ks @ [k]))"
  proof (cases ys)
    case Nil
    then show ?thesis using cl assms(2) by (simp add: started_def)
  next
    case (Cons y zs)
    have "a \<notin> set ys" using co_invD(1) [OF assms(1)] unfolding ring_def by simp
    moreover have "last ys \<in> set ys" using Cons by simp
    ultimately have "?l \<noteq> a" using Cons by (metis last_ConsR list.distinct(1))
    moreover obtain c where "cos s1 a = Some c" "co_context c = Some (ks ! 0)" "started c"
      using spec [OF s1(3), of 0] spec [OF s1(4), of 0] Cons by auto
    moreover have "hd (ks @ [k]) = ks ! 0" using Cons assms(2) by (cases ks) auto
    ultimately show ?thesis by simp
  qed
  then obtain c where c: "((cos s1)(?l \<mapsto> cl\<lparr>co_context := Some k\<rparr>)) a = Some c" "started c"
    "co_context c = Some (hd (ks @ [k]))" by blast
  then have "runnable c" "turn_of a c = Resumes (hd (ks @ [k]))" by (auto simp: runnable_def started_def turn_of_def)
  with co_yield_turn [OF s1(2) cl(1) hd c(1)] obtain s2 where
    "co_yield k s1 = Inr (Resumes (hd (ks @ [k])), s2)" "co_inv (?f @ [?l]) s2" by auto
  then show ?thesis using s1(1) unfolding co_yields_snoc ring by (intro exI [of _ s2]) simp
qed

text \<open>A coroutine with its fields, for examples.\<close>

definition mk_co :: "co_status \<Rightarrow> addr \<Rightarrow> addr \<Rightarrow> addr \<Rightarrow> nat option \<Rightarrow> nat co" where
  "mk_co st w nx fr k = \<lparr>co_name = ''main'', co_func = 5, co_arg = 7, co_stat = st, co_waiter = w, co_next = nx,
     co_front = fr, co_context = k\<rparr>"

definition ex_pool :: "co_status \<Rightarrow> nat pool" where
  "ex_pool st = \<lparr>cos = [1 \<mapsto> mk_co CO_WAITING NULL 2 3 None, 2 \<mapsto> mk_co st 1 3 1 (Some 20), 3 \<mapsto> mk_co CO_NEW NULL 1 2 None],
     co_current = 1\<rparr>"

lemma ex_pool_inv: "co_inv [1, 2, 3] (ex_pool st)"
  by (auto simp: co_inv_def ring_def ex_pool_def mk_co_def con_def cof_def)

lemma co_round_robin_witness:
  "\<exists>s'. co_yields [10, 11, 12] (ex_pool CO_RUNNING) = Inr ([Resumes 20, Starts 3, Resumes 10], s') \<and> co_inv [1, 2, 3] s'"
  using co_round_robin [of 1 "[2, 3]" "ex_pool CO_RUNNING" "[10, 11]" "mk_co CO_WAITING NULL 2 3 None" 12] ex_pool_inv [of CO_RUNNING]
  by (simp add: ex_pool_def mk_co_def started_def runnable_def turn_of_def)

text \<open>Waiting for a coroutine that is dead already returns at once: it is taken out of the ring and
  freed, the others keep their order, and the caller runs again.\<close>

lemma co_wait_dead:
  assumes "co_inv (a # xs) s" and "p \<in> set xs" and "cos s p = Some c" and "co_stat c = CO_DEAD" and "cos s a = Some ca"
  shows "\<exists>s' ca'. co_wait p here s = Inr (None, s') \<and> co_inv (a # remove1 p xs) s' \<and> cos s' p = None \<and>
    cos s' a = Some ca' \<and> co_unlinked ca' = co_unlinked (ca\<lparr>co_stat := CO_RUNNING\<rparr>)"
proof -
  have "ring (con s) (cof s) (a # xs)" by (rule co_invD(1) [OF assms(1)])
  then have dist: "a \<notin> set xs" "distinct xs" by (auto simp: ring_def)
  with assms(2) have pa: "p \<noteq> a" by blast
  note cur = co_invD(3) [OF assms(1)]
  let ?c = "c\<lparr>co_waiter := a\<rparr>"
  let ?s = "s\<lparr>cos := (cos s)(a \<mapsto> ca\<lparr>co_stat := CO_WAITING\<rparr>, p \<mapsto> ?c)\<rparr>"
  have b: "co_wait_begin p s = Inr ?s" using assms(3,5) pa by (simp add: co_wait_begin_def cur)
  have links: "con ?s x = con s x" "cof ?s x = cof s x" for x using assms(3,5) pa by (auto simp: con_def cof_def)
  have "co_inv (a # xs) ?s"
    by (rule co_inv_cong [OF assms(1)]) (use assms(3,5) pa cur links in \<open>auto simp del: list.set\<close>)
  from co_wait_end_ring [OF this assms(2), of ?c] obtain s' where
    s': "co_wait_end p ?s = Inr s'" "co_inv (a # remove1 p xs) s'"
    "\<forall>x. x \<noteq> p \<longrightarrow> map_option co_unlinked (cos s' x) =
       map_option co_unlinked (if x = a then map_option (\<lambda>c. c\<lparr>co_stat := CO_RUNNING\<rparr>) (cos ?s a) else cos ?s x)"
    by auto
  have "co_wait_loop p here ?s = Some (Inr (None, s'))"
    using s'(1) assms(4) pa by (subst co_wait_loop.simps) simp
  with b have run: "co_wait p here s = Inr (None, s')" by (simp add: co_wait_def)
  have "p \<notin> dom (cos s')" using s'(2) dist pa by (auto simp: co_inv_def)
  moreover obtain ca' where "cos s' a = Some ca'" "co_unlinked ca' = co_unlinked (ca\<lparr>co_stat := CO_RUNNING\<rparr>)"
    using spec [OF s'(3), of a] pa by (auto simp: co_unlinked_def)
  ultimately show ?thesis using run s'(2) by (intro exI [of _ s'] exI [of _ ca']) auto
qed

lemma co_wait_dead_witness:
  "\<exists>s' ca'. co_wait 2 10 (ex_pool CO_DEAD) = Inr (None, s') \<and> co_inv [1, 3] s' \<and> cos s' 2 = None \<and>
    cos s' 1 = Some ca' \<and> co_unlinked ca' = co_unlinked (mk_co CO_RUNNING NULL 2 3 None)"
  using co_wait_dead [of 1 "[2, 3]" "ex_pool CO_DEAD" 2 "mk_co CO_DEAD 1 3 1 (Some 20)" "mk_co CO_WAITING NULL 2 3 None" 10]
    ex_pool_inv [of CO_DEAD]
  by (simp add: ex_pool_def mk_co_def)

text \<open>A dead coroutine that nobody has waited for yet breaks the turn: the yield of its predecessor
  switches to nothing, it returns to the same caller with \<open>current\<close> moved onto the dead coroutine, and a
  coroutine whose function ends there returns from \<open>wrapper\<close> into nowhere.\<close>

lemma co_dead_neighbour:
  assumes "co_inv (a # b # xs) s" and "cos s a = Some ca" and "cos s b = Some cb" and "co_stat cb = CO_DEAD"
  shows "co_yield here s = Inr (Returns, s\<lparr>cos := (cos s)(a \<mapsto> ca\<lparr>co_context := Some here\<rparr>), co_current := b\<rparr>) \<and>
    wrapper_end a here s = Inl Undefined_Behaviour"
proof -
  have "ring (con s) (cof s) (a # b # xs)" by (rule co_invD(1) [OF assms(1)])
  then have ab: "a \<noteq> b" "con s a = b" using ring_next(1) [of "con s" "cof s" a "b # xs"] by (auto simp: ring_def)
  have n: "co_next ca = b" using co_links(1) [OF assms(2)] ab(2) by simp
  note cur = co_invD(3) [OF assms(1)]
  have "((cos s)(a \<mapsto> ca\<lparr>co_context := Some here\<rparr>)) b = Some cb" using assms(3) ab by simp
  from co_yield_step [OF cur assms(2) n this] have y:
    "co_yield here s = Inr (Returns, s\<lparr>cos := (cos s)(a \<mapsto> ca\<lparr>co_context := Some here\<rparr>), co_current := b\<rparr>)"
    unfolding assms(4) by (simp only: co_status.case)
  let ?ca = "ca\<lparr>co_stat := CO_DEAD\<rparr>"
  let ?s = "s\<lparr>cos := (cos s)(a \<mapsto> ?ca)\<rparr>"
  have "co_current ?s = a" "cos ?s a = Some ?ca" "co_next ?ca = b"
    "((cos ?s)(a \<mapsto> ?ca\<lparr>co_context := Some here\<rparr>)) b = Some cb" using cur n assms(3) ab by simp_all
  from co_yield_step [OF this] have "\<exists>s'. co_yield here ?s = Inr (Returns, s')" unfolding assms(4) by (simp only: co_status.case) blast
  moreover have "upd_co a (\<lambda>c. c\<lparr>co_stat := CO_DEAD\<rparr>) s = Inr ?s" using assms(2) by simp
  ultimately have "wrapper_end a here s = Inl Undefined_Behaviour" unfolding wrapper_end_def by auto
  with y show ?thesis by simp
qed

lemma co_dead_neighbour_witness:
  "co_yield 10 (ex_pool CO_DEAD) = Inr (Returns, ex_pool CO_DEAD\<lparr>cos := (cos (ex_pool CO_DEAD))(1 \<mapsto>
     (mk_co CO_WAITING NULL 2 3 None)\<lparr>co_context := Some 10\<rparr>), co_current := 2\<rparr>) \<and>
    wrapper_end 1 10 (ex_pool CO_DEAD) = Inl Undefined_Behaviour"
  by (rule co_dead_neighbour [of 1 2 "[3]" _ _ "mk_co CO_DEAD 1 3 1 (Some 20)", OF ex_pool_inv])
    (simp_all add: ex_pool_def mk_co_def)

end
