(* ===== verification/Fat.thy ===== *)
theory Fat
  imports Prelude
begin

text \<open>
  The lister of FAT32 images, \<open>fatree.c\<close>: the on-disk structures, the address arithmetic of
  clusters, and the traversal of the directory tree.  The image is mapped into memory up to the end of
  its last page; the address of a byte is its offset from \<open>hdr\<close>.
\<close>

section \<open>The mapped image\<close>

record image =
  img_bytes :: "nat \<Rightarrow> u8"
  img_size :: nat

definition img_mapped :: "image \<Rightarrow> nat" where
  "img_mapped d = (img_size d + 4095) div 4096 * 4096"

definition img_byte :: "image \<Rightarrow> nat \<Rightarrow> u8" where
  "img_byte d i = (if i < img_size d then img_bytes d i else 0)"

definition img_read :: "image \<Rightarrow> nat \<Rightarrow> nat \<Rightarrow> u8 list result" where
  "img_read d i n = (if i + n \<le> img_mapped d then Inr (map (img_byte d) [i..<i + n]) else Inl Out_Of_Bounds)"

text \<open>A C string at an address; without a NUL it runs off the mapping.\<close>

definition img_string :: "image \<Rightarrow> nat \<Rightarrow> u8 list result" where
  "img_string d i = (let xs = map (img_byte d) [i..<img_mapped d]; s = takeWhile (\<lambda>b. b \<noteq> 0) xs in
     if length s < length xs then Inr s else Inl Out_Of_Bounds)"

text \<open>Little-endian fields of a packed structure.\<close>

fun little_endian :: "u8 list \<Rightarrow> nat" where
  "little_endian [] = 0"
| "little_endian (b # bs) = unat b + 256 * little_endian bs"

definition fieldb :: "nat \<Rightarrow> nat \<Rightarrow> u8 list \<Rightarrow> u8 list" where
  "fieldb a n xs = take n (drop a xs)"

definition field8 :: "nat \<Rightarrow> u8 list \<Rightarrow> u8" where
  "field8 a xs = word_of_nat (little_endian (fieldb a 1 xs))"

definition field16 :: "nat \<Rightarrow> u8 list \<Rightarrow> u16" where
  "field16 a xs = word_of_nat (little_endian (fieldb a 2 xs))"

definition field32 :: "nat \<Rightarrow> u8 list \<Rightarrow> u32" where
  "field32 a xs = word_of_nat (little_endian (fieldb a 4 xs))"

section \<open>The structures\<close>

record fat32hdr =
  BS_jmpBoot :: "u8 list"
  BS_OEMName :: "u8 list"
  BPB_BytsPerSec :: u16
  BPB_SecPerClus :: u8
  BPB_RsvdSecCnt :: u16
  BPB_NumFATs :: u8
  BPB_RootEntCnt :: u16
  BPB_TotSec16 :: u16
  BPB_Media :: u8
  BPB_FATSz16 :: u16
  BPB_SecPerTrk :: u16
  BPB_NumHeads :: u16
  BPB_HiddSec :: u32
  BPB_TotSec32 :: u32
  BPB_FATSz32 :: u32
  BPB_ExtFlags :: u16
  BPB_FSVer :: u16
  BPB_RootClus :: u32
  BPB_FSInfo :: u16
  BPB_BkBootSec :: u16
  BPB_Reserved :: "u8 list"
  BS_DrvNum :: u8
  BS_Reserved1 :: u8
  BS_BootSig :: u8
  BS_VolID :: u32
  BS_VolLab :: "u8 list"
  BS_FilSysType :: "u8 list"
  hdr_padding_1 :: "u8 list"
  Signature_word :: u16

definition hdr_of :: "u8 list \<Rightarrow> fat32hdr" where
  "hdr_of xs = \<lparr>BS_jmpBoot = fieldb 0 3 xs, BS_OEMName = fieldb 3 8 xs, BPB_BytsPerSec = field16 11 xs,
     BPB_SecPerClus = field8 13 xs, BPB_RsvdSecCnt = field16 14 xs, BPB_NumFATs = field8 16 xs,
     BPB_RootEntCnt = field16 17 xs, BPB_TotSec16 = field16 19 xs, BPB_Media = field8 21 xs,
     BPB_FATSz16 = field16 22 xs, BPB_SecPerTrk = field16 24 xs, BPB_NumHeads = field16 26 xs,
     BPB_HiddSec = field32 28 xs, BPB_TotSec32 = field32 32 xs, BPB_FATSz32 = field32 36 xs,
     BPB_ExtFlags = field16 40 xs, BPB_FSVer = field16 42 xs, BPB_RootClus = field32 44 xs,
     BPB_FSInfo = field16 48 xs, BPB_BkBootSec = field16 50 xs, BPB_Reserved = fieldb 52 12 xs,
     BS_DrvNum = field8 64 xs, BS_Reserved1 = field8 65 xs, BS_BootSig = field8 66 xs, BS_VolID = field32 67 xs,
     BS_VolLab = fieldb 71 11 xs, BS_FilSysType = fieldb 82 8 xs, hdr_padding_1 = fieldb 90 420 xs,
     Signature_word = field16 510 xs\<rparr>"

record fat32dent =
  DIR_Name :: "u8 list"
  DIR_Attr :: u8
  DIR_NTRes :: u8
  DIR_CrtTimeTenth :: u8
  DIR_CrtTime :: u16
  DIR_CrtDate :: u16
  DIR_LastAccDate :: u16
  DIR_FstClusHI :: u16
  DIR_WrtTime :: u16
  DIR_WrtDate :: u16
  DIR_FstClusLO :: u16
  DIR_FileSize :: u32

definition dent_of :: "u8 list \<Rightarrow> fat32dent" where
  "dent_of xs = \<lparr>DIR_Name = fieldb 0 11 xs, DIR_Attr = field8 11 xs, DIR_NTRes = field8 12 xs,
     DIR_CrtTimeTenth = field8 13 xs, DIR_CrtTime = field16 14 xs, DIR_CrtDate = field16 16 xs,
     DIR_LastAccDate = field16 18 xs, DIR_FstClusHI = field16 20 xs, DIR_WrtTime = field16 22 xs,
     DIR_WrtDate = field16 24 xs, DIR_FstClusLO = field16 26 xs, DIR_FileSize = field32 28 xs\<rparr>"

definition read_hdr :: "image \<Rightarrow> fat32hdr result" where
  "read_hdr d = bindR (img_read d 0 512) (\<lambda>xs. Inr (hdr_of xs))"

definition read_dent :: "image \<Rightarrow> nat \<Rightarrow> fat32dent result" where
  "read_dent d p = bindR (img_read d p 32) (\<lambda>xs. Inr (dent_of xs))"

definition CLUS_INVALID :: u32 where "CLUS_INVALID = 0xffffff7"

definition ATTR_READ_ONLY :: u8 where "ATTR_READ_ONLY = 0x01"
definition ATTR_HIDDEN :: u8 where "ATTR_HIDDEN = 0x02"
definition ATTR_SYSTEM :: u8 where "ATTR_SYSTEM = 0x04"
definition ATTR_VOLUME_ID :: u8 where "ATTR_VOLUME_ID = 0x08"
definition ATTR_DIRECTORY :: u8 where "ATTR_DIRECTORY = 0x10"
definition ATTR_ARCHIVE :: u8 where "ATTR_ARCHIVE = 0x20"

section \<open>Clusters\<close>

text \<open>\<open>int\<close> arithmetic; overflow is undefined.\<close>

definition int_ok :: "int \<Rightarrow> bool" where
  "int_ok x \<longleftrightarrow> - (2 ^ 31) \<le> x \<and> x < 2 ^ 31"

definition next_cluster :: "image \<Rightarrow> fat32hdr \<Rightarrow> u32 \<Rightarrow> u32 result" where
  "next_cluster d h n =
     (let fat = uint (BPB_RsvdSecCnt h) * uint (BPB_BytsPerSec h); p = fat + 4 * sint n in
     bindR (guardR Undefined_Behaviour (int_ok fat)) (\<lambda>_.
     bindR (guardR Out_Of_Bounds (0 \<le> p)) (\<lambda>_.
     bindR (img_read d (nat p) 4) (\<lambda>xs. Inr (field32 0 xs)))))"

definition cluster_to_sec :: "fat32hdr \<Rightarrow> u32 \<Rightarrow> nat result" where
  "cluster_to_sec h n =
     (let DataSec = ucast (BPB_RsvdSecCnt h) + ucast (BPB_NumFATs h) * BPB_FATSz32 h;
       k = sint n - 2; off = k * uint (BPB_SecPerClus h) in
     bindR (guardR Undefined_Behaviour (int_ok k \<and> int_ok off)) (\<lambda>_.
     let DataSec = DataSec + word_of_int off in
     Inr (unat (DataSec * ucast (BPB_BytsPerSec h)))))"

section \<open>File names\<close>

fun filename_loop :: "nat \<Rightarrow> u8 list \<Rightarrow> u8 list" where
  "filename_loop i [] = []"
| "filename_loop i (x # xs) =
     (if x \<noteq> 0x20 then (if i = 8 then [0x2e] else []) @ [x] else []) @ filename_loop (Suc i) xs"

definition get_filename :: "fat32dent \<Rightarrow> u8 list" where
  "get_filename dent = filename_loop 0 (DIR_Name dent)"

section \<open>The program\<close>

text \<open>What \<open>printf\<close> and \<open>putchar\<close> are given: characters, a padded name, a size to be shown in
  KiB, a number in decimal or in hexadecimal.\<close>

datatype piece = Chars string | Bytes "u8 list" | Name12 "u8 list" | KiB u32 | Dec u32 | Hex u32

text \<open>The first failure in the mapping of the image, the checks of its header, what is printed.
  \<open>None\<close> for the image stands for a failing \<open>open\<close>, \<open>lseek\<close> or \<open>mmap\<close>, \<open>None\<close> as
  the result for \<open>exit(1)\<close>.\<close>

definition map_disk :: "string \<Rightarrow> image option \<Rightarrow> (fat32hdr \<times> piece list) option result" where
  "map_disk fname img = (case img of None \<Rightarrow> Inr None
     | Some d \<Rightarrow>
         bindR (read_hdr d) (\<lambda>hdr.
         bindR (guardR Assert_Fail (Signature_word hdr = 0xaa55)) (\<lambda>_.
         bindR (guardR Assert_Fail (unat (BPB_TotSec32 hdr * ucast (BPB_BytsPerSec hdr)) = img_size d)) (\<lambda>_.
         bindR (img_string d 3) (\<lambda>oem.
         Inr (Some (hdr,
           [Chars fname, Chars '': DOS/MBR boot sector, '', Chars (''OEM-ID '' @ [CHR 34]), Bytes oem, Chars ([CHR 34] @ '', ''),
            Chars ''sectors/cluster '', Dec (ucast (BPB_SecPerClus hdr)), Chars '', '',
            Chars ''sectors '', Dec (BPB_TotSec32 hdr), Chars '', '',
            Chars ''sectors '', Dec (BPB_TotSec32 hdr), Chars '', '',
            Chars ''sectors/FAT '', Dec (BPB_FATSz32 hdr), Chars '', '',
            Chars ''serial number 0x'', Hex (BS_VolID hdr), Chars [CHR 10]])))))))"

definition ndents :: "fat32hdr \<Rightarrow> nat" where
  "ndents h = unat (BPB_BytsPerSec h) * unat (BPB_SecPerClus h) div 32"

definition dent_at :: "image \<Rightarrow> fat32hdr \<Rightarrow> u32 \<Rightarrow> nat \<Rightarrow> fat32dent result" where
  "dent_at d h c k = bindR (cluster_to_sec h c) (\<lambda>p. read_dent d (p + 32 * k))"

definition dent_skipped :: "fat32dent \<Rightarrow> bool" where
  "dent_skipped e \<longleftrightarrow> hd (DIR_Name e) = 0 \<or> hd (DIR_Name e) = 0xe5 \<or> DIR_Attr e AND ATTR_HIDDEN \<noteq> 0"

definition dent_line :: "nat \<Rightarrow> fat32dent \<Rightarrow> piece list" where
  "dent_line depth e = [Chars (replicate (4 * depth) CHR '' ''), Chars ''['',
     Name12 (takeWhile (\<lambda>b. b \<noteq> 0) (get_filename e)), Chars ''] '', KiB (DIR_FileSize e), Chars '' KiB    '']"

definition data_clus :: "fat32dent \<Rightarrow> u32" where
  "data_clus e = ucast (DIR_FstClusLO e) OR push_bit 16 (ucast (DIR_FstClusHI e))"

definition is_directory :: "fat32dent \<Rightarrow> bool" where
  "is_directory e \<longleftrightarrow> DIR_Attr e AND ATTR_DIRECTORY \<noteq> 0"

text \<open>\<open>dfs\<close> and the loop over the entries of a cluster, with the pieces that they print.\<close>

function dfs :: "nat \<Rightarrow> image \<Rightarrow> fat32hdr \<Rightarrow> u32 \<Rightarrow> nat \<Rightarrow> bool \<Rightarrow> piece list result option"
  and dents :: "nat \<Rightarrow> image \<Rightarrow> fat32hdr \<Rightarrow> u32 \<Rightarrow> nat \<Rightarrow> nat list \<Rightarrow> piece list result option"
where
  "dfs 0 d h c depth is_dir = None"
| "dfs (Suc f) d h c depth is_dir =
     (if c < CLUS_INVALID then
        bindF (if is_dir then dents f d h c depth [0..<ndents h]
          else Some (Inr [Chars ''#'', Dec c, Chars '' ''])) (\<lambda>out.
        bindF (Some (next_cluster d h c)) (\<lambda>c'.
        bindF (dfs f d h c' depth is_dir) (\<lambda>out'. Some (Inr (out @ out')))))
      else Some (Inr []))"
| "dents f d h c depth [] = Some (Inr [])"
| "dents f d h c depth (k # ks) =
     bindF (Some (dent_at d h c k)) (\<lambda>e.
     bindF (if dent_skipped e then Some (Inr [])
       else if is_directory e then
         (if hd (DIR_Name e) \<noteq> 0x2e
          then bindF (dfs f d h (data_clus e) (depth + 1) True) (\<lambda>out.
            Some (Inr (dent_line depth e @ [Chars [CHR 10]] @ out)))
          else Some (Inr (dent_line depth e @ [Chars [CHR 10]])))
       else bindF (dfs f d h (data_clus e) (depth + 1) False) (\<lambda>out.
         Some (Inr (dent_line depth e @ out @ [Chars [CHR 10]])))) (\<lambda>out.
     bindF (dents f d h c depth ks) (\<lambda>out'. Some (Inr (out @ out')))))"
  by pat_completeness auto
termination
  by (relation "measures [case_sum (\<lambda>(f, _). f) (\<lambda>(f, _). f), case_sum (\<lambda>_. 0) (\<lambda>(f, d, h, c, dep, ks). 1 + length ks)]")
    (auto simp: case_sum_if)

text \<open>The program on an image, with \<open>hdr\<close> and what it printed.\<close>

definition fatree_main :: "nat \<Rightarrow> string \<Rightarrow> image option \<Rightarrow> piece list option result option" where
  "fatree_main f fname img =
     bindF (Some (map_disk fname img)) (\<lambda>m. case m of None \<Rightarrow> Some (Inr None)
       | Some (hdr, out) \<Rightarrow> bindF (dfs f (the img) hdr (BPB_RootClus hdr) 0 True) (\<lambda>out'.
           Some (Inr (Some (out @ out')))))"

end
