(* ===== verification/FatProofs.thy ===== *)
theory FatProofs
  imports Fat
begin

text \<open>
  What \<open>fatree.c\<close> prints for an image that holds a directory tree, and where its clusters lie.
\<close>

section \<open>Trees on an image\<close>

text \<open>The clusters from \<open>c\<close> on, as the FAT links them.\<close>

primrec chain :: "image \<Rightarrow> fat32hdr \<Rightarrow> u32 list \<Rightarrow> u32 \<Rightarrow> bool" where
  "chain d h [] c \<longleftrightarrow> \<not> c < CLUS_INVALID"
| "chain d h (x # xs) c \<longleftrightarrow> c = x \<and> c < CLUS_INVALID \<and> (\<exists>c'. next_cluster d h c = Inr c' \<and> chain d h xs c')"

definition dents_in :: "image \<Rightarrow> fat32hdr \<Rightarrow> u32 list \<Rightarrow> fat32dent result list" where
  "dents_in d h cs = concat (map (\<lambda>c. map (dent_at d h c) [0..<ndents h]) cs)"

datatype fnode = Skipped fat32dent | Dots fat32dent | File fat32dent "u32 list" | Folder fat32dent "u32 list" "fnode list"

fun shows_node :: "image \<Rightarrow> fat32hdr \<Rightarrow> fat32dent result \<Rightarrow> fnode \<Rightarrow> bool" where
  "shows_node d h r (Skipped e) \<longleftrightarrow> r = Inr e \<and> dent_skipped e"
| "shows_node d h r (Dots e) \<longleftrightarrow> r = Inr e \<and> \<not> dent_skipped e \<and> is_directory e \<and> hd (DIR_Name e) = 0x2e"
| "shows_node d h r (File e cs) \<longleftrightarrow> r = Inr e \<and> \<not> dent_skipped e \<and> \<not> is_directory e \<and> chain d h cs (data_clus e)"
| "shows_node d h r (Folder e cs ns) \<longleftrightarrow> r = Inr e \<and> \<not> dent_skipped e \<and> is_directory e \<and> hd (DIR_Name e) \<noteq> 0x2e \<and>
     chain d h cs (data_clus e) \<and> list_all2 (shows_node d h) (dents_in d h cs) ns"

text \<open>The listing of a tree.\<close>

definition clus_list :: "u32 list \<Rightarrow> piece list" where
  "clus_list cs = concat (map (\<lambda>c. [Chars ''#'', Dec c, Chars '' '']) cs)"

fun listing :: "nat \<Rightarrow> fnode \<Rightarrow> piece list" where
  "listing depth (Skipped e) = []"
| "listing depth (Dots e) = dent_line depth e @ [Chars [CHR 10]]"
| "listing depth (File e cs) = dent_line depth e @ clus_list cs @ [Chars [CHR 10]]"
| "listing depth (Folder e cs ns) = dent_line depth e @ [Chars [CHR 10]] @ concat (map (listing (depth + 1)) ns)"

definition lists_tree :: "image \<Rightarrow> fat32hdr \<Rightarrow> u32 \<Rightarrow> nat \<Rightarrow> piece list \<Rightarrow> bool" where
  "lists_tree d h c depth out \<longleftrightarrow> (\<exists>f0. \<forall>f\<ge>f0. dfs f d h c depth True = Some (Inr out))"

lemma dfs_file:
  assumes "chain d h cs c" and "length cs < f"
  shows "dfs f d h c depth False = Some (Inr (clus_list cs))"
  using assms
proof (induction cs arbitrary: c f)
  case Nil
  then show ?case by (cases f) (simp_all add: clus_list_def)
next
  case (Cons x xs)
  obtain g where f: "f = Suc g" "length xs < g" using Cons.prems(2) by (cases f) auto
  obtain c' where c': "next_cluster d h c = Inr c'" "chain d h xs c'" "c = x" "c < CLUS_INVALID" using Cons.prems(1) by auto
  show ?case using Cons.IH [OF c'(2) f(2)] c' by (simp add: f(1) clus_list_def)
qed

text \<open>The loop over the entries handles the entry \<open>r\<close>, shown as \<open>n\<close>, from some fuel on.\<close>

definition entry_ok :: "image \<Rightarrow> fat32hdr \<Rightarrow> nat \<Rightarrow> fat32dent result \<Rightarrow> fnode \<Rightarrow> bool" where
  "entry_ok d h depth r n \<longleftrightarrow> (\<exists>f0. \<forall>f\<ge>f0. \<forall>c k ks. dent_at d h c k = r \<longrightarrow>
     dents f d h c depth (k # ks) = bindF (dents f d h c depth ks) (\<lambda>out. Some (Inr (listing depth n @ out))))"

lemma dents_list:
  assumes "list_all2 (entry_ok d h depth) (map (dent_at d h c) ks) ns"
  shows "\<exists>f0. \<forall>f\<ge>f0. dents f d h c depth ks = Some (Inr (concat (map (listing depth) ns)))"
  using assms
proof (induction ks arbitrary: ns)
  case (Cons k ks)
  obtain n ns' where ns: "ns = n # ns'" "entry_ok d h depth (dent_at d h c k) n"
    "list_all2 (entry_ok d h depth) (map (dent_at d h c) ks) ns'" using Cons.prems by (auto simp: list_all2_Cons1)
  obtain f0 where f0: "\<forall>f\<ge>f0. dents f d h c depth ks = Some (Inr (concat (map (listing depth) ns')))"
    using Cons.IH [OF ns(3)] by blast
  obtain f1 where f1: "\<forall>f\<ge>f1. dents f d h c depth (k # ks) =
      bindF (dents f d h c depth ks) (\<lambda>out. Some (Inr (listing depth n @ out)))" using ns(2) unfolding entry_ok_def by blast
  have "dents f d h c depth (k # ks) = Some (Inr (concat (map (listing depth) ns)))" if "max f0 f1 \<le> f" for f
    using f0 f1 that by (simp only: max.bounded_iff ns(1) bindF_simps list.map concat.simps)
  then show ?case by blast
qed simp

lemma dfs_dir:
  assumes "chain d h cs c" and "list_all2 (entry_ok d h depth) (dents_in d h cs) ns"
  shows "lists_tree d h c depth (concat (map (listing depth) ns))"
  using assms
proof (induction cs arbitrary: c ns)
  case Nil
  have "dfs f d h c depth True = Some (Inr [])" if "1 \<le> f" for f using Nil.prems(1) that by (cases f) simp_all
  then show ?case using Nil.prems(2) unfolding lists_tree_def by (auto simp: dents_in_def)
next
  case (Cons x xs)
  have "list_all2 (entry_ok d h depth) (map (dent_at d h c) [0..<ndents h] @ dents_in d h xs) ns"
    using Cons.prems by (simp add: dents_in_def)
  then obtain ns1 ns2 where ns: "ns = ns1 @ ns2" "list_all2 (entry_ok d h depth) (map (dent_at d h c) [0..<ndents h]) ns1"
    "list_all2 (entry_ok d h depth) (dents_in d h xs) ns2" by (auto simp: list_all2_append1)
  obtain c' where c': "next_cluster d h c = Inr c'" "chain d h xs c'" "c < CLUS_INVALID" using Cons.prems(1) by auto
  obtain f0 where f0: "\<forall>f\<ge>f0. dfs f d h c' depth True = Some (Inr (concat (map (listing depth) ns2)))"
    using Cons.IH [OF c'(2) ns(3)] unfolding lists_tree_def by blast
  obtain f1 where f1: "\<forall>f\<ge>f1. dents f d h c depth [0..<ndents h] = Some (Inr (concat (map (listing depth) ns1)))"
    using dents_list [OF ns(2)] by blast
  have "dfs f d h c depth True = Some (Inr (concat (map (listing depth) ns)))" if f: "Suc (max f0 f1) \<le> f" for f
  proof -
    obtain g where g: "f = Suc g" "f0 \<le> g" "f1 \<le> g" using f by (cases f) auto
    show ?thesis using f0 f1 g(2,3) c'(1,3) by (simp add: g(1) ns(1))
  qed
  then show ?case unfolding lists_tree_def by blast
qed

lemma entry_node: "shows_node d h r n \<Longrightarrow> entry_ok d h depth r n"
proof (induction n arbitrary: r depth)
  case (File e cs)
  have r: "r = Inr e" "\<not> dent_skipped e" "\<not> is_directory e" "chain d h cs (data_clus e)" using File.prems by simp_all
  have "dents f d h c depth (k # ks) = bindF (dents f d h c depth ks) (\<lambda>out. Some (Inr (listing depth (File e cs) @ out)))"
    if "Suc (length cs) \<le> f" "dent_at d h c k = r" for f c k ks
    using dfs_file [OF r(4), of f "depth + 1"] that r by simp
  then show ?case unfolding entry_ok_def by blast
next
  case (Folder e cs ns)
  have r: "r = Inr e" "\<not> dent_skipped e" "is_directory e" "hd (DIR_Name e) \<noteq> 0x2e" "chain d h cs (data_clus e)"
    "list_all2 (shows_node d h) (dents_in d h cs) ns" using Folder.prems by simp_all
  have "list_all2 (entry_ok d h (depth + 1)) (dents_in d h cs) ns"
    by (rule list.rel_mono_strong [OF r(6)]) (rule Folder.IH)
  from dfs_dir [OF r(5) this] obtain f0 where
    f0: "\<forall>f\<ge>f0. dfs f d h (data_clus e) (depth + 1) True = Some (Inr (concat (map (listing (depth + 1)) ns)))"
    unfolding lists_tree_def by blast
  have "dents f d h c depth (k # ks) = bindF (dents f d h c depth ks) (\<lambda>out. Some (Inr (listing depth (Folder e cs ns) @ out)))"
    if "f0 \<le> f" "dent_at d h c k = r" for f c k ks using f0 that r by simp
  then show ?case unfolding entry_ok_def by blast
qed (auto simp: entry_ok_def)

text \<open>On an image whose header passes the checks and whose FAT and directories hold the tree \<open>ns\<close>, the
  program ends and prints the listing of the tree.\<close>

lemma fatree_lists_nodes:
  assumes "map_disk fname (Some d) = Inr (Some (h, out))" and "chain d h cs (BPB_RootClus h)"
    and "list_all2 (shows_node d h) (dents_in d h cs) ns"
  shows "\<exists>f0. \<forall>f\<ge>f0. fatree_main f fname (Some d) = Some (Inr (Some (out @ concat (map (listing 0) ns))))"
proof -
  have "list_all2 (entry_ok d h 0) (dents_in d h cs) ns" by (rule list.rel_mono_strong [OF assms(3)]) (rule entry_node)
  from dfs_dir [OF assms(2) this] obtain f0 where
    "\<forall>f\<ge>f0. dfs f d h (BPB_RootClus h) 0 True = Some (Inr (concat (map (listing 0) ns)))" unfolding lists_tree_def by blast
  then show ?thesis using assms(1) by (intro exI [of _ f0]) (simp add: fatree_main_def)
qed

text \<open>Bytes of an image given in pieces, and the fields of a structure in it.\<close>

fun overlay :: "(nat \<times> u8 list) list \<Rightarrow> nat \<Rightarrow> u8" where
  "overlay [] i = 0"
| "overlay ((a, xs) # r) i = (if a \<le> i \<and> i < a + length xs then xs ! (i - a) else overlay r i)"

lemma fieldb_map: "a + n \<le> m \<Longrightarrow> fieldb a n (map f [p..<p + m]) = map f [p + a..<p + a + n]"
  by (simp add: fieldb_def take_map drop_map)

lemma fields_map:
  "a + 1 \<le> m \<Longrightarrow> field8 a (map f [p..<p + m]) = word_of_nat (little_endian (map f [p + a..<p + a + 1]))"
  "a + 2 \<le> m \<Longrightarrow> field16 a (map f [p..<p + m]) = word_of_nat (little_endian (map f [p + a..<p + a + 2]))"
  "a + 4 \<le> m \<Longrightarrow> field32 a (map f [p..<p + m]) = word_of_nat (little_endian (map f [p + a..<p + a + 4]))"
  by (simp_all only: field8_def field16_def field32_def fieldb_map)

lemmas ex_fields = fields_map [of _ 512 _ 0, simplified] fields_map [of _ 32]

end
