(* ===== verification/FatSpec.thy ===== *)
theory FatSpec
  imports FatProofs
begin

text \<open>
  What a FAT32 image holds, read off its bytes as the specification of the file system describes them and
  without the definitions of \<open>fatree.c\<close>: the fields of the boot sector, the place of a cluster, the
  entries of the FAT, and the directory entries with their short names.  The listing of \<open>fatree.c\<close> is
  proved equal to the listing of this tree.
\<close>

section \<open>FAT32 volumes\<close>

text \<open>The number that the \<open>n\<close> bytes from \<open>a\<close> on hold, the lowest byte first.\<close>

definition rd :: "image \<Rightarrow> nat \<Rightarrow> nat \<Rightarrow> nat" where
  "rd d a n = (\<Sum>i<n. unat (img_bytes d (a + i)) * 256 ^ i)"

definition sector_size :: "image \<Rightarrow> nat" where "sector_size d = rd d 11 2"
definition clus_sectors :: "image \<Rightarrow> nat" where "clus_sectors d = rd d 13 1"
definition reserved :: "image \<Rightarrow> nat" where "reserved d = rd d 14 2"
definition num_fats :: "image \<Rightarrow> nat" where "num_fats d = rd d 16 1"
definition tot_sectors :: "image \<Rightarrow> nat" where "tot_sectors d = rd d 32 4"
definition fat_sectors :: "image \<Rightarrow> nat" where "fat_sectors d = rd d 36 4"
definition root_clus :: "image \<Rightarrow> nat" where "root_clus d = rd d 44 4"

text \<open>Cluster 2 is the first one of the data area, which follows the reserved sectors and the FATs.\<close>

definition clus_bytes :: "image \<Rightarrow> nat" where
  "clus_bytes d = clus_sectors d * sector_size d"

definition clus_addr :: "image \<Rightarrow> nat \<Rightarrow> nat" where
  "clus_addr d x = (reserved d + num_fats d * fat_sectors d) * sector_size d + (x - 2) * clus_bytes d"

definition fat_entry :: "image \<Rightarrow> nat \<Rightarrow> nat" where
  "fat_entry d x = rd d (reserved d * sector_size d + 4 * x) 4"

text \<open>A volume that fills the image, with a NUL behind its OEM name.\<close>

definition fat_volume :: "image \<Rightarrow> bool" where
  "fat_volume d \<longleftrightarrow> sector_size d \<in> {512, 1024, 2048, 4096} \<and> 1 \<le> clus_sectors d \<and> 1 \<le> num_fats d \<and>
     img_bytes d 510 = 0x55 \<and> img_bytes d 511 = 0xaa \<and> 1 \<le> tot_sectors d \<and>
     img_size d = tot_sectors d * sector_size d \<and> img_size d < 2 ^ 32 \<and>
     clus_addr d 2 \<le> img_size d \<and> (\<exists>i. 3 \<le> i \<and> i < img_size d \<and> img_bytes d i = 0)"

text \<open>A cluster number with an entry in the FAT, and one that has data in the image.\<close>

definition in_fat :: "image \<Rightarrow> nat \<Rightarrow> bool" where
  "in_fat d x \<longleftrightarrow> 4 * x + 4 \<le> fat_sectors d * sector_size d"

definition data_cluster :: "image \<Rightarrow> nat \<Rightarrow> bool" where
  "data_cluster d x \<longleftrightarrow> 2 \<le> x \<and> in_fat d x \<and> clus_addr d x + clus_bytes d \<le> img_size d"

text \<open>The end mark of a chain, with the four reserved bits of the entry clear, and the clusters that a
  chain consists of.\<close>

definition end_mark :: "nat \<Rightarrow> bool" where
  "end_mark x \<longleftrightarrow> 0xffffff8 \<le> x \<and> x \<le> 0xfffffff"

primrec clus_chain :: "image \<Rightarrow> nat list \<Rightarrow> nat \<Rightarrow> bool" where
  "clus_chain d [] x \<longleftrightarrow> end_mark x"
| "clus_chain d (c # cs) x \<longleftrightarrow> x = c \<and> data_cluster d c \<and> clus_chain d cs (fat_entry d c)"

text \<open>The addresses of the entries of a directory in the clusters \<open>cs\<close>.\<close>

definition entry_addrs :: "image \<Rightarrow> nat list \<Rightarrow> nat list" where
  "entry_addrs d cs = concat (map (\<lambda>c. map (\<lambda>k. clus_addr d c + 32 * k) [0..<clus_bytes d div 32]) cs)"

text \<open>A short name: up to eight characters and up to three more, each padded with spaces; it is shown with a
  dot between them if there are any in the second part.\<close>

definition pad :: "nat \<Rightarrow> u8 list \<Rightarrow> u8 list" where
  "pad n cs = cs @ replicate (n - length cs) 0x20"

definition name_chars :: "nat \<Rightarrow> u8 list \<Rightarrow> bool" where
  "name_chars n cs \<longleftrightarrow> length cs \<le> n \<and> (\<forall>c\<in>set cs. 0x20 < unat c)"

definition shown_name :: "u8 list \<Rightarrow> u8 list \<Rightarrow> u8 list" where
  "shown_name base ext = base @ (if ext = [] then [] else 0x2e # ext)"

definition named :: "image \<Rightarrow> nat \<Rightarrow> u8 list \<Rightarrow> bool" where
  "named d a name \<longleftrightarrow> (\<exists>base ext. base \<noteq> [] \<and> name_chars 8 base \<and> name_chars 3 ext \<and>
     map (\<lambda>i. img_bytes d (a + i)) [0..<11] = pad 8 base @ pad 3 ext \<and> name = shown_name base ext)"

text \<open>The directory entry at \<open>a\<close>: free, hidden, or with a name, a size and a first cluster; a name that
  begins with a dot is that of the directory itself or its parent.\<close>

definition entry_free :: "image \<Rightarrow> nat \<Rightarrow> bool" where
  "entry_free d a \<longleftrightarrow> img_bytes d a \<in> {0, 0xe5}"

definition attr :: "image \<Rightarrow> nat \<Rightarrow> nat \<Rightarrow> bool" where
  "attr d a k \<longleftrightarrow> bit (img_bytes d (a + 11)) k"

definition first_clus :: "image \<Rightarrow> nat \<Rightarrow> nat" where
  "first_clus d a = rd d (a + 26) 2 + 2 ^ 16 * rd d (a + 20) 2"

definition entry_size :: "image \<Rightarrow> nat \<Rightarrow> nat" where
  "entry_size d a = rd d (a + 28) 4"

definition visible :: "image \<Rightarrow> nat \<Rightarrow> u8 list \<Rightarrow> nat \<Rightarrow> bool" where
  "visible d a name sz \<longleftrightarrow> \<not> entry_free d a \<and> \<not> attr d a 1 \<and> named d a name \<and> sz = entry_size d a"

text \<open>An empty file has no cluster: its first cluster is 0, whose entry in the FAT is an end mark.\<close>

datatype fat_tree = Free | Hidden | Dot "u8 list" nat | Document "u8 list" nat "nat list"
  | Directory "u8 list" nat "nat list" "fat_tree list"

fun holds :: "image \<Rightarrow> nat \<Rightarrow> fat_tree \<Rightarrow> bool" where
  "holds d a Free \<longleftrightarrow> entry_free d a"
| "holds d a Hidden \<longleftrightarrow> \<not> entry_free d a \<and> attr d a 1"
| "holds d a (Dot name sz) \<longleftrightarrow> visible d a name sz \<and> attr d a 4 \<and> img_bytes d a = 0x2e"
| "holds d a (Document name sz cs) \<longleftrightarrow> visible d a name sz \<and> \<not> attr d a 4 \<and>
     (if cs = [] then first_clus d a = 0 \<and> in_fat d 0 \<and> end_mark (fat_entry d 0) else clus_chain d cs (first_clus d a))"
| "holds d a (Directory name sz cs ts) \<longleftrightarrow> visible d a name sz \<and> attr d a 4 \<and> img_bytes d a \<noteq> 0x2e \<and>
     clus_chain d cs (first_clus d a) \<and> list_all2 (holds d) (entry_addrs d cs) ts"

section \<open>The listing\<close>

text \<open>A line shows the name and the size; a file is followed by its clusters, an empty one by the number
  0, a directory by its entries, four columns to the right.\<close>

definition show_entry :: "nat \<Rightarrow> u8 list \<Rightarrow> nat \<Rightarrow> piece list" where
  "show_entry depth name sz = [Chars (replicate (4 * depth) CHR '' ''), Chars ''['', Name12 name, Chars ''] '',
     KiB (word_of_nat sz), Chars '' KiB    '']"

definition show_clusters :: "nat list \<Rightarrow> piece list" where
  "show_clusters cs = concat (map (\<lambda>c. [Chars ''#'', Dec (word_of_nat c), Chars '' '']) (if cs = [] then [0] else cs))"

fun show_tree :: "nat \<Rightarrow> fat_tree \<Rightarrow> piece list" where
  "show_tree depth Free = []"
| "show_tree depth Hidden = []"
| "show_tree depth (Dot name sz) = show_entry depth name sz @ [Chars [CHR 10]]"
| "show_tree depth (Document name sz cs) = show_entry depth name sz @ show_clusters cs @ [Chars [CHR 10]]"
| "show_tree depth (Directory name sz cs ts) =
     show_entry depth name sz @ [Chars [CHR 10]] @ concat (map (show_tree (depth + 1)) ts)"

definition show_volume :: "string \<Rightarrow> image \<Rightarrow> piece list" where
  "show_volume fname d = [Chars fname, Chars '': DOS/MBR boot sector, '',
     Chars (''OEM-ID '' @ [CHR 34]), Bytes (takeWhile (\<lambda>b. b \<noteq> 0) (map (img_bytes d) [3..<img_size d])), Chars ([CHR 34] @ '', ''),
     Chars ''sectors/cluster '', Dec (word_of_nat (clus_sectors d)), Chars '', '',
     Chars ''sectors '', Dec (word_of_nat (tot_sectors d)), Chars '', '',
     Chars ''sectors '', Dec (word_of_nat (tot_sectors d)), Chars '', '',
     Chars ''sectors/FAT '', Dec (word_of_nat (fat_sectors d)), Chars '', '',
     Chars ''serial number 0x'', Hex (word_of_nat (rd d 67 4)), Chars [CHR 10]]"

section \<open>Fields\<close>

lemma rd_Suc: "rd d a (Suc n) = unat (img_bytes d a) + 256 * rd d (Suc a) n"
  by (simp add: rd_def sum.lessThan_Suc_shift sum_distrib_left ac_simps del: sum.lessThan_Suc)

lemma rd_less: "rd d a n < 256 ^ n"
proof (induction n arbitrary: a)
  case (Suc n)
  have "unat (img_bytes d a) < 256" using unsigned_less [of "img_bytes d a"] by simp
  then show ?case using Suc.IH [of "Suc a"] unfolding rd_Suc by simp
qed (simp add: rd_def)

lemma little_endian_rd: "a + n \<le> img_size d \<Longrightarrow> little_endian (map (img_byte d) [a..<a + n]) = rd d a n"
proof (induction n arbitrary: a)
  case (Suc n)
  have "[a..<a + Suc n] = a # [Suc a..<Suc a + n]" by (simp add: upt_conv_Cons)
  then show ?case using Suc.IH [of "Suc a"] Suc.prems by (simp add: rd_Suc img_byte_def)
qed (simp add: rd_def)

lemma fields_rd:
  assumes "p + m \<le> img_size d"
  shows "a + 1 \<le> m \<Longrightarrow> field8 a (map (img_byte d) [p..<p + m]) = word_of_nat (rd d (p + a) 1)"
    "a + 2 \<le> m \<Longrightarrow> field16 a (map (img_byte d) [p..<p + m]) = word_of_nat (rd d (p + a) 2)"
    "a + 4 \<le> m \<Longrightarrow> field32 a (map (img_byte d) [p..<p + m]) = word_of_nat (rd d (p + a) 4)"
  by (simp_all only: fields_map, (subst little_endian_rd, use assms in simp, simp)+)

lemma rd_words:
  "unat (word_of_nat (rd d a 1) :: u8) = rd d a 1" "unat (word_of_nat (rd d a 2) :: u16) = rd d a 2"
  "unat (word_of_nat (rd d a 4) :: u32) = rd d a 4"
  using rd_less [of d a 1] rd_less [of d a 2] rd_less [of d a 4] by (simp_all add: unat_of_nat_small)

lemma ucast_of_unat: "ucast (w :: 'a :: len word) = word_of_nat (unat w)"
  by simp

lemma rd_ucast:
  "(ucast (word_of_nat (rd d a 1) :: u8) :: u32) = word_of_nat (rd d a 1)"
  "(ucast (word_of_nat (rd d a 2) :: u16) :: u32) = word_of_nat (rd d a 2)"
  by (simp_all only: ucast_of_unat rd_words)

lemma rd_1: "rd d a 1 = unat (img_bytes d a)"
  by (simp add: rd_def)

section \<open>The boot sector\<close>

definition vol_hdr :: "image \<Rightarrow> fat32hdr" where
  "vol_hdr d = hdr_of (map (img_byte d) [0..<512])"

lemma mult_less_imp_less: "a * b < c \<Longrightarrow> 0 < b \<Longrightarrow> a < (c :: nat)"
  by (rule le_less_trans [of a "a * b"]) simp_all

lemma volume_size:
  assumes "fat_volume d"
  shows "512 \<le> img_size d" "0 < sector_size d" "img_size d < 2 ^ 32"
proof -
  have s: "512 \<le> sector_size d" "1 \<le> tot_sectors d" "img_size d = tot_sectors d * sector_size d" "img_size d < 2 ^ 32"
    using assms by (auto simp: fat_volume_def)
  then show "0 < sector_size d" "img_size d < 2 ^ 32" by simp_all
  show "512 \<le> img_size d" using mult_le_mono [OF s(2,1)] unfolding s(3) by simp
qed

lemma vol_hdr_fields:
  assumes "fat_volume d"
  shows "unat (BPB_BytsPerSec (vol_hdr d)) = sector_size d" "unat (BPB_SecPerClus (vol_hdr d)) = clus_sectors d"
    "unat (BPB_RsvdSecCnt (vol_hdr d)) = reserved d" "unat (BPB_NumFATs (vol_hdr d)) = num_fats d"
    "BPB_TotSec32 (vol_hdr d) = word_of_nat (tot_sectors d)" "BPB_FATSz32 (vol_hdr d) = word_of_nat (fat_sectors d)"
    "BPB_RootClus (vol_hdr d) = word_of_nat (root_clus d)" "BS_VolID (vol_hdr d) = word_of_nat (rd d 67 4)"
    "Signature_word (vol_hdr d) = word_of_nat (rd d 510 2)"
proof -
  note f = fields_rd [of 0 512 d, simplified add_0, OF volume_size(1) [OF assms]]
  show "unat (BPB_BytsPerSec (vol_hdr d)) = sector_size d" "unat (BPB_SecPerClus (vol_hdr d)) = clus_sectors d"
    "unat (BPB_RsvdSecCnt (vol_hdr d)) = reserved d" "unat (BPB_NumFATs (vol_hdr d)) = num_fats d"
    "BPB_TotSec32 (vol_hdr d) = word_of_nat (tot_sectors d)" "BPB_FATSz32 (vol_hdr d) = word_of_nat (fat_sectors d)"
    "BPB_RootClus (vol_hdr d) = word_of_nat (root_clus d)" "BS_VolID (vol_hdr d) = word_of_nat (rd d 67 4)"
    "Signature_word (vol_hdr d) = word_of_nat (rd d 510 2)"
    unfolding vol_hdr_def hdr_of_def fat32hdr.simps
    by (subst f, simp, simp only: rd_words sector_size_def clus_sectors_def reserved_def num_fats_def tot_sectors_def
        fat_sectors_def root_clus_def)+
qed

lemma vol_ucast:
  assumes "fat_volume d"
  shows "(ucast (BPB_BytsPerSec (vol_hdr d)) :: u32) = word_of_nat (sector_size d)"
    "(ucast (BPB_SecPerClus (vol_hdr d)) :: u32) = word_of_nat (clus_sectors d)"
    "(ucast (BPB_RsvdSecCnt (vol_hdr d)) :: u32) = word_of_nat (reserved d)"
    "(ucast (BPB_NumFATs (vol_hdr d)) :: u32) = word_of_nat (num_fats d)"
  by (simp_all only: ucast_of_unat vol_hdr_fields [OF assms])

lemma mapped_ge: "img_size d \<le> img_mapped d"
  unfolding img_mapped_def using div_mult_mod_eq [of "img_size d + 4095" 4096] mod_less_divisor [of 4096 "img_size d + 4095"]
  by linarith

lemma img_read_in: "i + n \<le> img_size d \<Longrightarrow> img_read d i n = Inr (map (img_byte d) [i..<i + n])"
  using mapped_ge [of d] by (simp add: img_read_def)

lemma takeWhile_shorter: "x \<in> set xs \<Longrightarrow> \<not> P x \<Longrightarrow> length (takeWhile P xs) < length xs"
  by (induction xs) auto

lemma volume_oem:
  assumes "3 \<le> i" "i < img_size d" "img_bytes d i = 0"
  shows "img_string d 3 = Inr (takeWhile (\<lambda>b. b \<noteq> 0) (map (img_bytes d) [3..<img_size d]))"
proof -
  let ?p = "\<lambda>b. b \<noteq> (0 :: u8)" and ?xs = "map (img_bytes d) [3..<img_size d]" and ?ys = "map (img_byte d) [img_size d..<img_mapped d]"
  have "[3..<img_mapped d] = [3..<img_size d] @ [img_size d..<img_mapped d]"
    using assms mapped_ge [of d] upt_add_eq_append [of 3 "img_size d" "img_mapped d - img_size d"] by simp
  moreover have "map (img_byte d) [3..<img_size d] = ?xs" by (simp add: img_byte_def)
  ultimately have xs: "map (img_byte d) [3..<img_mapped d] = ?xs @ ?ys" by simp
  have z: "img_bytes d i \<in> set ?xs" using assms by simp
  then have tw: "takeWhile ?p (?xs @ ?ys) = takeWhile ?p ?xs" by (rule takeWhile_append1) (simp add: assms(3))
  have "length (takeWhile ?p ?xs) < length ?xs" by (rule takeWhile_shorter [OF z]) (simp add: assms(3))
  then show ?thesis unfolding img_string_def xs tw Let_def by simp
qed

lemma volume_map_disk:
  assumes "fat_volume d"
  shows "map_disk fname (Some d) = Inr (Some (vol_hdr d, show_volume fname d))"
proof -
  have h: "read_hdr d = Inr (vol_hdr d)"
    using img_read_in [of 0 512 d] volume_size(1) [OF assms] by (simp add: read_hdr_def vol_hdr_def)
  have "rd d 510 2 = unat (img_bytes d 510) + 256 * unat (img_bytes d 511)" by (simp add: rd_def numeral_2_eq_2)
  moreover have "img_bytes d 510 = 0x55" "img_bytes d 511 = 0xaa" using assms by (simp_all add: fat_volume_def)
  ultimately have "rd d 510 2 = 0xaa55" by simp
  then have s: "Signature_word (vol_hdr d) = 0xaa55" by (simp add: vol_hdr_fields [OF assms])
  have "(word_of_nat (tot_sectors d) * word_of_nat (sector_size d) :: u32) = word_of_nat (img_size d)"
    using assms by (simp add: fat_volume_def)
  then have z: "unat (BPB_TotSec32 (vol_hdr d) * ucast (BPB_BytsPerSec (vol_hdr d))) = img_size d"
    unfolding vol_hdr_fields(5) [OF assms] vol_ucast [OF assms] using volume_size(3) [OF assms] by (simp add: unat_of_nat_small)
  obtain i where "3 \<le> i" "i < img_size d" "img_bytes d i = 0" using assms unfolding fat_volume_def by blast
  note o = volume_oem [OF this]
  show ?thesis unfolding map_disk_def option.case h s z o bindR_simps guardR_def
    by (simp add: show_volume_def vol_hdr_fields [OF assms] vol_ucast [OF assms])
qed

section \<open>Clusters\<close>

lemma in_fat_bounds:
  assumes "fat_volume d" and "in_fat d x"
  shows "reserved d * sector_size d + 4 * x + 4 \<le> img_size d" "x < 2 ^ 30"
proof -
  have "fat_sectors d * sector_size d \<le> num_fats d * fat_sectors d * sector_size d" using assms(1) by (simp add: fat_volume_def)
  moreover have "reserved d * sector_size d + num_fats d * fat_sectors d * sector_size d \<le> img_size d"
    using assms(1) by (simp add: fat_volume_def clus_addr_def algebra_simps)
  ultimately show b: "reserved d * sector_size d + 4 * x + 4 \<le> img_size d" using assms(2) unfolding in_fat_def by linarith
  show "x < 2 ^ 30" using b volume_size(3) [OF assms(1)] by simp
qed

lemma sint_small_nat: "x < 2 ^ 31 \<Longrightarrow> sint (word_of_nat x :: u32) = int x"
  by (subst sint_small) (simp_all add: uint_nat unat_of_nat_small del: unsigned_of_nat uint_nat [symmetric])

lemma int_ok_nat: "n < 2 ^ 31 \<Longrightarrow> int_ok (int n)"
  by (simp add: int_ok_def)

lemma volume_next:
  assumes v: "fat_volume d" and x: "in_fat d x"
  shows "next_cluster d (vol_hdr d) (word_of_nat x) = Inr (word_of_nat (fat_entry d x))"
proof -
  let ?p = "reserved d * sector_size d"
  have "reserved d < 2 ^ 16" using rd_less [of d 14 2] by (simp add: reserved_def)
  moreover have "sector_size d \<le> 4096" using v by (auto simp: fat_volume_def)
  ultimately have "?p \<le> 2 ^ 16 * 4096" by (intro mult_le_mono) simp_all
  then have ok: "int_ok (int ?p)" by (intro int_ok_nat) simp
  have s: "sint (word_of_nat x :: u32) = int x" using in_fat_bounds(2) [OF v x] by (intro sint_small_nat) simp
  have f: "uint (BPB_RsvdSecCnt (vol_hdr d)) * uint (BPB_BytsPerSec (vol_hdr d)) = int ?p"
    by (simp only: uint_nat vol_hdr_fields [OF v] of_nat_mult)
  have n: "nat (int ?p + 4 * int x) = ?p + 4 * x" "0 \<le> int ?p + 4 * int x" by linarith+
  have "img_read d (?p + 4 * x) 4 = Inr (map (img_byte d) [?p + 4 * x..<?p + 4 * x + 4])"
    by (rule img_read_in) (rule in_fat_bounds(1) [OF v x])
  moreover have "field32 0 (map (img_byte d) [?p + 4 * x..<?p + 4 * x + 4]) = word_of_nat (fat_entry d x)"
    using fields_rd(3) [OF in_fat_bounds(1) [OF v x], of 0] by (simp only: fat_entry_def add_0_right order_refl add_0)
  ultimately show ?thesis unfolding next_cluster_def f s Let_def using ok n by (simp only: guardR_def if_True bindR_simps)
qed

lemma data_cluster_bounds:
  assumes v: "fat_volume d" and x: "data_cluster d x"
  shows "(x - 2) * clus_sectors d < 2 ^ 23" "x < 0xffffff7"
proof -
  have s: "512 \<le> sector_size d" "1 \<le> clus_sectors d" using v by (auto simp: fat_volume_def)
  have "(x - 2) * clus_sectors d * sector_size d < 2 ^ 32"
    using x volume_size(3) [OF v] by (simp add: data_cluster_def clus_addr_def clus_bytes_def ac_simps)
  moreover have "(x - 2) * clus_sectors d * 512 \<le> (x - 2) * clus_sectors d * sector_size d" using s by simp
  ultimately have "(x - 2) * clus_sectors d * 512 < 2 ^ 32" by (rule le_less_trans [rotated])
  then show a: "(x - 2) * clus_sectors d < 2 ^ 23" by (simp add: mult.commute)
  have "x - 2 < 2 ^ 23" using mult_less_imp_less [OF a] s(2) by simp
  then show "x < 0xffffff7" by simp
qed

lemma volume_cluster:
  assumes v: "fat_volume d" and x: "data_cluster d x"
  shows "cluster_to_sec (vol_hdr d) (word_of_nat x) = Inr (clus_addr d x)"
proof -
  let ?o = "(x - 2) * clus_sectors d" and ?s = "reserved d + num_fats d * fat_sectors d"
  have x2: "2 \<le> x" "in_fat d x" using x by (simp_all add: data_cluster_def)
  have s: "sint (word_of_nat x :: u32) = int x" using in_fat_bounds(2) [OF v x2(2)] by (intro sint_small_nat) simp
  have k: "int x - 2 = int (x - 2)" using x2(1) by simp
  have o: "int (x - 2) * uint (BPB_SecPerClus (vol_hdr d)) = int ?o" by (simp only: uint_nat vol_hdr_fields [OF v] of_nat_mult)
  have ok: "int_ok (int (x - 2))" "int_ok (int ?o)"
    using in_fat_bounds(2) [OF v x2(2)] data_cluster_bounds(1) [OF v x] by (intro int_ok_nat, simp)+
  have "ucast (BPB_RsvdSecCnt (vol_hdr d)) + ucast (BPB_NumFATs (vol_hdr d)) * BPB_FATSz32 (vol_hdr d) = (word_of_nat ?s :: u32)"
    by (simp only: vol_ucast [OF v] vol_hdr_fields(6) [OF v] of_nat_add of_nat_mult)
  moreover have "(word_of_nat ?s + word_of_int (int ?o)) * word_of_nat (sector_size d) = (word_of_nat (clus_addr d x) :: u32)"
  proof -
    have "clus_addr d x = (?s + ?o) * sector_size d" by (simp only: clus_addr_def clus_bytes_def add_mult_distrib mult.assoc)
    moreover have "(word_of_int (int ?o) :: u32) = word_of_nat ?o" by (rule of_int_of_nat_eq)
    ultimately show ?thesis by (simp only: of_nat_add [symmetric] of_nat_mult [symmetric])
  qed
  moreover have "unat (word_of_nat (clus_addr d x) :: u32) = clus_addr d x"
    using x volume_size(3) [OF v] by (intro unat_of_nat_small) (simp add: data_cluster_def)
  ultimately show ?thesis unfolding cluster_to_sec_def Let_def s k o vol_ucast [OF v]
    using ok by (simp only: guardR_def if_True bindR_simps simp_thms)
qed

definition vol_dent :: "image \<Rightarrow> nat \<Rightarrow> fat32dent" where
  "vol_dent d a = dent_of (map (img_byte d) [a..<a + 32])"

lemma volume_ndents: "fat_volume d \<Longrightarrow> ndents (vol_hdr d) = clus_bytes d div 32"
  by (simp add: ndents_def vol_hdr_fields clus_bytes_def ac_simps)

lemma entry_inside:
  assumes "data_cluster d x" and "k < clus_bytes d div 32"
  shows "clus_addr d x + 32 * k + 32 \<le> img_size d"
proof -
  have "32 * k + 32 \<le> 32 * (clus_bytes d div 32)" using assms(2) by simp
  also have "\<dots> \<le> clus_bytes d" by simp
  finally show ?thesis using assms(1) by (simp add: data_cluster_def)
qed

lemma volume_dents:
  assumes v: "fat_volume d" and "\<forall>x\<in>set cs. data_cluster d x"
  shows "dents_in d (vol_hdr d) (map word_of_nat cs) = map (\<lambda>a. Inr (vol_dent d a)) (entry_addrs d cs)"
    "\<forall>a\<in>set (entry_addrs d cs). a + 32 \<le> img_size d"
proof -
  have "dent_at d (vol_hdr d) (word_of_nat x) k = Inr (vol_dent d (clus_addr d x + 32 * k))"
    if "x \<in> set cs" "k < clus_bytes d div 32" for x k
    using that assms entry_inside [of d x k]
    by (simp add: dent_at_def volume_cluster read_dent_def img_read_in vol_dent_def)
  then show "dents_in d (vol_hdr d) (map word_of_nat cs) = map (\<lambda>a. Inr (vol_dent d a)) (entry_addrs d cs)"
    by (simp add: dents_in_def entry_addrs_def volume_ndents [OF v] map_concat comp_def)
      (auto intro!: arg_cong [where f = concat] map_cong)
  show "\<forall>a\<in>set (entry_addrs d cs). a + 32 \<le> img_size d"
    using assms(2) entry_inside by (auto simp: entry_addrs_def)
qed

lemma clus_chain_data: "clus_chain d cs x \<Longrightarrow> \<forall>c\<in>set cs. data_cluster d c"
  by (induction cs arbitrary: x) auto

lemma end_mark_word: "end_mark x \<Longrightarrow> \<not> (word_of_nat x :: u32) < CLUS_INVALID"
  by (simp add: end_mark_def CLUS_INVALID_def word_less_nat_alt unat_of_nat_small del: unsigned_of_nat)

lemma less_invalid: "x < 0xffffff7 \<Longrightarrow> (word_of_nat x :: u32) < CLUS_INVALID"
  by (simp add: CLUS_INVALID_def word_less_nat_alt unat_of_nat_small del: unsigned_of_nat)

lemma volume_chain:
  assumes v: "fat_volume d"
  shows "clus_chain d cs x \<Longrightarrow> chain d (vol_hdr d) (map word_of_nat cs) (word_of_nat x)"
proof (induction cs arbitrary: x)
  case (Cons c cs)
  then have c: "x = c" "data_cluster d c" "clus_chain d cs (fat_entry d c)" by simp_all
  then have "in_fat d c" by (simp add: data_cluster_def)
  then show ?case using Cons.IH [OF c(3)] c(1) less_invalid [OF data_cluster_bounds(2) [OF v c(2)]]
    by (simp add: volume_next [OF v])
qed (simp add: end_mark_word)

text \<open>An empty file.\<close>

lemma volume_chain_empty:
  assumes "fat_volume d" and "in_fat d 0" and "end_mark (fat_entry d 0)"
  shows "chain d (vol_hdr d) [0] 0"
  using volume_next [OF assms(1,2)] end_mark_word [OF assms(3)] by (simp add: CLUS_INVALID_def)

section \<open>Directory entries\<close>

lemma vol_dent_fields:
  assumes a: "a + 32 \<le> img_size d"
  shows "DIR_Name (vol_dent d a) = map (\<lambda>i. img_bytes d (a + i)) [0..<11]" "hd (DIR_Name (vol_dent d a)) = img_bytes d a"
    "DIR_Attr (vol_dent d a) = img_bytes d (a + 11)" "DIR_FileSize (vol_dent d a) = word_of_nat (entry_size d a)"
    "data_clus (vol_dent d a) = word_of_nat (first_clus d a)"
proof -
  have "fieldb 0 11 (map (img_byte d) [a..<a + 32]) = map (img_byte d) [a..<a + 11]" by (simp add: fieldb_map)
  moreover have "[a..<a + 11] = map (\<lambda>i. a + i) [0..<11]" by (simp add: map_add_upt add.commute [of a])
  ultimately show n: "DIR_Name (vol_dent d a) = map (\<lambda>i. img_bytes d (a + i)) [0..<11]"
    using a by (simp add: vol_dent_def dent_of_def img_byte_def)
  show "hd (DIR_Name (vol_dent d a)) = img_bytes d a" unfolding n by (simp add: hd_map)
  show "DIR_Attr (vol_dent d a) = img_bytes d (a + 11)"
    unfolding vol_dent_def dent_of_def fat32dent.simps by (subst fields_rd [OF a], simp) (simp only: rd_1 of_nat_unat ucast_id)
  show "DIR_FileSize (vol_dent d a) = word_of_nat (entry_size d a)"
    unfolding vol_dent_def dent_of_def fat32dent.simps entry_size_def by (rule fields_rd(3) [OF a]) simp
  let ?lo = "rd d (a + 26) 2" and ?hi = "rd d (a + 20) 2"
  have f: "DIR_FstClusLO (vol_dent d a) = word_of_nat ?lo" "DIR_FstClusHI (vol_dent d a) = word_of_nat ?hi"
    unfolding vol_dent_def dent_of_def fat32dent.simps by (rule fields_rd(2) [OF a], simp)+
  have "bit (word_of_nat ?lo :: u32) i \<Longrightarrow> i < 16" for i
  proof -
    have "take_bit 16 (word_of_nat ?lo :: u32) = word_of_nat ?lo"
      using rd_less [of d "a + 26" 2] by (simp add: take_bit_nat_eq_self flip: of_nat_take_bit)
    then show "bit (word_of_nat ?lo :: u32) i \<Longrightarrow> i < 16" by (metis bit_take_bit_iff)
  qed
  then have "(word_of_nat ?lo :: u32) AND push_bit 16 (word_of_nat ?hi) = 0"
    by (intro bit_word_eqI) (auto simp: bit_simps dest: leD)
  then have "(word_of_nat ?lo :: u32) OR push_bit 16 (word_of_nat ?hi) = word_of_nat ?lo + push_bit 16 (word_of_nat ?hi)"
    by (rule disjunctive_add_eq_or [symmetric])
  then show "data_clus (vol_dent d a) = word_of_nat (first_clus d a)"
    by (simp only: data_clus_def f rd_ucast first_clus_def of_nat_add of_nat_mult push_bit_eq_mult of_nat_power of_nat_numeral mult.commute)
qed

lemma dent_flags:
  assumes a: "a + 32 \<le> img_size d"
  shows "dent_skipped (vol_dent d a) \<longleftrightarrow> entry_free d a \<or> attr d a 1" "is_directory (vol_dent d a) \<longleftrightarrow> attr d a 4"
  using and_exp_eq_0_iff_not_bit [of "img_bytes d (a + 11)" 1] and_exp_eq_0_iff_not_bit [of "img_bytes d (a + 11)" 4]
  by (auto simp: dent_skipped_def is_directory_def vol_dent_fields(2-) [OF a] entry_free_def attr_def ATTR_HIDDEN_def ATTR_DIRECTORY_def)

lemma filename_append: "filename_loop i (xs @ ys) = filename_loop i xs @ filename_loop (i + length xs) ys"
  by (induction xs arbitrary: i) simp_all

lemma filename_spaces: "filename_loop i (replicate n 0x20) = []"
  by (induction n arbitrary: i) simp_all

lemma filename_plain: "\<forall>c\<in>set xs. c \<noteq> 0x20 \<Longrightarrow> i + length xs \<le> 8 \<or> 8 < i \<Longrightarrow> filename_loop i xs = xs"
proof (induction xs arbitrary: i)
  case (Cons x xs)
  show ?case using Cons.IH [of "Suc i"] Cons.prems by auto
qed simp

lemma filename_shown:
  assumes "name_chars 8 base" and "name_chars 3 ext"
  shows "filename_loop 0 (pad 8 base @ pad 3 ext) = shown_name base ext"
proof -
  have c: "\<forall>c\<in>set base. c \<noteq> 0x20" "\<forall>c\<in>set ext. c \<noteq> 0x20" "length base \<le> 8" using assms by (auto simp: name_chars_def)
  have l: "length (pad 8 base) = 8" using c(3) by (simp add: pad_def)
  have b: "filename_loop 0 (pad 8 base) = base" using c by (simp add: pad_def filename_append filename_spaces filename_plain)
  have e: "filename_loop 8 ext = (if ext = [] then [] else 0x2e # ext)"
    using c(2) by (cases ext) (simp_all add: filename_plain)
  show ?thesis unfolding filename_append l b using e by (simp add: pad_def filename_append filename_spaces shown_name_def)
qed

lemma named_filename:
  assumes a: "a + 32 \<le> img_size d" and n: "named d a name"
  shows "takeWhile (\<lambda>b. b \<noteq> 0) (get_filename (vol_dent d a)) = name"
proof -
  obtain base ext where b: "name_chars 8 base" "name_chars 3 ext" "DIR_Name (vol_dent d a) = pad 8 base @ pad 3 ext"
    "name = shown_name base ext" using n unfolding named_def vol_dent_fields [OF a] by blast
  have "\<forall>c\<in>set name. c \<noteq> 0" using b(1,2,4) by (auto simp: name_chars_def shown_name_def split: if_splits)
  then show ?thesis using b by (simp add: get_filename_def filename_shown takeWhile_eq_all_conv)
qed

lemma visible_line:
  assumes "a + 32 \<le> img_size d" and "visible d a name sz"
  shows "dent_line depth (vol_dent d a) = show_entry depth name sz"
  using assms named_filename [OF assms(1), of name] by (simp add: dent_line_def show_entry_def visible_def vol_dent_fields)

section \<open>Trees\<close>

definition shown_as :: "image \<Rightarrow> nat \<Rightarrow> fat_tree \<Rightarrow> fnode \<Rightarrow> bool" where
  "shown_as d a t n \<longleftrightarrow> shows_node d (vol_hdr d) (Inr (vol_dent d a)) n \<and> (\<forall>depth. listing depth n = show_tree depth t)"

lemma shown_list:
  assumes l: "list_all2 (\<lambda>a t. \<exists>n. shown_as d a t n) as ts"
  shows "\<exists>ns. list_all2 (shows_node d (vol_hdr d)) (map (\<lambda>a. Inr (vol_dent d a)) as) ns \<and>
    (\<forall>depth. map (listing depth) ns = map (show_tree depth) ts)"
  using assms
proof (induction rule: list_all2_induct)
  case (Cons a as t ts)
  then obtain n ns where "shown_as d a t n" "list_all2 (shows_node d (vol_hdr d)) (map (\<lambda>a. Inr (vol_dent d a)) as) ns"
    "\<forall>depth. map (listing depth) ns = map (show_tree depth) ts" by blast
  then show ?case by (intro exI [of _ "n # ns"]) (simp add: shown_as_def)
qed simp

lemma clusters_shown: "clus_list (map word_of_nat (if cs = [] then [0] else cs)) = show_clusters cs"
  by (simp add: clus_list_def show_clusters_def comp_def)

lemma holds_shown:
  assumes v: "fat_volume d"
  shows "holds d a t \<Longrightarrow> a + 32 \<le> img_size d \<Longrightarrow> \<exists>n. shown_as d a t n"
proof (induction t arbitrary: a)
  case (Document name sz cs)
  note f = dent_flags [OF Document.prems(2)] and l = visible_line [OF Document.prems(2)]
  let ?cs = "map word_of_nat (if cs = [] then [0] else cs) :: u32 list"
  have h: "visible d a name sz" "\<not> attr d a 4" using Document.prems(1) by simp_all
  have "chain d (vol_hdr d) ?cs (data_clus (vol_dent d a))"
    using Document.prems(1) volume_chain [OF v] volume_chain_empty [OF v]
    by (cases "cs = []") (simp_all add: vol_dent_fields [OF Document.prems(2)])
  then have "shown_as d a (Document name sz cs) (File (vol_dent d a) ?cs)"
    using h f l [OF h(1)] unfolding shown_as_def listing.simps show_tree.simps clusters_shown by (simp add: visible_def)
  then show ?case by blast
next
  case (Directory name sz cs ts)
  note f = dent_flags [OF Directory.prems(2)] and l = visible_line [OF Directory.prems(2)]
  have h: "visible d a name sz" "attr d a 4" "img_bytes d a \<noteq> 0x2e" "clus_chain d cs (first_clus d a)"
    "list_all2 (holds d) (entry_addrs d cs) ts" using Directory.prems(1) by simp_all
  note ds = volume_dents [OF v clus_chain_data [OF h(4)]]
  have "list_all2 (\<lambda>a t. \<exists>n. shown_as d a t n) (entry_addrs d cs) ts"
    by (rule list.rel_mono_strong [OF h(5)]) (use ds(2) Directory.IH in blast)
  then obtain ns where ns: "list_all2 (shows_node d (vol_hdr d)) (dents_in d (vol_hdr d) (map word_of_nat cs)) ns"
    "\<forall>depth. map (listing depth) ns = map (show_tree depth) ts" unfolding ds(1) using shown_list by blast
  have "shown_as d a (Directory name sz cs ts) (Folder (vol_dent d a) (map word_of_nat cs) ns)"
    using h f l [OF h(1)] volume_chain [OF v h(4)] ns
    by (simp add: shown_as_def visible_def vol_dent_fields(2-) [OF Directory.prems(2)])
  then show ?case by blast
next
  case (Dot name sz)
  note f = dent_flags [OF Dot.prems(2)] and l = visible_line [OF Dot.prems(2)]
  have "shown_as d a (Dot name sz) (Dots (vol_dent d a))"
    using Dot.prems f l [of name sz] by (simp add: shown_as_def visible_def vol_dent_fields(2-) [OF Dot.prems(2)])
  then show ?case by blast
next
  case Free
  then have "shown_as d a Free (Skipped (vol_dent d a))" by (simp add: shown_as_def dent_flags)
  then show ?case by blast
next
  case Hidden
  then have "shown_as d a Hidden (Skipped (vol_dent d a))" by (simp add: shown_as_def dent_flags)
  then show ?case by blast
qed

text \<open>C28. On an image that is a FAT32 volume and holds a directory tree, in the sense of its bytes, the program
  ends and prints the line on the volume and the listing of the tree: each entry that is neither free nor
  hidden once, with its name and size, indented by its depth, every file with the clusters of its chain
  in order.\<close>

theorem fatree_lists:
  assumes "fat_volume d" and "clus_chain d cs (root_clus d)" and "list_all2 (holds d) (entry_addrs d cs) ts"
  shows "\<exists>f0. \<forall>f\<ge>f0. fatree_main f fname (Some d) =
    Some (Inr (Some (show_volume fname d @ concat (map (show_tree 0) ts))))"
proof -
  note ds = volume_dents [OF assms(1) clus_chain_data [OF assms(2)]]
  have "list_all2 (\<lambda>a t. \<exists>n. shown_as d a t n) (entry_addrs d cs) ts"
    by (rule list.rel_mono_strong [OF assms(3)]) (use ds(2) holds_shown [OF assms(1)] in blast)
  then obtain ns where ns: "list_all2 (shows_node d (vol_hdr d)) (dents_in d (vol_hdr d) (map word_of_nat cs)) ns"
    "map (listing 0) ns = map (show_tree 0) ts" unfolding ds(1) using shown_list by blast
  have "chain d (vol_hdr d) (map word_of_nat cs) (BPB_RootClus (vol_hdr d))"
    unfolding vol_hdr_fields(7) [OF assms(1)] by (rule volume_chain [OF assms(1,2)])
  from fatree_lists_nodes [OF volume_map_disk [OF assms(1)] this ns(1)] show ?thesis unfolding ns(2) .
qed

section \<open>An example\<close>

text \<open>A file of two clusters, an empty file, a directory that holds only itself, a deleted entry and a
  hidden one.\<close>

definition vol_bytes :: "(nat \<times> u8 list) list" where
  "vol_bytes = [(11, [0, 2]), (13, [1]), (14, [1]), (16, [1]), (32, [6]), (36, [1]), (44, [2]), (510, [0x55, 0xaa]),
     (512, [0xf8, 0xff, 0xff, 0x0f]), (520, [0xff, 0xff, 0xff, 0x0f, 4, 0, 0, 0, 0xff, 0xff, 0xff, 0x0f, 0xff, 0xff, 0xff, 0x0f]),
     (1024, [0x41, 0x20, 0x20, 0x20, 0x20, 0x20, 0x20, 0x20, 0x54, 0x58, 0x54, 0x20]), (1050, [3]), (1052, [0x58, 2]),
     (1056, [0x45, 0x20, 0x20, 0x20, 0x20, 0x20, 0x20, 0x20, 0x20, 0x20, 0x20, 0x20]),
     (1088, [0x44, 0x20, 0x20, 0x20, 0x20, 0x20, 0x20, 0x20, 0x20, 0x20, 0x20, 0x10]), (1114, [5]),
     (1120, [0xe5]), (1152, [0x48, 0x20, 0x20, 0x20, 0x20, 0x20, 0x20, 0x20, 0x20, 0x20, 0x20, 0x02]),
     (2560, [0x2e, 0x20, 0x20, 0x20, 0x20, 0x20, 0x20, 0x20, 0x20, 0x20, 0x20, 0x10])]"

definition vol_image :: image where
  "vol_image = \<lparr>img_bytes = overlay vol_bytes, img_size = 3072\<rparr>"

definition vol_tree :: "fat_tree list" where
  "vol_tree = [Document [0x41, 0x2e, 0x54, 0x58, 0x54] 600 [3, 4], Document [0x45] 0 [],
     Directory [0x44] 0 [5] (Dot [0x2e] 0 # replicate 15 Free), Free, Hidden] @ replicate 11 Free"

lemma vol_byte: "img_bytes vol_image i = overlay vol_bytes i" "img_size vol_image = 3072"
  by (simp_all add: vol_image_def)

lemma rd_eval: "rd d a 2 = unat (img_bytes d a) + 256 * unat (img_bytes d (a + 1))"
  "rd d a 4 = unat (img_bytes d a) + 256 * (unat (img_bytes d (a + 1)) + 256 * (unat (img_bytes d (a + 2)) + 256 * unat (img_bytes d (a + 3))))"
proof -
  have e: "(2 :: nat) = Suc (Suc 0)" "(4 :: nat) = Suc (Suc (Suc (Suc 0)))" and z: "rd d b 0 = 0" for b by (simp_all add: rd_def)
  have "a + 1 = Suc a" "a + 2 = Suc (Suc a)" "a + 3 = Suc (Suc (Suc a))" by simp_all
  note s = this rd_Suc z mult_0_right add_0_right
  show "rd d a 2 = unat (img_bytes d a) + 256 * unat (img_bytes d (a + 1))" by (subst e(1)) (simp only: s)
  show "rd d a 4 = unat (img_bytes d a) + 256 * (unat (img_bytes d (a + 1)) + 256 * (unat (img_bytes d (a + 2)) + 256 * unat (img_bytes d (a + 3))))"
    by (subst e(2)) (simp only: s)
qed

lemma vol_numbers: "sector_size vol_image = 512" "clus_sectors vol_image = 1" "reserved vol_image = 1" "num_fats vol_image = 1"
  "tot_sectors vol_image = 6" "fat_sectors vol_image = 1" "root_clus vol_image = 2"
  by (simp_all only: sector_size_def clus_sectors_def reserved_def num_fats_def tot_sectors_def fat_sectors_def root_clus_def
      rd_eval rd_1 vol_byte) (simp_all add: vol_bytes_def)

lemma vol_volume: "fat_volume vol_image"
proof -
  have "img_bytes vol_image 510 = 0x55" "img_bytes vol_image 511 = 0xaa" "img_bytes vol_image 3 = 0"
    by (simp_all add: vol_byte vol_bytes_def)
  then show ?thesis by (auto simp: fat_volume_def vol_numbers clus_addr_def vol_byte(2) intro: exI [of _ 3])
qed

lemma vol_clusters: "clus_addr vol_image 2 = 1024" "clus_addr vol_image 5 = 2560" "clus_bytes vol_image = 512"
  "data_cluster vol_image 2" "data_cluster vol_image 3" "data_cluster vol_image 4" "data_cluster vol_image 5" "in_fat vol_image 0"
  by (simp_all add: clus_addr_def clus_bytes_def data_cluster_def in_fat_def vol_numbers vol_byte(2))

lemma vol_fat: "fat_entry vol_image 0 = 0xffffff8" "fat_entry vol_image 2 = 0xfffffff" "fat_entry vol_image 3 = 4"
  "fat_entry vol_image 4 = 0xfffffff" "fat_entry vol_image 5 = 0xfffffff"
  by (simp_all only: fat_entry_def vol_numbers rd_eval vol_byte) (simp_all add: vol_bytes_def)

lemma vol_names:
  "map (\<lambda>i. img_bytes vol_image (1024 + i)) [0..<11] = [0x41, 0x20, 0x20, 0x20, 0x20, 0x20, 0x20, 0x20, 0x54, 0x58, 0x54]"
  "map (\<lambda>i. img_bytes vol_image (1056 + i)) [0..<11] = 0x45 # replicate 10 0x20"
  "map (\<lambda>i. img_bytes vol_image (1088 + i)) [0..<11] = 0x44 # replicate 10 0x20"
  "map (\<lambda>i. img_bytes vol_image (2560 + i)) [0..<11] = 0x2e # replicate 10 0x20"
proof -
  have u: "[0..<11] = [0, 1, 2, 3, 4, 5, 6, 7, 8, 9, 10]" by (simp add: upt_rec)
  have r: "replicate 10 (0x20 :: u8) = [0x20, 0x20, 0x20, 0x20, 0x20, 0x20, 0x20, 0x20, 0x20, 0x20]" by (simp add: numeral_eq_Suc)
  show "map (\<lambda>i. img_bytes vol_image (1024 + i)) [0..<11] = [0x41, 0x20, 0x20, 0x20, 0x20, 0x20, 0x20, 0x20, 0x54, 0x58, 0x54]"
    "map (\<lambda>i. img_bytes vol_image (1056 + i)) [0..<11] = 0x45 # replicate 10 0x20"
    "map (\<lambda>i. img_bytes vol_image (1088 + i)) [0..<11] = 0x44 # replicate 10 0x20"
    "map (\<lambda>i. img_bytes vol_image (2560 + i)) [0..<11] = 0x2e # replicate 10 0x20"
    by (simp_all add: u r vol_byte vol_bytes_def)
qed

lemma pad_single: "pad 8 [c] @ pad 3 [] = c # replicate 10 0x20"
  by (simp add: pad_def flip: replicate_add)

lemma named_single:
  assumes "map (\<lambda>i. img_bytes d (a + i)) [0..<11] = c # replicate 10 0x20" and "0x20 < unat c"
  shows "named d a [c]"
  unfolding named_def by (rule exI [of _ "[c]"], rule exI [of _ "[]"]) (use assms in \<open>simp add: pad_single name_chars_def shown_name_def\<close>)

lemma vol_named:
  "named vol_image 1024 [0x41, 0x2e, 0x54, 0x58, 0x54]" "named vol_image 1056 [0x45]" "named vol_image 1088 [0x44]"
  "named vol_image 2560 [0x2e]"
proof -
  have p: "pad 8 [0x41] @ pad 3 [0x54, 0x58, 0x54] = [0x41, 0x20, 0x20, 0x20, 0x20, 0x20, 0x20, 0x20, 0x54, 0x58, 0x54]"
    by (simp add: pad_def numeral_eq_Suc)
  show "named vol_image 1024 [0x41, 0x2e, 0x54, 0x58, 0x54]" unfolding named_def vol_names
    by (rule exI [of _ "[0x41]"], rule exI [of _ "[0x54, 0x58, 0x54]"]) (simp add: p name_chars_def shown_name_def)
  show "named vol_image 1056 [0x45]" "named vol_image 1088 [0x44]" "named vol_image 2560 [0x2e]"
    by (rule named_single, rule vol_names, simp)+
qed

lemma vol_flags:
  "img_bytes vol_image 1024 = 0x41" "img_bytes vol_image 1056 = 0x45" "img_bytes vol_image 1088 = 0x44"
  "img_bytes vol_image 1152 = 0x48" "img_bytes vol_image 2560 = 0x2e"
  "\<not> attr vol_image 1024 1" "\<not> attr vol_image 1024 4" "\<not> attr vol_image 1056 1" "\<not> attr vol_image 1056 4"
  "\<not> attr vol_image 1088 1" "attr vol_image 1088 4" "attr vol_image 1152 1" "\<not> attr vol_image 2560 1" "attr vol_image 2560 4"
  by (simp_all add: attr_def vol_byte vol_bytes_def)

lemma vol_starts:
  "entry_size vol_image 1024 = 600" "entry_size vol_image 1056 = 0" "entry_size vol_image 1088 = 0" "entry_size vol_image 2560 = 0"
  "first_clus vol_image 1024 = 3" "first_clus vol_image 1056 = 0" "first_clus vol_image 1088 = 5"
  by (simp_all only: entry_size_def first_clus_def rd_eval vol_byte) (simp_all add: vol_bytes_def)

lemma vol_free: "list_all (entry_free vol_image) (1120 # map (\<lambda>k. 1184 + 32 * k) [0..<11])"
    "list_all (entry_free vol_image) (map (\<lambda>k. 2592 + 32 * k) [0..<15])"
  by (simp_all add: upt_rec entry_free_def vol_byte vol_bytes_def)

lemma holds_free: "list_all (entry_free d) as \<Longrightarrow> n = length as \<Longrightarrow> list_all2 (holds d) as (replicate n Free)"
  by (induction as arbitrary: n) auto

lemma vol_addrs: "entry_addrs vol_image [2] = [1024, 1056, 1088, 1120, 1152] @ map (\<lambda>k. 1184 + 32 * k) [0..<11]"
  "entry_addrs vol_image [5] = 2560 # map (\<lambda>k. 2592 + 32 * k) [0..<15]"
  by (simp_all add: entry_addrs_def vol_clusters upt_rec)

lemma vol_holds: "list_all2 (holds vol_image) (entry_addrs vol_image [2]) vol_tree"
proof -
  have v: "visible vol_image 1024 [0x41, 0x2e, 0x54, 0x58, 0x54] 600" "visible vol_image 1056 [0x45] 0" "visible vol_image 1088 [0x44] 0"
    "visible vol_image 2560 [0x2e] 0"
    by (simp_all only: visible_def vol_named vol_flags vol_starts entry_free_def simp_thms) simp_all
  have "holds vol_image 1024 (Document [0x41, 0x2e, 0x54, 0x58, 0x54] 600 [3, 4])"
    using v(1) vol_flags vol_starts vol_clusters vol_fat by (simp add: end_mark_def)
  moreover have "holds vol_image 1056 (Document [0x45] 0 [])"
    using v(2) vol_flags vol_starts vol_clusters vol_fat by (simp add: end_mark_def)
  moreover have "list_all2 (holds vol_image) (entry_addrs vol_image [5]) (Dot [0x2e] 0 # replicate 15 Free)"
    unfolding vol_addrs(2) list_all2_Cons using holds_free [OF vol_free(2)] v(4) vol_flags by simp
  then have "holds vol_image 1088 (Directory [0x44] 0 [5] (Dot [0x2e] 0 # replicate 15 Free))"
    using v(3) vol_flags vol_starts vol_clusters vol_fat by (simp add: end_mark_def)
  moreover have "holds vol_image 1120 Free" "holds vol_image 1152 Hidden"
    using vol_free(1) vol_flags by (simp_all add: entry_free_def)
  moreover have "list_all2 (holds vol_image) (map (\<lambda>k. 1184 + 32 * k) [0..<11]) (replicate 11 Free)"
    by (rule holds_free) (use vol_free(1) in simp_all)
  ultimately show ?thesis unfolding vol_addrs vol_tree_def append_Cons append_Nil list_all2_Cons by (simp only: simp_thms)
qed

theorem fatree_lists_witness:
  "\<exists>f0. \<forall>f\<ge>f0. fatree_main f ''disk'' (Some vol_image) =
    Some (Inr (Some (show_volume ''disk'' vol_image @ concat (map (show_tree 0) vol_tree))))"
proof -
  have "clus_chain vol_image [2] (root_clus vol_image)" by (simp add: vol_numbers vol_clusters vol_fat end_mark_def)
  then show ?thesis by (rule fatree_lists [OF vol_volume _ vol_holds])
qed

end
