(* ===== verification/Frecov.thy ===== *)
theory Frecov
  imports Fat
begin

text \<open>
  The recovery of files from a formatted FAT32 image, \<open>frecov/frecov.c\<close>: every cluster that looks
  like a directory is searched for entries of files, with their long names, and the first cluster of
  each file is written to \<open>/tmp\<close>.  The shell, \<open>fopen\<close> and \<open>sha1sum\<close> are parameters.
\<close>

section \<open>Long names\<close>

record fat32Ldent =
  LDIR_Ord :: u8
  LDIR_Name1 :: "u16 list"
  LDIR_Attr :: u8
  LDIR_Type :: u8
  LDIR_Chksum :: u8
  LDIR_Name2 :: "u16 list"
  LDIR_FstClusLO :: u16
  LDIR_Name3 :: "u16 list"

definition units_at :: "nat \<Rightarrow> nat \<Rightarrow> u8 list \<Rightarrow> u16 list" where
  "units_at a n xs = map (\<lambda>i. field16 (a + 2 * i) xs) [0..<n]"

definition ldent_of :: "u8 list \<Rightarrow> fat32Ldent" where
  "ldent_of xs = \<lparr>LDIR_Ord = field8 0 xs, LDIR_Name1 = units_at 1 5 xs, LDIR_Attr = field8 11 xs,
     LDIR_Type = field8 12 xs, LDIR_Chksum = field8 13 xs, LDIR_Name2 = units_at 14 6 xs,
     LDIR_FstClusLO = field16 26 xs, LDIR_Name3 = units_at 28 2 xs\<rparr>"

definition read_ldent :: "image \<Rightarrow> nat \<Rightarrow> fat32Ldent result" where
  "read_ldent d p = bindR (img_read d p 32) (\<lambda>xs. Inr (ldent_of xs))"

definition ATTR_LONG_NAME :: u8 where
  "ATTR_LONG_NAME = ATTR_READ_ONLY OR ATTR_HIDDEN OR ATTR_SYSTEM OR ATTR_VOLUME_ID"

text \<open>A loop that copies units to \<open>buf\<close> up to the filler \<open>0xffff\<close>; the flag says that it met one.
  The characters written to the zeroed \<open>buf\<close> so far are \<open>acc\<close>.\<close>

fun copy_units :: "u16 list \<Rightarrow> u8 list \<Rightarrow> u8 list \<times> bool" where
  "copy_units [] acc = (acc, False)"
| "copy_units (u # us) acc = (if u \<noteq> 0xffff then copy_units us (acc @ [ucast u]) else (acc, True))"

definition copy_ldent :: "fat32Ldent \<Rightarrow> u8 list \<Rightarrow> u8 list \<times> bool" where
  "copy_ldent e acc =
     (let (acc, flag) = copy_units (LDIR_Name1 e) acc in
      if flag then (acc, flag) else
     (let (acc, flag) = copy_units (LDIR_Name2 e) acc in
      if flag then (acc, flag) else copy_units (LDIR_Name3 e) acc))"

text \<open>The loop \<open>while(LdentNum --)\<close>, from the entry at \<open>p\<close> downwards.\<close>

fun long_name :: "image \<Rightarrow> nat \<Rightarrow> nat \<Rightarrow> u8 list \<Rightarrow> u8 list result" where
  "long_name d p 0 acc = Inr acc"
| "long_name d p (Suc n) acc =
     bindR (read_ldent d p) (\<lambda>e. let (acc, flag) = copy_ldent e acc in
     if flag then Inr acc else long_name d (p - 32) n acc)"

section \<open>Files\<close>

text \<open>What the recovery of one file does: append \<open>rec_data\<close> to the file \<open>rec_path\<close>, run
  \<open>rec_command\<close>, print its first word and the name.\<close>

record recovery =
  rec_path :: "u8 list"
  rec_data :: "u8 list"
  rec_command :: "u8 list"
  rec_name :: "u8 list"

definition ascii :: "string \<Rightarrow> u8 list" where
  "ascii s = map (\<lambda>c. of_char c) s"

definition c_str :: "u8 list \<Rightarrow> u8 list" where
  "c_str = takeWhile (\<lambda>b. b \<noteq> 0)"

definition BytesPerClus :: "fat32hdr \<Rightarrow> nat" where
  "BytesPerClus h = unat (BPB_BytsPerSec h) * unat (BPB_SecPerClus h)"

text \<open>The arrays \<open>filename\<close> and \<open>commands\<close> have 128 bytes, \<open>databuf\<close> 4096; when no NUL is among the
  copied bytes, \<open>fprintf\<close> reads bytes that were never written, or past the array.\<close>

definition file_recovery :: "(u8 list \<Rightarrow> bool) \<Rightarrow> image \<Rightarrow> fat32hdr \<Rightarrow> fat32dent \<Rightarrow> u8 list \<Rightarrow> recovery result" where
  "file_recovery opens d h dent name =
     (let filename = ascii ''/tmp/'' @ c_str name in
     bindR (guardR Out_Of_Bounds (length filename < 128)) (\<lambda>_.
     bindR (cluster_to_sec h (data_clus dent)) (\<lambda>ClusBegin.
     bindR (guardR Out_Of_Bounds (BytesPerClus h \<le> 4096)) (\<lambda>_.
     bindR (img_read d ClusBegin (BytesPerClus h)) (\<lambda>databuf.
     bindR (guardR Null_Deref (opens filename)) (\<lambda>_.
     bindR (guardR Undefined_Behaviour (0 \<in> set databuf)) (\<lambda>_.
     let commands = ascii ''sha1sum '' @ filename in
     bindR (guardR Out_Of_Bounds (length commands < 128)) (\<lambda>_.
     Inr \<lparr>rec_path = filename, rec_data = c_str databuf, rec_command = commands, rec_name = c_str name\<rparr>))))))))"

text \<open>The loop of \<open>Traverse_Dir\<close>, where \<open>CurDir\<close> and \<open>CurLDir\<close> are both \<open>p\<close>.\<close>

function traverse :: "(u8 list \<Rightarrow> bool) \<Rightarrow> image \<Rightarrow> fat32hdr \<Rightarrow> nat \<Rightarrow> nat \<Rightarrow> recovery list result" where
  "traverse opens d h ClusEnd p =
     (if p \<le> ClusEnd then
        bindR (read_dent d p) (\<lambda>cur.
        if DIR_Attr cur = ATTR_LONG_NAME then
          bindR (read_ldent d p) (\<lambda>lcur.
          let n = unat (LDIR_Ord lcur AND 0x0f); q = p + 32 * n in
          if q > ClusEnd then Inr []
          else
            bindR (long_name d (q - 32) n []) (\<lambda>buf.
            bindR (read_dent d q) (\<lambda>cur.
            bindR (if DIR_Attr cur = ATTR_ARCHIVE
              then bindR (file_recovery opens d h cur buf) (\<lambda>r. Inr [r]) else Inr []) (\<lambda>rs.
            bindR (traverse opens d h ClusEnd (q + 32)) (\<lambda>rs'. Inr (rs @ rs'))))))
        else
          bindR (if DIR_Attr cur = ATTR_ARCHIVE
            then bindR (file_recovery opens d h cur (get_filename cur)) (\<lambda>r. Inr [r]) else Inr []) (\<lambda>rs.
          bindR (traverse opens d h ClusEnd (p + 32)) (\<lambda>rs'. Inr (rs @ rs'))))
      else Inr [])"
  by pat_completeness auto
termination
  by (relation "measure (\<lambda>(opens, d, h, e, p). Suc e - p)") auto

definition Traverse_Dir :: "(u8 list \<Rightarrow> bool) \<Rightarrow> image \<Rightarrow> fat32hdr \<Rightarrow> nat \<Rightarrow> recovery list result" where
  "Traverse_Dir opens d h dent = traverse opens d h (dent + BytesPerClus h) dent"

section \<open>The search\<close>

definition Get_Data_Clus :: "image \<Rightarrow> fat32hdr \<Rightarrow> u32 result" where
  "Get_Data_Clus d h =
     (let Datasec = ucast (BPB_RsvdSecCnt h) + BPB_FATSz32 h * ucast (BPB_NumFATs h);
       rest = int (img_size d) - uint (Datasec * ucast (BPB_BytsPerSec h)) in
     bindR (guardR Undefined_Behaviour (BytesPerClus h \<noteq> 0)) (\<lambda>_.
     Inr (word_of_int (if 0 \<le> rest then rest div int (BytesPerClus h) else - (- rest div int (BytesPerClus h))))))"

definition dir_like :: "fat32dent \<Rightarrow> bool" where
  "dir_like e \<longleftrightarrow> DIR_Attr e = ATTR_LONG_NAME \<or> DIR_Attr e = ATTR_ARCHIVE \<or> DIR_Attr e = ATTR_DIRECTORY \<or>
     DIR_Attr e = ATTR_READ_ONLY"

fun count_sup :: "image \<Rightarrow> nat \<Rightarrow> nat \<Rightarrow> nat result" where
  "count_sup d entry 0 = Inr 0"
| "count_sup d entry (Suc j) =
     bindR (read_dent d entry) (\<lambda>e.
     bindR (count_sup d (entry + 32) j) (\<lambda>sup. Inr (if dir_like e then Suc sup else sup)))"

definition frecov_map_disk :: "image option \<Rightarrow> fat32hdr option result" where
  "frecov_map_disk img = (case img of None \<Rightarrow> Inr None
     | Some d \<Rightarrow> bindR (read_hdr d) (\<lambda>hdr.
         Inr (if Signature_word hdr \<noteq> 0xaa55 \<or> unat (BPB_TotSec32 hdr * ucast (BPB_BytsPerSec hdr)) \<noteq> img_size d
           then None else Some hdr)))"

fun search :: "(u8 list \<Rightarrow> bool) \<Rightarrow> image \<Rightarrow> fat32hdr \<Rightarrow> nat list \<Rightarrow> recovery list result" where
  "search opens d h [] = Inr []"
| "search opens d h (i # is) =
     bindR (cluster_to_sec h (word_of_nat i)) (\<lambda>entry.
     bindR (count_sup d entry (8 * 16)) (\<lambda>sup.
     bindR (if 32 \<le> sup then Traverse_Dir opens d h entry else Inr []) (\<lambda>rs.
     bindR (search opens d h is) (\<lambda>rs'. Inr (rs @ rs')))))"

definition frecov_main :: "(u8 list \<Rightarrow> bool) \<Rightarrow> image option \<Rightarrow> recovery list option result" where
  "frecov_main opens img =
     bindR (frecov_map_disk img) (\<lambda>m. case m of None \<Rightarrow> Inr None
       | Some h \<Rightarrow>
           bindR (Get_Data_Clus (the img) h) (\<lambda>DataClusNum.
           bindR (search opens (the img) h [2..<unat (DataClusNum + 2)]) (\<lambda>rs. Inr (Some rs))))"

end
