(* ===== verification/FrecovProofs.thy ===== *)
theory FrecovProofs
  imports Frecov FatProofs
begin

text \<open>
  The recovery of files: the clusters of the search lie in the image, and a file with a long name is
  recovered under that name, with the bytes of its first cluster up to the first NUL.
\<close>

declare traverse.simps [simp del]

section \<open>The clusters of the search\<close>

definition meta_sectors :: "fat32hdr \<Rightarrow> nat" where
  "meta_sectors h = unat (BPB_RsvdSecCnt h) + unat (BPB_NumFATs h) * unat (BPB_FATSz32 h)"

lemma unat_ucast_up: "LENGTH('a::len) \<le> LENGTH('b::len) \<Longrightarrow> unat (ucast (w :: 'a word) :: 'b word) = unat w"
proof -
  assume le: "LENGTH('a) \<le> LENGTH('b)"
  have "unat w < 2 ^ LENGTH('b)"
    by (rule less_le_trans [OF unsigned_less]) (use le in simp)
  then show ?thesis by (simp only: unsigned_ucast_eq take_bit_nat_eq_self)
qed

lemma sectors_word:
  assumes "meta_sectors h < 2 ^ 32"
  shows "unat (ucast (BPB_RsvdSecCnt h) + ucast (BPB_NumFATs h) * BPB_FATSz32 h :: u32) = meta_sectors h"
    "unat (ucast (BPB_RsvdSecCnt h) + BPB_FATSz32 h * ucast (BPB_NumFATs h) :: u32) = meta_sectors h"
proof -
  have "unat (ucast (BPB_NumFATs h) * BPB_FATSz32 h :: u32) = unat (BPB_NumFATs h) * unat (BPB_FATSz32 h)"
    using assms by (subst unat_mult_lem [THEN iffD1]) (simp_all add: meta_sectors_def unat_ucast_up)
  then show "unat (ucast (BPB_RsvdSecCnt h) + ucast (BPB_NumFATs h) * BPB_FATSz32 h :: u32) = meta_sectors h"
    using assms by (subst unat_add_lem [THEN iffD1]) (simp_all add: meta_sectors_def unat_ucast_up)
  then show "unat (ucast (BPB_RsvdSecCnt h) + BPB_FATSz32 h * ucast (BPB_NumFATs h) :: u32) = meta_sectors h"
    by (simp only: mult.commute)
qed

text \<open>The address of a cluster, as a number, when nothing overflows.\<close>

lemma cluster_to_sec_nat:
  assumes "2 \<le> i" and "i < 2 ^ 31" and "(i - 2) * unat (BPB_SecPerClus h) < 2 ^ 31"
    and "(meta_sectors h + (i - 2) * unat (BPB_SecPerClus h)) * unat (BPB_BytsPerSec h) < 2 ^ 32" and "0 < unat (BPB_BytsPerSec h)"
  shows "cluster_to_sec h (word_of_nat i) =
    Inr ((meta_sectors h + (i - 2) * unat (BPB_SecPerClus h)) * unat (BPB_BytsPerSec h))"
proof -
  let ?k = "(i - 2) * unat (BPB_SecPerClus h)"
  have "meta_sectors h + ?k \<le> (meta_sectors h + ?k) * unat (BPB_BytsPerSec h)" using assms(5) by simp
  then have m: "meta_sectors h + ?k < 2 ^ 32" using assms(4) by linarith
  have "uint (word_of_nat i :: u32) = int i" using assms(2) by (simp add: unsigned_of_nat take_bit_nat_eq_self)
  then have s: "sint (word_of_nat i :: u32) = int i" using assms(2) by (simp add: sint_small)
  have off: "(int i - 2) * uint (BPB_SecPerClus h) = int ?k" using assms(1) uint_nat [of "BPB_SecPerClus h"]
    by (simp only: of_nat_mult of_nat_diff of_nat_numeral)
  have ok: "int_ok (int i - 2)" "int_ok (int ?k)"
    using assms(1,2) of_nat_less_numeral_power_cancel_iff [where ?'a = int, of ?k Num.num.One] assms(3)
    by (simp_all add: int_ok_def del: of_nat_mult)
  have k: "unat (word_of_nat ?k :: u32) = ?k" using m by (intro unat_of_nat_small) simp
  have "unat (ucast (BPB_RsvdSecCnt h) + ucast (BPB_NumFATs h) * BPB_FATSz32 h + word_of_nat ?k :: u32) = meta_sectors h + ?k"
    using m sectors_word(1) [of h] k by (subst unat_add_lem [THEN iffD1]) simp_all
  then have "unat ((ucast (BPB_RsvdSecCnt h) + ucast (BPB_NumFATs h) * BPB_FATSz32 h + word_of_nat ?k) * ucast (BPB_BytsPerSec h) :: u32) =
      (meta_sectors h + ?k) * unat (BPB_BytsPerSec h)"
    using assms(4) by (subst unat_mult_lem [THEN iffD1]) (simp_all add: unat_ucast_up)
  then show ?thesis unfolding cluster_to_sec_def Let_def s off by (simp only: ok of_int_of_nat_eq guardR_True bindR_simps simp_thms)
qed

text \<open>On an image below 4 GiB that the header check accepts, every cluster that the search visits
  lies behind the FATs and inside the image, one after the other.\<close>

theorem frecov_clusters:
  assumes "frecov_map_disk (Some d) = Inr (Some h)" and "Get_Data_Clus d h = Inr n"
    and "img_size d < 2 ^ 32" and "meta_sectors h * unat (BPB_BytsPerSec h) \<le> img_size d"
    and "512 \<le> unat (BPB_BytsPerSec h)" and "i \<in> set [2..<unat (n + 2)]"
  shows "\<exists>p. cluster_to_sec h (word_of_nat i) = Inr p \<and>
    p = meta_sectors h * unat (BPB_BytsPerSec h) + (i - 2) * BytesPerClus h \<and> p + BytesPerClus h \<le> img_size d"
proof -
  let ?b = "unat (BPB_BytsPerSec h)" and ?c = "unat (BPB_SecPerClus h)" and ?m = "meta_sectors h"
  have bpc: "BytesPerClus h = ?b * ?c" by (simp add: BytesPerClus_def)
  have c: "BytesPerClus h \<noteq> 0" using assms(2) by (cases "BytesPerClus h = 0") (auto simp: Get_Data_Clus_def Let_def)
  have "?m * 512 \<le> ?m * ?b" using assms(5) by (rule mult_le_mono2)
  moreover have pw: "(2::nat) ^ 32 = 2 ^ 23 * 512" "(2::nat) ^ 31 = 2 ^ 22 * 512" "(2::nat) ^ 23 = 2 * 2 ^ 22" by simp_all
  ultimately have m: "?m < 2 ^ 23" using assms(3,4) by linarith
  have "unat (ucast (BPB_RsvdSecCnt h) + BPB_FATSz32 h * ucast (BPB_NumFATs h) :: u32) = ?m" using m sectors_word(2) [of h] by simp
  then have "unat ((ucast (BPB_RsvdSecCnt h) + BPB_FATSz32 h * ucast (BPB_NumFATs h)) * ucast (BPB_BytsPerSec h) :: u32) = ?m * ?b"
    using assms(3,4) by (subst unat_mult_lem [THEN iffD1]) (simp_all add: unat_ucast_up)
  then have meta: "uint ((ucast (BPB_RsvdSecCnt h) + BPB_FATSz32 h * ucast (BPB_NumFATs h)) * ucast (BPB_BytsPerSec h) :: u32) = int (?m * ?b)"
    by (simp only: uint_nat)
  let ?n = "(img_size d - ?m * ?b) div BytesPerClus h"
  have "int (img_size d) - int (?m * ?b) = int (img_size d - ?m * ?b)" using assms(4) by (simp add: of_nat_diff)
  then have n: "n = word_of_nat ?n" using assms(2) c unfolding Get_Data_Clus_def Let_def meta
    by (simp flip: of_nat_div)
  have "512 \<le> BytesPerClus h" using assms(5) c by (cases ?c) (auto simp: bpc)
  have mul: "?n * BytesPerClus h \<le> img_size d - ?m * ?b" by (rule div_times_less_eq_dividend)
  have "?n * 512 \<le> ?n * BytesPerClus h" using \<open>512 \<le> BytesPerClus h\<close> by (rule mult_le_mono2)
  then have n23: "?n < 2 ^ 23" using mul assms(3) pw by linarith
  have "n + 2 = word_of_nat (?n + 2)" by (simp add: n)
  moreover have "unat (word_of_nat (?n + 2) :: u32) = ?n + 2" using n23 by (intro unat_of_nat_small) simp
  ultimately have "unat (n + 2) = ?n + 2" by (simp only:)
  then have i: "2 \<le> i" "i - 2 + 1 \<le> ?n" using assms(6) by auto
  have "(i - 2 + 1) * BytesPerClus h \<le> ?n * BytesPerClus h" using i(2) by (rule mult_le_mono1)
  then have fits: "(i - 2) * BytesPerClus h + BytesPerClus h \<le> img_size d - ?m * ?b" using mul by (simp only: distrib_right mult_1)
  have eq: "(?m + (i - 2) * ?c) * ?b = ?m * ?b + (i - 2) * BytesPerClus h" by (simp only: bpc distrib_right mult.assoc mult.commute [of ?b ?c])
  have "(i - 2) * ?c * 512 \<le> (i - 2) * ?c * ?b" using assms(5) by (rule mult_le_mono2)
  moreover have "(i - 2) * ?c * ?b = (i - 2) * BytesPerClus h" by (simp add: bpc)
  ultimately have k: "(i - 2) * ?c < 2 ^ 31" using fits assms(3) pw by linarith
  have "cluster_to_sec h (word_of_nat i) = Inr ((?m + (i - 2) * ?c) * ?b)"
  proof (rule cluster_to_sec_nat)
    show "i < 2 ^ 31" using i(2) n23 pw by linarith
    show "(?m + (i - 2) * ?c) * ?b < 2 ^ 32" unfolding eq using fits assms(3,4) c by linarith
  qed (use i(1) k assms(5) in linarith)+
  then show ?thesis using fits assms(4) unfolding eq by (intro exI conjI) (assumption, rule refl, linarith)
qed

section \<open>Long names\<close>

definition lunits :: "fat32Ldent \<Rightarrow> u16 list" where
  "lunits e = LDIR_Name1 e @ LDIR_Name2 e @ LDIR_Name3 e"

lemma copy_units_eq: "copy_units us acc = (acc @ map ucast (takeWhile (\<lambda>u. u \<noteq> 0xffff) us), 0xffff \<in> set us)"
  by (induction us acc rule: copy_units.induct) auto

lemma takeWhile_all: "0xffff \<notin> set us \<Longrightarrow> takeWhile (\<lambda>u. u \<noteq> 0xffff) (us @ vs) = us @ takeWhile (\<lambda>u. u \<noteq> 0xffff) (vs :: u16 list)"
  by (rule takeWhile_append2) auto

lemma takeWhile_none: "0xffff \<notin> set us \<Longrightarrow> takeWhile (\<lambda>u. u \<noteq> 0xffff) us = (us :: u16 list)"
  by auto

lemma copy_ldent_eq:
  "copy_ldent e acc = (acc @ map ucast (takeWhile (\<lambda>u. u \<noteq> 0xffff) (lunits e)), 0xffff \<in> set (lunits e))"
proof -
  let ?a = "LDIR_Name1 e" and ?b = "LDIR_Name2 e" and ?c = "LDIR_Name3 e"
  consider "0xffff \<in> set ?a" | "0xffff \<notin> set ?a" "0xffff \<in> set ?b" | "0xffff \<notin> set ?a" "0xffff \<notin> set ?b" by blast
  then show ?thesis
    by cases (auto simp: copy_ldent_def copy_units_eq lunits_def takeWhile_all takeWhile_none takeWhile_append1)
qed

text \<open>Walking down from the entry before the file's own, the loop collects the units in order, up to
  the first filler.\<close>

lemma long_name_eq:
  assumes "\<And>i. i < length es \<Longrightarrow> read_ldent d (p - 32 * i) = Inr (es ! i)"
  shows "long_name d p (length es) acc = Inr (acc @ map ucast (takeWhile (\<lambda>u. u \<noteq> 0xffff) (concat (map lunits es))))"
  using assms
proof (induction es arbitrary: p acc)
  case (Cons e es)
  have e: "read_ldent d p = Inr e" using Cons.prems [of 0] by simp
  have "read_ldent d (p - 32 - 32 * i) = Inr (es ! i)" if "i < length es" for i
    using Cons.prems [of "Suc i"] that by simp
  from Cons.IH [OF this] show ?case
    by (cases "0xffff \<in> set (lunits e)") (simp_all add: e copy_ldent_eq takeWhile_all takeWhile_none takeWhile_append1)
qed simp

text \<open>The entries \<open>es\<close>, in the order of their numbers and so backwards on the disk from the first at
  \<open>p\<close>, hold \<open>name\<close>: its characters, then a NUL and fillers if there is room left.\<close>

definition long_entries :: "image \<Rightarrow> nat \<Rightarrow> u8 list \<Rightarrow> fat32Ldent list \<Rightarrow> bool" where
  "long_entries d p name es \<longleftrightarrow> es \<noteq> [] \<and>
     (\<forall>i\<in>set [0..<length es]. read_ldent d (p + 32 * (length es - 1 - i)) = Inr (es ! i)) \<and>
     LDIR_Attr (last es) = ATTR_LONG_NAME \<and> LDIR_Ord (last es) = 0x40 OR word_of_nat (length es) \<and> 0 \<notin> set name \<and>
     (\<exists>k. concat (map lunits es) \<in> {map ucast name, map ucast name @ 0 # replicate k 0xffff})"

lemma read_same_attr:
  assumes "read_ldent d p = Inr l"
  shows "\<exists>e. read_dent d p = Inr e \<and> DIR_Attr e = LDIR_Attr l"
  using assms by (cases "img_read d p 32") (auto simp: read_ldent_def read_dent_def ldent_of_def dent_of_def)

lemma ord_count: "n < 16 \<Longrightarrow> unat ((0x40 OR word_of_nat n :: u8) AND 0x0f) = n"
proof -
  have "list_all (\<lambda>n. unat ((0x40 OR word_of_nat n :: u8) AND 0x0f) = n) [0..<16]" by code_simp
  then show "n < 16 \<Longrightarrow> unat ((0x40 OR word_of_nat n :: u8) AND 0x0f) = n" unfolding list_all_iff by simp
qed

lemma ucast_byte_filler: "ucast (b :: u8) \<noteq> (0xffff :: u16)"
proof
  assume "ucast b = (0xffff :: u16)"
  then have "unat b = 65535" using unat_ucast_up [where ?'b = 16, of b] by simp
  then show False using unsigned_less [where ?'a = nat, of b] by simp
qed

lemma ucast_ucast_byte: "ucast (ucast (b :: u8) :: u16) = b"
  by (rule bit_word_eqI) (simp add: bit_simps)

lemma name_units:
  assumes "us \<in> {map ucast name, map ucast name @ 0 # replicate k 0xffff}" and "0 \<notin> set (name :: u8 list)"
  shows "c_str (map ucast (takeWhile (\<lambda>u. u \<noteq> 0xffff) (us :: u16 list))) = name"
proof -
  have f: "0xffff \<notin> set (map ucast name :: u16 list)" using ucast_byte_filler by force
  have n: "map ucast (map ucast name :: u16 list) = name" by (simp add: comp_def ucast_ucast_byte)
  have "takeWhile (\<lambda>b. b \<noteq> 0) name = name" "takeWhile (\<lambda>b. b \<noteq> 0) (name @ 0 # zs) = name" for zs
    using assms(2) by (auto simp: takeWhile_eq_all_conv takeWhile_append)
  moreover have "takeWhile (\<lambda>u. u \<noteq> 0xffff) us \<in> {map ucast name, map ucast name @ [0]}"
    using assms(1) takeWhile_all [OF f, of "[]"] takeWhile_all [OF f, of "0 # replicate k 0xffff"]
    by (cases k) auto
  ultimately show ?thesis using n unfolding c_str_def by auto
qed

lemma file_recovery_ok:
  assumes "c_str buf = name" and "cluster_to_sec h (data_clus e) = Inr c"
    and "BytesPerClus h \<le> 4096" and "img_read d c (BytesPerClus h) = Inr bs" and "0 \<in> set bs" and "opens (ascii ''/tmp/'' @ name)"
  shows "file_recovery opens d h e buf = (if length name < 115 then Inr \<lparr>rec_path = ascii ''/tmp/'' @ name, rec_data = c_str bs,
    rec_command = ascii ''sha1sum /tmp/'' @ name, rec_name = name\<rparr> else Inl Out_Of_Bounds)"
proof -
  have "ascii ''sha1sum '' @ ascii ''/tmp/'' @ xs = ascii ''sha1sum /tmp/'' @ xs" for xs by (simp add: ascii_def)
  moreover have "length (ascii ''/tmp/'') = 5" "length (ascii ''sha1sum '') = 8" by (simp_all add: ascii_def)
  ultimately show ?thesis using assms by (simp add: file_recovery_def Let_def) (simp add: guardR_def)
qed

text \<open>C32. A file whose entry follows up to 15 long-name entries: when the long name is shorter than 115
  characters (which fills at most nine entries), the file is recovered under it: the file \<open>/tmp/name\<close> gets
  the bytes of the file's first cluster before the first NUL, and nothing else.  A longer name does not fit
  into the command line of 128 bytes, and the program writes past it.\<close>

theorem frecov_long_name:
  assumes "long_entries d p name es" and "length es < 16" and "p + 32 * length es \<le> ClusEnd"
    and "read_dent d (p + 32 * length es) = Inr e" and "DIR_Attr e = ATTR_ARCHIVE" and "cluster_to_sec h (data_clus e) = Inr c"
    and "BytesPerClus h \<le> 4096" and "img_read d c (BytesPerClus h) = Inr bs" and "0 \<in> set bs" and "opens (ascii ''/tmp/'' @ name)"
  shows "traverse opens d h ClusEnd p = (if length name < 115
    then bindR (traverse opens d h ClusEnd (p + 32 * length es + 32)) (\<lambda>rs.
      Inr (\<lparr>rec_path = ascii ''/tmp/'' @ name, rec_data = c_str bs, rec_command = ascii ''sha1sum /tmp/'' @ name,
        rec_name = name\<rparr> # rs))
    else Inl Out_Of_Bounds)"
proof -
  let ?n = "length es" and ?buf = "map ucast (takeWhile (\<lambda>u. u \<noteq> 0xffff) (concat (map lunits es))) :: u8 list"
  have n: "0 < ?n" "es \<noteq> []" using assms(1) by (auto simp: long_entries_def)
  have rd: "read_ldent d (p + 32 * (?n - 1 - i)) = Inr (es ! i)" if "i < ?n" for i
    using assms(1) that by (auto simp: long_entries_def)
  have l: "read_ldent d p = Inr (last es)" using rd [of "?n - 1"] n by (simp add: last_conv_nth)
  obtain e0 where e0: "read_dent d p = Inr e0" "DIR_Attr e0 = ATTR_LONG_NAME"
    using read_same_attr [OF l] assms(1) by (auto simp: long_entries_def)
  have cnt: "unat (LDIR_Ord (last es) AND 0x0f) = ?n" using assms(1) ord_count [OF assms(2)] by (simp add: long_entries_def)
  have "p + 32 * ?n - 32 - 32 * i = p + 32 * (?n - 1 - i)" if "i < ?n" for i using that by simp
  then have ln: "long_name d (p + 32 * ?n - 32) ?n [] = Inr ?buf"
    using long_name_eq [of es d "p + 32 * ?n - 32" "[]"] rd by simp
  have "c_str ?buf = name" using assms(1) name_units unfolding long_entries_def by blast
  note fr = file_recovery_ok [where opens = opens, OF this assms(6-10)]
  have ends: "p \<le> ClusEnd" "\<not> p + 32 * ?n > ClusEnd" using assms(3) by simp_all
  show ?thesis
    by (subst traverse.simps)
      (simp only: ends if_True e0 bindR_simps l Let_def cnt if_False ln assms(4,5) fr, simp add: bindR_def split: sum.split)
qed

section \<open>An image with one long name\<close>

definition bmp_bytes :: "(nat \<times> u8 list) list" where
  "bmp_bytes = [(11, [0, 2, 1, 1, 0, 1]), (32, [8]), (36, [1]), (510, [0x55, 0xaa]),
     (1024, [0x41, 0x61, 0, 0x62, 0, 0x2e, 0, 0x62, 0, 0x6d, 0, 0x0f, 0, 0, 0x70, 0, 0, 0, 0xff, 0xff, 0xff, 0xff,
       0xff, 0xff, 0xff, 0xff, 0, 0, 0xff, 0xff, 0xff, 0xff]),
     (1056, [0x41, 0x42, 0x7e, 0x31, 0x20, 0x20, 0x20, 0x20, 0x42, 0x4d, 0x50, 0x20]), (1082, [3]),
     (1536, [0x42, 0x4d, 0x36, 0, 0x10])]"

definition bmp_image :: image where
  "bmp_image = \<lparr>img_bytes = overlay bmp_bytes, img_size = 4096\<rparr>"

definition bmp_hdr :: fat32hdr where
  "bmp_hdr = hdr_of (map (img_byte bmp_image) [0..<512])"

lemma img_read_ok: "p + n \<le> img_mapped d \<Longrightarrow> img_read d p n = Inr (map (img_byte d) [p..<p + n])"
  by (simp add: img_read_def)

lemma bmp_img [simp]: "img_mapped bmp_image = 4096" "img_size bmp_image = 4096"
  by (simp_all add: img_mapped_def bmp_image_def)

lemma bmp_byte: "img_byte bmp_image i = (if i < 4096 then overlay bmp_bytes i else 0)"
  by (simp add: img_byte_def bmp_image_def)

lemma bmp_hdr_fields [simp]:
  "BPB_BytsPerSec bmp_hdr = 512" "BPB_SecPerClus bmp_hdr = 1" "BPB_RsvdSecCnt bmp_hdr = 1" "BPB_NumFATs bmp_hdr = 1"
  "BPB_FATSz32 bmp_hdr = 1" "BPB_TotSec32 bmp_hdr = 8" "Signature_word bmp_hdr = 0xaa55"
  by (simp_all add: bmp_hdr_def hdr_of_def ex_fields bmp_byte bmp_bytes_def)

lemma bmp_map_disk: "frecov_map_disk (Some bmp_image) = Inr (Some bmp_hdr)"
proof -
  have "read_hdr bmp_image = Inr bmp_hdr" by (simp add: read_hdr_def img_read_def bmp_hdr_def)
  then show ?thesis by (simp add: frecov_map_disk_def)
qed

theorem frecov_clusters_witness:
  "\<exists>p. cluster_to_sec bmp_hdr (word_of_nat 7) = Inr p \<and> p = 1024 + 5 * 512 \<and> p + 512 \<le> img_size bmp_image"
proof -
  have "Get_Data_Clus bmp_image bmp_hdr = Inr 6" by (simp add: Get_Data_Clus_def BytesPerClus_def)
  from frecov_clusters [OF bmp_map_disk this, of 7] show ?thesis by (simp add: meta_sectors_def BytesPerClus_def)
qed

definition bmp_ldent :: fat32Ldent where
  "bmp_ldent = ldent_of (map (img_byte bmp_image) [1024..<1024 + 32])"

definition bmp_dent :: fat32dent where
  "bmp_dent = dent_of (map (img_byte bmp_image) [1056..<1056 + 32])"

lemma bmp_ldent_fields: "LDIR_Ord bmp_ldent = 0x41" "LDIR_Attr bmp_ldent = 0x0f"
  "lunits bmp_ldent = map ucast (ascii ''ab.bmp'') @ [0, 0xffff, 0xffff, 0xffff, 0xffff, 0xffff, 0xffff]"
  by (simp_all only: bmp_ldent_def ldent_of_def fat32Ldent.simps lunits_def units_at_def ex_fields)
    (simp_all add: upt_rec field16_def fieldb_def bmp_byte bmp_bytes_def ascii_def)

lemma replicate_fillers: "\<exists>k. [0, 0xffff, 0xffff, 0xffff, 0xffff, 0xffff, 0xffff :: u16] = 0 # replicate k 0xffff"
  by (rule exI [of _ "Suc (Suc (Suc (Suc (Suc (Suc 0)))))"]) simp

lemma bmp_dent_fields: "DIR_Attr bmp_dent = 0x20" "data_clus bmp_dent = 3"
  by (simp_all only: bmp_dent_def dent_of_def fat32dent.simps data_clus_def ex_fields)
    (simp_all add: bmp_byte bmp_bytes_def)

lemma c_str_map:
  assumes "f (p + k) = 0" and "\<And>i. i < k \<Longrightarrow> f (p + i) \<noteq> 0" and "k < m"
  shows "c_str (map f [p..<p + m]) = map f [p..<p + k]" "0 \<in> set (map f [p..<p + m])"
proof -
  have "[p..<p + m] = [p..<p + k] @ (p + k) # [Suc (p + k)..<p + m]"
    using assms(3) upt_add_eq_append [of p "p + k" "m - k"] by (simp add: upt_conv_Cons)
  moreover have "f x \<noteq> 0" if "x \<in> set [p..<p + k]" for x using assms(2) [of "x - p"] that by (cases "x - p < k") auto
  ultimately show "c_str (map f [p..<p + m]) = map f [p..<p + k]" "0 \<in> set (map f [p..<p + m])"
    using assms(1) by (auto simp: c_str_def takeWhile_append)
qed

theorem frecov_long_name_witness:
  "traverse (\<lambda>_. True) bmp_image bmp_hdr 1536 1024 = bindR (traverse (\<lambda>_. True) bmp_image bmp_hdr 1536 1088) (\<lambda>rs.
    Inr (\<lparr>rec_path = ascii ''/tmp/ab.bmp'', rec_data = [0x42, 0x4d, 0x36], rec_command = ascii ''sha1sum /tmp/ab.bmp'',
      rec_name = ascii ''ab.bmp''\<rparr> # rs))"
proof -
  let ?f = "img_byte bmp_image"
  have "read_ldent bmp_image 1024 = Inr bmp_ldent"
    using img_read_ok [of 1024 32 bmp_image] by (simp only: read_ldent_def bmp_ldent_def bindR_simps bmp_img)
  then have l: "long_entries bmp_image 1024 (ascii ''ab.bmp'') [bmp_ldent]"
    using bmp_ldent_fields replicate_fillers by (auto simp: long_entries_def ATTR_LONG_NAME_def ATTR_READ_ONLY_def ATTR_HIDDEN_def
        ATTR_SYSTEM_def ATTR_VOLUME_ID_def ascii_def)
  have e: "read_dent bmp_image 1056 = Inr bmp_dent"
    using img_read_ok [of 1056 32 bmp_image] by (simp only: read_dent_def bmp_dent_def bindR_simps bmp_img)
  have z: "?f (1536 + 3) = 0" by (simp add: bmp_byte bmp_bytes_def)
  have nz: "?f (1536 + i) \<noteq> 0" if "i < 3" for i
  proof -
    from that consider "i = 0" | "i = 1" | "i = 2" by arith
    then show ?thesis by cases (simp_all add: bmp_byte bmp_bytes_def)
  qed
  have lt: "(3::nat) < 512" by simp
  have "map ?f [1536..<1536 + 3] = [0x42, 0x4d, 0x36]" by (simp add: bmp_byte bmp_bytes_def)
  with c_str_map [of ?f, OF z nz lt] have "c_str (map ?f [1536..<1536 + 512]) = [0x42, 0x4d, 0x36] \<and> 0 \<in> set (map ?f [1536..<1536 + 512])"
    by (simp only: simp_thms)
  with img_read_ok [of 1536 512 bmp_image] obtain bs where
    bs: "img_read bmp_image 1536 512 = Inr bs" "0 \<in> set bs" "c_str bs = [0x42, 0x4d, 0x36]"
    by (simp only: bmp_img)
  have c: "cluster_to_sec bmp_hdr (data_clus bmp_dent) = Inr 1536" "BytesPerClus bmp_hdr = 512"
    by (simp_all add: bmp_dent_fields cluster_to_sec_def int_ok_def BytesPerClus_def)
  have "DIR_Attr bmp_dent = ATTR_ARCHIVE" by (simp add: bmp_dent_fields ATTR_ARCHIVE_def)
  from frecov_long_name [of _ _ _ "[bmp_ldent]", OF l, of 1536 bmp_dent bmp_hdr 1536 bs "\<lambda>_. True"]
    this e c bs show ?thesis by (simp add: ascii_def)
qed

end
