(* ===== verification/Snake.thy ===== *)
theory Snake
  imports Prelude Amdev
begin

text \<open>
  The game of \<open>amgame\<close>: a snake of segments, linked by \<open>front\<close> from \<open>end\<close> to \<open>beg\<close>.
  The list of a state holds the segments in this order; a segment that \<open>malloc\<close> returns is a new
  one.  The messages for debugging are left out.
\<close>

section \<open>Data\<close>

definition FPS :: int where "FPS = 10"
definition SIDE :: int where "SIDE = 5"
definition LEN :: int where "LEN = 10"
definition WHITE :: u32 where "WHITE = 0xffffffff"
definition BLACK :: u32 where "BLACK = 0x00000000"

record seg =
  seg_st :: int
  seg_len :: int
  seg_status :: bool
  seg_towards :: bool
  seg_another :: int

record game =
  segs :: "seg list"
  game_w :: int
  game_h :: int
  next_frame :: int

text \<open>A run stops by \<open>halt\<close>, or by a fault.\<close>

datatype stop = Halt int | Fault fault

type_synonym 'a play = "stop + 'a"

definition bindP :: "'a play \<Rightarrow> ('a \<Rightarrow> 'b play) \<Rightarrow> 'b play" where
  "bindP m k = (case m of Inl e \<Rightarrow> Inl e | Inr x \<Rightarrow> k x)"

lemma bindP_simps [simp]: "bindP (Inl e) k = Inl e" "bindP (Inr x) k = k x"
  by (simp_all add: bindP_def)

lemma bindP_Inr_iff: "bindP m k = Inr y \<longleftrightarrow> (\<exists>x. m = Inr x \<and> k x = Inr y)"
  by (cases m) simp_all

definition faultP :: "'a result \<Rightarrow> 'a play" where
  "faultP r = (case r of Inl e \<Rightarrow> Inl (Fault e) | Inr x \<Rightarrow> Inr x)"

definition dead :: "int \<Rightarrow> 'a play" where
  "dead x = Inl (Halt x)"

definition beg :: "game \<Rightarrow> seg" where
  "beg s = last (segs s)"

definition set_beg :: "seg \<Rightarrow> game \<Rightarrow> game" where
  "set_beg g s = s\<lparr>segs := butlast (segs s) @ [g]\<rparr>"

section \<open>Moves (keyboard.c)\<close>

text \<open>When \<open>end\<close> has become empty it moves on to its \<open>front\<close>.\<close>

definition logic_for_end :: "game \<Rightarrow> game" where
  "logic_for_end s =
     (let e = hd (segs s); e = e\<lparr>seg_len := seg_len e - 1\<rparr> in
      if seg_len e \<le> 0 then s\<lparr>segs := tl (segs s)\<rparr>
      else s\<lparr>segs := e\<lparr>seg_st := (if seg_towards e then seg_st e + SIDE else seg_st e - SIDE)\<rparr> # tl (segs s)\<rparr>)"

definition new_seg_create :: "bool \<Rightarrow> bool \<Rightarrow> game \<Rightarrow> game play" where
  "new_seg_create status towards s =
     bindP (if \<not> towards then (if seg_another (beg s) - SIDE < 0 then dead 5 else Inr ())
       else if status \<and> seg_another (beg s) + SIDE > game_w s then dead 6
       else if \<not> status \<and> seg_another (beg s) + SIDE > game_h s then dead 7 else Inr ()) (\<lambda>_.
     let newseg = \<lparr>seg_st = seg_another (beg s), seg_len = 1, seg_status = status, seg_towards = towards,
       seg_another = (if seg_towards (beg s) then seg_st (beg s) + seg_len (beg s) * SIDE
         else seg_st (beg s) - seg_len (beg s) * SIDE)\<rparr> in
     Inr (logic_for_end (s\<lparr>segs := segs s @ [newseg]\<rparr>)))"

definition kbd_process :: "string \<Rightarrow> game \<Rightarrow> game play" where
  "kbd_process keyword s =
     (if keyword = ''ESCAPE'' then Inl (Halt 1)
      else if keyword = ''W'' then (if seg_status (beg s) then new_seg_create False False s else Inr s)
      else if keyword = ''S'' then (if seg_status (beg s) then new_seg_create False True s else Inr s)
      else if keyword = ''D'' then (if \<not> seg_status (beg s) then new_seg_create True True s else Inr s)
      else if keyword = ''A'' then (if \<not> seg_status (beg s) then new_seg_create True False s else Inr s)
      else Inr s)"

text \<open>\<open>key_names\<close> has no name at \<open>AM_KEY_NONE\<close>.\<close>

definition key_name :: "nat \<Rightarrow> string play" where
  "key_name k = (if 1 \<le> k \<and> k \<le> length AM_KEYS then Inr (AM_KEYS ! (k - 1)) else Inl (Fault Out_Of_Bounds))"

definition game_progress :: "nat \<Rightarrow> bool \<Rightarrow> game \<Rightarrow> game play" where
  "game_progress keycode keydown s =
     (if keycode \<noteq> AM_KEY_NONE \<and> keydown then bindP (key_name keycode) (\<lambda>name. kbd_process name s)
      else if keycode = AM_KEY_NONE then
        bindP (if \<not> seg_towards (beg s) \<and> seg_st (beg s) - SIDE * (seg_len (beg s) + 1) < 0 then dead 2
          else if seg_towards (beg s) then
            (if seg_status (beg s) \<and> seg_st (beg s) + SIDE * (seg_len (beg s) + 1) > game_w s then dead 3
             else if \<not> seg_status (beg s) \<and> seg_st (beg s) + SIDE * (seg_len (beg s) + 1) > game_h s then dead 4
             else Inr ())
          else Inr ()) (\<lambda>_.
        if length (segs s) = 1
        then Inr (set_beg ((beg s)\<lparr>seg_st := (if seg_towards (beg s) then seg_st (beg s) + SIDE else seg_st (beg s) - SIDE)\<rparr>) s)
        else Inr (logic_for_end (set_beg ((beg s)\<lparr>seg_len := seg_len (beg s) + 1\<rparr>) s)))
      else Inr s)"

section \<open>Drawing (video.c)\<close>

record fbdraw =
  fb_x :: int
  fb_y :: int
  fb_w :: int
  fb_h :: int
  fb_pixels :: "u32 list"

definition draw_tile :: "int \<Rightarrow> int \<Rightarrow> int \<Rightarrow> int \<Rightarrow> u32 \<Rightarrow> fbdraw" where
  "draw_tile x y w h color = \<lparr>fb_x = x, fb_y = y, fb_w = w, fb_h = h, fb_pixels = replicate (nat (w * h)) color\<rparr>"

definition draw_seg :: "u32 \<Rightarrow> seg \<Rightarrow> fbdraw" where
  "draw_seg color pen =
     (if seg_status pen then
        (if seg_towards pen then draw_tile (seg_st pen) (seg_another pen) (seg_len pen * SIDE) SIDE color
         else draw_tile (seg_st pen - seg_len pen * SIDE) (seg_another pen) (seg_len pen * SIDE) SIDE color)
      else
        (if seg_towards pen then draw_tile (seg_another pen) (seg_st pen) SIDE (seg_len pen * SIDE) color
         else draw_tile (seg_another pen) (seg_st pen - seg_len pen * SIDE) SIDE (seg_len pen * SIDE) color))"

definition screen_update :: "u32 \<Rightarrow> game \<Rightarrow> fbdraw list" where
  "screen_update color s = map (draw_seg color) (segs s)"

text \<open>\<open>splash_init\<close>, after \<open>gpu_am_init\<close> has read the size of the screen.\<close>

definition splash_init :: "int \<Rightarrow> int \<Rightarrow> fbdraw list \<times> game" where
  "splash_init w h =
     (let x = w div 2; y = h div 2 in
      ([draw_tile x y (LEN * SIDE) SIDE WHITE],
       \<lparr>segs = [\<lparr>seg_st = x, seg_len = LEN, seg_status = True, seg_towards = True, seg_another = y\<rparr>],
        game_w = w, game_h = h, next_frame = 1\<rparr>))"

section \<open>Frames\<close>

text \<open>The wait for the next frame polls the clock, whose \<open>i\<close>-th reading is \<open>clock i\<close>.\<close>

partial_function (option) poll_clock :: "(nat \<Rightarrow> u64) \<Rightarrow> u64 \<Rightarrow> nat \<Rightarrow> nat result option" where
  "poll_clock clock limit i = (if clock i < limit then poll_clock clock limit (i + 1) else Some (Inr (i + 1)))"

definition wait_frame :: "(nat \<Rightarrow> u64) \<Rightarrow> int \<Rightarrow> nat \<Rightarrow> nat result" where
  "wait_frame clock frame i =
     bindR (guardR Undefined_Behaviour ((1000000 div FPS) * frame < 2 ^ 31)) (\<lambda>_.
     returns (poll_clock clock (word_of_int ((1000000 div FPS) * frame)) i))"

text \<open>One frame, with the event that \<open>ioe_read\<close> gives; what it draws, the readings of the clock
  used so far, and the new state.\<close>

definition uptime :: "(nat \<Rightarrow> u64) \<Rightarrow> nat \<Rightarrow> nat \<times> bool \<Rightarrow> game \<Rightarrow> (fbdraw list \<times> nat \<times> game) play" where
  "uptime clock i event s =
     bindP (faultP (wait_frame clock (next_frame s) i)) (\<lambda>i.
     let black = screen_update BLACK s in
     bindP (game_progress (fst event) (snd event) s) (\<lambda>s.
     Inr (black @ screen_update WHITE s, i, s\<lparr>next_frame := next_frame s + 1\<rparr>)))"

text \<open>The loop of \<open>main\<close> over the events of its frames.\<close>

fun frames :: "(nat \<Rightarrow> u64) \<Rightarrow> nat \<Rightarrow> (nat \<times> bool) list \<Rightarrow> game \<Rightarrow> (fbdraw list \<times> game) play" where
  "frames clock i [] s = Inr ([], s)"
| "frames clock i (e # es) s =
     bindP (uptime clock i e s) (\<lambda>(out, i, s). bindP (frames clock i es s) (\<lambda>(out', s). Inr (out @ out', s)))"

definition amgame :: "(nat \<Rightarrow> u64) \<Rightarrow> int \<Rightarrow> int \<Rightarrow> (nat \<times> bool) list \<Rightarrow> (fbdraw list \<times> game) play" where
  "amgame clock w h es = (case splash_init w h of (out, s) \<Rightarrow> bindP (frames clock 0 es s) (\<lambda>(out', s). Inr (out @ out', s)))"

section \<open>The invariant\<close>

definition tip :: "seg \<Rightarrow> int" where
  "tip g = (if seg_towards g then seg_st g + seg_len g * SIDE else seg_st g - seg_len g * SIDE)"

definition seg_ok :: "int \<Rightarrow> int \<Rightarrow> seg \<Rightarrow> bool" where
  "seg_ok w h g \<longleftrightarrow> 1 \<le> seg_len g \<and>
     (let along = (if seg_status g then w else h); cross = (if seg_status g then h else w) in
      0 \<le> seg_st g \<and> seg_st g \<le> along \<and> 0 \<le> tip g \<and> tip g \<le> along \<and> 0 \<le> seg_another g \<and> seg_another g \<le> cross)"

text \<open>A segment turns off at the tip of the one before it.\<close>

definition turns_off :: "seg \<Rightarrow> seg \<Rightarrow> bool" where
  "turns_off g g' \<longleftrightarrow> seg_status g' \<noteq> seg_status g \<and> seg_st g' = seg_another g \<and> seg_another g' = tip g"

definition snake_ok :: "game \<Rightarrow> bool" where
  "snake_ok s \<longleftrightarrow> segs s \<noteq> [] \<and> (\<forall>g\<in>set (segs s). seg_ok (game_w s) (game_h s) g) \<and>
     successively turns_off (segs s) \<and> sum_list (map seg_len (segs s)) = LEN"

text \<open>What is drawn starts on the screen and may stick out of its right and lower edge by the width of a
  segment: a segment that runs along such an edge is drawn next to it, outside.\<close>

definition near_screen :: "int \<Rightarrow> int \<Rightarrow> fbdraw \<Rightarrow> bool" where
  "near_screen w h r \<longleftrightarrow> 0 \<le> fb_x r \<and> 0 \<le> fb_y r \<and> 0 < fb_w r \<and> 0 < fb_h r \<and>
     fb_x r + fb_w r \<le> w + SIDE \<and> fb_y r + fb_h r \<le> h + SIDE \<and> length (fb_pixels r) = nat (fb_w r * fb_h r)"

lemma draw_near: "seg_ok w h g \<Longrightarrow> near_screen w h (draw_seg c g)"
  by (auto simp: seg_ok_def Let_def tip_def near_screen_def draw_seg_def draw_tile_def SIDE_def split: if_splits)

lemma logic_for_end_ok:
  assumes "2 \<le> length (segs s)" and "\<forall>x\<in>set (segs s). seg_ok (game_w s) (game_h s) x"
    and "successively turns_off (segs s)" and "sum_list (map seg_len (segs s)) = LEN + 1"
  shows "snake_ok (logic_for_end s) \<and> game_w (logic_for_end s) = game_w s \<and> game_h (logic_for_end s) = game_h s"
proof -
  obtain e g gs where segs: "segs s = e # g # gs" using assms(1) by (cases "segs s"; cases "tl (segs s)") auto
  show ?thesis
proof (cases "seg_len e - 1 \<le> 0")
  case True
  then have "seg_len e = 1" using segs assms(2) by (auto simp: seg_ok_def)
  then show ?thesis using segs assms by (simp add: logic_for_end_def snake_ok_def)
next
  case False
  let ?e = "e\<lparr>seg_len := seg_len e - 1, seg_st := (if seg_towards e then seg_st e + SIDE else seg_st e - SIDE)\<rparr>"
  have "tip ?e = tip e" by (simp add: tip_def algebra_simps)
  moreover have "seg_ok (game_w s) (game_h s) ?e"
    using segs assms(2) False by (auto simp: seg_ok_def tip_def SIDE_def Let_def)
  moreover have "logic_for_end s = s\<lparr>segs := ?e # g # gs\<rparr>" using segs False by (simp add: logic_for_end_def)
  ultimately show ?thesis using segs assms by (simp add: snake_ok_def turns_off_def)
qed
qed

lemma snake_beg:
  assumes "snake_ok s"
  shows "segs s = butlast (segs s) @ [beg s]" "seg_ok (game_w s) (game_h s) (beg s)"
  using assms by (auto simp: snake_ok_def beg_def)

lemma new_seg_create_ok:
  assumes "snake_ok s" and "status \<noteq> seg_status (beg s)" and "new_seg_create status towards s = Inr s'"
  shows "snake_ok s' \<and> game_w s' = game_w s \<and> game_h s' = game_h s"
proof -
  note b = snake_beg [OF assms(1)]
  let ?g = "\<lparr>seg_st = seg_another (beg s), seg_len = 1, seg_status = status, seg_towards = towards, seg_another = tip (beg s)\<rparr>"
  let ?s = "s\<lparr>segs := segs s @ [?g]\<rparr>"
  have s': "s' = logic_for_end ?s" using assms(3) unfolding new_seg_create_def Let_def tip_def bindP_Inr_iff by auto
  have ok: "seg_ok (game_w s) (game_h s) ?g"
    using assms(2,3) b(2) by (auto simp: new_seg_create_def seg_ok_def Let_def dead_def tip_def SIDE_def split: if_splits)
  have "turns_off (last (segs s)) ?g" using assms(2) by (simp add: turns_off_def beg_def)
  then have turns: "successively turns_off (segs ?s)" using assms(1) by (simp add: snake_ok_def successively_append_iff)
  have "2 \<le> length (segs ?s)" using b(1) by (cases "segs s") auto
  moreover have "\<forall>x\<in>set (segs ?s). seg_ok (game_w ?s) (game_h ?s) x" using assms(1) ok by (simp add: snake_ok_def)
  moreover have "sum_list (map seg_len (segs ?s)) = LEN + 1" using assms(1) by (simp add: snake_ok_def)
  ultimately have "snake_ok (logic_for_end ?s) \<and> game_w (logic_for_end ?s) = game_w ?s \<and> game_h (logic_for_end ?s) = game_h ?s"
    using turns by (intro logic_for_end_ok)
  then show ?thesis unfolding s' by simp
qed

lemma kbd_process_ok:
  assumes "snake_ok s" and "kbd_process name s = Inr s'"
  shows "snake_ok s' \<and> game_w s' = game_w s \<and> game_h s' = game_h s"
  using assms new_seg_create_ok [OF assms(1)] by (auto simp: kbd_process_def split: if_splits)

text \<open>Growing at the head and shrinking at the end, or moving the only segment.\<close>

lemma game_progress_ok:
  assumes "snake_ok s" and "game_progress k down s = Inr s'"
  shows "snake_ok s' \<and> game_w s' = game_w s \<and> game_h s' = game_h s"
proof -
  note b = snake_beg [OF assms(1)]
  let ?b = "beg s" and ?pre = "butlast (segs s)"
  consider (key) "k \<noteq> AM_KEY_NONE" "down" | (up) "k \<noteq> AM_KEY_NONE" "\<not> down" | (none) "k = AM_KEY_NONE" by blast
  then show ?thesis
  proof cases
    case key
    then show ?thesis using assms kbd_process_ok by (auto simp: game_progress_def bindP_Inr_iff)
  next
    case up
    then show ?thesis using assms by (simp add: game_progress_def)
  next
    case none
    let ?g = "if length (segs s) = 1 then ?b\<lparr>seg_st := (if seg_towards ?b then seg_st ?b + SIDE else seg_st ?b - SIDE)\<rparr>
      else ?b\<lparr>seg_len := seg_len ?b + 1\<rparr>"
    have s': "s' = (if length (segs s) = 1 then set_beg ?g s else logic_for_end (set_beg ?g s))"
      using assms(2) none by (auto simp: game_progress_def bindP_Inr_iff)
    have ok: "seg_ok (game_w s) (game_h s) ?g"
      using assms(2) none b(2) by (auto simp: game_progress_def dead_def seg_ok_def Let_def tip_def SIDE_def split: if_splits)
    have pre: "\<forall>g\<in>set ?pre. seg_ok (game_w s) (game_h s) g" using assms(1) in_set_butlastD by (fastforce simp: snake_ok_def)
    have len: "sum_list (map seg_len ?pre) + seg_len ?b = LEN"
      using assms(1) arg_cong [OF b(1), of "\<lambda>xs. sum_list (map seg_len xs)"] by (simp add: snake_ok_def)
    show ?thesis
    proof (cases "length (segs s) = 1")
      case True
      then have "?pre = []" by (cases "segs s") auto
      then show ?thesis using ok len True unfolding s' by (simp add: set_beg_def snake_ok_def)
    next
      case False
      let ?s = "set_beg ?g s"
      have seg: "segs ?s = ?pre @ [?g]" "game_w ?s = game_w s" "game_h ?s = game_h s" by (simp_all add: set_beg_def)
      have "successively turns_off (?pre @ [?b])" using assms(1) b(1) by (simp add: snake_ok_def)
      then have "successively turns_off (segs ?s)" using False unfolding seg(1)
        by (simp add: successively_append_iff turns_off_def)
      moreover have "2 \<le> length (segs ?s)" using False assms(1) unfolding seg(1) by (cases "segs s"; cases "tl (segs s)") (auto simp: snake_ok_def)
      moreover have "\<forall>x\<in>set (segs ?s). seg_ok (game_w ?s) (game_h ?s) x" using ok pre unfolding seg by simp
      moreover have "sum_list (map seg_len (segs ?s)) = LEN + 1" using len False unfolding seg by simp
      ultimately have "snake_ok (logic_for_end ?s) \<and> game_w (logic_for_end ?s) = game_w ?s \<and> game_h (logic_for_end ?s) = game_h ?s"
        by (intro logic_for_end_ok)
      then show ?thesis using False unfolding s' seg by simp
    qed
  qed
qed

lemma screen_on: "snake_ok s \<Longrightarrow> \<forall>r\<in>set (screen_update c s). near_screen (game_w s) (game_h s) r"
  using draw_near by (auto simp: screen_update_def snake_ok_def)

lemma snake_next_frame [simp]: "snake_ok (s\<lparr>next_frame := n\<rparr>) = snake_ok s"
  by (simp add: snake_ok_def)

lemma uptime_ok:
  assumes "snake_ok s" and "uptime clock i e s = Inr (out, j, s')"
  shows "snake_ok s' \<and> game_w s' = game_w s \<and> game_h s' = game_h s \<and> (\<forall>r\<in>set out. near_screen (game_w s) (game_h s) r)"
proof -
  obtain t where t: "game_progress (fst e) (snd e) s = Inr t" "s' = t\<lparr>next_frame := next_frame t + 1\<rparr>"
    "out = screen_update BLACK s @ screen_update WHITE t"
    using assms(2) by (auto simp: uptime_def bindP_Inr_iff Let_def)
  show ?thesis using game_progress_ok [OF assms(1) t(1)] screen_on [OF assms(1)] screen_on [of t] t(2,3) by auto
qed

lemma frames_ok:
  assumes "snake_ok s" and "frames clock i es s = Inr (out, s')"
  shows "snake_ok s' \<and> game_w s' = game_w s \<and> game_h s' = game_h s \<and> (\<forall>r\<in>set out. near_screen (game_w s) (game_h s) r)"
  using assms
proof (induction es arbitrary: i s out)
  case (Cons e es)
  obtain o1 j t o2 where t: "uptime clock i e s = Inr (o1, j, t)" "frames clock j es t = Inr (o2, s')" "out = o1 @ o2"
    using Cons.prems(2) by (auto simp: bindP_Inr_iff split: prod.splits)
  show ?case using uptime_ok [OF Cons.prems(1) t(1)] Cons.IH [OF _ t(2)] t(3) by auto
qed auto

text \<open>C33. On a screen at least twice as wide as the snake, as long as the game goes on the snake keeps its
  length, each of its segments turns off at the tip of the one before, and the start and the tip of every
  segment lie between the edges of the screen.  What is drawn never sticks out of the screen at the left or
  at the top, and at the right and at the bottom by at most the width of a segment (which it can do).\<close>

theorem snake_invariant:
  assumes "2 * LEN * SIDE \<le> w" and "0 \<le> h" and "amgame clock w h es = Inr (out, s)"
  shows "snake_ok s \<and> (\<forall>r\<in>set out. near_screen w h r)"
proof -
  let ?s = "snd (splash_init w h)"
  obtain out' where f: "frames clock 0 es ?s = Inr (out', s)" "out = fst (splash_init w h) @ out'"
    using assms(3) by (auto simp: amgame_def bindP_Inr_iff split: prod.splits)
  have dims: "game_w ?s = w" "game_h ?s = h" by (simp_all add: splash_init_def Let_def)
  have "w div 2 + 50 \<le> w" "0 \<le> w div 2" "h div 2 \<le> h" "0 \<le> h div 2" using assms(1,2) by (auto simp: LEN_def SIDE_def)
  then have "snake_ok ?s" "\<forall>r\<in>set (fst (splash_init w h)). near_screen w h r"
    by (auto simp: splash_init_def Let_def snake_ok_def seg_ok_def tip_def near_screen_def draw_tile_def LEN_def SIDE_def)
  with frames_ok [OF _ f(1)] f(2) dims show ?thesis by auto
qed

text \<open>A segment along the right edge is drawn outside of the screen.\<close>

lemma draw_beyond_edge:
  "\<exists>g. seg_ok w h g \<and> fb_x (draw_seg c g) = w" if "0 \<le> w" "5 \<le> h"
  using that by (intro exI [of _ "\<lparr>seg_st = 0, seg_len = 1, seg_status = False, seg_towards = True, seg_another = w\<rparr>"])
    (simp add: seg_ok_def tip_def draw_seg_def draw_tile_def SIDE_def)

text \<open>The deadline of a frame is an \<open>int\<close> of microseconds: it overflows in the 36th minute.\<close>

lemma frame_deadline_overflow: "21475 \<le> next_frame s \<Longrightarrow> uptime clock i e s = Inl (Fault Undefined_Behaviour)"
  by (simp add: uptime_def wait_frame_def FPS_def faultP_def guardR_def)

definition demo_run :: "(fbdraw list \<times> game) play" where
  "demo_run = amgame (\<lambda>i. 10000000) 640 480 [(AM_KEY_NONE, False), (AM_KEY_S, True), (AM_KEY_NONE, False)]"

lemma demo_wait: "1 \<le> n \<Longrightarrow> n \<le> 3 \<Longrightarrow> wait_frame (\<lambda>i. 10000000) n i = Inr (i + 1)"
proof -
  assume n: "1 \<le> n" "n \<le> 3"
  then consider "n = 1" | "n = 2" | "n = 3" by arith
  then have "\<not> (10000000 :: u64) < word_of_int (100000 * n)" by cases simp_all
  then show ?thesis using n by (simp add: wait_frame_def FPS_def poll_clock.simps [of _ _ i])
qed

lemma demo_key: "key_name AM_KEY_S = Inr ''S''"
  by (simp add: key_name_def AM_KEYS_def)

theorem snake_invariant_witness:
  "\<exists>out s. demo_run = Inr (out, s) \<and> map seg_len (segs s) = [8, 2] \<and> snake_ok s \<and> (\<forall>r\<in>set out. near_screen 640 480 r)"
proof -
  have "\<exists>out s. demo_run = Inr (out, s) \<and> map seg_len (segs s) = [8, 2]"
    by (simp add: demo_run_def amgame_def splash_init_def Let_def uptime_def demo_wait faultP_def game_progress_def
        demo_key kbd_process_def new_seg_create_def beg_def logic_for_end_def set_beg_def dead_def LEN_def SIDE_def)
  then show ?thesis using snake_invariant [of 640 480 "\<lambda>i. 10000000"] unfolding demo_run_def by (fastforce simp: LEN_def SIDE_def)
qed

end
