(* ===== verification/Buddy.thy ===== *)
theory Buddy
  imports Lock
begin

text \<open>
  The earlier allocator \<open>kernel/pmm.c\<close>, which the kernel's build leaves out: slabs of small blocks,
  one page each, and a buddy tree over 32 MiB for large ones.  Its structures survive as comments in
  \<open>include/common.h\<close>; the addresses \<open>METADATA\<close>, \<open>PAGE\<close> and \<open>HUGE\<close> are defined nowhere and
  are parameters here.  The functions carry the prefix \<open>buddy_\<close>, as \<open>Pmm\<close> has the same names.
\<close>

section \<open>Data\<close>

record slab_header =
  magic :: u32
  nex_slab :: addr

record slab =
  slab_sz :: nat
  slab_freelist :: addr
  nxtslab :: addr
  slab_m :: lock_t
  isfull :: bool

record cache =
  cache_sz :: nat
  cache_m :: lock_t
  freeslab :: addr

text \<open>A slab sits at the start of its page and the headers of its blocks lie behind it.  \<open>intree\<close> is
  the area of 4096 bytes that \<open>global_init\<close> sets aside.\<close>

record draft =
  METADATA :: addr
  PAGE :: addr
  HUGE :: addr
  bg_lock :: lock_t
  b_lock :: lock_t
  boundnow :: addr
  meta :: addr
  cachelist :: "cache list"
  intree :: "u8 list"
  slabs :: "addr \<Rightarrow> slab"
  hdrs :: "addr \<Rightarrow> slab_header"

definition MAGIC :: u32 where "MAGIC = 0x1234ffff"

definition sizeof_slab :: u64 where "sizeof_slab = 32"
definition sizeof_cache :: u64 where "sizeof_cache = 16"
definition sizeof_slab_header :: u64 where "sizeof_slab_header = 16"

fun zero_tree :: "nat list \<Rightarrow> u8 list \<Rightarrow> u8 list result" where
  "zero_tree [] t = Inr t"
| "zero_tree (i # is) t = bindR (arr_set t i 0) (zero_tree is)"

definition global_init :: "draft \<Rightarrow> draft result" where
  "global_init s =
     (let cachecur = METADATA s + 8 * sizeof_cache; meta = cachecur + sizeof_cache in
     bindR (zero_tree [0..<2 ^ 11 + 2] (intree s)) (\<lambda>t.
     Inr (s\<lparr>boundnow := PAGE s, bg_lock := lockinit (bg_lock s), b_lock := lockinit (b_lock s),
       cachelist := map (\<lambda>i. \<lparr>cache_sz = i + 4, cache_m = \<lparr>flag = 0\<rparr>, freeslab = NULL\<rparr>) [0..<9],
       intree := t, meta := meta + 2 ^ 12\<rparr>)))"

section \<open>Slabs\<close>

text \<open>The loop that links the blocks of a slab, and ends the list.\<close>

partial_function (option) link_blocks :: "u64 \<Rightarrow> addr \<Rightarrow> addr \<Rightarrow> (addr \<Rightarrow> slab_header) \<Rightarrow> (addr \<Rightarrow> slab_header) result option" where
  "link_blocks step slabound listcur h =
     (if listcur + step < slabound
      then link_blocks step slabound (listcur + sizeof_slab_header)
        (h(listcur := \<lparr>magic = MAGIC, nex_slab = listcur + sizeof_slab_header\<rparr>))
      else Some (Inr (h(listcur := (h listcur)\<lparr>nex_slab := NULL\<rparr>))))"

definition buddy_pagealloc :: "nat \<Rightarrow> draft \<Rightarrow> (addr \<times> draft) result" where
  "buddy_pagealloc sz s =
     bindR (lock_wait (bg_lock s)) (\<lambda>lk.
     let newslab = boundnow s; s = s\<lparr>boundnow := boundnow s + 2 ^ 12\<rparr> in
     if boundnow s > HUGE s then Inr (NULL, s\<lparr>bg_lock := unlock lk\<rparr>)
     else
       let m = lockinit (slab_m (slabs s newslab)); s = s\<lparr>bg_lock := unlock lk\<rparr> in
       bindR (lock_wait m) (\<lambda>m.
       if sz = 11 \<or> sz = 12 then
         Inr (newslab, s\<lparr>slabs := (slabs s)(newslab :=
           \<lparr>slab_sz = sz, slab_freelist = NULL, nxtslab = NULL, slab_m = unlock m, isfull = False\<rparr>)\<rparr>)
       else
         let fl = ROUNDUP (newslab + sizeof_slab) (2 ^ sz) in
         bindR (returns (link_blocks (2 ^ sz) (newslab + 2 ^ 12) fl (hdrs s))) (\<lambda>h.
         Inr (newslab, s\<lparr>hdrs := h, slabs := (slabs s)(newslab :=
           (slabs s newslab)\<lparr>slab_sz := sz, slab_freelist := fl, slab_m := unlock m, isfull := False\<rparr>)\<rparr>))))"

text \<open>The loop over the full slabs of a cache.\<close>

partial_function (option) skip_full :: "draft \<Rightarrow> addr \<Rightarrow> addr result option" where
  "skip_full s p = (if p \<noteq> NULL \<and> isfull (slabs s p) then skip_full s (nxtslab (slabs s p)) else Some (Inr p))"

text \<open>\<open>smallalloc\<close> from the label \<open>retry\<close> on; \<open>c\<close> is the function's own copy of the cache.\<close>

partial_function (option) smallalloc_retry :: "nat \<Rightarrow> cache \<Rightarrow> draft \<Rightarrow> (addr \<times> draft) result option" where
  "smallalloc_retry sz c s =
     (case bindR (lock_wait (cache_m c)) (\<lambda>lk.
        bindR (returns (skip_full s (freeslab c))) (\<lambda>p.
        if p \<noteq> NULL then Inr (c\<lparr>cache_m := unlock lk, freeslab := p\<rparr>, s)
        else bindR (buddy_pagealloc sz s) (\<lambda>(newslab, s).
          bindR (guardR Null_Deref (newslab \<noteq> NULL)) (\<lambda>_.
          Inr (c\<lparr>cache_m := unlock lk, freeslab := newslab\<rparr>,
            s\<lparr>slabs := (slabs s)(newslab := (slabs s newslab)\<lparr>nxtslab := p\<rparr>)\<rparr>))))) of
        Inl e \<Rightarrow> Some (Inl e)
      | Inr (c, s) \<Rightarrow>
          if sz = 11 \<or> sz = 12 then
            (if freeslab c \<noteq> NULL then Some (Inr (freeslab c, s)) else smallalloc_retry sz c s)
          else (case lock_wait (slab_m (slabs s (freeslab c))) of
              Inl e \<Rightarrow> Some (Inl e)
            | Inr m \<Rightarrow>
                if isfull (slabs s (freeslab c)) then
                  smallalloc_retry sz c (s\<lparr>slabs := (slabs s)(freeslab c := (slabs s (freeslab c))\<lparr>slab_m := unlock m\<rparr>)\<rparr>)
                else
                  let b = slabs s (freeslab c); r = slab_freelist b; h = hdrs s r in
                  if r = NULL then Some (Inl Null_Deref)
                  else Some (Inr (r, s\<lparr>hdrs := (hdrs s)(r := h\<lparr>magic := 0\<rparr>), slabs := (slabs s)(freeslab c :=
                    b\<lparr>slab_freelist := nex_slab h, isfull := (isfull b \<or> nex_slab h = NULL), slab_m := unlock m\<rparr>)\<rparr>))))"

definition buddy_smallalloc :: "nat \<Rightarrow> draft \<Rightarrow> (addr \<times> draft) result" where
  "buddy_smallalloc sz s =
     bindR (arr_get (cachelist s) (sz - 4)) (\<lambda>c. returns (smallalloc_retry sz c s))"

text \<open>The cache that \<open>smallfree\<close> puts a slab on is again its own copy, so only the slab changes.\<close>

definition to_cache :: "addr \<Rightarrow> draft \<Rightarrow> draft result" where
  "to_cache p s =
     bindR (arr_get (cachelist s) (slab_sz (slabs s p) - 4)) (\<lambda>ca.
     bindR (lock_wait (cache_m ca)) (\<lambda>lk.
     Inr (s\<lparr>slabs := (slabs s)(p := (slabs s p)\<lparr>nxtslab := freeslab ca\<rparr>)\<rparr>)))"

definition smallfree :: "addr \<Rightarrow> draft \<Rightarrow> draft result" where
  "smallfree ptr s =
     (let pageid = (ptr - PAGE s) div 2 ^ 12; p = PAGE s + pageid * 2 ^ 12 in
      if slab_sz (slabs s p) \<le> 10 then
        bindR (lock_wait (slab_m (slabs s p))) (\<lambda>m.
        let full = isfull (slabs s p);
          s = s\<lparr>hdrs := (hdrs s)(ptr := \<lparr>magic = MAGIC, nex_slab = slab_freelist (slabs s p)\<rparr>),
            slabs := (slabs s)(p := (slabs s p)\<lparr>isfull := False, slab_m := unlock m\<rparr>)\<rparr> in
        if full then to_cache p s else Inr s)
      else to_cache p s)"

section \<open>The buddy tree\<close>

text \<open>Node \<open>i\<close> has the children \<open>2 * i + 1\<close> and \<open>2 * i + 2\<close>; 0 is free, 1 partly used, 2 full.
  The search for a free node \<open>sz\<close> levels below the root looks at both subtrees in any case; \<open>None\<close>
  is the answer \<open>-1\<close>.\<close>

lemma bindR_cong [fundef_cong]:
  "m = m' \<Longrightarrow> (\<And>x. m' = Inr x \<Longrightarrow> k x = k' x) \<Longrightarrow> bindR m k = bindR m' k'"
  by (cases m') simp_all

function buddy_dfs :: "u8 list \<Rightarrow> nat \<Rightarrow> nat \<Rightarrow> nat \<Rightarrow> nat option result" where
  "buddy_dfs t dep i sz =
     bindR (arr_get t i) (\<lambda>v.
     if dep = sz then Inr (if v = 0 then Some i else None)
     else if v = 2 then Inr None
     else
       bindR (buddy_dfs t (dep + 1) (2 * i + 1) sz) (\<lambda>ans1.
       bindR (buddy_dfs t (dep + 1) (2 * i + 2) sz) (\<lambda>ans2.
       Inr (if ans1 = None then ans2 else ans1))))"
  by pat_completeness auto
termination
  by (relation "measure (\<lambda>(t, dep, i, sz). length t - i)") (auto simp: arr_get_Inr)

text \<open>The way from a node up to the root: the node is full, and an ancestor is, if the two children
  on the way are; otherwise it is partly used.\<close>

fun mark_path :: "nat \<Rightarrow> bool \<Rightarrow> u8 list \<Rightarrow> u8 list result" where
  "mark_path cur merge t =
     (if cur = 0 then Inr t
      else
        bindR (arr_set t cur (if merge then 2 else 1)) (\<lambda>t.
        let neib = (if odd cur then cur + 1 else cur - 1) in
        bindR (arr_get t neib) (\<lambda>v.
        mark_path ((cur - 1) div 2) (v = 2 \<and> t ! cur = 2) t)))"

definition buddy_hugealloc :: "nat \<Rightarrow> draft \<Rightarrow> (addr \<times> draft) result" where
  "buddy_hugealloc sz s =
     (let dep = unat (25 - word_of_nat sz :: u64) in
     bindR (guardR Undefined_Behaviour (sz < 31)) (\<lambda>_.
     bindR (lock_wait (b_lock s)) (\<lambda>lk.
     bindR (buddy_dfs (intree s) 0 0 dep) (\<lambda>ans. case ans of
         None \<Rightarrow> Inr (NULL, s\<lparr>b_lock := lk\<rparr>)
       | Some i \<Rightarrow>
           bindR (mark_path i True (intree s)) (\<lambda>t.
           bindR (arr_get t 1) (\<lambda>l. bindR (arr_get t 2) (\<lambda>r.
           let t = (if l = 2 \<and> r = 2 then t[0 := 2] else t) in
           Inr (2 ^ sz * (word_of_nat i - 2 ^ dep + 1) + HUGE s, s\<lparr>b_lock := unlock lk, intree := t\<rparr>))))))))"

text \<open>The number of zero bits of a page number, which never ends for 0.\<close>

partial_function (option) page_zeros :: "addr \<Rightarrow> int \<Rightarrow> int option" where
  "page_zeros a dep = (if a AND 1 \<noteq> 0 then Some dep else page_zeros (drop_bit 1 a) (dep + 1))"

text \<open>Down the left children: to a full node, then to one whose children are not both full.\<close>

function down_full :: "u8 list \<Rightarrow> nat \<Rightarrow> nat result" where
  "down_full t i = bindR (arr_get t i) (\<lambda>v. if v = 2 then Inr i
     else bindR (arr_get t (2 * i + 1)) (\<lambda>v. bindR (guardR Assert_Fail (v \<noteq> 0)) (\<lambda>_. down_full t (2 * i + 1))))"
  by pat_completeness auto
termination
  by (relation "measure (\<lambda>(t, i). length t - i)") (auto simp: arr_get_Inr)

function down_block :: "u8 list \<Rightarrow> nat \<Rightarrow> nat result" where
  "down_block t i =
     bindR (arr_get t (2 * i + 1)) (\<lambda>l. if l \<noteq> 2 then Inr i else
     bindR (arr_get t (2 * i + 2)) (\<lambda>r. if r \<noteq> 2 then Inr i else down_block t (2 * i + 1)))"
  by pat_completeness auto
termination
  by (relation "measure (\<lambda>(t, i). length t - i)") (auto simp: arr_get_Inr)

text \<open>Up again while something changes.  The root has no parent: the index is \<open>-1\<close> there.\<close>

fun unmark_path :: "nat \<Rightarrow> u8 list \<Rightarrow> u8 list result" where
  "unmark_path cur t =
     (if cur = 0 then Inl Out_Of_Bounds
      else
        let fa = (if odd cur then (cur - 1) div 2 else (cur - 2) div 2); nei = (if odd cur then cur + 1 else cur - 1) in
        bindR (arr_get t fa) (\<lambda>v.
        let again = (v = 2); t = (if v = 2 then t[fa := 1] else t) in
        bindR (arr_get t cur) (\<lambda>c. bindR (arr_get t nei) (\<lambda>n. bindR (arr_get t fa) (\<lambda>f.
        if c = 0 \<and> n = 0 \<and> f \<noteq> 0 then unmark_path fa (t[fa := 0])
        else if again then unmark_path fa t else Inr t)))))"

definition hugefree :: "addr \<Rightarrow> draft \<Rightarrow> draft result" where
  "hugefree ptr s =
     bindR (guardR Assert_Fail (ptr AND 2 ^ 12 = 0)) (\<lambda>_.
     bindR (returns (map_option Inr (page_zeros (drop_bit 12 ptr) 0))) (\<lambda>dep.
     bindR (guardR Undefined_Behaviour (12 + dep < 31)) (\<lambda>_.
     let truesize = 2 ^ nat (12 + dep) :: u64; dep = 13 - dep in
     bindR (guardR Undefined_Behaviour (0 \<le> dep)) (\<lambda>_.
     let blockid = (ptr - HUGE s) div truesize in
     bindR (guardR Assert_Fail (blockid * truesize + HUGE s = ptr)) (\<lambda>_.
     bindR (down_full (intree s) (2 ^ nat dep - 1 + unat blockid)) (\<lambda>curid.
     bindR (down_block (intree s) curid) (\<lambda>curid.
     bindR (unmark_path curid ((intree s)[curid := 0])) (\<lambda>t. Inr (s\<lparr>intree := t\<rparr>)))))))))"

definition buddy_kalloc :: "u64 \<Rightarrow> draft \<Rightarrow> (addr \<times> draft) result" where
  "buddy_kalloc bytes s =
     (case ROUND_SELF bytes of None \<Rightarrow> Inl Spin_Forever
      | Some sz \<Rightarrow> if sz \<le> 4 then buddy_smallalloc 4 s
          else if sz \<le> 12 then buddy_smallalloc (nat sz) s else buddy_hugealloc (nat sz) s)"

definition buddy_kfree :: "addr \<Rightarrow> draft \<Rightarrow> draft result" where
  "buddy_kfree ptr s = (if HUGE s \<le> ptr then hugefree ptr s else smallfree ptr s)"

end
