(* ===== verification/BuddyProofs.thy ===== *)
theory BuddyProofs
  imports Buddy
begin

text \<open>
  The buddy tree of the earlier allocator: blocks of 16 KiB to 16 MiB that it hands out are disjoint.
\<close>

declare buddy_dfs.simps [simp del] mark_path.simps [simp del]

section \<open>The tree\<close>

definition par :: "nat \<Rightarrow> nat" where
  "par i = (i - 1) div 2"

text \<open>\<open>j\<close> is in the subtree of \<open>i\<close>.\<close>

definition below :: "nat \<Rightarrow> nat \<Rightarrow> bool" where
  "below i j \<longleftrightarrow> (\<exists>k. (par ^^ k) j = i)"

lemma par_children [simp]: "par (2 * i + 1) = i" "par (2 * i + 2) = i" "par (Suc (2 * i)) = i" "par (Suc (Suc (2 * i))) = i"
  by (simp_all add: par_def)

lemma par_0 [simp]: "par 0 = 0" "(par ^^ k) 0 = 0"
proof -
  show p: "par 0 = 0" by (simp add: par_def)
  show "(par ^^ k) 0 = 0" by (induction k) (simp_all add: p)
qed

lemma par_less: "0 < i \<Longrightarrow> par i < i"
  by (simp add: par_def)

lemma pars_le: "(par ^^ k) j \<le> j"
proof (induction k)
  case (Suc k)
  have "par ((par ^^ k) j) \<le> (par ^^ k) j" by (simp add: par_def)
  with Suc show ?case by simp
qed simp

lemma below_le: "below i j \<Longrightarrow> i \<le> j"
  using pars_le by (auto simp: below_def)

lemma below_refl [simp]: "below i i"
  by (auto simp: below_def intro: exI [of _ 0])

lemma below_step: "below i j \<longleftrightarrow> i = j \<or> below i (par j)"
proof
  assume "below i j"
  then obtain k where k: "(par ^^ k) j = i" by (auto simp: below_def)
  show "i = j \<or> below i (par j)"
  proof (cases k)
    case (Suc m)
    then have "(par ^^ m) (par j) = i" using k by (simp add: funpow_swap1)
    then show ?thesis by (auto simp: below_def)
  qed (use k in simp)
next
  assume "i = j \<or> below i (par j)"
  then show "below i j"
  proof
    assume "below i (par j)"
    then obtain k where "(par ^^ k) (par j) = i" by (auto simp: below_def)
    then have "(par ^^ Suc k) j = i" by (simp add: funpow_swap1)
    then show ?thesis unfolding below_def by blast
  qed simp
qed

text \<open>The nodes of a level.\<close>

definition at_level :: "nat \<Rightarrow> nat \<Rightarrow> bool" where
  "at_level d i \<longleftrightarrow> 2 ^ d \<le> i + 1 \<and> i + 1 < 2 ^ (d + 1)"

lemma pars_block:
  assumes "at_level (d + k) i"
  shows "at_level d ((par ^^ k) i) \<and> (par ^^ k) i + 1 - 2 ^ d = (i + 1 - 2 ^ (d + k)) div 2 ^ k"
  using assms
proof (induction k arbitrary: i)
  case (Suc k)
  have "(2::nat) \<le> 2 ^ (d + Suc k)" by simp
  then have i: "0 < i" using Suc.prems unfolding at_level_def by linarith
  have p: "par i + 1 = (i + 1) div 2" using i by (simp add: par_def)
  have lv: "at_level (d + k) (par i)" using Suc.prems unfolding at_level_def p by auto
  have "(i + 1) div 2 - 2 ^ (d + k) = (i + 1 - 2 ^ (d + Suc k)) div 2" by simp
  then have "(par i + 1 - 2 ^ (d + k)) div 2 ^ k = (i + 1 - 2 ^ (d + Suc k)) div 2 ^ Suc k"
    unfolding p by (simp only: power_Suc div_mult2_eq)
  with Suc.IH [OF lv] show ?case by (simp add: funpow_swap1)
qed simp

section \<open>The search and the update\<close>

lemma dfs_found:
  assumes "buddy_dfs t dep i sz = Inr (Some j)" and "at_level dep i"
  shows "j < length t \<and> t ! j = 0 \<and> dep \<le> sz \<and> at_level sz j \<and> (par ^^ (sz - dep)) j = i \<and>
    (\<forall>m. 0 < m \<and> m \<le> sz - dep \<longrightarrow> t ! ((par ^^ m) j) \<noteq> 2)"
  using assms
proof (induction t dep i sz rule: buddy_dfs.induct)
  case (1 t dep i sz)
  obtain v where v: "arr_get t i = Inr v" using "1.prems"(1) by (cases "arr_get t i") (simp_all add: buddy_dfs.simps)
  then have vi: "i < length t" "v = t ! i" by (simp_all add: arr_get_Inr)
  note U = "1.prems"(1) [unfolded buddy_dfs.simps [of t dep i sz] v bindR_simps]
  show ?case
  proof (cases "dep = sz")
    case True
    then have "j = i" "v = 0" using U by (simp_all split: if_splits)
    then show ?thesis using True "1.prems"(2) vi by simp
  next
    case False
    have v2: "v \<noteq> 2" using U False by auto
    obtain a1 a2 where a: "buddy_dfs t (dep + 1) (2 * i + 1) sz = Inr a1" "buddy_dfs t (dep + 1) (2 * i + 2) sz = Inr a2"
      "Some j = (if a1 = None then a2 else a1)"
      using U False v2 unfolding if_not_P [OF False] if_not_P [OF v2] bindR_Inr_iff by auto
    have lv: "at_level (dep + 1) (2 * i + 1)" "at_level (dep + 1) (2 * i + 2)" using "1.prems"(2) by (auto simp: at_level_def)
    obtain c where c: "c = 2 * i + 1 \<or> c = 2 * i + 2" and r: "j < length t \<and> t ! j = 0 \<and> dep + 1 \<le> sz \<and> at_level sz j \<and>
      (par ^^ (sz - (dep + 1))) j = c \<and> (\<forall>m. 0 < m \<and> m \<le> sz - (dep + 1) \<longrightarrow> t ! ((par ^^ m) j) \<noteq> 2)"
    proof (cases "a1 = None")
      case True
      then show ?thesis using that "1.IH"(2) [OF v False v2 a(1) _ lv(2)] a(2,3) by auto
    next
      case False
      then show ?thesis using that "1.IH"(1) [OF v \<open>dep \<noteq> sz\<close> v2 _ lv(1)] a(1,3) by auto
    qed
    let ?n = "sz - (dep + 1)"
    have sd: "sz - dep = Suc ?n" using r by linarith
    have up: "(par ^^ Suc ?n) j = i" using r c by auto
    have "t ! ((par ^^ m) j) \<noteq> 2" if "0 < m" "m \<le> Suc ?n" for m
      using r up v2 vi that by (cases "m = Suc ?n") auto
    then show ?thesis using r up unfolding sd by auto
  qed
qed

lemma mark_path_spec:
  assumes "mark_path cur m t = Inr t'"
  shows "length t' = length t \<and> (\<forall>x. x = 0 \<or> \<not> below x cur \<longrightarrow> t' ! x = t ! x) \<and>
    (\<forall>x. x \<noteq> 0 \<and> below x cur \<longrightarrow> t' ! x \<noteq> 0) \<and> (cur \<noteq> 0 \<and> m \<longrightarrow> t' ! cur = 2)"
  using assms
proof (induction cur m t rule: mark_path.induct)
  case (1 cur m t)
  show ?case
  proof (cases "cur = 0")
    case True
    then have "t' = t" using "1.prems" [unfolded mark_path.simps [of cur m t]] by simp
    then show ?thesis using True below_le [of _ 0] by auto
  next
    case False
    let ?v = "if m then 2 else 1 :: u8" and ?n = "if odd cur then cur + 1 else cur - 1"
    obtain t1 w where t1: "arr_set t cur ?v = Inr t1" "arr_get t1 ?n = Inr w" "mark_path ((cur - 1) div 2) (w = 2 \<and> t1 ! cur = 2) t1 = Inr t'"
      using "1.prems" [unfolded mark_path.simps [of cur m t] if_not_P [OF False] bindR_Inr_iff Let_def] by auto
    have tt: "t1 = t[cur := ?v]" "cur < length t" using t1(1) by (simp_all add: arr_set_Inr)
    have IH: "length t' = length t1 \<and> (\<forall>x. x = 0 \<or> \<not> below x (par cur) \<longrightarrow> t' ! x = t1 ! x) \<and>
      (\<forall>x. x \<noteq> 0 \<and> below x (par cur) \<longrightarrow> t' ! x \<noteq> 0)"
      using "1.IH" [OF False t1(1) refl t1(2) t1(3)] unfolding par_def by blast
    have nb: "\<not> below cur (par cur)" using below_le [of cur "par cur"] par_less [of cur] False by auto
    then have cur: "t' ! cur = ?v" using IH tt by simp
    show ?thesis using IH tt cur nb False below_step [of _ cur] by (cases m) (auto simp: nth_list_update)
  qed
qed

section \<open>The blocks\<close>

definition tree_inv :: "u8 list \<Rightarrow> nat set \<Rightarrow> bool" where
  "tree_inv t A \<longleftrightarrow> (\<forall>a\<in>A. a \<noteq> 0 \<and> a < length t \<and> t ! a = 2) \<and>
     (\<forall>i<length t. i \<noteq> 0 \<and> t ! i = 0 \<longrightarrow> (\<forall>a\<in>A. \<not> below i a))"

lemma tree_step:
  assumes inv: "tree_inv t A" and found: "buddy_dfs t 0 0 dep = Inr (Some j)" and dep: "0 < dep"
    and mark: "mark_path j True t = Inr t'"
  shows "tree_inv t' (insert j A) \<and> length t' = length t \<and> at_level dep j \<and> (\<forall>a\<in>A. \<not> below a j \<and> \<not> below j a)"
proof -
  have j: "j < length t" "t ! j = 0" "at_level dep j" "(par ^^ dep) j = 0" and up: "\<And>m. 0 < m \<Longrightarrow> m \<le> dep \<Longrightarrow> t ! ((par ^^ m) j) \<noteq> 2"
    using dfs_found [OF found] by (auto simp: at_level_def)
  have "(2::nat) \<le> 2 ^ dep" using dep by (cases dep) simp_all
  then have j0: "j \<noteq> 0" using j(3) unfolding at_level_def by linarith
  have "\<not> below j a" if "a \<in> A" for a using inv j j0 that by (auto simp: tree_inv_def)
  moreover have ab: "\<not> below a j" if "a \<in> A" for a
  proof
    assume "below a j"
    then obtain m where m: "(par ^^ m) j = a" by (auto simp: below_def)
    have a: "a \<noteq> 0" "t ! a = 2" using inv that by (auto simp: tree_inv_def)
    consider "m = 0" | "0 < m" "m \<le> dep" | "dep < m" by linarith
    then show False
    proof cases
      case 1
      then show False using m a j(2) by simp
    next
      case 2
      then show False using up m a by auto
    next
      case 3
      then have "(par ^^ m) j = (par ^^ (m - dep)) ((par ^^ dep) j)" by (simp flip: funpow_add comp_apply [of "par ^^ _"])
      then show False using m a j(4) by simp
    qed
  qed
  moreover have "tree_inv t' (insert j A)"
    using mark_path_spec [OF mark] inv j j0 ab unfolding tree_inv_def by (metis insert_iff)
  ultimately show ?thesis using mark_path_spec [OF mark] j(3) by auto
qed

text \<open>Nodes that do not lie below each other stand for ranges that do not overlap, in units of the root.\<close>

lemma ranges_apart:
  assumes "at_level d i" and "at_level (d + k) j" and "\<not> below i j"
  shows "(i + 1 - 2 ^ d + 1) * 2 ^ k \<le> j + 1 - 2 ^ (d + k) \<or> j + 1 - 2 ^ (d + k) + 1 \<le> (i + 1 - 2 ^ d) * 2 ^ k"
proof -
  let ?q = "i + 1 - 2 ^ d" and ?r = "j + 1 - 2 ^ (d + k)"
  have p: "at_level d ((par ^^ k) j)" "(par ^^ k) j + 1 - 2 ^ d = ?r div 2 ^ k" using pars_block [OF assms(2)] by simp_all
  have "(par ^^ k) j \<noteq> i" using assms(3) by (auto simp: below_def)
  then have "?r div 2 ^ k \<noteq> ?q" using p assms(1) unfolding at_level_def by linarith
  then consider "?q + 1 \<le> ?r div 2 ^ k" | "?r div 2 ^ k + 1 \<le> ?q" by linarith
  then show ?thesis
  proof cases
    case 1
    then have "(?q + 1) * 2 ^ k \<le> ?r div 2 ^ k * 2 ^ k" by (rule mult_le_mono1)
    then show ?thesis using div_times_less_eq_dividend [of ?r "2 ^ k"] by linarith
  next
    case 2
    then have "(?r div 2 ^ k + 1) * 2 ^ k \<le> ?q * 2 ^ k" by (rule mult_le_mono1)
    moreover have "?r < (?r div 2 ^ k + 1) * 2 ^ k"
      using dividend_less_div_times [of "2 ^ k" ?r] by (simp only: distrib_right mult_1) simp
    ultimately show ?thesis by linarith
  qed
qed

definition node_addr :: "draft \<Rightarrow> nat \<Rightarrow> nat \<Rightarrow> addr" where
  "node_addr s sz j = 2 ^ sz * (word_of_nat j - 2 ^ (25 - sz) + 1) + HUGE s"

lemma level_offset:
  assumes "at_level (25 - sz) j" and "sz \<le> 25"
  shows "2 ^ sz * (j + 1 - 2 ^ (25 - sz)) + 2 ^ sz \<le> 2 ^ 25"
proof -
  have "j + 1 - 2 ^ (25 - sz) + 1 \<le> 2 ^ (25 - sz)" using assms(1) by (auto simp: at_level_def)
  then have "2 ^ sz * (j + 1 - 2 ^ (25 - sz) + 1) \<le> 2 ^ sz * 2 ^ (25 - sz)" by (rule mult_le_mono2)
  also have "(2::nat) ^ sz * 2 ^ (25 - sz) = 2 ^ 25" using assms(2) by (simp flip: power_add)
  finally show ?thesis by (simp only: distrib_left mult_1_right)
qed

lemma node_addr_nat:
  assumes "at_level (25 - sz) j" and "sz \<le> 25" and "unat (HUGE s) + 2 ^ 25 \<le> 2 ^ 64"
  shows "unat (node_addr s sz j) = unat (HUGE s) + 2 ^ sz * (j + 1 - 2 ^ (25 - sz))"
proof -
  let ?q = "j + 1 - 2 ^ (25 - sz)"
  have "2 ^ (25 - sz) \<le> j + 1" using assms(1) by (simp add: at_level_def)
  then have "word_of_nat ?q = (word_of_nat (j + 1) - word_of_nat (2 ^ (25 - sz)) :: addr)" by (rule of_nat_diff)
  then have q: "word_of_nat j - 2 ^ (25 - sz) + 1 = (word_of_nat ?q :: addr)" by simp
  have "2 ^ sz * (word_of_nat j - 2 ^ (25 - sz) + 1) + HUGE s = word_of_nat (2 ^ sz * ?q + unat (HUGE s))"
    unfolding q by simp
  moreover have "2 ^ sz * ?q + unat (HUGE s) < 2 ^ 64"
    using level_offset [OF assms(1,2)] assms(3) zero_less_power [of "2 :: nat" sz] by linarith
  ultimately show ?thesis unfolding node_addr_def by (simp only: unat64_of_nat add.commute)
qed

text \<open>A block of order \<open>sz\<close> at an address, and disjointness.\<close>

definition blocks_apart :: "nat \<times> addr \<Rightarrow> nat \<times> addr \<Rightarrow> bool" where
  "blocks_apart b b' \<longleftrightarrow> unat (snd b) + 2 ^ fst b \<le> unat (snd b') \<or> unat (snd b') + 2 ^ fst b' \<le> unat (snd b)"

lemma blocks_apart_sym: "blocks_apart b b' = blocks_apart b' b"
  by (auto simp: blocks_apart_def)

lemma nodes_apart_le:
  assumes "at_level (25 - sz) i" and "at_level (25 - sz') j" and "\<not> below i j" and "sz' \<le> sz" and "sz \<le> 25"
    and "unat (HUGE s) + 2 ^ 25 \<le> 2 ^ 64"
  shows "blocks_apart (sz, node_addr s sz i) (sz', node_addr s sz' j)"
proof -
  let ?q = "i + 1 - 2 ^ (25 - sz)" and ?r = "j + 1 - 2 ^ (25 - sz')" and ?k = "sz - sz'"
  have k: "25 - sz' = 25 - sz + ?k" "2 ^ sz = 2 ^ sz' * (2 ^ ?k :: nat)" using assms(4,5) by (simp_all flip: power_add)
  have ns: "unat (node_addr s sz i) = unat (HUGE s) + 2 ^ sz * ?q" "unat (node_addr s sz' j) = unat (HUGE s) + 2 ^ sz' * ?r"
    using node_addr_nat assms by auto
  have "at_level (25 - sz + ?k) j" using assms(2) unfolding k(1) .
  from ranges_apart [OF assms(1) this assms(3)] consider "(?q + 1) * 2 ^ ?k \<le> ?r" | "?r + 1 \<le> ?q * 2 ^ ?k"
    unfolding k(1) by blast
  then show ?thesis
  proof cases
    case 1
    then have "2 ^ sz' * ((?q + 1) * 2 ^ ?k) \<le> 2 ^ sz' * ?r" by (rule mult_le_mono2)
    then have "2 ^ sz * ?q + 2 ^ sz \<le> 2 ^ sz' * ?r" unfolding k(2) by (simp only: algebra_simps)
    then show ?thesis unfolding blocks_apart_def fst_conv snd_conv ns by linarith
  next
    case 2
    then have "2 ^ sz' * (?r + 1) \<le> 2 ^ sz' * (?q * 2 ^ ?k)" by (rule mult_le_mono2)
    then have "2 ^ sz' * ?r + 2 ^ sz' \<le> 2 ^ sz * ?q" unfolding k(2) by (simp only: algebra_simps)
    then show ?thesis unfolding blocks_apart_def fst_conv snd_conv ns by linarith
  qed
qed

lemma nodes_apart:
  assumes "at_level (25 - sz) i" and "at_level (25 - sz') j" and "\<not> below i j" and "\<not> below j i" and "sz \<le> 25" and "sz' \<le> 25"
    and "unat (HUGE s) + 2 ^ 25 \<le> 2 ^ 64"
  shows "blocks_apart (sz, node_addr s sz i) (sz', node_addr s sz' j)"
  using nodes_apart_le [OF assms(1,2,3) _ assms(5,7)] nodes_apart_le [OF assms(2,1,4) _ assms(6,7)] blocks_apart_sym
  by (cases "sz' \<le> sz") auto

section \<open>Runs of the allocator\<close>

fun hugeallocs :: "nat list \<Rightarrow> draft \<Rightarrow> ((nat \<times> addr) list \<times> draft) result" where
  "hugeallocs [] s = Inr ([], s)"
| "hugeallocs (sz # szs) s =
     bindR (buddy_hugealloc sz s) (\<lambda>(p, s). bindR (hugeallocs szs s) (\<lambda>(bs, s). Inr ((sz, p) # bs, s)))"

text \<open>The blocks handed out so far, and their nodes.\<close>

definition buddy_ok :: "draft \<Rightarrow> (nat \<times> addr) list \<Rightarrow> bool" where
  "buddy_ok s bs \<longleftrightarrow> (\<exists>js. length js = length bs \<and> tree_inv (intree s) (set js) \<and>
     (\<forall>(b, j)\<in>set (zip bs js). fst b \<le> 24 \<and> at_level (25 - fst b) j \<and> snd b = node_addr s (fst b) j))"

lemma tree_inv_root: "tree_inv t A \<Longrightarrow> tree_inv (t[0 := v]) A"
proof -
  have n: "t[0 := v] ! i = t ! i" if "0 < i" for i using that by simp
  assume "tree_inv t A"
  then show "tree_inv (t[0 := v]) A" unfolding tree_inv_def by (auto simp: n simp del: nth_list_update)
qed

lemma hugealloc_step:
  assumes "buddy_ok s bs" and "buddy_hugealloc sz s = Inr (p, s')" and "14 \<le> sz" and "sz \<le> 24" and "unat (HUGE s) + 2 ^ 25 \<le> 2 ^ 64"
  shows "HUGE s' = HUGE s \<and> ((p = NULL \<and> buddy_ok s' bs) \<or>
    (buddy_ok s' ((sz, p) # bs) \<and> (\<forall>b\<in>set bs. blocks_apart (sz, p) b)))"
proof -
  obtain js where js: "length js = length bs" "tree_inv (intree s) (set js)"
    "\<forall>(b, j)\<in>set (zip bs js). fst b \<le> 24 \<and> at_level (25 - fst b) j \<and> snd b = node_addr s (fst b) j"
    using assms(1) by (auto simp: buddy_ok_def)
  have "(25 - word_of_nat sz :: u64) = word_of_nat (25 - sz)" using assms(4) by (simp add: of_nat_diff)
  then have dep: "unat (25 - word_of_nat sz :: u64) = 25 - sz" by (simp add: unat64_of_nat)
  obtain lk ans where a: "lock_wait (b_lock s) = Inr lk" "buddy_dfs (intree s) 0 0 (25 - sz) = Inr ans"
    and r: "(case ans of None \<Rightarrow> Inr (NULL, s\<lparr>b_lock := lk\<rparr>)
       | Some i \<Rightarrow> bindR (mark_path i True (intree s)) (\<lambda>t. bindR (arr_get t 1) (\<lambda>l. bindR (arr_get t 2) (\<lambda>r.
           let t = (if l = 2 \<and> r = 2 then t[0 := 2] else t) in
           Inr (2 ^ sz * (word_of_nat i - 2 ^ (25 - sz) + 1) + HUGE s, s\<lparr>b_lock := unlock lk, intree := t\<rparr>))))) = Inr (p, s')"
    using assms(2) unfolding buddy_hugealloc_def Let_def dep
    by (elim bindR_Inr_iff [THEN iffD1, THEN exE] conjE)
  show ?thesis
  proof (cases ans)
    case None
    then have "p = NULL" "s' = s\<lparr>b_lock := lk\<rparr>" using r by simp_all
    then show ?thesis using assms(1) by (simp add: buddy_ok_def node_addr_def)
  next
    case (Some i)
    obtain t b where t: "mark_path i True (intree s) = Inr t" "p = node_addr s sz i"
      "s' = s\<lparr>b_lock := unlock lk, intree := (if b then t[0 := 2] else t)\<rparr>"
      using r unfolding Some option.case bindR_Inr_iff Let_def node_addr_def by auto
    note T = tree_step [OF js(2) a(2) [unfolded Some] _ t(1)]
    have inv: "tree_inv (intree s') (set (i # js))" using T assms(4) tree_inv_root by (simp add: t(3))
    have lv: "at_level (25 - sz) i" using T assms(4) by simp
    have na: "node_addr s' = node_addr s" by (simp add: node_addr_def t(3) fun_eq_iff)
    have "buddy_ok s' ((sz, p) # bs)"
      unfolding buddy_ok_def na by (rule exI [of _ "i # js"]) (use js inv lv assms(4) t(2) in auto)
    moreover have "blocks_apart (sz, p) b" if mem: "b \<in> set bs" for b
    proof -
      obtain m where m: "m < length bs" "b = bs ! m" using mem by (auto simp: in_set_conv_nth)
      let ?j = "js ! m"
      have "(b, ?j) \<in> set (zip bs js)" using m js(1) by (auto simp: in_set_zip)
      with js(3) have j: "fst b \<le> 24" "at_level (25 - fst b) ?j" "b = (fst b, node_addr s (fst b) ?j)" by (auto simp: prod_eq_iff)
      have "?j \<in> set js" using m js(1) by simp
      then have "\<not> below ?j i \<and> \<not> below i ?j" using T assms(4) by simp
      then show ?thesis using nodes_apart [OF lv j(2), of s] assms(4,5) j(1) unfolding t(2) by (subst j(3)) simp
    qed
    ultimately show ?thesis by (simp add: t(3))
  qed
qed

lemma hugeallocs_apart:
  assumes "buddy_ok s bs" and "hugeallocs szs s = Inr (ps, s')" and "\<forall>sz\<in>set szs. 14 \<le> sz \<and> sz \<le> 24"
    and "unat (HUGE s) + 2 ^ 25 \<le> 2 ^ 64"
  shows "sorted_wrt blocks_apart (filter (\<lambda>b. snd b \<noteq> NULL) ps) \<and>
    (\<forall>b\<in>set bs. \<forall>b'\<in>set (filter (\<lambda>b. snd b \<noteq> NULL) ps). blocks_apart b' b)"
  using assms
proof (induction szs arbitrary: s bs ps)
  case (Cons sz szs)
  obtain p t qs where t: "buddy_hugealloc sz s = Inr (p, t)" "hugeallocs szs t = Inr (qs, s')" "ps = (sz, p) # qs"
    using Cons.prems(2) by (auto simp: bindR_Inr_iff split: prod.splits)
  have step: "HUGE t = HUGE s" "(p = NULL \<and> buddy_ok t bs) \<or>
    (buddy_ok t ((sz, p) # bs) \<and> (\<forall>b\<in>set bs. blocks_apart (sz, p) b))"
    using hugealloc_step [OF Cons.prems(1) t(1)] Cons.prems(3,4) by auto
  have rest: "\<forall>sz\<in>set szs. 14 \<le> sz \<and> sz \<le> 24" "unat (HUGE t) + 2 ^ 25 \<le> 2 ^ 64" using Cons.prems(3,4) step(1) by auto
  note IH = Cons.IH [OF _ t(2) rest]
  from step(2) show ?case
  proof
    assume "p = NULL \<and> buddy_ok t bs"
    then show ?thesis using IH [of bs] unfolding t(3) by simp
  next
    assume b: "buddy_ok t ((sz, p) # bs) \<and> (\<forall>b\<in>set bs. blocks_apart (sz, p) b)"
    with IH [of "(sz, p) # bs"] have "sorted_wrt blocks_apart (filter (\<lambda>b. snd b \<noteq> NULL) qs)"
      "\<forall>b\<in>set ((sz, p) # bs). \<forall>b'\<in>set (filter (\<lambda>b. snd b \<noteq> NULL) qs). blocks_apart b' b" by blast+
    with b show ?thesis unfolding t(3) using blocks_apart_sym [of "(sz, p)"] by simp
  qed
qed simp

text \<open>C34. From an empty buddy tree over 32 MiB, whatever blocks of 16 KiB to 16 MiB are allocated, the
  blocks that \<open>hugealloc\<close> returns are pairwise disjoint.\<close>

theorem buddy_disjoint:
  assumes "intree s = replicate 4096 0" and "unat (HUGE s) + 2 ^ 25 \<le> 2 ^ 64" and "\<forall>sz\<in>set szs. 14 \<le> sz \<and> sz \<le> 24"
    and "hugeallocs szs s = Inr (ps, s')"
  shows "sorted_wrt blocks_apart (filter (\<lambda>b. snd b \<noteq> NULL) ps)"
proof -
  have "buddy_ok s []" using assms(1) by (simp add: buddy_ok_def tree_inv_def)
  from hugeallocs_apart [OF this assms(4,3,2)] show ?thesis by blast
qed

definition demo_buddy :: draft where
  "demo_buddy = \<lparr>METADATA = 0x200000, PAGE = 0x300000, HUGE = 0x2000000, bg_lock = \<lparr>flag = 0\<rparr>, b_lock = \<lparr>flag = 0\<rparr>,
     boundnow = 0x300000, meta = 0x201090, cachelist = [], intree = replicate 4096 0,
     slabs = (\<lambda>_. \<lparr>slab_sz = 0, slab_freelist = NULL, nxtslab = NULL, slab_m = \<lparr>flag = 0\<rparr>, isfull = False\<rparr>),
     hdrs = (\<lambda>_. \<lparr>magic = 0, nex_slab = NULL\<rparr>)\<rparr>"

lemma demo_hugeallocs:
  "\<exists>s'. hugeallocs [24, 23] demo_buddy = Inr ([(24, 0x2000000), (23, 0x3000000)], s')"
proof -
  let ?t = "(replicate 4096 0 :: u8 list)[1 := 2]"
  have d: "buddy_dfs (replicate 4096 0) 0 0 1 = Inr (Some 1)" "buddy_dfs ?t 0 0 2 = Inr (Some 5)"
    by (simp_all add: buddy_dfs.simps arr_get_def)
  have m: "mark_path 1 True (replicate 4096 0) = Inr ?t" "mark_path 5 True ?t = Inr (?t[5 := 2, 2 := 1])"
    by (simp_all add: mark_path.simps arr_get_def arr_set_def list_update_swap)
  show ?thesis
    by (simp add: buddy_hugealloc_def demo_buddy_def Let_def d [unfolded One_nat_def] m [unfolded One_nat_def] arr_get_def unlock_def atomic_xchg_def)
qed

theorem buddy_disjoint_witness:
  "\<exists>s'. hugeallocs [24, 23] demo_buddy = Inr ([(24, 0x2000000), (23, 0x3000000)], s') \<and>
    sorted_wrt blocks_apart [(24, 0x2000000), (23, 0x3000000)]"
proof -
  obtain s' where s': "hugeallocs [24, 23] demo_buddy = Inr ([(24, 0x2000000), (23, 0x3000000)], s')" using demo_hugeallocs by blast
  have "intree demo_buddy = replicate 4096 0" "unat (HUGE demo_buddy) + 2 ^ 25 \<le> 2 ^ 64" by (simp_all add: demo_buddy_def)
  from buddy_disjoint [OF this _ s'] s' show ?thesis by simp
qed

section \<open>Failures\<close>

text \<open>The whole area as one block: the root is never marked, so it is handed out again and again, and over
  blocks in use.\<close>

lemma buddy_root_twice:
  assumes "flag (b_lock s) = 0" and "length (intree s) = 4096" and "intree s ! 0 = 0" and "\<not> (intree s ! 1 = 2 \<and> intree s ! 2 = 2)"
  shows "hugeallocs [25, 25] s = Inr ([(25, HUGE s), (25, HUGE s)], s)"
proof -
  have "buddy_dfs (intree s) 0 0 0 = Inr (Some 0)" using assms by (simp add: buddy_dfs.simps)
  moreover have "mark_path 0 True (intree s) = Inr (intree s)" by (simp add: mark_path.simps)
  ultimately have "buddy_hugealloc 25 s = Inr (HUGE s, s)"
    using assms by (auto simp: buddy_hugealloc_def Let_def unlock_def atomic_xchg_def)
  then show ?thesis by simp
qed

text \<open>When no block is left, \<open>NULL\<close> is returned with the lock held, and the next call spins for ever.\<close>

lemma buddy_null_keeps_lock:
  assumes "flag (b_lock s) = 0" and "sz < 31" and "buddy_dfs (intree s) 0 0 (unat (25 - word_of_nat sz :: u64)) = Inr None"
  shows "\<exists>s'. buddy_hugealloc sz s = Inr (NULL, s') \<and> (sz' < 31 \<longrightarrow> buddy_hugealloc sz' s' = Inl Spin_Forever)"
  using assms by (simp add: buddy_hugealloc_def Let_def lock_wait_def lock_eq)

text \<open>Blocks of 8 KiB need nodes that the array does not have.\<close>

lemma buddy_leftmost:
  "i + 1 = 2 ^ dep \<Longrightarrow> dep + k = 11 \<Longrightarrow> buddy_dfs (replicate 4096 0) dep i 12 = Inl Out_Of_Bounds"
proof (induction k arbitrary: dep i)
  case 0
  then have "dep = 11" "i = 2047" by simp_all
  then show ?case by (simp add: buddy_dfs.simps arr_get_def)
next
  case (Suc k)
  have "2 * i + 1 + 1 = 2 ^ (dep + 1)" using Suc.prems(1) by simp
  from Suc.IH [OF this] Suc.prems(2) have l: "buddy_dfs (replicate 4096 0) (dep + 1) (2 * i + 1) 12 = Inl Out_Of_Bounds" by simp
  have "(2::nat) ^ dep \<le> 2 ^ 11" using Suc.prems(2) by (intro power_increasing) auto
  then have "i < 4096" using Suc.prems(1) by simp
  then show ?case using Suc.prems(2) l by (subst buddy_dfs.simps) (simp add: arr_get_def)
qed

lemma buddy_8KiB:
  assumes "flag (b_lock s) = 0" and "intree s = replicate 4096 0"
  shows "buddy_hugealloc 13 s = Inl Out_Of_Bounds"
  using assms buddy_leftmost [of 0 0 11] by (simp add: buddy_hugealloc_def Let_def)

end
