(* ===== verification/Ioports.thy ===== *)
theory Ioports
  imports Prelude Amdev
begin

text \<open>
  The devices of \<open>am/src/x86/qemu/ioe.c\<close> behind I/O ports: serial line, clock and keyboard.  The
  hardware is a parameter: its state, of type \<open>'d\<close>, and what each instruction that touches it returns
  and changes.  A device operation is a state passing function; a loop that polls for ever is the
  outcome \<open>Spin_Forever\<close>.
\<close>

section \<open>The hardware\<close>

record 'd hw =
  hw_inb :: "u16 \<Rightarrow> 'd \<Rightarrow> u8 \<times> 'd"
  hw_outb :: "u16 \<Rightarrow> u8 \<Rightarrow> 'd \<Rightarrow> 'd"
  hw_outw :: "u16 \<Rightarrow> u16 \<Rightarrow> 'd \<Rightarrow> 'd"
  hw_inl :: "u16 \<Rightarrow> 'd \<Rightarrow> u32 \<times> 'd"
  hw_outl :: "u16 \<Rightarrow> u32 \<Rightarrow> 'd \<Rightarrow> 'd"
  hw_rdtsc :: "'d \<Rightarrow> u64 \<times> 'd"
  hw_load :: "addr \<Rightarrow> 'd \<Rightarrow> u32 \<times> 'd"
  hw_store :: "addr \<Rightarrow> u32 \<Rightarrow> 'd \<Rightarrow> 'd"
  hw_store16 :: "addr \<Rightarrow> u16 \<Rightarrow> 'd \<Rightarrow> 'd"

record rtc =
  rtc_year :: int
  rtc_month :: int
  rtc_day :: int
  rtc_hour :: int
  rtc_minute :: int
  rtc_second :: int

text \<open>The static variables of \<open>ioe.c\<close>, with the hardware.\<close>

record 'd machine =
  hwst :: 'd
  boot_date :: rtc
  freq_mhz :: u32
  uptsc :: u64
  display_w :: u16
  display_h :: u16
  fb_mem :: "u8 list"
  vmem :: "u8 list"
  vbuf :: "u8 list"
  vbuf_head :: nat

type_synonym ('m, 'a) io = "'m \<Rightarrow> ('a \<times> 'm) result"

definition ret :: "'a \<Rightarrow> ('m, 'a) io" where
  "ret x m = Inr (x, m)"

definition bindIO :: "('m, 'a) io \<Rightarrow> ('a \<Rightarrow> ('m, 'b) io) \<Rightarrow> ('m, 'b) io" where
  "bindIO f k m = bindR (f m) (\<lambda>(x, m'). k x m')"

primrec run_all :: "('m, unit) io list \<Rightarrow> ('m, unit) io" where
  "run_all [] = ret ()"
| "run_all (f # fs) = bindIO f (\<lambda>_. run_all fs)"

lemma bindIO_Inr [simp]: "f m = Inr (x, m') \<Longrightarrow> bindIO f k m = k x m'"
  by (simp add: bindIO_def)

lemma ret_app [simp]: "ret x m = Inr (x, m)"
  by (simp add: ret_def)

text \<open>Run \<open>f\<close> again and again until its result satisfies \<open>P\<close>.\<close>

partial_function (option) io_until_opt :: "('m \<Rightarrow> ('a \<times> 'm) result) \<Rightarrow> ('a \<Rightarrow> bool) \<Rightarrow> 'm \<Rightarrow> ('a \<times> 'm) result option" where
  "io_until_opt f P m = (case f m of Inl e \<Rightarrow> Some (Inl e)
     | Inr (x, m') \<Rightarrow> if P x then Some (Inr (x, m')) else io_until_opt f P m')"

definition io_until :: "('m, 'a) io \<Rightarrow> ('a \<Rightarrow> bool) \<Rightarrow> ('m, 'a) io" where
  "io_until f P m = returns (io_until_opt f P m)"

lemma io_until_done [simp]: "f m = Inr (x, m') \<Longrightarrow> P x \<Longrightarrow> io_until f P m = Inr (x, m')"
  unfolding io_until_def by (subst io_until_opt.simps) simp

lemma io_until_again: "f m = Inr (x, m') \<Longrightarrow> \<not> P x \<Longrightarrow> io_until f P m = io_until f P m'"
  unfolding io_until_def by (subst io_until_opt.simps) simp

definition inb :: "'d hw \<Rightarrow> u16 \<Rightarrow> ('d machine, u8) io" where
  "inb H p m = (case hw_inb H p (hwst m) of (v, d) \<Rightarrow> Inr (v, m\<lparr>hwst := d\<rparr>))"

definition outb :: "'d hw \<Rightarrow> u16 \<Rightarrow> u8 \<Rightarrow> ('d machine, unit) io" where
  "outb H p v m = Inr ((), m\<lparr>hwst := hw_outb H p v (hwst m)\<rparr>)"

definition outw :: "'d hw \<Rightarrow> u16 \<Rightarrow> u16 \<Rightarrow> ('d machine, unit) io" where
  "outw H p v m = Inr ((), m\<lparr>hwst := hw_outw H p v (hwst m)\<rparr>)"

definition inl :: "'d hw \<Rightarrow> u16 \<Rightarrow> ('d machine, u32) io" where
  "inl H p m = (case hw_inl H p (hwst m) of (v, d) \<Rightarrow> Inr (v, m\<lparr>hwst := d\<rparr>))"

definition outl :: "'d hw \<Rightarrow> u16 \<Rightarrow> u32 \<Rightarrow> ('d machine, unit) io" where
  "outl H p v m = Inr ((), m\<lparr>hwst := hw_outl H p v (hwst m)\<rparr>)"

definition rdtsc :: "'d hw \<Rightarrow> ('d machine, u64) io" where
  "rdtsc H m = (case hw_rdtsc H (hwst m) of (v, d) \<Rightarrow> Inr (v, m\<lparr>hwst := d\<rparr>))"

definition load32 :: "'d hw \<Rightarrow> addr \<Rightarrow> ('d machine, u32) io" where
  "load32 H p m = (case hw_load H p (hwst m) of (v, d) \<Rightarrow> Inr (v, m\<lparr>hwst := d\<rparr>))"

definition store32 :: "'d hw \<Rightarrow> addr \<Rightarrow> u32 \<Rightarrow> ('d machine, unit) io" where
  "store32 H p v m = Inr ((), m\<lparr>hwst := hw_store H p v (hwst m)\<rparr>)"

definition store16 :: "'d hw \<Rightarrow> addr \<Rightarrow> u16 \<Rightarrow> ('d machine, unit) io" where
  "store16 H p v m = Inr ((), m\<lparr>hwst := hw_store16 H p v (hwst m)\<rparr>)"

section \<open>Serial line\<close>

definition COM1 :: u16 where "COM1 = 0x3f8"

definition uart_init :: "'d hw \<Rightarrow> ('d machine, unit) io" where
  "uart_init H = run_all [outb H (COM1 + 2) 0, outb H (COM1 + 3) 0x80, outb H (COM1 + 0) (115200 div 9600),
     outb H (COM1 + 1) 0, outb H (COM1 + 3) 0x03, outb H (COM1 + 4) 0, outb H (COM1 + 1) 0x01,
     bindIO (inb H (COM1 + 2)) (\<lambda>_. ret ()), bindIO (inb H (COM1 + 0)) (\<lambda>_. ret ())]"

definition uart_tx :: "'d hw \<Rightarrow> u8 \<Rightarrow> ('d machine, unit) io" where
  "uart_tx H data = outb H COM1 data"

text \<open>\<open>-1\<close> when there is no character.\<close>

definition uart_rx :: "'d hw \<Rightarrow> ('d machine, u8) io" where
  "uart_rx H = bindIO (inb H (COM1 + 5)) (\<lambda>s. if s AND 0x1 \<noteq> 0 then inb H COM1 else ret (- 1))"

section \<open>Clock\<close>

definition bcd_value :: "u8 \<Rightarrow> int" where
  "bcd_value v = uint (v AND 0xf) + uint (drop_bit 4 v) * 10"

definition read_rtc :: "'d hw \<Rightarrow> u8 \<Rightarrow> ('d machine, int) io" where
  "read_rtc H reg = bindIO (outb H 0x70 reg) (\<lambda>_. bindIO (inb H 0x71) (\<lambda>v. ret (bcd_value v)))"

definition read_rtc_async :: "'d hw \<Rightarrow> ('d machine, rtc) io" where
  "read_rtc_async H =
     bindIO (read_rtc H 0) (\<lambda>second. bindIO (read_rtc H 2) (\<lambda>minute. bindIO (read_rtc H 4) (\<lambda>hour.
     bindIO (read_rtc H 7) (\<lambda>day. bindIO (read_rtc H 8) (\<lambda>month. bindIO (read_rtc H 9) (\<lambda>year.
     ret \<lparr>rtc_year = year + 2000, rtc_month = month, rtc_day = day, rtc_hour = hour, rtc_minute = minute,
       rtc_second = second\<rparr>))))))"

text \<open>Two readings of the clock, with an empty loop between them, until the second changes.\<close>

definition wait_sec :: "'d hw \<Rightarrow> ('d machine, rtc) io" where
  "wait_sec H =
     bindIO (io_until (bindIO (read_rtc_async H) (\<lambda>t0. bindIO (read_rtc_async H) (\<lambda>t1. ret (t0, t1))))
       (\<lambda>(t0, t1). rtc_second t0 \<noteq> rtc_second t1)) (\<lambda>(t0, t1). ret t1)"

definition rtc_seconds :: "rtc \<Rightarrow> u64" where
  "rtc_seconds t = word_of_int (rtc_minute t * 60 + rtc_second t)"

definition estimate_freq :: "'d hw \<Rightarrow> ('d machine, u32) io" where
  "estimate_freq H =
     bindIO (io_until
       (bindIO (wait_sec H) (\<lambda>rtc1. bindIO (rdtsc H) (\<lambda>tsc1.
        bindIO (wait_sec H) (\<lambda>rtc2. bindIO (rdtsc H) (\<lambda>tsc2.
        ret (rtc_seconds rtc1, tsc1, rtc_seconds rtc2, tsc2))))))
       (\<lambda>(t1, tsc1, t2, tsc2). \<not> t1 \<ge> t2)) (\<lambda>(t1, tsc1, t2, tsc2).
     ret (ucast (drop_bit 20 (tsc2 - tsc1) div (t2 - t1))))"

definition timer_rtc :: "'d hw \<Rightarrow> ('d machine, rtc) io" where
  "timer_rtc H =
     bindIO (io_until (bindIO (read_rtc_async H) (\<lambda>rtc. bindIO (read_rtc H 0) (\<lambda>tmp. ret (rtc, tmp))))
       (\<lambda>(rtc, tmp). tmp = rtc_second rtc)) (\<lambda>(rtc, tmp). ret rtc)"

definition timer_init :: "'d hw \<Rightarrow> ('d machine, unit) io" where
  "timer_init H =
     bindIO (estimate_freq H) (\<lambda>f m. bindIO (timer_rtc H) (\<lambda>t. bindIO (rdtsc H) (\<lambda>c m.
       Inr ((), m\<lparr>boot_date := t, uptsc := c\<rparr>))) (m\<lparr>freq_mhz := f\<rparr>))"

definition timer_uptime :: "'d hw \<Rightarrow> ('d machine, u64) io" where
  "timer_uptime H =
     bindIO (rdtsc H) (\<lambda>c m. bindR (guardR Undefined_Behaviour (freq_mhz m \<noteq> 0)) (\<lambda>_.
       Inr ((c - uptsc m) div ucast (freq_mhz m), m)))"

section \<open>Keyboard\<close>

definition keylut_entries :: "(nat \<times> nat) list" where
  "keylut_entries =
     [(0x01, AM_KEY_ESCAPE), (0x02, AM_KEY_1), (0x03, AM_KEY_2),
      (0x04, AM_KEY_3), (0x05, AM_KEY_4), (0x06, AM_KEY_5), (0x07, AM_KEY_6),
      (0x08, AM_KEY_7), (0x09, AM_KEY_8), (0x0a, AM_KEY_9), (0x0b, AM_KEY_0),
      (0x0c, AM_KEY_MINUS), (0x0d, AM_KEY_EQUALS),
      (0x0e, AM_KEY_BACKSPACE), (0x0f, AM_KEY_TAB),
      (0x10, AM_KEY_Q), (0x11, AM_KEY_W), (0x12, AM_KEY_E), (0x13, AM_KEY_R),
      (0x14, AM_KEY_T), (0x15, AM_KEY_Y), (0x16, AM_KEY_U), (0x17, AM_KEY_I),
      (0x18, AM_KEY_O), (0x19, AM_KEY_P), (0x1a, AM_KEY_LEFTBRACKET),
      (0x1b, AM_KEY_RIGHTBRACKET), (0x1c, AM_KEY_RETURN),
      (0x1d, AM_KEY_LCTRL), (0x1e, AM_KEY_A), (0x1f, AM_KEY_S),
      (0x20, AM_KEY_D), (0x21, AM_KEY_F), (0x22, AM_KEY_G), (0x23, AM_KEY_H),
      (0x24, AM_KEY_J), (0x25, AM_KEY_K), (0x26, AM_KEY_L),
      (0x27, AM_KEY_SEMICOLON), (0x28, AM_KEY_APOSTROPHE),
      (0x29, AM_KEY_GRAVE), (0x2a, AM_KEY_LSHIFT),
      (0x2b, AM_KEY_BACKSLASH), (0x2c, AM_KEY_Z), (0x2d, AM_KEY_X),
      (0x2e, AM_KEY_C), (0x2f, AM_KEY_V), (0x30, AM_KEY_B), (0x31, AM_KEY_N),
      (0x32, AM_KEY_M), (0x33, AM_KEY_COMMA), (0x34, AM_KEY_PERIOD),
      (0x35, AM_KEY_SLASH), (0x36, AM_KEY_RSHIFT), (0x38, AM_KEY_LALT),
      (0x38, AM_KEY_RALT), (0x39, AM_KEY_SPACE), (0x3a, AM_KEY_CAPSLOCK),
      (0x3b, AM_KEY_F1), (0x3c, AM_KEY_F2), (0x3d, AM_KEY_F3),
      (0x3e, AM_KEY_F4), (0x3f, AM_KEY_F5), (0x40, AM_KEY_F6),
      (0x41, AM_KEY_F7), (0x42, AM_KEY_F8), (0x43, AM_KEY_F9),
      (0x44, AM_KEY_F10), (0x48, AM_KEY_INSERT),
      (0x4b, AM_KEY_HOME), (0x4d, AM_KEY_END), (0x50, AM_KEY_DELETE),
      (0x57, AM_KEY_F11), (0x58, AM_KEY_F12), (0x5b, AM_KEY_APPLICATION)]"

text \<open>The last initialiser of an index counts; an index without one is 0.\<close>

definition keylut :: "nat \<Rightarrow> nat" where
  "keylut i = (case map_of (rev keylut_entries) i of None \<Rightarrow> 0 | Some k \<Rightarrow> k)"

definition input_keybrd :: "'d hw \<Rightarrow> ('d machine, bool \<times> nat) io" where
  "input_keybrd H =
     bindIO (inb H 0x64) (\<lambda>s. if s AND 0x1 \<noteq> 0
       then bindIO (inb H 0x60) (\<lambda>code. ret (code < 128, keylut (unat (code AND 0x7f))))
       else ret (False, AM_KEY_NONE))"

end
