(* ===== verification/Gpu.thy ===== *)
theory Gpu
  imports Ioports
begin

text \<open>
  The graphics of \<open>am/src/x86/qemu/ioe.c\<close>: the frame buffer of the VESA mode, drawing of pixel
  rectangles, and the renderer of canvas trees in the video memory.  The frame buffer, \<open>vmem\<close> and
  \<open>vbuf\<close> are byte arrays; a pointer to pixels is an array and an offset.
\<close>

section \<open>Pixels\<close>

record pixel =
  px_b :: u8
  px_g :: u8
  px_r :: u8

definition R :: "u32 \<Rightarrow> u8" where "R p = ucast (drop_bit 16 p)"
definition G :: "u32 \<Rightarrow> u8" where "G p = ucast (drop_bit 8 p)"
definition B :: "u32 \<Rightarrow> u8" where "B p = ucast p"

definition rgb :: "u32 \<Rightarrow> pixel" where
  "rgb p = \<lparr>px_b = B p, px_g = G p, px_r = R p\<rparr>"

definition px_ok :: "u8 list \<Rightarrow> int \<Rightarrow> bool" where
  "px_ok xs k \<longleftrightarrow> 0 \<le> k \<and> nat k + 3 \<le> length xs"

definition get_px :: "u8 list \<Rightarrow> int \<Rightarrow> pixel result" where
  "get_px xs k = bindR (guardR Out_Of_Bounds (px_ok xs k)) (\<lambda>_.
     Inr \<lparr>px_b = xs ! nat k, px_g = xs ! (nat k + 1), px_r = xs ! (nat k + 2)\<rparr>)"

definition put_px :: "int \<Rightarrow> pixel \<Rightarrow> u8 list \<Rightarrow> u8 list result" where
  "put_px k p xs = bindR (guardR Out_Of_Bounds (px_ok xs k)) (\<lambda>_.
     Inr (xs[nat k := px_b p, nat k + 1 := px_g p, nat k + 2 := px_r p]))"

section \<open>Frame buffer\<close>

record vbe_info =
  vbe_width :: u16
  vbe_height :: u16
  vbe_framebuffer :: u32

text \<open>What the boot loader left at \<open>0x4000\<close>; \<open>fb\<close> are the bytes of the frame buffer.\<close>

definition gpu_init :: "vbe_info \<Rightarrow> u8 list \<Rightarrow> 'd machine \<Rightarrow> 'd machine" where
  "gpu_init info fb m = m\<lparr>display_w := vbe_width info, display_h := vbe_height info, fb_mem := fb\<rparr>"

definition VMEM_SIZE :: nat where "VMEM_SIZE = 512 * 2 ^ 10"

text \<open>present, width, height, vmemsz\<close>

definition gpu_config :: "'d machine \<Rightarrow> bool \<times> int \<times> int \<times> nat" where
  "gpu_config m = (True, uint (display_w m), uint (display_h m), VMEM_SIZE)"

definition pixel_at :: "u32 list \<Rightarrow> int \<Rightarrow> u32 result" where
  "pixel_at pixels q = (if 0 \<le> q \<and> nat q < length pixels then Inr (pixels ! nat q) else Inl Out_Of_Bounds)"

text \<open>The assignments of the two loops: to pixel \<open>k\<close> of the frame buffer, from pixel \<open>q\<close> of the argument.\<close>

fun draw_list :: "u32 list \<Rightarrow> (int \<times> int) list \<Rightarrow> u8 list \<Rightarrow> u8 list result" where
  "draw_list pixels [] fb = Inr fb"
| "draw_list pixels ((k, q) # ws) fb =
     bindR (pixel_at pixels q) (\<lambda>p. bindR (put_px (3 * k) (rgb p) fb) (\<lambda>fb. draw_list pixels ws fb))"

definition fbdraw_cells :: "int \<Rightarrow> int \<Rightarrow> int \<Rightarrow> int \<Rightarrow> int \<Rightarrow> int \<Rightarrow> (int \<times> int) list" where
  "fbdraw_cells W H x y w h =
     (let len = (if x + w \<ge> W then W - x else w) in
      concat (map (\<lambda>j. if y + j < H then map (\<lambda>i. (x + (j + y) * W + i, j * w + i)) [0..len - 1] else []) [0..h - 1]))"

text \<open>The sums of the function fit into an \<open>int\<close>; overflow is undefined.\<close>

definition fits_int :: "int \<Rightarrow> bool" where
  "fits_int i \<longleftrightarrow> - (2 ^ 31) \<le> i \<and> i < 2 ^ 31"

definition fbdraw_ints :: "int \<Rightarrow> int \<Rightarrow> int \<Rightarrow> int \<Rightarrow> int \<Rightarrow> int \<Rightarrow> bool" where
  "fbdraw_ints W H x y w h \<longleftrightarrow> fits_int (x + w) \<and> fits_int (W - x) \<and>
     list_all (\<lambda>j. fits_int (y + j) \<and> (y + j < H \<longrightarrow> fits_int ((j + y) * W) \<and> fits_int (x + (j + y) * W))) [0..h - 1]"

definition gpu_fbdraw :: "int \<Rightarrow> int \<Rightarrow> u32 list \<Rightarrow> int \<Rightarrow> int \<Rightarrow> ('d machine, unit) io" where
  "gpu_fbdraw x y pixels w h m =
     (let W = uint (display_w m); H = uint (display_h m) in
      bindR (guardR Undefined_Behaviour (fbdraw_ints W H x y w h)) (\<lambda>_.
      bindR (draw_list pixels (fbdraw_cells W H x y w h) (fb_mem m)) (\<lambda>fb.
      Inr ((), m\<lparr>fb_mem := fb\<rparr>))))"

section \<open>Video memory\<close>

definition AM_GPU_TEXTURE :: u16 where "AM_GPU_TEXTURE = 1"
definition AM_GPU_SUBTREE :: u16 where "AM_GPU_SUBTREE = 2"
definition AM_GPU_NULL :: u32 where "AM_GPU_NULL = 0xffffffff"

text \<open>An offset in \<open>vmem\<close>, or NULL.\<close>

definition to_host :: "u32 \<Rightarrow> nat option" where
  "to_host p = (if p = AM_GPU_NULL then None else Some (unat p))"

fun store_bytes :: "nat \<Rightarrow> u8 list \<Rightarrow> u8 list \<Rightarrow> u8 list result" where
  "store_bytes p [] xs = Inr xs"
| "store_bytes p (b # bs) xs = bindR (arr_set xs p b) (store_bytes (p + 1) bs)"

text \<open>\<open>size\<close> bytes of \<open>src\<close>.\<close>

definition gpu_memcpy :: "u32 \<Rightarrow> u8 list \<Rightarrow> int \<Rightarrow> ('d machine, unit) io" where
  "gpu_memcpy dest src sz m =
     (if sz \<le> 0 then Inr ((), m)
      else case to_host dest of None \<Rightarrow> Inl Null_Deref
        | Some p \<Rightarrow>
            bindR (guardR Out_Of_Bounds (nat sz \<le> length src)) (\<lambda>_.
            bindR (store_bytes p (take (nat sz) src) (vmem m)) (\<lambda>v. Inr ((), m\<lparr>vmem := v\<rparr>))))"

section \<open>Canvases\<close>

record gpu_canvas =
  cv_type :: u16
  cv_w :: u16
  cv_h :: u16
  cv_x1 :: u16
  cv_y1 :: u16
  cv_w1 :: u16
  cv_h1 :: u16
  cv_sibling :: u32
  cv_child :: u32
  cv_tex_w :: u16
  cv_tex_h :: u16
  cv_tex_pixels :: u32

definition word_at :: "nat \<Rightarrow> nat \<Rightarrow> u8 list \<Rightarrow> nat" where
  "word_at p n xs = foldr (\<lambda>b v. unat b + 256 * v) (take n (drop p xs)) 0"

text \<open>\<open>child\<close> and \<open>texture\<close> are a union.\<close>

definition read_canvas :: "nat \<Rightarrow> 'd machine \<Rightarrow> gpu_canvas result" where
  "read_canvas p m = (let v = vmem m in
     if p + 26 \<le> length v then
       Inr \<lparr>cv_type = word_of_nat (word_at p 2 v), cv_w = word_of_nat (word_at (p + 2) 2 v),
         cv_h = word_of_nat (word_at (p + 4) 2 v), cv_x1 = word_of_nat (word_at (p + 6) 2 v),
         cv_y1 = word_of_nat (word_at (p + 8) 2 v), cv_w1 = word_of_nat (word_at (p + 10) 2 v),
         cv_h1 = word_of_nat (word_at (p + 12) 2 v), cv_sibling = word_of_nat (word_at (p + 14) 4 v),
         cv_child = word_of_nat (word_at (p + 18) 4 v), cv_tex_w = word_of_nat (word_at (p + 18) 2 v),
         cv_tex_h = word_of_nat (word_at (p + 20) 2 v), cv_tex_pixels = word_of_nat (word_at (p + 22) 4 v)\<rparr>
     else Inl Out_Of_Bounds)"

definition vbuf_alloc :: "nat \<Rightarrow> ('d machine, nat) io" where
  "vbuf_alloc sz m =
     (let p = vbuf_head m; m = m\<lparr>vbuf_head := vbuf_head m + sz\<rparr> in
      bindR (guardR Panic (\<not> vbuf_head m > VMEM_SIZE)) (\<lambda>_.
      bindR (store_bytes p (replicate sz 0) (vbuf m)) (\<lambda>v. Inr (p, m\<lparr>vbuf := v\<rparr>))))"

datatype garea = Frame | Vmem | Vbuf

definition area_bytes :: "garea \<Rightarrow> 'd machine \<Rightarrow> u8 list" where
  "area_bytes a m = (case a of Frame \<Rightarrow> fb_mem m | Vmem \<Rightarrow> vmem m | Vbuf \<Rightarrow> vbuf m)"

definition set_area :: "garea \<Rightarrow> u8 list \<Rightarrow> 'd machine \<Rightarrow> 'd machine" where
  "set_area a xs m = (case a of Frame \<Rightarrow> m\<lparr>fb_mem := xs\<rparr> | Vmem \<Rightarrow> m\<lparr>vmem := xs\<rparr> | Vbuf \<Rightarrow> m\<lparr>vbuf := xs\<rparr>)"

text \<open>The assignments of the last loops of \<open>render\<close>: pixel \<open>k\<close> of \<open>px\<close> from pixel \<open>q\<close> of \<open>px_local\<close>.\<close>

fun blit :: "garea \<times> int \<Rightarrow> garea \<times> int \<Rightarrow> (int \<times> int) list \<Rightarrow> 'd machine \<Rightarrow> 'd machine result" where
  "blit px loc [] m = Inr m"
| "blit px loc ((k, q) # ws) m =
     bindR (get_px (area_bytes (fst loc) m) (snd loc + 3 * q)) (\<lambda>p.
     bindR (put_px (snd px + 3 * k) p (area_bytes (fst px) m)) (\<lambda>xs. blit px loc ws (set_area (fst px) xs m)))"

definition canvas_cells :: "int \<Rightarrow> gpu_canvas \<Rightarrow> int \<Rightarrow> int \<Rightarrow> (int \<times> int) list" where
  "canvas_cells W cv w h =
     concat (map (\<lambda>i. map (\<lambda>j.
       (W * (uint (cv_y1 cv) + j) + (uint (cv_x1 cv) + i), w * (j * h div uint (cv_h1 cv)) + i * w div uint (cv_w1 cv)))
       [0..uint (cv_h1 cv) - 1]) [0..uint (cv_w1 cv) - 1])"

definition null_px :: "nat option \<Rightarrow> (garea \<times> int) result" where
  "null_px p = (case p of None \<Rightarrow> Inl Null_Deref | Some q \<Rightarrow> Inr (Vmem, int q))"

text \<open>\<open>render\<close> and the loop over the children; the tree in memory may be a cycle, so they have fuel.
  A size that does not fit the \<open>int\<close> of \<open>vbuf_alloc\<close> counts as undefined.\<close>

fun render :: "nat \<Rightarrow> nat \<Rightarrow> int \<Rightarrow> garea \<times> int \<Rightarrow> 'd machine \<Rightarrow> 'd machine result option"
  and render_children :: "nat \<Rightarrow> nat option \<Rightarrow> int \<Rightarrow> garea \<times> int \<Rightarrow> 'd machine \<Rightarrow> 'd machine result option"
where
  "render 0 c W px m = None"
| "render (Suc f) c W px m =
     bindF (Some (read_canvas c m)) (\<lambda>cv.
     if cv_type cv = AM_GPU_TEXTURE then
       (let w = uint (cv_tex_w cv); h = uint (cv_tex_h cv); cells = canvas_cells W cv w h in
        if cells = [] then Some (Inr m)
        else bindF (Some (null_px (to_host (cv_tex_pixels cv)))) (\<lambda>loc. Some (blit px loc cells m)))
     else if cv_type cv = AM_GPU_SUBTREE then
       (let w = uint (cv_w cv); h = uint (cv_h cv) in
        bindF (Some (guardR Undefined_Behaviour (w * h * 3 < 2 ^ 31))) (\<lambda>_.
        bindF (Some (vbuf_alloc (nat (w * h * 3)) m)) (\<lambda>(p, m).
        bindF (render_children f (to_host (cv_child cv)) w (Vbuf, int p) m) (\<lambda>m.
        Some (blit px (Vbuf, int p) (canvas_cells W cv w h) m)))))
     else Some (Inl Panic))"
| "render_children 0 c W px m = None"
| "render_children (Suc f) None W px m = Some (Inr m)"
| "render_children (Suc f) (Some c) W px m =
     bindF (render f c W px m) (\<lambda>m. bindF (Some (read_canvas c m)) (\<lambda>cv.
     render_children f (to_host (cv_sibling cv)) W px m))"

definition gpu_render :: "nat \<Rightarrow> u32 \<Rightarrow> 'd machine \<Rightarrow> 'd machine result option" where
  "gpu_render f root m =
     (case to_host root of None \<Rightarrow> Some (Inl Null_Deref)
      | Some c \<Rightarrow> render f c (uint (display_w m)) (Frame, 0) (m\<lparr>vbuf_head := 0\<rparr>))"

end
