(* ===== verification/GpuProofs.thy ===== *)
theory GpuProofs
  imports Gpu
begin

text \<open>What \<open>gpu_fbdraw\<close> puts on the screen.\<close>

lemma px_eq: "px_ok xs k \<Longrightarrow> get_px xs k = Inr \<lparr>px_b = xs ! nat k, px_g = xs ! (nat k + 1), px_r = xs ! (nat k + 2)\<rparr>"
  by (simp add: get_px_def)

lemma put_px_ok:
  assumes "px_ok xs (3 * k)"
  shows "\<exists>ys. put_px (3 * k) p xs = Inr ys \<and> length ys = length xs \<and>
    (\<forall>k'. px_ok xs (3 * k') \<longrightarrow> get_px ys (3 * k') = (if k' = k then Inr p else get_px xs (3 * k')))"
proof -
  let ?ys = "xs[nat (3 * k) := px_b p, nat (3 * k) + 1 := px_g p, nat (3 * k) + 2 := px_r p]"
  have k: "0 \<le> k" "3 * nat k + 3 \<le> length xs" using assms by (auto simp: px_ok_def nat_mult_distrib)
  have "get_px ?ys (3 * k') = (if k' = k then Inr p else get_px xs (3 * k'))" if "px_ok xs (3 * k')" for k'
  proof -
    have k': "0 \<le> k'" "3 * nat k' + 3 \<le> length xs" "px_ok ?ys (3 * k')" using that by (auto simp: px_ok_def nat_mult_distrib)
    show ?thesis
    proof (cases "k' = k")
      case True
      then show ?thesis using k k' by (simp add: px_eq nat_mult_distrib)
    next
      case False
      then have "nat k' \<noteq> nat k" using k(1) k'(1) by simp
      then have "3 * nat k' \<noteq> 3 * nat k" "3 * nat k' \<noteq> 3 * nat k + 1" "3 * nat k' \<noteq> 3 * nat k + 2"
        "3 * nat k' + 1 \<noteq> 3 * nat k" "3 * nat k' + 1 \<noteq> 3 * nat k + 2" "3 * nat k' + 2 \<noteq> 3 * nat k"
        "3 * nat k' + 2 \<noteq> 3 * nat k + 1" by linarith+
      then show ?thesis using k' that k False by (simp add: px_eq nat_mult_distrib)
    qed
  qed
  then show ?thesis using assms by (intro exI [of _ ?ys]) (simp add: put_px_def)
qed

text \<open>A list of assignments whose values depend only on the target.\<close>

lemma draw_list_ok:
  assumes "\<forall>(k, q)\<in>set ws. px_ok fb (3 * k) \<and> 0 \<le> q \<and> nat q < length pixels \<and> q = f k"
  shows "\<exists>fb'. draw_list pixels ws fb = Inr fb' \<and> length fb' = length fb \<and>
    (\<forall>k. px_ok fb (3 * k) \<longrightarrow> get_px fb' (3 * k) =
       (if k \<in> fst ` set ws then Inr (rgb (pixels ! nat (f k))) else get_px fb (3 * k)))"
  using assms
proof (induction ws arbitrary: fb)
  case (Cons w ws)
  obtain k q where w: "w = (k, q)" by (cases w)
  have kq: "px_ok fb (3 * k)" "0 \<le> q" "nat q < length pixels" "q = f k" using Cons.prems w by auto
  obtain fb1 where fb1: "put_px (3 * k) (rgb (pixels ! nat q)) fb = Inr fb1" "length fb1 = length fb"
    "\<forall>k'. px_ok fb (3 * k') \<longrightarrow> get_px fb1 (3 * k') = (if k' = k then Inr (rgb (pixels ! nat q)) else get_px fb (3 * k'))"
    using put_px_ok [OF kq(1)] by blast
  have same: "px_ok fb1 i = px_ok fb i" for i by (simp add: px_ok_def fb1(2))
  obtain fb' where fb': "draw_list pixels ws fb1 = Inr fb'" "length fb' = length fb"
    "\<forall>k. px_ok fb (3 * k) \<longrightarrow> get_px fb' (3 * k) =
       (if k \<in> fst ` set ws then Inr (rgb (pixels ! nat (f k))) else get_px fb1 (3 * k))"
    using Cons.IH [of fb1] Cons.prems fb1(2) by (auto simp: same)
  have "draw_list pixels (w # ws) fb = Inr fb'" using kq fb1(1) fb'(1) by (simp add: w pixel_at_def)
  moreover have "get_px fb' (3 * k') = (if k' \<in> fst ` set (w # ws) then Inr (rgb (pixels ! nat (f k'))) else get_px fb (3 * k'))"
    if "px_ok fb (3 * k')" for k'
    using fb1(3) fb'(3) that kq(4) w by auto
  ultimately show ?case using fb'(2) by blast
qed simp

lemma set_cells:
  "p \<in> set (concat (map (\<lambda>j. if P j then map (g j) [0..n - 1] else []) [0..h - 1])) \<longleftrightarrow>
    (\<exists>i j. p = g j i \<and> 0 \<le> j \<and> j < h \<and> P j \<and> 0 \<le> i \<and> i < (n :: int))"
proof -
  have "i \<le> n - 1 \<longleftrightarrow> i < n" "j \<le> h - 1 \<longleftrightarrow> j < h" for i j by auto
  then show ?thesis by (fastforce split: if_splits)
qed

lemma fbdraw_cells_in:
  "(k, q) \<in> set (fbdraw_cells W H x y w h) \<longleftrightarrow>
    (\<exists>i j. k = x + (j + y) * W + i \<and> q = j * w + i \<and> 0 \<le> j \<and> j < h \<and> y + j < H \<and> 0 \<le> i \<and> i < (if x + w \<ge> W then W - x else w))"
  unfolding fbdraw_cells_def Let_def set_cells by simp

text \<open>The pixel of a row and column, as a number.\<close>

lemma cell_div:
  fixes a b W :: int
  assumes "0 \<le> a" and "a < W"
  shows "(a + b * W) mod W = a" "(a + b * W) div W = b"
  using assms by (simp_all add: div_add1_eq)

lemma px_ok_cell:
  assumes "length fb = nat (3 * W * H)" and "0 \<le> a" and "a < W" and "0 \<le> b" and "b < H"
  shows "px_ok fb (3 * (a + b * W))"
proof -
  have "(b + 1) * W \<le> H * W" using assms by (intro mult_right_mono) auto
  then have "3 * (a + b * W) + 3 \<le> 3 * W * H" using assms by (simp add: algebra_simps)
  moreover have "0 \<le> b * W" using assms by simp
  ultimately show ?thesis using assms(1,2) by (auto simp: px_ok_def)
qed

text \<open>C29. Drawing a rectangle that begins on the screen: pixel \<open>(a, b)\<close> of the screen shows the pixel of
  the rectangle that lies there, and every other pixel is as before; what sticks out at the right or
  at the bottom is cut off, and no access leaves the frame buffer or the argument.  If a sum of its
  arguments does not fit into an \<open>int\<close>, its behaviour is undefined.\<close>

theorem gpu_fbdraw_correct:
  fixes m :: "'d machine"
  defines "W \<equiv> uint (display_w m)" and "H \<equiv> uint (display_h m)"
  assumes "0 \<le> x" and "0 \<le> y" and "0 \<le> w" and "0 \<le> h" and "nat (w * h) \<le> length pixels"
    and "length (fb_mem m) = nat (3 * W * H)"
  shows "if fbdraw_ints W H x y w h
    then \<exists>fb. gpu_fbdraw x y pixels w h m = Inr ((), m\<lparr>fb_mem := fb\<rparr>) \<and> length fb = length (fb_mem m) \<and>
      (\<forall>a b. 0 \<le> a \<and> a < W \<and> 0 \<le> b \<and> b < H \<longrightarrow> get_px fb (3 * (a + b * W)) =
        (if x \<le> a \<and> a < x + w \<and> y \<le> b \<and> b < y + h then Inr (rgb (pixels ! nat ((b - y) * w + (a - x))))
         else get_px (fb_mem m) (3 * (a + b * W))))
    else gpu_fbdraw x y pixels w h m = Inl Undefined_Behaviour"
proof -
  let ?ws = "fbdraw_cells W H x y w h" and ?f = "\<lambda>k. (k div W - y) * w + (k mod W - x)"
  have cell: "0 \<le> x + i \<and> x + i < W \<and> 0 \<le> y + j \<and> y + j < H \<and> i < w \<and> k = (x + i) + (y + j) * W \<and> q = j * w + i"
    if "0 \<le> j" "y + j < H" "0 \<le> i" "i < (if x + w \<ge> W then W - x else w)" "k = x + (j + y) * W + i" "q = j * w + i" for i j k q
    using that assms(3,4) by (auto simp: algebra_simps split: if_splits)
  have ok: "px_ok (fb_mem m) (3 * k) \<and> 0 \<le> q \<and> nat q < length pixels \<and> q = ?f k" if kq: "(k, q) \<in> set ?ws" for k q
  proof -
    obtain i j where ij: "0 \<le> j" "j < h" "y + j < H" "0 \<le> i" "i < (if x + w \<ge> W then W - x else w)"
      "k = x + (j + y) * W + i" "q = j * w + i" using kq unfolding fbdraw_cells_in by blast
    note c = cell [OF ij(1,3,4,5,6,7)]
    have "px_ok (fb_mem m) (3 * k)" using px_ok_cell [OF assms(8), of "x + i" "y + j"] c by simp
    moreover have "q = ?f k" using c cell_div [of "x + i" W "y + j"] by simp
    moreover have "(j + 1) * w \<le> h * w" using ij(2) assms(5) by (intro mult_right_mono) auto
    then have "q < w * h" using c ij(7) by (simp add: algebra_simps)
    moreover have "0 \<le> q" using ij(1,4,7) assms(5) by simp
    ultimately show ?thesis using assms(7) by simp
  qed
  then have "\<forall>(k, q)\<in>set ?ws. px_ok (fb_mem m) (3 * k) \<and> 0 \<le> q \<and> nat q < length pixels \<and> q = ?f k" by blast
  from draw_list_ok [OF this] obtain fb where fb: "draw_list pixels ?ws (fb_mem m) = Inr fb" "length fb = length (fb_mem m)"
    "\<And>k. px_ok (fb_mem m) (3 * k) \<Longrightarrow> get_px fb (3 * k) =
       (if k \<in> fst ` set ?ws then Inr (rgb (pixels ! nat (?f k))) else get_px (fb_mem m) (3 * k))" by blast
  have inside: "a + b * W \<in> fst ` set ?ws \<longleftrightarrow> x \<le> a \<and> a < x + w \<and> y \<le> b \<and> b < y + h"
    if ab: "0 \<le> a" "a < W" "0 \<le> b" "b < H" for a b
  proof
    assume "a + b * W \<in> fst ` set ?ws"
    then obtain q i j where ij: "0 \<le> j" "j < h" "y + j < H" "0 \<le> i" "i < (if x + w \<ge> W then W - x else w)"
      "a + b * W = x + (j + y) * W + i" "q = j * w + i" using fbdraw_cells_in by fastforce
    note c = cell [OF ij(1,3,4,5,6,7)]
    have xi: "0 \<le> x + i" "x + i < W" and eq: "a + b * W = (x + i) + (y + j) * W" using c by simp_all
    have "a = x + i" "b = y + j"
      using arg_cong [OF eq, of "\<lambda>t. t mod W"] arg_cong [OF eq, of "\<lambda>t. t div W"]
      by (simp_all only: cell_div [OF ab(1,2)] cell_div [OF xi])
    then show "x \<le> a \<and> a < x + w \<and> y \<le> b \<and> b < y + h" using ij c by simp
  next
    assume r: "x \<le> a \<and> a < x + w \<and> y \<le> b \<and> b < y + h"
    have "(a + b * W, (b - y) * w + (a - x)) \<in> set ?ws" unfolding fbdraw_cells_in
      by (rule exI [of _ "a - x"], rule exI [of _ "b - y"]) (use r ab in auto)
    then show "a + b * W \<in> fst ` set ?ws" by force
  qed
  have "gpu_fbdraw x y pixels w h m = (if fbdraw_ints W H x y w h then Inr ((), m\<lparr>fb_mem := fb\<rparr>) else Inl Undefined_Behaviour)"
    using fb(1) by (simp add: gpu_fbdraw_def W_def H_def guardR_def)
  moreover have "get_px fb (3 * (a + b * W)) =
      (if x \<le> a \<and> a < x + w \<and> y \<le> b \<and> b < y + h then Inr (rgb (pixels ! nat ((b - y) * w + (a - x))))
       else get_px (fb_mem m) (3 * (a + b * W)))" if ab: "0 \<le> a" "a < W" "0 \<le> b" "b < H" for a b
    using fb(3) [OF px_ok_cell [OF assms(8) ab]] unfolding cell_div [OF ab(1,2)] inside [OF ab] by simp
  ultimately show ?thesis using fb(2) by (cases "fbdraw_ints W H x y w h") (simp_all only: if_True if_False, blast)
qed

definition demo_screen :: "unit machine" where
  "demo_screen = \<lparr>hwst = (), boot_date = \<lparr>rtc_year = 2022, rtc_month = 1, rtc_day = 1, rtc_hour = 0, rtc_minute = 0, rtc_second = 0\<rparr>,
     freq_mhz = 2000, uptsc = 0, display_w = 4, display_h = 2, fb_mem = replicate 24 7, vmem = [], vbuf = [], vbuf_head = 0\<rparr>"

theorem gpu_fbdraw_correct_witness:
  "\<exists>fb. gpu_fbdraw 2 1 [0x10203, 0x40506, 0x70809] 3 1 demo_screen = Inr ((), demo_screen\<lparr>fb_mem := fb\<rparr>) \<and> length fb = 24 \<and>
    get_px fb 18 = Inr \<lparr>px_b = 3, px_g = 2, px_r = 1\<rparr> \<and> get_px fb 21 = Inr \<lparr>px_b = 6, px_g = 5, px_r = 4\<rparr> \<and>
    get_px fb 12 = Inr \<lparr>px_b = 7, px_g = 7, px_r = 7\<rparr>"
proof -
  obtain fb where fb: "gpu_fbdraw 2 1 [0x10203, 0x40506, 0x70809] 3 1 demo_screen = Inr ((), demo_screen\<lparr>fb_mem := fb\<rparr>)" "length fb = 24"
    "\<And>a b. 0 \<le> a \<and> a < 4 \<and> 0 \<le> b \<and> b < 2 \<Longrightarrow> get_px fb (3 * (a + b * 4)) =
      (if 2 \<le> a \<and> a < 2 + 3 \<and> 1 \<le> b \<and> b < 1 + 1 then Inr (rgb ([0x10203, 0x40506, 0x70809] ! nat ((b - 1) * 3 + (a - 2))))
       else get_px (replicate 24 7) (3 * (a + b * 4)))"
    using gpu_fbdraw_correct [of 2 1 3 1 "[0x10203, 0x40506, 0x70809]" demo_screen] by (auto simp: demo_screen_def fbdraw_ints_def fits_int_def)
  have "rgb 0x10203 = \<lparr>px_b = 3, px_g = 2, px_r = 1\<rparr>" "rgb 0x40506 = \<lparr>px_b = 6, px_g = 5, px_r = 4\<rparr>"
    by (simp_all add: rgb_def R_def G_def B_def)
  then show ?thesis using fb(1,2) fb(3) [of 2 1] fb(3) [of 3 1] fb(3) [of 0 1]
    by (intro exI [of _ fb]) (simp add: get_px_def px_ok_def)
qed

end
