(* ===== verification/Atadisk.thy ===== *)
theory Atadisk
  imports Ioports
begin

text \<open>
  The disk of \<open>am/src/x86/qemu/ioe.c\<close>: \<open>disk_blkio\<close> moves blocks through the ports of an ATA drive.
  What the driver relies on of the drive is a contract: the commands READ SECTORS and WRITE SECTORS with
  LBA addresses in PIO mode, as the ATA standard describes them.  A hardware \<open>H\<close> fulfils it if some view of
  its state follows the reference drive at every access that the standard allows; of accesses while the
  drive is busy, of data moved when none is due, of other commands, CHS addresses, the second drive and
  sectors beyond the end, nothing is assumed.
\<close>

section \<open>The driver\<close>

definition BLKSZ :: nat where "BLKSZ = 512"
definition DISKSZ :: nat where "DISKSZ = 64 * 2 ^ 20"

text \<open>present, blksz, blkcnt\<close>

definition disk_config :: "bool \<times> nat \<times> nat" where
  "disk_config = (True, BLKSZ, DISKSZ div BLKSZ)"

definition wait_disk :: "'d hw \<Rightarrow> ('d machine, unit) io" where
  "wait_disk H = bindIO (io_until (inb H 0x1f7) (\<lambda>v. v AND 0xc0 = 0x40)) (\<lambda>_. ret ())"

definition disk_command :: "'d hw \<Rightarrow> bool \<Rightarrow> u32 \<Rightarrow> ('d machine, unit) io" where
  "disk_command H wr blkno = run_all [outb H 0x1f2 1, outb H 0x1f3 (ucast blkno), outb H 0x1f4 (ucast (drop_bit 8 blkno)),
     outb H 0x1f5 (ucast (drop_bit 16 blkno)), outb H 0x1f6 (ucast (drop_bit 24 blkno OR 0xe0)),
     outb H 0x1f7 (if wr then 0x30 else 0x20)]"

text \<open>The two loops over the words of a block, from the word \<open>ptr\<close> of the buffer on.\<close>

fun out_words :: "'d hw \<Rightarrow> nat \<Rightarrow> nat \<Rightarrow> u32 list \<Rightarrow> ('d machine, unit) io" where
  "out_words H 0 ptr buf = ret ()"
| "out_words H (Suc n) ptr buf =
     bindIO (\<lambda>m. bindR (arr_get buf ptr) (\<lambda>v. outl H 0x1f0 v m)) (\<lambda>_. out_words H n (ptr + 1) buf)"

fun in_words :: "'d hw \<Rightarrow> nat \<Rightarrow> nat \<Rightarrow> u32 list \<Rightarrow> ('d machine, u32 list) io" where
  "in_words H 0 ptr buf = ret buf"
| "in_words H (Suc n) ptr buf =
     bindIO (inl H 0x1f0) (\<lambda>v m. bindR (arr_set buf ptr v) (\<lambda>buf. in_words H n (ptr + 1) buf m))"

fun disk_loop :: "'d hw \<Rightarrow> bool \<Rightarrow> nat \<Rightarrow> u32 \<Rightarrow> nat \<Rightarrow> u32 list \<Rightarrow> ('d machine, u32 list) io" where
  "disk_loop H wr 0 blkno ptr buf = ret buf"
| "disk_loop H wr (Suc remain) blkno ptr buf =
     bindIO (wait_disk H) (\<lambda>_. bindIO (disk_command H wr blkno) (\<lambda>_. bindIO (wait_disk H) (\<lambda>_.
     bindIO (if wr then bindIO (out_words H (BLKSZ div 4) ptr buf) (\<lambda>_. ret buf)
       else in_words H (BLKSZ div 4) ptr buf) (\<lambda>buf.
     disk_loop H wr remain (blkno + 1) (ptr + BLKSZ div 4) buf))))"

definition disk_blkio :: "'d hw \<Rightarrow> bool \<Rightarrow> u32 \<Rightarrow> u32 \<Rightarrow> u32 list \<Rightarrow> ('d machine, u32 list) io" where
  "disk_blkio H wr blkno blkcnt buf = disk_loop H wr (unat blkcnt) blkno 0 buf"

section \<open>The reference drive\<close>

text \<open>\<open>Reading k n xs\<close>: the words \<open>xs\<close> of sector \<open>k\<close> are still to be read, and then \<open>n\<close> more sectors;
  \<open>Writing k n ws\<close>: the words \<open>ws\<close> of sector \<open>k\<close> have been written, and \<open>n\<close> more sectors follow.\<close>

datatype ata_mode = Idle | Reading nat nat "u32 list" | Writing nat nat "u32 list"

record ata =
  ata_cnt :: u8
  lba0 :: u8
  lba1 :: u8
  lba2 :: u8
  lba3 :: u8
  ata_mode :: ata_mode
  ata_busy :: nat
  ata_delay :: nat
  ata_size :: nat
  ata_sect :: "nat \<Rightarrow> u32 list"

text \<open>The address of the first sector and the number of sectors, of which 0 stands for 256.\<close>

definition ata_lba :: "ata \<Rightarrow> nat" where
  "ata_lba a = unat (lba0 a) + 2 ^ 8 * unat (lba1 a) + 2 ^ 16 * unat (lba2 a) + 2 ^ 24 * unat (lba3 a AND 0xf)"

definition ata_count :: "ata \<Rightarrow> nat" where
  "ata_count a = (if ata_cnt a = 0 then 256 else unat (ata_cnt a))"

text \<open>Registers are written when the drive is neither busy nor in the middle of a transfer; a command needs
  the LBA bit, the first drive, and a range of sectors that exist.\<close>

definition ata_regs :: "u16 set" where
  "ata_regs = {0x1f2, 0x1f3, 0x1f4, 0x1f5, 0x1f6, 0x1f7}"

definition ata_accepts :: "u16 \<Rightarrow> u8 \<Rightarrow> ata \<Rightarrow> bool" where
  "ata_accepts p v a \<longleftrightarrow> p \<in> ata_regs \<and> ata_busy a = 0 \<and> ata_mode a = Idle \<and>
     (p = 0x1f7 \<longrightarrow> v \<in> {0x20, 0x30} \<and> lba3 a AND 0x50 = 0x40 \<and> ata_lba a + ata_count a \<le> ata_size a)"

definition ata_outb :: "u16 \<Rightarrow> u8 \<Rightarrow> ata \<Rightarrow> ata" where
  "ata_outb p v a =
     (if p = 0x1f2 then a\<lparr>ata_cnt := v\<rparr> else if p = 0x1f3 then a\<lparr>lba0 := v\<rparr> else if p = 0x1f4 then a\<lparr>lba1 := v\<rparr>
      else if p = 0x1f5 then a\<lparr>lba2 := v\<rparr> else if p = 0x1f6 then a\<lparr>lba3 := v\<rparr>
      else let k = ata_lba a; n = ata_count a - 1 in
        a\<lparr>ata_mode := (if v = 0x20 then Reading k n (ata_sect a k) else Writing k n []), ata_busy := ata_delay a\<rparr>)"

text \<open>The status of the first drive: while it is busy only the flag for that means anything; then it is
  ready, with the flag that data can be moved.\<close>

definition ata_status_ok :: "ata \<Rightarrow> u8 \<Rightarrow> bool" where
  "ata_status_ok a v \<longleftrightarrow>
     (if 0 < ata_busy a then v AND 0x80 = 0x80 else v AND 0xc8 = (if ata_mode a = Idle then 0x40 else 0x48))"

definition ata_wait :: "ata \<Rightarrow> ata" where
  "ata_wait a = a\<lparr>ata_busy := ata_busy a - 1\<rparr>"

text \<open>A word is moved when the drive is not busy and has data or wants it.  After the last word of a sector
  the drive is busy for a while, with the next sector or to write this one.\<close>

definition ata_readable :: "ata \<Rightarrow> bool" where
  "ata_readable a \<longleftrightarrow> ata_busy a = 0 \<and> (\<exists>k n x xs. ata_mode a = Reading k n (x # xs))"

definition ata_writable :: "ata \<Rightarrow> bool" where
  "ata_writable a \<longleftrightarrow> ata_busy a = 0 \<and> (\<exists>k n ws. ata_mode a = Writing k n ws)"

definition ata_inl :: "ata \<Rightarrow> u32 \<times> ata" where
  "ata_inl a = (case ata_mode a of
       Reading k n (x # xs) \<Rightarrow> (x, if xs \<noteq> [] then a\<lparr>ata_mode := Reading k n xs\<rparr>
         else a\<lparr>ata_mode := (case n of 0 \<Rightarrow> Idle | Suc n \<Rightarrow> Reading (k + 1) n (ata_sect a (k + 1))), ata_busy := ata_delay a\<rparr>)
     | _ \<Rightarrow> (0, a))"

definition ata_outl :: "u32 \<Rightarrow> ata \<Rightarrow> ata" where
  "ata_outl v a = (case ata_mode a of
       Writing k n ws \<Rightarrow> (if length ws \<noteq> 127 then a\<lparr>ata_mode := Writing k n (ws @ [v])\<rparr>
         else a\<lparr>ata_sect := (ata_sect a)(k := ws @ [v]), ata_busy := ata_delay a,
           ata_mode := (case n of 0 \<Rightarrow> Idle | Suc n \<Rightarrow> Writing (k + 1) n [])\<rparr>)
     | _ \<Rightarrow> a)"

text \<open>The state that follows, except that the drive may take any time for what it does next.\<close>

definition ata_follows :: "ata \<Rightarrow> ata \<Rightarrow> bool" where
  "ata_follows a b \<longleftrightarrow> (\<exists>n. b = a\<lparr>ata_delay := n\<rparr>)"

definition drives_ata :: "'d hw \<Rightarrow> ('d \<Rightarrow> ata) \<Rightarrow> bool" where
  "drives_ata H view \<longleftrightarrow>
     (\<forall>p v d. ata_accepts p v (view d) \<longrightarrow> ata_follows (ata_outb p v (view d)) (view (hw_outb H p v d))) \<and>
     (\<forall>d. lba3 (view d) AND 0x10 = 0 \<longrightarrow> ata_status_ok (view d) (fst (hw_inb H 0x1f7 d)) \<and>
        ata_follows (ata_wait (view d)) (view (snd (hw_inb H 0x1f7 d)))) \<and>
     (\<forall>d. ata_readable (view d) \<longrightarrow> fst (hw_inl H 0x1f0 d) = fst (ata_inl (view d)) \<and>
        ata_follows (snd (ata_inl (view d))) (view (snd (hw_inl H 0x1f0 d)))) \<and>
     (\<forall>v d. ata_writable (view d) \<longrightarrow> ata_follows (ata_outl v (view d)) (view (hw_outl H 0x1f0 v d)))"

lemma ata_followsD:
  assumes "ata_follows a b"
  shows "ata_cnt b = ata_cnt a" "lba0 b = lba0 a" "lba1 b = lba1 a" "lba2 b = lba2 a" "lba3 b = lba3 a"
    "ata_mode b = ata_mode a" "ata_busy b = ata_busy a" "ata_size b = ata_size a" "ata_sect b = ata_sect a"
  using assms by (auto simp: ata_follows_def)

text \<open>Between two calls of the driver: no transfer is going on, and the first drive is selected.\<close>

definition blocks_ok :: "ata \<Rightarrow> bool" where
  "blocks_ok a \<longleftrightarrow> (\<forall>k<ata_size a. length (ata_sect a k) = 128)"

definition ata_rest :: "ata \<Rightarrow> bool" where
  "ata_rest a \<longleftrightarrow> ata_mode a = Idle \<and> lba3 a AND 0x10 = 0 \<and> ata_size a \<le> 2 ^ 28 \<and> blocks_ok a"

section \<open>One block\<close>

lemma status_busy: "v AND 0x80 = 0x80 \<Longrightarrow> v AND 0xc0 \<noteq> (0x40 :: u8)"
proof
  assume a: "v AND 0x80 = 0x80" and b: "v AND 0xc0 = 0x40"
  have "(v AND 0xc0) AND 0x80 = v AND 0x80" by (simp add: and.assoc)
  then show False using a b by simp
qed

lemma status_ready: "v AND 0xc8 = (if P then 0x40 else 0x48) \<Longrightarrow> v AND 0xc0 = (0x40 :: u8)"
proof -
  assume a: "v AND 0xc8 = (if P then 0x40 else 0x48)"
  have "v AND 0xc0 = (v AND 0xc8) AND 0xc0" by (simp add: and.assoc)
  then show ?thesis by (simp add: a)
qed

lemma wait_disk_ok:
  assumes drive: "drives_ata H view" and sel: "lba3 (view (hwst m)) AND 0x10 = 0"
  shows "\<exists>m'. wait_disk H m = Inr ((), m') \<and> ata_follows ((view (hwst m))\<lparr>ata_busy := 0\<rparr>) (view (hwst m'))"
  using sel
proof (induction "ata_busy (view (hwst m))" arbitrary: m)
  case 0
  obtain v d where vd: "hw_inb H 0x1f7 (hwst m) = (v, d)" by fastforce
  have st: "ata_status_ok (view (hwst m)) v" "ata_follows (ata_wait (view (hwst m))) (view d)"
    using drive vd 0(2) unfolding drives_ata_def by (metis fst_conv, metis snd_conv)
  have "v AND 0xc0 = 0x40" using st(1) 0(1) by (auto simp: ata_status_ok_def intro: status_ready)
  moreover have "ata_wait (view (hwst m)) = (view (hwst m))\<lparr>ata_busy := 0\<rparr>" using 0(1) by (simp add: ata_wait_def)
  moreover have "inb H 0x1f7 m = Inr (v, m\<lparr>hwst := d\<rparr>)" using vd by (simp add: inb_def)
  ultimately show ?case using st(2) unfolding wait_disk_def by (intro exI [of _ "m\<lparr>hwst := d\<rparr>"]) simp
next
  case (Suc n)
  obtain v d where vd: "hw_inb H 0x1f7 (hwst m) = (v, d)" by fastforce
  have st: "ata_status_ok (view (hwst m)) v" "ata_follows (ata_wait (view (hwst m))) (view d)"
    using drive vd Suc.prems unfolding drives_ata_def by (metis fst_conv, metis snd_conv)
  have busy: "0 < ata_busy (view (hwst m))" using Suc.hyps(2) by simp
  have v: "v AND 0xc0 \<noteq> 0x40" using st(1) busy by (simp add: ata_status_ok_def status_busy)
  let ?m = "m\<lparr>hwst := d\<rparr>"
  have i: "inb H 0x1f7 m = Inr (v, ?m)" using vd by (simp add: inb_def)
  have "wait_disk H m = wait_disk H ?m"
    unfolding wait_disk_def bindIO_def by (subst io_until_again [of "inb H 0x1f7", OF i]) (simp_all add: v)
  moreover have "n = ata_busy (view (hwst ?m))" "lba3 (view (hwst ?m)) AND 0x10 = 0"
    using ata_followsD(5,7) [OF st(2)] Suc.hyps(2) Suc.prems by (simp_all add: ata_wait_def)
  moreover have "ata_follows ((view (hwst m))\<lparr>ata_busy := 0\<rparr>) b" if "ata_follows ((view d)\<lparr>ata_busy := 0\<rparr>) b" for b
    using that st(2) by (auto simp: ata_follows_def ata_wait_def)
  ultimately show ?case using Suc.hyps(1) [of ?m] by auto
qed

lemma bytes_nat:
  "n mod 256 + 256 * (n div 256 mod 256) + 65536 * (n div 256 div 256 mod 256) + 16777216 * (n div 256 div 256 div 256) = (n :: nat)"
proof -
  have "n mod 256 + 256 * (n div 256) = n" "n div 256 mod 256 + 256 * (n div 256 div 256) = n div 256"
    "n div 256 div 256 mod 256 + 256 * (n div 256 div 256 div 256) = n div 256 div 256" by (rule mod_mult_div_eq)+
  then show ?thesis by linarith
qed

text \<open>The four bytes make up the number of a block below \<open>2 ^ 28\<close>.\<close>

lemma lba_bytes:
  assumes "unat (b :: u32) < 2 ^ 28"
  shows "unat (ucast b :: u8) + 2 ^ 8 * unat (ucast (drop_bit 8 b) :: u8) + 2 ^ 16 * unat (ucast (drop_bit 16 b) :: u8) +
    2 ^ 24 * unat ((ucast (drop_bit 24 b OR 0xe0) :: u8) AND 0xf) = unat b"
proof -
  let ?n = "unat b"
  have d: "unat (drop_bit k b) = ?n div 2 ^ k" for k by (simp only: unat_drop_bit_eq drop_bit_eq_div [of k "unat b"])
  have u: "unat (ucast (drop_bit k b) :: u8) = ?n div 2 ^ k mod 2 ^ 8" for k
    by (simp only: unsigned_ucast_eq take_bit_eq_mod d) simp
  have hi: "?n div 2 ^ 24 < 2 ^ 4" using assms by (simp add: less_mult_imp_div_less)
  have "(ucast (drop_bit 24 b OR 0xe0) :: u8) = ucast (drop_bit 24 b) OR 0xe0"
    by (simp add: unsigned_or_eq)
  then have "(ucast (drop_bit 24 b OR 0xe0) :: u8) AND 0xf = ucast (drop_bit 24 b) AND 0xf" by (simp add: bit.conj_disj_distrib2)
  moreover have "ucast (drop_bit 24 b) AND 0xf = (ucast (take_bit 4 (drop_bit 24 b)) :: u8)"
    unfolding take_bit_eq_mask by (simp add: mask_eq_exp_minus_1 unsigned_and_eq)
  moreover have "unat (ucast (take_bit 4 (drop_bit 24 b)) :: u8) = ?n div 2 ^ 24"
    using hi by (simp only: unsigned_ucast_eq unsigned_take_bit_eq d take_bit_eq_mod [where ?'a = nat]) simp
  ultimately have h: "unat ((ucast (drop_bit 24 b OR 0xe0) :: u8) AND 0xf) = ?n div 2 ^ 24" by simp
  have "?n mod 2 ^ 8 + 2 ^ 8 * (?n div 2 ^ 8 mod 2 ^ 8) + 2 ^ 16 * (?n div 2 ^ 16 mod 2 ^ 8) + 2 ^ 24 * (?n div 2 ^ 24) = ?n"
    using div_mult2_eq [of ?n "2 ^ 8" "2 ^ 8"] div_mult2_eq [of ?n "2 ^ 16" "2 ^ 8"] bytes_nat [of ?n] by simp
  then show ?thesis using u [of 0] u [of 8] u [of 16] h by simp
qed

text \<open>The first drive is selected, with the LBA bit.\<close>

lemma lba_device:
  assumes "unat (b :: u32) < 2 ^ 28"
  shows "(ucast (drop_bit 24 b OR 0xe0) :: u8) AND 0x50 = 0x40" "(ucast (drop_bit 24 b OR 0xe0) :: u8) AND 0x10 = 0"
proof -
  have d: "unat (drop_bit 24 b) = unat b div 2 ^ 24" by (simp only: unat_drop_bit_eq drop_bit_eq_div [of 24 "unat b"])
  have "unat b div 2 ^ 24 < 2 ^ 4" using assms by (simp add: less_mult_imp_div_less)
  then have "unat (take_bit 4 (drop_bit 24 b)) = unat (drop_bit 24 b)"
    by (simp only: unsigned_take_bit_eq d take_bit_eq_mod [where ?'a = nat] mod_less)
  then have "take_bit 4 (drop_bit 24 b) = drop_bit 24 b" by (simp only: word_unat_eq_iff)
  then have e: "drop_bit 24 b = drop_bit 24 b AND 0xf" by (simp add: take_bit_eq_mask mask_eq_exp_minus_1)
  have "(ucast (drop_bit 24 b OR 0xe0) :: u8) = ucast (drop_bit 24 b AND 0xf) OR 0xe0"
    by (subst e) (simp add: unsigned_or_eq)
  then have f: "(ucast (drop_bit 24 b OR 0xe0) :: u8) = (ucast (drop_bit 24 b) AND 0xf) OR 0xe0"
    by (simp add: unsigned_and_eq)
  show "(ucast (drop_bit 24 b OR 0xe0) :: u8) AND 0x50 = 0x40" "(ucast (drop_bit 24 b OR 0xe0) :: u8) AND 0x10 = 0"
    unfolding f by (simp_all add: bit.conj_disj_distrib2 and.assoc)
qed

end
