(* ===== verification/AtadiskProofs.thy ===== *)
theory AtadiskProofs
  imports Atadisk
begin

text \<open>
  The driver on any drive that keeps the contract: reading and writing ranges of blocks.
\<close>

lemma outb_ok:
  assumes "drives_ata H view" and "ata_accepts p v (view (hwst m))"
  shows "\<exists>m'. outb H p v m = Inr ((), m') \<and> ata_follows (ata_outb p v (view (hwst m))) (view (hwst m'))"
  using assms by (auto simp: outb_def drives_ata_def)

lemma disk_command_ok:
  assumes drive: "drives_ata H view" and st: "ata_busy (view (hwst m)) = 0" "ata_mode (view (hwst m)) = Idle"
    and k: "unat blkno < ata_size (view (hwst m))" "ata_size (view (hwst m)) \<le> 2 ^ 28"
  shows "\<exists>m'. disk_command H wr blkno m = Inr ((), m') \<and> ata_sect (view (hwst m')) = ata_sect (view (hwst m)) \<and>
    ata_size (view (hwst m')) = ata_size (view (hwst m)) \<and> lba3 (view (hwst m')) AND 0x10 = 0 \<and>
    ata_mode (view (hwst m')) = (if wr then Writing (unat blkno) 0 [] else Reading (unat blkno) 0 (ata_sect (view (hwst m)) (unat blkno)))"
proof -
  have b: "unat blkno < 2 ^ 28" using k by simp
  let ?a = "view (hwst m)" and ?top = "ucast (drop_bit 24 blkno OR 0xe0) :: u8"
  obtain m1 where m1: "outb H 0x1f2 1 m = Inr ((), m1)" "ata_follows (ata_outb 0x1f2 1 ?a) (view (hwst m1))"
    using outb_ok [OF drive, of "0x1f2" 1 m] st by (auto simp: ata_accepts_def ata_regs_def)
  note f1 = ata_followsD [OF m1(2)]
  obtain m2 where m2: "outb H 0x1f3 (ucast blkno) m1 = Inr ((), m2)" "ata_follows (ata_outb 0x1f3 (ucast blkno) (view (hwst m1))) (view (hwst m2))"
    using outb_ok [OF drive, of "0x1f3" "ucast blkno" m1] st f1 by (auto simp: ata_accepts_def ata_regs_def ata_outb_def)
  note f2 = ata_followsD [OF m2(2)]
  obtain m3 where m3: "outb H 0x1f4 (ucast (drop_bit 8 blkno)) m2 = Inr ((), m3)"
    "ata_follows (ata_outb 0x1f4 (ucast (drop_bit 8 blkno)) (view (hwst m2))) (view (hwst m3))"
    using outb_ok [OF drive, of "0x1f4" "ucast (drop_bit 8 blkno)" m2] st f1 f2 by (auto simp: ata_accepts_def ata_regs_def ata_outb_def)
  note f3 = ata_followsD [OF m3(2)]
  obtain m4 where m4: "outb H 0x1f5 (ucast (drop_bit 16 blkno)) m3 = Inr ((), m4)"
    "ata_follows (ata_outb 0x1f5 (ucast (drop_bit 16 blkno)) (view (hwst m3))) (view (hwst m4))"
    using outb_ok [OF drive, of "0x1f5" "ucast (drop_bit 16 blkno)" m3] st f1 f2 f3 by (auto simp: ata_accepts_def ata_regs_def ata_outb_def)
  note f4 = ata_followsD [OF m4(2)]
  obtain m5 where m5: "outb H 0x1f6 ?top m4 = Inr ((), m5)" "ata_follows (ata_outb 0x1f6 ?top (view (hwst m4))) (view (hwst m5))"
    using outb_ok [OF drive, of "0x1f6" ?top m4] st f1 f2 f3 f4 by (auto simp: ata_accepts_def ata_regs_def ata_outb_def)
  note f5 = ata_followsD [OF m5(2)]
  have regs: "lba0 (view (hwst m5)) = ucast blkno" "lba1 (view (hwst m5)) = ucast (drop_bit 8 blkno)"
    "lba2 (view (hwst m5)) = ucast (drop_bit 16 blkno)" "lba3 (view (hwst m5)) = ?top" "ata_cnt (view (hwst m5)) = 1"
    "ata_busy (view (hwst m5)) = 0" "ata_mode (view (hwst m5)) = Idle" "ata_size (view (hwst m5)) = ata_size ?a"
    "ata_sect (view (hwst m5)) = ata_sect ?a"
    using f1 f2 f3 f4 f5 st by (simp_all add: ata_outb_def)
  have lba: "ata_lba (view (hwst m5)) = unat blkno" "ata_count (view (hwst m5)) = 1"
    using lba_bytes [OF b] by (simp_all add: ata_lba_def ata_count_def regs)
  have "ata_accepts 0x1f7 (if wr then 0x30 else 0x20) (view (hwst m5))"
    using lba_device(1) [OF b] k(1) by (simp add: ata_accepts_def ata_regs_def regs lba)
  then obtain m6 where m6: "outb H 0x1f7 (if wr then 0x30 else 0x20) m5 = Inr ((), m6)"
    "ata_follows (ata_outb 0x1f7 (if wr then 0x30 else 0x20) (view (hwst m5))) (view (hwst m6))"
    using outb_ok [OF drive] by blast
  have "disk_command H wr blkno m = Inr ((), m6)"
    by (simp add: disk_command_def m1(1) m2(1) m3(1) m4(1) m5(1) m6(1))
  then show ?thesis using ata_followsD [OF m6(2)] lba_device(2) [OF b]
    by (intro exI [of _ m6]) (simp add: ata_outb_def Let_def regs lba)
qed

lemma out_words_ok:
  assumes drive: "drives_ata H view" and "ata_mode (view (hwst m)) = Writing k 0 ws" and "ata_busy (view (hwst m)) = 0"
    and "length ws + Suc n = 128" and "ptr + Suc n \<le> length buf"
  shows "\<exists>m'. out_words H (Suc n) ptr buf m = Inr ((), m') \<and> ata_mode (view (hwst m')) = Idle \<and>
    ata_sect (view (hwst m')) = (ata_sect (view (hwst m)))(k := ws @ take (Suc n) (drop ptr buf)) \<and>
    ata_size (view (hwst m')) = ata_size (view (hwst m)) \<and> lba3 (view (hwst m')) = lba3 (view (hwst m))"
  using assms(2-)
proof (induction n arbitrary: m ws ptr)
  case 0
  let ?m = "m\<lparr>hwst := hw_outl H 0x1f0 (buf ! ptr) (hwst m)\<rparr>"
  have "ata_writable (view (hwst m))" using 0 by (simp add: ata_writable_def)
  then have "ata_follows (ata_outl (buf ! ptr) (view (hwst m))) (view (hwst ?m))" using drive by (simp add: drives_ata_def)
  note f = ata_followsD [OF this]
  moreover have "take (Suc 0) (drop ptr buf) = [buf ! ptr]" using 0 by (simp add: take_Suc_conv_app_nth)
  ultimately show ?case using 0
    by (intro exI [of _ ?m]) (simp add: bindIO_def outl_def ata_outl_def)
next
  case (Suc n)
  let ?m = "m\<lparr>hwst := hw_outl H 0x1f0 (buf ! ptr) (hwst m)\<rparr>"
  have "ata_writable (view (hwst m))" using Suc.prems by (simp add: ata_writable_def)
  then have "ata_follows (ata_outl (buf ! ptr) (view (hwst m))) (view (hwst ?m))" using drive by (simp add: drives_ata_def)
  note f = ata_followsD [OF this]
  have len: "length ws \<noteq> 127" using Suc.prems(3) by simp
  have m: "ata_mode (view (hwst ?m)) = Writing k 0 (ws @ [buf ! ptr])" "ata_busy (view (hwst ?m)) = 0"
    "ata_sect (view (hwst ?m)) = ata_sect (view (hwst m))" "ata_size (view (hwst ?m)) = ata_size (view (hwst m))"
    "lba3 (view (hwst ?m)) = lba3 (view (hwst m))"
    using f Suc.prems(1,2) len by (simp_all add: ata_outl_def)
  have t: "take (Suc (Suc n)) (drop ptr buf) = buf ! ptr # take (Suc n) (drop (ptr + 1) buf)"
    using Suc.prems(4) by (subst Cons_nth_drop_Suc [symmetric]) simp_all
  have "out_words H (Suc (Suc n)) ptr buf m = out_words H (Suc n) (ptr + 1) buf ?m"
    using Suc.prems(4) by (subst out_words.simps) (simp add: bindIO_def outl_def)
  moreover have "length (ws @ [buf ! ptr]) + Suc n = 128" "ptr + 1 + Suc n \<le> length buf" using Suc.prems(3,4) by simp_all
  ultimately show ?case using Suc.IH [OF m(1,2)] unfolding t m(3-) by (simp only: append_assoc append_Cons append_Nil)
qed

lemma inl_ok:
  assumes drive: "drives_ata H view" and "ata_mode (view (hwst m)) = Reading k 0 (x # xs)" and "ata_busy (view (hwst m)) = 0"
  shows "\<exists>m'. inl H 0x1f0 m = Inr (x, m') \<and> ata_mode (view (hwst m')) = (if xs = [] then Idle else Reading k 0 xs) \<and>
    (xs \<noteq> [] \<longrightarrow> ata_busy (view (hwst m')) = 0) \<and> ata_sect (view (hwst m')) = ata_sect (view (hwst m)) \<and>
    ata_size (view (hwst m')) = ata_size (view (hwst m)) \<and> lba3 (view (hwst m')) = lba3 (view (hwst m))"
proof -
  obtain v d where vd: "hw_inl H 0x1f0 (hwst m) = (v, d)" by fastforce
  have "ata_readable (view (hwst m))" using assms(2,3) by (simp add: ata_readable_def)
  then have st: "v = fst (ata_inl (view (hwst m)))" "ata_follows (snd (ata_inl (view (hwst m)))) (view d)"
    using drive vd unfolding drives_ata_def by (metis fst_conv, metis snd_conv)
  have "inl H 0x1f0 m = Inr (v, m\<lparr>hwst := d\<rparr>)" using vd by (simp add: inl_def)
  then show ?thesis using st(1) ata_followsD [OF st(2)] assms(2,3)
    by (intro exI [of _ "m\<lparr>hwst := d\<rparr>"]) (simp add: ata_inl_def)
qed

lemma in_words_ok:
  assumes drive: "drives_ata H view" and "ata_mode (view (hwst m)) = Reading k 0 xs" and "ata_busy (view (hwst m)) = 0"
    and "length xs = Suc n" and "ptr + Suc n \<le> length buf"
  shows "\<exists>m'. in_words H (Suc n) ptr buf m = Inr (take ptr buf @ xs @ drop (ptr + Suc n) buf, m') \<and>
    ata_mode (view (hwst m')) = Idle \<and> ata_sect (view (hwst m')) = ata_sect (view (hwst m)) \<and>
    ata_size (view (hwst m')) = ata_size (view (hwst m)) \<and> lba3 (view (hwst m')) = lba3 (view (hwst m))"
  using assms(2-)
proof (induction n arbitrary: m xs ptr buf)
  case 0
  then obtain x where xs: "xs = [x]" by (cases xs) auto
  from inl_ok [OF drive, of m k x "[]"] 0 xs obtain m' where
    "inl H 0x1f0 m = Inr (x, m')" "ata_mode (view (hwst m')) = Idle" "ata_sect (view (hwst m')) = ata_sect (view (hwst m))"
    "ata_size (view (hwst m')) = ata_size (view (hwst m))" "lba3 (view (hwst m')) = lba3 (view (hwst m))" by auto
  then show ?case using 0 xs by (intro exI [of _ m']) (simp add: upd_conv_take_nth_drop)
next
  case (Suc n)
  then obtain x ys where xs: "xs = x # ys" "length ys = Suc n" by (cases xs) auto
  then have "ys \<noteq> []" by auto
  with inl_ok [OF drive, of m k x ys] Suc.prems(1,2) xs(1) obtain m' where m': "inl H 0x1f0 m = Inr (x, m')"
    "ata_mode (view (hwst m')) = Reading k 0 ys" "ata_busy (view (hwst m')) = 0" "ata_sect (view (hwst m')) = ata_sect (view (hwst m))"
    "ata_size (view (hwst m')) = ata_size (view (hwst m))" "lba3 (view (hwst m')) = lba3 (view (hwst m))" by auto
  let ?buf = "buf[ptr := x]"
  have st: "in_words H (Suc (Suc n)) ptr buf m = in_words H (Suc n) (ptr + 1) ?buf m'"
    using Suc.prems(4) m'(1) by (subst in_words.simps) simp
  have b: "take (ptr + 1) ?buf @ ys @ drop (ptr + 1 + Suc n) ?buf = take ptr buf @ xs @ drop (ptr + Suc (Suc n)) buf"
    using Suc.prems(4) by (simp add: take_Suc_conv_app_nth xs(1))
  have "ptr + 1 + Suc n \<le> length ?buf" using Suc.prems(4) by simp
  from Suc.IH [OF m'(2,3) xs(2) this] show ?case unfolding st b m'(4-) .
qed

section \<open>Ranges of blocks\<close>

text \<open>What the disk holds after \<open>n\<close> blocks of \<open>buf\<close> were written from block \<open>k\<close> on.\<close>

definition sect_write :: "nat \<Rightarrow> nat \<Rightarrow> u32 list \<Rightarrow> (nat \<Rightarrow> u32 list) \<Rightarrow> nat \<Rightarrow> u32 list" where
  "sect_write k n buf f i = (if k \<le> i \<and> i < k + n then take 128 (drop (128 * (i - k)) buf) else f i)"

lemma next_block:
  assumes "unat (blkno :: u32) + Suc n \<le> 2 ^ 28"
  shows "unat (blkno + 1) = unat blkno + 1"
proof -
  have "unat blkno + 1 < 2 ^ 32" using assms by simp
  then show ?thesis by (subst unat_add_lem [THEN iffD1]) simp_all
qed

lemma sect_write_step: "sect_write k (Suc n) b f = sect_write (k + 1) n (drop 128 b) (f(k := take 128 b))"
proof
  fix i
  consider "i = k" | "i < k \<or> k + Suc n \<le> i" | "k < i" "i < k + Suc n" by linarith
  then show "sect_write k (Suc n) b f i = sect_write (k + 1) n (drop 128 b) (f(k := take 128 b)) i"
  proof cases
    case 3
    then have "128 * (i - k) = 128 * (i - (k + 1)) + 128" by simp
    then show ?thesis using 3 by (simp add: sect_write_def)
  qed (auto simp: sect_write_def)
qed

lemma sect_read_back: "concat (map (sect_write k n b f) [k..<k + n]) = take (128 * n) b"
proof (induction n arbitrary: k b f)
  case (Suc n)
  have "[k..<k + Suc n] = k # [k + 1..<k + 1 + n]" by (simp add: upt_conv_Cons)
  moreover have "sect_write (k + 1) n (drop 128 b) (f(k := take 128 b)) k = take 128 b" by (simp add: sect_write_def)
  moreover have "take (128 * Suc n) b = take 128 b @ take (128 * n) (drop 128 b)" by (simp add: take_add)
  ultimately show ?case using Suc.IH [of "k + 1" "drop 128 b" "f(k := take 128 b)"]
    unfolding sect_write_step by (simp only: list.map concat.simps)
qed simp

lemma prepare:
  assumes drive: "drives_ata H view" and rest: "ata_rest (view (hwst m))" and k: "unat blkno < ata_size (view (hwst m))"
  shows "\<exists>m1 m2 m3. wait_disk H m = Inr ((), m1) \<and> disk_command H wr blkno m1 = Inr ((), m2) \<and> wait_disk H m2 = Inr ((), m3) \<and>
    ata_sect (view (hwst m3)) = ata_sect (view (hwst m)) \<and> ata_size (view (hwst m3)) = ata_size (view (hwst m)) \<and>
    lba3 (view (hwst m3)) AND 0x10 = 0 \<and> ata_busy (view (hwst m3)) = 0 \<and>
    ata_mode (view (hwst m3)) = (if wr then Writing (unat blkno) 0 [] else Reading (unat blkno) 0 (ata_sect (view (hwst m)) (unat blkno)))"
proof -
  note r = rest [unfolded ata_rest_def]
  obtain m1 where m1: "wait_disk H m = Inr ((), m1)" "ata_follows ((view (hwst m))\<lparr>ata_busy := 0\<rparr>) (view (hwst m1))"
    using wait_disk_ok [OF drive] r by blast
  note f1 = ata_followsD [OF m1(2)]
  obtain m2 where m2: "disk_command H wr blkno m1 = Inr ((), m2)" "ata_sect (view (hwst m2)) = ata_sect (view (hwst m1))"
    "ata_size (view (hwst m2)) = ata_size (view (hwst m1))" "lba3 (view (hwst m2)) AND 0x10 = 0"
    "ata_mode (view (hwst m2)) = (if wr then Writing (unat blkno) 0 [] else Reading (unat blkno) 0 (ata_sect (view (hwst m1)) (unat blkno)))"
    using disk_command_ok [OF drive, of m1 blkno wr] f1 r k by auto
  obtain m3 where m3: "wait_disk H m2 = Inr ((), m3)" "ata_follows ((view (hwst m2))\<lparr>ata_busy := 0\<rparr>) (view (hwst m3))"
    using wait_disk_ok [OF drive m2(4)] by blast
  show ?thesis using m1 m2 m3(1) ata_followsD [OF m3(2)] f1 by simp
qed

lemma disk_loop_read:
  assumes drive: "drives_ata H view" and "ata_rest (view (hwst m))" and "unat blkno + n \<le> ata_size (view (hwst m))"
    and "ptr + 128 * n \<le> length buf"
  shows "\<exists>m'. disk_loop H False n blkno ptr buf m =
      Inr (take ptr buf @ concat (map (ata_sect (view (hwst m))) [unat blkno..<unat blkno + n]) @ drop (ptr + 128 * n) buf, m') \<and>
    ata_sect (view (hwst m')) = ata_sect (view (hwst m)) \<and> ata_size (view (hwst m')) = ata_size (view (hwst m)) \<and>
    ata_rest (view (hwst m'))"
  using assms(2-)
proof (induction n arbitrary: m blkno ptr buf)
  case (Suc n)
  let ?f = "ata_sect (view (hwst m))" and ?k = "unat blkno"
  note r = Suc.prems(1) [unfolded ata_rest_def]
  have kk: "?k < ata_size (view (hwst m))" using Suc.prems(2) by simp
  obtain m1 m2 m3 where m: "wait_disk H m = Inr ((), m1)" "disk_command H False blkno m1 = Inr ((), m2)" "wait_disk H m2 = Inr ((), m3)"
    "ata_sect (view (hwst m3)) = ?f" "ata_size (view (hwst m3)) = ata_size (view (hwst m))" "lba3 (view (hwst m3)) AND 0x10 = 0"
    "ata_busy (view (hwst m3)) = 0" "ata_mode (view (hwst m3)) = Reading ?k 0 (?f ?k)"
    using prepare [OF drive Suc.prems(1) kk, of False] by auto
  have len: "length (?f ?k) = Suc 127" using r kk by (simp add: blocks_ok_def)
  let ?buf = "take ptr buf @ ?f ?k @ drop (ptr + Suc 127) buf"
  obtain m4 where m4: "in_words H (Suc 127) ptr buf m3 = Inr (?buf, m4)" "ata_mode (view (hwst m4)) = Idle" "ata_sect (view (hwst m4)) = ?f"
    "ata_size (view (hwst m4)) = ata_size (view (hwst m))" "lba3 (view (hwst m4)) AND 0x10 = 0"
    using in_words_ok [OF drive m(8,7) len, of ptr buf] m(4,5,6) Suc.prems(3) by auto
  have st: "disk_loop H False (Suc n) blkno ptr buf m = disk_loop H False n (blkno + 1) (ptr + 128) ?buf m4"
    using m m4(1) by (subst disk_loop.simps) (simp add: BLKSZ_def)
  have "ata_rest (view (hwst m4))" using r m4 by (simp add: ata_rest_def blocks_ok_def)
  moreover have "unat (blkno + 1) = ?k + 1" using Suc.prems(2) r by (intro next_block [of blkno n]) simp
  moreover have "ptr + 128 + 128 * n \<le> length ?buf" using Suc.prems(3) len by simp
  ultimately obtain m' where
    m': "disk_loop H False n (blkno + 1) (ptr + 128) ?buf m4 =
      Inr (take (ptr + 128) ?buf @ concat (map ?f [?k + 1..<?k + 1 + n]) @ drop (ptr + 128 + 128 * n) ?buf, m')"
    "ata_sect (view (hwst m')) = ?f" "ata_size (view (hwst m')) = ata_size (view (hwst m))" "ata_rest (view (hwst m'))"
    using Suc.IH [of m4 "blkno + 1" "ptr + 128" ?buf] Suc.prems(2) m4(4) unfolding m4(3) by auto
  have "take (ptr + 128) ?buf = take ptr buf @ ?f ?k" "drop (ptr + 128 + 128 * n) ?buf = drop (ptr + 128 * Suc n) buf"
    using Suc.prems(3) len by (simp_all add: ac_simps)
  moreover have "[?k..<?k + Suc n] = ?k # [?k + 1..<?k + 1 + n]" by (simp add: upt_conv_Cons)
  ultimately show ?case using m' unfolding st by simp
qed simp

lemma disk_loop_write:
  assumes drive: "drives_ata H view" and "ata_rest (view (hwst m))" and "unat blkno + n \<le> ata_size (view (hwst m))"
    and "ptr + 128 * n \<le> length buf"
  shows "\<exists>m'. disk_loop H True n blkno ptr buf m = Inr (buf, m') \<and>
    ata_sect (view (hwst m')) = sect_write (unat blkno) n (drop ptr buf) (ata_sect (view (hwst m))) \<and>
    ata_size (view (hwst m')) = ata_size (view (hwst m)) \<and> ata_rest (view (hwst m'))"
  using assms(2-)
proof (induction n arbitrary: m blkno ptr)
  case 0
  have "sect_write k 0 b f = f" for k b f by (rule ext) (auto simp: sect_write_def)
  then show ?case using 0 by simp
next
  case (Suc n)
  let ?f = "ata_sect (view (hwst m))" and ?k = "unat blkno"
  note r = Suc.prems(1) [unfolded ata_rest_def]
  have kk: "?k < ata_size (view (hwst m))" using Suc.prems(2) by simp
  obtain m1 m2 m3 where m: "wait_disk H m = Inr ((), m1)" "disk_command H True blkno m1 = Inr ((), m2)" "wait_disk H m2 = Inr ((), m3)"
    "ata_sect (view (hwst m3)) = ?f" "ata_size (view (hwst m3)) = ata_size (view (hwst m))" "lba3 (view (hwst m3)) AND 0x10 = 0"
    "ata_busy (view (hwst m3)) = 0" "ata_mode (view (hwst m3)) = Writing ?k 0 []"
    using prepare [OF drive Suc.prems(1) kk, of True] by auto
  obtain m4 where m4: "out_words H (Suc 127) ptr buf m3 = Inr ((), m4)" "ata_mode (view (hwst m4)) = Idle"
    "ata_sect (view (hwst m4)) = ?f(?k := take 128 (drop ptr buf))" "ata_size (view (hwst m4)) = ata_size (view (hwst m))"
    "lba3 (view (hwst m4)) AND 0x10 = 0"
    using out_words_ok [OF drive m(8,7), of 127 ptr buf] m(4,5,6) Suc.prems(3) by auto
  have st: "disk_loop H True (Suc n) blkno ptr buf m = disk_loop H True n (blkno + 1) (ptr + 128) buf m4"
    using m m4(1) by (subst disk_loop.simps) (simp add: BLKSZ_def)
  have nb: "unat (blkno + 1) = ?k + 1" using Suc.prems(2) r by (intro next_block [of blkno n]) simp
  have "length (take 128 (drop ptr buf)) = 128" using Suc.prems(3) by simp
  then have "ata_rest (view (hwst m4))" using r m4 by (simp add: ata_rest_def blocks_ok_def)
  moreover have "ptr + 128 + 128 * n \<le> length buf" "unat (blkno + 1) + n \<le> ata_size (view (hwst m4))"
    using Suc.prems nb m4(4) by simp_all
  moreover have "drop (ptr + 128) buf = drop 128 (drop ptr buf)" by (simp add: add.commute)
  ultimately show ?case using Suc.IH [of m4 "blkno + 1" "ptr + 128"] m4(4) unfolding st m4(3) sect_write_step nb by (simp only:)
qed

text \<open>C13. The disk driver over any drive that keeps the contract of the ATA commands: writing blocks and
  reading them back gives the same words, for any range of blocks of the drive and however long the drive
  is busy in between; no other block changes, and the drive is left at rest for the next call.\<close>

theorem disk_write_read:
  assumes "drives_ata H view" and "ata_rest (view (hwst m))" and "unat blkno + unat n \<le> ata_size (view (hwst m))"
    and "length buf = 128 * unat n" and "length buf' = 128 * unat n"
  shows "\<exists>m1 m2. disk_blkio H True blkno n buf m = Inr (buf, m1) \<and> disk_blkio H False blkno n buf' m1 = Inr (buf, m2) \<and>
    ata_sect (view (hwst m2)) = sect_write (unat blkno) (unat n) buf (ata_sect (view (hwst m))) \<and> ata_rest (view (hwst m2))"
proof -
  obtain m1 where m1: "disk_loop H True (unat n) blkno 0 buf m = Inr (buf, m1)"
    "ata_sect (view (hwst m1)) = sect_write (unat blkno) (unat n) buf (ata_sect (view (hwst m)))"
    "ata_size (view (hwst m1)) = ata_size (view (hwst m))" "ata_rest (view (hwst m1))"
    using disk_loop_write [OF assms(1-3), of 0 buf] assms(4) by auto
  from disk_loop_read [OF assms(1) m1(4), of blkno "unat n" 0 buf'] obtain m2 where
    "disk_loop H False (unat n) blkno 0 buf' m1 = Inr (buf, m2)" "ata_sect (view (hwst m2)) = ata_sect (view (hwst m1))"
    "ata_rest (view (hwst m2))"
    using assms(3-5) m1(3) unfolding m1(2) sect_read_back by auto
  then show ?thesis using m1 by (simp add: disk_blkio_def)
qed

text \<open>A drive that keeps the contract, and that ignores what the contract leaves open.\<close>

definition ata_hw :: "ata hw" where
  "ata_hw = \<lparr>hw_inb = (\<lambda>p a. if 0 < ata_busy a then (0x80, ata_wait a) else (if ata_mode a = Idle then 0x40 else 0x48, a)),
     hw_outb = (\<lambda>p v a. if ata_accepts p v a then ata_outb p v a else a), hw_outw = (\<lambda>p v a. a),
     hw_inl = (\<lambda>p a. if ata_readable a then ata_inl a else (0xffffffff, a)),
     hw_outl = (\<lambda>p v a. if ata_writable a then ata_outl v a else a), hw_rdtsc = (\<lambda>a. (0, a)), hw_load = (\<lambda>p a. (0, a)),
     hw_store = (\<lambda>p v a. a), hw_store16 = (\<lambda>p v a. a)\<rparr>"

lemma ata_hw_ok: "drives_ata ata_hw id"
proof -
  have "ata_follows a a" for a unfolding ata_follows_def by (rule exI [of _ "ata_delay a"]) simp
  moreover have "ata_wait a = a" if "\<not> 0 < ata_busy a" for a using that by (simp add: ata_wait_def)
  ultimately show ?thesis by (simp add: drives_ata_def ata_hw_def ata_status_ok_def)
qed

definition ata_machine :: "ata machine" where
  "ata_machine = \<lparr>hwst = \<lparr>ata_cnt = 0, lba0 = 0, lba1 = 0, lba2 = 0, lba3 = 0, ata_mode = Idle, ata_busy = 3, ata_delay = 5,
       ata_size = 2 ^ 28, ata_sect = (\<lambda>_. replicate 128 0)\<rparr>,
     boot_date = \<lparr>rtc_year = 2022, rtc_month = 1, rtc_day = 1, rtc_hour = 0, rtc_minute = 0, rtc_second = 0\<rparr>,
     freq_mhz = 2000, uptsc = 0, display_w = 0, display_h = 0, fb_mem = [], vmem = [], vbuf = [], vbuf_head = 0\<rparr>"

lemma ata_machine_rest: "ata_rest (id (hwst ata_machine))" "ata_size (hwst ata_machine) = 2 ^ 28"
  by (simp_all add: ata_rest_def blocks_ok_def ata_machine_def)

theorem disk_write_read_witness:
  "\<exists>m1 m2. disk_blkio ata_hw True 0x1234567 2 (replicate 256 7) ata_machine = Inr (replicate 256 7, m1) \<and>
    disk_blkio ata_hw False 0x1234567 2 (replicate 256 0) m1 = Inr (replicate 256 7, m2) \<and>
    ata_sect (hwst m2) 0x1234568 = replicate 128 7"
proof -
  obtain m1 m2 where m: "disk_blkio ata_hw True 0x1234567 2 (replicate 256 7) ata_machine = Inr (replicate 256 7, m1)"
    "disk_blkio ata_hw False 0x1234567 2 (replicate 256 0) m1 = Inr (replicate 256 7, m2)"
    "ata_sect (hwst m2) = sect_write 0x1234567 2 (replicate 256 7) (ata_sect (hwst ata_machine))"
    using disk_write_read [OF ata_hw_ok ata_machine_rest(1), of "0x1234567" 2 "replicate 256 7" "replicate 256 0"]
      ata_machine_rest(2) by auto
  have "sect_write 0x1234567 2 (replicate 256 7) (ata_sect (hwst ata_machine)) 0x1234568 = replicate 128 7"
    by (simp add: sect_write_def)
  then show ?thesis using m by auto
qed

end
