(* ===== verification/Apic.thy ===== *)
theory Apic
  imports Ioports
begin

text \<open>
  The interrupt controllers of \<open>am/src/x86/qemu/ioe.c\<close>, and the start and the end of the machine in
  \<open>trm.c\<close> and \<open>mpe.c\<close>: heap, processor table, console and halt.  \<open>lapic\<close> is the pointer
  \<open>__am_lapic\<close>.
\<close>

section \<open>Local APIC\<close>

definition lapic_reg :: "addr \<Rightarrow> nat \<Rightarrow> addr" where
  "lapic_reg lapic index = lapic + 4 * word_of_nat index"

abbreviation (input) ID :: nat where "ID \<equiv> 0x20 div 4"
abbreviation (input) VER :: nat where "VER \<equiv> 0x30 div 4"
abbreviation (input) TPR :: nat where "TPR \<equiv> 0x80 div 4"
abbreviation (input) EOI :: nat where "EOI \<equiv> 0xB0 div 4"
abbreviation (input) SVR :: nat where "SVR \<equiv> 0xF0 div 4"
abbreviation (input) ESR :: nat where "ESR \<equiv> 0x280 div 4"
abbreviation (input) ICRLO :: nat where "ICRLO \<equiv> 0x300 div 4"
abbreviation (input) ICRHI :: nat where "ICRHI \<equiv> 0x310 div 4"
abbreviation (input) TIMER :: nat where "TIMER \<equiv> 0x320 div 4"
abbreviation (input) PCINT :: nat where "PCINT \<equiv> 0x340 div 4"
abbreviation (input) LINT0 :: nat where "LINT0 \<equiv> 0x350 div 4"
abbreviation (input) LINT1 :: nat where "LINT1 \<equiv> 0x360 div 4"
abbreviation (input) ERROR :: nat where "ERROR \<equiv> 0x370 div 4"
abbreviation (input) TICR :: nat where "TICR \<equiv> 0x380 div 4"
abbreviation (input) TDCR :: nat where "TDCR \<equiv> 0x3E0 div 4"

abbreviation (input) ENABLE :: u32 where "ENABLE \<equiv> 0x100"
abbreviation (input) INIT :: u32 where "INIT \<equiv> 0x500"
abbreviation (input) STARTUP :: u32 where "STARTUP \<equiv> 0x600"
abbreviation (input) DELIVS :: u32 where "DELIVS \<equiv> 0x1000"
abbreviation (input) ASSERT :: u32 where "ASSERT \<equiv> 0x4000"
abbreviation (input) LEVEL :: u32 where "LEVEL \<equiv> 0x8000"
abbreviation (input) BCAST :: u32 where "BCAST \<equiv> 0x80000"
abbreviation (input) X1 :: u32 where "X1 \<equiv> 0xB"
abbreviation (input) PERIODIC :: u32 where "PERIODIC \<equiv> 0x20000"
abbreviation (input) MASKED :: u32 where "MASKED \<equiv> 0x10000"

text \<open>\<open>T_IRQ0\<close> and the interrupts above it, in the registers.\<close>

definition irq_vector :: "u32 \<Rightarrow> u32" where
  "irq_vector irq = 32 + irq"

definition lapicr :: "'d hw \<Rightarrow> addr \<Rightarrow> nat \<Rightarrow> ('d machine, u32) io" where
  "lapicr H lapic index = load32 H (lapic_reg lapic index)"

definition lapicw :: "'d hw \<Rightarrow> addr \<Rightarrow> nat \<Rightarrow> u32 \<Rightarrow> ('d machine, unit) io" where
  "lapicw H lapic index value =
     bindIO (store32 H (lapic_reg lapic index) value) (\<lambda>_. bindIO (lapicr H lapic ID) (\<lambda>_. ret ()))"

definition percpu_initlapic :: "'d hw \<Rightarrow> addr \<Rightarrow> ('d machine, unit) io" where
  "percpu_initlapic H l =
     bindIO (run_all [lapicw H l SVR (ENABLE OR irq_vector 31), lapicw H l TDCR X1,
       lapicw H l TIMER (PERIODIC OR irq_vector 0), lapicw H l TICR 10000000, lapicw H l LINT0 MASKED, lapicw H l LINT1 MASKED]) (\<lambda>_.
     bindIO (lapicr H l VER) (\<lambda>v.
     bindIO (if drop_bit 16 v AND 0xFF \<ge> 4 then lapicw H l PCINT MASKED else ret ()) (\<lambda>_.
     bindIO (run_all [lapicw H l ERROR (irq_vector 19), lapicw H l ESR 0, lapicw H l ESR 0, lapicw H l EOI 0,
       lapicw H l ICRHI 0, lapicw H l ICRLO (BCAST OR INIT OR LEVEL)]) (\<lambda>_.
     bindIO (io_until (lapicr H l ICRLO) (\<lambda>v. v AND DELIVS = 0)) (\<lambda>_.
     lapicw H l TPR 0)))))"

definition lapic_eoi :: "'d hw \<Rightarrow> addr \<Rightarrow> ('d machine, unit) io" where
  "lapic_eoi H l = (if l \<noteq> NULL then lapicw H l EOI 0 else ret ())"

definition lapic_bootap :: "'d hw \<Rightarrow> addr \<Rightarrow> u32 \<Rightarrow> addr \<Rightarrow> ('d machine, unit) io" where
  "lapic_bootap H l apicid a =
     run_all [outb H 0x70 0xF, outb H 0x71 0x0A, store16 H 0x467 0, store16 H 0x469 (ucast (drop_bit 4 a)),
       lapicw H l ICRHI (push_bit 24 apicid), lapicw H l ICRLO (INIT OR LEVEL OR ASSERT), lapicw H l ICRLO (INIT OR LEVEL),
       lapicw H l ICRHI (push_bit 24 apicid), lapicw H l ICRLO (ucast (ucast STARTUP OR drop_bit 12 a)),
       lapicw H l ICRHI (push_bit 24 apicid), lapicw H l ICRLO (ucast (ucast STARTUP OR drop_bit 12 a))]"

definition cpu_current :: "'d hw \<Rightarrow> addr \<Rightarrow> ('d machine, nat) io" where
  "cpu_current H l = bindIO (lapicr H l 8) (\<lambda>v. ret (unat (drop_bit 24 v)))"

section \<open>I/O APIC\<close>

definition IOAPIC_ADDR :: addr where "IOAPIC_ADDR = 0xFEC00000"

abbreviation (input) REG_VER :: u32 where "REG_VER \<equiv> 0x01"
abbreviation (input) REG_TABLE :: u32 where "REG_TABLE \<equiv> 0x10"
abbreviation (input) INT_DISABLED :: u32 where "INT_DISABLED \<equiv> 0x10000"

definition ioapicread :: "'d hw \<Rightarrow> u32 \<Rightarrow> ('d machine, u32) io" where
  "ioapicread H reg = bindIO (store32 H IOAPIC_ADDR reg) (\<lambda>_. load32 H (IOAPIC_ADDR + 16))"

definition ioapicwrite :: "'d hw \<Rightarrow> u32 \<Rightarrow> u32 \<Rightarrow> ('d machine, unit) io" where
  "ioapicwrite H reg data = bindIO (store32 H IOAPIC_ADDR reg) (\<lambda>_. store32 H (IOAPIC_ADDR + 16) data)"

definition ioapic_mask :: "'d hw \<Rightarrow> nat \<Rightarrow> ('d machine, unit) io" where
  "ioapic_mask H i =
     bindIO (ioapicwrite H (REG_TABLE + 2 * word_of_nat i) (INT_DISABLED OR irq_vector (word_of_nat i))) (\<lambda>_.
     ioapicwrite H (REG_TABLE + 2 * word_of_nat i + 1) 0)"

definition ioapic_init :: "'d hw \<Rightarrow> ('d machine, unit) io" where
  "ioapic_init H =
     bindIO (ioapicread H REG_VER) (\<lambda>v. let maxintr = unat (drop_bit 16 v AND 0xFF) in
     run_all (map (ioapic_mask H) [0..<maxintr + 1]))"

definition ioapic_enable :: "'d hw \<Rightarrow> nat \<Rightarrow> nat \<Rightarrow> ('d machine, unit) io" where
  "ioapic_enable H irq cpunum =
     bindIO (ioapicwrite H (REG_TABLE + 2 * word_of_nat irq) (irq_vector (word_of_nat irq))) (\<lambda>_.
     ioapicwrite H (REG_TABLE + 2 * word_of_nat irq + 1) (push_bit 24 (word_of_nat cpunum)))"

section \<open>Heap, processors and halt\<close>

definition heap_init :: "'d hw \<Rightarrow> addr \<Rightarrow> ('d machine, addr \<times> addr) io" where
  "heap_init H program_end =
     bindIO (outb H 0x70 0x34) (\<lambda>_. bindIO (inb H 0x71) (\<lambda>lo.
     bindIO (outb H 0x70 0x35) (\<lambda>_. bindIO (inb H 0x71) (\<lambda>hi.
     let lo = ucast lo :: u32; hi = ucast hi + 1 :: u32 in
     ret (ROUNDUP program_end (2 ^ 20), ucast (push_bit 16 (lo OR push_bit 8 hi)))))))"

definition MAX_CPU :: nat where "MAX_CPU = 8"

text \<open>The entries of the configuration table, from \<open>ptr\<close> on: a processor has type 0 and 20 bytes, any
  other entry 8.\<close>

function count_cpus :: "(addr \<Rightarrow> u8) \<Rightarrow> nat \<Rightarrow> nat \<Rightarrow> nat \<Rightarrow> nat result" where
  "count_cpus mem ptr bound n =
     (if ptr < bound then
        if mem (word_of_nat ptr) = 0
        then bindR (guardR Panic (\<not> n + 1 > MAX_CPU)) (\<lambda>_. count_cpus mem (ptr + 20) bound (n + 1))
        else count_cpus mem (ptr + 8) bound n
      else Inr n)"
  by pat_completeness auto
termination
  by (relation "measure (\<lambda>(mem, ptr, bound, n). bound - ptr)") auto

definition mem32 :: "(addr \<Rightarrow> u8) \<Rightarrow> nat \<Rightarrow> nat" where
  "mem32 mem p = unat (mem (word_of_nat p)) + 2 ^ 8 * unat (mem (word_of_nat (p + 1))) +
     2 ^ 16 * unat (mem (word_of_nat (p + 2))) + 2 ^ 24 * unat (mem (word_of_nat (p + 3)))"

definition mem16 :: "(addr \<Rightarrow> u8) \<Rightarrow> nat \<Rightarrow> nat" where
  "mem16 mem p = unat (mem (word_of_nat p)) + 2 ^ 8 * unat (mem (word_of_nat (p + 1)))"

text \<open>The search for the table in the BIOS area.  The results are \<open>__am_lapic\<close> and \<open>__am_ncpu\<close>; the
  fields used of the two structures are at offsets 4 (\<open>conf\<close>), 36 (\<open>lapicaddr\<close>) and 4 (\<open>length\<close>),
  and \<open>conf + 1\<close> is 44 bytes further.\<close>

function lapic_init :: "(addr \<Rightarrow> u8) \<Rightarrow> nat \<Rightarrow> nat \<Rightarrow> (addr \<times> nat) result" where
  "lapic_init mem ncpu st =
     (if st < 0xffffff then
        if mem32 mem st = 0x5f504d5f then
          (let conf = mem32 mem (st + 4) in
           bindR (count_cpus mem (conf + 44) (conf + mem16 mem (conf + 4)) ncpu) (\<lambda>n.
           Inr (word_of_nat (mem32 mem (conf + 36)), n)))
        else lapic_init mem ncpu (st + 1)
      else Inl Panic)"
  by pat_completeness auto
termination
  by (relation "measure (\<lambda>(mem, ncpu, st). 0xffffff - st)") auto

definition am_lapic_init :: "(addr \<Rightarrow> u8) \<Rightarrow> (addr \<times> nat) result" where
  "am_lapic_init mem = lapic_init mem 0 0xf0000"

definition putch :: "'d hw \<Rightarrow> char \<Rightarrow> ('d machine, unit) io" where
  "putch H ch = outb H 0x3f8 (of_char ch)"

text \<open>The other processors are started again on a jump to itself.\<close>

definition stop_the_world :: "'d hw \<Rightarrow> addr \<Rightarrow> nat \<Rightarrow> ('d machine, unit) io" where
  "stop_the_world H l ncpu =
     bindIO (store32 H 0x7000 0x0000feeb) (\<lambda>_.
     run_all (map (\<lambda>cpu. bindIO (cpu_current H l) (\<lambda>c.
       if cpu \<noteq> c then lapic_bootap H l (word_of_nat cpu) 0x7000 else ret ())) [0..<ncpu]))"

definition hex_digits :: string where "hex_digits = ''0123456789abcdef''"

definition halt_fmt :: string where "halt_fmt = ''CPU #$ Halt (40).'' @ [CHR 10]"

definition halt_char :: "'d hw \<Rightarrow> addr \<Rightarrow> u32 \<Rightarrow> char \<Rightarrow> ('d machine, unit) io" where
  "halt_char H l code ch =
     (if ch = CHR ''$'' then bindIO (cpu_current H l) (\<lambda>c m. bindR (arr_get (hex_digits @ [CHR 0x00]) c) (\<lambda>x. putch H x m))
      else if ch = CHR ''0'' \<or> ch = CHR ''4'' then
        putch H (hex_digits ! unat (word_of_int (sint code div 2 ^ ((of_char ch :: nat) - of_char (CHR ''0''))) AND (0xf :: u32)))
      else putch H ch)"

text \<open>\<open>halt\<close>, up to the loop of \<open>hlt\<close> instructions that it ends in.\<close>

definition halt :: "'d hw \<Rightarrow> addr \<Rightarrow> nat \<Rightarrow> u32 \<Rightarrow> ('d machine, unit) io" where
  "halt H l ncpu code =
     bindIO (stop_the_world H l ncpu) (\<lambda>_. bindIO (run_all (map (halt_char H l code) halt_fmt)) (\<lambda>_.
     outw H 0x604 0x2000))"

end
