(* ===== verification/ApicProofs.thy ===== *)
theory ApicProofs
  imports Apic
begin

text \<open>
  Routing of interrupts by the I/O APIC, on any hardware that follows the reference: a register is selected
  and then read or written through a window.
\<close>

record ioapic_t =
  io_sel :: u32
  io_regs :: "u32 \<Rightarrow> u32"

definition drives_ioapic :: "'d hw \<Rightarrow> ('d \<Rightarrow> ioapic_t) \<Rightarrow> bool" where
  "drives_ioapic H view \<longleftrightarrow>
     (\<forall>v d. view (hw_store H IOAPIC_ADDR v d) = (view d)\<lparr>io_sel := v\<rparr>) \<and>
     (\<forall>v d. view (hw_store H (IOAPIC_ADDR + 16) v d) = (view d)\<lparr>io_regs := (io_regs (view d))(io_sel (view d) := v)\<rparr>) \<and>
     (\<forall>d. map_prod id view (hw_load H (IOAPIC_ADDR + 16) d) = (io_regs (view d) (io_sel (view d)), view d))"

abbreviation regs_of :: "('d \<Rightarrow> ioapic_t) \<Rightarrow> 'd machine \<Rightarrow> u32 \<Rightarrow> u32" where
  "regs_of view m \<equiv> io_regs (view (hwst m))"

lemma ioapicwrite_ok:
  assumes "drives_ioapic H view"
  shows "\<exists>m'. ioapicwrite H reg data m = Inr ((), m') \<and> regs_of view m' = (regs_of view m)(reg := data)"
  using assms unfolding ioapicwrite_def bindIO_def store32_def drives_ioapic_def by simp

lemma ioapicread_ok:
  assumes "drives_ioapic H view"
  shows "\<exists>m'. ioapicread H reg m = Inr (regs_of view m reg, m') \<and> regs_of view m' = regs_of view m"
proof -
  let ?d = "hw_store H IOAPIC_ADDR reg (hwst m)"
  obtain v d where vd: "hw_load H (IOAPIC_ADDR + 16) ?d = (v, d)" by fastforce
  have "view ?d = (view (hwst m))\<lparr>io_sel := reg\<rparr>" using assms unfolding drives_ioapic_def by blast
  moreover have "map_prod id view (hw_load H (IOAPIC_ADDR + 16) ?d) = (io_regs (view ?d) (io_sel (view ?d)), view ?d)"
    using assms unfolding drives_ioapic_def by blast
  ultimately show ?thesis using vd unfolding ioapicread_def bindIO_def store32_def load32_def by simp
qed

text \<open>The two registers of an interrupt.\<close>

definition lo_reg :: "nat \<Rightarrow> u32" where "lo_reg i = word_of_nat (16 + 2 * i)"
definition hi_reg :: "nat \<Rightarrow> u32" where "hi_reg i = word_of_nat (17 + 2 * i)"

lemma reg_inj:
  assumes "i < 256" and "j < 256"
  shows "lo_reg i = lo_reg j \<longleftrightarrow> i = j" "hi_reg i = hi_reg j \<longleftrightarrow> i = j" "lo_reg i \<noteq> hi_reg j"
proof -
  have u: "unat (word_of_nat n :: u32) = n" if "n < 1000" for n using that by (intro unat_of_nat_small) simp
  have n: "unat (lo_reg i) = 16 + 2 * i" "unat (lo_reg j) = 16 + 2 * j" "unat (hi_reg i) = 17 + 2 * i" "unat (hi_reg j) = 17 + 2 * j"
    using assms unfolding lo_reg_def hi_reg_def by (simp_all add: u del: of_nat_add of_nat_mult)
  have "unat (lo_reg i) = unat (lo_reg j) \<longleftrightarrow> i = j" "unat (hi_reg i) = unat (hi_reg j) \<longleftrightarrow> i = j" unfolding n by linarith+
  then show "lo_reg i = lo_reg j \<longleftrightarrow> i = j" "hi_reg i = hi_reg j \<longleftrightarrow> i = j" by metis+
  have "unat (lo_reg i) \<noteq> unat (hi_reg j)" unfolding n by presburger
  then show "lo_reg i \<noteq> hi_reg j" by metis
qed

text \<open>An entry with its two registers, and what the two operations store there.\<close>

definition entry_of :: "(u32 \<Rightarrow> u32) \<Rightarrow> nat \<Rightarrow> u32 \<times> u32" where
  "entry_of r i = (r (lo_reg i), r (hi_reg i))"

lemma entry_upd:
  assumes "i < 256" and "j < 256"
  shows "entry_of (r(lo_reg i := a, hi_reg i := b)) j = (if j = i then (a, b) else entry_of r j)"
  using reg_inj [OF assms] reg_inj [OF assms(2,1)] by (auto simp: entry_of_def)

lemma entry_writes:
  assumes "drives_ioapic H view"
  shows "\<exists>m'. bindIO (ioapicwrite H (0x10 + 2 * word_of_nat i) a) (\<lambda>_. ioapicwrite H (0x10 + 2 * word_of_nat i + 1) b) m = Inr ((), m') \<and>
    regs_of view m' = (regs_of view m)(lo_reg i := a, hi_reg i := b)"
proof -
  have r: "0x10 + 2 * word_of_nat i = lo_reg i" "lo_reg i + 1 = hi_reg i" by (simp_all add: lo_reg_def hi_reg_def)
  obtain m1 where m1: "ioapicwrite H (lo_reg i) a m = Inr ((), m1)" "regs_of view m1 = (regs_of view m)(lo_reg i := a)"
    using ioapicwrite_ok [OF assms] by blast
  obtain m2 where "ioapicwrite H (hi_reg i) b m1 = Inr ((), m2)" "regs_of view m2 = (regs_of view m1)(hi_reg i := b)"
    using ioapicwrite_ok [OF assms] by blast
  then show ?thesis using m1 unfolding r by simp
qed

definition masked_entry :: "nat \<Rightarrow> u32 \<times> u32" where
  "masked_entry i = (0x10000 OR irq_vector (word_of_nat i), 0)"

definition routed_entry :: "nat \<Rightarrow> nat \<Rightarrow> u32 \<times> u32" where
  "routed_entry i cpu = (irq_vector (word_of_nat i), push_bit 24 (word_of_nat cpu))"

lemma mask_all_ok:
  assumes "drives_ioapic H view" and "n \<le> 256"
  shows "\<exists>m'. run_all (map (ioapic_mask H) [k..<n]) m = Inr ((), m') \<and>
    (\<forall>i<256. entry_of (regs_of view m') i = (if k \<le> i \<and> i < n then masked_entry i else entry_of (regs_of view m) i))"
proof (induction "n - k" arbitrary: k m)
  case 0
  then show ?case by auto
next
  case (Suc d)
  then have k: "k < n" "d = n - Suc k" "k < 256" using assms(2) by auto
  obtain m1 where m1: "ioapic_mask H k m = Inr ((), m1)"
    "regs_of view m1 = (regs_of view m)(lo_reg k := 0x10000 OR irq_vector (word_of_nat k), hi_reg k := 0)"
    using entry_writes [OF assms(1)] unfolding ioapic_mask_def by blast
  obtain m2 where m2: "run_all (map (ioapic_mask H) [Suc k..<n]) m1 = Inr ((), m2)"
    "\<forall>i<256. entry_of (regs_of view m2) i = (if Suc k \<le> i \<and> i < n then masked_entry i else entry_of (regs_of view m1) i)"
    using Suc.hyps(1) [OF k(2)] by blast
  have "entry_of (regs_of view m2) i = (if k \<le> i \<and> i < n then masked_entry i else entry_of (regs_of view m) i)" if "i < 256" for i
    using m2(2) that k entry_upd [OF k(3) that] unfolding m1(2) by (auto simp: masked_entry_def)
  moreover have "run_all (map (ioapic_mask H) [k..<n]) m = Inr ((), m2)"
    using k(1) m1(1) m2(1) by (simp add: upt_conv_Cons)
  ultimately show ?case by blast
qed

lemma enable_all_ok:
  assumes "drives_ioapic H view" and "\<forall>(i, c)\<in>set es. i < 256" and "distinct (map fst es)"
  shows "\<exists>m'. run_all (map (\<lambda>(i, c). ioapic_enable H i c) es) m = Inr ((), m') \<and>
    (\<forall>i<256. entry_of (regs_of view m') i = (case map_of es i of Some c \<Rightarrow> routed_entry i c | None \<Rightarrow> entry_of (regs_of view m) i))"
  using assms(2,3)
proof (induction es arbitrary: m)
  case (Cons e es)
  obtain k c where e: "e = (k, c)" "k < 256" "k \<notin> fst ` set es" using Cons.prems by (cases e) auto
  obtain m1 where m1: "ioapic_enable H k c m = Inr ((), m1)"
    "regs_of view m1 = (regs_of view m)(lo_reg k := irq_vector (word_of_nat k), hi_reg k := push_bit 24 (word_of_nat c))"
    using entry_writes [OF assms(1)] unfolding ioapic_enable_def by blast
  obtain m2 where m2: "run_all (map (\<lambda>(i, c). ioapic_enable H i c) es) m1 = Inr ((), m2)"
    "\<forall>i<256. entry_of (regs_of view m2) i = (case map_of es i of Some c \<Rightarrow> routed_entry i c | None \<Rightarrow> entry_of (regs_of view m1) i)"
    using Cons.IH [of m1] Cons.prems by auto
  have "map_of es k = None" using e(3) by (simp add: map_of_eq_None_iff)
  then have "entry_of (regs_of view m2) i = (case map_of (e # es) i of Some c \<Rightarrow> routed_entry i c | None \<Rightarrow> entry_of (regs_of view m) i)"
    if "i < 256" for i
    using m2(2) that entry_upd [OF e(2) that] e(1) unfolding m1(2) by (auto simp: routed_entry_def split: option.splits)
  moreover have "run_all (map (\<lambda>(i, c). ioapic_enable H i c) (e # es)) m = Inr ((), m2)" using m1(1) m2(1) by (simp add: e(1))
  ultimately show ?case by blast
qed simp

text \<open>After \<open>__am_ioapic_init\<close> and any calls of \<open>__am_ioapic_enable\<close> for different interrupts, the
  enabled interrupts go to their CPU under the vector \<open>T_IRQ0 + irq\<close>, and every other one that the
  controller has is masked.\<close>

theorem ioapic_routes:
  assumes "drives_ioapic H view" and "\<forall>(i, c)\<in>set es. i < 256" and "distinct (map fst es)"
  shows "\<exists>m'. bindIO (ioapic_init H) (\<lambda>_. run_all (map (\<lambda>(i, c). ioapic_enable H i c) es)) m = Inr ((), m') \<and>
    (\<forall>i\<le>unat (drop_bit 16 (regs_of view m 1) AND 0xFF). entry_of (regs_of view m') i =
      (case map_of es i of Some c \<Rightarrow> routed_entry i c | None \<Rightarrow> masked_entry i))"
proof -
  let ?n = "unat (drop_bit 16 (regs_of view m 1) AND 0xFF)"
  have n: "?n < 256"
  proof -
    have "drop_bit 16 (regs_of view m 1) AND 0xFF = take_bit 8 (drop_bit 16 (regs_of view m 1))"
      by (simp add: take_bit_eq_mask mask_eq_exp_minus_1)
    then show ?thesis using take_bit_nat_less_exp [of 8] by (simp add: unsigned_take_bit_eq)
  qed
  obtain m1 where m1: "ioapicread H 1 m = Inr (regs_of view m 1, m1)" using ioapicread_ok [OF assms(1)] by blast
  obtain m2 where m2: "run_all (map (ioapic_mask H) [0..<?n + 1]) m1 = Inr ((), m2)"
    "\<forall>i<256. entry_of (regs_of view m2) i = (if 0 \<le> i \<and> i < ?n + 1 then masked_entry i else entry_of (regs_of view m1) i)"
    using mask_all_ok [OF assms(1), of "?n + 1" 0 m1] n by auto
  obtain m3 where m3: "run_all (map (\<lambda>(i, c). ioapic_enable H i c) es) m2 = Inr ((), m3)"
    "\<forall>i<256. entry_of (regs_of view m3) i = (case map_of es i of Some c \<Rightarrow> routed_entry i c | None \<Rightarrow> entry_of (regs_of view m2) i)"
    using enable_all_ok [OF assms, of m2] by blast
  have "ioapic_init H m = Inr ((), m2)" using m1 m2(1) unfolding ioapic_init_def Let_def by (simp del: upt_Suc)
  then show ?thesis using m2(2) m3 n by (intro exI [of _ m3]) (auto split: option.splits)
qed

definition ioapic_hw :: "ioapic_t hw" where
  "ioapic_hw = \<lparr>hw_inb = (\<lambda>p d. (0, d)), hw_outb = (\<lambda>p v d. d), hw_outw = (\<lambda>p v d. d), hw_inl = (\<lambda>p d. (0, d)),
     hw_outl = (\<lambda>p v d. d), hw_rdtsc = (\<lambda>d. (0, d)),
     hw_load = (\<lambda>p d. (if p = IOAPIC_ADDR + 16 then io_regs d (io_sel d) else io_sel d, d)),
     hw_store = (\<lambda>p v d. if p = IOAPIC_ADDR then d\<lparr>io_sel := v\<rparr> else d\<lparr>io_regs := (io_regs d)(io_sel d := v)\<rparr>),
     hw_store16 = (\<lambda>p v d. d)\<rparr>"

definition ioapic_machine :: "ioapic_t machine" where
  "ioapic_machine = \<lparr>hwst = \<lparr>io_sel = 0, io_regs = (\<lambda>_. 0x170011)\<rparr>,
     boot_date = \<lparr>rtc_year = 2022, rtc_month = 1, rtc_day = 1, rtc_hour = 0, rtc_minute = 0, rtc_second = 0\<rparr>,
     freq_mhz = 2000, uptsc = 0, display_w = 0, display_h = 0, fb_mem = [], vmem = [], vbuf = [], vbuf_head = 0\<rparr>"

theorem ioapic_routes_witness:
  "\<exists>m'. bindIO (ioapic_init ioapic_hw) (\<lambda>_. run_all (map (\<lambda>(i, c). ioapic_enable ioapic_hw i c) [(1, 0), (4, 2)])) ioapic_machine =
      Inr ((), m') \<and> entry_of (regs_of id m') 1 = (33, 0) \<and> entry_of (regs_of id m') 4 = (36, 0x2000000) \<and>
    entry_of (regs_of id m') 0x17 = (0x10037, 0)"
proof -
  have "drives_ioapic ioapic_hw id" by (simp add: drives_ioapic_def ioapic_hw_def IOAPIC_ADDR_def)
  from ioapic_routes [OF this, of "[(1, 0), (4, 2)]" ioapic_machine] obtain m' where
    m: "bindIO (ioapic_init ioapic_hw) (\<lambda>_. run_all (map (\<lambda>(i, c). ioapic_enable ioapic_hw i c) [(1, 0), (4, 2)])) ioapic_machine = Inr ((), m')"
    and r: "\<And>i. i \<le> 0x17 \<Longrightarrow> entry_of (regs_of id m') i =
      (case map_of [(1, 0), (4, 2)] i of Some c \<Rightarrow> routed_entry i c | None \<Rightarrow> masked_entry i)"
    by (auto simp: ioapic_machine_def)
  show ?thesis using m r [of 1] r [of 4] r [of "0x17"]
    by (intro exI [of _ m']) (simp add: routed_entry_def masked_entry_def irq_vector_def)
qed

end
