(* ===== verification/Ioereg.thy ===== *)
theory Ioereg
  imports Gpu Atadisk Apic
begin

text \<open>
  The device registers of the abstract machine, \<open>ioe_read\<close> and \<open>ioe_write\<close> of
  \<open>am/src/x86/qemu/ioe.c\<close>: the table from register numbers to handlers, and what each handler does to
  the structure that it is given.
\<close>

datatype ioe_buf =
    UART_CONFIG bool
  | UART_TX u8
  | UART_RX u8
  | TIMER_CONFIG bool bool
  | TIMER_RTC rtc
  | TIMER_UPTIME u64
  | INPUT_CONFIG bool
  | INPUT_KEYBRD bool nat
  | GPU_CONFIG bool bool int int nat
  | GPU_STATUS bool
  | GPU_FBDRAW int int "u32 list" int int bool
  | GPU_MEMCPY u32 "u8 list" int
  | GPU_RENDER u32
  | AUDIO_CONFIG bool int
  | DISK_CONFIG bool nat nat
  | DISK_STATUS bool
  | DISK_BLKIO bool "u32 list" u32 u32
  | NET_CONFIG bool

datatype handler =
    Uart_config | Uart_tx | Uart_rx | Timer_config | Timer_rtc | Timer_uptime | Input_config | Input_keybrd
  | Gpu_config | Gpu_fbdraw | Gpu_status | Gpu_memcpy | Gpu_render | Audio_config | Disk_config | Disk_status
  | Disk_blkio | Net_config | Fail

definition lut :: "nat \<Rightarrow> handler result" where
  "lut reg =
     (if reg \<ge> 128 then Inl Out_Of_Bounds
      else case map_of [(1, Uart_config), (2, Uart_tx), (3, Uart_rx), (4, Timer_config), (5, Timer_rtc), (6, Timer_uptime),
          (7, Input_config), (8, Input_keybrd), (9, Gpu_config), (11, Gpu_fbdraw), (10, Gpu_status), (12, Gpu_memcpy),
          (13, Gpu_render), (14, Audio_config), (18, Disk_config), (19, Disk_status), (20, Disk_blkio), (21, Net_config)] reg of
        None \<Rightarrow> Inr Fail | Some h \<Rightarrow> Inr h)"

text \<open>A handler takes the buffer for the structure of its register; any other is undefined.  \<open>fuel\<close> is
  for the renderer.\<close>

definition handle :: "nat \<Rightarrow> 'd hw \<Rightarrow> handler \<Rightarrow> ioe_buf \<Rightarrow> ('d machine, ioe_buf) io" where
  "handle fuel H h buf m = (case (h, buf) of
       (Fail, _) \<Rightarrow> Inl Panic
     | (Uart_config, UART_CONFIG _) \<Rightarrow> Inr (UART_CONFIG True, m)
     | (Uart_tx, UART_TX c) \<Rightarrow> bindIO (uart_tx H c) (\<lambda>_. ret buf) m
     | (Uart_rx, UART_RX _) \<Rightarrow> bindIO (uart_rx H) (\<lambda>c. ret (UART_RX c)) m
     | (Timer_config, TIMER_CONFIG _ _) \<Rightarrow> Inr (TIMER_CONFIG True True, m)
     | (Timer_rtc, TIMER_RTC _) \<Rightarrow> bindIO (timer_rtc H) (\<lambda>t. ret (TIMER_RTC t)) m
     | (Timer_uptime, TIMER_UPTIME _) \<Rightarrow> bindIO (timer_uptime H) (\<lambda>t. ret (TIMER_UPTIME t)) m
     | (Input_config, INPUT_CONFIG _) \<Rightarrow> Inr (INPUT_CONFIG True, m)
     | (Input_keybrd, INPUT_KEYBRD _ _) \<Rightarrow> bindIO (input_keybrd H) (\<lambda>(down, code). ret (INPUT_KEYBRD down code)) m
     | (Gpu_config, GPU_CONFIG _ _ _ _ _) \<Rightarrow>
         (case gpu_config m of (present, w, h, vmemsz) \<Rightarrow> Inr (GPU_CONFIG present False w h vmemsz, m))
     | (Gpu_fbdraw, GPU_FBDRAW x y pixels w h _) \<Rightarrow> bindIO (gpu_fbdraw x y pixels w h) (\<lambda>_. ret buf) m
     | (Gpu_status, GPU_STATUS _) \<Rightarrow> Inr (GPU_STATUS True, m)
     | (Gpu_memcpy, GPU_MEMCPY dest src sz) \<Rightarrow> bindIO (gpu_memcpy dest src sz) (\<lambda>_. ret buf) m
     | (Gpu_render, GPU_RENDER root) \<Rightarrow> bindR (returns (gpu_render fuel root m)) (\<lambda>m. Inr (buf, m))
     | (Audio_config, AUDIO_CONFIG _ n) \<Rightarrow> Inr (AUDIO_CONFIG False n, m)
     | (Disk_config, DISK_CONFIG _ _ _) \<Rightarrow> (case disk_config of (present, sz, cnt) \<Rightarrow> Inr (DISK_CONFIG present sz cnt, m))
     | (Disk_status, DISK_STATUS _) \<Rightarrow> Inr (DISK_STATUS True, m)
     | (Disk_blkio, DISK_BLKIO wr b blkno cnt) \<Rightarrow> bindIO (disk_blkio H wr blkno cnt b) (\<lambda>b. ret (DISK_BLKIO wr b blkno cnt)) m
     | (Net_config, NET_CONFIG _) \<Rightarrow> Inr (NET_CONFIG False, m)
     | _ \<Rightarrow> Inl Undefined_Behaviour)"

definition ioe_read :: "nat \<Rightarrow> 'd hw \<Rightarrow> nat \<Rightarrow> ioe_buf \<Rightarrow> ('d machine, ioe_buf) io" where
  "ioe_read fuel H reg buf m = bindR (lut reg) (\<lambda>h. handle fuel H h buf m)"

definition ioe_write :: "nat \<Rightarrow> 'd hw \<Rightarrow> nat \<Rightarrow> ioe_buf \<Rightarrow> ('d machine, ioe_buf) io" where
  "ioe_write fuel H reg buf m = bindR (lut reg) (\<lambda>h. handle fuel H h buf m)"

definition ioe_init :: "'d hw \<Rightarrow> addr \<Rightarrow> vbe_info \<Rightarrow> u8 list \<Rightarrow> ('d machine, bool) io" where
  "ioe_init H l info fb =
     bindIO (cpu_current H l) (\<lambda>c m. bindR (guardR Panic (\<not> c \<noteq> 0)) (\<lambda>_.
     bindIO (uart_init H) (\<lambda>_. bindIO (timer_init H) (\<lambda>_ m. Inr (True, gpu_init info fb m))) m))"

text \<open>The number of the register that a structure belongs to.\<close>

definition reg_of :: "ioe_buf \<Rightarrow> nat" where
  "reg_of buf = (case buf of UART_CONFIG _ \<Rightarrow> 1 | UART_TX _ \<Rightarrow> 2 | UART_RX _ \<Rightarrow> 3 | TIMER_CONFIG _ _ \<Rightarrow> 4
     | TIMER_RTC _ \<Rightarrow> 5 | TIMER_UPTIME _ \<Rightarrow> 6 | INPUT_CONFIG _ \<Rightarrow> 7 | INPUT_KEYBRD _ _ \<Rightarrow> 8 | GPU_CONFIG _ _ _ _ _ \<Rightarrow> 9
     | GPU_STATUS _ \<Rightarrow> 10 | GPU_FBDRAW _ _ _ _ _ _ \<Rightarrow> 11 | GPU_MEMCPY _ _ _ \<Rightarrow> 12 | GPU_RENDER _ \<Rightarrow> 13 | AUDIO_CONFIG _ _ \<Rightarrow> 14
     | DISK_CONFIG _ _ _ \<Rightarrow> 18 | DISK_STATUS _ \<Rightarrow> 19 | DISK_BLKIO _ _ _ _ \<Rightarrow> 20 | NET_CONFIG _ \<Rightarrow> 21)"

text \<open>Every register with a structure has a handler, and an answer is a structure of the same register.\<close>

lemma ioe_well_typed:
  "(\<exists>h. lut (reg_of buf) = Inr h \<and> h \<noteq> Fail) \<and>
   (case ioe_read fuel H (reg_of buf) buf m of Inl e \<Rightarrow> True | Inr (buf', m') \<Rightarrow> reg_of buf' = reg_of buf)"
proof -
  have "\<exists>h. lut (reg_of buf) = Inr h \<and> h \<noteq> Fail" by (cases buf) (simp_all add: reg_of_def lut_def)
  moreover have "case ioe_read fuel H (reg_of buf) buf m of Inl e \<Rightarrow> True | Inr (buf', m') \<Rightarrow> reg_of buf' = reg_of buf"
    by (cases buf) (auto simp: reg_of_def lut_def ioe_read_def handle_def bindIO_def bindR_def gpu_config_def disk_config_def
        split: sum.splits prod.splits)
  ultimately show ?thesis by blast
qed

lemma ioe_missing: "reg \<in> {0, 15, 16, 17, 22, 23, 24} \<Longrightarrow> ioe_read fuel H reg buf m = Inl Panic"
  by (auto simp: ioe_read_def lut_def handle_def)

text \<open>No key of the keyboard is reported as the left Alt key.\<close>

lemma keylut_LALT: "keylut i \<noteq> AM_KEY_LALT"
proof -
  have "list_all (\<lambda>(i, k). keylut i \<noteq> AM_KEY_LALT) keylut_entries" by code_simp
  moreover have "keylut i \<noteq> AM_KEY_LALT" if "i \<notin> fst ` set keylut_entries"
  proof -
    have "map_of (rev keylut_entries) i = None" using that by (simp add: map_of_eq_None_iff)
    then show ?thesis by (simp add: keylut_def)
  qed
  ultimately show ?thesis by (fastforce simp: list_all_iff)
qed

end
