(* ===== verification/Mpe.thy ===== *)
theory Mpe
  imports Prelude
begin

text \<open>
  The start of the processors, \<open>am/src/x86/qemu/mpe.c\<close>: the boot processor starts the others one by one
  and waits for each at the flag \<open>ap_ready\<close>.  The processors run in parallel, so this is a step relation;
  a step is one \<open>xchg\<close> on the flag, the start of a processor, or the initialisation that the processor
  does of itself (\<open>__am_percpu_init\<close>; the set \<open>inited\<close> records who has done it).
\<close>

datatype boot_pc = Booting nat | Waiting nat | User

datatype ap_pc = Off | Starting | Set_Up | In_User

record mpe =
  boot_pc :: boot_pc
  ap_pc :: "nat \<Rightarrow> ap_pc"
  ap_ready :: int
  inited :: "nat set"

text \<open>\<open>xchg\<close>: the old value, and the state with the new one.\<close>

definition xchg_ready :: "int \<Rightarrow> mpe \<Rightarrow> int \<times> mpe" where
  "xchg_ready v s = (ap_ready s, s\<lparr>ap_ready := v\<rparr>)"

definition mpe_init :: mpe where
  "mpe_init = \<lparr>boot_pc = Booting 1, ap_pc = (\<lambda>_. Off), ap_ready = 0, inited = {}\<rparr>"

inductive mpe_step :: "nat \<Rightarrow> mpe \<Rightarrow> mpe \<Rightarrow> bool" for ncpu where
  boot: "boot_pc s = Booting cpu \<Longrightarrow> cpu < ncpu \<Longrightarrow>
    mpe_step ncpu s (s\<lparr>boot_pc := Waiting cpu, ap_pc := (ap_pc s)(cpu := Starting)\<rparr>)"
| enter: "boot_pc s = Booting cpu \<Longrightarrow> \<not> cpu < ncpu \<Longrightarrow> mpe_step ncpu s (s\<lparr>boot_pc := User\<rparr>)"
| poll: "boot_pc s = Waiting cpu \<Longrightarrow> xchg_ready 0 s = (v, s') \<Longrightarrow>
    mpe_step ncpu s (if v \<noteq> 1 then s' else s'\<lparr>boot_pc := Booting (cpu + 1)\<rparr>)"
| percpu: "ap_pc s cpu = Starting \<Longrightarrow>
    mpe_step ncpu s (s\<lparr>ap_pc := (ap_pc s)(cpu := Set_Up), inited := insert cpu (inited s)\<rparr>)"
| ready: "ap_pc s cpu = Set_Up \<Longrightarrow> xchg_ready 1 s = (v, s') \<Longrightarrow>
    mpe_step ncpu s (s'\<lparr>ap_pc := (ap_pc s')(cpu := In_User)\<rparr>)"

inductive mpe_reachable :: "nat \<Rightarrow> mpe \<Rightarrow> bool" for ncpu where
  start: "mpe_reachable ncpu mpe_init"
| step: "mpe_reachable ncpu s \<Longrightarrow> mpe_step ncpu s s' \<Longrightarrow> mpe_reachable ncpu s'"

inductive_cases mpe_stepE: "mpe_step ncpu s s'"

text \<open>The processors below \<open>k\<close> run, the others are off.\<close>

definition up_to :: "nat \<Rightarrow> (nat \<Rightarrow> ap_pc) \<Rightarrow> bool" where
  "up_to k f \<longleftrightarrow> (\<forall>c. f c = (if 1 \<le> c \<and> c < k then In_User else Off))"

definition mpe_inv :: "nat \<Rightarrow> mpe \<Rightarrow> bool" where
  "mpe_inv ncpu s \<longleftrightarrow> (\<forall>c. ap_pc s c \<in> {Set_Up, In_User} \<longrightarrow> c \<in> inited s) \<and> (case boot_pc s of
       Booting k \<Rightarrow> 1 \<le> k \<and> up_to k (ap_pc s) \<and> ap_ready s = 0
     | Waiting k \<Rightarrow> 1 \<le> k \<and> up_to k ((ap_pc s)(k := Off)) \<and>
         (ap_pc s k \<in> {Starting, Set_Up} \<and> ap_ready s = 0 \<or> ap_pc s k = In_User \<and> ap_ready s = 1)
     | User \<Rightarrow> ap_ready s = 0 \<and> (\<exists>k\<ge>ncpu. up_to k (ap_pc s)))"

lemma up_to_Suc:
  assumes "up_to k (f(k := Off))" and "1 \<le> k" and "f k = In_User"
  shows "up_to (Suc k) f"
  unfolding up_to_def
proof
  fix c
  have "(f(k := Off)) c = (if 1 \<le> c \<and> c < k then In_User else Off)" using assms(1) by (simp add: up_to_def)
  then show "f c = (if 1 \<le> c \<and> c < Suc k then In_User else Off)" using assms(2,3) by (cases "c = k") auto
qed

lemma up_to_not_Starting: "up_to k f \<Longrightarrow> f c \<notin> {Starting, Set_Up}"
  by (simp add: up_to_def)

text \<open>Only the processor the boot processor waits for is being started.\<close>

lemma mpe_inv_Starting:
  assumes "mpe_inv ncpu s" and "ap_pc s c \<in> {Starting, Set_Up}"
  shows "boot_pc s = Waiting c"
proof (cases "boot_pc s")
  case (Booting k)
  then have "up_to k (ap_pc s)" using assms(1) by (simp add: mpe_inv_def)
  then show ?thesis using up_to_not_Starting assms(2) by blast
next
  case (Waiting k)
  then have "up_to k ((ap_pc s)(k := Off))" using assms(1) by (simp add: mpe_inv_def)
  then have "((ap_pc s)(k := Off)) c \<notin> {Starting, Set_Up}" by (rule up_to_not_Starting)
  then show ?thesis using Waiting assms(2) by (simp split: if_splits)
next
  case User
  then obtain k where "up_to k (ap_pc s)" using assms(1) by (auto simp: mpe_inv_def)
  then show ?thesis using up_to_not_Starting assms(2) by blast
qed

lemma mpe_inv_step: "mpe_step ncpu s s' \<Longrightarrow> mpe_inv ncpu s \<Longrightarrow> mpe_inv ncpu s'"
proof (erule mpe_stepE, goal_cases)
  case (1 cpu)
  then have "(ap_pc s)(cpu := Off) = ap_pc s" by (auto simp: mpe_inv_def up_to_def fun_eq_iff)
  then show ?case using 1 by (simp add: mpe_inv_def)
next
  case (2 cpu)
  then have "ncpu \<le> cpu \<and> up_to cpu (ap_pc s)" by (simp add: mpe_inv_def)
  then have "\<exists>k\<ge>ncpu. up_to k (ap_pc s)" by blast
  then show ?case using 2 by (simp add: mpe_inv_def)
next
  case (3 cpu v t)
  then show ?case by (auto simp: mpe_inv_def xchg_ready_def up_to_Suc)
next
  case (4 cpu)
  then have "boot_pc s = Waiting cpu" by (auto dest: mpe_inv_Starting)
  then show ?case using 4 by (auto simp: mpe_inv_def)
next
  case (5 cpu v t)
  then have "boot_pc s = Waiting cpu" by (auto dest: mpe_inv_Starting)
  then show ?case using 5 by (auto simp: mpe_inv_def xchg_ready_def)
qed

lemma mpe_reachable_inv: "mpe_reachable ncpu s \<Longrightarrow> mpe_inv ncpu s"
proof (induction rule: mpe_reachable.induct)
  case start
  then show ?case by (simp add: mpe_inv_def mpe_init_def up_to_def)
qed (rule mpe_inv_step)

text \<open>C24. Whatever the speed of the processors, the boot processor enters the program only when every
  other one has gone through its initialisation, no processor enters it before its own, and at most one
  processor is being started at a time.\<close>

theorem mpe_all_up:
  assumes "mpe_reachable ncpu s"
  shows "(boot_pc s = User \<longrightarrow> (\<forall>c\<in>{1..<ncpu}. ap_pc s c = In_User)) \<and>
    (\<forall>c. ap_pc s c = In_User \<longrightarrow> c \<in> inited s) \<and>
    (\<forall>c d. ap_pc s c \<in> {Starting, Set_Up} \<longrightarrow> ap_pc s d \<in> {Starting, Set_Up} \<longrightarrow> c = d)"
proof -
  note inv = mpe_reachable_inv [OF assms]
  have "ap_pc s c = In_User" if "boot_pc s = User" "c \<in> {1..<ncpu}" for c
    using inv that by (auto simp: mpe_inv_def up_to_def)
  moreover have "c \<in> inited s" if "ap_pc s c = In_User" for c using inv that by (simp add: mpe_inv_def)
  moreover have "c = d" if "ap_pc s c \<in> {Starting, Set_Up}" "ap_pc s d \<in> {Starting, Set_Up}" for c d
    using mpe_inv_Starting [OF inv that(1)] mpe_inv_Starting [OF inv that(2)] by simp
  ultimately show ?thesis by blast
qed

text \<open>Two processors.\<close>

lemma mpe_example: "mpe_reachable 2 \<lparr>boot_pc = User, ap_pc = (\<lambda>_. Off)(1 := In_User), ap_ready = 0, inited = {1}\<rparr>"
proof -
  let ?f = "(\<lambda>_. Off)(1 := In_User)"
  have 1: "mpe_reachable 2 \<lparr>boot_pc = Waiting 1, ap_pc = (\<lambda>_. Off)(1 := Starting), ap_ready = 0, inited = {}\<rparr>"
    using mpe_reachable.step [OF mpe_reachable.start mpe_step.boot [of mpe_init 1 2]] by (simp add: mpe_init_def)
  have i: "mpe_reachable 2 \<lparr>boot_pc = Waiting 1, ap_pc = (\<lambda>_. Off)(1 := Set_Up), ap_ready = 0, inited = {1}\<rparr>"
    using mpe_reachable.step [OF 1 mpe_step.percpu [of _ 1]] by simp
  have 2: "mpe_reachable 2 \<lparr>boot_pc = Waiting 1, ap_pc = ?f, ap_ready = 1, inited = {1}\<rparr>"
    using mpe_reachable.step [OF i mpe_step.ready [of _ 1]] by (simp add: xchg_ready_def)
  have 3: "mpe_reachable 2 \<lparr>boot_pc = Booting 2, ap_pc = ?f, ap_ready = 0, inited = {1}\<rparr>"
    using mpe_reachable.step [OF 2 mpe_step.poll [of _ 1]] by (simp add: xchg_ready_def flip: numeral_2_eq_2)
  show ?thesis using mpe_reachable.step [OF 3 mpe_step.enter [of _ 2]] by simp
qed

theorem mpe_all_up_witness:
  "\<exists>s. mpe_reachable 2 s \<and> boot_pc s = User \<and> ap_pc s 1 = In_User \<and> 1 \<in> inited s"
  using mpe_example mpe_all_up [OF mpe_example]
  by (intro exI [of _ "\<lparr>boot_pc = User, ap_pc = (\<lambda>_. Off)(1 := In_User), ap_ready = 0, inited = {1}\<rparr>"]) auto

end
