(* ===== verification/Maze.thy ===== *)
theory Maze
  imports Prelude "HOL-Library.Multiset"
begin

text \<open>
  The first user program, \<open>user/init.c\<close>: a search through a maze in which every open neighbour is
  explored by a forked child with its own copy of the maze.  The processes run in parallel, so the search
  is a step relation on a multiset of processes; a step runs one process up to its next \<open>fork\<close>,
  \<open>display\<close> or \<open>sleep\<close>.  \<open>fork\<close> is taken to succeed.  A process never comes back from \<open>dfs\<close>,
  so the \<open>exit(0)\<close> behind the call is never reached.
\<close>

section \<open>The maze\<close>

abbreviation (input) DEST :: char where "DEST \<equiv> CHR ''+''"
abbreviation (input) EMPTY :: char where "EMPTY \<equiv> CHR ''.''"

type_synonym maze = "char list list"

definition moves :: "(int \<times> int \<times> char) list" where
  "moves = [(0, 1, CHR ''>''), (1, 0, CHR ''v''), (0, - 1, CHR ''<''), (- 1, 0, CHR ''^'')]"

definition maze_row :: "string \<Rightarrow> char list" where
  "maze_row s = s @ replicate (512 - length s) (CHR 0x00)"

definition maze_map :: maze where
  "maze_map = map maze_row [''#######'', ''#.#.#+#'', ''#.....#'', ''#.....#'', ''#...#.#'', ''#######'', '''']"

definition cell :: "maze \<Rightarrow> int \<Rightarrow> int \<Rightarrow> char result" where
  "cell mp x y = (if 0 \<le> x \<and> 0 \<le> y then bindR (arr_get mp (nat x)) (\<lambda>r. arr_get r (nat y)) else Inl Out_Of_Bounds)"

definition set_cell :: "maze \<Rightarrow> int \<Rightarrow> int \<Rightarrow> char \<Rightarrow> maze result" where
  "set_cell mp x y ch = bindR (cell mp x y) (\<lambda>_. Inr (mp[nat x := (mp ! nat x)[nat y := ch]]))"

section \<open>The search\<close>

datatype search_pc = Enter | Moves nat | Asleep

record searcher =
  s_x :: int
  s_y :: int
  s_map :: maze
  s_pc :: search_pc

text \<open>The process after its step, with its child; and the maze that it displays.\<close>

definition dfs_step :: "searcher \<Rightarrow> (searcher list \<times> maze list) result" where
  "dfs_step p =
     (let x = s_x p; y = s_y p; mp = s_map p in
      case s_pc p of
        Enter \<Rightarrow> bindR (cell mp x y) (\<lambda>c.
          if c = DEST then Inr ([p\<lparr>s_pc := Asleep\<rparr>], [mp]) else Inr ([p\<lparr>s_pc := Moves 0\<rparr>], []))
      | Moves k \<Rightarrow>
          if k < 4 then (case moves ! k of (dx, dy, ch) \<Rightarrow>
            let x1 = x + dx; y1 = y + dy in
            bindR (cell mp x1 y1) (\<lambda>c.
            if c = DEST \<or> c = EMPTY then bindR (set_cell mp x y ch) (\<lambda>mp'.
              Inr ([p\<lparr>s_pc := Moves (k + 1)\<rparr>, \<lparr>s_x = x1, s_y = y1, s_map = mp', s_pc = Enter\<rparr>], []))
            else Inr ([p\<lparr>s_pc := Moves (k + 1)\<rparr>], [])))
          else Inr ([p\<lparr>s_pc := Asleep\<rparr>], [])
      | Asleep \<Rightarrow> Inr ([p], []))"

record search =
  searchers :: "searcher multiset"
  shown :: "maze multiset"

definition dfs_start :: "maze \<Rightarrow> int \<Rightarrow> int \<Rightarrow> search" where
  "dfs_start mp x y = \<lparr>searchers = {#\<lparr>s_x = x, s_y = y, s_map = mp, s_pc = Enter\<rparr>#}, shown = {#}\<rparr>"

definition dfs_test :: search where
  "dfs_test = dfs_start maze_map 1 1"

inductive search_step :: "search \<Rightarrow> search \<Rightarrow> bool" where
  run: "p \<in># searchers s \<Longrightarrow> s_pc p \<noteq> Asleep \<Longrightarrow> dfs_step p = Inr (qs, ms) \<Longrightarrow>
    search_step s \<lparr>searchers = searchers s - {#p#} + mset qs, shown = shown s + mset ms\<rparr>"

section \<open>The output\<close>

text \<open>UTF-8\<close>

definition glyph :: "char \<Rightarrow> u8 list" where
  "glyph c = (if c = EMPTY then [0x20, 0x20, 0x20] else if c = DEST then [0x20, 0xE2, 0x97, 0x8B, 0x20]
     else if c = CHR ''>'' then [0x20, 0xE2, 0x86, 0x92, 0x20] else if c = CHR ''<'' then [0x20, 0xE2, 0x86, 0x90, 0x20]
     else if c = CHR ''^'' then [0x20, 0xE2, 0x86, 0x91, 0x20] else if c = CHR ''v'' then [0x20, 0xE2, 0x86, 0x93, 0x20]
     else concat (replicate 3 [0xE2, 0x96, 0x87]))"

fun display :: "maze \<Rightarrow> u8 list result" where
  "display [] = Inl Out_Of_Bounds"
| "display (r # rs) =
     bindR (guardR Out_Of_Bounds (CHR 0x00 \<in> set r)) (\<lambda>_.
     let s = takeWhile (\<lambda>c. c \<noteq> CHR 0x00) r; out = concat (map glyph s) @ [10] in
     if s = [] then Inr out else bindR (display rs) (\<lambda>rest. Inr (out @ rest)))"

end
