(* ===== verification/MazeProofs.thy ===== *)
theory MazeProofs
  imports Maze
begin

text \<open>
  The search of \<open>user/init.c\<close> shows every simple path to a destination exactly once, however the
  processes are scheduled, and comes to rest.  Each process stands for the paths that it has yet to show;
  a step moves some of them from the process to its child or to the screen.
\<close>

section \<open>The reference\<close>

text \<open>A simple path runs over neighbours, through empty cells, to a destination.\<close>

definition simple_path :: "maze \<Rightarrow> (int \<times> int) list \<Rightarrow> bool" where
  "simple_path mp ps \<longleftrightarrow> ps \<noteq> [] \<and> distinct ps \<and> (\<forall>(x, y)\<in>set (butlast ps). cell mp x y = Inr EMPTY) \<and>
     cell mp (fst (last ps)) (snd (last ps)) = Inr DEST \<and>
     successively (\<lambda>p q. \<exists>(dx, dy, ch)\<in>set moves. q = (fst p + dx, snd p + dy)) ps"

definition arrow :: "int \<times> int \<Rightarrow> int \<times> int \<Rightarrow> char" where
  "arrow p q = (let d = (fst q - fst p, snd q - snd p) in
     if d = (0, 1) then CHR ''>'' else if d = (1, 0) then CHR ''v'' else if d = (0, - 1) then CHR ''<'' else CHR ''^'')"

definition put_cell :: "maze \<Rightarrow> int \<times> int \<Rightarrow> char \<Rightarrow> maze" where
  "put_cell mp p ch = mp[nat (fst p) := (mp ! nat (fst p))[nat (snd p) := ch]]"

text \<open>The maze with an arrow at every cell of the path but the last.\<close>

fun draw_path :: "maze \<Rightarrow> (int \<times> int) list \<Rightarrow> maze" where
  "draw_path mp (p # q # ps) = draw_path (put_cell mp p (arrow p q)) (q # ps)"
| "draw_path mp ps = mp"

definition paths :: "maze \<Rightarrow> int \<Rightarrow> int \<Rightarrow> (int \<times> int) list set" where
  "paths mp x y = {ps. simple_path mp ps \<and> hd ps = (x, y)}"

definition solutions :: "maze \<Rightarrow> int \<Rightarrow> int \<Rightarrow> maze multiset" where
  "solutions mp x y = image_mset (draw_path mp) (mset_set (paths mp x y))"

text \<open>Every neighbour of an empty cell is in the array.\<close>

definition closed_maze :: "maze \<Rightarrow> bool" where
  "closed_maze mp \<longleftrightarrow> (\<forall>x y. cell mp x y = Inr EMPTY \<longrightarrow>
     (\<forall>(dx, dy, ch)\<in>set moves. \<exists>c. cell mp (x + dx) (y + dy) = Inr c))"

definition empties :: "maze \<Rightarrow> nat" where
  "empties mp = length (filter (\<lambda>c. c = EMPTY) (concat mp))"

section \<open>Cells\<close>

lemma cell_Inr:
  "cell mp x y = Inr c \<longleftrightarrow> 0 \<le> x \<and> 0 \<le> y \<and> nat x < length mp \<and> nat y < length (mp ! nat x) \<and> c = mp ! nat x ! nat y"
  by (auto simp: cell_def bindR_Inr_iff arr_get_Inr)

lemma set_cell_ok: "cell mp x y = Inr c \<Longrightarrow> set_cell mp x y ch = Inr (put_cell mp (x, y) ch)"
  by (simp add: set_cell_def put_cell_def)

lemma cell_put:
  assumes "cell mp x y = Inr c"
  shows "cell (put_cell mp (x, y) ch) u v = (if (u, v) = (x, y) then Inr ch else cell mp u v)"
proof -
  have "cell (put_cell mp (x, y) ch) u v = Inr d \<longleftrightarrow> (if (u, v) = (x, y) then Inr ch else cell mp u v) = Inr d" for d
    using assms by (auto simp: cell_Inr put_cell_def nth_list_update)
  moreover have "cell m u v = Inl e \<Longrightarrow> e = Out_Of_Bounds" for m e
    by (auto simp: cell_def arr_get_def bindR_def split: if_splits sum.splits)
  ultimately show ?thesis by (metis (full_types) sum.exhaust)
qed

lemma moves_neq: "(dx, dy, ch) \<in> set moves \<Longrightarrow> ch \<noteq> EMPTY \<and> ch \<noteq> DEST \<and> (x + dx, y + dy) \<noteq> (x, y)"
  by (auto simp: moves_def)

lemma arrow_moves: "(dx, dy, ch) \<in> set moves \<Longrightarrow> arrow (x, y) (x + dx, y + dy) = ch"
  by (auto simp: moves_def arrow_def)

lemma closed_put:
  assumes "closed_maze mp" and "cell mp x y = Inr c" and "ch \<noteq> EMPTY"
  shows "closed_maze (put_cell mp (x, y) ch)"
  unfolding closed_maze_def
proof (intro allI impI ballI, clarify)
  fix u v dx dy k
  assume "cell (put_cell mp (x, y) ch) u v = Inr EMPTY" and m: "(dx, dy, k) \<in> set moves"
  then have "cell mp u v = Inr EMPTY" using assms(3) by (simp add: cell_put [OF assms(2)] split: if_splits)
  then obtain d where "cell mp (u + dx) (v + dy) = Inr d" using assms(1) m unfolding closed_maze_def by fastforce
  then show "\<exists>c. cell (put_cell mp (x, y) ch) (u + dx) (v + dy) = Inr c" by (simp add: cell_put [OF assms(2)])
qed

lemma count_list_update:
  "i < length xs \<Longrightarrow> xs ! i = a \<Longrightarrow> b \<noteq> a \<Longrightarrow>
     Suc (length (filter (\<lambda>c. c = a) (xs[i := b]))) = length (filter (\<lambda>c. c = a) xs)"
  by (induction xs arbitrary: i) (auto simp: nth_Cons split: nat.splits)

lemma empties_put:
  assumes "cell mp x y = Inr EMPTY" and "ch \<noteq> EMPTY"
  shows "Suc (empties (put_cell mp (x, y) ch)) = empties mp"
proof -
  have c: "nat x < length mp" "nat y < length (mp ! nat x)" "mp ! nat x ! nat y = EMPTY" using assms(1) by (simp_all add: cell_Inr)
  have "length (filter (\<lambda>c. c = EMPTY) (concat (xs[i := r]))) + length (filter (\<lambda>c. c = EMPTY) (xs ! i)) =
      length (filter (\<lambda>c. c = EMPTY) (concat xs)) + length (filter (\<lambda>c. c = EMPTY) r)" if "i < length xs" for i r and xs :: maze
    using that by (induction xs arbitrary: i) (auto simp: nth_Cons split: nat.splits)
  note u = this [OF c(1), of "(mp ! nat x)[nat y := ch]"]
  show ?thesis using u count_list_update [OF c(2,3) assms(2)] by (simp add: empties_def put_cell_def)
qed

section \<open>Paths from a cell\<close>

lemma paths_DEST:
  assumes "cell mp x y = Inr DEST"
  shows "paths mp x y = {[(x, y)]}"
proof -
  have "ps = [(x, y)]" if "simple_path mp ps" "hd ps = (x, y)" for ps
  proof (cases "butlast ps")
    case Nil
    then show ?thesis using that by (cases ps) (auto simp: simple_path_def split: if_splits)
  next
    case (Cons q qs)
    then have "q = (x, y)" using that by (cases ps) (auto split: if_splits)
    then have "cell mp x y = Inr EMPTY" using Cons that by (auto simp: simple_path_def)
    then show ?thesis using assms by simp
  qed
  moreover have "simple_path mp [(x, y)]" using assms by (simp add: simple_path_def)
  ultimately have "ps \<in> paths mp x y \<longleftrightarrow> ps = [(x, y)]" for ps
    unfolding paths_def by (metis (mono_tags) list.sel(1) mem_Collect_eq)
  then show ?thesis by blast
qed

lemma paths_none: "cell mp x y \<noteq> Inr EMPTY \<Longrightarrow> cell mp x y \<noteq> Inr DEST \<Longrightarrow> paths mp x y = {}"
  unfolding paths_def simple_path_def by (rule ccontr) (auto simp: neq_Nil_conv split: if_splits)

lemma simple_path_Cons:
  assumes "cell mp x y = Inr EMPTY" and "ch \<noteq> EMPTY" and "ch \<noteq> DEST"
  shows "simple_path mp ((x, y) # qs) \<longleftrightarrow> qs \<noteq> [] \<and> (\<exists>(dx, dy, k)\<in>set moves. hd qs = (x + dx, y + dy)) \<and>
    simple_path (put_cell mp (x, y) ch) qs"
proof (cases "qs = []")
  case True
  then show ?thesis using assms(1) by (simp add: simple_path_def)
next
  case False
  note c = cell_put [OF assms(1), of ch]
  have l: "last qs \<noteq> (x, y) \<and> cell mp (fst (last qs)) (snd (last qs)) = Inr DEST \<longleftrightarrow>
      cell (put_cell mp (x, y) ch) (fst (last qs)) (snd (last qs)) = Inr DEST"
    using assms by (auto simp: c prod_eq_iff)
  have b: "(x, y) \<notin> set (butlast qs) \<and> (\<forall>(u, v)\<in>set (butlast qs). cell mp u v = Inr EMPTY) \<longleftrightarrow>
      (\<forall>(u, v)\<in>set (butlast qs). cell (put_cell mp (x, y) ch) u v = Inr EMPTY)"
    using assms by (auto simp: c split: if_splits)
  have "(x, y) \<notin> set qs \<longleftrightarrow> last qs \<noteq> (x, y) \<and> (x, y) \<notin> set (butlast qs)"
    using append_butlast_last_id [OF False] by (metis in_set_conv_decomp insert_iff list.set(2) rotate1.simps(2) set_rotate1)
  moreover have "simple_path mp ((x, y) # qs) \<longleftrightarrow> (x, y) \<notin> set qs \<and> distinct qs \<and>
      (\<forall>(u, v)\<in>set (butlast qs). cell mp u v = Inr EMPTY) \<and> cell mp (fst (last qs)) (snd (last qs)) = Inr DEST \<and>
      (\<exists>(dx, dy, k)\<in>set moves. hd qs = (x + dx, y + dy)) \<and>
      successively (\<lambda>p q. \<exists>(dx, dy, ch)\<in>set moves. q = (fst p + dx, snd p + dy)) qs"
    using False assms(1) by (simp add: simple_path_def successively_Cons)
  ultimately show ?thesis unfolding simple_path_def [of "put_cell mp (x, y) ch"] l [symmetric] b [symmetric]
    using False by blast
qed

definition branch :: "maze \<Rightarrow> int \<Rightarrow> int \<Rightarrow> nat \<Rightarrow> maze multiset" where
  "branch mp x y k = (case moves ! k of (dx, dy, ch) \<Rightarrow> solutions (put_cell mp (x, y) ch) (x + dx) (y + dy))"

definition ahead :: "maze \<Rightarrow> int \<Rightarrow> int \<Rightarrow> nat \<Rightarrow> (int \<times> int) list set" where
  "ahead mp x y k = (case moves ! k of (dx, dy, ch) \<Rightarrow> paths (put_cell mp (x, y) ch) (x + dx) (y + dy))"

lemma moves_nth: "k < 4 \<Longrightarrow> moves ! k \<in> set moves"
  by (rule nth_mem) (simp add: moves_def)

lemma set_moves: "(\<exists>m\<in>set moves. P m) \<longleftrightarrow> (\<exists>k<4. P (moves ! k))"
  by (simp add: moves_def numeral_eq_Suc Ex_less_Suc2)

lemma paths_EMPTY:
  assumes "cell mp x y = Inr EMPTY"
  shows "paths mp x y = (\<Union>k<4. Cons (x, y) ` ahead mp x y k)"
proof (rule set_eqI)
  fix ps
  show "ps \<in> paths mp x y \<longleftrightarrow> ps \<in> (\<Union>k<4. Cons (x, y) ` ahead mp x y k)"
  proof (cases "\<exists>qs. ps = (x, y) # qs")
    case True
    then obtain qs where ps: "ps = (x, y) # qs" by blast
    have "ps \<in> paths mp x y \<longleftrightarrow> (\<exists>(dx, dy, ch)\<in>set moves. hd qs = (x + dx, y + dy) \<and> simple_path mp ps)"
      using simple_path_Cons [OF assms, of "CHR ''#''" qs] unfolding paths_def ps by (simp add: split_beta) blast
    also have "\<dots> \<longleftrightarrow> (\<exists>(dx, dy, ch)\<in>set moves. qs \<in> paths (put_cell mp (x, y) ch) (x + dx) (y + dy))"
    proof (rule bex_cong [OF refl], clarify)
      fix dx dy ch
      assume "(dx, dy, ch) \<in> set moves"
      then show "hd qs = (x + dx, y + dy) \<and> simple_path mp ps \<longleftrightarrow> qs \<in> paths (put_cell mp (x, y) ch) (x + dx) (y + dy)"
        using simple_path_Cons [OF assms, of ch qs] moves_neq [of dx dy ch]
        by (auto simp: paths_def ps simple_path_def)
    qed
    also have "\<dots> \<longleftrightarrow> (\<exists>k<4. qs \<in> ahead mp x y k)" by (simp add: set_moves ahead_def split: prod.splits)
    finally show ?thesis by (auto simp: ps)
  next
    case False
    then show ?thesis by (auto simp: paths_def simple_path_def neq_Nil_conv)
  qed
qed

lemma ahead_disjoint:
  assumes "j < 4" "k < 4" "j \<noteq> k"
  shows "ahead mp x y j \<inter> ahead mp x y k = {}"
proof -
  have "j \<in> {0, 1, 2, 3}" "k \<in> {0, 1, 2, 3}" using assms by auto
  then show ?thesis using assms(3) by (auto simp: ahead_def moves_def paths_def)
qed

lemma finite_paths: "finite (paths mp x y)"
proof (induction "empties mp" arbitrary: mp x y rule: less_induct)
  case less
  have "finite (ahead mp x y k)" if "k < 4" "cell mp x y = Inr EMPTY" for k
  proof -
    obtain dx dy ch where m: "moves ! k = (dx, dy, ch)" by (metis prod.exhaust)
    have "ch \<noteq> EMPTY" using moves_nth [OF that(1)] m moves_neq by metis
    then have "empties (put_cell mp (x, y) ch) < empties mp" using empties_put [OF that(2)] by (metis lessI)
    then have "finite (paths (put_cell mp (x, y) ch) (x + dx) (y + dy))" by (rule less)
    then show ?thesis by (simp add: ahead_def m)
  qed
  then have "cell mp x y = Inr EMPTY \<Longrightarrow> ?case" by (simp add: paths_EMPTY)
  then show ?case using paths_none [of mp x y] paths_DEST [of mp x y] by fastforce
qed

lemma finite_ahead: "finite (ahead mp x y k)"
  by (simp add: ahead_def finite_paths split: prod.splits)

text \<open>The first \<open>n\<close> moves.\<close>

lemma ahead_upto:
  "n \<le> 4 \<Longrightarrow> mset_set (\<Union>k<n. Cons p ` ahead mp x y k) = (\<Sum>k<n. mset_set (Cons p ` ahead mp x y k))"
proof (induction n)
  case (Suc n)
  let ?U = "\<Union>k<n. Cons p ` ahead mp x y k" and ?N = "Cons p ` ahead mp x y n"
  have "ahead mp x y k \<inter> ahead mp x y n = {}" if "k < n" for k
    using Suc.prems that by (intro ahead_disjoint) auto
  then have "?U \<inter> ?N = {}" by (auto simp: disjoint_iff)
  then have "mset_set (?U \<union> ?N) = mset_set ?U + mset_set ?N" by (simp add: mset_set_Union finite_ahead)
  moreover have "(\<Union>k<Suc n. Cons p ` ahead mp x y k) = ?U \<union> ?N" by (auto simp: lessThan_Suc)
  ultimately show ?case using Suc by simp
qed simp

lemma image_mset_Sum: "image_mset f (\<Sum>i\<in>I. A i) = (\<Sum>i\<in>I. image_mset f (A i))"
  by (induction I rule: infinite_finite_induct) simp_all

lemma solutions_EMPTY:
  assumes "cell mp x y = Inr EMPTY"
  shows "solutions mp x y = (\<Sum>k\<in>{0..<4}. branch mp x y k)"
proof -
  have "mset_set (paths mp x y) = (\<Sum>k\<in>{..<4}. mset_set (Cons (x, y) ` ahead mp x y k))"
    unfolding paths_EMPTY [OF assms] by (rule ahead_upto) simp
  then have "solutions mp x y = (\<Sum>k\<in>{..<4}. image_mset (draw_path mp) (mset_set (Cons (x, y) ` ahead mp x y k)))"
    unfolding solutions_def by (simp only: image_mset_Sum)
  also have "\<dots> = (\<Sum>k\<in>{..<4}. branch mp x y k)"
  proof (rule sum.cong [OF refl])
    fix k :: nat
    assume k: "k \<in> {..<4}"
    obtain dx dy ch where m: "moves ! k = (dx, dy, ch)" by (metis prod.exhaust)
    then have ch: "arrow (x, y) (x + dx, y + dy) = ch" using moves_nth [of k] k arrow_moves by fastforce
    have "draw_path mp ((x, y) # qs) = draw_path (put_cell mp (x, y) ch) qs" if "qs \<in> ahead mp x y k" for qs
    proof -
      from that have "qs \<noteq> []" "hd qs = (x + dx, y + dy)" by (auto simp: ahead_def m paths_def simple_path_def)
      then show ?thesis by (cases qs) (simp_all add: ch)
    qed
    then have "image_mset (draw_path mp \<circ> Cons (x, y)) (mset_set (ahead mp x y k)) =
        image_mset (draw_path (put_cell mp (x, y) ch)) (mset_set (ahead mp x y k))"
      by (intro image_mset_cong) (simp add: finite_ahead)
    moreover have "mset_set (Cons (x, y) ` ahead mp x y k) = image_mset (Cons (x, y)) (mset_set (ahead mp x y k))"
      by (rule image_mset_mset_set [symmetric]) simp
    ultimately show "image_mset (draw_path mp) (mset_set (Cons (x, y) ` ahead mp x y k)) = branch mp x y k"
      by (simp add: branch_def ahead_def m solutions_def multiset.map_comp)
  qed
  finally show ?thesis by (simp add: atLeast0LessThan)
qed

lemma solutions_DEST: "cell mp x y = Inr DEST \<Longrightarrow> solutions mp x y = {#mp#}"
  by (simp add: solutions_def paths_DEST)

lemma solutions_none: "cell mp x y \<noteq> Inr EMPTY \<Longrightarrow> cell mp x y \<noteq> Inr DEST \<Longrightarrow> solutions mp x y = {#}"
  by (simp add: solutions_def paths_none)

section \<open>One process\<close>

definition searcher_ok :: "searcher \<Rightarrow> bool" where
  "searcher_ok p \<longleftrightarrow> closed_maze (s_map p) \<and>
     (case s_pc p of Enter \<Rightarrow> cell (s_map p) (s_x p) (s_y p) \<in> {Inr EMPTY, Inr DEST}
      | Moves k \<Rightarrow> cell (s_map p) (s_x p) (s_y p) = Inr EMPTY | Asleep \<Rightarrow> True)"

text \<open>What the process and its descendants have yet to show, and a bound for their steps.\<close>

definition pending :: "searcher \<Rightarrow> maze multiset" where
  "pending p = (case s_pc p of Enter \<Rightarrow> solutions (s_map p) (s_x p) (s_y p)
     | Moves k \<Rightarrow> (\<Sum>j\<in>{k..<4}. branch (s_map p) (s_x p) (s_y p) j) | Asleep \<Rightarrow> {#})"

primrec budget :: "nat \<Rightarrow> nat" where
  "budget 0 = 1"
| "budget (Suc n) = 6 + 4 * budget n"

definition work :: "searcher \<Rightarrow> nat" where
  "work p = (let n = empties (s_map p) in case s_pc p of Enter \<Rightarrow> budget n
     | Moves k \<Rightarrow> (4 - k) * (1 + budget (n - 1)) + 1 | Asleep \<Rightarrow> 0)"

lemma budget_pos: "0 < budget n"
  by (cases n) simp_all

lemma empties_Suc: "cell mp x y = Inr EMPTY \<Longrightarrow> \<exists>n. empties mp = Suc n"
  by (rule exI [of _ "empties (put_cell mp (x, y) (CHR ''#''))"]) (simp add: empties_put)

lemma dfs_step_Enter:
  assumes "searcher_ok p" and "s_pc p = Enter"
  shows "\<exists>qs ms. dfs_step p = Inr (qs, ms) \<and> (\<forall>q\<in>set qs. searcher_ok q) \<and>
    pending p = mset ms + sum_list (map pending qs) \<and> sum_list (map work qs) < work p"
proof (cases "cell (s_map p) (s_x p) (s_y p) = Inr DEST")
  case True
  then show ?thesis using assms
    by (simp add: dfs_step_def searcher_ok_def pending_def solutions_DEST work_def budget_pos Let_def)
next
  case False
  then have e: "cell (s_map p) (s_x p) (s_y p) = Inr EMPTY" using assms by (simp add: searcher_ok_def)
  then obtain n where "empties (s_map p) = Suc n" using empties_Suc by blast
  then show ?thesis using assms e
    by (simp add: dfs_step_def searcher_ok_def pending_def solutions_EMPTY work_def Let_def)
qed

lemma dfs_step_Moves:
  assumes ok: "searcher_ok p" and pc: "s_pc p = Moves k"
  shows "\<exists>qs ms. dfs_step p = Inr (qs, ms) \<and> (\<forall>q\<in>set qs. searcher_ok q) \<and>
    pending p = mset ms + sum_list (map pending qs) \<and> sum_list (map work qs) < work p"
proof (cases "k < 4")
  case False
  then show ?thesis using assms by (simp add: dfs_step_def searcher_ok_def pending_def work_def Let_def)
next
  case True
  let ?mp = "s_map p" and ?x = "s_x p" and ?y = "s_y p"
  obtain dx dy ch where m: "moves ! k = (dx, dy, ch)" by (metis prod.exhaust)
  then have mm: "(dx, dy, ch) \<in> set moves" using moves_nth [OF True] by simp
  have e: "cell ?mp ?x ?y = Inr EMPTY" and cl: "closed_maze ?mp" using ok pc by (simp_all add: searcher_ok_def)
  let ?q = "\<lparr>s_x = ?x + dx, s_y = ?y + dy, s_map = put_cell ?mp (?x, ?y) ch, s_pc = Enter\<rparr>"
  obtain n where n: "empties ?mp = Suc n" using empties_Suc [OF e] by blast
  obtain c where c: "cell ?mp (?x + dx) (?y + dy) = Inr c" using cl e mm unfolding closed_maze_def by fastforce
  have ch: "ch \<noteq> EMPTY" "(?x + dx, ?y + dy) \<noteq> (?x, ?y)" using moves_neq [OF mm] by auto
  then have c': "cell (put_cell ?mp (?x, ?y) ch) (?x + dx) (?y + dy) = Inr c" using c by (auto simp: cell_put [OF e])
  have p: "pending p = branch ?mp ?x ?y k + pending (p\<lparr>s_pc := Moves (Suc k)\<rparr>)"
    using True pc by (simp add: pending_def sum.atLeast_Suc_lessThan)
  have ok': "searcher_ok (p\<lparr>s_pc := Moves (Suc k)\<rparr>)" using ok pc by (simp add: searcher_ok_def)
  have "4 - k = Suc (3 - k)" using True by simp
  then obtain j where j: "4 - k = Suc j" "3 - k = j" by blast
  have w: "work (p\<lparr>s_pc := Moves (Suc k)\<rparr>) + budget n < work p" using pc n j by (simp add: work_def Let_def)
  show ?thesis
  proof (cases "c = DEST \<or> c = EMPTY")
    case True
    then have "dfs_step p = Inr ([p\<lparr>s_pc := Moves (Suc k)\<rparr>, ?q], [])"
      using pc \<open>k < 4\<close> by (simp add: dfs_step_def Let_def m c set_cell_ok [OF e])
    moreover have "searcher_ok ?q" using True closed_put [OF cl e ch(1)] c' by (auto simp: searcher_ok_def)
    moreover have "pending ?q = branch ?mp ?x ?y k" by (simp add: pending_def branch_def m)
    moreover have "work ?q = budget n" using empties_put [OF e ch(1)] n by (simp add: work_def)
    ultimately show ?thesis using p ok' w by simp
  next
    case False
    then have "branch ?mp ?x ?y k = {#}" using c' by (simp add: branch_def m solutions_none)
    moreover have "dfs_step p = Inr ([p\<lparr>s_pc := Moves (Suc k)\<rparr>], [])"
      using False pc \<open>k < 4\<close> by (simp add: dfs_step_def Let_def m c)
    ultimately show ?thesis using p ok' w by simp
  qed
qed

lemma dfs_step_ok:
  assumes "searcher_ok p" and "s_pc p \<noteq> Asleep"
  shows "\<exists>qs ms. dfs_step p = Inr (qs, ms) \<and> (\<forall>q\<in>set qs. searcher_ok q) \<and>
    pending p = mset ms + sum_list (map pending qs) \<and> sum_list (map work qs) < work p"
  using assms dfs_step_Enter dfs_step_Moves by (cases "s_pc p") blast+

section \<open>All processes\<close>

definition search_inv :: "maze \<Rightarrow> int \<Rightarrow> int \<Rightarrow> nat \<Rightarrow> search \<Rightarrow> bool" where
  "search_inv mp x y n s \<longleftrightarrow> (\<forall>p\<in>#searchers s. searcher_ok p) \<and>
     shown s + \<Sum>\<^sub># (image_mset pending (searchers s)) = solutions mp x y \<and>
     n + \<Sum>\<^sub># (image_mset work (searchers s)) \<le> budget (empties mp)"

lemma search_inv_start:
  "closed_maze mp \<Longrightarrow> cell mp x y = Inr EMPTY \<Longrightarrow> search_inv mp x y 0 (dfs_start mp x y)"
  by (simp add: search_inv_def dfs_start_def searcher_ok_def pending_def work_def)

lemma search_inv_step:
  assumes "search_inv mp x y n s" and "search_step s s'"
  shows "search_inv mp x y (Suc n) s'"
proof -
  obtain p qs ms where 1: "s' = \<lparr>searchers = searchers s - {#p#} + mset qs, shown = shown s + mset ms\<rparr>"
    "p \<in># searchers s" "s_pc p \<noteq> Asleep" "dfs_step p = Inr (qs, ms)"
    using assms(2) by (cases rule: search_step.cases) blast
  then obtain P where P: "searchers s = add_mset p P" by (meson multi_member_split)
  note i = assms(1) [unfolded search_inv_def P]
  obtain qs' ms' where q: "dfs_step p = Inr (qs', ms')" "\<forall>q\<in>set qs'. searcher_ok q"
    "pending p = mset ms' + sum_list (map pending qs')" "sum_list (map work qs') < work p"
    using dfs_step_ok [of p] i 1 by auto
  then have eq: "qs' = qs" "ms' = ms" using 1 by simp_all
  show ?thesis using i q 1 P unfolding eq search_inv_def by (auto simp: sum_mset_sum_list ac_simps simp flip: mset_map)
qed

lemma search_inv_run:
  assumes "closed_maze mp" and "cell mp x y = Inr EMPTY"
  shows "(search_step ^^ n) (dfs_start mp x y) s \<Longrightarrow> search_inv mp x y n s"
  by (induction n arbitrary: s) (auto simp: search_inv_start assms intro: search_inv_step)

lemma search_can_step:
  assumes "search_inv mp x y n s" and "p \<in># searchers s" and "s_pc p \<noteq> Asleep"
  shows "\<exists>s'. search_step s s'"
  using dfs_step_ok [of p] assms search_step.run [of p s] unfolding search_inv_def by blast

lemma search_at_rest:
  assumes "search_inv mp x y n s" and "\<nexists>s'. search_step s s'"
  shows "shown s = solutions mp x y"
proof -
  have "pending p = {#}" if "p \<in># searchers s" for p
  proof -
    have "s_pc p = Asleep" using search_can_step [OF assms(1) that] assms(2) by blast
    then show ?thesis by (simp add: pending_def)
  qed
  then have z: "\<Sum>\<^sub># (image_mset pending (searchers s)) = {#}" by simp
  show ?thesis using assms(1) unfolding search_inv_def z by simp
qed

lemma search_comes_to_rest:
  assumes "closed_maze mp" and "cell mp x y = Inr EMPTY"
  shows "\<exists>n s. (search_step ^^ n) (dfs_start mp x y) s \<and> (\<nexists>s'. search_step s s')"
proof (rule ccontr)
  assume no: "\<not> ?thesis"
  have "\<exists>s. (search_step ^^ n) (dfs_start mp x y) s" for n
    by (induction n) (use no in \<open>auto intro: relcomppI\<close>, blast)
  then obtain s where "(search_step ^^ Suc (budget (empties mp))) (dfs_start mp x y) s" by blast
  then show False using search_inv_run [OF assms] by (fastforce simp: search_inv_def)
qed

section \<open>The maze of the program\<close>

lemma maze_map_cell:
  assumes "cell maze_map x y = Inr EMPTY"
  shows "x \<in> {1..4} \<and> y \<in> {1..5}"
proof -
  have i: "0 \<le> x" "0 \<le> y" "nat x < 7" using assms by (simp_all add: cell_Inr maze_map_def)
  have "nat x \<in> {0, 1, 2, 3, 4, 5, 6}" using i(3) by auto
  then show ?thesis using assms i(1,2)
    by (auto simp: cell_Inr maze_map_def maze_row_def nth_append nth_Cons' split: if_splits)
qed

lemma maze_map_closed: "closed_maze maze_map"
  unfolding closed_maze_def
proof (intro allI impI ballI, clarify)
  fix x y dx dy ch
  assume e: "cell maze_map x y = Inr EMPTY" and m: "(dx, dy, ch) \<in> set moves"
  have "0 \<le> x + dx" "nat (x + dx) < 7" "0 \<le> y + dy" "nat (y + dy) < 512"
    using maze_map_cell [OF e] m by (auto simp: moves_def)
  moreover have "length r = 512" if "r \<in> set maze_map" for r
    using that by (auto simp: maze_map_def maze_row_def)
  moreover have "length maze_map = 7" by (simp add: maze_map_def)
  ultimately show "\<exists>c. cell maze_map (x + dx) (y + dy) = Inr c"
    by (simp add: cell_Inr)
qed

lemma maze_map_start: "cell maze_map 1 1 = Inr EMPTY"
  by (simp add: cell_Inr maze_map_def maze_row_def)

text \<open>C8. However the processes of the search are scheduled, none of them leaves the maze, the number of
  steps is bounded, and when nothing is left to do, every simple path from the start to a destination has
  been shown exactly once.\<close>

theorem maze_search_correct:
  assumes "closed_maze mp" and "cell mp x y = Inr EMPTY"
    and "(search_step ^^ n) (dfs_start mp x y) s"
  shows "(\<forall>p\<in>#searchers s. s_pc p \<noteq> Asleep \<longrightarrow> (\<exists>r. dfs_step p = Inr r)) \<and> n \<le> budget (empties mp) \<and>
    ((\<nexists>s'. search_step s s') \<longrightarrow> shown s = image_mset (draw_path mp) (mset_set {ps. simple_path mp ps \<and> hd ps = (x, y)}))"
proof -
  note inv = search_inv_run [OF assms]
  have "\<exists>r. dfs_step p = Inr r" if "p \<in># searchers s" "s_pc p \<noteq> Asleep" for p
    using dfs_step_ok [OF _ that(2)] inv that(1) by (auto simp: search_inv_def)
  moreover have "n \<le> budget (empties mp)" using inv by (simp add: search_inv_def)
  ultimately show ?thesis using search_at_rest [OF inv] by (auto simp: solutions_def paths_def)
qed

text \<open>The maze of the program.\<close>

theorem maze_search_correct_witness:
  "\<exists>n s. (search_step ^^ n) dfs_test s \<and>
    shown s = image_mset (draw_path maze_map) (mset_set {ps. simple_path maze_map ps \<and> hd ps = (1, 1)})"
proof -
  obtain n s where s: "(search_step ^^ n) (dfs_start maze_map 1 1) s" "\<nexists>s'. search_step s s'"
    using search_comes_to_rest [OF maze_map_closed maze_map_start] by blast
  then show ?thesis using maze_search_correct [OF maze_map_closed maze_map_start s(1)] unfolding dfs_test_def by blast
qed

end
