(* ===== verification/Decimal.thy ===== *)
theory Decimal
  imports Main "HOL-Library.Char_ord"
begin

text \<open>Decimal digits: \<open>isdigit\<close>, and what \<open>printf\<close> writes for \<open>%d\<close>, for the programs that run on a C library.\<close>

definition isdigit :: "char \<Rightarrow> bool" where
  "isdigit c \<longleftrightarrow> CHR ''0'' \<le> c \<and> c \<le> CHR ''9''"

fun show_nat :: "nat \<Rightarrow> string" where
  "show_nat n = (if n < 10 then [char_of (48 + n)] else show_nat (n div 10) @ [char_of (48 + n mod 10)])"

declare show_nat.simps [simp del]

lemma isdigit_digit: "d < 10 \<Longrightarrow> isdigit (char_of (48 + d :: nat)) \<and> (of_char (char_of (48 + d :: nat) :: char) :: int) = 48 + int d"
proof -
  assume "d < 10"
  then have "d \<in> {0, 1, 2, 3, 4, 5, 6, 7, 8, 9}" by auto
  moreover have "(of_char c :: int) = int (of_char c)" for c by (rule of_nat_of_char [symmetric])
  ultimately show ?thesis by (auto simp: isdigit_def less_eq_char_def)
qed

lemma show_nat_digits: "\<forall>c\<in>set (show_nat n). isdigit c"
proof (induction n rule: show_nat.induct)
  case (1 n)
  then show ?case using isdigit_digit [of n] isdigit_digit [of "n mod 10"]
    by (subst show_nat.simps) (auto split: if_splits)
qed

end
