(* ===== verification/Pstree.thy ===== *)
theory Pstree
  imports Prelude Decimal
begin

text \<open>
  \<open>pstree/pstree.c\<close>: the tree of the processes, read from \<open>/proc\<close>.  The names in \<open>/proc\<close> and the
  texts of the \<open>stat\<close> files are arguments.  A pointer to a \<open>struct proc\<close> is its index in \<open>procs\<close>.
\<close>

section \<open>The processes\<close>

record proc =
  pr_pid :: int
  pr_child :: "nat option"
  pr_bros :: "nat option"
  pr_spid :: string
  pr_name :: string

record pstree =
  procs :: "proc list"
  num :: int
  root :: "nat option"

definition proc0 :: proc where
  "proc0 = \<lparr>pr_pid = 0, pr_child = None, pr_bros = None, pr_spid = [], pr_name = []\<rparr>"

definition pstree0 :: pstree where
  "pstree0 = \<lparr>procs = replicate 1000 proc0, num = - 1, root = None\<rparr>"

text \<open>\<open>n * 10 + (c - '0')\<close>\<close>

definition add_digit :: "int \<Rightarrow> char \<Rightarrow> int result" where
  "add_digit n c = (let n' = n * 10 + (of_char c - 48) in bindR (guardR Undefined_Behaviour (n' < 2 ^ 31)) (\<lambda>_. Inr n'))"

text \<open>The number that a name consists of, if it is one.\<close>

fun dir_pid :: "string \<Rightarrow> int \<Rightarrow> int option result" where
  "dir_pid [] pid = Inr (Some pid)"
| "dir_pid (c # cs) pid = (if \<not> isdigit c then Inr None else bindR (add_digit pid c) (dir_pid cs))"

definition new_proc :: "string \<Rightarrow> int \<Rightarrow> pstree \<Rightarrow> pstree result" where
  "new_proc s pid t =
     (let k = num t + 1 in
      bindR (arr_set (procs t) (nat k) (proc0\<lparr>pr_pid := pid, pr_spid := s\<rparr>)) (\<lambda>ps.
      bindR (guardR Out_Of_Bounds (length s < 6)) (\<lambda>_.
      Inr (t\<lparr>procs := ps, num := k, root := (if pid = 1 then Some (nat k) else root t)\<rparr>))))"

fun read_dir :: "string list \<Rightarrow> pstree \<Rightarrow> pstree result" where
  "read_dir [] t = Inr t"
| "read_dir (s # ss) t =
     bindR (guardR Out_Of_Bounds (length s < 30)) (\<lambda>_.
     bindR (dir_pid s 0) (\<lambda>r. bindR (case r of None \<Rightarrow> Inr t | Some pid \<Rightarrow> new_proc s pid t) (read_dir ss)))"

section \<open>The stat files\<close>

text \<open>Name and parent.  The flags are \<open>f\<close>, \<open>st\<close> and \<open>end\<close>; a byte \<open>0xff\<close> is taken for \<open>EOF\<close>.\<close>

fun read_stat :: "string \<Rightarrow> bool \<Rightarrow> bool \<Rightarrow> bool \<Rightarrow> string \<Rightarrow> int \<Rightarrow> (string \<times> int) result" where
  "read_stat [] f st en name ppid = Inr (name, ppid)"
| "read_stat (ch # cs) f st en name ppid =
     (if ch = CHR 0xFF then Inr (name, ppid)
      else if f then
        (if ch = CHR ''('' then read_stat cs f True en name ppid
         else if ch = CHR '')'' then read_stat cs False False en name ppid
         else if st then bindR (guardR Out_Of_Bounds (length name < 30)) (\<lambda>_. read_stat cs f st en (name @ [ch]) ppid)
         else read_stat cs f st en name ppid)
      else if isdigit ch then bindR (add_digit ppid ch) (read_stat cs f st True name)
      else if en then Inr (name, ppid)
      else read_stat cs f st en name ppid)"

text \<open>The first process with that number, or the entry behind the last.\<close>

definition find_pid :: "pstree \<Rightarrow> int \<Rightarrow> nat" where
  "find_pid t ppid = length (takeWhile (\<lambda>q. pr_pid q \<noteq> ppid) (take (nat (num t + 1)) (procs t)))"

partial_function (option) last_bros :: "proc list \<Rightarrow> nat \<Rightarrow> nat result option" where
  "last_bros ps tmp = (if tmp < length ps
     then case pr_bros (ps ! tmp) of None \<Rightarrow> Some (Inr tmp) | Some b \<Rightarrow> last_bros ps b
     else Some (Inl Out_Of_Bounds))"

definition link_proc :: "nat \<Rightarrow> nat \<Rightarrow> proc list \<Rightarrow> proc list result" where
  "link_proc i idx ps =
     bindR (arr_get ps idx) (\<lambda>q. case pr_child q of
       None \<Rightarrow> Inr (ps[idx := q\<lparr>pr_child := Some i\<rparr>])
     | Some c \<Rightarrow> bindR (returns (last_bros ps c)) (\<lambda>tmp. Inr (ps[tmp := (ps ! tmp)\<lparr>pr_bros := Some i\<rparr>])))"

definition build_step :: "(string \<Rightarrow> string option) \<Rightarrow> nat \<Rightarrow> pstree \<Rightarrow> pstree result" where
  "build_step stat i t =
     bindR (arr_get (procs t) i) (\<lambda>q. case stat (pr_spid q) of
       None \<Rightarrow> Inl Assert_Fail
     | Some text \<Rightarrow>
         bindR (read_stat text True False False [] 0) (\<lambda>(name, ppid).
         let ps = (procs t)[i := q\<lparr>pr_name := name\<rparr>] in
         bindR (link_proc i (find_pid t ppid) ps) (\<lambda>ps. Inr (t\<lparr>procs := ps\<rparr>))))"

fun build_tree :: "(string \<Rightarrow> string option) \<Rightarrow> nat list \<Rightarrow> pstree \<Rightarrow> pstree result" where
  "build_tree stat [] t = Inr t"
| "build_tree stat (i # is) t = bindR (build_step stat i t) (build_tree stat is)"

definition pstree_init :: "string list \<Rightarrow> (string \<Rightarrow> string option) \<Rightarrow> pstree result" where
  "pstree_init dir stat =
     bindR (read_dir dir pstree0) (\<lambda>t. build_tree stat [0..<nat (num t + 1)] t)"

section \<open>Printing\<close>

definition version :: string where
  "version = map char_of [
    112, 115, 116, 114, 101, 101, 32, 40, 80, 83, 109, 105, 115, 99, 41, 32, 85, 78, 75, 78, 79, 87, 78, 10,
    231, 137, 136, 230, 157, 131, 230, 137, 128, 230, 156, 137, 32, 194, 169, 32, 49, 57, 57, 51, 45, 50, 48,
    49, 57, 32, 87, 101, 114, 110, 101, 114, 32, 65, 108, 109, 101, 115, 98, 101, 114, 103, 101, 114, 32,
    229, 146, 140, 32, 67, 114, 97, 105, 103, 32, 83, 109, 97, 108, 108, 10, 10, 80, 83, 109, 105, 115, 99,
    32, 228, 184, 141, 230, 143, 144, 228, 190, 155, 228, 187, 187, 228, 189, 149, 228, 191, 157, 232, 175,
    129, 46, 10, 232, 175, 165, 231, 168, 139, 229, 186, 143, 228, 184, 186, 232, 135, 170, 231, 148, 177,
    232, 189, 175, 228, 187, 182, 239, 188, 140, 230, 172, 162, 232, 191, 142, 228, 189, 160, 229, 156, 168,
    32, 71, 78, 85, 32, 233, 128, 154, 231, 148, 168, 229, 133, 172, 229, 133, 177, 232, 174, 184, 229, 143,
    175, 232, 175, 129, 32, 40, 71, 80, 76, 41, 32, 228, 184, 139, 233, 135, 141, 230, 150, 176, 229, 143,
    145, 229, 184, 131, 227, 128, 130, 10, 232, 175, 166, 230, 131, 133, 229, 143, 175, 229, 143, 130, 233,
    152, 133, 32, 67, 79, 80, 89, 73, 78, 71, 32, 230, 150, 135, 228, 187, 182, 227, 128, 130, 10 :: nat]"

definition show_name :: "bool \<Rightarrow> proc \<Rightarrow> string result" where
  "show_name p r = bindR (guardR Out_Of_Bounds (CHR 0x00 \<in> set (pr_name r) \<or> length (pr_name r) < 30)) (\<lambda>_.
     Inr (takeWhile (\<lambda>c. c \<noteq> CHR 0x00) (pr_name r) @ (if p then ''('' @ show_nat (nat (pr_pid r)) @ '')'' else [])))"

text \<open>\<open>P\<close> and its loop over the children, without the case of \<open>-V\<close>; the number of nested calls and
  rounds is bounded by fuel, since nothing in the code excludes a cycle.\<close>

fun print_tree :: "nat \<Rightarrow> bool \<Rightarrow> proc list \<Rightarrow> nat \<Rightarrow> nat \<Rightarrow> string result option"
  and print_bros :: "nat \<Rightarrow> bool \<Rightarrow> proc list \<Rightarrow> nat option \<Rightarrow> nat \<Rightarrow> string result option"
where
  "print_tree 0 p ps r depth = None"
| "print_tree (Suc f) p ps r depth =
     bindF (Some (arr_get ps r)) (\<lambda>q. bindF (Some (show_name p q)) (\<lambda>out.
     bindF (print_bros f p ps (pr_child q) depth) (\<lambda>rest. Some (Inr (out @ rest)))))"
| "print_bros 0 p ps tmp depth = None"
| "print_bros (Suc f) p ps None depth = Some (Inr [])"
| "print_bros (Suc f) p ps (Some tmp) depth =
     bindF (print_tree f p ps tmp (depth + 1)) (\<lambda>out.
     bindF (Some (arr_get ps tmp)) (\<lambda>q.
     bindF (print_bros f p ps (pr_bros q) depth) (\<lambda>rest.
     Some (Inr (CHR 10 # concat (replicate (depth + 1) ''  '') @ out @ rest)))))"

text \<open>What goes to \<open>stdout\<close> and to \<open>stderr\<close>.\<close>

definition P :: "nat \<Rightarrow> bool \<Rightarrow> bool \<Rightarrow> proc list \<Rightarrow> nat option \<Rightarrow> nat \<Rightarrow> (string \<times> string) result option" where
  "P fuel p v ps r depth =
     (if v then Some (Inr ([], version))
      else case r of None \<Rightarrow> Some (Inl Null_Deref)
        | Some r \<Rightarrow> bindF (print_tree fuel p ps r depth) (\<lambda>out. Some (Inr (out, []))))"

definition has_option :: "string list \<Rightarrow> string \<Rightarrow> string \<Rightarrow> bool" where
  "has_option argv short long \<longleftrightarrow> short \<in> set argv \<or> long \<in> set argv"

definition pstree_main :: "nat \<Rightarrow> string list \<Rightarrow> string list \<Rightarrow> (string \<Rightarrow> string option) \<Rightarrow> (string \<times> string) result option" where
  "pstree_main fuel argv dir stat =
     (let p = has_option argv ''-p'' ''--show-pids''; v = has_option argv ''-V'' ''--version'' in
      bindF (Some (pstree_init dir stat)) (\<lambda>t. P fuel p v (procs t) (root t) 1))"

end
