(* ===== verification/PstreeProofs.thy ===== *)
theory PstreeProofs
  imports Pstree
begin

text \<open>
  \<open>pstree\<close> prints the tree of the processes: for a \<open>/proc\<close> whose files have the documented form, the
  output is the drawing of the tree that the parent numbers describe, children in the order of the
  directory.
\<close>

section \<open>The reference\<close>

datatype ptree = Node nat "ptree list"

fun root_pid :: "ptree \<Rightarrow> nat" where
  "root_pid (Node p ts) = p"

text \<open>Below every process are the processes whose parent it is.\<close>

fun family :: "nat list \<Rightarrow> (nat \<Rightarrow> nat) \<Rightarrow> ptree \<Rightarrow> bool" where
  "family pids ppid (Node p ts) \<longleftrightarrow> map root_pid ts = filter (\<lambda>q. ppid q = p) pids \<and> (\<forall>t\<in>set ts. family pids ppid t)"

fun nodes :: "ptree \<Rightarrow> nat" where
  "nodes (Node p ts) = 1 + sum_list (map nodes ts)"

definition label :: "bool \<Rightarrow> (nat \<Rightarrow> string) \<Rightarrow> nat \<Rightarrow> string" where
  "label pids name p = name p @ (if pids then ''('' @ show_nat p @ '')'' else [])"

fun draw :: "bool \<Rightarrow> (nat \<Rightarrow> string) \<Rightarrow> nat \<Rightarrow> ptree \<Rightarrow> string" where
  "draw pids name d (Node p ts) =
     label pids name p @ concat (map (\<lambda>t. CHR 10 # concat (replicate (d + 1) ''  '') @ draw pids name (d + 1) t) ts)"

text \<open>\<open>pid (name) state ppid ...\<close>\<close>

definition stat_line :: "nat \<Rightarrow> string \<Rightarrow> char \<Rightarrow> nat \<Rightarrow> string \<Rightarrow> string" where
  "stat_line p name st ppid rest = show_nat p @ '' ('' @ name @ '') '' @ [st] @ '' '' @ show_nat ppid @ '' '' @ rest"

section \<open>Numbers\<close>

text \<open>What a digit loop has read.\<close>

lemma add_digit_show:
  assumes "d < 10" and "n * 10 + d < 2 ^ 31"
  shows "add_digit (int n) (char_of (48 + d)) = Inr (int (n * 10 + d))"
proof -
  have "int n * 10 + int d < 2 ^ 31" using assms(2) by simp
  then show ?thesis using isdigit_digit [OF assms(1)] by (simp add: add_digit_def Let_def)
qed

lemma dir_pid_append:
  "\<forall>c\<in>set xs. isdigit c \<Longrightarrow> dir_pid (xs @ ys) n = bindR (dir_pid xs n) (\<lambda>r. case r of None \<Rightarrow> Inr None | Some m \<Rightarrow> dir_pid ys m)"
proof (induction xs arbitrary: n)
  case (Cons c xs)
  then show ?case by (cases "add_digit n c") simp_all
qed simp

lemma dir_pid_show: "n < 2 ^ 31 \<Longrightarrow> dir_pid (show_nat n) 0 = Inr (Some (int n))"
proof (induction n rule: show_nat.induct)
  case (1 n)
  show ?case
  proof (cases "n < 10")
    case True
    then show ?thesis using isdigit_digit [OF True] add_digit_show [of n 0] 1 by (subst show_nat.simps) simp
  next
    case False
    have "n div 10 < 2 ^ 31" using 1(2) by simp
    then have r: "dir_pid (show_nat (n div 10)) 0 = Inr (Some (int (n div 10)))" using 1(1) False by simp
    have "n div 10 * 10 + n mod 10 = n" by simp
    then have a: "add_digit (int (n div 10)) (char_of (48 + n mod 10)) = Inr (int n)"
      using add_digit_show [of "n mod 10" "n div 10"] 1(2) by simp
    have "isdigit (char_of (48 + n mod 10))" using isdigit_digit [of "n mod 10"] by simp
    then show ?thesis using False r a show_nat_digits [of "n div 10"]
      by (subst show_nat.simps) (simp add: dir_pid_append)
  qed
qed

lemma read_stat_digits:
  "\<forall>c\<in>set xs. isdigit c \<Longrightarrow> dir_pid xs n = Inr (Some m) \<Longrightarrow>
     read_stat (xs @ ys) False st en name n = read_stat ys False st (en \<or> xs \<noteq> []) name m"
proof (induction xs arbitrary: n en)
  case (Cons c xs)
  then obtain k where "add_digit n c = Inr k" "dir_pid xs k = Inr (Some m)" by (auto simp: bindR_Inr_iff)
  moreover have "c \<noteq> CHR 0xFF" using Cons.prems(1) by (auto simp: isdigit_def less_eq_char_def)
  ultimately show ?case using Cons by simp
qed simp

text \<open>The name, up to the closing parenthesis.\<close>

lemma read_stat_name:
  "length nm + length name \<le> 30 \<Longrightarrow> set nm \<inter> {CHR ''('', CHR '')'', CHR 0xFF} = {} \<Longrightarrow>
     read_stat (nm @ ys) True True en name n = read_stat ys True True en (name @ nm) n"
  by (induction nm arbitrary: name) auto

lemma read_stat_skip:
  "\<forall>c\<in>set xs. isdigit c \<or> c = CHR '' '' \<Longrightarrow> read_stat (xs @ ys) True False en name n = read_stat ys True False en name n"
  by (induction xs) (auto simp: isdigit_def)

lemma read_stat_line:
  assumes "length nm \<le> 30" and "set nm \<inter> {CHR ''('', CHR '')'', CHR 0xFF} = {}" and "\<not> isdigit st" and "st \<noteq> CHR 0xFF"
    and "ppid < 2 ^ 31"
  shows "read_stat (stat_line p nm st ppid rest) True False False [] 0 = Inr (nm, int ppid)"
proof -
  have sp: "\<not> isdigit (CHR '' '')" by (simp add: isdigit_def less_eq_char_def)
  have ne: "show_nat ppid \<noteq> []" by (subst show_nat.simps) simp
  have "read_stat (show_nat p @ '' ('' @ nm @ '') '' @ [st] @ '' '' @ show_nat ppid @ '' '' @ rest) True False False [] 0 =
      read_stat ('' '' @ [st] @ '' '' @ show_nat ppid @ '' '' @ rest) False False False nm 0"
    using read_stat_skip [of "show_nat p"] show_nat_digits [of p] read_stat_name [of nm "[]"] assms(1,2) by simp
  also have "\<dots> = read_stat ('' '' @ rest) False False True nm (int ppid)"
    using read_stat_digits [OF show_nat_digits dir_pid_show [OF assms(5)]] assms(3,4) sp ne by simp
  also have "\<dots> = Inr (nm, int ppid)" using sp by simp
  finally show ?thesis by (simp add: stat_line_def)
qed

section \<open>The directory\<close>

text \<open>The position of a process.\<close>

definition pos :: "nat list \<Rightarrow> nat \<Rightarrow> nat" where
  "pos pids p = length (takeWhile (\<lambda>q. q \<noteq> p) pids)"

lemma pos_in: "p \<in> set pids \<Longrightarrow> pos pids p < length pids \<and> pids ! pos pids p = p"
  by (induction pids) (auto simp: pos_def)

lemma pos_notin: "p \<notin> set pids \<Longrightarrow> pos pids p = length pids"
  by (induction pids) (auto simp: pos_def)

lemma pos_nth: "distinct pids \<Longrightarrow> k < length pids \<Longrightarrow> pos pids (pids ! k) = k"
  using pos_in [of "pids ! k" pids] nth_eq_iff_index_eq [of pids "pos pids (pids ! k)" k] by simp

lemma pos_snoc: "pos (pids @ [q]) p = (if p \<in> set pids then pos pids p else if p = q then length pids else Suc (length pids))"
  by (auto simp: pos_def takeWhile_append)

definition fresh_proc :: "nat \<Rightarrow> proc" where
  "fresh_proc p = proc0\<lparr>pr_pid := int p, pr_spid := show_nat p\<rparr>"

definition dir_state :: "nat list \<Rightarrow> pstree" where
  "dir_state pids = \<lparr>procs = map fresh_proc pids @ replicate (1000 - length pids) proc0, num = int (length pids) - 1,
     root = (if 1 \<in> set pids then Some (pos pids 1) else None)\<rparr>"

lemma new_proc_ok:
  assumes "length pids < 1000" and "length (show_nat p) < 6" and "p \<notin> set pids"
  shows "new_proc (show_nat p) (int p) (dir_state pids) = Inr (dir_state (pids @ [p]))"
proof -
  have "replicate (1000 - length pids) proc0 = proc0 # replicate (999 - length pids) proc0"
    using assms(1) by (simp flip: replicate_Suc add: Suc_diff_Suc)
  moreover have "int p = 1 \<longleftrightarrow> p = 1" by linarith
  ultimately show ?thesis using assms
    by (auto simp: new_proc_def dir_state_def fresh_proc_def pos_snoc list_update_append Let_def)
qed

lemma read_dir_ok:
  assumes "\<forall>s\<in>set dir. s \<noteq> [] \<and> length s < 30" and "filter (\<lambda>s. isdigit (hd s)) dir = map show_nat qs"
    and "distinct (pids @ qs)" and "length pids + length qs < 1000" and "\<forall>q\<in>set qs. length (show_nat q) < 6 \<and> q < 2 ^ 31"
  shows "read_dir dir (dir_state pids) = Inr (dir_state (pids @ qs))"
  using assms
proof (induction dir arbitrary: pids qs)
  case (Cons s dir)
  show ?case
  proof (cases "isdigit (hd s)")
    case True
    then obtain q rs where qs: "qs = q # rs" "s = show_nat q" "filter (\<lambda>s. isdigit (hd s)) dir = map show_nat rs"
      using Cons.prems(2) by (cases qs) auto
    have "read_dir dir (dir_state (pids @ [q])) = Inr (dir_state ((pids @ [q]) @ rs))"
      by (rule Cons.IH) (use Cons.prems qs in auto)
    moreover have "new_proc (show_nat q) (int q) (dir_state pids) = Inr (dir_state (pids @ [q]))"
      by (rule new_proc_ok) (use Cons.prems qs in auto)
    moreover have "dir_pid (show_nat q) 0 = Inr (Some (int q))" by (rule dir_pid_show) (use Cons.prems qs in auto)
    moreover have "length s < 30" using Cons.prems(1) by simp
    ultimately show ?thesis using qs by simp
  next
    case False
    then have "dir_pid s 0 = Inr None" using Cons.prems(1) by (cases s) auto
    then show ?thesis using Cons False by simp
  qed
qed simp

section \<open>Linking\<close>

text \<open>The processes that are reached through \<open>bros\<close>.\<close>

fun bros_from :: "proc list \<Rightarrow> nat option \<Rightarrow> nat list \<Rightarrow> bool" where
  "bros_from ps s [] \<longleftrightarrow> s = None"
| "bros_from ps s (j # js) \<longleftrightarrow> s = Some j \<and> j < length ps \<and> bros_from ps (pr_bros (ps ! j)) js"

lemma last_bros_ok: "bros_from ps (Some c) js \<Longrightarrow> last_bros ps c = Some (Inr (last js))"
proof (induction js arbitrary: c)
  case (Cons j js)
  then show ?case by (subst last_bros.simps) (cases "pr_bros (ps ! j)"; cases js; auto)
qed simp

lemma bros_from_frame:
  "\<forall>j\<in>set js. pr_bros (ps' ! j) = pr_bros (ps ! j) \<Longrightarrow> length ps' = length ps \<Longrightarrow> bros_from ps' s js = bros_from ps s js"
  by (induction js arbitrary: s) auto

lemma bros_from_snoc:
  "bros_from ps s js \<Longrightarrow> js \<noteq> [] \<Longrightarrow> distinct (js @ [i]) \<Longrightarrow> i < length ps \<Longrightarrow> pr_bros (ps ! i) = None \<Longrightarrow>
     bros_from (ps[last js := (ps ! last js)\<lparr>pr_bros := Some i\<rparr>]) s (js @ [i])"
proof (induction js arbitrary: s)
  case (Cons j js)
  show ?case
  proof (cases "js = []")
    case False
    then have "last js \<noteq> j" using Cons.prems(3) last_in_set by fastforce
    then show ?thesis using Cons False by auto
  qed (use Cons in auto)
qed simp

text \<open>The state after the first \<open>i\<close> processes have been linked: below each entry are those whose parent it is.\<close>

definition kids :: "nat list \<Rightarrow> (nat \<Rightarrow> nat) \<Rightarrow> nat \<Rightarrow> nat \<Rightarrow> nat list" where
  "kids pids ppid i x = filter (\<lambda>j. pos pids (ppid (pids ! j)) = x) [0..<i]"

definition linked :: "nat list \<Rightarrow> (nat \<Rightarrow> string) \<Rightarrow> (nat \<Rightarrow> nat) \<Rightarrow> nat \<Rightarrow> proc list \<Rightarrow> bool" where
  "linked pids name ppid i ps \<longleftrightarrow> length ps = 1000 \<and>
     (\<forall>k<length pids. pr_pid (ps ! k) = int (pids ! k) \<and> pr_spid (ps ! k) = show_nat (pids ! k) \<and>
        (k < i \<longrightarrow> pr_name (ps ! k) = name (pids ! k))) \<and>
     (\<forall>k<1000. i \<le> k \<longrightarrow> pr_bros (ps ! k) = None) \<and>
     (\<forall>x\<le>length pids. bros_from ps (pr_child (ps ! x)) (kids pids ppid i x))"

lemma linkedD:
  assumes "linked pids name ppid i ps"
  shows "length ps = 1000"
    and "k < length pids \<Longrightarrow> pr_pid (ps ! k) = int (pids ! k)"
    and "k < length pids \<Longrightarrow> pr_spid (ps ! k) = show_nat (pids ! k)"
    and "k < length pids \<Longrightarrow> k < i \<Longrightarrow> pr_name (ps ! k) = name (pids ! k)"
    and "k < 1000 \<Longrightarrow> i \<le> k \<Longrightarrow> pr_bros (ps ! k) = None"
    and "x \<le> length pids \<Longrightarrow> bros_from ps (pr_child (ps ! x)) (kids pids ppid i x)"
  using assms unfolding linked_def by blast+

lemma kids_Suc: "kids pids ppid (Suc i) x = kids pids ppid i x @ (if pos pids (ppid (pids ! i)) = x then [i] else [])"
  by (simp add: kids_def)

lemma kids_less: "j \<in> set (kids pids ppid i x) \<Longrightarrow> j < i \<and> pos pids (ppid (pids ! j)) = x"
  by (simp add: kids_def)

lemma find_pid_ok:
  assumes "linked pids name ppid i (procs t)" and "num t = int (length pids) - 1" and "length pids < 1000"
  shows "find_pid t (int v) = pos pids v"
proof -
  let ?xs = "take (length pids) (procs t)"
  have "map pr_pid ?xs = map int pids"
    using assms(3) linkedD(1,2) [OF assms(1)] by (intro nth_equalityI) auto
  then have "length (takeWhile (\<lambda>k. k \<noteq> int v) (map pr_pid ?xs)) = length (takeWhile (\<lambda>k. k \<noteq> int v) (map int pids))" by simp
  then have "length (takeWhile (\<lambda>q. pr_pid q \<noteq> int v) ?xs) = length (takeWhile (\<lambda>q. q \<noteq> v) pids)"
    by (simp only: takeWhile_map length_map comp_def of_nat_eq_iff)
  then show ?thesis using assms(2) by (simp add: find_pid_def pos_def)
qed

text \<open>One process more.\<close>

lemma linked_name:
  assumes "linked pids name ppid i ps" and "i < length pids" and "length pids < 1000"
  defines "qs \<equiv> ps[i := (ps ! i)\<lparr>pr_name := name (pids ! i)\<rparr>]"
  shows "length qs = 1000"
    and "\<And>k. k < length pids \<Longrightarrow> pr_pid (qs ! k) = int (pids ! k) \<and> pr_spid (qs ! k) = show_nat (pids ! k) \<and>
      (k < Suc i \<longrightarrow> pr_name (qs ! k) = name (pids ! k))"
    and "\<And>k. k < 1000 \<Longrightarrow> i \<le> k \<Longrightarrow> pr_bros (qs ! k) = None"
    and "\<And>x. x \<le> length pids \<Longrightarrow> bros_from qs (pr_child (qs ! x)) (kids pids ppid i x)"
proof -
  note L = linkedD [OF assms(1)]
  show l: "length qs = 1000" using L(1) by (simp add: qs_def)
  have i: "i < length ps" using L(1) assms(2,3) by simp
  have q: "pr_bros (qs ! k) = pr_bros (ps ! k)" "pr_child (qs ! k) = pr_child (ps ! k)" for k
    unfolding qs_def using i by (simp_all add: nth_list_update)
  show "pr_pid (qs ! k) = int (pids ! k) \<and> pr_spid (qs ! k) = show_nat (pids ! k) \<and>
      (k < Suc i \<longrightarrow> pr_name (qs ! k) = name (pids ! k))" if "k < length pids" for k
    using L(1,2,3,4) that assms(3) by (cases "k = i") (auto simp: qs_def)
  show "k < 1000 \<Longrightarrow> i \<le> k \<Longrightarrow> pr_bros (qs ! k) = None" for k using L(5) q by simp
  show "x \<le> length pids \<Longrightarrow> bros_from qs (pr_child (qs ! x)) (kids pids ppid i x)" for x
    using L(1,6) l q by (simp add: bros_from_frame [of _ qs ps])
qed

lemma link_proc_ok:
  assumes "linked pids name ppid i ps" and i: "i < length pids" and n: "length pids < 1000"
  defines "qs \<equiv> ps[i := (ps ! i)\<lparr>pr_name := name (pids ! i)\<rparr>]"
  shows "\<exists>rs. link_proc i (pos pids (ppid (pids ! i))) qs = Inr rs \<and> linked pids name ppid (Suc i) rs"
proof -
  note Q = linked_name [OF assms(1) i n, folded qs_def]
  define x where "x = pos pids (ppid (pids ! i))"
  have x: "x \<le> length pids" by (simp add: x_def pos_def length_takeWhile_le)
  then have xl: "x < length qs" using Q(1) n by simp
  have i1000: "i < 1000" using i n by simp
  let ?js = "kids pids ppid i x"
  note old = Q(4) [OF x]
  have kx: "kids pids ppid (Suc i) y = (if y = x then ?js @ [i] else kids pids ppid i y)" for y
    by (simp add: kids_Suc x_def)
  have "i \<notin> set ?js" "distinct ?js" using kids_less [of i pids ppid i x] by (auto simp: kids_def)
  then have dj: "distinct (?js @ [i])" by simp
  show ?thesis
  proof (cases ?js)
    case Nil
    let ?rs = "qs[x := (qs ! x)\<lparr>pr_child := Some i\<rparr>]"
    have f: "pr_bros (?rs ! k) = pr_bros (qs ! k)" "pr_pid (?rs ! k) = pr_pid (qs ! k)" "pr_spid (?rs ! k) = pr_spid (qs ! k)"
      "pr_name (?rs ! k) = pr_name (qs ! k)" "k \<noteq> x \<Longrightarrow> pr_child (?rs ! k) = pr_child (qs ! k)" for k
      using xl by (simp_all add: nth_list_update)
    have "bros_from ?rs (pr_child (?rs ! y)) (kids pids ppid (Suc i) y)" if "y \<le> length pids" for y
    proof (cases "y = x")
      case True
      then show ?thesis using Nil xl Q(1) Q(3) [of i] i1000 f(1) [of i] by (simp add: kx)
    next
      case False
      then show ?thesis using Q(4) [OF that] f by (simp add: kx bros_from_frame [of _ ?rs qs])
    qed
    then have "linked pids name ppid (Suc i) ?rs" using Q(1-3) f(1-4) unfolding linked_def by simp
    moreover have "link_proc i x qs = Inr ?rs" using old Nil xl by (simp add: link_proc_def)
    ultimately show ?thesis unfolding x_def by blast
  next
    case (Cons c cs)
    let ?l = "last ?js"
    let ?rs = "qs[?l := (qs ! ?l)\<lparr>pr_bros := Some i\<rparr>]"
    have l: "?l \<in> set ?js" using Cons by (metis last_in_set list.distinct(1))
    then have li: "?l < i" "pos pids (ppid (pids ! ?l)) = x" using kids_less by blast+
    then have ll: "?l < length qs" using Q(1) i1000 by simp
    have f: "pr_child (?rs ! k) = pr_child (qs ! k)" "pr_pid (?rs ! k) = pr_pid (qs ! k)" "pr_spid (?rs ! k) = pr_spid (qs ! k)"
      "pr_name (?rs ! k) = pr_name (qs ! k)" "k \<noteq> ?l \<Longrightarrow> pr_bros (?rs ! k) = pr_bros (qs ! k)" for k
      using ll by (simp_all add: nth_list_update)
    have "bros_from ?rs (pr_child (?rs ! y)) (kids pids ppid (Suc i) y)" if y: "y \<le> length pids" for y
    proof (cases "y = x")
      case True
      have "bros_from ?rs (pr_child (qs ! x)) (?js @ [i])"
        using bros_from_snoc [OF old _ dj] Cons Q(1) Q(3) [of i] i1000 by simp
      then show ?thesis using True f(1) by (simp add: kx)
    next
      case False
      then have "?l \<notin> set (kids pids ppid i y)" using kids_less li(2) by blast
      then have "\<forall>j\<in>set (kids pids ppid i y). pr_bros (?rs ! j) = pr_bros (qs ! j)" using f(5) by metis
      then have "bros_from ?rs (pr_child (qs ! y)) (kids pids ppid i y)"
        using Q(4) [OF y] bros_from_frame [of "kids pids ppid i y" ?rs qs] by simp
      then show ?thesis using False f(1) by (simp add: kx)
    qed
    moreover have "pr_bros (?rs ! k) = None" if "k < 1000" "Suc i \<le> k" for k using f(5) [of k] Q(3) [of k] that li(1) by simp
    ultimately have "linked pids name ppid (Suc i) ?rs" using Q(1,2) f(2-4) unfolding linked_def by simp
    moreover have "link_proc i x qs = Inr ?rs"
    proof -
      have c: "pr_child (qs ! x) = Some c" using old Cons by simp
      then have "last_bros qs c = Some (Inr ?l)" using last_bros_ok old by simp
      then show ?thesis using c xl by (simp add: link_proc_def)
    qed
    ultimately show ?thesis unfolding x_def by blast
  qed
qed

text \<open>The file of a process is what \<open>/proc\<close> documents, with a name that the program can read: fewer than 30
  characters and no parenthesis (one that contains a parenthesis is cut there).\<close>

definition stat_ok :: "(string \<Rightarrow> string option) \<Rightarrow> (nat \<Rightarrow> string) \<Rightarrow> (nat \<Rightarrow> nat) \<Rightarrow> nat \<Rightarrow> bool" where
  "stat_ok stat name ppid p \<longleftrightarrow> length (name p) < 30 \<and> set (name p) \<inter> {CHR ''('', CHR '')'', CHR 0xFF, CHR 0x00} = {} \<and>
     ppid p < 2 ^ 31 \<and>
     (\<exists>st rest. \<not> isdigit st \<and> st \<noteq> CHR 0xFF \<and> stat (show_nat p) = Some (stat_line p (name p) st (ppid p) rest))"

lemma build_step_ok:
  assumes L: "linked pids name ppid i (procs t)" and i: "i < length pids" and n: "length pids < 1000"
    and num: "num t = int (length pids) - 1" and st: "stat_ok stat name ppid (pids ! i)"
  shows "\<exists>rs. build_step stat i t = Inr (t\<lparr>procs := rs\<rparr>) \<and> linked pids name ppid (Suc i) rs"
proof -
  obtain c rest where s: "\<not> isdigit c" "c \<noteq> CHR 0xFF"
    "stat (show_nat (pids ! i)) = Some (stat_line (pids ! i) (name (pids ! i)) c (ppid (pids ! i)) rest)"
    using st by (auto simp: stat_ok_def)
  have r: "read_stat (stat_line (pids ! i) (name (pids ! i)) c (ppid (pids ! i)) rest) True False False [] 0 =
      Inr (name (pids ! i), int (ppid (pids ! i)))"
    using st s by (intro read_stat_line) (auto simp: stat_ok_def)
  obtain rs where "link_proc i (pos pids (ppid (pids ! i))) ((procs t)[i := (procs t ! i)\<lparr>pr_name := name (pids ! i)\<rparr>]) = Inr rs"
    "linked pids name ppid (Suc i) rs"
    using link_proc_ok [OF L i n] by blast
  moreover have "i < length (procs t)" "pr_spid (procs t ! i) = show_nat (pids ! i)" using linkedD(1,3) [OF L] i n by simp_all
  ultimately show ?thesis using s(3) r find_pid_ok [OF L num n]
    by (intro exI [of _ rs]) (simp add: build_step_def Let_def)
qed

lemma build_tree_ok:
  assumes "linked pids name ppid i (procs t)" and "i \<le> length pids" and n: "length pids < 1000"
    and "num t = int (length pids) - 1" and st: "\<forall>p\<in>set pids. stat_ok stat name ppid p"
  shows "\<exists>rs. build_tree stat [i..<length pids] t = Inr (t\<lparr>procs := rs\<rparr>) \<and> linked pids name ppid (length pids) rs"
  using assms(1,2,4)
proof (induction "length pids - i" arbitrary: i t)
  case 0
  then show ?case by (intro exI [of _ "procs t"]) simp
next
  case (Suc k)
  then have i: "i < length pids" by simp
  have k: "k = length pids - Suc i" using Suc.hyps(2) by simp
  have "stat_ok stat name ppid (pids ! i)" using st i by simp
  then obtain rs where rs: "build_step stat i t = Inr (t\<lparr>procs := rs\<rparr>)" "linked pids name ppid (Suc i) rs"
    using build_step_ok [OF Suc.prems(1) i n Suc.prems(3)] by blast
  then obtain us where "build_tree stat [Suc i..<length pids] (t\<lparr>procs := rs\<rparr>) = Inr (t\<lparr>procs := us\<rparr>)"
    "linked pids name ppid (length pids) us"
    using Suc.hyps(1) [of "Suc i" "t\<lparr>procs := rs\<rparr>"] k Suc.prems i by auto
  then show ?case using rs i by (intro exI [of _ us]) (simp add: upt_conv_Cons)
qed

lemma linked_start: "length pids < 1000 \<Longrightarrow> linked pids name ppid 0 (procs (dir_state pids))"
  by (auto simp: linked_def dir_state_def fresh_proc_def proc0_def nth_append kids_def)

lemma pstree_init_ok:
  assumes "\<forall>s\<in>set dir. s \<noteq> [] \<and> length s < 30" and "filter (\<lambda>s. isdigit (hd s)) dir = map show_nat pids"
    and "distinct pids" and n: "length pids < 1000" and "\<forall>p\<in>set pids. length (show_nat p) < 6 \<and> p < 2 ^ 31"
    and st: "\<forall>p\<in>set pids. stat_ok stat name ppid p"
  shows "\<exists>t. pstree_init dir stat = Inr t \<and> linked pids name ppid (length pids) (procs t) \<and>
    root t = (if 1 \<in> set pids then Some (pos pids 1) else None)"
proof -
  have "pstree0 = dir_state []" by (simp add: pstree0_def dir_state_def)
  then have d: "read_dir dir pstree0 = Inr (dir_state pids)" using read_dir_ok [of dir pids "[]"] assms by simp
  have num: "num (dir_state pids) = int (length pids) - 1" by (simp add: dir_state_def)
  obtain rs where "build_tree stat [0..<length pids] (dir_state pids) = Inr (dir_state pids\<lparr>procs := rs\<rparr>)"
    "linked pids name ppid (length pids) rs"
    using build_tree_ok [OF linked_start [OF n] _ n num st] by auto
  then show ?thesis using d num by (intro exI [of _ "dir_state pids\<lparr>procs := rs\<rparr>"])
      (simp add: pstree_init_def, simp add: dir_state_def)
qed

section \<open>Printing\<close>

lemma nodes_pos: "0 < nodes t"
  by (cases t) simp

lemma show_name_ok:
  assumes "linked pids name ppid (length pids) ps" and "p \<in> set pids" and "stat_ok stat name ppid p"
  shows "show_name w (ps ! pos pids p) = Inr (label w name p)"
proof -
  note k = pos_in [OF assms(2)]
  have "pr_name (ps ! pos pids p) = name p" "pr_pid (ps ! pos pids p) = int p" using linkedD(2,4) [OF assms(1)] k by simp_all
  moreover have "CHR 0x00 \<notin> set (name p)" "length (name p) < 30" using assms(3) by (auto simp: stat_ok_def)
  moreover from this(1) have "takeWhile (\<lambda>c. c \<noteq> CHR 0x00) (name p) = name p" by (auto simp: takeWhile_eq_all_conv)
  ultimately show ?thesis by (simp add: show_name_def label_def)
qed

lemma kids_pids:
  assumes "distinct pids" and "p \<in> set pids"
  shows "map (\<lambda>j. pids ! j) (kids pids ppid (length pids) (pos pids p)) = filter (\<lambda>q. ppid q = p) pids"
proof -
  have eq: "pos pids q = pos pids p \<longleftrightarrow> q = p" for q
    using pos_in [OF assms(2)] pos_in [of q pids] pos_notin [of q pids] by (cases "q \<in> set pids") auto
  have "filter (\<lambda>q. ppid q = p) (map (\<lambda>j. pids ! j) [0..<length pids]) =
      map (\<lambda>j. pids ! j) (filter (\<lambda>j. ppid (pids ! j) = p) [0..<length pids])" by (simp add: filter_map comp_def)
  then show ?thesis by (simp add: kids_def eq map_nth)
qed

lemma print_forest_ok:
  assumes L: "linked pids name ppid (length pids) ps" and d: "distinct pids" and n: "length pids < 1000"
    and st: "\<forall>p\<in>set pids. stat_ok stat name ppid p"
  shows "family pids ppid t \<Longrightarrow> root_pid t \<in> set pids \<Longrightarrow> 2 * nodes t \<le> fuel \<Longrightarrow>
    print_tree fuel w ps (pos pids (root_pid t)) depth = Some (Inr (draw w name depth t))"
proof (induction t arbitrary: fuel depth)
  case (Node p ts)
  have forest: "bros_from ps s js \<Longrightarrow> map (\<lambda>j. pids ! j) js = map root_pid us \<Longrightarrow> \<forall>j\<in>set js. j < length pids \<Longrightarrow>
      set us \<subseteq> set ts \<Longrightarrow> Suc (sum_list (map (\<lambda>t. 2 * nodes t) us)) \<le> f \<Longrightarrow>
      print_bros f w ps s depth =
        Some (Inr (concat (map (\<lambda>t. CHR 10 # concat (replicate (depth + 1) ''  '') @ draw w name (depth + 1) t) us)))" for s js us f
  proof (induction us arbitrary: s js f)
    case Nil
    then show ?case by (cases f) simp_all
  next
    case (Cons u us)
    then obtain j rest where js: "js = j # rest" "pids ! j = root_pid u" by (cases js) auto
    obtain g where f: "f = Suc g" using Cons.prems(5) by (cases f) simp_all
    have j: "j < length pids" "j < length ps" "s = Some j" using Cons.prems(1,3) js(1) by simp_all
    have "pos pids (root_pid u) = j" using pos_nth [OF d j(1)] js(2) by simp
    moreover have "root_pid u \<in> set pids" using j(1) js(2) by (metis nth_mem)
    moreover have "u \<in> set ts" "family pids ppid u" using Cons.prems(4) Node.prems(1) by auto
    moreover have "2 * nodes u \<le> g" using Cons.prems(5) f by simp
    ultimately have "print_tree g w ps j (depth + 1) = Some (Inr (draw w name (depth + 1) u))" using Node.IH by metis
    moreover have "print_bros g w ps (pr_bros (ps ! j)) depth =
        Some (Inr (concat (map (\<lambda>t. CHR 10 # concat (replicate (depth + 1) ''  '') @ draw w name (depth + 1) t) us)))"
      by (rule Cons.IH [of _ rest]) (use Cons.prems js f nodes_pos [of u] in auto)
    ultimately show ?case using f j by simp
  qed
  let ?x = "pos pids p"
  obtain g where f: "fuel = Suc g" using Node.prems(3) by (cases fuel) simp_all
  have p: "p \<in> set pids" using Node.prems(2) by simp
  have x: "?x < length pids" using pos_in [OF p] by simp
  then have xl: "?x < length ps" using linkedD(1) [OF L] n by simp
  have "print_bros g w ps (pr_child (ps ! ?x)) depth =
      Some (Inr (concat (map (\<lambda>t. CHR 10 # concat (replicate (depth + 1) ''  '') @ draw w name (depth + 1) t) ts)))"
  proof (rule forest)
    show "bros_from ps (pr_child (ps ! ?x)) (kids pids ppid (length pids) ?x)" using linkedD(6) [OF L] x by simp
    show "map (\<lambda>j. pids ! j) (kids pids ppid (length pids) ?x) = map root_pid ts"
      using kids_pids [OF d p] Node.prems(1) by simp
    show "\<forall>j\<in>set (kids pids ppid (length pids) ?x). j < length pids" using kids_less by blast
    have "2 * sum_list (map nodes ts) = sum_list (map (\<lambda>t. 2 * nodes t) ts)" by (simp add: sum_list_const_mult)
    then show "Suc (sum_list (map (\<lambda>t. 2 * nodes t) ts)) \<le> g" using Node.prems(3) f by simp
  qed simp
  moreover have "show_name w (ps ! ?x) = Inr (label w name p)" by (rule show_name_ok [OF L p]) (use st p in blast)
  ultimately show ?case using f xl by simp
qed

text \<open>C31. For fewer than 1000 processes with numbers of at most five digits and names of fewer than 30
  characters without parentheses, \<open>pstree\<close> without \<open>-V\<close> ends and prints the tree of the processes below the
  first: under every process its children, indented by their depth, with \<open>-p\<close> also the numbers.  The
  children come in the order of the directory whatever the other options are: \<open>--numeric-sort\<close> has no
  effect.\<close>

theorem pstree_prints:
  assumes "\<forall>s\<in>set dir. s \<noteq> [] \<and> length s < 30" and "filter (\<lambda>s. isdigit (hd s)) dir = map show_nat pids"
    and "distinct pids" and "length pids < 1000" and "1 \<in> set pids"
    and "\<forall>p\<in>set pids. length (show_nat p) < 6 \<and> p < 2 ^ 31"
    and "\<forall>p\<in>set pids. stat_ok stat name ppid p"
    and "family pids ppid t" and "root_pid t = 1" and "2 * nodes t \<le> fuel"
    and "\<not> has_option argv ''-V'' ''--version''"
  shows "pstree_main fuel argv dir stat = Some (Inr (draw (has_option argv ''-p'' ''--show-pids'') name 1 t, []))"
proof -
  obtain u where u: "pstree_init dir stat = Inr u" "linked pids name ppid (length pids) (procs u)" "root u = Some (pos pids 1)"
    using pstree_init_ok [OF assms(1-4,6,7)] assms(5) by auto
  have "print_tree fuel w (procs u) (pos pids 1) 1 = Some (Inr (draw w name 1 t))" for w
    using print_forest_ok [OF u(2) assms(3,4,7,8)] assms(5,9,10) by simp
  then show ?thesis using u(1,3) assms(11) by (simp add: pstree_main_def P_def Let_def)
qed

text \<open>Three processes.\<close>

definition example_stat :: "string \<Rightarrow> string option" where
  "example_stat = map_of [(''1'', stat_line 1 ''init'' (CHR ''S'') 0 ''0''), (''12'', stat_line 12 ''ls'' (CHR ''R'') 7 ''0''),
     (''7'', stat_line 7 ''sh'' (CHR ''S'') 1 ''0'')]"

lemma show_nat_example: "show_nat 1 = ''1''" "show_nat 7 = ''7''" "show_nat 12 = ''12''"
  by code_simp+

theorem pstree_prints_witness:
  "pstree_main 6 [''pstree'', ''-p''] [''.'', ''1'', ''self'', ''12'', ''7''] example_stat =
     Some (Inr (''init(1)'' @ CHR 10 # ''    sh(7)'' @ CHR 10 # ''      ls(12)'', []))"
proof -
  let ?name = "\<lambda>p :: nat. if p = 1 then ''init'' else if p = 7 then ''sh'' else ''ls''"
  let ?ppid = "\<lambda>p :: nat. if p = 1 then 0 else if p = 7 then 1 else 7 :: nat"
  let ?t = "Node 1 [Node 7 [Node 12 []]]"
  have "stat_ok example_stat ?name ?ppid p" if "p \<in> set [1, 12, 7]" for p
  proof -
    have "\<not> isdigit (CHR ''S'')" "\<not> isdigit (CHR ''R'')" by (simp_all add: isdigit_def less_eq_char_def)
    then show ?thesis using that unfolding stat_ok_def example_stat_def
      by (auto simp: show_nat_example simp flip: One_nat_def)
  qed
  then have "\<forall>p\<in>set [1, 12, 7]. stat_ok example_stat ?name ?ppid p" by blast
  moreover have "filter (\<lambda>s. isdigit (hd s)) [''.'', ''1'', ''self'', ''12'', ''7''] = map show_nat [1, 12, 7]"
    using show_nat_example by (simp add: isdigit_def less_eq_char_def)
  ultimately have "pstree_main 6 [''pstree'', ''-p''] [''.'', ''1'', ''self'', ''12'', ''7''] example_stat =
      Some (Inr (draw (has_option [''pstree'', ''-p''] ''-p'' ''--show-pids'') ?name 1 ?t, []))"
    using show_nat_example by (intro pstree_prints [where pids = "[1, 12, 7]" and ppid = ?ppid]) (simp_all add: has_option_def)
  then show ?thesis using show_nat_example by (simp add: has_option_def label_def numeral_2_eq_2)
qed

end
