(* ===== verification/Crepl.thy ===== *)
theory Crepl
  imports Prelude Decimal
begin

text \<open>
  \<open>crepl/crepl.c\<close>: a loop that reads a line of C, lets \<open>gcc\<close> compile it into a shared library, loads it
  and, for an expression, calls it.  The compiler, the loader and the loaded code are parameters.  The
  creation of the temporary file and the writes into it are taken to succeed; a text is what has been
  written into the file.
\<close>

section \<open>The program\<close>

text \<open>\<open>gcc\<close> gives the status that \<open>wait\<close> reports, or \<open>None\<close> if \<open>fork\<close> fails.\<close>

record tools =
  gcc :: "char list \<Rightarrow> int option"
  dl_open :: "string \<Rightarrow> char list \<Rightarrow> bool"
  call_fun :: "(string \<times> char list) list \<Rightarrow> string \<Rightarrow> int"

record repl =
  line :: "char list"
  cnt :: nat
  libs :: "(string \<times> char list) list"

datatype repl_msg = Prompt | Value int | Exit_Msg | Compile_Error | Dlerror | Perror

datatype repl_next = Continue repl string | Stop int

abbreviation (input) NUL :: char where "NUL \<equiv> CHR 0x00"

definition repl0 :: repl where
  "repl0 = \<lparr>line = replicate 4096 NUL, cnt = 0, libs = []\<rparr>"

text \<open>At most \<open>n\<close> characters, up to the end of the line.\<close>

fun get_line :: "nat \<Rightarrow> string \<Rightarrow> string \<times> string" where
  "get_line 0 inp = ([], inp)"
| "get_line (Suc n) [] = ([], [])"
| "get_line (Suc n) (c # cs) = (if c = CHR 10 then ([c], cs) else (case get_line n cs of (s, rest) \<Rightarrow> (c # s, rest)))"

text \<open>\<open>fgets\<close> into a buffer: the text and a NUL; the rest of the buffer stays as it was.\<close>

definition fgets :: "char list \<Rightarrow> string \<Rightarrow> char list \<times> string" where
  "fgets buf inp = (case get_line (length buf - 1) inp of (s, rest) \<Rightarrow> (s @ NUL # drop (length s + 1) buf, rest))"

definition lib_name :: "nat \<Rightarrow> string" where
  "lib_name k = ''/tmp/tmplib'' @ show_nat k @ ''.so''"

definition fun_name :: "nat \<Rightarrow> string" where
  "fun_name k = ''__expr_wrapper_'' @ show_nat k"

definition is_function :: "char list \<Rightarrow> bool" where
  "is_function l \<longleftrightarrow> take 4 l = ''int ''"

text \<open>What is written into the file: whole buffers, with the NULs in them.\<close>

definition source_text :: "char list \<Rightarrow> nat \<Rightarrow> char list" where
  "source_text l k =
     (if is_function l then l @ [CHR 10]
      else ''int '' @ fun_name k @ replicate (32 - length (fun_name k)) NUL @ ''()'' @ ''{'' @ ''return ('' @ l @ '');};'')"

definition WEXITSTATUS :: "int \<Rightarrow> int" where
  "WEXITSTATUS status = status div 256 mod 256"

text \<open>One round.  \<open>str\<close> has four bytes.\<close>

definition repl_step :: "tools \<Rightarrow> repl \<Rightarrow> string \<Rightarrow> (repl_msg list \<times> repl_next) result" where
  "repl_step T r inp = bindR (guardR Out_Of_Bounds (length (show_nat (cnt r)) < 4)) (\<lambda>_.
     if inp = [] then Inr ([Prompt, Exit_Msg], Stop 0)
     else case fgets (line r) inp of (l, rest) \<Rightarrow>
       let src = source_text l (cnt r); lib = lib_name (cnt r) in
       case gcc T src of
         None \<Rightarrow> Inr ([Prompt, Perror], Stop 1)
       | Some status \<Rightarrow>
           if WEXITSTATUS status \<noteq> 0 then Inr ([Prompt, Compile_Error], Continue (r\<lparr>line := l\<rparr>) rest)
           else if \<not> dl_open T lib src then Inr ([Prompt, Dlerror], Stop 1)
           else let ls = libs r @ [(lib, src)] in
             Inr (Prompt # (if is_function l then [] else [Value (call_fun T ls (fun_name (cnt r)))]),
               Continue \<lparr>line = replicate (length (line r)) NUL, cnt = cnt r + 1, libs = ls\<rparr> rest))"

partial_function (option) repl_loop :: "tools \<Rightarrow> repl \<Rightarrow> string \<Rightarrow> (repl_msg list \<times> int \<times> repl) result option" where
  "repl_loop T r inp = (case repl_step T r inp of
       Inl e \<Rightarrow> Some (Inl e)
     | Inr (ms, next) \<Rightarrow> (case next of
         Stop status \<Rightarrow> Some (Inr (ms, status, r))
       | Continue r' rest \<Rightarrow> Option.bind (repl_loop T r' rest) (\<lambda>x. Some (bindR x (\<lambda>(ms', st). Inr (ms @ ms', st))))))"

definition crepl_main :: "tools \<Rightarrow> string \<Rightarrow> (repl_msg list \<times> int \<times> repl) result" where
  "crepl_main T inp = returns (repl_loop T repl0 inp)"

section \<open>Termination\<close>

lemma get_line_length: "get_line n inp = (s, rest) \<Longrightarrow> length inp = length s + length rest \<and> length s \<le> n"
  by (induction n inp arbitrary: s rest rule: get_line.induct) (auto split: prod.splits if_splits)

lemma get_line_consumes: "get_line (Suc n) inp = (s, rest) \<Longrightarrow> inp \<noteq> [] \<Longrightarrow> length rest < length inp"
  by (cases inp) (auto split: prod.splits if_splits dest: get_line_length)

lemma fgets_length:
  assumes "fgets buf inp = (l, rest)" and "0 < length buf"
  shows "length l = length buf"
proof -
  obtain s where s: "get_line (length buf - 1) inp = (s, rest)" "l = s @ NUL # drop (length s + 1) buf"
    using assms(1) by (auto simp: fgets_def split: prod.splits)
  have "length s + 1 \<le> length buf" using get_line_length [OF s(1)] assms(2) by linarith
  then show ?thesis using s(2) by simp
qed

lemma repl_step_Continue:
  assumes "repl_step T r inp = Inr (ms, Continue r' rest)" and "1 < length (line r)"
  shows "length rest < length inp \<and> length (line r') = length (line r)"
proof -
  have ne: "inp \<noteq> []" using assms(1) by (auto simp: repl_step_def bindR_Inr_iff)
  obtain l rest' where l: "fgets (line r) inp = (l, rest')" by fastforce
  obtain n where n: "length (line r) - 1 = Suc n" using assms(2) by (metis Suc_diff_Suc)
  have "length rest' < length inp" using l ne get_line_consumes [of n inp] unfolding fgets_def n by (auto split: prod.splits)
  moreover have "length l = length (line r)" using assms(2) by (intro fgets_length [OF l]) linarith
  moreover have "rest' = rest" "line r' = l \<or> line r' = replicate (length (line r)) NUL"
    using assms(1) l ne by (auto simp: repl_step_def bindR_Inr_iff Let_def split: option.splits if_splits)
  ultimately show ?thesis by auto
qed

text \<open>Every round consumes a part of the input, so the loop ends.\<close>

lemma repl_loop_ends: "1 < length (line r) \<Longrightarrow> \<exists>x. repl_loop T r inp = Some x"
proof (induction "length inp" arbitrary: r inp rule: less_induct)
  case less
  show ?case
  proof (cases "\<exists>ms r' rest. repl_step T r inp = Inr (ms, Continue r' rest)")
    case True
    then obtain ms r' rest where s: "repl_step T r inp = Inr (ms, Continue r' rest)" by blast
    then have "\<exists>x. repl_loop T r' rest = Some x" using less repl_step_Continue [OF s] by simp
    then show ?thesis using s by (subst repl_loop.simps) auto
  next
    case False
    then show ?thesis by (subst repl_loop.simps) (auto split: sum.splits prod.splits repl_next.splits)
  qed
qed

section \<open>A session\<close>

text \<open>A line of the input, as it stands in a clean buffer.\<close>

definition clean :: "string \<Rightarrow> char list" where
  "clean s = s @ CHR 10 # replicate (4095 - length s) NUL"

lemma get_line_whole: "CHR 10 \<notin> set s \<Longrightarrow> length s < n \<Longrightarrow> get_line n (s @ CHR 10 # rest) = (s @ [CHR 10], rest)"
  by (induction n arbitrary: s; case_tac s) auto

lemma fgets_clean:
  assumes "CHR 10 \<notin> set s" and "length s < 4095"
  shows "fgets (replicate 4096 NUL) (s @ CHR 10 # rest) = (clean s, rest)"
proof -
  have "get_line 4095 (s @ CHR 10 # rest) = (s @ [CHR 10], rest)" using assms by (rule get_line_whole)
  moreover have "NUL # replicate (4094 - length s) NUL = replicate (4095 - length s) NUL"
    using assms(2) by (simp flip: replicate_Suc add: Suc_diff_Suc)
  ultimately show ?thesis by (simp add: fgets_def clean_def)
qed

text \<open>What a session loads: one library per line, whose functions have different names.\<close>

definition session_libs :: "nat \<Rightarrow> string list \<Rightarrow> (string \<times> char list) list" where
  "session_libs k ls = map (\<lambda>(i, s). (lib_name i, source_text (clean s) i)) (zip [k..<k + length ls] ls)"

lemma session_libs_Cons: "session_libs k (s # ls) = (lib_name k, source_text (clean s) k) # session_libs (Suc k) ls"
proof -
  have "[k..<k + length (s # ls)] = k # [Suc k..<Suc k + length ls]" using upt_conv_Cons [of k "k + length (s # ls)"] by simp
  then show ?thesis unfolding session_libs_def by simp
qed

text \<open>When every line compiles, each is compiled alone, in a library and under a name of its own.\<close>

lemma session_loads:
  assumes "\<forall>s\<in>set ls. CHR 10 \<notin> set s \<and> length s < 4095" and "\<forall>src. gcc T src = Some 0" and "\<forall>l src. dl_open T l src"
    and "\<forall>i\<le>k + length ls. length (show_nat i) < 4" and "line r = replicate 4096 NUL" and "cnt r = k"
  shows "\<exists>ms r'. repl_loop T r (concat (map (\<lambda>s. s @ [CHR 10]) ls)) = Some (Inr (ms, 0, r')) \<and>
    libs r' = libs r @ session_libs k ls \<and> length ms = 2 + length ls + length (filter (\<lambda>s. \<not> is_function (clean s)) ls)"
  using assms(1,4-)
proof (induction ls arbitrary: k r)
  case Nil
  then show ?case by (subst repl_loop.simps) (simp add: repl_step_def session_libs_def)
next
  case (Cons s ls)
  define r1 where "r1 = \<lparr>line = replicate 4096 NUL, cnt = k + 1, libs = libs r @ [(lib_name k, source_text (clean s) k)]\<rparr>"
  let ?rest = "concat (map (\<lambda>s. s @ [CHR 10]) ls)"
  obtain ms where ms: "repl_step T r (s @ CHR 10 # ?rest) = Inr (ms, Continue r1 ?rest)"
    "length ms = 1 + (if is_function (clean s) then 0 else 1)"
    using Cons.prems assms(2,3) fgets_clean [of s ?rest]
    by (auto simp: repl_step_def Let_def WEXITSTATUS_def r1_def)
  obtain ms' r' where "repl_loop T r1 ?rest = Some (Inr (ms', 0, r'))" "libs r' = libs r1 @ session_libs (Suc k) ls"
    "length ms' = 2 + length ls + length (filter (\<lambda>s. \<not> is_function (clean s)) ls)"
    using Cons.IH [of "Suc k" r1] Cons.prems by (auto simp: r1_def)
  then show ?case using ms by (subst repl_loop.simps) (simp add: session_libs_Cons r1_def)
qed

text \<open>After a compile error the buffer is not cleared: what a longer line has left behind its end is
  compiled with the next line.\<close>

lemma stale_line:
  assumes "CHR 10 \<notin> set s" and "length s + 1 < length (line r)" and "WEXITSTATUS st \<noteq> 0"
    and "length (show_nat (cnt r)) < 4"
    and "gcc T (source_text (s @ CHR 10 # NUL # drop (length s + 2) (line r)) (cnt r)) = Some st"
  shows "repl_step T r (s @ CHR 10 # rest) =
    Inr ([Prompt, Compile_Error], Continue (r\<lparr>line := s @ CHR 10 # NUL # drop (length s + 2) (line r)\<rparr>) rest)"
proof -
  have "get_line (length (line r) - 1) (s @ CHR 10 # rest) = (s @ [CHR 10], rest)"
    using assms(1,2) by (intro get_line_whole) auto
  then show ?thesis using assms(3-) by (simp add: repl_step_def fgets_def Let_def)
qed

end
