(* ===== verification/Threados.thy ===== *)
theory Threados
  imports Prelude
begin

text \<open>
  \<open>thread-os.c\<close>: a small system of five threads on several processors.  Thread \<open>k\<close> belongs to the
  processor \<open>k mod ncpu\<close>; at every interrupt a processor goes on to its next thread.  A pointer to a task
  is its index in \<open>tasks\<close>.
\<close>

section \<open>The program\<close>

record 'c thread_os =
  currents :: "nat \<Rightarrow> nat option"
  contexts :: "nat \<Rightarrow> 'c"
  nexts :: "nat \<Rightarrow> nat"

definition task_names :: "string list" where
  "task_names = [''A'', ''B'', ''C'', ''D'', ''E'']"

text \<open>\<open>main\<close>: \<open>kctx\<close> is the context that \<open>kcontext\<close> makes for the thread of that name.\<close>

definition thread_main :: "(string \<Rightarrow> 'c) \<Rightarrow> 'c thread_os" where
  "thread_main kctx = \<lparr>currents = (\<lambda>_. None), contexts = (\<lambda>i. kctx (task_names ! i)),
     nexts = (\<lambda>i. (i + 1) mod length task_names)\<rparr>"

partial_function (option) next_task :: "(nat \<Rightarrow> nat) \<Rightarrow> nat \<Rightarrow> nat \<Rightarrow> nat \<Rightarrow> nat option" where
  "next_task nx ncpu cpu k = (let k = nx k in if k mod ncpu \<noteq> cpu then next_task nx ncpu cpu k else Some k)"

definition on_interrupt :: "nat \<Rightarrow> nat \<Rightarrow> 'c \<Rightarrow> 'c thread_os \<Rightarrow> ('c \<times> 'c thread_os) result" where
  "on_interrupt ncpu cpu ctx s =
     (let s = (case currents s cpu of None \<Rightarrow> s\<lparr>currents := (currents s)(cpu := Some 0)\<rparr>
        | Some k \<Rightarrow> s\<lparr>contexts := (contexts s)(k := ctx)\<rparr>)
      in case next_task (nexts s) ncpu cpu (the (currents s cpu)) of
           None \<Rightarrow> Inl Spin_Forever
         | Some k \<Rightarrow> Inr (contexts s k, s\<lparr>currents := (currents s)(cpu := Some k)\<rparr>))"

section \<open>Scheduling\<close>

text \<open>The threads of a processor are only its own.\<close>

definition threads_ok :: "nat \<Rightarrow> 'c thread_os \<Rightarrow> bool" where
  "threads_ok ncpu s \<longleftrightarrow> nexts s = (\<lambda>i. (i + 1) mod 5) \<and>
     (\<forall>c k. currents s c = Some k \<longrightarrow> k < 5 \<and> k mod ncpu = c)"

lemma threads_ok_main: "threads_ok ncpu (thread_main kctx)"
  by (simp add: threads_ok_def thread_main_def task_names_def)

lemma next_task_ends:
  assumes "cpu < ncpu" and "cpu < 5" and "k < 5"
  shows "\<exists>j. next_task (\<lambda>i. (i + 1) mod 5) ncpu cpu k = Some j \<and> j < 5 \<and> j mod ncpu = cpu"
  using assms(3)
proof (induction "(cpu + 4 - k) mod 5" arbitrary: k rule: less_induct)
  case less
  let ?k = "(k + 1) mod 5"
  show ?case
  proof (cases "?k mod ncpu = cpu")
    case True
    then show ?thesis by (subst next_task.simps) simp
  next
    case False
    then have "?k \<noteq> cpu" using assms(1) by auto
    moreover have "k \<in> {0, 1, 2, 3, 4}" "cpu \<in> {0, 1, 2, 3, 4}" using less.prems assms(2) by auto
    ultimately have "(cpu + 4 - ?k) mod 5 < (cpu + 4 - k) mod 5" by auto
    then have "\<exists>j. next_task (\<lambda>i. (i + 1) mod 5) ncpu cpu ?k = Some j \<and> j < 5 \<and> j mod ncpu = cpu"
      using less.hyps by simp
    then show ?thesis using False by (subst next_task.simps) simp
  qed
qed

text \<open>An interrupt on one of the first five processors returns the context of a thread of that processor,
  and saves the one of the thread that it interrupts.\<close>

lemma on_interrupt_ok:
  assumes ok: "threads_ok ncpu s" and c: "cpu < ncpu" "cpu < 5"
  shows "\<exists>k s'. on_interrupt ncpu cpu ctx s = Inr (contexts s' k, s') \<and> threads_ok ncpu s' \<and> currents s' cpu = Some k \<and>
    (\<forall>d. d \<noteq> cpu \<longrightarrow> currents s' d = currents s d) \<and>
    contexts s' = (case currents s cpu of None \<Rightarrow> contexts s | Some i \<Rightarrow> (contexts s)(i := ctx))"
proof -
  let ?i = "case currents s cpu of None \<Rightarrow> 0 | Some i \<Rightarrow> i"
  have "?i < 5" using ok by (auto simp: threads_ok_def split: option.splits)
  then obtain k where "next_task (nexts s) ncpu cpu ?i = Some k" "k < 5" "k mod ncpu = cpu"
    using next_task_ends [OF c] ok by (auto simp: threads_ok_def)
  then show ?thesis using ok
    by (cases "currents s cpu") (auto simp: on_interrupt_def threads_ok_def Let_def intro!: exI [of _ k])
qed

text \<open>Two processors never run the same thread.\<close>

lemma threads_exclusive:
  assumes "threads_ok ncpu s" and "currents s c = Some k" and "currents s d = Some k"
  shows "c = d"
  using assms by (metis threads_ok_def)

text \<open>A sixth processor has no thread, and its first interrupt never returns.\<close>

lemma next_task_none:
  assumes "next_task (\<lambda>i. (i + 1) mod 5) ncpu cpu k = Some j"
  shows "j < 5 \<and> j mod ncpu = cpu"
proof (rule next_task.raw_induct [OF _ assms, where P = "\<lambda>(nx :: nat \<Rightarrow> nat) n c k j. nx = (\<lambda>i. (i + 1) mod 5) \<longrightarrow> j < 5 \<and> j mod n = c", THEN mp])
  fix f and nx :: "nat \<Rightarrow> nat" and n c k j
  assume "\<And>nx n c k j. f nx n c k = Some j \<Longrightarrow> nx = (\<lambda>i. (i + 1) mod 5) \<longrightarrow> j < 5 \<and> j mod n = c"
    and "(let k = nx k in if k mod n \<noteq> c then f nx n c k else Some k) = Some j"
  then show "nx = (\<lambda>i. (i + 1) mod 5) \<longrightarrow> j < 5 \<and> j mod n = c"
    by (auto simp: Let_def split: if_splits)
qed simp

lemma on_interrupt_sixth:
  assumes "5 \<le> cpu" and "cpu < ncpu" and "threads_ok ncpu s" and "currents s cpu = None"
  shows "on_interrupt ncpu cpu ctx s = Inl Spin_Forever"
proof (cases "next_task (\<lambda>i. (i + 1) mod 5) ncpu cpu 0")
  case None
  then show ?thesis using assms(3,4) by (simp add: on_interrupt_def threads_ok_def Let_def)
next
  case (Some j)
  then have "j < 5" "j mod ncpu = cpu" using next_task_none by blast+
  then show ?thesis using assms(1,2) by simp
qed

end
