(* ===== verification/Nativevme.thy ===== *)
theory Nativevme
  imports Prelude
begin

text \<open>
  Address spaces of the port to Linux, \<open>am/src/native/vme.c\<close>: an address space is a linked list of page
  mappings with a hash table, and a switch replaces the mappings of the old space by those of the new with
  \<open>mmap\<close> and \<open>munmap\<close>.  The structures live in two typed stores; \<open>pgalloc\<close> is a parameter on a state of
  its own.  A key of the table is the number that \<open>%x\<close> prints, the low 32 bits of the address.
\<close>

section \<open>State\<close>

record pagemap =
  pm_va :: addr
  pm_pa :: addr
  pm_next :: addr
  pm_prot :: u32
  pm_mapped :: bool

record vmhead =
  vm_head :: addr
  vm_hash :: "u32 \<Rightarrow> addr option"
  vm_max :: nat
  nr_page :: nat

record 'p native =
  pool :: 'p
  pmaps :: "addr \<Rightarrow> pagemap"
  vmheads :: "addr \<Rightarrow> vmhead"
  cur_head :: addr
  vme_enable :: bool
  pages :: "addr \<Rightarrow> (addr \<times> bool \<times> bool) option"

definition USER_START :: addr where "USER_START = 0x40000000"
definition USER_END :: addr where "USER_END = 0xc0000000"

definition MMAP_READ_int :: u32 where "MMAP_READ_int = 1"
definition MMAP_WRITE_int :: u32 where "MMAP_WRITE_int = 2"

text \<open>\<open>mmap\<close> at a fixed address replaces the page; the rights are \<open>prot & 1\<close> and \<open>prot & 2\<close>.\<close>

definition pmem_map :: "addr \<Rightarrow> addr \<Rightarrow> u32 \<Rightarrow> 'p native \<Rightarrow> 'p native" where
  "pmem_map va pa prot s = s\<lparr>pages := (pages s)(va \<mapsto> (pa, prot AND MMAP_READ_int \<noteq> 0, prot AND MMAP_WRITE_int \<noteq> 0))\<rparr>"

definition pmem_unmap :: "addr \<Rightarrow> 'p native \<Rightarrow> 'p native" where
  "pmem_unmap va s = s\<lparr>pages := (pages s)(va := None)\<rparr>"

section \<open>Operations\<close>

definition native_vme_init :: "'p native \<Rightarrow> bool \<times> 'p native" where
  "native_vme_init s = (True, s\<lparr>vme_enable := True\<rparr>)"

text \<open>The new list head is the pointer of the address space.\<close>

definition native_protect :: "('p \<Rightarrow> addr \<times> 'p) \<Rightarrow> nat \<Rightarrow> 'p native \<Rightarrow> (addr \<times> 'p native) result" where
  "native_protect pgalloc pgsize s =
     (case pgalloc (pool s) of (h, pool') \<Rightarrow>
      bindR (guardR Assert_Fail (h \<noteq> NULL)) (\<lambda>_.
      Inr (h, s\<lparr>pool := pool', vmheads := (vmheads s)(h := \<lparr>vm_head = NULL, vm_hash = (\<lambda>_. None),
        vm_max = unat (USER_END - USER_START) div pgsize, nr_page = 0\<rparr>)\<rparr>)))"

partial_function (option) unmap_all :: "addr \<Rightarrow> 'p native \<Rightarrow> 'p native option" where
  "unmap_all pp s = (if pp = NULL then Some s
     else let m = pmaps s pp;
       s = (if pm_mapped m then (pmem_unmap (pm_va m) s)\<lparr>pmaps := (pmaps s)(pp := m\<lparr>pm_mapped := False\<rparr>)\<rparr> else s)
     in unmap_all (pm_next m) s)"

partial_function (option) map_all :: "addr \<Rightarrow> 'p native \<Rightarrow> 'p native result option" where
  "map_all pp s = (if pp = NULL then Some (Inr s)
     else let m = pmaps s pp in
       if USER_START \<le> pm_va m \<and> pm_va m < USER_END then
         map_all (pm_next m) ((pmem_map (pm_va m) (pm_pa m) (pm_prot m) s)\<lparr>pmaps := (pmaps s)(pp := m\<lparr>pm_mapped := True\<rparr>)\<rparr>)
       else Some (Inl Assert_Fail))"

text \<open>\<open>head\<close> is the address space of the context that the processor goes on with.\<close>

definition native_switch :: "addr \<Rightarrow> 'p native \<Rightarrow> 'p native result" where
  "native_switch head s =
     (if \<not> vme_enable s then Inr s
      else if head = cur_head s then Inr (s\<lparr>cur_head := head\<rparr>)
      else
        bindR (returns (if cur_head s \<noteq> NULL then map_option Inr (unmap_all (vm_head (vmheads s (cur_head s))) s) else Some (Inr s))) (\<lambda>s.
        bindR (returns (if head \<noteq> NULL then map_all (vm_head (vmheads s head)) s else Some (Inr s))) (\<lambda>s.
        Inr (s\<lparr>cur_head := head\<rparr>))))"

definition native_map :: "('p \<Rightarrow> addr \<times> 'p) \<Rightarrow> nat \<Rightarrow> addr \<Rightarrow> addr \<Rightarrow> addr \<Rightarrow> u32 \<Rightarrow> 'p native \<Rightarrow> 'p native result" where
  "native_map pgalloc pgsize as va pa prot s =
     bindR (guardR Assert_Fail (USER_START \<le> va \<and> va < USER_END \<and> unat va mod pgsize = 0 \<and> unat pa mod pgsize = 0)) (\<lambda>_.
     bindR (guardR Assert_Fail (as \<noteq> NULL)) (\<lambda>_.
     let key = ucast va :: u32; h = vmheads s as in
     bindR (case vm_hash h key of
         Some pp \<Rightarrow> Inr (pp, s)
       | None \<Rightarrow> (case pgalloc (pool s) of (pp, pool') \<Rightarrow>
           bindR (guardR Null_Deref (pp \<noteq> NULL)) (\<lambda>_.
           bindR (guardR Assert_Fail (card (dom (vm_hash h)) < vm_max h)) (\<lambda>_.
           Inr (pp, s\<lparr>pool := pool',
             vmheads := (vmheads s)(as := h\<lparr>vm_hash := (vm_hash h)(key \<mapsto> pp), nr_page := nr_page h + 1\<rparr>)\<rparr>))))) (\<lambda>(pp, s).
     let h = vmheads s as;
       m = \<lparr>pm_va = va, pm_pa = pa, pm_next = vm_head h, pm_prot = prot, pm_mapped = False\<rparr>;
       s = s\<lparr>pmaps := (pmaps s)(pp := m), vmheads := (vmheads s)(as := h\<lparr>vm_head := pp\<rparr>)\<rparr>
     in if as = cur_head s
        then Inr ((pmem_map va pa prot s)\<lparr>pmaps := (pmaps s)(pp := m\<lparr>pm_mapped := True\<rparr>)\<rparr>)
        else Inr s)))"

definition in_userspace :: "addr \<Rightarrow> 'p native \<Rightarrow> bool" where
  "in_userspace a s \<longleftrightarrow> vme_enable s \<and> cur_head s \<noteq> NULL \<and> USER_START \<le> a \<and> a < USER_END"

end
