(* ===== verification/NativevmeProofs.thy ===== *)
theory NativevmeProofs
  imports Nativevme
begin

text \<open>
  What the address spaces of the Linux port show of their mappings.  The list of an address space is a path
  through \<open>next\<close>; the invariant says that the lists are disjoint, that exactly the mappings of the current
  space are in place, and that the hash table finds the entries of the list.
\<close>

section \<open>Lists of mappings\<close>

fun plist :: "(addr \<Rightarrow> pagemap) \<Rightarrow> addr \<Rightarrow> addr list \<Rightarrow> bool" where
  "plist f p [] \<longleftrightarrow> p = NULL"
| "plist f p (q # qs) \<longleftrightarrow> p = q \<and> p \<noteq> NULL \<and> plist f (pm_next (f p)) qs"

lemma plist_cong: "\<forall>q\<in>set ps. pm_next (g q) = pm_next (f q) \<Longrightarrow> plist g p ps = plist f p ps"
  by (induction ps arbitrary: p) auto

lemma plist_NULL: "plist f p ps \<Longrightarrow> NULL \<notin> set ps"
  by (induction ps arbitrary: p) auto

definition page_of :: "pagemap \<Rightarrow> addr \<times> addr \<times> bool \<times> bool" where
  "page_of m = (pm_va m, pm_pa m, pm_prot m AND MMAP_READ_int \<noteq> 0, pm_prot m AND MMAP_WRITE_int \<noteq> 0)"

text \<open>The address space that a list stands for.\<close>

definition space :: "(addr \<Rightarrow> pagemap) \<Rightarrow> addr list \<Rightarrow> addr \<Rightarrow> (addr \<times> bool \<times> bool) option" where
  "space f ps = map_of (map (\<lambda>p. page_of (f p)) ps)"

definition set_mapped :: "bool \<Rightarrow> addr list \<Rightarrow> (addr \<Rightarrow> pagemap) \<Rightarrow> addr \<Rightarrow> pagemap" where
  "set_mapped b ps f = (\<lambda>p. if p \<in> set ps then (f p)\<lparr>pm_mapped := b\<rparr> else f p)"

lemma set_mapped_simps [simp]:
  "pm_va (set_mapped b ps f p) = pm_va (f p)" "pm_pa (set_mapped b ps f p) = pm_pa (f p)"
  "pm_prot (set_mapped b ps f p) = pm_prot (f p)" "pm_next (set_mapped b ps f p) = pm_next (f p)"
  "p \<in> set ps \<Longrightarrow> pm_mapped (set_mapped b ps f p) = b" "p \<notin> set ps \<Longrightarrow> set_mapped b ps f p = f p"
  by (simp_all add: set_mapped_def)

lemma page_of_set_mapped [simp]: "page_of (set_mapped b ps f p) = page_of (f p)"
  by (simp add: page_of_def)

lemma space_set_mapped [simp]: "space (set_mapped b ps f) qs = space f qs"
  by (simp add: space_def)

lemma space_Cons: "space f (p # ps) = (space f ps)(pm_va (f p) \<mapsto> snd (page_of (f p)))"
  by (simp add: space_def page_of_def)

lemma dom_space: "dom (space f ps) = (\<lambda>p. pm_va (f p)) ` set ps"
proof (induction ps)
  case Nil
  then show ?case by (simp add: space_def)
next
  case (Cons p ps)
  then show ?case by (simp only: space_Cons dom_fun_upd) simp
qed

section \<open>The two loops of a switch\<close>

lemma unmap_all_ok:
  "plist (pmaps s) p ps \<Longrightarrow> distinct ps \<Longrightarrow> \<forall>q\<in>set ps. pm_mapped (pmaps s q) \<Longrightarrow>
     unmap_all p s = Some (s\<lparr>pmaps := set_mapped False ps (pmaps s), pages := pages s |` (- dom (space (pmaps s) ps))\<rparr>)"
proof (induction ps arbitrary: p s)
  case Nil
  then show ?case by (subst unmap_all.simps) (simp add: set_mapped_def space_def restrict_map_def)
next
  case (Cons q qs)
  let ?m = "pmaps s q"
  let ?t = "(pmem_unmap (pm_va ?m) s)\<lparr>pmaps := (pmaps s)(q := ?m\<lparr>pm_mapped := False\<rparr>)\<rparr>"
  have p: "p = q" "q \<noteq> NULL" "q \<notin> set qs" using Cons.prems by auto
  have t: "?t\<lparr>pmaps := A, pages := B\<rparr> = s\<lparr>pmaps := A, pages := B\<rparr>" for A B by (simp add: pmem_unmap_def)
  have "plist (pmaps ?t) (pm_next ?m) qs = plist (pmaps s) (pm_next ?m) qs" by (rule plist_cong) simp
  then have "plist (pmaps ?t) (pm_next ?m) qs" using Cons.prems(1) p(1) by simp
  moreover have "distinct qs" using Cons.prems(2) by simp
  moreover have "\<forall>r\<in>set qs. pm_mapped (pmaps ?t r)" using Cons.prems p by auto
  ultimately have "unmap_all (pm_next ?m) ?t =
      Some (?t\<lparr>pmaps := set_mapped False qs (pmaps ?t), pages := pages ?t |` (- dom (space (pmaps ?t) qs))\<rparr>)"
    by (rule Cons.IH)
  moreover have "set_mapped False qs (pmaps ?t) = set_mapped False (q # qs) (pmaps s)"
    using p by (auto simp: set_mapped_def fun_eq_iff)
  moreover have "dom (space (pmaps ?t) qs) = dom (space (pmaps s) qs)" unfolding dom_space by (rule image_cong) simp_all
  moreover have "pages ?t |` (- dom (space (pmaps s) qs)) = pages s |` (- dom (space (pmaps s) (q # qs)))"
    by (auto simp: pmem_unmap_def restrict_map_def space_Cons fun_eq_iff)
  ultimately have "unmap_all (pm_next ?m) ?t =
      Some (s\<lparr>pmaps := set_mapped False (q # qs) (pmaps s), pages := pages s |` (- dom (space (pmaps s) (q # qs)))\<rparr>)"
    by (simp only: t)
  then show ?case using Cons.prems(3) p by (subst unmap_all.simps) (simp add: Let_def)
qed

lemma map_all_ok:
  "plist (pmaps s) p ps \<Longrightarrow> distinct (map (\<lambda>q. pm_va (pmaps s q)) ps) \<Longrightarrow>
     \<forall>q\<in>set ps. USER_START \<le> pm_va (pmaps s q) \<and> pm_va (pmaps s q) < USER_END \<Longrightarrow>
     map_all p s = Some (Inr (s\<lparr>pmaps := set_mapped True ps (pmaps s), pages := pages s ++ space (pmaps s) ps\<rparr>))"
proof (induction ps arbitrary: p s)
  case Nil
  then show ?case by (subst map_all.simps) (simp add: set_mapped_def space_def)
next
  case (Cons q qs)
  let ?m = "pmaps s q"
  let ?t = "(pmem_map (pm_va ?m) (pm_pa ?m) (pm_prot ?m) s)\<lparr>pmaps := (pmaps s)(q := ?m\<lparr>pm_mapped := True\<rparr>)\<rparr>"
  have p: "p = q" "q \<noteq> NULL" "q \<notin> set qs" using Cons.prems by auto
  have t: "?t\<lparr>pmaps := A, pages := B\<rparr> = s\<lparr>pmaps := A, pages := B\<rparr>" for A B by (simp add: pmem_map_def)
  have va: "pm_va (pmaps ?t r) = pm_va (pmaps s r)" for r by simp
  have "plist (pmaps ?t) (pm_next ?m) qs = plist (pmaps s) (pm_next ?m) qs" by (rule plist_cong) simp
  then have "plist (pmaps ?t) (pm_next ?m) qs" using Cons.prems(1) p(1) by simp
  moreover have "distinct (map (\<lambda>r. pm_va (pmaps ?t r)) qs)" using Cons.prems(2) by (simp only: va) simp
  moreover have "\<forall>r\<in>set qs. USER_START \<le> pm_va (pmaps ?t r) \<and> pm_va (pmaps ?t r) < USER_END"
    using Cons.prems(3) by (simp only: va) simp
  ultimately have "map_all (pm_next ?m) ?t =
      Some (Inr (?t\<lparr>pmaps := set_mapped True qs (pmaps ?t), pages := pages ?t ++ space (pmaps ?t) qs\<rparr>))"
    by (rule Cons.IH)
  moreover have "set_mapped True qs (pmaps ?t) = set_mapped True (q # qs) (pmaps s)"
    using p by (auto simp: set_mapped_def fun_eq_iff)
  moreover have "space (pmaps ?t) qs = space (pmaps s) qs"
    unfolding space_def using p(3) by (intro arg_cong [of _ _ map_of] map_cong) auto
  moreover have "pages ?t ++ space (pmaps s) qs = pages s ++ space (pmaps s) (q # qs)"
  proof -
    have "pm_va ?m \<notin> dom (space (pmaps s) qs)" using Cons.prems(2) by (simp add: dom_space image_iff)
    then show ?thesis by (auto simp: pmem_map_def map_add_def space_Cons page_of_def fun_eq_iff split: option.splits)
  qed
  ultimately have "map_all (pm_next ?m) ?t =
      Some (Inr (s\<lparr>pmaps := set_mapped True (q # qs) (pmaps s), pages := pages s ++ space (pmaps s) (q # qs)\<rparr>))"
    by (simp only: t)
  then show ?case using Cons.prems(3) p by (subst map_all.simps) (simp add: Let_def)
qed

section \<open>The invariant\<close>

text \<open>\<open>S\<close> gives the list of every address space.\<close>

definition space_ok :: "'p native \<Rightarrow> addr \<Rightarrow> addr list \<Rightarrow> bool" where
  "space_ok s h ps \<longleftrightarrow> plist (pmaps s) (vm_head (vmheads s h)) ps \<and> distinct (map (\<lambda>p. pm_va (pmaps s p)) ps) \<and>
     (\<forall>p\<in>set ps. USER_START \<le> pm_va (pmaps s p) \<and> pm_va (pmaps s p) < USER_END \<and>
        (pm_mapped (pmaps s p) \<longleftrightarrow> h = cur_head s)) \<and>
     (\<forall>k p. vm_hash (vmheads s h) k = Some p \<longleftrightarrow> p \<in> set ps \<and> k = ucast (pm_va (pmaps s p)))"

definition native_inv :: "'p native \<Rightarrow> (addr \<Rightarrow> addr list option) \<Rightarrow> bool" where
  "native_inv s S \<longleftrightarrow> S NULL = None \<and> (\<forall>h ps. S h = Some ps \<longrightarrow> space_ok s h ps) \<and>
     (\<forall>h g ps qs. S h = Some ps \<longrightarrow> S g = Some qs \<longrightarrow> h \<noteq> g \<longrightarrow> set ps \<inter> set qs = {}) \<and>
     (cur_head s \<noteq> NULL \<longrightarrow> S (cur_head s) \<noteq> None) \<and>
     pages s = space (pmaps s) (case S (cur_head s) of None \<Rightarrow> [] | Some ps \<Rightarrow> ps)"

lemma native_invD:
  assumes "native_inv s S"
  shows "S NULL = None" and "S h = Some ps \<Longrightarrow> space_ok s h ps"
    and "S h = Some ps \<Longrightarrow> S g = Some qs \<Longrightarrow> h \<noteq> g \<Longrightarrow> set ps \<inter> set qs = {}"
    and "cur_head s \<noteq> NULL \<Longrightarrow> S (cur_head s) \<noteq> None"
    and "pages s = space (pmaps s) (case S (cur_head s) of None \<Rightarrow> [] | Some ps \<Rightarrow> ps)"
  using assms unfolding native_inv_def by blast+

lemma space_okD:
  assumes "space_ok s h ps"
  shows "plist (pmaps s) (vm_head (vmheads s h)) ps" and "distinct (map (\<lambda>p. pm_va (pmaps s p)) ps)" and "distinct ps"
    and "p \<in> set ps \<Longrightarrow> USER_START \<le> pm_va (pmaps s p) \<and> pm_va (pmaps s p) < USER_END"
    and "p \<in> set ps \<Longrightarrow> pm_mapped (pmaps s p) \<longleftrightarrow> h = cur_head s"
    and "vm_hash (vmheads s h) k = Some p \<longleftrightarrow> p \<in> set ps \<and> k = ucast (pm_va (pmaps s p))"
proof -
  show d: "distinct (map (\<lambda>p. pm_va (pmaps s p)) ps)" using assms by (simp add: space_ok_def)
  then show "distinct ps" by (simp add: distinct_map)
qed (use assms in \<open>auto simp: space_ok_def\<close>)

text \<open>The space of the pointer, \<open>NULL\<close> standing for the empty one.\<close>

definition list_of :: "(addr \<Rightarrow> addr list option) \<Rightarrow> addr \<Rightarrow> addr list" where
  "list_of S h = (case S h of None \<Rightarrow> [] | Some ps \<Rightarrow> ps)"

lemma leave_ok:
  assumes I: "native_inv s S"
  shows "(if cur_head s \<noteq> NULL then map_option Inr (unmap_all (vm_head (vmheads s (cur_head s))) s) else Some (Inr s)) =
    Some (Inr (s\<lparr>pmaps := set_mapped False (list_of S (cur_head s)) (pmaps s), pages := Map.empty\<rparr>) :: 'p native result)"
proof (cases "cur_head s = NULL")
  case True
  then show ?thesis using native_invD(1,5) [OF I] by (simp add: list_of_def set_mapped_def space_def)
next
  case False
  then obtain ps where ps: "S (cur_head s) = Some ps" using native_invD(4) [OF I] by blast
  note ok = native_invD(2) [OF I ps]
  have "unmap_all (vm_head (vmheads s (cur_head s))) s =
      Some (s\<lparr>pmaps := set_mapped False ps (pmaps s), pages := pages s |` (- dom (space (pmaps s) ps))\<rparr>)"
    using space_okD(1,3,5) [OF ok] by (intro unmap_all_ok) simp_all
  moreover have "pages s |` (- dom (space (pmaps s) ps)) = Map.empty"
    using native_invD(5) [OF I] ps by (auto simp: restrict_map_def fun_eq_iff)
  ultimately show ?thesis using False ps by (simp add: list_of_def)
qed

text \<open>The mappings after a switch.\<close>

definition switched :: "(addr \<Rightarrow> addr list option) \<Rightarrow> addr \<Rightarrow> 'p native \<Rightarrow> 'p native" where
  "switched S h s = s\<lparr>pmaps := set_mapped True (list_of S h) (set_mapped False (list_of S (cur_head s)) (pmaps s)),
     pages := space (pmaps s) (list_of S h), cur_head := h\<rparr>"

lemma native_switch_eq:
  assumes I: "native_inv s S" and en: "vme_enable s" and h: "h = NULL \<or> S h \<noteq> None" and ne: "h \<noteq> cur_head s"
  shows "native_switch h s = Inr (switched S h s)"
proof -
  let ?t = "s\<lparr>pmaps := set_mapped False (list_of S (cur_head s)) (pmaps s), pages := Map.empty\<rparr>"
  have "(if h \<noteq> NULL then map_all (vm_head (vmheads ?t h)) ?t else Some (Inr ?t)) =
      Some (Inr (?t\<lparr>pmaps := set_mapped True (list_of S h) (pmaps ?t), pages := space (pmaps s) (list_of S h)\<rparr>))"
  proof (cases "h = NULL")
    case True
    then show ?thesis using native_invD(1) [OF I] by (simp add: list_of_def set_mapped_def space_def)
  next
    case False
    then obtain ps where ps: "S h = Some ps" using h by blast
    note ok = native_invD(2) [OF I ps]
    have "plist (pmaps ?t) (vm_head (vmheads ?t h)) ps = plist (pmaps s) (vm_head (vmheads s h)) ps"
      using plist_cong [of ps "pmaps ?t" "pmaps s"] by simp
    then have "map_all (vm_head (vmheads ?t h)) ?t =
        Some (Inr (?t\<lparr>pmaps := set_mapped True ps (pmaps ?t), pages := pages ?t ++ space (pmaps ?t) ps\<rparr>))"
      using space_okD(1,2,4) [OF ok] by (intro map_all_ok) simp_all
    then show ?thesis using False ps by (simp add: list_of_def)
  qed
  then show ?thesis using en ne leave_ok [OF I]
    by (simp add: native_switch_def switched_def)
qed

lemma switched_ok:
  assumes I: "native_inv s S" and h: "h = NULL \<or> S h \<noteq> None"
  shows "native_inv (switched S h s) S"
proof -
  let ?t = "switched S h s"
  have f: "pm_va (pmaps ?t p) = pm_va (pmaps s p)" "pm_next (pmaps ?t p) = pm_next (pmaps s p)" "vmheads ?t = vmheads s"
    "cur_head ?t = h" for p by (simp_all add: switched_def)
  have m: "pm_mapped (pmaps ?t p) \<longleftrightarrow> g = h" if g: "S g = Some ps" "p \<in> set ps" for g ps p
  proof (cases "g = h")
    case True
    then show ?thesis using g by (simp add: switched_def list_of_def)
  next
    case False
    have "p \<notin> set (list_of S h)"
    proof (cases "S h")
      case (Some qs)
      then show ?thesis using native_invD(3) [OF I g(1) Some False] g(2) by (auto simp: list_of_def)
    qed (simp add: list_of_def)
    moreover have "pm_mapped (set_mapped False (list_of S (cur_head s)) (pmaps s) p) = False"
      using space_okD(5) [OF native_invD(2) [OF I g(1)] g(2)] g by (auto simp: set_mapped_def list_of_def)
    ultimately show ?thesis using False by (simp add: switched_def)
  qed
  have "space_ok ?t g ps" if g: "S g = Some ps" for g ps
  proof -
    note ok = native_invD(2) [OF I g]
    have "plist (pmaps ?t) (vm_head (vmheads ?t g)) ps"
      using space_okD(1) [OF ok] plist_cong [of ps "pmaps ?t" "pmaps s"] f by simp
    then show ?thesis using ok m [OF g] unfolding space_ok_def f by simp
  qed
  moreover have "pages ?t = space (pmaps ?t) (list_of S h)" by (simp add: switched_def)
  moreover have "h \<noteq> NULL \<longrightarrow> S h \<noteq> None" using h by blast
  ultimately show ?thesis using native_invD(1,3) [OF I] unfolding native_inv_def f list_of_def by blast
qed

section \<open>New spaces and new mappings\<close>

lemma native_protect_ok:
  assumes I: "native_inv s S" and al: "pgalloc (pool s) = (h, pool')" "h \<noteq> NULL" "S h = None"
  shows "\<exists>s'. native_protect pgalloc pgsize s = Inr (h, s') \<and> native_inv s' (S(h := Some [])) \<and> pages s' = pages s \<and>
    pmaps s' = pmaps s \<and> cur_head s' = cur_head s \<and> pool s' = pool' \<and> vme_enable s' = vme_enable s"
proof -
  let ?v = "\<lparr>vm_head = NULL, vm_hash = (\<lambda>_. None), vm_max = unat (USER_END - USER_START) div pgsize, nr_page = 0\<rparr>"
  let ?s = "s\<lparr>pool := pool', vmheads := (vmheads s)(h := ?v)\<rparr>"
  have ne: "cur_head s \<noteq> h" using native_invD(4) [OF I] al by auto
  have "space_ok ?s g ps" if "(S(h := Some [])) g = Some ps" for g ps
  proof (cases "g = h")
    case True
    then show ?thesis using that by (simp add: space_ok_def)
  next
    case False
    then show ?thesis using that native_invD(2) [OF I] by (simp add: space_ok_def)
  qed
  moreover have "set ps \<inter> set qs = {}" if "(S(h := Some [])) g = Some ps" "(S(h := Some [])) k = Some qs" "g \<noteq> k" for g k ps qs
    using that native_invD(3) [OF I] by (cases "g = h"; cases "k = h") auto
  ultimately have "native_inv ?s (S(h := Some []))"
    using native_invD(1,4,5) [OF I] ne al unfolding native_inv_def by simp
  then show ?thesis using al by (intro exI [of _ ?s]) (simp add: native_protect_def)
qed

lemma low_bits:
  assumes "USER_START \<le> a" "a < USER_END" "USER_START \<le> b" "b < USER_END" and "(ucast a :: u32) = ucast b"
  shows "a = b"
proof -
  have "unat a < 2 ^ 32" "unat b < 2 ^ 32" using assms(2,4) by (simp_all add: USER_END_def word_less_nat_alt)
  moreover have "unat (ucast a :: u32) = unat (ucast b :: u32)" using assms(5) by simp
  ultimately have "unat a = unat b" by (simp add: unsigned_ucast_eq take_bit_eq_mod)
  then show ?thesis by (simp only: unsigned_word_eqI)
qed

lemma space_ok_cong:
  assumes ok: "space_ok s g qs" and f: "\<forall>p\<in>set qs. pmaps t p = pmaps s p" and v: "vmheads t g = vmheads s g"
    and c: "cur_head t = cur_head s"
  shows "space_ok t g qs"
proof -
  have "plist (pmaps t) (vm_head (vmheads s g)) qs = plist (pmaps s) (vm_head (vmheads s g)) qs"
    by (rule plist_cong) (simp add: f)
  moreover have "distinct (map (\<lambda>p. pm_va (pmaps t p)) qs)"
    using space_okD(2) [OF ok] f by (simp add: distinct_map inj_on_def)
  moreover have "vm_hash (vmheads s g) k = Some p \<longleftrightarrow> p \<in> set qs \<and> k = ucast (pm_va (pmaps t p))" for k p
    using space_okD(6) [OF ok, of k p] f by auto
  ultimately show ?thesis using ok f unfolding space_ok_def v c by simp
qed

text \<open>A new entry in front of the list.\<close>

lemma space_ok_Cons:
  assumes ok: "space_ok s h ps" and f: "\<forall>p\<in>set ps. pmaps t p = pmaps s p"
    and v: "vm_head (vmheads t h) = pp" "vm_hash (vmheads t h) = (vm_hash (vmheads s h))(ucast (pm_va (pmaps t pp)) \<mapsto> pp)"
    and pp: "pp \<notin> set ps" "pp \<noteq> NULL" "pm_next (pmaps t pp) = vm_head (vmheads s h)"
    and va: "USER_START \<le> pm_va (pmaps t pp) \<and> pm_va (pmaps t pp) < USER_END \<and> (pm_mapped (pmaps t pp) \<longleftrightarrow> h = cur_head s)"
    and new: "pm_va (pmaps t pp) \<notin> dom (space (pmaps s) ps)" and c: "cur_head t = cur_head s"
  shows "space_ok t h (pp # ps)"
proof -
  have "plist (pmaps t) (vm_head (vmheads s h)) ps = plist (pmaps s) (vm_head (vmheads s h)) ps"
    by (rule plist_cong) (simp add: f)
  moreover have "distinct (map (\<lambda>p. pm_va (pmaps t p)) ps)"
    using space_okD(2) [OF ok] f by (simp add: distinct_map inj_on_def)
  moreover have "vm_hash (vmheads t h) k = Some p \<longleftrightarrow> p \<in> set (pp # ps) \<and> k = ucast (pm_va (pmaps t p))" for k p
  proof (cases "p \<in> set ps")
    case True
    have "pm_va (pmaps s p) \<in> dom (space (pmaps s) ps)" using True by (simp add: dom_space)
    then have "pm_va (pmaps s p) \<noteq> pm_va (pmaps t pp)" using new by metis
    then have "(ucast (pm_va (pmaps s p)) :: u32) \<noteq> ucast (pm_va (pmaps t pp))"
      using low_bits [of "pm_va (pmaps s p)" "pm_va (pmaps t pp)"] va space_okD(4) [OF ok True] by blast
    then have "k \<noteq> ucast (pm_va (pmaps t pp))" if "k = ucast (pm_va (pmaps s p))" using that by simp
    then show ?thesis using True space_okD(6) [OF ok, of k p] f pp(1) by (auto simp: v(2))
  next
    case False
    then show ?thesis using space_okD(6) [OF ok, of k p] by (auto simp: v(2))
  qed
  ultimately show ?thesis using ok f pp va new unfolding space_ok_def v(1) c
    by (auto simp: dom_space)
qed

definition new_page :: "addr \<Rightarrow> addr \<Rightarrow> u32 \<Rightarrow> addr \<Rightarrow> bool \<Rightarrow> pagemap" where
  "new_page va pa prot nx b = \<lparr>pm_va = va, pm_pa = pa, pm_next = nx, pm_prot = prot, pm_mapped = b\<rparr>"

lemma native_map_ok:
  assumes I: "native_inv s S" and ps: "S h = Some ps"
    and va: "USER_START \<le> va" "va < USER_END" "unat va mod pgsize = 0" "unat pa mod pgsize = 0"
    and new: "va \<notin> dom (space (pmaps s) ps)"
    and al: "pgalloc (pool s) = (pp, pool')" "pp \<noteq> NULL" "\<And>g qs. S g = Some qs \<Longrightarrow> pp \<notin> set qs"
    and cap: "card (dom (vm_hash (vmheads s h))) < vm_max (vmheads s h)"
  shows "\<exists>s'. native_map pgalloc pgsize h va pa prot s = Inr s' \<and> native_inv s' (S(h := Some (pp # ps))) \<and>
    space (pmaps s') (pp # ps) = (space (pmaps s) ps)(va \<mapsto> snd (page_of (new_page va pa prot NULL False))) \<and>
    (\<forall>g qs. g \<noteq> h \<longrightarrow> S g = Some qs \<longrightarrow> space (pmaps s') qs = space (pmaps s) qs) \<and>
    cur_head s' = cur_head s \<and> vme_enable s' = vme_enable s"
proof -
  note ok = native_invD(2) [OF I ps]
  let ?b = "h = cur_head s" and ?v = "vmheads s h"
  let ?m = "new_page va pa prot (vm_head ?v) ?b"
  let ?f = "(pmaps s)(pp := ?m)"
  let ?w = "?v\<lparr>vm_hash := (vm_hash ?v)(ucast va \<mapsto> pp), nr_page := nr_page ?v + 1, vm_head := pp\<rparr>"
  define s' where "s' = s\<lparr>pool := pool', vmheads := (vmheads s)(h := ?w), pmaps := ?f,
    pages := (if ?b then (pages s)(va \<mapsto> snd (page_of ?m)) else pages s)\<rparr>"
  have hN: "h \<noteq> NULL" using native_invD(1) [OF I] ps by auto
  have fr: "pp \<notin> set ps" using al(3) ps by blast
  have key: "vm_hash ?v (ucast va) = None"
  proof (rule ccontr)
    assume "vm_hash ?v (ucast va) \<noteq> None"
    then obtain p where p: "p \<in> set ps" "(ucast va :: u32) = ucast (pm_va (pmaps s p))" using space_okD(6) [OF ok] by (metis not_None_eq)
    then have "va = pm_va (pmaps s p)" using low_bits va space_okD(4) [OF ok p(1)] by blast
    then show False using new p(1) by (simp add: dom_space)
  qed
  have run: "native_map pgalloc pgsize h va pa prot s = Inr s'"
    using va hN al(1,2) cap key
    by (cases ?b) (simp_all add: native_map_def s'_def new_page_def pmem_map_def page_of_def Let_def)
  have s': "pmaps s' = ?f" "vmheads s' = (vmheads s)(h := ?w)" "cur_head s' = cur_head s" "vme_enable s' = vme_enable s"
    by (simp_all add: s'_def)
  have sp: "space ?f qs = space (pmaps s) qs" if "pp \<notin> set qs" for qs
    unfolding space_def by (intro arg_cong [of _ _ map_of] map_cong) (use that in auto)
  have spn: "space ?f (pp # ps) = (space (pmaps s) ps)(va \<mapsto> snd (page_of ?m))"
    using sp [OF fr] by (simp add: space_Cons new_page_def)
  have other: "space_ok s' g qs" if g: "g \<noteq> h" "S g = Some qs" for g qs
    by (rule space_ok_cong [OF native_invD(2) [OF I g(2)]]) (use s' al(3) g in auto)
  have mine: "space_ok s' h (pp # ps)"
    by (rule space_ok_Cons [OF ok _ _ _ fr al(2)]) (use s' fr va new in \<open>auto simp: new_page_def\<close>)
  have D: "set (pp # ps) \<inter> set qs = {}" if "S g = Some qs" "g \<noteq> h" for g qs
    using native_invD(3) [OF I ps that(1)] al(3) [OF that(1)] that(2) by auto
  have "set qs \<inter> set rs = {}" if "(S(h := Some (pp # ps))) g = Some qs" "(S(h := Some (pp # ps))) k = Some rs" "g \<noteq> k" for g k qs rs
  proof (cases "g = h \<or> k = h")
    case True
    then show ?thesis
    proof
      assume "g = h"
      then show ?thesis using that D [of k rs] by simp
    next
      assume "k = h"
      then show ?thesis using that D [of g qs] by (simp add: Int_commute)
    qed
  next
    case False
    then show ?thesis using that native_invD(3) [OF I] by simp
  qed
  moreover have "pages s' = space (pmaps s') (case (S(h := Some (pp # ps))) (cur_head s') of None \<Rightarrow> [] | Some qs \<Rightarrow> qs)"
  proof (cases ?b)
    case True
    then show ?thesis using native_invD(5) [OF I] ps spn by (simp add: s'_def)
  next
    case False
    then show ?thesis using native_invD(5) [OF I] al(3) sp by (simp add: s'_def space_def split: option.splits)
  qed
  ultimately have "native_inv s' (S(h := Some (pp # ps)))"
    using mine other hN native_invD(1,4) [OF I] unfolding native_inv_def s'(3) by auto
  moreover have "snd (page_of ?m) = snd (page_of (new_page va pa prot NULL False))" by (simp add: page_of_def new_page_def)
  ultimately show ?thesis using run spn sp al(3) s' by (intro exI [of _ s']) auto
qed

section \<open>Switching\<close>

text \<open>C18. A switch leaves exactly the mappings of the new address space in place, whatever was mapped
  before, and changes no address space.\<close>

theorem native_switch_correct:
  assumes "native_inv s S" and "vme_enable s" and "h = NULL \<or> S h \<noteq> None"
  shows "\<exists>s'. native_switch h s = Inr s' \<and> native_inv s' S \<and> cur_head s' = h \<and>
    pages s' = space (pmaps s) (list_of S h) \<and> (\<forall>g. space (pmaps s') (list_of S g) = space (pmaps s) (list_of S g))"
proof (cases "h = cur_head s")
  case True
  then have "native_switch h s = Inr s" using assms(2) by (simp add: native_switch_def)
  moreover have "pages s = space (pmaps s) (list_of S h)" using native_invD(5) [OF assms(1)] True by (simp add: list_of_def)
  ultimately show ?thesis using assms(1) True by blast
next
  case False
  have "pages (switched S h s) = space (pmaps s) (list_of S h)" "cur_head (switched S h s) = h"
    "space (pmaps (switched S h s)) (list_of S g) = space (pmaps s) (list_of S g)" for g by (simp_all add: switched_def)
  then show ?thesis using native_switch_eq [OF assms False] switched_ok [OF assms(1,3)] by blast
qed

text \<open>A machine with two address spaces, the first with a page; \<open>pgalloc\<close> counts upwards.\<close>

definition native0 :: "addr native" where
  "native0 = \<lparr>pool = 0x1000, pmaps = (\<lambda>_. new_page 0 0 0 0 False), vmheads = (\<lambda>_. \<lparr>vm_head = 0, vm_hash = (\<lambda>_. None), vm_max = 0, nr_page = 0\<rparr>),
     cur_head = 0, vme_enable = True, pages = Map.empty\<rparr>"

definition bump :: "addr \<Rightarrow> addr \<times> addr" where
  "bump p = (p, p + 0x1000)"

lemma native0_inv: "native_inv native0 (\<lambda>_. None)"
  by (simp add: native_inv_def native0_def space_def)

lemma native_example:
  "\<exists>s1 s2 s3. native_protect bump 4096 native0 = Inr (0x1000, s1) \<and> native_protect bump 4096 s1 = Inr (0x2000, s2) \<and>
     native_map bump 4096 0x1000 0x40000000 0x5000 3 s2 = Inr s3 \<and>
     native_inv s3 [0x1000 \<mapsto> [0x3000], 0x2000 \<mapsto> []] \<and> vme_enable s3 \<and> cur_head s3 = 0 \<and>
     space (pmaps s3) [0x3000] = [0x40000000 \<mapsto> (0x5000, True, True)]"
proof -
  let ?v = "\<lparr>vm_head = NULL, vm_hash = (\<lambda>_. None), vm_max = unat (USER_END - USER_START) div 4096, nr_page = 0\<rparr>"
  define s1 where "s1 = native0\<lparr>pool := 0x2000, vmheads := (vmheads native0)(0x1000 := ?v)\<rparr>"
  define s2 where "s2 = s1\<lparr>pool := 0x3000, vmheads := (vmheads s1)(0x2000 := ?v)\<rparr>"
  have r1: "native_protect bump 4096 native0 = Inr (0x1000, s1)" by (simp add: native_protect_def native0_def bump_def s1_def)
  have r2: "native_protect bump 4096 s1 = Inr (0x2000, s2)" by (simp add: native_protect_def native0_def bump_def s1_def s2_def)
  have "native_inv s1 [0x1000 \<mapsto> []]"
    using native_protect_ok [OF native0_inv, where pgalloc = bump and h = "0x1000" and pgsize = 4096] r1
    by (auto simp: native0_def bump_def)
  then have i2: "native_inv s2 [0x1000 \<mapsto> [], 0x2000 \<mapsto> []]"
    using native_protect_ok [of s1 _ bump "0x2000" _ 4096] r2 by (auto simp: native0_def bump_def s1_def)
  have p2: "pmaps s2 = (\<lambda>_. new_page 0 0 0 0 False)" "pool s2 = 0x3000" "vmheads s2 0x1000 = ?v" "cur_head s2 = 0" "vme_enable s2"
    by (simp_all add: s2_def s1_def native0_def)
  obtain s3 where s3: "native_map bump 4096 0x1000 0x40000000 0x5000 3 s2 = Inr s3"
    "native_inv s3 ([0x1000 \<mapsto> [], 0x2000 \<mapsto> []](0x1000 := Some [0x3000]))"
    "space (pmaps s3) [0x3000] = (space (pmaps s2) [])(0x40000000 \<mapsto> snd (page_of (new_page 0x40000000 0x5000 3 NULL False)))"
    "cur_head s3 = cur_head s2" "vme_enable s3 = vme_enable s2"
    using native_map_ok [OF i2, where h = "0x1000" and ps = "[]" and va = "0x40000000" and pgsize = 4096 and pa = "0x5000" and
        pgalloc = bump and pp = "0x3000" and pool' = "0x4000" and prot = 3]
    by (force simp: p2 USER_START_def USER_END_def bump_def space_def split: if_splits)
  moreover have "[0x1000 \<mapsto> [], 0x2000 \<mapsto> []](0x1000 := Some [0x3000]) = [0x1000 \<mapsto> [0x3000 :: addr], 0x2000 :: addr \<mapsto> []]"
    by (auto simp: fun_eq_iff)
  moreover have "(space (pmaps s2) [])(0x40000000 \<mapsto> snd (page_of (new_page 0x40000000 0x5000 3 NULL False))) =
      [0x40000000 \<mapsto> (0x5000, True, True)]"
    by (simp add: space_def page_of_def new_page_def MMAP_READ_int_def MMAP_WRITE_int_def)
  ultimately show ?thesis using r1 r2 p2(4,5) by metis
qed

theorem native_switch_correct_witness:
  "\<exists>s3 s4. native_map bump 4096 0x1000 0x40000000 0x5000 3 (snd (case native_protect bump 4096 (snd (case native_protect bump 4096 native0 of
        Inr r \<Rightarrow> r)) of Inr r \<Rightarrow> r)) = Inr s3 \<and>
     native_switch 0x1000 s3 = Inr s4 \<and> pages s4 = [0x40000000 \<mapsto> (0x5000, True, True)]"
proof -
  obtain s1 s2 s3 where e: "native_protect bump 4096 native0 = Inr (0x1000, s1)" "native_protect bump 4096 s1 = Inr (0x2000, s2)"
     "native_map bump 4096 0x1000 0x40000000 0x5000 3 s2 = Inr s3"
     "native_inv s3 [0x1000 \<mapsto> [0x3000], 0x2000 \<mapsto> []]" "vme_enable s3"
     "space (pmaps s3) [0x3000] = [0x40000000 \<mapsto> (0x5000, True, True)]"
    using native_example by blast
  then show ?thesis using native_switch_correct [OF e(4,5), of "0x1000"] by (auto simp: list_of_def)
qed

section \<open>Mapping a page again\<close>

lemma map_all_cycle:
  fixes s :: "'a native"
  assumes "map_all p s = Some r"
  shows "(\<forall>q\<in>C. q \<noteq> NULL \<and> pm_next (pmaps s q) \<in> C \<and> USER_START \<le> pm_va (pmaps s q) \<and> pm_va (pmaps s q) < USER_END) \<longrightarrow> p \<notin> C"
proof (rule map_all.raw_induct [OF _ assms])
  fix f :: "addr \<Rightarrow> 'a native \<Rightarrow> 'a native result option" and p and s :: "'a native" and r
  assume IH: "\<And>p s r. f p s = Some r \<Longrightarrow>
      (\<forall>q\<in>C. q \<noteq> NULL \<and> pm_next (pmaps s q) \<in> C \<and> USER_START \<le> pm_va (pmaps s q) \<and> pm_va (pmaps s q) < USER_END) \<longrightarrow> p \<notin> C"
  let ?t = "(pmem_map (pm_va (pmaps s p)) (pm_pa (pmaps s p)) (pm_prot (pmaps s p)) s)\<lparr>pmaps := (pmaps s)(p := (pmaps s p)\<lparr>pm_mapped := True\<rparr>)\<rparr>"
  assume run: "(if p = NULL then Some (Inr s)
     else let m = pmaps s p in
       if USER_START \<le> pm_va m \<and> pm_va m < USER_END then
         f (pm_next m) ((pmem_map (pm_va m) (pm_pa m) (pm_prot m) s)\<lparr>pmaps := (pmaps s)(p := m\<lparr>pm_mapped := True\<rparr>)\<rparr>)
       else Some (Inl Assert_Fail)) = Some r"
  show "(\<forall>q\<in>C. q \<noteq> NULL \<and> pm_next (pmaps s q) \<in> C \<and> USER_START \<le> pm_va (pmaps s q) \<and> pm_va (pmaps s q) < USER_END) \<longrightarrow> p \<notin> C"
  proof (intro impI notI)
    assume C: "\<forall>q\<in>C. q \<noteq> NULL \<and> pm_next (pmaps s q) \<in> C \<and> USER_START \<le> pm_va (pmaps s q) \<and> pm_va (pmaps s q) < USER_END"
      and p: "p \<in> C"
    then have "f (pm_next (pmaps s p)) ?t = Some r" using run by (simp add: Let_def)
    moreover have "\<forall>q\<in>C. q \<noteq> NULL \<and> pm_next (pmaps ?t q) \<in> C \<and> USER_START \<le> pm_va (pmaps ?t q) \<and> pm_va (pmaps ?t q) < USER_END"
      using C by simp
    ultimately have "pm_next (pmaps s p) \<notin> C" using IH by blast
    then show False using C p by blast
  qed
qed

lemma plist_prefix:
  "plist f p (xs @ q # ys) \<Longrightarrow> p \<in> insert q (set xs) \<and> (\<forall>r\<in>set xs. pm_next (f r) \<in> insert q (set xs))"
proof (induction xs arbitrary: p)
  case (Cons x xs)
  from Cons.prems have "plist f (pm_next (f x)) (xs @ q # ys)" by auto
  from Cons.IH [OF this] show ?case using Cons.prems by auto
qed simp

text \<open>C39. Mapping a page of an address space again, to change its frame or its rights, puts its entry a
  second time into the list, which becomes a cycle: the next switch to that space never ends.\<close>

theorem native_remap_diverges:
  assumes I: "native_inv s S" and en: "vme_enable s" and ps: "S h = Some ps" and h: "h \<noteq> cur_head s"
    and pp: "pp \<in> set ps" and al: "unat (pm_va (pmaps s pp)) mod pgsize = 0" "unat pa mod pgsize = 0"
  shows "\<exists>s'. native_map pgalloc pgsize h (pm_va (pmaps s pp)) pa prot s = Inr s' \<and> native_switch h s' = Inl Spin_Forever"
proof -
  note ok = native_invD(2) [OF I ps]
  let ?va = "pm_va (pmaps s pp)" and ?v = "vmheads s h"
  define s' where "s' = s\<lparr>pmaps := (pmaps s)(pp := new_page ?va pa prot (vm_head ?v) False), vmheads := (vmheads s)(h := ?v\<lparr>vm_head := pp\<rparr>)\<rparr>"
  have hN: "h \<noteq> NULL" using native_invD(1) [OF I] ps by auto
  have "vm_hash ?v (ucast ?va) = Some pp" using space_okD(6) [OF ok] pp by blast
  then have run: "native_map pgalloc pgsize h ?va pa prot s = Inr s'"
    using space_okD(4) [OF ok pp] al h hN by (simp add: native_map_def s'_def new_page_def Let_def)
  obtain xs ys where xy: "ps = xs @ pp # ys" "pp \<notin> set xs" using split_list_first [OF pp] by blast
  let ?C = "insert pp (set xs)"
  have pre: "vm_head ?v \<in> ?C" "\<forall>r\<in>set xs. pm_next (pmaps s r) \<in> ?C"
    using plist_prefix [of "pmaps s" "vm_head ?v" xs pp ys] space_okD(1) [OF ok] xy by simp_all
  have C: "q \<noteq> NULL \<and> pm_next (pmaps s' q) \<in> ?C \<and> USER_START \<le> pm_va (pmaps s' q) \<and> pm_va (pmaps s' q) < USER_END" if q: "q \<in> ?C" for q
  proof -
    have "q \<in> set ps" using q xy by auto
    then have "q \<noteq> NULL" "USER_START \<le> pm_va (pmaps s q) \<and> pm_va (pmaps s q) < USER_END"
      using plist_NULL [OF space_okD(1) [OF ok]] space_okD(4) [OF ok] by auto
    then show ?thesis using q pre by (cases "q = pp") (auto simp: s'_def new_page_def)
  qed
  obtain t where t: "returns (if cur_head s' \<noteq> NULL then map_option Inr (unmap_all (vm_head (vmheads s' (cur_head s'))) s') else Some (Inr s')) =
      Inr t" "vmheads t = vmheads s'" "\<And>q. pm_next (pmaps t q) = pm_next (pmaps s' q) \<and> pm_va (pmaps t q) = pm_va (pmaps s' q)"
  proof (cases "cur_head s = NULL")
    case True
    then show ?thesis using that [of s'] by (simp add: s'_def)
  next
    case False
    then obtain cs where cs: "S (cur_head s) = Some cs" using native_invD(4) [OF I] by blast
    note okc = native_invD(2) [OF I cs]
    have nc: "pp \<notin> set cs" using native_invD(3) [OF I ps cs h] pp by blast
    have "plist (pmaps s') (vm_head (vmheads s (cur_head s))) cs = plist (pmaps s) (vm_head (vmheads s (cur_head s))) cs"
      by (rule plist_cong) (use nc in \<open>auto simp: s'_def\<close>)
    moreover have "vmheads s' (cur_head s') = vmheads s (cur_head s)" using h by (simp add: s'_def)
    moreover have "\<forall>q\<in>set cs. pm_mapped (pmaps s' q)" using space_okD(5) [OF okc] nc by (auto simp: s'_def)
    ultimately have "unmap_all (vm_head (vmheads s' (cur_head s'))) s' =
        Some (s'\<lparr>pmaps := set_mapped False cs (pmaps s'), pages := pages s' |` (- dom (space (pmaps s') cs))\<rparr>)"
      using space_okD(1,3) [OF okc] by (intro unmap_all_ok) simp_all
    moreover have "cur_head s' \<noteq> NULL" using False by (simp add: s'_def)
    ultimately show ?thesis
      using that [of "s'\<lparr>pmaps := set_mapped False cs (pmaps s'), pages := pages s' |` (- dom (space (pmaps s') cs))\<rparr>"] by simp
  qed
  have "map_all (vm_head (vmheads t h)) t = None"
  proof (rule ccontr)
    assume "map_all (vm_head (vmheads t h)) t \<noteq> None"
    then obtain r where "map_all (vm_head (vmheads t h)) t = Some r" by blast
    from map_all_cycle [OF this, of ?C] have "vm_head (vmheads t h) \<notin> ?C" using C t(3) by simp
    then show False by (simp add: t(2) s'_def)
  qed
  moreover have "vme_enable s'" "h \<noteq> cur_head s'" using en h by (simp_all add: s'_def)
  ultimately have "native_switch h s' = Inl Spin_Forever" using t(1) hN by (simp add: native_switch_def del: if_split)
  then show ?thesis using run by blast
qed

theorem native_remap_diverges_witness:
  "\<exists>s3 s4. native_map bump 4096 0x1000 0x40000000 0x5000 3 (snd (case native_protect bump 4096 (snd (case native_protect bump 4096 native0 of
        Inr r \<Rightarrow> r)) of Inr r \<Rightarrow> r)) = Inr s3 \<and>
     native_map bump 4096 0x1000 0x40000000 0x5000 1 s3 = Inr s4 \<and> native_switch 0x1000 s4 = Inl Spin_Forever"
proof -
  obtain s1 s2 s3 where e: "native_protect bump 4096 native0 = Inr (0x1000, s1)" "native_protect bump 4096 s1 = Inr (0x2000, s2)"
     "native_map bump 4096 0x1000 0x40000000 0x5000 3 s2 = Inr s3"
     "native_inv s3 [0x1000 \<mapsto> [0x3000], 0x2000 \<mapsto> []]" "vme_enable s3" "cur_head s3 = 0"
     "space (pmaps s3) [0x3000] = [0x40000000 \<mapsto> (0x5000, True, True)]"
    using native_example by blast
  have "dom (space (pmaps s3) [0x3000]) = {0x40000000}" by (simp add: e(7))
  then have "pm_va (pmaps s3 0x3000) = 0x40000000" by (simp add: dom_space)
  then show ?thesis using native_remap_diverges [OF e(4,5), of "0x1000" "[0x3000]" "0x3000" 4096 "0x5000" bump 1] e(1,2,3,6) by auto
qed

end
