(* ===== verification/Nativecte.thy ===== *)
theory Nativecte
  imports Nativevme Cte
begin

text \<open>
  Interrupts of the port to Linux, \<open>am/src/native/cte.c\<close>: an interrupt is a signal; its handler saves the
  interrupted context on the kernel's stack and makes the signal return into \<open>irq_handle\<close>, and a context is
  resumed by a call of an address in a page without access.  The addresses of the program and of libc, the
  size of a context and the example context of \<open>platform.c\<close> are parameters.
\<close>

section \<open>State\<close>

datatype signal = SIGUSR1 | SIGUSR2 | SIGVTALRM | SIGSEGV | SIG_OTHER nat

datatype segv_code = SEGV_MAPERR | SEGV_ACCERR | SEGV_OTHER nat

datatype greg = REG_RIP | REG_RSP | REG_RDI | REG_RSI | REG_OTHER nat

record uctx =
  gregs :: "greg \<Rightarrow> u64"
  uc_mask :: "signal set"

text \<open>The struct \<open>Context\<close> of this port.\<close>

record ncontext =
  c_ksp :: u64
  c_vm_head :: addr
  c_uc :: uctx

text \<open>\<open>thiscpu\<close>, the mask of the process, and the contexts in memory.\<close>

record 'p ncpu =
  nvm :: "'p native"
  ksp :: u64
  nev :: Event
  sig_mask :: "signal set"
  handled :: "signal set"
  saved :: "addr \<Rightarrow> ncontext"

record nplat =
  p_start :: addr
  p_etext :: addr
  p_sigprocmask :: addr
  p_irq_handle :: addr
  p_kcontext_start :: addr
  p_csize :: u64
  p_example :: "greg \<Rightarrow> u64"

definition TIMER_HZ :: nat where "TIMER_HZ = 100"
definition SYSCALL_INSTR_LEN :: u64 where "SYSCALL_INSTR_LEN = 7"

definition intr_sigmask :: "signal set" where
  "intr_sigmask = {SIGVTALRM, SIGUSR1}"

section \<open>Signals\<close>

definition setup_stack :: "nplat \<Rightarrow> event_kind \<Rightarrow> uctx \<Rightarrow> 'p ncpu \<Rightarrow> uctx \<times> 'p ncpu" where
  "setup_stack P event uc s =
     (let rip = gregs uc REG_RIP;
        trap_from_user = in_userspace rip (nvm s);
        signal_safe = (p_start P \<le> rip \<and> rip < p_etext P) \<or> trap_from_user \<or> rip = p_sigprocmask P + 13
      in if (event = EVENT_IRQ_IODEV \<or> event = EVENT_IRQ_TIMER) \<and> \<not> signal_safe then (uc, s)
      else let
        rip = (if event = EVENT_SYSCALL then rip + SYSCALL_INSTR_LEN else rip);
        uc = uc\<lparr>gregs := (gregs uc)(REG_RIP := rip)\<rparr>;
        rsp = (if trap_from_user then ksp s else gregs uc REG_RSP);
        rsp = rsp - p_csize P;
        rsp = (if (rsp + 8) mod 16 \<noteq> 0 then rsp - 8 else rsp);
        s = s\<lparr>saved := (saved s)(rsp := (saved s rsp)\<lparr>c_uc := uc\<rparr>)\<rparr>
      in (uc\<lparr>uc_mask := intr_sigmask, gregs := (gregs uc)(REG_RDI := rsp, REG_RIP := p_irq_handle P, REG_RSP := rsp)\<rparr>, s))"

definition iret :: "uctx \<Rightarrow> 'p ncpu \<Rightarrow> uctx \<times> 'p ncpu" where
  "iret uc s = (let c = saved s (gregs uc REG_RDI) in (c_uc c, s\<lparr>ksp := c_ksp c\<rparr>))"

text \<open>The event of a signal; \<open>None\<close> is the return through \<open>iret\<close>.  The message of an error is left out.\<close>

definition sig_event :: "signal \<Rightarrow> segv_code \<Rightarrow> addr \<Rightarrow> (addr \<Rightarrow> bool) \<Rightarrow> Event option result" where
  "sig_event sg code a user =
     (let ev = \<lparr>ev_event = EVENT_ERROR, ev_cause = 0, ev_ref = 0\<rparr> in
      case sg of
        SIGUSR1 \<Rightarrow> Inr (Some (ev\<lparr>ev_event := EVENT_IRQ_IODEV\<rparr>))
      | SIGUSR2 \<Rightarrow> Inr (Some (ev\<lparr>ev_event := EVENT_YIELD\<rparr>))
      | SIGVTALRM \<Rightarrow> Inr (Some (ev\<lparr>ev_event := EVENT_IRQ_TIMER\<rparr>))
      | SIGSEGV \<Rightarrow>
          if code = SEGV_ACCERR \<and> a = 0x100008 then Inr None
          else let ev = (if code = SEGV_ACCERR \<and> a = 0x100000 then ev\<lparr>ev_event := EVENT_SYSCALL\<rparr> else ev) in
            if user a then
              bindR (guardR Assert_Fail (ev_event ev = EVENT_ERROR)) (\<lambda>_.
              case code of
                SEGV_MAPERR \<Rightarrow> Inr (Some (ev\<lparr>ev_event := EVENT_PAGEFAULT, ev_cause := MMAP_READ, ev_ref := a\<rparr>))
              | SEGV_ACCERR \<Rightarrow> Inr (Some (ev\<lparr>ev_event := EVENT_PAGEFAULT, ev_cause := MMAP_WRITE, ev_ref := a\<rparr>))
              | SEGV_OTHER n \<Rightarrow> Inl Assert_Fail)
            else Inr (Some ev)
      | SIG_OTHER n \<Rightarrow> Inr (Some ev))"

definition code_number :: "segv_code \<Rightarrow> u64" where
  "code_number code = (case code of SEGV_MAPERR \<Rightarrow> 1 | SEGV_ACCERR \<Rightarrow> 2 | SEGV_OTHER n \<Rightarrow> word_of_nat n)"

definition sig_handler :: "nplat \<Rightarrow> signal \<Rightarrow> segv_code \<Rightarrow> addr \<Rightarrow> uctx \<Rightarrow> 'p ncpu \<Rightarrow> (uctx \<times> 'p ncpu) result" where
  "sig_handler P sg code a uc s =
     bindR (sig_event sg code a (\<lambda>a. in_userspace a (nvm s))) (\<lambda>e.
     case e of
       None \<Rightarrow> Inr (iret uc (s\<lparr>nev := \<lparr>ev_event = EVENT_ERROR, ev_cause = 0, ev_ref = 0\<rparr>\<rparr>))
     | Some ev \<Rightarrow>
         let ev = (if ev_event ev = EVENT_ERROR then ev\<lparr>ev_ref := a, ev_cause := code_number code\<rparr> else ev);
           s = s\<lparr>nev := ev\<rparr>
         in Inr (setup_stack P (ev_event ev) uc s))"

text \<open>The return of the signal handler resumes the user context with its mask.\<close>

definition sig_return :: "uctx \<times> 'p ncpu \<Rightarrow> uctx \<times> 'p ncpu" where
  "sig_return = (\<lambda>(uc, s). (uc, s\<lparr>sig_mask := uc_mask uc\<rparr>))"

text \<open>
  \<open>irq_handle\<close> on the context \<open>c\<close>.  The kernel's handler returns the context to go on with.  The call of
  \<open>0x100008\<close> faults with the context in \<open>rdi\<close>; \<open>here\<close> are the other registers at that call.
\<close>

definition native_irq_handle :: "nplat \<Rightarrow> (Event \<Rightarrow> addr \<Rightarrow> 'p ncpu \<Rightarrow> (addr \<times> 'p ncpu) result) \<Rightarrow> (greg \<Rightarrow> u64) \<Rightarrow> addr \<Rightarrow>
    'p ncpu \<Rightarrow> (uctx \<times> 'p ncpu) result" where
  "native_irq_handle P handler here c s =
     (let s = s\<lparr>saved := (saved s)(c := (saved s c)\<lparr>c_vm_head := cur_head (nvm s), c_ksp := ksp s\<rparr>)\<rparr> in
      bindR (guardR Assert_Fail (ev_event (nev s) \<noteq> EVENT_ERROR)) (\<lambda>_.
      bindR (handler (nev s) c s) (\<lambda>(c, s).
      bindR (guardR Assert_Fail (c \<noteq> NULL)) (\<lambda>_.
      bindR (native_switch (c_vm_head (saved s c)) (nvm s)) (\<lambda>v.
      let s = s\<lparr>nvm := v\<rparr> in
      map_sum id sig_return (sig_handler P SIGSEGV SEGV_ACCERR 0x100008
        \<lparr>gregs = here(REG_RDI := c, REG_RIP := 0x100008), uc_mask = sig_mask s\<rparr> s))))))"

text \<open>\<open>yield\<close> raises a signal in the code that calls it.\<close>

definition native_yield :: "nplat \<Rightarrow> uctx \<Rightarrow> 'p ncpu \<Rightarrow> (uctx \<times> 'p ncpu) result" where
  "native_yield P uc s = map_sum id sig_return (sig_handler P SIGUSR2 (SEGV_OTHER 0) 0 uc s)"

section \<open>Initialisation and contexts\<close>

definition install_signal_handler :: "'p ncpu \<Rightarrow> 'p ncpu" where
  "install_signal_handler s = s\<lparr>handled := handled s \<union> {SIGVTALRM, SIGUSR1, SIGUSR2, SIGSEGV}\<rparr>"

definition native_iset :: "bool \<Rightarrow> 'p ncpu \<Rightarrow> 'p ncpu" where
  "native_iset enable s = s\<lparr>sig_mask := (if enable then sig_mask s - intr_sigmask else sig_mask s \<union> intr_sigmask)\<rparr>"

definition native_ienabled :: "'p ncpu \<Rightarrow> bool" where
  "native_ienabled s \<longleftrightarrow> SIGVTALRM \<notin> sig_mask s"

text \<open>The period of the timer in microseconds, and the state.\<close>

definition init_timer_irq :: "'p ncpu \<Rightarrow> nat \<times> 'p ncpu" where
  "init_timer_irq s = (1000000 div TIMER_HZ, native_iset False s)"

definition native_cte_init :: "'p ncpu \<Rightarrow> bool \<times> nat \<times> 'p ncpu" where
  "native_cte_init s = (True, init_timer_irq (install_signal_handler s))"

definition native_kcontext :: "nplat \<Rightarrow> addr \<Rightarrow> addr \<Rightarrow> u64 \<Rightarrow> 'p ncpu \<Rightarrow> addr \<times> 'p ncpu" where
  "native_kcontext P kend entry arg s =
     (let c = kend - p_csize P;
        uc = \<lparr>gregs = (p_example P)(REG_RIP := p_kcontext_start P, REG_RSP := kend, REG_RDI := arg, REG_RSI := entry), uc_mask = {}\<rparr>
      in (c, s\<lparr>saved := (saved s)(c := (saved s c)\<lparr>c_uc := uc, c_vm_head := NULL\<rparr>)\<rparr>))"

text \<open>\<open>ucontext\<close> of \<open>vme.c\<close>; \<open>as\<close> is the pointer in the address space.\<close>

definition native_ucontext :: "nplat \<Rightarrow> addr \<Rightarrow> addr \<Rightarrow> addr \<Rightarrow> 'p ncpu \<Rightarrow> addr \<times> 'p ncpu" where
  "native_ucontext P as kend entry s =
     (let c = kend - p_csize P;
        uc = \<lparr>gregs = (p_example P)(REG_RIP := entry, REG_RSP := USER_END), uc_mask = {}\<rparr>
      in (c, s\<lparr>saved := (saved s)(c := \<lparr>c_ksp = kend, c_vm_head = as, c_uc = uc\<rparr>)\<rparr>))"

section \<open>Interrupts from user space\<close>

text \<open>The place of the context on the kernel's stack.\<close>

definition frame_at :: "nplat \<Rightarrow> u64 \<Rightarrow> addr" where
  "frame_at P sp = (let r = sp - p_csize P in if (r + 8) mod 16 \<noteq> 0 then r - 8 else r)"

lemma setup_stack_user:
  assumes "in_userspace (gregs uc REG_RIP) (nvm s)"
  shows "setup_stack P event uc s =
    (let c = frame_at P (ksp s);
       uc' = uc\<lparr>gregs := (gregs uc)(REG_RIP := (if event = EVENT_SYSCALL then gregs uc REG_RIP + 7 else gregs uc REG_RIP))\<rparr>
     in (uc\<lparr>uc_mask := intr_sigmask, gregs := (gregs uc)(REG_RDI := c, REG_RIP := p_irq_handle P, REG_RSP := c)\<rparr>,
         s\<lparr>saved := (saved s)(c := (saved s c)\<lparr>c_uc := uc'\<rparr>)\<rparr>))"
  using assms by (simp add: setup_stack_def Let_def frame_at_def SYSCALL_INSTR_LEN_def fun_upd_twist)

text \<open>The frame fits the calling convention when the stack and the size of a context are multiples of 8.\<close>

lemma frame_aligned:
  assumes "sp = 8 * x" and "p_csize P = 8 * y"
  shows "unat (frame_at P sp + 8) mod 16 = 0"
proof -
  let ?r = "sp - p_csize P"
  have m16: "unat (a + 8) mod 16 = (unat a + 8) mod 16" for a :: u64
    by (simp add: unat_word_ariths mod_mod_cancel)
  have "?r = 8 * (x - y)" using assms by (simp add: algebra_simps)
  moreover have "unat (8 * z) = (8 * unat z) mod 2 ^ 64" for z :: u64 by (simp add: unat_word_ariths)
  ultimately have "unat ?r = (8 * unat (x - y)) mod 2 ^ 64" by (simp only:)
  then have r8: "unat ?r mod 8 = 0" by (simp add: mod_mod_cancel)
  have test: "(?r + 8) mod 16 = 0 \<longleftrightarrow> unat (?r + 8) mod 16 = 0"
    using unat_mod [of "?r + 8" 16] unat_eq_0 [of "(?r + 8) mod 16"] by simp
  show ?thesis
  proof (cases "(?r + 8) mod 16 = 0")
    case True
    then show ?thesis using test by (simp add: frame_at_def Let_def)
  next
    case False
    then have "(unat ?r + 8) mod 16 \<noteq> 0" using test m16 [of ?r] by simp
    then have "unat ?r mod 16 = 0" using r8 by presburger
    then show ?thesis using False by (simp add: frame_at_def Let_def)
  qed
qed

text \<open>The events of the four signals that the kernel handles.\<close>

lemma sig_event_simps [simp]:
  "sig_event SIGUSR1 code a user = Inr (Some \<lparr>ev_event = EVENT_IRQ_IODEV, ev_cause = 0, ev_ref = 0\<rparr>)"
  "sig_event SIGUSR2 code a user = Inr (Some \<lparr>ev_event = EVENT_YIELD, ev_cause = 0, ev_ref = 0\<rparr>)"
  "sig_event SIGVTALRM code a user = Inr (Some \<lparr>ev_event = EVENT_IRQ_TIMER, ev_cause = 0, ev_ref = 0\<rparr>)"
  "sig_event SIGSEGV SEGV_ACCERR 0x100008 user = Inr None"
  "\<not> user 0x100000 \<Longrightarrow> sig_event SIGSEGV SEGV_ACCERR 0x100000 user = Inr (Some \<lparr>ev_event = EVENT_SYSCALL, ev_cause = 0, ev_ref = 0\<rparr>)"
  "user a \<Longrightarrow> a \<noteq> 0x100000 \<Longrightarrow> a \<noteq> 0x100008 \<Longrightarrow> sig_event SIGSEGV SEGV_MAPERR a user =
     Inr (Some \<lparr>ev_event = EVENT_PAGEFAULT, ev_cause = MMAP_READ, ev_ref = a\<rparr>)"
  by (simp_all add: sig_event_def)

lemma resume_saved:
  assumes "ev_event (nev s) \<noteq> EVENT_ERROR"
    and "handler (nev s) c (s\<lparr>saved := (saved s)(c := (saved s c)\<lparr>c_vm_head := cur_head (nvm s), c_ksp := ksp s\<rparr>)\<rparr>) = Inr (c', s')"
    and "c' \<noteq> NULL" and "native_switch (c_vm_head (saved s' c')) (nvm s') = Inr v"
  shows "native_irq_handle P handler here c s = Inr (c_uc (saved s' c'),
    s'\<lparr>nvm := v, nev := \<lparr>ev_event = EVENT_ERROR, ev_cause = 0, ev_ref = 0\<rparr>, ksp := c_ksp (saved s' c'), sig_mask := uc_mask (c_uc (saved s' c'))\<rparr>)"
  using assms by (simp add: native_irq_handle_def Let_def sig_handler_def iret_def sig_return_def)

lemma switch_same: "h = cur_head s \<Longrightarrow> native_switch h s = Inr s"
  by (simp add: native_switch_def)

text \<open>C19. A trap from user space and back: whatever signal interrupts a user program, when the kernel's
  handler runs and returns the context it was given, the program goes on with all its registers and its
  signal mask as they were (behind the instruction, for a system call), and the kernel stack is again the
  one the trap began with.  Meanwhile the handler runs on the kernel's stack, aligned, with interrupts off.\<close>

theorem native_trap_returns:
  assumes "in_userspace (gregs uc REG_RIP) (nvm s)" and "ksp s = 8 * x" and "p_csize P = 8 * y" and "frame_at P (ksp s) \<noteq> NULL"
    and "sig_event sg code a (\<lambda>a. in_userspace a (nvm s)) = Inr (Some ev)" and "ev_event ev \<noteq> EVENT_ERROR"
    and "\<And>s1. \<exists>s2. handler ev (frame_at P (ksp s)) s1 = Inr (frame_at P (ksp s), s2) \<and>
      saved s2 (frame_at P (ksp s)) = saved s1 (frame_at P (ksp s)) \<and> cur_head (nvm s2) = cur_head (nvm s1)"
  shows "\<exists>uc1 s1 s2. map_sum id sig_return (sig_handler P sg code a uc s) = Inr (uc1, s1) \<and>
    gregs uc1 REG_RIP = p_irq_handle P \<and> unat (gregs uc1 REG_RSP + 8) mod 16 = 0 \<and> \<not> native_ienabled s1 \<and>
    native_irq_handle P handler here (gregs uc1 REG_RDI) s1 =
      Inr (uc\<lparr>gregs := (gregs uc)(REG_RIP := (if ev_event ev = EVENT_SYSCALL then gregs uc REG_RIP + 7 else gregs uc REG_RIP))\<rparr>, s2) \<and>
    ksp s2 = ksp s \<and> sig_mask s2 = uc_mask uc \<and> cur_head (nvm s2) = cur_head (nvm s)"
proof -
  let ?c = "frame_at P (ksp s)" and ?rip = "if ev_event ev = EVENT_SYSCALL then gregs uc REG_RIP + 7 else gregs uc REG_RIP"
  let ?uc = "uc\<lparr>gregs := (gregs uc)(REG_RIP := ?rip)\<rparr>"
  define s1 where "s1 = s\<lparr>nev := ev, saved := (saved s)(?c := (saved s ?c)\<lparr>c_uc := ?uc\<rparr>), sig_mask := intr_sigmask\<rparr>"
  define uc1 where "uc1 = uc\<lparr>uc_mask := intr_sigmask, gregs := (gregs uc)(REG_RDI := ?c, REG_RIP := p_irq_handle P, REG_RSP := ?c)\<rparr>"
  have "map_sum id sig_return (sig_handler P sg code a uc s) = Inr (uc1, s1)"
    using assms(1,5,6) setup_stack_user [of uc "s\<lparr>nev := ev\<rparr>" P "ev_event ev"]
    by (simp add: sig_handler_def Let_def sig_return_def s1_def uc1_def)
  moreover have "gregs uc1 REG_RIP = p_irq_handle P" "gregs uc1 REG_RSP = ?c" "gregs uc1 REG_RDI = ?c" by (simp_all add: uc1_def)
  moreover have "\<not> native_ienabled s1" by (simp add: s1_def native_ienabled_def intr_sigmask_def)
  moreover have "unat (?c + 8) mod 16 = 0" using frame_aligned [OF assms(2,3)] .
  moreover define s1' where "s1' = s1\<lparr>saved := (saved s1)(?c := (saved s1 ?c)\<lparr>c_vm_head := cur_head (nvm s1), c_ksp := ksp s1\<rparr>)\<rparr>"
  obtain s2 where s2: "handler ev ?c s1' = Inr (?c, s2)" "saved s2 ?c = saved s1' ?c" "cur_head (nvm s2) = cur_head (nvm s1')"
    using assms(7) by blast
  have sv: "saved s2 ?c = \<lparr>c_ksp = ksp s, c_vm_head = cur_head (nvm s), c_uc = ?uc\<rparr>"
    unfolding s2(2) by (simp add: s1'_def s1_def)
  have f: "nev s1 = ev" "cur_head (nvm s1) = cur_head (nvm s)" "ksp s1 = ksp s" by (simp_all add: s1_def)
  define s3 where "s3 = s2\<lparr>nvm := nvm s2, nev := \<lparr>ev_event = EVENT_ERROR, ev_cause = 0, ev_ref = 0\<rparr>,
      ksp := c_ksp (saved s2 ?c), sig_mask := uc_mask (c_uc (saved s2 ?c))\<rparr>"
  have "native_irq_handle P handler here ?c s1 = Inr (c_uc (saved s2 ?c), s3)"
    unfolding s3_def
  proof (rule resume_saved)
    show "ev_event (nev s1) \<noteq> EVENT_ERROR" using assms(6) f(1) by simp
    show "handler (nev s1) ?c (s1\<lparr>saved := (saved s1)(?c := (saved s1 ?c)\<lparr>c_vm_head := cur_head (nvm s1), c_ksp := ksp s1\<rparr>)\<rparr>) = Inr (?c, s2)"
      using s2(1) f(1) unfolding s1'_def by (simp only:)
    show "?c \<noteq> NULL" by (rule assms(4))
    show "native_switch (c_vm_head (saved s2 ?c)) (nvm s2) = Inr (nvm s2)"
      using s2(3) f(2) by (intro switch_same) (simp add: sv s1'_def)
  qed
  moreover have "c_uc (saved s2 ?c) = ?uc" "ksp s3 = ksp s" "sig_mask s3 = uc_mask uc" by (simp_all add: s3_def sv)
  moreover have "cur_head (nvm s3) = cur_head (nvm s)" using s2(3) f(2) by (simp add: s3_def s1'_def)
  ultimately show ?thesis by - (rule exI [of _ uc1], rule exI [of _ s1], rule exI [of _ s3], simp)
qed

text \<open>A system call at \<open>0x40001000\<close>, with a handler that changes nothing.\<close>

definition user_cpu :: "unit ncpu" where
  "user_cpu = \<lparr>nvm = \<lparr>pool = (), pmaps = (\<lambda>_. \<lparr>pm_va = 0, pm_pa = 0, pm_next = 0, pm_prot = 0, pm_mapped = False\<rparr>),
       vmheads = (\<lambda>_. \<lparr>vm_head = 0, vm_hash = (\<lambda>_. None), vm_max = 0, nr_page = 0\<rparr>), cur_head = 0x3000, vme_enable = True,
       pages = (\<lambda>_. None)\<rparr>,
     ksp = 0x9000, nev = \<lparr>ev_event = EVENT_NULL, ev_cause = 0, ev_ref = 0\<rparr>, sig_mask = {}, handled = {SIGSEGV},
     saved = (\<lambda>_. \<lparr>c_ksp = 0, c_vm_head = 0, c_uc = \<lparr>gregs = (\<lambda>_. 0), uc_mask = {}\<rparr>\<rparr>)\<rparr>"

definition user_plat :: nplat where
  "user_plat = \<lparr>p_start = 0x400000, p_etext = 0x500000, p_sigprocmask = 0x700000, p_irq_handle = 0x401000,
     p_kcontext_start = 0x402000, p_csize = 0x3c8, p_example = (\<lambda>_. 0)\<rparr>"

theorem native_trap_returns_witness:
  "\<exists>uc1 s1 uc2 s2. map_sum id sig_return (sig_handler user_plat SIGSEGV SEGV_ACCERR 0x100000
      \<lparr>gregs = (\<lambda>_. 5)(REG_RIP := 0x40001000), uc_mask = {SIGUSR2}\<rparr> user_cpu) = Inr (uc1, s1) \<and>
    gregs uc1 REG_RIP = 0x401000 \<and> native_irq_handle user_plat (\<lambda>ev c s. Inr (c, s)) (\<lambda>_. 0) (gregs uc1 REG_RDI) s1 = Inr (uc2, s2) \<and>
    gregs uc2 REG_RIP = 0x40001007 \<and> gregs uc2 REG_RSP = 5 \<and> uc_mask uc2 = {SIGUSR2} \<and> ksp s2 = 0x9000"
proof -
  let ?uc = "\<lparr>gregs = (\<lambda>_. 5)(REG_RIP := 0x40001000), uc_mask = {SIGUSR2}\<rparr>"
  have user: "in_userspace (gregs ?uc REG_RIP) (nvm user_cpu)" "\<not> in_userspace 0x100000 (nvm user_cpu)"
    by (simp_all add: in_userspace_def user_cpu_def USER_START_def USER_END_def)
  have k: "ksp user_cpu = 8 * 0x1200" "p_csize user_plat = 8 * 0x79" by (simp_all add: user_cpu_def user_plat_def)
  have c: "frame_at user_plat (ksp user_cpu) \<noteq> NULL"
    by (simp add: frame_at_def user_cpu_def user_plat_def Let_def)
  have ev: "sig_event SIGSEGV SEGV_ACCERR 0x100000 (\<lambda>a. in_userspace a (nvm user_cpu)) =
      Inr (Some \<lparr>ev_event = EVENT_SYSCALL, ev_cause = 0, ev_ref = 0\<rparr>)" using user(2) by simp
  have h: "\<exists>s2. Inr (frame_at user_plat (ksp user_cpu), s1) = (Inr (frame_at user_plat (ksp user_cpu), s2) :: (addr \<times> unit ncpu) result) \<and>
      saved s2 (frame_at user_plat (ksp user_cpu)) = saved s1 (frame_at user_plat (ksp user_cpu)) \<and> cur_head (nvm s2) = cur_head (nvm s1)"
    for s1 :: "unit ncpu" by blast
  have "\<exists>uc1 s1 s2. map_sum id sig_return (sig_handler user_plat SIGSEGV SEGV_ACCERR 0x100000 ?uc user_cpu) = Inr (uc1, s1) \<and>
    gregs uc1 REG_RIP = p_irq_handle user_plat \<and> unat (gregs uc1 REG_RSP + 8) mod 16 = 0 \<and> \<not> native_ienabled s1 \<and>
    native_irq_handle user_plat (\<lambda>ev c s. Inr (c, s)) (\<lambda>_. 0) (gregs uc1 REG_RDI) s1 =
      Inr (?uc\<lparr>gregs := (gregs ?uc)(REG_RIP := (if ev_event \<lparr>ev_event = EVENT_SYSCALL, ev_cause = 0, ev_ref = 0\<rparr> = EVENT_SYSCALL
        then gregs ?uc REG_RIP + 7 else gregs ?uc REG_RIP))\<rparr>, s2) \<and>
    ksp s2 = ksp user_cpu \<and> sig_mask s2 = uc_mask ?uc \<and> cur_head (nvm s2) = cur_head (nvm user_cpu)"
    by (rule native_trap_returns [where handler = "\<lambda>ev c s. Inr (c, s)" and s = user_cpu and x = "0x1200" and y = "0x79", OF user(1) k c ev _ h]) simp
  then show ?thesis by (fastforce simp: user_cpu_def user_plat_def)
qed

end
