(* ===== verification/Nativeioe.thy ===== *)
theory Nativeioe
  imports RingBuf Ioports
begin

text \<open>
  Devices of the port to Linux, \<open>am/src/native/ioe.c\<close> and \<open>am/src/native/ioe/\<close>: the key queue, the disk
  image, the sound pipe, the clock, and the table of registers; and \<open>halt\<close> of \<open>am/src/native/trm.c\<close>.
  The numbers of the keys of SDL, the pipe of Linux and its clock are parameters.
\<close>

section \<open>Keyboard\<close>

definition KEYDOWN_MASK :: u32 where "KEYDOWN_MASK = 0x8000"
definition KEY_QUEUE_LEN :: nat where "KEY_QUEUE_LEN = 1024"

record key_queue =
  kq_buf :: "u32 list"
  kq_f :: nat
  kq_r :: nat

definition native_keys :: key_queue where
  "native_keys = \<lparr>kq_buf = replicate KEY_QUEUE_LEN 0, kq_f = 0, kq_r = 0\<rparr>"

text \<open>What \<open>SDL_WaitEvent\<close> can return.\<close>

datatype sdl_event = SDL_QUIT | SDL_KEY bool nat | SDL_OTHER

text \<open>One round of \<open>event_thread\<close>: the new queue, and whether the interrupt is sent; \<open>None\<close> is \<open>halt\<close>.\<close>

definition event_round :: "u32 list \<Rightarrow> sdl_event \<Rightarrow> key_queue \<Rightarrow> (key_queue \<times> bool) option result" where
  "event_round keymap ev q =
     (case ev of
       SDL_QUIT \<Rightarrow> Inr None
     | SDL_OTHER \<Rightarrow> Inr (Some (q, False))
     | SDL_KEY keydown scancode \<Rightarrow>
         bindR (arr_get keymap scancode) (\<lambda>k.
         if k \<noteq> 0 then
           let am_code = k OR (if keydown then KEYDOWN_MASK else 0) in
           bindR (arr_set (kq_buf q) (kq_r q) am_code) (\<lambda>buf.
           Inr (Some (q\<lparr>kq_buf := buf, kq_r := (kq_r q + 1) mod KEY_QUEUE_LEN\<rparr>, True)))
         else Inr (Some (q, False))))"

definition native_keybrd :: "key_queue \<Rightarrow> ((bool \<times> u32) \<times> key_queue) result" where
  "native_keybrd q =
     bindR (if kq_f q \<noteq> kq_r q then
         bindR (arr_get (kq_buf q) (kq_f q)) (\<lambda>k. Inr (k, q\<lparr>kq_f := (kq_f q + 1) mod KEY_QUEUE_LEN\<rparr>))
       else Inr (0, q)) (\<lambda>(k, q).
     Inr ((k AND KEYDOWN_MASK \<noteq> 0, k AND NOT KEYDOWN_MASK), q))"

definition keys_ok :: "key_queue \<Rightarrow> bool" where
  "keys_ok q \<longleftrightarrow> length (kq_buf q) = KEY_QUEUE_LEN \<and> kq_f q < KEY_QUEUE_LEN \<and> kq_r q < KEY_QUEUE_LEN"

definition pending :: "key_queue \<Rightarrow> u32 list" where
  "pending q = queued KEY_QUEUE_LEN (kq_buf q) (kq_f q) (kq_r q)"

lemma keys_ok_init: "keys_ok native_keys" "pending native_keys = []"
  by (simp_all add: keys_ok_def native_keys_def pending_def queued_def used_def KEY_QUEUE_LEN_def)

text \<open>A key that is mapped is put at the end of the queue while fewer than 1023 are pending.\<close>

lemma event_round_key:
  assumes "keys_ok q" and "scancode < length keymap" and "keymap ! scancode \<noteq> 0" and "length (pending q) < 1023"
  shows "\<exists>q'. event_round keymap (SDL_KEY down scancode) q = Inr (Some (q', True)) \<and> keys_ok q' \<and>
    pending q' = pending q @ [keymap ! scancode OR (if down then KEYDOWN_MASK else 0)]"
proof -
  note ok = assms(1) [unfolded keys_ok_def]
  have "Suc (kq_r q) mod KEY_QUEUE_LEN \<noteq> kq_f q"
    using full_iff [of "kq_f q" KEY_QUEUE_LEN "kq_r q"] ok assms(4) by (simp add: pending_def KEY_QUEUE_LEN_def)
  then show ?thesis using ok assms(2,3) queued_push [of "kq_f q" KEY_QUEUE_LEN "kq_r q" "kq_buf q"]
    by (simp add: event_round_def Let_def keys_ok_def pending_def)
qed

text \<open>The next key makes the queue empty: 1024 keys are lost.\<close>

lemma event_round_overflow:
  assumes "keys_ok q" and "scancode < length keymap" and "keymap ! scancode \<noteq> 0" and "length (pending q) = 1023"
  shows "\<exists>q'. event_round keymap (SDL_KEY down scancode) q = Inr (Some (q', True)) \<and> keys_ok q' \<and> pending q' = []"
proof -
  note ok = assms(1) [unfolded keys_ok_def]
  have "Suc (kq_r q) mod KEY_QUEUE_LEN = kq_f q"
    using full_iff [of "kq_f q" KEY_QUEUE_LEN "kq_r q"] ok assms(4) by (simp add: pending_def KEY_QUEUE_LEN_def)
  then show ?thesis using ok assms(2,3)
    by (simp add: event_round_def Let_def keys_ok_def pending_def queued_def used_def)
qed

text \<open>A key whose number is beyond the table of 256 is read from behind the table.\<close>

lemma event_round_beyond: "length keymap \<le> scancode \<Longrightarrow> event_round keymap (SDL_KEY down scancode) q = Inl Out_Of_Bounds"
  by (simp add: event_round_def arr_get_def)

lemma native_keybrd_ok:
  assumes "keys_ok q"
  shows "case pending q of [] \<Rightarrow> native_keybrd q = Inr ((False, 0), q)
    | k # ks \<Rightarrow> \<exists>q'. native_keybrd q = Inr ((k AND KEYDOWN_MASK \<noteq> 0, k AND NOT KEYDOWN_MASK), q') \<and> keys_ok q' \<and> pending q' = ks"
proof (cases "kq_f q = kq_r q")
  case True
  then show ?thesis by (simp add: pending_def queued_def used_def native_keybrd_def)
next
  case False
  note ok = assms [unfolded keys_ok_def]
  have "pending q = kq_buf q ! kq_f q # queued KEY_QUEUE_LEN (kq_buf q) (Suc (kq_f q) mod KEY_QUEUE_LEN) (kq_r q)"
    using queued_pop [of "kq_f q" KEY_QUEUE_LEN "kq_r q" "kq_buf q"] False ok by (simp add: pending_def)
  then show ?thesis using ok False by (simp add: native_keybrd_def keys_ok_def pending_def)
qed

section \<open>Disk\<close>

definition NBLKSZ :: nat where "NBLKSZ = 512"

text \<open>The content of the image file, when there is one, and the size in blocks.\<close>

record native_disk =
  nd_file :: "u8 list option"
  nd_size :: nat

definition native_disk_init :: "u8 list option \<Rightarrow> native_disk" where
  "native_disk_init f = \<lparr>nd_file = f, nd_size = (case f of None \<Rightarrow> 0 | Some bs \<Rightarrow> (length bs + 511) div 512)\<rparr>"

definition native_disk_config :: "native_disk \<Rightarrow> bool \<times> nat \<times> nat" where
  "native_disk_config d = (nd_file d \<noteq> None, NBLKSZ, nd_size d)"

text \<open>\<open>fwrite\<close> and \<open>fread\<close> of one item of \<open>n\<close> bytes at an offset: the number of items and the result.\<close>

definition file_write :: "nat \<Rightarrow> u8 list \<Rightarrow> u8 list \<Rightarrow> nat \<times> u8 list" where
  "file_write pos bs file =
     (if bs = [] then (0, file)
      else (1, take pos file @ replicate (pos - length file) 0 @ bs @ drop (pos + length bs) file))"

definition file_read :: "nat \<Rightarrow> nat \<Rightarrow> u8 list \<Rightarrow> u8 list \<Rightarrow> nat \<times> u8 list" where
  "file_read pos n buf file =
     (let bs = take n (drop pos file) in (if n \<noteq> 0 \<and> length bs = n then 1 else 0, bs @ drop (length bs) buf))"

text \<open>The offset is computed in \<open>int\<close>.\<close>

definition native_disk_blkio :: "bool \<Rightarrow> u8 list \<Rightarrow> nat \<Rightarrow> nat \<Rightarrow> native_disk \<Rightarrow> (u8 list \<times> native_disk) result" where
  "native_disk_blkio wr buf blkno blkcnt d =
     (case nd_file d of None \<Rightarrow> Inr (buf, d)
      | Some file \<Rightarrow>
          bindR (guardR Undefined_Behaviour (blkno * NBLKSZ < 2 ^ 31 \<and> blkcnt * NBLKSZ < 2 ^ 31)) (\<lambda>_.
          bindR (guardR Out_Of_Bounds (blkcnt * NBLKSZ \<le> length buf)) (\<lambda>_.
          if wr then (case file_write (blkno * NBLKSZ) (take (blkcnt * NBLKSZ) buf) file of (n, file) \<Rightarrow>
            bindR (guardR Assert_Fail (n = 1)) (\<lambda>_. Inr (buf, d\<lparr>nd_file := Some file\<rparr>)))
          else (case file_read (blkno * NBLKSZ) (blkcnt * NBLKSZ) buf file of (n, buf) \<Rightarrow>
            bindR (guardR Assert_Fail (n = 1)) (\<lambda>_. Inr (buf, d))))))"

text \<open>Blocks that were written are read back, also behind the end of the image.\<close>

lemma native_disk_write_read:
  assumes "nd_file d = Some file" and "blkno * 512 < 2 ^ 31" and "length buf * 2 < 2 ^ 31"
    and "length buf = n * 512" and "0 < n" and "length buf' = length buf"
  shows "\<exists>d'. native_disk_blkio True buf blkno n d = Inr (buf, d') \<and> native_disk_blkio False buf' blkno n d' = Inr (buf, d')"
proof -
  let ?pos = "blkno * 512"
  let ?file = "take ?pos file @ replicate (?pos - length file) 0 @ buf @ drop (?pos + length buf) file"
  have "buf \<noteq> []" using assms(4,5) by auto
  then have w: "native_disk_blkio True buf blkno n d = Inr (buf, d\<lparr>nd_file := Some ?file\<rparr>)"
    using assms by (simp add: native_disk_blkio_def file_write_def NBLKSZ_def)
  let ?front = "take ?pos file @ replicate (?pos - length file) 0"
  have "length ?front = ?pos" by simp
  then have "drop ?pos (?front @ buf @ drop (?pos + length buf) file) = buf @ drop (?pos + length buf) file"
    unfolding drop_append by (simp only: diff_self_eq_0 drop_0) simp
  then have "take (length buf) (drop ?pos ?file) = buf" by simp
  then have "native_disk_blkio False buf' blkno n (d\<lparr>nd_file := Some ?file\<rparr>) = Inr (buf, d\<lparr>nd_file := Some ?file\<rparr>)"
    using assms by (simp add: native_disk_blkio_def file_read_def NBLKSZ_def Let_def)
  then show ?thesis using w by blast
qed

text \<open>The size is rounded up, but the last block of an image that does not fill it cannot be read; and a
  transfer of no blocks fails.\<close>

lemma native_disk_last_block:
  assumes "length file mod 512 \<noteq> 0" and "length file < 2 ^ 31" and "length buf = 512"
  shows "nd_size (native_disk_init (Some file)) = length file div 512 + 1"
    and "native_disk_blkio False buf (length file div 512) 1 (native_disk_init (Some file)) = Inl Assert_Fail"
proof -
  show "nd_size (native_disk_init (Some file)) = length file div 512 + 1"
  proof -
    have up: "(512 * q + r + 511) div 512 = q + 1" if "r < 512" "0 < r" for q r :: nat
      using that by (intro div_nat_eqI) simp_all
    have "(length file + 511) div 512 = length file div 512 + 1"
      using up [of "length file mod 512" "length file div 512"] assms(1) by simp
    then show ?thesis by (simp add: native_disk_init_def)
  qed
  have "length file div 512 * 512 \<le> length file" by simp
  then have "length file div 512 * 512 < 2 ^ 31" using assms(2) by linarith
  moreover have "length file - length file div 512 * 512 < 512"
    using mod_less_divisor [of 512 "length file"] by (simp add: minus_div_mult_eq_mod)
  ultimately show "native_disk_blkio False buf (length file div 512) 1 (native_disk_init (Some file)) = Inl Assert_Fail"
    using assms(3) by (simp add: native_disk_blkio_def native_disk_init_def file_read_def NBLKSZ_def Let_def)
qed

lemma native_disk_nothing: "nd_file d = Some file \<Longrightarrow> native_disk_blkio wr buf 0 0 d = Inl Assert_Fail"
  by (simp add: native_disk_blkio_def file_write_def file_read_def Let_def)

section \<open>Sound\<close>

text \<open>\<open>write\<close> and \<open>read\<close> on the pipe: the number of bytes, or \<open>-1\<close>; \<open>read\<close> also gives the bytes.\<close>

record 'k sound =
  snd_pipe :: 'k
  snd_count :: int

partial_function (option) audio_write_loop :: "(u8 list \<Rightarrow> 'k \<Rightarrow> int \<times> 'k) \<Rightarrow> u8 list \<Rightarrow> int \<Rightarrow> 'k sound \<Rightarrow> 'k sound option" where
  "audio_write_loop wr buf nwrite s =
     (if nwrite < int (length buf) then
        case wr buf (snd_pipe s) of (n, k) \<Rightarrow>
          let n = (if n = - 1 then 0 else n)
          in audio_write_loop wr buf (nwrite + n) (s\<lparr>snd_pipe := k, snd_count := snd_count s + n\<rparr>)
      else Some s)"

definition audio_write :: "(u8 list \<Rightarrow> 'k \<Rightarrow> int \<times> 'k) \<Rightarrow> u8 list \<Rightarrow> 'k sound \<Rightarrow> 'k sound option" where
  "audio_write wr buf s = audio_write_loop wr buf 0 s"

partial_function (option) audio_read_loop :: "(nat \<Rightarrow> 'k \<Rightarrow> int \<times> u8 list \<times> 'k) \<Rightarrow> nat \<Rightarrow> int \<Rightarrow> u8 list \<Rightarrow> 'k \<Rightarrow> (u8 list \<times> 'k) option" where
  "audio_read_loop rd nread b stream k =
     (if b < int nread then
        case rd nread k of (n, bs, k) \<Rightarrow>
          audio_read_loop rd nread (if n > 0 then b + n else b) (bs @ drop (length bs) stream) k
      else Some (stream, k))"

definition audio_play :: "(nat \<Rightarrow> 'k \<Rightarrow> int \<times> u8 list \<times> 'k) \<Rightarrow> u8 list \<Rightarrow> 'k sound \<Rightarrow> (u8 list \<times> 'k sound) option" where
  "audio_play rd stream s =
     (let len = length stream; nread = (if snd_count s < int len then nat (snd_count s) else len) in
      map_option (\<lambda>(stream, k). (if len > nread then take nread stream @ replicate (len - nread) 0 else stream,
        s\<lparr>snd_pipe := k, snd_count := snd_count s - int nread\<rparr>)) (audio_read_loop rd nread 0 stream (snd_pipe s)))"

definition audio_ctrl :: "'k sound \<Rightarrow> 'k sound" where
  "audio_ctrl s = s\<lparr>snd_count := 0\<rparr>"

definition audio_status :: "'k sound \<Rightarrow> int" where
  "audio_status s = snd_count s"

text \<open>A write that takes the whole buffer at once sends it once.\<close>

lemma audio_write_once:
  assumes "wr buf (snd_pipe s) = (int (length buf), k)"
  shows "audio_write wr buf s = Some (s\<lparr>snd_pipe := (if buf = [] then snd_pipe s else k), snd_count := snd_count s + int (length buf)\<rparr>)"
proof (cases "buf = []")
  case True
  then show ?thesis unfolding audio_write_def by (subst audio_write_loop.simps) simp
next
  case False
  have "audio_write_loop wr buf (int (length buf)) s' = Some s'" for s' by (subst audio_write_loop.simps) simp
  then show ?thesis using assms False unfolding audio_write_def by (subst audio_write_loop.simps) simp
qed

text \<open>A pipe that has room for a part only: \<open>slow_pipe\<close> takes as many bytes as the list says.  The loop
  starts again with the first byte, so a buffer of three bytes is sent as five.\<close>

definition slow_pipe :: "u8 list \<Rightarrow> u8 list \<times> nat list \<Rightarrow> int \<times> u8 list \<times> nat list" where
  "slow_pipe buf = (\<lambda>(sent, room). case room of [] \<Rightarrow> (- 1, sent, []) | n # ns \<Rightarrow> (int (min n (length buf)), sent @ take n buf, ns))"

lemma audio_write_repeats:
  "audio_write slow_pipe [1, 2, 3] \<lparr>snd_pipe = ([], [2, 3]), snd_count = 0\<rparr> = Some \<lparr>snd_pipe = ([1, 2, 1, 2, 3], []), snd_count = 5\<rparr>"
  unfolding audio_write_def
  by (subst audio_write_loop.simps, simp add: slow_pipe_def, subst audio_write_loop.simps, simp add: slow_pipe_def,
      subst audio_write_loop.simps, simp)

section \<open>Clock and screen\<close>

record timeval =
  tv_sec :: int
  tv_usec :: int

definition native_uptime :: "timeval \<Rightarrow> timeval \<Rightarrow> int" where
  "native_uptime boot now = (tv_sec now - tv_sec boot) * 1000000 + (tv_usec now - tv_usec boot + 500)"

text \<open>\<open>localtime\<close> counts months from 0 and years from 1900.\<close>

definition native_rtc :: "rtc \<Rightarrow> rtc" where
  "native_rtc tm = tm\<lparr>rtc_month := rtc_month tm + 1, rtc_year := rtc_year tm + 1900\<rparr>"

text \<open>The time since the boot, which does not start at zero.\<close>

lemma native_uptime_boot: "native_uptime t t = 500"
  by (simp add: native_uptime_def)

lemma native_uptime_mono:
  assumes "0 \<le> tv_usec a" "tv_usec a < 1000000" "0 \<le> tv_usec b" "tv_usec b < 1000000"
    and "tv_sec a < tv_sec b \<or> tv_sec a = tv_sec b \<and> tv_usec a \<le> tv_usec b"
  shows "native_uptime t a \<le> native_uptime t b"
  using assms by (auto simp: native_uptime_def algebra_simps)

definition NATIVE_W :: int where "NATIVE_W = 400"
definition NATIVE_H :: int where "NATIVE_H = 300"

definition native_gpu_config :: "bool \<times> bool \<times> int \<times> int \<times> nat" where
  "native_gpu_config = (True, False, NATIVE_W, NATIVE_H, 0)"

section \<open>Registers\<close>

datatype nhandler =
    N_timer_config | N_timer_rtc | N_timer_uptime | N_input_config | N_input_keybrd | N_gpu_config | N_gpu_fbdraw | N_gpu_status
  | N_uart_config | N_audio_config | N_audio_ctrl | N_audio_status | N_audio_play | N_disk_config | N_disk_status | N_disk_blkio
  | N_net_config | N_fail

definition native_lut :: "nat \<Rightarrow> nhandler result" where
  "native_lut reg =
     (if reg \<ge> 128 then Inl Out_Of_Bounds
      else case map_of [(4, N_timer_config), (5, N_timer_rtc), (6, N_timer_uptime), (7, N_input_config), (8, N_input_keybrd),
          (9, N_gpu_config), (11, N_gpu_fbdraw), (10, N_gpu_status), (1, N_uart_config), (14, N_audio_config), (15, N_audio_ctrl),
          (16, N_audio_status), (17, N_audio_play), (18, N_disk_config), (19, N_disk_status), (20, N_disk_blkio), (21, N_net_config)] reg of
        None \<Rightarrow> Inr N_fail | Some h \<Rightarrow> Inr h)"

text \<open>The devices are initialised by the first access; \<open>devs\<close> are the devices, \<open>init\<close> their initialisation
  and \<open>run\<close> a handler.\<close>

record 'd native_ioe =
  has_ioe :: bool
  ioe_init_done :: bool
  devs :: 'd

definition native_ioe_init :: "nat \<Rightarrow> 'd native_ioe \<Rightarrow> (bool \<times> 'd native_ioe) result" where
  "native_ioe_init cpu s =
     bindR (guardR Panic (\<not> cpu \<noteq> 0)) (\<lambda>_. bindR (guardR Panic (\<not> ioe_init_done s)) (\<lambda>_.
     Inr (True, s\<lparr>has_ioe := True\<rparr>)))"

definition am_ioe_init :: "('d \<Rightarrow> 'd) \<Rightarrow> 'd native_ioe \<Rightarrow> 'd native_ioe" where
  "am_ioe_init init s = s\<lparr>devs := init (devs s), ioe_init_done := True\<rparr>"

definition do_io :: "('d \<Rightarrow> 'd) \<Rightarrow> (nhandler \<Rightarrow> 'b \<Rightarrow> 'd \<Rightarrow> ('b \<times> 'd) result) \<Rightarrow> nat \<Rightarrow> 'b \<Rightarrow> 'd native_ioe \<Rightarrow> ('b \<times> 'd native_ioe) result" where
  "do_io init run reg buf s =
     (let s = (if \<not> ioe_init_done s then am_ioe_init init s else s) in
      bindR (native_lut reg) (\<lambda>h.
      bindR (guardR Panic (h \<noteq> N_fail)) (\<lambda>_.
      bindR (run h buf (devs s)) (\<lambda>(buf, d). Inr (buf, s\<lparr>devs := d\<rparr>)))))"

text \<open>The initialisation runs once, before the first access.\<close>

lemma do_io_init_once:
  "do_io init run reg buf s = Inr (buf', s') \<Longrightarrow> ioe_init_done s' \<and> do_io init run reg2 buf2 s' = do_io init2 run reg2 buf2 s'"
  by (auto simp: do_io_def Let_def am_ioe_init_def bindR_def guardR_def split: sum.splits if_splits)

lemma native_lut_missing: "reg \<in> {0, 2, 3, 12, 13, 22, 23, 24} \<Longrightarrow> native_lut reg = Inr N_fail"
  by (auto simp: native_lut_def)

section \<open>Halt\<close>

definition native_halt_fmt :: string where "native_halt_fmt = ''Exit code = 40h'' @ [CHR 10]"

definition hex_digit :: "nat \<Rightarrow> char" where
  "hex_digit n = ''0123456789abcdef'' ! n"

definition native_halt_char :: "u32 \<Rightarrow> char \<Rightarrow> char" where
  "native_halt_char code ch =
     (if ch = CHR ''0'' \<or> ch = CHR ''4''
      then hex_digit (unat (signed_drop_bit (of_char ch - of_char CHR ''0'') code AND 0xf)) else ch)"

text \<open>What \<open>halt\<close> prints before it leaves the process with the code.\<close>

definition native_halt :: "u32 \<Rightarrow> string" where
  "native_halt code = map (native_halt_char code) native_halt_fmt"

lemma native_halt_42: "native_halt 42 = ''Exit code = 2ah'' @ [CHR 10]"
  by code_simp

end
