(* ===== verification/Nemu.thy ===== *)
theory Nemu
  imports Cte
begin

text \<open>
  The 32-bit variants: the gate and segment descriptors of \<open>x86.h\<close> with the segment table that
  \<open>qemu/trm.c\<close> builds from them, and the port to NEMU, \<open>am/src/x86/nemu/cte.c\<close> and \<open>vme.c\<close>, of which
  the interrupt table and the kernel's address space are there and the rest is left to be written.
\<close>

section \<open>Descriptors\<close>

record GateDesc32 =
  g32_off_15_0 :: "16 word"
  g32_cs :: "16 word"
  g32_args :: "5 word"
  g32_rsv1 :: "3 word"
  g32_type :: "4 word"
  g32_s :: "1 word"
  g32_dpl :: "2 word"
  g32_p :: "1 word"
  g32_off_31_16 :: "16 word"

definition GATE32 :: "4 word \<Rightarrow> u64 \<Rightarrow> u32 \<Rightarrow> 2 word \<Rightarrow> GateDesc32" where
  "GATE32 ty cs entry dpl =
     \<lparr>g32_off_15_0 = ucast (entry AND 0xffff), g32_cs = ucast cs, g32_args = 0, g32_rsv1 = 0, g32_type = ty,
      g32_s = 0, g32_dpl = dpl, g32_p = 1, g32_off_31_16 = ucast (drop_bit 16 entry)\<rparr>"

text \<open>\<open>uintptr_t\<close> has 32 bits here.\<close>

definition SEG32 :: "4 word \<Rightarrow> u32 \<Rightarrow> u32 \<Rightarrow> 2 word \<Rightarrow> SegDesc" where
  "SEG32 ty base lim dpl =
     \<lparr>lim_15_0 = ucast (drop_bit 12 lim AND 0xffff), base_15_0 = ucast (base AND 0xffff),
      base_23_16 = ucast (drop_bit 16 base AND 0xff), sd_type = ty, sd_s = 1, sd_dpl = dpl, sd_p = 1,
      lim_19_16 = ucast (drop_bit 28 lim), sd_avl = 0, sd_l = 0, sd_db = 1, sd_g = 1, base_31_24 = ucast (drop_bit 24 base)\<rparr>"

text \<open>\<open>sizeof(TSS32)\<close> is 104.  The size of the table that the processor is told leaves the last one out: it
  is \<open>NR_SEG\<close> descriptors.\<close>

definition initgdt32 :: "addr \<Rightarrow> SegDesc list \<Rightarrow> (SegDesc list \<times> nat) result" where
  "initgdt32 tss g =
     (let g = g[unat SEG_KCODE := SEG32 (STA_X OR STA_R) 0 0xffffffff DPL_KERN];
          g = g[unat SEG_KDATA := SEG32 STA_W 0 0xffffffff DPL_KERN];
          g = g[unat SEG_UCODE := SEG32 (STA_X OR STA_R) 0 0xffffffff DPL_USER];
          g = g[unat SEG_UDATA := SEG32 STA_W 0 0xffffffff DPL_USER];
          g = g[unat SEG_TSS := SEG16 STS_T32A tss (104 - 1) DPL_KERN]
      in bindR (guardR Out_Of_Bounds (length g = NR_SEG + 1)) (\<lambda>_. Inr (g, NR_SEG)))"

text \<open>What the processor reads back.\<close>

definition gate32_offset :: "GateDesc32 \<Rightarrow> u32" where
  "gate32_offset g = push_bit 16 (ucast (g32_off_31_16 g)) OR ucast (g32_off_15_0 g)"

text \<open>The last byte of a segment whose limit counts pages.\<close>

definition seg_last :: "SegDesc \<Rightarrow> u64" where
  "seg_last d = (if sd_g d = 1 then push_bit 12 (seg_limit d) OR 0xfff else seg_limit d)"

lemma gate32_offset_GATE32 [simp]: "gate32_offset (GATE32 ty cs entry dpl) = entry"
proof (rule bit_word_eqI)
  have m: "entry AND 0xffff = take_bit 16 entry" by (simp add: take_bit_eq_mask mask_eq_exp_minus_1)
  fix n assume "n < LENGTH(32)"
  then consider "n < 16" | "16 \<le> n" "n < 32" by fastforce
  then show "bit (gate32_offset (GATE32 ty cs entry dpl)) n = bit entry n"
    by cases (auto simp: gate32_offset_def GATE32_def m bit_simps)
qed

lemma g32_dpl_GATE32 [simp]: "g32_dpl (GATE32 ty cs entry dpl) = dpl"
  by (simp add: GATE32_def)

lemma seg32_flat: "seg_base (SEG32 ty 0 0xffffffff dpl) = 0" "seg_last (SEG32 ty 0 0xffffffff dpl) = 0xffffffff"
  by (simp_all add: SEG32_def seg_base_def seg_last_def seg_limit_def push_bit_eq_mult)

lemma initgdt32_segments:
  assumes "length g = NR_SEG + 1" and "drop_bit 32 tss = 0"
  shows "\<exists>g'. initgdt32 tss g = Inr (g', 6) \<and> seg_base (g' ! unat SEG_TSS) = tss \<and>
    seg_last (g' ! unat SEG_UCODE) = 0xffffffff \<and> sd_dpl (g' ! unat SEG_UCODE) = DPL_USER \<and>
    seg_last (g' ! unat SEG_KCODE) = 0xffffffff \<and> sd_dpl (g' ! unat SEG_KCODE) = DPL_KERN"
  using assms
  by (simp add: initgdt32_def Let_def NR_SEG_def SEG_TSS_def SEG_UCODE_def SEG_KCODE_def SEG_KDATA_def
      SEG_UDATA_def seg_base_SEG16 seg32_flat) (simp add: SEG32_def)

section \<open>Interrupts of NEMU\<close>

text \<open>\<open>__am_irq_handle\<close>: every interrupt is an error event.\<close>

definition nemu_irq_handle :: "(Event \<Rightarrow> 'c \<Rightarrow> 's \<Rightarrow> ('c option \<times> 's) result) option \<Rightarrow> 'c \<Rightarrow> 's \<Rightarrow> ('c \<times> 's) result" where
  "nemu_irq_handle user_handler c s =
     (case user_handler of None \<Rightarrow> Inr (c, s)
      | Some h \<Rightarrow> bindR (h \<lparr>ev_event = EVENT_ERROR, ev_cause = 0, ev_ref = 0\<rparr> c s) (\<lambda>(c, s).
          case c of None \<Rightarrow> Inl Assert_Fail | Some c \<Rightarrow> Inr (c, s)))"

definition nemu_cte_init :: "u32 \<Rightarrow> u32 \<Rightarrow> u32 \<Rightarrow> u32 \<Rightarrow> bool \<times> GateDesc32 list" where
  "nemu_cte_init irq0 vecsys vectrap vecnull =
     (let idt = replicate NR_IRQ (GATE32 STS_TG (KSEL SEG_KCODE) vecnull DPL_KERN);
          idt = idt[32 := GATE32 STS_IG (KSEL SEG_KCODE) irq0 DPL_KERN];
          idt = idt[0x80 := GATE32 STS_TG (KSEL SEG_KCODE) vecsys DPL_USER];
          idt = idt[0x81 := GATE32 STS_TG (KSEL SEG_KCODE) vectrap DPL_KERN]
      in (True, idt))"

lemma nemu_idt:
  assumes "i < 256"
  shows "gate32_offset (snd (nemu_cte_init irq0 vecsys vectrap vecnull) ! i) =
      (if i = 32 then irq0 else if i = 0x80 then vecsys else if i = 0x81 then vectrap else vecnull) \<and>
    (g32_dpl (snd (nemu_cte_init irq0 vecsys vectrap vecnull) ! i) = DPL_USER \<longleftrightarrow> i = 0x80)"
  using assms by (simp add: nemu_cte_init_def Let_def NR_IRQ_def nth_list_update) (simp add: DPL_KERN_def DPL_USER_def)

section \<open>Address spaces of NEMU\<close>

record nemu_as =
  as_ptr :: u32
  as_start :: u32
  as_end :: u32
  as_pgsize :: nat

record 'p nemu_vme =
  n_pool :: 'p
  n_pages :: "u32 \<Rightarrow> u8 list"
  kas_ptr :: u32
  cr3 :: u32
  cr0 :: u32
  n_enabled :: bool

text \<open>\<open>map\<close> has no body yet.\<close>

definition nemu_map :: "u32 \<Rightarrow> u32 \<Rightarrow> u32 \<Rightarrow> u32 \<Rightarrow> 'p nemu_vme \<Rightarrow> 'p nemu_vme" where
  "nemu_map as va pa prot s = s"

text \<open>The loops over the kernel's areas; \<open>segments\<close> are the areas of the machine.\<close>

partial_function (option) map_area :: "u32 \<Rightarrow> u32 \<Rightarrow> u32 \<Rightarrow> u32 \<Rightarrow> 'p nemu_vme \<Rightarrow> 'p nemu_vme option" where
  "map_area pgsize as va e s =
     (if va < e then map_area pgsize as (va + pgsize) e (nemu_map as va va 0 s) else Some s)"

primrec map_segments :: "u32 \<Rightarrow> u32 \<Rightarrow> (u32 \<times> u32) list \<Rightarrow> 'p nemu_vme \<Rightarrow> 'p nemu_vme option" where
  "map_segments pgsize as [] s = Some s"
| "map_segments pgsize as (seg # segs) s =
     (case map_area pgsize as (fst seg) (snd seg) s of None \<Rightarrow> None | Some s \<Rightarrow> map_segments pgsize as segs s)"

definition nemu_vme_init :: "(u32 \<Rightarrow> 'p \<Rightarrow> u32 \<times> 'p) \<Rightarrow> u32 \<Rightarrow> (u32 \<times> u32) list \<Rightarrow> 'p nemu_vme \<Rightarrow> (bool \<times> 'p nemu_vme) result" where
  "nemu_vme_init pgalloc pgsize segments s =
     (case pgalloc pgsize (n_pool s) of (p, pool) \<Rightarrow>
      bindR (returns (map_option Inr (map_segments pgsize p segments (s\<lparr>n_pool := pool, kas_ptr := p\<rparr>)))) (\<lambda>s.
      Inr (True, s\<lparr>cr3 := kas_ptr s, cr0 := cr0 s OR ucast CR0_PG, n_enabled := True\<rparr>)))"

text \<open>\<open>protect\<close> copies the page of the kernel's address space.\<close>

definition nemu_protect :: "(u32 \<Rightarrow> 'p \<Rightarrow> u32 \<times> 'p) \<Rightarrow> u32 \<Rightarrow> 'p nemu_vme \<Rightarrow> nemu_as \<times> 'p nemu_vme" where
  "nemu_protect pgalloc pgsize s =
     (case pgalloc pgsize (n_pool s) of (p, pool) \<Rightarrow>
      (\<lparr>as_ptr = p, as_start = 0x40000000, as_end = 0xc0000000, as_pgsize = unat pgsize\<rparr>,
       s\<lparr>n_pool := pool, n_pages := (n_pages s)(p := n_pages s (kas_ptr s))\<rparr>))"

definition get_cur_as :: "'p nemu_vme \<Rightarrow> u32" where
  "get_cur_as s = (if n_enabled s then cr3 s else 0)"

definition nemu_switch :: "u32 \<Rightarrow> 'p nemu_vme \<Rightarrow> 'p nemu_vme" where
  "nemu_switch c_cr3 s = (if n_enabled s \<and> c_cr3 \<noteq> 0 then s\<lparr>cr3 := c_cr3\<rparr> else s)"

lemma map_area_ends:
  assumes "0 < pgsize" and "unat e + unat pgsize \<le> 2 ^ 32"
  shows "map_area pgsize as va e s = Some s"
proof (induction "unat e - unat va" arbitrary: va rule: less_induct)
  case less
  show ?case
  proof (cases "va < e")
    case True
    then have v: "unat va < unat e" by (simp add: word_less_nat_alt)
    have "0 < unat pgsize" using assms(1) by (simp add: word_less_nat_alt)
    moreover have "unat (va + pgsize) = unat va + unat pgsize"
      using v assms(2) by (subst unat_add_lem [THEN iffD1]) simp_all
    ultimately have "unat e - unat (va + pgsize) < unat e - unat va" using v by simp
    then show ?thesis using True less.hyps by (subst map_area.simps) (simp add: nemu_map_def)
  qed (subst map_area.simps, simp)
qed

text \<open>Paging is switched on with the page of the kernel, and a new address space starts as a copy of it.\<close>

lemma nemu_vme_init_ok:
  assumes "0 < pgsize" and "\<forall>(a, e)\<in>set segments. unat e + unat pgsize \<le> 2 ^ 32"
  shows "nemu_vme_init pgalloc pgsize segments s =
    Inr (True, s\<lparr>n_pool := snd (pgalloc pgsize (n_pool s)), kas_ptr := fst (pgalloc pgsize (n_pool s)),
      cr3 := fst (pgalloc pgsize (n_pool s)), cr0 := cr0 s OR ucast CR0_PG, n_enabled := True\<rparr>)"
proof -
  have "map_segments pgsize p segs t = Some t" if "set segs \<subseteq> set segments" for p segs and t :: "'a nemu_vme"
    using that assms by (induction segs) (auto simp: map_area_ends)
  then show ?thesis by (simp add: nemu_vme_init_def returns_def split: prod.splits)
qed

lemma nemu_protect_copies:
  "nemu_protect pgalloc pgsize s = (as, s') \<Longrightarrow> n_pages s' (as_ptr as) = n_pages s (kas_ptr s)"
  by (auto simp: nemu_protect_def split: prod.splits)

end
