(* ===== verification/Bootmain.thy ===== *)
theory Bootmain
  imports Atadisk
begin

text \<open>
  The second stage of the boot loader, \<open>am/src/x86/qemu/boot/main.c\<close>: it runs in 32-bit mode, reads the
  header of the kernel from the disk, and copies the segments to their places in memory.  Memory is a
  function from 32-bit addresses to bytes.  The offsets of the fields of the headers are those of \<open>elf.h\<close>.
\<close>

type_synonym ram = "u32 \<Rightarrow> u8"

definition SECTSIZE :: u32 where "SECTSIZE = 512"
definition ARGSIZE :: u32 where "ARGSIZE = 1024"
definition MAINARG_ADDR :: u32 where "MAINARG_ADDR = 0x10000"
definition BOOTREC_ADDR :: u32 where "BOOTREC_ADDR = 0x7000"

definition byte_of :: "u32 \<Rightarrow> nat \<Rightarrow> u8" where
  "byte_of w k = ucast (drop_bit (8 * k) w)"

definition word_bytes :: "u32 \<Rightarrow> u8 list" where
  "word_bytes w = map (byte_of w) [0, 1, 2, 3]"

fun put_bytes :: "u32 \<Rightarrow> u8 list \<Rightarrow> ram \<Rightarrow> ram" where
  "put_bytes p [] mem = mem"
| "put_bytes p (b # bs) mem = put_bytes (p + 1) bs (mem(p := b))"

section \<open>Reading the disk\<close>

text \<open>The words of a sector, stored from \<open>buf\<close> on.\<close>

definition read_disk :: "'d hw \<Rightarrow> u32 \<Rightarrow> u32 \<Rightarrow> ram \<Rightarrow> ('d machine, ram) io" where
  "read_disk H buf sect mem =
     bindIO (wait_disk H) (\<lambda>_. bindIO (disk_command H False sect) (\<lambda>_. bindIO (wait_disk H) (\<lambda>_.
     bindIO (in_words H 128 0 (replicate 128 0)) (\<lambda>ws. ret (put_bytes buf (concat (map word_bytes ws)) mem)))))"

partial_function (option) copy_loop :: "'d hw \<Rightarrow> u32 \<Rightarrow> u32 \<Rightarrow> u32 \<Rightarrow> ram \<Rightarrow> 'd machine \<Rightarrow> (ram \<times> 'd machine) result option" where
  "copy_loop H cur ed sect mem m =
     (if cur < ed then case read_disk H cur sect mem m of
         Inl e \<Rightarrow> Some (Inl e)
       | Inr (mem', m') \<Rightarrow> copy_loop H (cur + SECTSIZE) ed (sect + 1) mem' m'
      else Some (Inr (mem, m)))"

text \<open>The division of C rounds to zero.\<close>

definition cdiv :: "int \<Rightarrow> int \<Rightarrow> int" where
  "cdiv a b = (if a < 0 then - (- a div b) else a div b)"

definition copy_from_disk :: "'d hw \<Rightarrow> u32 \<Rightarrow> u32 \<Rightarrow> int \<Rightarrow> ram \<Rightarrow> ('d machine, ram) io" where
  "copy_from_disk H buf nbytes disk_offset mem m =
     (let cur = buf AND NOT (SECTSIZE - 1); ed = buf + nbytes;
        sect = word_of_int (cdiv disk_offset (uint SECTSIZE) + uint ARGSIZE div uint SECTSIZE + 1)
      in returns (copy_loop H cur ed sect mem m))"

section \<open>Loading\<close>

definition load_program :: "'d hw \<Rightarrow> u32 \<Rightarrow> u32 \<Rightarrow> u32 \<Rightarrow> u32 \<Rightarrow> ram \<Rightarrow> ('d machine, ram) io" where
  "load_program H filesz memsz paddr offset mem =
     bindIO (copy_from_disk H paddr filesz (sint offset) mem) (\<lambda>mem.
     ret (put_bytes (paddr + filesz) (replicate (unat (memsz - filesz)) 0) mem))"

definition le :: "nat \<Rightarrow> ram \<Rightarrow> u32 \<Rightarrow> nat" where
  "le n mem p = foldr (\<lambda>i v. unat (mem (p + word_of_nat i)) + 256 * v) [0..<n] 0"

definition EM_X86_64 :: nat where "EM_X86_64 = 62"

text \<open>The number of segments is read again in every round; \<open>n\<close> bounds the rounds by the range of its type.\<close>

fun elf64_segments :: "nat \<Rightarrow> 'd hw \<Rightarrow> u32 \<Rightarrow> nat \<Rightarrow> u32 \<Rightarrow> ram \<Rightarrow> ('d machine, ram) io" where
  "elf64_segments 0 H elf i ph mem = ret mem"
| "elf64_segments (Suc n) H elf i ph mem =
     (if i < le 2 mem (elf + 56) then
        bindIO (load_program H (word_of_nat (le 8 mem (ph + 32))) (word_of_nat (le 8 mem (ph + 40)))
          (word_of_nat (le 8 mem (ph + 24))) (word_of_nat (le 8 mem (ph + 8))) mem)
        (elf64_segments n H elf (i + 1) (ph + 56))
      else ret mem)"

definition load_elf64 :: "'d hw \<Rightarrow> u32 \<Rightarrow> ram \<Rightarrow> ('d machine, ram) io" where
  "load_elf64 H elf mem = elf64_segments (2 ^ 16) H elf 0 (elf + word_of_nat (le 8 mem (elf + 32))) mem"

fun elf32_segments :: "nat \<Rightarrow> 'd hw \<Rightarrow> u32 \<Rightarrow> nat \<Rightarrow> u32 \<Rightarrow> ram \<Rightarrow> ('d machine, ram) io" where
  "elf32_segments 0 H elf i ph mem = ret mem"
| "elf32_segments (Suc n) H elf i ph mem =
     (if i < le 2 mem (elf + 44) then
        bindIO (load_program H (word_of_nat (le 4 mem (ph + 16))) (word_of_nat (le 4 mem (ph + 20)))
          (word_of_nat (le 4 mem (ph + 12))) (word_of_nat (le 4 mem (ph + 4))) mem)
        (elf32_segments n H elf (i + 1) (ph + 32))
      else ret mem)"

definition load_elf32 :: "'d hw \<Rightarrow> u32 \<Rightarrow> ram \<Rightarrow> ('d machine, ram) io" where
  "load_elf32 H elf mem = elf32_segments (2 ^ 16) H elf 0 (elf + word_of_nat (le 4 mem (elf + 28))) mem"

text \<open>The memory and the address that the loader jumps to.\<close>

definition load_kernel :: "'d hw \<Rightarrow> ram \<Rightarrow> ('d machine, ram \<times> u32) io" where
  "load_kernel H mem =
     (let elf = 0x8000 in
      bindIO (if le 4 mem (BOOTREC_ADDR + 4) = 0 then
          bindIO (copy_from_disk H MAINARG_ADDR 1024 (- 1024) mem) (\<lambda>mem.
          bindIO (copy_from_disk H elf 4096 0 mem) (\<lambda>mem.
          if le 2 mem (elf + 18) = EM_X86_64 then load_elf64 H elf mem else load_elf32 H elf mem))
        else ret mem) (\<lambda>mem.
      ret (mem, if le 2 mem (elf + 18) = EM_X86_64 then word_of_nat (le 8 mem (elf + 24)) else word_of_nat (le 4 mem (elf + 24)))))"

section \<open>Bytes in memory\<close>

lemma put_bytes_at:
  "length bs \<le> 2 ^ 32 \<Longrightarrow> put_bytes p bs mem a = (if unat (a - p) < length bs then bs ! unat (a - p) else mem a)"
proof (induction bs arbitrary: p mem)
  case (Cons b bs)
  show ?case
  proof (cases "a = p")
    case True
    have "a - (p + 1) = - 1" using True by simp
    then have "unat (a - (p + 1)) = 2 ^ 32 - 1" by (simp add: unsigned_minus_1_eq_mask mask_eq_exp_minus_1)
    then show ?thesis using Cons True by simp
  next
    case False
    then have ne: "a - p \<noteq> 0" by simp
    then have "0 < unat (a - p)" using unat_gt_0 by blast
    then have "unat (a - p) = Suc (unat (a - p - 1))" using unat_minus_one [OF ne] by linarith
    moreover have "a - p - 1 = a - (p + 1)" by simp
    ultimately show ?thesis using Cons False by simp
  qed
qed simp

end
