(* ===== verification/BootmainProofs.thy ===== *)
theory BootmainProofs
  imports Bootmain AtadiskProofs
begin

text \<open>
  The boot loader on any drive that keeps the contract of \<open>Atadisk\<close>: it copies the arguments and the headers of the
  kernel, and what it leaves in memory for a segment is the bytes of the segment, taken from the kernel
  image behind the boot sector and the arguments, and zeros.
\<close>

section \<open>The disk as bytes\<close>

definition disk_byte :: "(nat \<Rightarrow> u32 list) \<Rightarrow> nat \<Rightarrow> u8" where
  "disk_byte f i = byte_of (f (i div 512) ! (i mod 512 div 4)) (i mod 4)"

lemma sector_bytes:
  assumes "length ws = n" and "i < 4 * n"
  shows "concat (map word_bytes ws) ! i = byte_of (ws ! (i div 4)) (i mod 4)"
  using assms
proof (induction ws arbitrary: n i)
  case (Cons w ws)
  have l: "length (word_bytes w) = 4" by (simp add: word_bytes_def)
  show ?case
  proof (cases "i < 4")
    case True
    then have "i \<in> {0, 1, 2, 3}" by auto
    then show ?thesis using l by (auto simp: nth_append word_bytes_def)
  next
    case False
    then have "concat (map word_bytes ws) ! (i - 4) = byte_of (ws ! ((i - 4) div 4)) ((i - 4) mod 4)"
      using Cons.prems by (intro Cons.IH) auto
    moreover have "i div 4 = Suc ((i - 4) div 4)" "(i - 4) mod 4 = i mod 4"
      using le_div_geq [of 4 i] le_mod_geq [of 4 i] False by simp_all
    ultimately show ?thesis using False l by (simp add: nth_append)
  qed
qed simp

lemma word_bytes_length: "length (concat (map word_bytes ws)) = 4 * length ws"
  by (induction ws) (simp_all add: word_bytes_def)

lemma read_disk_ok:
  assumes drive: "drives_ata H view" and rest: "ata_rest (view (hwst m))" and k: "unat sect < ata_size (view (hwst m))"
  shows "\<exists>m'. read_disk H buf sect mem m = Inr (\<lambda>a. if unat (a - buf) < 512
      then disk_byte (ata_sect (view (hwst m))) (512 * unat sect + unat (a - buf)) else mem a, m') \<and>
    ata_sect (view (hwst m')) = ata_sect (view (hwst m)) \<and> ata_size (view (hwst m')) = ata_size (view (hwst m)) \<and>
    ata_rest (view (hwst m'))"
proof -
  let ?f = "ata_sect (view (hwst m))" and ?k = "unat sect"
  note r = rest [unfolded ata_rest_def]
  obtain m1 m2 m3 where m: "wait_disk H m = Inr ((), m1)" "disk_command H False sect m1 = Inr ((), m2)" "wait_disk H m2 = Inr ((), m3)"
    "ata_sect (view (hwst m3)) = ?f" "ata_size (view (hwst m3)) = ata_size (view (hwst m))" "lba3 (view (hwst m3)) AND 0x10 = 0"
    "ata_busy (view (hwst m3)) = 0" "ata_mode (view (hwst m3)) = Reading ?k 0 (?f ?k)"
    using prepare [OF drive rest k, of False] by auto
  have len: "length (?f ?k) = Suc 127" using r k by (simp add: blocks_ok_def)
  obtain m4 where m4: "in_words H (Suc 127) 0 (replicate 128 0) m3 = Inr (?f ?k, m4)" "ata_mode (view (hwst m4)) = Idle"
    "ata_sect (view (hwst m4)) = ?f" "ata_size (view (hwst m4)) = ata_size (view (hwst m))" "lba3 (view (hwst m4)) AND 0x10 = 0"
    using in_words_ok [OF drive m(8,7) len, of 0 "replicate 128 0"] m(4,5,6) by auto
  have rest4: "ata_rest (view (hwst m4))" using r m4 by (simp add: ata_rest_def blocks_ok_def)
  have "put_bytes buf (concat (map word_bytes (?f ?k))) mem =
      (\<lambda>a. if unat (a - buf) < 512 then disk_byte ?f (512 * ?k + unat (a - buf)) else mem a)"
  proof
    fix a
    let ?i = "unat (a - buf)"
    have l: "length (concat (map word_bytes (?f ?k))) = 512" using len by (simp add: word_bytes_length)
    have "concat (map word_bytes (?f ?k)) ! ?i = disk_byte ?f (512 * ?k + ?i)" if "?i < 512"
    proof -
      have "(512 * ?k + ?i) mod 4 = ?i mod 4"
      proof -
        have "512 * ?k + ?i = ?i + 4 * (128 * ?k)" by simp
        then show ?thesis by (simp only: mod_mult_self2)
      qed
      then show ?thesis using that sector_bytes [of "?f ?k" 128 ?i] len by (simp add: disk_byte_def)
    qed
    then show "put_bytes buf (concat (map word_bytes (?f ?k))) mem a =
        (if ?i < 512 then disk_byte ?f (512 * ?k + ?i) else mem a)" using l by (simp add: put_bytes_at)
  qed
  moreover have "in_words H 128 0 (replicate 128 0) m3 = Inr (?f ?k, m4)" using m4(1) by simp
  ultimately show ?thesis using m(1-3) m4(3,4) rest4
    by (intro exI [of _ m4]) (simp add: read_disk_def del: in_words.simps)
qed

text \<open>\<open>n\<close> sectors.\<close>

lemma copy_loop_ok:
  assumes drive: "drives_ata H view" and "ata_rest (view (hwst m))" and "unat sect + n \<le> ata_size (view (hwst m))"
    and "unat cur + 512 * n < 2 ^ 32" and "unat ed \<le> unat cur + 512 * n" and "unat cur + 512 * n < unat ed + 512"
  shows "\<exists>m'. copy_loop H cur ed sect mem m = Some (Inr (\<lambda>a. if unat (a - cur) < 512 * n
      then disk_byte (ata_sect (view (hwst m))) (512 * unat sect + unat (a - cur)) else mem a, m')) \<and>
    ata_sect (view (hwst m')) = ata_sect (view (hwst m)) \<and> ata_size (view (hwst m')) = ata_size (view (hwst m)) \<and>
    ata_rest (view (hwst m'))"
  using assms(2-)
proof (induction n arbitrary: m cur sect mem)
  case 0
  then have "\<not> cur < ed" by (simp add: word_less_nat_alt)
  then show ?case using 0 by (subst copy_loop.simps) simp
next
  case (Suc n)
  let ?f = "ata_sect (view (hwst m))"
  have lt: "cur < ed" using Suc.prems by (simp add: word_less_nat_alt)
  let ?mem = "\<lambda>a. if unat (a - cur) < 512 then disk_byte ?f (512 * unat sect + unat (a - cur)) else mem a"
  have "unat sect < ata_size (view (hwst m))" using Suc.prems(2) by simp
  then obtain m1 where m1: "read_disk H cur sect mem m = Inr (?mem, m1)" "ata_sect (view (hwst m1)) = ?f"
    "ata_size (view (hwst m1)) = ata_size (view (hwst m))" "ata_rest (view (hwst m1))"
    using read_disk_ok [OF drive Suc.prems(1)] by blast
  have c: "unat (cur + SECTSIZE) = unat cur + 512"
  proof -
    have "unat (512 :: u32) = 512" by simp
    then show ?thesis using Suc.prems(3) unfolding SECTSIZE_def by (subst unat_add_lem [THEN iffD1]) simp_all
  qed
  have s: "unat (sect + 1) = unat sect + 1"
    using Suc.prems(1,2) by (intro next_block [of sect n]) (simp add: ata_rest_def)
  obtain m' where m': "copy_loop H (cur + SECTSIZE) ed (sect + 1) ?mem m1 = Some (Inr (\<lambda>a. if unat (a - (cur + SECTSIZE)) < 512 * n
      then disk_byte ?f (512 * (unat sect + 1) + unat (a - (cur + SECTSIZE))) else ?mem a, m'))" "ata_sect (view (hwst m')) = ?f"
    "ata_size (view (hwst m')) = ata_size (view (hwst m))" "ata_rest (view (hwst m'))"
    using Suc.IH [of m1 "sect + 1" "cur + SECTSIZE" ?mem] Suc.prems m1(4) unfolding c s m1(2,3) by auto
  have "(if unat (a - (cur + SECTSIZE)) < 512 * n then disk_byte ?f (512 * (unat sect + 1) + unat (a - (cur + SECTSIZE))) else ?mem a) =
      (if unat (a - cur) < 512 * Suc n then disk_byte ?f (512 * unat sect + unat (a - cur)) else mem a)" for a
  proof (cases "unat (a - cur) < 512")
    case True
    have "a - (cur + SECTSIZE) = (a - cur) + - 512" by (simp add: SECTSIZE_def)
    moreover have "- 512 = (4294966784 :: u32)" by simp
    ultimately have "a - (cur + SECTSIZE) = (a - cur) + 4294966784" by (simp only:)
    moreover have "unat ((a - cur) + 4294966784) = unat (a - cur) + 4294966784"
      using True by (subst unat_add_lem [THEN iffD1]) simp_all
    ultimately have "unat (a - (cur + SECTSIZE)) = unat (a - cur) + 4294966784" by (simp only:)
    then have "512 * n \<le> unat (a - (cur + SECTSIZE))" using Suc.prems(3) by simp
    then show ?thesis using True Suc.prems(3) by simp
  next
    case False
    have eq: "a - (cur + SECTSIZE) = (a - cur) - 512" by (simp add: SECTSIZE_def)
    have "(512 :: u32) \<le> a - cur" using False by (simp add: word_le_nat_alt)
    then have "unat ((a - cur) - 512) = unat (a - cur) - unat (512 :: u32)" by (rule unat_sub)
    then have "unat (a - (cur + SECTSIZE)) = unat (a - cur) - 512" unfolding eq by simp
    then show ?thesis using False by auto
  qed
  then show ?case using m' m1 lt by (subst copy_loop.simps) simp
qed

section \<open>A segment\<close>

definition segment_ok :: "u32 \<Rightarrow> u32 \<Rightarrow> u32 \<Rightarrow> u32 \<Rightarrow> bool" where
  "segment_ok filesz memsz paddr offset \<longleftrightarrow> unat offset < 2 ^ 31 \<and> unat paddr mod 512 = unat offset mod 512 \<and>
     filesz \<le> memsz \<and> unat paddr + unat memsz + 512 \<le> 2 ^ 32"

text \<open>What a segment is loaded to, and the memory that loading it may change: the sectors at its ends are
  copied as a whole.\<close>

definition seg_area :: "u32 \<Rightarrow> u32 \<Rightarrow> u32 set" where
  "seg_area memsz paddr = {a. unat paddr \<le> unat a \<and> unat a < unat paddr + unat memsz}"

definition footprint :: "u32 \<Rightarrow> u32 \<Rightarrow> u32 set" where
  "footprint memsz paddr = {a. unat paddr div 512 * 512 \<le> unat a \<and> unat a < unat paddr + unat memsz + 512}"

lemma sub_nat: "unat (b :: u32) \<le> unat a \<Longrightarrow> unat (a - b) = unat a - unat b"
  by (rule unat_sub) (simp add: word_le_nat_alt)

lemma sub_nat_wrap: "unat (a :: u32) < unat b \<Longrightarrow> unat (a - b) = unat a + 2 ^ 32 - unat b"
  using unat_sub_if_size [of a b] by (simp add: word_size)

lemma round_sector: "unat (paddr AND NOT (SECTSIZE - 1) :: u32) = unat paddr div 512 * 512"
  using unat_and_not_low_bits [of paddr 9] by (simp add: SECTSIZE_def)

lemma start_sector:
  assumes "unat (offset :: u32) < 2 ^ 31"
  shows "unat (word_of_int (cdiv (sint offset) (uint SECTSIZE) + uint ARGSIZE div uint SECTSIZE + 1) :: u32) = unat offset div 512 + 3"
proof -
  have "uint offset = int (unat offset)" by (rule uint_nat)
  moreover have "unat offset < 2147483648" using assms by simp
  ultimately have "uint offset < 2147483648" by linarith
  then have "sint offset = uint offset" by (intro sint_small) simp
  then have "cdiv (sint offset) (uint SECTSIZE) + uint ARGSIZE div uint SECTSIZE + 1 = int (unat offset div 512 + 3)"
    by (simp add: cdiv_def SECTSIZE_def ARGSIZE_def zdiv_int)
  then have "(word_of_int (cdiv (sint offset) (uint SECTSIZE) + uint ARGSIZE div uint SECTSIZE + 1) :: u32) = word_of_nat (unat offset div 512 + 3)"
    by (simp only: of_int_of_nat_eq)
  moreover have "unat offset div 512 + 3 < 2 ^ 32" using assms by simp
  ultimately show ?thesis using unat_of_nat_small [of "unat offset div 512 + 3", where 'a = 32] by (simp only:) simp
qed

lemma load_program_ok:
  assumes "drives_ata H view" and "ata_rest (view (hwst m))" and ok: "segment_ok filesz memsz paddr offset"
    and size: "1536 + unat offset + unat filesz \<le> 512 * ata_size (view (hwst m))"
  shows "\<exists>mem' m'. load_program H filesz memsz paddr offset mem m = Inr (mem', m') \<and> ata_sect (view (hwst m')) = ata_sect (view (hwst m)) \<and>
    ata_size (view (hwst m')) = ata_size (view (hwst m)) \<and> ata_rest (view (hwst m')) \<and>
    (\<forall>i<unat memsz. mem' (paddr + word_of_nat i) =
       (if i < unat filesz then disk_byte (ata_sect (view (hwst m))) (1536 + unat offset + i) else 0)) \<and>
    (\<forall>a. a \<notin> footprint memsz paddr \<longrightarrow> mem' a = mem a)"
proof -
  let ?f = "ata_sect (view (hwst m))" and ?cur = "paddr AND NOT (SECTSIZE - 1)" and ?r = "unat paddr mod 512"
  let ?n = "(?r + unat filesz + 511) div 512" and ?ed = "paddr + filesz"
  note ok' = ok [unfolded segment_ok_def]
  have msz: "unat memsz < 2 ^ 32" using ok' by linarith
  have fm: "unat filesz \<le> unat memsz" using ok' by (simp add: word_le_nat_alt)
  have cur: "unat ?cur = unat paddr - ?r" "?r \<le> unat paddr"
    using round_sector [of paddr] minus_mod_eq_div_mult [of "unat paddr" 512] by simp_all
  have ed: "unat ?ed = unat paddr + unat filesz" using ok' fm by (subst unat_add_lem [THEN iffD1]) simp_all
  have n: "?r + unat filesz \<le> 512 * ?n" "512 * ?n \<le> ?r + unat filesz + 511"
    using div_mult_mod_eq [of "?r + unat filesz + 511" 512] mod_less_divisor [of 512 "?r + unat filesz + 511"] by linarith+
  define sect where "sect = (word_of_int (cdiv (sint offset) (uint SECTSIZE) + uint ARGSIZE div uint SECTSIZE + 1) :: u32)"
  have sect: "unat sect = unat offset div 512 + 3" unfolding sect_def using start_sector ok' by blast
  have "unat sect + ?n \<le> ata_size (view (hwst m))"
  proof -
    have "512 * (unat offset div 512) + ?r = unat offset" using ok' mult_div_mod_eq [of 512 "unat offset"] by simp
    then have "512 * (unat sect + ?n) < 512 * (ata_size (view (hwst m)) + 1)" using n(2) sect size by simp
    then show ?thesis by simp
  qed
  moreover have "unat ?cur + 512 * ?n < 2 ^ 32" "unat ?ed \<le> unat ?cur + 512 * ?n" "unat ?cur + 512 * ?n < unat ?ed + 512"
    using cur ed n ok' fm by linarith+
  ultimately obtain m' where m': "copy_loop H ?cur ?ed sect mem m = Some (Inr (\<lambda>a. if unat (a - ?cur) < 512 * ?n
      then disk_byte ?f (512 * unat sect + unat (a - ?cur)) else mem a, m'))" "ata_sect (view (hwst m')) = ?f"
    "ata_size (view (hwst m')) = ata_size (view (hwst m))" "ata_rest (view (hwst m'))"
    using copy_loop_ok [OF assms(1,2)] by blast
  let ?mem1 = "\<lambda>a. if unat (a - ?cur) < 512 * ?n then disk_byte ?f (512 * unat sect + unat (a - ?cur)) else mem a"
  let ?mem2 = "put_bytes ?ed (replicate (unat (memsz - filesz)) 0) ?mem1"
  have z: "unat (memsz - filesz) = unat memsz - unat filesz" using fm by (rule sub_nat)
  have p2: "?mem2 a = (if unat (a - ?ed) < unat memsz - unat filesz then 0 else ?mem1 a)" for a
    using msz z by (subst put_bytes_at) (simp_all add: z)
  have run: "load_program H filesz memsz paddr offset mem m = Inr (?mem2, m')"
  proof -
    have "copy_from_disk H paddr filesz (sint offset) mem m = Inr (?mem1, m')"
      unfolding copy_from_disk_def Let_def sect_def [symmetric] m'(1) by simp
    then show ?thesis unfolding load_program_def by (rule bindIO_Inr [THEN trans]) simp
  qed
  have "?mem2 (paddr + word_of_nat i) = (if i < unat filesz then disk_byte ?f (1536 + unat offset + i) else 0)" if i: "i < unat memsz" for i
  proof -
    let ?a = "paddr + word_of_nat i"
    have "unat (word_of_nat i :: u32) = i" using i msz by (intro unat_of_nat_small) simp
    then have a: "unat ?a = unat paddr + i" using i ok' by (subst unat_add_lem [THEN iffD1]) simp_all
    show ?thesis
    proof (cases "i < unat filesz")
      case True
      have "unat (?a - ?ed) = unat ?a + 2 ^ 32 - unat ?ed" using True a ed by (intro sub_nat_wrap) simp
      then have far: "\<not> unat (?a - ?ed) < unat memsz - unat filesz" using a ed ok' by linarith
      have c: "unat (?a - ?cur) = ?r + i" using a cur by (subst sub_nat) simp_all
      have near: "?r + i < 512 * ?n" using True n(1) by linarith
      have "512 * unat sect + (?r + i) = 1536 + unat offset + i"
        using sect ok' div_mult_mod_eq [of "unat offset" 512] by linarith
      then show ?thesis using True far near unfolding p2 c by (simp only: if_True if_False)
    next
      case False
      have "unat (?a - ?ed) = i - unat filesz" using False a ed by (subst sub_nat) simp_all
      moreover have "i - unat filesz < unat memsz - unat filesz" using False i by linarith
      ultimately show ?thesis using False unfolding p2 by (simp only: if_True if_False)
    qed
  qed
  moreover have "?mem2 a = mem a" if a: "a \<notin> footprint memsz paddr" for a
  proof (cases "unat a < unat ?cur")
    case True
    have "unat (a - ?cur) = unat a + 2 ^ 32 - unat ?cur" "unat (a - ?ed) = unat a + 2 ^ 32 - unat ?ed"
      using True cur ed by (simp_all add: sub_nat_wrap)
    then have "\<not> unat (a - ?cur) < 512 * ?n" "\<not> unat (a - ?ed) < unat memsz - unat filesz"
      using \<open>unat ?cur + 512 * ?n < 2 ^ 32\<close> ed ok' by linarith+
    then show ?thesis unfolding p2 by simp
  next
    case False
    then have "unat paddr + unat memsz + 512 \<le> unat a" using a round_sector [of paddr] by (simp add: footprint_def)
    moreover from this have "unat (a - ?cur) = unat a - unat ?cur" "unat (a - ?ed) = unat a - unat ?ed"
      using cur ed fm by (simp_all add: sub_nat)
    ultimately have "\<not> unat (a - ?cur) < 512 * ?n" "\<not> unat (a - ?ed) < unat memsz - unat filesz"
      using n(2) cur ed fm by linarith+
    then show ?thesis unfolding p2 by simp
  qed
  ultimately show ?thesis using run m'(2-4) by blast
qed

section \<open>All segments\<close>

text \<open>What a segment must be in memory, for the header \<open>(filesz, memsz, paddr, offset)\<close>.\<close>

definition loaded :: "(nat \<Rightarrow> u32 list) \<Rightarrow> u32 \<times> u32 \<times> u32 \<times> u32 \<Rightarrow> ram \<Rightarrow> bool" where
  "loaded f = (\<lambda>(filesz, memsz, paddr, offset) mem. \<forall>i<unat memsz.
     mem (paddr + word_of_nat i) = (if i < unat filesz then disk_byte f (1536 + unat offset + i) else 0))"

text \<open>A segment that can be loaded from a disk of \<open>sz\<close> sectors.\<close>

definition seg_ok :: "nat \<Rightarrow> u32 \<times> u32 \<times> u32 \<times> u32 \<Rightarrow> bool" where
  "seg_ok sz = (\<lambda>(filesz, memsz, paddr, offset). segment_ok filesz memsz paddr offset \<and>
     1536 + unat offset + unat filesz \<le> 512 * sz)"

definition area_of :: "u32 \<times> u32 \<times> u32 \<times> u32 \<Rightarrow> u32 set" where
  "area_of = (\<lambda>(filesz, memsz, paddr, offset). seg_area memsz paddr)"

definition footprint_of :: "u32 \<times> u32 \<times> u32 \<times> u32 \<Rightarrow> u32 set" where
  "footprint_of = (\<lambda>(filesz, memsz, paddr, offset). footprint memsz paddr)"

text \<open>The page that the loader keeps the headers in, and the arguments of the kernel.\<close>

definition header_page :: "u32 set" where
  "header_page = {a. unat (a - 0x8000) < 4096}"

definition argument_area :: "u32 set" where
  "argument_area = {a. unat (a - MAINARG_ADDR) < 1024}"

text \<open>The program headers of the two classes of ELF files: the number of segments at \<open>cnt\<close>, the first header at
  \<open>phoff\<close>, one every \<open>stride\<close> bytes, read by \<open>seg\<close> as file size, memory size, address and offset.\<close>

type_synonym phdr_reader = "ram \<Rightarrow> u32 \<Rightarrow> u32 \<times> u32 \<times> u32 \<times> u32"

definition seg64 :: phdr_reader where
  "seg64 mem ph = (word_of_nat (le 8 mem (ph + 32)), word_of_nat (le 8 mem (ph + 40)),
     word_of_nat (le 8 mem (ph + 24)), word_of_nat (le 8 mem (ph + 8)))"

definition seg32 :: phdr_reader where
  "seg32 mem ph = (word_of_nat (le 4 mem (ph + 16)), word_of_nat (le 4 mem (ph + 20)),
     word_of_nat (le 4 mem (ph + 12)), word_of_nat (le 4 mem (ph + 4)))"

definition nth_segment :: "nat \<Rightarrow> nat \<Rightarrow> phdr_reader \<Rightarrow> ram \<Rightarrow> nat \<Rightarrow> u32 \<times> u32 \<times> u32 \<times> u32" where
  "nth_segment phoff stride seg mem i = seg mem (0x8000 + word_of_nat phoff + word_of_nat (stride * i))"

text \<open>An executable whose headers, in memory, describe segments that lie apart from each other, from the headers
  and from the arguments.\<close>

definition image_ok :: "nat \<Rightarrow> nat \<Rightarrow> nat \<Rightarrow> nat \<Rightarrow> phdr_reader \<Rightarrow> ram \<Rightarrow> bool" where
  "image_ok sz count phoff stride seg mem \<longleftrightarrow>
     (\<forall>i<count. phoff + stride * (i + 1) \<le> 4096 \<and>
        (let s = nth_segment phoff stride seg mem i in
          seg_ok sz s \<and> footprint_of s \<inter> (header_page \<union> argument_area) = {} \<and>
          (\<forall>j<i. area_of (nth_segment phoff stride seg mem j) \<inter> footprint_of s = {})))"

lemma le_cong: "(\<And>k. k < n \<Longrightarrow> mem' (p + word_of_nat k) = mem (p + word_of_nat k)) \<Longrightarrow> le n mem' p = le n mem p"
  unfolding le_def by (rule foldr_cong) auto

lemma le_2: "le 2 mem p < 2 ^ 16"
proof -
  have "le 2 mem p = unat (mem p) + 256 * unat (mem (p + 1))" by (simp add: le_def numeral_2_eq_2)
  then show ?thesis using unsigned_less [of "mem p", where 'a = nat] unsigned_less [of "mem (p + 1)", where 'a = nat] by simp
qed

lemma in_page: "k < 4096 \<Longrightarrow> 0x8000 + word_of_nat k \<in> header_page"
  by (simp add: header_page_def unat_of_nat_small)

lemma le_page:
  assumes "\<And>a. a \<in> header_page \<Longrightarrow> mem' a = mem a" and "k + n \<le> 4096"
  shows "le n mem' (0x8000 + word_of_nat k) = le n mem (0x8000 + word_of_nat k)"
proof (rule le_cong)
  fix i assume "i < n"
  then have "0x8000 + word_of_nat (k + i) \<in> header_page" using assms(2) by (intro in_page) simp
  then show "mem' (0x8000 + word_of_nat k + word_of_nat i) = mem (0x8000 + word_of_nat k + word_of_nat i)"
    using assms(1) by (simp add: add.assoc)
qed

text \<open>Loading a segment loads it, and keeps the segments it does not overlap.\<close>

lemma load_segment:
  assumes "drives_ata H view" and "ata_rest (view (hwst m))" and "seg_ok (ata_size (view (hwst m))) s"
  shows "\<exists>mem' m'. (case s of (filesz, memsz, paddr, offset) \<Rightarrow> load_program H filesz memsz paddr offset mem m) = Inr (mem', m') \<and>
    ata_sect (view (hwst m')) = ata_sect (view (hwst m)) \<and> ata_size (view (hwst m')) = ata_size (view (hwst m)) \<and>
    ata_rest (view (hwst m')) \<and> loaded (ata_sect (view (hwst m))) s mem' \<and> (\<forall>a. a \<notin> footprint_of s \<longrightarrow> mem' a = mem a)"
proof -
  obtain filesz memsz paddr offset where s: "s = (filesz, memsz, paddr, offset)" by (cases s)
  show ?thesis using load_program_ok [OF assms(1,2), of filesz memsz paddr offset mem] assms(3)
    by (simp add: s seg_ok_def loaded_def footprint_of_def)
qed

lemma loaded_stays:
  assumes "loaded f s mem" and "seg_ok sz s" and "area_of s \<inter> F = {}" and "\<And>a. a \<notin> F \<Longrightarrow> mem' a = mem a"
  shows "loaded f s mem'"
proof -
  obtain filesz memsz paddr offset where s: "s = (filesz, memsz, paddr, offset)" by (cases s)
  have "mem' (paddr + word_of_nat i) = mem (paddr + word_of_nat i)" if i: "i < unat memsz" for i
  proof -
    have b: "unat paddr + unat memsz + 512 \<le> 2 ^ 32" using assms(2) by (simp add: s seg_ok_def segment_ok_def)
    then have "unat (word_of_nat i :: u32) = i" using i by (intro unat_of_nat_small) simp
    then have "unat (paddr + word_of_nat i) = unat paddr + i" using b i by (subst unat_add_lem [THEN iffD1]) simp_all
    then have "paddr + word_of_nat i \<in> area_of s" using i by (simp add: s area_of_def seg_area_def)
    then show ?thesis using assms(3,4) by blast
  qed
  then show ?thesis using assms(1) by (simp add: s loaded_def)
qed

section \<open>The loop over the segments\<close>

text \<open>The loops for the two classes of files differ in the layout of the headers only.\<close>

locale elf_class =
  fixes segments :: "nat \<Rightarrow> 'd hw \<Rightarrow> u32 \<Rightarrow> nat \<Rightarrow> u32 \<Rightarrow> ram \<Rightarrow> ('d machine, ram) io"
    and cnt :: nat and stride :: nat and seg :: phdr_reader
  assumes segments_0: "segments 0 H elf i ph mem = ret mem"
    and segments_Suc: "segments (Suc n) H elf i ph mem m =
      (if i < le 2 mem (elf + word_of_nat cnt)
       then bindIO (case seg mem ph of (filesz, memsz, paddr, offset) \<Rightarrow> load_program H filesz memsz paddr offset mem)
         (segments n H elf (i + 1) (ph + word_of_nat stride)) m
       else Inr (mem, m))"
    and seg_page: "(\<And>a. a \<in> header_page \<Longrightarrow> mem' a = mem a) \<Longrightarrow> k + stride \<le> 4096 \<Longrightarrow>
      seg mem' (0x8000 + word_of_nat k) = seg mem (0x8000 + word_of_nat k)"
    and cnt_page: "cnt + 2 \<le> 4096"

context elf_class
begin

text \<open>From the segment \<open>i\<close> on; \<open>mem0\<close> is the memory when the loop starts.\<close>

lemma segments_ok:
  assumes drive: "drives_ata H view" and count: "count = le 2 mem0 (0x8000 + word_of_nat cnt)"
    and ok: "image_ok (ata_size (view (hwst m0))) count phoff stride seg mem0"
  shows "\<lbrakk>ata_rest (view (hwst m)); ata_sect (view (hwst m)) = f; ata_size (view (hwst m)) = ata_size (view (hwst m0));
      count \<le> n + i; i \<le> count; \<forall>a\<in>header_page \<union> argument_area. mem a = mem0 a;
      \<forall>j<i. loaded f (nth_segment phoff stride seg mem0 j) mem\<rbrakk> \<Longrightarrow>
    \<exists>mem' m'. segments n H 0x8000 i (0x8000 + word_of_nat phoff + word_of_nat (stride * i)) mem m = Inr (mem', m') \<and>
      ata_rest (view (hwst m')) \<and> ata_sect (view (hwst m')) = f \<and> ata_size (view (hwst m')) = ata_size (view (hwst m0)) \<and>
      (\<forall>j<count. loaded f (nth_segment phoff stride seg mem0 j) mem') \<and> (\<forall>a\<in>header_page \<union> argument_area. mem' a = mem0 a)"
proof (induction n arbitrary: i mem m)
  case 0
  then have "i = count" by simp
  then show ?case using 0 by (intro exI [of _ mem] exI [of _ m]) (simp add: segments_0)
next
  case (Suc n)
  let ?seg = "nth_segment phoff stride seg mem0" and ?ph = "\<lambda>i. 0x8000 + word_of_nat phoff + word_of_nat (stride * i) :: u32"
  have page: "mem a = mem0 a" if "a \<in> header_page" for a using Suc.prems(6) that by blast
  have N: "le 2 mem (0x8000 + word_of_nat cnt) = count" using le_page [OF page cnt_page] count by simp
  show ?case
  proof (cases "i < count")
    case False
    then have "i = count" using Suc.prems(5) by simp
    then show ?thesis using Suc.prems N by (intro exI [of _ mem] exI [of _ m]) (simp add: segments_Suc)
  next
    case True
    note here = ok [unfolded image_ok_def Let_def, rule_format, OF True]
    have apart: "footprint_of (?seg i) \<inter> (header_page \<union> argument_area) = {}"
      "\<And>j. j < i \<Longrightarrow> area_of (?seg j) \<inter> footprint_of (?seg i) = {}" using here by simp_all
    have b: "phoff + stride * i + stride \<le> 4096" using here by simp
    have "seg mem (0x8000 + word_of_nat (phoff + stride * i)) = seg mem0 (0x8000 + word_of_nat (phoff + stride * i))"
      by (rule seg_page [OF page b])
    then have sg: "seg mem (?ph i) = ?seg i" by (simp add: nth_segment_def add.assoc)
    have "seg_ok (ata_size (view (hwst m))) (?seg i)" using here Suc.prems(3) by simp
    from load_segment [OF drive Suc.prems(1) this, of mem] obtain mem1 m1 where
      m1: "(case ?seg i of (filesz, memsz, paddr, offset) \<Rightarrow> load_program H filesz memsz paddr offset mem m) = Inr (mem1, m1)"
      "ata_sect (view (hwst m1)) = f" "ata_size (view (hwst m1)) = ata_size (view (hwst m0))" "ata_rest (view (hwst m1))"
      "loaded f (?seg i) mem1" "\<And>a. a \<notin> footprint_of (?seg i) \<Longrightarrow> mem1 a = mem a"
      unfolding Suc.prems(2,3) by blast
    have "\<forall>a\<in>header_page \<union> argument_area. mem1 a = mem0 a" using apart(1) m1(6) Suc.prems(6) by (metis disjoint_iff)
    moreover have "\<forall>j<i + 1. loaded f (?seg j) mem1"
    proof (intro allI impI)
      fix j assume "j < i + 1"
      then consider "j = i" | "j < i" by linarith
      then show "loaded f (?seg j) mem1"
      proof cases
        case 2
        have "j < count" using 2 True by simp
        then have sj: "seg_ok (ata_size (view (hwst m0))) (?seg j)" using ok by (simp add: image_ok_def Let_def)
        have "loaded f (?seg j) mem" using Suc.prems(7) 2 by simp
        then show ?thesis using sj apart(2) [OF 2] m1(6) by (rule loaded_stays)
      qed (use m1(5) in simp)
    qed
    moreover have "count \<le> n + (i + 1)" "i + 1 \<le> count" using Suc.prems(4) True by simp_all
    ultimately obtain mem' m' where "segments n H 0x8000 (i + 1) (?ph (i + 1)) mem1 m1 = Inr (mem', m')"
      "ata_rest (view (hwst m'))" "ata_sect (view (hwst m')) = f" "ata_size (view (hwst m')) = ata_size (view (hwst m0))"
      "\<forall>j<count. loaded f (?seg j) mem'" "\<forall>a\<in>header_page \<union> argument_area. mem' a = mem0 a"
      using Suc.IH [OF m1(4,2,3)] by blast
    moreover have "?ph i + word_of_nat stride = ?ph (i + 1)" by (simp add: algebra_simps)
    moreover have "segments (Suc n) H 0x8000 i (?ph i) mem m = segments n H 0x8000 (i + 1) (?ph i + word_of_nat stride) mem1 m1"
      using True N m1(1) sg by (simp add: segments_Suc bindIO_def case_prod_unfold)
    ultimately show ?thesis by (intro exI [of _ mem'] exI [of _ m']) (simp only: simp_thms)
  qed
qed

end

interpretation elf64: elf_class elf64_segments 56 56 seg64
proof (unfold_locales, goal_cases)
  case (3 mem' mem k)
  have "le 8 mem' (0x8000 + word_of_nat k + word_of_nat d) = le 8 mem (0x8000 + word_of_nat k + word_of_nat d)" if "d \<le> 40" for d
    using le_page [where k = "k + d" and n = 8, OF 3(1)] 3(2) that by (simp add: add.assoc)
  from this [of 32] this [of 40] this [of 24] this [of 8] show ?case by (simp add: seg64_def)
qed (simp_all add: seg64_def)

interpretation elf32: elf_class elf32_segments 44 32 seg32
proof (unfold_locales, goal_cases)
  case (3 mem' mem k)
  have "le 4 mem' (0x8000 + word_of_nat k + word_of_nat d) = le 4 mem (0x8000 + word_of_nat k + word_of_nat d)" if "d \<le> 20" for d
    using le_page [where k = "k + d" and n = 4, OF 3(1)] 3(2) that by (simp add: add.assoc)
  from this [of 16] this [of 20] this [of 12] this [of 4] show ?case by (simp add: seg32_def)
qed (simp_all add: seg32_def)

section \<open>The whole loader\<close>

text \<open>The memory when the arguments and the headers have been copied.\<close>

definition boot_mem :: "(nat \<Rightarrow> u32 list) \<Rightarrow> ram \<Rightarrow> ram" where
  "boot_mem f mem a =
     (if a \<in> header_page then disk_byte f (1536 + unat (a - 0x8000))
      else if a \<in> argument_area then disk_byte f (512 + unat (a - MAINARG_ADDR)) else mem a)"

text \<open>Number, place, distance and layout of the program headers, and the entry point, by the class of the file.\<close>

definition elf_header :: "ram \<Rightarrow> nat \<times> nat \<times> nat \<times> phdr_reader \<times> u32" where
  "elf_header mem = (if le 2 mem 0x8012 = EM_X86_64
     then (le 2 mem 0x8038, unat (word_of_nat (le 8 mem 0x8020) :: u32), 56, seg64, word_of_nat (le 8 mem 0x8018))
     else (le 2 mem 0x802c, unat (word_of_nat (le 4 mem 0x801c) :: u32), 32, seg32, word_of_nat (le 4 mem 0x8018)))"

lemma load_headers:
  assumes drive: "drives_ata H view" and rest: "ata_rest (view (hwst m))" and size: "11 \<le> ata_size (view (hwst m))"
  shows "\<exists>mem1 m1 m2. copy_from_disk H MAINARG_ADDR 1024 (- 1024) mem m = Inr (mem1, m1) \<and>
    copy_from_disk H 0x8000 4096 0 mem1 m1 = Inr (boot_mem (ata_sect (view (hwst m))) mem, m2) \<and>
    ata_sect (view (hwst m2)) = ata_sect (view (hwst m)) \<and> ata_size (view (hwst m2)) = ata_size (view (hwst m)) \<and>
    ata_rest (view (hwst m2))"
proof -
  let ?f = "ata_sect (view (hwst m))"
  obtain m1 where m1: "copy_loop H 0x10000 0x10400 1 mem m = Some (Inr (\<lambda>a. if unat (a - 0x10000) < 512 * 2
      then disk_byte ?f (512 * unat (1 :: u32) + unat (a - 0x10000)) else mem a, m1))"
    "ata_sect (view (hwst m1)) = ?f" "ata_size (view (hwst m1)) = ata_size (view (hwst m))" "ata_rest (view (hwst m1))"
    using copy_loop_ok [OF drive rest, of 1 2 "0x10000" "0x10400" mem] size by auto
  let ?mem = "\<lambda>a. if unat (a - 0x10000) < 1024 then disk_byte ?f (512 + unat (a - 0x10000)) else mem a"
  obtain m2 where m2: "copy_loop H 0x8000 0x9000 3 ?mem m1 = Some (Inr (\<lambda>a. if unat (a - 0x8000) < 512 * 8
      then disk_byte ?f (512 * unat (3 :: u32) + unat (a - 0x8000)) else ?mem a, m2))"
    "ata_sect (view (hwst m2)) = ?f" "ata_size (view (hwst m2)) = ata_size (view (hwst m))" "ata_rest (view (hwst m2))"
    using copy_loop_ok [OF drive m1(4), of 3 8 "0x8000" "0x9000" ?mem, unfolded m1(2,3)] size by auto
  have "copy_from_disk H MAINARG_ADDR 1024 (- 1024) mem m = Inr (?mem, m1)"
    using m1(1) by (simp add: copy_from_disk_def MAINARG_ADDR_def SECTSIZE_def ARGSIZE_def cdiv_def cong: if_cong)
  moreover have "copy_from_disk H 0x8000 4096 0 ?mem m1 = Inr (boot_mem ?f mem, m2)"
  proof -
    have "(\<lambda>a. if unat (a - 0x8000) < 512 * 8 then disk_byte ?f (512 * unat (3 :: u32) + unat (a - 0x8000)) else ?mem a) = boot_mem ?f mem"
      by (rule ext) (simp add: boot_mem_def header_page_def argument_area_def MAINARG_ADDR_def)
    then show ?thesis using m2(1) by (simp add: copy_from_disk_def SECTSIZE_def ARGSIZE_def cdiv_def)
  qed
  ultimately show ?thesis using m2(2-4) by blast
qed

text \<open>C14. The boot loader on the first processor: it copies the arguments and the headers of the kernel image from
  the disk, loads all segments, 64-bit or 32-bit, and jumps to the entry point of the image.  When it ends,
  every byte of every segment is the byte of the image (which starts behind the boot sector and the 1024 bytes
  of arguments) at the segment's offset, up to the size of the segment in the file, and zero from there on;
  the headers and the arguments are in their places, and the disk is unchanged.\<close>

theorem boot_loads_kernel:
  assumes drive: "drives_ata H view" and rest: "ata_rest (view (hwst m))" and size: "11 \<le> ata_size (view (hwst m))"
    and bsp: "le 4 mem (BOOTREC_ADDR + 4) = 0"
    and disk: "ata_sect (view (hwst m)) = f" and mem0: "boot_mem f mem = mem0"
    and hdr: "elf_header mem0 = (count, phoff, stride, seg, entry)"
    and ok: "image_ok (ata_size (view (hwst m))) count phoff stride seg mem0"
  shows "\<exists>mem' m'. load_kernel H mem m = Inr ((mem', entry), m') \<and>
    (\<forall>i<count. loaded f (nth_segment phoff stride seg mem0 i) mem') \<and>
    (\<forall>a\<in>header_page \<union> argument_area. mem' a = mem0 a) \<and> ata_sect (view (hwst m')) = f"
proof -
  obtain mem1 m1 m2 where h: "copy_from_disk H MAINARG_ADDR 1024 (- 1024) mem m = Inr (mem1, m1)"
    "copy_from_disk H 0x8000 4096 0 mem1 m1 = Inr (mem0, m2)" "ata_sect (view (hwst m2)) = f"
    "ata_size (view (hwst m2)) = ata_size (view (hwst m))" "ata_rest (view (hwst m2))"
    using load_headers [OF drive rest size, of mem] unfolding disk mem0 by blast
  have page: "le n mem' (0x8000 + word_of_nat k) = le n mem0 (0x8000 + word_of_nat k)"
    if "\<forall>a\<in>header_page \<union> argument_area. mem' a = mem0 a" "k + n \<le> 4096" for mem' n k
    by (rule le_page) (use that in auto)
  have "count \<le> 2 ^ 16" using hdr le_2 [of mem0 "0x8038"] le_2 [of mem0 "0x802c"] by (auto simp: elf_header_def split: if_splits)
  note n = this
  show ?thesis
  proof (cases "le 2 mem0 0x8012 = EM_X86_64")
    case True
    then have e: "count = le 2 mem0 (0x8000 + word_of_nat 56)" "phoff = unat (word_of_nat (le 8 mem0 0x8020) :: u32)" "stride = 56"
      "seg = seg64" "entry = word_of_nat (le 8 mem0 0x8018)" using hdr by (auto simp: elf_header_def)
    from elf64.segments_ok [OF drive e(1) ok [unfolded e(3,4)] h(5,3,4), of "2 ^ 16" 0 mem0] n obtain mem' m' where
      l: "elf64_segments (2 ^ 16) H 0x8000 0 (0x8000 + word_of_nat phoff) mem0 m2 = Inr (mem', m')" "ata_sect (view (hwst m')) = f"
      "\<forall>j<count. loaded f (nth_segment phoff 56 seg64 mem0 j) mem'" "\<forall>a\<in>header_page \<union> argument_area. mem' a = mem0 a"
      by auto
    have "load_kernel H mem m = Inr ((mem', entry), m')"
      using h(1,2) l(1) bsp True page [OF l(4), where k = "0x12" and n = 2] page [OF l(4), where k = "0x18" and n = 8]
      by (simp add: load_kernel_def Let_def load_elf64_def e(2,5) bindIO_def del: elf64_segments.simps)
    then show ?thesis using l(2-4) by (auto simp: e(3,4))
  next
    case False
    then have e: "count = le 2 mem0 (0x8000 + word_of_nat 44)" "phoff = unat (word_of_nat (le 4 mem0 0x801c) :: u32)" "stride = 32"
      "seg = seg32" "entry = word_of_nat (le 4 mem0 0x8018)" using hdr by (auto simp: elf_header_def)
    from elf32.segments_ok [OF drive e(1) ok [unfolded e(3,4)] h(5,3,4), of "2 ^ 16" 0 mem0] n obtain mem' m' where
      l: "elf32_segments (2 ^ 16) H 0x8000 0 (0x8000 + word_of_nat phoff) mem0 m2 = Inr (mem', m')" "ata_sect (view (hwst m')) = f"
      "\<forall>j<count. loaded f (nth_segment phoff 32 seg32 mem0 j) mem'" "\<forall>a\<in>header_page \<union> argument_area. mem' a = mem0 a"
      by auto
    have "load_kernel H mem m = Inr ((mem', entry), m')"
      using h(1,2) l(1) bsp False page [OF l(4), where k = "0x12" and n = 2] page [OF l(4), where k = "0x18" and n = 4]
      by (simp add: load_kernel_def Let_def load_elf32_def e(2,5) bindIO_def del: elf32_segments.simps)
    then show ?thesis using l(2-4) by (auto simp: e(3,4))
  qed
qed

text \<open>The other processors find everything loaded.\<close>

lemma boot_other_processor:
  "le 4 mem (BOOTREC_ADDR + 4) \<noteq> 0 \<Longrightarrow> \<exists>entry. load_kernel H mem m = Inr ((mem, entry), m)"
  by (simp add: load_kernel_def Let_def bindIO_def)

text \<open>A kernel of one segment: 3 bytes from the start of the image, loaded to \<open>0x100000\<close>, of 5 bytes in memory.\<close>

definition kernel_sector :: "u32 list" where
  "kernel_sector = (replicate 128 0)[0 := 0x464c457f, 4 := 0x3e0000, 6 := 0x100000, 8 := 64, 14 := 1, 22 := 0x100000, 24 := 3, 26 := 5]"

definition kernel_machine :: "ata machine" where
  "kernel_machine = ata_machine\<lparr>hwst := (hwst ata_machine)\<lparr>ata_sect := (\<lambda>_. replicate 128 0)(3 := kernel_sector)\<rparr>\<rparr>"

lemma kernel_machine_rest: "ata_rest (id (hwst kernel_machine))" "ata_size (hwst kernel_machine) = 2 ^ 28"
  by (simp_all add: ata_rest_def blocks_ok_def kernel_machine_def ata_machine_def kernel_sector_def)

definition kernel_boot_mem :: ram where
  "kernel_boot_mem = boot_mem (ata_sect (hwst kernel_machine)) (\<lambda>_. 0)"

lemma kernel_boot_byte:
  "i < 4096 \<Longrightarrow> kernel_boot_mem (0x8000 + word_of_nat i) = (if i < 512 then byte_of (kernel_sector ! (i div 4)) (i mod 4) else 0)"
proof -
  assume i: "i < 4096"
  have "0x8000 + word_of_nat i \<in> header_page" by (rule in_page [OF i])
  moreover have "unat (0x8000 + word_of_nat i - 0x8000 :: u32) = i" using i by (simp add: unat_of_nat_small)
  moreover have "(1536 + i) mod 4 = i mod 4" using mod_mult_self2 [of i 4 384] by (simp add: add.commute)
  moreover have "(1536 + i) div 512 = 3 + i div 512" using div_mult_self3 [of 512 3 i] by simp
  moreover have "(1536 + i) mod 512 = i mod 512" using mod_mult_self2 [of i 512 3] by (simp add: add.commute)
  moreover have z: "byte_of (replicate 128 0 ! k) l = 0" if "k < 128" for k l using that by (simp add: byte_of_def)
  have "i mod 512 div 4 < 128" by (simp add: less_mult_imp_div_less)
  note z [OF this]
  moreover have "ata_sect (hwst kernel_machine) = (\<lambda>_. replicate 128 0)(3 := kernel_sector)" by (simp add: kernel_machine_def)
  moreover have "i < 512 \<longleftrightarrow> i div 512 = 0" "i < 512 \<Longrightarrow> i mod 512 = i" by (simp_all add: div_eq_0_iff)
  ultimately show ?thesis unfolding kernel_boot_mem_def boot_mem_def disk_byte_def by (cases "i < 512") simp_all
qed

lemma le_kernel:
  "k + n \<le> 512 \<Longrightarrow> le n kernel_boot_mem (0x8000 + word_of_nat k) =
    foldr (\<lambda>i v. unat (byte_of (kernel_sector ! ((k + i) div 4)) ((k + i) mod 4)) + 256 * v) [0..<n] 0"
  unfolding le_def
proof (rule foldr_cong [OF refl refl])
  fix v i assume "i \<in> set [0..<n]" "k + n \<le> 512"
  then show "unat (kernel_boot_mem (0x8000 + word_of_nat k + word_of_nat i)) + 256 * v =
      unat (byte_of (kernel_sector ! ((k + i) div 4)) ((k + i) mod 4)) + 256 * v"
    using kernel_boot_byte [of "k + i"] by (simp add: add.assoc)
qed

lemma kernel_bytes: "(kernel_sector ! k) = (if k = 0 then 0x464c457f else if k = 4 then 0x3e0000 else if k = 6 \<or> k = 22 then 0x100000
    else if k = 8 then 64 else if k = 14 then 1 else if k = 24 then 3 else if k = 26 then 5 else 0)" if "k < 128"
  using that by (simp add: kernel_sector_def nth_list_update)

lemma foldr_bytes:
  "foldr (\<lambda>i v. g i + 256 * v) [0..<2] (0 :: nat) = g 0 + 256 * g 1"
  "foldr (\<lambda>i v. g i + 256 * v) [0..<8] (0 :: nat) = g 0 + 256 * (g 1 + 256 * (g 2 + 256 * (g 3 + 256 * (g 4 + 256 * (g 5 +
     256 * (g 6 + 256 * g 7))))))"
proof -
  have "[0..<2] = [0, 1 :: nat]" "[0..<8] = [0, 1, 2, 3, 4, 5, 6, 7 :: nat]" by code_simp+
  then show "foldr (\<lambda>i v. g i + 256 * v) [0..<2] (0 :: nat) = g 0 + 256 * g 1"
    "foldr (\<lambda>i v. g i + 256 * v) [0..<8] (0 :: nat) = g 0 + 256 * (g 1 + 256 * (g 2 + 256 * (g 3 + 256 * (g 4 + 256 * (g 5 +
     256 * (g 6 + 256 * g 7))))))" by simp_all
qed

lemma kernel_fields:
  "le 2 kernel_boot_mem 0x8012 = EM_X86_64" "le 2 kernel_boot_mem 0x8038 = 1" "le 8 kernel_boot_mem 0x8020 = 64"
  "le 8 kernel_boot_mem 0x8018 = 0x100000" 
  using le_kernel [of 18 2] le_kernel [of 56 2] le_kernel [of 32 8] le_kernel [of 24 8]
  unfolding foldr_bytes by (simp_all add: kernel_bytes byte_of_def EM_X86_64_def)

lemma kernel_segment: "seg64 kernel_boot_mem 0x8040 = (3, 5, 0x100000, 0)"
  using le_kernel [of 96 8] le_kernel [of 104 8] le_kernel [of 88 8] le_kernel [of 72 8]
  unfolding foldr_bytes by (simp add: kernel_bytes byte_of_def seg64_def)

theorem boot_loads_kernel_witness:
  "\<exists>mem' m'. load_kernel ata_hw (\<lambda>_. 0) kernel_machine = Inr ((mem', 0x100000), m') \<and>
    mem' 0x100002 = 0x4c \<and> mem' 0x100003 = 0"
proof -
  have hdr: "elf_header kernel_boot_mem = (1, 64, 56, seg64, 0x100000)" by (simp add: elf_header_def kernel_fields)
  have s0: "nth_segment 64 56 seg64 kernel_boot_mem 0 = (3, 5, 0x100000, 0)" by (simp add: nth_segment_def kernel_segment)
  have "\<not> unat (x - 0x8000) < 4096 \<and> \<not> unat (x - MAINARG_ADDR) < 1024" if "0x100000 \<le> unat x" for x :: u32
  proof -
    have "(1048576 :: nat) \<le> unat x" using that by simp
    moreover from this have "unat (x - 0x8000) = unat x - 32768" "unat (x - MAINARG_ADDR) = unat x - 65536"
      using sub_nat [of "0x8000" x] sub_nat [of MAINARG_ADDR x] by (simp_all add: MAINARG_ADDR_def)
    ultimately show ?thesis by linarith
  qed
  then have "footprint 5 0x100000 \<inter> (header_page \<union> argument_area) = {}"
    by (auto simp: footprint_def header_page_def argument_area_def)
  then have "image_ok (ata_size (id (hwst kernel_machine))) 1 64 56 seg64 kernel_boot_mem"
    by (simp add: image_ok_def s0 seg_ok_def segment_ok_def footprint_of_def kernel_machine_rest)
  moreover have "le 4 (\<lambda>_. 0) p = 0" for p by (simp add: le_def upt_conv_Cons)
  moreover have "11 \<le> ata_size (id (hwst kernel_machine))" by (simp add: kernel_machine_rest)
  ultimately obtain mem' m' where "load_kernel ata_hw (\<lambda>_. 0) kernel_machine = Inr ((mem', 0x100000), m')"
    "loaded (ata_sect (hwst kernel_machine)) (nth_segment 64 56 seg64 kernel_boot_mem 0) mem'"
    using boot_loads_kernel [OF ata_hw_ok kernel_machine_rest(1) _ _ refl _ hdr, of "\<lambda>_. 0"] by (auto simp: kernel_boot_mem_def)
  moreover have "disk_byte (ata_sect (hwst kernel_machine)) 1538 = 0x4c"
    by (simp add: disk_byte_def kernel_machine_def ata_machine_def kernel_sector_def byte_of_def)
  ultimately show ?thesis
    by (auto simp: s0 loaded_def dest: spec [where x = 2] spec [where x = 3])
qed

end
