(* ===== verification/Blkdev.thy ===== *)
theory Blkdev
  imports Sd Ioereg BootmainProofs
begin

text \<open>
  The disk device of the kernel on the disk driver of the abstract machine: \<open>dev_sd.c\<close> over the device
  registers \<open>AM_DISK_CONFIG\<close>, \<open>AM_DISK_STATUS\<close> and \<open>AM_DISK_BLKIO\<close>, their handlers and the ports of the
  drive.  Where the drive keeps the contract of \<open>Atadisk\<close>, the transfers refine those of \<open>Sd\<close> over an
  ideal disk, and bytes written through the device end up in the sectors of the drive and are read back.
\<close>

section \<open>The device\<close>

text \<open>The buffer of a block is an array of bytes for the device and of words for the driver.\<close>

definition le_word :: "u8 \<Rightarrow> u8 \<Rightarrow> u8 \<Rightarrow> u8 \<Rightarrow> u32" where
  "le_word a b c d = ucast a OR push_bit 8 (ucast b) OR push_bit 16 (ucast c) OR push_bit 24 (ucast d)"

fun words_of :: "u8 list \<Rightarrow> u32 list" where
  "words_of (a # b # c # d # bs) = le_word a b c d # words_of bs"
| "words_of _ = []"

definition store_words :: "u32 list \<Rightarrow> u8 list \<Rightarrow> u8 list" where
  "store_words ws buf = concat (map word_bytes ws) @ drop (4 * length ws) buf"

text \<open>\<open>io_read\<close> passes a structure that is not initialised; the handler fills it.  None of these
  registers renders, so the bound for the renderer is 0.\<close>

definition disk_ready :: "'d hw \<Rightarrow> ('d machine, bool) io" where
  "disk_ready H = bindIO (ioe_read 0 H 19 (DISK_STATUS False)) (\<lambda>r. ret (r = DISK_STATUS True))"

definition blk_transfer :: "'d hw \<Rightarrow> bool \<Rightarrow> u8 list \<Rightarrow> u32 \<Rightarrow> u32 \<Rightarrow> ('d machine, u8 list) io" where
  "blk_transfer H wr buf blkno cnt =
     bindIO (ioe_write 0 H 20 (DISK_BLKIO wr (words_of buf) blkno cnt)) (\<lambda>r.
     bindIO (io_until (disk_ready H) (\<lambda>ready. ready)) (\<lambda>_.
     ret (case r of DISK_BLKIO _ ws _ _ \<Rightarrow> store_words ws buf | _ \<Rightarrow> buf)))"

definition blk_read_io :: "'d hw \<Rightarrow> u8 list \<Rightarrow> u32 \<Rightarrow> u32 \<Rightarrow> ('d machine, u8 list) io" where
  "blk_read_io H buf blkno cnt = blk_transfer H False buf blkno cnt"

definition blk_write_io :: "'d hw \<Rightarrow> u8 list \<Rightarrow> u32 \<Rightarrow> u32 \<Rightarrow> ('d machine, u8 list) io" where
  "blk_write_io H buf blkno cnt = blk_transfer H True buf blkno cnt"

record sd_dev =
  dev_blkcnt :: u32
  dev_blksz :: u32
  dev_buf :: "u8 list"

text \<open>\<open>junk\<close> is what the allocated buffer holds.\<close>

definition sd_init_io :: "'d hw \<Rightarrow> (nat \<Rightarrow> u8) \<Rightarrow> ('d machine, sd_dev option) io" where
  "sd_init_io H junk =
     bindIO (ioe_read 0 H 18 (DISK_CONFIG False 0 0)) (\<lambda>r. case r of
         DISK_CONFIG True _ _ \<Rightarrow>
           bindIO (ioe_read 0 H 18 (DISK_CONFIG False 0 0)) (\<lambda>r1. bindIO (ioe_read 0 H 18 (DISK_CONFIG False 0 0)) (\<lambda>r2.
           (case (r1, r2) of
              (DISK_CONFIG _ _ cnt, DISK_CONFIG _ sz _) \<Rightarrow>
                ret (Some \<lparr>dev_blkcnt = word_of_nat cnt, dev_blksz = word_of_nat sz, dev_buf = map junk [0..<sz]\<rparr>)
            | _ \<Rightarrow> ret None)))
       | _ \<Rightarrow> ret None)"

partial_function (option) sd_read_io_loop ::
    "'d hw \<Rightarrow> u32 \<Rightarrow> u32 \<Rightarrow> u32 \<Rightarrow> u32 \<Rightarrow> u8 list \<Rightarrow> sd_dev \<Rightarrow> 'd machine \<Rightarrow>
      ((u8 list \<times> u32 \<times> sd_dev) \<times> 'd machine) result option" where
  "sd_read_io_loop H count offset st pos out sd m =
     (if \<not> pos < count then Some (Inr ((out, pos, sd), m))
      else if dev_blksz sd = 0 then Some (Inl Undefined_Behaviour)
      else
        let n = chunk (dev_blksz sd) offset st count pos in
        (case blk_read_io H (dev_buf sd) (st div dev_blksz sd) 1 m of
           Inl e \<Rightarrow> Some (Inl e)
         | Inr (b, m') \<Rightarrow>
             (case slice (sd_index offset st) (unat n) b of
                Inl e \<Rightarrow> Some (Inl e)
              | Inr xs \<Rightarrow> sd_read_io_loop H count (st + dev_blksz sd) (st + dev_blksz sd) (pos + n) (out @ xs)
                  (sd\<lparr>dev_buf := b\<rparr>) m')))"

definition sd_read_io :: "'d hw \<Rightarrow> int \<Rightarrow> int \<Rightarrow> sd_dev option \<Rightarrow> ('d machine, int \<times> u8 list \<times> sd_dev) io" where
  "sd_read_io H offset count dev m =
     (case dev of None \<Rightarrow> Inl Panic
      | Some sd \<Rightarrow>
          bindR (returns (sd_read_io_loop H (word_of_int count) (word_of_int offset)
                   (blk_start (word_of_int offset) (dev_blksz sd)) 0 [] sd m)) (\<lambda>((out, pos, sd'), m').
          Inr ((sint pos, out, sd'), m')))"

partial_function (option) sd_write_io_loop ::
    "'d hw \<Rightarrow> u8 list \<Rightarrow> u32 \<Rightarrow> u32 \<Rightarrow> u32 \<Rightarrow> u32 \<Rightarrow> sd_dev \<Rightarrow> 'd machine \<Rightarrow>
      ((u32 \<times> sd_dev) \<times> 'd machine) result option" where
  "sd_write_io_loop H buf count offset st pos sd m =
     (if \<not> pos < count then Some (Inr ((pos, sd), m))
      else if dev_blksz sd = 0 then Some (Inl Undefined_Behaviour)
      else
        let n = chunk (dev_blksz sd) offset st count pos in
        (case (if n < dev_blksz sd then blk_read_io H (dev_buf sd) (st div dev_blksz sd) 1 m else Inr (dev_buf sd, m)) of
           Inl e \<Rightarrow> Some (Inl e)
         | Inr (b, m1) \<Rightarrow>
             (case bindR (slice (uint pos) (unat n) buf) (\<lambda>ys. splice (sd_index offset st) ys b) of
                Inl e \<Rightarrow> Some (Inl e)
              | Inr b \<Rightarrow>
                  (case blk_write_io H b (st div dev_blksz sd) 1 m1 of
                     Inl e \<Rightarrow> Some (Inl e)
                   | Inr (b, m2) \<Rightarrow> sd_write_io_loop H buf count (st + dev_blksz sd) (st + dev_blksz sd) (pos + n)
                       (sd\<lparr>dev_buf := b\<rparr>) m2))))"

definition sd_write_io :: "'d hw \<Rightarrow> int \<Rightarrow> u8 list \<Rightarrow> int \<Rightarrow> sd_dev option \<Rightarrow> ('d machine, int \<times> sd_dev) io" where
  "sd_write_io H offset buf count dev m =
     (case dev of None \<Rightarrow> Inl Panic
      | Some sd \<Rightarrow>
          bindR (returns (sd_write_io_loop H buf (word_of_int count) (word_of_int offset)
                   (blk_start (word_of_int offset) (dev_blksz sd)) 0 sd m)) (\<lambda>((pos, sd'), m').
          Inr ((sint pos, sd'), m')))"

section \<open>One block\<close>

lemma word_bytes_le: "word_bytes (le_word a b c d) = [a, b, c, d]"
proof -
  have "byte_of (le_word a b c d) 0 = a" "byte_of (le_word a b c d) 1 = b" "byte_of (le_word a b c d) 2 = c"
    "byte_of (le_word a b c d) 3 = d"
    by (rule bit_word_eqI, auto simp: byte_of_def le_word_def bit_simps dest: bit_imp_le_length)+
  then show ?thesis by (simp add: word_bytes_def)
qed

lemma bytes_words:
  assumes "length bs = 4 * n"
  shows "concat (map word_bytes (words_of bs)) = bs \<and> length (words_of bs) = n"
  using assms
proof (induction n arbitrary: bs)
  case (Suc n)
  then obtain a b c d cs where "bs = a # b # c # d # cs" "length cs = 4 * n" by (auto simp: numeral_eq_Suc length_Suc_conv)
  with Suc.IH [of cs] show ?case by (simp add: word_bytes_le)
qed simp

text \<open>The status register answers at once.\<close>

lemma disk_ready_ok: "io_until (disk_ready H) (\<lambda>ready. ready) m = Inr (True, m)"
  by (simp add: disk_ready_def ioe_read_def lut_def handle_def)

lemma blk_transfer_step:
  "disk_blkio H wr blkno cnt (words_of buf) m = Inr (ws, m') \<Longrightarrow> blk_transfer H wr buf blkno cnt m = Inr (store_words ws buf, m')"
  by (simp add: blk_transfer_def ioe_write_def lut_def handle_def disk_ready_ok)

text \<open>What the device \<open>s\<close> on the drive \<open>a\<close> is for the ideal disk.\<close>

definition sd_view :: "ata \<Rightarrow> sd_dev \<Rightarrow> sd_t \<Rightarrow> bool" where
  "sd_view a s sd \<longleftrightarrow> dev_blksz s = 512 \<and> disk_ok 9 sd \<and> dev_buf s = sd_buf sd \<and>
     (\<forall>b. unat b < ata_size a \<longrightarrow> sd_disk sd b = concat (map word_bytes (ata_sect a (unat b))))"

lemma sd_view_buf: "sd_view a s sd \<Longrightarrow> sd_view a (s\<lparr>dev_buf := sd_buf sd\<rparr>) sd"
  by (simp add: sd_view_def)

lemma sd_view_sizes:
  assumes "sd_view a s sd"
  shows "dev_blksz s = 512" "blksz sd = 512" "length (dev_buf s) = 512" "dev_buf s = sd_buf sd"
  using assms by (simp_all add: sd_view_def disk_ok_def)

lemma blk_read_refines:
  assumes drive: "drives_ata H view" and rest: "ata_rest (view (hwst m))" and v: "sd_view (view (hwst m)) s sd"
    and b: "unat blkno < ata_size (view (hwst m))"
  shows "\<exists>m'. blk_read_io H (dev_buf s) blkno 1 m = Inr (sd_buf (blk_read blkno sd), m') \<and>
    sd_view (view (hwst m')) (s\<lparr>dev_buf := sd_buf (blk_read blkno sd)\<rparr>) (blk_read blkno sd) \<and>
    ata_rest (view (hwst m')) \<and> ata_size (view (hwst m')) = ata_size (view (hwst m))"
proof -
  let ?f = "ata_sect (view (hwst m))"
  have w: "length (words_of (dev_buf s)) = 128" using bytes_words [of "dev_buf s" 128] sd_view_sizes(3) [OF v] by simp
  have lf: "length (?f (unat blkno)) = 128" using rest b by (simp add: ata_rest_def blocks_ok_def)
  obtain m' where m': "disk_blkio H False blkno 1 (words_of (dev_buf s)) m = Inr (?f (unat blkno), m')"
    "ata_sect (view (hwst m')) = ?f" "ata_size (view (hwst m')) = ata_size (view (hwst m))" "ata_rest (view (hwst m'))"
    using disk_loop_read [OF drive rest, of blkno 1 0 "words_of (dev_buf s)"] w b
    by (auto simp: disk_blkio_def simp del: disk_loop.simps)
  have e: "sd_buf (blk_read blkno sd) = concat (map word_bytes (?f (unat blkno)))" using v b by (simp add: blk_read_def sd_view_def)
  have "store_words (?f (unat blkno)) (dev_buf s) = sd_buf (blk_read blkno sd)"
    using lf sd_view_sizes(3) [OF v] by (simp add: store_words_def e)
  moreover have "sd_view (view (hwst m')) (s\<lparr>dev_buf := sd_buf (blk_read blkno sd)\<rparr>) (blk_read blkno sd)"
    using v m' by (auto simp: sd_view_def disk_ok_def blk_read_def)
  ultimately show ?thesis using blk_transfer_step [OF m'(1)] m' by (auto simp: blk_read_io_def)
qed

lemma blk_write_refines:
  assumes drive: "drives_ata H view" and rest: "ata_rest (view (hwst m))" and v: "sd_view (view (hwst m)) s sd"
    and b: "unat blkno < ata_size (view (hwst m))"
  shows "\<exists>m'. blk_write_io H (dev_buf s) blkno 1 m = Inr (dev_buf s, m') \<and>
    sd_view (view (hwst m')) s (blk_write blkno sd) \<and>
    ata_rest (view (hwst m')) \<and> ata_size (view (hwst m')) = ata_size (view (hwst m))"
proof -
  let ?f = "ata_sect (view (hwst m))" and ?ws = "words_of (dev_buf s)"
  have w: "length ?ws = 128" "concat (map word_bytes ?ws) = dev_buf s"
    using bytes_words [of "dev_buf s" 128] sd_view_sizes(3) [OF v] by simp_all
  obtain m' where m': "disk_blkio H True blkno 1 ?ws m = Inr (?ws, m')"
    "ata_sect (view (hwst m')) = sect_write (unat blkno) 1 ?ws ?f"
    "ata_size (view (hwst m')) = ata_size (view (hwst m))" "ata_rest (view (hwst m'))"
    using disk_loop_write [OF drive rest, of blkno 1 0 ?ws] w b
    by (auto simp: disk_blkio_def simp del: disk_loop.simps)
  have "store_words ?ws (dev_buf s) = dev_buf s" using w sd_view_sizes(3) [OF v] by (simp add: store_words_def)
  moreover have "sect_write (unat blkno) 1 ?ws ?f = ?f(unat blkno := ?ws)"
    using w(1) by (auto simp: fun_eq_iff sect_write_def)
  then have "sd_view (view (hwst m')) s (blk_write blkno sd)"
    using v m' w by (auto simp: sd_view_def disk_ok_def blk_write_def dest: word_unat_eq_iff [THEN iffD2])
  ultimately show ?thesis using blk_transfer_step [OF m'(1)] m' by (auto simp: blk_write_io_def)
qed

section \<open>Transfers\<close>

text \<open>What is left of a transfer lies on the drive.\<close>

definition pos_ok :: "ata \<Rightarrow> u32 \<Rightarrow> u32 \<Rightarrow> u32 \<Rightarrow> u32 \<Rightarrow> bool" where
  "pos_ok a off st cnt pos \<longleftrightarrow>
     (pos < cnt \<longrightarrow> block_pos 9 off st cnt pos \<and> unat off + (unat cnt - unat pos) \<le> 512 * ata_size a)"

lemma pos_ok_block:
  assumes "pos_ok a off st cnt pos" and "pos < cnt"
  shows "unat (st div 512) < ata_size a"
proof -
  have bp: "block_pos 9 off st cnt pos" and r: "unat off + (unat cnt - unat pos) \<le> 512 * ata_size a"
    using assms by (simp_all add: pos_ok_def)
  have "unat off < 512 * ata_size a" using r block_facts(4) [OF bp] by linarith
  then have "unat off div 512 < ata_size a" by (simp add: div_less_iff_less_mult mult.commute)
  moreover have "unat (st div 512) = unat off div 512" using bp by (simp add: block_pos_def unat_div)
  ultimately show ?thesis by simp
qed

lemma pos_ok_next:
  assumes ok: "pos_ok a off st cnt pos" and lt: "pos < cnt" and size: "ata_size b = ata_size a"
  shows "pos_ok b (st + 512) (st + 512) cnt (pos + chunk 512 off st cnt pos)"
proof (cases "pos + chunk 512 off st cnt pos < cnt")
  case True
  have bp: "block_pos 9 off st cnt pos" and r: "unat off + (unat cnt - unat pos) \<le> 512 * ata_size a"
    using ok lt by (simp_all add: pos_ok_def)
  have l: "pos + chunk (2 ^ 9) off st cnt pos < cnt" using True by simp
  have "unat (st + 2 ^ 9) + (unat cnt - unat (pos + chunk (2 ^ 9) off st cnt pos)) = unat off + (unat cnt - unat pos)"
    using block_n_le [OF bp] unfolding block_step(2) [OF bp l] block_advance [OF bp] by linarith
  then show ?thesis using block_step(1) [OF bp l] r size by (simp add: pos_ok_def)
qed (simp add: pos_ok_def)

lemma pos_ok_less:
  assumes ok: "pos_ok a off st cnt pos" and lt: "pos < cnt"
  shows "unat cnt - unat (pos + chunk 512 off st cnt pos) < unat cnt - unat pos"
proof -
  have bp: "block_pos 9 off st cnt pos" using ok lt by (simp add: pos_ok_def)
  show ?thesis using block_advance [OF bp] block_n_pos [OF bp] block_facts(4) [OF bp] by simp
qed

lemma sd_read_io_loop_refines:
  assumes drive: "drives_ata H view"
  shows "sd_read_loop cnt off st pos out sd = Some y \<Longrightarrow> y = Inr (out', pos', sd') \<Longrightarrow> ata_rest (view (hwst m)) \<Longrightarrow>
    sd_view (view (hwst m)) s sd \<Longrightarrow> pos_ok (view (hwst m)) off st cnt pos \<Longrightarrow>
    \<exists>s' m'. sd_read_io_loop H cnt off st pos out s m = Some (Inr ((out', pos', s'), m')) \<and>
      sd_view (view (hwst m')) s' sd' \<and> ata_rest (view (hwst m')) \<and> ata_size (view (hwst m')) = ata_size (view (hwst m))"
proof (induction "unat cnt - unat pos" arbitrary: off st pos out sd s m rule: less_induct)
  case 1: less
  note z = sd_view_sizes [OF 1(5)]
  note eq = 1(2) [unfolded sd_read_loop.simps [of cnt off st pos out sd]]
  show ?case
  proof (cases "pos < cnt")
    case False
    then show ?thesis using eq 1(3-5) by (subst sd_read_io_loop.simps) simp
  next
    case lt: True
    let ?n = "chunk 512 off st cnt pos" and ?sd = "blk_read (st div 512) sd"
    obtain m1 where m1: "blk_read_io H (dev_buf s) (st div 512) 1 m = Inr (sd_buf ?sd, m1)"
      "sd_view (view (hwst m1)) (s\<lparr>dev_buf := sd_buf ?sd\<rparr>) ?sd" "ata_rest (view (hwst m1))"
      "ata_size (view (hwst m1)) = ata_size (view (hwst m))"
      using blk_read_refines [OF drive 1(4,5) pos_ok_block [OF 1(6) lt]] by blast
    obtain xs where xs: "slice (sd_index off st) (unat ?n) (sd_buf ?sd) = Inr xs"
      using eq 1(3) lt z by (auto simp: Let_def split: sum.splits)
    have next1: "sd_read_loop cnt (st + 512) (st + 512) (pos + ?n) (out @ xs) ?sd = Some y"
      using eq lt z xs by (simp add: Let_def blk_read_def)
    have step: "sd_read_io_loop H cnt off st pos out s m =
        sd_read_io_loop H cnt (st + 512) (st + 512) (pos + ?n) (out @ xs) (s\<lparr>dev_buf := sd_buf ?sd\<rparr>) m1"
      using lt z m1(1) xs by (subst sd_read_io_loop.simps) (simp add: Let_def)
    show ?thesis
      using 1(1) [OF pos_ok_less [OF 1(6) lt] next1 1(3) m1(3,2) pos_ok_next [OF 1(6) lt m1(4)]] unfolding step m1(4) .
  qed
qed

lemma sd_write_io_loop_refines:
  assumes drive: "drives_ata H view"
  shows "sd_write_loop buf cnt off st pos sd = Some y \<Longrightarrow> y = Inr (pos', sd') \<Longrightarrow> ata_rest (view (hwst m)) \<Longrightarrow>
    sd_view (view (hwst m)) s sd \<Longrightarrow> pos_ok (view (hwst m)) off st cnt pos \<Longrightarrow>
    \<exists>s' m'. sd_write_io_loop H buf cnt off st pos s m = Some (Inr ((pos', s'), m')) \<and>
      sd_view (view (hwst m')) s' sd' \<and> ata_rest (view (hwst m')) \<and> ata_size (view (hwst m')) = ata_size (view (hwst m))"
proof (induction "unat cnt - unat pos" arbitrary: off st pos sd s m rule: less_induct)
  case 1: less
  note z = sd_view_sizes [OF 1(5)]
  note eq = 1(2) [unfolded sd_write_loop.simps [of buf cnt off st pos sd] z(2)]
  show ?case
  proof (cases "pos < cnt")
    case False
    then show ?thesis using eq 1(3-5) by (subst sd_write_io_loop.simps) simp
  next
    case lt: True
    let ?n = "chunk 512 off st cnt pos"
    let ?sd = "if ?n < 512 then blk_read (st div 512) sd else sd"
    obtain m1 where m1: "(if ?n < 512 then blk_read_io H (dev_buf s) (st div 512) 1 m else Inr (dev_buf s, m)) = Inr (sd_buf ?sd, m1)"
      "sd_view (view (hwst m1)) (s\<lparr>dev_buf := sd_buf ?sd\<rparr>) ?sd" "ata_rest (view (hwst m1))"
      "ata_size (view (hwst m1)) = ata_size (view (hwst m))"
      using blk_read_refines [OF drive 1(4,5) pos_ok_block [OF 1(6) lt]] 1(4) sd_view_buf [OF 1(5)] z by (cases "?n < 512") auto
    have sz: "blksz ?sd = 512" using z by (simp add: blk_read_def)
    obtain b where b: "bindR (slice (uint pos) (unat ?n) buf) (\<lambda>ys. splice (sd_index off st) ys (sd_buf ?sd)) = Inr b"
      using eq 1(3) lt z sz by (auto simp: Let_def split: sum.splits)
    have lb: "length b = 512" using b sd_view_sizes(3) [OF m1(2)]
      by (auto simp: bindR_def splice_def split: sum.splits if_splits)
    have v1: "sd_view (view (hwst m1)) (s\<lparr>dev_buf := b\<rparr>) (?sd\<lparr>sd_buf := b\<rparr>)"
      using m1(2) lb by (simp add: sd_view_def disk_ok_def)
    have kb: "unat (st div 512) < ata_size (view (hwst m1))" using pos_ok_block [OF 1(6) lt] m1(4) by simp
    obtain m2 where m2: "blk_write_io H b (st div 512) 1 m1 = Inr (b, m2)"
      "sd_view (view (hwst m2)) (s\<lparr>dev_buf := b\<rparr>) (blk_write (st div 512) (?sd\<lparr>sd_buf := b\<rparr>))" "ata_rest (view (hwst m2))"
      "ata_size (view (hwst m2)) = ata_size (view (hwst m))"
      using blk_write_refines [OF drive m1(3) v1 kb] m1(4) by auto
    have next1: "sd_write_loop buf cnt (st + 512) (st + 512) (pos + ?n) (blk_write (st div 512) (?sd\<lparr>sd_buf := b\<rparr>)) = Some y"
      using eq lt z sz b by (simp only: Let_def sum.case if_True if_False not_True_eq_False) simp
    have step: "sd_write_io_loop H buf cnt off st pos s m =
        sd_write_io_loop H buf cnt (st + 512) (st + 512) (pos + ?n) (s\<lparr>dev_buf := b\<rparr>) m2"
      proof -
      have nz: "(512 :: u32) \<noteq> 0" by simp
      show ?thesis unfolding sd_write_io_loop.simps [of H buf cnt off st pos s m] z(1) Let_def m1(1)
        by (simp only: lt nz not_True_eq_False if_False sum.case prod.case b m2(1))
    qed
    show ?thesis
      using 1(1) [OF pos_ok_less [OF 1(6) lt] next1 1(3) m2(3,2) pos_ok_next [OF 1(6) lt m2(4)]] unfolding step m2(4) .
  qed
qed

section \<open>The device on a drive\<close>

lemma sd_init_io_ok:
  "sd_init_io H junk m = Inr (Some \<lparr>dev_blkcnt = 131072, dev_blksz = 512, dev_buf = map junk [0..<512]\<rparr>, m)"
  by (simp add: sd_init_io_def ioe_read_def lut_def handle_def disk_config_def DISKSZ_def BLKSZ_def)

definition ideal_disk :: "ata \<Rightarrow> sd_dev \<Rightarrow> sd_t" where
  "ideal_disk a s = \<lparr>blkcnt = dev_blkcnt s, blksz = 512, sd_buf = dev_buf s,
     sd_disk = (\<lambda>b. if unat b < ata_size a then concat (map word_bytes (ata_sect a (unat b))) else replicate 512 0)\<rparr>"

lemma ideal_disk_view:
  assumes "ata_rest a" and "dev_blksz s = 512" and "length (dev_buf s) = 512"
  shows "sd_view a s (ideal_disk a s)"
  using assms by (simp add: sd_view_def ideal_disk_def disk_ok_def ata_rest_def blocks_ok_def word_bytes_length)

lemma sd_view_byte:
  assumes "sd_view a s sd" and "ata_rest a" and "x < 512 * ata_size a"
  shows "Sd.disk_byte 9 sd x = BootmainProofs.disk_byte (ata_sect a) x"
proof -
  have d: "x div 512 < ata_size a" using assms(3) by (simp add: div_less_iff_less_mult mult.commute)
  then have "x div 512 < 2 ^ 32" using assms(2) by (simp add: ata_rest_def)
  then have u: "unat (word_of_nat (x div 512) :: u32) = x div 512" by (simp add: unat_of_nat_small)
  have l: "length (ata_sect a (x div 512)) = 128" using assms(2) d by (simp add: ata_rest_def blocks_ok_def)
  have "sd_disk sd (word_of_nat (x div 512)) = concat (map word_bytes (ata_sect a (x div 512)))"
    using assms(1) d u by (simp add: sd_view_def)
  moreover have "x mod 512 mod 4 = x mod 4" by (simp add: mod_mod_cancel)
  ultimately show ?thesis using sector_bytes [OF l, of "x mod 512"]
    by (simp add: Sd.disk_byte_def BootmainProofs.disk_byte_def)
qed

lemma pos_ok_start:
  assumes "0 < n" and "off + n \<le> 512 * ata_size a" and "off + n + 512 \<le> 2 ^ 31"
  shows "pos_ok a (word_of_nat off) (blk_start (word_of_nat off) 512) (word_of_nat n) 0"
  using block_pos_start [of 9 n off] assms by (simp add: pos_ok_def)

text \<open>A call on the ideal disk that returns tells what the call on the drive does.\<close>

lemma sd_read_io_refines:
  assumes "drives_ata H view" and "ata_rest (view (hwst m))" and v: "sd_view (view (hwst m)) s sd"
    and "0 < n" and "off + n \<le> 512 * ata_size (view (hwst m))" and "off + n + 512 \<le> 2 ^ 31"
    and "sd_read (int off) (int n) (Some sd) = Inr (r, out, sd')"
  shows "\<exists>s' m'. sd_read_io H (int off) (int n) (Some s) m = Inr ((r, out, s'), m') \<and>
    sd_view (view (hwst m')) s' sd' \<and> ata_rest (view (hwst m')) \<and> ata_size (view (hwst m')) = ata_size (view (hwst m))"
proof -
  note z = sd_view_sizes [OF v]
  obtain p where p: "sd_read_loop (word_of_nat n) (word_of_nat off) (blk_start (word_of_nat off) 512) 0 [] sd = Some (Inr (out, p, sd'))"
    "r = sint p"
    using assms(7) z(2) by (auto simp: sd_read_def returns_def bindR_def split: option.splits sum.splits)
  from sd_read_io_loop_refines [OF assms(1) p(1) refl assms(2) v pos_ok_start [OF assms(4-6)]]
  show ?thesis using p(2) z(1) by (auto simp: sd_read_io_def)
qed

lemma sd_write_io_refines:
  assumes "drives_ata H view" and "ata_rest (view (hwst m))" and v: "sd_view (view (hwst m)) s sd"
    and "0 < n" and "off + n \<le> 512 * ata_size (view (hwst m))" and "off + n + 512 \<le> 2 ^ 31"
    and "sd_write (int off) buf (int n) (Some sd) = Inr (r, sd')"
  shows "\<exists>s' m'. sd_write_io H (int off) buf (int n) (Some s) m = Inr ((r, s'), m') \<and>
    sd_view (view (hwst m')) s' sd' \<and> ata_rest (view (hwst m')) \<and> ata_size (view (hwst m')) = ata_size (view (hwst m))"
proof -
  note z = sd_view_sizes [OF v]
  obtain p where p: "sd_write_loop buf (word_of_nat n) (word_of_nat off) (blk_start (word_of_nat off) 512) 0 sd = Some (Inr (p, sd'))"
    "r = sint p"
    using assms(7) z(2) by (auto simp: sd_write_def returns_def bindR_def split: option.splits sum.splits)
  from sd_write_io_loop_refines [OF assms(1) p(1) refl assms(2) v pos_ok_start [OF assms(4-6)]]
  show ?thesis using p(2) z(1) by (auto simp: sd_write_io_def)
qed

text \<open>C30. The disk device of the kernel through the device registers, the disk driver and the ports, on any
  drive that keeps the contract of the ATA commands: after its initialisation, bytes written at any offset
  go to the sectors of the drive that hold these addresses and are read back from there, both calls return
  the whole count, every other byte of the drive is as before, and the drive is left at rest.\<close>

theorem sd_on_drive:
  assumes "drives_ata H view" and "ata_rest (view (hwst m))" and "buf \<noteq> []"
    and "off + length buf \<le> 512 * ata_size (view (hwst m))" and "off + length buf + 512 \<le> 2 ^ 31"
  shows "\<exists>s m0 s1 m1 s2 m2. sd_init_io H junk m = Inr (Some s, m0) \<and>
    sd_write_io H (int off) buf (int (length buf)) (Some s) m0 = Inr ((int (length buf), s1), m1) \<and>
    sd_read_io H (int off) (int (length buf)) (Some s1) m1 = Inr ((int (length buf), buf, s2), m2) \<and>
    ata_rest (view (hwst m2)) \<and>
    (\<forall>x < min (2 ^ 31) (512 * ata_size (view (hwst m))). BootmainProofs.disk_byte (ata_sect (view (hwst m2))) x =
      (if off \<le> x \<and> x < off + length buf then buf ! (x - off) else BootmainProofs.disk_byte (ata_sect (view (hwst m))) x))"
proof -
  let ?a = "view (hwst m)" and ?n = "length buf"
  let ?s = "\<lparr>dev_blkcnt = 131072, dev_blksz = 512, dev_buf = map junk [0..<512]\<rparr>"
  have v: "sd_view ?a ?s (ideal_disk ?a ?s)" using assms(2) by (intro ideal_disk_view) simp_all
  have ok: "disk_ok 9 (ideal_disk ?a ?s)" using v by (simp add: sd_view_def)
  have n: "0 < ?n" "off + ?n + 2 ^ 9 \<le> 2 ^ 31" using assms(3,5) by simp_all
  obtain sd1 where w: "sd_write (int off) buf (int ?n) (Some (ideal_disk ?a ?s)) = Inr (int ?n, sd1)" and ok1: "disk_ok 9 sd1"
    and bytes: "\<And>x. x < 2 ^ 31 \<Longrightarrow> Sd.disk_byte 9 sd1 x =
      (if off \<le> x \<and> x < off + ?n then buf ! (x - off) else Sd.disk_byte 9 (ideal_disk ?a ?s) x)"
    using sd_write_correct [OF ok n] by blast
  obtain sd2 where r: "sd_read (int off) (int ?n) (Some sd1) = Inr (int ?n, map (Sd.disk_byte 9 sd1) [off..<off + ?n], sd2)"
    and same: "sd_disk sd2 = sd_disk sd1"
    using sd_read_correct [OF ok1 n] by blast
  have backw: "map (Sd.disk_byte 9 sd1) [off..<off + ?n] = buf"
    by (rule nth_equalityI) (use n(2) bytes in simp_all)
  obtain s1 m1 where m1: "sd_write_io H (int off) buf (int ?n) (Some ?s) m = Inr ((int ?n, s1), m1)"
    "sd_view (view (hwst m1)) s1 sd1" "ata_rest (view (hwst m1))" "ata_size (view (hwst m1)) = ata_size ?a"
    using sd_write_io_refines [OF assms(1,2) v n(1) assms(4,5) w] by blast
  obtain s2 m2 where m2: "sd_read_io H (int off) (int ?n) (Some s1) m1 = Inr ((int ?n, buf, s2), m2)"
    "sd_view (view (hwst m2)) s2 sd2" "ata_rest (view (hwst m2))" "ata_size (view (hwst m2)) = ata_size ?a"
    using sd_read_io_refines [OF assms(1) m1(3,2) n(1) _ assms(5) r] assms(4) m1(4) unfolding backw by auto
  have "BootmainProofs.disk_byte (ata_sect (view (hwst m2))) x =
      (if off \<le> x \<and> x < off + ?n then buf ! (x - off) else BootmainProofs.disk_byte (ata_sect ?a) x)"
    if x: "x < 2 ^ 31" "x < 512 * ata_size ?a" for x
    using sd_view_byte [OF m2(2,3)] sd_view_byte [OF v assms(2)] bytes [OF x(1)] x(2) m2(4) same
    by (simp add: Sd.disk_byte_def)
  then show ?thesis using sd_init_io_ok [of H junk m] m1(1) m2(1,3)
    by - (rule exI [of _ ?s], rule exI [of _ m], rule exI [of _ s1], rule exI [of _ m1], rule exI [of _ s2], rule exI [of _ m2],
      simp only: simp_thms min_less_iff_conj, blast)
qed

text \<open>Four bytes over the boundary of two sectors.\<close>

theorem sd_on_drive_witness:
  "\<exists>s m0 s1 m1 s2 m2. sd_init_io ata_hw (\<lambda>_. 9) ata_machine = Inr (Some s, m0) \<and>
    sd_write_io ata_hw 510 [1, 2, 3, 4] 4 (Some s) m0 = Inr ((4, s1), m1) \<and>
    sd_read_io ata_hw 510 4 (Some s1) m1 = Inr ((4, [1, 2, 3, 4], s2), m2)"
  using sd_on_drive [OF ata_hw_ok ata_machine_rest(1), of "[1, 2, 3, 4]" 510 "\<lambda>_. 9"] ata_machine_rest(2) by auto

end
