(* ===== verification/Listhead.thy ===== *)
theory Listhead
  imports Ring
begin

text \<open>
  The circular lists and the bounded queue of \<open>libco/tests/co-test.h\<close>.  A list node is embedded in the
  structure that owns it: a queue begins with its node, and an item has its node 8 bytes from its start.
\<close>

section \<open>Nodes\<close>

record lnode =
  ln_next :: addr
  ln_prev :: addr

record queue_info =
  q_sz :: int
  q_cap :: int

text \<open>Memory that is not allocated has no entry.\<close>

record lmem =
  lnodes :: "addr \<Rightarrow> lnode option"
  queues :: "addr \<Rightarrow> queue_info option"
  item_data :: "addr \<Rightarrow> addr option"

definition get_node :: "addr \<Rightarrow> lmem \<Rightarrow> lnode result" where
  "get_node p s = (case lnodes s p of None \<Rightarrow> Inl Null_Deref | Some n \<Rightarrow> Inr n)"

definition upd_node :: "addr \<Rightarrow> (lnode \<Rightarrow> lnode) \<Rightarrow> lmem \<Rightarrow> lmem result" where
  "upd_node p f s = (case lnodes s p of None \<Rightarrow> Inl Null_Deref | Some n \<Rightarrow> Inr (s\<lparr>lnodes := (lnodes s)(p \<mapsto> f n)\<rparr>))"

definition set_ln_next :: "addr \<Rightarrow> addr \<Rightarrow> lmem \<Rightarrow> lmem result" where
  "set_ln_next p v = upd_node p (\<lambda>n. n\<lparr>ln_next := v\<rparr>)"

definition set_ln_prev :: "addr \<Rightarrow> addr \<Rightarrow> lmem \<Rightarrow> lmem result" where
  "set_ln_prev p v = upd_node p (\<lambda>n. n\<lparr>ln_prev := v\<rparr>)"

section \<open>Lists\<close>

definition init_list_head :: "addr \<Rightarrow> lmem \<Rightarrow> lmem result" where
  "init_list_head p s = bindR (set_ln_next p p s) (set_ln_prev p p)"

text \<open>\<open>__list_add\<close>.\<close>

definition list_link :: "addr \<Rightarrow> addr \<Rightarrow> addr \<Rightarrow> lmem \<Rightarrow> lmem result" where
  "list_link new prev nxt s =
     bindR (set_ln_prev nxt new s) (\<lambda>s. bindR (set_ln_next new nxt s) (\<lambda>s.
     bindR (set_ln_prev new prev s) (set_ln_next prev new)))"

definition list_add :: "addr \<Rightarrow> addr \<Rightarrow> lmem \<Rightarrow> lmem result" where
  "list_add new head s = bindR (get_node head s) (\<lambda>h. list_link new head (ln_next h) s)"

definition list_add_tail :: "addr \<Rightarrow> addr \<Rightarrow> lmem \<Rightarrow> lmem result" where
  "list_add_tail new head s = bindR (get_node head s) (\<lambda>h. list_link new (ln_prev h) head s)"

text \<open>\<open>__list_del\<close>.\<close>

definition list_unlink :: "addr \<Rightarrow> addr \<Rightarrow> lmem \<Rightarrow> lmem result" where
  "list_unlink prev nxt s = bindR (set_ln_prev nxt prev s) (set_ln_next prev nxt)"

definition list_del :: "addr \<Rightarrow> lmem \<Rightarrow> lmem result" where
  "list_del entry s =
     bindR (get_node entry s) (\<lambda>e. bindR (list_unlink (ln_prev e) (ln_next e) s) (\<lambda>s.
     bindR (set_ln_next entry NULL s) (set_ln_prev entry NULL)))"

definition list_del_init :: "addr \<Rightarrow> lmem \<Rightarrow> lmem result" where
  "list_del_init entry s =
     bindR (get_node entry s) (\<lambda>e. bindR (list_unlink (ln_prev e) (ln_next e) s) (init_list_head entry))"

definition list_move :: "addr \<Rightarrow> addr \<Rightarrow> lmem \<Rightarrow> lmem result" where
  "list_move entry head s =
     bindR (get_node entry s) (\<lambda>e. bindR (list_unlink (ln_prev e) (ln_next e) s) (list_add entry head))"

definition list_move_tail :: "addr \<Rightarrow> addr \<Rightarrow> lmem \<Rightarrow> lmem result" where
  "list_move_tail entry head s =
     bindR (get_node entry s) (\<lambda>e. bindR (list_unlink (ln_prev e) (ln_next e) s) (list_add_tail entry head))"

definition list_empty :: "addr \<Rightarrow> lmem \<Rightarrow> bool result" where
  "list_empty head s = bindR (get_node head s) (\<lambda>h. Inr (ln_next h = head))"

text \<open>\<open>__list_splice\<close>.\<close>

definition list_join :: "addr \<Rightarrow> addr \<Rightarrow> lmem \<Rightarrow> lmem result" where
  "list_join lst head s =
     bindR (get_node lst s) (\<lambda>l. bindR (get_node head s) (\<lambda>h.
     let first = ln_next l; last = ln_prev l; at = ln_next h in
     bindR (set_ln_prev first head s) (\<lambda>s. bindR (set_ln_next head first s) (\<lambda>s.
     bindR (set_ln_next last at s) (set_ln_prev at last)))))"

definition list_splice :: "addr \<Rightarrow> addr \<Rightarrow> lmem \<Rightarrow> lmem result" where
  "list_splice lst head s = bindR (list_empty lst s) (\<lambda>e. if \<not> e then list_join lst head s else Inr s)"

definition list_splice_init :: "addr \<Rightarrow> addr \<Rightarrow> lmem \<Rightarrow> lmem result" where
  "list_splice_init lst head s =
     bindR (list_empty lst s) (\<lambda>e. if \<not> e then bindR (list_join lst head s) (init_list_head lst) else Inr s)"

section \<open>Queues\<close>

definition link_off :: addr where "link_off = 8"

definition item_of :: "addr \<Rightarrow> addr" where
  "item_of link = link - link_off"

text \<open>\<open>p\<close> is what \<open>malloc\<close> returns, \<open>junk\<close> the node that the memory there holds.  Without memory the
  program ends.\<close>

definition q_new :: "addr \<Rightarrow> lnode \<Rightarrow> lmem \<Rightarrow> (addr \<times> lmem) result" where
  "q_new p junk s =
     bindR (guardR Assert_Fail (p \<noteq> NULL)) (\<lambda>_.
     bindR (init_list_head p (s\<lparr>lnodes := (lnodes s)(p \<mapsto> junk), queues := (queues s)(p \<mapsto> \<lparr>q_sz = 0, q_cap = 100\<rparr>)\<rparr>)) (\<lambda>s.
     Inr (p, s)))"

definition free_item :: "addr \<Rightarrow> lmem \<Rightarrow> lmem" where
  "free_item p s = s\<lparr>lnodes := (lnodes s)(p + link_off := None), item_data := (item_data s)(p := None)\<rparr>"

text \<open>The loop reads the link of the next item before it frees the current one.\<close>

partial_function (option) q_free_loop :: "addr \<Rightarrow> addr \<Rightarrow> addr \<Rightarrow> lmem \<Rightarrow> lmem result option" where
  "q_free_loop q pos nxt s =
     (if pos + link_off = q then Some (Inr s)
      else case list_del (pos + link_off) s of
          Inl e \<Rightarrow> Some (Inl e)
        | Inr s \<Rightarrow> (let s = free_item pos s; pos = nxt in
            case get_node (nxt + link_off) s of
              Inl e \<Rightarrow> Some (Inl e)
            | Inr n \<Rightarrow> q_free_loop q pos (item_of (ln_next n)) s))"

definition q_free :: "addr \<Rightarrow> lmem \<Rightarrow> lmem result" where
  "q_free q s =
     bindR (get_node q s) (\<lambda>h. let pos = item_of (ln_next h) in
     bindR (get_node (pos + link_off) s) (\<lambda>n.
     bindR (returns (q_free_loop q pos (item_of (ln_next n)) s)) (\<lambda>s.
     Inr (s\<lparr>lnodes := (lnodes s)(q := None), queues := (queues s)(q := None)\<rparr>))))"

definition get_queue :: "addr \<Rightarrow> lmem \<Rightarrow> queue_info result" where
  "get_queue q s = (case queues s q of None \<Rightarrow> Inl Null_Deref | Some i \<Rightarrow> Inr i)"

definition q_is_full :: "addr \<Rightarrow> lmem \<Rightarrow> bool result" where
  "q_is_full q s = bindR (get_queue q s) (\<lambda>i. Inr (q_sz i = q_cap i))"

definition q_is_empty :: "addr \<Rightarrow> lmem \<Rightarrow> bool result" where
  "q_is_empty q s = list_empty q s"

definition q_add_sz :: "int \<Rightarrow> addr \<Rightarrow> lmem \<Rightarrow> lmem result" where
  "q_add_sz d q s = bindR (get_queue q s) (\<lambda>i. Inr (s\<lparr>queues := (queues s)(q \<mapsto> i\<lparr>q_sz := q_sz i + d\<rparr>)\<rparr>))"

text \<open>A full queue drops the item with a message.\<close>

definition q_push :: "addr \<Rightarrow> addr \<Rightarrow> lmem \<Rightarrow> lmem result" where
  "q_push q item s =
     bindR (q_is_full q s) (\<lambda>full. if full then Inr s
      else bindR (list_add_tail (item + link_off) q s) (q_add_sz 1 q))"

definition q_pop :: "addr \<Rightarrow> lmem \<Rightarrow> (addr \<times> lmem) result" where
  "q_pop q s =
     bindR (q_is_empty q s) (\<lambda>e. if e then Inr (NULL, s)
      else bindR (get_node q s) (\<lambda>h.
        let item = item_of (ln_next h) in
        bindR (list_del (item + link_off) s) (\<lambda>s. bindR (q_add_sz (- 1) q s) (\<lambda>s. Inr (item, s)))))"

section \<open>Nodes are a store of linked objects\<close>

definition lnx :: "lmem \<Rightarrow> addr \<Rightarrow> addr" where
  "lnx s p = (case lnodes s p of None \<Rightarrow> NULL | Some n \<Rightarrow> ln_next n)"

definition lpv :: "lmem \<Rightarrow> addr \<Rightarrow> addr" where
  "lpv s p = (case lnodes s p of None \<Rightarrow> NULL | Some n \<Rightarrow> ln_prev n)"

definition lrest :: "lmem \<Rightarrow> (addr \<Rightarrow> queue_info option) \<times> (addr \<Rightarrow> addr option)" where
  "lrest s = (queues s, item_data s)"

interpretation node_ring: ring_store lnx lpv set_ln_next set_ln_prev "\<lambda>s. dom (lnodes s)" lrest
  by unfold_locales (auto simp: set_ln_next_def set_ln_prev_def upd_node_def lnx_def lpv_def lrest_def fun_eq_iff)

lemma get_node_live: "p \<in> dom (lnodes s) \<Longrightarrow> \<exists>n. get_node p s = Inr n \<and> ln_next n = lnx s p \<and> ln_prev n = lpv s p"
  by (auto simp: get_node_def lnx_def lpv_def)

lemma init_list_head_ok:
  assumes "p \<in> dom (lnodes s)"
  shows "\<exists>s'. init_list_head p s = Inr s' \<and> ring (lnx s') (lpv s') [p] \<and> dom (lnodes s') = dom (lnodes s) \<and> lrest s' = lrest s \<and>
    (\<forall>x. x \<noteq> p \<longrightarrow> lnx s' x = lnx s x \<and> lpv s' x = lpv s x)"
  using assms
  by (auto simp: init_list_head_def set_ln_next_def set_ln_prev_def upd_node_def lnx_def lpv_def lrest_def ring_single)

text \<open>Writing a link, then going on.\<close>

lemma set_links_run:
  assumes "p \<in> dom (lnodes s)"
  obtains s' where "set_ln_next p v s = Inr s'" "lnx s' = (lnx s)(p := v)" "lpv s' = lpv s"
    "dom (lnodes s') = dom (lnodes s)" "lrest s' = lrest s"
  using node_ring.set_nxt [OF assms, of v] by blast

lemma set_prev_run:
  assumes "p \<in> dom (lnodes s)"
  obtains s' where "set_ln_prev p v s = Inr s'" "lpv s' = (lpv s)(p := v)" "lnx s' = lnx s"
    "dom (lnodes s') = dom (lnodes s)" "lrest s' = lrest s"
  using node_ring.set_prv [OF assms, of v] by blast

lemma list_link_ok:
  assumes "new \<in> dom (lnodes s)" and "prev \<in> dom (lnodes s)" and "nxt \<in> dom (lnodes s)"
  shows "\<exists>s'. list_link new prev nxt s = Inr s' \<and> lnx s' = (lnx s)(new := nxt, prev := new) \<and>
    lpv s' = (lpv s)(nxt := new, new := prev) \<and> dom (lnodes s') = dom (lnodes s) \<and> lrest s' = lrest s"
proof -
  obtain s1 where s1: "set_ln_prev nxt new s = Inr s1" "lpv s1 = (lpv s)(nxt := new)" "lnx s1 = lnx s"
    "dom (lnodes s1) = dom (lnodes s)" "lrest s1 = lrest s" using set_prev_run [OF assms(3)] .
  obtain s2 where s2: "set_ln_next new nxt s1 = Inr s2" "lnx s2 = (lnx s1)(new := nxt)" "lpv s2 = lpv s1"
    "dom (lnodes s2) = dom (lnodes s1)" "lrest s2 = lrest s1" using set_links_run [of new s1] assms(1) s1(4) by blast
  obtain s3 where s3: "set_ln_prev new prev s2 = Inr s3" "lpv s3 = (lpv s2)(new := prev)" "lnx s3 = lnx s2"
    "dom (lnodes s3) = dom (lnodes s2)" "lrest s3 = lrest s2" using set_prev_run [of new s2] assms(1) s1(4) s2(4) by blast
  obtain s4 where s4: "set_ln_next prev new s3 = Inr s4" "lnx s4 = (lnx s3)(prev := new)" "lpv s4 = lpv s3"
    "dom (lnodes s4) = dom (lnodes s3)" "lrest s4 = lrest s3" using set_links_run [of prev s3] assms(2) s1(4) s2(4) s3(4) by blast
  show ?thesis using s1 s2 s3 s4 by (simp add: list_link_def)
qed

lemma list_unlink_ok:
  assumes "prev \<in> dom (lnodes s)" and "nxt \<in> dom (lnodes s)"
  shows "\<exists>s'. list_unlink prev nxt s = Inr s' \<and> lnx s' = (lnx s)(prev := nxt) \<and> lpv s' = (lpv s)(nxt := prev) \<and>
    dom (lnodes s') = dom (lnodes s) \<and> lrest s' = lrest s"
proof -
  obtain s1 where s1: "set_ln_prev nxt prev s = Inr s1" "lpv s1 = (lpv s)(nxt := prev)" "lnx s1 = lnx s"
    "dom (lnodes s1) = dom (lnodes s)" "lrest s1 = lrest s" using set_prev_run [OF assms(2)] .
  obtain s2 where s2: "set_ln_next prev nxt s1 = Inr s2" "lnx s2 = (lnx s1)(prev := nxt)" "lpv s2 = lpv s1"
    "dom (lnodes s2) = dom (lnodes s1)" "lrest s2 = lrest s1" using set_links_run [of prev s1] assms(1) s1(4) by blast
  show ?thesis using s1 s2 by (simp add: list_unlink_def)
qed

section \<open>Lists\<close>

text \<open>The list of the head \<open>h\<close>, and the parts of the state that an operation on it leaves alone.\<close>

definition list_at :: "lmem \<Rightarrow> addr \<Rightarrow> addr list \<Rightarrow> bool" where
  "list_at s h xs \<longleftrightarrow> ring (lnx s) (lpv s) (h # xs) \<and> set (h # xs) \<subseteq> dom (lnodes s)"

definition same_outside :: "addr set \<Rightarrow> lmem \<Rightarrow> lmem \<Rightarrow> bool" where
  "same_outside A s s' \<longleftrightarrow> dom (lnodes s') = dom (lnodes s) \<and> lrest s' = lrest s \<and>
     (\<forall>x. x \<notin> A \<longrightarrow> lnx s' x = lnx s x \<and> lpv s' x = lpv s x)"

lemma list_add_ok:
  assumes "list_at s h xs" and "new \<in> dom (lnodes s)" and "new \<notin> set (h # xs)"
  shows "\<exists>s'. list_add new h s = Inr s' \<and> list_at s' h (new # xs) \<and> same_outside (insert new (set (h # xs))) s s'"
proof -
  have r: "ring (lnx s) (lpv s) (h # xs)" and live: "h \<in> dom (lnodes s)" "lnx s h \<in> dom (lnodes s)"
    using assms(1) ring_next(2) [of "lnx s" "lpv s" h xs] by (auto simp: list_at_def)
  obtain n where n: "get_node h s = Inr n" "ln_next n = lnx s h" using get_node_live [OF live(1)] by blast
  obtain s' where s': "list_link new h (lnx s h) s = Inr s'" "lnx s' = (lnx s)(new := lnx s h, h := new)"
    "lpv s' = (lpv s)(lnx s h := new, new := h)" "dom (lnodes s') = dom (lnodes s)" "lrest s' = lrest s"
    using list_link_ok [OF assms(2) live] by blast
  have "lnx s h \<noteq> new" using ring_next(2) [OF r] assms(3) by metis
  then have "lpv s' = (lpv s)(new := h, lnx s h := new)" using s'(3) by (simp add: fun_upd_twist)
  then have "ring (lnx s') (lpv s') (h # new # xs)" using ring_insert [OF r assms(3)] s'(2) by simp
  moreover have "lnx s' x = lnx s x \<and> lpv s' x = lpv s x" if "x \<notin> insert new (set (h # xs))" for x
  proof -
    have "x \<noteq> lnx s h" using ring_next(2) [OF r] that by blast
    then show ?thesis using that s'(2,3) by simp
  qed
  ultimately show ?thesis using n s' assms(1,2) by (auto simp: list_add_def list_at_def same_outside_def)
qed

lemma list_add_tail_ok:
  assumes "list_at s h xs" and "new \<in> dom (lnodes s)" and "new \<notin> set (h # xs)"
  shows "\<exists>s'. list_add_tail new h s = Inr s' \<and> list_at s' h (xs @ [new]) \<and> same_outside (insert new (set (h # xs))) s s'"
proof -
  let ?l = "last (h # xs)" and ?ys = "butlast (h # xs)"
  have r: "ring (lnx s) (lpv s) (h # xs)" and l: "lpv s h = ?l"
    using assms(1) ring_prev(1) [of "lnx s" "lpv s" h xs] by (auto simp: list_at_def)
  have split: "?ys @ [?l] = h # xs" by (rule append_butlast_last_id) simp
  have "ring (lnx s) (lpv s) (?ys @ [?l])" using r unfolding split .
  then have rot: "ring (lnx s) (lpv s) (?l # ?ys)" using ring_rotate [of "lnx s" "lpv s" ?ys "[?l]"] by simp
  have sets: "set (?l # ?ys) = set (h # xs)" using arg_cong [OF split, of set] by auto
  have nl: "lnx s ?l = h" using ring_next(1) [OF rot] split by (metis hd_append2 list.sel(1) append_Nil)
  have live: "?l \<in> dom (lnodes s)" "h \<in> dom (lnodes s)"
    using assms(1) sets by (auto simp: list_at_def)
  obtain n where n: "get_node h s = Inr n" "ln_prev n = ?l" using get_node_live [OF live(2)] l by auto
  obtain s' where s': "list_link new ?l h s = Inr s'" "lnx s' = (lnx s)(new := h, ?l := new)"
    "lpv s' = (lpv s)(h := new, new := ?l)" "dom (lnodes s') = dom (lnodes s)" "lrest s' = lrest s"
    using list_link_ok [OF assms(2) live] by blast
  have nin: "new \<notin> set (?l # ?ys)" using assms(3) sets by simp
  have "lpv s' = (lpv s)(new := ?l, h := new)" using s'(3) assms(3) by (simp add: fun_upd_twist)
  then have "ring (lnx s') (lpv s') (?l # new # ?ys)" using ring_insert [OF rot nin] s'(2) nl by simp
  then have "ring (lnx s') (lpv s') ([?l, new] @ ?ys)" by simp
  then have rn: "ring (lnx s') (lpv s') (?ys @ [?l, new])" by (rule ring_rotate)
  have eq: "?ys @ [?l, new] = h # xs @ [new]" using split by (metis append.assoc append_Cons append_Nil)
  have "ring (lnx s') (lpv s') (h # xs @ [new])" using rn unfolding eq .
  moreover have "lnx s' x = lnx s x \<and> lpv s' x = lpv s x" if "x \<notin> insert new (set (h # xs))" for x
  proof -
    have "x \<noteq> ?l" using that sets by (metis insertCI list.set_intros(1))
    then show ?thesis using that s'(2,3) by simp
  qed
  ultimately show ?thesis using n s' assms(1,2) by (auto simp: list_add_tail_def list_at_def same_outside_def)
qed

lemma same_outside_trans: "same_outside A s s1 \<Longrightarrow> same_outside B s1 s2 \<Longrightarrow> same_outside (A \<union> B) s s2"
  by (simp add: same_outside_def)

lemma same_outside_mono: "same_outside A s s' \<Longrightarrow> A \<subseteq> B \<Longrightarrow> same_outside B s s'"
  by (auto simp: same_outside_def)

lemma list_at_outside: "list_at s h xs \<Longrightarrow> same_outside A s s' \<Longrightarrow> A \<inter> set (h # xs) = {} \<Longrightarrow> list_at s' h xs"
  unfolding list_at_def same_outside_def by (subst ring_cong [of _ "lnx s'" "lnx s" "lpv s'" "lpv s"]) auto

text \<open>The unlinking that removal and moving share.\<close>

lemma unlink_ok:
  assumes "list_at s h (xs @ e # ys)"
  shows "\<exists>n s'. get_node e s = Inr n \<and> list_unlink (ln_prev n) (ln_next n) s = Inr s' \<and> list_at s' h (xs @ ys) \<and>
    same_outside (set (h # xs @ ys)) s s'"
proof -
  have all: "set (h # xs @ e # ys) \<subseteq> dom (lnodes s)" and "ring (lnx s) (lpv s) ((h # xs) @ (e # ys))"
    using assms by (simp_all add: list_at_def)
  then have r: "ring (lnx s) (lpv s) (e # ys @ h # xs)" using ring_rotate [of "lnx s" "lpv s" "h # xs" "e # ys"] by simp
  have d: "e \<notin> set (ys @ h # xs)" using r by (simp add: ring_def)
  have nb: "lnx s e \<in> set (ys @ h # xs)" "lpv s e \<in> set (ys @ h # xs)"
    using ring_next(1) [OF r] ring_prev(1) [OF r] by (cases ys; simp)+
  obtain n where n: "get_node e s = Inr n" "ln_next n = lnx s e" "ln_prev n = lpv s e"
    using get_node_live [of e s] all by auto
  have live: "lpv s e \<in> dom (lnodes s)" "lnx s e \<in> dom (lnodes s)"
    using nb all by auto
  obtain s' where s': "list_unlink (lpv s e) (lnx s e) s = Inr s'" "lnx s' = (lnx s)(lpv s e := lnx s e)"
    "lpv s' = (lpv s)(lnx s e := lpv s e)" "dom (lnodes s') = dom (lnodes s)" "lrest s' = lrest s"
    using list_unlink_ok [OF live] by blast
  have "ring (lnx s') (lpv s') (ys @ h # xs)" using ring_remove [OF r] s'(2,3) by simp
  then have "ring (lnx s') (lpv s') ((h # xs) @ ys)" by (rule ring_rotate)
  moreover have "lnx s' x = lnx s x \<and> lpv s' x = lpv s x" if "x \<notin> set (h # xs @ ys)" for x
  proof -
    have "set (ys @ h # xs) = set (h # xs @ ys)" by auto
    then have "x \<noteq> lnx s e" "x \<noteq> lpv s e" using nb that by auto
    then show ?thesis using s'(2,3) by simp
  qed
  ultimately show ?thesis using n s' all by (auto simp: list_at_def same_outside_def)
qed

lemma list_del_ok:
  assumes "list_at s h (xs @ e # ys)"
  shows "\<exists>s'. list_del e s = Inr s' \<and> list_at s' h (xs @ ys) \<and> lnx s' e = NULL \<and> lpv s' e = NULL \<and>
    same_outside (set (h # xs @ e # ys)) s s'"
proof -
  obtain n s1 where s1: "get_node e s = Inr n" "list_unlink (ln_prev n) (ln_next n) s = Inr s1"
    "list_at s1 h (xs @ ys)" "same_outside (set (h # xs @ ys)) s s1" using unlink_ok [OF assms] by blast
  have e: "e \<in> dom (lnodes s1)" "e \<notin> set (h # xs @ ys)"
    using assms s1(4) by (auto simp: list_at_def same_outside_def ring_def)
  obtain s2 where s2: "set_ln_next e NULL s1 = Inr s2" "lnx s2 = (lnx s1)(e := NULL)" "lpv s2 = lpv s1"
    "dom (lnodes s2) = dom (lnodes s1)" "lrest s2 = lrest s1" using set_links_run [OF e(1)] .
  obtain s3 where s3: "set_ln_prev e NULL s2 = Inr s3" "lpv s3 = (lpv s2)(e := NULL)" "lnx s3 = lnx s2"
    "dom (lnodes s3) = dom (lnodes s2)" "lrest s3 = lrest s2" using set_prev_run [of e s2] e(1) s2(4) by blast
  have o: "same_outside {e} s1 s3" using s2 s3 by (simp add: same_outside_def)
  have "list_at s3 h (xs @ ys)" using list_at_outside [OF s1(3) o] e(2) by blast
  moreover have "same_outside (set (h # xs @ e # ys)) s s3"
    using same_outside_trans [OF s1(4) o] by (rule same_outside_mono) auto
  ultimately show ?thesis using s1(1,2) s2 s3 by (auto simp: list_del_def)
qed

lemma list_del_init_ok:
  assumes "list_at s h (xs @ e # ys)"
  shows "\<exists>s'. list_del_init e s = Inr s' \<and> list_at s' h (xs @ ys) \<and> list_at s' e [] \<and> same_outside (set (h # xs @ e # ys)) s s'"
proof -
  obtain n s1 where s1: "get_node e s = Inr n" "list_unlink (ln_prev n) (ln_next n) s = Inr s1"
    "list_at s1 h (xs @ ys)" "same_outside (set (h # xs @ ys)) s s1" using unlink_ok [OF assms] by blast
  have e: "e \<in> dom (lnodes s1)" "e \<notin> set (h # xs @ ys)"
    using assms s1(4) by (auto simp: list_at_def same_outside_def ring_def)
  obtain s2 where s2: "init_list_head e s1 = Inr s2" "ring (lnx s2) (lpv s2) [e]" "dom (lnodes s2) = dom (lnodes s1)"
    "lrest s2 = lrest s1" "\<forall>x. x \<noteq> e \<longrightarrow> lnx s2 x = lnx s1 x \<and> lpv s2 x = lpv s1 x" using init_list_head_ok [OF e(1)] by blast
  have o: "same_outside {e} s1 s2" using s2 by (simp add: same_outside_def)
  have "list_at s2 h (xs @ ys)" using list_at_outside [OF s1(3) o] e(2) by blast
  moreover have "same_outside (set (h # xs @ e # ys)) s s2"
    using same_outside_trans [OF s1(4) o] by (rule same_outside_mono) auto
  ultimately show ?thesis using s1(1,2) s2(1-3) e(1) by (auto simp: list_del_init_def list_at_def)
qed

text \<open>Moving an entry to the front or to the end of another list.\<close>

lemma moved:
  assumes "list_at s h (xs @ e # ys)" and "list_at s k zs" and "set (h # xs @ e # ys) \<inter> set (k # zs) = {}"
  shows "\<exists>s'. list_move e k s = Inr s' \<and> list_at s' h (xs @ ys) \<and> list_at s' k (e # zs)"
    and "\<exists>s'. list_move_tail e k s = Inr s' \<and> list_at s' h (xs @ ys) \<and> list_at s' k (zs @ [e])"
proof -
  obtain n s1 where s1: "get_node e s = Inr n" "list_unlink (ln_prev n) (ln_next n) s = Inr s1"
    "list_at s1 h (xs @ ys)" "same_outside (set (h # xs @ ys)) s s1" using unlink_ok [OF assms(1)] by blast
  have e: "e \<in> dom (lnodes s1)" "e \<notin> set (h # xs @ ys)" "e \<notin> set (k # zs)"
    using assms s1(4) by (auto simp: list_at_def same_outside_def ring_def)
  have k: "list_at s1 k zs" using list_at_outside [OF assms(2) s1(4)] assms(3) by auto
  have apart: "insert e (set (k # zs)) \<inter> set (h # xs @ ys) = {}" using assms(3) e(2) by auto
  obtain s2 where s2: "list_add e k s1 = Inr s2" "list_at s2 k (e # zs)" "same_outside (insert e (set (k # zs))) s1 s2"
    using list_add_ok [OF k e(1,3)] by blast
  obtain s3 where s3: "list_add_tail e k s1 = Inr s3" "list_at s3 k (zs @ [e])" "same_outside (insert e (set (k # zs))) s1 s3"
    using list_add_tail_ok [OF k e(1,3)] by blast
  show "\<exists>s'. list_move e k s = Inr s' \<and> list_at s' h (xs @ ys) \<and> list_at s' k (e # zs)"
    using s1(1,2) s2(1,2) list_at_outside [OF s1(3) s2(3) apart] by (simp add: list_move_def)
  show "\<exists>s'. list_move_tail e k s = Inr s' \<and> list_at s' h (xs @ ys) \<and> list_at s' k (zs @ [e])"
    using s1(1,2) s3(1,2) list_at_outside [OF s1(3) s3(3) apart] by (simp add: list_move_tail_def)
qed

lemma list_empty_ok: "list_at s h xs \<Longrightarrow> list_empty h s = Inr (xs = [])"
proof -
  assume a: "list_at s h xs"
  then obtain n where n: "get_node h s = Inr n" "ln_next n = lnx s h" using get_node_live [of h s] by (auto simp: list_at_def)
  have r: "ring (lnx s) (lpv s) (h # xs)" using a by (simp add: list_at_def)
  have "lnx s h = h \<longleftrightarrow> xs = []" using ring_next(1) [OF r] r by (cases xs) (auto simp: ring_def)
  then show ?thesis using n by (simp add: list_empty_def)
qed

end
