(* ===== verification/Queues.thy ===== *)
theory Queues
  imports Listhead
begin

text \<open>
  The queue of \<open>co-test.h\<close> is a first-in first-out queue of at most 100 items, freeing it frees its items,
  and splicing joins two lists.
\<close>

section \<open>Splicing\<close>

lemma linked_join:
  "linked nx pv xs \<Longrightarrow> linked nx pv ys \<Longrightarrow> xs \<noteq> [] \<Longrightarrow> ys \<noteq> [] \<Longrightarrow> nx (last xs) = hd ys \<Longrightarrow> pv (hd ys) = last xs \<Longrightarrow>
   linked nx pv (xs @ ys)"
  by (induction nx pv xs rule: linked.induct; cases ys) auto

lemma linked_tl: "linked nx pv (a # xs) \<Longrightarrow> linked nx pv xs"
  by (cases xs) auto

lemma linked_front: "linked nx pv (xs @ ys) \<Longrightarrow> linked nx pv xs"
proof (induction nx pv xs rule: linked.induct)
  case (1 nx pv a b xs)
  then show ?case by simp
qed auto

lemma list_join_ok:
  assumes l: "list_at s l (x # xs)" and h: "list_at s h ys" and apart: "set (l # x # xs) \<inter> set (h # ys) = {}"
  shows "\<exists>s'. list_join l h s = Inr s' \<and> list_at s' h (x # xs @ ys)"
proof -
  let ?at = "hd (ys @ [h])" and ?last = "last (x # xs)"
  have rl: "ring (lnx s) (lpv s) (l # x # xs)" and rh: "ring (lnx s) (lpv s) (h # ys)"
    and ll: "set (l # x # xs) \<subseteq> dom (lnodes s)" and lh: "set (h # ys) \<subseteq> dom (lnodes s)"
    using l h by (simp_all add: list_at_def)
  obtain n where n: "get_node l s = Inr n" "ln_next n = x" "ln_prev n = ?last"
    using get_node_live [of l s] ll ring_next(1) [OF rl] ring_prev(1) [OF rl] by auto
  obtain m where m: "get_node h s = Inr m" "ln_next m = ?at"
    using get_node_live [of h s] lh ring_next(1) [OF rh] by auto
  have at: "?at \<in> set (h # ys)" by (cases ys) auto
  have la: "?last \<in> set (x # xs)" by (rule last_in_set) simp
  obtain s1 where s1: "set_ln_prev x h s = Inr s1" "lpv s1 = (lpv s)(x := h)" "lnx s1 = lnx s"
    "dom (lnodes s1) = dom (lnodes s)" "lrest s1 = lrest s" using set_prev_run [of x s] ll by auto
  obtain s2 where s2: "set_ln_next h x s1 = Inr s2" "lnx s2 = (lnx s1)(h := x)" "lpv s2 = lpv s1"
    "dom (lnodes s2) = dom (lnodes s1)" "lrest s2 = lrest s1" using set_links_run [of h s1] lh s1(4) by auto
  have "?last \<in> dom (lnodes s2)" using la ll s1(4) s2(4) by auto
  then obtain s3 where s3: "set_ln_next ?last ?at s2 = Inr s3" "lnx s3 = (lnx s2)(?last := ?at)" "lpv s3 = lpv s2"
    "dom (lnodes s3) = dom (lnodes s2)" "lrest s3 = lrest s2" by (rule set_links_run)
  have "?at \<in> dom (lnodes s3)" using at lh s1(4) s2(4) s3(4) by auto
  then obtain s4 where s4: "set_ln_prev ?at ?last s3 = Inr s4" "lpv s4 = (lpv s3)(?at := ?last)" "lnx s4 = lnx s3"
    "dom (lnodes s4) = dom (lnodes s3)" "lrest s4 = lrest s3" by (rule set_prev_run)
  have nx: "lnx s4 = (lnx s)(h := x, ?last := ?at)" and pv: "lpv s4 = (lpv s)(x := h, ?at := ?last)"
    using s1 s2 s3 s4 by simp_all
  have dl: "distinct (l # x # xs)" and dh: "distinct (h # ys)"
    and kl: "linked (lnx s) (lpv s) (l # x # xs @ [l])" and kh: "linked (lnx s) (lpv s) (h # ys @ [h])"
    using rl rh by (simp_all add: ring_def)
  have "linked (lnx s) (lpv s) ((x # xs) @ [l])" using linked_tl [OF kl] by simp
  then have "linked (lnx s) (lpv s) (x # xs)" by (rule linked_front)
  moreover have "linked (lnx s4) (lpv s4) (x # xs) = linked (lnx s) (lpv s) (x # xs)"
  proof (rule linked_cong)
    fix z assume z: "z \<in> set (butlast (x # xs))"
    have id: "butlast (x # xs) @ [?last] = x # xs" by (rule append_butlast_last_id) simp
    have "distinct (butlast (x # xs) @ [?last])" unfolding id using dl by simp
    then have "z \<noteq> ?last" using z by auto
    moreover have "z \<noteq> h" using in_set_butlastD [OF z] apart by auto
    ultimately show "lnx s4 z = lnx s z" unfolding nx by (simp only: fun_upd_other not_False_eq_True)
  next
    fix z assume z: "z \<in> set (tl (x # xs))"
    then have "z \<noteq> x" "z \<noteq> ?at" using dl at apart by auto
    then show "lpv s4 z = lpv s z" unfolding pv by (simp only: fun_upd_other not_False_eq_True)
  qed
  ultimately have k1: "linked (lnx s4) (lpv s4) (x # xs)" by simp
  have "linked (lnx s4) (lpv s4) (ys @ [h]) = linked (lnx s) (lpv s) (ys @ [h])"
  proof (rule linked_cong)
    fix z assume "z \<in> set (butlast (ys @ [h]))"
    then have "z \<noteq> h" "z \<noteq> ?last" using dh la apart by auto
    then show "lnx s4 z = lnx s z" unfolding nx by (simp only: fun_upd_other not_False_eq_True)
  next
    fix z assume z: "z \<in> set (tl (ys @ [h]))"
    then have "z \<noteq> ?at" using dh by (cases ys) auto
    moreover have "z \<noteq> x" using z apart by (cases ys) auto
    ultimately show "lpv s4 z = lpv s z" unfolding pv by (simp only: fun_upd_other not_False_eq_True)
  qed
  then have k2: "linked (lnx s4) (lpv s4) (ys @ [h])" using linked_tl [OF kh] by simp
  have "lnx s4 ?last = ?at" "lpv s4 ?at = ?last" unfolding nx pv by simp_all
  then have "linked (lnx s4) (lpv s4) ((x # xs) @ ys @ [h])" using linked_join [OF k1 k2] by simp
  moreover have "lnx s4 h = x"
  proof -
    have "h \<noteq> ?last" using la apart by auto
    then show ?thesis unfolding nx by simp
  qed
  moreover have "lpv s4 x = h"
  proof -
    have "x \<noteq> ?at" using at apart by auto
    then show ?thesis unfolding pv by simp
  qed
  ultimately have "linked (lnx s4) (lpv s4) (h # (x # xs) @ ys @ [h])" by simp
  moreover have "distinct (h # x # xs @ ys)" using dl dh apart by auto
  ultimately have "ring (lnx s4) (lpv s4) (h # x # xs @ ys)" by (simp add: ring_def)
  then have "list_at s4 h (x # xs @ ys)" using ll lh s1(4) s2(4) s3(4) s4(4) by (auto simp: list_at_def)
  moreover have "list_join l h s = Inr s4"
    using n m s1(1) s2(1) s3(1) s4(1) by (simp add: list_join_def Let_def)
  ultimately show ?thesis by blast
qed

lemma list_splice_ok:
  assumes "list_at s l xs" and "list_at s h ys" and "set (l # xs) \<inter> set (h # ys) = {}"
  shows "\<exists>s'. list_splice l h s = Inr s' \<and> list_at s' h (xs @ ys)"
proof (cases xs)
  case Nil
  then show ?thesis using assms list_empty_ok [OF assms(1)] by (simp add: list_splice_def)
next
  case (Cons x xs')
  then show ?thesis
    using list_join_ok [of s l x xs' h ys] list_empty_ok [OF assms(1)] assms by (simp add: list_splice_def)
qed

section \<open>The queue\<close>

definition queue_ok :: "lmem \<Rightarrow> addr \<Rightarrow> addr list \<Rightarrow> bool" where
  "queue_ok s q xs \<longleftrightarrow> list_at s q (map (\<lambda>i. i + link_off) xs) \<and> queues s q = Some \<lparr>q_sz = int (length xs), q_cap = 100\<rparr> \<and>
     length xs \<le> 100"

text \<open>Pushing items and taking them out, in any order; the answers of \<open>q_pop\<close> are collected.\<close>

datatype qop = Push addr | Pop

fun q_run :: "addr \<Rightarrow> qop list \<Rightarrow> lmem \<Rightarrow> (addr list \<times> lmem) result" where
  "q_run q [] s = Inr ([], s)"
| "q_run q (Push i # ops) s = bindR (q_push q i s) (q_run q ops)"
| "q_run q (Pop # ops) s = bindR (q_pop q s) (\<lambda>(i, s). bindR (q_run q ops s) (\<lambda>(os, s). Inr (i # os, s)))"

text \<open>The queue that the code promises, on the list of its items; an item that is in the queue must not be
  pushed again.\<close>

fun fifo :: "qop list \<Rightarrow> addr list \<Rightarrow> (addr list \<times> addr list) option" where
  "fifo [] xs = Some ([], xs)"
| "fifo (Push i # ops) xs = (if length xs = 100 then fifo ops xs else if i \<in> set xs then None else fifo ops (xs @ [i]))"
| "fifo (Pop # ops) xs = (case xs of [] \<Rightarrow> map_option (\<lambda>(os, ys). (NULL # os, ys)) (fifo ops [])
     | x # xs \<Rightarrow> map_option (\<lambda>(os, ys). (x # os, ys)) (fifo ops xs))"

lemma lrest_iff: "lrest s = lrest s' \<longleftrightarrow> queues s = queues s' \<and> item_data s = item_data s'"
  by (simp add: lrest_def)

lemma queues_list_at: "list_at (s\<lparr>queues := f\<rparr>) q xs = list_at s q xs"
  by (simp add: list_at_def lnx_def lpv_def [abs_def] lnx_def [abs_def])

lemma q_new_ok:
  assumes "p \<noteq> NULL"
  shows "\<exists>s'. q_new p junk s = Inr (p, s') \<and> queue_ok s' p []"
proof -
  let ?s = "s\<lparr>lnodes := (lnodes s)(p \<mapsto> junk), queues := (queues s)(p \<mapsto> \<lparr>q_sz = 0, q_cap = 100\<rparr>)\<rparr>"
  obtain s' where s': "init_list_head p ?s = Inr s'" "ring (lnx s') (lpv s') [p]" "dom (lnodes s') = dom (lnodes ?s)" "lrest s' = lrest ?s"
    using init_list_head_ok [of p ?s] by auto
  then show ?thesis using assms by (auto simp: q_new_def queue_ok_def list_at_def lrest_iff)
qed

lemma q_push_ok:
  assumes "queue_ok s q xs" and "i + link_off \<in> dom (lnodes s)" and "i + link_off \<noteq> q" and "i \<notin> set xs" and "length xs < 100"
  shows "\<exists>s'. q_push q i s = Inr s' \<and> queue_ok s' q (xs @ [i]) \<and> dom (lnodes s') = dom (lnodes s)"
proof -
  note ok = assms(1) [unfolded queue_ok_def]
  have "i + link_off \<notin> set (q # map (\<lambda>i. i + link_off) xs)" using assms(3,4) by auto
  then obtain s1 where s1: "list_add_tail (i + link_off) q s = Inr s1" "list_at s1 q (map (\<lambda>i. i + link_off) xs @ [i + link_off])"
    "dom (lnodes s1) = dom (lnodes s)" "queues s1 = queues s"
    using list_add_tail_ok [of s q _ "i + link_off"] ok assms(2) by (fastforce simp: same_outside_def lrest_iff)
  then show ?thesis using ok assms(5)
    by (simp add: q_push_def q_is_full_def get_queue_def q_add_sz_def queue_ok_def queues_list_at)
qed

lemma q_push_full: "queue_ok s q xs \<Longrightarrow> length xs = 100 \<Longrightarrow> q_push q i s = Inr s"
  by (simp add: queue_ok_def q_push_def q_is_full_def get_queue_def)

lemma q_pop_empty: "queue_ok s q [] \<Longrightarrow> q_pop q s = Inr (NULL, s)"
  using list_empty_ok [of s q "[]"] by (simp add: queue_ok_def q_pop_def q_is_empty_def)

lemma q_pop_ok:
  assumes "queue_ok s q (x # xs)"
  shows "\<exists>s'. q_pop q s = Inr (x, s') \<and> queue_ok s' q xs \<and> dom (lnodes s') = dom (lnodes s)"
proof -
  note ok = assms [unfolded queue_ok_def]
  have l: "list_at s q ((x + link_off) # map (\<lambda>i. i + link_off) xs)" using ok by simp
  have r: "ring (lnx s) (lpv s) (q # (x + link_off) # map (\<lambda>i. i + link_off) xs)" using l by (simp add: list_at_def)
  obtain n where n: "get_node q s = Inr n" "ln_next n = x + link_off"
    using get_node_live [of q s] l ring_next(1) [OF r] by (auto simp: list_at_def)
  obtain s1 where s1: "list_del (x + link_off) s = Inr s1" "list_at s1 q (map (\<lambda>i. i + link_off) xs)"
    "dom (lnodes s1) = dom (lnodes s)" "queues s1 = queues s"
    using list_del_ok [of s q "[]" "x + link_off" "map (\<lambda>i. i + link_off) xs"] l by (auto simp: same_outside_def lrest_iff)
  have "list_empty q s = Inr False" using list_empty_ok [OF l] by simp
  then show ?thesis using n s1 ok
    by (simp add: q_pop_def q_is_empty_def item_of_def q_add_sz_def get_queue_def queue_ok_def queues_list_at)
qed

text \<open>C37. The queue is first in, first out: whatever items are pushed and popped, in any order, every pop
  returns the item that a queue of at most 100 items would return, and a push to a full queue has no effect.\<close>

theorem queue_fifo:
  assumes "queue_ok s q xs" and "fifo ops xs = Some (outs, ys)"
    and "\<forall>i. Push i \<in> set ops \<longrightarrow> i + link_off \<in> dom (lnodes s) \<and> i + link_off \<noteq> q"
  shows "\<exists>s'. q_run q ops s = Inr (outs, s') \<and> queue_ok s' q ys"
  using assms
proof (induction ops xs arbitrary: s outs rule: fifo.induct)
  case (1 xs)
  then show ?case by simp
next
  case (2 i ops xs)
  show ?case
  proof (cases "length xs = 100")
    case True
    then show ?thesis using 2 q_push_full [OF "2.prems"(1)] by simp
  next
    case False
    then have i: "i \<notin> set xs" "fifo ops (xs @ [i]) = Some (outs, ys)" "length xs < 100"
      using "2.prems"(1,2) by (auto simp: queue_ok_def split: if_splits)
    obtain s1 where s1: "q_push q i s = Inr s1" "queue_ok s1 q (xs @ [i])" "dom (lnodes s1) = dom (lnodes s)"
      using q_push_ok [OF "2.prems"(1), of i] "2.prems"(3) i by auto
    then show ?thesis using "2.IH"(2) [OF False i(1) s1(2) i(2)] "2.prems"(3) by simp
  qed
next
  case (3 ops xs)
  show ?case
  proof (cases xs)
    case Nil
    then obtain os where "fifo ops [] = Some (os, ys)" "outs = NULL # os" using "3.prems"(2) by auto
    then show ?thesis using "3.IH"(1) [OF Nil, of s os] "3.prems"(1,3) q_pop_empty [of s q] Nil by auto
  next
    case (Cons x zs)
    then obtain os where os: "fifo ops zs = Some (os, ys)" "outs = x # os" using "3.prems"(2) by auto
    obtain s1 where s1: "q_pop q s = Inr (x, s1)" "queue_ok s1 q zs" "dom (lnodes s1) = dom (lnodes s)"
      using q_pop_ok "3.prems"(1) Cons by blast
    then show ?thesis using "3.IH"(2) [OF Cons s1(2) os(1)] "3.prems"(3) os(2) by auto
  qed
qed

text \<open>A queue at \<open>0x1000\<close> with two items: the pops return them in the order of the pushes, and a third pop
  \<open>NULL\<close>.\<close>

theorem queue_fifo_witness:
  "\<exists>s s' s''. q_new 0x1000 \<lparr>ln_next = 7, ln_prev = 7\<rparr> s = Inr (0x1000, s') \<and>
     q_run 0x1000 [Push 0x2000, Push 0x3000, Pop, Pop, Pop] s' = Inr ([0x2000, 0x3000, NULL], s'')"
proof -
  let ?s = "\<lparr>lnodes = [0x2008 \<mapsto> \<lparr>ln_next = 0, ln_prev = 0\<rparr>, 0x3008 \<mapsto> \<lparr>ln_next = 0, ln_prev = 0\<rparr>], queues = (\<lambda>_. None), item_data = (\<lambda>_. None)\<rparr>"
  obtain s' where s': "q_new 0x1000 \<lparr>ln_next = 7, ln_prev = 7\<rparr> ?s = Inr (0x1000, s')" "queue_ok s' 0x1000 []"
    using q_new_ok [of "0x1000" "\<lparr>ln_next = 7, ln_prev = 7\<rparr>" ?s] by auto
  then have "0x2008 \<in> dom (lnodes s')" "0x3008 \<in> dom (lnodes s')"
    by (auto simp: q_new_def init_list_head_def set_ln_next_def set_ln_prev_def upd_node_def)
  then obtain s'' where "q_run 0x1000 [Push 0x2000, Push 0x3000, Pop, Pop, Pop] s' = Inr ([0x2000, 0x3000, NULL], s'')"
    using queue_fifo [OF s'(2), of "[Push 0x2000, Push 0x3000, Pop, Pop, Pop]" "[0x2000, 0x3000, NULL]" "[]"]
    by (auto simp: link_off_def)
  then show ?thesis using s'(1) by blast
qed

section \<open>Freeing\<close>

lemma free_item_fields:
  "lnodes (free_item p s) = (lnodes s)(p + link_off := None)" "item_data (free_item p s) = (item_data s)(p := None)"
  "queues (free_item p s) = queues s"
  by (simp_all add: free_item_def)

lemma list_at_free_item:
  assumes "list_at s q xs" and "p + link_off \<notin> set (q # xs)"
  shows "list_at (free_item p s) q xs"
proof -
  have "ring (lnx (free_item p s)) (lpv (free_item p s)) (q # xs) = ring (lnx s) (lpv s) (q # xs)"
    by (rule ring_cong) (use assms(2) in \<open>auto simp: lnx_def lpv_def free_item_fields\<close>)
  then show ?thesis using assms by (auto simp: list_at_def free_item_fields)
qed

lemma item_of_link [simp]: "item_of (i + link_off) = i" "item_of p + link_off = p"
  by (simp_all add: item_of_def)

text \<open>\<open>pos\<close> is the first item, \<open>nxt\<close> the item after it; at the end both are the place of the queue.\<close>

lemma q_free_loop_ok:
  assumes "list_at s q (map (\<lambda>i. i + link_off) xs)" and "pos = item_of (hd (map (\<lambda>i. i + link_off) xs @ [q]))"
    and "xs \<noteq> [] \<longrightarrow> nxt = item_of (hd (map (\<lambda>i. i + link_off) (tl xs) @ [q]))"
  shows "\<exists>s'. q_free_loop q pos nxt s = Some (Inr s') \<and> dom (lnodes s') = dom (lnodes s) - (\<lambda>i. i + link_off) ` set xs \<and>
    dom (item_data s') = dom (item_data s) - set xs \<and> queues s' = queues s"
  using assms
proof (induction xs arbitrary: s pos nxt)
  case Nil
  then show ?case by (subst q_free_loop.simps) simp
next
  case (Cons x xs)
  let ?l = "map (\<lambda>i. i + link_off) xs"
  have pos: "pos = x" and nxt: "nxt + link_off = hd (?l @ [q])" using Cons.prems(2,3) by simp_all
  have l: "list_at s q ((x + link_off) # ?l)" using Cons.prems(1) by simp
  then have d: "x + link_off \<noteq> q" "x + link_off \<notin> set (q # ?l)" by (auto simp: list_at_def ring_def)
  obtain s1 where s1: "list_del (x + link_off) s = Inr s1" "list_at s1 q ?l" "dom (lnodes s1) = dom (lnodes s)"
    "queues s1 = queues s" "item_data s1 = item_data s"
    using list_del_ok [of s q "[]" "x + link_off" ?l] l by (auto simp: same_outside_def lrest_iff)
  define s2 where "s2 = free_item x s1"
  have l2: "list_at s2 q ?l" unfolding s2_def by (rule list_at_free_item [OF s1(2) d(2)])
  have "hd (?l @ [q]) \<in> set (q # ?l)" by (cases xs) auto
  then have "hd (?l @ [q]) \<in> dom (lnodes s2)" using l2 unfolding list_at_def by blast
  then obtain n where n: "get_node (nxt + link_off) s2 = Inr n" "ln_next n = lnx s2 (hd (?l @ [q]))"
    unfolding nxt using get_node_live by blast
  have "xs \<noteq> [] \<longrightarrow> item_of (ln_next n) = item_of (hd (map (\<lambda>i. i + link_off) (tl xs) @ [q]))"
  proof
    assume "xs \<noteq> []"
    then obtain y ys where xs: "xs = y # ys" by (cases xs) auto
    have "ring (lnx s2) (lpv s2) ([q] @ map (\<lambda>i. i + link_off) (y # ys))" using l2 xs by (simp add: list_at_def)
    then have "ring (lnx s2) (lpv s2) (map (\<lambda>i. i + link_off) (y # ys) @ [q])" by (rule ring_rotate)
    then have "ring (lnx s2) (lpv s2) ((y + link_off) # map (\<lambda>i. i + link_off) ys @ [q])" by simp
    from ring_next(1) [OF this] show "item_of (ln_next n) = item_of (hd (map (\<lambda>i. i + link_off) (tl xs) @ [q]))"
      using n(2) xs by (cases ys) simp_all
  qed
  moreover have nx: "nxt = item_of (hd (?l @ [q]))" using Cons.prems(3) by simp
  ultimately have "\<exists>s'. q_free_loop q nxt (item_of (ln_next n)) s2 = Some (Inr s') \<and>
      dom (lnodes s') = dom (lnodes s2) - (\<lambda>i. i + link_off) ` set xs \<and>
      dom (item_data s') = dom (item_data s2) - set xs \<and> queues s' = queues s2"
    by (intro Cons.IH [OF l2])
  then obtain s' where s': "q_free_loop q nxt (item_of (ln_next n)) s2 = Some (Inr s')"
    "dom (lnodes s') = dom (lnodes s2) - (\<lambda>i. i + link_off) ` set xs"
    "dom (item_data s') = dom (item_data s2) - set xs" "queues s' = queues s2"
    by blast
  have "q_free_loop q pos nxt s = Some (Inr s')"
    unfolding pos by (subst q_free_loop.simps) (simp only: d(1) s1(1) n(1) s'(1) if_False sum.case Let_def s2_def [symmetric])
  moreover have "dom (lnodes s2) = dom (lnodes s) - {x + link_off}" "dom (item_data s2) = dom (item_data s) - {x}" "queues s2 = queues s"
    using s1 by (simp_all add: s2_def free_item_fields)
  ultimately show ?case using s'(2-4) by (intro exI [of _ s']) auto
qed

lemma q_free_ok:
  assumes "queue_ok s q xs"
  shows "\<exists>s'. q_free q s = Inr s' \<and> dom (lnodes s') = dom (lnodes s) - {q} - (\<lambda>i. i + link_off) ` set xs \<and>
    dom (item_data s') = dom (item_data s) - set xs \<and> dom (queues s') = dom (queues s) - {q}"
proof -
  let ?l = "map (\<lambda>i. i + link_off) xs"
  have l: "list_at s q ?l" using assms by (simp add: queue_ok_def)
  then have r: "ring (lnx s) (lpv s) (q # ?l)" by (simp add: list_at_def)
  obtain h where h: "get_node q s = Inr h" "ln_next h = hd (?l @ [q])"
    using get_node_live [of q s] l ring_next(1) [OF r] by (auto simp: list_at_def)
  have "hd (?l @ [q]) \<in> set (q # ?l)" by (cases xs) auto
  then have "hd (?l @ [q]) \<in> dom (lnodes s)" using l unfolding list_at_def by blast
  then obtain n where n: "get_node (hd (?l @ [q])) s = Inr n" "ln_next n = lnx s (hd (?l @ [q]))" using get_node_live by blast
  have "xs \<noteq> [] \<longrightarrow> item_of (ln_next n) = item_of (hd (map (\<lambda>i. i + link_off) (tl xs) @ [q]))"
  proof
    assume "xs \<noteq> []"
    then obtain y ys where xs: "xs = y # ys" by (cases xs) auto
    have "ring (lnx s) (lpv s) ([q] @ ?l)" using r by simp
    then have "ring (lnx s) (lpv s) (?l @ [q])" by (rule ring_rotate)
    then have "ring (lnx s) (lpv s) ((y + link_off) # map (\<lambda>i. i + link_off) ys @ [q])" using xs by simp
    from ring_next(1) [OF this] show "item_of (ln_next n) = item_of (hd (map (\<lambda>i. i + link_off) (tl xs) @ [q]))"
      using n(2) xs by (cases ys) simp_all
  qed
  from q_free_loop_ok [OF l refl this]
  obtain s1 where s1: "q_free_loop q (item_of (hd (?l @ [q]))) (item_of (ln_next n)) s = Some (Inr s1)"
    "dom (lnodes s1) = dom (lnodes s) - (\<lambda>i. i + link_off) ` set xs"
    "dom (item_data s1) = dom (item_data s) - set xs" "queues s1 = queues s"
    by blast
  have "q_free q s = Inr (s1\<lparr>lnodes := (lnodes s1)(q := None), queues := (queues s1)(q := None)\<rparr>)"
    using h n(1) s1(1) by (simp add: q_free_def Let_def)
  then show ?thesis using s1(2-4) by auto
qed

end
