(* ===== verification/Spec2Isabelle.thy ===== *)
theory Spec2Isabelle
  imports Prelude Lock FreeList Pmm PmmProofs X86 Cte Vme VmeProofs Paging Ring Kmt KmtProofs
    Semaphores Uproc Os OsProofs Processes Forking Booting
    Klib KlibProofs Printing Ulib Amdev Input RingBuf InputProofs Font Fb Tty TtyProofs TtyLines Sd Dev
    Int64 Int64Proofs Int64Counts Libco LibcoProofs
    Fat FatProofs FatSpec Frecov FrecovProofs Snake Buddy BuddyProofs
    Ioports Gpu GpuProofs Atadisk AtadiskProofs Apic ApicProofs Ioereg Mpe
    Maze MazeProofs Decimal Pstree PstreeProofs Crepl Threados
    Nativevme NativevmeProofs Nativecte Nativeioe Nemu Bootmain BootmainProofs Blkdev Listhead Queues
begin

text \<open>
  A model of the teaching operating system of this repository and of the programs kept beside it: the
  kernel (\<open>kernel/\<close>), the abstract machine it runs on (\<open>abstract-machine/\<close>: the port to \<open>x86_64-qemu\<close>, the
  C library \<open>klib\<close> and the port to Linux), the first user program (\<open>user/\<close>), and the small programs
  \<open>libco\<close>, \<open>fatree.c\<close>, \<open>frecov\<close>, \<open>pstree\<close>, \<open>crepl\<close>, \<open>amgame\<close> and \<open>thread-os.c\<close>.

  \<^bold>\<open>How the parts interact.\<close>  The boot loader (\<open>boot/main.c\<close>) reads the kernel from the ATA disk into
  memory; \<open>trm.c\<close>, \<open>mpe.c\<close> and \<open>ioe.c\<close> start the processors and the devices.  The kernel's \<open>main\<close> then
  sets up the allocator \<open>pmm\<close>, the threads and the first process.  The allocator hands out blocks of the
  heap.  The machine layer \<open>vme.c\<close> builds page tables out of pages it gets from two function pointers,
  which \<open>uproc_init\<close> sets to the allocator; \<open>cte.c\<close> turns interrupts into an event and a saved context
  and calls the kernel's \<open>os_trap\<close>.  \<open>os_trap\<close> pushes the context on the current task, runs the handler
  of the event (page fault, system call), picks the next task of the CPU's run queue and returns its
  context.  \<open>kmt.c\<close> holds the run queues, the locks and the semaphores; \<open>uproc.c\<close> the processes.  The
  device drivers (\<open>kernel/src/dev\<close>) wait on the semaphores and use the registers of \<open>ioe.c\<close>.

  \<^bold>\<open>The kernel.\<close>
  \<^item> \<open>Prelude\<close>: machine types, results (\<open>Inl\<close> an error, \<open>Inr\<close> a value), bounded array access.
  \<^item> \<open>Lock\<close>: \<open>kernel/src/lock.c\<close>; size classes and mutual exclusion over interleaved steps.
  \<^item> \<open>FreeList\<close>, \<open>Pmm\<close>, \<open>PmmProofs\<close>: \<open>kernel/src/pmm.c\<close>; the locale \<open>block_allocator\<close> is its
    contract, and \<open>pmm_abs\<close> maps the linked lists in memory to one list of blocks per zone.
  \<^item> \<open>X86\<close>, \<open>Cte\<close>: \<open>x86.h\<close>, \<open>x86-qemu.h\<close>, \<open>trm.c\<close> (the descriptor table) and \<open>cte.c\<close>.
  \<^item> \<open>Vme\<close>, \<open>VmeProofs\<close>, \<open>Paging\<close>: \<open>vme.c\<close>.  The locale \<open>page_pool\<close> is what it needs of an
    allocator; \<open>Paging\<close> interprets it on \<open>pmm\<close>.  \<open>translate\<close> is the walk of the MMU.
  \<^item> \<open>Ring\<close>: circular lists through two pointer fields; the locale \<open>ring_store\<close>, which the tasks of
    the kernel, the coroutines of \<open>libco\<close> and the nodes of \<open>co-test.h\<close> interpret.
  \<^item> \<open>Kmt\<close>, \<open>KmtProofs\<close>, \<open>Semaphores\<close>: \<open>kmt.c\<close> and the producers and consumers of \<open>os.c\<close>.
  \<^item> \<open>Uproc\<close>, \<open>Os\<close>, \<open>OsProofs\<close>, \<open>Processes\<close>, \<open>Forking\<close>: \<open>uproc.c\<close> and \<open>os.c\<close>; system calls, page faults,
    the switch of contexts, and \<open>fork\<close> down to the contents of the pages.
  \<^item> \<open>Booting\<close>: \<open>framework/main.c\<close>; the initialisation establishes the invariants above.
  \<^item> \<open>RingBuf\<close>, \<open>Input\<close>, \<open>InputProofs\<close>: \<open>dev_input.c\<close>; the locale \<open>bounded_queue\<close> is the contract of a
    ring buffer, interpreted on the keyboard and on the terminal.
  \<^item> \<open>Font\<close>, \<open>Fb\<close>, \<open>Tty\<close>, \<open>TtyProofs\<close>, \<open>TtyLines\<close>, \<open>Sd\<close>, \<open>Dev\<close>: \<open>dev_video.c\<close>, \<open>dev_tty.c\<close>, \<open>dev_sd.c\<close> and
    \<open>dev.c\<close>: every access of the terminal is in bounds, a typed line is read back edited, bytes written to
    an ideal disk are read back.  \<open>Blkdev\<close>: the disk device on the device registers of the abstract machine
    and a drive behind its ports, which refines the device on the ideal disk.
  \<^item> \<open>Buddy\<close>, \<open>BuddyProofs\<close>: \<open>kernel/pmm.c\<close>, an earlier allocator that the build leaves out.

  \<^bold>\<open>The abstract machine.\<close>
  \<^item> \<open>Klib\<close>, \<open>KlibProofs\<close>, \<open>Printing\<close>: \<open>string.c\<close>, \<open>stdlib.c\<close>, \<open>stdio.c\<close>; strings in memory, and numbers
    printed and read back.  \<open>Ulib\<close>: \<open>user/ulib.h\<close>.  \<open>Amdev\<close>: the key codes.
  \<^item> \<open>Int64\<close>, \<open>Int64Proofs\<close>, \<open>Int64Counts\<close>: \<open>int64.c\<close>; division by shifts is division, and the counts of
    zeros count.
  \<^item> \<open>Ioports\<close>, \<open>Gpu\<close>, \<open>GpuProofs\<close>, \<open>Atadisk\<close>, \<open>AtadiskProofs\<close>, \<open>Apic\<close>, \<open>ApicProofs\<close>, \<open>Ioereg\<close>, \<open>Mpe\<close>:
    \<open>qemu/ioe.c\<close>, \<open>trm.c\<close>, \<open>mpe.c\<close>.  The proofs on the disk hold for every drive that keeps the contract
    \<open>drives_ata\<close> of the ATA commands; it says what a drive does when it is used as the standard allows (not
    busy, data due, existing sectors, LBA addresses) and nothing else.  The proofs on the interrupt
    controllers hold for every hardware that simulates a reference controller.
  \<^item> \<open>Bootmain\<close>, \<open>BootmainProofs\<close>: the boot loader on top of the same disk.
  \<^item> \<open>Nativevme\<close>, \<open>NativevmeProofs\<close>, \<open>Nativecte\<close>, \<open>Nativeioe\<close>: the port to Linux: address spaces by
    \<open>mmap\<close>, interrupts by signals, devices.  \<open>Nemu\<close>: the 32-bit descriptors and the port to NEMU.

  \<^bold>\<open>Programs.\<close>
  \<^item> \<open>Maze\<close>, \<open>MazeProofs\<close>: \<open>user/init.c\<close>, a search whose branches are processes; every schedule of them
    shows the same paths.
  \<^item> \<open>Libco\<close>, \<open>LibcoProofs\<close>, \<open>Listhead\<close>, \<open>Queues\<close>: coroutines, and the linked queue of their tests.
  \<^item> \<open>Fat\<close>, \<open>FatProofs\<close>, \<open>FatSpec\<close>, \<open>Frecov\<close>, \<open>FrecovProofs\<close>: FAT32 images, listed and recovered.
    \<open>FatSpec\<close> says what the bytes of an image hold without the definitions of the program.
  \<^item> \<open>Snake\<close> (\<open>amgame\<close>), \<open>Decimal\<close>, \<open>Pstree\<close>, \<open>PstreeProofs\<close>, \<open>Crepl\<close>, \<open>Threados\<close>.

  \<^bold>\<open>State.\<close>  The kernel's memory is a function from byte addresses to 64-bit cells, read and written at
  the addresses the code uses; strings, disk images and frame buffers are bytes.  A \<open>struct\<close> is a record
  with the same fields; structures that the code reaches through pointers (tasks, coroutines, list
  nodes, page mappings) live in a map from their addresses.  Arrays indexed by the CPU are functions of
  its number, and each operation takes the number of the CPU that runs it.  A failed assertion, a NULL
  dereference, an index out of range, undefined behaviour and a wait that nobody ends are different
  errors.

  \<^bold>\<open>Parameters.\<close>  \<open>junk\<close> is the content of uninitialised memory, \<open>stub\<close> and \<open>start\<close> are addresses of
  assembly code, \<open>kctx\<close> the registers of kernel code at a \<open>yield\<close>, \<open>clk\<close> two readings of the clock: nothing
  is assumed of them.  The hardware behind the ports is a record of functions; the drivers that poll it are
  proved on every hardware that keeps the contract of an ATA drive, or simulates the reference interrupt
  controller.  The points of
  execution of \<open>setjmp\<close>, the compiler and the loader behind \<open>crepl\<close>, the files of \<open>/proc\<close>, the addresses of
  the Linux process, its pipe and the key numbers of SDL are parameters too.

  \<^bold>\<open>Loops.\<close>  Loops that can diverge (\<open>lock\<close>, \<open>ROUND_SELF\<close>, \<open>schedule\<close>, \<open>sem_wait\<close>, the polling of a device,
  the walks over linked lists) are partial functions to \<open>option\<close>, and that they return is part of the
  theorems.  The walks of page tables and the loops of \<open>kinit\<close> recurse on a list or a count that the code
  fixes before the loop, those of the buddy tree on the index in its array.  Fuel is used where the
  recursion follows data that may be cyclic: the directories of a FAT image (for every tree of directories
  there is an amount from which on the answer is fixed), the canvas tree of the renderer, and the tree of
  processes, where twice the number of nodes is enough.  The segments of the boot loader are counted by a
  field of 16 bits, so \<open>2 ^ 16\<close> rounds are enough.

  \<^bold>\<open>What the lemmas show.\<close>  For each component an invariant and that its operations keep it (rings, free
  lists, page tables, queues, the snake), what each operation returns on every branch, and refinement of an
  abstract state where there is one (a list of free blocks, a queue, a map from pages to frames, the MMU's
  translation).  Interleavings (locks, semaphores, the start of the processors, the search in the maze) are
  step relations with invariants by rule induction.  Faults of the code are stated as lemmas as well, for
  example \<open>on_interrupt_sixth\<close>, \<open>event_round_overflow\<close>, \<open>audio_write_repeats\<close>, \<open>native_disk_last_block\<close>.

  \<^bold>\<open>Not modelled.\<close>  Assembly (trap entry, stack switches, the first sector of the boot loader) and
  single-instruction wrappers; interrupts that arrive inside the kernel between two of its critical
  sections; of the port to Linux the creation of shared memory and of processes (\<open>platform.c\<close>, \<open>mpe.c\<close>) and
  drawing, which are calls of the operating system and of SDL; \<open>crepl/teste.c\<close>, which is the output of the
  preprocessor; the preprocessor part of \<open>int64.c\<close>; test programs; \<open>sperf.c\<close>, which is empty.
\<close>

end
